(* ===== verification/Bbp_Prelude.thy ===== *)
theory Bbp_Prelude
  imports Main "HOL-Library.Word" "HOL-Library.Monad_Syntax"
begin

text \<open>
  Shared vocabulary of the development: the C integer types as words, bounded byte
  buffers (a C object given as pointer and extent), the byte-addressed memory the
  producer and the kernel share, and the little-endian codec.

  An access outside a buffer or to an unmapped address is the value \<^term>\<open>None\<close>, so
  that "this code never faults" is the statement that a result is not \<^term>\<open>None\<close>.
\<close>

unbundle bit_operations_syntax

section \<open>Types\<close>

type_synonym u8 = "8 word"
type_synonym u16 = "16 word"
type_synonym u32 = "32 word"
type_synonym u64 = "64 word"

text \<open>Memory: the mapped addresses with their bytes. \<^term>\<open>None\<close> is an unmapped byte.\<close>

type_synonym mem = "u64 \<rightharpoonup> u8"

named_theorems load_simps \<open>reads and writes of memory\<close>
named_theorems codec_simps \<open>byte codec facts\<close>

section \<open>Words\<close>

lemma of_nat_u64_eq_iff:
  "\<lbrakk>i < 2 ^ 64; j < 2 ^ 64\<rbrakk> \<Longrightarrow> (of_nat i :: u64) = of_nat j \<longleftrightarrow> i = j"
  by (simp add: word_of_nat_eq_iff take_bit_nat_eq_self)

lemma unat_of_nat_u64: "n < 2 ^ 64 \<Longrightarrow> unat (of_nat n :: u64) = n"
  by (simp add: unat_of_nat take_bit_nat_eq_self)

lemma unat_of_nat_u32: "n < 2 ^ 32 \<Longrightarrow> unat (of_nat n :: u32) = n"
  by (simp add: unat_of_nat take_bit_nat_eq_self)

lemma unat_u64_less: "unat (x :: u64) < 2 ^ 64"
  using unsigned_less [of x] by simp

lemma unat_u32_less: "unat (x :: u32) < 2 ^ 32"
  using unsigned_less [of x] by simp

lemma unat_u16_less: "unat (x :: u16) < 2 ^ 16"
  using unsigned_less [of x] by simp

lemma unat_u8_less: "unat (x :: u8) < 256"
  using unsigned_less [of x] by simp

lemma of_nat_unat_u64 [simp]: "(of_nat (unat (x :: u64)) :: u64) = x"
  by simp

lemma unat_add_u64:
  "unat (a :: u64) + unat b < 2 ^ 64 \<Longrightarrow> unat (a + b) = unat a + unat b"
  by (simp add: unat_word_ariths)

lemma unat_diff_u64: "b \<le> (a :: u64) \<Longrightarrow> unat (a - b) = unat a - unat b"
  by (simp add: unat_sub)

lemma unat_le_max_minus:
  "(\<not> (- 1 - b < (a :: u64))) \<longleftrightarrow> unat a + unat b < 2 ^ 64"
proof -
  have "unat (- 1 - b) = 2 ^ 64 - 1 - unat b"
    by (simp add: unat_diff_u64 unsigned_minus_1_eq_mask mask_eq_exp_minus_1)
  then show ?thesis
    using unat_u64_less [of b] by (auto simp: word_less_nat_alt)
qed

lemma unat_ucast_u32: "unat (ucast (x :: u32) :: u64) = unat x"
  by (simp add: unsigned_ucast_eq take_bit_nat_eq_self unsigned_less [THEN less_le_trans])

lemma unat_ucast_u16: "unat (ucast (x :: u16) :: u64) = unat x"
  by (simp add: unsigned_ucast_eq take_bit_nat_eq_self unsigned_less [THEN less_le_trans])

lemma unat_ucast_u8: "unat (ucast (x :: u8) :: u64) = unat x"
  by (simp add: unsigned_ucast_eq take_bit_nat_eq_self unsigned_less [THEN less_le_trans])

lemma unat_ucast_down:
  "unat (x :: u64) < 2 ^ LENGTH('a::len) \<Longrightarrow> unat (ucast x :: 'a word) = unat x"
  by (simp add: unsigned_ucast_eq take_bit_nat_eq_self)

lemma ucast_u32_eq_iff: "(ucast (x :: u32) :: u64) = ucast y \<longleftrightarrow> x = y"
  by (metis unat_ucast_u32 word_unat_eq_iff)

lemmas unat_less_simps = unat_u64_less unat_u32_less unat_u16_less unat_u8_less
lemmas word_nat_simps = word_le_nat_alt word_less_nat_alt

text \<open>Alignment tests \<open>x & 7\<close> of the code are divisibility by 8.\<close>

lemma and_7_eq_mod: "unat ((x :: u64) AND 7) = unat x mod 8"
proof -
  have "x AND 7 = take_bit 3 x"
    by (simp add: take_bit_eq_mask mask_eq_exp_minus_1)
  then have "unat (x AND 7) = take_bit 3 (unat x)"
    by (simp only: unsigned_take_bit_eq)
  then show ?thesis
    by (simp add: take_bit_eq_mod)
qed

lemma and_7_eq_0_iff: "(x :: u64) AND 7 = 0 \<longleftrightarrow> 8 dvd unat x"
  using and_7_eq_mod [of x] by (metis dvd_eq_mod_eq_0 unat_eq_zero)

text \<open>Masking with a power of two minus one, and with its complement.\<close>

lemma unat_and_pred:
  assumes "unat (m :: u64) = 2 ^ k - 1"
  shows "unat (x AND m) = unat x mod 2 ^ k"
  by (simp only: unsigned_and_eq assms mask_eq_exp_minus_1 [symmetric] take_bit_eq_mask [symmetric]
      take_bit_eq_mod)

lemma unat_and_not_mask:
  assumes "unat (m :: u64) = 2 ^ k - 1" "k < 64"
  shows "unat (x AND NOT m) = unat x div 2 ^ k * 2 ^ k"
proof -
  have "m = of_nat (mask k)"
    using assms(1) by (metis mask_eq_exp_minus_1 of_nat_unat ucast_id)
  then have m: "m = mask k"
    by (simp add: of_nat_mask_eq)
  have "x AND NOT m = push_bit k (drop_bit k x)"
    unfolding m by (rule bit_word_eqI) (auto simp: bit_simps)
  then have "unat (x AND NOT m) = take_bit 64 (push_bit k (drop_bit k (unat x)))"
    using unat_u64_less [of x] by (simp add: unsigned_push_bit_eq unsigned_drop_bit_eq take_bit_nat_eq_self)
  also have "\<dots> = unat x div 2 ^ k * 2 ^ k"
  proof -
    have "unat x div 2 ^ k * 2 ^ k < 2 ^ 64"
      using unat_u64_less [of x] by (meson div_times_less_eq_dividend le_less_trans)
    then show ?thesis
      by (simp add: push_bit_eq_mult drop_bit_eq_div take_bit_nat_eq_self)
  qed
  finally show ?thesis .
qed

text \<open>Rounding up to a multiple of 8, as \<open>(x + 7) & ~7\<close>.\<close>

lemma unat_and_not_7: "unat ((x :: u64) AND NOT 7) = unat x div 8 * 8"
  using unat_and_not_mask [of 7 3 x] by simp

section \<open>Little-endian codec\<close>

text \<open>
  \<open>get_le\<close> is the loop \<open>value |= p[i] << (8 * i)\<close> and \<open>put_le\<close> the loop
  \<open>p[i] = value >> (8 * i)\<close>; the 16 and 32 bit readers of the sources are the first one
  unrolled.
\<close>

definition get_le :: "u8 list \<Rightarrow> 'a::len word" where
  "get_le ps = fold (\<lambda>i v. v OR push_bit (8 * i) (ucast (ps ! i))) [0..<length ps] 0"

definition put_le :: "nat \<Rightarrow> 'a::len word \<Rightarrow> u8 list" where
  "put_le n v = map (\<lambda>i. ucast (drop_bit (8 * i) v)) [0..<n]"

lemma length_put_le [simp]: "length (put_le n v) = n"
  by (simp add: put_le_def)

lemma bit_get_le_aux:
  "k \<le> length (ps :: u8 list) \<Longrightarrow>
   bit (fold (\<lambda>i v. v OR push_bit (8 * i) (ucast (ps ! i))) [0..<k] (0 :: 'a::len word)) n
   \<longleftrightarrow> n < LENGTH('a) \<and> n div 8 < k \<and> bit (ps ! (n div 8)) (n mod 8)"
proof (induction k)
  case 0
  then show ?case by simp
next
  case (Suc k)
  have "8 * k \<le> n \<and> n - 8 * k < 8 \<longleftrightarrow> n div 8 = k"
    by auto
  moreover have "n div 8 = k \<Longrightarrow> n - 8 * k = n mod 8"
    by (simp add: minus_mult_div_eq_mod [symmetric])
  moreover have "bit (ps ! k) (n - 8 * k) \<Longrightarrow> n - 8 * k < 8"
    using bit_imp_le_length [of "ps ! k"] by simp
  ultimately show ?case
    using Suc by (auto simp: bit_simps less_Suc_eq)
qed

lemma bit_get_le [codec_simps]:
  "bit (get_le ps :: 'a::len word) n \<longleftrightarrow>
     n < LENGTH('a) \<and> n div 8 < length ps \<and> bit (ps ! (n div 8)) (n mod 8)"
  unfolding get_le_def by (rule bit_get_le_aux) simp

lemma nth_put_le: "i < n \<Longrightarrow> put_le n v ! i = ucast (drop_bit (8 * i) v)"
  by (simp add: put_le_def)

lemma get_put_le:
  assumes "LENGTH('a::len) \<le> 8 * n"
  shows "get_le (put_le n (v :: 'a word)) = v"
proof (rule bit_word_eqI)
  fix k assume "k < LENGTH('a)"
  moreover from this assms have "k div 8 < n" by linarith
  ultimately show "bit (get_le (put_le n v) :: 'a word) k \<longleftrightarrow> bit v k"
    by (simp add: bit_get_le nth_put_le bit_simps)
qed

lemma put_get_le:
  assumes "8 * length ps \<le> LENGTH('a::len)"
  shows "put_le (length ps) (get_le ps :: 'a word) = ps"
proof (rule nth_equalityI)
  fix i assume i: "i < length (put_le (length ps) (get_le ps :: 'a word))"
  show "put_le (length ps) (get_le ps :: 'a word) ! i = ps ! i"
  proof (rule bit_word_eqI)
    fix k assume "k < LENGTH(8)"
    then have "k < 8" by simp
    moreover from this i assms have "8 * i + k < LENGTH('a)" by simp
    moreover from calculation have "(8 * i + k) div 8 = i" "(8 * i + k) mod 8 = k" by auto
    ultimately show "bit (put_le (length ps) (get_le ps :: 'a word) ! i) k \<longleftrightarrow> bit (ps ! i) k"
      using i by (simp add: nth_put_le bit_simps bit_get_le)
  qed
qed simp

text \<open>The interface the wire formats rely on, and its instances at the three widths.\<close>

locale byte_codec =
  fixes width :: nat
    and enc :: "'a \<Rightarrow> u8 list"
    and dec :: "u8 list \<Rightarrow> 'a"
  assumes enc_length: "length (enc v) = width"
    and dec_enc: "dec (enc v) = v"
    and enc_dec: "length ps = width \<Longrightarrow> enc (dec ps) = ps"
begin

lemma enc_inject: "enc v = enc w \<longleftrightarrow> v = w"
  using dec_enc by metis

lemma dec_inject: "\<lbrakk>length ps = width; length qs = width\<rbrakk> \<Longrightarrow> dec ps = dec qs \<longleftrightarrow> ps = qs"
  using enc_dec by metis

lemma dec_enc_append: "dec (take width (enc v @ qs)) = v"
  by (simp add: enc_length dec_enc)

end

lemma put_get_le_16: "length ps = 2 \<Longrightarrow> put_le 2 (get_le ps :: u16) = ps"
  using put_get_le [where 'a = 16, of ps] by simp

interpretation le16: byte_codec 2 "put_le 2 :: u16 \<Rightarrow> _" get_le
  by unfold_locales (auto simp: get_put_le put_get_le_16)

lemma put_get_le_32: "length ps = 4 \<Longrightarrow> put_le 4 (get_le ps :: u32) = ps"
  using put_get_le [where 'a = 32, of ps] by simp

interpretation le32: byte_codec 4 "put_le 4 :: u32 \<Rightarrow> _" get_le
  by unfold_locales (auto simp: get_put_le put_get_le_32)

lemma put_get_le_64: "length ps = 8 \<Longrightarrow> put_le 8 (get_le ps :: u64) = ps"
  using put_get_le [where 'a = 64, of ps] by simp

interpretation le64: byte_codec 8 "put_le 8 :: u64 \<Rightarrow> _" get_le
  by unfold_locales (auto simp: get_put_le put_get_le_64)

section \<open>Bounded buffers\<close>

text \<open>
  A byte object of known extent is a list. \<open>rd\<close> reads \<open>n\<close> bytes at an offset and is
  \<^term>\<open>None\<close> when they are not all inside the object; \<open>wr\<close> overwrites in place.
\<close>

definition rd :: "u8 list \<Rightarrow> nat \<Rightarrow> nat \<Rightarrow> u8 list option" where
  "rd buf off n = (if off + n \<le> length buf then Some (take n (drop off buf)) else None)"

definition wr :: "u8 list \<Rightarrow> nat \<Rightarrow> u8 list \<Rightarrow> u8 list option" where
  "wr buf off ps =
     (if off + length ps \<le> length buf
      then Some (take off buf @ ps @ drop (off + length ps) buf) else None)"

definition get8 :: "u8 list \<Rightarrow> nat \<Rightarrow> u8 option" where
  "get8 buf off = (if off < length buf then Some (buf ! off) else None)"

definition get16 :: "u8 list \<Rightarrow> nat \<Rightarrow> u16 option" where
  "get16 buf off = map_option get_le (rd buf off 2)"

definition get32 :: "u8 list \<Rightarrow> nat \<Rightarrow> u32 option" where
  "get32 buf off = map_option get_le (rd buf off 4)"

definition get64 :: "u8 list \<Rightarrow> nat \<Rightarrow> u64 option" where
  "get64 buf off = map_option get_le (rd buf off 8)"

definition put16 :: "u8 list \<Rightarrow> nat \<Rightarrow> u16 \<Rightarrow> u8 list option" where
  "put16 buf off v = wr buf off (put_le 2 v)"

definition put32 :: "u8 list \<Rightarrow> nat \<Rightarrow> u32 \<Rightarrow> u8 list option" where
  "put32 buf off v = wr buf off (put_le 4 v)"

definition put64 :: "u8 list \<Rightarrow> nat \<Rightarrow> u64 \<Rightarrow> u8 list option" where
  "put64 buf off v = wr buf off (put_le 8 v)"

lemma rd_eq_Some_iff:
  "rd buf off n = Some ps \<longleftrightarrow> off + n \<le> length buf \<and> ps = take n (drop off buf)"
  by (auto simp: rd_def)

lemma length_rd: "rd buf off n = Some ps \<Longrightarrow> length ps = n"
  by (auto simp: rd_def split: if_splits)

lemma rd_ex: "off + n \<le> length buf \<Longrightarrow> \<exists>ps. rd buf off n = Some ps"
  by (simp add: rd_def)

lemma get_ex:
  "off + 1 \<le> length buf \<Longrightarrow> \<exists>v. get8 buf off = Some v"
  "off + 2 \<le> length buf \<Longrightarrow> \<exists>v. get16 buf off = Some v"
  "off + 4 \<le> length buf \<Longrightarrow> \<exists>v. get32 buf off = Some v"
  "off + 8 \<le> length buf \<Longrightarrow> \<exists>v. get64 buf off = Some v"
  by (simp_all add: get8_def get16_def get32_def get64_def rd_def)

lemma wr_length: "wr buf off ps = Some buf' \<Longrightarrow> length buf' = length buf"
  by (auto simp: wr_def split: if_splits)

lemma rd_wr_same:
  "wr buf off ps = Some buf' \<Longrightarrow> n = length ps \<Longrightarrow> rd buf' off n = Some ps"
  by (auto simp: wr_def rd_def split: if_splits)

lemma wr_nth:
  assumes "wr buf off ps = Some buf'" and "i < length buf"
  shows "buf' ! i = (if off \<le> i \<and> i < off + length ps then ps ! (i - off) else buf ! i)"
  using assms by (auto simp: wr_def nth_append min_def split: if_splits)

lemma rd_wr_disjoint:
  assumes w: "wr buf off ps = Some buf'" and d: "o' + n \<le> off \<or> off + length ps \<le> o'"
  shows "rd buf' o' n = rd buf o' n"
proof (cases "o' + n \<le> length buf")
  case True
  have "take n (drop o' buf') = take n (drop o' buf)"
    using True d by (intro nth_equalityI) (auto simp: wr_length [OF w] wr_nth [OF w])
  then show ?thesis
    by (simp add: rd_def wr_length [OF w])
qed (simp add: rd_def wr_length [OF w])

section \<open>Memory\<close>

text \<open>
  Pointers are 64-bit addresses and pointer arithmetic wraps. \<open>load\<close> reads a range and
  \<open>store\<close> writes one; each faults (\<^term>\<open>None\<close>) when a byte of the range is unmapped.
\<close>

definition load :: "mem \<Rightarrow> u64 \<Rightarrow> nat \<Rightarrow> u8 list option" where
  "load m a n = those (map (\<lambda>i. m (a + of_nat i)) [0..<n])"

definition store :: "mem \<Rightarrow> u64 \<Rightarrow> u8 list \<Rightarrow> mem option" where
  "store m a ps =
     (if list_all (\<lambda>i. m (a + of_nat i) \<noteq> None) [0..<length ps]
      then Some (\<lambda>x. if unat (x - a) < length ps then Some (ps ! unat (x - a)) else m x)
      else None)"

definition mapped :: "mem \<Rightarrow> u64 \<Rightarrow> nat \<Rightarrow> bool" where
  "mapped m a n \<longleftrightarrow> (\<forall>i<n. m (a + of_nat i) \<noteq> None)"

definition disj :: "u64 \<Rightarrow> nat \<Rightarrow> u64 \<Rightarrow> nat \<Rightarrow> bool" where
  "disj a n b k \<longleftrightarrow> (\<forall>i<n. \<forall>j<k. a + of_nat i \<noteq> b + of_nat j)"

definition ld16 :: "mem \<Rightarrow> u64 \<Rightarrow> u16 option" where
  "ld16 m a = map_option get_le (load m a 2)"

definition ld32 :: "mem \<Rightarrow> u64 \<Rightarrow> u32 option" where
  "ld32 m a = map_option get_le (load m a 4)"

definition ld64 :: "mem \<Rightarrow> u64 \<Rightarrow> u64 option" where
  "ld64 m a = map_option get_le (load m a 8)"

definition st16 :: "mem \<Rightarrow> u64 \<Rightarrow> u16 \<Rightarrow> mem option" where
  "st16 m a v = store m a (put_le 2 v)"

definition st32 :: "mem \<Rightarrow> u64 \<Rightarrow> u32 \<Rightarrow> mem option" where
  "st32 m a v = store m a (put_le 4 v)"

definition st64 :: "mem \<Rightarrow> u64 \<Rightarrow> u64 \<Rightarrow> mem option" where
  "st64 m a v = store m a (put_le 8 v)"

lemma those_eq_Some_iff:
  "those xs = Some ys \<longleftrightarrow> length ys = length xs \<and> (\<forall>i<length xs. xs ! i = Some (ys ! i))"
proof (induction xs arbitrary: ys)
  case (Cons x xs)
  show ?case
  proof (cases ys)
    case (Cons y ys')
    with Cons.IH show ?thesis
      by (auto split: option.splits simp: nth_Cons less_Suc_eq_0_disj)
  qed (auto split: option.splits)
qed auto

lemma load_eq_Some_iff:
  "load m a n = Some ps \<longleftrightarrow> length ps = n \<and> (\<forall>i<n. m (a + of_nat i) = Some (ps ! i))"
  by (auto simp: load_def those_eq_Some_iff)

lemma load_length: "load m a n = Some ps \<Longrightarrow> length ps = n"
  by (simp add: load_eq_Some_iff)

lemma load_ex_iff: "(\<exists>ps. load m a n = Some ps) \<longleftrightarrow> mapped m a n"
proof
  assume "mapped m a n"
  then have "load m a n = Some (map (\<lambda>i. the (m (a + of_nat i))) [0..<n])"
    by (auto simp: load_eq_Some_iff mapped_def)
  then show "\<exists>ps. load m a n = Some ps" by blast
qed (auto simp: load_eq_Some_iff mapped_def)

lemma load_ne_None_iff: "load m a n \<noteq> None \<longleftrightarrow> mapped m a n"
  using load_ex_iff [of m a n] by auto

lemma ld_ex:
  "mapped m a 2 \<Longrightarrow> \<exists>v. ld16 m a = Some v"
  "mapped m a 4 \<Longrightarrow> \<exists>v. ld32 m a = Some v"
  "mapped m a 8 \<Longrightarrow> \<exists>v. ld64 m a = Some v"
  unfolding ld16_def ld32_def ld64_def load_ex_iff [symmetric] by auto

lemma mapped_0 [simp]: "mapped m a 0"
  by (simp add: mapped_def)

lemma mapped_sub:
  assumes "mapped m a n" and "off + k \<le> n"
  shows "mapped m (a + of_nat off) k"
  unfolding mapped_def
proof (intro allI impI)
  fix i assume "i < k"
  with assms have "m (a + of_nat (off + i)) \<noteq> None"
    unfolding mapped_def by (metis add_less_cancel_left less_le_trans)
  then show "m (a + of_nat off + of_nat i) \<noteq> None"
    by (simp add: add.assoc)
qed

lemma mapped_prefix: "mapped m a n \<Longrightarrow> k \<le> n \<Longrightarrow> mapped m a k"
  by (simp add: mapped_def)

lemma mapped_at: "mapped m a n \<Longrightarrow> unat (d :: u64) + k \<le> n \<Longrightarrow> mapped m (a + d) k"
  using mapped_sub [of m a n "unat d" k] by simp

lemma mapped_ld:
  "mapped m a n \<Longrightarrow> unat (d :: u64) + 2 \<le> n \<Longrightarrow> \<exists>v. ld16 m (a + d) = Some v"
  "mapped m a n \<Longrightarrow> unat d + 4 \<le> n \<Longrightarrow> \<exists>v. ld32 m (a + d) = Some v"
  "mapped m a n \<Longrightarrow> unat d + 8 \<le> n \<Longrightarrow> \<exists>v. ld64 m (a + d) = Some v"
  "mapped m a n \<Longrightarrow> unat d + k \<le> n \<Longrightarrow> \<exists>ps. load m (a + d) k = Some ps"
  by (simp_all add: mapped_at ld_ex load_ex_iff)

lemma load_sub:
  assumes "load m a n = Some ps" and "off + k \<le> n"
  shows "load m (a + of_nat off) k = Some (take k (drop off ps))"
proof -
  have "m (a + of_nat off + of_nat i) = Some (ps ! (off + i))" if "i < k" for i
    using assms that by (simp add: load_eq_Some_iff add.assoc flip: of_nat_add)
  with assms show ?thesis
    by (auto simp: load_eq_Some_iff)
qed

lemma ld_of_load:
  assumes "load m a n = Some ps"
  shows "unat d + 2 \<le> n \<Longrightarrow> ld16 m (a + d) = Some (get_le (take 2 (drop (unat d) ps)))"
    and "unat d + 4 \<le> n \<Longrightarrow> ld32 m (a + d) = Some (get_le (take 4 (drop (unat d) ps)))"
    and "unat d + 8 \<le> n \<Longrightarrow> ld64 m (a + d) = Some (get_le (take 8 (drop (unat d) ps)))"
  using load_sub [OF assms, of "unat d"] by (simp_all add: ld16_def ld32_def ld64_def)

lemma load_append:
  assumes "load m a n = Some ps" and "load m (a + of_nat n) k = Some qs"
  shows "load m a (n + k) = Some (ps @ qs)"
proof -
  have "m (a + of_nat i) = Some ((ps @ qs) ! i)" if "i < n + k" for i
  proof (cases "i < n")
    case False
    have "\<forall>j<k. m (a + of_nat n + of_nat j) = Some (qs ! j)"
      using assms(2) by (simp add: load_eq_Some_iff)
    then have "m (a + of_nat n + of_nat (i - n)) = Some (qs ! (i - n))"
      using False that by (metis add_diff_inverse_nat nat_add_left_cancel_less)
    moreover have "a + of_nat n + of_nat (i - n) = a + of_nat i"
      using False by (simp add: add.assoc)
    ultimately show ?thesis
      using False assms(1) by (simp add: nth_append load_eq_Some_iff)
  qed (use assms in \<open>simp add: load_eq_Some_iff nth_append\<close>)
  with assms show ?thesis by (simp add: load_eq_Some_iff)
qed

lemma load_cong:
  "(\<And>i. i < n \<Longrightarrow> m (a + of_nat i) = m' (a + of_nat i)) \<Longrightarrow> load m a n = load m' a n"
  by (auto simp: load_def intro!: arg_cong [where f = those])

lemma store_ex_iff: "(\<exists>m'. store m a ps = Some m') \<longleftrightarrow> mapped m a (length ps)"
  by (auto simp: store_def mapped_def list_all_iff)

lemma store_alt:
  "store m a ps = (if mapped m a (length ps)
     then Some (\<lambda>x. if unat (x - a) < length ps then Some (ps ! unat (x - a)) else m x) else None)"
  by (auto simp: store_def mapped_def list_all_iff)

lemma store_frame:
  assumes "store m a ps = Some m'" and "\<And>j. j < length ps \<Longrightarrow> x \<noteq> a + of_nat j"
  shows "m' x = m x"
proof -
  have "\<not> unat (x - a) < length ps"
    using assms(2) [of "unat (x - a)"] by auto
  with assms(1) show ?thesis
    by (auto simp: store_def split: if_splits)
qed

lemma store_nth:
  assumes "store m a ps = Some m'" and "i < length ps" and "length ps \<le> 2 ^ 64"
  shows "m' (a + of_nat i) = Some (ps ! i)"
  using assms by (auto simp: store_def unat_of_nat_u64 split: if_splits)

lemma store_mapped_iff:
  assumes "store m a ps = Some m'"
  shows "m' x = None \<longleftrightarrow> m x = None"
proof -
  have h: "\<forall>i<length ps. m (a + of_nat i) \<noteq> None"
    using assms by (auto simp: store_def list_all_iff split: if_splits)
  have "m x \<noteq> None" if "unat (x - a) < length ps"
    using h [rule_format, OF that] by simp
  with assms show ?thesis
    by (auto simp: store_def split: if_splits)
qed

lemma mapped_store [load_simps]:
  "store m a ps = Some m' \<Longrightarrow> mapped m' b n \<longleftrightarrow> mapped m b n"
  by (simp add: mapped_def store_mapped_iff)

lemma load_store_same:
  "store m a ps = Some m' \<Longrightarrow> length ps \<le> 2 ^ 64 \<Longrightarrow> load m' a (length ps) = Some ps"
  by (simp add: load_eq_Some_iff store_nth)

lemma load_store_disj:
  assumes "store m a ps = Some m'" and "disj b n a (length ps)"
  shows "load m' b n = load m b n"
  using assms by (intro load_cong store_frame) (auto simp: disj_def)

lemma disj_sym: "disj a n b k \<longleftrightarrow> disj b k a n"
  unfolding disj_def by metis

lemma disj_mono: "disj a n b k \<Longrightarrow> n' \<le> n \<Longrightarrow> k' \<le> k \<Longrightarrow> disj a n' b k'"
  unfolding disj_def by (meson less_le_trans)

lemma disj_sub:
  assumes "disj a n b k" and "off + n' \<le> n"
  shows "disj (a + of_nat off) n' b k"
  unfolding disj_def
proof (intro allI impI)
  fix i j assume "i < n'" "j < k"
  with assms have "a + of_nat (off + i) \<noteq> b + of_nat j"
    unfolding disj_def by (metis add_less_cancel_left less_le_trans)
  then show "a + of_nat off + of_nat i \<noteq> b + of_nat j"
    by (simp add: add.assoc)
qed

text \<open>Two ranges given as offsets from one base do not meet when the offsets do not.\<close>

lemma disj_offsets:
  assumes "s + n \<le> t \<or> t + k \<le> s" and "s + n \<le> 2 ^ 64" and "t + k \<le> 2 ^ 64"
  shows "disj (a + of_nat s) n (a + of_nat t) k"
  unfolding disj_def
proof (intro allI impI)
  fix i j assume "i < n" "j < k"
  then have "(of_nat (s + i) :: u64) \<noteq> of_nat (t + j)"
    using assms by (subst of_nat_u64_eq_iff) auto
  then show "a + of_nat s + of_nat i \<noteq> a + of_nat t + of_nat j"
    by (simp add: add.assoc flip: of_nat_add)
qed

text \<open>Byte loops are one range store.\<close>

lemma disj_apart:
  assumes "unat a + n \<le> unat b \<or> unat b + k \<le> unat a" "unat a + n \<le> 2 ^ 64" "unat b + k \<le> 2 ^ 64"
  shows "disj a n b k"
  using disj_offsets [of "unat a" n "unat b" k 0] assms by simp

lemma store_Cons:
  assumes "Suc (length vs) \<le> 2 ^ 64"
  shows "do { m' \<leftarrow> store m a [v]; store m' (a + 1) vs } = store m a (v # vs)"
proof (cases "m a = None")
  case False
  let ?m = "\<lambda>x. if unat (x - a) < 1 then Some ([v] ! unat (x - a)) else m x"
  have 1: "store m a [v] = Some ?m"
    using False by (simp add: store_def)
  have "mapped ?m (a + 1) (length vs) \<longleftrightarrow> mapped m (a + of_nat 1) (length vs)"
    using mapped_store [OF 1] by simp
  also have "\<dots> \<longleftrightarrow> mapped m a (Suc (length vs))"
    unfolding mapped_def using False
    by (auto simp: less_Suc_eq_0_disj algebra_simps)
  finally have 2: "mapped ?m (a + 1) (length vs) \<longleftrightarrow> mapped m a (Suc (length vs))" .
  have 3: "(if unat (x - (a + 1)) < length vs then Some (vs ! unat (x - (a + 1))) else ?m x) =
      (if unat (x - a) < Suc (length vs) then Some ((v # vs) ! unat (x - a)) else m x)" for x
  proof (cases "x = a")
    case True
    have "unat (- 1 :: u64) = 2 ^ 64 - 1"
      by (simp add: unsigned_minus_1_eq_mask mask_eq_exp_minus_1)
    then show ?thesis using True assms by auto
  next
    case False
    then have "1 \<le> x - a" by (metis eq_iff_diff_eq_0 word_le_0_iff not_less_iff_gr_or_eq
          word_neq_0_conv word_less_1 linorder_not_le)
    then have "unat (x - (a + 1)) = unat (x - a) - 1"
      using unat_diff_u64 [of 1 "x - a"] by (simp add: diff_diff_eq)
    moreover have "unat (x - a) \<noteq> 0"
      using False by (simp add: unat_eq_0)
    ultimately show ?thesis
      by (auto simp: nth_Cons split: nat.split)
  qed
  have "store ?m (a + 1) vs = (if mapped ?m (a + 1) (length vs)
      then Some (\<lambda>x. if unat (x - (a + 1)) < length vs then Some (vs ! unat (x - (a + 1))) else ?m x)
      else None)"
    by (rule store_alt)
  also have "\<dots> = store m a (v # vs)"
    unfolding store_alt [of m a "v # vs"] 2 3 by simp
  finally show ?thesis
    unfolding 1 by simp
next
  case True
  then have "\<not> mapped m a (Suc (length vs))" "\<not> mapped m a (Suc 0)"
    unfolding mapped_def by (auto intro: exI [of _ 0])
  then show ?thesis
    by (simp add: store_alt [of m a "v # vs"] store_alt [of m a "[v]"])
qed

lemma store_append:
  assumes "length xs + length ys \<le> 2 ^ 64"
  shows "do { m' \<leftarrow> store m a xs; store m' (a + of_nat (length xs)) ys } = store m a (xs @ ys)"
  using assms
proof (induction xs arbitrary: m a)
  case Nil
  then show ?case by (simp add: store_def)
next
  case (Cons x xs)
  have "do { m' \<leftarrow> store m a (x # xs); store m' (a + of_nat (length (x # xs))) ys } =
      do { m' \<leftarrow> store m a [x]; m'' \<leftarrow> store m' (a + 1) xs; store m'' (a + 1 + of_nat (length xs)) ys }"
    using Cons.prems
    by (subst store_Cons [of xs, symmetric]) (simp_all add: bind_assoc algebra_simps)
  also have "\<dots> = do { m' \<leftarrow> store m a [x]; store m' (a + 1) (xs @ ys) }"
    using Cons by simp
  also have "\<dots> = store m a ((x # xs) @ ys)"
    using Cons.prems by (simp add: store_Cons)
  finally show ?case .
qed

text \<open>Frame rules for ranges given as offsets from one base.\<close>

lemma load_store_offsets:
  assumes "store m (a + of_nat s) ps = Some m'" "s + length ps \<le> t \<or> t + n \<le> s"
    and "s + length ps \<le> 2 ^ 64" "t + n \<le> 2 ^ 64"
  shows "load m' (a + of_nat t) n = load m (a + of_nat t) n"
  using assms by (intro load_store_disj [OF assms(1)] disj_offsets) auto

text \<open>A store inside a range that is read as a whole.\<close>

lemma load_store_within:
  assumes "store m (a + of_nat d) qs = Some m'" "load m a n = Some ps"
    and "d + length qs \<le> n" "n \<le> 2 ^ 64"
  shows "load m' a n = Some (take d ps @ qs @ drop (d + length qs) ps)"
proof -
  have "m' (a + of_nat i) = Some ((take d ps @ qs @ drop (d + length qs) ps) ! i)" if "i < n" for i
  proof (cases "d \<le> i \<and> i < d + length qs")
    case True
    have "\<forall>j<length qs. m' (a + of_nat d + of_nat j) = Some (qs ! j)"
      using assms by (auto intro: store_nth)
    moreover have "i - d < length qs"
      using True by auto
    ultimately have "m' (a + of_nat d + of_nat (i - d)) = Some (qs ! (i - d))"
      by blast
    moreover have "a + of_nat d + of_nat (i - d) = a + of_nat i"
      using True by (simp add: add.assoc)
    ultimately show ?thesis
      using True \<open>i - d < length qs\<close> assms load_length [OF assms(2)] by (simp add: nth_append)
  next
    case False
    have "a + of_nat i \<noteq> a + of_nat d + of_nat j" if "j < length qs" for j
    proof -
      have "(of_nat i :: u64) \<noteq> of_nat (d + j)"
        using that False \<open>i < n\<close> assms by (subst of_nat_u64_eq_iff) auto
      then show ?thesis by (simp add: add.assoc)
    qed
    then have "m' (a + of_nat i) = m (a + of_nat i)"
      using store_frame [OF assms(1)] by blast
    then show ?thesis
      using False that assms load_length [OF assms(2)]
      by (auto simp: load_eq_Some_iff nth_append)
  qed
  then show ?thesis
    using assms load_length [OF assms(2)] by (simp add: load_eq_Some_iff)
qed

text \<open>Two memories that agree on a range, the frame of every operation.\<close>

definition same :: "mem \<Rightarrow> mem \<Rightarrow> u64 \<Rightarrow> nat \<Rightarrow> bool" where
  "same m m' a n \<longleftrightarrow> (\<forall>i<n. m' (a + of_nat i) = m (a + of_nat i))"

lemma same_refl [simp]: "same m m a n"
  by (simp add: same_def)

lemma same_trans: "same m m' a n \<Longrightarrow> same m' m'' a n \<Longrightarrow> same m m'' a n"
  by (simp add: same_def)

lemma same_sub: "same m m' a n \<Longrightarrow> d + k \<le> n \<Longrightarrow> same m m' (a + of_nat d) k"
proof -
  assume "same m m' a n" "d + k \<le> n"
  then have "m' (a + of_nat (d + i)) = m (a + of_nat (d + i))" if "i < k" for i
    unfolding same_def using that by (metis add_less_cancel_left less_le_trans)
  then show ?thesis by (simp add: same_def add.assoc)
qed

lemma same_at: "same m m' a n \<Longrightarrow> unat (d :: u64) + k \<le> n \<Longrightarrow> same m m' (a + d) k"
  using same_sub [of m m' a n "unat d" k] by simp

lemma same_load_all: "same m m' a n \<Longrightarrow> load m' a n = load m a n"
  by (rule load_cong) (simp add: same_def)

lemma same_load:
  "same m m' a n \<Longrightarrow> unat (d :: u64) + k \<le> n \<Longrightarrow> load m' (a + d) k = load m (a + d) k"
  by (blast intro: same_load_all same_at)

lemma same_ld:
  "same m m' a n \<Longrightarrow> unat (d :: u64) + 2 \<le> n \<Longrightarrow> ld16 m' (a + d) = ld16 m (a + d)"
  "same m m' a n \<Longrightarrow> unat d + 4 \<le> n \<Longrightarrow> ld32 m' (a + d) = ld32 m (a + d)"
  "same m m' a n \<Longrightarrow> unat d + 8 \<le> n \<Longrightarrow> ld64 m' (a + d) = ld64 m (a + d)"
  by (simp_all add: ld16_def ld32_def ld64_def same_load)

lemma same_store:
  assumes "store m a ps = Some m'" "disj b n a (length ps)"
  shows "same m m' b n"
  unfolding same_def
proof (intro allI impI)
  fix i assume "i < n"
  with assms(2) show "m' (b + of_nat i) = m (b + of_nat i)"
    by (intro store_frame [OF assms(1)]) (auto simp: disj_def)
qed

lemma same_store_offsets:
  assumes "store m (a + of_nat s) ps = Some m'" "s + length ps \<le> t \<or> t + n \<le> s"
    and "s + length ps \<le> 2 ^ 64" "t + n \<le> 2 ^ 64"
  shows "same m m' (a + of_nat t) n"
  using assms by (intro same_store [OF assms(1)] disj_offsets) auto

text \<open>Two memories with the same mapped addresses.\<close>

definition same_dom :: "mem \<Rightarrow> mem \<Rightarrow> bool" where
  "same_dom m m' \<longleftrightarrow> dom m' = dom m"

lemma same_dom_refl [simp]: "same_dom m m"
  by (simp add: same_dom_def)

lemma same_dom_trans: "same_dom m m' \<Longrightarrow> same_dom m' m'' \<Longrightarrow> same_dom m m''"
  by (simp add: same_dom_def)

lemma same_dom_store: "store m a ps = Some m' \<Longrightarrow> same_dom m m'"
  unfolding same_dom_def dom_def using store_mapped_iff by auto

lemma same_dom_mapped: "same_dom m m' \<Longrightarrow> mapped m' a n = mapped m a n"
  unfolding same_dom_def mapped_def by (metis domIff)

lemma store_ok: "mapped m a (length ps) \<Longrightarrow> \<exists>m'. store m a ps = Some m'"
  by (simp add: store_ex_iff)

text \<open>The addresses of a range, and what an operation may have changed.\<close>

definition span :: "u64 \<Rightarrow> nat \<Rightarrow> u64 set" where
  "span a n = (\<lambda>j. a + of_nat j) ` {..<n}"

definition frame :: "mem \<Rightarrow> mem \<Rightarrow> u64 set \<Rightarrow> bool" where
  "frame m m' S \<longleftrightarrow> (\<forall>x. x \<notin> S \<longrightarrow> m' x = m x)"

lemma frame_refl [simp]: "frame m m S"
  by (simp add: frame_def)

lemma frame_trans: "frame m m' S \<Longrightarrow> frame m' m'' T \<Longrightarrow> frame m m'' (S \<union> T)"
  by (simp add: frame_def)

lemma frame_mono: "frame m m' S \<Longrightarrow> S \<subseteq> T \<Longrightarrow> frame m m' T"
  by (auto simp: frame_def)

lemma frame_store: "store m a ps = Some m' \<Longrightarrow> frame m m' (span a (length ps))"
  unfolding frame_def span_def by (auto intro: store_frame)

lemma frame_same: "frame m m' S \<Longrightarrow> span a n \<inter> S = {} \<Longrightarrow> same m m' a n"
  unfolding frame_def same_def span_def by blast

lemma span_mono: "n \<le> k \<Longrightarrow> span a n \<subseteq> span a k"
  unfolding span_def by (intro image_mono) auto

lemma span_sub: "d + n \<le> k \<Longrightarrow> span (a + of_nat d) n \<subseteq> span a k"
proof -
  assume le: "d + n \<le> k"
  have "a + of_nat d + of_nat j = a + of_nat (d + j)" for j
    by (simp add: add.assoc)
  with le show ?thesis
    unfolding span_def by (fastforce intro: image_eqI [where x = "d + _"])
qed

lemma span_disj: "disj a n b k \<Longrightarrow> span a n \<inter> span b k = {}"
  unfolding disj_def span_def by blast

lemma span_offsets:
  assumes "s + n \<le> t \<or> t + k \<le> s" "s + n \<le> 2 ^ 64" "t + k \<le> 2 ^ 64"
  shows "span (a + of_nat s) n \<inter> span (a + of_nat t) k = {}"
  using disj_offsets [OF assms] by (rule span_disj)

lemma span_at: "unat (d :: u64) + n \<le> k \<Longrightarrow> span (a + d) n \<subseteq> span a k"
  using span_sub [of "unat d" n k a] by simp

section \<open>Filling a structure field by field\<close>

text \<open>\<open>patch\<close> replaces a range of a byte list; \<open>stores\<close> is a sequence of field stores into one
  object in memory and \<open>patches\<close> its effect on the object's bytes.\<close>

definition patch :: "u8 list \<Rightarrow> nat \<Rightarrow> u8 list \<Rightarrow> u8 list" where
  "patch ps d qs = take d ps @ qs @ drop (d + length qs) ps"

definition slice :: "u8 list \<Rightarrow> nat \<Rightarrow> nat \<Rightarrow> u8 list" where
  "slice ps d n = take n (drop d ps)"

fun stores :: "mem \<Rightarrow> u64 \<Rightarrow> (nat \<times> u8 list) list \<Rightarrow> mem option" where
  "stores m a [] = Some m"
| "stores m a ((d, qs) # ws) = do { m \<leftarrow> store m (a + of_nat d) qs; stores m a ws }"

fun patches :: "u8 list \<Rightarrow> (nat \<times> u8 list) list \<Rightarrow> u8 list" where
  "patches ps [] = ps"
| "patches ps ((d, qs) # ws) = patches (patch ps d qs) ws"

lemma length_patch [simp]: "d + length qs \<le> length ps \<Longrightarrow> length (patch ps d qs) = length ps"
  by (simp add: patch_def)

lemma slice_patch_same:
  "d \<le> length ps \<Longrightarrow> n = length qs \<Longrightarrow> slice (patch ps d qs) d n = qs"
  by (simp add: patch_def slice_def)

lemma slice_patch_disj:
  assumes "d + length qs \<le> length ps" "e + n \<le> d \<or> d + length qs \<le> e"
  shows "slice (patch ps d qs) e n = slice ps e n"
  using assms(2)
proof
  assume "e + n \<le> d"
  then show ?thesis
    using assms(1) by (simp add: patch_def slice_def drop_take min_absorb1)
next
  assume le: "d + length qs \<le> e"
  then have "drop e (patch ps d qs) = drop e ps"
    using assms(1) by (simp add: patch_def)
  then show ?thesis by (simp add: slice_def)
qed

lemma length_patches [simp]:
  "list_all (\<lambda>(d, qs). d + length qs \<le> length ps) ws \<Longrightarrow> length (patches ps ws) = length ps"
proof (induction ws arbitrary: ps)
  case (Cons w ws)
  then show ?case by (cases w) (auto simp: list_all_iff)
qed simp

lemma stores_ok:
  assumes "load m a n = Some ps" "list_all (\<lambda>(d, qs). d + length qs \<le> n) ws" "n < 2 ^ 64"
  obtains m' where "stores m a ws = Some m'" "load m' a n = Some (patches ps ws)"
    "frame m m' (span a n)" "same_dom m m'"
  using assms
proof (induction ws arbitrary: m ps thesis)
  case Nil
  then show ?case by simp
next
  case (Cons w ws)
  obtain d qs where w: "w = (d, qs)" by (cases w)
  have le: "d + length qs \<le> n"
    using Cons.prems(3) w by simp
  have "mapped m a n"
    using Cons.prems(2) load_ex_iff by blast
  then obtain m1 where m1: "store m (a + of_nat d) qs = Some m1"
    using store_ok [OF mapped_sub [OF _ le]] by blast
  have "load m1 a n = Some (patch ps d qs)"
    using load_store_within [OF m1 Cons.prems(2) le] assms(3) by (simp add: patch_def)
  then obtain m' where m': "stores m1 a ws = Some m'" "load m' a n = Some (patches (patch ps d qs) ws)"
    "frame m1 m' (span a n)" "same_dom m1 m'"
    using Cons.IH [OF _ _ _ Cons.prems(4)] Cons.prems(3) by auto
  have "frame m m1 (span a n)"
    using frame_mono [OF frame_store [OF m1] span_sub [OF le]] .
  then have "frame m m' (span a n)"
    using frame_trans [OF _ m'(3)] by fastforce
  then show ?case
    using Cons.prems(1) [of m'] w m1 m' same_dom_trans [OF same_dom_store [OF m1] m'(4)] by simp
qed

lemma stores_append: "stores m a (ws @ vs) = do { m \<leftarrow> stores m a ws; stores m a vs }"
proof (induction ws arbitrary: m)
  case (Cons w ws)
  then show ?case by (cases w) simp
qed simp

lemma patches_append: "patches ps (ws @ vs) = patches (patches ps ws) vs"
proof (induction ws arbitrary: ps)
  case (Cons w ws)
  then show ?case by (cases w) simp
qed simp

text \<open>A field not touched by the sequence keeps its bytes.\<close>

lemma slice_patches_disj:
  assumes "list_all (\<lambda>(d, qs). d + length qs \<le> length ps \<and> (e + n \<le> d \<or> d + length qs \<le> e)) ws"
  shows "slice (patches ps ws) e n = slice ps e n"
  using assms
proof (induction ws arbitrary: ps)
  case (Cons w ws)
  then show ?case by (cases w) (auto simp: slice_patch_disj list_all_iff)
qed simp

text \<open>The last store to a field decides its bytes.\<close>

lemma slice_patches_last:
  assumes "list_all (\<lambda>(d, qs). d + length qs \<le> length ps) us" "e + length qs \<le> length ps"
    and "list_all (\<lambda>(d, rs). d + length rs \<le> length ps \<and> (e + length qs \<le> d \<or> d + length rs \<le> e)) ws"
    and "n = length qs"
  shows "slice (patches ps (us @ (e, qs) # ws)) e n = qs"
proof -
  let ?p = "patches ps us"
  have "length ?p = length ps"
    using assms(1) by simp
  then have "slice (patches (patch ?p e qs) ws) e n = slice (patch ?p e qs) e n"
    using assms by (intro slice_patches_disj) (auto simp: list_all_iff)
  also have "\<dots> = qs"
    using assms(2,4) \<open>length ?p = length ps\<close> by (intro slice_patch_same) auto
  finally show ?thesis
    by (simp add: patches_append)
qed

lemma slice_add: "slice p a (n + k) = slice p a n @ slice p (a + n) k"
  by (simp only: slice_def take_add drop_drop add.commute [of n a])

text \<open>The consecutive fields of widths \<open>ns\<close> of the structure at \<open>a\<close>, from offset \<open>d\<close> on.\<close>

fun fields :: "u8 list \<Rightarrow> nat \<Rightarrow> nat \<Rightarrow> nat list \<Rightarrow> u8 list" where
  "fields p a d [] = []"
| "fields p a d (n # ns) = slice p (a + d) n @ fields p a (d + n) ns"

lemma slice_fields: "slice p (a + d) (sum_list ns) = fields p a d ns"
proof (induction ns arbitrary: d)
  case Nil
  then show ?case by (simp add: slice_def)
next
  case (Cons n ns)
  from Cons [of "d + n"] show ?case by (simp add: slice_add add.assoc)
qed

lemma length_slice: "a + n \<le> length p \<Longrightarrow> length (slice p a n) = n"
  by (simp add: slice_def)

lemma slice_nth: "a + n \<le> length p \<Longrightarrow> i < n \<Longrightarrow> slice p a n ! i = p ! (a + i)"
  by (simp add: slice_def)

lemma slice_slice: "d + k \<le> n \<Longrightarrow> slice (slice p a n) d k = slice p (a + d) k"
  by (simp add: slice_def drop_take add.commute)

lemma slice_append_left: "d + k \<le> length xs \<Longrightarrow> slice (xs @ ys) d k = slice xs d k"
  by (simp add: slice_def)

lemma slice_append_right: "length xs \<le> d \<Longrightarrow> slice (xs @ ys) d k = slice ys (d - length xs) k"
  by (simp add: slice_def)

lemma slice_all: "n = length p \<Longrightarrow> slice p 0 n = p"
  by (simp add: slice_def)

lemma wr_patch: "d + length qs \<le> length p \<Longrightarrow> wr p d qs = Some (patch p d qs)"
  by (simp add: wr_def patch_def)

lemma put_patch:
  "d + 2 \<le> length p \<Longrightarrow> put16 p d v = Some (patch p d (put_le 2 v))"
  "d + 4 \<le> length p \<Longrightarrow> put32 p d v32 = Some (patch p d (put_le 4 v32))"
  "d + 8 \<le> length p \<Longrightarrow> put64 p d v64 = Some (patch p d (put_le 8 v64))"
  by (simp_all add: put16_def put32_def put64_def wr_patch)

lemma nth_patch:
  "d + length qs \<le> length p \<Longrightarrow> i < length p \<Longrightarrow>
   patch p d qs ! i = (if d \<le> i \<and> i < d + length qs then qs ! (i - d) else p ! i)"
  by (auto simp: patch_def nth_append min_def)

lemma nth_patches_out:
  assumes "list_all (\<lambda>(d, qs). d + length qs \<le> length p \<and> (i < d \<or> d + length qs \<le> i)) ws" "i < length p"
  shows "patches p ws ! i = p ! i"
  using assms
proof (induction ws arbitrary: p)
  case (Cons w ws)
  then show ?case by (cases w) (auto simp: nth_patch)
qed simp

end
