(* ===== verification/Crc64.thy ===== *)
theory Crc64
  imports Bbp_Prelude
begin

text \<open>
  CRC-64/XZ as \<open>include/bbp/bbp_crc64.h\<close> computes it, bit by bit without a table, and what
  the framing relies on: incremental updates compose, and a corruption confined to eight
  consecutive bytes always changes the checksum. \<open>crc_skip_bytes\<close> is the checksum of a
  structure whose own 8-byte checksum field counts as zero.
\<close>

section \<open>Definitions\<close>

definition BBP_CRC64_POLY_REFLECTED :: u64 where
  "BBP_CRC64_POLY_REFLECTED = 0xC96C5795D7870F42"

definition bbp_crc64_init :: u64 where
  "bbp_crc64_init = 0xFFFFFFFFFFFFFFFF"

definition crc64_bit :: "u64 \<Rightarrow> u64" where
  "crc64_bit crc =
     (let mask = - (crc AND 1) in drop_bit 1 crc XOR (BBP_CRC64_POLY_REFLECTED AND mask))"

definition crc64_byte :: "u64 \<Rightarrow> u8 \<Rightarrow> u64" where
  "crc64_byte crc p = (crc64_bit ^^ 8) (crc XOR ucast p)"

definition bbp_crc64_update :: "u64 \<Rightarrow> u8 list \<Rightarrow> u64" where
  "bbp_crc64_update crc data = foldl crc64_byte crc data"

definition bbp_crc64_final :: "u64 \<Rightarrow> u64" where
  "bbp_crc64_final crc = crc XOR 0xFFFFFFFFFFFFFFFF"

definition bbp_crc64 :: "u8 list \<Rightarrow> u64" where
  "bbp_crc64 data = bbp_crc64_final (bbp_crc64_update bbp_crc64_init data)"

text \<open>
  The three updates of \<open>bbp_crc_skip\<close>: the bytes before the field, eight zero bytes, and the
  bytes after it.
\<close>

definition crc_skip_bytes :: "u8 list \<Rightarrow> nat \<Rightarrow> u64" where
  "crc_skip_bytes data off =
     (let c = bbp_crc64_init;
          c = bbp_crc64_update c (take off data);
          c = bbp_crc64_update c (replicate 8 0);
          c = bbp_crc64_update c (drop (off + 8) data)
      in bbp_crc64_final c)"

lemma word_xor_right_inject: "a XOR c = b XOR c \<longleftrightarrow> a = b" for a b c :: "'a::len word"
  by (metis xor.assoc xor.right_neutral xor_self_eq)

lemma word_xor_left_inject: "c XOR a = c XOR b \<longleftrightarrow> a = b" for a b c :: "'a::len word"
  by (metis word_xor_right_inject xor.commute)

lemma word_xor_eq_0_iff: "a XOR b = 0 \<longleftrightarrow> a = b" for a b :: "'a::len word"
  by (metis xor.left_neutral xor.right_neutral xor.assoc xor_self_eq)

text \<open>The checksum of a tag or an INFO block with bytes \<open>ps\<close> is right.\<close>

definition crc_field_ok :: "u8 list \<Rightarrow> nat \<Rightarrow> bool" where
  "crc_field_ok ps d \<longleftrightarrow> crc_skip_bytes ps d = get_le (take 8 (drop d ps))"

section \<open>The shift register is linear and injective\<close>

lemma crc64_bit_alt:
  "crc64_bit x = drop_bit 1 x XOR (if bit x 0 then BBP_CRC64_POLY_REFLECTED else 0)"
  by (cases "even x") (simp_all add: crc64_bit_def Let_def and_one_eq mod_2_eq_odd bit_0)

lemma crc64_bit_xor: "crc64_bit (x XOR y) = crc64_bit x XOR crc64_bit y"
  by (auto simp: crc64_bit_alt bit_xor_iff drop_bit_xor ac_simps)

lemma crc64_bit_0_iff: "crc64_bit x = 0 \<longleftrightarrow> x = 0"
proof
  assume 0: "crc64_bit x = 0"
  have "\<not> bit x 0"
  proof
    assume "bit x 0"
    with 0 have "drop_bit 1 x = BBP_CRC64_POLY_REFLECTED"
      by (simp add: crc64_bit_alt word_xor_eq_0_iff)
    moreover have "bit BBP_CRC64_POLY_REFLECTED 63"
      by (simp add: BBP_CRC64_POLY_REFLECTED_def)
    ultimately have "bit (drop_bit 1 x) 63"
      by simp
    then show False
      using bit_imp_le_length [of x 64] by (simp add: bit_drop_bit_eq)
  qed
  with 0 have d: "drop_bit 1 x = 0"
    by (simp add: crc64_bit_alt)
  show "x = 0"
  proof (rule bit_word_eqI)
    fix n
    have "\<not> bit (drop_bit 1 x) (n - 1)"
      unfolding d by simp
    with \<open>\<not> bit x 0\<close> show "bit x n \<longleftrightarrow> bit 0 n"
      by (cases n) (auto simp: bit_drop_bit_eq)
  qed
qed (simp add: crc64_bit_alt)


lemma crc64_bits_xor: "(crc64_bit ^^ n) (x XOR y) = (crc64_bit ^^ n) x XOR (crc64_bit ^^ n) y"
  by (induction n) (simp_all add: crc64_bit_xor)

lemma crc64_bits_inject [simp]: "(crc64_bit ^^ n) x = (crc64_bit ^^ n) y \<longleftrightarrow> x = y"
proof -
  have "crc64_bit x = crc64_bit y \<longleftrightarrow> x = y" for x y
    by (metis crc64_bit_xor crc64_bit_0_iff word_xor_eq_0_iff)
  then show ?thesis
    by (induction n) simp_all
qed

lemma crc64_bit_push:
  assumes "\<And>k. bit x k \<Longrightarrow> k + Suc n < 64"
  shows "crc64_bit (push_bit (Suc n) x) = push_bit n x"
proof (rule bit_word_eqI)
  fix k assume "k < LENGTH(64)"
  moreover have "bit x (k - n) \<Longrightarrow> n \<le> k \<Longrightarrow> Suc k < 64"
    using assms [of "k - n"] by simp
  ultimately show "bit (crc64_bit (push_bit (Suc n) x)) k \<longleftrightarrow> bit (push_bit n x) k"
    unfolding crc64_bit_alt by (auto simp: bit_push_bit_iff bit_drop_bit_eq simp del: push_bit_Suc)
qed

text \<open>Bits pushed up by \<open>n\<close> places and not lost come back down after \<open>n\<close> steps.\<close>

lemma crc64_bits_push:
  assumes "\<And>k. bit x k \<Longrightarrow> k + n < 64"
  shows "(crc64_bit ^^ n) (push_bit n x) = x"
  using assms
proof (induction n)
  case (Suc n)
  have "crc64_bit (push_bit (Suc n) x) = push_bit n x"
    using Suc.prems by (rule crc64_bit_push)
  moreover have "(crc64_bit ^^ n) (push_bit n x) = x"
    using Suc by fastforce
  ultimately show ?case
    by (simp only: funpow_Suc_right o_apply)
qed simp

section \<open>Updates\<close>

lemma bbp_crc64_update_Nil [simp]: "bbp_crc64_update c [] = c"
  and bbp_crc64_update_append [simp]:
    "bbp_crc64_update c (xs @ ys) = bbp_crc64_update (bbp_crc64_update c xs) ys"
  by (simp_all add: bbp_crc64_update_def)

lemma bbp_crc64_update_inject [simp]:
  "bbp_crc64_update c xs = bbp_crc64_update d xs \<longleftrightarrow> c = d"
  by (induction xs arbitrary: c d)
    (simp_all add: bbp_crc64_update_def crc64_byte_def word_xor_right_inject)

lemma get_le_snoc:
  assumes "length xs \<le> 7"
  shows "(get_le (xs @ [b]) :: u64) = get_le xs XOR push_bit (8 * length xs) (ucast b)"
proof (rule bit_word_eqI)
  fix n assume n: "n < LENGTH(64)"
  let ?k = "length xs"
  have "n div 8 = ?k \<longleftrightarrow> 8 * ?k \<le> n \<and> n - 8 * ?k < 8"
    by auto
  moreover have "n div 8 = ?k \<Longrightarrow> n - 8 * ?k = n mod 8"
    by (simp add: minus_mult_div_eq_mod [symmetric])
  moreover have "bit b (n - 8 * ?k) \<Longrightarrow> n - 8 * ?k < 8"
    using bit_imp_le_length [of b] by simp
  ultimately show "bit (get_le (xs @ [b]) :: u64) n
      \<longleftrightarrow> bit (get_le xs XOR push_bit (8 * ?k) (ucast b) :: u64) n"
    using n by (cases "n div 8" ?k rule: linorder_cases)
      (auto simp: codec_simps bit_simps nth_append)
qed

text \<open>
  Up to eight bytes at once: the register after them is a linear, injective image of the bytes
  read as one little-endian number.
\<close>

lemma bbp_crc64_update_le8:
  "length xs \<le> 8 \<Longrightarrow>
    bbp_crc64_update c xs = (crc64_bit ^^ (8 * length xs)) (c XOR get_le xs)"
proof (induction xs rule: rev_induct)
  case (snoc b xs)
  let ?n = "8 * length xs"
  have push: "(crc64_bit ^^ ?n) (push_bit ?n (ucast b)) = (ucast b :: u64)"
    using snoc.prems by (intro crc64_bits_push) (auto simp: bit_simps dest: bit_imp_le_length)
  have "bbp_crc64_update c (xs @ [b]) =
      (crc64_bit ^^ 8) ((crc64_bit ^^ ?n) (c XOR get_le xs) XOR ucast b)"
    using snoc by (simp add: bbp_crc64_update_def crc64_byte_def)
  also have "\<dots> = (crc64_bit ^^ 8) ((crc64_bit ^^ ?n) (c XOR get_le (xs @ [b])))"
    using snoc.prems
    by (simp add: get_le_snoc crc64_bits_xor push flip: xor.assoc)
  finally show ?case
    by (simp add: funpow_add)
qed (simp add: get_le_def)

section \<open>What the framing relies on\<close>

text \<open>
  The contract of an incremental checksum, as every structure of the protocol uses it: updates
  compose, the register never merges two histories, and a block of at most \<open>width\<close> bytes is
  absorbed without loss.
\<close>

locale checksum =
  fixes ini :: 's
    and upd :: "'s \<Rightarrow> u8 list \<Rightarrow> 's"
    and fin :: "'s \<Rightarrow> 'd"
    and width :: nat
  assumes upd_append: "upd c (xs @ ys) = upd (upd c xs) ys"
    and upd_state_inject: "upd c xs = upd d xs \<longleftrightarrow> c = d"
    and upd_block_inject:
      "length xs = length ys \<Longrightarrow> length xs \<le> width \<Longrightarrow> upd c xs = upd c ys \<longleftrightarrow> xs = ys"
    and fin_inject: "fin c = fin d \<longleftrightarrow> c = d"
begin

lemma burst_detected:
  assumes "length xs = length ys" "length xs \<le> width"
  shows "fin (upd ini (p @ xs @ s)) = fin (upd ini (p @ ys @ s)) \<longleftrightarrow> xs = ys"
  unfolding fin_inject upd_append upd_state_inject by (rule upd_block_inject [OF assms])

text \<open>Two different prefixes never collide once they are followed by the same bytes.\<close>

lemma suffix_irrelevant:
  "fin (upd ini (xs @ s)) = fin (upd ini (ys @ s)) \<longleftrightarrow> fin (upd ini xs) = fin (upd ini ys)"
  by (simp add: fin_inject upd_append upd_state_inject)

end

lemma bbp_crc64_update_block_inject:
  assumes "length xs = length ys" "length xs \<le> 8"
  shows "bbp_crc64_update c xs = bbp_crc64_update c ys \<longleftrightarrow> xs = ys"
proof -
  have "8 * length xs \<le> LENGTH(64)" "8 * length ys \<le> LENGTH(64)"
    using assms by simp_all
  then have "xs = ys" if "(get_le xs :: u64) = get_le ys"
    using that assms(1) by (metis put_get_le)
  with assms show ?thesis
    by (auto simp: bbp_crc64_update_le8 word_xor_left_inject)
qed

interpretation crc: checksum bbp_crc64_init bbp_crc64_update bbp_crc64_final 8
  by unfold_locales
    (simp_all add: bbp_crc64_update_block_inject bbp_crc64_final_def word_xor_right_inject)

section \<open>The checksum with its own field skipped\<close>

lemma crc_skip_eq_crc64:
  "crc_skip_bytes data off = bbp_crc64 (take off data @ replicate 8 0 @ drop (off + 8) data)"
  by (simp add: crc_skip_bytes_def bbp_crc64_def Let_def)

lemma crc_skip_ignores_field:
  assumes "length field = 8" "off + 8 \<le> length data"
  shows "crc_skip_bytes (take off data @ field @ drop (off + 8) data) off = crc_skip_bytes data off"
  using assms by (simp add: crc_skip_eq_crc64)

lemma crc_skip_cong:
  assumes "take off xs = take off ys" "drop (off + 8) xs = drop (off + 8) ys"
  shows "crc_skip_bytes xs off = crc_skip_bytes ys off"
  using assms by (simp add: crc_skip_bytes_def)

text \<open>A burst of at most eight bytes outside the field changes the checksum.\<close>

lemma crc_skip_burst:
  assumes "length xs = length ys" "length xs \<le> 8"
    and "off + 8 \<le> length p \<or> length p + length xs \<le> off"
  shows "crc_skip_bytes (p @ xs @ s) off = crc_skip_bytes (p @ ys @ s) off \<longleftrightarrow> xs = ys"
  using assms(3)
proof
  assume "off + 8 \<le> length p"
  then show ?thesis
    using crc.burst_detected [OF assms(1,2), of "take off p @ replicate 8 0 @ drop (off + 8) p" s]
    by (simp add: crc_skip_eq_crc64 bbp_crc64_def)
next
  assume "length p + length xs \<le> off"
  then show ?thesis
    using crc.burst_detected [OF assms(1,2), of p "take (off - length p - length xs) s
        @ replicate 8 0 @ drop (off + 8 - length p - length xs) s"] assms(1)
    by (simp add: crc_skip_eq_crc64 bbp_crc64_def)
qed

text \<open>Storing the computed value into the field makes the field right.\<close>

lemma crc_field_ok_seal:
  assumes "d + 8 \<le> length ps"
  shows "crc_field_ok (take d ps @ put_le 8 (crc_skip_bytes ps d) @ drop (d + 8) ps) d"
proof -
  have "crc_skip_bytes (take d ps @ put_le 8 (crc_skip_bytes ps d) @ drop (d + 8) ps) d = crc_skip_bytes ps d"
    by (rule crc_skip_ignores_field) (use assms in auto)
  then show ?thesis
    using assms le64.dec_enc [of "crc_skip_bytes ps d"] by (simp add: crc_field_ok_def)
qed

section \<open>Properties\<close>

lemma crc64_byte_steps:
  "crc64_byte c b = crc64_bit (crc64_bit (crc64_bit (crc64_bit
     (crc64_bit (crc64_bit (crc64_bit (crc64_bit (c XOR ucast b))))))))"
  by (simp add: crc64_byte_def eval_nat_numeral)

lemmas crc64_eval = bbp_crc64_def bbp_crc64_final_def bbp_crc64_init_def bbp_crc64_update_def
  crc64_byte_steps crc64_bit_alt BBP_CRC64_POLY_REFLECTED_def

text \<open>The routine is CRC-64/XZ: on the nine digits of the catalogue's check string it
  computes the check value 995DC9BBDF1939FA that the header documents.\<close>

lemma crc64_check_value:
  "bbp_crc64 [0x31, 0x32, 0x33, 0x34, 0x35, 0x36, 0x37, 0x38, 0x39] = 0x995DC9BBDF1939FA"
  by (simp add: crc64_eval)

text \<open>C27. Two structures of the same size that differ only inside a window of at most eight
  bytes, the window disjoint from the checksum field, never have the same checksum: every error
  burst of up to 64 bits outside the field is detected.\<close>

theorem crc_skip_detects_burst:
  assumes "length xs = length ys" "length xs \<le> 8"
    and "off + 8 \<le> length p \<or> length p + length xs \<le> off"
    and "xs \<noteq> ys"
  shows "crc_skip_bytes (p @ xs @ s) off \<noteq> crc_skip_bytes (p @ ys @ s) off"
  using crc_skip_burst [OF assms(1-3)] assms(4) by simp

theorem crc_skip_detects_burst_witness:
  "crc_skip_bytes (replicate 32 0 @ [1, 2] @ [7]) 24 \<noteq> crc_skip_bytes (replicate 32 0 @ [1, 3] @ [7]) 24"
  by (rule crc_skip_detects_burst) simp_all

end
