(* ===== verification/V2.thy ===== *)
theory V2
  imports Crc64
begin

text \<open>
  The BBP v2 capsule of \<open>v2/bbp_v2.c\<close> and \<open>include/bbp/bbp_v2.h\<close>: a self-contained byte
  string with a header, a directory and payload spans. A capsule is a bounded buffer; a result
  \<^term>\<open>None\<close> is an access outside it. A pointer into the capsule is the rest of the buffer from
  that position on. Error returns are \<^term>\<open>Inl\<close>, and the value stored through \<open>out\<close> on success
  is \<^term>\<open>Inr\<close>, so a failing call visibly stores nothing.
\<close>

section \<open>Definitions\<close>

definition BBP_V2_VERSION_MAJOR :: u16 where "BBP_V2_VERSION_MAJOR = 2"
definition BBP_V2_VERSION_MINOR :: u16 where "BBP_V2_VERSION_MINOR = 0"
definition BBP_V2_HEADER_SIZE :: u64 where "BBP_V2_HEADER_SIZE = 64"
definition BBP_V2_DIRENT_SIZE :: u64 where "BBP_V2_DIRENT_SIZE = 48"
definition BBP_V2_MAX_ENTRIES :: u32 where "BBP_V2_MAX_ENTRIES = 1024"
definition BBP_V2_MAX_ALIGNMENT :: u32 where "BBP_V2_MAX_ALIGNMENT = 4096"
definition BBP_V2_MAX_EXTENT :: u64 where "BBP_V2_MAX_EXTENT = 64 * 1024 * 1024"
definition BBP_V2_MAX_CRC_WORK :: u64 where "BBP_V2_MAX_CRC_WORK = 96 * 1024 * 1024"

lemmas v2_consts = BBP_V2_VERSION_MAJOR_def BBP_V2_VERSION_MINOR_def BBP_V2_HEADER_SIZE_def
  BBP_V2_DIRENT_SIZE_def BBP_V2_MAX_ENTRIES_def BBP_V2_MAX_ALIGNMENT_def BBP_V2_MAX_EXTENT_def
  BBP_V2_MAX_CRC_WORK_def

datatype bbp_v2_status =
    BBP_V2_OK | BBP_V2_ERR_NULL | BBP_V2_ERR_MAGIC | BBP_V2_ERR_VERSION | BBP_V2_ERR_FORMAT
  | BBP_V2_ERR_EXTENT | BBP_V2_ERR_OVERFLOW | BBP_V2_ERR_COUNT | BBP_V2_ERR_ALIGNMENT
  | BBP_V2_ERR_OVERLAP | BBP_V2_ERR_PADDING | BBP_V2_ERR_CRC | BBP_V2_ERR_WORK
  | BBP_V2_ERR_CAPACITY | BBP_V2_ERR_POLICY | BBP_V2_ERR_SOURCE

record bbp_v2_view =
  v_data :: "u8 list"
  v_total_size :: u64
  v_directory_offset :: u64
  v_flags :: u32
  v_entry_count :: u32

record bbp_v2_entry_view =
  e_type :: u64
  e_flags :: u32
  e_version :: u16
  e_alignment :: u32
  e_offset :: u64
  e_size :: u64
  e_checksum :: u64
  e_data :: "u8 list"

text \<open>A source span has an address (0 is NULL) and the bytes readable there.\<close>

record bbp_v2_build_entry =
  be_type :: u64
  be_flags :: u32
  be_version :: u16
  be_alignment :: u32
  be_addr :: u64
  be_bytes :: "u8 list"
  be_size :: u64

definition bbp_v2_magic :: "u8 list" where
  "bbp_v2_magic = [0x42, 0x42, 0x50, 0x32, 0x43, 0x41, 0x50, 0]"

text \<open>The C operator \<open>||\<close> on tests that read memory.\<close>

definition sc_or :: "bool option \<Rightarrow> bool option \<Rightarrow> bool option" where
  "sc_or x y = do { a \<leftarrow> x; if a then Some True else y }"

definition ne16 :: "u8 list \<Rightarrow> nat \<Rightarrow> u16 \<Rightarrow> bool option" where
  "ne16 p d v = map_option (\<lambda>x. x \<noteq> v) (get16 p d)"

definition ne32 :: "u8 list \<Rightarrow> nat \<Rightarrow> u32 \<Rightarrow> bool option" where
  "ne32 p d v = map_option (\<lambda>x. x \<noteq> v) (get32 p d)"

definition ne64 :: "u8 list \<Rightarrow> nat \<Rightarrow> u64 \<Rightarrow> bool option" where
  "ne64 p d v = map_option (\<lambda>x. x \<noteq> v) (get64 p d)"

fun bytes_equal :: "u8 list \<Rightarrow> nat \<Rightarrow> u8 list \<Rightarrow> bool option" where
  "bytes_equal a d [] = Some True"
| "bytes_equal a d (y # ys) =
     do { x \<leftarrow> get8 a d; if x \<noteq> y then Some False else bytes_equal a (Suc d) ys }"

fun bytes_are_zero :: "u8 list \<Rightarrow> nat \<Rightarrow> nat \<Rightarrow> bool option" where
  "bytes_are_zero p d 0 = Some True"
| "bytes_are_zero p d (Suc n) =
     do { x \<leftarrow> get8 p d; if x \<noteq> 0 then Some False else bytes_are_zero p (Suc d) n }"

definition power_of_two :: "u32 \<Rightarrow> bool" where
  "power_of_two value \<longleftrightarrow> value \<noteq> 0 \<and> value AND (value - 1) = 0"

definition span_overlaps :: "u64 \<Rightarrow> u64 \<Rightarrow> u64 \<Rightarrow> u64 \<Rightarrow> bool" where
  "span_overlaps a as b bs \<longleftrightarrow> a < b + bs \<and> b < a + as"

text \<open>The position of a directory entry in the capsule.\<close>

definition directory_entry :: "u64 \<Rightarrow> nat \<Rightarrow> nat" where
  "directory_entry directory_offset i = unat (directory_offset + of_nat i * BBP_V2_DIRENT_SIZE)"

definition crc_with_zero_checksum :: "u8 list \<Rightarrow> u64 \<Rightarrow> u64 option" where
  "crc_with_zero_checksum capsule extent =
     do {
       p \<leftarrow> rd capsule 0 40;
       s \<leftarrow> rd capsule 48 (unat (extent - 48));
       let crc = bbp_crc64_init;
           crc = bbp_crc64_update crc p;
           crc = bbp_crc64_update crc (replicate 8 0);
           crc = bbp_crc64_update crc s
       in Some (bbp_crc64_final crc)
     }"

subsection \<open>Padding\<close>

text \<open>The inner loop over the directory; the accumulator is \<open>(best_start, best_size)\<close>.\<close>

fun pick_span :: "u8 list \<Rightarrow> u64 \<Rightarrow> u64 \<Rightarrow> nat list \<Rightarrow> u64 \<times> u64 \<Rightarrow> (u64 \<times> u64) option" where
  "pick_span capsule dir cursor [] best = Some best"
| "pick_span capsule dir cursor (i # is) (best_start, best_size) =
     do {
       let entry = directory_entry dir i;
       start \<leftarrow> get64 capsule (entry + 16);
       if start \<ge> cursor \<and> start < best_start
       then do {
         size \<leftarrow> get64 capsule (entry + 24);
         pick_span capsule dir cursor is (start, size)
       }
       else pick_span capsule dir cursor is (best_start, best_size)
     }"

definition next_span :: "u8 list \<Rightarrow> u64 \<Rightarrow> u64 \<Rightarrow> u32 \<Rightarrow> u64 \<Rightarrow> (u64 \<times> u64) option" where
  "next_span capsule extent dir entry_count cursor =
     (let best = (extent, 0);
          best = (if cursor = 0 then (0, BBP_V2_HEADER_SIZE) else best);
          best = (if entry_count \<noteq> 0 \<and> dir \<ge> cursor \<and> dir < fst best
                  then (dir, ucast entry_count * BBP_V2_DIRENT_SIZE) else best)
      in pick_span capsule dir cursor [0..<unat entry_count] best)"

text \<open>The outer loop with the number of steps still to make; the result is the final cursor.\<close>

fun padding_loop :: "u8 list \<Rightarrow> u64 \<Rightarrow> u64 \<Rightarrow> u32 \<Rightarrow> nat \<Rightarrow> u64 \<Rightarrow> (bbp_v2_status + u64) option" where
  "padding_loop capsule extent dir entry_count 0 cursor = Some (Inr cursor)"
| "padding_loop capsule extent dir entry_count (Suc n) cursor =
     do {
       (best_start, best_size) \<leftarrow> next_span capsule extent dir entry_count cursor;
       if best_size = 0 then Some (Inl BBP_V2_ERR_FORMAT)
       else do {
         z \<leftarrow> (if best_start > cursor
              then bytes_are_zero capsule (unat cursor) (unat (best_start - cursor)) else Some True);
         if \<not> z then Some (Inl BBP_V2_ERR_PADDING)
         else padding_loop capsule extent dir entry_count n (best_start + best_size)
       }
     }"

definition validate_padding :: "u8 list \<Rightarrow> u64 \<Rightarrow> u64 \<Rightarrow> u32 \<Rightarrow> bbp_v2_status option" where
  "validate_padding capsule extent dir entry_count =
     (let span_count = entry_count + 1 + (if entry_count \<noteq> 0 then 1 else 0) in do {
        r \<leftarrow> padding_loop capsule extent dir entry_count (unat span_count) 0;
        case r of
          Inl e \<Rightarrow> Some e
        | Inr cursor \<Rightarrow> do {
            z \<leftarrow> (if cursor < extent
                 then bytes_are_zero capsule (unat cursor) (unat (extent - cursor)) else Some True);
            Some (if \<not> z then BBP_V2_ERR_PADDING else BBP_V2_OK)
          }
      })"

subsection \<open>Parsing\<close>

fun overlaps_prior :: "u8 list \<Rightarrow> u64 \<Rightarrow> u64 \<Rightarrow> u64 \<Rightarrow> nat list \<Rightarrow> bool option" where
  "overlaps_prior capsule dir offset sz [] = Some False"
| "overlaps_prior capsule dir offset sz (j # js) =
     do {
       let prior = directory_entry dir j;
       po \<leftarrow> get64 capsule (prior + 16);
       ps \<leftarrow> get64 capsule (prior + 24);
       if span_overlaps offset sz po ps then Some True
       else overlaps_prior capsule dir offset sz js
     }"

text \<open>The checks on one directory entry; the value is the new \<open>crc_work\<close>.\<close>

definition check_entry ::
  "u8 list \<Rightarrow> u64 \<Rightarrow> u64 \<Rightarrow> u64 \<Rightarrow> nat \<Rightarrow> u64 \<Rightarrow> (bbp_v2_status + u64) option" where
  "check_entry capsule total_size dir dir_size i crc_work =
     do {
       let entry = directory_entry dir i;
       offset \<leftarrow> get64 capsule (entry + 16);
       size \<leftarrow> get64 capsule (entry + 24);
       alignment \<leftarrow> get32 capsule (entry + 40);
       bad \<leftarrow> sc_or (ne16 capsule (entry + 14) 0) (ne32 capsule (entry + 44) 0);
       if bad then Some (Inl BBP_V2_ERR_FORMAT)
       else if \<not> power_of_two alignment \<or> alignment > BBP_V2_MAX_ALIGNMENT
         \<or> offset AND ucast (alignment - 1) \<noteq> 0 then Some (Inl BBP_V2_ERR_ALIGNMENT)
       else if size = 0 then Some (Inl BBP_V2_ERR_FORMAT)
       else if offset > total_size \<or> size > total_size - offset
         then Some (Inl BBP_V2_ERR_OVERFLOW)
       else if span_overlaps offset size 0 BBP_V2_HEADER_SIZE
         \<or> span_overlaps offset size dir dir_size then Some (Inl BBP_V2_ERR_OVERLAP)
       else do {
         ov \<leftarrow> overlaps_prior capsule dir offset size [0..<i];
         if ov then Some (Inl BBP_V2_ERR_OVERLAP)
         else if size > BBP_V2_MAX_CRC_WORK - crc_work then Some (Inl BBP_V2_ERR_WORK)
         else Some (Inr (crc_work + size))
       }
     }"

fun check_entries ::
  "u8 list \<Rightarrow> u64 \<Rightarrow> u64 \<Rightarrow> u64 \<Rightarrow> nat list \<Rightarrow> u64 \<Rightarrow> (bbp_v2_status + u64) option" where
  "check_entries capsule total_size dir dir_size [] crc_work = Some (Inr crc_work)"
| "check_entries capsule total_size dir dir_size (i # is) crc_work =
     do {
       r \<leftarrow> check_entry capsule total_size dir dir_size i crc_work;
       case r of
         Inl e \<Rightarrow> Some (Inl e)
       | Inr w \<Rightarrow> check_entries capsule total_size dir dir_size is w
     }"

fun check_payloads :: "u8 list \<Rightarrow> u64 \<Rightarrow> nat list \<Rightarrow> bool option" where
  "check_payloads capsule dir [] = Some True"
| "check_payloads capsule dir (i # is) =
     do {
       let entry = directory_entry dir i;
       offset \<leftarrow> get64 capsule (entry + 16);
       size \<leftarrow> get64 capsule (entry + 24);
       p \<leftarrow> rd capsule (unat offset) (unat size);
       c \<leftarrow> get64 capsule (entry + 32);
       if bbp_crc64 p \<noteq> c then Some False else check_payloads capsule dir is
     }"

text \<open>The second half of the parser, once the header fields are known.\<close>

definition parse_body ::
  "u8 list \<Rightarrow> u64 \<Rightarrow> u64 \<Rightarrow> u32 \<Rightarrow> u64 \<Rightarrow> (bbp_v2_status + bbp_v2_view) option" where
  "parse_body capsule extent total_size entry_count dir =
     (let dir_size = ucast entry_count * BBP_V2_DIRENT_SIZE in
      if dir < BBP_V2_HEADER_SIZE \<or> dir > total_size \<or> dir_size > total_size - dir
      then Some (Inl BBP_V2_ERR_OVERFLOW)
      else do {
        r \<leftarrow> check_entries capsule total_size dir dir_size [0..<unat entry_count] total_size;
        case r of
          Inl e \<Rightarrow> Some (Inl e)
        | Inr _ \<Rightarrow> do {
            status \<leftarrow> validate_padding capsule extent dir entry_count;
            if status \<noteq> BBP_V2_OK then Some (Inl status)
            else do {
              c \<leftarrow> crc_with_zero_checksum capsule extent;
              want \<leftarrow> get64 capsule 40;
              if c \<noteq> want then Some (Inl BBP_V2_ERR_CRC)
              else do {
                ok \<leftarrow> check_payloads capsule dir [0..<unat entry_count];
                if \<not> ok then Some (Inl BBP_V2_ERR_CRC)
                else do {
                  fl \<leftarrow> get32 capsule 16;
                  Some (Inr \<lparr>v_data = capsule, v_total_size = extent, v_directory_offset = dir,
                             v_flags = fl, v_entry_count = entry_count\<rparr>)
                }
              }
            }
          }
      })"

definition bbp_v2_parse ::
  "u8 list option \<Rightarrow> u64 \<Rightarrow> bool \<Rightarrow> (bbp_v2_status + bbp_v2_view) option" where
  "bbp_v2_parse capsule_pointer extent out =
     (case capsule_pointer of
        None \<Rightarrow> Some (Inl BBP_V2_ERR_NULL)
      | Some capsule \<Rightarrow>
          if \<not> out then Some (Inl BBP_V2_ERR_NULL)
          else if extent < BBP_V2_HEADER_SIZE \<or> extent > BBP_V2_MAX_EXTENT
          then Some (Inl BBP_V2_ERR_EXTENT)
          else do {
            eq \<leftarrow> bytes_equal capsule 0 bbp_v2_magic;
            if \<not> eq then Some (Inl BBP_V2_ERR_MAGIC)
            else do {
              bad \<leftarrow> sc_or (ne16 capsule 8 BBP_V2_VERSION_MAJOR) (ne16 capsule 10 BBP_V2_VERSION_MINOR);
              if bad then Some (Inl BBP_V2_ERR_VERSION)
              else do {
                bad \<leftarrow> sc_or (ne16 capsule 12 (ucast BBP_V2_HEADER_SIZE))
                        (sc_or (ne16 capsule 14 (ucast BBP_V2_DIRENT_SIZE))
                        (sc_or (ne32 capsule 16 0)
                        (sc_or (ne64 capsule 48 0) (ne64 capsule 56 0))));
                if bad then Some (Inl BBP_V2_ERR_FORMAT)
                else do {
                  total_size \<leftarrow> get64 capsule 24;
                  if total_size \<noteq> extent \<or> total_size > BBP_V2_MAX_EXTENT
                  then Some (Inl BBP_V2_ERR_EXTENT)
                  else do {
                    entry_count \<leftarrow> get32 capsule 20;
                    if entry_count > BBP_V2_MAX_ENTRIES then Some (Inl BBP_V2_ERR_COUNT)
                    else do {
                      dir \<leftarrow> get64 capsule 32;
                      if dir AND 7 \<noteq> 0 then Some (Inl BBP_V2_ERR_ALIGNMENT)
                      else if entry_count = 0
                        \<and> (dir \<noteq> BBP_V2_HEADER_SIZE \<or> total_size \<noteq> BBP_V2_HEADER_SIZE)
                      then Some (Inl BBP_V2_ERR_FORMAT)
                      else parse_body capsule extent total_size entry_count dir
                    }
                  }
                }
              }
            }
          })"

text \<open>A view with a NULL data pointer is \<^term>\<open>None\<close> like a NULL view.\<close>

definition bbp_v2_get_entry ::
  "bbp_v2_view option \<Rightarrow> u32 \<Rightarrow> bool \<Rightarrow> (bbp_v2_status + bbp_v2_entry_view) option" where
  "bbp_v2_get_entry vp index out =
     (case vp of
        None \<Rightarrow> Some (Inl BBP_V2_ERR_NULL)
      | Some view \<Rightarrow>
          if \<not> out then Some (Inl BBP_V2_ERR_NULL)
          else if v_entry_count view > BBP_V2_MAX_ENTRIES \<or> index \<ge> v_entry_count view
          then Some (Inl BBP_V2_ERR_COUNT)
          else let dir_size = ucast (v_entry_count view) * BBP_V2_DIRENT_SIZE in
            if v_total_size view < BBP_V2_HEADER_SIZE \<or> v_total_size view > BBP_V2_MAX_EXTENT
              \<or> v_directory_offset view < BBP_V2_HEADER_SIZE
              \<or> v_directory_offset view > v_total_size view
              \<or> dir_size > v_total_size view - v_directory_offset view
            then Some (Inl BBP_V2_ERR_EXTENT)
            else do {
              let entry = directory_entry (v_directory_offset view) (unat index);
              offset \<leftarrow> get64 (v_data view) (entry + 16);
              size \<leftarrow> get64 (v_data view) (entry + 24);
              if offset > v_total_size view \<or> size > v_total_size view - offset
              then Some (Inl BBP_V2_ERR_EXTENT)
              else do {
                ty \<leftarrow> get64 (v_data view) entry;
                fl \<leftarrow> get32 (v_data view) (entry + 8);
                ver \<leftarrow> get16 (v_data view) (entry + 12);
                cs \<leftarrow> get64 (v_data view) (entry + 32);
                al \<leftarrow> get32 (v_data view) (entry + 40);
                Some (Inr \<lparr>e_type = ty, e_flags = fl, e_version = ver, e_alignment = al,
                           e_offset = offset, e_size = size, e_checksum = cs,
                           e_data = drop (unat offset) (v_data view)\<rparr>)
              }
            })"

subsection \<open>Building\<close>

text \<open>\<^term>\<open>None\<close> is the return value 0, which leaves \<open>*out\<close> alone.\<close>

definition align_up :: "u64 \<Rightarrow> u32 \<Rightarrow> u64 option" where
  "align_up v alignment =
     (let mask = ucast alignment - 1 in
      if v > - 1 - mask then None else Some ((v + mask) AND NOT mask))"

definition memory_ranges_overlap :: "u64 \<Rightarrow> u64 \<Rightarrow> u64 \<Rightarrow> u64 \<Rightarrow> bool" where
  "memory_ranges_overlap a a_size b b_size =
     (if a_size > - 1 - a \<or> b_size > - 1 - b then True else a < b + b_size \<and> b < a + a_size)"

definition nth_entry :: "bbp_v2_build_entry list \<Rightarrow> nat \<Rightarrow> bbp_v2_build_entry option" where
  "nth_entry es i = (if i < length es then Some (es ! i) else None)"

text \<open>The sizing pass; the value is \<open>(cursor, payload_work)\<close>.\<close>

fun layout_pass ::
  "bbp_v2_build_entry list \<Rightarrow> nat list \<Rightarrow> u64 \<Rightarrow> u64 \<Rightarrow> (bbp_v2_status + u64 \<times> u64) option" where
  "layout_pass es [] cursor work = Some (Inr (cursor, work))"
| "layout_pass es (i # is) cursor work =
     do {
       e \<leftarrow> nth_entry es i;
       if be_addr e = 0 \<or> be_size e = 0 then Some (Inl BBP_V2_ERR_NULL)
       else if \<not> power_of_two (be_alignment e) \<or> be_alignment e > BBP_V2_MAX_ALIGNMENT
       then Some (Inl BBP_V2_ERR_ALIGNMENT)
       else case align_up cursor (be_alignment e) of
         None \<Rightarrow> Some (Inl BBP_V2_ERR_OVERFLOW)
       | Some c \<Rightarrow>
           if be_size e > - 1 - c then Some (Inl BBP_V2_ERR_OVERFLOW)
           else if be_size e > BBP_V2_MAX_CRC_WORK - work then Some (Inl BBP_V2_ERR_WORK)
           else if c + be_size e > BBP_V2_MAX_EXTENT then Some (Inl BBP_V2_ERR_EXTENT)
           else layout_pass es is (c + be_size e) (work + be_size e)
     }"

fun source_overlaps :: "u64 \<Rightarrow> u64 \<Rightarrow> bbp_v2_build_entry list \<Rightarrow> nat list \<Rightarrow> bool option" where
  "source_overlaps output total_sz es [] = Some False"
| "source_overlaps output total_sz es (i # is) =
     do {
       e \<leftarrow> nth_entry es i;
       if memory_ranges_overlap output total_sz (be_addr e) (be_size e) then Some True
       else source_overlaps output total_sz es is
     }"

text \<open>One iteration of the writing pass: payload, then directory entry.\<close>

definition emit_entry :: "u8 list \<Rightarrow> bbp_v2_build_entry \<Rightarrow> nat \<Rightarrow> u64 \<Rightarrow> u8 list option" where
  "emit_entry buf e i cursor =
     do {
       let entry = unat (BBP_V2_HEADER_SIZE + of_nat i * BBP_V2_DIRENT_SIZE);
       src \<leftarrow> rd (be_bytes e) 0 (unat (be_size e));
       buf \<leftarrow> wr buf (unat cursor) src;
       buf \<leftarrow> put64 buf entry (be_type e);
       buf \<leftarrow> put32 buf (entry + 8) (be_flags e);
       buf \<leftarrow> put16 buf (entry + 12) (be_version e);
       buf \<leftarrow> put64 buf (entry + 16) cursor;
       buf \<leftarrow> put64 buf (entry + 24) (be_size e);
       p \<leftarrow> rd buf (unat cursor) (unat (be_size e));
       buf \<leftarrow> put64 buf (entry + 32) (bbp_crc64 p);
       put32 buf (entry + 40) (be_alignment e)
     }"

fun emit_pass :: "u8 list \<Rightarrow> bbp_v2_build_entry list \<Rightarrow> nat list \<Rightarrow> u64 \<Rightarrow> u8 list option" where
  "emit_pass buf es [] cursor = Some buf"
| "emit_pass buf es (i # is) cursor =
     do {
       e \<leftarrow> nth_entry es i;
       let cursor = (case align_up cursor (be_alignment e) of None \<Rightarrow> cursor | Some c \<Rightarrow> c);
       buf \<leftarrow> emit_entry buf e i cursor;
       emit_pass buf es is (cursor + be_size e)
     }"

definition emit_header :: "u8 list \<Rightarrow> u32 \<Rightarrow> u64 \<Rightarrow> u8 list option" where
  "emit_header buf entry_count total_sz =
     do {
       buf \<leftarrow> wr buf 0 (replicate (unat total_sz) 0);
       buf \<leftarrow> wr buf 0 bbp_v2_magic;
       buf \<leftarrow> put16 buf 8 BBP_V2_VERSION_MAJOR;
       buf \<leftarrow> put16 buf 10 BBP_V2_VERSION_MINOR;
       buf \<leftarrow> put16 buf 12 (ucast BBP_V2_HEADER_SIZE);
       buf \<leftarrow> put16 buf 14 (ucast BBP_V2_DIRENT_SIZE);
       buf \<leftarrow> put32 buf 16 0;
       buf \<leftarrow> put32 buf 20 entry_count;
       buf \<leftarrow> put64 buf 24 total_sz;
       put64 buf 32 BBP_V2_HEADER_SIZE
     }"

text \<open>\<open>output\<close> is the address of the output object and \<open>buf\<close> its bytes; \<open>entries\<close> is NULL as
  \<^term>\<open>None\<close>. Success carries the new bytes and \<open>*written\<close>; on an error \<open>*written\<close> is 0.\<close>

definition bbp_v2_build ::
  "u64 \<Rightarrow> u8 list \<Rightarrow> u64 \<Rightarrow> bbp_v2_build_entry list option \<Rightarrow> u32 \<Rightarrow> bool
     \<Rightarrow> (bbp_v2_status + u8 list \<times> u64) option" where
  "bbp_v2_build output buf capacity entries entry_count written =
     (if output = 0 \<or> \<not> written \<or> (entry_count \<noteq> 0 \<and> entries = None)
      then Some (Inl BBP_V2_ERR_NULL)
      else if entry_count > BBP_V2_MAX_ENTRIES then Some (Inl BBP_V2_ERR_COUNT)
      else let es = (case entries of None \<Rightarrow> [] | Some es \<Rightarrow> es);
               first = BBP_V2_HEADER_SIZE + ucast entry_count * BBP_V2_DIRENT_SIZE;
               is = [0..<unat entry_count] in
        do {
          r \<leftarrow> layout_pass es is first 0;
          case r of
            Inl e \<Rightarrow> Some (Inl e)
          | Inr (total_sz, work) \<Rightarrow>
              if total_sz > BBP_V2_MAX_CRC_WORK - work then Some (Inl BBP_V2_ERR_WORK)
              else if total_sz > capacity then Some (Inl BBP_V2_ERR_CAPACITY)
              else do {
                ov \<leftarrow> source_overlaps output total_sz es is;
                if ov then Some (Inl BBP_V2_ERR_SOURCE)
                else do {
                  buf \<leftarrow> emit_header buf entry_count total_sz;
                  buf \<leftarrow> emit_pass buf es is first;
                  c \<leftarrow> crc_with_zero_checksum buf total_sz;
                  buf \<leftarrow> put64 buf 40 c;
                  Some (Inr (buf, total_sz))
                }
              }
        })"

subsection \<open>The canonical digest\<close>

definition digest_domain :: "u8 list" where
  "digest_domain = [0x42, 0x42, 0x50, 0x2D, 0x56, 0x32, 0x2D, 0x44,
     0x49, 0x47, 0x45, 0x53, 0x54, 0, 0, 1]"

definition digest_envelope :: "u32 \<Rightarrow> u32 \<Rightarrow> u8 list" where
  "digest_envelope flags count = put_le 2 BBP_V2_VERSION_MAJOR @ put_le 2 BBP_V2_VERSION_MINOR @
     put_le 4 flags @ put_le 4 count @ replicate 4 0"

definition digest_frame :: "bbp_v2_entry_view \<Rightarrow> u8 list" where
  "digest_frame e = put_le 8 (e_type e) @ put_le 4 (e_flags e) @ put_le 2 (e_version e) @
     replicate 2 0 @ put_le 8 (e_size e) @ replicate 8 0"

fun digest_loop ::
  "bbp_v2_view \<Rightarrow> ('s \<Rightarrow> u8 list \<Rightarrow> 's) \<Rightarrow> nat list \<Rightarrow> 's \<Rightarrow> 's option" where
  "digest_loop view update [] state = Some state"
| "digest_loop view update (i # is) state =
     do {
       r \<leftarrow> bbp_v2_get_entry (Some view) (of_nat i) True;
       case r of
         Inl _ \<Rightarrow> None
       | Inr e \<Rightarrow> do {
           p \<leftarrow> rd (e_data e) 0 (unat (e_size e));
           digest_loop view update is (update (update state (digest_frame e)) p)
         }
     }"

definition bbp_v2_digest ::
  "bbp_v2_view option \<Rightarrow> ('s \<Rightarrow> u8 list \<Rightarrow> 's) option \<Rightarrow> 's \<Rightarrow> (bbp_v2_status + 's) option" where
  "bbp_v2_digest vp updp state =
     (case (vp, updp) of
        (Some view, Some update) \<Rightarrow>
          do {
            r \<leftarrow> bbp_v2_parse (Some (v_data view)) (v_total_size view) True;
            case r of
              Inl e \<Rightarrow> Some (Inl e)
            | Inr checked \<Rightarrow> do {
                let state = update state digest_domain;
                let state = update state (digest_envelope (v_flags checked) (v_entry_count checked));
                state \<leftarrow> digest_loop checked update [0..<unat (v_entry_count checked)] state;
                Some (Inr state)
              }
          }
      | _ \<Rightarrow> Some (Inl BBP_V2_ERR_NULL))"

fun bbp_v2_strstatus :: "bbp_v2_status \<Rightarrow> string" where
  "bbp_v2_strstatus BBP_V2_OK = ''ok''"
| "bbp_v2_strstatus BBP_V2_ERR_NULL = ''null argument''"
| "bbp_v2_strstatus BBP_V2_ERR_MAGIC = ''bad magic''"
| "bbp_v2_strstatus BBP_V2_ERR_VERSION = ''unsupported version''"
| "bbp_v2_strstatus BBP_V2_ERR_FORMAT = ''invalid reserved or framing field''"
| "bbp_v2_strstatus BBP_V2_ERR_EXTENT = ''invalid total extent''"
| "bbp_v2_strstatus BBP_V2_ERR_OVERFLOW = ''integer overflow or out-of-bounds span''"
| "bbp_v2_strstatus BBP_V2_ERR_COUNT = ''entry count limit''"
| "bbp_v2_strstatus BBP_V2_ERR_ALIGNMENT = ''invalid alignment''"
| "bbp_v2_strstatus BBP_V2_ERR_OVERLAP = ''overlapping spans''"
| "bbp_v2_strstatus BBP_V2_ERR_PADDING = ''nonzero padding''"
| "bbp_v2_strstatus BBP_V2_ERR_CRC = ''CRC-64/XZ mismatch''"
| "bbp_v2_strstatus BBP_V2_ERR_WORK = ''validation work limit''"
| "bbp_v2_strstatus BBP_V2_ERR_CAPACITY = ''output capacity''"
| "bbp_v2_strstatus BBP_V2_ERR_POLICY = ''bridge policy''"
| "bbp_v2_strstatus BBP_V2_ERR_SOURCE = ''invalid or overlapping source''"

end
