(* ===== verification/V2_Parse.thy ===== *)
theory V2_Parse
  imports V2
begin

text \<open>
  The v2 parser never reads outside the capsule, and what it accepts is well formed: every span in
  bounds, spans pairwise disjoint and disjoint from header and directory, aligned, all checksums
  right, every byte outside the spans zero.
\<close>

section \<open>Fields of a byte string\<close>

definition le16_at :: "u8 list \<Rightarrow> nat \<Rightarrow> u16" where
  "le16_at p d = get_le (take 2 (drop d p))"

definition le32_at :: "u8 list \<Rightarrow> nat \<Rightarrow> u32" where
  "le32_at p d = get_le (take 4 (drop d p))"

definition le64_at :: "u8 list \<Rightarrow> nat \<Rightarrow> u64" where
  "le64_at p d = get_le (take 8 (drop d p))"

lemma get_at:
  "d + 2 \<le> length p \<Longrightarrow> get16 p d = Some (le16_at p d)"
  "d + 4 \<le> length p \<Longrightarrow> get32 p d = Some (le32_at p d)"
  "d + 8 \<le> length p \<Longrightarrow> get64 p d = Some (le64_at p d)"
  by (simp_all add: get16_def get32_def get64_def rd_def le16_at_def le32_at_def le64_at_def)

lemma ne_at:
  "d + 2 \<le> length p \<Longrightarrow> ne16 p d v = Some (le16_at p d \<noteq> v)"
  "d + 4 \<le> length p \<Longrightarrow> ne32 p d v32 = Some (le32_at p d \<noteq> v32)"
  "d + 8 \<le> length p \<Longrightarrow> ne64 p d v64 = Some (le64_at p d \<noteq> v64)"
  by (simp_all add: ne16_def ne32_def ne64_def get_at)

lemma sc_or_Some [simp]: "sc_or (Some a) (Some b) = Some (a \<or> b)"
  by (simp add: sc_or_def)

lemma bytes_equal_eq:
  "d + length ys \<le> length p \<Longrightarrow> bytes_equal p d ys = Some (take (length ys) (drop d p) = ys)"
proof (induction ys arbitrary: d)
  case (Cons y ys)
  then have "drop d p = p ! d # drop (Suc d) p"
    by (simp add: Cons_nth_drop_Suc)
  with Cons show ?case
    by (simp add: get8_def)
qed simp

lemma bytes_are_zero_eq:
  "d + n \<le> length p \<Longrightarrow> bytes_are_zero p d n = Some (\<forall>i<n. p ! (d + i) = 0)"
proof (induction n arbitrary: d)
  case (Suc n)
  then show ?case
    by (auto simp: get8_def less_Suc_eq_0_disj)
qed simp

section \<open>Alignment\<close>

lemma nat_and_pred_power:
  "0 < n \<Longrightarrow> n AND (n - 1) = (0 :: nat) \<Longrightarrow> \<exists>k. n = 2 ^ k"
proof (induction n rule: less_induct)
  case (less n)
  show ?case
  proof (cases "even n")
    case True
    then obtain m where m: "n = 2 * m" by (rule evenE)
    with less.prems have "0 < m" by simp
    have "(2 * m - 1) div 2 = m - 1"
      using \<open>0 < m\<close> by linarith
    then have "n AND (n - 1) = 2 * (m AND (m - 1))"
      using and_rec [of n "n - 1"] m by simp
    with less.prems have "m AND (m - 1) = 0" by simp
    then obtain k where "m = 2 ^ k"
      using less.IH [of m] m \<open>0 < m\<close> by auto
    with m show ?thesis by (intro exI [of _ "Suc k"]) simp
  next
    case False
    then obtain m where m: "n = 2 * m + 1" by (rule oddE)
    have "n AND (n - 1) = 2 * m"
      using and_rec [of n "n - 1"] m by simp
    with less.prems m show ?thesis by (intro exI [of _ 0]) simp
  qed
qed

lemma power_of_two_iff:
  assumes "power_of_two a" "unat a \<le> 4096"
  obtains k where "k \<le> 12" "unat a = 2 ^ k" "unat (a - 1) = 2 ^ k - 1"
proof -
  have a: "0 < unat a" "a AND (a - 1) = 0" "1 \<le> a"
    using assms(1) by (auto simp: power_of_two_def unat_gt_0 word_le_nat_alt Suc_le_eq)
  then have p: "unat (a - 1) = unat a - 1"
    by (simp add: unat_sub)
  have "unat a AND (unat a - 1) = unat (a AND (a - 1))"
    by (simp add: unsigned_and_eq p)
  then obtain k where k: "unat a = 2 ^ k"
    using nat_and_pred_power [of "unat a"] a by auto
  have "(2 :: nat) ^ k \<le> 2 ^ 12"
    using assms(2) k by simp
  then have "k \<le> 12"
    by (rule power_le_imp_le_exp [rotated]) simp
  with that k p show thesis by simp
qed

lemma offset_aligned_iff:
  assumes "power_of_two a" "unat a \<le> 4096"
  shows "(x :: u64) AND ucast (a - 1) = 0 \<longleftrightarrow> unat a dvd unat x"
proof -
  obtain k where k: "unat a = 2 ^ k" "unat (a - 1) = 2 ^ k - 1"
    by (rule power_of_two_iff [OF assms])
  then have "unat (x AND ucast (a - 1)) = unat x mod 2 ^ k"
    by (intro unat_and_pred) (simp add: unat_ucast_u32)
  then show ?thesis
    by (metis k(1) dvd_eq_mod_eq_0 unat_0 unat_eq_zero)
qed

section \<open>Spans\<close>

definition disjoint_spans :: "nat \<Rightarrow> nat \<Rightarrow> nat \<Rightarrow> nat \<Rightarrow> bool" where
  "disjoint_spans a n b k \<longleftrightarrow> a + n \<le> b \<or> b + k \<le> a"

lemma span_overlaps_iff:
  assumes "unat a + unat n < 2 ^ 64" "unat b + unat k < 2 ^ 64"
  shows "span_overlaps a n b k \<longleftrightarrow> \<not> disjoint_spans (unat a) (unat n) (unat b) (unat k)"
  using assms unat_add_u64 [of a n] unat_add_u64 [of b k]
  by (auto simp: span_overlaps_def disjoint_spans_def word_less_nat_alt)

text \<open>Position, offset and size of directory entry \<open>i\<close> of a directory at \<open>d\<close>.\<close>

abbreviation ent :: "nat \<Rightarrow> nat \<Rightarrow> nat" where
  "ent d i \<equiv> d + 48 * i"

definition eoff :: "u8 list \<Rightarrow> nat \<Rightarrow> nat \<Rightarrow> nat" where
  "eoff p d i = unat (le64_at p (ent d i + 16))"

definition esize :: "u8 list \<Rightarrow> nat \<Rightarrow> nat \<Rightarrow> nat" where
  "esize p d i = unat (le64_at p (ent d i + 24))"

definition ealign :: "u8 list \<Rightarrow> nat \<Rightarrow> nat \<Rightarrow> nat" where
  "ealign p d i = unat (le32_at p (ent d i + 40))"

lemma directory_entry_eq:
  assumes "unat dir + 48 * i < 2 ^ 64"
  shows "directory_entry dir i = ent (unat dir) i"
proof -
  have "unat (of_nat i * 48 :: u64) = 48 * i"
  proof -
    have "(of_nat i * 48 :: u64) = of_nat (48 * i)" by simp
    then show ?thesis using assms by (simp only: unat_of_nat_u64)
  qed
  then show ?thesis
    using assms unat_add_u64 [of dir "of_nat i * 48"] by (simp add: directory_entry_def v2_consts)
qed

text \<open>What one directory entry must satisfy in a capsule of \<open>n\<close> bytes whose directory of \<open>c\<close>
  entries is at \<open>d\<close>.\<close>

definition entry_ok :: "u8 list \<Rightarrow> nat \<Rightarrow> nat \<Rightarrow> nat \<Rightarrow> nat \<Rightarrow> bool" where
  "entry_ok p n d c i \<longleftrightarrow>
     le16_at p (ent d i + 14) = 0 \<and> le32_at p (ent d i + 44) = 0 \<and>
     power_of_two (le32_at p (ent d i + 40)) \<and> ealign p d i \<le> 4096 \<and> ealign p d i dvd eoff p d i \<and>
     0 < esize p d i \<and> eoff p d i + esize p d i \<le> n \<and>
     disjoint_spans (eoff p d i) (esize p d i) 0 64 \<and>
     disjoint_spans (eoff p d i) (esize p d i) d (48 * c) \<and>
     (\<forall>j<i. disjoint_spans (eoff p d i) (esize p d i) (eoff p d j) (esize p d j))"

text \<open>The geometry the header checks establish before the directory is read.\<close>

definition geom :: "u8 list \<Rightarrow> u64 \<Rightarrow> u64 \<Rightarrow> u32 \<Rightarrow> bool" where
  "geom p ext dir cnt \<longleftrightarrow> unat ext \<le> length p \<and> unat ext \<le> 67108864 \<and> 64 \<le> unat dir \<and>
     unat dir + 48 * unat cnt \<le> unat ext \<and> unat cnt \<le> 1024"

lemma geom_ent: "geom p ext dir cnt \<Longrightarrow> i < unat cnt \<Longrightarrow> ent (unat dir) i + 48 \<le> unat ext"
  by (auto simp: geom_def Suc_le_eq [symmetric])

lemma geom_get:
  assumes "geom p ext dir cnt" "i < unat cnt"
  shows "directory_entry dir i = ent (unat dir) i"
    "get64 p (ent (unat dir) i + 16) = Some (le64_at p (ent (unat dir) i + 16))"
    "get64 p (ent (unat dir) i + 24) = Some (le64_at p (ent (unat dir) i + 24))"
    "get64 p (ent (unat dir) i + 32) = Some (le64_at p (ent (unat dir) i + 32))"
    "get32 p (ent (unat dir) i + 40) = Some (le32_at p (ent (unat dir) i + 40))"
    "ne16 p (ent (unat dir) i + 14) 0 = Some (le16_at p (ent (unat dir) i + 14) \<noteq> 0)"
    "ne32 p (ent (unat dir) i + 44) 0 = Some (le32_at p (ent (unat dir) i + 44) \<noteq> 0)"
proof -
  have b: "ent (unat dir) i + 48 \<le> unat ext" "unat ext \<le> length p" "unat ext \<le> 67108864"
    using assms geom_ent by (auto simp: geom_def)
  then show "directory_entry dir i = ent (unat dir) i"
    by (intro directory_entry_eq) simp
qed (use assms geom_ent [OF assms] in \<open>simp_all add: geom_def get_at ne_at\<close>)

section \<open>The entry checks\<close>

lemma overlaps_prior_total:
  "geom p ext dir cnt \<Longrightarrow> \<forall>j\<in>set js. j < unat cnt \<Longrightarrow> \<exists>b. overlaps_prior p dir a n js = Some b"
  by (induction js) (auto simp: geom_get Let_def)

lemma overlaps_prior_eq:
  assumes "geom p ext dir cnt" "\<forall>j\<in>set js. j < unat cnt"
    "\<forall>j\<in>set js. eoff p (unat dir) j + esize p (unat dir) j < 2 ^ 64"
    "unat a + unat n < 2 ^ 64"
  shows "overlaps_prior p dir a n js = Some (\<exists>j\<in>set js.
    \<not> disjoint_spans (unat a) (unat n) (eoff p (unat dir) j) (esize p (unat dir) j))"
  using assms(2,3)
proof (induction js)
  case (Cons j js)
  then have "span_overlaps a n (le64_at p (ent (unat dir) j + 16)) (le64_at p (ent (unat dir) j + 24))
      \<longleftrightarrow> \<not> disjoint_spans (unat a) (unat n) (eoff p (unat dir) j) (esize p (unat dir) j)"
    using assms(4) by (subst span_overlaps_iff) (auto simp: eoff_def esize_def)
  with Cons show ?case
    using assms(1) by (auto simp: geom_get Let_def)
qed simp

lemma check_entry_total:
  assumes "geom p ext dir cnt" "i < unat cnt"
  shows "\<exists>r. check_entry p t dir ds i w = Some r"
proof -
  obtain b where "overlaps_prior p dir (le64_at p (ent (unat dir) i + 16))
      (le64_at p (ent (unat dir) i + 24)) [0..<i] = Some b"
    using overlaps_prior_total [OF assms(1), of "[0..<i]"] assms(2) by fastforce
  then show ?thesis
    using assms by (simp add: check_entry_def geom_get [OF assms] Let_def)
qed

lemma check_entries_total:
  assumes "geom p ext dir cnt"
  shows "\<forall>i\<in>set is. i < unat cnt \<Longrightarrow> \<exists>r. check_entries p t dir ds is w = Some r"
proof (induction "is" arbitrary: w)
  case (Cons i "is")
  obtain r where "check_entry p t dir ds i w = Some r"
    using check_entry_total [OF assms] Cons.prems by force
  with Cons show ?case by (cases r) auto
qed simp

lemma dir_size_eq:
  "unat (cnt :: u32) \<le> 1024 \<Longrightarrow> unat (ucast cnt * BBP_V2_DIRENT_SIZE :: u64) = 48 * unat cnt"
  by (simp add: v2_consts unat_word_ariths unat_ucast_u32)

lemma check_entry_ok_iff:
  assumes g: "geom p ext dir cnt" and i: "i < unat cnt"
    and pre: "\<forall>j<i. entry_ok p (unat ext) (unat dir) (unat cnt) j" and w: "unat w \<le> 100663296"
  shows "check_entry p ext dir (ucast cnt * BBP_V2_DIRENT_SIZE) i w = Some (Inr w') \<longleftrightarrow>
    entry_ok p (unat ext) (unat dir) (unat cnt) i \<and> unat w + esize p (unat dir) i \<le> 100663296 \<and>
    w' = w + of_nat (esize p (unat dir) i)"
proof -
  define a where "a = le64_at p (ent (unat dir) i + 16)"
  define n where "n = le64_at p (ent (unat dir) i + 24)"
  define al where "al = le32_at p (ent (unat dir) i + 40)"
  have e: "eoff p (unat dir) i = unat a" "esize p (unat dir) i = unat n" "ealign p (unat dir) i = unat al"
    by (simp_all add: a_def n_def al_def eoff_def esize_def ealign_def)
  have x: "unat ext \<le> 67108864" "unat cnt \<le> 1024" "unat dir + 48 * unat cnt \<le> unat ext"
    using g by (auto simp: geom_def)
  have bound: "(a > ext \<or> n > ext - a) \<longleftrightarrow> \<not> unat a + unat n \<le> unat ext"
    by (cases "ext < a") (auto simp: word_le_nat_alt word_less_nat_alt unat_sub not_less)
  have prior: "overlaps_prior p dir a n [0..<i] = Some (\<not> (\<forall>j<i.
      disjoint_spans (unat a) (unat n) (eoff p (unat dir) j) (esize p (unat dir) j)))"
    if "unat a + unat n \<le> unat ext"
    by (subst overlaps_prior_eq [OF g]) (use that x i pre in \<open>fastforce simp: entry_ok_def\<close>)+
  have hdr: "(span_overlaps a n 0 BBP_V2_HEADER_SIZE \<or>
      span_overlaps a n dir (ucast cnt * BBP_V2_DIRENT_SIZE)) \<longleftrightarrow>
     \<not> (disjoint_spans (unat a) (unat n) 0 64 \<and>
        disjoint_spans (unat a) (unat n) (unat dir) (48 * unat cnt))"
    if "unat a + unat n \<le> unat ext"
    using that x dir_size_eq [of cnt] by (simp add: span_overlaps_iff v2_consts)
  have work: "n > BBP_V2_MAX_CRC_WORK - w \<longleftrightarrow> \<not> unat w + unat n \<le> 100663296"
    using w by (auto simp: v2_consts word_less_nat_alt word_le_nat_alt unat_sub not_less)
  have al: "(\<not> power_of_two al \<or> al > BBP_V2_MAX_ALIGNMENT \<or> a AND ucast (al - 1) \<noteq> 0)
      \<longleftrightarrow> \<not> (power_of_two al \<and> unat al \<le> 4096 \<and> unat al dvd unat a)"
    using offset_aligned_iff [of al a] by (auto simp: v2_consts word_less_nat_alt not_less)
  have n0: "n = 0 \<longleftrightarrow> \<not> 0 < unat n" by (simp add: unat_eq_zero)
  have chk: "check_entry p ext dir (ucast cnt * BBP_V2_DIRENT_SIZE) i w =
    (if le16_at p (ent (unat dir) i + 14) \<noteq> 0 \<or> le32_at p (ent (unat dir) i + 44) \<noteq> 0
     then Some (Inl BBP_V2_ERR_FORMAT)
     else if \<not> (power_of_two al \<and> unat al \<le> 4096 \<and> unat al dvd unat a) then Some (Inl BBP_V2_ERR_ALIGNMENT)
     else if \<not> 0 < unat n then Some (Inl BBP_V2_ERR_FORMAT)
     else if \<not> unat a + unat n \<le> unat ext then Some (Inl BBP_V2_ERR_OVERFLOW)
     else if \<not> (disjoint_spans (unat a) (unat n) 0 64 \<and>
        disjoint_spans (unat a) (unat n) (unat dir) (48 * unat cnt)) then Some (Inl BBP_V2_ERR_OVERLAP)
     else if \<not> (\<forall>j<i. disjoint_spans (unat a) (unat n) (eoff p (unat dir) j) (esize p (unat dir) j))
     then Some (Inl BBP_V2_ERR_OVERLAP)
     else if \<not> unat w + unat n \<le> 100663296 then Some (Inl BBP_V2_ERR_WORK) else Some (Inr (w + n)))"
    by (cases "unat a + unat n \<le> unat ext")
      (simp_all only: check_entry_def geom_get [OF g i] Let_def a_def [symmetric] n_def [symmetric]
       al_def [symmetric] bind.bind_lunit sc_or_Some al n0 bound hdr prior work simp_thms if_True if_False)
  show ?thesis
    unfolding chk entry_ok_def e al_def [symmetric]
    by (simp add: of_nat_unat eq_commute [of _ w'] del: not_all not_imp) blast
qed

text \<open>The work counter after the entries before \<open>i\<close>.\<close>

definition crc_work :: "u8 list \<Rightarrow> nat \<Rightarrow> nat \<Rightarrow> nat \<Rightarrow> nat" where
  "crc_work p n d i = n + sum_list (map (esize p d) [0..<i])"

lemma crc_work_Suc: "crc_work p n d (Suc i) = crc_work p n d i + esize p d i"
  by (simp add: crc_work_def)

lemma crc_work_mono: "i \<le> j \<Longrightarrow> crc_work p n d i \<le> crc_work p n d j"
  by (rule lift_Suc_mono_le [of "crc_work p n d"]) (simp_all add: crc_work_Suc)

lemma check_entries_ok_iff:
  assumes g: "geom p ext dir cnt"
  shows "\<lbrakk>i \<le> unat cnt; \<forall>j<i. entry_ok p (unat ext) (unat dir) (unat cnt) j;
      unat w = crc_work p (unat ext) (unat dir) i; unat w \<le> 100663296\<rbrakk> \<Longrightarrow>
    (\<exists>w'. check_entries p ext dir (ucast cnt * BBP_V2_DIRENT_SIZE) [i..<unat cnt] w = Some (Inr w')) \<longleftrightarrow>
    (\<forall>j<unat cnt. entry_ok p (unat ext) (unat dir) (unat cnt) j) \<and>
    crc_work p (unat ext) (unat dir) (unat cnt) \<le> 100663296"
proof (induction "unat cnt - i" arbitrary: i w)
  case (Suc m)
  let ?chk = "check_entry p ext dir (ucast cnt * BBP_V2_DIRENT_SIZE) i w"
  have i: "i < unat cnt" "[i..<unat cnt] = i # [Suc i..<unat cnt]"
    using Suc.hyps(2) by (simp_all add: upt_conv_Cons)
  note iff = check_entry_ok_iff [OF g i(1) Suc.prems(2,4)]
  have mono: "crc_work p (unat ext) (unat dir) (Suc i) \<le> crc_work p (unat ext) (unat dir) (unat cnt)"
    using i by (intro crc_work_mono) simp
  show ?case
  proof (cases "\<exists>w'. ?chk = Some (Inr w')")
    case True
    then obtain w' where w': "?chk = Some (Inr w')" by blast
    then have ok: "entry_ok p (unat ext) (unat dir) (unat cnt) i"
      "unat w + esize p (unat dir) i \<le> 100663296" "w' = w + of_nat (esize p (unat dir) i)"
      using iff by blast+
    have "unat w' = unat w + esize p (unat dir) i"
      using ok by (simp add: unat_word_ariths unat_of_nat_u64)
    then show ?thesis
      using Suc.hyps(1) [of "Suc i" w'] Suc.hyps(2) Suc.prems ok w' i
      by (auto simp: crc_work_Suc less_Suc_eq)
  next
    case False
    obtain r where r: "?chk = Some r" using check_entry_total [OF g i(1)] by blast
    with False obtain e where "r = Inl e" by (cases r) auto
    moreover have "\<not> (entry_ok p (unat ext) (unat dir) (unat cnt) i \<and>
        unat w + esize p (unat dir) i \<le> 100663296)"
      using False iff by blast
    ultimately show ?thesis
      using r i Suc.prems mono by (auto simp: crc_work_Suc)
  qed
qed auto

section \<open>The padding check\<close>

text \<open>All spans of the capsule: header, directory (when it has entries), payloads.\<close>

definition capsule_spans :: "u8 list \<Rightarrow> nat \<Rightarrow> nat \<Rightarrow> (nat \<times> nat) list" where
  "capsule_spans p d c =
     (0, 64) # (if c \<noteq> 0 then [(d, 48 * c)] else []) @ map (\<lambda>i. (eoff p d i, esize p d i)) [0..<c]"

definition covered :: "(nat \<times> nat) list \<Rightarrow> nat \<Rightarrow> bool" where
  "covered sp q \<longleftrightarrow> (\<exists>a n. (a, n) \<in> set sp \<and> a \<le> q \<and> q < a + n)"

text \<open>A list of nonempty spans within \<open>N\<close> bytes, pairwise disjoint.\<close>

definition spans_ok :: "nat \<Rightarrow> (nat \<times> nat) list \<Rightarrow> bool" where
  "spans_ok N sp \<longleftrightarrow> distinct sp \<and> (\<forall>a n. (a, n) \<in> set sp \<longrightarrow> 0 < n \<and> a + n \<le> N) \<and>
     (\<forall>a n b k. (a, n) \<in> set sp \<and> (b, k) \<in> set sp \<and> (a, n) \<noteq> (b, k) \<longrightarrow> disjoint_spans a n b k)"

lemma entries_disjoint:
  assumes "\<forall>i<c. entry_ok p n d c i" "i < c" "j < c" "i \<noteq> j"
  shows "disjoint_spans (eoff p d i) (esize p d i) (eoff p d j) (esize p d j)"
proof (cases "i < j")
  case True
  then have "disjoint_spans (eoff p d j) (esize p d j) (eoff p d i) (esize p d i)"
    using assms by (simp add: entry_ok_def)
  then show ?thesis by (auto simp: disjoint_spans_def)
qed (use assms in \<open>simp add: entry_ok_def\<close>)

lemma capsule_spans_ok:
  assumes g: "geom p ext dir cnt" and e: "\<forall>i<unat cnt. entry_ok p (unat ext) (unat dir) (unat cnt) i"
  shows "spans_ok (unat ext) (capsule_spans p (unat dir) (unat cnt))"
proof -
  let ?f = "\<lambda>i. (eoff p (unat dir) i, esize p (unat dir) i)"
  have one: "0 < esize p (unat dir) i" "eoff p (unat dir) i + esize p (unat dir) i \<le> unat ext"
    "disjoint_spans (eoff p (unat dir) i) (esize p (unat dir) i) 0 64"
    "disjoint_spans (eoff p (unat dir) i) (esize p (unat dir) i) (unat dir) (48 * unat cnt)"
    if "i < unat cnt" for i
    using e that by (auto simp: entry_ok_def)
  have two: "disjoint_spans (eoff p (unat dir) i) (esize p (unat dir) i) (eoff p (unat dir) j) (esize p (unat dir) j)"
    if "i < unat cnt" "j < unat cnt" "i \<noteq> j" for i j
    using entries_disjoint [OF e] that by blast
  have "inj_on ?f {0..<unat cnt}"
  proof (rule inj_onI)
    fix i j assume ij: "i \<in> {0..<unat cnt}" "j \<in> {0..<unat cnt}" "?f i = ?f j"
    show "i = j"
      using two [of i j] one(1) [of i] ij by (cases "i = j") (auto simp: disjoint_spans_def)
  qed
  then have "distinct (map ?f [0..<unat cnt])" by (simp add: distinct_map)
  moreover have "(0, 64) \<notin> ?f ` {0..<unat cnt}" "(unat dir, 48 * unat cnt) \<notin> ?f ` {0..<unat cnt}"
    using one by (force simp: disjoint_spans_def)+
  moreover have "unat ext \<ge> 64" "unat dir \<ge> 64" "unat dir + 48 * unat cnt \<le> unat ext"
    using g by (auto simp: geom_def)
  ultimately show ?thesis
    unfolding spans_ok_def capsule_spans_def
  proof (intro conjI, goal_cases)
    case 2 then show ?case using one by auto
  next
    case 3
    have d: "disjoint_spans a n b k \<longleftrightarrow> disjoint_spans b k a n" for a n b k
      by (auto simp: disjoint_spans_def)
    have hd: "disjoint_spans 0 64 (unat dir) n" for n using 3 by (simp add: disjoint_spans_def)
    show ?case
      using one(3,4) two d hd by (auto split: if_splits) (metis+)?
  qed auto
qed

lemma spans_ok_disjoint:
  "\<lbrakk>spans_ok N sp; (a, n) \<in> set sp; (b, k) \<in> set sp; (a, n) \<noteq> (b, k)\<rbrakk> \<Longrightarrow> disjoint_spans a n b k"
  by (simp add: spans_ok_def)

lemma spans_ok_distinct: "spans_ok N sp \<Longrightarrow> distinct sp"
  by (simp add: spans_ok_def)

text \<open>The spans at or after a cursor; taking the first of them leaves one less.\<close>

definition ahead :: "(nat \<times> nat) list \<Rightarrow> nat \<Rightarrow> (nat \<times> nat) list" where
  "ahead sp c = filter (\<lambda>(a, n). c \<le> a) sp"

lemma ahead_step:
  assumes ok: "spans_ok N sp" and x: "(a, n) \<in> set (ahead sp c)"
    and least: "\<forall>(b, k)\<in>set (ahead sp c). a \<le> b"
  shows "length (ahead sp c) = Suc (length (ahead sp (a + n)))"
proof -
  have "n > 0" using ok x by (auto simp: spans_ok_def ahead_def)
  have "set (ahead sp c) = insert (a, n) (set (ahead sp (a + n)))"
  proof (intro equalityI subsetI)
    fix y assume y: "y \<in> set (ahead sp c)"
    obtain b k where bk: "y = (b, k)" by (cases y)
    show "y \<in> insert (a, n) (set (ahead sp (a + n)))"
    proof (cases "(b, k) = (a, n)")
      case False
      then have "disjoint_spans a n b k"
        using spans_ok_disjoint [OF ok, of a n b k] x y bk by (auto simp: ahead_def)
      moreover have "a \<le> b" "k > 0"
        using least ok y bk by (auto simp: ahead_def spans_ok_def)
      ultimately show ?thesis
        using y bk by (auto simp: disjoint_spans_def ahead_def)
    qed (simp add: bk)
  qed (use x in \<open>auto simp: ahead_def\<close>)
  moreover have "(a, n) \<notin> set (ahead sp (a + n))"
    using \<open>n > 0\<close> by (auto simp: ahead_def)
  moreover have "distinct (ahead sp c)" "distinct (ahead sp (a + n))"
    using spans_ok_distinct [OF ok] by (simp_all add: ahead_def)
  ultimately show ?thesis
    by (metis distinct_card card_insert_disjoint List.finite_set)
qed

lemma pick_span_eq:
  assumes g: "geom p ext dir cnt"
  shows "\<forall>i\<in>set is. i < unat cnt \<Longrightarrow> \<exists>bs bz. pick_span p dir cur is best = Some (bs, bz) \<and>
    ((bs, bz) = best \<or> (\<exists>i\<in>set is. unat cur \<le> eoff p (unat dir) i \<and> unat bs = eoff p (unat dir) i \<and>
       unat bz = esize p (unat dir) i \<and> bs < fst best)) \<and>
    bs \<le> fst best \<and> (\<forall>i\<in>set is. unat cur \<le> eoff p (unat dir) i \<longrightarrow> unat bs \<le> eoff p (unat dir) i)"
proof (induction "is" arbitrary: best)
  case Nil
  then show ?case by (cases best) simp
next
  case (Cons i "is")
  obtain b0 b1 where best: "best = (b0, b1)" by (cases best)
  define a where "a = le64_at p (ent (unat dir) i + 16)"
  define n where "n = le64_at p (ent (unat dir) i + 24)"
  have e: "eoff p (unat dir) i = unat a" "esize p (unat dir) i = unat n"
    by (simp_all add: a_def n_def eoff_def esize_def)
  have i: "i < unat cnt" using Cons.prems by simp
  note get = geom_get [OF g i, folded a_def n_def]
  show ?case
  proof (cases "a \<ge> cur \<and> a < b0")
    case True
    then have "pick_span p dir cur (i # is) best = pick_span p dir cur is (a, n)"
      by (simp add: best get Let_def)
    then show ?thesis
      using Cons.IH [of "(a, n)"] Cons.prems True best e
      by (auto simp: word_nat_simps)
  next
    case False
    then have "pick_span p dir cur (i # is) best = pick_span p dir cur is best"
      by (auto simp: best get Let_def)
    then show ?thesis
      using Cons.IH [of best] Cons.prems False best e
      by (auto simp: word_nat_simps)
  qed
qed

lemma next_span_eq:
  assumes g: "geom p ext dir cnt"
  defines "sp \<equiv> capsule_spans p (unat dir) (unat cnt)"
  shows "\<exists>bs bz. next_span p ext dir cnt cur = Some (bs, bz) \<and>
    ((bs, bz) = (ext, 0) \<or> (unat bs, unat bz) \<in> set (ahead sp (unat cur))) \<and>
    (\<forall>(b, k)\<in>set (ahead sp (unat cur)). unat bs \<le> b)"
proof -
  have c: "unat cnt \<le> 1024" using g by (simp add: geom_def)
  define best where "best = (if cnt \<noteq> 0 \<and> dir \<ge> cur \<and> dir < fst (if cur = 0 then (0, BBP_V2_HEADER_SIZE) else (ext, 0))
     then (dir, ucast cnt * BBP_V2_DIRENT_SIZE) else if cur = 0 then (0, BBP_V2_HEADER_SIZE) else (ext, 0))"
  have ns: "next_span p ext dir cnt cur = pick_span p dir cur [0..<unat cnt] best"
    by (simp add: next_span_def best_def Let_def)
  have b1: "best = (ext, 0) \<or> (unat (fst best), unat (snd best)) \<in> set (ahead sp (unat cur))"
    using dir_size_eq [OF c] by (auto simp: best_def sp_def capsule_spans_def ahead_def v2_consts word_nat_simps unat_eq_zero)
  have b2: "cur = 0 \<Longrightarrow> fst best = 0" "cnt \<noteq> 0 \<Longrightarrow> dir \<ge> cur \<Longrightarrow> fst best \<le> dir"
    by (auto simp: best_def)
  obtain bs bz where r: "pick_span p dir cur [0..<unat cnt] best = Some (bs, bz)"
    "(bs, bz) = best \<or> (\<exists>i<unat cnt. unat cur \<le> eoff p (unat dir) i \<and> unat bs = eoff p (unat dir) i \<and>
       unat bz = esize p (unat dir) i)" "bs \<le> fst best"
    "\<forall>i<unat cnt. unat cur \<le> eoff p (unat dir) i \<longrightarrow> unat bs \<le> eoff p (unat dir) i"
    using pick_span_eq [OF g, of "[0..<unat cnt]" cur best] by force
  have "(bs, bz) = (ext, 0) \<or> (unat bs, unat bz) \<in> set (ahead sp (unat cur))"
    using r(2) b1 by (auto simp: sp_def capsule_spans_def ahead_def)
  moreover have "\<forall>(b, k)\<in>set (ahead sp (unat cur)). unat bs \<le> b"
    using r(3,4) b2 by (auto simp: sp_def capsule_spans_def ahead_def word_nat_simps unat_eq_zero)
  ultimately show ?thesis using ns r(1) by auto
qed

text \<open>The loop visits the spans in the order of their offsets.\<close>

lemma padding_loop_eq:
  assumes g: "geom p ext dir cnt"
  defines "sp \<equiv> capsule_spans p (unat dir) (unat cnt)"
  assumes ok: "spans_ok (unat ext) sp"
  shows "\<lbrakk>length (ahead sp (unat cur)) = m; unat cur \<le> unat ext;
      \<forall>(a, n)\<in>set sp. a + n \<le> unat cur \<or> unat cur \<le> a\<rbrakk> \<Longrightarrow>
    \<exists>r. padding_loop p ext dir cnt m cur = Some r \<and>
     (case r of Inl e \<Rightarrow> e = BBP_V2_ERR_PADDING \<and> (\<exists>q<unat ext. \<not> covered sp q \<and> p ! q \<noteq> 0)
      | Inr c \<Rightarrow> unat cur \<le> unat c \<and> unat c \<le> unat ext \<and> ahead sp (unat c) = [] \<and>
          (\<forall>q. unat cur \<le> q \<and> q < unat c \<longrightarrow> covered sp q \<or> p ! q = 0) \<and>
          (\<forall>(a, n)\<in>set sp. a + n \<le> unat c))"
proof (induction m arbitrary: cur)
  case 0
  then show ?case by (fastforce simp: ahead_def filter_empty_conv)
next
  case (Suc m)
  obtain bs bz where ns: "next_span p ext dir cnt cur = Some (bs, bz)"
    "(bs, bz) = (ext, 0) \<or> (unat bs, unat bz) \<in> set (ahead sp (unat cur))"
    "\<forall>(b, k)\<in>set (ahead sp (unat cur)). unat bs \<le> b"
    using next_span_eq [OF g, of cur] unfolding sp_def by blast
  have mem: "(unat bs, unat bz) \<in> set (ahead sp (unat cur))"
  proof (rule ccontr)
    assume "\<not> ?thesis"
    then have "bs = ext" using ns(2) by simp
    obtain b k where "(b, k) \<in> set (ahead sp (unat cur))"
      using Suc.prems(1) by (cases "ahead sp (unat cur)") auto
    then show False
      using ns(3) ok \<open>bs = ext\<close> by (fastforce simp: ahead_def spans_ok_def)
  qed
  then have sz: "0 < unat bz" "unat bs + unat bz \<le> unat ext" "unat cur \<le> unat bs" "(unat bs, unat bz) \<in> set sp"
    using ok by (auto simp: ahead_def spans_ok_def)
  have next_cur: "unat (bs + bz) = unat bs + unat bz"
    using sz g by (intro unat_add_u64) (simp add: geom_def)
  have gap: "\<not> covered sp q" if "unat cur \<le> q" "q < unat bs" for q
    using that Suc.prems(3) ns(3) by (fastforce simp: covered_def ahead_def)
  define z where "z = (\<forall>q. unat cur \<le> q \<and> q < unat bs \<longrightarrow> p ! q = 0)"
  have "(if cur < bs then bytes_are_zero p (unat cur) (unat (bs - cur)) else Some True) = Some z"
  proof (cases "cur < bs")
    case True
    then have "unat cur + unat (bs - cur) = unat bs" by (simp add: unat_sub word_nat_simps)
    moreover have "z \<longleftrightarrow> (\<forall>i<unat (bs - cur). p ! (unat cur + i) = 0)"
      using \<open>unat cur + unat (bs - cur) = unat bs\<close> unfolding z_def
      by (metis add_less_cancel_left le_add1 le_iff_add)
    ultimately show ?thesis
      using True sz g by (simp add: bytes_are_zero_eq geom_def)
  qed (use sz in \<open>auto simp: z_def word_nat_simps\<close>)
  then have step: "padding_loop p ext dir cnt (Suc m) cur =
      (if \<not> z then Some (Inl BBP_V2_ERR_PADDING) else padding_loop p ext dir cnt m (bs + bz))"
    using ns(1) sz(1) by (auto simp: unat_eq_zero)
  show ?case
  proof (cases z)
    case False
    then obtain q where "unat cur \<le> q" "q < unat bs" "p ! q \<noteq> 0" by (auto simp: z_def)
    then have "\<exists>q<unat ext. \<not> covered sp q \<and> p ! q \<noteq> 0"
      using gap sz(2) by (intro exI [of _ q]) simp
    with False show ?thesis by (simp only: step) simp
  next
    case True
    have "length (ahead sp (unat (bs + bz))) = m"
      using ahead_step [OF ok mem ns(3)] Suc.prems(1) next_cur by simp
    moreover have "\<forall>(a, n)\<in>set sp. a + n \<le> unat (bs + bz) \<or> unat (bs + bz) \<le> a"
    proof clarify
      fix a n assume a: "(a, n) \<in> set sp" "\<not> unat (bs + bz) \<le> a"
      show "a + n \<le> unat (bs + bz)"
      proof (cases "(a, n) = (unat bs, unat bz) \<or> a + n \<le> unat cur")
        case False
        then have "(a, n) \<in> set (ahead sp (unat cur))"
          using Suc.prems(3) a by (auto simp: ahead_def)
        then have "unat bs \<le> a" using ns(3) by auto
        then show ?thesis
          using spans_ok_disjoint [OF ok a(1) sz(4)] False a next_cur sz(1)
          by (auto simp: disjoint_spans_def)
      qed (use sz next_cur in auto)
    qed
    ultimately obtain r where r: "padding_loop p ext dir cnt m (bs + bz) = Some r"
      "case r of Inl e \<Rightarrow> e = BBP_V2_ERR_PADDING \<and> (\<exists>q<unat ext. \<not> covered sp q \<and> p ! q \<noteq> 0)
      | Inr c \<Rightarrow> unat (bs + bz) \<le> unat c \<and> unat c \<le> unat ext \<and> ahead sp (unat c) = [] \<and>
          (\<forall>q. unat (bs + bz) \<le> q \<and> q < unat c \<longrightarrow> covered sp q \<or> p ! q = 0) \<and>
          (\<forall>(a, n)\<in>set sp. a + n \<le> unat c)"
      using Suc.IH [of "bs + bz"] sz next_cur by auto
    have "covered sp q \<or> p ! q = 0" if "unat cur \<le> q" "q < unat bs + unat bz" for q
      using that True sz(4) by (cases "q < unat bs") (auto simp: z_def covered_def)
    with r sz step True next_cur show ?thesis
      by (auto split: sum.splits) (meson not_le)+
  qed
qed

lemma validate_padding_eq:
  assumes g: "geom p ext dir cnt"
    and e: "\<forall>i<unat cnt. entry_ok p (unat ext) (unat dir) (unat cnt) i"
  shows "validate_padding p ext dir cnt = Some
    (if \<forall>q<unat ext. covered (capsule_spans p (unat dir) (unat cnt)) q \<or> p ! q = 0
     then BBP_V2_OK else BBP_V2_ERR_PADDING)"
proof -
  let ?sp = "capsule_spans p (unat dir) (unat cnt)"
  let ?z = "\<forall>q<unat ext. covered ?sp q \<or> p ! q = 0"
  note ok = capsule_spans_ok [OF g e]
  have c: "unat cnt \<le> 1024" "64 \<le> unat ext" "unat ext \<le> length p" using g by (auto simp: geom_def)
  have "unat (cnt + 1 + (if cnt \<noteq> 0 then 1 else 0) :: u32) = unat cnt + 1 + (if cnt \<noteq> 0 then 1 else 0)"
    using c by (simp add: unat_word_ariths)
  then have "length (ahead ?sp (unat (0 :: u64))) = unat (cnt + 1 + (if cnt \<noteq> 0 then 1 else 0) :: u32)"
    by (simp add: ahead_def capsule_spans_def unat_eq_zero)
  then obtain r where r: "padding_loop p ext dir cnt (unat (cnt + 1 + (if cnt \<noteq> 0 then 1 else 0))) 0 = Some r"
    "case r of Inl e \<Rightarrow> e = BBP_V2_ERR_PADDING \<and> (\<exists>q<unat ext. \<not> covered ?sp q \<and> p ! q \<noteq> 0)
      | Inr c \<Rightarrow> unat (0 :: u64) \<le> unat c \<and> unat c \<le> unat ext \<and> ahead ?sp (unat c) = [] \<and>
          (\<forall>q. unat (0 :: u64) \<le> q \<and> q < unat c \<longrightarrow> covered ?sp q \<or> p ! q = 0) \<and>
          (\<forall>(a, n)\<in>set ?sp. a + n \<le> unat c)"
    using padding_loop_eq [OF g ok, of 0] by force
  show ?thesis
  proof (cases r)
    case (Inl e)
    with r show ?thesis by (auto simp: validate_padding_def Let_def)
  next
    case (Inr cur)
    have le: "cur \<le> ext" using r(2) Inr by (simp add: word_le_nat_alt)
    have unc: "\<not> covered ?sp q" if "unat cur \<le> q" for q
      using that r(2) Inr by (fastforce simp: covered_def)
    have split: "?z \<longleftrightarrow> (\<forall>i<unat (ext - cur). p ! (unat cur + i) = 0)"
    proof
      assume z: "?z"
      show "\<forall>i<unat (ext - cur). p ! (unat cur + i) = 0"
        using z unc le by (auto simp: unat_sub word_nat_simps) (metis add.commute le_add1 less_diff_conv)
    next
      assume i: "\<forall>i<unat (ext - cur). p ! (unat cur + i) = 0"
      show "?z"
      proof clarify
        fix q assume q: "q < unat ext" "p ! q \<noteq> 0"
        show "covered ?sp q"
          using i [rule_format, of "q - unat cur"] r(2) Inr q le
          by (cases "q < unat cur") (auto simp: unat_sub diff_less_mono)
      qed
    qed
    have "(if cur < ext then bytes_are_zero p (unat cur) (unat (ext - cur)) else Some True) = Some ?z"
      unfolding split using le c(3) by (auto simp: bytes_are_zero_eq unat_sub word_nat_simps)
    with r(1) Inr show ?thesis by (simp add: validate_padding_def)
  qed
qed

section \<open>Well-formed capsules\<close>

abbreviation cnt_at :: "u8 list \<Rightarrow> u32" where "cnt_at p \<equiv> le32_at p 20"
abbreviation dir_at :: "u8 list \<Rightarrow> u64" where "dir_at p \<equiv> le64_at p 32"

definition header_ok :: "u8 list \<Rightarrow> u64 \<Rightarrow> bool" where
  "header_ok p ext \<longleftrightarrow> 64 \<le> unat ext \<and> unat ext \<le> 67108864 \<and> take 8 p = bbp_v2_magic \<and>
     le16_at p 8 = 2 \<and> le16_at p 10 = 0 \<and> le16_at p 12 = 64 \<and> le16_at p 14 = 48 \<and>
     le32_at p 16 = 0 \<and> le64_at p 48 = 0 \<and> le64_at p 56 = 0 \<and> le64_at p 24 = ext \<and>
     unat (cnt_at p) \<le> 1024 \<and> 8 dvd unat (dir_at p) \<and> 64 \<le> unat (dir_at p) \<and>
     unat (dir_at p) + 48 * unat (cnt_at p) \<le> unat ext \<and>
     (cnt_at p = 0 \<longrightarrow> dir_at p = 64 \<and> ext = 64)"

definition payload_at :: "u8 list \<Rightarrow> nat \<Rightarrow> nat \<Rightarrow> u8 list" where
  "payload_at p d i = take (esize p d i) (drop (eoff p d i) p)"

definition payload_crc_ok :: "u8 list \<Rightarrow> nat \<Rightarrow> nat \<Rightarrow> bool" where
  "payload_crc_ok p d i \<longleftrightarrow> bbp_crc64 (payload_at p d i) = le64_at p (ent d i + 32)"

text \<open>A capsule of \<open>ext\<close> bytes at the start of \<open>p\<close>, as the format documents it.\<close>

definition capsule_ok :: "u8 list \<Rightarrow> u64 \<Rightarrow> bool" where
  "capsule_ok p ext \<longleftrightarrow> header_ok p ext \<and>
     (let d = unat (dir_at p); c = unat (cnt_at p) in
      (\<forall>i<c. entry_ok p (unat ext) d c i) \<and> crc_work p (unat ext) d c \<le> 100663296 \<and>
      (\<forall>q<unat ext. covered (capsule_spans p d c) q \<or> p ! q = 0) \<and>
      crc_field_ok (take (unat ext) p) 40 \<and> (\<forall>i<c. payload_crc_ok p d i))"

definition view_of :: "u8 list \<Rightarrow> u64 \<Rightarrow> bbp_v2_view" where
  "view_of p ext = \<lparr>v_data = p, v_total_size = ext, v_directory_offset = dir_at p,
     v_flags = le32_at p 16, v_entry_count = cnt_at p\<rparr>"

lemma header_ok_geom: "header_ok p ext \<Longrightarrow> unat ext \<le> length p \<Longrightarrow> geom p ext (dir_at p) (cnt_at p)"
  by (simp add: header_ok_def geom_def)

lemma crc_with_zero_checksum_eq:
  assumes "unat ext \<le> length p" "64 \<le> unat ext"
  shows "crc_with_zero_checksum p ext = Some (crc_skip_bytes (take (unat ext) p) 40)"
proof -
  have "unat (ext - 48) = unat ext - 48"
    using assms by (simp add: unat_sub word_le_nat_alt)
  then show ?thesis
    using assms by (simp add: crc_with_zero_checksum_def crc_skip_bytes_def rd_def min_def drop_take)
qed

lemma check_payloads_eq:
  assumes g: "geom p ext dir cnt"
    and e: "\<forall>i<unat cnt. entry_ok p (unat ext) (unat dir) (unat cnt) i"
  shows "\<forall>i\<in>set is. i < unat cnt \<Longrightarrow>
    check_payloads p dir is = Some (\<forall>i\<in>set is. payload_crc_ok p (unat dir) i)"
proof (induction "is")
  case (Cons i "is")
  have i: "i < unat cnt" using Cons.prems by simp
  then have "eoff p (unat dir) i + esize p (unat dir) i \<le> length p"
    using e g by (force simp: entry_ok_def geom_def)
  then have "rd p (unat (le64_at p (ent (unat dir) i + 16))) (unat (le64_at p (ent (unat dir) i + 24)))
      = Some (payload_at p (unat dir) i)"
    by (simp add: rd_def payload_at_def eoff_def esize_def)
  with Cons show ?case
    by (simp add: geom_get [OF g i] Let_def payload_crc_ok_def)
qed simp

lemma parse_body_eq:
  assumes h: "header_ok p ext" and len: "unat ext \<le> length p"
  shows "\<exists>r. parse_body p ext ext (cnt_at p) (dir_at p) = Some r \<and>
    (r = Inr (view_of p ext) \<and> capsule_ok p ext \<or> (\<exists>e. r = Inl e) \<and> \<not> capsule_ok p ext)"
proof -
  let ?dir = "dir_at p" and ?cnt = "cnt_at p"
  let ?chk = "check_entries p ext ?dir (ucast ?cnt * BBP_V2_DIRENT_SIZE) [0..<unat ?cnt] ext"
  note g = header_ok_geom [OF h len]
  have x: "64 \<le> unat ext" "unat ext \<le> 67108864" "unat ?cnt \<le> 1024" "64 \<le> unat ?dir"
    "unat ?dir + 48 * unat ?cnt \<le> unat ext"
    using h by (auto simp: header_ok_def)
  have "?dir \<le> ext" using x by (simp add: word_le_nat_alt)
  then have size: "\<not> (?dir < BBP_V2_HEADER_SIZE \<or> ?dir > ext \<or> ucast ?cnt * BBP_V2_DIRENT_SIZE > ext - ?dir)"
    using x dir_size_eq [OF x(3)] by (simp add: word_nat_simps unat_sub v2_consts)
  have body: "parse_body p ext ext ?cnt ?dir = do {
      r \<leftarrow> ?chk;
      case r of Inl e \<Rightarrow> Some (Inl e)
      | Inr _ \<Rightarrow> do {
          status \<leftarrow> validate_padding p ext ?dir ?cnt;
          if status \<noteq> BBP_V2_OK then Some (Inl status)
          else if crc_skip_bytes (take (unat ext) p) 40 \<noteq> le64_at p 40 then Some (Inl BBP_V2_ERR_CRC)
          else do {
            ok \<leftarrow> check_payloads p ?dir [0..<unat ?cnt];
            if \<not> ok then Some (Inl BBP_V2_ERR_CRC) else Some (Inr (view_of p ext)) } } }"
  proof -
    have rd: "crc_with_zero_checksum p ext = Some (crc_skip_bytes (take (unat ext) p) 40)"
      "get64 p 40 = Some (le64_at p 40)" "get32 p 16 = Some (le32_at p 16)"
      using x len by (simp_all add: crc_with_zero_checksum_eq get_at)
    show ?thesis
      using size by (simp only: parse_body_def Let_def view_of_def rd bind.bind_lunit if_False)
  qed
  obtain r where r: "?chk = Some r"
    using check_entries_total [OF g, of "[0..<unat ?cnt]"] by force
  have iff: "(\<exists>w. ?chk = Some (Inr w)) \<longleftrightarrow> (\<forall>j<unat ?cnt. entry_ok p (unat ext) (unat ?dir) (unat ?cnt) j) \<and>
      crc_work p (unat ext) (unat ?dir) (unat ?cnt) \<le> 100663296"
    using x by (intro check_entries_ok_iff [OF g]) (simp_all add: crc_work_def)
  show ?thesis
  proof (cases r)
    case (Inl e)
    then have "\<not> capsule_ok p ext" using r iff by (auto simp: capsule_ok_def Let_def)
    then show ?thesis using body r Inl by simp
  next
    case (Inr w)
    then have e: "\<forall>j<unat ?cnt. entry_ok p (unat ext) (unat ?dir) (unat ?cnt) j"
      "crc_work p (unat ext) (unat ?dir) (unat ?cnt) \<le> 100663296" using r iff by auto
    have "take 8 (drop 40 (take (unat ext) p)) = take 8 (drop 40 p)"
      using x by (simp add: drop_take min_def)
    then have crc: "crc_field_ok (take (unat ext) p) 40 \<longleftrightarrow>
        crc_skip_bytes (take (unat ext) p) 40 = le64_at p 40"
      by (simp add: crc_field_ok_def le64_at_def)
    show ?thesis
      unfolding body r Inr using e h
      by (simp add: validate_padding_eq [OF g e(1)] check_payloads_eq [OF g e(1)] capsule_ok_def Let_def
          crc del: not_all) auto
  qed
qed

lemma parse_header_eq:
  assumes len: "unat ext \<le> length p" and x: "64 \<le> unat ext" "unat ext \<le> 67108864"
  shows "bbp_v2_parse (Some p) ext True =
    (if take 8 p \<noteq> bbp_v2_magic then Some (Inl BBP_V2_ERR_MAGIC)
     else if le16_at p 8 \<noteq> 2 \<or> le16_at p 10 \<noteq> 0 then Some (Inl BBP_V2_ERR_VERSION)
     else if le16_at p 12 \<noteq> 64 \<or> le16_at p 14 \<noteq> 48 \<or> le32_at p 16 \<noteq> 0 \<or> le64_at p 48 \<noteq> 0 \<or> le64_at p 56 \<noteq> 0
     then Some (Inl BBP_V2_ERR_FORMAT)
     else if le64_at p 24 \<noteq> ext then Some (Inl BBP_V2_ERR_EXTENT)
     else if \<not> unat (cnt_at p) \<le> 1024 then Some (Inl BBP_V2_ERR_COUNT)
     else if \<not> 8 dvd unat (dir_at p) then Some (Inl BBP_V2_ERR_ALIGNMENT)
     else if cnt_at p = 0 \<and> (dir_at p \<noteq> 64 \<or> ext \<noteq> 64) then Some (Inl BBP_V2_ERR_FORMAT)
     else parse_body p ext ext (cnt_at p) (dir_at p))"
proof -
  have "length bbp_v2_magic = 8" by (simp add: bbp_v2_magic_def)
  then have magic: "bytes_equal p 0 bbp_v2_magic = Some (take 8 p = bbp_v2_magic)"
    using bytes_equal_eq [of 0 bbp_v2_magic p] len x by simp
  have e: "(ext < BBP_V2_HEADER_SIZE) = False"
    "(ext > BBP_V2_MAX_EXTENT) = False"
    "(cnt_at p > BBP_V2_MAX_ENTRIES) = (\<not> unat (cnt_at p) \<le> 1024)"
    "(dir_at p AND 7 \<noteq> 0) = (\<not> 8 dvd unat (dir_at p))"
    using x and_7_eq_0_iff [of "dir_at p"] by (auto simp: v2_consts word_nat_simps)
  have c: "BBP_V2_VERSION_MAJOR = 2" "BBP_V2_VERSION_MINOR = 0" "(ucast BBP_V2_HEADER_SIZE :: u16) = 64"
    "(ucast BBP_V2_DIRENT_SIZE :: u16) = 48"
    by (simp_all add: v2_consts)
  have g: "ne16 p 8 v = Some (le16_at p 8 \<noteq> v)" "ne16 p 10 v = Some (le16_at p 10 \<noteq> v)"
    "ne16 p 12 v = Some (le16_at p 12 \<noteq> v)" "ne16 p 14 v = Some (le16_at p 14 \<noteq> v)"
    "ne32 p 16 w = Some (le32_at p 16 \<noteq> w)" "ne64 p 48 z = Some (le64_at p 48 \<noteq> z)"
    "ne64 p 56 z = Some (le64_at p 56 \<noteq> z)" "get64 p 24 = Some (le64_at p 24)"
    "get32 p 20 = Some (cnt_at p)" "get64 p 32 = Some (dir_at p)" for v w z
    using len x by (simp_all add: ne_at get_at)
  show ?thesis
    by (cases "le64_at p 24 = ext")
      (simp_all only: bbp_v2_parse_def option.case simp_thms if_True if_False e c magic g bind.bind_lunit
        sc_or_Some, simp_all add: v2_consts)
qed

lemma parse_spec:
  assumes len: "unat ext \<le> length p"
  shows "\<exists>r. bbp_v2_parse (Some p) ext True = Some r \<and>
    (r = Inr (view_of p ext) \<and> capsule_ok p ext \<or> (\<exists>e. r = Inl e) \<and> \<not> capsule_ok p ext)"
proof (cases "64 \<le> unat ext \<and> unat ext \<le> 67108864")
  case False
  then have "bbp_v2_parse (Some p) ext True = Some (Inl BBP_V2_ERR_EXTENT)"
    by (auto simp: bbp_v2_parse_def v2_consts word_nat_simps)
  moreover have "\<not> capsule_ok p ext" using False by (auto simp: capsule_ok_def header_ok_def)
  ultimately show ?thesis by simp
next
  case True
  then have x: "64 \<le> unat ext" "unat ext \<le> 67108864" by auto
  note hdr = parse_header_eq [OF len x]
  show ?thesis
  proof (cases "header_ok p ext")
    case True
    then have "bbp_v2_parse (Some p) ext True = parse_body p ext ext (cnt_at p) (dir_at p)"
      unfolding hdr by (auto simp: header_ok_def)
    with parse_body_eq [OF True len] show ?thesis by simp
  next
    case False
    have "\<exists>e. bbp_v2_parse (Some p) ext True = Some (Inl e)"
    proof (cases "64 \<le> unat (dir_at p) \<and> unat (dir_at p) + 48 * unat (cnt_at p) \<le> unat ext")
      case True
      with False x show ?thesis unfolding hdr by (auto simp: header_ok_def)
    next
      case bad: False
      have "parse_body p ext ext (cnt_at p) (dir_at p) = Some (Inl BBP_V2_ERR_OVERFLOW)"
        if "unat (cnt_at p) \<le> 1024"
        using bad dir_size_eq [OF that]
        by (cases "dir_at p \<le> ext") (auto simp: parse_body_def v2_consts word_nat_simps unat_sub)
      then show ?thesis unfolding hdr by simp
    qed
    then show ?thesis using False by (auto simp: capsule_ok_def)
  qed
qed

end
