(* ===== verification/V2_Build.thy ===== *)
theory V2_Build
  imports V2_Parse
begin

text \<open>
  The v2 builder against the v2 parser: what \<open>bbp_v2_build\<close> writes is a capsule in the sense of
  \<open>capsule_ok\<close>, so the parser accepts it, and \<open>bbp_v2_get_entry\<close> gives back every entry with its
  payload. The builder writes nothing past the size it reports and never faults on buffers of the
  sizes it was given.
\<close>

section \<open>Rounding up\<close>

definition round_up :: "nat \<Rightarrow> nat \<Rightarrow> nat" where
  "round_up n a = (n + (a - 1)) div a * a"

lemma round_up_ge: "0 < a \<Longrightarrow> n \<le> round_up n a"
proof -
  assume "0 < a"
  have "n + (a - 1) = (n + (a - 1)) div a * a + (n + (a - 1)) mod a" by simp
  moreover have "(n + (a - 1)) mod a \<le> a - 1"
    using \<open>0 < a\<close> by (metis One_nat_def Suc_pred mod_less_divisor less_Suc_eq_le)
  ultimately show ?thesis unfolding round_up_def by linarith
qed

lemma round_up_dvd: "a dvd round_up n a"
  by (simp add: round_up_def)

lemma round_up_le: "round_up n a \<le> n + (a - 1)"
  by (simp add: round_up_def)

lemma align_up_eq:
  assumes "power_of_two a" "unat a \<le> 4096" "unat v \<le> 67108864"
  shows "align_up v a = Some (of_nat (round_up (unat v) (unat a)))"
proof -
  obtain k where k: "k \<le> 12" "unat a = 2 ^ k" by (rule power_of_two_iff [OF assms(1,2)])
  have a0: "0 < unat a" using k by simp
  have m: "unat (ucast a - 1 :: u64) = 2 ^ k - 1"
    using k a0 by (subst unat_sub) (simp_all add: unat_ucast_u32 word_le_nat_alt)
  have add: "unat (v + (ucast a - 1)) = unat v + (2 ^ k - 1)"
    using m k(2) assms(2,3) unat_add_u64 [of v "ucast a - 1"] by simp
  have "unat ((v + (ucast a - 1)) AND NOT (ucast a - 1)) = round_up (unat v) (unat a)"
    using unat_and_not_mask [OF m, of "v + (ucast a - 1)"] k add by (simp add: round_up_def)
  then have "(v + (ucast a - 1)) AND NOT (ucast a - 1) = of_nat (round_up (unat v) (unat a))"
    by (metis of_nat_unat ucast_id)
  moreover have "\<not> v > - 1 - (ucast a - 1)"
    using unat_le_max_minus [of "ucast a - 1" v] m k(2) assms(2,3) by simp
  ultimately show ?thesis by (simp add: align_up_def Let_def)
qed

section \<open>Layout\<close>

text \<open>The cursor before entry \<open>i\<close> and the offset of its payload, for a first free byte \<open>f\<close>.\<close>

fun cursor_at :: "bbp_v2_build_entry list \<Rightarrow> nat \<Rightarrow> nat \<Rightarrow> nat" where
  "cursor_at es f 0 = f"
| "cursor_at es f (Suc i) = round_up (cursor_at es f i) (unat (be_alignment (es ! i))) + unat (be_size (es ! i))"

definition start_at :: "bbp_v2_build_entry list \<Rightarrow> nat \<Rightarrow> nat \<Rightarrow> nat" where
  "start_at es f i = round_up (cursor_at es f i) (unat (be_alignment (es ! i)))"

definition source_ok :: "bbp_v2_build_entry \<Rightarrow> bool" where
  "source_ok e \<longleftrightarrow> be_addr e \<noteq> 0 \<and> be_size e \<noteq> 0 \<and> power_of_two (be_alignment e) \<and>
     unat (be_alignment e) \<le> 4096"

definition source_work :: "bbp_v2_build_entry list \<Rightarrow> nat \<Rightarrow> nat" where
  "source_work es i = sum_list (map (\<lambda>j. unat (be_size (es ! j))) [0..<i])"

lemma source_work_Suc: "source_work es (Suc i) = source_work es i + unat (be_size (es ! i))"
  by (simp add: source_work_def)

lemma cursor_at_Suc: "cursor_at es f (Suc i) = start_at es f i + unat (be_size (es ! i))"
  by (simp add: start_at_def)

lemma start_at_ge: "source_ok (es ! i) \<Longrightarrow> cursor_at es f i \<le> start_at es f i"
  unfolding start_at_def by (rule round_up_ge) (auto simp: source_ok_def power_of_two_def unat_gt_0)

lemma cursor_at_mono:
  assumes "i \<le> j" "\<forall>k<j. source_ok (es ! k)"
  shows "cursor_at es f i \<le> cursor_at es f j"
  using assms
proof (induction j)
  case (Suc j)
  then show ?case
    using start_at_ge [of es j f] by (cases "i = Suc j") (auto simp: cursor_at_Suc simp del: cursor_at.simps)
qed simp

lemma source_work_le:
  "\<forall>k<i. source_ok (es ! k) \<Longrightarrow> f + source_work es i \<le> cursor_at es f i"
proof (induction i)
  case (Suc i)
  then show ?case
    using start_at_ge [of es i f]
    by (simp add: source_work_Suc cursor_at_Suc del: cursor_at.simps)
qed (simp add: source_work_def)

text \<open>The sizing pass accepts exactly the entries that fit, and computes the final cursor.\<close>

lemma layout_pass_eq:
  assumes "c \<le> length es"
  shows "\<lbrakk>i \<le> c; unat cur = cursor_at es f i; unat cur \<le> 67108864; unat w = source_work es i;
      \<forall>k<i. source_ok (es ! k)\<rbrakk> \<Longrightarrow>
    \<exists>r. layout_pass es [i..<c] cur w = Some r \<and>
      (case r of Inl e \<Rightarrow> \<not> ((\<forall>k<c. source_ok (es ! k)) \<and> cursor_at es f c \<le> 67108864)
       | Inr (t, w') \<Rightarrow> (\<forall>k<c. source_ok (es ! k)) \<and> unat t = cursor_at es f c \<and> unat t \<le> 67108864 \<and>
           unat w' = source_work es c)"
proof (induction "c - i" arbitrary: i cur w)
  case 0
  then show ?case by auto
next
  case (Suc m)
  define e where "e = es ! i"
  have i: "i < c" "[i..<c] = i # [Suc i..<c]" using Suc.hyps(2) by (simp_all add: upt_conv_Cons)
  have nth: "nth_entry es i = Some e" using i assms by (simp add: nth_entry_def e_def)
  show ?case
  proof (cases "source_ok e")
    case False
    then show ?thesis
      using nth i(1) unfolding i(2)
      by (auto simp: source_ok_def v2_consts word_nat_simps e_def)
  next
    case True
    have pos: "0 < unat (be_alignment e)"
      using True by (auto simp: source_ok_def power_of_two_def unat_gt_0)
    have st: "start_at es f i \<le> 67108864 + 4095"
      using round_up_le [of "unat cur" "unat (be_alignment e)"] True Suc.prems(2,3)
      unfolding start_at_def e_def [symmetric] Suc.prems(2) [symmetric] source_ok_def by linarith
    define s :: u64 where "s = of_nat (start_at es f i)"
    have s: "unat s = start_at es f i" using st by (simp add: s_def unat_of_nat_u64)
    have al: "align_up cur (be_alignment e) = Some s"
      using align_up_eq [of "be_alignment e" cur] True Suc.prems(2,3)
      by (simp add: source_ok_def s_def start_at_def e_def)
    have more: "cursor_at es f (Suc i) \<le> cursor_at es f c" if "\<forall>k<c. source_ok (es ! k)"
      using that i by (intro cursor_at_mono) auto
    show ?thesis
    proof (cases "start_at es f i + unat (be_size e) \<le> 67108864")
      case big: False
      have "\<exists>er. layout_pass es [i..<c] cur w = Some (Inl er)"
      proof (cases "be_size e > - 1 - s \<or> be_size e > BBP_V2_MAX_CRC_WORK - w")
        case True
        then show ?thesis using \<open>source_ok e\<close> nth al unfolding i(2)
          by (auto simp: source_ok_def v2_consts word_nat_simps)
      next
        case False
        then have "unat (s + be_size e) = unat s + unat (be_size e)"
          using unat_le_max_minus [of s "be_size e"] by (intro unat_add_u64) (auto simp: add.commute)
        then have "s + be_size e > BBP_V2_MAX_EXTENT" using big s by (simp add: v2_consts word_nat_simps)
        then show ?thesis using \<open>source_ok e\<close> nth al False unfolding i(2)
          by (auto simp: source_ok_def v2_consts word_nat_simps)
      qed
      then show ?thesis
        using more big by (auto simp: cursor_at_Suc e_def simp del: cursor_at.simps)
    next
      case fits: True
      have "unat w + unat (be_size e) \<le> 67108864"
        using source_work_le [OF Suc.prems(5), of f] Suc.prems(2,4) start_at_ge [of es i f] True fits
        by (simp add: e_def)
      then have w: "\<not> be_size e > BBP_V2_MAX_CRC_WORK - w" "unat (w + be_size e) = source_work es (Suc i)"
        using Suc.prems(4) unat_add_u64 [of w "be_size e"]
        by (simp_all add: v2_consts word_nat_simps unat_sub source_work_Suc e_def)
      have c: "unat (s + be_size e) = cursor_at es f (Suc i)"
        using fits s unat_add_u64 [of s "be_size e"] by (simp add: cursor_at_Suc e_def del: cursor_at.simps)
      have "\<not> be_size e > - 1 - s"
        using fits s unat_le_max_minus [of s "be_size e"] by (simp add: add.commute)
      then have "layout_pass es [i..<c] cur w = layout_pass es [Suc i..<c] (s + be_size e) (w + be_size e)"
        using True nth al w(1) c fits unfolding i(2)
        by (auto simp: source_ok_def v2_consts word_nat_simps cursor_at_Suc e_def simp del: cursor_at.simps)
      then show ?thesis
        using Suc.hyps(1) [of "Suc i" "s + be_size e" "w + be_size e"] Suc.hyps(2) Suc.prems c w fits True i
        by (auto simp: less_Suc_eq cursor_at_Suc e_def simp del: cursor_at.simps)
    qed
  qed
qed

section \<open>Emission\<close>

definition payload_of :: "bbp_v2_build_entry \<Rightarrow> u8 list" where
  "payload_of e = take (unat (be_size e)) (be_bytes e)"

text \<open>The directory entry the builder writes for a payload at offset \<open>s\<close>.\<close>

definition dirent_of :: "bbp_v2_build_entry \<Rightarrow> u64 \<Rightarrow> u8 list" where
  "dirent_of e s = put_le 8 (be_type e) @ put_le 4 (be_flags e) @ put_le 2 (be_version e) @ replicate 2 0 @
     put_le 8 s @ put_le 8 (be_size e) @ put_le 8 (bbp_crc64 (payload_of e)) @
     put_le 4 (be_alignment e) @ replicate 4 0"

definition emit_writes :: "bbp_v2_build_entry \<Rightarrow> nat \<Rightarrow> u64 \<Rightarrow> (nat \<times> u8 list) list" where
  "emit_writes e a s = [(unat s, payload_of e), (a, put_le 8 (be_type e)), (a + 8, put_le 4 (be_flags e)),
     (a + 12, put_le 2 (be_version e)), (a + 16, put_le 8 s), (a + 24, put_le 8 (be_size e)),
     (a + 32, put_le 8 (bbp_crc64 (payload_of e))), (a + 40, put_le 4 (be_alignment e))]"

lemma emit_writes_bounds:
  assumes "a + 48 \<le> n" "unat s + unat (be_size e) \<le> n" "unat (be_size e) \<le> length (be_bytes e)"
  shows "list_all (\<lambda>(d, qs). d + length qs \<le> n) (emit_writes e a s)"
  using assms by (simp add: emit_writes_def payload_of_def)

lemma emit_entry_eq:
  assumes "unat s + unat (be_size e) \<le> length buf" "unat (be_size e) \<le> length (be_bytes e)"
    "ent 64 i + 48 \<le> unat s" "i < 1024"
  shows "emit_entry buf e i s = Some (patches buf (emit_writes e (ent 64 i) s))"
proof -
  let ?a = "ent 64 i"
  have "unat (of_nat i * BBP_V2_DIRENT_SIZE :: u64) = 48 * i"
    using assms(4) by (simp add: v2_consts unat_word_ariths unat_of_nat_u64)
  then have "unat (BBP_V2_HEADER_SIZE + of_nat i * BBP_V2_DIRENT_SIZE) = ?a"
    using assms(4) by (subst unat_add_u64) (simp_all add: v2_consts)
  moreover define b where "b = patches buf (take 6 (emit_writes e ?a s))"
  have len: "length b = length buf" unfolding b_def
    using assms by (intro length_patches) (simp add: emit_writes_def payload_of_def)
  have "slice b (unat s) (unat (be_size e)) = payload_of e" unfolding b_def
    using assms slice_patches_last [of buf "[]" "unat s" "payload_of e" "take 5 (tl (emit_writes e ?a s))"]
    by (simp add: emit_writes_def payload_of_def)
  then have "rd b (unat s) (unat (be_size e)) = Some (payload_of e)"
    using assms(1) len by (simp add: rd_def slice_def)
  moreover have "rd (be_bytes e) 0 (unat (be_size e)) = Some (payload_of e)"
    using assms(2) by (simp add: rd_def payload_of_def)
  ultimately show ?thesis
    using assms(1-3) len
    by (simp add: emit_entry_def Let_def emit_writes_def b_def put_patch wr_patch payload_of_def)
qed

lemma emit_entry_dirent:
  assumes z: "slice buf a 48 = replicate 48 0"
    and b: "unat s + unat (be_size e) \<le> length buf" "unat (be_size e) \<le> length (be_bytes e)"
      "a + 48 \<le> unat s"
  defines "buf' \<equiv> patches buf (emit_writes e a s)"
  shows "slice buf' a 48 = dirent_of e s" "slice buf' (unat s) (unat (be_size e)) = payload_of e"
proof -
  let ?w = "emit_writes e a s"
  have len: "length (payload_of e) = unat (be_size e)" using b by (simp add: payload_of_def)
  have keep: "slice buf' (a + d) n = replicate n 0" if "d = 14 \<and> n = 2 \<or> d = 44 \<and> n = 4" for d n
  proof -
    have "slice buf' (a + d) n = slice buf (a + d) n" unfolding buf'_def
      using b that len by (intro slice_patches_disj) (auto simp: emit_writes_def)
    also have "\<dots> = slice (slice buf a 48) d n" using that by (intro slice_slice [symmetric]) auto
    finally show ?thesis unfolding z using that by (auto simp: slice_def)
  qed
  have put: "slice buf' d (length qs) = qs" if "?w = us @ (d, qs) # ws" "d + length qs \<le> length buf"
    "list_all (\<lambda>(x, rs). d + length qs \<le> x \<or> x + length rs \<le> d) ws" for us ws d qs
    unfolding buf'_def that(1)
  proof (rule slice_patches_last)
    have all: "list_all (\<lambda>(d, qs). d + length qs \<le> length buf) ?w"
      using b by (intro emit_writes_bounds) auto
    then show "list_all (\<lambda>(d, qs). d + length qs \<le> length buf) us" by (simp add: that(1))
    show "list_all (\<lambda>(x, rs). x + length rs \<le> length buf \<and> (d + length qs \<le> x \<or> x + length rs \<le> d)) ws"
      using all that by (auto simp: list_all_iff)
  qed (use that in auto)
  show "slice buf' (unat s) (unat (be_size e)) = payload_of e"
    using put [of "[]" "unat s" "payload_of e" "tl ?w"] b len by (simp add: emit_writes_def)
  have f: "slice buf' a 8 = put_le 8 (be_type e)" "slice buf' (a + 8) 4 = put_le 4 (be_flags e)"
    "slice buf' (a + 12) 2 = put_le 2 (be_version e)" "slice buf' (a + 16) 8 = put_le 8 s"
    "slice buf' (a + 24) 8 = put_le 8 (be_size e)"
    "slice buf' (a + 32) 8 = put_le 8 (bbp_crc64 (payload_of e))"
    "slice buf' (a + 40) 4 = put_le 4 (be_alignment e)"
    using b put [of "take 1 ?w" a "put_le 8 (be_type e)" "drop 2 ?w"]
      put [of "take 2 ?w" "a + 8" "put_le 4 (be_flags e)" "drop 3 ?w"]
      put [of "take 3 ?w" "a + 12" "put_le 2 (be_version e)" "drop 4 ?w"]
      put [of "take 4 ?w" "a + 16" "put_le 8 s" "drop 5 ?w"]
      put [of "take 5 ?w" "a + 24" "put_le 8 (be_size e)" "drop 6 ?w"]
      put [of "take 6 ?w" "a + 32" "put_le 8 (bbp_crc64 (payload_of e))" "drop 7 ?w"]
      put [of "take 7 ?w" "a + 40" "put_le 4 (be_alignment e)" "drop 8 ?w"]
    by (simp_all add: emit_writes_def)
  have "slice buf' a 48 = slice buf' a 8 @ slice buf' (a + 8) 4 @ slice buf' (a + 12) 2 @
      slice buf' (a + 14) 2 @ slice buf' (a + 16) 8 @ slice buf' (a + 24) 8 @ slice buf' (a + 32) 8 @
      slice buf' (a + 40) 4 @ slice buf' (a + 44) 4"
    using slice_fields [of buf' a 0 "[8, 4, 2, 2, 8, 8, 8, 4, 4]"] by simp
  then show "slice buf' a 48 = dirent_of e s"
    unfolding dirent_of_def f keep [of 14 2, simplified] keep [of 44 4, simplified] by simp
qed

definition emit_inv :: "bbp_v2_build_entry list \<Rightarrow> nat \<Rightarrow> nat \<Rightarrow> u8 list \<Rightarrow> nat \<Rightarrow> u8 list \<Rightarrow> bool" where
  "emit_inv es c n hdr i buf \<longleftrightarrow> slice buf 0 64 = hdr \<and>
     (\<forall>j<i. slice buf (ent 64 j) 48 = dirent_of (es ! j) (of_nat (start_at es (ent 64 c) j)) \<and>
        slice buf (start_at es (ent 64 c) j) (unat (be_size (es ! j))) = payload_of (es ! j)) \<and>
     (\<forall>q<n. ent 64 i \<le> q \<and>
        (\<forall>j<i. q < start_at es (ent 64 c) j \<or> start_at es (ent 64 c) j + unat (be_size (es ! j)) \<le> q) \<longrightarrow>
        buf ! q = 0)"

definition sources_ok :: "bbp_v2_build_entry list \<Rightarrow> nat \<Rightarrow> bool" where
  "sources_ok es c \<longleftrightarrow> c \<le> length es \<and> c \<le> 1024 \<and> cursor_at es (ent 64 c) c \<le> 67108864 \<and>
     (\<forall>k<c. source_ok (es ! k) \<and> unat (be_size (es ! k)) \<le> length (be_bytes (es ! k)))"

lemma start_at_bounds:
  assumes "sources_ok es c" "i < c"
  shows "ent 64 c \<le> start_at es (ent 64 c) i"
    "start_at es (ent 64 c) i + unat (be_size (es ! i)) \<le> cursor_at es (ent 64 c) c"
    "j < i \<Longrightarrow> start_at es (ent 64 c) j + unat (be_size (es ! j)) \<le> start_at es (ent 64 c) i"
proof -
  have ok: "\<forall>k<c. source_ok (es ! k)" using assms(1) by (simp add: sources_ok_def)
  have s: "cursor_at es (ent 64 c) i \<le> start_at es (ent 64 c) i" using ok assms(2) start_at_ge by blast
  then show "ent 64 c \<le> start_at es (ent 64 c) i"
    using cursor_at_mono [of 0 i es "ent 64 c"] ok assms(2) by simp
  show "start_at es (ent 64 c) i + unat (be_size (es ! i)) \<le> cursor_at es (ent 64 c) c"
    using cursor_at_mono [of "Suc i" c es "ent 64 c"] ok assms(2) by (simp add: cursor_at_Suc del: cursor_at.simps)
  show "start_at es (ent 64 c) j + unat (be_size (es ! j)) \<le> start_at es (ent 64 c) i" if "j < i"
    using cursor_at_mono [of "Suc j" i es "ent 64 c"] that ok assms(2) s
    by (simp add: cursor_at_Suc del: cursor_at.simps)
qed

lemma emit_step:
  assumes ok: "sources_ok es c" and i: "i < c" and n: "n = cursor_at es (ent 64 c) c" "n \<le> length buf"
    and inv: "emit_inv es c n hdr i buf" and s: "unat s = start_at es (ent 64 c) i"
  defines "buf' \<equiv> patches buf (emit_writes (es ! i) (ent 64 i) s)"
  shows "emit_entry buf (es ! i) i s = Some buf'" "emit_inv es c n hdr (Suc i) buf'"
    "length buf' = length buf" "drop n buf' = drop n buf"
proof -
  let ?f = "ent 64 c" and ?e = "es ! i"
  have c: "c \<le> 1024" "unat (be_size ?e) \<le> length (be_bytes ?e)" using ok i by (auto simp: sources_ok_def)
  have lo: "ent 64 i + 48 \<le> unat s" using start_at_bounds(1) [OF ok i] s i by linarith
  have hi: "unat s + unat (be_size ?e) \<le> n" using start_at_bounds(2) [OF ok i] s n by simp
  have bnd: "list_all (\<lambda>(d, qs). d + length qs \<le> length buf) (emit_writes ?e (ent 64 i) s)"
    using lo hi n c by (intro emit_writes_bounds) auto
  show len: "length buf' = length buf" unfolding buf'_def using bnd by simp
  show "emit_entry buf ?e i s = Some buf'" unfolding buf'_def
    using lo hi n(2) c i by (intro emit_entry_eq) auto
  have keep: "slice buf' d k = slice buf d k"
    if "d + k \<le> ent 64 i \<or> ent 64 i + 48 \<le> d" "d + k \<le> unat s \<or> unat s + unat (be_size ?e) \<le> d" for d k
    unfolding buf'_def using that lo hi n(2) c
    by (intro slice_patches_disj) (auto simp: emit_writes_def payload_of_def)
  have nth: "buf' ! q = buf ! q" if "q < length buf" "q < ent 64 i \<or> ent 64 i + 48 \<le> q"
    "q < unat s \<or> unat s + unat (be_size ?e) \<le> q" for q
    unfolding buf'_def using that lo hi n(2) c
    by (intro nth_patches_out) (auto simp: emit_writes_def payload_of_def)
  show "drop n buf' = drop n buf"
    using nth lo hi len by (intro nth_equalityI) auto
  have z: "slice buf (ent 64 i) 48 = replicate 48 0"
  proof (rule nth_equalityI)
    fix k assume "k < length (slice buf (ent 64 i) 48)"
    then have k: "k < 48" by (simp add: slice_def)
    moreover have "buf ! (ent 64 i + k) = 0"
    proof -
      have "ent 64 i + k < start_at es ?f j" if "j < i" for j
        using start_at_bounds(1) [OF ok, of j] that i k by linarith
      moreover have "ent 64 i + k < n" using lo hi k by linarith
      ultimately show ?thesis using inv unfolding emit_inv_def by (meson le_add1)
    qed
    ultimately show "slice buf (ent 64 i) 48 ! k = replicate 48 0 ! k"
      using lo hi n(2) by (simp add: slice_nth)
  qed (use lo hi n(2) in \<open>simp add: slice_def\<close>)
  have new: "slice buf' (ent 64 i) 48 = dirent_of ?e s" "slice buf' (unat s) (unat (be_size ?e)) = payload_of ?e"
    unfolding buf'_def using emit_entry_dirent [OF z _ c(2) lo] hi n(2) by simp_all
  have old: "slice buf' (ent 64 j) 48 = slice buf (ent 64 j) 48"
    "slice buf' (start_at es ?f j) (unat (be_size (es ! j))) = slice buf (start_at es ?f j) (unat (be_size (es ! j)))"
    if "j < i" for j
    using that i lo s start_at_bounds(3) [OF ok i that] start_at_bounds(1) [OF ok, of j] by (intro keep; simp)+
  have hdr: "slice buf' 0 64 = slice buf 0 64" using lo by (intro keep) auto
  have "of_nat (start_at es ?f i) = s" by (metis s of_nat_unat_u64)
  then show "emit_inv es c n hdr (Suc i) buf'"
    using inv new old hdr nth s n(2) unfolding emit_inv_def
    by (auto simp: less_Suc_eq)
qed

lemma emit_pass_eq:
  assumes ok: "sources_ok es c" and n: "n = cursor_at es (ent 64 c) c"
  shows "\<lbrakk>i \<le> c; unat cur = cursor_at es (ent 64 c) i; n \<le> length buf; emit_inv es c n hdr i buf\<rbrakk> \<Longrightarrow>
    \<exists>buf'. emit_pass buf es [i..<c] cur = Some buf' \<and> emit_inv es c n hdr c buf' \<and>
      length buf' = length buf \<and> drop n buf' = drop n buf"
proof (induction "c - i" arbitrary: i cur buf)
  case 0
  then show ?case by auto
next
  case (Suc m)
  have i: "i < c" "[i..<c] = i # [Suc i..<c]" using Suc.hyps(2) by (simp_all add: upt_conv_Cons)
  have c: "c \<le> length es" "source_ok (es ! i)" "n \<le> 67108864" using ok i n by (auto simp: sources_ok_def)
  define s :: u64 where "s = of_nat (start_at es (ent 64 c) i)"
  have b: "start_at es (ent 64 c) i + unat (be_size (es ! i)) \<le> n" using start_at_bounds(2) [OF ok i(1)] n by simp
  then have s: "unat s = start_at es (ent 64 c) i" using c(3) by (simp add: s_def unat_of_nat_u64)
  have al: "align_up cur (be_alignment (es ! i)) = Some s"
    using align_up_eq [of "be_alignment (es ! i)" cur] c(2,3) Suc.prems(2) b start_at_ge [OF c(2), of "ent 64 c"]
    by (simp add: source_ok_def s_def start_at_def)
  define buf1 where "buf1 = patches buf (emit_writes (es ! i) (ent 64 i) s)"
  note step = emit_step [OF ok i(1) n Suc.prems(3,4) s, folded buf1_def]
  have cur: "unat (s + be_size (es ! i)) = cursor_at es (ent 64 c) (Suc i)"
    using b c(3) s unat_add_u64 [of s "be_size (es ! i)"] by (simp add: cursor_at_Suc del: cursor_at.simps)
  have "emit_pass buf es [i..<c] cur = emit_pass buf1 es [Suc i..<c] (s + be_size (es ! i))"
    using c(1) i by (simp add: nth_entry_def al step(1) Let_def)
  then show ?case
    using Suc.hyps(1) [of "Suc i" "s + be_size (es ! i)" buf1] Suc.hyps(2) Suc.prems(3) cur step i by auto
qed

section \<open>The header\<close>

definition header_of :: "u32 \<Rightarrow> u64 \<Rightarrow> u64 \<Rightarrow> u8 list" where
  "header_of cnt n crc = bbp_v2_magic @ put_le 2 (2 :: u16) @ put_le 2 (0 :: u16) @ put_le 2 (64 :: u16) @
     put_le 2 (48 :: u16) @ put_le 4 (0 :: u32) @ put_le 4 cnt @ put_le 8 n @ put_le 8 (64 :: u64) @
     put_le 8 crc @ replicate 16 0"

definition header_writes :: "u32 \<Rightarrow> u64 \<Rightarrow> (nat \<times> u8 list) list" where
  "header_writes cnt n = [(0, replicate (unat n) 0), (0, bbp_v2_magic), (8, put_le 2 (2 :: u16)),
     (10, put_le 2 (0 :: u16)), (12, put_le 2 (64 :: u16)), (14, put_le 2 (48 :: u16)),
     (16, put_le 4 (0 :: u32)), (20, put_le 4 cnt), (24, put_le 8 n), (32, put_le 8 (64 :: u64))]"

lemma length_magic [simp]: "length bbp_v2_magic = 8"
  by (simp add: bbp_v2_magic_def)

lemma emit_header_eq:
  assumes "64 \<le> unat n" "unat n \<le> length buf"
  shows "emit_header buf cnt n = Some (patches buf (header_writes cnt n))"
  using assms by (simp add: emit_header_def header_writes_def put_patch wr_patch v2_consts)

lemma slice_replicate: "d + k \<le> n \<Longrightarrow> slice (replicate n x) d k = replicate k x"
  by (simp add: slice_def)

lemma put_le_0: "put_le n (0 :: 'a::len word) = replicate n 0"
  by (simp add: put_le_def map_replicate_const)

lemma emit_header_bytes:
  fixes cnt :: u32
  assumes n: "64 \<le> unat n" "unat n \<le> length buf"
  defines "buf' \<equiv> patches buf (header_writes cnt n)"
  shows "slice buf' 0 64 = header_of cnt n 0" "length buf' = length buf" "drop (unat n) buf' = drop (unat n) buf"
    "\<And>q. 64 \<le> q \<Longrightarrow> q < unat n \<Longrightarrow> buf' ! q = 0"
proof -
  let ?b = "patch buf 0 (replicate (unat n) 0)" and ?w = "tl (header_writes cnt n)"
  have bb: "length ?b = length buf" using n by simp
  have buf': "buf' = patches ?b ?w" by (simp add: buf'_def header_writes_def)
  have bnd: "list_all (\<lambda>(d, qs). d + length qs \<le> 40 \<and> d + length qs \<le> length ?b) ?w"
    using n bb by (simp add: header_writes_def)
  show len: "length buf' = length buf"
    unfolding buf' using bnd bb by (subst length_patches) (auto simp: list_all_iff)
  have nth: "buf' ! q = ?b ! q" if "64 \<le> q" "q < length buf" for q
    unfolding buf' using that bnd bb by (intro nth_patches_out) (auto simp: list_all_iff)
  show "buf' ! q = 0" if "64 \<le> q" "q < unat n" for q
    using nth [of q] that n by (simp add: nth_patch)
  show "drop (unat n) buf' = drop (unat n) buf"
    using nth n len by (intro nth_equalityI) (auto simp: nth_patch)
  have put: "slice buf' d k = qs" if "?w = us @ (d, qs) # ws" "k = length qs" "d + length qs \<le> 40"
    "list_all (\<lambda>(x, rs). d + length qs \<le> x \<or> x + length rs \<le> d) ws" for us ws d qs k
    unfolding buf' that(1) using that bnd bb n by (intro slice_patches_last) (auto simp: list_all_iff that(1))
  have f: "slice buf' 0 8 = bbp_v2_magic" "slice buf' 8 2 = put_le 2 (2 :: u16)"
    "slice buf' 10 2 = put_le 2 (0 :: u16)" "slice buf' 12 2 = put_le 2 (64 :: u16)"
    "slice buf' 14 2 = put_le 2 (48 :: u16)" "slice buf' 16 4 = put_le 4 (0 :: u32)"
    "slice buf' 20 4 = put_le 4 cnt" "slice buf' 24 8 = put_le 8 n" "slice buf' 32 8 = put_le 8 (64 :: u64)"
    using put [of "take 0 ?w" 0 bbp_v2_magic "drop 1 ?w"] put [of "take 1 ?w" 8 "put_le 2 (2 :: u16)" "drop 2 ?w"]
      put [of "take 2 ?w" 10 "put_le 2 (0 :: u16)" "drop 3 ?w"] put [of "take 3 ?w" 12 "put_le 2 (64 :: u16)" "drop 4 ?w"]
      put [of "take 4 ?w" 14 "put_le 2 (48 :: u16)" "drop 5 ?w"] put [of "take 5 ?w" 16 "put_le 4 (0 :: u32)" "drop 6 ?w"]
      put [of "take 6 ?w" 20 "put_le 4 cnt" "drop 7 ?w"] put [of "take 7 ?w" 24 "put_le 8 n" "drop 8 ?w"]
      put [of "take 8 ?w" 32 "put_le 8 (64 :: u64)" "drop 9 ?w"]
    by (simp_all add: header_writes_def)
  have "slice buf' 40 24 = slice ?b 40 24"
    unfolding buf' using bnd n bb by (intro slice_patches_disj) (auto simp: list_all_iff)
  also have "\<dots> = slice (slice ?b 0 (unat n)) 40 24" using n by (subst slice_slice) auto
  also have "\<dots> = replicate 24 0" using n by (subst slice_patch_same) (simp_all add: slice_replicate)
  finally have z: "slice buf' 40 24 = replicate 24 0" .
  have "put_le 8 (0 :: u64) @ replicate 16 0 = replicate 24 (0 :: u8)"
    by (simp add: put_le_0 replicate_add [symmetric])
  then show "slice buf' 0 64 = header_of cnt n 0"
    using slice_fields [of buf' 0 0 "[8, 2, 2, 2, 2, 4, 4, 8, 8, 24]"] f z by (simp add: header_of_def)
qed

section \<open>The finished capsule\<close>

lemma le_at_slice:
  "le16_at p d = get_le (slice p d 2)" "le32_at p d = get_le (slice p d 4)" "le64_at p d = get_le (slice p d 8)"
  by (simp_all add: le16_at_def le32_at_def le64_at_def slice_def)

lemma le_at_sub:
  "d + 2 \<le> n \<Longrightarrow> le16_at p (a + d) = get_le (slice (slice p a n) d 2)"
  "d + 4 \<le> n \<Longrightarrow> le32_at p (a + d) = get_le (slice (slice p a n) d 4)"
  "d + 8 \<le> n \<Longrightarrow> le64_at p (a + d) = get_le (slice (slice p a n) d 8)"
  by (simp_all add: le_at_slice slice_slice)

lemma get_put_le_all [simp]:
  "get_le (put_le 2 v) = (v :: u16)" "get_le (put_le 4 w) = (w :: u32)" "get_le (put_le 8 x) = (x :: u64)"
  by (simp_all add: get_put_le)

lemma get_le_zeros [simp]: "get_le (replicate n 0) = 0"
  by (rule bit_word_eqI) (auto simp: codec_simps)

lemmas slice_cat = slice_append_left slice_append_right slice_all slice_replicate

lemma header_fields:
  assumes "slice p 0 64 = header_of cnt n crc"
  shows "take 8 p = bbp_v2_magic" "le16_at p 8 = 2" "le16_at p 10 = 0" "le16_at p 12 = 64" "le16_at p 14 = 48"
    "le32_at p 16 = 0" "cnt_at p = cnt" "le64_at p 24 = n" "dir_at p = 64" "le64_at p 40 = crc"
    "le64_at p 48 = 0" "le64_at p 56 = 0"
proof -
  have "take 8 p = slice (slice p 0 64) 0 8" by (simp add: slice_def)
  then show "take 8 p = bbp_v2_magic" unfolding assms header_of_def by (simp add: slice_cat)
  note sub = le_at_sub [of _ 64 p 0, unfolded assms header_of_def add_0]
  show "le16_at p 8 = 2" "le16_at p 10 = 0" "le16_at p 12 = 64" "le16_at p 14 = 48"
    by (subst sub, simp, simp add: slice_cat)+
  show "le32_at p 16 = 0" "cnt_at p = cnt"
    by (subst sub, simp, simp add: slice_cat)+
  show "le64_at p 24 = n" "dir_at p = 64" "le64_at p 40 = crc" "le64_at p 48 = 0" "le64_at p 56 = 0"
    by (subst sub, simp, simp add: slice_cat)+
qed

lemma dirent_fields:
  assumes "slice p a 48 = dirent_of e s"
  shows "le64_at p a = be_type e" "le32_at p (a + 8) = be_flags e" "le16_at p (a + 12) = be_version e"
    "le16_at p (a + 14) = 0" "le64_at p (a + 16) = s" "le64_at p (a + 24) = be_size e"
    "le64_at p (a + 32) = bbp_crc64 (payload_of e)" "le32_at p (a + 40) = be_alignment e" "le32_at p (a + 44) = 0"
proof -
  note sub = le_at_sub [of _ 48 p a, unfolded assms dirent_of_def]
  show "le64_at p a = be_type e"
    using sub(3) [of 0] by (simp add: slice_cat)
  show "le32_at p (a + 8) = be_flags e" "le16_at p (a + 12) = be_version e" "le16_at p (a + 14) = 0"
    "le64_at p (a + 16) = s" "le64_at p (a + 24) = be_size e" "le64_at p (a + 32) = bbp_crc64 (payload_of e)"
    "le32_at p (a + 40) = be_alignment e" "le32_at p (a + 44) = 0"
    by (subst sub, simp, simp add: slice_cat)+
qed

lemma patch_crc_header:
  assumes "slice p 0 64 = header_of cnt n old" "64 \<le> length p"
  shows "slice (patch p 40 (put_le 8 crc)) 0 64 = header_of cnt n crc"
proof -
  have p: "slice p 0 40 = slice (slice p 0 64) 0 40" "slice p 48 16 = slice (slice p 0 64) 48 16"
    by (simp_all add: slice_slice)
  have "slice (patch p 40 (put_le 8 crc)) 0 40 = slice p 0 40" "slice (patch p 40 (put_le 8 crc)) 48 16 = slice p 48 16"
    "slice (patch p 40 (put_le 8 crc)) 40 8 = put_le 8 crc"
    using assms(2) by (simp_all add: slice_patch_disj slice_patch_same)
  moreover have "slice (header_of cnt n old) 0 40 = bbp_v2_magic @ put_le 2 (2 :: u16) @ put_le 2 (0 :: u16) @
     put_le 2 (64 :: u16) @ put_le 2 (48 :: u16) @ put_le 4 (0 :: u32) @ put_le 4 cnt @ put_le 8 n @ put_le 8 (64 :: u64)"
    by (simp add: slice_def header_of_def)
  moreover have "slice (header_of cnt n old) 48 16 = replicate 16 0"
    by (simp add: header_of_def slice_cat)
  ultimately show ?thesis
    using slice_fields [of "patch p 40 (put_le 8 crc)" 0 0 "[40, 8, 16]"] p assms(1) by (simp add: header_of_def)
qed

lemma coveredI: "(a, n) \<in> set sp \<Longrightarrow> a \<le> q \<Longrightarrow> q < a + n \<Longrightarrow> covered sp q"
  by (auto simp: covered_def)

lemma built_capsule_ok:
  assumes ok: "sources_ok es (unat cnt)" and n: "unat n = cursor_at es (ent 64 (unat cnt)) (unat cnt)"
    and len: "unat n \<le> length p" and work: "unat n + source_work es (unat cnt) \<le> 100663296"
    and inv: "emit_inv es (unat cnt) (unat n) (header_of cnt n crc) (unat cnt) p"
    and crc: "crc = crc_skip_bytes (take (unat n) p) 40"
  shows "capsule_ok p n"
proof -
  let ?c = "unat cnt"
  let ?f = "ent 64 ?c"
  have hdr: "slice p 0 64 = header_of cnt n crc" using inv by (simp add: emit_inv_def)
  note h = header_fields [OF hdr]
  have c: "?c \<le> 1024" "unat n \<le> 67108864" "\<forall>k<?c. source_ok (es ! k)"
    using ok n by (auto simp: sources_ok_def)
  have fn: "?f \<le> unat n" using cursor_at_mono [of 0 ?c es ?f] c(3) n by simp
  have ent: "eoff p 64 i = start_at es ?f i" "esize p 64 i = unat (be_size (es ! i))"
    "ealign p 64 i = unat (be_alignment (es ! i))" "le32_at p (ent 64 i + 40) = be_alignment (es ! i)"
    "le16_at p (ent 64 i + 14) = 0" "le32_at p (ent 64 i + 44) = 0"
    "le64_at p (ent 64 i + 32) = bbp_crc64 (payload_of (es ! i))"
    "payload_at p 64 i = payload_of (es ! i)" if "i < ?c" for i
  proof -
    have s: "slice p (ent 64 i) 48 = dirent_of (es ! i) (of_nat (start_at es ?f i))"
      "slice p (start_at es ?f i) (unat (be_size (es ! i))) = payload_of (es ! i)"
      using inv that by (auto simp: emit_inv_def)
    have "start_at es ?f i \<le> unat n" using start_at_bounds(2) [OF ok that] n by simp
    then have u: "unat (of_nat (start_at es ?f i) :: u64) = start_at es ?f i"
      using c(2) by (simp add: unat_of_nat_u64)
    show "eoff p 64 i = start_at es ?f i" "esize p 64 i = unat (be_size (es ! i))"
      "ealign p 64 i = unat (be_alignment (es ! i))" "le32_at p (ent 64 i + 40) = be_alignment (es ! i)"
      "le16_at p (ent 64 i + 14) = 0" "le32_at p (ent 64 i + 44) = 0"
      "le64_at p (ent 64 i + 32) = bbp_crc64 (payload_of (es ! i))"
      by (simp_all only: eoff_def esize_def ealign_def dirent_fields [OF s(1)] u)
    then show "payload_at p 64 i = payload_of (es ! i)"
      using s(2) by (simp add: payload_at_def slice_def)
  qed
  have "entry_ok p (unat n) 64 ?c i" if i: "i < ?c" for i
  proof -
    have so: "source_ok (es ! i)" using c(3) i by blast
    then have "ealign p 64 i dvd eoff p 64 i" using i by (simp add: ent start_at_def round_up_dvd)
    moreover have "0 < esize p 64 i" using so i by (simp add: ent source_ok_def unat_gt_0)
    moreover have "disjoint_spans (eoff p 64 i) (esize p 64 i) (eoff p 64 j) (esize p 64 j)" if "j < i" for j
      using start_at_bounds(3) [OF ok i that] i that by (simp add: ent disjoint_spans_def)
    ultimately show ?thesis
      using so start_at_bounds(1,2) [OF ok i] n unfolding entry_ok_def ent(1-6) [OF i] source_ok_def
      by (simp add: disjoint_spans_def)
  qed
  moreover have "crc_work p (unat n) 64 ?c \<le> 100663296"
  proof -
    have "map (esize p 64) [0..<?c] = map (\<lambda>j. unat (be_size (es ! j))) [0..<?c]" 
      by (intro map_cong) (simp_all add: ent)
    then show ?thesis using work by (simp only: crc_work_def source_work_def)
  qed
  moreover have "covered (capsule_spans p 64 ?c) q \<or> p ! q = 0" if "q < unat n" for q
  proof (rule disjCI)
    assume "p ! q \<noteq> 0"
    then consider "q < ?f" | j where "j < ?c" "start_at es ?f j \<le> q" "q < start_at es ?f j + unat (be_size (es ! j))"
      using inv \<open>q < unat n\<close> unfolding emit_inv_def by (meson not_le)
    then show "covered (capsule_spans p 64 ?c) q"
    proof cases
      case 1
      show ?thesis
      proof (cases "q < 64")
        case True
        then show ?thesis by (intro coveredI [of 0 64]) (simp_all add: capsule_spans_def)
      next
        case False
        then have "(64, 48 * ?c) \<in> set (capsule_spans p 64 ?c)" using 1 by (auto simp: capsule_spans_def)
        then show ?thesis using False 1 by (intro coveredI [of 64 "48 * ?c"]) simp_all
      qed
    next
      case 2
      then have "(eoff p 64 j, esize p 64 j) \<in> set (capsule_spans p 64 ?c)" by (auto simp: capsule_spans_def)
      then show ?thesis by (rule coveredI) (use 2 ent(1,2) [of j] in simp_all)
    qed
  qed
  moreover have "crc_field_ok (take (unat n) p) 40"
    using h(10) crc fn by (simp add: crc_field_ok_def le64_at_def drop_take min_absorb1)
  moreover have "payload_crc_ok p 64 i" if "i < ?c" for i
    unfolding payload_crc_ok_def ent(7,8) [OF that] by (rule refl)
  moreover have "header_ok p n"
  proof -
    have "n = 64" if "cnt = 0" using that n by (simp add: word_unat_eq_iff)
    then show ?thesis using c fn by (simp add: header_ok_def h)
  qed
  ultimately show ?thesis by (simp add: capsule_ok_def h)
qed

lemma source_overlaps_eq:
  "\<forall>i\<in>set is. i < length es \<Longrightarrow> source_overlaps out n es is =
     Some (\<exists>i\<in>set is. memory_ranges_overlap out n (be_addr (es ! i)) (be_size (es ! i)))"
  by (induction "is") (auto simp: nth_entry_def)

text \<open>When a build can succeed: valid sources whose layout fits the limits and the capacity and
  none of which overlaps the output.\<close>

definition build_fits :: "u64 \<Rightarrow> u64 \<Rightarrow> bbp_v2_build_entry list \<Rightarrow> nat \<Rightarrow> bool" where
  "build_fits out capacity es c \<longleftrightarrow> sources_ok es c \<and>
     (let n = cursor_at es (ent 64 c) c in
      n \<le> unat capacity \<and> n + source_work es c \<le> 100663296 \<and>
      (\<forall>k<c. \<not> memory_ranges_overlap out (of_nat n) (be_addr (es ! k)) (be_size (es ! k))))"

text \<open>The sources laid out in a capsule, whatever its checksum field holds.\<close>

definition laid_out :: "bbp_v2_build_entry list \<Rightarrow> u32 \<Rightarrow> u64 \<Rightarrow> u64 \<Rightarrow> u8 list \<Rightarrow> bool" where
  "laid_out es cnt n crc p \<longleftrightarrow> sources_ok es (unat cnt) \<and> unat n = cursor_at es (ent 64 (unat cnt)) (unat cnt) \<and>
     unat n \<le> length p \<and> unat n + source_work es (unat cnt) \<le> 100663296 \<and>
     emit_inv es (unat cnt) (unat n) (header_of cnt n crc) (unat cnt) p"

text \<open>What a successful build leaves behind.\<close>

definition built :: "bbp_v2_build_entry list \<Rightarrow> u32 \<Rightarrow> u8 list \<Rightarrow> u64 \<Rightarrow> bool" where
  "built es cnt p n \<longleftrightarrow> capsule_ok p n \<and> unat n \<le> length p \<and> cnt_at p = cnt \<and> dir_at p = 64 \<and>
     (\<forall>i<unat cnt. \<exists>s. slice p (ent 64 i) 48 = dirent_of (es ! i) s \<and>
        slice p (unat s) (unat (be_size (es ! i))) = payload_of (es ! i)) \<and>
     (\<exists>crc. laid_out es cnt n crc p)"

lemma emit_inv_seal:
  assumes ok: "sources_ok es c" and n: "64 \<le> n" "n \<le> length b"
    and inv: "emit_inv es c n (header_of cnt m old) c b"
  shows "emit_inv es c n (header_of cnt m crc) c (patch b 40 (put_le 8 crc))"
proof -
  define p where "p = patch b 40 (put_le 8 crc)"
  have "slice p 0 64 = header_of cnt m crc"
    unfolding p_def using inv n by (intro patch_crc_header) (auto simp: emit_inv_def)
  moreover have keep: "slice p d k = slice b d k" if "64 \<le> d" for d k
    unfolding p_def using that n by (intro slice_patch_disj) auto
  have "slice p (start_at es (ent 64 c) j) k = slice b (start_at es (ent 64 c) j) k" if "j < c" for j k
    using start_at_bounds(1) [OF ok that] by (intro keep) simp
  moreover have "slice p (ent 64 j) k = slice b (ent 64 j) k" for j k
    by (intro keep) simp
  moreover have "p ! q = b ! q" if "64 \<le> q" "q < n" for q
    unfolding p_def using that n by (simp add: nth_patch)
  ultimately have "emit_inv es c n (header_of cnt m crc) c p"
    using inv unfolding emit_inv_def by (metis (no_types, lifting) add_leD1)
  then show ?thesis by (simp add: p_def)
qed

lemma crc_seal_same:
  assumes "48 \<le> n" "n \<le> length b"
  shows "crc_skip_bytes (take n (patch b 40 (put_le 8 crc))) 40 = crc_skip_bytes (take n b) 40"
proof -
  have "take n (patch b 40 (put_le 8 crc)) = take 40 (take n b) @ put_le 8 crc @ drop (40 + 8) (take n b)"
    using assms by (simp add: patch_def drop_take min_absorb1)
  then show ?thesis
    using crc_skip_ignores_field [of "put_le 8 crc" 40 "take n b"] assms by simp
qed

lemma emit_inv_entries:
  fixes n :: u64
  assumes "sources_ok es c" "unat n = cursor_at es (ent 64 c) c" "emit_inv es c (unat n) hdr c p" "i < c"
  shows "\<exists>s. slice p (ent 64 i) 48 = dirent_of (es ! i) s \<and>
    slice p (unat s) (unat (be_size (es ! i))) = payload_of (es ! i)"
proof -
  have "start_at es (ent 64 c) i \<le> unat n"
    using start_at_bounds(2) [OF assms(1,4)] assms(2) by simp
  then have "unat (of_nat (start_at es (ent 64 c) i) :: u64) = start_at es (ent 64 c) i"
    using unat_u64_less [of n] by (simp add: unat_of_nat_u64)
  then show ?thesis
    using assms(3,4) by (intro exI [of _ "of_nat (start_at es (ent 64 c) i)"]) (simp add: emit_inv_def)
qed

lemma laid_out_built:
  assumes "laid_out es cnt n (crc_skip_bytes (take (unat n) p) 40) p"
  shows "built es cnt p n"
proof -
  let ?crc = "crc_skip_bytes (take (unat n) p) 40"
  have l: "sources_ok es (unat cnt)" "unat n = cursor_at es (ent 64 (unat cnt)) (unat cnt)" "unat n \<le> length p"
    "unat n + source_work es (unat cnt) \<le> 100663296"
    "emit_inv es (unat cnt) (unat n) (header_of cnt n ?crc) (unat cnt) p"
    using assms unfolding laid_out_def by blast+
  have "slice p 0 64 = header_of cnt n ?crc" using l(5) by (simp add: emit_inv_def)
  then show ?thesis
    using built_capsule_ok [OF l refl] l(3) header_fields(7,9) [of p cnt n ?crc] emit_inv_entries [OF l(1,2,5)] assms
    unfolding built_def by blast
qed

lemma laid_out_size: "laid_out es cnt n crc p \<Longrightarrow> 64 \<le> unat n"
  using cursor_at_mono [of 0 "unat cnt" es "ent 64 (unat cnt)"] by (simp add: laid_out_def sources_ok_def)

lemma laid_out_seal:
  assumes "laid_out es cnt n old p"
  shows "laid_out es cnt n crc (patch p 40 (put_le 8 crc))"
proof -
  have "length (patch p 40 (put_le 8 crc)) = length p"
    using laid_out_size [OF assms] assms by (simp add: laid_out_def)
  then show ?thesis
    using emit_inv_seal [of es "unat cnt" "unat n" p cnt n old crc] laid_out_size [OF assms] assms
    unfolding laid_out_def by metis
qed

lemma emit_all_ok:
  assumes ok: "sources_ok es (unat cnt)" and n: "unat n = cursor_at es (ent 64 (unat cnt)) (unat cnt)"
    and len: "unat n \<le> length buf" and work: "unat n + source_work es (unat cnt) \<le> 100663296"
    and first: "unat first = ent 64 (unat cnt)"
  shows "\<exists>p. do { b \<leftarrow> emit_header buf cnt n; b \<leftarrow> emit_pass b es [0..<unat cnt] first;
      c \<leftarrow> crc_with_zero_checksum b n; put64 b 40 c } = Some p \<and>
    length p = length buf \<and> drop (unat n) p = drop (unat n) buf \<and> built es cnt p n"
proof -
  let ?c = "unat cnt"
  have n64: "64 \<le> unat n"
    using cursor_at_mono [of 0 ?c es "ent 64 ?c"] ok n by (simp add: sources_ok_def)
  define b0 where "b0 = patches buf (header_writes cnt n)"
  note hb = emit_header_bytes [OF n64 len, where cnt = cnt, folded b0_def]
  have "emit_inv es ?c (unat n) (header_of cnt n 0) 0 b0"
    using hb by (simp add: emit_inv_def)
  then obtain b1 where b1: "emit_pass b0 es [0..<?c] first = Some b1"
    "emit_inv es ?c (unat n) (header_of cnt n 0) ?c b1" "length b1 = length b0"
    "drop (unat n) b1 = drop (unat n) b0"
    using emit_pass_eq [OF ok n, of 0 first b0 "header_of cnt n 0"] first len hb(2) by auto
  define crc where "crc = crc_skip_bytes (take (unat n) b1) 40"
  define p where "p = patch b1 40 (put_le 8 crc)"
  have l1: "length b1 = length buf" using b1(3) hb(2) by simp
  have lp: "length p = length buf" using len n64 l1 by (simp add: p_def)
  have inv: "emit_inv es ?c (unat n) (header_of cnt n crc) ?c p"
    unfolding p_def using emit_inv_seal [OF ok n64 _ b1(2)] l1 len by simp
  have crc: "crc = crc_skip_bytes (take (unat n) p) 40"
    unfolding p_def using crc_seal_same [of "unat n" b1 crc] n64 l1 len by (simp add: crc_def)
  have "do { b \<leftarrow> emit_header buf cnt n; b \<leftarrow> emit_pass b es [0..<?c] first;
      c \<leftarrow> crc_with_zero_checksum b n; put64 b 40 c } = Some p"
    using len n64 l1 b1(1)
    by (simp add: emit_header_eq b0_def [symmetric] crc_with_zero_checksum_eq crc_def [symmetric] put_patch p_def)
  moreover have "drop (unat n) p = drop (unat n) buf"
    using b1(4) hb(3) n64 l1 len by (simp add: p_def patch_def)
  moreover have "laid_out es cnt n crc p" using ok n lp len work inv by (simp add: laid_out_def)
  then have "built es cnt p n" using crc by (intro laid_out_built) simp
  ultimately show ?thesis using lp by blast
qed

lemma build_spec:
  assumes args: "output \<noteq> 0" "unat cnt \<le> 1024" "unat capacity \<le> length buf" "unat cnt \<le> length es"
    "\<forall>k<unat cnt. unat (be_size (es ! k)) \<le> length (be_bytes (es ! k))"
  shows "\<exists>r. bbp_v2_build output buf capacity (Some es) cnt True = Some r \<and>
    (case r of Inl e \<Rightarrow> \<not> build_fits output capacity es (unat cnt)
     | Inr (p, n) \<Rightarrow> build_fits output capacity es (unat cnt) \<and> n \<le> capacity \<and> length p = length buf \<and> drop (unat n) p = drop (unat n) buf \<and>
         built es cnt p n)"
proof -
  let ?c = "unat cnt"
  let ?f = "ent 64 ?c"
  define first where "first = BBP_V2_HEADER_SIZE + ucast cnt * BBP_V2_DIRENT_SIZE"
  have first: "unat first = ?f"
    using args(2) dir_size_eq [OF args(2)] unat_add_u64 [of BBP_V2_HEADER_SIZE "ucast cnt * BBP_V2_DIRENT_SIZE"]
    by (simp add: first_def v2_consts)
  note build = bbp_v2_build_def [of "output" buf capacity "Some es" cnt True, folded first_def, unfolded Let_def option.case]
  have pre: "(output = 0 \<or> \<not> True \<or> cnt \<noteq> 0 \<and> Some es = None) = False" "(cnt > BBP_V2_MAX_ENTRIES) = False"
    using args(1,2) by (simp_all add: v2_consts word_nat_simps)
  obtain r where r: "layout_pass es [0..<?c] first 0 = Some r"
    "case r of Inl e \<Rightarrow> \<not> ((\<forall>k<?c. source_ok (es ! k)) \<and> cursor_at es ?f ?c \<le> 67108864)
       | Inr (t, w') \<Rightarrow> (\<forall>k<?c. source_ok (es ! k)) \<and> unat t = cursor_at es ?f ?c \<and> unat t \<le> 67108864 \<and>
           unat w' = source_work es ?c"
    using layout_pass_eq [OF args(4), of 0 first ?f 0] args(2) first by (force simp: source_work_def)
  show ?thesis
  proof (cases r)
    case (Inl e)
    then show ?thesis unfolding build pre r(1) using r(2) by (auto simp: build_fits_def sources_ok_def)
  next
    case (Inr nw)
    obtain n w where nw: "nw = (n, w)" by (cases nw)
    have lay: "\<forall>k<?c. source_ok (es ! k)" "unat n = cursor_at es ?f ?c" "unat n \<le> 67108864" "unat w = source_work es ?c"
      using r(2) Inr nw by auto
    have ok: "sources_ok es ?c" using lay args by (simp add: sources_ok_def)
    have nn: "of_nat (cursor_at es ?f ?c) = n" using lay(2) by (metis of_nat_unat_u64)
    define ov where "ov = (\<exists>k\<in>set [0..<?c]. memory_ranges_overlap output n (be_addr (es ! k)) (be_size (es ! k)))"
    have ov: "source_overlaps output n es [0..<?c] = Some ov"
      unfolding ov_def using args(4) by (intro source_overlaps_eq) auto
    have sw: "source_work es ?c \<le> 67108864" using source_work_le [OF lay(1), of ?f] lay(2,3) by simp
    have work: "n > BBP_V2_MAX_CRC_WORK - w \<longleftrightarrow> \<not> unat n + source_work es ?c \<le> 100663296"
      using sw lay(4) by (auto simp: v2_consts word_nat_simps unat_sub not_less)
    have fits: "build_fits output capacity es ?c \<longleftrightarrow>
        \<not> (n > BBP_V2_MAX_CRC_WORK - w \<or> n > capacity \<or> ov)"
      unfolding build_fits_def Let_def work nn ov_def using ok lay(2) by (auto simp: word_nat_simps)
    show ?thesis
    proof (cases "n > BBP_V2_MAX_CRC_WORK - w \<or> n > capacity \<or> ov")
      case True
      then show ?thesis unfolding build pre r(1) Inr nw fits using ov by auto
    next
      case False
      then have cap: "n \<le> capacity" "unat n \<le> length buf" using args(3) by (auto simp: word_nat_simps)
      have work': "unat n + source_work es ?c \<le> 100663296" using False work by simp
      obtain p where p: "do { b \<leftarrow> emit_header buf cnt n; b \<leftarrow> emit_pass b es [0..<?c] first;
          c \<leftarrow> crc_with_zero_checksum b n; put64 b 40 c } = Some p"
        "length p = length buf" "drop (unat n) p = drop (unat n) buf" "built es cnt p n"
        using emit_all_ok [OF ok lay(2) cap(2) work' first] by blast
      have "do { b \<leftarrow> emit_header buf cnt n; b \<leftarrow> emit_pass b es [0..<?c] first;
          c \<leftarrow> crc_with_zero_checksum b n; b \<leftarrow> put64 b 40 c; Some (Inr (b, n) :: bbp_v2_status + u8 list \<times> u64) } = Some (Inr (p, n))"
        using p(1) by (auto split: Option.bind_splits)
      with False cap(1) p(2-4) show ?thesis
        unfolding build pre r(1) Inr nw fits by (simp add: ov)
    qed
  qed
qed

end
