(* ===== verification/V2_Spec.thy ===== *)
theory V2_Spec
  imports V2_Build
begin

text \<open>
  The properties of the v2 capsule code: the parser accepts exactly the well-formed capsules and
  never faults, the builder and the parser are inverse to each other, a corrupted capsule is
  refused, and the canonical digest is a function of the logical contents only and an injective
  one.
\<close>

section \<open>Entries of a parsed capsule\<close>

definition entry_at :: "u8 list \<Rightarrow> nat \<Rightarrow> bbp_v2_entry_view" where
  "entry_at p i = (let d = unat (dir_at p) in
     \<lparr>e_type = le64_at p (ent d i), e_flags = le32_at p (ent d i + 8), e_version = le16_at p (ent d i + 12),
      e_alignment = le32_at p (ent d i + 40), e_offset = le64_at p (ent d i + 16),
      e_size = le64_at p (ent d i + 24), e_checksum = le64_at p (ent d i + 32),
      e_data = drop (eoff p d i) p\<rparr>)"

lemma get_entry_ok:
  assumes ok: "capsule_ok p n" and len: "unat n \<le> length p" and i: "unat i < unat (cnt_at p)"
  shows "bbp_v2_get_entry (Some (view_of p n)) i True = Some (Inr (entry_at p (unat i)))"
proof -
  let ?d = "unat (dir_at p)"
  have h: "header_ok p n" using ok by (simp add: capsule_ok_def)
  then have x: "64 \<le> unat n" "unat n \<le> 67108864" "unat (cnt_at p) \<le> 1024" "64 \<le> ?d"
    "?d + 48 * unat (cnt_at p) \<le> unat n" by (auto simp: header_ok_def)
  note g = header_ok_geom [OF h len]
  note e = geom_ent [OF g i]
  have o: "eoff p ?d (unat i) + esize p ?d (unat i) \<le> unat n"
    using ok i by (auto simp: capsule_ok_def entry_ok_def Let_def)
  then have o': "\<not> (le64_at p (ent ?d (unat i) + 16) > n \<or>
      le64_at p (ent ?d (unat i) + 24) > n - le64_at p (ent ?d (unat i) + 16))"
    by (auto simp: eoff_def esize_def word_nat_simps unat_sub)
  have "dir_at p \<le> n" using x by (simp add: word_le_nat_alt)
  then have c: "\<not> (cnt_at p > BBP_V2_MAX_ENTRIES \<or> i \<ge> cnt_at p)"
    "\<not> (n < BBP_V2_HEADER_SIZE \<or> n > BBP_V2_MAX_EXTENT \<or> dir_at p < BBP_V2_HEADER_SIZE \<or> dir_at p > n \<or>
       ucast (cnt_at p) * BBP_V2_DIRENT_SIZE > n - dir_at p)"
    using x i dir_size_eq [OF x(3)] by (auto simp: v2_consts word_nat_simps unat_sub)
  show ?thesis
    using c o' e len unfolding bbp_v2_get_entry_def view_of_def
    by (simp add: geom_get [OF g i] get_at Let_def entry_at_def eoff_def)
qed

lemma entry_at_payload: "take (unat (e_size (entry_at p i))) (e_data (entry_at p i)) = payload_at p (unat (dir_at p)) i"
  by (simp add: entry_at_def Let_def payload_at_def esize_def)

section \<open>Properties of the parser\<close>

text \<open>C3. The v2 parser accepts exactly the well-formed capsules: given a readable region of the
  stated extent, it returns OK with the view of the capsule if and only if header, directory, span
  geometry, work limit, padding and all checksums are right.\<close>

theorem v2_parse_accepts_iff:
  assumes "unat ext \<le> length p"
  shows "bbp_v2_parse (Some p) ext True = Some (Inr v) \<longleftrightarrow> capsule_ok p ext \<and> v = view_of p ext"
  using parse_spec [OF assms] by auto

text \<open>The v2 parser never reads outside the extent it was given, whatever the bytes are.\<close>

theorem v2_parse_never_faults:
  assumes "\<forall>p. capsule = Some p \<longrightarrow> unat ext \<le> length p"
  shows "bbp_v2_parse capsule ext out \<noteq> None"
proof (cases "capsule = None \<or> \<not> out")
  case True
  then show ?thesis by (cases capsule) (auto simp: bbp_v2_parse_def)
next
  case False
  then obtain p where "capsule = Some p" "out" by (cases capsule) auto
  then show ?thesis using parse_spec [of ext p] assms by auto
qed

text \<open>C25. Corruption is refused: a change of at most eight consecutive bytes of an accepted capsule
  outside the checksum field makes the parser return an error.\<close>

theorem v2_parse_rejects_burst:
  assumes "bbp_v2_parse (Some (p @ xs @ s)) ext True = Some (Inr v)"
    and "unat ext = length (p @ xs @ s)" "length xs = length ys" "length xs \<le> 8" "xs \<noteq> ys"
    and "48 \<le> length p \<or> length p + length xs \<le> 40"
  shows "\<exists>e. bbp_v2_parse (Some (p @ ys @ s)) ext True = Some (Inl e)"
proof -
  let ?a = "p @ xs @ s" and ?b = "p @ ys @ s"
  have "capsule_ok ?a ext" using parse_spec [of ext ?a] assms(1,2) by auto
  then have a: "crc_field_ok ?a 40" using assms(2) unfolding capsule_ok_def Let_def by simp
  have "take 8 (drop 40 ?b) = take 8 (drop 40 ?a)"
    using assms(3,6) by (auto simp: drop_append take_append)
  moreover have "crc_skip_bytes ?a 40 \<noteq> crc_skip_bytes ?b 40"
    using crc_skip_burst [of xs ys 40 p s] assms(3-6) by auto
  ultimately have "\<not> crc_field_ok ?b 40" using a by (simp add: crc_field_ok_def)
  then have "\<not> capsule_ok ?b ext" using assms(2,3) by (simp add: capsule_ok_def Let_def)
  then show ?thesis using parse_spec [of ext ?b] assms(2,3) by auto
qed

section \<open>Properties of the builder\<close>

text \<open>C2. Round trip: a capsule the v2 builder reports as built is accepted by the v2 parser, and
  reading entry \<open>i\<close> gives the type, flags, version, alignment, size and payload bytes of source \<open>i\<close>,
  with the payload at an offset that is a multiple of its alignment.\<close>

theorem v2_build_parse_roundtrip:
  assumes "bbp_v2_build output buf capacity (Some es) cnt True = Some (Inr (p, n))"
    and "output \<noteq> 0" "unat cnt \<le> 1024" "unat capacity \<le> length buf" "unat cnt \<le> length es"
    and "\<forall>k<unat cnt. unat (be_size (es ! k)) \<le> length (be_bytes (es ! k))"
  shows "bbp_v2_parse (Some p) n True = Some (Inr (view_of p n)) \<and> v_entry_count (view_of p n) = cnt \<and>
    (\<forall>i. i < cnt \<longrightarrow> (\<exists>ev. bbp_v2_get_entry (Some (view_of p n)) i True = Some (Inr ev) \<and>
       e_type ev = be_type (es ! unat i) \<and> e_flags ev = be_flags (es ! unat i) \<and>
       e_version ev = be_version (es ! unat i) \<and> e_alignment ev = be_alignment (es ! unat i) \<and>
       e_size ev = be_size (es ! unat i) \<and> unat (e_alignment ev) dvd unat (e_offset ev) \<and>
       take (unat (e_size ev)) (e_data ev) = take (unat (be_size (es ! unat i))) (be_bytes (es ! unat i))))"
proof -
  have b: "capsule_ok p n" "unat n \<le> length p" "cnt_at p = cnt" "dir_at p = 64"
    "\<forall>i<unat cnt. \<exists>s. slice p (ent 64 i) 48 = dirent_of (es ! i) s \<and>
        slice p (unat s) (unat (be_size (es ! i))) = payload_of (es ! i)"
    using build_spec [OF assms(2-6)] assms(1) by (auto simp: built_def)
  have "bbp_v2_parse (Some p) n True = Some (Inr (view_of p n))"
    using parse_spec [OF b(2)] b(1) by auto
  moreover have "\<exists>ev. bbp_v2_get_entry (Some (view_of p n)) i True = Some (Inr ev) \<and>
       e_type ev = be_type (es ! unat i) \<and> e_flags ev = be_flags (es ! unat i) \<and>
       e_version ev = be_version (es ! unat i) \<and> e_alignment ev = be_alignment (es ! unat i) \<and>
       e_size ev = be_size (es ! unat i) \<and> unat (e_alignment ev) dvd unat (e_offset ev) \<and>
       take (unat (e_size ev)) (e_data ev) = take (unat (be_size (es ! unat i))) (be_bytes (es ! unat i))"
    if "i < cnt" for i
  proof -
    have i: "unat i < unat (cnt_at p)" using that b(3) by (simp add: word_less_nat_alt)
    obtain s where s: "slice p (ent 64 (unat i)) 48 = dirent_of (es ! unat i) s"
      "slice p (unat s) (unat (be_size (es ! unat i))) = payload_of (es ! unat i)"
      using b(3,5) i by auto
    have "ealign p 64 (unat i) dvd eoff p 64 (unat i)"
      using b(1,3,4) i by (auto simp: capsule_ok_def entry_ok_def Let_def)
    then show ?thesis
      using get_entry_ok [OF b(1,2) i] dirent_fields [OF s(1)] s(2) b(4)
      by (simp only: entry_at_def Let_def eoff_def ealign_def)
        (simp add: slice_def payload_of_def)
  qed
  ultimately show ?thesis using b(3) by (simp add: view_of_def)
qed

text \<open>C26. The v2 builder is total and exact: on readable sources and a writable output of the stated
  capacity it never faults; it succeeds if and only if every source is valid, the layout is within
  the extent, work and capacity limits and no source overlaps the output; and then it writes no byte
  past the size it reports.\<close>

theorem v2_build_total:
  assumes "output \<noteq> 0" "unat cnt \<le> 1024" "unat capacity \<le> length buf" "unat cnt \<le> length es"
    and "\<forall>k<unat cnt. unat (be_size (es ! k)) \<le> length (be_bytes (es ! k))"
  shows "(\<exists>e. \<not> build_fits output capacity es (unat cnt) \<and>
      bbp_v2_build output buf capacity (Some es) cnt True = Some (Inl e)) \<or>
    (\<exists>p n. build_fits output capacity es (unat cnt) \<and>
      bbp_v2_build output buf capacity (Some es) cnt True = Some (Inr (p, n)) \<and>
      n \<le> capacity \<and> length p = length buf \<and> drop (unat n) p = drop (unat n) buf)"
proof -
  obtain r where r: "bbp_v2_build output buf capacity (Some es) cnt True = Some r"
    "case r of Inl e \<Rightarrow> \<not> build_fits output capacity es (unat cnt)
     | Inr (p, n) \<Rightarrow> build_fits output capacity es (unat cnt) \<and> n \<le> capacity \<and> length p = length buf \<and>
         drop (unat n) p = drop (unat n) buf \<and> built es cnt p n"
    using build_spec [OF assms] by blast
  then show ?thesis by (cases r) auto
qed

section \<open>The canonical digest\<close>

type_synonym logical_entry = "u64 \<times> u32 \<times> u16 \<times> u8 list"

text \<open>The logical contents of a capsule: its entries without offsets, alignments and checksums.\<close>

definition logical :: "u8 list \<Rightarrow> logical_entry list" where
  "logical p = (let d = unat (dir_at p) in
     map (\<lambda>i. (le64_at p (ent d i), le32_at p (ent d i + 8), le16_at p (ent d i + 12), payload_at p d i))
       [0..<unat (cnt_at p)])"

fun logical_frame :: "logical_entry \<Rightarrow> u8 list" where
  "logical_frame (ty, fl, ver, pl) = put_le 8 ty @ put_le 4 fl @ put_le 2 ver @ replicate 2 0 @
     put_le 8 (of_nat (length pl) :: u64) @ replicate 8 0"

fun logical_payload :: "logical_entry \<Rightarrow> u8 list" where
  "logical_payload (ty, fl, ver, pl) = pl"

definition digest_chunks :: "logical_entry list \<Rightarrow> u8 list list" where
  "digest_chunks es = digest_domain # digest_envelope 0 (of_nat (length es)) #
     concat (map (\<lambda>e. [logical_frame e, logical_payload e]) es)"

lemma capsule_payload_length:
  assumes "capsule_ok p n" "unat n \<le> length p" "i < unat (cnt_at p)"
  shows "length (payload_at p (unat (dir_at p)) i) = esize p (unat (dir_at p)) i"
proof -
  have "eoff p (unat (dir_at p)) i + esize p (unat (dir_at p)) i \<le> unat n"
    using assms(1,3) by (auto simp: capsule_ok_def entry_ok_def Let_def)
  then show ?thesis using assms(2) by (simp add: payload_at_def)
qed

lemma digest_loop_eq:
  assumes ok: "capsule_ok p n" and len: "unat n \<le> length p"
  shows "\<forall>i\<in>set is. i < unat (cnt_at p) \<Longrightarrow> digest_loop (view_of p n) upd is st =
    Some (foldl upd st (concat (map (\<lambda>i. [digest_frame (entry_at p i), payload_at p (unat (dir_at p)) i]) is)))"
proof (induction "is" arbitrary: st)
  case (Cons i "is")
  have i: "i < unat (cnt_at p)" using Cons.prems by simp
  then have u: "unat (of_nat i :: u32) = i"
    using unat_u32_less [of "cnt_at p"] by (intro unat_of_nat_u32) simp
  have get: "bbp_v2_get_entry (Some (view_of p n)) (of_nat i) True = Some (Inr (entry_at p i))"
    using get_entry_ok [OF ok len, of "of_nat i"] u i by simp
  have "unat (e_size (entry_at p i)) \<le> length (e_data (entry_at p i))"
    using capsule_payload_length [OF ok len i] by (simp add: entry_at_def Let_def payload_at_def esize_def)
  then have "rd (e_data (entry_at p i)) 0 (unat (e_size (entry_at p i))) = Some (payload_at p (unat (dir_at p)) i)"
    using entry_at_payload [of p i] by (simp add: rd_def)
  then show ?case using Cons get by simp
qed simp

lemma digest_frame_logical:
  assumes "capsule_ok p n" "unat n \<le> length p" "i < unat (cnt_at p)"
  shows "digest_frame (entry_at p i) = logical_frame (le64_at p (ent (unat (dir_at p)) i),
    le32_at p (ent (unat (dir_at p)) i + 8), le16_at p (ent (unat (dir_at p)) i + 12),
    payload_at p (unat (dir_at p)) i)"
proof -
  have "of_nat (length (payload_at p (unat (dir_at p)) i)) = le64_at p (ent (unat (dir_at p)) i + 24)"
    using capsule_payload_length [OF assms] by (simp only: esize_def of_nat_unat_u64)
  then show ?thesis by (simp add: digest_frame_def entry_at_def Let_def)
qed

lemma digest_eq:
  assumes "capsule_ok p n" "unat n \<le> length p"
  shows "bbp_v2_digest (Some (view_of p n)) (Some upd) st = Some (Inr (foldl upd st (digest_chunks (logical p))))"
proof -
  let ?c = "unat (cnt_at p)" and ?d = "unat (dir_at p)"
  have chunks: "concat (map (\<lambda>i. [digest_frame (entry_at p i), payload_at p ?d i]) [0..<?c]) =
      concat (map (\<lambda>e. [logical_frame e, logical_payload e]) (logical p))"
    unfolding logical_def Let_def map_map comp_def
    by (intro arg_cong [where f = concat] map_cong refl) (simp add: digest_frame_logical [OF assms])
  have "v_data (view_of p n) = p" "v_total_size (view_of p n) = n" "v_entry_count (view_of p n) = cnt_at p"
    by (simp_all add: view_of_def)
  moreover have "bbp_v2_parse (Some p) n True = Some (Inr (view_of p n))"
    using parse_spec [OF assms(2)] assms(1) by auto
  moreover have "v_flags (view_of p n) = 0"
    using assms(1) by (simp add: capsule_ok_def header_ok_def view_of_def)
  moreover have "of_nat (length (logical p)) = cnt_at p" by (simp add: logical_def Let_def)
  moreover have "digest_loop (view_of p n) upd [0..<?c] s =
      Some (foldl upd s (concat (map (\<lambda>e. [logical_frame e, logical_payload e]) (logical p))))" for s
    unfolding chunks [symmetric] by (intro digest_loop_eq [OF assms]) simp
  ultimately show ?thesis
    by (simp add: bbp_v2_digest_def digest_chunks_def Let_def)
qed

text \<open>What the digest hashes: on an accepted capsule the update callback receives the domain
  string, the envelope and then, entry by entry in directory order, one frame and the payload
  bytes, and nothing that depends on the layout of the capsule.\<close>

theorem v2_digest_stream:
  assumes "bbp_v2_parse (Some p) n True = Some (Inr v)" "unat n \<le> length p"
  shows "bbp_v2_digest (Some v) (Some upd) st = Some (Inr (foldl upd st (digest_chunks (logical p))))"
proof -
  have "capsule_ok p n" "v = view_of p n" using parse_spec [OF assms(2)] assms(1) by auto
  then show ?thesis using digest_eq assms(2) by simp
qed

lemma length_logical_frame [simp]: "length (logical_frame e) = 32"
  by (cases e rule: logical_frame.cases) simp

lemma logical_frame_inject:
  assumes "length (logical_payload x) < 2 ^ 64" "length (logical_payload y) < 2 ^ 64"
    "logical_frame x @ logical_payload x @ us = logical_frame y @ logical_payload y @ vs"
  shows "x = y \<and> us = vs"
proof -
  obtain a b c d where x: "x = (a, b, c, d)" by (cases x)
  obtain a' b' c' d' where y: "y = (a', b', c', d')" by (cases y)
  have f: "logical_frame x = logical_frame y" and r: "d @ us = d' @ vs"
    using assms(3) by (auto simp: x y append_eq_append_conv)
  have "put_le 8 a = put_le 8 a'" "put_le 4 b = put_le 4 b'" "put_le 2 c = put_le 2 c'"
    "put_le 8 (of_nat (length d) :: u64) = put_le 8 (of_nat (length d') :: u64)"
    using f by (simp_all add: x y)
  then have e: "a = a'" "b = b'" "c = c'" "(of_nat (length d) :: u64) = of_nat (length d')"
    by (simp_all add: le64.enc_inject le32.enc_inject le16.enc_inject)
  then have "length d = length d'"
    using assms(1,2) by (simp add: x y of_nat_u64_eq_iff)
  then show ?thesis using e r by (simp add: x y)
qed

lemma logical_stream_inject:
  assumes "length xs = length ys" "\<forall>e\<in>set xs \<union> set ys. length (logical_payload e) < 2 ^ 64"
    "concat (map (\<lambda>e. logical_frame e @ logical_payload e) xs) =
     concat (map (\<lambda>e. logical_frame e @ logical_payload e) ys)"
  shows "xs = ys"
  using assms
proof (induction xs ys rule: list_induct2)
  case (Cons x xs y ys)
  have "x = y \<and> concat (map (\<lambda>e. logical_frame e @ logical_payload e) xs) =
     concat (map (\<lambda>e. logical_frame e @ logical_payload e) ys)"
    using Cons.prems by (intro logical_frame_inject) simp_all
  then show ?case using Cons by simp
qed simp

lemma concat_chunks:
  "concat (concat (map (\<lambda>e. [logical_frame e, logical_payload e]) es)) =
   concat (map (\<lambda>e. logical_frame e @ logical_payload e) es)"
  by (induction es) simp_all

lemma foldl_append_concat: "foldl (@) xs yss = xs @ concat yss"
  by (induction yss arbitrary: xs) simp_all

lemma digest_chunks_inject:
  assumes "length xs < 2 ^ 32" "length ys < 2 ^ 32"
    "\<forall>e\<in>set xs \<union> set ys. length (logical_payload e) < 2 ^ 64"
    "concat (digest_chunks xs) = concat (digest_chunks ys)"
  shows "xs = ys"
proof -
  have env: "digest_envelope 0 (of_nat (length xs)) = digest_envelope 0 (of_nat (length ys))"
    and s: "concat (map (\<lambda>e. logical_frame e @ logical_payload e) xs) =
       concat (map (\<lambda>e. logical_frame e @ logical_payload e) ys)"
    using assms(4) by (simp_all add: digest_chunks_def digest_envelope_def concat_chunks)
  have "(of_nat (length xs) :: u32) = of_nat (length ys)"
    using env by (simp add: digest_envelope_def le32.enc_inject)
  then have "length xs = length ys"
    using assms(1,2) by (metis unat_of_nat_u32)
  then show ?thesis using logical_stream_inject assms(3) s by blast
qed

text \<open>C24. The digest is canonical: two accepted capsules feed the same bytes to the hash if and only
  if they have the same entries (type, flags, version and payload, in the same order), however they
  are laid out.\<close>

theorem v2_digest_canonical:
  assumes "bbp_v2_parse (Some p) n True = Some (Inr v)" "unat n \<le> length p"
    and "bbp_v2_parse (Some q) m True = Some (Inr w)" "unat m \<le> length q"
  shows "bbp_v2_digest (Some v) (Some (@)) [] = bbp_v2_digest (Some w) (Some (@)) []
    \<longleftrightarrow> logical p = logical q"
proof -
  have ok: "capsule_ok p n" "v = view_of p n" "capsule_ok q m" "w = view_of q m"
    using parse_spec [OF assms(2)] parse_spec [OF assms(4)] assms(1,3) by auto
  have len: "length (logical r) < 2 ^ 32" for r
    using unat_u32_less [of "cnt_at r"] by (simp add: logical_def Let_def)
  have "\<forall>e\<in>set (logical r). length (logical_payload e) < 2 ^ 64" for r
    using unat_u64_less by (auto simp: logical_def Let_def payload_at_def esize_def min_less_iff_disj)
  then have "logical p = logical q" if "concat (digest_chunks (logical p)) = concat (digest_chunks (logical q))"
    using digest_chunks_inject [OF len len _ that] by blast
  then show ?thesis
    unfolding ok(2,4) digest_eq [OF ok(1) assms(2)] digest_eq [OF ok(3) assms(4)] foldl_append_concat by auto
qed

section \<open>Witnesses\<close>

text \<open>One entry of three bytes, aligned to 8 or 16, built into a buffer of exactly the right size.\<close>

definition demo_sources :: "u32 \<Rightarrow> bbp_v2_build_entry list" where
  "demo_sources al = [\<lparr>be_type = 1, be_flags = 0, be_version = 1, be_alignment = al, be_addr = 0x2000,
     be_bytes = [1, 2, 3], be_size = 3\<rparr>]"

lemma demo_args:
  "(0x1000 :: u64) \<noteq> 0" "unat (1 :: u32) \<le> 1024" "unat (115 :: u64) \<le> length (replicate 115 (0xFF :: u8))"
  by simp_all

lemma demo_src:
  "unat (1 :: u32) \<le> length (demo_sources al)"
  "\<forall>k<unat (1 :: u32). unat (be_size (demo_sources al ! k)) \<le> length (be_bytes (demo_sources al ! k))"
  by (simp_all add: demo_sources_def)

lemma demo_fits: "al = 8 \<or> al = 16 \<Longrightarrow> build_fits 0x1000 115 (demo_sources al) (unat (1 :: u32))"
  by (auto simp: build_fits_def sources_ok_def demo_sources_def source_ok_def source_work_def round_up_def
      power_of_two_def memory_ranges_overlap_def less_Suc_eq Let_def)

lemma demo_built:
  assumes al: "al = 8 \<or> al = 16"
  obtains p n where "bbp_v2_build 0x1000 (replicate 115 0xFF) 115 (Some (demo_sources al)) 1 True = Some (Inr (p, n))"
    "length p = 115" "unat n = 115" "built (demo_sources al) 1 p n"
    "bbp_v2_parse (Some p) n True = Some (Inr (view_of p n))"
proof -
  obtain r where r: "bbp_v2_build 0x1000 (replicate 115 0xFF) 115 (Some (demo_sources al)) 1 True = Some r"
    "case r of Inl e \<Rightarrow> \<not> build_fits 0x1000 115 (demo_sources al) (unat (1 :: u32))
     | Inr (p, n) \<Rightarrow> build_fits 0x1000 115 (demo_sources al) (unat (1 :: u32)) \<and> n \<le> 115 \<and>
         length p = length (replicate 115 (0xFF :: u8)) \<and>
         drop (unat n) p = drop (unat n) (replicate 115 0xFF) \<and> built (demo_sources al) 1 p n"
    using build_spec [OF demo_args demo_src [of al]] by blast
  then obtain p n where pn: "r = Inr (p, n)" "n \<le> 115" "length p = 115" "built (demo_sources al) 1 p n"
    using demo_fits [OF al] by (cases r) auto
  then have ok: "capsule_ok p n" "unat n \<le> length p" "dir_at p = 64" "cnt_at p = 1"
    by (auto simp: built_def)
  obtain s where "slice p (ent 64 0) 48 = dirent_of (demo_sources al ! 0) s"
    using pn(4) by (auto simp: built_def)
  from dirent_fields(5,6) [OF this] have e: "le64_at p (64 + 16) = s" "le64_at p (64 + 24) = 3"
    by (simp_all add: demo_sources_def)
  have "entry_ok p (unat n) 64 1 0" using ok by (simp add: capsule_ok_def Let_def)
  then have "112 \<le> unat s" "unat s + 3 \<le> unat n"
    using e by (auto simp: entry_ok_def eoff_def esize_def disjoint_spans_def)
  then have "unat n = 115" using pn(2) by (simp add: word_nat_simps)
  moreover have "bbp_v2_parse (Some p) n True = Some (Inr (view_of p n))"
    using parse_spec [OF ok(2)] ok(1) by auto
  ultimately show ?thesis using that r(1) pn by simp
qed

theorem v2_parse_accepts_iff_witness:
  "\<exists>p n. length p = 115 \<and> unat n = 115 \<and> capsule_ok p n \<and> bbp_v2_parse (Some p) n True = Some (Inr (view_of p n))"
proof -
  obtain p n where p: "length p = 115" "unat n = 115" "built (demo_sources 8) 1 p n"
    by (rule demo_built [of 8]) auto
  then have "capsule_ok p n" by (simp add: built_def)
  then show ?thesis
    using v2_parse_accepts_iff [of n p "view_of p n"] p(1,2) by (intro exI [of _ p] exI [of _ n]) simp
qed

theorem v2_parse_never_faults_witness:
  "bbp_v2_parse (Some (replicate 64 0xFF)) 64 True \<noteq> None"
  using v2_parse_never_faults [of "Some (replicate 64 0xFF)" 64 True] by simp

theorem v2_parse_rejects_burst_witness:
  "\<exists>p q n v e. length q = length p \<and> bbp_v2_parse (Some p) n True = Some (Inr v) \<and>
     bbp_v2_parse (Some q) n True = Some (Inl e)"
proof -
  obtain p n where p: "length p = 115" "unat n = 115" "bbp_v2_parse (Some p) n True = Some (Inr (view_of p n))"
    by (rule demo_built [of 8]) auto
  have split: "take 50 p @ [p ! 50] @ drop 51 p = p"
    using p(1) id_take_nth_drop [of 50 p] by simp
  have "\<exists>e. bbp_v2_parse (Some (take 50 p @ [p ! 50 + 1] @ drop 51 p)) n True = Some (Inl e)"
    by (rule v2_parse_rejects_burst [of "take 50 p" "[p ! 50]" "drop 51 p" n "view_of p n"])
      (use p in \<open>simp_all add: split [simplified]\<close>)
  then obtain e where e: "bbp_v2_parse (Some (take 50 p @ [p ! 50 + 1] @ drop 51 p)) n True = Some (Inl e)"
    by blast
  moreover have "length (take 50 p @ [p ! 50 + 1] @ drop 51 p) = length p" using p(1) by simp
  ultimately show ?thesis using p(3) by blast
qed

theorem v2_build_parse_roundtrip_witness:
  "\<exists>p n ev. bbp_v2_build 0x1000 (replicate 115 0xFF) 115 (Some (demo_sources 8)) 1 True = Some (Inr (p, n)) \<and>
     bbp_v2_parse (Some p) n True = Some (Inr (view_of p n)) \<and>
     bbp_v2_get_entry (Some (view_of p n)) 0 True = Some (Inr ev) \<and> take 3 (e_data ev) = [1, 2, 3]"
proof -
  obtain p n where p: "bbp_v2_build 0x1000 (replicate 115 0xFF) 115 (Some (demo_sources 8)) 1 True = Some (Inr (p, n))"
    by (rule demo_built [of 8]) auto
  note rt = v2_build_parse_roundtrip [OF p demo_args demo_src [of 8]]
  have "(0 :: u32) < 1" by simp
  with rt obtain ev where ev: "bbp_v2_get_entry (Some (view_of p n)) 0 True = Some (Inr ev)"
    "e_size ev = be_size (demo_sources 8 ! unat (0 :: u32))"
    "take (unat (e_size ev)) (e_data ev) =
       take (unat (be_size (demo_sources 8 ! unat (0 :: u32)))) (be_bytes (demo_sources 8 ! unat (0 :: u32)))"
    by blast
  then have "take 3 (e_data ev) = [1, 2, 3]" by (simp add: demo_sources_def)
  then show ?thesis using p rt ev(1) by blast
qed

theorem v2_build_total_witness:
  "\<exists>p n. bbp_v2_build 0x1000 (replicate 115 0xFF) 115 (Some (demo_sources 8)) 1 True = Some (Inr (p, n)) \<and>
     n \<le> 115 \<and> drop (unat n) p = drop (unat n) (replicate 115 0xFF)"
  using v2_build_total [OF demo_args demo_src [of 8]] demo_fits [of 8] by blast

theorem v2_digest_stream_witness:
  "\<exists>p n v. bbp_v2_parse (Some p) n True = Some (Inr v) \<and>
     bbp_v2_digest (Some v) (Some (\<lambda>k c. k + length c)) 0 =
       Some (Inr (foldl (\<lambda>k c. k + length c) 0 (digest_chunks (logical p))))"
proof -
  obtain p n where p: "length p = 115" "unat n = 115" "bbp_v2_parse (Some p) n True = Some (Inr (view_of p n))"
    by (rule demo_built [of 8]) auto
  then show ?thesis using v2_digest_stream [OF p(3)] by (intro exI [of _ p] exI [of _ n] exI [of _ "view_of p n"]) simp
qed

lemma demo_logical:
  assumes "built (demo_sources al) 1 p n"
  shows "logical p = [(1, 0, 1, [1, 2, 3])]" "le32_at p 104 = al"
proof -
  have h: "dir_at p = 64" "cnt_at p = 1" using assms by (simp_all add: built_def)
  obtain s where s: "slice p (ent 64 0) 48 = dirent_of (demo_sources al ! 0) s"
    "slice p (unat s) (unat (be_size (demo_sources al ! 0))) = payload_of (demo_sources al ! 0)"
    using assms by (auto simp: built_def)
  note f = dirent_fields [OF s(1)]
  have "payload_at p 64 0 = [1, 2, 3]"
    using s(2) f(5,6) by (simp add: payload_at_def eoff_def esize_def slice_def demo_sources_def payload_of_def)
  then show "logical p = [(1, 0, 1, [1, 2, 3])]" "le32_at p 104 = al"
    using f(1-3,8) by (simp_all add: logical_def Let_def h demo_sources_def)
qed

theorem v2_digest_canonical_witness:
  "\<exists>p q n m v w. p \<noteq> q \<and> bbp_v2_parse (Some p) n True = Some (Inr v) \<and> bbp_v2_parse (Some q) m True = Some (Inr w) \<and>
     bbp_v2_digest (Some v) (Some (@)) [] = bbp_v2_digest (Some w) (Some (@)) []"
proof -
  obtain p n where p: "length p = 115" "unat n = 115" "built (demo_sources 8) 1 p n"
    "bbp_v2_parse (Some p) n True = Some (Inr (view_of p n))"
    by (rule demo_built [of 8]) auto
  obtain q m where q: "length q = 115" "unat m = 115" "built (demo_sources 16) 1 q m"
    "bbp_v2_parse (Some q) m True = Some (Inr (view_of q m))"
    by (rule demo_built [of 16]) auto
  have "p \<noteq> q" using demo_logical(2) [OF p(3)] demo_logical(2) [OF q(3)] by auto
  moreover have "logical p = logical q" using demo_logical(1) [OF p(3)] demo_logical(1) [OF q(3)] by simp
  ultimately show ?thesis
    using v2_digest_canonical [OF p(4) _ q(4)] p(1,2,4) q(1,2,4)
    by (metis order_refl)
qed

end
