(* ===== verification/Abi.thy ===== *)
theory Abi
  imports Bbp_Prelude
begin

text \<open>
  The wire contract of \<open>include/bbp/bbp.h\<close>: constants, tag identifiers and the packed
  structures. A structure is the list of its fields in declaration order; \<open>off\<close> and
  \<open>sizeof\<close> are the C \<open>offsetof\<close> and \<open>sizeof\<close> of the packed layout. The wire structures
  themselves live as bytes in memory, so the components read and write them with the loads and
  stores of the prelude at these offsets.
\<close>

section \<open>Layouts\<close>

datatype ctype = U8 | U16 | U32 | U64 | Arr nat ctype | Struct "(string \<times> ctype) list"

type_synonym fields = "(string \<times> ctype) list"

fun csize :: "ctype \<Rightarrow> nat" where
  "csize U8 = 1"
| "csize U16 = 2"
| "csize U32 = 4"
| "csize U64 = 8"
| "csize (Arr n t) = n * csize t"
| "csize (Struct fs) = sum_list (map (\<lambda>(_, t). csize t) fs)"

text \<open>The alignment the type would have without the packed attribute.\<close>

fun calign :: "ctype \<Rightarrow> nat" where
  "calign U8 = 1"
| "calign U16 = 2"
| "calign U32 = 4"
| "calign U64 = 8"
| "calign (Arr n t) = calign t"
| "calign (Struct fs) = fold max (map (\<lambda>(_, t). calign t) fs) 1"

fun offsetof :: "fields \<Rightarrow> string \<Rightarrow> nat" where
  "offsetof [] f = 0"
| "offsetof ((g, t) # fs) f = (if g = f then 0 else csize t + offsetof fs f)"

fun aligned_from :: "nat \<Rightarrow> fields \<Rightarrow> bool" where
  "aligned_from o1 [] \<longleftrightarrow> True"
| "aligned_from o1 ((g, t) # fs) \<longleftrightarrow> o1 mod calign t = 0 \<and> aligned_from (o1 + csize t) fs"

text \<open>The packed layout inserts no padding that the natural one would need.\<close>

definition naturally_aligned :: "fields \<Rightarrow> bool" where
  "naturally_aligned fs \<longleftrightarrow>
     aligned_from 0 fs \<and> csize (Struct fs) mod calign (Struct fs) = 0"

definition off :: "fields \<Rightarrow> string \<Rightarrow> u64" where
  "off S f = of_nat (offsetof S f)"

definition sizeof :: "fields \<Rightarrow> u64" where
  "sizeof S = of_nat (csize (Struct S))"

section \<open>Constants\<close>

definition BBP_VERSION_MAJOR :: u16 where "BBP_VERSION_MAJOR = 1"
definition BBP_VERSION_MINOR :: u16 where "BBP_VERSION_MINOR = 1"

definition ascii :: "string \<Rightarrow> u8 list" where
  "ascii s = map (\<lambda>c. of_nat (of_char c)) s"

text \<open>A literal assigned to a \<open>uint8_t [n]\<close> is padded with zeros.\<close>

definition char_array :: "nat \<Rightarrow> string \<Rightarrow> u8 list" where
  "char_array n s = take n (ascii s @ replicate n 0)"

definition BBP_MAGIC_LEN :: nat where "BBP_MAGIC_LEN = 16"
definition BBP_HEADER_MAGIC :: string where "BBP_HEADER_MAGIC = ''BEAR_BOOT''"
definition BBP_INFO_MAGIC :: string where "BBP_INFO_MAGIC = ''BEAR_INFO''"

definition BBP_TAG_ID :: "u64 \<Rightarrow> u64 \<Rightarrow> u64" where
  "BBP_TAG_ID cat ident = push_bit 48 cat OR ident"

definition BBP_CAT_CORE :: u64 where "BBP_CAT_CORE = 0x0001"
definition BBP_CAT_MEMORY :: u64 where "BBP_CAT_MEMORY = 0x0002"
definition BBP_CAT_DEVICE :: u64 where "BBP_CAT_DEVICE = 0x0003"
definition BBP_CAT_SECURITY :: u64 where "BBP_CAT_SECURITY = 0x0004"
definition BBP_CAT_PLATFORM :: u64 where "BBP_CAT_PLATFORM = 0x0005"
definition BBP_CAT_DEBUG :: u64 where "BBP_CAT_DEBUG = 0x0006"

definition BBP_TAG_SMP :: u64 where "BBP_TAG_SMP = BBP_TAG_ID BBP_CAT_CORE 0x0001"
definition BBP_TAG_MODULES :: u64 where "BBP_TAG_MODULES = BBP_TAG_ID BBP_CAT_CORE 0x0002"
definition BBP_TAG_CMDLINE :: u64 where "BBP_TAG_CMDLINE = BBP_TAG_ID BBP_CAT_CORE 0x0003"
definition BBP_TAG_MEMORY_MAP :: u64 where "BBP_TAG_MEMORY_MAP = BBP_TAG_ID BBP_CAT_MEMORY 0x0001"
definition BBP_TAG_HHDM :: u64 where "BBP_TAG_HHDM = BBP_TAG_ID BBP_CAT_MEMORY 0x0002"
definition BBP_TAG_KERNEL_ADDRESS :: u64 where "BBP_TAG_KERNEL_ADDRESS = BBP_TAG_ID BBP_CAT_MEMORY 0x0003"
definition BBP_TAG_FRAMEBUFFER :: u64 where "BBP_TAG_FRAMEBUFFER = BBP_TAG_ID BBP_CAT_DEVICE 0x0001"
definition BBP_TAG_PCIE :: u64 where "BBP_TAG_PCIE = BBP_TAG_ID BBP_CAT_DEVICE 0x0002"
definition BBP_TAG_SECURITY :: u64 where "BBP_TAG_SECURITY = BBP_TAG_ID BBP_CAT_SECURITY 0x0001"
definition BBP_TAG_ACPI :: u64 where "BBP_TAG_ACPI = BBP_TAG_ID BBP_CAT_PLATFORM 0x0001"
definition BBP_TAG_DEVICETREE :: u64 where "BBP_TAG_DEVICETREE = BBP_TAG_ID BBP_CAT_PLATFORM 0x0002"
definition BBP_TAG_EFI :: u64 where "BBP_TAG_EFI = BBP_TAG_ID BBP_CAT_PLATFORM 0x0003"
definition BBP_TAG_HYPERVISOR :: u64 where "BBP_TAG_HYPERVISOR = BBP_TAG_ID BBP_CAT_PLATFORM 0x0004"
definition BBP_TAG_SMBIOS :: u64 where "BBP_TAG_SMBIOS = BBP_TAG_ID BBP_CAT_PLATFORM 0x0005"
definition BBP_TAG_METRICS :: u64 where "BBP_TAG_METRICS = BBP_TAG_ID BBP_CAT_DEBUG 0x0001"

lemmas tag_id_defs = BBP_TAG_ID_def
  BBP_CAT_CORE_def
  BBP_CAT_MEMORY_def
  BBP_CAT_DEVICE_def
  BBP_CAT_SECURITY_def
  BBP_CAT_PLATFORM_def
  BBP_CAT_DEBUG_def
  BBP_TAG_SMP_def
  BBP_TAG_MODULES_def
  BBP_TAG_CMDLINE_def
  BBP_TAG_MEMORY_MAP_def
  BBP_TAG_HHDM_def
  BBP_TAG_KERNEL_ADDRESS_def
  BBP_TAG_FRAMEBUFFER_def
  BBP_TAG_PCIE_def
  BBP_TAG_SECURITY_def
  BBP_TAG_ACPI_def
  BBP_TAG_DEVICETREE_def
  BBP_TAG_EFI_def
  BBP_TAG_HYPERVISOR_def
  BBP_TAG_SMBIOS_def
  BBP_TAG_METRICS_def

definition BBP_MEM_USABLE :: u32 where "BBP_MEM_USABLE = 0x0001"
definition BBP_MEM_RESERVED :: u32 where "BBP_MEM_RESERVED = 0x0002"
definition BBP_MEM_ACPI_RECLAIMABLE :: u32 where "BBP_MEM_ACPI_RECLAIMABLE = 0x0003"
definition BBP_MEM_ACPI_NVS :: u32 where "BBP_MEM_ACPI_NVS = 0x0004"
definition BBP_MEM_BAD_MEMORY :: u32 where "BBP_MEM_BAD_MEMORY = 0x0005"
definition BBP_MEM_BOOTLOADER_RECLAIM :: u32 where "BBP_MEM_BOOTLOADER_RECLAIM = 0x0006"
definition BBP_MEM_KERNEL_AND_MODULES :: u32 where "BBP_MEM_KERNEL_AND_MODULES = 0x0007"
definition BBP_MEM_FRAMEBUFFER :: u32 where "BBP_MEM_FRAMEBUFFER = 0x0008"
definition BBP_MEM_PERSISTENT :: u32 where "BBP_MEM_PERSISTENT = 0x0010"
definition BBP_MEM_DEVICE_IO :: u32 where "BBP_MEM_DEVICE_IO = 0x0011"

definition BBP_FB_RGB888 :: u32 where "BBP_FB_RGB888 = 0x0001"
definition BBP_FB_RGBA8888 :: u32 where "BBP_FB_RGBA8888 = 0x0002"
definition BBP_FB_BGRA8888 :: u32 where "BBP_FB_BGRA8888 = 0x0003"
definition BBP_FB_RGB565 :: u32 where "BBP_FB_RGB565 = 0x0004"
definition BBP_FB_RGBA1010102 :: u32 where "BBP_FB_RGBA1010102 = 0x0010"
definition BBP_FB_RGBX_FP16 :: u32 where "BBP_FB_RGBX_FP16 = 0x0011"

definition BBP_MEM_ATTR_READABLE :: u32 where "BBP_MEM_ATTR_READABLE = 1"
definition BBP_MEM_ATTR_WRITABLE :: u32 where "BBP_MEM_ATTR_WRITABLE = 2"
definition BBP_MEM_ATTR_EXECUTABLE :: u32 where "BBP_MEM_ATTR_EXECUTABLE = 4"
definition BBP_MEM_ATTR_CACHED :: u32 where "BBP_MEM_ATTR_CACHED = 8"
definition BBP_MEM_ATTR_WRITE_COMBINE :: u32 where "BBP_MEM_ATTR_WRITE_COMBINE = 16"
definition BBP_MEM_ATTR_UNCACHED :: u32 where "BBP_MEM_ATTR_UNCACHED = 32"
definition BBP_TPM_FLAG_ACTIVE :: u32 where "BBP_TPM_FLAG_ACTIVE = 1"
definition BBP_TPM_FLAG_SUPPORTS_SHA384 :: u32 where "BBP_TPM_FLAG_SUPPORTS_SHA384 = 2"
definition BBP_TPM_FLAG_SUPPORTS_SHA512 :: u32 where "BBP_TPM_FLAG_SUPPORTS_SHA512 = 4"
definition BBP_ACPI_FLAG_XSDT_AVAILABLE :: u16 where "BBP_ACPI_FLAG_XSDT_AVAILABLE = 1"
definition BBP_ACPI_FLAG_SPCR_AVAILABLE :: u16 where "BBP_ACPI_FLAG_SPCR_AVAILABLE = 2"

section \<open>Structures\<close>

definition struct_bbp_tag_request :: fields where
  "struct_bbp_tag_request =
    [(''tag_id'', U64), (''flags'', U64), (''reserved'', U64)]"

definition struct_bbp_header :: fields where
  "struct_bbp_header =
    [(''magic'', Arr 16 U8), (''version_major'', U16), (''version_minor'', U16),
     (''header_size'', U32), (''flags'', U64), (''entry_point'', U64), (''paging_mode'', U64),
     (''kernel_virtual_base'', U64), (''request_count'', U32), (''reserved0'', U32),
     (''requests'', U64), (''kernel_uuid'', Arr 2 U64), (''kernel_name'', Arr 64 U8),
     (''checksum'', U64)]"

definition struct_bbp_info :: fields where
  "struct_bbp_info =
    [(''magic'', Arr 16 U8), (''version_major'', U16), (''version_minor'', U16),
     (''info_size'', U32), (''bootloader_name'', Arr 32 U8), (''bootloader_version'', Arr 16 U8),
     (''bootloader_uuid'', Arr 2 U64), (''bootloader_start_ts'', U64), (''kernel_load_ts'', U64),
     (''handoff_ts'', U64), (''architecture'', U16), (''cpu_count'', U16), (''tag_count'', U32),
     (''first_tag'', U64), (''next_context'', U64), (''checksum'', U64)]"

definition struct_bbp_tag_header :: fields where
  "struct_bbp_tag_header =
    [(''tag_id'', U64), (''tag_size'', U32), (''tag_version'', U16), (''flags'', U16),
     (''next_tag'', U64), (''checksum'', U64)]"

definition struct_bbp_memory_entry :: fields where
  "struct_bbp_memory_entry =
    [(''base'', U64), (''length'', U64), (''type'', U32), (''attributes'', U32),
     (''numa_node'', U32), (''reserved'', U32)]"

definition struct_bbp_tag_memory_map :: fields where
  "struct_bbp_tag_memory_map =
    [(''header'', Struct struct_bbp_tag_header), (''entry_count'', U32), (''entry_size'', U32)]"

definition struct_bbp_tag_hhdm :: fields where
  "struct_bbp_tag_hhdm =
    [(''header'', Struct struct_bbp_tag_header), (''offset'', U64)]"

definition struct_bbp_tag_kernel_address :: fields where
  "struct_bbp_tag_kernel_address =
    [(''header'', Struct struct_bbp_tag_header), (''physical_base'', U64),
     (''virtual_base'', U64)]"

definition struct_bbp_display_info :: fields where
  "struct_bbp_display_info =
    [(''width'', U16), (''height'', U16), (''refresh_rate'', U16), (''color_depth'', U16),
     (''pixel_format'', U32), (''physical_width_mm'', U16), (''physical_height_mm'', U16),
     (''dpi_x'', U16), (''dpi_y'', U16), (''hdr_capabilities'', U16), (''color_space'', U16),
     (''max_luminance'', U8), (''min_luminance'', U8), (''reserved'', U16), (''edid_size'', U32),
     (''edid_data'', U64), (''edid_crc'', U64)]"

definition struct_bbp_tag_framebuffer :: fields where
  "struct_bbp_tag_framebuffer =
    [(''header'', Struct struct_bbp_tag_header), (''address'', U64), (''display_count'', U16),
     (''flags'', U16), (''pitch'', U32), (''total_size'', U64), (''cursor_buffer'', U64),
     (''cursor_width'', U32), (''cursor_height'', U32)]"

definition struct_bbp_cpu_info :: fields where
  "struct_bbp_cpu_info =
    [(''processor_id'', U32), (''apic_id'', U32), (''state'', U16), (''flags'', U16),
     (''package_id'', U16), (''core_id'', U16), (''thread_id'', U16), (''numa_node'', U16),
     (''capabilities'', U32), (''clock_frequency'', U64), (''wakeup_vector'', U64),
     (''extra_argument'', U64)]"

definition struct_bbp_tag_smp :: fields where
  "struct_bbp_tag_smp =
    [(''header'', Struct struct_bbp_tag_header), (''cpu_count'', U32), (''bsp_id'', U32),
     (''flags'', U64)]"

definition struct_bbp_measurement :: fields where
  "struct_bbp_measurement =
    [(''pcr_index'', U32), (''algorithm'', U32), (''hash'', Arr 64 U8), (''hash_length'', U32),
     (''reserved'', U32), (''component_name'', Arr 64 U8)]"

definition struct_bbp_secure_boot_info :: fields where
  "struct_bbp_secure_boot_info =
    [(''mode'', U8), (''signature_verified'', U8), (''pk_present'', U8), (''kek_present'', U8),
     (''db_present'', U8), (''dbx_present'', U8), (''reserved'', U16)]"

definition struct_bbp_tag_security :: fields where
  "struct_bbp_tag_security =
    [(''header'', Struct struct_bbp_tag_header), (''tpm_base_address'', U64),
     (''tpm_version'', U16), (''tpm_interface'', U16), (''tpm_flags'', U32),
     (''secure_boot'', Struct struct_bbp_secure_boot_info), (''measurement_count'', U32),
     (''reserved0'', U32), (''measurements'', U64), (''public_key_count'', U32),
     (''reserved1'', U32), (''public_keys'', U64), (''entropy_size'', U32), (''reserved2'', U32),
     (''entropy_data'', U64), (''measurements_crc'', U64), (''public_keys_crc'', U64),
     (''entropy_crc'', U64)]"

definition struct_bbp_tag_acpi :: fields where
  "struct_bbp_tag_acpi =
    [(''header'', Struct struct_bbp_tag_header), (''rsdp_address'', U64),
     (''xsdt_address'', U64), (''oem_id'', U32), (''acpi_version'', U16), (''flags'', U16)]"

definition struct_bbp_module_entry :: fields where
  "struct_bbp_module_entry =
    [(''base_address'', U64), (''size'', U64), (''name'', Arr 64 U8), (''type'', U32),
     (''flags'', U32), (''metadata_size'', U32), (''reserved0'', U32), (''metadata'', U64),
     (''hash_algorithm'', U32), (''reserved1'', U32), (''hash'', Arr 64 U8)]"

definition struct_bbp_tag_modules :: fields where
  "struct_bbp_tag_modules =
    [(''header'', Struct struct_bbp_tag_header), (''module_count'', U32), (''reserved'', U32)]"

definition struct_bbp_tag_cmdline :: fields where
  "struct_bbp_tag_cmdline =
    [(''header'', Struct struct_bbp_tag_header), (''string'', U64), (''length'', U32),
     (''flags'', U32), (''string_crc'', U64)]"

definition struct_bbp_boot_phase :: fields where
  "struct_bbp_boot_phase =
    [(''name'', Arr 32 U8), (''start_ns'', U64), (''end_ns'', U64), (''peak_memory'', U64)]"

definition struct_bbp_tag_metrics :: fields where
  "struct_bbp_tag_metrics =
    [(''header'', Struct struct_bbp_tag_header), (''total_boot_time_ns'', U64),
     (''phase_count'', U32), (''flags'', U32), (''bytes_loaded'', U64),
     (''decompression_ratio'', U64), (''io_operations'', U32), (''pages_allocated'', U32)]"

definition struct_bbp_tag_devicetree :: fields where
  "struct_bbp_tag_devicetree =
    [(''header'', Struct struct_bbp_tag_header), (''dtb_address'', U64), (''dtb_size'', U32),
     (''flags'', U32), (''overlay_count'', U32), (''reserved'', U32), (''overlays'', U64),
     (''dtb_crc'', U64), (''overlays_crc'', U64)]"

definition struct_bbp_pcie_bar :: fields where
  "struct_bbp_pcie_bar =
    [(''base'', U64), (''size'', U64), (''flags'', U32), (''reserved'', U32)]"

definition struct_bbp_pcie_device :: fields where
  "struct_bbp_pcie_device =
    [(''segment'', U16), (''bus'', U8), (''device'', U8), (''function'', U8),
     (''reserved0'', U8), (''vendor_id'', U16), (''device_id'', U16), (''class_code'', Arr 3 U8),
     (''revision'', U8), (''reserved1'', U16), (''bar_count'', U32), (''reserved2'', U32),
     (''bars'', Arr 6 (Struct struct_bbp_pcie_bar))]"

definition struct_bbp_tag_pcie :: fields where
  "struct_bbp_tag_pcie =
    [(''header'', Struct struct_bbp_tag_header), (''ecam_base'', U64), (''device_count'', U32),
     (''flags'', U32)]"

definition struct_bbp_tag_efi :: fields where
  "struct_bbp_tag_efi =
    [(''header'', Struct struct_bbp_tag_header), (''system_table'', U64), (''memory_map'', U64),
     (''memory_map_size'', U32), (''descriptor_size'', U32), (''descriptor_version'', U32),
     (''reserved'', U32)]"

definition struct_bbp_tag_hypervisor :: fields where
  "struct_bbp_tag_hypervisor =
    [(''header'', Struct struct_bbp_tag_header), (''present'', U8), (''reserved0'', Arr 7 U8),
     (''vendor'', Arr 16 U8), (''max_leaf'', U32), (''reserved1'', U32)]"

definition struct_bbp_tag_smbios :: fields where
  "struct_bbp_tag_smbios =
    [(''header'', Struct struct_bbp_tag_header), (''entry_32bit'', U64), (''entry_64bit'', U64)]"

text \<open>Every structure of the header with the size its static assertion states.\<close>

definition abi_structs :: "(fields \<times> nat) list" where
  "abi_structs =
    [(struct_bbp_tag_request, 24),
     (struct_bbp_header, 160),
     (struct_bbp_info, 144),
     (struct_bbp_tag_header, 32),
     (struct_bbp_memory_entry, 32),
     (struct_bbp_tag_memory_map, 40),
     (struct_bbp_tag_hhdm, 40),
     (struct_bbp_tag_kernel_address, 48),
     (struct_bbp_display_info, 48),
     (struct_bbp_tag_framebuffer, 72),
     (struct_bbp_cpu_info, 48),
     (struct_bbp_tag_smp, 48),
     (struct_bbp_measurement, 144),
     (struct_bbp_secure_boot_info, 8),
     (struct_bbp_tag_security, 128),
     (struct_bbp_tag_acpi, 56),
     (struct_bbp_module_entry, 176),
     (struct_bbp_tag_modules, 40),
     (struct_bbp_tag_cmdline, 56),
     (struct_bbp_boot_phase, 56),
     (struct_bbp_tag_metrics, 72),
     (struct_bbp_tag_devicetree, 80),
     (struct_bbp_pcie_bar, 24),
     (struct_bbp_pcie_device, 168),
     (struct_bbp_tag_pcie, 48),
     (struct_bbp_tag_efi, 64),
     (struct_bbp_tag_hypervisor, 64),
     (struct_bbp_tag_smbios, 48)]"

section \<open>Evaluated sizes and offsets\<close>

lemma csize_bbp_tag_request [simp]:
  "sum_list (map (\<lambda>(_, t). csize t) struct_bbp_tag_request) = 24"
  by (simp add: struct_bbp_tag_request_def)

lemma csize_bbp_header [simp]:
  "sum_list (map (\<lambda>(_, t). csize t) struct_bbp_header) = 160"
  by (simp add: struct_bbp_header_def)

lemma csize_bbp_info [simp]:
  "sum_list (map (\<lambda>(_, t). csize t) struct_bbp_info) = 144"
  by (simp add: struct_bbp_info_def)

lemma csize_bbp_tag_header [simp]:
  "sum_list (map (\<lambda>(_, t). csize t) struct_bbp_tag_header) = 32"
  by (simp add: struct_bbp_tag_header_def)

lemma csize_bbp_memory_entry [simp]:
  "sum_list (map (\<lambda>(_, t). csize t) struct_bbp_memory_entry) = 32"
  by (simp add: struct_bbp_memory_entry_def)

lemma csize_bbp_tag_memory_map [simp]:
  "sum_list (map (\<lambda>(_, t). csize t) struct_bbp_tag_memory_map) = 40"
  by (simp add: struct_bbp_tag_memory_map_def)

lemma csize_bbp_tag_hhdm [simp]:
  "sum_list (map (\<lambda>(_, t). csize t) struct_bbp_tag_hhdm) = 40"
  by (simp add: struct_bbp_tag_hhdm_def)

lemma csize_bbp_tag_kernel_address [simp]:
  "sum_list (map (\<lambda>(_, t). csize t) struct_bbp_tag_kernel_address) = 48"
  by (simp add: struct_bbp_tag_kernel_address_def)

lemma csize_bbp_display_info [simp]:
  "sum_list (map (\<lambda>(_, t). csize t) struct_bbp_display_info) = 48"
  by (simp add: struct_bbp_display_info_def)

lemma csize_bbp_tag_framebuffer [simp]:
  "sum_list (map (\<lambda>(_, t). csize t) struct_bbp_tag_framebuffer) = 72"
  by (simp add: struct_bbp_tag_framebuffer_def)

lemma csize_bbp_cpu_info [simp]:
  "sum_list (map (\<lambda>(_, t). csize t) struct_bbp_cpu_info) = 48"
  by (simp add: struct_bbp_cpu_info_def)

lemma csize_bbp_tag_smp [simp]:
  "sum_list (map (\<lambda>(_, t). csize t) struct_bbp_tag_smp) = 48"
  by (simp add: struct_bbp_tag_smp_def)

lemma csize_bbp_measurement [simp]:
  "sum_list (map (\<lambda>(_, t). csize t) struct_bbp_measurement) = 144"
  by (simp add: struct_bbp_measurement_def)

lemma csize_bbp_secure_boot_info [simp]:
  "sum_list (map (\<lambda>(_, t). csize t) struct_bbp_secure_boot_info) = 8"
  by (simp add: struct_bbp_secure_boot_info_def)

lemma csize_bbp_tag_security [simp]:
  "sum_list (map (\<lambda>(_, t). csize t) struct_bbp_tag_security) = 128"
  by (simp add: struct_bbp_tag_security_def)

lemma csize_bbp_tag_acpi [simp]:
  "sum_list (map (\<lambda>(_, t). csize t) struct_bbp_tag_acpi) = 56"
  by (simp add: struct_bbp_tag_acpi_def)

lemma csize_bbp_module_entry [simp]:
  "sum_list (map (\<lambda>(_, t). csize t) struct_bbp_module_entry) = 176"
  by (simp add: struct_bbp_module_entry_def)

lemma csize_bbp_tag_modules [simp]:
  "sum_list (map (\<lambda>(_, t). csize t) struct_bbp_tag_modules) = 40"
  by (simp add: struct_bbp_tag_modules_def)

lemma csize_bbp_tag_cmdline [simp]:
  "sum_list (map (\<lambda>(_, t). csize t) struct_bbp_tag_cmdline) = 56"
  by (simp add: struct_bbp_tag_cmdline_def)

lemma csize_bbp_boot_phase [simp]:
  "sum_list (map (\<lambda>(_, t). csize t) struct_bbp_boot_phase) = 56"
  by (simp add: struct_bbp_boot_phase_def)

lemma csize_bbp_tag_metrics [simp]:
  "sum_list (map (\<lambda>(_, t). csize t) struct_bbp_tag_metrics) = 72"
  by (simp add: struct_bbp_tag_metrics_def)

lemma csize_bbp_tag_devicetree [simp]:
  "sum_list (map (\<lambda>(_, t). csize t) struct_bbp_tag_devicetree) = 80"
  by (simp add: struct_bbp_tag_devicetree_def)

lemma csize_bbp_pcie_bar [simp]:
  "sum_list (map (\<lambda>(_, t). csize t) struct_bbp_pcie_bar) = 24"
  by (simp add: struct_bbp_pcie_bar_def)

lemma csize_bbp_pcie_device [simp]:
  "sum_list (map (\<lambda>(_, t). csize t) struct_bbp_pcie_device) = 168"
  by (simp add: struct_bbp_pcie_device_def)

lemma csize_bbp_tag_pcie [simp]:
  "sum_list (map (\<lambda>(_, t). csize t) struct_bbp_tag_pcie) = 48"
  by (simp add: struct_bbp_tag_pcie_def)

lemma csize_bbp_tag_efi [simp]:
  "sum_list (map (\<lambda>(_, t). csize t) struct_bbp_tag_efi) = 64"
  by (simp add: struct_bbp_tag_efi_def)

lemma csize_bbp_tag_hypervisor [simp]:
  "sum_list (map (\<lambda>(_, t). csize t) struct_bbp_tag_hypervisor) = 64"
  by (simp add: struct_bbp_tag_hypervisor_def)

lemma csize_bbp_tag_smbios [simp]:
  "sum_list (map (\<lambda>(_, t). csize t) struct_bbp_tag_smbios) = 48"
  by (simp add: struct_bbp_tag_smbios_def)

lemma sizeof_simps [simp]:
  "sizeof struct_bbp_tag_request = 24"
  "sizeof struct_bbp_header = 160"
  "sizeof struct_bbp_info = 144"
  "sizeof struct_bbp_tag_header = 32"
  "sizeof struct_bbp_memory_entry = 32"
  "sizeof struct_bbp_tag_memory_map = 40"
  "sizeof struct_bbp_tag_hhdm = 40"
  "sizeof struct_bbp_tag_kernel_address = 48"
  "sizeof struct_bbp_display_info = 48"
  "sizeof struct_bbp_tag_framebuffer = 72"
  "sizeof struct_bbp_cpu_info = 48"
  "sizeof struct_bbp_tag_smp = 48"
  "sizeof struct_bbp_measurement = 144"
  "sizeof struct_bbp_secure_boot_info = 8"
  "sizeof struct_bbp_tag_security = 128"
  "sizeof struct_bbp_tag_acpi = 56"
  "sizeof struct_bbp_module_entry = 176"
  "sizeof struct_bbp_tag_modules = 40"
  "sizeof struct_bbp_tag_cmdline = 56"
  "sizeof struct_bbp_boot_phase = 56"
  "sizeof struct_bbp_tag_metrics = 72"
  "sizeof struct_bbp_tag_devicetree = 80"
  "sizeof struct_bbp_pcie_bar = 24"
  "sizeof struct_bbp_pcie_device = 168"
  "sizeof struct_bbp_tag_pcie = 48"
  "sizeof struct_bbp_tag_efi = 64"
  "sizeof struct_bbp_tag_hypervisor = 64"
  "sizeof struct_bbp_tag_smbios = 48"
  by (simp_all add: sizeof_def)

lemma off_bbp_tag_request [simp]:
  "off struct_bbp_tag_request ''tag_id'' = 0"
  "off struct_bbp_tag_request ''flags'' = 8"
  "off struct_bbp_tag_request ''reserved'' = 16"
  by (simp_all add: off_def struct_bbp_tag_request_def)

lemma off_bbp_header [simp]:
  "off struct_bbp_header ''magic'' = 0"
  "off struct_bbp_header ''version_major'' = 16"
  "off struct_bbp_header ''version_minor'' = 18"
  "off struct_bbp_header ''header_size'' = 20"
  "off struct_bbp_header ''flags'' = 24"
  "off struct_bbp_header ''entry_point'' = 32"
  "off struct_bbp_header ''paging_mode'' = 40"
  "off struct_bbp_header ''kernel_virtual_base'' = 48"
  "off struct_bbp_header ''request_count'' = 56"
  "off struct_bbp_header ''reserved0'' = 60"
  "off struct_bbp_header ''requests'' = 64"
  "off struct_bbp_header ''kernel_uuid'' = 72"
  "off struct_bbp_header ''kernel_name'' = 88"
  "off struct_bbp_header ''checksum'' = 152"
  by (simp_all add: off_def struct_bbp_header_def)

lemma off_bbp_info [simp]:
  "off struct_bbp_info ''magic'' = 0"
  "off struct_bbp_info ''version_major'' = 16"
  "off struct_bbp_info ''version_minor'' = 18"
  "off struct_bbp_info ''info_size'' = 20"
  "off struct_bbp_info ''bootloader_name'' = 24"
  "off struct_bbp_info ''bootloader_version'' = 56"
  "off struct_bbp_info ''bootloader_uuid'' = 72"
  "off struct_bbp_info ''bootloader_start_ts'' = 88"
  "off struct_bbp_info ''kernel_load_ts'' = 96"
  "off struct_bbp_info ''handoff_ts'' = 104"
  "off struct_bbp_info ''architecture'' = 112"
  "off struct_bbp_info ''cpu_count'' = 114"
  "off struct_bbp_info ''tag_count'' = 116"
  "off struct_bbp_info ''first_tag'' = 120"
  "off struct_bbp_info ''next_context'' = 128"
  "off struct_bbp_info ''checksum'' = 136"
  by (simp_all add: off_def struct_bbp_info_def)

lemma off_bbp_tag_header [simp]:
  "off struct_bbp_tag_header ''tag_id'' = 0"
  "off struct_bbp_tag_header ''tag_size'' = 8"
  "off struct_bbp_tag_header ''tag_version'' = 12"
  "off struct_bbp_tag_header ''flags'' = 14"
  "off struct_bbp_tag_header ''next_tag'' = 16"
  "off struct_bbp_tag_header ''checksum'' = 24"
  by (simp_all add: off_def struct_bbp_tag_header_def)

lemma off_bbp_memory_entry [simp]:
  "off struct_bbp_memory_entry ''base'' = 0"
  "off struct_bbp_memory_entry ''length'' = 8"
  "off struct_bbp_memory_entry ''type'' = 16"
  "off struct_bbp_memory_entry ''attributes'' = 20"
  "off struct_bbp_memory_entry ''numa_node'' = 24"
  "off struct_bbp_memory_entry ''reserved'' = 28"
  by (simp_all add: off_def struct_bbp_memory_entry_def)

lemma off_bbp_tag_memory_map [simp]:
  "off struct_bbp_tag_memory_map ''entry_count'' = 32"
  "off struct_bbp_tag_memory_map ''entry_size'' = 36"
  by (simp_all add: off_def struct_bbp_tag_memory_map_def)

lemma off_bbp_tag_hhdm [simp]:
  "off struct_bbp_tag_hhdm ''offset'' = 32"
  by (simp_all add: off_def struct_bbp_tag_hhdm_def)

lemma off_bbp_tag_kernel_address [simp]:
  "off struct_bbp_tag_kernel_address ''physical_base'' = 32"
  "off struct_bbp_tag_kernel_address ''virtual_base'' = 40"
  by (simp_all add: off_def struct_bbp_tag_kernel_address_def)

lemma off_bbp_display_info [simp]:
  "off struct_bbp_display_info ''width'' = 0"
  "off struct_bbp_display_info ''height'' = 2"
  "off struct_bbp_display_info ''refresh_rate'' = 4"
  "off struct_bbp_display_info ''color_depth'' = 6"
  "off struct_bbp_display_info ''pixel_format'' = 8"
  "off struct_bbp_display_info ''physical_width_mm'' = 12"
  "off struct_bbp_display_info ''physical_height_mm'' = 14"
  "off struct_bbp_display_info ''dpi_x'' = 16"
  "off struct_bbp_display_info ''dpi_y'' = 18"
  "off struct_bbp_display_info ''hdr_capabilities'' = 20"
  "off struct_bbp_display_info ''color_space'' = 22"
  "off struct_bbp_display_info ''max_luminance'' = 24"
  "off struct_bbp_display_info ''min_luminance'' = 25"
  "off struct_bbp_display_info ''reserved'' = 26"
  "off struct_bbp_display_info ''edid_size'' = 28"
  "off struct_bbp_display_info ''edid_data'' = 32"
  "off struct_bbp_display_info ''edid_crc'' = 40"
  by (simp_all add: off_def struct_bbp_display_info_def)

lemma off_bbp_tag_framebuffer [simp]:
  "off struct_bbp_tag_framebuffer ''address'' = 32"
  "off struct_bbp_tag_framebuffer ''display_count'' = 40"
  "off struct_bbp_tag_framebuffer ''flags'' = 42"
  "off struct_bbp_tag_framebuffer ''pitch'' = 44"
  "off struct_bbp_tag_framebuffer ''total_size'' = 48"
  "off struct_bbp_tag_framebuffer ''cursor_buffer'' = 56"
  "off struct_bbp_tag_framebuffer ''cursor_width'' = 64"
  "off struct_bbp_tag_framebuffer ''cursor_height'' = 68"
  by (simp_all add: off_def struct_bbp_tag_framebuffer_def)

lemma off_bbp_cpu_info [simp]:
  "off struct_bbp_cpu_info ''processor_id'' = 0"
  "off struct_bbp_cpu_info ''apic_id'' = 4"
  "off struct_bbp_cpu_info ''state'' = 8"
  "off struct_bbp_cpu_info ''flags'' = 10"
  "off struct_bbp_cpu_info ''package_id'' = 12"
  "off struct_bbp_cpu_info ''core_id'' = 14"
  "off struct_bbp_cpu_info ''thread_id'' = 16"
  "off struct_bbp_cpu_info ''numa_node'' = 18"
  "off struct_bbp_cpu_info ''capabilities'' = 20"
  "off struct_bbp_cpu_info ''clock_frequency'' = 24"
  "off struct_bbp_cpu_info ''wakeup_vector'' = 32"
  "off struct_bbp_cpu_info ''extra_argument'' = 40"
  by (simp_all add: off_def struct_bbp_cpu_info_def)

lemma off_bbp_tag_smp [simp]:
  "off struct_bbp_tag_smp ''cpu_count'' = 32"
  "off struct_bbp_tag_smp ''bsp_id'' = 36"
  "off struct_bbp_tag_smp ''flags'' = 40"
  by (simp_all add: off_def struct_bbp_tag_smp_def)

lemma off_bbp_measurement [simp]:
  "off struct_bbp_measurement ''pcr_index'' = 0"
  "off struct_bbp_measurement ''algorithm'' = 4"
  "off struct_bbp_measurement ''hash'' = 8"
  "off struct_bbp_measurement ''hash_length'' = 72"
  "off struct_bbp_measurement ''reserved'' = 76"
  "off struct_bbp_measurement ''component_name'' = 80"
  by (simp_all add: off_def struct_bbp_measurement_def)

lemma off_bbp_secure_boot_info [simp]:
  "off struct_bbp_secure_boot_info ''mode'' = 0"
  "off struct_bbp_secure_boot_info ''signature_verified'' = 1"
  "off struct_bbp_secure_boot_info ''pk_present'' = 2"
  "off struct_bbp_secure_boot_info ''kek_present'' = 3"
  "off struct_bbp_secure_boot_info ''db_present'' = 4"
  "off struct_bbp_secure_boot_info ''dbx_present'' = 5"
  "off struct_bbp_secure_boot_info ''reserved'' = 6"
  by (simp_all add: off_def struct_bbp_secure_boot_info_def)

lemma off_bbp_tag_security [simp]:
  "off struct_bbp_tag_security ''tpm_base_address'' = 32"
  "off struct_bbp_tag_security ''tpm_version'' = 40"
  "off struct_bbp_tag_security ''tpm_interface'' = 42"
  "off struct_bbp_tag_security ''tpm_flags'' = 44"
  "off struct_bbp_tag_security ''secure_boot'' = 48"
  "off struct_bbp_tag_security ''measurement_count'' = 56"
  "off struct_bbp_tag_security ''reserved0'' = 60"
  "off struct_bbp_tag_security ''measurements'' = 64"
  "off struct_bbp_tag_security ''public_key_count'' = 72"
  "off struct_bbp_tag_security ''reserved1'' = 76"
  "off struct_bbp_tag_security ''public_keys'' = 80"
  "off struct_bbp_tag_security ''entropy_size'' = 88"
  "off struct_bbp_tag_security ''reserved2'' = 92"
  "off struct_bbp_tag_security ''entropy_data'' = 96"
  "off struct_bbp_tag_security ''measurements_crc'' = 104"
  "off struct_bbp_tag_security ''public_keys_crc'' = 112"
  "off struct_bbp_tag_security ''entropy_crc'' = 120"
  by (simp_all add: off_def struct_bbp_tag_security_def)

lemma off_bbp_tag_acpi [simp]:
  "off struct_bbp_tag_acpi ''rsdp_address'' = 32"
  "off struct_bbp_tag_acpi ''xsdt_address'' = 40"
  "off struct_bbp_tag_acpi ''oem_id'' = 48"
  "off struct_bbp_tag_acpi ''acpi_version'' = 52"
  "off struct_bbp_tag_acpi ''flags'' = 54"
  by (simp_all add: off_def struct_bbp_tag_acpi_def)

lemma off_bbp_module_entry [simp]:
  "off struct_bbp_module_entry ''base_address'' = 0"
  "off struct_bbp_module_entry ''size'' = 8"
  "off struct_bbp_module_entry ''name'' = 16"
  "off struct_bbp_module_entry ''type'' = 80"
  "off struct_bbp_module_entry ''flags'' = 84"
  "off struct_bbp_module_entry ''metadata_size'' = 88"
  "off struct_bbp_module_entry ''reserved0'' = 92"
  "off struct_bbp_module_entry ''metadata'' = 96"
  "off struct_bbp_module_entry ''hash_algorithm'' = 104"
  "off struct_bbp_module_entry ''reserved1'' = 108"
  "off struct_bbp_module_entry ''hash'' = 112"
  by (simp_all add: off_def struct_bbp_module_entry_def)

lemma off_bbp_tag_modules [simp]:
  "off struct_bbp_tag_modules ''module_count'' = 32"
  "off struct_bbp_tag_modules ''reserved'' = 36"
  by (simp_all add: off_def struct_bbp_tag_modules_def)

lemma off_bbp_tag_cmdline [simp]:
  "off struct_bbp_tag_cmdline ''string'' = 32"
  "off struct_bbp_tag_cmdline ''length'' = 40"
  "off struct_bbp_tag_cmdline ''flags'' = 44"
  "off struct_bbp_tag_cmdline ''string_crc'' = 48"
  by (simp_all add: off_def struct_bbp_tag_cmdline_def)

lemma off_bbp_boot_phase [simp]:
  "off struct_bbp_boot_phase ''name'' = 0"
  "off struct_bbp_boot_phase ''start_ns'' = 32"
  "off struct_bbp_boot_phase ''end_ns'' = 40"
  "off struct_bbp_boot_phase ''peak_memory'' = 48"
  by (simp_all add: off_def struct_bbp_boot_phase_def)

lemma off_bbp_tag_metrics [simp]:
  "off struct_bbp_tag_metrics ''total_boot_time_ns'' = 32"
  "off struct_bbp_tag_metrics ''phase_count'' = 40"
  "off struct_bbp_tag_metrics ''flags'' = 44"
  "off struct_bbp_tag_metrics ''bytes_loaded'' = 48"
  "off struct_bbp_tag_metrics ''decompression_ratio'' = 56"
  "off struct_bbp_tag_metrics ''io_operations'' = 64"
  "off struct_bbp_tag_metrics ''pages_allocated'' = 68"
  by (simp_all add: off_def struct_bbp_tag_metrics_def)

lemma off_bbp_tag_devicetree [simp]:
  "off struct_bbp_tag_devicetree ''dtb_address'' = 32"
  "off struct_bbp_tag_devicetree ''dtb_size'' = 40"
  "off struct_bbp_tag_devicetree ''flags'' = 44"
  "off struct_bbp_tag_devicetree ''overlay_count'' = 48"
  "off struct_bbp_tag_devicetree ''reserved'' = 52"
  "off struct_bbp_tag_devicetree ''overlays'' = 56"
  "off struct_bbp_tag_devicetree ''dtb_crc'' = 64"
  "off struct_bbp_tag_devicetree ''overlays_crc'' = 72"
  by (simp_all add: off_def struct_bbp_tag_devicetree_def)

lemma off_bbp_pcie_bar [simp]:
  "off struct_bbp_pcie_bar ''base'' = 0"
  "off struct_bbp_pcie_bar ''size'' = 8"
  "off struct_bbp_pcie_bar ''flags'' = 16"
  "off struct_bbp_pcie_bar ''reserved'' = 20"
  by (simp_all add: off_def struct_bbp_pcie_bar_def)

lemma off_bbp_pcie_device [simp]:
  "off struct_bbp_pcie_device ''segment'' = 0"
  "off struct_bbp_pcie_device ''bus'' = 2"
  "off struct_bbp_pcie_device ''device'' = 3"
  "off struct_bbp_pcie_device ''function'' = 4"
  "off struct_bbp_pcie_device ''reserved0'' = 5"
  "off struct_bbp_pcie_device ''vendor_id'' = 6"
  "off struct_bbp_pcie_device ''device_id'' = 8"
  "off struct_bbp_pcie_device ''class_code'' = 10"
  "off struct_bbp_pcie_device ''revision'' = 13"
  "off struct_bbp_pcie_device ''reserved1'' = 14"
  "off struct_bbp_pcie_device ''bar_count'' = 16"
  "off struct_bbp_pcie_device ''reserved2'' = 20"
  "off struct_bbp_pcie_device ''bars'' = 24"
  by (simp_all add: off_def struct_bbp_pcie_device_def)

lemma off_bbp_tag_pcie [simp]:
  "off struct_bbp_tag_pcie ''ecam_base'' = 32"
  "off struct_bbp_tag_pcie ''device_count'' = 40"
  "off struct_bbp_tag_pcie ''flags'' = 44"
  by (simp_all add: off_def struct_bbp_tag_pcie_def)

lemma off_bbp_tag_efi [simp]:
  "off struct_bbp_tag_efi ''system_table'' = 32"
  "off struct_bbp_tag_efi ''memory_map'' = 40"
  "off struct_bbp_tag_efi ''memory_map_size'' = 48"
  "off struct_bbp_tag_efi ''descriptor_size'' = 52"
  "off struct_bbp_tag_efi ''descriptor_version'' = 56"
  "off struct_bbp_tag_efi ''reserved'' = 60"
  by (simp_all add: off_def struct_bbp_tag_efi_def)

lemma off_bbp_tag_hypervisor [simp]:
  "off struct_bbp_tag_hypervisor ''present'' = 32"
  "off struct_bbp_tag_hypervisor ''reserved0'' = 33"
  "off struct_bbp_tag_hypervisor ''vendor'' = 40"
  "off struct_bbp_tag_hypervisor ''max_leaf'' = 56"
  "off struct_bbp_tag_hypervisor ''reserved1'' = 60"
  by (simp_all add: off_def struct_bbp_tag_hypervisor_def)

lemma off_bbp_tag_smbios [simp]:
  "off struct_bbp_tag_smbios ''entry_32bit'' = 32"
  "off struct_bbp_tag_smbios ''entry_64bit'' = 40"
  by (simp_all add: off_def struct_bbp_tag_smbios_def)

end
