(* ===== verification/Bbp_Kernel.thy ===== *)
theory Bbp_Kernel
  imports Abi Crc64
begin

text \<open>
  The consumer side, \<open>kernel/bbp_kernel.c\<close> and the inline accessors of
  \<open>kernel/bbp_kernel.h\<close>. The parser reads untrusted bytes from memory; a result
  \<^term>\<open>None\<close> is a fault (an access to an unmapped byte). A pointer to a wire structure is a
  virtual address with 0 as NULL; a pointer to the caller's context is an option with
  \<^term>\<open>None\<close> as NULL.
\<close>

section \<open>Definitions\<close>

datatype bbp_status =
    BBP_OK | BBP_ERR_NULL | BBP_ERR_MAGIC | BBP_ERR_VERSION | BBP_ERR_SIZE
  | BBP_ERR_CHECKSUM | BBP_ERR_TAG_CHECKSUM

record bbp_kctx =
  info :: u64
  hhdm_offset :: u64
  verify_tag_crc :: bool
  walk_lo :: u64
  walk_hi :: u64

definition bbp_phys_to_virt :: "bbp_kctx \<Rightarrow> u64 \<Rightarrow> u64" where
  "bbp_phys_to_virt k p = (if p = 0 then 0 else p + hhdm_offset k)"

definition bbp_header_magic :: "u8 list" where
  "bbp_header_magic = char_array BBP_MAGIC_LEN BBP_HEADER_MAGIC"

definition bbp_info_magic :: "u8 list" where
  "bbp_info_magic = char_array BBP_MAGIC_LEN BBP_INFO_MAGIC"

text \<open>The second operand is always a constant array, so it is a list.\<close>

fun bbp_memcmp :: "mem \<Rightarrow> u64 \<Rightarrow> u8 list \<Rightarrow> int option" where
  "bbp_memcmp m x [] = Some 0"
| "bbp_memcmp m x (y # ys) =
     do {
       v \<leftarrow> m x;
       if v \<noteq> y then Some (int (unat v) - int (unat y)) else bbp_memcmp m (x + 1) ys
     }"

definition bbp_crc_skip :: "mem \<Rightarrow> u64 \<Rightarrow> u64 \<Rightarrow> u64 \<Rightarrow> u64 option" where
  "bbp_crc_skip m base len off1 =
     (if len < off1 + 8 then Some (NOT 0)
      else do {
        p \<leftarrow> load m base (unat off1);
        s \<leftarrow> load m (base + off1 + 8) (unat (len - off1 - 8));
        let c = bbp_crc64_init;
            c = bbp_crc64_update c p;
            c = bbp_crc64_update c (replicate 8 0);
            c = bbp_crc64_update c s
        in Some (bbp_crc64_final c)
      })"

definition BBP_MAX_TAGS :: nat where "BBP_MAX_TAGS = 1024"

definition bbp_tag_len_ok :: "mem \<Rightarrow> u64 \<Rightarrow> bool option" where
  "bbp_tag_len_ok m tag =
     do {
       sz \<leftarrow> ld32 m (tag + off struct_bbp_tag_header ''tag_size'');
       Some (ucast sz \<ge> sizeof struct_bbp_tag_header \<and> sz \<le> 16 * 1024 * 1024)
     }"

definition bbp_tag_ptr_ok :: "u64 \<Rightarrow> bool" where
  "bbp_tag_ptr_ok p \<longleftrightarrow> p \<noteq> 0 \<and> p AND 7 = 0"

definition BBP_MAX_PHYS :: u64 where "BBP_MAX_PHYS = push_bit 48 1"

definition bbp_address_region_ok :: "bbp_kctx \<Rightarrow> u64 \<Rightarrow> u64 \<Rightarrow> bool" where
  "bbp_address_region_ok k phys len =
     (if phys = 0 \<or> len = 0 then False
      else if len > BBP_MAX_PHYS then False
      else if phys > BBP_MAX_PHYS - len then False
      else let base = phys; off1 = hhdm_offset k in
        if base > - 1 - off1 then False
        else let v = base + off1 in
          if v > - 1 - len then False else True)"

definition bbp_tag_region_ok :: "bbp_kctx \<Rightarrow> u64 \<Rightarrow> u64 \<Rightarrow> bool" where
  "bbp_tag_region_ok k phys len =
     (if \<not> bbp_address_region_ok k phys len then False
      else if walk_hi k > walk_lo k
        then if phys < walk_lo k \<or> phys \<ge> walk_hi k then False
             else if len > walk_hi k - phys then False else True
        else True)"

definition bbp_verify_header :: "mem \<Rightarrow> u64 \<Rightarrow> bbp_status option" where
  "bbp_verify_header m hdr =
     (if hdr = 0 then Some BBP_ERR_NULL
      else do {
        c \<leftarrow> bbp_memcmp m (hdr + off struct_bbp_header ''magic'') bbp_header_magic;
        if c \<noteq> 0 then Some BBP_ERR_MAGIC
        else do {
          ver \<leftarrow> ld16 m (hdr + off struct_bbp_header ''version_major'');
          if ver \<noteq> BBP_VERSION_MAJOR then Some BBP_ERR_VERSION
          else do {
            hsz \<leftarrow> ld32 m (hdr + off struct_bbp_header ''header_size'');
            if ucast hsz \<noteq> sizeof struct_bbp_header then Some BBP_ERR_SIZE
            else do {
              got \<leftarrow> bbp_crc_skip m hdr (sizeof struct_bbp_header)
                       (off struct_bbp_header ''checksum'');
              want \<leftarrow> ld64 m (hdr + off struct_bbp_header ''checksum'');
              if got \<noteq> want then Some BBP_ERR_CHECKSUM else Some BBP_OK
            }
          }
        }
      })"

definition BBP_MAX_BLOB :: u64 where "BBP_MAX_BLOB = 64 * 1024 * 1024"

definition bbp_verify_blob ::
  "mem \<Rightarrow> bbp_kctx option \<Rightarrow> u64 \<Rightarrow> u64 \<Rightarrow> u64 \<Rightarrow> bool \<Rightarrow> bbp_status option" where
  "bbp_verify_blob m kp phys len expected_crc allow_unchecked =
     (case kp of
        None \<Rightarrow> Some BBP_ERR_NULL
      | Some k \<Rightarrow>
          if phys = 0 \<or> len = 0 then Some BBP_ERR_NULL
          else if len > BBP_MAX_BLOB then Some BBP_ERR_SIZE
          else if \<not> bbp_address_region_ok k phys len then Some BBP_ERR_SIZE
          else if expected_crc = 0
            then Some (if allow_unchecked then BBP_OK else BBP_ERR_TAG_CHECKSUM)
          else do {
            p \<leftarrow> load m (bbp_phys_to_virt k phys) (unat len);
            Some (if bbp_crc64 p = expected_crc then BBP_OK else BBP_ERR_TAG_CHECKSUM)
          })"

subsection \<open>The tag walk\<close>

text \<open>
  \<open>Some None\<close> is the return value 0 (stop the walk), \<open>Some (Some tag)\<close> the return value 1
  with the pointer stored through \<open>out_tag\<close>.
\<close>

definition bbp_tag_at :: "mem \<Rightarrow> bbp_kctx \<Rightarrow> u64 \<Rightarrow> u64 option option" where
  "bbp_tag_at m k cur =
     (if \<not> bbp_tag_ptr_ok cur then Some None
      else if \<not> bbp_tag_region_ok k cur (sizeof struct_bbp_tag_header) then Some None
      else let tag = bbp_phys_to_virt k cur in do {
        ok \<leftarrow> bbp_tag_len_ok m tag;
        if \<not> ok then Some None
        else do {
          sz \<leftarrow> ld32 m (tag + off struct_bbp_tag_header ''tag_size'');
          if \<not> bbp_tag_region_ok k cur (ucast sz) then Some None
          else Some (Some tag)
        }
      })"

definition bbp_tag_crc_ok :: "mem \<Rightarrow> u64 \<Rightarrow> bool option" where
  "bbp_tag_crc_ok m tag =
     do {
       sz \<leftarrow> ld32 m (tag + off struct_bbp_tag_header ''tag_size'');
       got \<leftarrow> bbp_crc_skip m tag (ucast sz) (off struct_bbp_tag_header ''checksum'');
       want \<leftarrow> ld64 m (tag + off struct_bbp_tag_header ''checksum'');
       Some (got = want)
     }"

text \<open>
  The loops take the number of steps they may still make, \<open>BBP_MAX_TAGS - steps\<close>. The C
  condition \<open>verify_tag_crc && !crc_ok\<close> does not touch the tag when verification is off.
\<close>

definition tag_crc_bad :: "mem \<Rightarrow> bbp_kctx \<Rightarrow> u64 \<Rightarrow> bool option" where
  "tag_crc_bad m k tag =
     (if verify_tag_crc k then map_option Not (bbp_tag_crc_ok m tag) else Some False)"

fun find_loop :: "mem \<Rightarrow> bbp_kctx \<Rightarrow> u64 \<Rightarrow> u64 \<Rightarrow> nat \<Rightarrow> u64 option" where
  "find_loop m k tag_id cur 0 = Some 0"
| "find_loop m k tag_id cur (Suc n) =
     (if cur = 0 then Some 0
      else do {
        r \<leftarrow> bbp_tag_at m k cur;
        case r of
          None \<Rightarrow> Some 0
        | Some tag \<Rightarrow> do {
            i \<leftarrow> ld64 m (tag + off struct_bbp_tag_header ''tag_id'');
            if i = tag_id
            then do {
              bad \<leftarrow> tag_crc_bad m k tag;
              if bad
              then do {
                nx \<leftarrow> ld64 m (tag + off struct_bbp_tag_header ''next_tag'');
                find_loop m k tag_id nx n
              }
              else Some tag
            }
            else do {
              nx \<leftarrow> ld64 m (tag + off struct_bbp_tag_header ''next_tag'');
              find_loop m k tag_id nx n
            }
          }
      })"

definition bbp_find_tag :: "mem \<Rightarrow> bbp_kctx option \<Rightarrow> u64 \<Rightarrow> u64 option" where
  "bbp_find_tag m kp tag_id =
     (case kp of
        None \<Rightarrow> Some 0
      | Some k \<Rightarrow>
          if info k = 0 then Some 0
          else do {
            cur \<leftarrow> ld64 m (info k + off struct_bbp_info ''first_tag'');
            find_loop m k tag_id cur BBP_MAX_TAGS
          })"

text \<open>
  A callback takes the tag and the user state and returns whether to stop and the new state;
  it may read memory and so may fault.
\<close>

type_synonym 'u bbp_tag_cb = "u64 \<Rightarrow> 'u \<Rightarrow> (bool \<times> 'u) option"

fun for_each_loop ::
  "mem \<Rightarrow> bbp_kctx \<Rightarrow> 'u bbp_tag_cb \<Rightarrow> u64 \<Rightarrow> nat \<Rightarrow> u32 \<Rightarrow> 'u \<Rightarrow> (u32 \<times> 'u) option" where
  "for_each_loop m k cb cur 0 cnt user = Some (cnt, user)"
| "for_each_loop m k cb cur (Suc n) cnt user =
     (if cur = 0 then Some (cnt, user)
      else do {
        r \<leftarrow> bbp_tag_at m k cur;
        case r of
          None \<Rightarrow> Some (cnt, user)
        | Some tag \<Rightarrow> do {
            bad \<leftarrow> tag_crc_bad m k tag;
            if bad
            then do {
              nx \<leftarrow> ld64 m (tag + off struct_bbp_tag_header ''next_tag'');
              for_each_loop m k cb nx n cnt user
            }
            else do {
              (stop, user') \<leftarrow> cb tag user;
              if stop then Some (cnt + 1, user')
              else do {
                nx \<leftarrow> ld64 m (tag + off struct_bbp_tag_header ''next_tag'');
                for_each_loop m k cb nx n (cnt + 1) user'
              }
            }
          }
      })"

definition bbp_for_each_tag ::
  "mem \<Rightarrow> bbp_kctx option \<Rightarrow> 'u bbp_tag_cb option \<Rightarrow> 'u \<Rightarrow> (u32 \<times> 'u) option" where
  "bbp_for_each_tag m kp cbp user =
     (case (kp, cbp) of
        (Some k, Some cb) \<Rightarrow>
          if info k = 0 then Some (0, user)
          else do {
            cur \<leftarrow> ld64 m (info k + off struct_bbp_info ''first_tag'');
            for_each_loop m k cb cur BBP_MAX_TAGS 0 user
          }
      | _ \<Rightarrow> Some (0, user))"

subsection \<open>Boot evidence\<close>

definition bbp_evidence_cb :: "mem \<Rightarrow> ('s \<Rightarrow> u8 list \<Rightarrow> 's) \<Rightarrow> 's bbp_tag_cb" where
  "bbp_evidence_cb m update tag state =
     do {
       sz \<leftarrow> ld32 m (tag + off struct_bbp_tag_header ''tag_size'');
       p \<leftarrow> load m tag (unat sz);
       Some (False, update state p)
     }"

definition evidence_domain :: "u8 list" where
  "evidence_domain = ascii ''BBP-EVIDENCE'' @ [0, 1, 0, 0]"

definition bbp_evidence ::
  "mem \<Rightarrow> bbp_kctx option \<Rightarrow> ('s \<Rightarrow> u8 list \<Rightarrow> 's) option \<Rightarrow> 's \<Rightarrow> (u32 \<times> 's) option" where
  "bbp_evidence m kp updp state =
     (case (kp, updp) of
        (Some k, Some update) \<Rightarrow>
          if info k = 0 then Some (0, state)
          else do {
            let state = update state evidence_domain;
            p \<leftarrow> load m (info k) (unat (sizeof struct_bbp_info));
            let state = update state p;
            bbp_for_each_tag m kp (Some (bbp_evidence_cb m update)) state
          }
      | _ \<Rightarrow> Some (0, state))"

subsection \<open>Initialisation\<close>

definition bbp_init_win ::
  "mem \<Rightarrow> bbp_kctx option \<Rightarrow> u64 \<Rightarrow> u64 \<Rightarrow> u64 \<Rightarrow> u64 \<Rightarrow> (bbp_status \<times> bbp_kctx option) option" where
  "bbp_init_win m out ip hhdm_hint lo hi =
     (if out = None \<or> ip = 0 then Some (BBP_ERR_NULL, out)
      else let k = \<lparr>info = ip, hhdm_offset = hhdm_hint, verify_tag_crc = True,
                    walk_lo = lo, walk_hi = hi\<rparr> in do {
        c \<leftarrow> bbp_memcmp m (ip + off struct_bbp_info ''magic'') bbp_info_magic;
        if c \<noteq> 0 then Some (BBP_ERR_MAGIC, Some k)
        else do {
          ver \<leftarrow> ld16 m (ip + off struct_bbp_info ''version_major'');
          if ver \<noteq> BBP_VERSION_MAJOR then Some (BBP_ERR_VERSION, Some k)
          else do {
            isz \<leftarrow> ld32 m (ip + off struct_bbp_info ''info_size'');
            if ucast isz < sizeof struct_bbp_info \<or> isz > 64 * 1024 * 1024
            then Some (BBP_ERR_SIZE, Some k)
            else do {
              want \<leftarrow> ld64 m (ip + off struct_bbp_info ''checksum'');
              got \<leftarrow> bbp_crc_skip m ip (sizeof struct_bbp_info) (off struct_bbp_info ''checksum'');
              if want \<noteq> got then Some (BBP_ERR_CHECKSUM, Some k)
              else do {
                t \<leftarrow> bbp_find_tag m (Some k) BBP_TAG_HHDM;
                if hhdm_hint = 0 \<and> t \<noteq> 0
                then do {
                  sz \<leftarrow> ld32 m (t + off struct_bbp_tag_header ''tag_size'');
                  if ucast sz \<ge> sizeof struct_bbp_tag_hhdm
                  then do {
                    h \<leftarrow> ld64 m (t + off struct_bbp_tag_hhdm ''offset'');
                    Some (BBP_OK, Some (k\<lparr>hhdm_offset := h\<rparr>))
                  }
                  else Some (BBP_OK, Some k)
                }
                else Some (BBP_OK, Some k)
              }
            }
          }
        }
      })"

definition bbp_init_ex ::
  "mem \<Rightarrow> bbp_kctx option \<Rightarrow> u64 \<Rightarrow> u64 \<Rightarrow> (bbp_status \<times> bbp_kctx option) option" where
  "bbp_init_ex m out ip hhdm_hint = bbp_init_win m out ip hhdm_hint 0 0"

text \<open>\<open>SIZE_MAX\<close> exceeds \<open>2\<^sup>48\<close> on every 64-bit target, so the conditional test is compiled in.
  The candidate is a fresh local object, here with arbitrary initial contents \<open>uninit\<close>.\<close>

definition bbp_init_bounded ::
  "mem \<Rightarrow> bbp_kctx option \<Rightarrow> u64 \<Rightarrow> u64 \<Rightarrow> u64 \<Rightarrow> u64 \<Rightarrow> bbp_kctx
     \<Rightarrow> (bbp_status \<times> bbp_kctx option) option" where
  "bbp_init_bounded m out ip hhdm_hint arena_phys arena_bytes uninit =
     (if out = None \<or> ip = 0 then Some (BBP_ERR_NULL, out)
      else if arena_phys = 0 \<or> arena_bytes = 0 then Some (BBP_ERR_SIZE, out)
      else if arena_bytes > BBP_MAX_PHYS then Some (BBP_ERR_SIZE, out)
      else if arena_phys > BBP_MAX_PHYS - arena_bytes then Some (BBP_ERR_SIZE, out)
      else do {
        (st, candidate) \<leftarrow> bbp_init_win m (Some uninit) ip hhdm_hint arena_phys
                              (arena_phys + arena_bytes);
        Some (st, if st = BBP_OK then candidate else out)
      })"

definition bbp_init ::
  "mem \<Rightarrow> bbp_kctx option \<Rightarrow> u64 \<Rightarrow> (bbp_status \<times> bbp_kctx option) option" where
  "bbp_init m out ip = bbp_init_ex m out ip 0"

definition bbp_set_walk_window ::
  "bbp_kctx option \<Rightarrow> u64 \<Rightarrow> u64 \<Rightarrow> bbp_status \<times> bbp_kctx option" where
  "bbp_set_walk_window kp lo hi =
     (case kp of
        None \<Rightarrow> (BBP_ERR_NULL, None)
      | Some k \<Rightarrow> (BBP_OK, Some (k\<lparr>walk_lo := lo, walk_hi := hi\<rparr>)))"

subsection \<open>Accessors\<close>

definition bbp_tag_payload :: "u64 \<Rightarrow> u64 \<Rightarrow> u64" where
  "bbp_tag_payload tag fixed_size = tag + fixed_size"

text \<open>The returned pair is the array base and the value stored through \<open>out_count\<close>.\<close>

definition bbp_tag_array ::
  "mem \<Rightarrow> u64 \<Rightarrow> u64 \<Rightarrow> u64 \<Rightarrow> u32 \<Rightarrow> (u64 \<times> u32) option" where
  "bbp_tag_array m tag fixed_size elem_size claimed =
     do {
       fit \<leftarrow> (if elem_size \<noteq> 0
         then do {
           sz \<leftarrow> ld32 m (tag + off struct_bbp_tag_header ''tag_size'');
           if ucast sz > fixed_size
           then let room = ucast sz - fixed_size;
                    n = room div elem_size
                in Some (if n > 0xFFFFFFFF then 0xFFFFFFFF else ucast n)
           else Some 0
         }
         else Some 0);
       Some (tag + fixed_size, if claimed < fit then claimed else fit)
     }"

fun bbp_strstatus :: "bbp_status \<Rightarrow> string" where
  "bbp_strstatus BBP_OK = ''ok''"
| "bbp_strstatus BBP_ERR_NULL = ''null info pointer''"
| "bbp_strstatus BBP_ERR_MAGIC = ''bad magic (not BEAR_INFO/BEAR_BOOT)''"
| "bbp_strstatus BBP_ERR_VERSION = ''incompatible protocol major version''"
| "bbp_strstatus BBP_ERR_SIZE = ''implausible info_size''"
| "bbp_strstatus BBP_ERR_CHECKSUM = ''info CRC64 mismatch''"
| "bbp_strstatus BBP_ERR_TAG_CHECKSUM = ''tag CRC64 mismatch''"

section \<open>Regions\<close>

text \<open>What the consumer must guarantee: the walk window is not empty and is mapped at the
  direct-map offset.\<close>

definition window_mapped :: "mem \<Rightarrow> bbp_kctx \<Rightarrow> bool" where
  "window_mapped m k \<longleftrightarrow> walk_lo k < walk_hi k \<and>
     mapped m (walk_lo k + hhdm_offset k) (unat (walk_hi k - walk_lo k))"

lemma unat_BBP_MAX_PHYS: "unat BBP_MAX_PHYS = 2 ^ 48"
  by (simp add: BBP_MAX_PHYS_def)

lemma bbp_address_region_ok_iff:
  "bbp_address_region_ok k phys len \<longleftrightarrow>
     0 < unat phys \<and> 0 < unat len \<and> unat phys + unat len \<le> 2 ^ 48 \<and>
     unat phys + unat (hhdm_offset k) + unat len < 2 ^ 64"
proof -
  let ?h = "hhdm_offset k"
  have 1: "\<not> BBP_MAX_PHYS < len \<and> \<not> BBP_MAX_PHYS - len < phys \<longleftrightarrow> unat phys + unat len \<le> 2 ^ 48"
  proof (cases "BBP_MAX_PHYS < len")
    case False
    then show ?thesis
      using unat_BBP_MAX_PHYS
      by (auto simp: word_less_nat_alt unat_diff_u64 word_le_nat_alt not_less)
  qed (use unat_BBP_MAX_PHYS in \<open>auto simp: word_less_nat_alt\<close>)
  have "\<not> - 1 - ?h < phys \<and> \<not> - 1 - len < phys + ?h \<longleftrightarrow> unat phys + unat ?h + unat len < 2 ^ 64"
    using unat_add_u64 [of phys ?h] unfolding unat_le_max_minus by auto
  with 1 show ?thesis
    by (auto simp: bbp_address_region_ok_def Let_def unat_gt_0)
qed

lemma bbp_tag_region_ok_iff:
  "bbp_tag_region_ok k phys len \<longleftrightarrow> bbp_address_region_ok k phys len \<and>
     (walk_lo k < walk_hi k \<longrightarrow>
        unat (walk_lo k) \<le> unat phys \<and> unat phys + unat len \<le> unat (walk_hi k))"
proof (cases "phys < walk_hi k")
  case True
  then show ?thesis
    by (auto simp: bbp_tag_region_ok_def word_nat_simps unat_diff_u64 bbp_address_region_ok_iff)
qed (auto simp: bbp_tag_region_ok_def word_nat_simps bbp_address_region_ok_iff)

lemma tag_region_mono:
  assumes "bbp_tag_region_ok k phys len" "unat len' \<le> unat len" "0 < unat len'"
  shows "bbp_tag_region_ok k phys len'"
  using assms by (auto simp: bbp_tag_region_ok_iff bbp_address_region_ok_iff)

lemma tag_region_mapped:
  assumes "window_mapped m k" "bbp_tag_region_ok k phys len"
  shows "mapped m (bbp_phys_to_virt k phys) (unat len)"
proof -
  have le: "unat (walk_lo k) \<le> unat phys" "unat phys + unat len \<le> unat (walk_hi k)"
    and "walk_lo k < walk_hi k" and nz: "phys \<noteq> 0"
    using assms by (auto simp: window_mapped_def bbp_tag_region_ok_iff bbp_address_region_ok_iff)
  then have "unat (walk_hi k - walk_lo k) = unat (walk_hi k) - unat (walk_lo k)"
    by (simp add: unat_diff_u64)
  then have "mapped m (walk_lo k + hhdm_offset k + of_nat (unat phys - unat (walk_lo k))) (unat len)"
    using assms(1) le by (intro mapped_sub) (auto simp: window_mapped_def)
  moreover have "of_nat (unat phys - unat (walk_lo k)) = phys - walk_lo k"
    using le by (simp add: of_nat_diff)
  ultimately show ?thesis
    using nz by (simp add: bbp_phys_to_virt_def algebra_simps)
qed

section \<open>One tag\<close>

text \<open>A structurally valid tag: the pointer at \<open>cur\<close> is aligned, its size field is \<open>sz\<close>, and
  all \<open>sz\<close> bytes are inside the window.\<close>

definition tag_ok :: "mem \<Rightarrow> bbp_kctx \<Rightarrow> u64 \<Rightarrow> u64 \<Rightarrow> u32 \<Rightarrow> bool" where
  "tag_ok m k cur tag sz \<longleftrightarrow>
     tag = cur + hhdm_offset k \<and> cur \<noteq> 0 \<and> 8 dvd unat cur \<and> ld32 m (tag + 8) = Some sz \<and>
     32 \<le> unat sz \<and> unat sz \<le> 2 ^ 24 \<and> bbp_tag_region_ok k cur (ucast sz)"

lemma bbp_tag_len_ok_iff:
  "bbp_tag_len_ok m tag = Some True \<longleftrightarrow>
     (\<exists>sz. ld32 m (tag + 8) = Some sz \<and> 32 \<le> unat sz \<and> unat sz \<le> 2 ^ 24)"
  by (auto simp: bbp_tag_len_ok_def bind_eq_Some_conv word_le_nat_alt unat_ucast_u32)

lemma bbp_tag_at_Some_iff:
  "bbp_tag_at m k cur = Some (Some tag) \<longleftrightarrow> (\<exists>sz. tag_ok m k cur tag sz)"
proof
  assume *: "bbp_tag_at m k cur = Some (Some tag)"
  then have "bbp_tag_len_ok m (bbp_phys_to_virt k cur) = Some True"
    by (auto simp: bbp_tag_at_def Let_def bind_eq_Some_conv split: if_splits)
  with * show "\<exists>sz. tag_ok m k cur tag sz"
    by (auto simp: bbp_tag_at_def tag_ok_def Let_def bind_eq_Some_conv bbp_phys_to_virt_def
        bbp_tag_ptr_ok_def and_7_eq_0_iff bbp_tag_len_ok_iff split: if_splits)
next
  assume "\<exists>sz. tag_ok m k cur tag sz"
  then obtain sz where sz: "tag_ok m k cur tag sz" ..
  then have "bbp_tag_region_ok k cur 32"
    by (auto simp: tag_ok_def unat_ucast_u32 intro: tag_region_mono)
  moreover have "bbp_tag_len_ok m tag = Some True"
    using sz by (auto simp: bbp_tag_len_ok_iff tag_ok_def)
  ultimately show "bbp_tag_at m k cur = Some (Some tag)"
    using sz by (auto simp: bbp_tag_at_def tag_ok_def Let_def bbp_phys_to_virt_def
        bbp_tag_ptr_ok_def and_7_eq_0_iff)
qed

lemma bbp_tag_at_total:
  assumes "window_mapped m k"
  shows "\<exists>r. bbp_tag_at m k cur = Some r"
proof (cases "bbp_tag_region_ok k cur 32")
  case True
  then have "mapped m (bbp_phys_to_virt k cur) 32"
    using tag_region_mapped [OF assms True] by simp
  then obtain sz where "ld32 m (bbp_phys_to_virt k cur + 8) = Some sz"
    using mapped_ld(2) [of m "bbp_phys_to_virt k cur" 32 8] by auto
  then show ?thesis
    by (simp add: bbp_tag_at_def bbp_tag_len_ok_def Let_def)
qed (simp add: bbp_tag_at_def)

lemma tag_ok_mapped:
  assumes "window_mapped m k" "tag_ok m k cur tag sz"
  shows "mapped m tag (unat sz)"
  using assms tag_region_mapped [of m k cur "ucast sz"]
  by (simp add: tag_ok_def bbp_phys_to_virt_def unat_ucast_u32)

lemma bbp_crc_skip_eq:
  assumes "load m base (unat len) = Some ps" "unat d + 8 \<le> unat len"
  shows "bbp_crc_skip m base len d = Some (crc_skip_bytes ps (unat d))"
proof -
  have d: "unat (d + 8) = unat d + 8"
    using assms(2) unat_u64_less [of len] by (subst unat_add_u64) auto
  then have n: "\<not> len < d + 8" "unat (len - d - 8) = unat len - unat d - 8"
    using assms(2) unat_diff_u64 [of "d + 8" len] by (auto simp: word_nat_simps diff_diff_eq)
  have "load m (base + of_nat 0) (unat d) = Some (take (unat d) (drop 0 ps))"
    using assms by (intro load_sub) auto
  moreover have "load m (base + of_nat (unat (d + 8))) (unat len - unat d - 8) =
      Some (take (unat len - unat d - 8) (drop (unat (d + 8)) ps))"
    using assms by (intro load_sub) (auto simp: d)
  ultimately show ?thesis
    using n assms(1)
    by (simp add: bbp_crc_skip_def crc_skip_bytes_def Let_def d add.assoc load_length)
qed

lemma bbp_tag_crc_ok_eq:
  assumes "load m tag (unat sz) = Some ps" "ld32 m (tag + 8) = Some sz" "32 \<le> unat sz"
  shows "bbp_tag_crc_ok m tag = Some (crc_field_ok ps 24)"
  using assms bbp_crc_skip_eq [of m tag "ucast sz" ps 24] ld_of_load(3) [of m tag "unat sz" ps 24]
  by (simp add: bbp_tag_crc_ok_def crc_field_ok_def unat_ucast_u32)

section \<open>The walk as a list\<close>

text \<open>
  The abstract view of the chain: the structurally valid tags in order, at most \<open>n\<close> of them.
  The loops of the code are the usual list operations on it.
\<close>

fun tag_walk :: "mem \<Rightarrow> bbp_kctx \<Rightarrow> u64 \<Rightarrow> nat \<Rightarrow> u64 list option" where
  "tag_walk m k cur 0 = Some []"
| "tag_walk m k cur (Suc n) =
     (if cur = 0 then Some []
      else do {
        r \<leftarrow> bbp_tag_at m k cur;
        case r of
          None \<Rightarrow> Some []
        | Some tag \<Rightarrow> do {
            nx \<leftarrow> ld64 m (tag + 16);
            ts \<leftarrow> tag_walk m k nx n;
            Some (tag # ts)
          }
      })"

definition tag_valid :: "mem \<Rightarrow> bbp_kctx \<Rightarrow> u64 \<Rightarrow> bool" where
  "tag_valid m k tag \<longleftrightarrow> tag_crc_bad m k tag = Some False"

definition find_spec :: "mem \<Rightarrow> bbp_kctx \<Rightarrow> u64 \<Rightarrow> u64 list \<Rightarrow> u64" where
  "find_spec m k tag_id ts =
     (case List.find (\<lambda>t. ld64 m t = Some tag_id \<and> tag_valid m k t) ts of
        None \<Rightarrow> 0 | Some t \<Rightarrow> t)"

fun visit_spec :: "'u bbp_tag_cb \<Rightarrow> u64 list \<Rightarrow> u32 \<Rightarrow> 'u \<Rightarrow> (u32 \<times> 'u) option" where
  "visit_spec cb [] cnt user = Some (cnt, user)"
| "visit_spec cb (t # ts) cnt user =
     do {
       (stop, user') \<leftarrow> cb t user;
       if stop then Some (cnt + 1, user') else visit_spec cb ts (cnt + 1) user'
     }"

text \<open>The facts about one step that every loop proof needs.\<close>

lemma tag_step:
  assumes "window_mapped m k" "bbp_tag_at m k cur = Some (Some tag)"
  obtains sz ps i nx bad where "tag_ok m k cur tag sz" "load m tag (unat sz) = Some ps"
    "ld64 m tag = Some i" "ld64 m (tag + 16) = Some nx" "tag_crc_bad m k tag = Some bad"
proof -
  obtain sz where sz: "tag_ok m k cur tag sz"
    using assms(2) by (auto simp: bbp_tag_at_Some_iff)
  then have mp: "mapped m tag (unat sz)" and "32 \<le> unat sz" and l: "ld32 m (tag + 8) = Some sz"
    using tag_ok_mapped [OF assms(1) sz] by (auto simp: tag_ok_def)
  obtain ps where ps: "load m tag (unat sz) = Some ps"
    using mp load_ex_iff by blast
  moreover obtain i where "ld64 m tag = Some i"
    using mapped_ld(3) [OF mp, of 0] \<open>32 \<le> unat sz\<close> by auto
  moreover obtain nx where "ld64 m (tag + 16) = Some nx"
    using mapped_ld(3) [OF mp, of 16] \<open>32 \<le> unat sz\<close> by auto
  moreover obtain bad where "tag_crc_bad m k tag = Some bad"
    using bbp_tag_crc_ok_eq [OF ps l] \<open>32 \<le> unat sz\<close>
    by (cases "verify_tag_crc k") (auto simp: tag_crc_bad_def)
  ultimately show ?thesis
    using sz that by blast
qed

lemma tag_walk_total: "window_mapped m k \<Longrightarrow> \<exists>ts. tag_walk m k cur n = Some ts"
proof (induction n arbitrary: cur)
  case (Suc n)
  obtain r where r: "bbp_tag_at m k cur = Some r"
    using bbp_tag_at_total [OF Suc.prems] by blast
  show ?case
  proof (cases r)
    case (Some tag)
    with r obtain nx where "ld64 m (tag + 16) = Some nx"
      using tag_step [OF Suc.prems] by blast
    with Suc r Some show ?thesis
      by (metis (no_types, lifting) bind.bind_lunit option.case(2) tag_walk.simps(2))
  qed (use r in simp)
qed simp

lemma tag_walk_length: "tag_walk m k cur n = Some ts \<Longrightarrow> length ts \<le> n"
proof (induction n arbitrary: cur ts)
  case (Suc n)
  then show ?case
    by (fastforce simp: bind_eq_Some_conv split: if_splits option.splits)
qed simp

lemma tag_walk_mem:
  assumes "tag_walk m k cur n = Some ts" "t \<in> set ts"
  shows "\<exists>p sz. tag_ok m k p t sz"
  using assms
proof (induction n arbitrary: cur ts)
  case (Suc n)
  show ?case
  proof (cases "bbp_tag_at m k cur")
    case (Some r)
    then have "\<exists>sz. tag_ok m k cur tag sz" if "r = Some tag" for tag
      using that by (simp add: bbp_tag_at_Some_iff)
    with Some Suc show ?thesis
      by (cases r) (auto simp: bind_eq_Some_conv split: if_splits, blast)
  qed (use Suc.prems in \<open>auto split: if_splits\<close>)
qed simp

lemma find_loop_eq:
  assumes "window_mapped m k" "tag_walk m k cur n = Some ts"
  shows "find_loop m k tag_id cur n = Some (find_spec m k tag_id ts)"
  using assms(2)
proof (induction n arbitrary: cur ts)
  case (Suc n)
  show ?case
  proof (cases "cur = 0")
    case False
    obtain r where r: "bbp_tag_at m k cur = Some r"
      using bbp_tag_at_total [OF assms(1)] by blast
    show ?thesis
    proof (cases r)
      case (Some tag)
      with r obtain i nx bad where "ld64 m tag = Some i" "ld64 m (tag + 16) = Some nx"
        "tag_crc_bad m k tag = Some bad"
        using tag_step [OF assms(1)] by blast
      with Suc r Some False show ?thesis
        by (auto simp: find_spec_def tag_valid_def bind_eq_Some_conv)
    qed (use r Suc.prems False in \<open>auto simp: find_spec_def\<close>)
  qed (use Suc.prems in \<open>auto simp: find_spec_def\<close>)
qed (simp add: find_spec_def)

lemma for_each_loop_eq:
  assumes "window_mapped m k" "tag_walk m k cur n = Some ts"
  shows "for_each_loop m k cb cur n cnt user = visit_spec cb (filter (tag_valid m k) ts) cnt user"
  using assms(2)
proof (induction n arbitrary: cur ts cnt user)
  case (Suc n)
  show ?case
  proof (cases "cur = 0")
    case False
    obtain r where r: "bbp_tag_at m k cur = Some r"
      using bbp_tag_at_total [OF assms(1)] by blast
    show ?thesis
    proof (cases r)
      case (Some tag)
      with r obtain nx bad where *: "ld64 m (tag + 16) = Some nx" "tag_crc_bad m k tag = Some bad"
        using tag_step [OF assms(1)] by blast
      with Suc.prems r Some False obtain ts' where "ts = tag # ts'" "tag_walk m k nx n = Some ts'"
        by (auto simp: bind_eq_Some_conv)
      with Suc.IH [OF this(2)] r Some False * show ?thesis
        by (auto simp: tag_valid_def split: Option.bind_splits)
    qed (use r Suc.prems False in auto)
  qed (use Suc.prems in auto)
qed simp

section \<open>The API on the walk\<close>

definition tag_chain :: "mem \<Rightarrow> bbp_kctx \<Rightarrow> u64 list option" where
  "tag_chain m k = do { cur \<leftarrow> ld64 m (info k + 120); tag_walk m k cur BBP_MAX_TAGS }"

definition ctx_mapped :: "mem \<Rightarrow> bbp_kctx \<Rightarrow> bool" where
  "ctx_mapped m k \<longleftrightarrow> info k \<noteq> 0 \<and> mapped m (info k) 144 \<and> window_mapped m k"

definition tag_bytes :: "mem \<Rightarrow> u64 \<Rightarrow> u8 list option" where
  "tag_bytes m t = do { sz \<leftarrow> ld32 m (t + 8); load m t (unat sz) }"

lemma tag_chain_total:
  assumes "ctx_mapped m k"
  obtains ts where "tag_chain m k = Some ts" "length ts \<le> 1024"
proof -
  obtain cur where c: "ld64 m (info k + 120) = Some cur"
    using assms mapped_ld(3) [of m "info k" 144 120] by (auto simp: ctx_mapped_def)
  moreover obtain ts where ts: "tag_walk m k cur BBP_MAX_TAGS = Some ts"
    using assms tag_walk_total unfolding ctx_mapped_def by blast
  moreover have "length ts \<le> 1024"
    using tag_walk_length [OF ts] by (simp add: BBP_MAX_TAGS_def)
  ultimately show ?thesis
    using that by (simp add: tag_chain_def)
qed

lemma tag_chain_mem:
  assumes "tag_chain m k = Some ts" "t \<in> set ts"
  shows "\<exists>p sz. tag_ok m k p t sz"
  using assms tag_walk_mem by (fastforce simp: tag_chain_def bind_eq_Some_conv)

lemma bbp_find_tag_eq:
  assumes "ctx_mapped m k" "tag_chain m k = Some ts"
  shows "bbp_find_tag m (Some k) i = Some (find_spec m k i ts)"
  using assms
  by (auto simp: bbp_find_tag_def tag_chain_def ctx_mapped_def bind_eq_Some_conv find_loop_eq)

lemma bbp_for_each_tag_eq:
  assumes "ctx_mapped m k" "tag_chain m k = Some ts"
  shows "bbp_for_each_tag m (Some k) (Some cb) u = visit_spec cb (filter (tag_valid m k) ts) 0 u"
  using assms
  by (auto simp: bbp_for_each_tag_def tag_chain_def ctx_mapped_def bind_eq_Some_conv for_each_loop_eq)

lemma bbp_tag_at_zero [simp]: "bbp_tag_at m k 0 = Some None"
  by (simp add: bbp_tag_at_def bbp_tag_ptr_ok_def)

lemma tag_ok_bytes:
  assumes "window_mapped m k" "tag_ok m k p t sz"
  obtains ps where "tag_bytes m t = Some ps" "load m t (unat sz) = Some ps" "length ps = unat sz"
  using tag_ok_mapped [OF assms] assms(2) that
  by (auto simp: tag_bytes_def tag_ok_def load_length simp flip: load_ex_iff)

text \<open>A callback that never stops and never faults on the tags of the list is a fold over it.\<close>

lemma visit_spec_fold:
  assumes "\<And>t u. t \<in> set ts \<Longrightarrow> cb t u = Some (False, f t u)"
  shows "visit_spec cb ts cnt u = Some (cnt + of_nat (length ts), fold f ts u)"
  using assms by (induction ts arbitrary: cnt u) (simp_all add: algebra_simps)

lemma visit_spec_count:
  assumes "visit_spec cb ts cnt u = Some (n, u')"
  shows "\<exists>j\<le>length ts. n = cnt + of_nat j"
  using assms
proof (induction ts arbitrary: cnt u)
  case (Cons t ts)
  from Cons.prems obtain stop v where v: "cb t u = Some (stop, v)"
    "(if stop then Some (cnt + 1, v) else visit_spec cb ts (cnt + 1) v) = Some (n, u')"
    by (auto simp: bind_eq_Some_conv)
  show ?case
  proof (cases stop)
    case True
    with v show ?thesis by (intro exI [of _ 1]) simp
  next
    case False
    with v Cons.IH obtain j where "j \<le> length ts" "n = cnt + 1 + of_nat j"
      by auto
    then show ?thesis
      by (intro exI [of _ "Suc j"]) (simp add: algebra_simps)
  qed
qed simp

section \<open>Initialisation\<close>

lemma bbp_memcmp_eq:
  "load m a (length ys) = Some xs \<Longrightarrow> \<exists>c. bbp_memcmp m a ys = Some c \<and> (c = 0 \<longleftrightarrow> xs = ys)"
proof (induction ys arbitrary: a xs)
  case (Cons y ys)
  from Cons.prems obtain x xs' where xs: "xs = x # xs'"
    by (metis length_Suc_conv load_length list.size(4) add.commute plus_1_eq_Suc)
  have "load m (a + of_nat 1) (length ys) = Some (take (length ys) (drop 1 xs))"
    using Cons.prems by (intro load_sub) auto
  then have "load m (a + 1) (length ys) = Some xs'"
    using Cons.prems xs by (simp add: load_eq_Some_iff)
  moreover have "m (a + of_nat 0) = Some (xs ! 0)"
    using Cons.prems by (fastforce simp only: load_eq_Some_iff list.size)
  ultimately show ?case
    using Cons.IH xs by (cases "x = y") (auto simp: word_uint_eq_iff)
qed (simp add: load_def)

text \<open>The verdict on the 144 bytes of an INFO block.\<close>

definition info_status :: "u8 list \<Rightarrow> bbp_status" where
  "info_status ps =
     (if take 16 ps \<noteq> bbp_info_magic then BBP_ERR_MAGIC
      else if get_le (take 2 (drop 16 ps)) \<noteq> (1 :: u16) then BBP_ERR_VERSION
      else if unat (get_le (take 4 (drop 20 ps)) :: u32) \<notin> {144..2 ^ 26} then BBP_ERR_SIZE
      else if \<not> crc_field_ok ps 136 then BBP_ERR_CHECKSUM
      else BBP_OK)"

text \<open>The offset a context adopts: only when the caller gave none, from the first valid HHDM
  tag that is large enough to hold one.\<close>

definition adopt_hhdm :: "mem \<Rightarrow> bbp_kctx \<Rightarrow> u64 \<Rightarrow> bbp_kctx option" where
  "adopt_hhdm m k t =
     (if hhdm_offset k = 0 \<and> t \<noteq> 0
      then do {
        sz \<leftarrow> ld32 m (t + 8);
        if 40 \<le> unat sz then do { h \<leftarrow> ld64 m (t + 32); Some (k\<lparr>hhdm_offset := h\<rparr>) } else Some k
      }
      else Some k)"

abbreviation init_ctx :: "u64 \<Rightarrow> u64 \<Rightarrow> u64 \<Rightarrow> u64 \<Rightarrow> bbp_kctx" where
  "init_ctx ip hint lo hi \<equiv>
     \<lparr>info = ip, hhdm_offset = hint, verify_tag_crc = True, walk_lo = lo, walk_hi = hi\<rparr>"

lemma length_bbp_info_magic [simp]: "length bbp_info_magic = 16"
  by (simp add: bbp_info_magic_def char_array_def ascii_def BBP_MAGIC_LEN_def)

lemma bbp_init_win_eq:
  assumes "out \<noteq> None" "ip \<noteq> 0" "load m ip 144 = Some ps"
  shows "bbp_init_win m out ip hint lo hi =
    (if info_status ps = BBP_OK
     then do {
       t \<leftarrow> bbp_find_tag m (Some (init_ctx ip hint lo hi)) BBP_TAG_HHDM;
       k \<leftarrow> adopt_hhdm m (init_ctx ip hint lo hi) t;
       Some (BBP_OK, Some k)
     }
     else Some (info_status ps, Some (init_ctx ip hint lo hi)))"
proof -
  have "load m (ip + of_nat 0) 16 = Some (take 16 (drop 0 ps))"
    using assms(3) by (intro load_sub) auto
  then obtain c where c: "bbp_memcmp m ip bbp_info_magic = Some c" "c = 0 \<longleftrightarrow> take 16 ps = bbp_info_magic"
    using bbp_memcmp_eq [of m ip bbp_info_magic "take 16 ps"] by auto
  have ld: "ld16 m (ip + 16) = Some (get_le (take 2 (drop 16 ps)))"
    "ld32 m (ip + 20) = Some (get_le (take 4 (drop 20 ps)))"
    "ld64 m (ip + 136) = Some (get_le (take 8 (drop 136 ps)))"
    using ld_of_load(1) [OF assms(3), of 16] ld_of_load(2) [OF assms(3), of 20]
      ld_of_load(3) [OF assms(3), of 136] by simp_all
  have crc: "bbp_crc_skip m ip 144 136 = Some (crc_skip_bytes ps 136)"
    using bbp_crc_skip_eq [of m ip 144 ps 136] assms(3) by simp
  obtain k where "out = Some k"
    using assms(1) by auto
  with assms(2) show ?thesis
    by (simp add: bbp_init_win_def Let_def c ld crc info_status_def crc_field_ok_def adopt_hhdm_def
        BBP_VERSION_MAJOR_def word_nat_simps unat_ucast_u32)
      (auto simp: word_nat_simps unat_ucast_u32 split: Option.bind_splits)
qed

lemma tag_ok_in_window:
  assumes "window_mapped m k" "tag_ok m k p t sz"
  shows "unat (walk_lo k) \<le> unat p" "unat p + unat sz \<le> unat (walk_hi k)"
  using assms
  by (auto simp: tag_ok_def window_mapped_def bbp_tag_region_ok_iff unat_ucast_u32)

lemma find_spec_sound:
  "find_spec m k i ts = t \<Longrightarrow> t \<noteq> 0 \<Longrightarrow> t \<in> set ts \<and> ld64 m t = Some i \<and> tag_valid m k t"
  by (auto simp: find_spec_def find_Some_iff split: option.splits)

lemma tag_valid_crc:
  assumes "tag_valid m k t" "verify_tag_crc k" "tag_ok m k p t sz" "load m t (unat sz) = Some ps"
  shows "crc_field_ok ps 24"
proof -
  have "bbp_tag_crc_ok m t = Some (crc_field_ok ps 24)"
    using assms by (intro bbp_tag_crc_ok_eq) (auto simp: tag_ok_def)
  with assms(1,2) show ?thesis
    by (simp add: tag_valid_def tag_crc_bad_def)
qed

lemma bbp_find_tag_total:
  assumes "ctx_mapped m k"
  obtains ts where "tag_chain m k = Some ts" "bbp_find_tag m (Some k) i = Some (find_spec m k i ts)"
  using tag_chain_total [OF assms] bbp_find_tag_eq [OF assms] by metis

lemma adopt_hhdm_total:
  assumes "ctx_mapped m k" "bbp_find_tag m (Some k) i = Some t"
  shows "\<exists>k'. adopt_hhdm m k t = Some k'"
proof (cases "t = 0")
  case False
  obtain ts where ts: "tag_chain m k = Some ts" "find_spec m k i ts = t"
    using bbp_find_tag_total [OF assms(1), of i] assms(2) by auto
  then obtain p sz where sz: "tag_ok m k p t sz"
    using tag_chain_mem find_spec_sound False by blast
  then have mp: "mapped m t (unat sz)" and l: "ld32 m (t + 8) = Some sz"
    using assms(1) tag_ok_mapped by (auto simp: ctx_mapped_def tag_ok_def)
  show ?thesis
    using mapped_ld(3) [OF mp, of 32] l by (auto simp: adopt_hhdm_def)
qed (simp add: adopt_hhdm_def)

lemma bbp_init_win_total:
  assumes "mapped m ip 144" "ip \<noteq> 0" "lo < hi" "mapped m (lo + hint) (unat (hi - lo))"
  shows "\<exists>st out'. bbp_init_win m out ip hint lo hi = Some (st, out')"
proof (cases "out = None")
  case False
  obtain ps where ps: "load m ip 144 = Some ps"
    using assms(1) load_ex_iff by blast
  have ctx: "ctx_mapped m (init_ctx ip hint lo hi)"
    using assms by (simp add: ctx_mapped_def window_mapped_def)
  obtain t where "bbp_find_tag m (Some (init_ctx ip hint lo hi)) BBP_TAG_HHDM = Some t"
    using bbp_find_tag_total [OF ctx] by blast
  moreover from adopt_hhdm_total [OF ctx this] obtain k
    where "adopt_hhdm m (init_ctx ip hint lo hi) t = Some k" by blast
  ultimately show ?thesis
    using bbp_init_win_eq [OF False assms(2) ps, of hint lo hi] by (cases "info_status ps = BBP_OK") auto
qed (simp add: bbp_init_win_def)

text \<open>The bounds check of \<open>bbp_init_bounded\<close>.\<close>

lemma bounds_ok_iff:
  "\<not> (phys = 0 \<or> n = 0) \<and> \<not> BBP_MAX_PHYS < n \<and> \<not> BBP_MAX_PHYS - n < phys \<longleftrightarrow>
   0 < unat phys \<and> 0 < unat n \<and> unat phys + unat n \<le> 2 ^ 48"
proof (cases "BBP_MAX_PHYS < n")
  case False
  then show ?thesis
    using unat_BBP_MAX_PHYS
    by (auto simp: word_nat_simps unat_diff_u64 unat_gt_0 not_less)
qed (use unat_BBP_MAX_PHYS in \<open>auto simp: word_nat_simps\<close>)

lemma bounds_window:
  assumes "0 < unat (n :: u64)" "unat (phys :: u64) + unat n \<le> 2 ^ 48"
  shows "phys < phys + n" "unat (phys + n) = unat phys + unat n" "unat (phys + n - phys) = unat n"
proof -
  show "unat (phys + n) = unat phys + unat n"
    using assms by (intro unat_add_u64) simp
  then show "phys < phys + n"
    using assms by (simp add: word_less_nat_alt)
qed simp

lemma bbp_init_bounded_eq:
  "bbp_init_bounded m (Some o1) ip hint phys n u =
     (if ip = 0 then Some (BBP_ERR_NULL, Some o1)
      else if 0 < unat phys \<and> 0 < unat n \<and> unat phys + unat n \<le> 2 ^ 48
      then do {
        (st, c) \<leftarrow> bbp_init_win m (Some u) ip hint phys (phys + n);
        Some (st, if st = BBP_OK then c else Some o1)
      }
      else Some (BBP_ERR_SIZE, Some o1))"
  unfolding bounds_ok_iff [symmetric] bbp_init_bounded_def by auto

lemma visit_evidence:
  assumes "window_mapped m k" "\<forall>t\<in>set ts. \<exists>p sz. tag_ok m k p t sz"
  shows "visit_spec (bbp_evidence_cb m upd) ts cnt s =
    Some (cnt + of_nat (length ts), fold (\<lambda>t s. upd s (the (tag_bytes m t))) ts s)"
proof (rule visit_spec_fold)
  fix t s assume "t \<in> set ts"
  then obtain p sz ps where sz: "tag_ok m k p t sz" and
    "tag_bytes m t = Some ps" "load m t (unat sz) = Some ps"
    using assms tag_ok_bytes by metis
  then show "bbp_evidence_cb m upd t s = Some (False, upd s (the (tag_bytes m t)))"
    by (auto simp: bbp_evidence_cb_def tag_ok_def)
qed

lemma bbp_evidence_eq:
  assumes "ctx_mapped m k" "tag_chain m k = Some ts" "load m (info k) 144 = Some ps"
  shows "bbp_evidence m (Some k) (Some upd) s =
    Some (of_nat (length (filter (tag_valid m k) ts)),
          fold (\<lambda>p s. upd s p)
            (evidence_domain # ps # map (\<lambda>t. the (tag_bytes m t)) (filter (tag_valid m k) ts)) s)"
proof -
  have "\<forall>t\<in>set (filter (tag_valid m k) ts). \<exists>p sz. tag_ok m k p t sz"
    using tag_chain_mem [OF assms(2)] by auto
  moreover have "window_mapped m k" "info k \<noteq> 0"
    using assms(1) by (simp_all add: ctx_mapped_def)
  ultimately show ?thesis
    using assms
    by (simp add: bbp_evidence_def bbp_for_each_tag_eq visit_evidence fold_map o_def)
qed

lemma bbp_verify_header_eq:
  assumes "hdr \<noteq> 0" "load m hdr 160 = Some ps"
  shows "bbp_verify_header m hdr = Some
    (if take 16 ps \<noteq> bbp_header_magic then BBP_ERR_MAGIC
     else if get_le (take 2 (drop 16 ps)) \<noteq> (1 :: u16) then BBP_ERR_VERSION
     else if get_le (take 4 (drop 20 ps)) \<noteq> (160 :: u32) then BBP_ERR_SIZE
     else if \<not> crc_field_ok ps 152 then BBP_ERR_CHECKSUM
     else BBP_OK)"
proof -
  have "length bbp_header_magic = 16"
    by (simp add: bbp_header_magic_def char_array_def ascii_def BBP_MAGIC_LEN_def)
  moreover have "load m (hdr + of_nat 0) 16 = Some (take 16 (drop 0 ps))"
    using assms(2) by (intro load_sub) auto
  ultimately obtain c where c: "bbp_memcmp m hdr bbp_header_magic = Some c"
    "c = 0 \<longleftrightarrow> take 16 ps = bbp_header_magic"
    using bbp_memcmp_eq [of m hdr bbp_header_magic "take 16 ps"] by auto
  have ld: "ld16 m (hdr + 16) = Some (get_le (take 2 (drop 16 ps)))"
    "ld32 m (hdr + 20) = Some (get_le (take 4 (drop 20 ps)))"
    "ld64 m (hdr + 152) = Some (get_le (take 8 (drop 152 ps)))"
    using ld_of_load(1) [OF assms(2), of 16] ld_of_load(2) [OF assms(2), of 20]
      ld_of_load(3) [OF assms(2), of 152] by simp_all
  have crc: "bbp_crc_skip m hdr 160 152 = Some (crc_skip_bytes ps 152)"
    using bbp_crc_skip_eq [of m hdr 160 ps 152] assms(2) by simp
  have u: "(ucast z :: u64) = 160 \<longleftrightarrow> z = 160" for z :: u32
    using ucast_u32_eq_iff [of z 160] by simp
  show ?thesis
    using assms(1)
    by (simp add: bbp_verify_header_def c ld crc u crc_field_ok_def BBP_VERSION_MAJOR_def)
qed

section \<open>Properties\<close>

text \<open>C4. Memory safety against hostile bytes: if the walk window is mapped at the direct-map
  offset and the INFO block is mapped, then no lookup and no evidence pass ever touches an unmapped
  byte, whatever the tag chain contains (cycles, wild pointers, absurd sizes).\<close>

theorem walk_never_faults:
  assumes "ctx_mapped m k"
  shows "bbp_find_tag m (Some k) i \<noteq> None \<and> bbp_evidence m (Some k) (Some upd) s \<noteq> None"
proof -
  obtain ps where ps: "load m (info k) 144 = Some ps"
    using assms load_ex_iff unfolding ctx_mapped_def by blast
  obtain ts where ts: "tag_chain m k = Some ts"
    using tag_chain_total [OF assms] by blast
  show ?thesis
    using bbp_find_tag_eq [OF assms ts, of i] bbp_evidence_eq [OF assms ts ps, of upd s] by simp
qed

text \<open>C5. A tag that a lookup returns has the requested identifier, is 8-byte aligned, lies with
  all its bytes inside the walk window, and, when verification is on, carries the right checksum:
  a corrupt tag is never handed to a subsystem.\<close>

theorem find_tag_sound:
  assumes "ctx_mapped m k" "bbp_find_tag m (Some k) i = Some t" "t \<noteq> 0"
  shows "\<exists>p sz ps. t = p + hhdm_offset k \<and> 8 dvd unat p \<and>
     unat (walk_lo k) \<le> unat p \<and> unat p + unat sz \<le> unat (walk_hi k) \<and>
     ld64 m t = Some i \<and> ld32 m (t + 8) = Some sz \<and> load m t (unat sz) = Some ps \<and>
     (verify_tag_crc k \<longrightarrow> crc_field_ok ps 24)"
proof -
  obtain ts where "tag_chain m k = Some ts" "find_spec m k i ts = t"
    using bbp_find_tag_total [OF assms(1), of i] assms(2) by auto
  then obtain p sz where i: "ld64 m t = Some i" "tag_valid m k t" and sz: "tag_ok m k p t sz"
    using tag_chain_mem find_spec_sound assms(3) by blast
  have w: "window_mapped m k"
    using assms(1) by (simp add: ctx_mapped_def)
  obtain ps where "load m t (unat sz) = Some ps"
    using tag_ok_bytes [OF w sz] by blast
  then show ?thesis
    using i sz tag_ok_in_window [OF w sz] tag_valid_crc [of m k t p sz ps]
    unfolding tag_ok_def by blast
qed

text \<open>C21. The loops are list operations on one abstract chain of at most 1024 structurally valid
  tags: a lookup is the first valid tag with the identifier, an iteration visits exactly the valid
  tags in order.\<close>

theorem walk_refines_list:
  assumes "ctx_mapped m k"
  shows "\<exists>ts. tag_chain m k = Some ts \<and> length ts \<le> 1024 \<and>
    (\<forall>i. bbp_find_tag m (Some k) i = Some (find_spec m k i ts)) \<and>
    (\<forall>cb u. bbp_for_each_tag m (Some k) (Some cb) u =
        visit_spec cb (filter (tag_valid m k) ts) 0 (u :: 'u))"
  using tag_chain_total [OF assms] bbp_find_tag_eq [OF assms] bbp_for_each_tag_eq [OF assms] by metis

text \<open>The evidence pass feeds the hash the 16-byte domain separator, the 144 bytes of the INFO
  block and then exactly the bytes of each valid tag in chain order, and returns how many tags it
  fed.\<close>

theorem evidence_stream:
  assumes "ctx_mapped m k" "tag_chain m k = Some ts" "load m (info k) 144 = Some ps"
  shows "bbp_evidence m (Some k) (Some (\<lambda>s p. s @ [p])) [] =
    Some (of_nat (length (filter (tag_valid m k) ts)),
          evidence_domain # ps # map (\<lambda>t. the (tag_bytes m t)) (filter (tag_valid m k) ts))"
proof -
  have "fold (\<lambda>p s. s @ [p]) xs s = s @ xs" for xs s :: "u8 list list"
    by (induction xs arbitrary: s) simp_all
  then show ?thesis
    using bbp_evidence_eq [OF assms, of "\<lambda>s p. s @ [p]" "[]"] by simp
qed

text \<open>C22. Bounded initialisation decides on the bounds and the INFO bytes alone, publishes the
  context only on success, and then with verification on, the given window, and a nonzero hint
  unchanged.\<close>

theorem init_bounded_spec:
  assumes "ip \<noteq> 0" "load m ip 144 = Some ps" "mapped m (phys + hint) (unat n)"
  shows "\<exists>k. bbp_init_bounded m (Some o1) ip hint phys n u =
     (if 0 < unat phys \<and> 0 < unat n \<and> unat phys + unat n \<le> 2 ^ 48
      then Some (info_status ps, Some (if info_status ps = BBP_OK then k else o1))
      else Some (BBP_ERR_SIZE, Some o1)) \<and>
    info k = ip \<and> verify_tag_crc k \<and> walk_lo k = phys \<and> walk_hi k = phys + n \<and>
    (hint \<noteq> 0 \<longrightarrow> hhdm_offset k = hint)"
proof (cases "0 < unat phys \<and> 0 < unat n \<and> unat phys + unat n \<le> 2 ^ 48")
  case True
  let ?k = "init_ctx ip hint phys (phys + n)"
  have "mapped m ip 144"
    using assms(2) load_ex_iff by blast
  then have ctx: "ctx_mapped m ?k"
    using assms(1,3) bounds_window [of n phys] True by (simp add: ctx_mapped_def window_mapped_def)
  obtain t where t: "bbp_find_tag m (Some ?k) BBP_TAG_HHDM = Some t"
    using bbp_find_tag_total [OF ctx] by blast
  obtain k where k: "adopt_hhdm m ?k t = Some k"
    using adopt_hhdm_total [OF ctx t] by blast
  then have "info k = ip \<and> verify_tag_crc k \<and> walk_lo k = phys \<and> walk_hi k = phys + n \<and>
      (hint \<noteq> 0 \<longrightarrow> hhdm_offset k = hint)"
    by (auto simp: adopt_hhdm_def bind_eq_Some_conv split: if_splits)
  then show ?thesis
    using assms(1) True t k
    by (intro exI [of _ k])
      (simp add: bbp_init_bounded_eq bbp_init_win_eq [OF _ assms(1,2)])
next
  case False
  then show ?thesis
    using assms(1)
    by (intro exI [of _ "init_ctx ip hint phys (phys + n)"]) (auto simp: bbp_init_bounded_eq)
qed

text \<open>A kernel header is accepted exactly when its magic, major version, size field and
  checksum are right.\<close>

theorem verify_header_ok_iff:
  assumes "hdr \<noteq> 0" "load m hdr 160 = Some ps"
  shows "bbp_verify_header m hdr = Some BBP_OK \<longleftrightarrow>
    take 16 ps = char_array 16 ''BEAR_BOOT'' \<and> get_le (take 2 (drop 16 ps)) = (1 :: u16) \<and>
    get_le (take 4 (drop 20 ps)) = (160 :: u32) \<and> crc_field_ok ps 152"
  using bbp_verify_header_eq [OF assms]
  by (simp add: bbp_header_magic_def BBP_HEADER_MAGIC_def BBP_MAGIC_LEN_def)

text \<open>An out-of-line blob is accepted exactly when it is within the 64 MiB cap, its region
  neither leaves the 48-bit physical space nor wraps under translation, and its bytes have the
  expected CRC; a zero CRC is accepted only at the caller's explicit request.\<close>

theorem verify_blob_ok_iff:
  "bbp_verify_blob m (Some k) phys len crc allow = Some BBP_OK \<longleftrightarrow>
     0 < unat phys \<and> 0 < unat len \<and> unat len \<le> 2 ^ 26 \<and> unat phys + unat len \<le> 2 ^ 48 \<and>
     unat phys + unat (hhdm_offset k) + unat len < 2 ^ 64 \<and>
     (if crc = 0 then allow
      else \<exists>ps. load m (phys + hhdm_offset k) (unat len) = Some ps \<and> bbp_crc64 ps = crc)"
  by (auto simp: bbp_verify_blob_def bbp_address_region_ok_iff BBP_MAX_BLOB_def word_nat_simps
      bbp_phys_to_virt_def bind_eq_Some_conv unat_gt_0 split: if_splits)

text \<open>The trailing-array accessor clamps the claimed element count to what fits between the
  fixed part and the end of the tag, so iterating the returned count stays inside the tag.\<close>

theorem tag_array_in_bounds:
  assumes "ld32 m (tag + 8) = Some sz"
  shows "\<exists>cnt. bbp_tag_array m tag fixed elem claimed = Some (tag + fixed, cnt) \<and>
    unat cnt = min (unat claimed) (if elem = 0 then 0 else (unat sz - unat fixed) div unat elem) \<and>
    (0 < cnt \<longrightarrow> unat fixed + unat cnt * unat elem \<le> unat sz)"
proof -
  let ?n = "(ucast sz - fixed) div elem"
  define c :: u32 where "c = (if elem \<noteq> 0 \<and> fixed < ucast sz then ucast ?n else 0)"
  define fit where "fit = (if elem = 0 then 0 else (unat sz - unat fixed) div unat elem)"
  have n: "unat ?n = fit" if "fixed < ucast sz" "elem \<noteq> 0"
    using that by (simp add: fit_def unat_div unat_diff_u64 unat_ucast_u32 word_nat_simps)
  have le: "fit \<le> unat sz" "fit * unat elem \<le> unat sz - unat fixed"
    by (auto simp: fit_def div_times_less_eq_dividend intro: le_trans [OF div_le_dividend])
  then have "?n \<le> 0xFFFFFFFF" if "fixed < ucast sz" "elem \<noteq> 0"
    using n [OF that] unat_u32_less [of sz] by (simp add: word_nat_simps)
  then have arr: "bbp_tag_array m tag fixed elem claimed
      = Some (tag + fixed, if claimed < c then claimed else c)"
    using assms by (auto simp: bbp_tag_array_def c_def Let_def)
  have "unat c = fit"
  proof (cases "elem \<noteq> 0 \<and> fixed < ucast sz")
    case True
    then show ?thesis
      using n le(1) unat_u32_less [of sz] by (simp add: c_def unat_ucast_down)
  qed (auto simp: c_def fit_def word_nat_simps unat_ucast_u32)
  define cnt where "cnt = (if claimed < c then claimed else c)"
  have cnt: "unat cnt = min (unat claimed) fit"
    using \<open>unat c = fit\<close> by (auto simp: cnt_def word_nat_simps min_def)
  then have "unat cnt * unat elem \<le> unat sz - unat fixed"
    using le(2) mult_le_mono1 [of "unat cnt" fit "unat elem"] by linarith
  moreover have "unat fixed < unat sz" if "0 < cnt"
  proof -
    from that have "0 < fit"
      using cnt by (simp add: word_less_nat_alt)
    then show ?thesis
      by (intro ccontr [of "unat fixed < unat sz"]) (simp add: fit_def not_less split: if_splits)
  qed
  ultimately have "0 < cnt \<Longrightarrow> unat fixed + unat cnt * unat elem \<le> unat sz"
    by linarith
  with arr cnt show ?thesis
    unfolding cnt_def fit_def by blast
qed

end
