(* ===== verification/Bridge.thy ===== *)
theory Bridge
  imports V2_Spec Bbp_Kernel
begin

text \<open>
  The bridge between the v1 tag chain and the v2 capsule, \<open>bridge/bbp_bridge.c\<close>. Buffers are bounded byte
  lists as in the v2 code, and a result \<^term>\<open>None\<close> is an access outside one of them. The function that
  maps physical spans belongs to the caller: it is an argument, which gives the address of the mapping and
  the bytes readable there. Error returns are \<^term>\<open>Inl\<close>; success carries everything that is stored
  through the output pointers, so a failing call visibly stores nothing there.
\<close>

unbundle bit_operations_syntax

section \<open>Model of the helpers\<close>

definition BBP_V2_ENTRY_V1_INFO :: u64 where "BBP_V2_ENTRY_V1_INFO = 0x000100000000fff0"
definition BBP_V2_BRIDGE_ALLOW_EXTERNAL_PHYS :: u32 where "BBP_V2_BRIDGE_ALLOW_EXTERNAL_PHYS = push_bit 0 1"
definition BBP_V2_EF_EXTERNAL_PHYS :: u32 where "BBP_V2_EF_EXTERNAL_PHYS = push_bit 0 1"
definition BBP_V2_EF_V1_WIRE :: u32 where "BBP_V2_EF_V1_WIRE = push_bit 1 1"
definition V1_MAX_TAG_SIZE :: u64 where "V1_MAX_TAG_SIZE = 16 * 1024 * 1024"
definition V1_MAX_INFO_SIZE :: u64 where "V1_MAX_INFO_SIZE = 64 * 1024 * 1024"
definition V1_MAX_PHYS :: u64 where "V1_MAX_PHYS = push_bit 48 1"

lemmas bridge_consts = BBP_V2_ENTRY_V1_INFO_def BBP_V2_BRIDGE_ALLOW_EXTERNAL_PHYS_def BBP_V2_EF_EXTERNAL_PHYS_def
  BBP_V2_EF_V1_WIRE_def V1_MAX_TAG_SIZE_def V1_MAX_INFO_SIZE_def V1_MAX_PHYS_def

definition crc_skip :: "u8 list \<Rightarrow> u64 \<Rightarrow> u64 \<Rightarrow> u64 option" where
  "crc_skip data sz offset =
     (if sz < offset + 8 then Some 0
      else do {
        p \<leftarrow> rd data 0 (unat offset);
        s \<leftarrow> rd data (unat (offset + 8)) (unat (sz - offset - 8));
        let crc = bbp_crc64_init;
            crc = bbp_crc64_update crc p;
            crc = bbp_crc64_update crc (replicate 8 0);
            crc = bbp_crc64_update crc s
        in Some (bbp_crc64_final crc)
      })"

definition capsule_crc :: "u8 list \<Rightarrow> u64 \<Rightarrow> u64 option" where
  "capsule_crc data sz = crc_skip data sz 40"

definition array_fits :: "u64 \<Rightarrow> u64 \<Rightarrow> u32 \<Rightarrow> u64 \<Rightarrow> bool" where
  "array_fits total_sz base count stride \<longleftrightarrow>
     (if base > total_sz then False else ucast count \<le> (total_sz - base) div stride)"

text \<open>\<open>get64(p + d) != 0 || ...\<close> over a list of positions.\<close>

fun any_nonzero :: "u8 list \<Rightarrow> nat list \<Rightarrow> bool option" where
  "any_nonzero tag [] = Some False"
| "any_nonzero tag (d # ds) = do { v \<leftarrow> get64 tag d; if v \<noteq> 0 then Some True else any_nonzero tag ds }"

text \<open>The loops over displays, processors and modules; \<open>ds\<close> are the reference fields of an element.\<close>

fun element_refers :: "u8 list \<Rightarrow> nat list \<Rightarrow> nat \<Rightarrow> nat \<Rightarrow> nat \<Rightarrow> bool option" where
  "element_refers tag ds base stride 0 = Some False"
| "element_refers tag ds base stride (Suc n) =
     do {
       r \<leftarrow> any_nonzero tag (map ((+) base) ds);
       if r then Some True else element_refers tag ds (base + stride) stride n
     }"

definition int_of_test :: "bool option \<Rightarrow> int option" where
  "int_of_test t = map_option (\<lambda>b. if b then 1 else 0) t"

text \<open>The cases of tags that have reference fields but no array.\<close>

definition plain_references :: "u8 list \<Rightarrow> u64 \<Rightarrow> fields \<Rightarrow> nat list \<Rightarrow> int option" where
  "plain_references tag sz fixed ds =
     (if sz < sizeof fixed then Some (- 1) else int_of_test (any_nonzero tag ds))"

text \<open>The cases of tags with an array of \<open>count\<close> elements.\<close>

definition array_references ::
  "u8 list \<Rightarrow> u64 \<Rightarrow> fields \<Rightarrow> u32 option \<Rightarrow> fields \<Rightarrow> nat list \<Rightarrow> nat list \<Rightarrow> int option" where
  "array_references tag sz fixed counted element ds es =
     (if sz < sizeof fixed then Some (- 1)
      else do {
        count \<leftarrow> counted;
        if \<not> array_fits sz (sizeof fixed) count (sizeof element) then Some (- 1)
        else do {
          r \<leftarrow> any_nonzero tag ds;
          if r then Some 1
          else int_of_test (element_refers tag es (unat (sizeof fixed)) (unat (sizeof element)) (unat count))
        }
      })"

definition tag_external_references :: "u8 list \<Rightarrow> u64 \<Rightarrow> int option" where
  "tag_external_references tag sz =
     do {
       id \<leftarrow> get64 tag 0;
       if id = BBP_TAG_HHDM then plain_references tag sz struct_bbp_tag_hhdm []
       else if id = BBP_TAG_KERNEL_ADDRESS then plain_references tag sz struct_bbp_tag_kernel_address []
       else if id = BBP_TAG_MEMORY_MAP then
         (if sz < sizeof struct_bbp_tag_memory_map then Some (- 1)
          else do {
            count \<leftarrow> get32 tag 32;
            entry_size \<leftarrow> get32 tag 36;
            Some (if ucast entry_size < sizeof struct_bbp_memory_entry
                \<or> \<not> array_fits sz (sizeof struct_bbp_tag_memory_map) count (ucast entry_size) then - 1 else 0)
          })
       else if id = BBP_TAG_CMDLINE then plain_references tag sz struct_bbp_tag_cmdline [32]
       else if id = BBP_TAG_ACPI then plain_references tag sz struct_bbp_tag_acpi [32, 40]
       else if id = BBP_TAG_SMBIOS then plain_references tag sz struct_bbp_tag_smbios [32, 40]
       else if id = BBP_TAG_EFI then plain_references tag sz struct_bbp_tag_efi [32, 40]
       else if id = BBP_TAG_DEVICETREE then plain_references tag sz struct_bbp_tag_devicetree [32, 56]
       else if id = BBP_TAG_SECURITY then plain_references tag sz struct_bbp_tag_security [32, 64, 80, 96]
       else if id = BBP_TAG_FRAMEBUFFER then
         array_references tag sz struct_bbp_tag_framebuffer (map_option ucast (get16 tag 40)) struct_bbp_display_info [32, 56] [32]
       else if id = BBP_TAG_SMP then
         array_references tag sz struct_bbp_tag_smp (get32 tag 32) struct_bbp_cpu_info [] [32]
       else if id = BBP_TAG_MODULES then
         array_references tag sz struct_bbp_tag_modules (get32 tag 32) struct_bbp_module_entry [] [0, 96]
       else if id = BBP_TAG_PCIE then
         (if sz < sizeof struct_bbp_tag_pcie then Some (- 1)
          else do {
            count \<leftarrow> get32 tag 40;
            if \<not> array_fits sz (sizeof struct_bbp_tag_pcie) count (sizeof struct_bbp_pcie_device) then Some (- 1)
            else do {
              r \<leftarrow> any_nonzero tag [32];
              Some (if r \<or> count \<noteq> 0 then 1 else 0)
            }
          })
       else if id = BBP_TAG_METRICS then
         (if sz < sizeof struct_bbp_tag_metrics then Some (- 1)
          else do {
            count \<leftarrow> get32 tag 40;
            Some (if array_fits sz (sizeof struct_bbp_tag_metrics) count (sizeof struct_bbp_boot_phase) then 0 else - 1)
          })
       else if id = BBP_TAG_HYPERVISOR then plain_references tag sz struct_bbp_tag_hypervisor []
       else Some 1
     }"

section \<open>Model of the conversion from v1\<close>

definition V1_INFO_PAYLOAD_BYTES :: u64 where "V1_INFO_PAYLOAD_BYTES = 104"

definition normalize_info :: "u8 list \<Rightarrow> u8 list option" where
  "normalize_info v1_info =
     do {
       let p = replicate (unat V1_INFO_PAYLOAD_BYTES) 0;
       x \<leftarrow> rd v1_info 24 32; p \<leftarrow> wr p 0 x;
       x \<leftarrow> rd v1_info 56 16; p \<leftarrow> wr p 32 x;
       x \<leftarrow> rd v1_info 72 16; p \<leftarrow> wr p 48 x;
       v \<leftarrow> get64 v1_info 88; p \<leftarrow> put64 p 64 v;
       v \<leftarrow> get64 v1_info 96; p \<leftarrow> put64 p 72 v;
       v \<leftarrow> get64 v1_info 104; p \<leftarrow> put64 p 80 v;
       w \<leftarrow> get16 v1_info 112; p \<leftarrow> put16 p 88 w;
       w \<leftarrow> get16 v1_info 114; p \<leftarrow> put16 p 90 w;
       v \<leftarrow> get64 v1_info 128; put64 p 96 v
     }"

text \<open>The map function gives the address of the mapping and the bytes there, or NULL.\<close>

type_synonym phys_map = "u64 \<Rightarrow> u64 \<Rightarrow> (u64 \<times> u8 list) option"

record bbp_v2_v1_source =
  vs_info :: "u8 list option"
  vs_map :: "phys_map option"

record bbp_v2_bridge_report =
  br_tag_count :: u32
  br_external_reference_tags :: u32

text \<open>The part of the workspace arrays that has been filled.\<close>

record bbp_v2_bridge_workspace =
  bw_visited :: "u64 list"
  bw_entries :: "bbp_v2_build_entry list"

text \<open>The checks of the information block; the value is \<open>tag_count\<close> and the address of the first tag.\<close>

definition check_v1_info :: "u8 list \<Rightarrow> bool \<Rightarrow> (bbp_v2_status + u32 \<times> u64) option" where
  "check_v1_info v1_info has_map =
     do {
       eq \<leftarrow> bytes_equal v1_info 0 bbp_info_magic;
       bad \<leftarrow> sc_or (Some (\<not> eq)) (sc_or (ne16 v1_info 16 BBP_VERSION_MAJOR) (ne16 v1_info 18 BBP_VERSION_MINOR));
       if bad then Some (Inl BBP_V2_ERR_SOURCE)
       else do {
         total_sz \<leftarrow> get32 v1_info 20;
         bad \<leftarrow> sc_or (Some (ucast total_sz < sizeof struct_bbp_info \<or> ucast total_sz > V1_MAX_INFO_SIZE))
           (do { c \<leftarrow> crc_skip v1_info (sizeof struct_bbp_info) 136; ne64 v1_info 136 c });
         if bad then Some (Inl BBP_V2_ERR_SOURCE)
         else do {
           tag_count \<leftarrow> get32 v1_info 116;
           if tag_count > BBP_V2_MAX_ENTRIES - 1 then Some (Inl BBP_V2_ERR_COUNT)
           else do {
             current \<leftarrow> get64 v1_info 120;
             Some (if (tag_count = 0) \<noteq> (current = 0) \<or> current \<noteq> 0 \<and> (current AND 7 \<noteq> 0 \<or> \<not> has_map)
               then Inl BBP_V2_ERR_SOURCE else Inr (tag_count, current))
           }
         }
       }
     }"

type_synonym from_v1_state = "bbp_v2_bridge_workspace \<times> u64 \<times> u32"

text \<open>One iteration of the loop over the tags; the state is the workspace, \<open>current\<close> and \<open>external_count\<close>.\<close>

definition from_v1_tag :: "phys_map option \<Rightarrow> u32 \<Rightarrow> from_v1_state \<Rightarrow> (bbp_v2_status + from_v1_state) option" where
  "from_v1_tag source_map policy st =
     (case st of (w, current, external_count) \<Rightarrow>
        if current = 0 \<or> current AND 7 \<noteq> 0 \<or> current \<ge> V1_MAX_PHYS \<or> sizeof struct_bbp_tag_header > V1_MAX_PHYS - current
        then Some (Inl BBP_V2_ERR_SOURCE)
        else if current \<in> set (bw_visited w) then Some (Inl BBP_V2_ERR_SOURCE)
        else do {
          map_span \<leftarrow> source_map;
          case map_span current (sizeof struct_bbp_tag_header) of
            None \<Rightarrow> Some (Inl BBP_V2_ERR_SOURCE)
          | Some (_, mapped_header) \<Rightarrow> do {
              header \<leftarrow> rd mapped_header 0 (unat (sizeof struct_bbp_tag_header));
              sz32 \<leftarrow> get32 header 8;
              let sz = (ucast sz32 :: u64);
              if sz < sizeof struct_bbp_tag_header \<or> sz > V1_MAX_TAG_SIZE then Some (Inl BBP_V2_ERR_SOURCE)
              else if sz > V1_MAX_PHYS - current then Some (Inl BBP_V2_ERR_SOURCE)
              else if list_ex (\<lambda>(prior, e). current < prior + be_size e \<and> prior < current + sz)
                (zip (bw_visited w) (tl (bw_entries w))) then Some (Inl BBP_V2_ERR_SOURCE)
              else case map_span current sz of
                None \<Rightarrow> Some (Inl BBP_V2_ERR_SOURCE)
              | Some (address, tag) \<Rightarrow> do {
                  eq \<leftarrow> bytes_equal tag 0 header;
                  bad \<leftarrow> sc_or (Some (\<not> eq)) (do { c \<leftarrow> crc_skip tag sz 24; ne64 tag 24 c });
                  if bad then Some (Inl BBP_V2_ERR_SOURCE)
                  else do {
                    external \<leftarrow> tag_external_references tag sz;
                    if external < 0 then Some (Inl BBP_V2_ERR_SOURCE)
                    else if external \<noteq> 0 \<and> policy AND BBP_V2_BRIDGE_ALLOW_EXTERNAL_PHYS = 0
                    then Some (Inl BBP_V2_ERR_POLICY)
                    else do {
                      ty \<leftarrow> get64 tag 0;
                      ver \<leftarrow> get16 tag 12;
                      next_tag \<leftarrow> get64 tag 16;
                      Some (Inr (\<lparr>bw_visited = bw_visited w @ [current],
                        bw_entries = bw_entries w @ [\<lparr>be_type = ty,
                          be_flags = BBP_V2_EF_V1_WIRE OR (if external \<noteq> 0 then BBP_V2_EF_EXTERNAL_PHYS else 0),
                          be_version = ver, be_alignment = 8, be_addr = address, be_bytes = tag, be_size = sz\<rparr>]\<rparr>,
                        next_tag, if external \<noteq> 0 then external_count + 1 else external_count))
                    }
                  }
                }
            }
        })"

fun from_v1_loop :: "phys_map option \<Rightarrow> u32 \<Rightarrow> nat \<Rightarrow> from_v1_state \<Rightarrow> (bbp_v2_status + from_v1_state) option" where
  "from_v1_loop source_map policy 0 st = Some (Inr st)"
| "from_v1_loop source_map policy (Suc n) st =
     do {
       r \<leftarrow> from_v1_tag source_map policy st;
       case r of Inl e \<Rightarrow> Some (Inl e) | Inr st \<Rightarrow> from_v1_loop source_map policy n st
     }"

text \<open>The loop that clears the v1 linkage of every tag in the finished capsule.\<close>

fun normalize_tags :: "u8 list \<Rightarrow> nat list \<Rightarrow> u8 list option" where
  "normalize_tags buf [] = Some buf"
| "normalize_tags buf (i # is) =
     do {
       let entry = unat (BBP_V2_HEADER_SIZE + of_nat (i + 1) * BBP_V2_DIRENT_SIZE);
       tag \<leftarrow> get64 buf (entry + 16);
       sz \<leftarrow> get64 buf (entry + 24);
       buf \<leftarrow> put64 buf (unat tag + 16) 0;
       buf \<leftarrow> put64 buf (unat tag + 24) 0;
       p \<leftarrow> rd buf (unat tag) (unat sz);
       buf \<leftarrow> put64 buf (entry + 32) (bbp_crc64 p);
       normalize_tags buf is
     }"

text \<open>What follows the loop over the tags.\<close>

definition from_v1_finish ::
  "u64 \<Rightarrow> u8 list \<Rightarrow> u64 \<Rightarrow> u32 \<Rightarrow> bool \<Rightarrow> from_v1_state \<Rightarrow>
   (bbp_v2_status + u8 list \<times> u64 \<times> bbp_v2_bridge_report option) option" where
  "from_v1_finish output_address buf capacity tag_count report st =
     (case st of (w, current, external_count) \<Rightarrow>
        if current \<noteq> 0 then Some (Inl BBP_V2_ERR_SOURCE)
        else do {
          r \<leftarrow> bbp_v2_build output_address buf capacity (Some (bw_entries w)) (tag_count + 1) True;
          case r of
            Inl e \<Rightarrow> Some (Inl e)
          | Inr (buf, built_sz) \<Rightarrow> do {
              buf \<leftarrow> normalize_tags buf [0..<unat tag_count];
              buf \<leftarrow> put64 buf 40 0;
              c \<leftarrow> capsule_crc buf built_sz;
              buf \<leftarrow> put64 buf 40 c;
              Some (Inr (buf, built_sz, if report then Some \<lparr>br_tag_count = tag_count,
                br_external_reference_tags = external_count\<rparr> else None))
            }
        })"

text \<open>\<open>workspace\<close> is the address of \<open>workspace->info_payload\<close>, \<^term>\<open>None\<close> when the pointer is NULL;
  \<open>written\<close> and \<open>report\<close> say whether these pointers are present.\<close>

definition bbp_v2_from_v1 ::
  "bbp_v2_v1_source option \<Rightarrow> u32 \<Rightarrow> u64 option \<Rightarrow> u64 \<Rightarrow> u8 list \<Rightarrow> u64 \<Rightarrow> bool \<Rightarrow> bool \<Rightarrow>
   (bbp_v2_status + u8 list \<times> u64 \<times> bbp_v2_bridge_report option) option" where
  "bbp_v2_from_v1 source policy workspace output_address buf capacity written report =
     (case (source, workspace) of
        (Some src, Some payload_address) \<Rightarrow>
          (case vs_info src of
             None \<Rightarrow> Some (Inl BBP_V2_ERR_NULL)
           | Some v1_info \<Rightarrow>
               if output_address = 0 \<or> \<not> written then Some (Inl BBP_V2_ERR_NULL)
               else do {
                 r \<leftarrow> check_v1_info v1_info (vs_map src \<noteq> None);
                 case r of
                   Inl e \<Rightarrow> Some (Inl e)
                 | Inr (tag_count, first) \<Rightarrow> do {
                     payload \<leftarrow> normalize_info v1_info;
                     next_context \<leftarrow> get64 v1_info 128;
                     if next_context \<noteq> 0 \<and> policy AND BBP_V2_BRIDGE_ALLOW_EXTERNAL_PHYS = 0
                     then Some (Inl BBP_V2_ERR_POLICY)
                     else do {
                       let info_entry = \<lparr>be_type = BBP_V2_ENTRY_V1_INFO,
                         be_flags = (if next_context \<noteq> 0 then BBP_V2_EF_EXTERNAL_PHYS else 0),
                         be_version = BBP_VERSION_MINOR, be_alignment = 8, be_addr = payload_address,
                         be_bytes = payload, be_size = V1_INFO_PAYLOAD_BYTES\<rparr>;
                       r \<leftarrow> from_v1_loop (vs_map src) policy (unat tag_count)
                         (\<lparr>bw_visited = [], bw_entries = [info_entry]\<rparr>, first, if next_context \<noteq> 0 then 1 else 0);
                       case r of
                         Inl e \<Rightarrow> Some (Inl e)
                       | Inr st \<Rightarrow> from_v1_finish output_address buf capacity tag_count report st
                     }
                   }
               })
      | _ \<Rightarrow> Some (Inl BBP_V2_ERR_NULL))"

section \<open>Model of the conversion to v1\<close>

definition restore_info :: "u8 list \<Rightarrow> u8 list \<Rightarrow> u32 \<Rightarrow> u64 \<Rightarrow> u32 \<Rightarrow> u8 list option" where
  "restore_info buf payload tag_count first_tag total_sz =
     do {
       buf \<leftarrow> wr buf 0 (replicate (unat (sizeof struct_bbp_info)) 0);
       buf \<leftarrow> wr buf 0 bbp_info_magic;
       buf \<leftarrow> put16 buf 16 BBP_VERSION_MAJOR;
       buf \<leftarrow> put16 buf 18 BBP_VERSION_MINOR;
       buf \<leftarrow> put32 buf 20 total_sz;
       x \<leftarrow> rd payload 0 32; buf \<leftarrow> wr buf 24 x;
       x \<leftarrow> rd payload 32 16; buf \<leftarrow> wr buf 56 x;
       x \<leftarrow> rd payload 48 16; buf \<leftarrow> wr buf 72 x;
       v \<leftarrow> get64 payload 64; buf \<leftarrow> put64 buf 88 v;
       v \<leftarrow> get64 payload 72; buf \<leftarrow> put64 buf 96 v;
       v \<leftarrow> get64 payload 80; buf \<leftarrow> put64 buf 104 v;
       w \<leftarrow> get16 payload 88; buf \<leftarrow> put16 buf 112 w;
       w \<leftarrow> get16 payload 90; buf \<leftarrow> put16 buf 114 w;
       buf \<leftarrow> put32 buf 116 tag_count;
       buf \<leftarrow> put64 buf 120 first_tag;
       v \<leftarrow> get64 payload 96; buf \<leftarrow> put64 buf 128 v;
       c \<leftarrow> crc_skip buf (sizeof struct_bbp_info) 136;
       put64 buf 136 c
     }"

text \<open>The status of \<open>bbp_v2_get_entry\<close> is ignored by the code; after a failure its entry would be
  indeterminate, which is an access error here.\<close>

definition entry_of :: "bbp_v2_view \<Rightarrow> nat \<Rightarrow> bbp_v2_entry_view option" where
  "entry_of view i =
     do {
       r \<leftarrow> bbp_v2_get_entry (Some view) (of_nat i) True;
       case r of Inl _ \<Rightarrow> None | Inr e \<Rightarrow> Some e
     }"

text \<open>The test on the fields of a tag entry.\<close>

definition v1_entry_bad :: "bbp_v2_entry_view \<Rightarrow> bool option" where
  "v1_entry_bad e =
     sc_or (Some (e_flags e AND BBP_V2_EF_V1_WIRE = 0 \<or>
         e_flags e AND NOT (BBP_V2_EF_V1_WIRE OR BBP_V2_EF_EXTERNAL_PHYS) \<noteq> 0 \<or>
         e_size e < sizeof struct_bbp_tag_header \<or> e_size e > V1_MAX_TAG_SIZE))
       (sc_or (ne64 (e_data e) 0 (e_type e))
       (sc_or (map_option (\<lambda>v. ucast v \<noteq> e_size e) (get32 (e_data e) 8))
       (sc_or (ne16 (e_data e) 12 (e_version e))
       (sc_or (ne64 (e_data e) 16 0) (ne64 (e_data e) 24 0)))))"

text \<open>One iteration of the first loop; the state is \<open>cursor\<close> and \<open>external_count\<close>.\<close>

definition to_v1_check :: "bbp_v2_view \<Rightarrow> nat \<Rightarrow> u64 \<Rightarrow> u32 \<Rightarrow> (bbp_v2_status + u64 \<times> u32) option" where
  "to_v1_check view i cursor external_count =
     do {
       e \<leftarrow> entry_of view (i + 1);
       bad \<leftarrow> v1_entry_bad e;
       if bad then Some (Inl BBP_V2_ERR_SOURCE)
       else do {
         external \<leftarrow> tag_external_references (e_data e) (e_size e);
         if external < 0 \<or> external \<noteq> 0 \<and> e_flags e AND BBP_V2_EF_EXTERNAL_PHYS = 0
         then Some (Inl BBP_V2_ERR_SOURCE)
         else let external_count = (if e_flags e AND BBP_V2_EF_EXTERNAL_PHYS \<noteq> 0 then external_count + 1 else external_count) in
           if cursor > - 1 - 7 then Some (Inl BBP_V2_ERR_OVERFLOW)
           else let cursor = (cursor + 7) AND NOT 7 in
             if e_size e > - 1 - cursor then Some (Inl BBP_V2_ERR_OVERFLOW)
             else if cursor + e_size e > V1_MAX_INFO_SIZE then Some (Inl BBP_V2_ERR_EXTENT)
             else Some (Inr (cursor + e_size e, external_count))
       }
     }"

fun to_v1_checks :: "bbp_v2_view \<Rightarrow> nat list \<Rightarrow> u64 \<Rightarrow> u32 \<Rightarrow> (bbp_v2_status + u64 \<times> u32) option" where
  "to_v1_checks view [] cursor external_count = Some (Inr (cursor, external_count))"
| "to_v1_checks view (i # is) cursor external_count =
     do {
       r \<leftarrow> to_v1_check view i cursor external_count;
       case r of Inl e \<Rightarrow> Some (Inl e) | Inr (cursor, external_count) \<Rightarrow> to_v1_checks view is cursor external_count
     }"

text \<open>The second loop: copy, link and seal every tag.\<close>

fun to_v1_emit :: "bbp_v2_view \<Rightarrow> u64 \<Rightarrow> u32 \<Rightarrow> nat list \<Rightarrow> u8 list \<Rightarrow> u64 \<Rightarrow> u8 list option" where
  "to_v1_emit view output_phys tag_count [] buf cursor = Some buf"
| "to_v1_emit view output_phys tag_count (i # is) buf cursor =
     do {
       e \<leftarrow> entry_of view (i + 1);
       let cursor = (cursor + 7) AND NOT 7;
       let tag = unat cursor;
       x \<leftarrow> rd (e_data e) 0 (unat (e_size e));
       buf \<leftarrow> wr buf tag x;
       let next_tag = (if of_nat i + 1 < tag_count then output_phys + ((cursor + e_size e + 7) AND NOT 7) else 0);
       buf \<leftarrow> put64 buf (tag + 16) next_tag;
       buf \<leftarrow> put64 buf (tag + 24) 0;
       c \<leftarrow> crc_skip (drop tag buf) (e_size e) 24;
       buf \<leftarrow> put64 buf (tag + 24) c;
       to_v1_emit view output_phys tag_count is buf (cursor + e_size e)
     }"

text \<open>The checks of the first entry.\<close>

definition check_info_entry :: "bbp_v2_entry_view \<Rightarrow> (bbp_v2_status + u32) option" where
  "check_info_entry e =
     (if e_type e \<noteq> BBP_V2_ENTRY_V1_INFO \<or> e_version e \<noteq> BBP_VERSION_MINOR \<or> e_size e \<noteq> V1_INFO_PAYLOAD_BYTES
        \<or> e_flags e AND NOT BBP_V2_EF_EXTERNAL_PHYS \<noteq> 0 then Some (Inl BBP_V2_ERR_SOURCE)
      else do {
        next_context \<leftarrow> get64 (e_data e) 96;
        Some (if next_context \<noteq> 0 \<and> e_flags e AND BBP_V2_EF_EXTERNAL_PHYS = 0 then Inl BBP_V2_ERR_SOURCE
          else Inr (if e_flags e AND BBP_V2_EF_EXTERNAL_PHYS \<noteq> 0 then 1 else 0))
      })"

text \<open>The stores into the output, once nothing can fail any more.\<close>

definition to_v1_write ::
  "bbp_v2_view \<Rightarrow> bbp_v2_entry_view \<Rightarrow> u64 \<Rightarrow> u32 \<Rightarrow> u64 \<Rightarrow> u8 list \<Rightarrow> u8 list option" where
  "to_v1_write checked info_entry output_phys tag_count total_sz buf =
     do {
       buf \<leftarrow> wr buf 0 (replicate (unat total_sz) 0);
       buf \<leftarrow> to_v1_emit checked output_phys tag_count [0..<unat tag_count] buf (sizeof struct_bbp_info);
       restore_info buf (e_data info_entry) tag_count
         (if tag_count \<noteq> 0 then output_phys + sizeof struct_bbp_info else 0) (ucast total_sz)
     }"

text \<open>What follows the first loop.\<close>

definition to_v1_finish ::
  "u64 \<Rightarrow> bbp_v2_view \<Rightarrow> bbp_v2_entry_view \<Rightarrow> u32 \<Rightarrow> u64 \<Rightarrow> u8 list \<Rightarrow> u64 \<Rightarrow> u64 \<Rightarrow> bool \<Rightarrow> u32 \<Rightarrow>
   u64 \<times> u32 \<Rightarrow> (bbp_v2_status + u8 list \<times> u64 \<times> bbp_v2_bridge_report option) option" where
  "to_v1_finish data_address checked info_entry policy output_address buf capacity output_phys report tag_count st =
     (case st of (total_sz, external_count) \<Rightarrow>
        if external_count \<noteq> 0 \<and> policy AND BBP_V2_BRIDGE_ALLOW_EXTERNAL_PHYS = 0 then Some (Inl BBP_V2_ERR_POLICY)
        else if total_sz > capacity then Some (Inl BBP_V2_ERR_CAPACITY)
        else if output_phys = 0 \<or> output_phys AND 7 \<noteq> 0 \<or> output_phys \<ge> V1_MAX_PHYS \<or> total_sz > V1_MAX_PHYS - output_phys
        then Some (Inl BBP_V2_ERR_OVERFLOW)
        else if memory_ranges_overlap output_address total_sz data_address (v_total_size checked)
        then Some (Inl BBP_V2_ERR_SOURCE)
        else do {
          buf \<leftarrow> to_v1_write checked info_entry output_phys tag_count total_sz buf;
          Some (Inr (buf, total_sz, if report then Some \<lparr>br_tag_count = tag_count,
            br_external_reference_tags = external_count\<rparr> else None))
        })"

text \<open>\<open>source\<close> is a view together with the address of its bytes, 0 for a NULL data pointer.\<close>

definition bbp_v2_to_v1 ::
  "(u64 \<times> bbp_v2_view) option \<Rightarrow> u32 \<Rightarrow> u64 \<Rightarrow> u8 list \<Rightarrow> u64 \<Rightarrow> u64 \<Rightarrow> bool \<Rightarrow> bool \<Rightarrow>
   (bbp_v2_status + u8 list \<times> u64 \<times> bbp_v2_bridge_report option) option" where
  "bbp_v2_to_v1 source policy output_address buf capacity output_phys written report =
     (case source of
        None \<Rightarrow> Some (Inl BBP_V2_ERR_NULL)
      | Some (data_address, src) \<Rightarrow>
          if data_address = 0 \<or> output_address = 0 \<or> \<not> written then Some (Inl BBP_V2_ERR_NULL)
          else do {
            r \<leftarrow> bbp_v2_parse (Some (v_data src)) (v_total_size src) True;
            case r of
              Inl e \<Rightarrow> Some (Inl e)
            | Inr checked \<Rightarrow>
                if v_entry_count checked = 0 then Some (Inl BBP_V2_ERR_SOURCE)
                else do {
                  info_entry \<leftarrow> entry_of checked 0;
                  r \<leftarrow> check_info_entry info_entry;
                  case r of
                    Inl e \<Rightarrow> Some (Inl e)
                  | Inr external_count \<Rightarrow> do {
                      let tag_count = v_entry_count checked - 1;
                      r \<leftarrow> to_v1_checks checked [0..<unat tag_count] (sizeof struct_bbp_info) external_count;
                      case r of
                        Inl e \<Rightarrow> Some (Inl e)
                      | Inr st \<Rightarrow> to_v1_finish data_address checked info_entry policy output_address buf capacity
                          output_phys report tag_count st
                    }
                }
          })"

end
