(* ===== verification/Bridge_Spec.thy ===== *)
theory Bridge_Spec
  imports Bridge
begin

text \<open>
  From a v1 chain to a capsule. The reference is a chain of tags as the mapping of the caller shows
  it: a valid information block, then well-formed tags with right checksums, pairwise disjoint, ending after the
  announced number. The conversion either refuses, or returns a capsule whose entries are the information block
  and the tags with their linkage cleared; it needs of the mapping only that it covers what it is asked for.
\<close>

unbundle bit_operations_syntax

section \<open>Clearing the linkage of a laid out tag\<close>

text \<open>The tag with its next pointer and checksum cleared.\<close>

definition unlinked :: "u8 list \<Rightarrow> u8 list" where
  "unlinked t = patch t 16 (replicate 16 0)"

definition unlink_source :: "bbp_v2_build_entry \<Rightarrow> bbp_v2_build_entry" where
  "unlink_source e = e\<lparr>be_bytes := unlinked (be_bytes e)\<rparr>"

lemma unlink_source_fields [simp]:
  "be_type (unlink_source e) = be_type e" "be_flags (unlink_source e) = be_flags e"
  "be_version (unlink_source e) = be_version e" "be_alignment (unlink_source e) = be_alignment e"
  "be_addr (unlink_source e) = be_addr e" "be_size (unlink_source e) = be_size e"
  "be_bytes (unlink_source e) = unlinked (be_bytes e)"
  by (simp_all add: unlink_source_def)

lemma length_unlinked [simp]: "32 \<le> length t \<Longrightarrow> length (unlinked t) = length t"
  by (simp add: unlinked_def)

lemma payload_unlink:
  assumes "32 \<le> unat (be_size e)" "unat (be_size e) \<le> length (be_bytes e)"
  shows "payload_of (unlink_source e) = unlinked (payload_of e)"
  using assms by (simp add: payload_of_def unlinked_def patch_def min_def drop_take) linarith

lemma nth_update: "xs[i := x] ! j = (if i = j \<and> j < length xs then x else xs ! j)"
proof (induction xs arbitrary: i j)
  case (Cons y ys)
  then show ?case by (cases i; cases j) simp_all
qed simp

text \<open>The layout depends on sizes and alignments only.\<close>

lemma cursor_at_update:
  assumes "be_size e = be_size (es ! i)" "be_alignment e = be_alignment (es ! i)"
  shows "cursor_at (es[i := e]) f j = cursor_at es f j"
  by (induction j) (use assms in \<open>auto simp: nth_update\<close>)

lemma start_at_update:
  assumes "be_size e = be_size (es ! i)" "be_alignment e = be_alignment (es ! i)"
  shows "start_at (es[i := e]) f j = start_at es f j"
  unfolding start_at_def cursor_at_update [OF assms] using assms by (auto simp: nth_update)

lemma source_work_update:
  "be_size e = be_size (es ! i) \<Longrightarrow> source_work (es[i := e]) j = source_work es j"
  unfolding source_work_def by (intro arg_cong [where f = sum_list] map_cong) (auto simp: nth_update)

lemma sources_ok_unlink:
  assumes "sources_ok es c" "32 \<le> unat (be_size (es ! i))" "i < c"
  shows "sources_ok (es[i := unlink_source (es ! i)]) c"
proof -
  have b: "unat (be_size (es ! i)) \<le> length (be_bytes (es ! i))" using assms by (auto simp: sources_ok_def)
  have k: "source_ok (es[i := unlink_source (es ! i)] ! k) \<longleftrightarrow> source_ok (es ! k)"
    "be_size (es[i := unlink_source (es ! i)] ! k) = be_size (es ! k)"
    "length (be_bytes (es[i := unlink_source (es ! i)] ! k)) = length (be_bytes (es ! k))" for k
    using b assms(2) by (auto simp: nth_update source_ok_def)
  show ?thesis
    using assms(1) unfolding sources_ok_def k length_list_update
    by (subst cursor_at_update) simp_all
qed

text \<open>One iteration of the loop over a capsule.\<close>

definition unlink_writes :: "bbp_v2_build_entry \<Rightarrow> nat \<Rightarrow> nat \<Rightarrow> (nat \<times> u8 list) list" where
  "unlink_writes e a s = [(s + 16, put_le 8 (0 :: u64)), (s + 24, put_le 8 (0 :: u64)),
     (a + 32, put_le 8 (bbp_crc64 (payload_of (unlink_source e))))]"

lemma nth_unlinked:
  assumes "32 \<le> length t" "q < length t"
  shows "unlinked t ! q = (if 16 \<le> q \<and> q < 32 then 0 else t ! q)"
  using assms by (auto simp: unlinked_def nth_patch)

lemma unlink_slice:
  assumes "slice p s k = t" "32 \<le> k" "s + k \<le> length p"
  shows "slice (patches p [(s + 16, put_le 8 (0 :: u64)), (s + 24, put_le 8 (0 :: u64))]) s k = unlinked t"
    (is "slice ?p' s k = _")
proof (rule nth_equalityI)
  have len: "length t = k" "length ?p' = length p" using assms by (auto simp: slice_def)
  then show "length (slice ?p' s k) = length (unlinked t)" using assms by (simp add: slice_def)
  fix q assume "q < length (slice ?p' s k)"
  then have q: "q < k" by (simp add: slice_def)
  have "t ! q = p ! (s + q)" using assms(1,3) q by (auto simp: slice_nth)
  then show "slice ?p' s k ! q = unlinked t ! q"
    using q assms(2,3) len by (simp add: slice_nth nth_unlinked nth_patch put_le_0)
qed

lemma dirent_unlink:
  assumes "slice p a 48 = dirent_of e s" "a + 48 \<le> length p"
  shows "slice (patch p (a + 32) (put_le 8 (bbp_crc64 (payload_of (unlink_source e))))) a 48 = dirent_of (unlink_source e) s"
    (is "slice ?p' a 48 = _")
proof -
  have "slice ?p' a 48 = slice ?p' a 32 @ slice ?p' (a + 32) 8 @ slice ?p' (a + 40) 8"
    using slice_fields [of ?p' a 0 "[32, 8, 8]"] by simp
  also have "slice ?p' (a + 32) 8 = put_le 8 (bbp_crc64 (payload_of (unlink_source e)))"
    using assms(2) by (subst slice_patch_same) simp_all
  also have "slice ?p' a 32 = slice p a 32" using assms(2) by (subst slice_patch_disj) simp_all
  also have "slice p a 32 = slice (slice p a 48) 0 32" by (simp add: slice_slice)
  also have "slice ?p' (a + 40) 8 = slice p (a + 40) 8" using assms(2) by (subst slice_patch_disj) simp_all
  also have "slice p (a + 40) 8 = slice (slice p a 48) 40 8" by (simp add: slice_slice)
  also have "slice (slice p a 48) 0 32 = put_le 8 (be_type e) @ put_le 4 (be_flags e) @ put_le 2 (be_version e) @ replicate 2 0 @
     put_le 8 s @ put_le 8 (be_size e)"
    unfolding assms(1) dirent_of_def by (simp add: slice_def)
  also have "slice (slice p a 48) 40 8 = put_le 4 (be_alignment e) @ replicate 4 0"
    unfolding assms(1) dirent_of_def by (simp add: slice_def)
  finally show ?thesis by (simp add: dirent_of_def)
qed

lemma unlink_step:
  assumes lay: "laid_out es cnt n crc p" and i: "i < unat cnt" and sz: "32 \<le> unat (be_size (es ! i))"
  defines "s \<equiv> start_at es (ent 64 (unat cnt)) i"
  defines "p' \<equiv> patches p (unlink_writes (es ! i) (ent 64 i) s)"
  shows "laid_out (es[i := unlink_source (es ! i)]) cnt n crc p'"
    "length p' = length p" "drop (unat n) p' = drop (unat n) p"
proof -
  let ?c = "unat cnt" and ?e = "es ! i"
  let ?f = "ent 64 ?c" and ?es = "es[i := unlink_source ?e]"
  have ok: "sources_ok es ?c" and n: "unat n = cursor_at es ?f ?c" and len: "unat n \<le> length p"
    and inv: "emit_inv es ?c (unat n) (header_of cnt n crc) ?c p"
    using lay unfolding laid_out_def by blast+
  have e: "unat (be_size ?e) \<le> length (be_bytes ?e)" "?c \<le> length es" using ok i by (auto simp: sources_ok_def)
  have lo: "ent 64 i + 48 \<le> s" using start_at_bounds(1) [OF ok i] i unfolding s_def by linarith
  have hi: "s + unat (be_size ?e) \<le> unat n" using start_at_bounds(2) [OF ok i] n by (simp add: s_def)
  have bnd: "list_all (\<lambda>(d, qs). d + length qs \<le> unat n) (unlink_writes ?e (ent 64 i) s)"
    using lo hi sz by (simp add: unlink_writes_def)
  show lp: "length p' = length p"
    unfolding p'_def using bnd len by (intro length_patches) (auto simp: list_all_iff)
  have keep: "slice p' d k = slice p d k"
    if "d + k \<le> ent 64 i \<or> ent 64 i + 48 \<le> d" "d + k \<le> s \<or> s + unat (be_size ?e) \<le> d" for d k
    unfolding p'_def using that lo hi len sz by (intro slice_patches_disj) (auto simp: unlink_writes_def)
  have nth: "p' ! q = p ! q" if "q < length p" "q < ent 64 i \<or> ent 64 i + 48 \<le> q"
    "q < s \<or> s + unat (be_size ?e) \<le> q" for q
    unfolding p'_def using that lo hi len sz by (intro nth_patches_out) (auto simp: unlink_writes_def)
  show "drop (unat n) p' = drop (unat n) p"
    using nth lo hi lp by (intro nth_equalityI) auto
  have old: "slice p (ent 64 j) 48 = dirent_of (es ! j) (of_nat (start_at es ?f j))"
    "slice p (start_at es ?f j) (unat (be_size (es ! j))) = payload_of (es ! j)" if "j < ?c" for j
    using inv that by (auto simp: emit_inv_def)
  define p1 where "p1 = patches p [(s + 16, put_le 8 (0 :: u64)), (s + 24, put_le 8 (0 :: u64))]"
  have p': "p' = patch p1 (ent 64 i + 32) (put_le 8 (bbp_crc64 (payload_of (unlink_source ?e))))"
    by (simp add: p'_def p1_def unlink_writes_def)
  have l1: "length p1 = length p" unfolding p1_def using hi sz len by (intro length_patches) auto
  have "slice p1 (ent 64 i) 48 = slice p (ent 64 i) 48"
    unfolding p1_def using lo hi len sz by (intro slice_patches_disj) auto
  then have d: "slice p' (ent 64 i) 48 = dirent_of (unlink_source ?e) (of_nat s)"
    unfolding p' using old(1) [OF i] lo hi len l1 by (intro dirent_unlink) (simp_all add: s_def)
  have "slice p' s (unat (be_size ?e)) = slice p1 s (unat (be_size ?e))"
    unfolding p' using lo hi len l1 by (intro slice_patch_disj) auto
  also have "\<dots> = payload_of (unlink_source ?e)"
    unfolding p1_def payload_unlink [OF sz e(1)] using old(2) [OF i] sz hi len by (intro unlink_slice) (simp_all add: s_def)
  finally have q: "slice p' s (unat (be_size ?e)) = payload_of (unlink_source ?e)" .
  have st: "start_at ?es ?f j = start_at es ?f j" "be_size (?es ! j) = be_size (es ! j)" for j
    using i e(2) by (subst start_at_update; simp) (simp add: nth_update)
  have other: "slice p' (ent 64 j) 48 = slice p (ent 64 j) 48"
    "slice p' (start_at es ?f j) (unat (be_size (es ! j))) = slice p (start_at es ?f j) (unat (be_size (es ! j)))"
    if "j < ?c" "j \<noteq> i" for j
  proof -
    have "start_at es ?f j + unat (be_size (es ! j)) \<le> s \<or> s + unat (be_size ?e) \<le> start_at es ?f j"
      using start_at_bounds(3) [OF ok i, of j] start_at_bounds(3) [OF ok that(1), of i] that(2) unfolding s_def by linarith
    moreover have "ent 64 j + 48 \<le> s" "ent 64 i + 48 \<le> start_at es ?f j"
      using start_at_bounds(1) [OF ok i] start_at_bounds(1) [OF ok that(1)] that(1) i unfolding s_def by linarith+
    moreover have "ent 64 j + 48 \<le> ent 64 i \<or> ent 64 i + 48 \<le> ent 64 j" using that(2) by linarith
    ultimately show "slice p' (ent 64 j) 48 = slice p (ent 64 j) 48"
      "slice p' (start_at es ?f j) (unat (be_size (es ! j))) = slice p (start_at es ?f j) (unat (be_size (es ! j)))"
      by (intro keep; simp)+
  qed
  have "slice p' (ent 64 j) 48 = dirent_of (?es ! j) (of_nat (start_at es ?f j)) \<and>
      slice p' (start_at es ?f j) (unat (be_size (es ! j))) = payload_of (?es ! j)" if "j < ?c" for j
    using d q other [OF that] old [OF that] e(2) that by (cases "j = i") (auto simp: s_def nth_update)
  moreover have "slice p' 0 64 = header_of cnt n crc"
    using keep [of 0 64] lo inv by (simp add: emit_inv_def)
  moreover have "p' ! x = 0" if x: "x < unat n" "?f \<le> x"
    "\<forall>j<?c. x < start_at es ?f j \<or> start_at es ?f j + unat (be_size (es ! j)) \<le> x" for x
  proof -
    have "p' ! x = p ! x" using x i len by (intro nth) (auto simp: s_def)
    then show ?thesis using inv x by (simp add: emit_inv_def)
  qed
  ultimately have "emit_inv ?es ?c (unat n) (header_of cnt n crc) ?c p'"
    unfolding emit_inv_def st by blast
  moreover have "cursor_at ?es ?f ?c = cursor_at es ?f ?c" "source_work ?es ?c = source_work es ?c"
    by (subst cursor_at_update; simp) (subst source_work_update; simp)
  ultimately show "laid_out ?es cnt n crc p'"
    using sources_ok_unlink [OF ok sz i] lay lp unfolding laid_out_def by simp
qed

lemma normalize_step:
  assumes lay: "laid_out es cnt n crc p" and i: "Suc i < unat cnt" and sz: "32 \<le> unat (be_size (es ! Suc i))"
  shows "normalize_tags p (i # is) = normalize_tags
    (patches p (unlink_writes (es ! Suc i) (ent 64 (Suc i)) (start_at es (ent 64 (unat cnt)) (Suc i)))) is"
proof -
  let ?e = "es ! Suc i" and ?a = "ent 64 (Suc i)" and ?s = "start_at es (ent 64 (unat cnt)) (Suc i)"
  have ok: "sources_ok es (unat cnt)" and n: "unat n = cursor_at es (ent 64 (unat cnt)) (unat cnt)" "unat n \<le> length p"
    and inv: "emit_inv es (unat cnt) (unat n) (header_of cnt n crc) (unat cnt) p"
    using lay unfolding laid_out_def by blast+
  have c: "unat cnt \<le> 1024" "unat n \<le> 67108864" "unat (be_size ?e) \<le> length (be_bytes ?e)"
    using ok n(1) i by (auto simp: sources_ok_def)
  have "ent 64 j + 48 \<le> start_at es (ent 64 (unat cnt)) j" if "j < unat cnt" for j
    using start_at_bounds(1) [OF ok that] that by linarith
  note lo = this [OF i]
  have hi: "?s + unat (be_size ?e) \<le> unat n" using start_at_bounds(2) [OF ok i] n by simp
  have "unat (of_nat (Suc i) * BBP_V2_DIRENT_SIZE :: u64) = 48 * Suc i"
    using c(1) i by (simp only: v2_consts unat_word_ariths) (simp add: unat_of_nat_u64 del: of_nat_Suc)
  then have a: "unat (BBP_V2_HEADER_SIZE + of_nat (i + 1) * BBP_V2_DIRENT_SIZE) = ?a"
    using c(1) i by (subst unat_add_u64) (simp_all add: v2_consts del: of_nat_Suc)
  have d: "slice p ?a 48 = dirent_of ?e (of_nat ?s)" "slice p ?s (unat (be_size ?e)) = payload_of ?e"
    using inv i by (auto simp: emit_inv_def)
  have s: "unat (of_nat ?s :: u64) = ?s" using hi c(2) by (simp add: unat_of_nat_u64)
  define p1 where "p1 = patches p [(?s + 16, put_le 8 (0 :: u64)), (?s + 24, put_le 8 (0 :: u64))]"
  have l1: "length p1 = length p" unfolding p1_def using hi sz n(2) by (intro length_patches) auto
  have "slice p1 ?s (unat (be_size ?e)) = payload_of (unlink_source ?e)"
    unfolding p1_def payload_unlink [OF sz c(3)] using d(2) sz hi n(2) by (intro unlink_slice) simp_all
  then have r: "rd p1 ?s (unat (be_size ?e)) = Some (payload_of (unlink_source ?e))"
    using hi n(2) l1 by (simp add: rd_def slice_def)
  have "get64 p (?a + 16) = Some (of_nat ?s)" "get64 p (?a + 24) = Some (be_size ?e)"
    using dirent_fields(5,6) [OF d(1)] lo hi n(2) by (simp_all add: get_at)
  moreover have "put64 p (?s + 16) 0 \<bind> (\<lambda>b. put64 b (?s + 24) 0 \<bind> f) = f p1" for f :: "u8 list \<Rightarrow> u8 list option"
    using hi sz n(2) by (simp add: put_patch p1_def)
  moreover have "put64 p1 (?a + 32) (bbp_crc64 (payload_of (unlink_source ?e))) =
      Some (patches p (unlink_writes ?e ?a ?s))"
    using lo hi n(2) l1 by (simp add: put_patch p1_def unlink_writes_def)
  ultimately show ?thesis
    unfolding normalize_tags.simps Let_def a by (simp add: s r)
qed

text \<open>The sources with the tags unlinked from position \<open>i\<close> on.\<close>

definition unlink_from :: "nat \<Rightarrow> bbp_v2_build_entry list \<Rightarrow> bbp_v2_build_entry list" where
  "unlink_from i es = take i es @ map unlink_source (drop i es)"

lemma unlink_from_step:
  "i < length es \<Longrightarrow> unlink_from (Suc i) (es[i := unlink_source (es ! i)]) = unlink_from i es"
  by (simp add: unlink_from_def take_Suc_conv_app_nth Cons_nth_drop_Suc [symmetric])

lemma normalize_tags_eq:
  assumes "length es = unat cnt"
  shows "\<lbrakk>laid_out es cnt n crc p; Suc i \<le> unat cnt; \<forall>k<unat cnt. i < k \<longrightarrow> 32 \<le> unat (be_size (es ! k))\<rbrakk> \<Longrightarrow>
    \<exists>p'. normalize_tags p [i..<unat cnt - 1] = Some p' \<and> laid_out (unlink_from (Suc i) es) cnt n crc p' \<and>
      length p' = length p \<and> drop (unat n) p' = drop (unat n) p"
  using assms
proof (induction "unat cnt - 1 - i" arbitrary: i p es)
  case 0
  then show ?case by (auto simp: unlink_from_def)
next
  case (Suc m)
  define q where "q = patches p (unlink_writes (es ! Suc i) (ent 64 (Suc i)) (start_at es (ent 64 (unat cnt)) (Suc i)))"
  let ?es = "es[Suc i := unlink_source (es ! Suc i)]"
  have i: "Suc i < unat cnt" "[i..<unat cnt - 1] = i # [Suc i..<unat cnt - 1]"
    using Suc.hyps(2) by (simp_all add: upt_conv_Cons)
  have sz: "32 \<le> unat (be_size (es ! Suc i))" using Suc.prems i by simp
  note step = unlink_step [OF Suc.prems(1) i(1) sz, folded q_def]
  have m: "m = unat cnt - 1 - Suc i" using Suc.hyps(2) by simp
  have "\<forall>k<unat cnt. Suc i < k \<longrightarrow> 32 \<le> unat (be_size (?es ! k))"
    using Suc.prems(3) by (simp add: nth_update)
  then obtain p' where "normalize_tags q [Suc i..<unat cnt - 1] = Some p'"
    "laid_out (unlink_from (Suc (Suc i)) ?es) cnt n crc p'" "length p' = length q" "drop (unat n) p' = drop (unat n) q"
    using Suc.hyps(1) [of "Suc i" ?es q] step(1) m i(1) Suc.prems(4) by auto
  then show ?case
    using normalize_step [OF Suc.prems(1) i(1) sz, folded q_def] step(2,3) i unlink_from_step [of "Suc i" es] Suc.prems(4) by auto
qed

section \<open>Reference tests\<close>

text \<open>Two readings of a tag that differ in its linkage at most.\<close>

definition same_body :: "nat \<Rightarrow> u8 list \<Rightarrow> u8 list \<Rightarrow> bool" where
  "same_body n s t \<longleftrightarrow> n \<le> length s \<and> n \<le> length t \<and> (\<forall>q<n. q < 16 \<or> 32 \<le> q \<longrightarrow> s ! q = t ! q)"

lemma same_body_slice:
  assumes "same_body n s t" "d + k \<le> n" "d + k \<le> 16 \<or> 32 \<le> d"
  shows "slice s d k = slice t d k"
proof (rule nth_equalityI)
  show "length (slice s d k) = length (slice t d k)" using assms by (auto simp: slice_def same_body_def)
  fix q assume "q < length (slice s d k)"
  then have "q < k" by (simp add: slice_def)
  then show "slice s d k ! q = slice t d k ! q" using assms by (auto simp: slice_nth same_body_def)
qed

lemma same_body_at:
  assumes "same_body n s t" "d \<le> 8 \<or> d = 12 \<or> 32 \<le> d"
  shows "d + 8 \<le> n \<Longrightarrow> d \<noteq> 12 \<Longrightarrow> le64_at s d = le64_at t d"
    "d + 4 \<le> n \<Longrightarrow> le32_at s d = le32_at t d" "d + 2 \<le> n \<Longrightarrow> le16_at s d = le16_at t d"
  using same_body_slice [OF assms(1)] assms(2) by (auto simp: le_at_slice)

lemma same_body_get:
  assumes "same_body n s t" "d \<le> 8 \<or> d = 12 \<or> 32 \<le> d"
  shows "d + 8 \<le> n \<Longrightarrow> d \<noteq> 12 \<Longrightarrow> get64 s d = Some (le64_at t d)"
    "d + 4 \<le> n \<Longrightarrow> get32 s d = Some (le32_at t d)" "d + 2 \<le> n \<Longrightarrow> get16 s d = Some (le16_at t d)"
  using same_body_at [OF assms] assms by (simp_all add: get_at same_body_def)

lemma any_nonzero_eq:
  assumes "same_body n s t"
  shows "\<forall>d\<in>set ds. 32 \<le> d \<and> d + 8 \<le> n \<Longrightarrow> any_nonzero s ds = Some (\<exists>d\<in>set ds. le64_at t d \<noteq> 0)"
  by (induction ds) (use same_body_get(1) [OF assms] in auto)

lemma element_refers_total:
  assumes "same_body n s t" "\<forall>d\<in>set ds. d + 8 \<le> stride"
  shows "\<lbrakk>32 \<le> base; base + stride * k \<le> n\<rbrakk> \<Longrightarrow>
    \<exists>b. element_refers s ds base stride k = Some b \<and> element_refers t ds base stride k = Some b"
proof (induction k arbitrary: base)
  case (Suc k)
  have t: "same_body n t t" using assms(1) by (simp add: same_body_def)
  have d: "\<forall>d\<in>set (map ((+) base) ds). 32 \<le> d \<and> d + 8 \<le> n" using assms(2) Suc.prems by auto
  show ?case
    using Suc.IH [of "base + stride"] Suc.prems any_nonzero_eq [OF assms(1) d] any_nonzero_eq [OF t d] by auto
qed auto

lemma array_fits_iff:
  assumes "0 < unat stride"
  shows "array_fits sz base count stride \<longleftrightarrow> unat base + unat stride * unat count \<le> unat sz"
proof (cases "base \<le> sz")
  case True
  then have "ucast count \<le> (sz - base) div stride \<longleftrightarrow> unat count \<le> (unat sz - unat base) div unat stride"
    by (simp add: word_le_nat_alt unat_div unat_sub unat_ucast_u32)
  also have "\<dots> \<longleftrightarrow> unat stride * unat count \<le> unat sz - unat base"
    using assms by (simp add: less_eq_div_iff_mult_less_eq mult.commute)
  finally show ?thesis using True by (auto simp: array_fits_def word_nat_simps)
qed (simp add: array_fits_def word_nat_simps)

lemma plain_references_total:
  assumes "same_body (unat sz) s t" "\<forall>d\<in>set ds. 32 \<le> d \<and> d + 8 \<le> unat (sizeof fixed)"
  shows "\<exists>r. plain_references s sz fixed ds = Some r \<and> plain_references t sz fixed ds = Some r"
proof (cases "sz < sizeof fixed")
  case False
  then have d: "\<forall>d\<in>set ds. 32 \<le> d \<and> d + 8 \<le> unat sz" using assms(2) by (auto simp: word_nat_simps)
  have "same_body (unat sz) t t" using assms(1) by (simp add: same_body_def)
  then show ?thesis
    using False any_nonzero_eq [OF assms(1) d] any_nonzero_eq [OF _ d] by (simp add: plain_references_def int_of_test_def)
qed (simp add: plain_references_def)

lemma array_references_total:
  assumes body: "same_body (unat sz) s t" and ds: "\<forall>d\<in>set ds. 32 \<le> d \<and> d + 8 \<le> unat (sizeof fixed)"
    and es: "\<forall>d\<in>set es. d + 8 \<le> unat (sizeof element)" "32 \<le> unat (sizeof fixed)" "0 < unat (sizeof element)"
    and c: "\<not> sz < sizeof fixed \<Longrightarrow> \<exists>n. cs = Some n \<and> ct = Some n"
  shows "\<exists>r. array_references s sz fixed cs element ds es = Some r \<and> array_references t sz fixed ct element ds es = Some r"
proof (cases "sz < sizeof fixed")
  case False
  then have d: "\<forall>d\<in>set ds. 32 \<le> d \<and> d + 8 \<le> unat sz" using ds by (auto simp: word_nat_simps)
  have t: "same_body (unat sz) t t" using body by (simp add: same_body_def)
  obtain n where n: "cs = Some n" "ct = Some n" using c False by blast
  show ?thesis
  proof (cases "array_fits sz (sizeof fixed) n (sizeof element)")
    case True
    then have "unat (sizeof fixed) + unat (sizeof element) * unat n \<le> unat sz"
      using es(3) by (simp add: array_fits_iff)
    then obtain b where "element_refers s es (unat (sizeof fixed)) (unat (sizeof element)) (unat n) = Some b"
      "element_refers t es (unat (sizeof fixed)) (unat (sizeof element)) (unat n) = Some b"
      using element_refers_total [OF body es(1,2)] by blast
    then show ?thesis
      using False True n any_nonzero_eq [OF body d] any_nonzero_eq [OF t d]
      by (simp add: array_references_def int_of_test_def)
  qed (use False n in \<open>simp add: array_references_def\<close>)
qed (simp add: array_references_def)

lemma both_if:
  "\<lbrakk>c \<Longrightarrow> \<exists>r. a = Some r \<and> a' = Some r; \<not> c \<Longrightarrow> \<exists>r. b = Some r \<and> b' = Some r\<rbrakk> \<Longrightarrow>
    \<exists>r. (if c then a else b) = Some r \<and> (if c then a' else b') = Some r"
  by simp

text \<open>The test reads the same in both, and stays within the tag.\<close>

lemma references_total:
  assumes body: "same_body (unat sz) s t" and sz: "32 \<le> unat sz"
  shows "\<exists>r. tag_external_references s sz = Some r \<and> tag_external_references t sz = Some r"
proof -
  have t: "same_body (unat sz) t t" using body by (simp add: same_body_def)
  note plain = plain_references_total [OF body] and arr = array_references_total [OF body]
  have g: "get32 s d = Some (le32_at t d)" "get16 s d = Some (le16_at t d)"
    "get32 t d = Some (le32_at t d)" "get16 t d = Some (le16_at t d)"
    if "\<not> sz < k" "d + 4 \<le> unat k" "32 \<le> d" for d k
    using same_body_get [OF body, of d] same_body_get [OF t, of d] that by (simp_all add: word_nat_simps)
  have id: "get64 s 0 = Some (le64_at t 0)" "get64 t 0 = Some (le64_at t 0)"
    using same_body_get(1) [OF body, of 0] same_body_get(1) [OF t, of 0] sz by simp_all
  note fb = arr [of "[32, 56]" struct_bbp_tag_framebuffer "[32]" struct_bbp_display_info
      "map_option ucast (get16 s 40)" "map_option ucast (get16 t 40)", simplified]
    and smp = arr [of "[]" struct_bbp_tag_smp "[32]" struct_bbp_cpu_info "get32 s 32" "get32 t 32", simplified]
    and mods = arr [of "[]" struct_bbp_tag_modules "[0, 96]" struct_bbp_module_entry "get32 s 32" "get32 t 32", simplified]
  have a: "any_nonzero s [32] = Some (le64_at t 32 \<noteq> 0)" "any_nonzero t [32] = Some (le64_at t 32 \<noteq> 0)"
    if "\<not> sz < 48"
    using any_nonzero_eq [OF body, of "[32]"] any_nonzero_eq [OF t, of "[32]"] that by (simp_all add: word_nat_simps)
  show ?thesis
    unfolding tag_external_references_def id bind.bind_lunit
    apply (rule both_if, rule plain, simp)+
    apply (rule both_if, rule both_if, simp, use g [of 40 32] g [of 40 36] in simp)
    apply (rule both_if, rule plain, simp)+
    apply (rule both_if, rule fb, use g [of 72 40] in simp)
    apply (rule both_if, rule smp, use g [of 48 32] in simp)
    apply (rule both_if, rule mods, use g [of 40 32] in simp)
    apply (rule both_if, rule both_if, simp, use g [of 48 40] a in simp)
    apply (rule both_if, rule both_if, simp, use g [of 72 40] in simp)
    apply (rule both_if, rule plain, simp, simp)
    done
qed

section \<open>Reading a tag of the v1 chain\<close>

text \<open>What \<open>bbp_bridge.h\<close> asks of \<open>map\<close>: a mapping covers the requested range.\<close>

definition map_covers :: "phys_map \<Rightarrow> bool" where
  "map_covers m \<longleftrightarrow> (\<forall>a k address bs. m a k = Some (address, bs) \<longrightarrow> unat k \<le> length bs)"

text \<open>The reference test of a whole tag, and the entry flags that follow from it.\<close>

definition refers :: "u8 list \<Rightarrow> int" where
  "refers t = the (tag_external_references t (of_nat (length t)))"

definition wire_flags :: "u8 list \<Rightarrow> u32" where
  "wire_flags t = BBP_V2_EF_V1_WIRE OR (if refers t \<noteq> 0 then BBP_V2_EF_EXTERNAL_PHYS else 0)"

definition external_allowed :: "u32 \<Rightarrow> bool" where
  "external_allowed policy \<longleftrightarrow> policy AND BBP_V2_BRIDGE_ALLOW_EXTERNAL_PHYS \<noteq> 0"

lemma refers_eq:
  assumes "unat sz \<le> length bs" "32 \<le> unat sz"
  shows "tag_external_references bs sz = Some (refers (take (unat sz) bs))"
proof -
  have "same_body (unat sz) bs (take (unat sz) bs)" using assms(1) by (simp add: same_body_def)
  moreover have "of_nat (length (take (unat sz) bs)) = sz" using assms(1) by (simp add: min_absorb2)
  ultimately show ?thesis
    using references_total [of sz bs "take (unat sz) bs"] assms(2) by (auto simp: refers_def)
qed

lemma refers_unlinked:
  assumes "32 \<le> length t" "length t < 2 ^ 64"
  shows "refers (unlinked t) = refers t"
proof -
  let ?sz = "of_nat (length t) :: u64"
  have u: "unat ?sz = length t" using assms(2) by (intro unat_of_nat_u64)
  have "same_body (unat ?sz) (unlinked t) t" using assms by (simp add: same_body_def u nth_unlinked)
  then show ?thesis
    using references_total [of ?sz "unlinked t" t] assms(1) u by (auto simp: refers_def)
qed

lemma crc_skip_eq:
  assumes "unat sz \<le> length p" "unat d + 8 \<le> unat sz"
  shows "crc_skip p sz d = Some (crc_skip_bytes (take (unat sz) p) (unat d))"
proof -
  have d: "unat (d + 8) = unat d + 8" using assms(2) unat_u64_less [of sz] unat_add_u64 [of d 8] by simp
  moreover have "unat (sz - d - 8) = unat sz - unat d - 8"
    using assms(2) by (simp add: unat_sub word_le_nat_alt)
  ultimately show ?thesis
    using assms by (simp add: crc_skip_def crc_skip_bytes_def rd_def min_def drop_take word_nat_simps)
qed

text \<open>A well-formed tag at a physical address.\<close>

definition v1_tag_at :: "phys_map \<Rightarrow> u64 \<Rightarrow> u8 list \<Rightarrow> bool" where
  "v1_tag_at m a t \<longleftrightarrow> a \<noteq> 0 \<and> 8 dvd unat a \<and> unat a + length t \<le> 2 ^ 48 \<and> 32 \<le> length t \<and>
     length t \<le> 16777216 \<and> unat (le32_at t 8) = length t \<and> crc_field_ok t 24 \<and> 0 \<le> refers t \<and>
     (\<exists>address bs. m a (of_nat (length t)) = Some (address, bs) \<and> t = take (length t) bs)"

text \<open>The source entry of a tag.\<close>

definition source_of :: "bbp_v2_build_entry \<Rightarrow> u8 list \<Rightarrow> bool" where
  "source_of e t \<longleftrightarrow> be_type e = le64_at t 0 \<and> be_flags e = wire_flags t \<and> be_version e = le16_at t 12 \<and>
     be_alignment e = 8 \<and> payload_of e = t \<and> unat (be_size e) = length t \<and> length t \<le> length (be_bytes e)"

definition apart :: "u64 \<times> u8 list \<Rightarrow> u64 \<times> u8 list \<Rightarrow> bool" where
  "apart x y \<longleftrightarrow> unat (fst x) + length (snd x) \<le> unat (fst y) \<or> unat (fst y) + length (snd y) \<le> unat (fst x)"

text \<open>What the workspace holds after the tags \<open>acc\<close>.\<close>

definition workspace_inv :: "phys_map \<Rightarrow> bbp_v2_build_entry \<Rightarrow> (u64 \<times> u8 list) list \<Rightarrow> bbp_v2_bridge_workspace \<Rightarrow> bool" where
  "workspace_inv m e acc w \<longleftrightarrow> bw_visited w = map fst acc \<and>
     (\<exists>fs. bw_entries w = e # fs \<and> list_all2 source_of fs (map snd acc)) \<and>
     (\<forall>x\<in>set acc. v1_tag_at m (fst x) (snd x)) \<and> sorted_wrt apart acc"

lemma header_reads:
  assumes "map_covers m" "m cur 32 = Some (ha, hb)"
  shows "rd hb 0 32 = Some (take 32 hb)" "get32 (take 32 hb) 8 = Some (le32_at hb 8)" "length (take 32 hb) = 32"
proof -
  have "32 \<le> length hb" using assms by (force simp: map_covers_def)
  then show "rd hb 0 32 = Some (take 32 hb)" "get32 (take 32 hb) 8 = Some (le32_at hb 8)" "length (take 32 hb) = 32"
    by (simp_all add: rd_def get_at le32_at_def drop_take)
qed

lemma tag_reads:
  assumes "map_covers m" "m cur 32 = Some (ha, hb)" "m cur sz = Some (address, bs)" "\<not> sz < 32"
  shows "bytes_equal bs 0 (take 32 hb) = Some (take 32 bs = take 32 hb)"
    "crc_skip bs sz 24 = Some (crc_skip_bytes (take (unat sz) bs) 24)"
    "tag_external_references bs sz = Some (refers (take (unat sz) bs))"
    "get64 bs 0 = Some (le64_at bs 0)" "get16 bs 12 = Some (le16_at bs 12)" "get64 bs 16 = Some (le64_at bs 16)"
    "ne64 bs 24 c = Some (le64_at bs 24 \<noteq> c)"
proof -
  have l: "unat sz \<le> length bs" "32 \<le> unat sz" using assms by (force simp: map_covers_def word_nat_simps)+
  show "bytes_equal bs 0 (take 32 hb) = Some (take 32 bs = take 32 hb)"
    using l header_reads(3) [OF assms(1,2)] bytes_equal_eq [of 0 "take 32 hb" bs] by simp
  show "crc_skip bs sz 24 = Some (crc_skip_bytes (take (unat sz) bs) 24)" using l by (subst crc_skip_eq) simp_all
  show "tag_external_references bs sz = Some (refers (take (unat sz) bs))" using l by (intro refers_eq)
  show "get64 bs 0 = Some (le64_at bs 0)" "get16 bs 12 = Some (le16_at bs 12)" "get64 bs 16 = Some (le64_at bs 16)"
    "ne64 bs 24 c = Some (le64_at bs 24 \<noteq> c)" using l by (simp_all add: get_at ne_at)
qed

lemma from_v1_tag_total: "map_covers m \<Longrightarrow> from_v1_tag (Some m) policy (w, cur, x) \<noteq> None"
  unfolding from_v1_tag_def prod.case bind.bind_lunit sizeof_simps
  by (auto simp: header_reads tag_reads Let_def split: option.splits)

lemma from_v1_tag_success:
  assumes "map_covers m" "from_v1_tag (Some m) policy (w, cur, x) = Some (Inr (w', cur', x'))"
  obtains ha hb address bs sz where "m cur 32 = Some (ha, hb)" "m cur sz = Some (address, bs)" "sz = ucast (le32_at hb 8)"
    "take 32 bs = take 32 hb" "cur \<noteq> 0" "cur AND 7 = 0" "cur < V1_MAX_PHYS" "\<not> sz < 32" "sz \<le> V1_MAX_TAG_SIZE"
    "sz \<le> V1_MAX_PHYS - cur" "crc_skip_bytes (take (unat sz) bs) 24 = le64_at bs 24" "0 \<le> refers (take (unat sz) bs)"
    "refers (take (unat sz) bs) \<noteq> 0 \<longrightarrow> external_allowed policy"
    "\<not> list_ex (\<lambda>(prior, e). cur < prior + be_size e \<and> prior < cur + sz) (zip (bw_visited w) (tl (bw_entries w)))"
    "w' = \<lparr>bw_visited = bw_visited w @ [cur], bw_entries = bw_entries w @ [\<lparr>be_type = le64_at bs 0,
       be_flags = wire_flags (take (unat sz) bs), be_version = le16_at bs 12, be_alignment = 8, be_addr = address,
       be_bytes = bs, be_size = sz\<rparr>]\<rparr>"
    "cur' = le64_at bs 16" "x' = (if refers (take (unat sz) bs) \<noteq> 0 then x + 1 else x)"
proof -
  note eq = assms(2) [unfolded from_v1_tag_def prod.case bind.bind_lunit sizeof_simps]
  obtain ha hb where h: "m cur 32 = Some (ha, hb)" using eq by (auto split: if_splits option.splits)
  define sz :: u64 where "sz = ucast (le32_at hb 8)"
  have nz: "\<not> sz < 32" using eq h by (auto simp: header_reads [OF assms(1) h] sz_def Let_def split: if_splits)
  obtain address bs where t: "m cur sz = Some (address, bs)"
    using eq h nz by (auto simp: header_reads [OF assms(1) h] sz_def Let_def split: if_splits option.splits)
  show ?thesis
    using eq h t nz
    by (intro that [OF h t]) (auto simp: header_reads [OF assms(1) h] tag_reads [OF assms(1) h t nz] sz_def [symmetric]
        Let_def external_allowed_def wire_flags_def not_less split: if_splits)
qed

text \<open>A well-formed tag that is new to the workspace is taken.\<close>

lemma from_v1_tag_accepts:
  assumes m: "map_covers m" and t: "v1_tag_at m cur t" and h: "m cur 32 = Some (ha, hb)" "take 32 hb = take 32 t"
    and b: "m cur (of_nat (length t)) = Some (address, bs)" "take (length t) bs = t"
    and new: "cur \<notin> set (bw_visited w)" "refers t = 0 \<or> external_allowed policy"
      "\<not> list_ex (\<lambda>(prior, e). cur < prior + be_size e \<and> prior < cur + of_nat (length t)) (zip (bw_visited w) (tl (bw_entries w)))"
  shows "\<exists>w' x'. from_v1_tag (Some m) policy (w, cur, x) = Some (Inr (w', le64_at t 16, x')) \<and> bw_entries w' = bw_entries w @
    [\<lparr>be_type = le64_at t 0, be_flags = wire_flags t, be_version = le16_at t 12, be_alignment = 8, be_addr = address,
      be_bytes = bs, be_size = of_nat (length t)\<rparr>]"
proof -
  let ?sz = "of_nat (length t) :: u64"
  have l: "cur \<noteq> 0" "8 dvd unat cur" "unat cur + length t \<le> 2 ^ 48" "32 \<le> length t" "length t \<le> 16777216"
    "unat (le32_at t 8) = length t" "crc_field_ok t 24" "0 \<le> refers t" using t by (auto simp: v1_tag_at_def)
  have u: "unat ?sz = length t" using l(5) by (simp add: unat_of_nat_u64)
  have "take k (drop d bs) = take k (drop d (take (length t) bs))" if "d + k \<le> 32" for d k
    using that l(4) by (simp add: drop_take min_absorb1)
  then have sub: "take k (drop d bs) = take k (drop d t)" if "d + k \<le> 32" for d k using that b(2) by metis
  have at: "le64_at bs d = le64_at t d" "le16_at bs d = le16_at t d" if "d + 8 \<le> 32" for d
    using sub [of d 8] sub [of d 2] that by (simp_all add: le64_at_def le16_at_def)
  have "le32_at hb 8 = le32_at (take 32 hb) 8" "le32_at (take 32 t) 8 = le32_at t 8" by (simp_all add: le32_at_def drop_take min_def)
  then have "unat (ucast (le32_at hb 8) :: u64) = unat ?sz" using h(2) l(6) u by (simp add: unat_ucast_u32)
  then have sz: "(ucast (le32_at hb 8) :: u64) = ?sz" by (simp add: word_unat_eq_iff)
  have n: "\<not> ?sz < 32" "\<not> ?sz > V1_MAX_TAG_SIZE" "\<not> ?sz > V1_MAX_PHYS - cur" "\<not> cur \<ge> V1_MAX_PHYS" "\<not> 32 > V1_MAX_PHYS - cur"
    using l u by (auto simp: word_nat_simps bridge_consts unat_sub)
  have "take 32 bs = take 32 hb" using sub [of 0 32] h(2) by simp
  moreover have "crc_skip_bytes (take (unat ?sz) bs) 24 = le64_at bs 24"
    using l(7) at(1) [of 24] by (simp add: u b(2) crc_field_ok_def le64_at_def)
  ultimately show ?thesis
    unfolding from_v1_tag_def prod.case bind.bind_lunit sizeof_simps h(1) option.case
    using l(1,2,8) n new b(1) at(1) [of 0] at(1) [of 16] at(2) [of 12]
    by (simp add: header_reads [OF m h(1)] tag_reads [OF m h(1) b(1) n(1)] sz u b(2) and_7_eq_0_iff external_allowed_def
        wire_flags_def Let_def)
qed

lemma from_v1_tag_step:
  assumes m: "map_covers m" and inv: "workspace_inv m e acc w"
    and eq: "from_v1_tag (Some m) policy (w, cur, x) = Some (Inr (w', cur', x'))"
  obtains t where "v1_tag_at m cur t" "refers t \<noteq> 0 \<longrightarrow> external_allowed policy" "cur' = le64_at t 16"
    "x' = (if refers t \<noteq> 0 then x + 1 else x)" "workspace_inv m e (acc @ [(cur, t)]) w'"
proof -
  obtain ha hb address bs sz where f: "m cur 32 = Some (ha, hb)" "m cur sz = Some (address, bs)" "sz = ucast (le32_at hb 8)"
    "take 32 bs = take 32 hb" "cur \<noteq> 0" "cur AND 7 = 0" "cur < V1_MAX_PHYS" "\<not> sz < 32" "sz \<le> V1_MAX_TAG_SIZE"
    "sz \<le> V1_MAX_PHYS - cur" "crc_skip_bytes (take (unat sz) bs) 24 = le64_at bs 24" "0 \<le> refers (take (unat sz) bs)"
    "refers (take (unat sz) bs) \<noteq> 0 \<longrightarrow> external_allowed policy"
    "\<not> list_ex (\<lambda>(prior, e). cur < prior + be_size e \<and> prior < cur + sz) (zip (bw_visited w) (tl (bw_entries w)))"
    "w' = \<lparr>bw_visited = bw_visited w @ [cur], bw_entries = bw_entries w @ [\<lparr>be_type = le64_at bs 0,
       be_flags = wire_flags (take (unat sz) bs), be_version = le16_at bs 12, be_alignment = 8, be_addr = address,
       be_bytes = bs, be_size = sz\<rparr>]\<rparr>"
    "cur' = le64_at bs 16" "x' = (if refers (take (unat sz) bs) \<noteq> 0 then x + 1 else x)"
    by (rule from_v1_tag_success [OF m eq])
  define t where "t = take (unat sz) bs"
  have l: "unat sz \<le> length bs" "32 \<le> unat sz" "unat sz \<le> 16777216" "unat cur + unat sz \<le> 2 ^ 48"
    using m f(2,7-10) by (force simp: map_covers_def word_nat_simps bridge_consts unat_sub)+
  have lt: "length t = unat sz" using l by (simp add: t_def)
  have at: "le64_at t d = le64_at bs d" "le16_at t d = le16_at bs d" "le32_at t d = le32_at bs d" if "d + 8 \<le> unat sz" for d
    using that by (simp_all add: t_def le64_at_def le16_at_def le32_at_def drop_take min_def)
  have "le32_at bs 8 = le32_at (take 32 bs) 8" "le32_at (take 32 hb) 8 = le32_at hb 8"
    by (simp_all add: le32_at_def drop_take min_def)
  then have "unat (le32_at t 8) = unat sz" using f(3,4) l at(3) [of 8] by (simp add: unat_ucast_u32)
  moreover have "crc_field_ok t 24" using f(11) l at(1) [of 24] by (simp add: crc_field_ok_def t_def le64_at_def)
  ultimately have ok: "v1_tag_at m cur t"
    using f(2,5,6,12) l lt by (auto simp: v1_tag_at_def and_7_eq_0_iff t_def)
  obtain fs where fs: "bw_entries w = e # fs" "list_all2 source_of fs (map snd acc)" using inv by (auto simp: workspace_inv_def)
  have len: "length fs = length acc" using list_all2_lengthD [OF fs(2)] by simp
  have "apart (acc ! i) (cur, t)" if i: "i < length acc" for i
  proof -
    let ?p = "fst (acc ! i)" and ?u = "snd (acc ! i)"
    have u: "unat ?p + length ?u \<le> 2 ^ 48" using inv i by (auto simp: workspace_inv_def v1_tag_at_def)
    have b: "unat (be_size (fs ! i)) = length ?u"
      using list_all2_nthD [OF fs(2), of i] len i by (simp add: source_of_def)
    have "(?p, fs ! i) \<in> set (zip (bw_visited w) (tl (bw_entries w)))"
      using inv i len fs(1) by (auto simp: workspace_inv_def set_zip intro!: exI [of _ i])
    then have "\<not> (cur < ?p + be_size (fs ! i) \<and> ?p < cur + sz)"
      using f(14) by (auto simp: list_ex_iff)
    then show ?thesis
      using unat_add_u64 [of ?p "be_size (fs ! i)"] unat_add_u64 [of cur sz] u b l lt
      by (auto simp: apart_def word_less_nat_alt not_less)
  qed
  then have "sorted_wrt apart (acc @ [(cur, t)])"
    using inv unfolding workspace_inv_def sorted_wrt_append by (metis in_set_conv_nth list.set_cases set_ConsD sorted_wrt1 empty_iff list.set(1))
  moreover have "source_of \<lparr>be_type = le64_at bs 0, be_flags = wire_flags t, be_version = le16_at bs 12,
      be_alignment = 8, be_addr = address, be_bytes = bs, be_size = sz\<rparr> t"
    using at(1) [of 0] at(2) [of 12] l lt by (simp add: source_of_def payload_of_def t_def)
  ultimately have "workspace_inv m e (acc @ [(cur, t)]) w'"
    using inv f(15) ok fs by (auto simp: workspace_inv_def t_def [symmetric] list_all2_appendI)
  then show ?thesis
    using that [of t] ok f(13,16,17) at(1) [of 16] l(2) by (simp add: t_def [symmetric])
qed

text \<open>The tags of a v1 chain, from its first address to the address after its last tag.\<close>

fun v1_path :: "phys_map \<Rightarrow> u64 \<Rightarrow> (u64 \<times> u8 list) list \<Rightarrow> u64 \<Rightarrow> bool" where
  "v1_path m a [] b \<longleftrightarrow> a = b"
| "v1_path m a ((c, t) # ts) b \<longleftrightarrow> c = a \<and> v1_tag_at m a t \<and> v1_path m (le64_at t 16) ts b"

definition external_tags :: "(u64 \<times> u8 list) list \<Rightarrow> nat" where
  "external_tags ts = length (filter (\<lambda>x. refers (snd x) \<noteq> 0) ts)"

lemma from_v1_loop_spec:
  assumes m: "map_covers m"
  shows "workspace_inv m e acc w \<Longrightarrow> \<exists>r. from_v1_loop (Some m) policy n (w, cur, x) = Some r \<and>
    (\<forall>w' cur' x'. r = Inr (w', cur', x') \<longrightarrow> (\<exists>ts. length ts = n \<and> v1_path m cur ts cur' \<and>
       workspace_inv m e (acc @ ts) w' \<and> (external_tags ts \<noteq> 0 \<longrightarrow> external_allowed policy) \<and>
       x' = x + of_nat (external_tags ts)))"
proof (induction n arbitrary: acc w cur x)
  case 0
  then show ?case by (auto simp: external_tags_def)
next
  case (Suc n)
  obtain r where r: "from_v1_tag (Some m) policy (w, cur, x) = Some r"
    using from_v1_tag_total [OF m] by fastforce
  show ?case
  proof (cases r)
    case (Inr st)
    obtain w1 c1 x1 where st: "st = (w1, c1, x1)" by (cases st)
    obtain t where t: "v1_tag_at m cur t" "refers t \<noteq> 0 \<longrightarrow> external_allowed policy" "c1 = le64_at t 16"
      "x1 = (if refers t \<noteq> 0 then x + 1 else x)" "workspace_inv m e (acc @ [(cur, t)]) w1"
      using from_v1_tag_step [OF m Suc.prems, of policy cur x w1 c1 x1] r Inr st by metis
    obtain r2 where r2: "from_v1_loop (Some m) policy n (w1, c1, x1) = Some r2"
      "\<forall>w' cur' x'. r2 = Inr (w', cur', x') \<longrightarrow> (\<exists>ts. length ts = n \<and> v1_path m c1 ts cur' \<and>
       workspace_inv m e ((acc @ [(cur, t)]) @ ts) w' \<and> (external_tags ts \<noteq> 0 \<longrightarrow> external_allowed policy) \<and>
       x' = x1 + of_nat (external_tags ts))"
      using Suc.IH [OF t(5)] by blast
    have "\<exists>ts. length ts = Suc n \<and> v1_path m cur ts cur' \<and> workspace_inv m e (acc @ ts) w' \<and>
        (external_tags ts \<noteq> 0 \<longrightarrow> external_allowed policy) \<and> x' = x + of_nat (external_tags ts)"
      if h: "r2 = Inr (w', cur', x')" for w' cur' x'
    proof -
      obtain ts where "length ts = n" "v1_path m c1 ts cur'" "workspace_inv m e ((acc @ [(cur, t)]) @ ts) w'"
        "external_tags ts \<noteq> 0 \<longrightarrow> external_allowed policy" "x' = x1 + of_nat (external_tags ts)"
        using r2(2) h by blast
      then show ?thesis
        using t by (intro exI [of _ "(cur, t) # ts"]) (auto simp: external_tags_def)
    qed
    then show ?thesis using r Inr st r2(1) by auto
  qed (use r in simp)
qed

section \<open>The information block\<close>

definition v1_info_ok :: "u8 list \<Rightarrow> bool" where
  "v1_info_ok v1_info \<longleftrightarrow> take 16 v1_info = bbp_info_magic \<and> le16_at v1_info 16 = BBP_VERSION_MAJOR \<and>
     le16_at v1_info 18 = BBP_VERSION_MINOR \<and> 144 \<le> unat (le32_at v1_info 20) \<and> unat (le32_at v1_info 20) \<le> 67108864 \<and>
     crc_field_ok (take 144 v1_info) 136 \<and> unat (le32_at v1_info 116) \<le> 1023 \<and>
     (le32_at v1_info 116 = 0 \<longleftrightarrow> le64_at v1_info 120 = 0) \<and> 8 dvd unat (le64_at v1_info 120)"

lemma check_v1_info_eq:
  assumes "144 \<le> length v1_info"
  shows "\<exists>r. check_v1_info v1_info hm = Some r \<and> (\<forall>c first. r = Inr (c, first) \<longleftrightarrow>
    v1_info_ok v1_info \<and> c = le32_at v1_info 116 \<and> first = le64_at v1_info 120 \<and> (first \<noteq> 0 \<longrightarrow> hm))"
proof -
  have c: "crc_skip v1_info 144 136 = Some (crc_skip_bytes (take 144 v1_info) 136)"
    using assms crc_skip_eq [of 144 v1_info 136] by simp
  have f: "crc_field_ok (take 144 v1_info) 136 \<longleftrightarrow> crc_skip_bytes (take 144 v1_info) 136 = le64_at v1_info 136"
    using assms by (simp add: crc_field_ok_def le64_at_def drop_take min_def)
  have b: "(ucast (le32_at v1_info 20) :: u64) < 144 \<longleftrightarrow> unat (le32_at v1_info 20) < 144"
    "V1_MAX_INFO_SIZE < ucast (le32_at v1_info 20) \<longleftrightarrow> 67108864 < unat (le32_at v1_info 20)"
    "BBP_V2_MAX_ENTRIES - 1 < le32_at v1_info 116 \<longleftrightarrow> 1023 < unat (le32_at v1_info 116)"
    by (simp_all add: bridge_consts v2_consts word_less_nat_alt unat_ucast_u32)
  show ?thesis
    unfolding check_v1_info_def v1_info_ok_def sizeof_simps f
    using assms bytes_equal_eq [of 0 bbp_info_magic v1_info]
    by (auto simp: ne_at get_at c b and_7_eq_0_iff)
qed

text \<open>The payload of the information entry: all fields of the block but its linkage.\<close>

definition info_payload :: "u8 list \<Rightarrow> u8 list" where
  "info_payload v1_info = slice v1_info 24 92 @ replicate 4 0 @ slice v1_info 128 8"

lemma put_get_slice:
  "d + 8 \<le> length p \<Longrightarrow> put_le 8 (le64_at p d) = slice p d 8"
  "d + 2 \<le> length p \<Longrightarrow> put_le 2 (le16_at p d) = slice p d 2"
  by (simp_all add: le64_at_def le16_at_def slice_def le64.enc_dec le16.enc_dec)

lemma payload_fields:
  assumes "length a = 32" "length b = 16" "length c = 16" "length d = 8" "length e = 8" "length f = 8" "length g = 2"
    "length h = 2" "length i = 8"
  shows "patches (replicate 104 0) [(0, a), (32, b), (48, c), (64, d), (72, e), (80, f), (88, g), (90, h), (96, i)] =
    a @ b @ c @ d @ e @ f @ g @ h @ replicate 4 0 @ i"
  using assms by (simp add: patch_def)

lemma normalize_info_eq:
  assumes "144 \<le> length v1_info"
  shows "normalize_info v1_info = Some (info_payload v1_info)"
proof -
  have "slice v1_info 24 92 = slice v1_info 24 32 @ slice v1_info 56 16 @ slice v1_info 72 16 @ slice v1_info 88 8 @
      slice v1_info 96 8 @ slice v1_info 104 8 @ slice v1_info 112 2 @ slice v1_info 114 2"
    using slice_fields [of v1_info 24 0 "[32, 16, 16, 8, 8, 8, 2, 2]"] by simp
  moreover have "rd v1_info d k = Some (slice v1_info d k)" if "d + k \<le> 144" for d k
    using that assms by (simp add: rd_def slice_def)
  moreover have "length (slice v1_info d k) = k" if "d + k \<le> 144" for d k using that assms by (simp add: slice_def)
  ultimately show ?thesis
    using assms payload_fields [of "slice v1_info 24 32" "slice v1_info 56 16" "slice v1_info 72 16" "slice v1_info 88 8"
      "slice v1_info 96 8" "slice v1_info 104 8" "slice v1_info 112 2" "slice v1_info 114 2" "slice v1_info 128 8"]
    by (simp add: normalize_info_def V1_INFO_PAYLOAD_BYTES_def Let_def get_at put_patch wr_patch put_get_slice info_payload_def)
qed

section \<open>The capsule made from a v1 chain\<close>

text \<open>The logical entry of the information block and of a tag.\<close>

definition info_entry_of :: "u8 list \<Rightarrow> logical_entry" where
  "info_entry_of v1_info = (BBP_V2_ENTRY_V1_INFO, if le64_at v1_info 128 \<noteq> 0 then BBP_V2_EF_EXTERNAL_PHYS else 0,
     BBP_VERSION_MINOR, info_payload v1_info)"

definition wire_entry :: "u8 list \<Rightarrow> logical_entry" where
  "wire_entry t = (le64_at t 0, wire_flags t, le16_at t 12, unlinked t)"

text \<open>A valid v1 information block with the tags of its chain.\<close>

definition v1_chain :: "bbp_v2_v1_source \<Rightarrow> u8 list \<Rightarrow> (u64 \<times> u8 list) list \<Rightarrow> bool" where
  "v1_chain src v1_info ts \<longleftrightarrow> v1_info_ok v1_info \<and> length ts = unat (le32_at v1_info 116) \<and> sorted_wrt apart ts \<and>
     (ts \<noteq> [] \<longrightarrow> (\<exists>m. vs_map src = Some m \<and> v1_path m (le64_at v1_info 120) ts 0))"

definition external_count_of :: "u8 list \<Rightarrow> (u64 \<times> u8 list) list \<Rightarrow> nat" where
  "external_count_of v1_info ts = (if le64_at v1_info 128 \<noteq> 0 then 1 else 0) + external_tags ts"

lemma built_logical:
  assumes "built es cnt p n" "length es = unat cnt"
  shows "logical p = map (\<lambda>e. (be_type e, be_flags e, be_version e, payload_of e)) es"
proof (rule nth_equalityI)
  have h: "dir_at p = 64" "cnt_at p = cnt" using assms by (simp_all add: built_def)
  then show "length (logical p) = length (map (\<lambda>e. (be_type e, be_flags e, be_version e, payload_of e)) es)"
    using assms(2) by (simp add: logical_def Let_def)
  fix i assume "i < length (logical p)"
  then have i: "i < unat cnt" by (simp add: logical_def Let_def h)
  then obtain s where s: "slice p (ent 64 i) 48 = dirent_of (es ! i) s"
    "slice p (unat s) (unat (be_size (es ! i))) = payload_of (es ! i)"
    using assms by (auto simp: built_def)
  note f = dirent_fields [OF s(1)]
  have "payload_at p 64 i = payload_of (es ! i)"
    unfolding payload_at_def eoff_def esize_def f using s(2) by (simp add: slice_def)
  then show "logical p ! i = map (\<lambda>e. (be_type e, be_flags e, be_version e, payload_of e)) es ! i"
    using i assms(2) f(1-3) by (simp add: logical_def Let_def h)
qed

lemma unlinked_logical:
  assumes "list_all2 source_of fs ts" "\<forall>t\<in>set ts. 32 \<le> length t"
  shows "map (\<lambda>e. (be_type e, be_flags e, be_version e, payload_of e)) (map unlink_source fs) = map wire_entry ts"
  using assms
proof (induction fs ts rule: list_all2_induct)
  case (Cons e fs t ts)
  then show ?case using payload_unlink [of e] by (simp add: source_of_def wire_entry_def)
qed simp

text \<open>Sealing the capsule after the linkage has been cleared.\<close>

lemma reseal_ok:
  assumes "laid_out es cnt n crc p"
  shows "\<exists>p'. do { b \<leftarrow> put64 p 40 0; c \<leftarrow> capsule_crc b n; put64 b 40 c } = Some p' \<and> built es cnt p' n \<and>
    length p' = length p \<and> drop (unat n) p' = drop (unat n) p"
proof -
  let ?b = "patch p 40 (put_le 8 (0 :: u64))"
  have n: "64 \<le> unat n" "unat n \<le> length p" using laid_out_size [OF assms] assms by (auto simp: laid_out_def)
  have lb: "length ?b = length p" using n by simp
  define c where "c = crc_skip_bytes (take (unat n) ?b) 40"
  have cc: "capsule_crc ?b n = Some c"
    unfolding capsule_crc_def c_def using n lb crc_skip_eq [of n ?b 40] by simp
  let ?p = "patch ?b 40 (put_le 8 c)"
  have "crc_skip_bytes (take (unat n) ?p) 40 = c" unfolding c_def using n lb by (intro crc_seal_same) simp_all
  then have "built es cnt ?p n"
    using laid_out_seal [OF laid_out_seal [OF assms], of c 0] by (intro laid_out_built) simp
  moreover have "length ?p = length p" "drop (unat n) ?p = drop (unat n) p" using n by (simp_all add: patch_def)
  ultimately show ?thesis using n cc by (simp add: put_patch)
qed

lemma from_v1_build:
  assumes ws: "workspace_inv m e ts w" and len: "Suc (length ts) = unat cnt" and out: "out \<noteq> 0" "unat capacity \<le> length buf"
    and cnt: "unat cnt \<le> 1024" and e: "unat (be_size e) \<le> length (be_bytes e)"
  shows "\<exists>r. do { r \<leftarrow> bbp_v2_build out buf capacity (Some (bw_entries w)) cnt True;
      case r of Inl s \<Rightarrow> Some (Inl s)
      | Inr (b, n) \<Rightarrow> do { b \<leftarrow> normalize_tags b [0..<unat cnt - 1]; b \<leftarrow> put64 b 40 0; c \<leftarrow> capsule_crc b n;
          b \<leftarrow> put64 b 40 c; Some (Inr (b, n, rp)) } } = Some r \<and>
    (build_fits out capacity (bw_entries w) (unat cnt) \<longrightarrow> (\<exists>pnr. r = Inr pnr)) \<and>
    (\<forall>p n rp'. r = Inr (p, n, rp') \<longrightarrow> rp' = rp \<and> n \<le> capacity \<and> length p = length buf \<and> drop (unat n) p = drop (unat n) buf \<and>
       (\<exists>fs. list_all2 source_of fs (map snd ts) \<and> built (e # map unlink_source fs) cnt p n))"
proof -
  obtain fs where fs: "bw_entries w = e # fs" "list_all2 source_of fs (map snd ts)" using ws by (auto simp: workspace_inv_def)
  have lf: "length fs = length ts" using list_all2_lengthD [OF fs(2)] by simp
  have src: "unat (be_size (fs ! k)) \<le> length (be_bytes (fs ! k))" "32 \<le> unat (be_size (fs ! k))" if "k < length fs" for k
    using list_all2_nthD [OF fs(2) that] ws that lf by (auto simp: source_of_def workspace_inv_def v1_tag_at_def)
  have a: "\<forall>k<unat cnt. unat (be_size (bw_entries w ! k)) \<le> length (be_bytes (bw_entries w ! k))"
    using src(1) e len lf by (auto simp: fs(1) nth_Cons split: nat.splits)
  have le: "length (bw_entries w) = unat cnt" using len lf fs(1) by simp
  obtain r where r: "bbp_v2_build out buf capacity (Some (bw_entries w)) cnt True = Some r"
    "case r of Inl s \<Rightarrow> \<not> build_fits out capacity (bw_entries w) (unat cnt)
     | Inr (p, n) \<Rightarrow> build_fits out capacity (bw_entries w) (unat cnt) \<and> n \<le> capacity \<and> length p = length buf \<and>
         drop (unat n) p = drop (unat n) buf \<and> built (bw_entries w) cnt p n"
    using build_spec [OF out(1) cnt out(2) _ a] le by auto
  show ?thesis
  proof (cases r)
    case (Inl s)
    then show ?thesis using r by auto
  next
    case (Inr pn)
    obtain p n where pn: "pn = (p, n)" by (cases pn)
    obtain crc where lay: "laid_out (bw_entries w) cnt n crc p" using r(2) Inr pn by (auto simp: built_def)
    have "\<forall>k<unat cnt. 0 < k \<longrightarrow> 32 \<le> unat (be_size (bw_entries w ! k))"
      using src(2) len lf by (auto simp: fs(1) nth_Cons split: nat.splits)
    then obtain p1 where p1: "normalize_tags p [0..<unat cnt - 1] = Some p1"
      "laid_out (unlink_from 1 (bw_entries w)) cnt n crc p1" "length p1 = length p" "drop (unat n) p1 = drop (unat n) p"
      using normalize_tags_eq [OF le lay, of 0] len by auto
    obtain p2 where p2: "do { b \<leftarrow> put64 p1 40 0; c \<leftarrow> capsule_crc b n; put64 b 40 c } = Some p2"
      "built (unlink_from 1 (bw_entries w)) cnt p2 n" "length p2 = length p1" "drop (unat n) p2 = drop (unat n) p1"
      using reseal_ok [OF p1(2)] by blast
    have "do { b \<leftarrow> put64 p1 40 0; c \<leftarrow> capsule_crc b n; b \<leftarrow> put64 b 40 c; Some (Inr (b, n, rp) :: bbp_v2_status + _) } =
        Some (Inr (p2, n, rp))"
      using p2(1) by (auto split: Option.bind_splits)
    moreover have "unlink_from 1 (bw_entries w) = e # map unlink_source fs" by (simp add: unlink_from_def fs(1))
    ultimately show ?thesis
      using r Inr pn p1(1,3,4) p2(2-4) fs(2) by auto
  qed
qed

definition info_source :: "u8 list \<Rightarrow> u64 \<Rightarrow> bbp_v2_build_entry" where
  "info_source v1_info address = \<lparr>be_type = BBP_V2_ENTRY_V1_INFO,
     be_flags = (if le64_at v1_info 128 \<noteq> 0 then BBP_V2_EF_EXTERNAL_PHYS else 0), be_version = BBP_VERSION_MINOR,
     be_alignment = 8, be_addr = address, be_bytes = info_payload v1_info, be_size = V1_INFO_PAYLOAD_BYTES\<rparr>"

lemma length_info_payload: "144 \<le> length v1_info \<Longrightarrow> length (info_payload v1_info) = 104"
  by (simp add: info_payload_def slice_def)

lemma info_source_logical:
  assumes "144 \<le> length v1_info"
  shows "(be_type (info_source v1_info a), be_flags (info_source v1_info a), be_version (info_source v1_info a),
    payload_of (info_source v1_info a)) = info_entry_of v1_info"
  using length_info_payload [OF assms]
  by (simp add: info_source_def info_entry_of_def payload_of_def V1_INFO_PAYLOAD_BYTES_def)

text \<open>The loop over the chain, whether there is a map or not.\<close>

lemma from_v1_chain:
  assumes ok: "v1_info_ok v1_info" and hm: "le64_at v1_info 120 \<noteq> 0 \<longrightarrow> vs_map src \<noteq> None"
    and cov: "\<forall>m. vs_map src = Some m \<longrightarrow> map_covers m"
  shows "\<exists>r. from_v1_loop (vs_map src) policy (unat (le32_at v1_info 116))
      (\<lparr>bw_visited = [], bw_entries = [e]\<rparr>, le64_at v1_info 120, x) = Some r \<and>
    (\<forall>w cur x'. r = Inr (w, cur, x') \<longrightarrow> cur = 0 \<longrightarrow> (\<exists>m ts. v1_chain src v1_info ts \<and> workspace_inv m e ts w \<and>
       (external_tags ts \<noteq> 0 \<longrightarrow> external_allowed policy) \<and> x' = x + of_nat (external_tags ts)))"
proof (cases "vs_map src")
  case None
  then have "unat (le32_at v1_info 116) = 0" using ok hm by (auto simp: v1_info_ok_def)
  moreover have "workspace_inv m e [] \<lparr>bw_visited = [], bw_entries = [e]\<rparr>" for m by (simp add: workspace_inv_def)
  moreover have "v1_chain src v1_info []" using ok \<open>unat (le32_at v1_info 116) = 0\<close> by (simp add: v1_chain_def)
  ultimately show ?thesis by (auto simp: external_tags_def intro!: exI [of _ "[]"])
next
  case (Some m)
  have "workspace_inv m e [] \<lparr>bw_visited = [], bw_entries = [e]\<rparr>" by (simp add: workspace_inv_def)
  note spec = from_v1_loop_spec [OF _ this, of policy "unat (le32_at v1_info 116)" "le64_at v1_info 120" x]
  have "v1_chain src v1_info ts"
    if "length ts = unat (le32_at v1_info 116)" "v1_path m (le64_at v1_info 120) ts 0" "workspace_inv m e ts w" for ts w
    using that ok Some by (auto simp: v1_chain_def workspace_inv_def)
  then show ?thesis
    using spec cov Some by (fastforce simp del: from_v1_loop.simps)
qed

text \<open>The end of a v1 image whose tags start at \<open>c\<close>.\<close>

fun image_end :: "nat \<Rightarrow> u8 list list \<Rightarrow> nat" where
  "image_end c [] = c"
| "image_end c (pl # pls) = image_end (round_up c 8 + length pl) pls"

lemma image_end_ge: "c \<le> image_end c pls"
proof (induction pls arbitrary: c)
  case (Cons pl pls)
  have "c \<le> round_up c 8" by (rule round_up_ge) simp
  then show ?case using Cons [of "round_up c 8 + length pl"] by simp
qed simp

lemma image_end_snoc: "image_end c (pls @ [pl]) = round_up (image_end c pls) 8 + length pl"
  by (induction pls arbitrary: c) simp_all

lemma image_end_mono: "c \<le> d \<Longrightarrow> image_end c pls \<le> image_end d pls"
proof (induction pls arbitrary: c d)
  case (Cons pl pls)
  have "round_up c 8 \<le> round_up d 8" unfolding round_up_def using Cons.prems by (intro mult_le_mono1 div_le_mono) simp
  then show ?case using Cons.IH by simp
qed simp

lemma image_end_cong: "map length pls = map length qs \<Longrightarrow> image_end c pls = image_end c qs"
proof (induction pls arbitrary: qs c)
  case (Cons pl pls)
  then obtain y ys where qs: "qs = y # ys" "length pl = length y" "map length pls = map length ys" by (cases qs) auto
  show ?case using Cons.IH [OF qs(3), of "round_up c 8 + length y"] qs(1,2) by simp
qed simp

lemma cursor_image:
  assumes "\<forall>k<i. be_alignment (es ! k) = 8 \<and> unat (be_size (es ! k)) = length (payload_of (es ! k))" "i \<le> length es"
  shows "cursor_at es f i = image_end f (map payload_of (take i es))"
  using assms by (induction i) (simp_all add: take_Suc_conv_app_nth image_end_snoc)

text \<open>What the capsule of a v1 chain holds.\<close>

definition converted :: "u32 \<Rightarrow> u8 list \<Rightarrow> (u64 \<times> u8 list) list \<Rightarrow> u8 list \<Rightarrow> u64 \<Rightarrow> bool" where
  "converted policy v1_info ts p n \<longleftrightarrow> bbp_v2_parse (Some p) n True = Some (Inr (view_of p n)) \<and>
     logical p = info_entry_of v1_info # map (wire_entry \<circ> snd) ts \<and>
     (external_count_of v1_info ts \<noteq> 0 \<longrightarrow> external_allowed policy) \<and> image_end 144 (map snd ts) \<le> unat n"

lemma built_image_end:
  assumes "built (e # map unlink_source fs) cnt p n" "list_all2 source_of fs ts" "\<forall>t\<in>set ts. 32 \<le> length t"
    "Suc (length ts) = unat cnt" "be_alignment e = 8" "unat (be_size e) = length (payload_of e)"
    "32 \<le> length (payload_of e)"
  shows "image_end 144 ts \<le> unat n"
proof -
  let ?es = "e # map unlink_source fs"
  have lf: "length fs = length ts" using list_all2_lengthD [OF assms(2)] .
  have f: "source_of (fs ! k) (ts ! k)" "payload_of (unlink_source (fs ! k)) = unlinked (ts ! k)" "32 \<le> length (ts ! k)"
    if "k < length ts" for k
  proof -
    show s: "source_of (fs ! k) (ts ! k)" using list_all2_nthD2 [OF assms(2) that] .
    show l: "32 \<le> length (ts ! k)" using assms(3) that by simp
    show "payload_of (unlink_source (fs ! k)) = unlinked (ts ! k)" using s l by (simp add: payload_unlink source_of_def)
  qed
  have ln: "map length (map payload_of (map unlink_source fs)) = map length ts"
    using f lf by (intro nth_equalityI) simp_all
  have "be_alignment (?es ! k) = 8 \<and> unat (be_size (?es ! k)) = length (payload_of (?es ! k))" if "k < unat cnt" for k
    using f [of "k - 1"] that assms(4-6) lf by (cases k) (auto simp: source_of_def)
  then have "cursor_at ?es (ent 64 (unat cnt)) (unat cnt) = image_end (ent 64 (unat cnt)) (map payload_of ?es)"
    using cursor_image [of "unat cnt" ?es] assms(4) lf by simp
  moreover have "unat n = cursor_at ?es (ent 64 (unat cnt)) (unat cnt)"
    using assms(1) by (auto simp: built_def laid_out_def)
  ultimately have "unat n = image_end (round_up (ent 64 (unat cnt)) 8 + length (payload_of e)) ts"
    using image_end_cong [OF ln] by simp
  moreover have "144 \<le> round_up (ent 64 (unat cnt)) 8 + length (payload_of e)"
    using round_up_ge [of 8 "ent 64 (unat cnt)"] assms(4,7) by linarith
  ultimately show ?thesis using image_end_mono by simp
qed

lemma built_converted:
  assumes "built (info_source v1_info a # map unlink_source fs) cnt p n" "list_all2 source_of fs (map snd ts)"
    "Suc (length ts) = unat cnt" "144 \<le> length v1_info" "\<forall>x\<in>set ts. 32 \<le> length (snd x)"
    "external_count_of v1_info ts \<noteq> 0 \<longrightarrow> external_allowed policy"
  shows "converted policy v1_info ts p n"
proof -
  have "unat (be_size (info_source v1_info a)) = 104" "be_alignment (info_source v1_info a) = 8"
    "length (payload_of (info_source v1_info a)) = 104"
    using length_info_payload [OF assms(4)] by (simp_all add: info_source_def payload_of_def V1_INFO_PAYLOAD_BYTES_def)
  then have "image_end 144 (map snd ts) \<le> unat n"
    using built_image_end [OF assms(1,2)] assms(3,5) by simp
  moreover
  have "capsule_ok p n" "unat n \<le> length p" using assms(1) by (auto simp: built_def)
  then have "bbp_v2_parse (Some p) n True = Some (Inr (view_of p n))" using parse_spec [of n p] by auto
  moreover have "map (\<lambda>e. (be_type e, be_flags e, be_version e, payload_of e)) (map unlink_source fs) = map wire_entry (map snd ts)"
    using assms(2,5) by (intro unlinked_logical) auto
  moreover have "length fs = length ts" using list_all2_lengthD [OF assms(2)] by simp
  ultimately show ?thesis
    using built_logical [OF assms(1)] assms(3,6) info_source_logical [OF assms(4), of a]
    by (simp add: converted_def)
qed

lemma from_v1_outcome:
  assumes v: "vs_info src = Some v1_info" "144 \<le> length v1_info" "\<forall>m. vs_map src = Some m \<longrightarrow> map_covers m"
    and out: "unat capacity \<le> length buf"
  shows "\<exists>r. bbp_v2_from_v1 (Some src) policy (Some a) output_address buf capacity True True = Some r \<and>
    (\<forall>p n rp. r = Inr (p, n, rp) \<longrightarrow> n \<le> capacity \<and> length p = length buf \<and> drop (unat n) p = drop (unat n) buf \<and>
       (\<exists>ts. v1_chain src v1_info ts \<and> converted policy v1_info ts p n \<and>
          rp = Some \<lparr>br_tag_count = of_nat (length ts), br_external_reference_tags = of_nat (external_count_of v1_info ts)\<rparr>))"
proof (cases "output_address = 0")
  case True
  then show ?thesis using v(1) by (simp add: bbp_v2_from_v1_def)
next
  case out0: False
  let ?c = "le32_at v1_info 116" and ?x = "(if le64_at v1_info 128 \<noteq> 0 then 1 else 0) :: u32"
  obtain r1 where r1: "check_v1_info v1_info (vs_map src \<noteq> None) = Some r1"
    "\<forall>c first. r1 = Inr (c, first) \<longleftrightarrow> v1_info_ok v1_info \<and> c = ?c \<and> first = le64_at v1_info 120 \<and>
       (first \<noteq> 0 \<longrightarrow> vs_map src \<noteq> None)"
    using check_v1_info_eq [OF v(2)] by blast
  show ?thesis
  proof (cases "\<exists>e. r1 = Inl e \<or> le64_at v1_info 128 \<noteq> 0 \<and> \<not> external_allowed policy")
    case True
    then show ?thesis
      using v(1,2) out0 r1(1) by (cases r1) (auto simp: bbp_v2_from_v1_def normalize_info_eq get_at external_allowed_def)
  next
    case False
    then have ok: "v1_info_ok v1_info" "le64_at v1_info 120 \<noteq> 0 \<longrightarrow> vs_map src \<noteq> None" "r1 = Inr (?c, le64_at v1_info 120)"
      using r1(2) by (cases r1; force)+
    have pol: "le64_at v1_info 128 = 0 \<or> policy AND BBP_V2_BRIDGE_ALLOW_EXTERNAL_PHYS \<noteq> 0"
      using False by (auto simp: external_allowed_def)
    define e where "e = info_source v1_info a"
    obtain r2 where r2: "from_v1_loop (vs_map src) policy (unat ?c)
        (\<lparr>bw_visited = [], bw_entries = [e]\<rparr>, le64_at v1_info 120, ?x) = Some r2"
      "\<forall>w cur x'. r2 = Inr (w, cur, x') \<longrightarrow> cur = 0 \<longrightarrow> (\<exists>m ts. v1_chain src v1_info ts \<and> workspace_inv m e ts w \<and>
         (external_tags ts \<noteq> 0 \<longrightarrow> external_allowed policy) \<and> x' = ?x + of_nat (external_tags ts))"
      using from_v1_chain [OF ok(1,2) v(3)] by blast
    have eq: "bbp_v2_from_v1 (Some src) policy (Some a) output_address buf capacity True True =
        (case r2 of Inl s \<Rightarrow> Some (Inl s) | Inr st \<Rightarrow> from_v1_finish output_address buf capacity ?c True st)"
      using v(1,2) out0 r1(1) ok(3) pol r2(1)
      by (auto simp: bbp_v2_from_v1_def normalize_info_eq get_at e_def info_source_def simp del: from_v1_loop.simps)
    show ?thesis
    proof (cases "\<exists>w x. r2 = Inr (w, 0, x)")
      case False
      then show ?thesis unfolding eq by (cases r2) (auto simp: from_v1_finish_def)
    next
      case True
      then obtain w x m ts where w: "r2 = Inr (w, 0, x)" "v1_chain src v1_info ts" "workspace_inv m e ts w"
        "external_tags ts \<noteq> 0 \<longrightarrow> external_allowed policy" "x = ?x + of_nat (external_tags ts)"
        using r2(2) by blast
      have c: "unat (?c + 1) = Suc (unat ?c)" "unat ?c \<le> 1023" "length ts = unat ?c"
        using ok(1) w(2) by (auto simp: v1_info_ok_def v1_chain_def unat_word_ariths)
      have x: "x = of_nat (external_count_of v1_info ts)" "of_nat (length ts) = ?c"
        using w(5) c(3) by (simp_all add: external_count_of_def)
      have pol': "external_count_of v1_info ts \<noteq> 0 \<longrightarrow> external_allowed policy"
        using pol w(4) by (auto simp: external_count_of_def external_allowed_def)
      have sz: "\<forall>y\<in>set ts. 32 \<le> length (snd y)" using w(3) by (auto simp: workspace_inv_def v1_tag_at_def)
      note conv = built_converted [OF _ _ _ v(2) sz pol', of a _ "?c + 1"]
      have "unat (be_size e) \<le> length (be_bytes e)"
        using length_info_payload [OF v(2)] by (simp add: e_def info_source_def V1_INFO_PAYLOAD_BYTES_def)
      then obtain r where r: "from_v1_finish output_address buf capacity ?c True (w, 0, x) = Some r"
        "\<forall>p n rp'. r = Inr (p, n, rp') \<longrightarrow> rp' = Some \<lparr>br_tag_count = ?c, br_external_reference_tags = x\<rparr> \<and>
           n \<le> capacity \<and> length p = length buf \<and> drop (unat n) p = drop (unat n) buf \<and>
           (\<exists>fs. list_all2 source_of fs (map snd ts) \<and> built (e # map unlink_source fs) (?c + 1) p n)"
        using from_v1_build [OF w(3) _ out0 out, of "?c + 1" "Some \<lparr>br_tag_count = ?c, br_external_reference_tags = x\<rparr>"] c
        by (auto simp: from_v1_finish_def)
      have "converted policy v1_info ts p n"
        if "list_all2 source_of fs (map snd ts)" "built (e # map unlink_source fs) (?c + 1) p n" for fs p n
        using conv [OF that(2) [unfolded e_def] that(1)] c by simp
      then show ?thesis
        unfolding eq w(1) sum.case r(1) using r(2) w(2) x by (intro exI [of _ r]) fastforce
    qed
  qed
qed

end
