(* ===== verification/Bridge_Back.thy ===== *)
theory Bridge_Back
  imports Bridge_Spec
begin

text \<open>
  From a capsule back to a v1 chain: which entries can become tags, what image is written for them, that the
  image is a valid chain when it is mapped at its physical address, and that converting a chain to a capsule and
  back keeps the information fields and the tags.
\<close>

unbundle bit_operations_syntax

section \<open>Entries that can become v1 tags\<close>

definition info_convertible :: "logical_entry \<Rightarrow> bool" where
  "info_convertible e \<longleftrightarrow> (case e of (ty, fl, ver, pl) \<Rightarrow> ty = BBP_V2_ENTRY_V1_INFO \<and> ver = BBP_VERSION_MINOR \<and>
     length pl = 104 \<and> fl AND NOT BBP_V2_EF_EXTERNAL_PHYS = 0 \<and>
     (le64_at pl 96 \<noteq> 0 \<longrightarrow> fl AND BBP_V2_EF_EXTERNAL_PHYS \<noteq> 0))"

definition tag_convertible :: "logical_entry \<Rightarrow> bool" where
  "tag_convertible e \<longleftrightarrow> (case e of (ty, fl, ver, pl) \<Rightarrow> fl AND BBP_V2_EF_V1_WIRE \<noteq> 0 \<and>
     fl AND NOT (BBP_V2_EF_V1_WIRE OR BBP_V2_EF_EXTERNAL_PHYS) = 0 \<and> 32 \<le> length pl \<and> length pl \<le> 16777216 \<and>
     le64_at pl 0 = ty \<and> unat (le32_at pl 8) = length pl \<and> le16_at pl 12 = ver \<and> le64_at pl 16 = 0 \<and> le64_at pl 24 = 0 \<and>
     0 \<le> refers pl \<and> (refers pl \<noteq> 0 \<longrightarrow> fl AND BBP_V2_EF_EXTERNAL_PHYS \<noteq> 0))"

definition flagged_external :: "logical_entry \<Rightarrow> bool" where
  "flagged_external e \<longleftrightarrow> (case e of (ty, fl, ver, pl) \<Rightarrow> fl AND BBP_V2_EF_EXTERNAL_PHYS \<noteq> 0)"

lemma entry_of_logical:
  assumes ok: "capsule_ok p n" "unat n \<le> length p" and i: "i < length (logical p)"
  shows "entry_of (view_of p n) i = Some (entry_at p i)"
    "logical p ! i = (e_type (entry_at p i), e_flags (entry_at p i), e_version (entry_at p i),
       take (unat (e_size (entry_at p i))) (e_data (entry_at p i)))"
    "unat (e_size (entry_at p i)) \<le> length (e_data (entry_at p i))"
proof -
  have c: "i < unat (cnt_at p)" using i by (simp add: logical_def Let_def)
  have u: "unat (of_nat i :: u32) = i" using c unat_u32_less [of "cnt_at p"] by (intro unat_of_nat_u32) simp
  then show "entry_of (view_of p n) i = Some (entry_at p i)"
    using get_entry_ok [OF ok, of "of_nat i"] c by (simp add: entry_of_def)
  show "logical p ! i = (e_type (entry_at p i), e_flags (entry_at p i), e_version (entry_at p i),
       take (unat (e_size (entry_at p i))) (e_data (entry_at p i)))"
    unfolding entry_at_payload using c by (simp add: logical_def Let_def entry_at_def)
  show "unat (e_size (entry_at p i)) \<le> length (e_data (entry_at p i))"
    using capsule_payload_length [OF ok c] unfolding entry_at_payload [symmetric] 
    by (simp add: entry_at_def Let_def esize_def)
qed

lemma align7:
  fixes v :: u64
  assumes "unat v \<le> 67108864"
  shows "unat ((v + 7) AND NOT 7) = round_up (unat v) 8"
proof -
  have "align_up v 8 = Some (of_nat (round_up (unat v) 8))"
    using align_up_eq [of 8 v] assms by (simp add: power_of_two_def)
  moreover have "round_up (unat v) 8 \<le> unat v + 7" using round_up_le [of "unat v" 8] by simp
  ultimately show ?thesis
    using assms unat_of_nat_u64 [of "round_up (unat v) 8"] by (auto simp: align_up_def Let_def split: if_splits)
qed

lemma v1_entry_bad_eq:
  assumes "unat (e_size e) \<le> length (e_data e)" "pl = take (unat (e_size e)) (e_data e)"
  shows "v1_entry_bad e = Some (\<not> (e_flags e AND BBP_V2_EF_V1_WIRE \<noteq> 0 \<and>
     e_flags e AND NOT (BBP_V2_EF_V1_WIRE OR BBP_V2_EF_EXTERNAL_PHYS) = 0 \<and> 32 \<le> length pl \<and> length pl \<le> 16777216 \<and>
     le64_at pl 0 = e_type e \<and> unat (le32_at pl 8) = length pl \<and> le16_at pl 12 = e_version e \<and>
     le64_at pl 16 = 0 \<and> le64_at pl 24 = 0))"
proof -
  have l: "length pl = unat (e_size e)" using assms by simp
  show ?thesis
  proof (cases "e_flags e AND BBP_V2_EF_V1_WIRE = 0 \<or>
         e_flags e AND NOT (BBP_V2_EF_V1_WIRE OR BBP_V2_EF_EXTERNAL_PHYS) \<noteq> 0 \<or>
         e_size e < sizeof struct_bbp_tag_header \<or> e_size e > V1_MAX_TAG_SIZE")
    case True
    then show ?thesis
      unfolding v1_entry_bad_def sc_or_def bind.bind_lunit if_P [OF True]
      using l by (auto simp: bridge_consts word_nat_simps)
  next
    case False
    then have f: "e_flags e AND BBP_V2_EF_V1_WIRE \<noteq> 0"
      "e_flags e AND NOT (BBP_V2_EF_V1_WIRE OR BBP_V2_EF_EXTERNAL_PHYS) = 0" "32 \<le> unat (e_size e)" "unat (e_size e) \<le> 16777216"
      by (auto simp: bridge_consts word_nat_simps)
    have at: "le64_at (e_data e) d = le64_at pl d" "le16_at (e_data e) d = le16_at pl d" "le32_at (e_data e) d = le32_at pl d"
      if "d + 8 \<le> 32" for d
      using that f(3) by (simp_all add: assms(2) le64_at_def le16_at_def le32_at_def drop_take min_def)
    have sz: "(ucast (le32_at pl 8) \<noteq> e_size e) \<longleftrightarrow> unat (le32_at pl 8) \<noteq> length pl"
      by (simp add: l word_unat_eq_iff unat_ucast_u32)
    have r: "ne64 (e_data e) 0 (e_type e) = Some (le64_at pl 0 \<noteq> e_type e)"
      "map_option (\<lambda>v. ucast v \<noteq> e_size e) (get32 (e_data e) 8) = Some (unat (le32_at pl 8) \<noteq> length pl)"
      "ne16 (e_data e) 12 (e_version e) = Some (le16_at pl 12 \<noteq> e_version e)"
      "ne64 (e_data e) 16 0 = Some (le64_at pl 16 \<noteq> 0)" "ne64 (e_data e) 24 0 = Some (le64_at pl 24 \<noteq> 0)"
      using assms(1) f(3) by (simp_all add: ne_at get_at at sz)
    show ?thesis
      unfolding v1_entry_bad_def r sc_or_Some using False f l by auto
  qed
qed

lemma to_v1_check_eq:
  assumes ok: "capsule_ok p n" "unat n \<le> length p" and i: "Suc i < length (logical p)" and cur: "unat cur \<le> 67108864"
  defines "e \<equiv> logical p ! Suc i"
  defines "fits \<equiv> tag_convertible e \<and> round_up (unat cur) 8 + length (logical_payload e) \<le> 67108864"
  shows "\<exists>r. to_v1_check (view_of p n) i cur x = Some r \<and> (case r of Inl _ \<Rightarrow> \<not> fits
    | Inr (cur', x') \<Rightarrow> fits \<and> unat cur' = round_up (unat cur) 8 + length (logical_payload e) \<and>
        x' = (if flagged_external e then x + 1 else x))"
proof -
  define ev where "ev = entry_at p (Suc i)"
  define pl where "pl = take (unat (e_size ev)) (e_data ev)"
  note en = entry_of_logical [OF ok i, folded ev_def e_def]
  have e: "e = (e_type ev, e_flags ev, e_version ev, pl)" using en(2) by (simp add: pl_def)
  have l: "length pl = unat (e_size ev)" "logical_payload e = pl" using en(3) by (simp_all add: pl_def e)
  note bad = v1_entry_bad_eq [OF en(3) pl_def]
  have e1: "entry_of (view_of p n) (i + 1) = Some ev" using en(1) by simp
  show ?thesis
  proof (cases "v1_entry_bad ev = Some True")
    case True
    then show ?thesis using e1 bad by (auto simp: to_v1_check_def fits_def e tag_convertible_def)
  next
    case False
    then have nb: "v1_entry_bad ev = Some False" using bad by auto
    have sz: "32 \<le> unat (e_size ev)" "unat (e_size ev) \<le> 16777216" using nb l bad by auto
    have ref: "tag_external_references (e_data ev) (e_size ev) = Some (refers pl)"
      unfolding pl_def using en(3) sz by (intro refers_eq)
    define s where "s = (cur + 7) AND NOT 7"
    have s: "unat s = round_up (unat cur) 8" unfolding s_def by (rule align7 [OF cur])
    have "round_up (unat cur) 8 \<le> unat cur + 7" using round_up_le [of "unat cur" 8] by simp
    then have o: "\<not> cur > - 1 - 7" "\<not> e_size ev > - 1 - s" "unat (s + e_size ev) = unat s + unat (e_size ev)"
      using cur s sz unat_le_max_minus [of s "e_size ev"] unat_le_max_minus [of 7 cur] unat_add_u64 [of s "e_size ev"]
      by (auto simp: not_less word_le_nat_alt)
    have conv: "tag_convertible e \<longleftrightarrow> \<not> (refers pl < 0 \<or> refers pl \<noteq> 0 \<and> e_flags ev AND BBP_V2_EF_EXTERNAL_PHYS = 0)"
      using nb bad by (auto simp: tag_convertible_def e)
    have big: "s + e_size ev > V1_MAX_INFO_SIZE \<longleftrightarrow> \<not> round_up (unat cur) 8 + length pl \<le> 67108864"
      using o(3) s l by (simp add: bridge_consts word_nat_simps not_le)
    show ?thesis
      unfolding to_v1_check_def e1 nb ref bind.bind_lunit if_False Let_def fits_def conv l(2) s_def [symmetric] 
      using o big s l by (auto simp: flagged_external_def e)
  qed
qed

lemma to_v1_checks_eq:
  assumes ok: "capsule_ok p n" "unat n \<le> length p" and c: "length (logical p) = Suc c"
  defines "es i \<equiv> drop (Suc i) (logical p)"
  defines "fits i cur \<equiv> list_all tag_convertible (es i) \<and> image_end (unat cur) (map logical_payload (es i)) \<le> 67108864"
  shows "\<lbrakk>i \<le> c; unat cur \<le> 67108864\<rbrakk> \<Longrightarrow> \<exists>r. to_v1_checks (view_of p n) [i..<c] cur x = Some r \<and>
    (case r of Inl _ \<Rightarrow> \<not> fits i cur
     | Inr (t, x') \<Rightarrow> fits i cur \<and> unat t = image_end (unat cur) (map logical_payload (es i)) \<and>
         x' = x + of_nat (length (filter flagged_external (es i))))"
proof (induction "c - i" arbitrary: i cur x)
  case 0
  then show ?case using c by (simp add: es_def fits_def)
next
  case (Suc m)
  have i: "i < c" "[i..<c] = i # [Suc i..<c]" "m = c - Suc i" using Suc.hyps(2) by (simp_all add: upt_conv_Cons)
  let ?e = "logical p ! Suc i"
  have es: "es i = ?e # es (Suc i)" using i c by (simp add: es_def Cons_nth_drop_Suc)
  obtain r where r: "to_v1_check (view_of p n) i cur x = Some r"
    "case r of Inl _ \<Rightarrow> \<not> (tag_convertible ?e \<and> round_up (unat cur) 8 + length (logical_payload ?e) \<le> 67108864)
     | Inr (cur', x') \<Rightarrow> (tag_convertible ?e \<and> round_up (unat cur) 8 + length (logical_payload ?e) \<le> 67108864) \<and>
         unat cur' = round_up (unat cur) 8 + length (logical_payload ?e) \<and> x' = (if flagged_external ?e then x + 1 else x)"
    using to_v1_check_eq [OF ok _ Suc.prems(2), of i x] i c by auto
  have ge: "round_up (unat cur) 8 + length (logical_payload ?e) \<le>
      image_end (round_up (unat cur) 8 + length (logical_payload ?e)) (map logical_payload (es (Suc i)))"
    by (rule image_end_ge)
  show ?case
  proof (cases r)
    case (Inl e)
    then show ?thesis using r ge i by (auto simp: fits_def es)
  next
    case (Inr cx)
    obtain cur' x' where cx: "cx = (cur', x')" by (cases cx)
    have s: "tag_convertible ?e" "unat cur' \<le> 67108864" "unat cur' = round_up (unat cur) 8 + length (logical_payload ?e)"
      "x' = (if flagged_external ?e then x + 1 else x)" using r(2) Inr cx by auto
    obtain r2 where r2: "to_v1_checks (view_of p n) [Suc i..<c] cur' x' = Some r2"
      "case r2 of Inl _ \<Rightarrow> \<not> fits (Suc i) cur'
       | Inr (t, x'') \<Rightarrow> fits (Suc i) cur' \<and> unat t = image_end (unat cur') (map logical_payload (es (Suc i))) \<and>
         x'' = x' + of_nat (length (filter flagged_external (es (Suc i))))"
      using Suc.hyps(1) [OF i(3) _ s(2), of x'] i(1) by auto
    show ?thesis
      using r(1) r2 Inr cx s i(2) by (auto simp: fits_def es split: sum.splits)
  qed
qed

section \<open>The tags of the image\<close>

definition sealed_tag :: "u8 list \<Rightarrow> u64 \<Rightarrow> u8 list" where
  "sealed_tag pl next_tag = (let u = patch pl 16 (put_le 8 next_tag) in patch u 24 (put_le 8 (crc_skip_bytes u 24)))"

fun linked_tags :: "u64 \<Rightarrow> nat \<Rightarrow> u8 list list \<Rightarrow> (nat \<times> u8 list) list" where
  "linked_tags phys c [] = []"
| "linked_tags phys c (pl # pls) =
     (let s = round_up c 8;
          next_tag = (if pls = [] then 0 else phys + of_nat (round_up (s + length pl) 8))
      in (s, sealed_tag pl next_tag) # linked_tags phys (s + length pl) pls)"

lemma length_sealed_tag [simp]: "32 \<le> length pl \<Longrightarrow> length (sealed_tag pl a) = length pl"
  by (simp add: sealed_tag_def Let_def)

lemma sealed_tag_ok:
  assumes "32 \<le> length pl"
  shows "crc_field_ok (sealed_tag pl a) 24" "le64_at (sealed_tag pl a) 16 = a" "unlinked (sealed_tag pl a) = unlinked pl"
proof -
  let ?u = "patch pl 16 (put_le 8 a)"
  have l: "length ?u = length pl" using assms by simp
  have p: "sealed_tag pl a = take 24 ?u @ put_le 8 (crc_skip_bytes ?u 24) @ drop (24 + 8) ?u"
    by (simp add: sealed_tag_def Let_def patch_def)
  show "crc_field_ok (sealed_tag pl a) 24" unfolding p using assms l by (intro crc_field_ok_seal) simp
  have "slice (sealed_tag pl a) 16 8 = slice ?u 16 8"
    unfolding sealed_tag_def Let_def using assms l by (intro slice_patch_disj) simp_all
  also have "\<dots> = put_le 8 a" using assms by (intro slice_patch_same) simp_all
  finally show "le64_at (sealed_tag pl a) 16 = a" by (simp add: le_at_slice)
  show "unlinked (sealed_tag pl a) = unlinked pl"
    using assms l by (intro nth_equalityI) (auto simp: nth_unlinked sealed_tag_def Let_def nth_patch)
qed

lemma patch_patch_inside:
  assumes "d + length y \<le> length x" "s + length x \<le> length b"
  shows "patch (patch b s x) (s + d) y = patch b s (patch x d y)"
  using assms by (intro nth_equalityI) (auto simp: nth_patch)

lemma seal_writes:
  assumes "32 \<le> length pl" "s + length pl \<le> length b" "unat sz = length pl"
  shows "do { b \<leftarrow> wr b s pl; b \<leftarrow> put64 b (s + 16) a; b \<leftarrow> put64 b (s + 24) 0; c \<leftarrow> crc_skip (drop s b) sz 24;
      b \<leftarrow> put64 b (s + 24) c; f b } = f (patch b s (sealed_tag pl a))"
proof -
  define u where "u = patch pl 16 (put_le 8 a)"
  define v where "v = patch u 24 (put_le 8 (0 :: u64))"
  have l: "length u = length pl" "length v = length pl" using assms by (simp_all add: u_def v_def)
  have w: "patch (patch (patch b s pl) (s + 16) (put_le 8 a)) (s + 24) (put_le 8 (0 :: u64)) = patch b s v"
    using assms l by (simp add: patch_patch_inside u_def v_def)
  have "take (unat sz) (drop s (patch b s v)) = v"
    using assms l by (simp add: patch_def)
  moreover have "crc_skip_bytes v 24 = crc_skip_bytes u 24"
    using assms(1) l crc_skip_ignores_field [of "put_le 8 (0 :: u64)" 24 u] by (simp add: v_def patch_def)
  ultimately have c: "crc_skip (drop s (patch b s v)) sz 24 = Some (crc_skip_bytes u 24)"
    using crc_skip_eq [of sz "drop s (patch b s v)" 24] assms l by simp
  have "patch v 24 (put_le 8 (crc_skip_bytes u 24)) = sealed_tag pl a"
    using assms(1) l by (intro nth_equalityI) (auto simp: sealed_tag_def Let_def u_def [symmetric] v_def nth_patch)
  then have "patch (patch b s v) (s + 24) (put_le 8 (crc_skip_bytes u 24)) = patch b s (sealed_tag pl a)"
    using assms l by (simp add: patch_patch_inside)
  then show ?thesis using assms l w c by (simp add: wr_patch put_patch)
qed

lemma linked_tags_bounds:
  "\<lbrakk>\<forall>pl\<in>set pls. 32 \<le> length pl; image_end c pls \<le> n\<rbrakk> \<Longrightarrow>
    list_all (\<lambda>(d, t). c \<le> d \<and> d + length t \<le> n) (linked_tags phys c pls)"
proof (induction pls arbitrary: c)
  case (Cons pl pls)
  let ?s = "round_up c 8"
  have s: "c \<le> ?s" by (rule round_up_ge) simp
  have "?s + length pl \<le> n" using image_end_ge [of "?s + length pl" pls] Cons.prems(2) by simp
  moreover have "list_all (\<lambda>(d, t). ?s + length pl \<le> d \<and> d + length t \<le> n) (linked_tags phys (?s + length pl) pls)"
    using Cons by simp
  ultimately show ?case using s Cons.prems(1) by (auto simp: Let_def list_all_iff)
qed simp

lemma to_v1_emit_eq:
  assumes ok: "capsule_ok p n" "unat n \<le> length p" and c: "length (logical p) = Suc c" "c = unat cnt"
    and conv: "list_all tag_convertible (tl (logical p))"
  defines "pls i \<equiv> map logical_payload (drop (Suc i) (logical p))"
  shows "\<lbrakk>i \<le> c; image_end (unat cur) (pls i) \<le> 67108864; image_end (unat cur) (pls i) \<le> length buf\<rbrakk> \<Longrightarrow>
    to_v1_emit (view_of p n) phys cnt [i..<c] buf cur = Some (patches buf (linked_tags phys (unat cur) (pls i)))"
proof (induction "c - i" arbitrary: i cur buf)
  case 0
  then show ?case using c by (simp add: pls_def)
next
  case (Suc m)
  have i: "i < c" "[i..<c] = i # [Suc i..<c]" "m = c - Suc i" using Suc.hyps(2) by (simp_all add: upt_conv_Cons)
  define ev where "ev = entry_at p (Suc i)"
  define pl where "pl = take (unat (e_size ev)) (e_data ev)"
  have i': "Suc i < length (logical p)" using i c by simp
  note en = entry_of_logical [OF ok i', folded ev_def]
  have e: "logical p ! Suc i = (e_type ev, e_flags ev, e_version ev, pl)" using en(2) by (simp add: pl_def)
  have l: "length pl = unat (e_size ev)" using en(3) by (simp add: pl_def)
  have "tag_convertible (logical p ! Suc i)"
    using conv i' nth_mem [of i "tl (logical p)"] by (auto simp: list_all_iff nth_tl)
  then have pl32: "32 \<le> length pl" by (simp add: tag_convertible_def e)
  have pls: "pls i = pl # pls (Suc i)" using i' by (simp add: pls_def Cons_nth_drop_Suc [symmetric] e)
  define s where "s = (cur + 7) AND NOT 7"
  have hi: "round_up (unat cur) 8 + length pl \<le> image_end (unat cur) (pls i)"
    using image_end_ge [of "round_up (unat cur) 8 + length pl" "pls (Suc i)"] by (simp add: pls)
  have s: "unat s = round_up (unat cur) 8" unfolding s_def
    using round_up_ge [of 8 "unat cur"] hi Suc.prems(2) by (intro align7) simp
  have add: "unat (s + e_size ev) = round_up (unat cur) 8 + length pl"
    using s hi Suc.prems(2) l unat_add_u64 [of s "e_size ev"] by simp
  define nxt where "nxt = (if of_nat i + 1 < cnt then phys + ((s + e_size ev + 7) AND NOT 7) else 0)"
  have "unat ((s + e_size ev + 7) AND NOT 7) = round_up (round_up (unat cur) 8 + length pl) 8"
    using align7 [of "s + e_size ev"] add hi Suc.prems(2) by simp
  then have "(s + e_size ev + 7) AND NOT 7 = of_nat (round_up (round_up (unat cur) 8 + length pl) 8)"
    by (metis of_nat_unat_u64)
  moreover have "of_nat i + 1 < cnt \<longleftrightarrow> pls (Suc i) \<noteq> []"
  proof -
    have "unat (of_nat i + 1 :: u32) = Suc i"
      using i(1) c(2) unat_u32_less [of cnt] unat_of_nat_u32 [of "Suc i"] by (simp add: add.commute)
    then show ?thesis using c i by (auto simp: word_less_nat_alt pls_def)
  qed
  ultimately have nxt: "linked_tags phys (unat cur) (pls i) =
      (unat s, sealed_tag pl nxt) # linked_tags phys (unat (s + e_size ev)) (pls (Suc i))"
    by (simp add: pls nxt_def s add Let_def)
  have rd: "rd (e_data ev) 0 (unat (e_size ev)) = Some pl" using en(3) by (simp add: rd_def pl_def)
  have e1: "entry_of (view_of p n) (i + 1) = Some ev" using en(1) by simp
  have b: "unat s + length pl \<le> length buf" using hi Suc.prems(3) s by simp
  have "to_v1_emit (view_of p n) phys cnt [i..<c] buf cur =
      to_v1_emit (view_of p n) phys cnt [Suc i..<c] (patch buf (unat s) (sealed_tag pl nxt)) (s + e_size ev)"
    unfolding i(2) to_v1_emit.simps e1 bind.bind_lunit Let_def s_def [symmetric] nxt_def [symmetric] rd
    by (rule seal_writes [OF pl32 b l [symmetric]])
  moreover have "to_v1_emit (view_of p n) phys cnt [Suc i..<c] (patch buf (unat s) (sealed_tag pl nxt)) (s + e_size ev) =
      Some (patches (patch buf (unat s) (sealed_tag pl nxt)) (linked_tags phys (unat (s + e_size ev)) (pls (Suc i))))"
    using Suc.prems add b pl32 i(1) by (intro Suc.hyps(1) [OF i(3)]) (simp_all add: pls)
  ultimately show ?case unfolding nxt by simp
qed

section \<open>The information block of the image\<close>

definition info_head :: "u8 list \<Rightarrow> u32 \<Rightarrow> u64 \<Rightarrow> u32 \<Rightarrow> u8 list" where
  "info_head payload tag_count first_tag total_sz = bbp_info_magic @ put_le 2 BBP_VERSION_MAJOR @
     put_le 2 BBP_VERSION_MINOR @ put_le 4 total_sz @ slice payload 0 92 @ put_le 4 tag_count @ put_le 8 first_tag @
     slice payload 96 8"

definition info_block :: "u8 list \<Rightarrow> u32 \<Rightarrow> u64 \<Rightarrow> u32 \<Rightarrow> u8 list" where
  "info_block payload tag_count first_tag total_sz =
     (let h = info_head payload tag_count first_tag total_sz in h @ put_le 8 (crc_skip_bytes (h @ replicate 8 0) 136))"

lemma length_info_block:
  assumes "104 \<le> length payload"
  shows "length (info_head payload c a z) = 136" "length (info_block payload c a z) = 144"
  using assms by (simp_all add: info_head_def info_block_def Let_def slice_def)

lemma head_fields:
  assumes "length a = 16" "length b = 2" "length c = 2" "length d = 4" "length e = 32" "length f = 16" "length g = 16"
    "length h = 8" "length i = 8" "length j = 8" "length k = 2" "length l = 2" "length m = 4" "length n = 8" "length q = 8"
  shows "patches (replicate 144 0) [(0, a), (16, b), (18, c), (20, d), (24, e), (56, f), (72, g), (88, h), (96, i), (104, j),
      (112, k), (114, l), (116, m), (120, n), (128, q)] =
    a @ b @ c @ d @ e @ f @ g @ h @ i @ j @ k @ l @ m @ n @ q @ replicate 8 0"
  using assms by (simp add: patch_def)

lemma patches_inside:
  "\<lbrakk>list_all (\<lambda>(d, y). d + length y \<le> length x) ws; s + length x \<le> length b\<rbrakk> \<Longrightarrow>
    patches (patch b s x) (map (\<lambda>(d, y). (s + d, y)) ws) = patch b s (patches x ws)"
proof (induction ws arbitrary: x)
  case (Cons w ws)
  obtain d y where w: "w = (d, y)" by (cases w)
  then show ?case using Cons by (auto simp: patch_patch_inside list_all_iff)
qed simp

text \<open>A sequence of writes.\<close>

fun writes :: "u8 list \<Rightarrow> (nat \<times> u8 list) list \<Rightarrow> u8 list option" where
  "writes b [] = Some b"
| "writes b ((d, y) # ws) = do { b \<leftarrow> wr b d y; writes b ws }"

lemma writes_eq: "list_all (\<lambda>(d, y). d + length y \<le> length b) ws \<Longrightarrow> writes b ws = Some (patches b ws)"
  by (induction b ws rule: writes.induct) (auto simp: wr_patch list_all_iff)

lemma restore_info_eq:
  assumes "104 \<le> length payload" "144 \<le> length buf"
  shows "restore_info buf payload c a z = Some (patch buf 0 (info_block payload c a z))"
proof -
  let ?ws = "[(0, bbp_info_magic), (16, put_le 2 BBP_VERSION_MAJOR), (18, put_le 2 BBP_VERSION_MINOR), (20, put_le 4 z),
    (24, slice payload 0 32), (56, slice payload 32 16), (72, slice payload 48 16), (88, slice payload 64 8),
    (96, slice payload 72 8), (104, slice payload 80 8), (112, slice payload 88 2), (114, slice payload 90 2),
    (116, put_le 4 c), (120, put_le 8 a), (128, slice payload 96 8)]"
  define h where "h = info_head payload c a z"
  have sl: "length (slice payload d k) = k" if "d + k \<le> 104" for d k using that assms(1) by (simp add: slice_def)
  have "slice payload 0 92 = slice payload 0 32 @ slice payload 32 16 @ slice payload 48 16 @ slice payload 64 8 @
      slice payload 72 8 @ slice payload 80 8 @ slice payload 88 2 @ slice payload 90 2"
    using slice_fields [of payload 0 0 "[32, 16, 16, 8, 8, 8, 2, 2]"] by simp
  then have head: "patches (replicate 144 0) ?ws = h @ replicate 8 0"
    by (subst head_fields) (simp_all add: sl h_def info_head_def)
  have b: "patches buf ((0, replicate 144 0) # ?ws) = patch buf 0 (h @ replicate 8 0)"
    using patches_inside [of "replicate 144 0" ?ws 0 buf] assms(2) by (simp add: sl head [simplified])
  have lh: "length h = 136" using length_info_block [OF assms(1)] by (simp add: h_def)
  define k where "k = crc_skip_bytes (h @ replicate 8 0) 136"
  have crc: "crc_skip (patch buf 0 (h @ replicate 8 0)) 144 136 = Some k"
    using crc_skip_eq [of 144 "patch buf 0 (h @ replicate 8 0)" 136] assms(2) lh by (simp add: patch_def k_def)
  have "patch (patch buf 0 (h @ replicate 8 0)) 136 (put_le 8 k) = patch buf 0 (info_block payload c a z)"
    using patch_patch_inside [of 136 "put_le 8 k" "h @ replicate 8 0" 0 buf] lh assms(2)
    by (simp add: info_block_def Let_def h_def [symmetric] k_def) (simp add: patch_def)
  moreover have "rd payload d n = Some (slice payload d n)" if "d + n \<le> 104" for d n
    using that assms(1) by (simp add: rd_def slice_def)
  then have "restore_info buf payload c a z =
      do { b \<leftarrow> writes buf ((0, replicate 144 0) # ?ws); k \<leftarrow> crc_skip b 144 136; put64 b 136 k }"
    using assms by (simp add: restore_info_def put16_def put32_def put64_def get_at put_get_slice)
  moreover have "writes buf ((0, replicate 144 0) # ?ws) = Some (patch buf 0 (h @ replicate 8 0))"
    unfolding b [symmetric] using assms(2) by (intro writes_eq) (simp add: sl)
  ultimately show ?thesis
    using assms(2) lh by (simp add: crc put_patch del: writes.simps)
qed

section \<open>The image\<close>

definition v1_image :: "u8 list \<Rightarrow> u64 \<Rightarrow> u8 list \<Rightarrow> u8 list list \<Rightarrow> u8 list" where
  "v1_image buf phys payload pls = patches buf ((0, replicate (image_end 144 pls) 0) # linked_tags phys 144 pls @
     [(0, info_block payload (of_nat (length pls)) (if pls = [] then 0 else phys + 144) (of_nat (image_end 144 pls)))])"

definition external_entries :: "logical_entry list \<Rightarrow> nat" where
  "external_entries es = length (filter flagged_external es)"

text \<open>When a capsule can be converted back into a buffer.\<close>

definition to_v1_fits :: "u8 list \<Rightarrow> u64 \<Rightarrow> u64 \<Rightarrow> u32 \<Rightarrow> u64 \<Rightarrow> u64 \<Rightarrow> u64 \<Rightarrow> bool" where
  "to_v1_fits p n data_address policy output_address capacity phys \<longleftrightarrow>
     (\<exists>e es. logical p = e # es \<and> info_convertible e \<and> list_all tag_convertible es \<and>
       (external_entries (e # es) \<noteq> 0 \<longrightarrow> external_allowed policy) \<and>
       (let t = image_end 144 (map logical_payload es) in
          t \<le> 67108864 \<and> t \<le> unat capacity \<and> phys \<noteq> 0 \<and> 8 dvd unat phys \<and> unat phys + t \<le> 2 ^ 48 \<and>
          \<not> memory_ranges_overlap output_address (of_nat t) data_address n))"

lemma check_info_entry_eq:
  assumes "unat (e_size ev) \<le> length (e_data ev)" "pl = take (unat (e_size ev)) (e_data ev)"
  shows "check_info_entry ev = Some (if info_convertible (e_type ev, e_flags ev, e_version ev, pl)
     then Inr (if e_flags ev AND BBP_V2_EF_EXTERNAL_PHYS \<noteq> 0 then 1 else 0) else Inl BBP_V2_ERR_SOURCE)"
proof -
  have l: "length pl = 104 \<longleftrightarrow> e_size ev = V1_INFO_PAYLOAD_BYTES"
    using assms by (simp add: V1_INFO_PAYLOAD_BYTES_def word_unat_eq_iff)
  show ?thesis
  proof (cases "e_size ev = V1_INFO_PAYLOAD_BYTES")
    case True
    then have "104 \<le> length (e_data ev)" "pl = take 104 (e_data ev)" using assms by (simp_all add: V1_INFO_PAYLOAD_BYTES_def)
    then have "get64 (e_data ev) 96 = Some (le64_at pl 96)" by (simp add: get_at le64_at_def drop_take)
    then show ?thesis using True l by (auto simp: check_info_entry_def info_convertible_def)
  qed (use l in \<open>auto simp: check_info_entry_def info_convertible_def\<close>)
qed

lemma linked_tags_length: "length (linked_tags phys c pls) = length pls"
  by (induction pls arbitrary: c) (simp_all add: Let_def)

lemma to_v1_write_eq:
  assumes ok: "capsule_ok p n" "unat n \<le> length p" and L: "logical p = e # es"
    and conv: "info_convertible e" "list_all tag_convertible es"
    and cnt: "unat cnt = length es" and t: "unat t = image_end 144 (map logical_payload es)" "unat t \<le> 67108864"
    and buf: "unat t \<le> length buf"
  shows "to_v1_write (view_of p n) (entry_at p 0) phys cnt t buf =
    Some (v1_image buf phys (logical_payload e) (map logical_payload es))"
proof -
  let ?pls = "map logical_payload es"
  define b where "b = patch buf 0 (replicate (unat t) 0)"
  define tags where "tags = linked_tags phys 144 ?pls"
  have lb: "length b = length buf" using buf by (simp add: b_def)
  have t144: "144 \<le> unat t" using image_end_ge [of 144 ?pls] t(1) by simp
  have "\<forall>pl\<in>set ?pls. 32 \<le> length pl"
    using conv(2) by (auto simp: list_all_iff tag_convertible_def split: prod.splits)
  from linked_tags_bounds [OF this, of 144 "unat t" phys]
  have bnd: "list_all (\<lambda>(d, x). d + length x \<le> length b) tags"
    using t(1) buf lb by (auto simp: tags_def list_all_iff)
  have em: "to_v1_emit (view_of p n) phys cnt [0..<unat cnt] b 144 = Some (patches b tags)"
    using to_v1_emit_eq [OF ok _ refl, of cnt 0 144 b phys] L conv(2) cnt t buf lb by (simp add: tags_def)
  note en = entry_of_logical [OF ok, of 0]
  have pl: "logical_payload e = take (unat (e_size (entry_at p 0))) (e_data (entry_at p 0))"
    "unat (e_size (entry_at p 0)) \<le> length (e_data (entry_at p 0))"
    using en(2,3) by (auto simp: L)
  moreover have "length (logical_payload e) = 104"
    using conv(1) by (auto simp: info_convertible_def split: prod.splits)
  ultimately have d: "104 \<le> length (e_data (entry_at p 0))" "logical_payload e = take 104 (e_data (entry_at p 0))" by auto
  then have blk: "info_block (e_data (entry_at p 0)) c a z = info_block (logical_payload e) c a z" for c a z
    by (simp add: info_block_def info_head_def slice_def drop_take)
  have res: "restore_info (patches b tags) (e_data (entry_at p 0)) cnt a z =
      Some (patch (patches b tags) 0 (info_block (logical_payload e) cnt a z))" for a z
    unfolding blk [symmetric] using d(1) t144 buf lb bnd by (intro restore_info_eq) simp_all
  have c: "cnt = of_nat (length es)" unfolding cnt [symmetric] by simp
  have c0: "(cnt \<noteq> 0) = (?pls \<noteq> [])" using cnt by (auto simp: unat_eq_0 [symmetric] simp del: unat_eq_0)
  have z: "(ucast t :: u32) = of_nat (unat t)" by (simp add: of_nat_unat)
  have "wr buf 0 (replicate (unat t) 0) = Some b" using buf by (simp add: wr_patch b_def)
  then have "to_v1_write (view_of p n) (entry_at p 0) phys cnt t buf =
      Some (patch (patches b tags) 0 (info_block (logical_payload e) cnt (if ?pls \<noteq> [] then phys + 144 else 0) (of_nat (unat t))))"
    unfolding to_v1_write_def sizeof_simps em z c0 bind.bind_lunit by (simp only: bind.bind_lunit em res)
  then show ?thesis
    unfolding v1_image_def t(1) [symmetric] tags_def [symmetric] c
    by (simp add: patches_append b_def [symmetric])
qed

lemma to_v1_finish_eq:
  assumes ok: "capsule_ok p n" "unat n \<le> length p" and L: "logical p = e # es"
    and conv: "info_convertible e" "list_all tag_convertible es"
    and cnt: "unat cnt = length es" and t: "unat t = image_end 144 (map logical_payload es)" "unat t \<le> 67108864"
    and cap: "unat capacity \<le> length buf" and x: "x = of_nat (external_entries (e # es))"
  shows "\<exists>r. to_v1_finish da (view_of p n) (entry_at p 0) policy oa buf capacity phys True cnt (t, x) = Some r \<and>
    (case r of Inl _ \<Rightarrow> \<not> to_v1_fits p n da policy oa capacity phys
     | Inr (q, t', rp) \<Rightarrow> to_v1_fits p n da policy oa capacity phys \<and> t' = t \<and>
         q = v1_image buf phys (logical_payload e) (map logical_payload es) \<and>
         rp = Some \<lparr>br_tag_count = cnt, br_external_reference_tags = x\<rparr>)"
proof -
  have "length (logical p) \<le> 1024"
    using ok by (auto simp: logical_def Let_def capsule_ok_def header_ok_def)
  then have "external_entries (e # es) \<le> 1024"
    using length_filter_le [of flagged_external "logical p"] unfolding external_entries_def L by linarith
  then have x0: "x \<noteq> 0 \<longleftrightarrow> external_entries (e # es) \<noteq> 0"
    using x unat_of_nat_u32 [of "external_entries (e # es)"] by (auto simp: unat_eq_0 [symmetric] simp del: unat_eq_0)
  have tt: "of_nat (image_end 144 (map logical_payload es)) = t" using t(1) by (metis of_nat_unat_u64)
  have phys: "\<not> (phys = 0 \<or> phys AND 7 \<noteq> 0 \<or> phys \<ge> V1_MAX_PHYS \<or> t > V1_MAX_PHYS - phys) \<longleftrightarrow>
      phys \<noteq> 0 \<and> 8 dvd unat phys \<and> unat phys + unat t \<le> 2 ^ 48"
    using t image_end_ge [of 144 "map logical_payload es"]
    by (auto simp: bridge_consts word_nat_simps unat_sub and_7_eq_0_iff)
  have fits: "to_v1_fits p n da policy oa capacity phys \<longleftrightarrow>
      \<not> (x \<noteq> 0 \<and> policy AND BBP_V2_BRIDGE_ALLOW_EXTERNAL_PHYS = 0) \<and> \<not> t > capacity \<and>
      \<not> (phys = 0 \<or> phys AND 7 \<noteq> 0 \<or> phys \<ge> V1_MAX_PHYS \<or> t > V1_MAX_PHYS - phys) \<and>
      \<not> memory_ranges_overlap oa t da n"
    unfolding to_v1_fits_def L phys x0 using conv t tt
    by (auto simp: Let_def external_allowed_def word_nat_simps)
  have w: "to_v1_write (view_of p n) (entry_at p 0) phys cnt t buf =
      Some (v1_image buf phys (logical_payload e) (map logical_payload es))" if "\<not> t > capacity"
    using that cap by (intro to_v1_write_eq [OF ok L conv cnt t]) (simp add: word_nat_simps)
  have "v_total_size (view_of p n) = n" by (simp add: view_of_def)
  then show ?thesis
    unfolding fits to_v1_finish_def prod.case using w by auto
qed

lemma to_v1_spec:
  assumes addr: "data_address \<noteq> 0" "output_address \<noteq> 0" and src: "v_data src = p" "v_total_size src = n"
    and len: "unat n \<le> length p" "unat capacity \<le> length buf"
  shows "\<exists>r. bbp_v2_to_v1 (Some (data_address, src)) policy output_address buf capacity phys True True = Some r \<and>
    (case r of Inl _ \<Rightarrow> \<not> (capsule_ok p n \<and> to_v1_fits p n data_address policy output_address capacity phys)
     | Inr (q, t, rp) \<Rightarrow> capsule_ok p n \<and> to_v1_fits p n data_address policy output_address capacity phys \<and>
         q = v1_image buf phys (logical_payload (hd (logical p))) (map logical_payload (tl (logical p))) \<and>
         unat t = image_end 144 (map logical_payload (tl (logical p))) \<and>
         rp = Some \<lparr>br_tag_count = of_nat (length (tl (logical p))),
           br_external_reference_tags = of_nat (external_entries (logical p))\<rparr>)"
proof -
  obtain r0 where r0: "bbp_v2_parse (Some p) n True = Some r0"
    "\<forall>v. r0 = Inr v \<longleftrightarrow> capsule_ok p n \<and> v = view_of p n"
    using parse_spec [OF len(1)] by auto
  note eq = bbp_v2_to_v1_def [of "Some (data_address, src)" policy output_address buf capacity phys True True]
  have pre: "(data_address = 0 \<or> output_address = 0 \<or> \<not> True) = False" using addr by simp
  show ?thesis
  proof (cases r0)
    case (Inl e)
    then show ?thesis using r0 unfolding eq option.case prod.case pre if_False src r0(1) by auto
  next
    case (Inr v)
    then have ok: "capsule_ok p n" and v: "r0 = Inr (view_of p n)" using r0(2) by auto
    have cnt: "v_entry_count (view_of p n) = cnt_at p" "length (logical p) = unat (cnt_at p)"
      by (simp_all add: view_of_def logical_def Let_def)
    show ?thesis
    proof (cases "logical p")
      case Nil
      then have "cnt_at p = 0" using cnt(2) by (simp add: unat_eq_0)
      then show ?thesis
        unfolding eq option.case prod.case pre if_False src r0(1) v bind.bind_lunit sum.case cnt(1) using Nil
        by (simp add: to_v1_fits_def)
    next
      case (Cons e es)
      define ev where "ev = entry_at p 0"
      note en = entry_of_logical [OF ok len(1), of 0, folded ev_def, unfolded Cons, simplified]
      have c0: "cnt_at p \<noteq> 0" using cnt(2) Cons by auto
      have c1: "unat (cnt_at p - 1) = length es" using cnt(2) Cons c0 by (simp add: unat_minus_one)
      have info: "check_info_entry ev = Some (if info_convertible e
          then Inr (if flagged_external e then 1 else 0) else Inl BBP_V2_ERR_SOURCE)"
        using check_info_entry_eq [OF en(3) refl] en(2) by (simp add: flagged_external_def)
      define x0 :: u32 where "x0 = (if flagged_external e then 1 else 0)"
      have run: "bbp_v2_to_v1 (Some (data_address, src)) policy output_address buf capacity phys True True =
          (if info_convertible e then do {
             r \<leftarrow> to_v1_checks (view_of p n) [0..<length es] 144 x0;
             case r of Inl e \<Rightarrow> Some (Inl e)
             | Inr st \<Rightarrow> to_v1_finish data_address (view_of p n) ev policy output_address buf capacity phys True (cnt_at p - 1) st }
           else Some (Inl BBP_V2_ERR_SOURCE))"
        unfolding eq option.case prod.case pre if_False src r0(1) v bind.bind_lunit sum.case cnt(1) Cons x0_def
        using c0 en(1) info c1 by (simp del: to_v1_checks.simps)
      show ?thesis
      proof (cases "info_convertible e")
        case False
        then show ?thesis unfolding run using Cons by (simp add: to_v1_fits_def)
      next
        case True
        have d: "drop (Suc 0) (logical p) = es" "unat (144 :: u64) = 144" using Cons by simp_all
        obtain r2 where r2: "to_v1_checks (view_of p n) [0..<length es] 144 x0 = Some r2"
          "case r2 of Inl _ \<Rightarrow> \<not> (list_all tag_convertible es \<and> image_end 144 (map logical_payload es) \<le> 67108864)
           | Inr (t, x') \<Rightarrow> (list_all tag_convertible es \<and> image_end 144 (map logical_payload es) \<le> 67108864) \<and>
               unat t = image_end 144 (map logical_payload es) \<and> x' = x0 + of_nat (length (filter flagged_external es))"
          using to_v1_checks_eq [OF ok len(1), of "length es" 0 144 x0, unfolded d] Cons by auto
        show ?thesis
        proof (cases r2)
          case (Inl s)
          then show ?thesis unfolding run r2(1) using r2(2) True Cons by (auto simp: to_v1_fits_def)
        next
          case (Inr tx)
          obtain t x where tx: "tx = (t, x)" by (cases tx)
          have f: "list_all tag_convertible es" "unat t \<le> 67108864" "unat t = image_end 144 (map logical_payload es)"
            "x = of_nat (external_entries (e # es))"
            using r2(2) Inr tx by (auto simp: external_entries_def x0_def)
          have "cnt_at p - 1 = of_nat (length es)" unfolding c1 [symmetric] by simp
          then show ?thesis
            unfolding run r2(1) Inr tx if_P [OF True] bind.bind_lunit sum.case ev_def
            using to_v1_finish_eq [OF ok len(1) Cons True f(1) c1 f(3,2) len(2) f(4), of data_address policy output_address phys]
              ok f(3,4) Cons by (auto split: sum.splits)
        qed
      qed
    qed
  qed
qed

section \<open>The image is a v1 chain\<close>

definition map_shows :: "phys_map \<Rightarrow> u64 \<Rightarrow> u8 list \<Rightarrow> nat \<Rightarrow> bool" where
  "map_shows m phys q n \<longleftrightarrow> (\<forall>a k. 0 < unat k \<and> unat phys \<le> unat a \<and> unat a + unat k \<le> unat phys + n \<longrightarrow>
     (\<exists>address bs. m a k = Some (address, bs) \<and> take (unat k) bs = slice q (unat a - unat phys) (unat k)))"

definition convertible_payloads :: "u8 list list \<Rightarrow> bool" where
  "convertible_payloads pls \<longleftrightarrow> (\<forall>pl\<in>set pls. 32 \<le> length pl \<and> length pl \<le> 16777216 \<and> unat (le32_at pl 8) = length pl \<and>
     unlinked pl = pl \<and> 0 \<le> refers pl)"

lemma linked_tags_mem:
  assumes "(s, t) \<in> set (linked_tags phys c pls)"
  shows "8 dvd s \<and> (\<exists>pl\<in>set pls. \<exists>a. t = sealed_tag pl a)"
  using assms by (induction pls arbitrary: c) (auto simp: Let_def round_up_dvd)

lemma linked_tags_path:
  "\<forall>(s, t)\<in>set (linked_tags phys c pls). v1_tag_at m (phys + of_nat s) t \<Longrightarrow> \<forall>pl\<in>set pls. 32 \<le> length pl \<Longrightarrow>
    v1_path m (if pls = [] then 0 else phys + of_nat (round_up c 8))
      (map (\<lambda>(s, t). (phys + of_nat s, t)) (linked_tags phys c pls)) 0"
proof (induction pls arbitrary: c)
  case (Cons pl pls)
  then show ?case using Cons.IH [of "round_up c 8 + length pl"] by (auto simp: Let_def sealed_tag_ok(2))
qed simp

lemma linked_tags_unlinked:
  assumes "\<forall>pl\<in>set pls. 32 \<le> length pl"
  shows "map (unlinked \<circ> snd) (linked_tags phys c pls) = map unlinked pls"
  using assms by (induction pls arbitrary: c) (auto simp: Let_def sealed_tag_ok(3))

lemma linked_tags_ordered:
  assumes "\<forall>pl\<in>set pls. 32 \<le> length pl"
  shows "sorted_wrt (\<lambda>x y. fst x + length (snd x) \<le> fst y) (linked_tags phys c pls)"
  using assms
proof (induction pls arbitrary: c)
  case (Cons pl pls)
  let ?s = "round_up c 8"
  have "list_all (\<lambda>(d, t). ?s + length pl \<le> d \<and> d + length t \<le> image_end (?s + length pl) pls)
      (linked_tags phys (?s + length pl) pls)"
    using Cons.prems by (intro linked_tags_bounds) auto
  then show ?case using Cons by (auto simp: Let_def list_all_iff)
qed simp

lemma image_bytes:
  assumes pls: "\<forall>pl\<in>set pls. 32 \<le> length pl" and pay: "104 \<le> length payload" and n: "image_end 144 pls \<le> length buf"
  shows "slice (v1_image buf phys payload pls) 0 144 =
      info_block payload (of_nat (length pls)) (if pls = [] then 0 else phys + 144) (of_nat (image_end 144 pls))"
    "(s, t) \<in> set (linked_tags phys 144 pls) \<Longrightarrow> slice (v1_image buf phys payload pls) s (length t) = t"
    "drop (image_end 144 pls) (v1_image buf phys payload pls) = drop (image_end 144 pls) buf"
    "length (v1_image buf phys payload pls) = length buf"
proof -
  let ?n = "image_end 144 pls" and ?tags = "linked_tags phys 144 pls"
  let ?blk = "info_block payload (of_nat (length pls)) (if pls = [] then 0 else phys + 144) (of_nat (image_end 144 pls))"
  define ws where "ws = (0, replicate ?n 0) # ?tags @ [(0, ?blk)]"
  have img: "v1_image buf phys payload pls = patches buf ws" by (simp add: v1_image_def ws_def)
  have lb: "length ?blk = 144" by (rule length_info_block(2) [OF pay])
  have n144: "144 \<le> ?n" by (rule image_end_ge)
  have bnd: "list_all (\<lambda>(d, t). 144 \<le> d \<and> d + length t \<le> ?n) ?tags"
    using pls by (intro linked_tags_bounds) simp_all
  have all: "list_all (\<lambda>(d, t). d + length t \<le> ?n) ws"
    using bnd lb n144 by (auto simp: ws_def list_all_iff)
  then have all': "list_all (\<lambda>(d, t). d + length t \<le> length buf) ws" using n by (auto simp: list_all_iff)
  then show len: "length (v1_image buf phys payload pls) = length buf" unfolding img by simp
  show "slice (v1_image buf phys payload pls) 0 144 = ?blk"
    unfolding img ws_def using slice_patches_last [of buf "(0, replicate ?n 0) # ?tags" 0 ?blk "[]" 144] all' lb n n144
    by (auto simp: ws_def list_all_iff)
  show "drop ?n (v1_image buf phys payload pls) = drop ?n buf"
  proof (rule nth_equalityI)
    fix i assume "i < length (drop ?n (v1_image buf phys payload pls))"
    then have "patches buf ws ! (?n + i) = buf ! (?n + i)"
      using all all' len n by (intro nth_patches_out) (auto simp: list_all_iff)
    then show "drop ?n (v1_image buf phys payload pls) ! i = drop ?n buf ! i" using n len img by simp
  qed (simp add: len)
  assume "(s, t) \<in> set ?tags"
  then obtain us vs where sp: "?tags = us @ (s, t) # vs" by (meson split_list)
  have "list_all (\<lambda>(x, y). s + length t \<le> x \<or> x + length y \<le> s) (vs @ [(0, ?blk)])"
    using linked_tags_ordered [OF pls, of phys 144] bnd lb unfolding sp by (auto simp: sorted_wrt_append list_all_iff)
  then have "list_all (\<lambda>(x, y). x + length y \<le> length buf \<and> (s + length t \<le> x \<or> x + length y \<le> s)) (vs @ [(0, ?blk)])"
    using all' by (auto simp: ws_def sp list_all_iff)
  then have "slice (patches buf (((0, replicate ?n 0) # us) @ (s, t) # (vs @ [(0, ?blk)]))) s (length t) = t"
    using all' by (intro slice_patches_last) (auto simp: ws_def sp list_all_iff)
  then show "slice (v1_image buf phys payload pls) s (length t) = t"
    unfolding img ws_def sp by simp
qed

lemma sealed_tag_body:
  assumes "32 \<le> length pl" "length pl < 2 ^ 64"
  shows "le32_at (sealed_tag pl a) 8 = le32_at pl 8" "refers (sealed_tag pl a) = refers pl"
proof -
  have "same_body (length pl) (sealed_tag pl a) pl"
    using assms(1) by (auto simp: same_body_def sealed_tag_def Let_def nth_patch)
  then show "le32_at (sealed_tag pl a) 8 = le32_at pl 8" using same_body_at(2) [of "length pl" _ pl 8] assms(1) by simp
  show "refers (sealed_tag pl a) = refers pl"
    using refers_unlinked [of "sealed_tag pl a"] refers_unlinked [of pl] sealed_tag_ok(3) [of pl a] assms by simp
qed

lemma info_block_fields:
  assumes pay: "104 \<le> length payload" and q: "slice q 0 144 = info_block payload c a z"
  shows "take 16 q = bbp_info_magic" "le16_at q 16 = BBP_VERSION_MAJOR" "le16_at q 18 = BBP_VERSION_MINOR"
    "le32_at q 20 = z" "le32_at q 116 = c" "le64_at q 120 = a" "crc_field_ok (take 144 q) 136"
    "info_payload q = patch (take 104 payload) 92 (replicate 4 0)"
proof -
  define h where "h = info_head payload c a z"
  have lh: "length h = 136" using length_info_block(1) [OF pay] by (simp add: h_def)
  have s: "slice payload 0 92 = take 92 payload" "slice payload 96 8 = take 8 (drop 96 payload)" by (simp_all add: slice_def)
  have lp: "length (slice payload 0 92) = 92" "length (slice payload 96 8) = 8" using pay by (simp_all add: slice_def)
  have blk: "slice q 0 144 = bbp_info_magic @ put_le 2 BBP_VERSION_MAJOR @ put_le 2 BBP_VERSION_MINOR @ put_le 4 z @
      slice payload 0 92 @ put_le 4 c @ put_le 8 a @ slice payload 96 8 @ put_le 8 (crc_skip_bytes (h @ replicate 8 0) 136)"
    by (simp add: q info_block_def Let_def h_def info_head_def)
  note sub = le_at_sub [of _ 144 q 0, unfolded blk add_0]
  have "take 16 q = slice (slice q 0 144) 0 16" by (simp add: slice_def)
  then show "take 16 q = bbp_info_magic" unfolding blk by (simp add: slice_cat)
  show "le16_at q 16 = BBP_VERSION_MAJOR" "le16_at q 18 = BBP_VERSION_MINOR" "le32_at q 20 = z" "le32_at q 116 = c" "le64_at q 120 = a"
    by (subst sub, simp, simp add: slice_cat lp)+
  have "take 144 q = h @ put_le 8 (crc_skip_bytes (h @ replicate 8 0) 136)"
    using q by (simp add: slice_def info_block_def Let_def h_def)
  then show "crc_field_ok (take 144 q) 136"
    using crc_field_ok_seal [of 136 "h @ replicate 8 0"] lh by simp
  have "slice q 24 92 = slice (slice q 0 144) 24 92" "slice q 128 8 = slice (slice q 0 144) 128 8" by (simp_all add: slice_slice)
  then have "slice q 24 92 = slice payload 0 92" "slice q 128 8 = slice payload 96 8"
    unfolding blk by (simp_all add: slice_cat lp)
  then show "info_payload q = patch (take 104 payload) 92 (replicate 4 0)"
    using pay by (simp add: info_payload_def patch_def s drop_take)
qed

definition image_fits :: "u64 \<Rightarrow> u8 list list \<Rightarrow> bool" where
  "image_fits phys pls \<longleftrightarrow> convertible_payloads pls \<and> length pls \<le> 1023 \<and> image_end 144 pls \<le> 67108864 \<and>
     phys \<noteq> 0 \<and> 8 dvd unat phys \<and> unat phys + image_end 144 pls \<le> 2 ^ 48"

lemma image_fits_addr:
  assumes "image_fits phys pls" "s \<le> image_end 144 pls"
  shows "unat (phys + of_nat s) = unat phys + s"
  using assms unat_of_nat_u64 [of s] unat_add_u64 [of phys "of_nat s"] by (simp add: image_fits_def)

lemma image_tag_bounds:
  assumes "image_fits phys pls" "(s, t) \<in> set (linked_tags phys 144 pls)"
  shows "144 \<le> s" "s + length t \<le> image_end 144 pls" "8 dvd s"
proof -
  have "\<forall>pl\<in>set pls. 32 \<le> length pl" using assms(1) by (simp add: image_fits_def convertible_payloads_def)
  then show "144 \<le> s" "s + length t \<le> image_end 144 pls" "8 dvd s"
    using linked_tags_bounds [of pls 144 "image_end 144 pls" phys] linked_tags_mem [OF assms(2)] assms(2)
    by (auto simp: list_all_iff)
qed

lemma image_tag_at:
  assumes fit: "image_fits phys pls" and pay: "104 \<le> length payload" and n: "image_end 144 pls \<le> length buf"
    and m: "map_shows m phys (v1_image buf phys payload pls) (image_end 144 pls)"
    and mem: "(s, t) \<in> set (linked_tags phys 144 pls)"
  shows "v1_tag_at m (phys + of_nat s) t"
proof -
  let ?q = "v1_image buf phys payload pls"
  have p32: "\<forall>pl\<in>set pls. 32 \<le> length pl" using fit by (simp add: image_fits_def convertible_payloads_def)
  note bnd = image_tag_bounds [OF fit mem]
  obtain pl a where t: "pl \<in> set pls" "t = sealed_tag pl a" using linked_tags_mem [OF mem] by blast
  have pl: "32 \<le> length pl" "length pl \<le> 16777216" "unat (le32_at pl 8) = length pl" "0 \<le> refers pl"
    using fit t(1) by (auto simp: image_fits_def convertible_payloads_def)
  have u: "unat (phys + of_nat s) = unat phys + s" using bnd by (intro image_fits_addr [OF fit]) simp
  have k: "unat (of_nat (length t) :: u64) = length t" using pl t(2) by (simp add: unat_of_nat_u64)
  obtain address bs where "m (phys + of_nat s) (of_nat (length t)) = Some (address, bs)" "take (length t) bs = slice ?q s (length t)"
    using m [unfolded map_shows_def, rule_format, of "of_nat (length t)" "phys + of_nat s"] bnd u k pl(1) t(2) by fastforce
  moreover have "slice ?q s (length t) = t" using image_bytes(2) [OF p32 pay n mem] .
  moreover have "phys + of_nat s \<noteq> 0" using u bnd(1) by auto
  ultimately show ?thesis
    using pl t(2) sealed_tag_ok(1) [OF pl(1), of a] sealed_tag_body [OF pl(1), of a] u bnd fit
    by (auto simp: v1_tag_at_def image_fits_def)
qed

lemma image_info_ok:
  assumes fit: "image_fits phys pls" and pay: "104 \<le> length payload" and n: "image_end 144 pls \<le> length buf"
  shows "v1_info_ok (v1_image buf phys payload pls)"
proof -
  have p32: "\<forall>pl\<in>set pls. 32 \<le> length pl" using fit by (simp add: image_fits_def convertible_payloads_def)
  note f = info_block_fields [OF pay image_bytes(1) [OF p32 pay n]]
  have fi: "length pls \<le> 1023" "image_end 144 pls \<le> 67108864" "8 dvd unat phys" using fit by (simp_all add: image_fits_def)
  have c: "unat (of_nat (length pls) :: u32) = length pls" "unat (of_nat (image_end 144 pls) :: u32) = image_end 144 pls"
    using fi by (simp_all add: unat_of_nat_u32)
  have a: "unat (phys + 144) = unat phys + 144"
    using image_fits_addr [OF fit, of 144] image_end_ge [of 144 pls] by simp
  then have z: "phys + 144 \<noteq> 0" by auto
  have l: "of_nat (length pls) = (0 :: u32) \<longleftrightarrow> pls = []" using c(1) by (auto simp: unat_eq_0 [symmetric] simp del: unat_eq_0)
  show ?thesis
    unfolding v1_info_ok_def f(1-6) c l using z a fi f(7) image_end_ge [of 144 pls] by auto
qed

lemma image_chain:
  assumes fit: "image_fits phys pls" and pay: "104 \<le> length payload" and n: "image_end 144 pls \<le> length buf"
  defines "q \<equiv> v1_image buf phys payload pls"
  assumes m: "map_shows m phys q (image_end 144 pls)"
  shows "\<exists>ts. v1_chain \<lparr>vs_info = Some q, vs_map = Some m\<rparr> q ts \<and> map (unlinked \<circ> snd) ts = pls"
proof -
  let ?tags = "linked_tags phys 144 pls" and ?at = "\<lambda>(s, t). (phys + of_nat s :: u64, t :: u8 list)"
  have p32: "\<forall>pl\<in>set pls. 32 \<le> length pl" using fit by (simp add: image_fits_def convertible_payloads_def)
  note f = info_block_fields [OF pay image_bytes(1) [OF p32 pay n]]
  have "sorted_wrt apart (map ?at ?tags)"
    unfolding sorted_wrt_map
  proof (rule sorted_wrt_mono_rel [OF _ linked_tags_ordered [OF p32]])
    fix x y assume xy: "x \<in> set ?tags" "y \<in> set ?tags" "fst x + length (snd x) \<le> fst y"
    obtain s t s' t' where st: "x = (s, t)" "y = (s', t')" by (cases x; cases y)
    have "s \<le> image_end 144 pls" "s' \<le> image_end 144 pls"
      using image_tag_bounds(2) [OF fit, of s t] image_tag_bounds(2) [OF fit, of s' t'] xy st by auto
    then show "apart (?at x) (?at y)"
      using image_fits_addr [OF fit, of s] image_fits_addr [OF fit, of s'] xy(3) st by (simp add: apart_def)
  qed
  moreover have "\<forall>(s, t)\<in>set ?tags. v1_tag_at m (phys + of_nat s) t"
    using image_tag_at [OF fit pay n m [unfolded q_def]] by blast
  then have "v1_path m (le64_at q 120) (map ?at ?tags) 0"
    unfolding q_def f(6) using linked_tags_path [of phys 144 pls m, OF _ p32] by (simp add: round_up_def split: if_splits)
  moreover have "length (map ?at ?tags) = unat (le32_at q 116)"
    unfolding q_def f(5) using fit by (simp add: linked_tags_length unat_of_nat_u32 image_fits_def)
  moreover have "map (unlinked \<circ> snd) (map ?at ?tags) = pls"
  proof -
    have "(unlinked \<circ> snd) \<circ> ?at = unlinked \<circ> snd" by auto
    moreover have "map unlinked pls = pls"
      using fit by (intro map_idI) (simp add: image_fits_def convertible_payloads_def)
    ultimately show ?thesis using linked_tags_unlinked [OF p32, of phys 144] by simp
  qed
  ultimately show ?thesis
    using image_info_ok [OF fit pay n] by (intro exI [of _ "map ?at ?tags"]) (simp add: v1_chain_def q_def)
qed

text \<open>What the conversion leaves in the output: a v1 chain with the contents of the capsule.\<close>

definition v1_restored :: "u8 list \<Rightarrow> u8 list \<Rightarrow> u64 \<Rightarrow> u8 list \<Rightarrow> u64 \<Rightarrow> bool" where
  "v1_restored p buf phys q t \<longleftrightarrow> unat t = image_end 144 (map logical_payload (tl (logical p))) \<and> length q = length buf \<and> drop (unat t) q = drop (unat t) buf \<and>
     le32_at q 20 = ucast t \<and> info_payload q = patch (logical_payload (hd (logical p))) 92 (replicate 4 0) \<and>
     (\<forall>m. map_shows m phys q (unat t) \<longrightarrow> (\<exists>ts. v1_chain \<lparr>vs_info = Some q, vs_map = Some m\<rparr> q ts \<and>
        map (unlinked \<circ> snd) ts = map logical_payload (tl (logical p))))"

lemma unlinked_zero:
  assumes "32 \<le> length pl" "le64_at pl 16 = 0" "le64_at pl 24 = 0"
  shows "unlinked pl = pl"
proof -
  have "slice pl 16 8 = put_le 8 (0 :: u64)" "slice pl 24 8 = put_le 8 (0 :: u64)"
    using put_get_slice(1) [of 16 pl] put_get_slice(1) [of 24 pl] assms by simp_all
  then have z: "slice pl 16 8 ! i = 0" "slice pl 24 8 ! i = 0" if "i < 8" for i using that by (simp_all add: put_le_0)
  have "pl ! q = 0" if "16 \<le> q" "q < 32" for q
    using z(1) [of "q - 16"] z(2) [of "q - 24"] that assms(1) by (cases "q < 24") (simp_all add: slice_nth)
  then show ?thesis using assms(1) by (intro nth_equalityI) (simp_all add: nth_unlinked)
qed

lemma convertible_entries:
  assumes "list_all tag_convertible es"
  shows "convertible_payloads (map logical_payload es)"
proof -
  have "32 \<le> length (logical_payload e) \<and> length (logical_payload e) \<le> 16777216 \<and>
      unat (le32_at (logical_payload e) 8) = length (logical_payload e) \<and>
      unlinked (logical_payload e) = logical_payload e \<and> 0 \<le> refers (logical_payload e)" if "e \<in> set es" for e
    using assms that unlinked_zero by (cases e) (auto simp: list_all_iff tag_convertible_def)
  then show ?thesis by (auto simp: convertible_payloads_def)
qed

lemma image_restored:
  assumes cap: "capsule_ok p n" "unat n \<le> length p" and fits: "to_v1_fits p n da policy oa capacity phys"
    and c: "unat capacity \<le> length buf" and t: "unat t = image_end 144 (map logical_payload (tl (logical p)))"
  shows "v1_restored p buf phys (v1_image buf phys (logical_payload (hd (logical p))) (map logical_payload (tl (logical p)))) t"
proof -
  obtain e es where L: "logical p = e # es" and conv: "info_convertible e" "list_all tag_convertible es"
    and f: "image_end 144 (map logical_payload es) \<le> 67108864" "image_end 144 (map logical_payload es) \<le> unat capacity"
      "phys \<noteq> 0" "8 dvd unat phys" "unat phys + image_end 144 (map logical_payload es) \<le> 2 ^ 48"
    using fits by (auto simp: to_v1_fits_def Let_def)
  let ?pls = "map logical_payload es" and ?pay = "logical_payload e"
  let ?q = "v1_image buf phys ?pay ?pls"
  have pay: "length ?pay = 104" using conv(1) by (auto simp: info_convertible_def split: prod.splits)
  have "length (logical p) \<le> 1024" using cap by (auto simp: logical_def Let_def capsule_ok_def header_ok_def)
  then have fit: "image_fits phys ?pls"
    using f convertible_entries [OF conv(2)] by (simp add: image_fits_def L)
  then have p32: "\<forall>pl\<in>set ?pls. 32 \<le> length pl" by (simp add: image_fits_def convertible_payloads_def)
  have n: "image_end 144 ?pls \<le> length buf" using f(2) c by simp
  have pay': "104 \<le> length ?pay" using pay by simp
  note ib = image_bytes [OF p32 pay' n] and fields = info_block_fields [OF pay' image_bytes(1) [OF p32 pay' n]]
  have tt: "unat t = image_end 144 ?pls" using t by (simp add: L)
  have z: "(ucast t :: u32) = of_nat (image_end 144 ?pls)" unfolding tt [symmetric] by simp
  have "info_payload ?q = patch ?pay 92 (replicate 4 0)" using fields(8) pay by simp
  then show ?thesis
    unfolding v1_restored_def L list.sel tt z
    using ib(3,4) fields(4) image_chain [OF fit pay' n] tt by blast
qed

lemma to_v1_outcome:
  assumes addr: "data_address \<noteq> 0" "output_address \<noteq> 0"
    and len: "unat (v_total_size src) \<le> length (v_data src)" "unat capacity \<le> length buf"
  shows "\<exists>r. bbp_v2_to_v1 (Some (data_address, src)) policy output_address buf capacity phys True True = Some r \<and>
    (case r of
       Inl _ \<Rightarrow> \<not> (capsule_ok (v_data src) (v_total_size src) \<and>
         to_v1_fits (v_data src) (v_total_size src) data_address policy output_address capacity phys)
     | Inr (q, t, rp) \<Rightarrow> capsule_ok (v_data src) (v_total_size src) \<and>
         to_v1_fits (v_data src) (v_total_size src) data_address policy output_address capacity phys \<and>
         v1_restored (v_data src) buf phys q t \<and>
         rp = Some \<lparr>br_tag_count = of_nat (length (tl (logical (v_data src)))),
           br_external_reference_tags = of_nat (external_entries (logical (v_data src)))\<rparr>)"
proof -
  obtain r where r: "bbp_v2_to_v1 (Some (data_address, src)) policy output_address buf capacity phys True True = Some r"
    "case r of Inl _ \<Rightarrow> \<not> (capsule_ok (v_data src) (v_total_size src) \<and>
         to_v1_fits (v_data src) (v_total_size src) data_address policy output_address capacity phys)
     | Inr (q, t, rp) \<Rightarrow> capsule_ok (v_data src) (v_total_size src) \<and>
         to_v1_fits (v_data src) (v_total_size src) data_address policy output_address capacity phys \<and>
         q = v1_image buf phys (logical_payload (hd (logical (v_data src)))) (map logical_payload (tl (logical (v_data src)))) \<and>
         unat t = image_end 144 (map logical_payload (tl (logical (v_data src)))) \<and>
         rp = Some \<lparr>br_tag_count = of_nat (length (tl (logical (v_data src)))),
           br_external_reference_tags = of_nat (external_entries (logical (v_data src)))\<rparr>"
    using to_v1_spec [OF addr refl refl len] by blast
  then show ?thesis
    using image_restored [OF _ len(1) _ len(2)] by (cases r) auto
qed

section \<open>There and back\<close>

lemma wire_flags_ok:
  "wire_flags t AND BBP_V2_EF_V1_WIRE \<noteq> 0" "wire_flags t AND NOT (BBP_V2_EF_V1_WIRE OR BBP_V2_EF_EXTERNAL_PHYS) = 0"
  "wire_flags t AND BBP_V2_EF_EXTERNAL_PHYS \<noteq> 0 \<longleftrightarrow> refers t \<noteq> 0"
  by (simp_all add: wire_flags_def bridge_consts)

lemma wire_convertible:
  assumes "v1_tag_at m a t"
  shows "tag_convertible (wire_entry t)" "flagged_external (wire_entry t) \<longleftrightarrow> refers t \<noteq> 0"
proof -
  have t: "32 \<le> length t" "length t \<le> 16777216" "unat (le32_at t 8) = length t" "0 \<le> refers t"
    using assms by (auto simp: v1_tag_at_def)
  have b: "same_body (length t) (unlinked t) t" using t(1) by (auto simp: same_body_def nth_unlinked)
  have "slice (unlinked t) 16 8 = replicate 8 0" "slice (unlinked t) 24 8 = replicate 8 0"
    using t(1) by (auto intro!: nth_equalityI simp: slice_nth nth_unlinked slice_def)
  then have z: "le64_at (unlinked t) 16 = 0" "le64_at (unlinked t) 24 = 0" by (simp_all add: le_at_slice)
  have at: "le64_at (unlinked t) 0 = le64_at t 0" "le32_at (unlinked t) 8 = le32_at t 8" "le16_at (unlinked t) 12 = le16_at t 12"
    using same_body_at(1) [OF b, of 0] same_body_at(2) [OF b, of 8] same_body_at(3) [OF b, of 12] t(1) by simp_all
  show "tag_convertible (wire_entry t)"
    unfolding tag_convertible_def wire_entry_def prod.case using wire_flags_ok [of t] z at t refers_unlinked [of t] by simp
  show "flagged_external (wire_entry t) \<longleftrightarrow> refers t \<noteq> 0"
    using wire_flags_ok(3) by (simp add: flagged_external_def wire_entry_def)
qed

lemma info_entry_convertible:
  assumes "144 \<le> length v1_info"
  shows "info_convertible (info_entry_of v1_info)" "flagged_external (info_entry_of v1_info) \<longleftrightarrow> le64_at v1_info 128 \<noteq> 0"
    "patch (info_payload v1_info) 92 (replicate 4 0) = info_payload v1_info"
proof -
  have "le64_at (info_payload v1_info) 96 = le64_at v1_info 128"
    using assms by (simp add: le_at_slice info_payload_def slice_cat) (simp add: slice_def)
  then show "info_convertible (info_entry_of v1_info)" "flagged_external (info_entry_of v1_info) \<longleftrightarrow> le64_at v1_info 128 \<noteq> 0"
    using length_info_payload [OF assms]
    by (simp_all add: info_convertible_def info_entry_of_def flagged_external_def bridge_consts)
  show "patch (info_payload v1_info) 92 (replicate 4 0) = info_payload v1_info"
    using assms by (simp add: info_payload_def patch_def slice_def)
qed

lemma overlap_mono:
  assumes "\<not> memory_ranges_overlap a n b k" "t \<le> n"
  shows "\<not> memory_ranges_overlap a t b k"
proof -
  have o: "\<not> n > - 1 - a" "\<not> k > - 1 - b" "\<not> (a < b + k \<and> b < a + n)" 
    using assms(1) unfolding memory_ranges_overlap_def by metis+
  have "unat a + unat n < 2 ^ 64" using o(1) unat_le_max_minus [of a n] by (simp add: not_less add.commute)
  then have "\<not> t > - 1 - a" "unat (a + t) \<le> unat (a + n)"
    using assms(2) unat_add_u64 [of a n] unat_add_u64 [of a t] unat_le_max_minus [of a t] by (auto simp: word_le_nat_alt not_less add.commute)
  then show ?thesis using o(2,3) by (auto simp: memory_ranges_overlap_def word_less_nat_alt)
qed

lemma v1_path_tags: "v1_path m a ts b \<Longrightarrow> \<forall>x\<in>set ts. v1_tag_at m (fst x) (snd x)"
  by (induction m a ts b rule: v1_path.induct) auto

lemma converted_fits:
  assumes conv: "converted policy v1_info ts p n" and chain: "v1_chain src v1_info ts" and v: "144 \<le> length v1_info"
    and len: "unat n \<le> length p" and out: "n \<le> capacity" "phys \<noteq> 0" "phys AND 7 = 0" "unat phys + unat n \<le> 2 ^ 48"
      "\<not> memory_ranges_overlap oa n da n"
  shows "capsule_ok p n" "to_v1_fits p n da policy oa capacity phys"
    "external_entries (logical p) = external_count_of v1_info ts"
proof -
  have L: "logical p = info_entry_of v1_info # map (wire_entry \<circ> snd) ts"
    and x: "external_count_of v1_info ts \<noteq> 0 \<longrightarrow> external_allowed policy" and e: "image_end 144 (map snd ts) \<le> unat n"
    using conv by (auto simp: converted_def)
  show ok: "capsule_ok p n" using conv parse_spec [OF len] by (auto simp: converted_def)
  have tags: "\<exists>m. \<forall>x\<in>set ts. v1_tag_at m (fst x) (snd x)"
  proof (cases "ts = []")
    case False
    then obtain m where "v1_path m (le64_at v1_info 120) ts 0" using chain by (auto simp: v1_chain_def)
    then show ?thesis using v1_path_tags by blast
  qed simp
  then have w: "list_all tag_convertible (map (wire_entry \<circ> snd) ts)"
    "filter flagged_external (map (wire_entry \<circ> snd) ts) = map (wire_entry \<circ> snd) (filter (\<lambda>x. refers (snd x) \<noteq> 0) ts)"
    using wire_convertible by (auto simp: list_all_iff filter_map comp_def intro!: arg_cong [where f = "map _"] filter_cong)
  show ext: "external_entries (logical p) = external_count_of v1_info ts"
    using w(2) info_entry_convertible(2) [OF v] by (simp add: external_entries_def external_count_of_def external_tags_def L)
  have "map length (map logical_payload (map (wire_entry \<circ> snd) ts)) = map length (map snd ts)"
    using tags by (auto simp: wire_entry_def v1_tag_at_def)
  from image_end_cong [OF this, of 144]
  have ie: "image_end 144 (map logical_payload (map (wire_entry \<circ> snd) ts)) = image_end 144 (map snd ts)" .
  have n: "unat n \<le> 67108864" using ok by (auto simp: capsule_ok_def header_ok_def)
  have "(of_nat (image_end 144 (map snd ts)) :: u64) \<le> n"
    using e n by (simp add: word_le_nat_alt unat_of_nat_u64)
  from overlap_mono [OF out(5) this]
  have "\<not> memory_ranges_overlap oa (of_nat (image_end 144 (map snd ts))) da n" .
  moreover have "external_entries (info_entry_of v1_info # map (wire_entry \<circ> snd) ts) \<noteq> 0 \<longrightarrow> external_allowed policy"
    using ext x by (simp add: L)
  ultimately show "to_v1_fits p n da policy oa capacity phys"
    unfolding to_v1_fits_def Let_def
    using w(1) info_entry_convertible(1) [OF v] e n out(1-4)
    by (intro exI [of _ "info_entry_of v1_info"] exI [of _ "map (wire_entry \<circ> snd) ts"] conjI L)
      (simp_all only: ie word_le_nat_alt and_7_eq_0_iff; simp)+
qed

lemma roundtrip_outcome:
  assumes made: "bbp_v2_from_v1 (Some src) policy (Some a) output1 buf1 capacity1 True True = Some (Inr (p, n, rp))"
    and v: "vs_info src = Some v1_info" "144 \<le> length v1_info" "\<forall>m. vs_map src = Some m \<longrightarrow> map_covers m"
      "unat capacity1 \<le> length buf1"
    and out: "data_address \<noteq> 0" "output2 \<noteq> 0" "n \<le> capacity2" "unat capacity2 \<le> length buf2"
      "phys \<noteq> 0" "phys AND 7 = 0" "unat phys + unat n \<le> 2 ^ 48" "\<not> memory_ranges_overlap output2 n data_address n"
  shows "\<exists>q t. bbp_v2_to_v1 (Some (data_address, view_of p n)) policy output2 buf2 capacity2 phys True True = Some (Inr (q, t, rp)) \<and>
    info_payload q = info_payload v1_info \<and>
    (\<forall>m. map_shows m phys q (unat t) \<longrightarrow> (\<exists>ts ts'. v1_chain src v1_info ts \<and>
       v1_chain \<lparr>vs_info = Some q, vs_map = Some m\<rparr> q ts' \<and> map (unlinked \<circ> snd) ts' = map (unlinked \<circ> snd) ts))"
proof -
  obtain ts where ts: "length p = length buf1" "n \<le> capacity1" "v1_chain src v1_info ts" "converted policy v1_info ts p n"
    "rp = Some \<lparr>br_tag_count = of_nat (length ts), br_external_reference_tags = of_nat (external_count_of v1_info ts)\<rparr>"
    using from_v1_outcome [OF v, of policy a output1] made by auto
  have len: "unat n \<le> length p" using ts(1,2) v(4) by (simp add: word_le_nat_alt)
  note fit = converted_fits [OF ts(4,3) v(2) len out(3,5-8)]
  have L: "logical p = info_entry_of v1_info # map (wire_entry \<circ> snd) ts" using ts(4) by (simp add: converted_def)
  have vw: "v_data (view_of p n) = p" "v_total_size (view_of p n) = n" by (simp_all add: view_of_def)
  obtain q t where q: "bbp_v2_to_v1 (Some (data_address, view_of p n)) policy output2 buf2 capacity2 phys True True =
      Some (Inr (q, t, Some \<lparr>br_tag_count = of_nat (length (tl (logical p))),
        br_external_reference_tags = of_nat (external_entries (logical p))\<rparr>))" "v1_restored p buf2 phys q t"
  proof -
    note out_spec = to_v1_outcome [OF out(1,2), of "view_of p n" capacity2 buf2 policy phys, unfolded vw, OF len out(4)]
    then obtain r where "bbp_v2_to_v1 (Some (data_address, view_of p n)) policy output2 buf2 capacity2 phys True True = Some r"
      "case r of Inl _ \<Rightarrow> \<not> (capsule_ok p n \<and> to_v1_fits p n data_address policy output2 capacity2 phys)
       | Inr (q, t, rp) \<Rightarrow> capsule_ok p n \<and> to_v1_fits p n data_address policy output2 capacity2 phys \<and>
         v1_restored p buf2 phys q t \<and> rp = Some \<lparr>br_tag_count = of_nat (length (tl (logical p))),
           br_external_reference_tags = of_nat (external_entries (logical p))\<rparr>"
      by blast
    then show thesis using that fit(1,2) by (cases r) auto
  qed
  have "map logical_payload (tl (logical p)) = map (unlinked \<circ> snd) ts" by (simp add: L wire_entry_def)
  then have q': "\<exists>ts'. v1_chain \<lparr>vs_info = Some q, vs_map = Some m\<rparr> q ts' \<and>
      map (unlinked \<circ> snd) ts' = map (unlinked \<circ> snd) ts" if "map_shows m phys q (unat t)" for m
    using q(2) that unfolding v1_restored_def by metis
  have "info_payload q = info_payload v1_info"
    using q(2) info_entry_convertible(3) [OF v(2)] unfolding v1_restored_def L by (simp add: info_entry_of_def)
  moreover have "Some \<lparr>br_tag_count = of_nat (length (tl (logical p))),
      br_external_reference_tags = of_nat (external_entries (logical p))\<rparr> = rp"
    using ts(5) fit(3) by (simp add: L)
  ultimately show ?thesis using q(1) q' ts(3) by metis
qed

end
