(* ===== verification/Bridge_Kernel.thy ===== *)
theory Bridge_Kernel
  imports Bridge_Back
begin

text \<open>
  The bridge and the kernel-side parser on the same memory: the chain the bridge converts is the
  chain \<open>bbp_find_tag\<close> and \<open>bbp_for_each_tag\<close> walk, and the kernel accepts the image the bridge writes.
\<close>

section \<open>One memory, two readers\<close>

text \<open>The map function a kernel context provides.\<close>

definition kernel_map :: "mem \<Rightarrow> bbp_kctx \<Rightarrow> phys_map" where
  "kernel_map m k a sz =
     (if bbp_tag_region_ok k a sz
      then map_option (\<lambda>bs. (a + hhdm_offset k, bs)) (load m (a + hhdm_offset k) (unat sz)) else None)"

lemma kernel_map_covers: "map_covers (kernel_map m k)"
  by (auto simp: map_covers_def kernel_map_def load_length split: if_splits)

lemma kernel_tag:
  assumes "v1_tag_at (kernel_map m k) a t"
  shows "tag_ok m k a (a + hhdm_offset k) (le32_at t 8)" "tag_bytes m (a + hhdm_offset k) = Some t"
    "tag_valid m k (a + hhdm_offset k)" "ld64 m (a + hhdm_offset k + 16) = Some (le64_at t 16)"
proof -
  let ?v = "a + hhdm_offset k"
  have t: "a \<noteq> 0" "8 dvd unat a" "32 \<le> length t" "length t \<le> 16777216" "unat (le32_at t 8) = length t" "crc_field_ok t 24"
    using assms by (auto simp: v1_tag_at_def)
  have u: "unat (of_nat (length t) :: u64) = length t" using t(4) by (simp add: unat_of_nat_u64)
  obtain bs where bs: "bbp_tag_region_ok k a (of_nat (length t))" "load m ?v (length t) = Some bs" "t = take (length t) bs"
    using assms u by (auto simp: v1_tag_at_def kernel_map_def split: if_splits)
  then have ld: "load m ?v (length t) = Some t" using load_length [OF bs(2)] by simp
  have sz: "ld32 m (?v + 8) = Some (le32_at t 8)" "ld64 m (?v + 16) = Some (le64_at t 16)"
    using ld_of_load(2) [OF ld, of 8] ld_of_load(3) [OF ld, of 16] t(3) by (simp_all add: le32_at_def le64_at_def)
  have "unat (ucast (le32_at t 8) :: u64) = length t" using t(5) by (simp add: unat_ucast_u32)
  then have "(ucast (le32_at t 8) :: u64) = of_nat (length t)" by (metis of_nat_unat_u64)
  then show "tag_ok m k a ?v (le32_at t 8)" using t sz(1) bs(1) by (simp add: tag_ok_def)
  show "tag_bytes m ?v = Some t" using sz(1) ld t(5) by (simp add: tag_bytes_def)
  have "bbp_tag_crc_ok m ?v = Some True" using bbp_tag_crc_ok_eq [of m ?v "le32_at t 8" t] ld sz(1) t by simp
  then show "tag_valid m k ?v" by (simp add: tag_valid_def tag_crc_bad_def)
  show "ld64 m (?v + 16) = Some (le64_at t 16)" by (rule sz(2))
qed

lemma kernel_walk:
  "v1_path (kernel_map m k) a ts 0 \<Longrightarrow> length ts \<le> n \<Longrightarrow>
    tag_walk m k a n = Some (map (\<lambda>x. fst x + hhdm_offset k) ts)"
proof (induction ts arbitrary: a n)
  case Nil
  then show ?case by (cases n) simp_all
next
  case (Cons x ts)
  obtain c t where x: "x = (c, t)" by (cases x)
  then have t: "c = a" "v1_tag_at (kernel_map m k) a t" "v1_path (kernel_map m k) (le64_at t 16) ts 0"
    using Cons.prems(1) by simp_all
  obtain n' where n: "n = Suc n'" using Cons.prems(2) by (cases n) auto
  have "bbp_tag_at m k a = Some (Some (a + hhdm_offset k))" "a \<noteq> 0"
    using kernel_tag(1) [OF t(2)] bbp_tag_at_Some_iff by (blast, auto simp: tag_ok_def)
  then show ?case
    using Cons.IH [OF t(3), of n'] Cons.prems(2) kernel_tag(4) [OF t(2)] t(1) by (simp add: n x)
qed

text \<open>The kernel accepts the block at \<open>info k\<close> and walks exactly the tags of the capsule \<open>p\<close>.\<close>

definition kernel_sees :: "mem \<Rightarrow> bbp_kctx \<Rightarrow> u8 list \<Rightarrow> bool" where
  "kernel_sees m k p \<longleftrightarrow> (\<exists>ps vs. load m (info k) 144 = Some ps \<and> info_status ps = BBP_OK \<and> tag_chain m k = Some vs \<and>
     (\<forall>v\<in>set vs. tag_valid m k v) \<and>
     map (\<lambda>v. map_option unlinked (tag_bytes m v)) vs = map (Some \<circ> logical_payload) (tl (logical p)))"

lemma v1_info_status: "v1_info_ok q \<Longrightarrow> length ps = 144 \<Longrightarrow> ps = take 144 q \<Longrightarrow> info_status ps = BBP_OK"
  by (auto simp: v1_info_ok_def info_status_def le16_at_def le32_at_def drop_take min_def BBP_VERSION_MAJOR_def)

lemma chain_kernel_sees:
  assumes chain: "v1_chain \<lparr>vs_info = Some q, vs_map = Some (kernel_map m k)\<rparr> q ts"
    and ld: "load m (info k) 144 = Some (take 144 q)" and q: "144 \<le> length q"
    and p: "map (unlinked \<circ> snd) ts = map logical_payload (tl (logical p))"
  shows "kernel_sees m k p"
proof -
  let ?vs = "map (\<lambda>x. fst x + hhdm_offset k) ts"
  have ok: "v1_info_ok q" and len: "length ts = unat (le32_at q 116)" using chain by (auto simp: v1_chain_def)
  have path: "v1_path (kernel_map m k) (le64_at q 120) ts 0"
  proof (cases "ts = []")
    case True
    then have "le32_at q 116 = 0" using len by (simp add: unat_eq_0)
    then show ?thesis using True ok by (simp add: v1_info_ok_def)
  next
    case False
    then show ?thesis using chain by (simp add: v1_chain_def)
  qed
  have "length ts \<le> BBP_MAX_TAGS" using ok len by (simp add: BBP_MAX_TAGS_def v1_info_ok_def)
  note walk = kernel_walk [OF path this] and tags = v1_path_tags [OF path]
  have "ld64 m (info k + 120) = Some (le64_at q 120)"
    using ld_of_load(3) [OF ld, of 120] by (simp add: le64_at_def drop_take)
  then have "tag_chain m k = Some ?vs" using walk by (simp add: tag_chain_def)
  moreover have "\<forall>v\<in>set ?vs. tag_valid m k v" using tags kernel_tag(3) by auto
  moreover have "map (\<lambda>v. map_option unlinked (tag_bytes m v)) ?vs = map (Some \<circ> logical_payload) (tl (logical p))"
  proof -
    have "map (\<lambda>v. map_option unlinked (tag_bytes m v)) ?vs = map Some (map (unlinked \<circ> snd) ts)"
      using tags kernel_tag(2) by auto
    then show ?thesis unfolding p by simp
  qed
  moreover have "info_status (take 144 q) = BBP_OK" using v1_info_status [OF ok] q by simp
  ultimately show ?thesis unfolding kernel_sees_def using ld by blast
qed

section \<open>The image in memory\<close>

text \<open>A context for an image of \<open>t\<close> bytes at \<open>phys\<close>, mapped at the offset \<open>h\<close>.\<close>

definition image_ctx :: "u64 \<Rightarrow> u64 \<Rightarrow> u64 \<Rightarrow> bbp_kctx" where
  "image_ctx phys h t =
     \<lparr>info = phys + h, hhdm_offset = h, verify_tag_crc = True, walk_lo = phys, walk_hi = phys + t\<rparr>"

lemma image_map_shows:
  assumes ld: "load m (phys + h) (unat t) = Some (take (unat t) q)" and t: "unat t \<le> length q"
    and phys: "unat phys + unat t \<le> 2 ^ 48" "0 < unat phys" "unat phys + unat h + unat t < 2 ^ 64" and a: "0 < unat k"
    "unat phys \<le> unat a" "unat a + unat k \<le> unat phys + unat t"
  shows "\<exists>bs. kernel_map m (image_ctx phys h t) a k = Some (a + h, bs) \<and>
    take (unat k) bs = slice q (unat a - unat phys) (unat k)"
proof -
  have hi: "unat (phys + t) = unat phys + unat t" using phys(1) by (intro unat_add_u64) simp
  have "bbp_tag_region_ok (image_ctx phys h t) a k"
    unfolding bbp_tag_region_ok_iff bbp_address_region_ok_iff using a phys hi by (auto simp: image_ctx_def word_less_nat_alt)
  moreover have o: "unat a - unat phys + unat k \<le> unat t" using a by linarith
  have "a + h = phys + h + of_nat (unat a - unat phys)" using a(2) by (simp add: of_nat_diff)
  then have "load m (a + h) (unat k) = Some (take (unat k) (drop (unat a - unat phys) (take (unat t) q)))"
    using load_sub [OF ld o] by (simp only:)
  moreover have "take (unat k) (drop (unat a - unat phys) (take (unat t) q)) = slice q (unat a - unat phys) (unat k)"
    using o by (simp add: slice_def drop_take min_absorb1)
  ultimately show ?thesis using t a by (simp add: kernel_map_def image_ctx_def slice_def min_def)
qed

lemma image_kernel_outcome:
  assumes conv: "bbp_v2_to_v1 (Some (data_address, src)) policy output_address buf capacity phys True True = Some (Inr (q, t, rp))"
    and len: "unat (v_total_size src) \<le> length (v_data src)" "unat capacity \<le> length buf"
    and ld: "load m (phys + h) (unat t) = Some (take (unat t) q)" "unat phys + unat h + unat t < 2 ^ 64"
  shows "kernel_sees m (image_ctx phys h t) (v_data src)"
proof -
  let ?p = "v_data src" and ?k = "image_ctx phys h t"
  have addr: "data_address \<noteq> 0" "output_address \<noteq> 0" using conv by (auto simp: bbp_v2_to_v1_def split: if_splits)
  have fits: "to_v1_fits ?p (v_total_size src) data_address policy output_address capacity phys"
    and r: "v1_restored ?p buf phys q t"
    using to_v1_outcome [OF addr len, of policy phys] conv by auto
  have t: "unat t = image_end 144 (map logical_payload (tl (logical ?p)))" "length q = length buf"
    using r by (simp_all add: v1_restored_def)
  then have b: "144 \<le> unat t" "unat t \<le> length q" "phys \<noteq> 0" "unat phys + unat t \<le> 2 ^ 48"
    using fits len(2) image_end_ge [of 144] by (auto simp: to_v1_fits_def Let_def)
  have "map_shows (kernel_map m ?k) phys q (unat t)"
    unfolding map_shows_def using image_map_shows [OF ld(1) b(2,4) _ ld(2)] b(3) by (fastforce simp: unat_gt_0)
  then obtain ts where ts: "v1_chain \<lparr>vs_info = Some q, vs_map = Some (kernel_map m ?k)\<rparr> q ts"
    "map (unlinked \<circ> snd) ts = map logical_payload (tl (logical ?p))"
    using r unfolding v1_restored_def by blast
  have "load m (phys + h) 144 = Some (take 144 q)"
    using load_sub [OF ld(1), of 0 144] b(1) by simp
  then show ?thesis
    using chain_kernel_sees [OF ts(1) _ _ ts(2)] b(1,2) by (simp add: image_ctx_def)
qed

lemma bridge_kernel_outcome:
  assumes conv: "bbp_v2_from_v1 (Some \<lparr>vs_info = Some v1_info, vs_map = Some (kernel_map m k)\<rparr>) policy (Some a) output_address
      buf capacity True True = Some (Inr (p, n, rp))"
    and ld: "load m (info k) 144 = Some v1_info" and cap: "unat capacity \<le> length buf"
  shows "kernel_sees m k p"
proof -
  let ?src = "\<lparr>vs_info = Some v1_info, vs_map = Some (kernel_map m k)\<rparr>"
  have v: "144 \<le> length v1_info" "take 144 v1_info = v1_info" using load_length [OF ld] by simp_all
  obtain ts where ts: "v1_chain ?src v1_info ts" "converted policy v1_info ts p n"
    using from_v1_outcome [of ?src v1_info capacity buf policy a output_address] conv v(1) cap kernel_map_covers by auto
  then have "map logical_payload (tl (logical p)) = map (unlinked \<circ> snd) ts"
    by (simp add: converted_def wire_entry_def)
  then show ?thesis
    using chain_kernel_sees [of v1_info m k ts p] ts(1) ld v by simp
qed

section \<open>Properties\<close>

text \<open>C11. Converting a v1 chain is safe and faithful: whatever the bytes are, no access leaves the mapped
  spans or the output. When a capsule is returned, the v1 information block was valid and its chain
  ends after exactly the announced number of tags, all well-formed, with right checksums and
  pairwise disjoint. The capsule parses. Its entries are the information block without its
  linkage and then every tag in chain order with the linkage cleared, flagged when it refers to
  other memory, which the policy must allow. Nothing is stored past the reported size.\<close>

theorem bridge_from_v1_faithful:
  assumes "vs_info src = Some v1_info" "144 \<le> length v1_info" "\<forall>m. vs_map src = Some m \<longrightarrow> map_covers m"
    and "unat capacity \<le> length buf"
  shows "\<exists>r. bbp_v2_from_v1 (Some src) policy (Some a) output_address buf capacity True True = Some r \<and>
    (\<forall>p n rp. r = Inr (p, n, rp) \<longrightarrow> n \<le> capacity \<and> length p = length buf \<and> drop (unat n) p = drop (unat n) buf \<and>
       (\<exists>ts. v1_chain src v1_info ts \<and> converted policy v1_info ts p n \<and>
          rp = Some \<lparr>br_tag_count = of_nat (length ts), br_external_reference_tags = of_nat (external_count_of v1_info ts)\<rparr>))"
  using assms by (rule from_v1_outcome)

text \<open>C12. Converting back is exact: \<open>bbp_v2_to_v1\<close> succeeds if and only if the capsule is well-formed, its
  first entry is a v1 information block, all others are v1 tags, external references are allowed,
  and the image fits the output, the v1 limits and the physical address space. Then the output is a
  valid v1 chain, at the announced physical address, of exactly the tags of the capsule, freshly
  linked and sealed, and no byte past the reported size has changed.\<close>

theorem bridge_to_v1_exact:
  assumes "data_address \<noteq> 0" "output_address \<noteq> 0"
    and "unat (v_total_size src) \<le> length (v_data src)" "unat capacity \<le> length buf"
  shows "\<exists>r. bbp_v2_to_v1 (Some (data_address, src)) policy output_address buf capacity phys True True = Some r \<and>
    (case r of
       Inl _ \<Rightarrow> \<not> (capsule_ok (v_data src) (v_total_size src) \<and>
         to_v1_fits (v_data src) (v_total_size src) data_address policy output_address capacity phys)
     | Inr (q, t, rp) \<Rightarrow> capsule_ok (v_data src) (v_total_size src) \<and>
         to_v1_fits (v_data src) (v_total_size src) data_address policy output_address capacity phys \<and>
         v1_restored (v_data src) buf phys q t \<and>
         rp = Some \<lparr>br_tag_count = of_nat (length (tl (logical (v_data src)))),
           br_external_reference_tags = of_nat (external_entries (logical (v_data src)))\<rparr>)"
  using assms by (rule to_v1_outcome)

text \<open>C13. Round trip: a capsule made from a v1 chain converts back under the same policy into any
  output that is at least as large as the capsule, and the new v1 chain has the information fields
  and, in order, the tags of the old one. Only the linkage differs.\<close>

theorem bridge_roundtrip:
  assumes "bbp_v2_from_v1 (Some src) policy (Some a) output1 buf1 capacity1 True True = Some (Inr (p, n, rp))"
    and "vs_info src = Some v1_info" "144 \<le> length v1_info" "\<forall>m. vs_map src = Some m \<longrightarrow> map_covers m"
      "unat capacity1 \<le> length buf1"
    and "data_address \<noteq> 0" "output2 \<noteq> 0" "n \<le> capacity2" "unat capacity2 \<le> length buf2"
      "phys \<noteq> 0" "phys AND 7 = 0" "unat phys + unat n \<le> 2 ^ 48" "\<not> memory_ranges_overlap output2 n data_address n"
  shows "\<exists>q t. bbp_v2_to_v1 (Some (data_address, view_of p n)) policy output2 buf2 capacity2 phys True True = Some (Inr (q, t, rp)) \<and>
    info_payload q = info_payload v1_info \<and>
    (\<forall>m. map_shows m phys q (unat t) \<longrightarrow> (\<exists>ts ts'. v1_chain src v1_info ts \<and>
       v1_chain \<lparr>vs_info = Some q, vs_map = Some m\<rparr> q ts' \<and> map (unlinked \<circ> snd) ts' = map (unlinked \<circ> snd) ts))"
  using assms by (rule roundtrip_outcome)

text \<open>C14. The kernel accepts what the bridge writes: when the image of \<open>bbp_v2_to_v1\<close> is mapped at its
  physical address, the kernel parser finds a valid information block there, and walks exactly the
  tags of the capsule, in order, all with right checksums.\<close>

theorem bridge_image_accepted:
  assumes "bbp_v2_to_v1 (Some (data_address, src)) policy output_address buf capacity phys True True = Some (Inr (q, t, rp))"
    and "unat (v_total_size src) \<le> length (v_data src)" "unat capacity \<le> length buf"
    and "load m (phys + h) (unat t) = Some (take (unat t) q)" "unat phys + unat h + unat t < 2 ^ 64"
  shows "kernel_sees m (image_ctx phys h t) (v_data src)"
  using assms by (rule image_kernel_outcome)

text \<open>C15. Bridge and kernel agree: when the bridge reads a v1 chain through the mapping of a kernel context
  and returns a capsule, the kernel parser accepts the same information block and walks exactly the
  tags that are in the capsule, in order, all with right checksums.\<close>

theorem bridge_agrees_with_kernel:
  assumes "bbp_v2_from_v1 (Some \<lparr>vs_info = Some v1_info, vs_map = Some (kernel_map m k)\<rparr>) policy (Some a) output_address
      buf capacity True True = Some (Inr (p, n, rp))"
    and "load m (info k) 144 = Some v1_info" "unat capacity \<le> length buf"
  shows "kernel_sees m k p"
  using assms by (rule bridge_kernel_outcome)

section \<open>Witnesses\<close>

text \<open>A v1 image with one HHDM tag at \<open>0x10000\<close>, in a memory that holds nothing else.\<close>

definition demo_payload :: "u8 list" where
  "demo_payload = put_le 8 BBP_TAG_HHDM @ put_le 4 (40 :: u32) @ put_le 2 (1 :: u16) @ replicate 18 0 @
     put_le 8 (0xffff800000000000 :: u64)"

definition demo_image :: "u8 list" where
  "demo_image = v1_image (replicate 184 0) 0x10000 (replicate 104 0) [demo_payload]"

definition mem_at :: "u64 \<Rightarrow> u8 list \<Rightarrow> mem" where
  "mem_at base q a = (if unat (a - base) < length q then Some (q ! unat (a - base)) else None)"

definition demo_ctx :: bbp_kctx where
  "demo_ctx = image_ctx 0x10000 0 184"

definition demo_source :: bbp_v2_v1_source where
  "demo_source = \<lparr>vs_info = Some (take 144 demo_image), vs_map = Some (kernel_map (mem_at 0x10000 demo_image) demo_ctx)\<rparr>"

lemma load_mem_at: "length q < 2 ^ 64 \<Longrightarrow> load (mem_at base q) base (length q) = Some q"
  by (simp add: load_eq_Some_iff mem_at_def unat_of_nat_u64)

lemma demo_payload_fields:
  "length demo_payload = 40" "le64_at demo_payload 0 = BBP_TAG_HHDM" "le32_at demo_payload 8 = 40"
  "unlinked demo_payload = demo_payload" "refers demo_payload = 0"
proof -
  show l: "length demo_payload = 40" by (simp add: demo_payload_def)
  show h: "le64_at demo_payload 0 = BBP_TAG_HHDM" "le32_at demo_payload 8 = 40"
    by (simp_all add: le_at_slice demo_payload_def slice_cat)
  have "slice demo_payload 16 8 = replicate 8 0" "slice demo_payload 24 8 = replicate 8 0"
    by (simp_all add: demo_payload_def slice_def)
  then show "unlinked demo_payload = demo_payload" using l by (intro unlinked_zero) (simp_all add: le_at_slice)
  have "get64 demo_payload 0 = Some BBP_TAG_HHDM" using l h(1) by (simp add: get_at)
  then show "refers demo_payload = 0"
    using l by (simp add: refers_def tag_external_references_def plain_references_def int_of_test_def)
qed

lemma demo_image_fits: "image_fits 0x10000 [demo_payload]" "image_end 144 [demo_payload] = 184"
  using demo_payload_fields by (simp_all add: image_fits_def convertible_payloads_def round_up_def)

lemma v1_info_ok_take: "v1_info_ok q \<Longrightarrow> v1_info_ok (take 144 q)"
  by (simp add: v1_info_ok_def le16_at_def le32_at_def le64_at_def drop_take min_def)

lemma demo_image_bytes:
  "length demo_image = 184" "slice demo_image 144 40 = sealed_tag demo_payload 0" "v1_info_ok demo_image"
  "le32_at demo_image 116 = 1" "le64_at demo_image 120 = 0x10090" "le64_at demo_image 128 = 0"
proof -
  have p: "\<forall>pl\<in>set [demo_payload]. 32 \<le> length pl" "104 \<le> length (replicate 104 (0 :: u8))"
    "image_end 144 [demo_payload] \<le> length (replicate 184 (0 :: u8))"
    using demo_payload_fields(1) demo_image_fits(2) by simp_all
  note ib = image_bytes [OF p, of "0x10000", folded demo_image_def] and f = info_block_fields [OF p(2) ib(1)]
  show "length demo_image = 184" using ib(4) by simp
  have "(144, sealed_tag demo_payload 0) \<in> set (linked_tags 0x10000 144 [demo_payload])" by (simp add: round_up_def)
  from image_bytes(2) [OF p this] show "slice demo_image 144 40 = sealed_tag demo_payload 0"
    using demo_payload_fields(1) by (simp add: demo_image_def)
  show "v1_info_ok demo_image" unfolding demo_image_def by (rule image_info_ok [OF demo_image_fits(1) p(2,3)])
  show "le32_at demo_image 116 = 1" "le64_at demo_image 120 = 0x10090" using f(5,6) by simp_all
  have "slice demo_image 128 8 = drop 96 (info_payload demo_image)"
    using ib(4) by (simp add: info_payload_def slice_def)
  also have "\<dots> = replicate 8 0" unfolding f(8) by (simp add: patch_def)
  finally show "le64_at demo_image 128 = 0" by (simp add: le_at_slice)
qed

lemma demo_map:
  assumes "0 < unat k" "0x10000 \<le> unat a" "unat a + unat k \<le> 0x100B8"
  shows "\<exists>bs. kernel_map (mem_at 0x10000 demo_image) demo_ctx a k = Some (a, bs) \<and>
    take (unat k) bs = slice demo_image (unat a - 0x10000) (unat k)"
proof -
  have "load (mem_at 0x10000 demo_image) (0x10000 + 0) (unat (184 :: u64)) = Some (take (unat (184 :: u64)) demo_image)"
    using load_mem_at [of demo_image "0x10000"] demo_image_bytes(1) by simp
  from image_map_shows [OF this, of k a] show ?thesis
    using assms demo_image_bytes(1) by (simp add: demo_ctx_def)
qed

lemma demo_tag:
  obtains hb bs where "v1_tag_at (kernel_map (mem_at 0x10000 demo_image) demo_ctx) 0x10090 (sealed_tag demo_payload 0)"
    "kernel_map (mem_at 0x10000 demo_image) demo_ctx 0x10090 32 = Some (0x10090, hb)"
    "take 32 hb = take 32 (sealed_tag demo_payload 0)"
    "kernel_map (mem_at 0x10000 demo_image) demo_ctx 0x10090 40 = Some (0x10090, bs)"
    "take 40 bs = sealed_tag demo_payload 0"
proof -
  let ?m = "kernel_map (mem_at 0x10000 demo_image) demo_ctx" and ?t = "sealed_tag demo_payload 0"
  have "slice demo_image 144 32 = take 32 (slice demo_image 144 40)" by (simp add: slice_def)
  then obtain hb bs where b: "?m 0x10090 32 = Some (0x10090, hb)" "take 32 hb = take 32 ?t" "?m 0x10090 40 = Some (0x10090, bs)"
    "take 40 bs = ?t"
    using demo_map [of 32 "0x10090"] demo_map [of 40 "0x10090"] demo_image_bytes(2) by auto
  have "map_shows ?m 0x10000 (v1_image (replicate 184 0) 0x10000 (replicate 104 0) [demo_payload]) (image_end 144 [demo_payload])"
    unfolding map_shows_def demo_image_def [symmetric] demo_image_fits(2)
  proof (intro allI impI)
    fix a k :: u64 assume "0 < unat k \<and> unat (0x10000 :: u64) \<le> unat a \<and> unat a + unat k \<le> unat (0x10000 :: u64) + 184"
    then show "\<exists>address bs. ?m a k = Some (address, bs) \<and> take (unat k) bs = slice demo_image (unat a - unat (0x10000 :: u64)) (unat k)"
      using demo_map [of k a] by auto
  qed
  from image_tag_at [OF demo_image_fits(1) _ _ this, of 144 ?t]
  have "v1_tag_at ?m 0x10090 ?t"
    using demo_image_fits(2) demo_payload_fields(1) by (simp add: round_up_def)
  then show ?thesis using that b by blast
qed

lemma demo_take:
  "144 \<le> length (take 144 demo_image)" "v1_info_ok (take 144 demo_image)" "le32_at (take 144 demo_image) 116 = 1"
  "le64_at (take 144 demo_image) 120 = 0x10090" "le64_at (take 144 demo_image) 128 = 0"
  using demo_image_bytes v1_info_ok_take
  by (simp_all add: le32_at_def le64_at_def drop_take)

text \<open>The bridge converts it into a capsule of 304 bytes.\<close>

lemma demo_converted:
  obtains p n rp where "bbp_v2_from_v1 (Some demo_source) 0 (Some 0x8000) 0x20000 (replicate 304 0xFF) 304 True True =
    Some (Inr (p, n, rp))"
proof -
  let ?m = "kernel_map (mem_at 0x10000 demo_image) demo_ctx" and ?t = "sealed_tag demo_payload 0" and ?i = "take 144 demo_image"
  obtain hb bs where t: "v1_tag_at ?m 0x10090 ?t" "?m 0x10090 32 = Some (0x10090, hb)" "take 32 hb = take 32 ?t"
    "?m 0x10090 40 = Some (0x10090, bs)" "take 40 bs = ?t" by (rule demo_tag)
  have l: "length ?t = 40" "le64_at ?t 16 = 0" "refers ?t = 0"
    using demo_payload_fields sealed_tag_ok(2) [of demo_payload 0] sealed_tag_body(2) [of demo_payload 0] by simp_all
  define e where "e = info_source ?i 0x8000"
  let ?w = "\<lparr>bw_visited = [], bw_entries = [e]\<rparr>"
  obtain w x where w: "from_v1_tag (Some ?m) 0 (?w, 0x10090, 0) = Some (Inr (w, 0, x))" "bw_entries w = [e,
      \<lparr>be_type = le64_at ?t 0, be_flags = wire_flags ?t, be_version = le16_at ?t 12, be_alignment = 8, be_addr = 0x10090,
        be_bytes = bs, be_size = 40\<rparr>]"
    using from_v1_tag_accepts [OF kernel_map_covers t(1-3), of "0x10090" bs ?w 0 0] t(4,5) l by auto
  have "workspace_inv ?m e [] ?w" by (simp add: workspace_inv_def)
  from from_v1_tag_step [OF kernel_map_covers this w(1)]
  obtain t' where inv: "workspace_inv ?m e [(0x10090, t')] w" by auto
  have len: "length (info_payload ?i) = 104" by (rule length_info_payload [OF demo_take(1)])
  have bs: "40 \<le> length bs" using kernel_map_covers [unfolded map_covers_def, rule_format, OF t(4)] by simp
  have two: "unat (2 :: u32) = Suc (Suc 0)" by simp
  have fits: "build_fits 0x20000 304 (bw_entries w) (unat (2 :: u32))"
    using len bs demo_take(5) unfolding two
    by (auto simp: w(2) e_def info_source_def V1_INFO_PAYLOAD_BYTES_def build_fits_def sources_ok_def source_ok_def
        source_work_def round_up_def power_of_two_def memory_ranges_overlap_def less_Suc_eq Let_def)
  have "unat (be_size e) \<le> length (be_bytes e)" using len by (simp add: e_def info_source_def V1_INFO_PAYLOAD_BYTES_def)
  then obtain pnr where "from_v1_finish 0x20000 (replicate 304 0xFF) 304 1 True (w, 0, x) = Some (Inr pnr)"
    using from_v1_build [OF inv, of 2 "0x20000" 304 "replicate 304 0xFF" "Some \<lparr>br_tag_count = 1, br_external_reference_tags = x\<rparr>"] fits
    by (auto simp: from_v1_finish_def)
  moreover have "\<exists>r. check_v1_info ?i True = Some r \<and> r = Inr (1, 0x10090)"
    using check_v1_info_eq [OF demo_take(1), of True] demo_take(2-4) by auto
  ultimately have "bbp_v2_from_v1 (Some demo_source) 0 (Some 0x8000) 0x20000 (replicate 304 0xFF) 304 True True = Some (Inr pnr)"
    using demo_take(1,5) w(1)
    by (simp add: bbp_v2_from_v1_def demo_source_def normalize_info_eq get_at e_def info_source_def)
  then show ?thesis using that by (cases pnr) auto
qed

lemma demo_hyps:
  "vs_info demo_source = Some (take 144 demo_image)" "144 \<le> length (take 144 demo_image)"
  "\<forall>m. vs_map demo_source = Some m \<longrightarrow> map_covers m" "unat (304 :: u64) \<le> length (replicate 304 (0xFF :: u8))"
  using demo_take(1) kernel_map_covers by (simp_all add: demo_source_def)

theorem bridge_from_v1_faithful_witness:
  "\<exists>p n rp ts. bbp_v2_from_v1 (Some demo_source) 0 (Some 0x8000) 0x20000 (replicate 304 0xFF) 304 True True = Some (Inr (p, n, rp)) \<and>
     v1_chain demo_source (take 144 demo_image) ts \<and> converted 0 (take 144 demo_image) ts p n"
proof -
  obtain p n rp where p: "bbp_v2_from_v1 (Some demo_source) 0 (Some 0x8000) 0x20000 (replicate 304 0xFF) 304 True True =
    Some (Inr (p, n, rp))" by (rule demo_converted)
  then show ?thesis
    using bridge_from_v1_faithful [OF demo_hyps, of 0 "0x8000" "0x20000"] by auto
qed

text \<open>Its capsule, and the arguments of the way back.\<close>

lemma demo_back:
  obtains p n rp where "bbp_v2_from_v1 (Some demo_source) 0 (Some 0x8000) 0x20000 (replicate 304 0xFF) 304 True True =
      Some (Inr (p, n, rp))" "n \<le> 304" "unat n \<le> length p" "unat (0x40000 :: u64) + unat n \<le> 2 ^ 48"
    "\<not> memory_ranges_overlap 0x30000 n 0x20000 n"
proof -
  obtain p n rp where p: "bbp_v2_from_v1 (Some demo_source) 0 (Some 0x8000) 0x20000 (replicate 304 0xFF) 304 True True =
    Some (Inr (p, n, rp))" by (rule demo_converted)
  then have n: "n \<le> 304" "length p = 304"
    using from_v1_outcome [OF demo_hyps, of 0 "0x8000" "0x20000"] by auto
  then have "unat n \<le> 304" by (simp add: word_le_nat_alt)
  moreover have "\<not> memory_ranges_overlap 0x30000 n 0x20000 n"
    using n(1) unat_add_u64 [of "0x20000" n] unat_add_u64 [of "0x30000" n] by (auto simp: memory_ranges_overlap_def word_nat_simps)
  ultimately show ?thesis using that [OF p n(1)] n(2) by simp
qed

theorem bridge_roundtrip_witness:
  "\<exists>p n rp q t. bbp_v2_from_v1 (Some demo_source) 0 (Some 0x8000) 0x20000 (replicate 304 0xFF) 304 True True = Some (Inr (p, n, rp)) \<and>
     bbp_v2_to_v1 (Some (0x20000, view_of p n)) 0 0x30000 (replicate 304 0xFF) 304 0x40000 True True = Some (Inr (q, t, rp)) \<and>
     info_payload q = info_payload (take 144 demo_image)"
proof -
  obtain p n rp where p: "bbp_v2_from_v1 (Some demo_source) 0 (Some 0x8000) 0x20000 (replicate 304 0xFF) 304 True True =
      Some (Inr (p, n, rp))" "n \<le> 304" "unat n \<le> length p" "unat (0x40000 :: u64) + unat n \<le> 2 ^ 48"
    "\<not> memory_ranges_overlap 0x30000 n 0x20000 n" by (rule demo_back)
  then show ?thesis
    using bridge_roundtrip [OF p(1) demo_hyps, of "0x20000" "0x30000" 304 "replicate 304 0xFF" "0x40000"] by auto
qed

lemma demo_restored:
  obtains src q t rp where "bbp_v2_to_v1 (Some (0x20000, src)) 0 0x30000 (replicate 304 0xFF) 304 0x40000 True True = Some (Inr (q, t, rp))"
    "unat (v_total_size src) \<le> length (v_data src)"
proof -
  obtain p n rp where p: "bbp_v2_from_v1 (Some demo_source) 0 (Some 0x8000) 0x20000 (replicate 304 0xFF) 304 True True =
      Some (Inr (p, n, rp))" "n \<le> 304" "unat n \<le> length p" "unat (0x40000 :: u64) + unat n \<le> 2 ^ 48"
    "\<not> memory_ranges_overlap 0x30000 n 0x20000 n" by (rule demo_back)
  then obtain q t where "bbp_v2_to_v1 (Some (0x20000, view_of p n)) 0 0x30000 (replicate 304 0xFF) 304 0x40000 True True = Some (Inr (q, t, rp))"
    using roundtrip_outcome [OF p(1) demo_hyps, of "0x20000" "0x30000" 304 "replicate 304 0xFF" "0x40000"] by auto
  then show ?thesis using that p(3) by (simp add: view_of_def)
qed

theorem bridge_to_v1_exact_witness:
  "\<exists>src q t rp. bbp_v2_to_v1 (Some (0x20000, src)) 0 0x30000 (replicate 304 0xFF) 304 0x40000 True True = Some (Inr (q, t, rp)) \<and>
     v1_restored (v_data src) (replicate 304 0xFF) 0x40000 q t"
proof -
  obtain src q t rp where s: "bbp_v2_to_v1 (Some (0x20000, src)) 0 0x30000 (replicate 304 0xFF) 304 0x40000 True True = Some (Inr (q, t, rp))"
    "unat (v_total_size src) \<le> length (v_data src)" by (rule demo_restored)
  then show ?thesis
    using bridge_to_v1_exact [of "0x20000" "0x30000" src 304 "replicate 304 0xFF" 0 "0x40000"] by fastforce
qed

theorem bridge_image_accepted_witness:
  "\<exists>src q t rp m. bbp_v2_to_v1 (Some (0x20000, src)) 0 0x30000 (replicate 304 0xFF) 304 0x40000 True True = Some (Inr (q, t, rp)) \<and>
     load m 0x40000 (unat t) = Some (take (unat t) q) \<and> kernel_sees m (image_ctx 0x40000 0 t) (v_data src)"
proof -
  obtain src q t rp where s: "bbp_v2_to_v1 (Some (0x20000, src)) 0 0x30000 (replicate 304 0xFF) 304 0x40000 True True = Some (Inr (q, t, rp))"
    "unat (v_total_size src) \<le> length (v_data src)" by (rule demo_restored)
  have t: "unat t \<le> length q" "length q = 304"
    using to_v1_outcome [of "0x20000" "0x30000" src 304 "replicate 304 0xFF" 0 "0x40000"] s
    by (auto simp: v1_restored_def to_v1_fits_def Let_def)
  then have ld: "load (mem_at 0x40000 (take (unat t) q)) (0x40000 + 0) (unat t) = Some (take (unat t) q)"
    using load_mem_at [of "take (unat t) q" "0x40000"] by simp
  have "kernel_sees (mem_at 0x40000 (take (unat t) q)) (image_ctx 0x40000 0 t) (v_data src)"
    using bridge_image_accepted [OF s _ ld] t by simp
  then show ?thesis using s(1) ld by auto
qed

theorem bridge_agrees_with_kernel_witness:
  "\<exists>p n rp. bbp_v2_from_v1 (Some demo_source) 0 (Some 0x8000) 0x20000 (replicate 304 0xFF) 304 True True = Some (Inr (p, n, rp)) \<and>
     kernel_sees (mem_at 0x10000 demo_image) demo_ctx p"
proof -
  obtain p n rp where p: "bbp_v2_from_v1 (Some demo_source) 0 (Some 0x8000) 0x20000 (replicate 304 0xFF) 304 True True =
    Some (Inr (p, n, rp))" by (rule demo_converted)
  have "load (mem_at 0x10000 demo_image) (0x10000 + of_nat 0) 144 = Some (take 144 (drop 0 demo_image))"
    using load_mem_at [of demo_image "0x10000"] demo_image_bytes(1) by (intro load_sub [where n = 184]) simp_all
  then have "load (mem_at 0x10000 demo_image) (info demo_ctx) 144 = Some (take 144 demo_image)"
    by (simp add: demo_ctx_def image_ctx_def)
  from bridge_agrees_with_kernel [OF p [unfolded demo_source_def] this]
  show ?thesis using p by auto
qed

end
