(* ===== verification/Utf8.thy ===== *)
theory Utf8
  imports Bbp_Prelude
begin

text \<open>
  String validation of the importers, \<open>bootloader/bbp_import.c\<close>: the strict UTF-8 decoder, the check of
  NUL-terminated strings and the cut at a sequence boundary, over byte memory. The reference is the
  encoding itself: a string is valid when it is the UTF-8 encoding of Unicode scalar values.
\<close>

section \<open>Model\<close>

text \<open>The conjunction \<open>&&\<close>, whose right operand is not evaluated when the left is false.\<close>

definition sc_and :: "bool \<Rightarrow> bool option \<Rightarrow> bool option" where
  "sc_and x y = (if x then y else Some False)"

definition utf8_cont :: "u8 \<Rightarrow> bool" where
  "utf8_cont byte \<longleftrightarrow> byte AND 0xc0 = 0x80"

definition cont_at :: "mem \<Rightarrow> u64 \<Rightarrow> bool option" where
  "cont_at m p = map_option utf8_cont (m p)"

definition range_at :: "mem \<Rightarrow> u64 \<Rightarrow> u8 \<Rightarrow> u8 \<Rightarrow> bool option" where
  "range_at m p lo hi = map_option (\<lambda>b. lo \<le> b \<and> b \<le> hi) (m p)"

text \<open>A read test followed by another, \<open>a && b\<close>.\<close>

definition and_then :: "bool option \<Rightarrow> bool option \<Rightarrow> bool option" where
  "and_then x y = do { a \<leftarrow> x; sc_and a y }"

definition utf8_sequence :: "mem \<Rightarrow> u64 \<Rightarrow> u64 \<Rightarrow> u64 option" where
  "utf8_sequence m text remaining =
     (if remaining = 0 then Some 0
      else do {
        a \<leftarrow> m text;
        if a < 0x80 then Some (if a = 0 then 0 else 1)
        else do {
        c \<leftarrow> sc_and (a \<ge> 0xc2 \<and> a \<le> 0xdf \<and> remaining \<ge> 2) (cont_at m (text + 1));
        if c then Some 2
        else do {
        c \<leftarrow> sc_and (a = 0xe0 \<and> remaining \<ge> 3)
              (and_then (range_at m (text + 1) 0xa0 0xbf) (cont_at m (text + 2)));
        if c then Some 3
        else do {
        c \<leftarrow> sc_and ((a \<ge> 0xe1 \<and> a \<le> 0xec \<or> a \<ge> 0xee \<and> a \<le> 0xef) \<and> remaining \<ge> 3)
              (and_then (cont_at m (text + 1)) (cont_at m (text + 2)));
        if c then Some 3
        else do {
        c \<leftarrow> sc_and (a = 0xed \<and> remaining \<ge> 3)
              (and_then (range_at m (text + 1) 0x80 0x9f) (cont_at m (text + 2)));
        if c then Some 3
        else do {
        c \<leftarrow> sc_and (a = 0xf0 \<and> remaining \<ge> 4)
              (and_then (range_at m (text + 1) 0x90 0xbf) (and_then (cont_at m (text + 2)) (cont_at m (text + 3))));
        if c then Some 4
        else do {
        c \<leftarrow> sc_and (a \<ge> 0xf1 \<and> a \<le> 0xf3 \<and> remaining \<ge> 4)
              (and_then (cont_at m (text + 1)) (and_then (cont_at m (text + 2)) (cont_at m (text + 3))));
        if c then Some 4
        else do {
        c \<leftarrow> sc_and (a = 0xf4 \<and> remaining \<ge> 4)
              (and_then (range_at m (text + 1) 0x80 0x8f) (and_then (cont_at m (text + 2)) (cont_at m (text + 3))));
        if c then Some 4 else Some 0
        }}}}}}}})"

lemma utf8_sequence_le: "utf8_sequence m text remaining = Some n \<Longrightarrow> n \<le> remaining"
  by (auto simp: utf8_sequence_def sc_and_def word_less_nat_alt word_le_nat_alt unat_gt_0 Suc_le_eq
      split: if_splits Option.bind_splits)

lemma advance_less:
  fixes d content n :: u64
  assumes "d < content" "n \<noteq> 0" "n \<le> content - d"
  shows "unat content - unat (d + n) < unat content - unat d" "d + n \<le> content"
proof -
  have "unat n \<le> unat content - unat d"
    using assms unat_diff_u64 [of d content] by (simp add: word_le_nat_alt word_less_nat_alt)
  then have "unat (d + n) = unat d + unat n" "0 < unat n"
    using assms unat_u64_less [of content] by (auto simp: unat_add_u64 word_less_nat_alt unat_gt_0)
  then show "unat content - unat (d + n) < unat content - unat d" "d + n \<le> content"
    using assms \<open>unat n \<le> _\<close> by (auto simp: word_less_nat_alt word_le_nat_alt)
qed

text \<open>The loop of the string check: whether every sequence is valid.\<close>

function scan_string :: "mem \<Rightarrow> u64 \<Rightarrow> u64 \<Rightarrow> u64 \<Rightarrow> bool option" where
  "scan_string m data content offset =
     (if offset < content then
        do {
          sequence \<leftarrow> utf8_sequence m (data + offset) (content - offset);
          if sequence = 0 then Some False else scan_string m data content (offset + sequence)
        }
      else Some True)"
  by auto
termination
  by (relation "measure (\<lambda>(_, _, content, offset). unat content - unat offset)")
    (auto simp: advance_less utf8_sequence_le)

declare scan_string.simps [simp del]

function utf8_prefix_loop :: "mem \<Rightarrow> u64 \<Rightarrow> u64 \<Rightarrow> u64 \<Rightarrow> u64 \<Rightarrow> u64 option" where
  "utf8_prefix_loop m text bytes limit offset =
     (if offset < bytes then
        do {
          sequence \<leftarrow> utf8_sequence m (text + offset) (bytes - offset);
          if sequence = 0 \<or> sequence > limit - offset then Some offset
          else utf8_prefix_loop m text bytes limit (offset + sequence)
        }
      else Some offset)"
  by auto
termination
  by (relation "measure (\<lambda>(_, _, bytes, _, offset). unat bytes - unat offset)")
    (auto simp: advance_less utf8_sequence_le)

declare utf8_prefix_loop.simps [simp del]

definition bbp_import_utf8_prefix :: "mem \<Rightarrow> u64 \<Rightarrow> u64 \<Rightarrow> u64 \<Rightarrow> u64 option" where
  "bbp_import_utf8_prefix m text bytes limit = utf8_prefix_loop m text bytes limit 0"

section \<open>UTF-8\<close>

text \<open>The Unicode scalar values other than NUL, and their encoding.\<close>

definition scalar :: "nat \<Rightarrow> bool" where
  "scalar c \<longleftrightarrow> 0 < c \<and> c < 0x110000 \<and> \<not> (0xD800 \<le> c \<and> c < 0xE000)"

definition tail_byte :: "nat \<Rightarrow> u8" where
  "tail_byte c = of_nat (0x80 + c mod 64)"

definition utf8_encode :: "nat \<Rightarrow> u8 list" where
  "utf8_encode c =
     (if c < 0x80 then [of_nat c]
      else if c < 0x800 then [of_nat (0xC0 + c div 64), tail_byte c]
      else if c < 0x10000 then [of_nat (0xE0 + c div 4096), tail_byte (c div 64), tail_byte c]
      else [of_nat (0xF0 + c div 262144), tail_byte (c div 4096), tail_byte (c div 64), tail_byte c])"

lemma utf8_cont_iff: "utf8_cont b \<longleftrightarrow> 128 \<le> unat b \<and> unat b < 192"
proof -
  have c: "(0xc0 :: u8) = NOT (mask 6)" by (simp add: mask_eq_exp_minus_1)
  have "b AND NOT (mask 6) = push_bit 6 (drop_bit 6 b)"
    by (rule bit_word_eqI) (auto simp: bit_simps)
  then have "b AND 0xc0 = push_bit 6 (drop_bit 6 b)" unfolding c .
  then have "unat (b AND 0xc0) = take_bit 8 (push_bit 6 (drop_bit 6 (unat b)))"
    using unat_u8_less [of b] by (simp add: unsigned_push_bit_eq unsigned_drop_bit_eq take_bit_nat_eq_self)
  also have "\<dots> = unat b div 64 * 64"
    using unat_u8_less [of b] by (simp add: push_bit_eq_mult drop_bit_eq_div take_bit_nat_eq_self)
  finally have u: "unat (b AND 0xc0) = unat b div 64 * 64" .
  have "utf8_cont b \<longleftrightarrow> unat (b AND 0xc0) = 128"
    by (simp add: utf8_cont_def word_unat_eq_iff)
  also have "\<dots> \<longleftrightarrow> unat b div 64 = 2" unfolding u by linarith
  also have "\<dots> \<longleftrightarrow> 128 \<le> unat b \<and> unat b < 192" by linarith
  finally show ?thesis .
qed

text \<open>The length of the sequence at the front of a byte string, 0 when there is none, on the values of
  the bytes: every later byte is a continuation byte, and the second one excludes overlong forms,
  surrogates and values above the last plane.\<close>

definition tails :: "nat \<Rightarrow> nat list \<Rightarrow> bool" where
  "tails k bs \<longleftrightarrow> k \<le> length bs \<and> (\<forall>i<k. 128 \<le> bs ! i \<and> bs ! i < 192)"

definition utf8_len :: "u8 list \<Rightarrow> nat" where
  "utf8_len ps = (case map unat ps of
       [] \<Rightarrow> 0
     | a # bs \<Rightarrow>
         if a < 128 then (if a = 0 then 0 else 1)
         else if 0xc2 \<le> a \<and> a \<le> 0xdf \<and> tails 1 bs then 2
         else if 0xe0 \<le> a \<and> a \<le> 0xef \<and> tails 2 bs \<and> (a = 0xe0 \<longrightarrow> 0xa0 \<le> bs ! 0) \<and> (a = 0xed \<longrightarrow> bs ! 0 < 0xa0)
         then 3
         else if 0xf0 \<le> a \<and> a \<le> 0xf4 \<and> tails 3 bs \<and> (a = 0xf0 \<longrightarrow> 0x90 \<le> bs ! 0) \<and> (a = 0xf4 \<longrightarrow> bs ! 0 < 0x90)
         then 4 else 0)"

lemma tails_simps:
  "tails 0 bs" "tails (Suc k) [] = False"
  "tails (Suc k) (b # bs) \<longleftrightarrow> 128 \<le> b \<and> b < 192 \<and> tails k bs"
  by (auto simp: tails_def nth_Cons' less_Suc_eq_0_disj)

lemma tails_num: "tails 1 bs = tails (Suc 0) bs" "tails 2 bs = tails (Suc (Suc 0)) bs" "tails 3 bs = tails (Suc (Suc (Suc 0))) bs"
  by (simp_all add: numeral_eq_Suc)

lemmas seq_simps = utf8_sequence_def utf8_len_def sc_and_def and_then_def cont_at_def range_at_def utf8_cont_iff
  word_less_nat_alt word_le_nat_alt word_unat_eq_iff tails_num tails_simps

lemma utf8_sequence_eq:
  assumes len: "length ps < 2 ^ 64" and ld: "load m text (length ps) = Some ps"
  shows "utf8_sequence m text (of_nat (length ps)) = Some (of_nat (utf8_len ps))"
proof -
  have at: "m (text + of_nat i) = Some (ps ! i)" if "i < length ps" for i
    using ld that by (simp add: load_eq_Some_iff)
  have rem: "unat (of_nat (length ps) :: u64) = length ps" using len by (simp add: unat_of_nat_u64)
  have m0: "ps \<noteq> [] \<Longrightarrow> m text = Some (ps ! 0)" "2 \<le> length ps \<Longrightarrow> m (text + 1) = Some (ps ! 1)"
    "3 \<le> length ps \<Longrightarrow> m (text + 2) = Some (ps ! 2)" "4 \<le> length ps \<Longrightarrow> m (text + 3) = Some (ps ! 3)"
    using at [of 0] at [of 1] at [of 2] at [of 3] by simp_all
  have cls: "x < 0xc2 \<or> 0xc2 \<le> x \<and> x \<le> 0xdf \<or> x = 0xe0 \<or> 0xe1 \<le> x \<and> x \<le> 0xec \<or> x = 0xed \<or>
      0xee \<le> x \<and> x \<le> 0xef \<or> x = 0xf0 \<or> 0xf1 \<le> x \<and> x \<le> 0xf3 \<or> x = 0xf4 \<or> 0xf4 < x" for x :: nat
    by linarith
  consider "ps = []" | a where "ps = [a]" | a b where "ps = [a, b]" | a b c where "ps = [a, b, c]"
    | a b c d r where "ps = a # b # c # d # r"
    by (metis neq_Nil_conv)
  then show ?thesis
  proof cases
    case 1
    then show ?thesis by (simp add: seq_simps)
  next
    case (2 a)
    from cls [of "unat a"] m0 rem show ?thesis unfolding 2 by (elim disjE conjE) (simp_all add: seq_simps)
  next
    case (3 a b)
    from cls [of "unat a"] m0 rem show ?thesis unfolding 3 by (elim disjE conjE) (auto simp: seq_simps)
  next
    case (4 a b c)
    from cls [of "unat a"] m0 rem show ?thesis unfolding 4 by (elim disjE conjE) (auto simp: seq_simps)
  next
    case (5 a b c d r)
    define n where "n = (of_nat (length ps) :: u64)"
    have n: "n \<noteq> 0" "2 \<le> unat n" "3 \<le> unat n" "4 \<le> unat n" using rem 5 by (auto simp: n_def)
    have m: "m text = Some a" "m (text + 1) = Some b" "m (text + 2) = Some c" "m (text + 3) = Some d"
      using m0 by (simp_all add: 5)
    from cls [of "unat a"] show ?thesis
      unfolding n_def [symmetric] using n m by (elim disjE conjE) (auto simp: seq_simps 5)
  qed
qed

lemma unat_tail_byte: "unat (tail_byte c) = 128 + c mod 64"
proof -
  have "128 + c mod 64 < 256" by (simp add: mod_less_divisor less_le_trans)
  then show ?thesis unfolding tail_byte_def by (simp add: unat_of_nat take_bit_nat_eq_self del: of_nat_add)
qed

lemma unat_lead: "n < 256 \<Longrightarrow> unat (of_nat n :: u8) = n"
  by (simp add: unat_of_nat take_bit_nat_eq_self)

text \<open>The base-64 digits of a code point.\<close>

lemma digits:
  fixes c :: nat
  shows "c = 64 * (c div 64) + c mod 64" "c div 64 = 64 * (c div 4096) + c div 64 mod 64"
    "c div 4096 = 64 * (c div 262144) + c div 4096 mod 64"
    "c mod 64 < 64" "c div 64 mod 64 < 64" "c div 4096 mod 64 < 64"
  using div_mult_mod_eq [of "c div 64" 64] div_mult_mod_eq [of "c div 4096" 64]
  by (simp_all add: div_mult2_eq [of c 64 64, simplified] div_mult2_eq [of c 4096 64, simplified] ac_simps)

text \<open>The encodings as byte values.\<close>

lemma encode_values:
  "c < 0x80 \<Longrightarrow> map unat (utf8_encode c) = [c]"
  "0x80 \<le> c \<Longrightarrow> c < 0x800 \<Longrightarrow> map unat (utf8_encode c) = [0xC0 + c div 64, 128 + c mod 64]"
  "0x800 \<le> c \<Longrightarrow> c < 0x10000 \<Longrightarrow>
     map unat (utf8_encode c) = [0xE0 + c div 4096, 128 + c div 64 mod 64, 128 + c mod 64]"
  "0x10000 \<le> c \<Longrightarrow> c < 0x110000 \<Longrightarrow>
     map unat (utf8_encode c) = [0xF0 + c div 262144, 128 + c div 4096 mod 64, 128 + c div 64 mod 64, 128 + c mod 64]"
proof -
  have l: "0xC0 + c div 64 < 256" if "c < 0x800" using that digits [of c] by linarith
  have l3: "0xE0 + c div 4096 < 256" if "c < 0x10000" using that digits [of c] by linarith
  have l4: "0xF0 + c div 262144 < 256" if "c < 0x110000" using that digits [of c] by linarith
  show "c < 0x80 \<Longrightarrow> map unat (utf8_encode c) = [c]"
    by (simp add: utf8_encode_def unat_lead)
  show "0x80 \<le> c \<Longrightarrow> c < 0x800 \<Longrightarrow> map unat (utf8_encode c) = [0xC0 + c div 64, 128 + c mod 64]"
    using unat_lead [OF l] by (simp add: utf8_encode_def unat_tail_byte)
  show "0x800 \<le> c \<Longrightarrow> c < 0x10000 \<Longrightarrow>
     map unat (utf8_encode c) = [0xE0 + c div 4096, 128 + c div 64 mod 64, 128 + c mod 64]"
    using unat_lead [OF l3] by (simp add: utf8_encode_def unat_tail_byte)
  show "0x10000 \<le> c \<Longrightarrow> c < 0x110000 \<Longrightarrow>
     map unat (utf8_encode c) = [0xF0 + c div 262144, 128 + c div 4096 mod 64, 128 + c div 64 mod 64, 128 + c mod 64]"
    using unat_lead [OF l4] by (simp add: utf8_encode_def unat_tail_byte)
qed

text \<open>The length on byte values.\<close>

lemma len_values:
  "map unat ps = a # bs \<Longrightarrow> 0 < a \<Longrightarrow> a < 128 \<Longrightarrow> utf8_len ps = 1"
  "map unat ps = (0xC0 + x) # (128 + y) # bs \<Longrightarrow> 2 \<le> x \<Longrightarrow> x < 32 \<Longrightarrow> y < 64 \<Longrightarrow> utf8_len ps = 2"
  "map unat ps = (0xE0 + x) # (128 + y) # (128 + z) # bs \<Longrightarrow> x < 16 \<Longrightarrow> y < 64 \<Longrightarrow> z < 64 \<Longrightarrow>
     (x = 0 \<Longrightarrow> 32 \<le> y) \<Longrightarrow> (x = 13 \<Longrightarrow> y < 32) \<Longrightarrow> utf8_len ps = 3"
  "map unat ps = (0xF0 + x) # (128 + y) # (128 + z) # (128 + u) # bs \<Longrightarrow> x < 5 \<Longrightarrow> y < 64 \<Longrightarrow> z < 64 \<Longrightarrow> u < 64 \<Longrightarrow>
     (x = 0 \<Longrightarrow> 16 \<le> y) \<Longrightarrow> (x = 4 \<Longrightarrow> y < 16) \<Longrightarrow> utf8_len ps = 4"
  by (simp_all add: utf8_len_def tails_num tails_simps)

lemma utf8_len_encode:
  assumes "scalar c"
  shows "utf8_len (utf8_encode c @ r) = length (utf8_encode c)"
proof -
  note d = digits [of c]
  have c: "0 < c" "c < 0x110000" "\<not> (0xD800 \<le> c \<and> c < 0xE000)" using assms by (simp_all add: scalar_def)
  have len: "length (map unat (utf8_encode c)) = length (utf8_encode c)" by simp
  consider "c < 0x80" | "0x80 \<le> c" "c < 0x800" | "0x800 \<le> c" "c < 0x10000" | "0x10000 \<le> c" by linarith
  then show ?thesis
  proof cases
    case 1
    then have "utf8_len (utf8_encode c @ r) = 1" using c encode_values(1) by (intro len_values(1)) auto
    then show ?thesis using len unfolding encode_values(1) [OF 1] by simp
  next
    case 2
    have "2 \<le> c div 64" "c div 64 < 32" using 2 d by linarith+
    then have "utf8_len (utf8_encode c @ r) = 2" using encode_values(2) [OF 2] d by (intro len_values(2)) auto
    then show ?thesis using len unfolding encode_values(2) [OF 2] by simp
  next
    case 3
    have "c div 4096 < 16" "c div 4096 = 0 \<Longrightarrow> 32 \<le> c div 64 mod 64" "c div 4096 = 13 \<Longrightarrow> c div 64 mod 64 < 32"
      using 3 d c by linarith+
    then have "utf8_len (utf8_encode c @ r) = 3" using encode_values(3) [OF 3] d(4,5) by (intro len_values(3)) auto
    then show ?thesis using len unfolding encode_values(3) [OF 3] by simp
  next
    case 4
    have "c div 262144 < 5" "c div 262144 = 0 \<Longrightarrow> 16 \<le> c div 4096 mod 64" "c div 262144 = 4 \<Longrightarrow> c div 4096 mod 64 < 16"
      using 4 c d by linarith+
    then have "utf8_len (utf8_encode c @ r) = 4" using encode_values(4) [OF 4 c(2)] d(4-6) by (intro len_values(4)) auto
    then show ?thesis using len unfolding encode_values(4) [OF 4 c(2)] by simp
  qed
qed

lemma bytes_eqI: "map unat ps = map unat (qs :: u8 list) \<Longrightarrow> ps = qs"
  by (metis inj_map_eq_map injI unsigned_word_eqI)

lemma tails_map:
  "tails (Suc k) (map unat bs) \<longleftrightarrow> (\<exists>b r. bs = b # r \<and> 128 \<le> unat b \<and> unat b < 192 \<and> tails k (map unat r))"
  by (cases bs) (auto simp: tails_simps)

lemma decodeI:
  assumes "map unat (take k ps) = map unat (utf8_encode c)" "scalar c" "k = length (utf8_encode c)"
  shows "\<exists>c. scalar c \<and> take k ps = utf8_encode c \<and> length (utf8_encode c) = k"
  using assms bytes_eqI by metis

lemma tail_value: "128 \<le> unat (b :: u8) \<Longrightarrow> unat b < 192 \<Longrightarrow> \<exists>y<64. unat b = 128 + y"
  by presburger

lemma lead_value: "n \<le> unat (a :: u8) \<Longrightarrow> \<exists>x. unat a = n + x"
  by (metis le_Suc_ex)

lemma undigits:
  fixes x y z u :: nat
  assumes "y < 64" "z < 64" "u < 64"
  shows "(64 * x + y) div 64 = x" "(64 * x + y) mod 64 = y"
    "(4096 * x + 64 * y + z) div 4096 = x" "(4096 * x + 64 * y + z) div 64 = 64 * x + y" "(4096 * x + 64 * y + z) mod 64 = z"
    "(262144 * x + 4096 * y + 64 * z + u) div 262144 = x" "(262144 * x + 4096 * y + 64 * z + u) div 4096 = 64 * x + y"
    "(262144 * x + 4096 * y + 64 * z + u) div 64 = 4096 * x + 64 * y + z" "(262144 * x + 4096 * y + 64 * z + u) mod 64 = u"
proof -
  show "(64 * x + y) div 64 = x" using assms by (intro div_nat_eqI) auto
  show "(64 * x + y) mod 64 = y" using assms by simp
  show "(4096 * x + 64 * y + z) div 4096 = x" "(4096 * x + 64 * y + z) div 64 = 64 * x + y"
    using assms by (intro div_nat_eqI; simp)+
  have "4096 * x + 64 * y + z = z + 64 * (64 * x + y)" by simp
  then show "(4096 * x + 64 * y + z) mod 64 = z" using assms by (metis mod_mult_self2 mod_less)
  show "(262144 * x + 4096 * y + 64 * z + u) div 262144 = x" "(262144 * x + 4096 * y + 64 * z + u) div 4096 = 64 * x + y"
    "(262144 * x + 4096 * y + 64 * z + u) div 64 = 4096 * x + 64 * y + z"
    using assms by (intro div_nat_eqI; simp)+
  have "262144 * x + 4096 * y + 64 * z + u = u + 64 * (4096 * x + 64 * y + z)" by simp
  then show "(262144 * x + 4096 * y + 64 * z + u) mod 64 = u" using assms by (metis mod_mult_self2 mod_less)
qed

lemma utf8_len_decode:
  assumes "utf8_len ps = k" "k \<noteq> 0"
  shows "\<exists>c. scalar c \<and> take k ps = utf8_encode c \<and> length (utf8_encode c) = k"
proof -
  obtain a bs where ps: "ps = a # bs" using assms by (cases ps) (auto simp: utf8_len_def)
  consider "k = 1" "0 < unat a" "unat a < 128"
    | b r where "k = 2" "bs = b # r" "0xc2 \<le> unat a" "unat a \<le> 0xdf" "128 \<le> unat b" "unat b < 192"
    | b c r where "k = 3" "bs = b # c # r" "0xe0 \<le> unat a" "unat a \<le> 0xef" "128 \<le> unat b" "unat b < 192"
        "128 \<le> unat c" "unat c < 192" "unat a = 0xe0 \<longrightarrow> 0xa0 \<le> unat b" "unat a = 0xed \<longrightarrow> unat b < 0xa0"
    | b c d r where "k = 4" "bs = b # c # d # r" "0xf0 \<le> unat a" "unat a \<le> 0xf4" "128 \<le> unat b" "unat b < 192"
        "128 \<le> unat c" "unat c < 192" "128 \<le> unat d" "unat d < 192"
        "unat a = 0xf0 \<longrightarrow> 0x90 \<le> unat b" "unat a = 0xf4 \<longrightarrow> unat b < 0x90"
    using assms unfolding ps
    by (auto simp: utf8_len_def tails_num tails_map unat_gt_0 split: if_splits)
  then show ?thesis
  proof cases
    case 1
    then show ?thesis unfolding ps
      by (intro exI [of _ "unat a"]) (simp add: scalar_def utf8_encode_def)
  next
    case (2 b r)
    obtain y where y: "y < 64" "unat b = 128 + y" using tail_value 2 by blast
    obtain x where x: "unat a = 0xC0 + x" using lead_value [of 192 a] 2(3) by auto
    let ?c = "64 * x + y"
    have r: "0x80 \<le> ?c" "?c < 0x800" using 2 x y by auto
    have v: "map unat (utf8_encode ?c) = [0xC0 + x, 128 + y]"
      unfolding encode_values(2) [OF r] using undigits y by simp
    show ?thesis
    proof (rule decodeI)
      show "map unat (take k ps) = map unat (utf8_encode ?c)" unfolding v using 2 x y by (simp add: ps)
      show "scalar ?c" using r unfolding scalar_def by linarith
      show "k = length (utf8_encode ?c)" using arg_cong [OF v, of length] 2 by simp
    qed
  next
    case (3 b d r)
    obtain y where y: "y < 64" "unat b = 128 + y" using tail_value 3 by blast
    obtain z where z: "z < 64" "unat d = 128 + z" using tail_value 3 by blast
    obtain x where x: "unat a = 0xE0 + x" using lead_value [of 224 a] 3(3) by auto
    let ?c = "4096 * x + 64 * y + z"
    have q: "x < 16" "x = 0 \<Longrightarrow> 32 \<le> y" "x = 13 \<Longrightarrow> y < 32" using 3 x y by auto
    have r: "0x800 \<le> ?c" "?c < 0x10000" using q y z by (cases "x = 0"; simp)+
    have v: "map unat (utf8_encode ?c) = [0xE0 + x, 128 + y, 128 + z]"
      unfolding encode_values(3) [OF r] using undigits y z by simp
    show ?thesis
    proof (rule decodeI)
      show "map unat (take k ps) = map unat (utf8_encode ?c)" unfolding v using 3 x y z by (simp add: ps)
      show "scalar ?c"
      proof (cases "x = 13")
        case True
        then show ?thesis using r q y z by (simp add: scalar_def)
      next
        case False
        then have "x < 13 \<or> 14 \<le> x" by linarith
        then show ?thesis using r y z by (auto simp: scalar_def)
      qed
      show "k = length (utf8_encode ?c)" using arg_cong [OF v, of length] 3 by simp
    qed
  next
    case (4 b d e r)
    obtain y where y: "y < 64" "unat b = 128 + y" using tail_value 4 by blast
    obtain z where z: "z < 64" "unat d = 128 + z" using tail_value 4 by blast
    obtain u where u: "u < 64" "unat e = 128 + u" using tail_value 4 by blast
    obtain x where x: "unat a = 0xF0 + x" using lead_value [of 240 a] 4(3) by auto
    let ?c = "262144 * x + 4096 * y + 64 * z + u"
    have q: "x < 5" "x = 0 \<Longrightarrow> 16 \<le> y" "x = 4 \<Longrightarrow> y < 16" using 4 x y by auto
    have r: "0x10000 \<le> ?c" using q y z u by (cases "x = 0"; simp)
    have r2: "?c < 0x110000" using q y z u by (cases "x = 4"; simp)
    have v: "map unat (utf8_encode ?c) = [0xF0 + x, 128 + y, 128 + z, 128 + u]"
      unfolding encode_values(4) [OF r r2] using undigits y z u by simp
    show ?thesis
    proof (rule decodeI)
      show "map unat (take k ps) = map unat (utf8_encode ?c)" unfolding v using 4 x y z u by (simp add: ps)
      show "scalar ?c" using r r2 unfolding scalar_def by linarith
      show "k = length (utf8_encode ?c)" using arg_cong [OF v, of length] 4 by simp
    qed
  qed
qed

section \<open>Strings\<close>

definition utf8 :: "u8 list \<Rightarrow> bool" where
  "utf8 ps \<longleftrightarrow> (\<exists>cs. list_all scalar cs \<and> ps = concat (map utf8_encode cs))"

lemma utf8_Nil [simp]: "utf8 []"
  unfolding utf8_def by (rule exI [of _ "[]"]) simp

lemma utf8_append: "utf8 ps \<Longrightarrow> utf8 qs \<Longrightarrow> utf8 (ps @ qs)"
  unfolding utf8_def by (metis concat_append list_all_append map_append)

lemma utf8_len_le: "utf8_len ps \<le> length ps"
  by (auto simp: utf8_len_def tails_def split: list.splits)

lemma utf8_step:
  "utf8 ps \<longleftrightarrow> ps = [] \<or> utf8_len ps \<noteq> 0 \<and> utf8 (drop (utf8_len ps) ps)"
proof (cases "ps = []")
  case False
  show ?thesis
  proof
    assume "utf8 ps"
    then obtain cs where cs: "list_all scalar cs" "ps = concat (map utf8_encode cs)" by (auto simp: utf8_def)
    with False obtain c cs' where c: "cs = c # cs'" by (cases cs) auto
    then have ps: "ps = utf8_encode c @ concat (map utf8_encode cs')" "scalar c" "list_all scalar cs'" using cs by simp_all
    then have l: "utf8_len ps = length (utf8_encode c)" using utf8_len_encode by blast
    have "utf8 (drop (utf8_len ps) ps)" using l ps(3) unfolding utf8_def ps(1) by auto
    moreover have "utf8_len ps \<noteq> 0" using l by (simp add: utf8_encode_def)
    ultimately show "ps = [] \<or> utf8_len ps \<noteq> 0 \<and> utf8 (drop (utf8_len ps) ps)" by blast
  next
    assume "ps = [] \<or> utf8_len ps \<noteq> 0 \<and> utf8 (drop (utf8_len ps) ps)"
    with False have k: "utf8_len ps \<noteq> 0" "utf8 (drop (utf8_len ps) ps)" by auto
    obtain c where c: "scalar c" "take (utf8_len ps) ps = utf8_encode c" using utf8_len_decode [OF refl k(1)] by blast
    then have "utf8 (take (utf8_len ps) ps)" unfolding utf8_def by (intro exI [of _ "[c]"]) simp
    then show "utf8 ps" using utf8_append [OF _ k(2)] by (metis append_take_drop_id)
  qed
qed simp

lemma load_drop:
  assumes "load m p n = Some ps" "d \<le> n"
  shows "load m (p + of_nat d) (n - d) = Some (drop d ps)"
proof -
  have "length ps = n" using assms load_length by blast
  then show ?thesis using load_sub [OF assms(1), of d "n - d"] assms(2) by simp
qed

lemma sequence_at:
  assumes ld: "load m p (unat n) = Some ps" and d: "d \<le> n"
  shows "utf8_sequence m (p + d) (n - d) = Some (of_nat (utf8_len (drop (unat d) ps)))"
    "utf8_len (drop (unat d) ps) \<le> unat (n - d)"
proof -
  have len: "length ps = unat n" using ld load_length by blast
  have dn: "unat (n - d) = unat n - unat d" "unat d \<le> unat n" using d by (simp_all add: unat_diff_u64 word_le_nat_alt)
  have "load m (p + d) (unat n - unat d) = Some (drop (unat d) ps)"
    using load_drop [OF ld dn(2)] by simp
  then show "utf8_sequence m (p + d) (n - d) = Some (of_nat (utf8_len (drop (unat d) ps)))"
    using utf8_sequence_eq [of "drop (unat d) ps" m "p + d"] len dn unat_u64_less [of n]
    by (metis length_drop le_less_trans diff_le_self of_nat_unat_u64)
  show "utf8_len (drop (unat d) ps) \<le> unat (n - d)" using utf8_len_le [of "drop (unat d) ps"] len dn by simp
qed

lemma scan_string_eq:
  assumes "load m data (unat content) = Some ps" "offset \<le> content"
  shows "scan_string m data content offset = Some (utf8 (drop (unat offset) ps))"
  using assms
proof (induction m data content offset rule: scan_string.induct)
  case (1 m data content offset)
  have len: "length ps = unat content" using 1 load_length by blast
  show ?case
  proof (cases "offset < content")
    case False
    then have "offset = content" using 1 by simp
    then show ?thesis using len by (subst scan_string.simps) simp
  next
    case True
    let ?qs = "drop (unat offset) ps"
    note sq = sequence_at [OF 1(2,3)]
    have k: "unat (of_nat (utf8_len ?qs) :: u64) = utf8_len ?qs"
      using sq(2) unat_u64_less [of "content - offset"] by (intro unat_of_nat_u64) linarith
    have ne: "?qs \<noteq> []" using True len by (simp add: word_less_nat_alt)
    show ?thesis
    proof (cases "utf8_len ?qs = 0")
      case z: True
      then show ?thesis using True sq(1) ne utf8_step [of ?qs] by (subst scan_string.simps) simp
    next
      case nz: False
      let ?k = "of_nat (utf8_len ?qs) :: u64"
      have kz: "?k \<noteq> 0" "?k \<le> content - offset" using nz k sq(2) by (auto simp: word_le_nat_alt)
      note adv = advance_less [OF True kz]
      have o: "unat (offset + ?k) = unat offset + utf8_len ?qs"
        using k sq(2) unat_u64_less [of content] 1(3) by (subst unat_add_u64) (auto simp: unat_diff_u64 word_le_nat_alt)
      have "scan_string m data content (offset + ?k) = Some (utf8 (drop (utf8_len ?qs) ?qs))"
        using 1(1) [OF True sq(1) kz(1) 1(2) adv(2)] o by (simp add: add.commute)
      with True sq(1) kz(1) nz utf8_step [of ?qs] ne show ?thesis by (subst scan_string.simps) simp
    qed
  qed
qed

text \<open>The code is uniquely decodable from the left.\<close>

lemma utf8_len_take: "utf8_len (take n ps) \<noteq> 0 \<Longrightarrow> utf8_len ps = utf8_len (take n ps)"
proof -
  assume nz: "utf8_len (take n ps) \<noteq> 0"
  obtain c where c: "scalar c" "take (utf8_len (take n ps)) (take n ps) = utf8_encode c"
    "length (utf8_encode c) = utf8_len (take n ps)"
    using utf8_len_decode [OF refl nz] by blast
  have "utf8_len (take n ps) \<le> length (take n ps)" by (rule utf8_len_le)
  then have "take (utf8_len (take n ps)) ps = utf8_encode c" using c(2) by simp
  then have "ps = utf8_encode c @ drop (utf8_len (take n ps)) ps" by (metis append_take_drop_id)
  then show ?thesis using utf8_len_encode [OF c(1)] c(3) by metis
qed

lemma utf8_take_len:
  assumes "utf8_len ps \<noteq> 0"
  shows "utf8 (take (utf8_len ps) ps)"
proof -
  obtain c where "scalar c" "take (utf8_len ps) ps = utf8_encode c" using utf8_len_decode [OF refl assms] by blast
  then show ?thesis unfolding utf8_def by (intro exI [of _ "[c]"]) simp
qed

lemma utf8_suffix: "utf8 (ps @ qs) \<Longrightarrow> utf8 ps \<Longrightarrow> utf8 qs"
proof (induction "length ps" arbitrary: ps rule: less_induct)
  case less
  show ?case
  proof (cases "ps = []")
    case False
    let ?k = "utf8_len ps"
    have k: "?k \<noteq> 0" "utf8 (drop ?k ps)" using less.prems(2) utf8_step [of ps] False by auto
    have "utf8_len (take (length ps) (ps @ qs)) \<noteq> 0" using k by simp
    then have "utf8_len (ps @ qs) = ?k" using utf8_len_take [of "length ps" "ps @ qs"] by simp
    then have "utf8 (drop ?k ps @ qs)"
      using less.prems(1) utf8_step [of "ps @ qs"] False utf8_len_le [of ps] by simp
    then show ?thesis using less.hyps [of "drop ?k ps"] k False by simp
  qed (use less in simp)
qed

lemma prefix_loop_eq:
  assumes "load m text (unat bytes) = Some ps" "offset \<le> bytes" "offset \<le> limit" "utf8 (take (unat offset) ps)"
  shows "\<exists>k. utf8_prefix_loop m text bytes limit offset = Some k \<and> k \<le> bytes \<and> k \<le> limit \<and> utf8 (take (unat k) ps) \<and>
    (k = bytes \<or> utf8_len (drop (unat k) ps) = 0 \<or> unat limit < unat k + utf8_len (drop (unat k) ps))"
  using assms
proof (induction m "text" bytes limit offset rule: utf8_prefix_loop.induct)
  case (1 m "text" bytes limit offset)
  show ?case
  proof (cases "offset < bytes")
    case False
    then show ?thesis using 1 by (subst utf8_prefix_loop.simps) auto
  next
    case True
    let ?qs = "drop (unat offset) ps" and ?k = "of_nat (utf8_len (drop (unat offset) ps)) :: u64"
    note sq = sequence_at [OF 1(2,3)]
    have k: "unat ?k = utf8_len ?qs"
      using sq(2) unat_u64_less [of "bytes - offset"] by (intro unat_of_nat_u64) linarith
    show ?thesis
    proof (cases "?k = 0 \<or> ?k > limit - offset")
      case stop: True
      then have "utf8_len ?qs = 0 \<or> unat limit < unat offset + utf8_len ?qs"
        using k 1(4) by (auto simp: word_less_nat_alt word_le_nat_alt unat_diff_u64)
      then show ?thesis using True stop sq(1) 1 by (subst utf8_prefix_loop.simps) auto
    next
      case go: False
      have kz: "?k \<noteq> 0" "?k \<le> bytes - offset" using go k sq(2) by (auto simp: word_le_nat_alt)
      have lim: "unat ?k \<le> unat limit - unat offset" using go 1(4)
        by (auto simp: word_less_nat_alt word_le_nat_alt unat_diff_u64)
      have o: "unat (offset + ?k) = unat offset + utf8_len ?qs"
        using k sq(2) unat_u64_less [of bytes] 1(3) by (subst unat_add_u64) (auto simp: unat_diff_u64 word_le_nat_alt)
      have "utf8 (take (utf8_len ?qs) ?qs)"
        by (rule utf8_take_len, rule contrapos_nn [OF kz(1)]) simp
      then have "utf8 (take (unat (offset + ?k)) ps)"
        unfolding o take_add using 1(5) utf8_append by blast
      moreover have "offset + ?k \<le> limit" using o lim k 1(4) by (auto simp: word_le_nat_alt)
      ultimately show ?thesis
        using 1(1) [OF True sq(1) go 1(2) advance_less(2) [OF True kz]] True sq(1) go
        by (subst utf8_prefix_loop.simps) simp
    qed
  qed
qed

text \<open>The cut is the longest one: the routine returns the length of the longest prefix of the text that is valid
  UTF-8 and not longer than the limit, so it never splits a character.\<close>

lemma prefix_longest:
  assumes "load m text (unat bytes) = Some ps"
  shows "\<exists>k. bbp_import_utf8_prefix m text bytes limit = Some k \<and> unat k \<le> unat bytes \<and> unat k \<le> unat limit \<and>
    utf8 (take (unat k) ps) \<and>
    (\<forall>j. j \<le> unat bytes \<and> j \<le> unat limit \<and> utf8 (take j ps) \<longrightarrow> j \<le> unat k)"
proof -
  obtain k where k: "utf8_prefix_loop m text bytes limit 0 = Some k" "k \<le> bytes" "k \<le> limit" "utf8 (take (unat k) ps)"
    "k = bytes \<or> utf8_len (drop (unat k) ps) = 0 \<or> unat limit < unat k + utf8_len (drop (unat k) ps)"
    using prefix_loop_eq [OF assms, of 0 limit] by auto
  have "j \<le> unat k" if j: "j \<le> unat bytes" "j \<le> unat limit" "utf8 (take j ps)" for j
  proof (rule ccontr)
    assume "\<not> j \<le> unat k"
    then have jk: "unat k < j" by simp
    then have "take j ps = take (unat k) ps @ take (j - unat k) (drop (unat k) ps)"
      using take_add [of "unat k" "j - unat k" ps] by simp
    then have v: "utf8 (take (j - unat k) (drop (unat k) ps))" using utf8_suffix k(4) j(3) by metis
    have "length ps = unat bytes" using assms load_length by blast
    then have ne: "take (j - unat k) (drop (unat k) ps) \<noteq> []" using jk j(1) by simp
    have nz: "utf8_len (take (j - unat k) (drop (unat k) ps)) \<noteq> 0" using v ne utf8_step by blast
    have "utf8_len (drop (unat k) ps) = utf8_len (take (j - unat k) (drop (unat k) ps))" by (rule utf8_len_take [OF nz])
    moreover have "\<dots> \<le> j - unat k" using utf8_len_le [of "take (j - unat k) (drop (unat k) ps)"] by simp
    ultimately show False using k(5) nz jk j by auto
  qed
  with k show ?thesis by (intro exI [of _ k]) (auto simp: bbp_import_utf8_prefix_def word_le_nat_alt)
qed

end
