(* ===== verification/Builder.thy ===== *)
theory Builder
  imports Abi Crc64
begin

text \<open>
  The producer side, \<open>bootloader/bbp_build.c\<close>: a bump arena in memory, tags chained by physical
  address, and the final pass that seals every checksum. The builder structure is a record; the
  arena and the INFO block are bytes of memory. A result \<^term>\<open>None\<close> is a fault or a loop that
  does not return; a NULL builder is \<^term>\<open>None\<close> of the option, a NULL data pointer is 0.
\<close>

section \<open>Definitions\<close>

record bbp_builder =
  b_arena :: u64
  b_arena_phys :: u64
  b_capacity :: u64
  b_used :: u64
  b_last :: u64
  b_first_phys :: u64
  b_tag_count :: u32
  b_overflow :: bool

fun bbp_memzero :: "mem \<Rightarrow> u64 \<Rightarrow> nat \<Rightarrow> mem option" where
  "bbp_memzero m p 0 = Some m"
| "bbp_memzero m p (Suc n) = do { m \<leftarrow> store m p [0]; bbp_memzero m (p + 1) n }"

fun bbp_memcpy :: "mem \<Rightarrow> u64 \<Rightarrow> u64 \<Rightarrow> nat \<Rightarrow> mem option" where
  "bbp_memcpy m d s 0 = Some m"
| "bbp_memcpy m d s (Suc n) =
     do { v \<leftarrow> m s; m \<leftarrow> store m d [v]; bbp_memcpy m (d + 1) (s + 1) n }"

text \<open>Copy from a constant array.\<close>

fun memcpy_const :: "mem \<Rightarrow> u64 \<Rightarrow> u8 list \<Rightarrow> mem option" where
  "memcpy_const m d [] = Some m"
| "memcpy_const m d (v # vs) = do { m \<leftarrow> store m d [v]; memcpy_const m (d + 1) vs }"

definition BBP_BUILDER_MAX_TAG :: u64 where "BBP_BUILDER_MAX_TAG = 16 * 1024 * 1024"
definition BBP_BUILDER_MAX_INFO :: u64 where "BBP_BUILDER_MAX_INFO = 64 * 1024 * 1024"
definition BBP_BUILDER_MAX_PHYS :: u64 where "BBP_BUILDER_MAX_PHYS = push_bit 48 1"
definition BBP_BUILDER_MAX_TAGS :: u32 where "BBP_BUILDER_MAX_TAGS = 1024"
definition BBP_BUILDER_SIZE_MAX :: u64 where "BBP_BUILDER_SIZE_MAX = - 1"
definition BBP_BUILDER_U32_MAX :: u32 where "BBP_BUILDER_U32_MAX = - 1"

text \<open>Unlike the consumer's routine of the same name this one has no guard on the length.\<close>

definition builder_crc_skip :: "mem \<Rightarrow> u64 \<Rightarrow> u64 \<Rightarrow> u64 \<Rightarrow> u64 option" where
  "builder_crc_skip m base len off1 =
     do {
       p \<leftarrow> load m base (unat off1);
       s \<leftarrow> load m (base + off1 + 8) (unat (len - off1 - 8));
       let c = bbp_crc64_init;
           c = bbp_crc64_update c p;
           c = bbp_crc64_update c (replicate 8 0);
           c = bbp_crc64_update c s
       in Some (bbp_crc64_final c)
     }"

definition bbp_builder_init ::
  "mem \<Rightarrow> bbp_builder option \<Rightarrow> u64 \<Rightarrow> u64 \<Rightarrow> u64 \<Rightarrow> (mem \<times> bbp_builder option) option" where
  "bbp_builder_init m bp arena arena_phys capacity =
     (case bp of
        None \<Rightarrow> Some (m, None)
      | Some _ \<Rightarrow>
          let b = \<lparr>b_arena = arena, b_arena_phys = arena_phys, b_capacity = capacity, b_used = 0,
                   b_last = 0, b_first_phys = 0, b_tag_count = 0, b_overflow = False\<rparr>
          in do {
            (m, b) \<leftarrow> (if arena \<noteq> 0 then do { m \<leftarrow> bbp_memzero m arena (unat capacity); Some (m, b) }
                      else if capacity \<noteq> 0 then Some (m, b\<lparr>b_overflow := True\<rparr>)
                      else Some (m, b));
            let b = (if arena \<noteq> 0 \<and> (arena_phys = 0 \<or> arena_phys AND 7 \<noteq> 0
                         \<or> arena_phys \<ge> BBP_BUILDER_MAX_PHYS)
                     then b\<lparr>b_overflow := True\<rparr> else b);
            Some (m, Some b)
          })"

text \<open>The result is the builder, the pointer (0 on failure) and the physical address stored
  through \<open>out_phys\<close> (meaningful only on success). Every caller has checked \<open>b\<close>.\<close>

definition arena_bump :: "bbp_builder \<Rightarrow> u64 \<Rightarrow> bbp_builder \<times> u64 \<times> u64" where
  "arena_bump b len =
     (if b_arena b = 0 \<or> b_overflow b \<or> b_used b > BBP_BUILDER_SIZE_MAX - 7
      then (b\<lparr>b_overflow := True\<rparr>, 0, 0)
      else let start = (b_used b + 7) AND NOT 7 in
        if start > b_capacity b \<or> len > b_capacity b - start
        then (b\<lparr>b_overflow := True\<rparr>, 0, 0)
        else if b_arena_phys b > BBP_BUILDER_MAX_PHYS
             \<or> start > BBP_BUILDER_MAX_PHYS - b_arena_phys b
        then (b\<lparr>b_overflow := True\<rparr>, 0, 0)
        else let phys = b_arena_phys b + start in
          if len > BBP_BUILDER_MAX_PHYS - phys
          then (b\<lparr>b_overflow := True\<rparr>, 0, 0)
          else (b\<lparr>b_used := start + len\<rparr>, b_arena b + start, phys))"

text \<open>The stores into the header of a freshly allocated tag.\<close>

definition stamp_tag :: "mem \<Rightarrow> u64 \<Rightarrow> u64 \<Rightarrow> u16 \<Rightarrow> u64 \<Rightarrow> mem option" where
  "stamp_tag m tag tag_id tag_version total_size =
     do {
       m \<leftarrow> st64 m (tag + off struct_bbp_tag_header ''tag_id'') tag_id;
       m \<leftarrow> st32 m (tag + off struct_bbp_tag_header ''tag_size'') (ucast total_size);
       m \<leftarrow> st16 m (tag + off struct_bbp_tag_header ''tag_version'') tag_version;
       m \<leftarrow> st16 m (tag + off struct_bbp_tag_header ''flags'') 0;
       m \<leftarrow> st64 m (tag + off struct_bbp_tag_header ''next_tag'') 0;
       st64 m (tag + off struct_bbp_tag_header ''checksum'') 0
     }"

definition bbp_alloc_tag ::
  "mem \<Rightarrow> bbp_builder option \<Rightarrow> u64 \<Rightarrow> u16 \<Rightarrow> u64 \<Rightarrow> (mem \<times> bbp_builder option \<times> u64) option" where
  "bbp_alloc_tag m bp tag_id tag_version total_size =
     (case bp of
        None \<Rightarrow> Some (m, None, 0)
      | Some b \<Rightarrow>
          if total_size < sizeof struct_bbp_tag_header \<or> total_size > BBP_BUILDER_MAX_TAG
            \<or> total_size > ucast BBP_BUILDER_U32_MAX \<or> b_tag_count b \<ge> BBP_BUILDER_MAX_TAGS
          then Some (m, Some (b\<lparr>b_overflow := True\<rparr>), 0)
          else let (b, tag, phys) = arena_bump b total_size in
            if tag = 0 then Some (m, Some b, 0)
            else do {
              m \<leftarrow> stamp_tag m tag tag_id tag_version total_size;
              (m, b) \<leftarrow> (if b_last b \<noteq> 0
                 then do {
                   m \<leftarrow> st64 m (b_last b + off struct_bbp_tag_header ''next_tag'') phys;
                   Some (m, b)
                 }
                 else Some (m, b\<lparr>b_first_phys := phys\<rparr>));
              Some (m, Some (b\<lparr>b_last := tag, b_tag_count := b_tag_count b + 1\<rparr>), tag)
            })"

definition bbp_seal_tag :: "mem \<Rightarrow> u64 \<Rightarrow> mem option" where
  "bbp_seal_tag m tag =
     do {
       sz \<leftarrow> ld32 m (tag + off struct_bbp_tag_header ''tag_size'');
       c \<leftarrow> builder_crc_skip m tag (ucast sz) (off struct_bbp_tag_header ''checksum'');
       st64 m (tag + off struct_bbp_tag_header ''checksum'') c
     }"

definition builder_phys_to_virt :: "bbp_builder \<Rightarrow> u64 \<Rightarrow> u64" where
  "builder_phys_to_virt b p = b_arena b + (p - b_arena_phys b)"

text \<open>The scan \<open>while (len < source_bytes && s[len]) len++\<close>; the result is the final \<open>len\<close>.\<close>

fun strnlen_from :: "mem \<Rightarrow> u64 \<Rightarrow> nat \<Rightarrow> nat \<Rightarrow> nat option" where
  "strnlen_from m s len 0 = Some len"
| "strnlen_from m s len (Suc n) =
     do { v \<leftarrow> m (s + of_nat len); if v \<noteq> 0 then strnlen_from m s (Suc len) n else Some len }"

text \<open>The result is the memory, the builder, the physical address (0 on failure) and the value
  stored through \<open>out_len\<close>.\<close>

definition bbp_arena_strdup_n ::
  "mem \<Rightarrow> bbp_builder option \<Rightarrow> u64 \<Rightarrow> u64 \<Rightarrow> (mem \<times> bbp_builder option \<times> u64 \<times> u32) option" where
  "bbp_arena_strdup_n m bp s source_bytes =
     (case bp of
        None \<Rightarrow> Some (m, None, 0, 0)
      | Some b \<Rightarrow>
          if s = 0 \<or> source_bytes = 0 then Some (m, Some (b\<lparr>b_overflow := True\<rparr>), 0, 0)
          else do {
            n \<leftarrow> strnlen_from m s 0 (unat source_bytes);
            let len = of_nat n;
            if len = source_bytes \<or> len > ucast BBP_BUILDER_U32_MAX
            then Some (m, Some (b\<lparr>b_overflow := True\<rparr>), 0, 0)
            else let (b, p, phys) = arena_bump b (len + 1) in
              if p = 0 then Some (m, Some b, 0, 0)
              else do {
                m \<leftarrow> bbp_memcpy m p s n;
                m \<leftarrow> store m (p + len) [0];
                Some (m, Some b, phys, ucast len)
              }
          })"

definition bbp_arena_strdup ::
  "mem \<Rightarrow> bbp_builder option \<Rightarrow> u64 \<Rightarrow> (mem \<times> bbp_builder option \<times> u64 \<times> u32) option" where
  "bbp_arena_strdup m bp s = bbp_arena_strdup_n m bp s BBP_BUILDER_SIZE_MAX"

definition bbp_arena_blob ::
  "mem \<Rightarrow> bbp_builder option \<Rightarrow> u64 \<Rightarrow> u64 \<Rightarrow> (mem \<times> bbp_builder option \<times> u64) option" where
  "bbp_arena_blob m bp data len =
     (case bp of
        None \<Rightarrow> Some (m, None, 0)
      | Some b \<Rightarrow>
          if data = 0 \<and> len \<noteq> 0 then Some (m, Some (b\<lparr>b_overflow := True\<rparr>), 0)
          else if len = 0 then Some (m, Some b, 0)
          else let (b, p, phys) = arena_bump b len in
            if p = 0 then Some (m, Some b, 0)
            else do { m \<leftarrow> bbp_memcpy m p data (unat len); Some (m, Some b, phys) })"

text \<open>The sealing loop has no bound of its own, so not returning is \<^term>\<open>None\<close>.\<close>

partial_function (option) seal_loop :: "mem \<Rightarrow> bbp_builder \<Rightarrow> u64 \<Rightarrow> mem option" where
  "seal_loop m b cur =
     (if cur = 0 then Some m
      else let h = builder_phys_to_virt b cur in do {
        m \<leftarrow> bbp_seal_tag m h;
        nx \<leftarrow> ld64 m (h + off struct_bbp_tag_header ''next_tag'');
        seal_loop m b nx
      })"

definition fill_info :: "mem \<Rightarrow> bbp_builder \<Rightarrow> u64 \<Rightarrow> mem option" where
  "fill_info m b info =
     do {
       m \<leftarrow> st16 m (info + off struct_bbp_info ''version_major'') BBP_VERSION_MAJOR;
       m \<leftarrow> st16 m (info + off struct_bbp_info ''version_minor'') BBP_VERSION_MINOR;
       m \<leftarrow> bbp_memzero m (info + off struct_bbp_info ''magic'') 16;
       m \<leftarrow> memcpy_const m (info + off struct_bbp_info ''magic'') (ascii BBP_INFO_MAGIC);
       m \<leftarrow> st32 m (info + off struct_bbp_info ''tag_count'') (b_tag_count b);
       m \<leftarrow> st64 m (info + off struct_bbp_info ''first_tag'') (b_first_phys b);
       m \<leftarrow> st32 m (info + off struct_bbp_info ''info_size'')
              (ucast (sizeof struct_bbp_info + b_used b));
       m \<leftarrow> st64 m (info + off struct_bbp_info ''checksum'') 0;
       c \<leftarrow> builder_crc_skip m info (sizeof struct_bbp_info) (off struct_bbp_info ''checksum'');
       st64 m (info + off struct_bbp_info ''checksum'') c
     }"

definition bbp_builder_finalize ::
  "mem \<Rightarrow> bbp_builder option \<Rightarrow> u64 \<Rightarrow> u64 \<Rightarrow> (mem \<times> bbp_builder option \<times> u64) option" where
  "bbp_builder_finalize m bp info info_phys =
     (case bp of
        None \<Rightarrow> Some (m, None, 0)
      | Some b \<Rightarrow>
          if info = 0 then Some (m, Some b, 0)
          else if b_overflow b \<or> b_tag_count b > BBP_BUILDER_MAX_TAGS
            \<or> b_used b > b_capacity b
            \<or> b_used b > BBP_BUILDER_MAX_INFO - sizeof struct_bbp_info
          then Some (m, Some (b\<lparr>b_overflow := True\<rparr>), 0)
          else do {
            m \<leftarrow> seal_loop m b (b_first_phys b);
            m \<leftarrow> fill_info m b info;
            Some (m, Some b, info_phys)
          })"

definition bbp_header_crc :: "mem \<Rightarrow> u64 \<Rightarrow> u64 option" where
  "bbp_header_crc m hdr =
     builder_crc_skip m hdr (sizeof struct_bbp_header) (off struct_bbp_header ''checksum'')"

end
