(* ===== verification/Builder_Wf.thy ===== *)
theory Builder_Wf
  imports Builder
begin

text \<open>
  The invariant of the builder and that every operation keeps it. The tags of an arena are listed
  as triples (offset, size, identifier); the invariant says that they are aligned, do not overlap,
  lie in the used part of the arena, and are linked in order through their \<open>next_tag\<close> fields.
\<close>

section \<open>The invariant\<close>

type_synonym tag_desc = "nat \<times> nat \<times> u64"

abbreviation va :: "bbp_builder \<Rightarrow> nat \<Rightarrow> u64" where
  "va b d \<equiv> b_arena b + of_nat d"

abbreviation pa :: "bbp_builder \<Rightarrow> nat \<Rightarrow> u64" where
  "pa b d \<equiv> b_arena_phys b + of_nat d"

definition hdr_at :: "mem \<Rightarrow> u64 \<Rightarrow> nat \<Rightarrow> u64 \<Rightarrow> u64 \<Rightarrow> bool" where
  "hdr_at m a sz i nx \<longleftrightarrow>
     ld64 m a = Some i \<and> ld32 m (a + 8) = Some (of_nat sz) \<and> ld64 m (a + 16) = Some nx"

fun start_of :: "tag_desc list \<Rightarrow> nat \<Rightarrow> nat" where
  "start_of [] lim = lim"
| "start_of (t # ts) lim = fst t"

fun next_of :: "bbp_builder \<Rightarrow> tag_desc list \<Rightarrow> u64 \<Rightarrow> u64" where
  "next_of b [] nx = nx"
| "next_of b (t # ts) nx = pa b (fst t)"

text \<open>The last tag ends at or before \<open>lim\<close> and points to \<open>nx\<close>.\<close>

fun chain_ok :: "mem \<Rightarrow> bbp_builder \<Rightarrow> tag_desc list \<Rightarrow> nat \<Rightarrow> u64 \<Rightarrow> bool" where
  "chain_ok m b [] lim nx \<longleftrightarrow> True"
| "chain_ok m b ((d, sz, i) # ts) lim nx \<longleftrightarrow>
     8 dvd d \<and> 32 \<le> sz \<and> sz \<le> 2 ^ 24 \<and> d + sz \<le> start_of ts lim \<and>
     hdr_at m (va b d) sz i (next_of b ts nx) \<and> chain_ok m b ts lim nx"

definition arena_ok :: "mem \<Rightarrow> bbp_builder \<Rightarrow> bool" where
  "arena_ok m b \<longleftrightarrow>
     b_arena b \<noteq> 0 \<and> unat (b_arena b) + unat (b_capacity b) < 2 ^ 64 \<and>
     mapped m (b_arena b) (unat (b_capacity b)) \<and>
     0 < unat (b_arena_phys b) \<and> 8 dvd unat (b_arena_phys b) \<and>
     unat (b_used b) \<le> unat (b_capacity b) \<and>
     unat (b_arena_phys b) + unat (b_used b) \<le> 2 ^ 48"

text \<open>The part of the arena that is not in use is still zero.\<close>

definition zero_tail :: "mem \<Rightarrow> bbp_builder \<Rightarrow> bool" where
  "zero_tail m b \<longleftrightarrow>
     (\<forall>j. unat (b_used b) \<le> j \<and> j < unat (b_capacity b) \<longrightarrow> m (va b j) = Some 0)"

definition wf_builder :: "mem \<Rightarrow> bbp_builder \<Rightarrow> tag_desc list \<Rightarrow> bool" where
  "wf_builder m b ts \<longleftrightarrow>
     arena_ok m b \<and> \<not> b_overflow b \<and> zero_tail m b \<and>
     length ts \<le> 1024 \<and> b_tag_count b = of_nat (length ts) \<and>
     b_first_phys b = next_of b ts 0 \<and>
     b_last b = (if ts = [] then 0 else va b (fst (last ts))) \<and>
     chain_ok m b ts (unat (b_used b)) 0"

section \<open>The chain\<close>

lemma hdr_at_same: "same m m' a 24 \<Longrightarrow> hdr_at m' a sz i nx = hdr_at m a sz i nx"
  using same_ld(2) [of m m' a 24 8] same_ld(3) [of m m' a 24 0] same_ld(3) [of m m' a 24 16]
  by (simp add: hdr_at_def)

lemma start_of_append: "start_of (ts @ us) lim = start_of ts (start_of us lim)"
  by (cases ts) auto

lemma next_of_append: "next_of b (ts @ us) nx = next_of b ts (next_of b us nx)"
  by (cases ts) auto

lemma chain_ok_append:
  "chain_ok m b (ts @ us) lim nx \<longleftrightarrow>
     chain_ok m b ts (start_of us lim) (next_of b us nx) \<and> chain_ok m b us lim nx"
  by (induction ts) (auto simp: start_of_append next_of_append)

lemma chain_ok_start: "chain_ok m b ts lim nx \<Longrightarrow> start_of ts lim \<le> lim"
  by (induction ts) auto

lemma chain_ok_le:
  "chain_ok m b ts lim nx \<Longrightarrow> (d, sz, i) \<in> set ts \<Longrightarrow> start_of ts lim \<le> d \<and> d + sz \<le> lim \<and> 32 \<le> sz"
proof (induction ts)
  case (Cons t ts)
  obtain d' sz' i' where t: "t = (d', sz', i')" by (cases t)
  have "start_of ts lim \<le> lim"
    using Cons.prems(1) t chain_ok_start by auto
  then show ?case
    using Cons t by fastforce
qed simp

lemma chain_ok_mono: "chain_ok m b ts lim nx \<Longrightarrow> lim \<le> lim' \<Longrightarrow> chain_ok m b ts lim' nx"
proof (induction ts)
  case (Cons t ts)
  then show ?case
    by (cases t; cases ts) auto
qed simp

lemma chain_ok_frame:
  assumes "chain_ok m b ts lim nx" "\<And>d sz i. (d, sz, i) \<in> set ts \<Longrightarrow> same m m' (va b d) 24"
  shows "chain_ok m' b ts lim nx"
  using assms
proof (induction ts)
  case (Cons t ts)
  obtain d sz i where t: "t = (d, sz, i)" by (cases t)
  have "same m m' (va b d) 24"
    using t by (intro Cons.prems(2) [of d sz i]) simp
  moreover have "chain_ok m' b ts lim nx"
    using Cons.prems t by (intro Cons.IH) auto
  ultimately show ?case
    using Cons.prems(1) t by (simp add: hdr_at_same)
qed simp

text \<open>Neither the bookkeeping fields nor the limit of the arena matter to the chain.\<close>

lemma next_of_cong: "b_arena_phys b' = b_arena_phys b \<Longrightarrow> next_of b' ts nx = next_of b ts nx"
  by (cases ts) auto

lemma chain_ok_builder_cong:
  assumes "b_arena b' = b_arena b" "b_arena_phys b' = b_arena_phys b"
  shows "chain_ok m b' ts lim nx = chain_ok m b ts lim nx"
  by (induction ts) (auto simp: assms next_of_cong [OF assms(2)])

lemma chain_ok_store:
  assumes "chain_ok m b ts lim nx" "store m (va b s) ps = Some m'"
    and "lim \<le> s" "s + length ps \<le> 2 ^ 64"
  shows "chain_ok m' b ts lim nx"
proof (rule chain_ok_frame [OF assms(1)])
  fix d sz i assume "(d, sz, i) \<in> set ts"
  then have "d + 32 \<le> lim"
    using chain_ok_le [OF assms(1)] by fastforce
  then show "same m m' (va b d) 24"
    using assms(3,4) by (intro same_store_offsets [OF assms(2)]) auto
qed

section \<open>The bump allocator\<close>

lemma unat_BUILDER_MAX_PHYS: "unat BBP_BUILDER_MAX_PHYS = 2 ^ 48"
  by (simp add: BBP_BUILDER_MAX_PHYS_def)

definition align8 :: "nat \<Rightarrow> nat" where
  "align8 n = (n + 7) div 8 * 8"

lemma align8_bounds: "n \<le> align8 n" "align8 n < n + 8" "8 dvd align8 n"
  unfolding align8_def by presburger+

text \<open>A successful bump returns an aligned range that starts at or after the used part and ends in
  the arena and below the physical limit; a failing one only sets the flag.\<close>

lemma arena_bump_cases:
  assumes "arena_ok m b"
  obtains (fail) "arena_bump b len = (b\<lparr>b_overflow := True\<rparr>, 0, 0)"
  | (ok) s where "s = align8 (unat (b_used b))" "\<not> b_overflow b"
      "s + unat len \<le> unat (b_capacity b)" "unat (b_arena_phys b) + s + unat len \<le> 2 ^ 48"
      "arena_bump b len = (b\<lparr>b_used := of_nat (s + unat len)\<rparr>, va b s, pa b s)"
proof (cases "arena_bump b len = (b\<lparr>b_overflow := True\<rparr>, 0, 0)")
  case False
  let ?s = "align8 (unat (b_used b))"
  define w where "w = (b_used b + 7) AND NOT 7"
  have used: "unat (b_used b) \<le> 2 ^ 48" "unat (b_arena_phys b) \<le> 2 ^ 48"
    using assms by (auto simp: arena_ok_def)
  have w: "unat w = ?s"
    unfolding w_def unat_and_not_7 align8_def using used by (subst unat_add_u64) auto
  from False have g: "\<not> b_overflow b" "\<not> (w > b_capacity b \<or> len > b_capacity b - w)"
      "\<not> (b_arena_phys b > BBP_BUILDER_MAX_PHYS \<or> w > BBP_BUILDER_MAX_PHYS - b_arena_phys b)"
      "\<not> len > BBP_BUILDER_MAX_PHYS - (b_arena_phys b + w)"
      and eq: "arena_bump b len = (b\<lparr>b_used := w + len\<rparr>, b_arena b + w, b_arena_phys b + w)"
    unfolding arena_bump_def Let_def w_def [symmetric] by (auto split: if_splits)
  have c: "?s + unat len \<le> unat (b_capacity b)"
    using g(2) by (auto simp: word_nat_simps unat_diff_u64 w not_less)
  have p1: "unat (b_arena_phys b) + ?s \<le> 2 ^ 48"
    using g(3) unat_BUILDER_MAX_PHYS by (auto simp: word_nat_simps unat_diff_u64 w not_less)
  then have p2: "unat (b_arena_phys b + w) = unat (b_arena_phys b) + ?s"
    using w by (simp add: unat_add_u64)
  have p: "unat (b_arena_phys b) + ?s + unat len \<le> 2 ^ 48"
    using g(4) p1 unat_BUILDER_MAX_PHYS by (auto simp: word_nat_simps unat_diff_u64 p2 not_less)
  have "w = of_nat ?s"
    using w by (metis of_nat_unat_u64)
  then have "arena_bump b len = (b\<lparr>b_used := of_nat (?s + unat len)\<rparr>, va b ?s, pa b ?s)"
    using eq by simp
  with g(1) c p show thesis
    by (intro ok [of ?s]) auto
qed (rule fail)

lemma arena_bump_succeeds:
  assumes "arena_ok m b" "\<not> b_overflow b" "s = align8 (unat (b_used b))"
    and "s + unat len \<le> unat (b_capacity b)" "unat (b_arena_phys b) + s + unat len \<le> 2 ^ 48"
  shows "arena_bump b len = (b\<lparr>b_used := of_nat (s + unat len)\<rparr>, va b s, pa b s)"
proof -
  define w where "w = (b_used b + 7) AND NOT 7"
  have used: "unat (b_used b) \<le> 2 ^ 48"
    using assms(1) by (auto simp: arena_ok_def)
  have w: "unat w = s"
    unfolding w_def unat_and_not_7 assms(3) align8_def using used by (subst unat_add_u64) auto
  have p2: "unat (b_arena_phys b + w) = unat (b_arena_phys b) + s"
    using assms(5) w by (subst unat_add_u64) auto
  have "\<not> (b_arena b = 0 \<or> b_overflow b \<or> b_used b > BBP_BUILDER_SIZE_MAX - 7)"
    using assms(1,2) used
    by (auto simp: arena_ok_def BBP_BUILDER_SIZE_MAX_def word_nat_simps)
  moreover have "\<not> (w > b_capacity b \<or> len > b_capacity b - w)"
    using assms(4) w by (auto simp: word_nat_simps unat_diff_u64)
  moreover have "\<not> (b_arena_phys b > BBP_BUILDER_MAX_PHYS \<or> w > BBP_BUILDER_MAX_PHYS - b_arena_phys b)"
    using assms(5) w unat_BUILDER_MAX_PHYS by (auto simp: word_nat_simps unat_diff_u64)
  moreover have "\<not> len > BBP_BUILDER_MAX_PHYS - (b_arena_phys b + w)"
    using assms(5) w unat_BUILDER_MAX_PHYS p2 by (auto simp: word_nat_simps unat_diff_u64)
  moreover have "w = of_nat s"
    using w by (metis of_nat_unat_u64)
  ultimately show ?thesis
    unfolding arena_bump_def Let_def w_def [symmetric] by simp
qed

lemma va_ne_0:
  assumes "arena_ok m b" "d \<le> unat (b_capacity b)"
  shows "va b d \<noteq> 0"
proof -
  have "unat (va b d) = unat (b_arena b) + d"
    using assms by (subst unat_add_u64) (auto simp: arena_ok_def unat_of_nat_u64)
  then show ?thesis
    using assms(1) by (metis add_is_0 arena_ok_def unat_0 unat_eq_zero)
qed

lemma pa_ne_0:
  assumes "arena_ok m b" "unat (b_arena_phys b) + d \<le> 2 ^ 48"
  shows "pa b d \<noteq> 0" "unat (pa b d) = unat (b_arena_phys b) + d"
proof -
  show u: "unat (pa b d) = unat (b_arena_phys b) + d"
    using assms by (subst unat_add_u64) (auto simp: unat_of_nat_u64)
  then show "pa b d \<noteq> 0"
    using assms(1) by (metis add_is_0 arena_ok_def unat_0 less_irrefl)
qed

section \<open>Stamping a tag\<close>

definition stamp_bytes :: "u64 \<Rightarrow> u16 \<Rightarrow> u64 \<Rightarrow> u8 list" where
  "stamp_bytes i v n = put_le 8 i @ put_le 4 (ucast n :: u32) @ put_le 2 v @ put_le 2 (0 :: u16) @
     put_le 8 (0 :: u64) @ put_le 8 (0 :: u64)"

lemma length_stamp_bytes [simp]: "length (stamp_bytes i v n) = 32"
  by (simp add: stamp_bytes_def)

lemma stamp_tag_eq: "stamp_tag m t i v n = store m t (stamp_bytes i v n)"
  by (simp add: stamp_tag_def stamp_bytes_def st16_def st32_def st64_def store_append [symmetric]
      add.assoc)

lemma hdr_at_stamped:
  assumes "store m t (stamp_bytes i v n) = Some m'" "unat n < 2 ^ 32"
  shows "hdr_at m' t (unat n) i 0"
proof -
  have l: "load m' t 32 = Some (stamp_bytes i v n)"
    using load_store_same [OF assms(1)] by simp
  have "(ucast n :: u32) = of_nat (unat n)"
    by (simp add: of_nat_unat)
  then show ?thesis
    using ld_of_load(3) [OF l, of 0] ld_of_load(2) [OF l, of 8] ld_of_load(3) [OF l, of 16]
    by (simp add: hdr_at_def stamp_bytes_def le64.dec_enc le32.dec_enc)
qed

text \<open>Rewriting the \<open>next_tag\<close> field.\<close>

lemma hdr_at_relink:
  assumes "hdr_at m a sz i nx" "st64 m (a + 16) nx' = Some m'"
  shows "hdr_at m' a sz i nx'"
proof -
  have st: "store m (a + of_nat 16) (put_le 8 nx') = Some m'"
    using assms(2) by (simp add: st64_def)
  have "load m' (a + of_nat 0) 8 = load m (a + of_nat 0) 8"
    "load m' (a + of_nat 8) 4 = load m (a + of_nat 8) 4"
    by (rule load_store_offsets [OF st]; simp)+
  moreover have "load m' (a + 16) 8 = Some (put_le 8 nx')"
    using load_store_same [OF st] by simp
  ultimately show ?thesis
    using assms(1) by (simp add: hdr_at_def ld64_def ld32_def le64.dec_enc)
qed

lemma chain_ok_relink:
  assumes "chain_ok m b (ts @ [(d, sz, i)]) lim nx" "st64 m (va b d + 16) nx' = Some m'" "lim \<le> 2 ^ 63"
  shows "chain_ok m' b (ts @ [(d, sz, i)]) lim nx'"
proof -
  have st: "store m (va b (d + 16)) (put_le 8 nx') = Some m'"
    using assms(2) by (simp add: st64_def add.assoc)
  have ch: "chain_ok m b ts d (pa b d)" "chain_ok m b [(d, sz, i)] lim nx"
    using assms(1) by (simp_all add: chain_ok_append)
  have "chain_ok m' b ts d (pa b d)"
  proof (rule chain_ok_frame [OF ch(1)])
    fix e z j assume "(e, z, j) \<in> set ts"
    then have "e + 32 \<le> d"
      using chain_ok_le [OF ch(1)] by fastforce
    moreover have "d \<le> lim" using ch(2) by simp
    ultimately show "same m m' (va b e) 24"
      using assms(3) by (intro same_store_offsets [OF st]) auto
  qed
  moreover have "hdr_at m' (va b d) sz i nx'"
    using ch(2) assms(2) by (auto intro: hdr_at_relink)
  ultimately show ?thesis
    using ch(2) by (simp add: chain_ok_append)
qed

section \<open>Allocating a tag\<close>

lemma arena_ok_bump:
  assumes "arena_ok m b" "same_dom m m'" "s + n \<le> unat (b_capacity b)"
    and "unat (b_arena_phys b) + s + n \<le> 2 ^ 48"
    and "b_arena b' = b_arena b" "b_arena_phys b' = b_arena_phys b" "b_capacity b' = b_capacity b"
    and "b_used b' = of_nat (s + n)"
  shows "arena_ok m' b'" "unat (b_used b') = s + n"
proof -
  show u: "unat (b_used b') = s + n"
    unfolding assms(8) using assms(3) unat_u64_less [of "b_capacity b"] by (subst unat_of_nat_u64) auto
  show "arena_ok m' b'"
    using assms u same_dom_mapped [OF assms(2)] by (auto simp: arena_ok_def)
qed

lemma zero_tail_frame:
  assumes "zero_tail m b" "frame m m' S" "unat (b_used b) \<le> unat (b_used b')"
    and "b_arena b' = b_arena b" "b_capacity b' = b_capacity b"
    and "\<And>j. unat (b_used b') \<le> j \<Longrightarrow> j < unat (b_capacity b) \<Longrightarrow> va b j \<notin> S"
  shows "zero_tail m' b'"
  unfolding zero_tail_def
proof (intro allI impI)
  fix j assume j: "unat (b_used b') \<le> j \<and> j < unat (b_capacity b')"
  then have "m (va b j) = Some 0"
    using assms(1,3,5) by (simp add: zero_tail_def)
  moreover have "m' (va b j) = m (va b j)"
    using assms(2,5,6) j by (simp add: frame_def)
  ultimately show "m' (va b' j) = Some 0"
    using assms(4) by simp
qed

lemma notin_span_offset:
  assumes "t + k \<le> j \<or> j < t" "j < 2 ^ 64" "t + k \<le> 2 ^ 64"
  shows "a + of_nat j \<notin> span (a + of_nat t) k"
proof -
  have "a + of_nat j \<in> span (a + of_nat j) 1"
    by (simp add: span_def)
  moreover have "span (a + of_nat j) 1 \<inter> span (a + of_nat t) k = {}"
    using assms by (intro span_offsets) auto
  ultimately show ?thesis by blast
qed

text \<open>What the tag fields must be after the header of the new tag is stamped at \<open>s\<close> and the
  previous tag is linked to it.\<close>

lemma alloc_chain:
  assumes wf: "wf_builder m b ts" and s: "s = align8 (unat (b_used b))"
    and sz: "32 \<le> unat n" "unat n \<le> 2 ^ 24" "s + unat n \<le> unat (b_capacity b)"
    and st: "store m (va b s) (stamp_bytes i v n) = Some m1"
    and ln: "if ts = [] then m2 = m1 else st64 m1 (b_last b + 16) (pa b s) = Some m2"
  shows "chain_ok m2 b (ts @ [(s, unat n, i)]) (s + unat n) 0"
proof -
  have cap: "unat (b_capacity b) < 2 ^ 64" "unat (b_used b) \<le> s" "8 dvd s"
    using align8_bounds [of "unat (b_used b)"] s unat_u64_less by auto
  have ch: "chain_ok m b ts s 0"
    using wf cap(2) chain_ok_mono unfolding wf_builder_def by blast
  have 1: "chain_ok m1 b ts s 0"
    using sz cap by (intro chain_ok_store [OF ch st]) auto
  have h1: "hdr_at m1 (va b s) (unat n) i 0"
    using hdr_at_stamped [OF st] sz(2) by simp
  have "chain_ok m2 b ts s (pa b s) \<and> hdr_at m2 (va b s) (unat n) i 0"
  proof (cases ts rule: rev_cases)
    case Nil
    then show ?thesis using ln h1 by simp
  next
    case (snoc ts' t)
    obtain d z j where t: "t = (d, z, j)" by (cases t)
    have last: "b_last b = va b d"
      using wf snoc t by (simp add: wf_builder_def)
    then have st2: "st64 m1 (va b d + 16) (pa b s) = Some m2"
      using ln snoc by simp
    have "d + 32 \<le> s"
      using chain_ok_le [OF 1, of d z j] snoc t by simp
    moreover have st3: "store m1 (va b (d + 16)) (put_le 8 (pa b s)) = Some m2"
      using st2 by (simp add: st64_def add.assoc)
    ultimately have "same m1 m2 (va b s) 24"
      using sz cap by (intro same_store_offsets [OF st3]) auto
    moreover have "s \<le> 2 ^ 63"
      using wf sz s by (auto simp: wf_builder_def arena_ok_def align8_def)
    ultimately show ?thesis
      using chain_ok_relink [OF 1 [unfolded snoc t] st2] h1 snoc t hdr_at_same by simp
  qed
  then show ?thesis
    using sz cap by (simp add: chain_ok_append)
qed

definition link_span :: "bbp_builder \<Rightarrow> tag_desc list \<Rightarrow> u64 set" where
  "link_span b ts = (if ts = [] then {} else span (va b (fst (last ts) + 16)) 8)"

lemma link_span_used:
  assumes "wf_builder m b ts" "unat (b_used b) \<le> j" "j < 2 ^ 64"
  shows "va b j \<notin> link_span b ts"
proof (cases ts rule: rev_cases)
  case (snoc ts' t)
  obtain d z i where t: "t = (d, z, i)" by (cases t)
  have "d + 32 \<le> unat (b_used b)"
    using assms(1) chain_ok_le [of m b ts "unat (b_used b)" 0 d z i] snoc t
    by (fastforce simp: wf_builder_def)
  then have "va b j \<notin> span (va b (d + 16)) 8"
    using assms(2,3) by (intro notin_span_offset) auto
  then show ?thesis
    using snoc t by (simp add: link_span_def)
qed (simp add: link_span_def)

lemma alloc_link:
  assumes wf: "wf_builder m b ts" and dom: "same_dom m m1"
    and b: "b1 = b\<lparr>b_used := u\<rparr>"
  obtains m2 where
    "(if b_last b1 \<noteq> 0 then do { m \<leftarrow> st64 m1 (b_last b1 + 16) (pa b s); Some (m, b1) }
      else Some (m1, b1\<lparr>b_first_phys := pa b s\<rparr>)) =
     Some (m2, b1\<lparr>b_first_phys := next_of b (ts @ [(s, z, i)]) 0\<rparr>)"
    "if ts = [] then m2 = m1 else st64 m1 (b_last b + 16) (pa b s) = Some m2"
    "frame m1 m2 (link_span b ts)" "same_dom m1 m2"
proof (cases ts rule: rev_cases)
  case Nil
  then show thesis
    using wf b by (intro that [of m1]) (auto simp: wf_builder_def)
next
  case (snoc ts' t)
  obtain d z' j where t: "t = (d, z', j)" by (cases t)
  have ar: "arena_ok m b" and ch: "chain_ok m b ts (unat (b_used b)) 0" and l: "b_last b = va b d"
    using wf snoc t by (simp_all add: wf_builder_def)
  have d: "d + 32 \<le> unat (b_used b)"
    using chain_ok_le [OF ch, of d z' j] snoc t by simp
  then have nz: "va b d \<noteq> 0"
    using ar by (intro va_ne_0 [OF ar]) (auto simp: arena_ok_def)
  have "mapped m (va b (d + 16)) 8"
    using ar d by (intro mapped_sub [of m "b_arena b" "unat (b_capacity b)"]) (auto simp: arena_ok_def)
  then have "mapped m1 (va b d + 16) 8"
    using same_dom_mapped [OF dom] by (simp add: add.assoc)
  then obtain m2 where m2: "store m1 (va b d + 16) (put_le 8 (pa b s)) = Some m2"
    using store_ok [of m1 "va b d + 16" "put_le 8 (pa b s)"] by auto
  show thesis
  proof (rule that [of m2])
    show "frame m1 m2 (link_span b ts)" "same_dom m1 m2"
      using frame_store [OF m2] same_dom_store [OF m2] snoc t
      by (simp_all add: link_span_def add.assoc)
  qed (use wf nz l m2 b snoc in \<open>auto simp: st64_def wf_builder_def next_of_append\<close>)
qed

text \<open>A tag stamped in the unused part has its header and an all-zero body.\<close>

lemma fresh_tag_bytes:
  assumes wf: "wf_builder m b ts" and s: "unat (b_used b) \<le> s" "s + n \<le> unat (b_capacity b)" "32 \<le> n"
    and st: "store m (va b s) (stamp_bytes i v k) = Some m1" and fr: "frame m1 m2 (link_span b ts)"
  shows "load m2 (va b s) n = Some (stamp_bytes i v k @ replicate (n - 32) 0)"
proof -
  have cap: "unat (b_capacity b) < 2 ^ 64"
    by (rule unat_u64_less)
  have zt: "\<forall>j. unat (b_used b) \<le> j \<and> j < unat (b_capacity b) \<longrightarrow> m (va b j) = Some 0"
    using wf by (simp add: wf_builder_def zero_tail_def)
  have eq: "m2 (va b j) = m1 (va b j)" if "unat (b_used b) \<le> j" "j < unat (b_capacity b)" for j
    using link_span_used [OF wf that(1)] that cap fr by (simp add: frame_def)
  have "load m2 (va b s) 32 = load m1 (va b s) 32"
    using eq [of "s + _"] s by (intro load_cong) (simp add: add.assoc)
  then have 1: "load m2 (va b s) 32 = Some (stamp_bytes i v k)"
    using load_store_same [OF st] by simp
  have "m2 (va b (s + 32) + of_nat j) = Some 0" if "j < n - 32" for j
  proof -
    have "va b (s + 32 + j) \<notin> span (va b s) 32"
      using that s cap by (intro notin_span_offset) auto
    then have "m1 (va b (s + 32 + j)) = m (va b (s + 32 + j))"
      using frame_store [OF st] by (simp add: frame_def)
    moreover have "m (va b (s + 32 + j)) = Some 0"
      using zt [rule_format, of "s + 32 + j"] s that by linarith
    ultimately show ?thesis
      using eq [of "s + 32 + j"] s that by (simp add: add.assoc)
  qed
  then have "load m2 (va b s + of_nat 32) (n - 32) = Some (replicate (n - 32) 0)"
    by (simp add: load_eq_Some_iff add.assoc)
  from load_append [OF 1 this] show ?thesis
    using s(3) by simp
qed

lemma alloc_tag_cases:
  assumes wf: "wf_builder m b ts"
  obtains (fail) "bbp_alloc_tag m (Some b) i v n = Some (m, Some (b\<lparr>b_overflow := True\<rparr>), 0)"
  | (ok) m' b' s where "bbp_alloc_tag m (Some b) i v n = Some (m', Some b', va b s)"
      "s = align8 (unat (b_used b))" "va b s \<noteq> 0" "wf_builder m' b' (ts @ [(s, unat n, i)])"
      "b_arena b' = b_arena b" "b_arena_phys b' = b_arena_phys b" "b_capacity b' = b_capacity b"
      "unat (b_used b') = s + unat n" "same_dom m m'" "32 \<le> unat n"
      "frame m m' (span (va b s) 32 \<union> link_span b ts)"
      "load m' (va b s) (unat n) = Some (stamp_bytes i v n @ replicate (unat n - 32) 0)"
proof (cases "n < 32 \<or> n > BBP_BUILDER_MAX_TAG \<or> n > ucast BBP_BUILDER_U32_MAX
    \<or> b_tag_count b \<ge> BBP_BUILDER_MAX_TAGS")
  case True
  then show thesis
    by (intro fail) (auto simp: bbp_alloc_tag_def)
next
  case False
  then have n: "32 \<le> unat n" "unat n \<le> 2 ^ 24"
    by (auto simp: word_nat_simps BBP_BUILDER_MAX_TAG_def)
  have ar: "arena_ok m b"
    using wf by (simp add: wf_builder_def)
  show thesis
  proof (cases rule: arena_bump_cases [OF ar, of n, case_names bfail bok])
    case bfail
    with False show thesis
      by (intro fail) (auto simp: bbp_alloc_tag_def)
  next
    case (bok s)
    let ?b = "b\<lparr>b_used := of_nat (s + unat n)\<rparr>"
    have nz: "va b s \<noteq> 0"
      using bok by (intro va_ne_0 [OF ar]) simp
    have mp: "mapped m (b_arena b) (unat (b_capacity b))"
      using ar by (simp add: arena_ok_def)
    have "mapped m (va b s) 32"
      using bok n by (intro mapped_sub [OF mp]) auto
    then obtain m1 where m1: "store m (va b s) (stamp_bytes i v n) = Some m1"
      using store_ok [of m "va b s" "stamp_bytes i v n"] by auto
    obtain m2 where m2: "(if b_last ?b \<noteq> 0
          then do { m \<leftarrow> st64 m1 (b_last ?b + 16) (pa b s); Some (m, ?b) }
          else Some (m1, ?b\<lparr>b_first_phys := pa b s\<rparr>)) =
        Some (m2, ?b\<lparr>b_first_phys := next_of b (ts @ [(s, unat n, i)]) 0\<rparr>)"
        "if ts = [] then m2 = m1 else st64 m1 (b_last b + 16) (pa b s) = Some m2"
        "frame m1 m2 (link_span b ts)" "same_dom m1 m2"
      by (rule alloc_link [OF wf same_dom_store [OF m1] refl])
    let ?b' = "?b\<lparr>b_first_phys := next_of b (ts @ [(s, unat n, i)]) 0, b_last := va b s,
        b_tag_count := b_tag_count b + 1\<rparr>"
    have "bbp_alloc_tag m (Some b) i v n =
        do { (m, b1) \<leftarrow> (if b_last ?b \<noteq> 0
               then do { m \<leftarrow> st64 m1 (b_last ?b + 16) (pa b s); Some (m, ?b) }
               else Some (m1, ?b\<lparr>b_first_phys := pa b s\<rparr>));
             Some (m, Some (b1\<lparr>b_last := va b s, b_tag_count := b_tag_count b1 + 1\<rparr>), va b s) }"
      using False nz m1 by (simp add: bbp_alloc_tag_def bok(5) stamp_tag_eq)
    also have "\<dots> = Some (m2, Some ?b', va b s)"
      unfolding m2(1) by simp
    finally have alloc: "bbp_alloc_tag m (Some b) i v n = Some (m2, Some ?b', va b s)" .
    have fr: "frame m m2 (span (va b s) 32 \<union> link_span b ts)"
      using frame_trans [OF frame_store [OF m1] m2(3)] by simp
    have dom: "same_dom m m2"
      using same_dom_trans [OF same_dom_store [OF m1] m2(4)] .
    have cap: "unat (b_capacity b) < 2 ^ 64" "unat (b_used b) \<le> s"
      using align8_bounds [of "unat (b_used b)"] bok(1) unat_u64_less by auto
    note ar' = arena_ok_bump [OF ar dom bok(3,4), of ?b', simplified]
    have "zero_tail m2 ?b'"
    proof (rule zero_tail_frame [OF _ fr])
      show "zero_tail m b" using wf by (simp add: wf_builder_def)
    next
      fix j assume "unat (b_used ?b') \<le> j" "j < unat (b_capacity b)"
      then have "s + unat n \<le> j" "j < 2 ^ 64"
        using ar'(2) cap by simp_all
      then show "va b j \<notin> span (va b s) 32 \<union> link_span b ts"
        using n cap bok(3) link_span_used [OF wf] notin_span_offset [of s 32 j] by auto
    qed (use ar'(2) cap n in auto)
    moreover have "chain_ok m2 ?b' (ts @ [(s, unat n, i)]) (unat (b_used ?b')) 0"
      using alloc_chain [OF wf bok(1) n bok(3) m1 m2(2)] ar'(2)
        chain_ok_builder_cong [of ?b' b] by simp
    moreover have tc: "b_tag_count b = of_nat (length ts)" "length ts \<le> 1024"
      using wf by (simp_all add: wf_builder_def)
    moreover have "length ts < 1024"
      using False tc by (simp add: BBP_BUILDER_MAX_TAGS_def word_le_nat_alt unat_of_nat_u32)
    ultimately have w: "wf_builder m2 ?b' (ts @ [(s, unat n, i)])"
      using ar'(1) bok(2) next_of_cong [of ?b' b "ts @ [(s, unat n, i)]" 0]
      by (simp add: wf_builder_def)
    show thesis
      by (rule ok [OF alloc bok(1) nz w _ _ _ _ dom n(1) fr fresh_tag_bytes [OF wf cap(2) bok(3) n(1) m1 m2(3)]])
        (use ar'(2) in simp_all)
  qed
qed

text \<open>An allocation that fits succeeds.\<close>

lemma alloc_tag_succeeds:
  assumes wf: "wf_builder m b ts" and n: "32 \<le> unat n" "unat n \<le> 2 ^ 24" and ts: "length ts < 1024"
    and s: "s = align8 (unat (b_used b))" "s + unat n \<le> unat (b_capacity b)"
      "unat (b_arena_phys b) + s + unat n \<le> 2 ^ 48"
  shows "\<exists>m' b'. bbp_alloc_tag m (Some b) i v n = Some (m', Some b', va b s)"
proof -
  have ar: "arena_ok m b" and ov: "\<not> b_overflow b" and tc: "b_tag_count b = of_nat (length ts)"
    using wf by (simp_all add: wf_builder_def)
  have nz: "va b s \<noteq> 0"
    using s by (intro va_ne_0 [OF ar]) simp
  have g: "\<not> (n < 32 \<or> n > BBP_BUILDER_MAX_TAG \<or> n > ucast BBP_BUILDER_U32_MAX
      \<or> b_tag_count b \<ge> BBP_BUILDER_MAX_TAGS)"
    using n ts by (auto simp: word_nat_simps BBP_BUILDER_MAX_TAG_def BBP_BUILDER_U32_MAX_def
        unat_ucast_u32 unsigned_minus_1_eq_mask mask_eq_exp_minus_1 tc unat_of_nat_u32
        BBP_BUILDER_MAX_TAGS_def)
  show ?thesis
  proof (cases rule: alloc_tag_cases [OF wf, of i v n, case_names fail ok])
    case fail
    then show ?thesis
      using g nz by (auto simp: bbp_alloc_tag_def arena_bump_succeeds [OF ar ov s] bind_eq_Some_conv)
  qed (use s in blast)
qed

lemma alloc_tag_ok:
  assumes wf: "wf_builder m b ts" and n: "32 \<le> unat n" "unat n \<le> 2 ^ 24" and ts: "length ts < 1024"
    and s: "s = align8 (unat (b_used b))" "s + unat n \<le> unat (b_capacity b)"
      "unat (b_arena_phys b) + s + unat n \<le> 2 ^ 48"
  obtains m' b' where "bbp_alloc_tag m (Some b) i v n = Some (m', Some b', va b s)" "va b s \<noteq> 0"
      "wf_builder m' b' (ts @ [(s, unat n, i)])"
      "b_arena b' = b_arena b" "b_arena_phys b' = b_arena_phys b" "b_capacity b' = b_capacity b"
      "b_used b' = of_nat (s + unat n)" "same_dom m m'" "frame m m' (span (va b s) 32 \<union> link_span b ts)"
      "load m' (va b s) (unat n) = Some (stamp_bytes i v n @ replicate (unat n - 32) 0)"
proof -
  have "va b s \<noteq> 0"
    using wf s by (intro va_ne_0) (auto simp: wf_builder_def)
  then show thesis
    using alloc_tag_succeeds [OF assms, of i v]
  proof (cases rule: alloc_tag_cases [OF wf, of i v n, case_names fail ok])
    case (ok m' b' s')
    moreover have "b_used b' = of_nat (s' + unat n)"
      using ok(8) by (metis of_nat_unat_u64)
    ultimately show thesis
      using s(1) by (intro that) auto
  qed auto
qed

section \<open>Byte loops\<close>

lemma bbp_memzero_eq: "n \<le> 2 ^ 64 \<Longrightarrow> bbp_memzero m p n = store m p (replicate n 0)"
proof (induction n arbitrary: m p)
  case (Suc n)
  then show ?case
    using store_Cons [of "replicate n 0" m p 0] by simp
qed (simp add: store_def)

lemma memcpy_const_eq: "length vs \<le> 2 ^ 64 \<Longrightarrow> memcpy_const m d vs = store m d vs"
proof (induction vs arbitrary: m d)
  case (Cons v vs)
  then show ?case
    using store_Cons [of vs m d v] by simp
qed (simp add: store_def)

lemma bbp_memcpy_eq:
  assumes "load m s n = Some ps" "disj s n d n" "n \<le> 2 ^ 64"
  shows "bbp_memcpy m d s n = store m d ps"
  using assms
proof (induction n arbitrary: m d s ps)
  case 0
  then show ?case by (simp add: load_def store_def)
next
  case (Suc n)
  then obtain p qs where ps: "ps = p # qs" "length qs = n"
    by (metis length_Suc_conv load_length)
  have p: "m (s + of_nat 0) = Some p"
    using Suc.prems(1) ps by (fastforce simp only: load_eq_Some_iff nth_Cons_0)
  have "load m (s + of_nat 1) n = Some (take n (drop 1 ps))"
    using Suc.prems(1) by (intro load_sub) auto
  then have l: "load m (s + 1) n = Some qs"
    using ps by simp
  have dj: "disj (s + 1) n d 1" "disj (s + 1) n (d + 1) n"
  proof -
    show "disj (s + 1) n d 1"
      using disj_mono [OF disj_sub [OF Suc.prems(2), of 1 n]] by simp
    have "disj (d + of_nat 1) n (s + of_nat 1) n"
      using Suc.prems(2) disj_sym disj_sub by (metis add.commute le_refl plus_1_eq_Suc)
    then show "disj (s + 1) n (d + 1) n"
      by (simp add: disj_sym)
  qed
  show ?case
  proof (cases "store m d [p]")
    case (Some m1)
    then have "load m1 (s + 1) n = Some qs"
      using load_store_disj [OF Some, of "s + 1" n] dj(1) l by simp
    then have "bbp_memcpy m1 (d + 1) (s + 1) n = store m1 (d + 1) qs"
      using dj(2) Suc.prems(3) by (intro Suc.IH) auto
    then show ?thesis
      using store_Cons [of qs m d p] Suc.prems(3) p Some ps by simp
  next
    case None
    then show ?thesis
      using store_Cons [of qs m d p] Suc.prems(3) p ps by simp
  qed
qed

section \<open>Blobs and strings\<close>

text \<open>Writing freshly bumped bytes: the chain does not notice.\<close>

lemma bump_store_wf:
  assumes wf: "wf_builder m b ts" and s: "s = align8 (unat (b_used b))"
    and le: "s + n \<le> unat (b_capacity b)" "unat (b_arena_phys b) + s + n \<le> 2 ^ 48"
    and st: "store m (va b s) ps = Some m'" "length ps = n"
  shows "wf_builder m' (b\<lparr>b_used := of_nat (s + n)\<rparr>) ts"
proof -
  let ?b = "b\<lparr>b_used := of_nat (s + n)\<rparr>"
  have ar: "arena_ok m b" and ch: "chain_ok m b ts (unat (b_used b)) 0"
    using wf by (simp_all add: wf_builder_def)
  have us: "unat (b_used b) \<le> s" "unat (b_capacity b) < 2 ^ 64"
    using align8_bounds s unat_u64_less by auto
  note ar' = arena_ok_bump [OF ar same_dom_store [OF st(1)] le, of ?b, simplified]
  have "chain_ok m' b ts (unat (b_used b)) 0"
    using us le st(2) by (intro chain_ok_store [OF ch st(1)]) auto
  then have "chain_ok m' ?b ts (s + n) 0"
    using us chain_ok_mono [of m' b ts "unat (b_used b)" 0 "s + n"] chain_ok_builder_cong [of ?b b] by simp
  moreover have "zero_tail m' ?b"
  proof (rule zero_tail_frame [OF _ frame_store [OF st(1)]])
    show "zero_tail m b" using wf by (simp add: wf_builder_def)
  next
    fix j assume "unat (b_used ?b) \<le> j" "j < unat (b_capacity b)"
    then show "va b j \<notin> span (va b s) (length ps)"
      using ar'(2) us le st(2) by (intro notin_span_offset) auto
  qed (use ar'(2) us in auto)
  ultimately show ?thesis
    using wf ar' next_of_cong [of ?b b ts 0] by (simp add: wf_builder_def)
qed

definition outside_arena :: "bbp_builder \<Rightarrow> u64 \<Rightarrow> nat \<Rightarrow> bool" where
  "outside_arena b a n \<longleftrightarrow> disj a n (b_arena b) (unat (b_capacity b))"

lemma outside_arena_disj:
  assumes "outside_arena b a n" "s + k \<le> unat (b_capacity b)"
  shows "disj a n (va b s) k"
  using assms disj_sub [of "b_arena b" "unat (b_capacity b)" a n s k]
  by (simp add: outside_arena_def disj_sym)

lemma arena_blob_cases:
  assumes wf: "wf_builder m b ts" and data: "data \<noteq> 0" "load m data (unat len) = Some ps"
    "outside_arena b data (unat len)" and len: "len \<noteq> 0"
  obtains (fail) "bbp_arena_blob m (Some b) data len = Some (m, Some (b\<lparr>b_overflow := True\<rparr>), 0)"
  | (ok) m' s where "s = align8 (unat (b_used b))"
      "bbp_arena_blob m (Some b) data len = Some (m', Some (b\<lparr>b_used := of_nat (s + unat len)\<rparr>), pa b s)"
      "wf_builder m' (b\<lparr>b_used := of_nat (s + unat len)\<rparr>) ts" "pa b s \<noteq> 0"
      "store m (va b s) ps = Some m'" "s + unat len \<le> unat (b_capacity b)"
proof -
  have ar: "arena_ok m b"
    using wf by (simp add: wf_builder_def)
  show thesis
  proof (cases rule: arena_bump_cases [OF ar, of len, case_names bfail bok])
    case bfail
    then show thesis
      using data len by (intro fail) (simp add: bbp_arena_blob_def)
  next
    case (bok s)
    have nz: "va b s \<noteq> 0"
      using bok by (intro va_ne_0 [OF ar]) simp
    have "mapped m (va b s) (length ps)"
      using ar bok load_length [OF data(2)]
      by (intro mapped_sub [of m "b_arena b" "unat (b_capacity b)"]) (auto simp: arena_ok_def)
    then obtain m' where m': "store m (va b s) ps = Some m'"
      using store_ok by blast
    have "bbp_memcpy m (va b s) data (unat len) = Some m'"
      using bbp_memcpy_eq [OF data(2), of "va b s"] outside_arena_disj [OF data(3) bok(3)]
        unat_u64_less [of len] m' by simp
    then have "bbp_arena_blob m (Some b) data len =
        Some (m', Some (b\<lparr>b_used := of_nat (s + unat len)\<rparr>), pa b s)"
      using data(1) len nz by (simp add: bbp_arena_blob_def bok(5))
    then show thesis
      using bok m' bump_store_wf [OF wf bok(1,3,4) m'] load_length [OF data(2)] pa_ne_0(1) [OF ar, of s]
      by (intro ok) auto
  qed
qed

lemma arena_blob_ok:
  assumes wf: "wf_builder m b ts" and data: "data \<noteq> 0" "load m data (unat len) = Some ps"
    "outside_arena b data (unat len)" and len: "len \<noteq> 0"
    and s: "s = align8 (unat (b_used b))" "s + unat len \<le> unat (b_capacity b)"
      "unat (b_arena_phys b) + s + unat len \<le> 2 ^ 48"
  obtains m' where "bbp_arena_blob m (Some b) data len = Some (m', Some (b\<lparr>b_used := of_nat (s + unat len)\<rparr>), pa b s)"
      "wf_builder m' (b\<lparr>b_used := of_nat (s + unat len)\<rparr>) ts" "pa b s \<noteq> 0" "store m (va b s) ps = Some m'"
proof (cases rule: arena_blob_cases [OF wf data len, case_names fail ok])
  case fail
  have ar: "arena_ok m b" "\<not> b_overflow b"
    using wf by (simp_all add: wf_builder_def)
  have "va b s \<noteq> 0" "pa b s \<noteq> 0"
    using s va_ne_0 [OF ar(1), of s] pa_ne_0(1) [OF ar(1), of s] by auto
  then show thesis
    using fail data(1) len arena_bump_succeeds [OF ar s] by (auto simp: bbp_arena_blob_def bind_eq_Some_conv)
next
  case (ok m' s')
  then show thesis
    using s(1) by (intro that) auto
qed

lemma strnlen_from_eq:
  assumes "load m s n = Some ps" "k \<le> n"
  shows "strnlen_from m s k (n - k) = Some (k + length (takeWhile (\<lambda>c. c \<noteq> 0) (drop k ps)))"
  using assms(2)
proof (induction "n - k" arbitrary: k)
  case 0
  then show ?case using load_length [OF assms(1)] by simp
next
  case (Suc d)
  then have k: "k < n" "n - k = Suc (n - Suc k)" by auto
  have "m (s + of_nat k) = Some (ps ! k)" and l: "length ps = n"
    using assms(1) k by (auto simp: load_eq_Some_iff)
  moreover have "drop k ps = ps ! k # drop (Suc k) ps"
    using k l by (simp add: Cons_nth_drop_Suc)
  moreover have "strnlen_from m s (Suc k) (n - Suc k) =
      Some (Suc k + length (takeWhile (\<lambda>c. c \<noteq> 0) (drop (Suc k) ps)))"
    using Suc k by (intro Suc.hyps) auto
  ultimately show ?case
    unfolding k(2) by simp
qed

lemma bbp_arena_strdup_n_cases:
  assumes wf: "wf_builder m b ts" and src: "s1 \<noteq> 0" "load m s1 (unat len) = Some ps"
    "outside_arena b s1 (unat len)" and len: "len \<noteq> 0"
  obtains (fail) "bbp_arena_strdup_n m (Some b) s1 len = Some (m, Some (b\<lparr>b_overflow := True\<rparr>), 0, 0)"
  | (ok) m' s cs n where "s = align8 (unat (b_used b))"
      "cs = takeWhile (\<lambda>c. c \<noteq> 0) ps" "n = length cs" "n < unat len" "n < 2 ^ 32"
      "bbp_arena_strdup_n m (Some b) s1 len =
         Some (m', Some (b\<lparr>b_used := of_nat (s + Suc n)\<rparr>), pa b s, of_nat n)"
      "wf_builder m' (b\<lparr>b_used := of_nat (s + Suc n)\<rparr>) ts" "pa b s \<noteq> 0"
      "store m (va b s) (cs @ [0]) = Some m'" "s + Suc n \<le> unat (b_capacity b)"
proof -
  let ?cs = "takeWhile (\<lambda>c. c \<noteq> 0) ps"
  let ?n = "length ?cs"
  have ar: "arena_ok m b" and lps: "length ps = unat len"
    using wf load_length [OF src(2)] by (simp_all add: wf_builder_def)
  have scan: "strnlen_from m s1 0 (unat len) = Some ?n"
    using strnlen_from_eq [OF src(2), of 0] by simp
  have n: "?n \<le> unat len" "?n < 2 ^ 64"
    using length_takeWhile_le [of _ ps] lps unat_u64_less [of len] le_less_trans by (metis, metis)
  then have wn: "unat (of_nat ?n :: u64) = ?n"
    by (simp add: unat_of_nat_u64)
  then have eq: "(of_nat ?n = len) = (?n = unat len)"
    by (metis of_nat_unat_u64)
  have big: "(of_nat ?n :: u64) > ucast BBP_BUILDER_U32_MAX \<longleftrightarrow> \<not> ?n < 2 ^ 32"
    using wn by (auto simp: word_less_nat_alt unat_ucast_u32 BBP_BUILDER_U32_MAX_def
        unsigned_minus_1_eq_mask mask_eq_exp_minus_1)
  show thesis
  proof (cases "?n = unat len \<or> \<not> ?n < 2 ^ 32")
    case True
    then show thesis
      using src len scan eq big by (intro fail) (auto simp: bbp_arena_strdup_n_def)
  next
    case False
    then have u: "unat (of_nat ?n + 1 :: u64) = Suc ?n"
      using wn by (subst unat_add_u64) auto
    show thesis
    proof (cases rule: arena_bump_cases [OF ar, of "of_nat ?n + 1", case_names bfail bok])
      case bfail
      then show thesis
        using src len scan eq big False by (intro fail) (auto simp: bbp_arena_strdup_n_def)
    next
      case (bok s)
      have cap: "s + Suc ?n \<le> unat (b_capacity b)"
        using bok(3) u by simp
      have nz: "va b s \<noteq> 0"
        using cap by (intro va_ne_0 [OF ar]) simp
      have "load m (s1 + of_nat 0) ?n = Some (take ?n (drop 0 ps))"
        using src(2) n by (intro load_sub) auto
      then have l: "load m s1 ?n = Some ?cs"
        by (simp add: takeWhile_eq_take [symmetric])
      have "disj s1 ?n (va b s) ?n"
        by (rule disj_mono [OF outside_arena_disj [OF src(3) cap]]) (use n in auto)
      then have cp: "bbp_memcpy m (va b s) s1 ?n = store m (va b s) ?cs"
        using bbp_memcpy_eq [OF l] n by simp
      have "mapped m (va b s) (length (?cs @ [0]))"
        using ar cap
        by (intro mapped_sub [of m "b_arena b" "unat (b_capacity b)"]) (auto simp: arena_ok_def)
      then obtain m' where m': "store m (va b s) (?cs @ [0]) = Some m'"
        using store_ok by blast
      then have "do { m1 \<leftarrow> store m (va b s) ?cs; store m1 (va b s + of_nat ?n) [0] } = Some m'"
        using store_append [of ?cs "[0]" m "va b s"] n False by simp
      then have "bbp_arena_strdup_n m (Some b) s1 len =
          Some (m', Some (b\<lparr>b_used := of_nat (s + Suc ?n)\<rparr>), pa b s, ucast (of_nat ?n :: u64))"
        using src(1) len scan eq big False nz cp
        by (auto simp: bbp_arena_strdup_n_def bok(5) u bind_eq_Some_conv Let_def)
      moreover have "(ucast (of_nat ?n :: u64) :: u32) = of_nat ?n"
        by (metis of_nat_unat wn)
      ultimately show thesis
        using ok [OF bok(1) refl refl _ _ _ bump_store_wf [OF wf bok(1) cap _ m'] _ m' cap]
          n False bok(4) u pa_ne_0(1) [OF ar, of s] by simp
    qed
  qed
qed

end
