(* ===== verification/Builder_Seal.thy ===== *)
theory Builder_Seal
  imports Builder_Wf
begin

text \<open>
  Initialising a builder establishes the invariant, and finalising it returns: the sealing loop
  ends, every tag gets the right checksum, and nothing but the checksum fields and the INFO block
  changes.
\<close>

section \<open>Initialisation\<close>

abbreviation fresh_builder :: "u64 \<Rightarrow> u64 \<Rightarrow> u64 \<Rightarrow> bbp_builder" where
  "fresh_builder a p c \<equiv> \<lparr>b_arena = a, b_arena_phys = p, b_capacity = c, b_used = 0, b_last = 0,
     b_first_phys = 0, b_tag_count = 0, b_overflow = False\<rparr>"

lemma builder_init_wf:
  assumes "a \<noteq> 0" "mapped m a (unat c)" "unat a + unat c < 2 ^ 64"
    and "0 < unat p" "8 dvd unat p" "unat p < 2 ^ 48"
  obtains m' where "bbp_builder_init m (Some b0) a p c = Some (m', Some (fresh_builder a p c))"
    "wf_builder m' (fresh_builder a p c) []" "frame m m' (span a (unat c))" "same_dom m m'"
proof -
  obtain m' where m': "store m a (replicate (unat c) 0) = Some m'"
    using assms(2) store_ok [of m a "replicate (unat c) 0"] by auto
  have nz: "p \<noteq> 0" "p AND 7 = 0" "\<not> p \<ge> BBP_BUILDER_MAX_PHYS"
    using assms unat_BUILDER_MAX_PHYS by (auto simp: and_7_eq_0_iff word_nat_simps)
  then have init: "bbp_builder_init m (Some b0) a p c = Some (m', Some (fresh_builder a p c))"
    using assms(1) m' unat_u64_less [of c] by (simp add: bbp_builder_init_def bbp_memzero_eq)
  have dom: "same_dom m m'"
    by (rule same_dom_store [OF m'])
  have "zero_tail m' (fresh_builder a p c)"
    using store_nth [OF m'] unat_u64_less [of c] by (simp add: zero_tail_def)
  then have "wf_builder m' (fresh_builder a p c) []"
    using assms same_dom_mapped [OF dom] by (simp add: wf_builder_def arena_ok_def)
  then show thesis
    using that init frame_store [OF m'] dom by simp
qed

section \<open>Sealing\<close>

lemma builder_crc_skip_eq:
  assumes "load m base (unat len) = Some ps" "unat d + 8 \<le> unat len"
  shows "builder_crc_skip m base len d = Some (crc_skip_bytes ps (unat d))"
proof -
  have d: "unat (d + 8) = unat d + 8"
    using assms(2) unat_u64_less [of len] by (subst unat_add_u64) auto
  then have n: "unat (len - d - 8) = unat len - unat d - 8"
    using assms(2) unat_diff_u64 [of "d + 8" len] by (auto simp: word_nat_simps diff_diff_eq)
  have "load m (base + of_nat 0) (unat d) = Some (take (unat d) (drop 0 ps))"
    using assms by (intro load_sub) auto
  moreover have "load m (base + of_nat (unat (d + 8))) (unat len - unat d - 8) =
      Some (take (unat len - unat d - 8) (drop (unat (d + 8)) ps))"
    using assms by (intro load_sub) (auto simp: d)
  ultimately show ?thesis
    using n assms(1)
    by (simp add: builder_crc_skip_def crc_skip_bytes_def Let_def d add.assoc load_length)
qed

text \<open>Storing the computed checksum of a range into its field.\<close>

lemma seal_range:
  assumes "load m a n = Some ps" "d + 8 \<le> n" "n < 2 ^ 64"
  obtains m' ps' where "st64 m (a + of_nat d) (crc_skip_bytes ps d) = Some m'"
    "load m' a n = Some ps'" "crc_field_ok ps' d" "take d ps' = take d ps" "drop (d + 8) ps' = drop (d + 8) ps"
    "frame m m' (span (a + of_nat d) 8)" "same_dom m m'"
proof -
  have "mapped m a n"
    using assms(1) load_ex_iff by blast
  then have "mapped m (a + of_nat d) (length (put_le 8 (crc_skip_bytes ps d)))"
    using assms(2) mapped_sub [of m a n d 8] by simp
  then obtain m' where m': "store m (a + of_nat d) (put_le 8 (crc_skip_bytes ps d)) = Some m'"
    using store_ok by blast
  let ?ps = "take d ps @ put_le 8 (crc_skip_bytes ps d) @ drop (d + 8) ps"
  have len: "d + 8 \<le> length ps"
    using assms load_length by fastforce
  have "load m' a n = Some ?ps"
    using load_store_within [OF m' assms(1)] assms(2,3) by simp
  moreover have "crc_field_ok ?ps d"
    by (rule crc_field_ok_seal [OF len])
  ultimately show thesis
    using that [of m' ?ps] m' frame_store [OF m'] same_dom_store [OF m'] len by (simp add: st64_def)
qed

lemma seal_tag_ok:
  assumes "load m h n = Some ps" "ld32 m (h + 8) = Some (of_nat n)" "32 \<le> n" "n \<le> 2 ^ 24"
  obtains m' ps' where "bbp_seal_tag m h = Some m'" "load m' h n = Some ps'" "crc_field_ok ps' 24"
    "frame m m' (span (h + 24) 8)" "same_dom m m'" "take 24 ps' = take 24 ps" "drop 32 ps' = drop 32 ps"
proof -
  have u: "unat (ucast (of_nat n :: u32) :: u64) = n"
    using assms(4) by (simp add: unat_ucast_u32 unat_of_nat_u32)
  then have crc: "builder_crc_skip m h (ucast (of_nat n :: u32)) 24 = Some (crc_skip_bytes ps 24)"
    using builder_crc_skip_eq [of m h "ucast (of_nat n :: u32)" ps 24] assms by simp
  have "24 + 8 \<le> n" "n < 2 ^ 64"
    using assms by auto
  then obtain m' ps' where "st64 m (h + of_nat 24) (crc_skip_bytes ps 24) = Some m'"
    "load m' h n = Some ps'" "crc_field_ok ps' 24" "frame m m' (span (h + of_nat 24) 8)" "same_dom m m'"
    "take 24 ps' = take 24 ps" "drop (24 + 8) ps' = drop (24 + 8) ps"
    by (rule seal_range [OF assms(1)]) blast
  then show thesis
    using that [of m' ps'] assms(2) crc by (simp add: bbp_seal_tag_def)
qed

definition seal_spans :: "bbp_builder \<Rightarrow> tag_desc list \<Rightarrow> u64 set" where
  "seal_spans b ts = (\<Union>(d, sz, i) \<in> set ts. span (va b (d + 24)) 8)"

definition sealed :: "mem \<Rightarrow> bbp_builder \<Rightarrow> nat \<Rightarrow> nat \<Rightarrow> bool" where
  "sealed m b d sz \<longleftrightarrow> (\<exists>ps. load m (va b d) sz = Some ps \<and> crc_field_ok ps 24)"

lemma sealed_same: "same m m' (va b d) sz \<Longrightarrow> sealed m' b d sz = sealed m b d sz"
  by (simp add: sealed_def same_load_all)

lemma seal_spans_disj:
  assumes "chain_ok m b ts lim nx" "d + n \<le> start_of ts lim" "lim \<le> 2 ^ 48"
  shows "span (va b d) n \<inter> seal_spans b ts = {}"
proof -
  have "span (va b d) n \<inter> span (va b (e + 24)) 8 = {}" if "(e, sz, i) \<in> set ts" for e sz i
  proof -
    have "start_of ts lim \<le> e" "e + sz \<le> lim" "32 \<le> sz"
      using chain_ok_le [OF assms(1) that] by auto
    then show ?thesis
      using assms(2,3) by (intro span_offsets) auto
  qed
  then show ?thesis
    by (fastforce simp: seal_spans_def)
qed

lemma seal_loop_ok:
  assumes "chain_ok m b ts lim 0" "arena_ok m b" "lim \<le> unat (b_used b)"
  obtains m' where "seal_loop m b (next_of b ts 0) = Some m'" "chain_ok m' b ts lim 0"
    "same_dom m m'" "frame m m' (seal_spans b ts)"
    "\<And>d sz i. (d, sz, i) \<in> set ts \<Longrightarrow> sealed m' b d sz"
  using assms
proof (induction ts arbitrary: m thesis)
  case Nil
  then show ?case by (simp add: seal_loop.simps)
next
  case (Cons t ts)
  obtain d sz i where t: "t = (d, sz, i)" by (cases t)
  note ch = Cons.prems(2) [unfolded t, simplified]
  have lim: "lim \<le> 2 ^ 48" "d + sz \<le> lim"
    using Cons.prems(3,4) ch chain_ok_start [of m b ts lim 0] by (auto simp: arena_ok_def)
  have pa: "pa b d \<noteq> 0" "builder_phys_to_virt b (pa b d) = va b d"
    using pa_ne_0(1) [OF Cons.prems(3), of d] lim Cons.prems(3,4)
    by (auto simp: arena_ok_def builder_phys_to_virt_def)
  have "mapped m (va b d) sz"
    using Cons.prems(3,4) lim
    by (intro mapped_sub [of m "b_arena b" "unat (b_capacity b)"]) (auto simp: arena_ok_def)
  then obtain ps where ps: "load m (va b d) sz = Some ps"
    using load_ex_iff by blast
  obtain m1 ps1 where m1: "bbp_seal_tag m (va b d) = Some m1" "load m1 (va b d) sz = Some ps1"
    "crc_field_ok ps1 24" "frame m m1 (span (va b d + 24) 8)" "same_dom m m1"
    by (rule seal_tag_ok [OF ps]) (use ch in \<open>auto simp: hdr_at_def\<close>)
  have fr1: "frame m m1 (span (va b (d + 24)) 8)"
    using m1(4) by (simp add: add.assoc)
  have "same m m1 (va b d) 24"
    using lim by (intro frame_same [OF fr1] span_offsets) auto
  then have h1: "hdr_at m1 (va b d) sz i (next_of b ts 0)"
    using ch by (simp add: hdr_at_same)
  have "chain_ok m1 b ts lim 0"
  proof (rule chain_ok_frame)
    fix e z j assume "(e, z, j) \<in> set ts"
    then have "d + sz \<le> e" "e + 32 \<le> lim"
      using chain_ok_le [of m b ts lim 0 e z j] ch by auto
    then show "same m m1 (va b e) 24"
      using ch lim by (intro frame_same [OF fr1] span_offsets) auto
  qed (use ch in simp)
  moreover have "arena_ok m1 b"
    using Cons.prems(3) same_dom_mapped [OF m1(5)] by (simp add: arena_ok_def)
  ultimately obtain m' where m': "seal_loop m1 b (next_of b ts 0) = Some m'" "chain_ok m' b ts lim 0"
    "same_dom m1 m'" "frame m1 m' (seal_spans b ts)"
    "\<And>d sz i. (d, sz, i) \<in> set ts \<Longrightarrow> sealed m' b d sz"
    using Cons.IH [OF _ _ _ Cons.prems(4)] by blast
  have s': "same m1 m' (va b d) sz"
    using ch lim(1) by (intro frame_same [OF m'(4)] seal_spans_disj [of m1 b ts lim 0])
      (use \<open>chain_ok m1 b ts lim 0\<close> in auto)
  have "same m1 m' (va b d) 24"
    using same_sub [OF s', of 0 24] ch by simp
  then have "hdr_at m' (va b d) sz i (next_of b ts 0)"
    using h1 by (simp add: hdr_at_same)
  moreover have "sealed m' b d sz"
    using sealed_same [OF s'] m1(2,3) by (auto simp: sealed_def)
  moreover have "seal_loop m b (pa b d) = Some m'"
    using pa m1(1) h1 m'(1) by (subst seal_loop.simps) (simp add: hdr_at_def)
  moreover have "frame m m' (seal_spans b (t # ts))"
    using frame_trans [OF fr1 m'(4)] t by (simp add: seal_spans_def)
  ultimately show ?case
    using Cons.prems(1) [of m'] ch m'(2,5) same_dom_trans [OF m1(5) m'(3)] t by auto
qed

section \<open>The INFO block\<close>

definition info_head :: "(nat \<times> u8 list) list" where
  "info_head = [(16, put_le 2 BBP_VERSION_MAJOR), (18, put_le 2 BBP_VERSION_MINOR),
     (0, replicate 16 0), (0, ascii BBP_INFO_MAGIC)]"

definition info_tail :: "bbp_builder \<Rightarrow> (nat \<times> u8 list) list" where
  "info_tail b = [(116, put_le 4 (b_tag_count b)), (120, put_le 8 (b_first_phys b)),
     (20, put_le 4 (ucast (144 + b_used b) :: u32)), (136, put_le 8 (0 :: u64))]"

lemma length_info_magic: "length (ascii BBP_INFO_MAGIC) = 9"
  by (simp add: ascii_def BBP_INFO_MAGIC_def)

lemma fill_info_eq:
  "fill_info m b p = do {
     m \<leftarrow> stores m p (info_head @ info_tail b);
     c \<leftarrow> builder_crc_skip m p 144 136;
     st64 m (p + of_nat 136) c }"
  by (simp add: fill_info_def info_head_def info_tail_def st16_def st32_def st64_def
      bbp_memzero_eq memcpy_const_eq length_info_magic)

lemma info_head_bounds: "list_all (\<lambda>(d, qs). d + length qs \<le> 20) info_head"
  by (simp add: info_head_def length_info_magic)

lemma info_tail_bounds: "list_all (\<lambda>(d, qs). 20 \<le> d \<and> d + length qs \<le> 144) (info_tail b)"
  by (simp add: info_tail_def)

lemma slice_info_head:
  assumes "length ps = 144"
  shows "slice (patches ps info_head) 0 16 = char_array 16 BBP_INFO_MAGIC"
    and "slice (patches ps info_head) 16 2 = put_le 2 BBP_VERSION_MAJOR"
proof -
  let ?q = "patches ps [(16, put_le 2 BBP_VERSION_MAJOR), (18, put_le 2 BBP_VERSION_MINOR)]"
  have "length ?q = 144"
    using assms by simp
  then have "slice (patch (patch ?q 0 (replicate 16 0)) 0 (ascii BBP_INFO_MAGIC)) 0 16
      = char_array 16 BBP_INFO_MAGIC"
    using length_info_magic by (simp add: patch_def slice_def char_array_def)
  then show "slice (patches ps info_head) 0 16 = char_array 16 BBP_INFO_MAGIC"
    by (simp add: info_head_def)
  show "slice (patches ps info_head) 16 2 = put_le 2 BBP_VERSION_MAJOR"
    unfolding info_head_def
    using slice_patches_last [of ps "[]" 16 "put_le 2 BBP_VERSION_MAJOR"
        "[(18, put_le 2 BBP_VERSION_MINOR), (0, replicate 16 0), (0, ascii BBP_INFO_MAGIC)]" 2]
      assms length_info_magic by simp
qed

lemma slice_info_tail:
  assumes "length ps = 144"
  shows "e + n \<le> 20 \<Longrightarrow> slice (patches ps (info_tail b)) e n = slice ps e n"
    and "slice (patches ps (info_tail b)) 20 4 = put_le 4 (ucast (144 + b_used b) :: u32)"
    and "slice (patches ps (info_tail b)) 120 8 = put_le 8 (b_first_phys b)"
    and "slice (patches ps (info_tail b)) 24 92 = slice ps 24 92"
proof -
  show "slice (patches ps (info_tail b)) e n = slice ps e n" if "e + n \<le> 20"
    using that assms by (intro slice_patches_disj) (simp add: info_tail_def)
  show "slice (patches ps (info_tail b)) 24 92 = slice ps 24 92"
    using assms by (intro slice_patches_disj) (simp add: info_tail_def)
  show "slice (patches ps (info_tail b)) 20 4 = put_le 4 (ucast (144 + b_used b) :: u32)"
    using slice_patches_last [of ps "[(116, put_le 4 (b_tag_count b)), (120, put_le 8 (b_first_phys b))]"
        20 "put_le 4 (ucast (144 + b_used b) :: u32)" "[(136, put_le 8 (0 :: u64))]" 4] assms
    by (simp add: info_tail_def)
  show "slice (patches ps (info_tail b)) 120 8 = put_le 8 (b_first_phys b)"
    using slice_patches_last [of ps "[(116, put_le 4 (b_tag_count b))]" 120 "put_le 8 (b_first_phys b)"
        "[(20, put_le 4 (ucast (144 + b_used b) :: u32)), (136, put_le 8 (0 :: u64))]" 8] assms
    by (simp add: info_tail_def)
qed

lemma slice_take_prefix:
  assumes "e + n \<le> d" "take d ps = take d qs"
  shows "slice ps e n = slice qs e n"
proof -
  have "take (n + e) ps = take (n + e) (take d ps)" "take (n + e) qs = take (n + e) (take d qs)"
    using assms(1) by (simp_all add: min_absorb1)
  then show ?thesis
    using assms(2) by (simp add: slice_def take_drop)
qed

text \<open>The finished INFO block: the fields the builder owns have their values, the fields the
  caller filled in are kept, and the checksum is right.\<close>

lemma fill_info_ok:
  assumes "load m p 144 = Some ps"
  obtains m' ps' where "fill_info m b p = Some m'" "load m' p 144 = Some ps'" "crc_field_ok ps' 136"
    "slice ps' 0 16 = char_array 16 BBP_INFO_MAGIC" "slice ps' 16 2 = put_le 2 BBP_VERSION_MAJOR"
    "slice ps' 20 4 = put_le 4 (ucast (144 + b_used b) :: u32)"
    "slice ps' 120 8 = put_le 8 (b_first_phys b)" "slice ps' 24 92 = slice ps 24 92"
    "frame m m' (span p 144)" "same_dom m m'"
proof -
  let ?ws = "info_head @ info_tail b"
  have ws: "list_all (\<lambda>(d, qs). d + length qs \<le> 144) ?ws"
    by (simp add: info_head_def info_tail_def length_info_magic)
  obtain m1 where m1: "stores m p ?ws = Some m1" "load m1 p 144 = Some (patches ps ?ws)"
    "frame m m1 (span p 144)" "same_dom m m1"
    by (rule stores_ok [OF assms ws]) auto
  let ?q = "patches ps ?ws"
  obtain m2 qs where m2: "st64 m1 (p + of_nat 136) (crc_skip_bytes ?q 136) = Some m2"
    "load m2 p 144 = Some qs" "crc_field_ok qs 136" "take 136 qs = take 136 ?q"
    "frame m1 m2 (span (p + of_nat 136) 8)" "same_dom m1 m2"
    by (rule seal_range [OF m1(2), of 136]) auto
  have "builder_crc_skip m1 p 144 136 = Some (crc_skip_bytes ?q 136)"
    using builder_crc_skip_eq [of m1 p 144 ?q 136] m1(2) by simp
  then have fill: "fill_info m b p = Some m2"
    using m1(1) m2(1) by (simp add: fill_info_eq)
  have "frame m1 m2 (span p 144)"
    using frame_mono [OF m2(5) span_sub] by simp
  then have fr: "frame m m2 (span p 144)"
    using frame_trans [OF m1(3)] by fastforce
  have len: "length ps = 144" "length (patches ps info_head) = 144"
    using load_length [OF assms] info_head_bounds by (simp_all add: list_all_iff length_info_magic info_head_def)
  have sl: "slice qs e n = slice ?q e n" if "e + n \<le> 136" for e n
    by (rule slice_take_prefix [OF that m2(4)])
  show thesis
  proof (rule that [OF fill m2(2,3) _ _ _ _ _ fr same_dom_trans [OF m1(4) m2(6)]])
    have "slice ?q 24 92 = slice (patches ps info_head) 24 92"
      using slice_info_tail(4) [OF len(2)] by (simp add: patches_append)
    also have "\<dots> = slice ps 24 92"
      using len(1) by (intro slice_patches_disj) (simp add: info_head_def length_info_magic)
    finally show "slice qs 24 92 = slice ps 24 92"
      using sl by simp
  qed (use slice_info_head [OF len(1)] slice_info_tail [OF len(2)] sl in \<open>simp_all add: patches_append\<close>)
qed

section \<open>Finalisation\<close>

lemma outside_arena_span:
  assumes "outside_arena b p n" "d + k \<le> unat (b_capacity b)"
  shows "span (va b d) k \<inter> span p n = {}"
  using span_disj [OF outside_arena_disj [OF assms]] by blast

lemma seal_spans_arena:
  assumes "chain_ok m b ts lim nx" "lim \<le> unat (b_capacity b)"
  shows "seal_spans b ts \<subseteq> span (b_arena b) (unat (b_capacity b))"
proof -
  have "span (va b (d + 24)) 8 \<subseteq> span (b_arena b) (unat (b_capacity b))" if "(d, sz, i) \<in> set ts" for d sz i
    using chain_ok_le [OF assms(1) that] assms(2) by (intro span_sub) auto
  then show ?thesis
    by (fastforce simp: seal_spans_def)
qed

text \<open>The invariant survives a change that stays in the checksum fields and outside the arena.\<close>

lemma wf_builder_frame:
  assumes wf: "wf_builder m b ts" and ch: "chain_ok m' b ts (unat (b_used b)) 0"
    and fr: "frame m m' (span p n \<union> seal_spans b ts)" and "outside_arena b p n" "same_dom m m'"
  shows "wf_builder m' b ts"
proof -
  have ar: "arena_ok m b" and ch0: "chain_ok m b ts (unat (b_used b)) 0"
    using wf by (simp_all add: wf_builder_def)
  have "zero_tail m' b"
  proof (rule zero_tail_frame [OF _ fr])
    fix j assume j: "unat (b_used b) \<le> j" "j < unat (b_capacity b)"
    have in1: "va b j \<in> span (va b j) 1"
      by (simp add: span_def)
    have "span (va b j) 1 \<inter> span (va b (d + 24)) 8 = {}" if "(d, sz, i) \<in> set ts" for d sz i
      using chain_ok_le [OF ch0 that] j unat_u64_less [of "b_capacity b"]
      by (intro span_offsets) auto
    then have "va b j \<notin> seal_spans b ts"
      using in1 by (fastforce simp: seal_spans_def)
    moreover have "va b j \<notin> span p n"
      using outside_arena_span [OF assms(4), of j 1] in1 j by auto
    ultimately show "va b j \<notin> span p n \<union> seal_spans b ts"
      by blast
  qed (use wf in \<open>auto simp: wf_builder_def\<close>)
  moreover have "arena_ok m' b"
    using ar same_dom_mapped [OF assms(5)] by (simp add: arena_ok_def)
  ultimately show ?thesis
    using wf ch by (simp add: wf_builder_def)
qed

lemma finalize_ok:
  assumes wf: "wf_builder m b ts" and used: "unat (b_used b) \<le> 2 ^ 26 - 144"
    and p: "p \<noteq> 0" "load m p 144 = Some ps" "outside_arena b p 144"
  obtains m' ps' where "bbp_builder_finalize m (Some b) p q = Some (m', Some b, q)"
    "wf_builder m' b ts" "\<And>d sz i. (d, sz, i) \<in> set ts \<Longrightarrow> sealed m' b d sz"
    "load m' p 144 = Some ps'" "crc_field_ok ps' 136"
    "slice ps' 0 16 = char_array 16 BBP_INFO_MAGIC" "slice ps' 16 2 = put_le 2 BBP_VERSION_MAJOR"
    "slice ps' 20 4 = put_le 4 (ucast (144 + b_used b) :: u32)"
    "slice ps' 120 8 = put_le 8 (b_first_phys b)" "slice ps' 24 92 = slice ps 24 92"
    "frame m m' (span p 144 \<union> seal_spans b ts)" "same_dom m m'"
proof -
  have ar: "arena_ok m b" and ch: "chain_ok m b ts (unat (b_used b)) 0"
    and fp: "b_first_phys b = next_of b ts 0"
    using wf by (simp_all add: wf_builder_def)
  obtain m1 where m1: "seal_loop m b (next_of b ts 0) = Some m1" "chain_ok m1 b ts (unat (b_used b)) 0"
    "same_dom m m1" "frame m m1 (seal_spans b ts)"
    "\<And>d sz i. (d, sz, i) \<in> set ts \<Longrightarrow> sealed m1 b d sz"
    by (rule seal_loop_ok [OF ch ar order_refl]) blast
  have cap: "unat (b_used b) \<le> unat (b_capacity b)"
    using ar by (simp add: arena_ok_def)
  have "span p 144 \<inter> seal_spans b ts = {}"
    using seal_spans_arena [OF ch cap] outside_arena_span [OF p(3), of 0 "unat (b_capacity b)"] by auto
  then have l1: "load m1 p 144 = Some ps"
    using same_load_all [OF frame_same [OF m1(4)]] p(2) by simp
  obtain m2 ps' where m2: "fill_info m1 b p = Some m2" "load m2 p 144 = Some ps'" "crc_field_ok ps' 136"
    "slice ps' 0 16 = char_array 16 BBP_INFO_MAGIC" "slice ps' 16 2 = put_le 2 BBP_VERSION_MAJOR"
    "slice ps' 20 4 = put_le 4 (ucast (144 + b_used b) :: u32)"
    "slice ps' 120 8 = put_le 8 (b_first_phys b)" "slice ps' 24 92 = slice ps 24 92"
    "frame m1 m2 (span p 144)" "same_dom m1 m2"
    by (rule fill_info_ok [OF l1])
  have sm: "same m1 m2 (va b d) sz" if "(d, sz, i) \<in> set ts" for d sz i
    using chain_ok_le [OF ch that] cap by (intro frame_same [OF m2(9)] outside_arena_span [OF p(3)]) auto
  have ch2: "chain_ok m2 b ts (unat (b_used b)) 0"
  proof (rule chain_ok_frame [OF m1(2)])
    fix d sz i assume t: "(d, sz, i) \<in> set ts"
    then show "same m1 m2 (va b d) 24"
      using same_sub [OF sm [OF t], of 0 24] chain_ok_le [OF ch t] by simp
  qed
  have fr: "frame m m2 (span p 144 \<union> seal_spans b ts)"
    using frame_trans [OF m1(4) m2(9)] by (simp add: Un_commute)
  have dom: "same_dom m m2"
    by (rule same_dom_trans [OF m1(3) m2(10)])
  have "unat (BBP_BUILDER_MAX_INFO - 144) = 2 ^ 26 - 144"
    by (simp add: BBP_BUILDER_MAX_INFO_def)
  moreover have "\<not> b_overflow b" "unat (b_tag_count b) \<le> 1024"
    using wf by (auto simp: wf_builder_def unat_of_nat_u32)
  ultimately have "bbp_builder_finalize m (Some b) p q = Some (m2, Some b, q)"
    using p(1) used cap m1(1) m2(1) fp
    by (simp add: bbp_builder_finalize_def word_nat_simps BBP_BUILDER_MAX_TAGS_def)
  moreover have "sealed m2 b d sz" if "(d, sz, i) \<in> set ts" for d sz i
    using m1(5) [OF that] sealed_same [OF sm [OF that]] by simp
  ultimately show thesis
    using that [of m2 ps'] wf_builder_frame [OF wf ch2 fr p(3) dom] m2 fr dom by simp
qed

end
