(* ===== verification/Handoff.thy ===== *)
theory Handoff
  imports Bbp_Kernel Builder_Seal
begin

text \<open>
  Producer meets consumer: what \<open>bbp_builder_finalize\<close> leaves in memory is accepted by
  \<open>bbp_init_bounded\<close>, and the walk finds exactly the tags that were appended, in order, with
  valid checksums and unchanged bodies.
\<close>

section \<open>The consumer's view of an arena\<close>

text \<open>The context sees the arena of \<open>b\<close> through its direct map.\<close>

definition sees_arena :: "bbp_kctx \<Rightarrow> bbp_builder \<Rightarrow> bool" where
  "sees_arena k b \<longleftrightarrow>
     unat (b_arena_phys b) + unat (hhdm_offset k) = unat (b_arena b) \<and>
     unat (b_arena_phys b) + unat (b_capacity b) \<le> 2 ^ 48 \<and>
     walk_lo k = b_arena_phys b \<and> walk_hi k = b_arena_phys b + b_capacity b"

definition tag_addrs :: "bbp_builder \<Rightarrow> tag_desc list \<Rightarrow> u64 list" where
  "tag_addrs b ts = map (\<lambda>(d, sz, i). va b d) ts"

lemma sees_arena_va:
  assumes "sees_arena k b"
  shows "pa b d + hhdm_offset k = va b d"
proof -
  have "unat (b_arena_phys b + hhdm_offset k) = unat (b_arena b)"
    using assms unat_u64_less [of "b_arena b"] by (subst unat_add_u64) (auto simp: sees_arena_def)
  then have "b_arena_phys b + hhdm_offset k = b_arena b"
    by (simp add: word_unat_eq_iff)
  then show ?thesis
    by (metis add.assoc add.commute)
qed

lemma sees_arena_tag_ok:
  assumes "sees_arena k b" "arena_ok m b" "8 dvd d" "32 \<le> sz" "sz \<le> 2 ^ 24"
    and "d + sz \<le> unat (b_used b)" "ld32 m (va b d + 8) = Some (of_nat sz)"
  shows "tag_ok m k (pa b d) (va b d) (of_nat sz)"
proof -
  have ar: "0 < unat (b_arena_phys b)" "8 dvd unat (b_arena_phys b)"
      "unat (b_used b) \<le> unat (b_capacity b)" "unat (b_arena b) + unat (b_capacity b) < 2 ^ 64"
    using assms(2) by (simp_all add: arena_ok_def)
  have se: "unat (b_arena_phys b) + unat (hhdm_offset k) = unat (b_arena b)"
      "unat (b_arena_phys b) + unat (b_capacity b) \<le> 2 ^ 48"
      "walk_lo k = b_arena_phys b" "walk_hi k = b_arena_phys b + b_capacity b"
    using assms(1) by (simp_all add: sees_arena_def)
  have pa: "unat (pa b d) = unat (b_arena_phys b) + d" "pa b d \<noteq> 0"
    using pa_ne_0 [OF assms(2), of d] assms(6) ar se by auto
  have hi: "unat (walk_hi k) = unat (b_arena_phys b) + unat (b_capacity b)"
    unfolding se(4) using se(2) by (subst unat_add_u64) auto
  have sz: "unat (of_nat sz :: u32) = sz"
    using assms(5) by (simp add: unat_of_nat_u32)
  have "bbp_tag_region_ok k (pa b d) (ucast (of_nat sz :: u32))"
    unfolding bbp_tag_region_ok_iff bbp_address_region_ok_iff unat_ucast_u32 sz pa hi se(3)
    using ar se assms(4,6) by auto
  then show ?thesis
    unfolding tag_ok_def sz using assms pa ar sees_arena_va [OF assms(1)] by simp
qed

lemma tag_walk_chain:
  assumes "sees_arena k b" "arena_ok m b" "lim \<le> unat (b_used b)"
    and "chain_ok m b ts lim 0" "length ts \<le> n"
  shows "tag_walk m k (next_of b ts 0) n = Some (tag_addrs b ts)"
  using assms(4,5)
proof (induction ts arbitrary: n)
  case Nil
  then show ?case by (cases n) (simp_all add: tag_addrs_def)
next
  case (Cons t ts)
  obtain d sz i where t: "t = (d, sz, i)" by (cases t)
  obtain n' where n: "n = Suc n'"
    using Cons.prems(2) by (cases n) auto
  note ch = Cons.prems(1) [unfolded t, simplified]
  have "d + sz \<le> unat (b_used b)"
    using ch chain_ok_start [of m b ts lim 0] assms(3) by linarith
  then have ok: "tag_ok m k (pa b d) (va b d) (of_nat sz)"
    using ch by (intro sees_arena_tag_ok [OF assms(1,2)]) (auto simp: hdr_at_def)
  then have "bbp_tag_at m k (pa b d) = Some (Some (va b d))"
    using bbp_tag_at_Some_iff by blast
  moreover have "pa b d \<noteq> 0"
    using ok by (simp add: tag_ok_def)
  moreover have "tag_walk m k (next_of b ts 0) n' = Some (tag_addrs b ts)"
    using Cons.IH ch Cons.prems(2) n by simp
  ultimately show ?case
    using ch t n by (simp add: hdr_at_def tag_addrs_def)
qed

lemma sealed_tag_valid:
  assumes "sealed m b d sz" "32 \<le> sz" "sz \<le> 2 ^ 24" "ld32 m (va b d + 8) = Some (of_nat sz)"
  shows "tag_valid m k (va b d)"
proof -
  obtain ps where "load m (va b d) sz = Some ps" "crc_field_ok ps 24"
    using assms(1) by (auto simp: sealed_def)
  then have "bbp_tag_crc_ok m (va b d) = Some True"
    using bbp_tag_crc_ok_eq [of m "va b d" "of_nat sz" ps] assms by (simp add: unat_of_nat_u32)
  then show ?thesis
    by (simp add: tag_valid_def tag_crc_bad_def)
qed

text \<open>Looking a tag up in a chain of valid tags is looking its identifier up in the list.\<close>

definition lookup_tag :: "bbp_builder \<Rightarrow> tag_desc list \<Rightarrow> u64 \<Rightarrow> u64" where
  "lookup_tag b ts i = (case List.find (\<lambda>(d, sz, j). j = i) ts of None \<Rightarrow> 0 | Some (d, sz, j) \<Rightarrow> va b d)"

lemma find_spec_chain:
  assumes "chain_ok m b ts lim 0" "\<And>d sz j. (d, sz, j) \<in> set ts \<Longrightarrow> tag_valid m k (va b d)"
  shows "find_spec m k i (tag_addrs b ts) = lookup_tag b ts i"
  using assms
proof (induction ts)
  case Nil
  then show ?case by (simp add: find_spec_def tag_addrs_def lookup_tag_def)
next
  case (Cons t ts)
  obtain d sz j where t: "t = (d, sz, j)" by (cases t)
  have "ld64 m (va b d) = Some j" "chain_ok m b ts lim 0"
    using Cons.prems(1) t by (auto simp: hdr_at_def)
  moreover have "tag_valid m k (va b d)"
    using Cons.prems(2) [of d sz j] t by simp
  ultimately show ?case
    using Cons.IH Cons.prems(2) t
    by (auto simp: find_spec_def tag_addrs_def lookup_tag_def)
qed

lemma chain_tags_valid:
  assumes "chain_ok m b ts lim nx" "\<And>d sz i. (d, sz, i) \<in> set ts \<Longrightarrow> sealed m b d sz"
    and "(d, sz, i) \<in> set ts"
  shows "tag_valid m k (va b d)"
proof -
  have "32 \<le> sz \<and> sz \<le> 2 ^ 24 \<and> ld32 m (va b d + 8) = Some (of_nat sz)"
    using assms(1,3) by (induction ts) (auto simp: hdr_at_def)
  then show ?thesis
    using sealed_tag_valid [of m b d sz k] assms(2,3) by blast
qed

text \<open>Everything the consumer needs to know about finalised memory.\<close>

lemma handoff_chain:
  assumes "wf_builder m b ts" "\<And>d sz i. (d, sz, i) \<in> set ts \<Longrightarrow> sealed m b d sz"
    and "sees_arena k b" "info k \<noteq> 0" "load m (info k) 144 = Some ps"
    and "slice ps 120 8 = put_le 8 (b_first_phys b)" "0 < unat (b_capacity b)"
  shows "ctx_mapped m k" "tag_chain m k = Some (tag_addrs b ts)"
    "\<And>t. t \<in> set (tag_addrs b ts) \<Longrightarrow> tag_valid m k t"
    "bbp_find_tag m (Some k) i = Some (lookup_tag b ts i)"
proof -
  have ar: "arena_ok m b" and ch: "chain_ok m b ts (unat (b_used b)) 0" and le: "length ts \<le> 1024"
    and fp: "b_first_phys b = next_of b ts 0"
    using assms(1) by (simp_all add: wf_builder_def)
  have w: "walk_lo k < walk_hi k" "unat (walk_hi k - walk_lo k) = unat (b_capacity b)"
    "walk_lo k + hhdm_offset k = b_arena b"
    using assms(3,7) bounds_window [of "b_capacity b" "b_arena_phys b"] sees_arena_va [OF assms(3), of 0]
    by (auto simp: sees_arena_def)
  then show ctx: "ctx_mapped m k"
    using ar assms(4,5) load_ex_iff [of m "info k" 144]
    by (auto simp: ctx_mapped_def window_mapped_def arena_ok_def)
  have "ld64 m (info k + 120) = Some (b_first_phys b)"
    using ld_of_load(3) [OF assms(5), of 120] assms(6) by (simp add: slice_def le64.dec_enc)
  then show tc: "tag_chain m k = Some (tag_addrs b ts)"
    using tag_walk_chain [OF assms(3) ar order_refl ch, of BBP_MAX_TAGS] le fp
    by (simp add: tag_chain_def BBP_MAX_TAGS_def)
  show "tag_valid m k t" if "t \<in> set (tag_addrs b ts)" for t
    using that chain_tags_valid [OF ch assms(2)] by (auto simp: tag_addrs_def)
  show "bbp_find_tag m (Some k) i = Some (lookup_tag b ts i)"
    using bbp_find_tag_eq [OF ctx tc, of i] find_spec_chain [OF ch chain_tags_valid [OF ch assms(2)]]
    by simp
qed

lemma info_status_OK:
  assumes "crc_field_ok ps 136" "slice ps 0 16 = char_array 16 BBP_INFO_MAGIC"
    "slice ps 16 2 = put_le 2 BBP_VERSION_MAJOR"
    "slice ps 20 4 = put_le 4 (ucast (144 + u :: u64) :: u32)" "unat u \<le> 2 ^ 26 - 144"
  shows "info_status ps = BBP_OK"
proof -
  have "unat (144 + u) = 144 + unat u"
    using assms(5) by (subst unat_add_u64) auto
  then have "unat (ucast (144 + u) :: u32) = 144 + unat u"
    using assms(5) by (subst unat_ucast_down) auto
  then show ?thesis
    using assms
    by (simp add: info_status_def slice_def bbp_info_magic_def BBP_MAGIC_LEN_def BBP_VERSION_MAJOR_def
        le16.dec_enc le32.dec_enc)
qed

lemma lookup_tag_absent:
  assumes "\<And>d sz. (d, sz, i) \<notin> set ts"
  shows "lookup_tag b ts i = 0"
proof -
  have "List.find (\<lambda>(d, sz, j). j = i) ts = None"
    using assms by (auto simp: find_None_iff)
  then show ?thesis by (simp add: lookup_tag_def)
qed

text \<open>Sealing and filling in the INFO block do not touch the body of any tag.\<close>

lemma body_disjoint:
  assumes wf: "wf_builder m b ts" and "outside_arena b p n" and t: "(d, sz, i) \<in> set ts"
  shows "span (va b (d + 32)) (sz - 32) \<inter> (span p n \<union> seal_spans b ts) = {}"
proof -
  have ar: "arena_ok m b" and ch: "chain_ok m b ts (unat (b_used b)) 0"
    using wf by (simp_all add: wf_builder_def)
  obtain us vs where ts: "ts = us @ (d, sz, i) # vs"
    using t split_list by metis
  have b: "d + sz \<le> unat (b_used b)" "32 \<le> sz" "unat (b_used b) \<le> unat (b_capacity b)"
    "unat (b_used b) \<le> 2 ^ 48"
    using chain_ok_le [OF ch t] ar by (auto simp: arena_ok_def)
  have "span (va b (d + 32)) (sz - 32) \<inter> span (va b (e + 24)) 8 = {}" if e: "(e, z, j) \<in> set ts" for e z j
  proof -
    have "e + z \<le> d \<or> e = d \<or> d + sz \<le> e"
      using e ts ch chain_ok_le [of m b us d "pa b d" e z j]
        chain_ok_le [of m b vs "unat (b_used b)" 0 e z j]
      by (auto simp: chain_ok_append)
    moreover have "e + 32 \<le> 2 ^ 48" "32 \<le> z"
      using chain_ok_le [OF ch e] b by auto
    ultimately show ?thesis
      using b by (intro span_offsets) auto
  qed
  then have "span (va b (d + 32)) (sz - 32) \<inter> seal_spans b ts = {}"
    by (fastforce simp: seal_spans_def)
  moreover have "span (va b (d + 32)) (sz - 32) \<inter> span p n = {}"
    using b by (intro outside_arena_span [OF assms(2)]) auto
  ultimately show ?thesis by blast
qed

lemma handoff_ok:
  assumes wf: "wf_builder m b ts" and used: "unat (b_used b) \<le> 2 ^ 26 - 144"
    and p: "p \<noteq> 0" "load m p 144 = Some ps" "outside_arena b p 144"
    and see: "unat (b_arena_phys b) + unat h = unat (b_arena b)"
      "unat (b_arena_phys b) + unat (b_capacity b) \<le> 2 ^ 48" "0 < unat (b_capacity b)"
    and h: "h \<noteq> 0 \<or> (\<forall>d sz. (d, sz, BBP_TAG_HHDM) \<notin> set ts)"
  obtains m' k ps' where "bbp_builder_finalize m (Some b) p q = Some (m', Some b, q)"
    "bbp_init_bounded m' (Some o1) p h (b_arena_phys b) (b_capacity b) u = Some (BBP_OK, Some k)"
    "k = init_ctx p h (b_arena_phys b) (b_arena_phys b + b_capacity b)"
    "ctx_mapped m' k" "load m' p 144 = Some ps'" "info_status ps' = BBP_OK"
    "tag_chain m' k = Some (tag_addrs b ts)" "list_all (tag_valid m' k) (tag_addrs b ts)"
    "\<forall>i. bbp_find_tag m' (Some k) i = Some (lookup_tag b ts i)"
    "list_all (\<lambda>(d, sz, i). load m' (va b (d + 32)) (sz - 32) = load m (va b (d + 32)) (sz - 32)) ts"
proof -
  obtain m' ps' where fin: "bbp_builder_finalize m (Some b) p q = Some (m', Some b, q)"
    "wf_builder m' b ts" "\<And>d sz i. (d, sz, i) \<in> set ts \<Longrightarrow> sealed m' b d sz"
    "load m' p 144 = Some ps'" "crc_field_ok ps' 136"
    "slice ps' 0 16 = char_array 16 BBP_INFO_MAGIC" "slice ps' 16 2 = put_le 2 BBP_VERSION_MAJOR"
    "slice ps' 20 4 = put_le 4 (ucast (144 + b_used b) :: u32)"
    "slice ps' 120 8 = put_le 8 (b_first_phys b)"
    "frame m m' (span p 144 \<union> seal_spans b ts)"
    by (rule finalize_ok [OF wf used p, where q = q]) blast
  let ?k = "init_ctx p h (b_arena_phys b) (b_arena_phys b + b_capacity b)"
  have k: "sees_arena ?k b" "info ?k \<noteq> 0" "load m' (info ?k) 144 = Some ps'"
    using see p(1) fin(4) by (simp_all add: sees_arena_def)
  note chain = handoff_chain [OF fin(2,3) k fin(9) see(3)]
  have st: "info_status ps' = BBP_OK"
    by (rule info_status_OK [OF fin(5-8) used])
  have "adopt_hhdm m' ?k (lookup_tag b ts BBP_TAG_HHDM) = Some ?k"
    using h lookup_tag_absent by (auto simp: adopt_hhdm_def)
  then have init: "bbp_init_bounded m' (Some o1) p h (b_arena_phys b) (b_capacity b) u
      = Some (BBP_OK, Some ?k)"
    using see(2,3) fin(2) st chain(4) [where i = BBP_TAG_HHDM] p(1)
    by (simp add: bbp_init_bounded_eq bbp_init_win_eq [OF _ p(1) fin(4)] wf_builder_def arena_ok_def)
  have "same m m' (va b (d + 32)) (sz - 32)" if "(d, sz, i) \<in> set ts" for d sz i
    using body_disjoint [OF wf p(3) that] by (rule frame_same [OF fin(10)])
  then have "list_all (\<lambda>(d, sz, i). load m' (va b (d + 32)) (sz - 32) = load m (va b (d + 32)) (sz - 32)) ts"
    by (fastforce simp: list_all_iff dest: same_load_all)
  then show thesis
    using that [OF fin(1) init refl chain(1) fin(4) st chain(2)] chain(3,4)
    by (simp add: list_all_iff)
qed

text \<open>A concrete session, shared by the witnesses: one command-line tag in a 4 KiB arena at
  10000 (hexadecimal), INFO at 20000, identity mapped.\<close>

abbreviation demo_builder :: bbp_builder where
  "demo_builder \<equiv> fresh_builder 0x10000 0x10000 0x1000"

abbreviation demo_ctx :: bbp_kctx where
  "demo_ctx \<equiv> init_ctx 0x20000 0 0x10000 0x11000"

lemma demo_init:
  obtains m1 where "bbp_builder_init (\<lambda>_. Some 0) (Some (fresh_builder 0 0 0)) 0x10000 0x10000 0x1000
      = Some (m1, Some demo_builder)" "wf_builder m1 demo_builder []" "same_dom (\<lambda>_. Some 0) m1"
  by (rule builder_init_wf [where a = "0x10000" and m = "\<lambda>_. Some 0" and c = "0x1000" and p = "0x10000"
        and ?b0.0 = "fresh_builder 0 0 0"]) (auto simp: mapped_def)

lemma demo_alloc:
  obtains m1 m2 b2 ps where
    "bbp_builder_init (\<lambda>_. Some 0) (Some (fresh_builder 0 0 0)) 0x10000 0x10000 0x1000
      = Some (m1, Some demo_builder)" "wf_builder m1 demo_builder []"
    "bbp_alloc_tag m1 (Some demo_builder) BBP_TAG_CMDLINE 1 56 = Some (m2, Some b2, 0x10000)"
    "wf_builder m2 b2 [(0, 56, BBP_TAG_CMDLINE)]" "b_arena b2 = 0x10000" "b_arena_phys b2 = 0x10000"
    "b_capacity b2 = 0x1000" "unat (b_used b2) = 56" "load m2 0x20000 144 = Some ps"
    "outside_arena b2 0x20000 144"
proof -
  obtain m1 where m1: "bbp_builder_init (\<lambda>_. Some 0) (Some (fresh_builder 0 0 0)) 0x10000 0x10000 0x1000
      = Some (m1, Some demo_builder)" "wf_builder m1 demo_builder []" "same_dom (\<lambda>_. Some 0) m1"
    by (rule demo_init)
  have al: "\<exists>m' b'. bbp_alloc_tag m1 (Some demo_builder) BBP_TAG_CMDLINE 1 56 = Some (m', Some b', va demo_builder 0)"
    by (rule alloc_tag_succeeds [OF m1(2)]) (simp_all add: align8_def)
  obtain m2 b2 where m2: "bbp_alloc_tag m1 (Some demo_builder) BBP_TAG_CMDLINE 1 56 = Some (m2, Some b2, 0x10000)"
      "wf_builder m2 b2 [(0, 56, BBP_TAG_CMDLINE)]" "b_arena b2 = 0x10000" "b_arena_phys b2 = 0x10000"
      "b_capacity b2 = 0x1000" "unat (b_used b2) = 56" "same_dom m1 m2"
    using al by (cases rule: alloc_tag_cases [OF m1(2), of BBP_TAG_CMDLINE 1 56, case_names fail ok])
      (auto simp: align8_def)
  have "mapped m2 0x20000 144"
    using same_dom_mapped [OF same_dom_trans [OF m1(3) m2(7)]] by (simp add: mapped_def)
  then obtain ps where ps: "load m2 0x20000 144 = Some ps"
    using load_ex_iff by blast
  have "disj (0x10000 + of_nat 0x10000) 144 (0x10000 + of_nat 0) 0x1000"
    by (rule disj_offsets) auto
  then have "outside_arena b2 0x20000 144"
    using m2(3,5) by (simp add: outside_arena_def)
  then show thesis
    using that m1 m2 ps by blast
qed

lemma cmdline_not_hhdm: "BBP_TAG_CMDLINE \<noteq> BBP_TAG_HHDM"
  by (simp add: tag_id_defs)

lemma demo_handoff:
  obtains m ps where "ctx_mapped m demo_ctx" "load m 0x20000 144 = Some ps" "info_status ps = BBP_OK"
    "tag_chain m demo_ctx = Some [0x10000]" "tag_valid m demo_ctx 0x10000"
    "bbp_find_tag m (Some demo_ctx) BBP_TAG_CMDLINE = Some 0x10000" "mapped m 0x10000 0x1000"
proof -
  obtain m1 m2 b2 ps where m2: "wf_builder m2 b2 [(0, 56, BBP_TAG_CMDLINE)]" "b_arena b2 = 0x10000"
    "b_arena_phys b2 = 0x10000" "b_capacity b2 = 0x1000" "unat (b_used b2) = 56"
    "load m2 0x20000 144 = Some ps" "outside_arena b2 0x20000 144"
    by (rule demo_alloc)
  obtain m k ps' where k: "k = init_ctx 0x20000 0 (b_arena_phys b2) (b_arena_phys b2 + b_capacity b2)"
    "ctx_mapped m k" "load m 0x20000 144 = Some ps'" "info_status ps' = BBP_OK"
    "tag_chain m k = Some (tag_addrs b2 [(0, 56, BBP_TAG_CMDLINE)])"
    "list_all (tag_valid m k) (tag_addrs b2 [(0, 56, BBP_TAG_CMDLINE)])"
    "\<forall>i. bbp_find_tag m (Some k) i = Some (lookup_tag b2 [(0, 56, BBP_TAG_CMDLINE)] i)"
    by (rule handoff_ok [OF m2(1) _ _ m2(6,7), where h = 0])
      (use m2 cmdline_not_hhdm in auto)
  have "k = demo_ctx"
    using k(1) m2 by simp
  moreover have "mapped m 0x10000 0x1000"
    using k(1,2) m2 by (simp add: ctx_mapped_def window_mapped_def)
  ultimately show thesis
    using that [of m ps'] k m2 by (simp add: tag_addrs_def lookup_tag_def)
qed

section \<open>Properties\<close>

text \<open>C1. The handoff round trip. A builder in a good state whose arena the consumer sees through
  its direct map is finalised successfully; bounded initialisation then accepts the INFO block, the
  walk yields exactly the appended tags in order, each with a valid checksum and an unchanged body,
  and a lookup returns the first appended tag with the identifier. With a zero hint the list must
  hold no HHDM tag, which would replace the offset.\<close>

theorem handoff_roundtrip:
  assumes wf: "wf_builder m b ts" and used: "unat (b_used b) \<le> 2 ^ 26 - 144"
    and p: "p \<noteq> 0" "load m p 144 = Some ps" "outside_arena b p 144"
    and see: "unat (b_arena_phys b) + unat h = unat (b_arena b)"
      "unat (b_arena_phys b) + unat (b_capacity b) \<le> 2 ^ 48" "0 < unat (b_capacity b)"
    and h: "h \<noteq> 0 \<or> (\<forall>d sz. (d, sz, BBP_TAG_HHDM) \<notin> set ts)"
  shows "\<exists>m' k. bbp_builder_finalize m (Some b) p q = Some (m', Some b, q) \<and>
    bbp_init_bounded m' (Some o1) p h (b_arena_phys b) (b_capacity b) u = Some (BBP_OK, Some k) \<and>
    tag_chain m' k = Some (tag_addrs b ts) \<and>
    list_all (tag_valid m' k) (tag_addrs b ts) \<and>
    (\<forall>i. bbp_find_tag m' (Some k) i = Some (lookup_tag b ts i)) \<and>
    list_all (\<lambda>(d, sz, i). load m' (va b (d + 32)) (sz - 32) = load m (va b (d + 32)) (sz - 32)) ts"
proof -
  obtain m' k where "bbp_builder_finalize m (Some b) p q = Some (m', Some b, q)"
    "bbp_init_bounded m' (Some o1) p h (b_arena_phys b) (b_capacity b) u = Some (BBP_OK, Some k)"
    "tag_chain m' k = Some (tag_addrs b ts)" "list_all (tag_valid m' k) (tag_addrs b ts)"
    "\<forall>i. bbp_find_tag m' (Some k) i = Some (lookup_tag b ts i)"
    "list_all (\<lambda>(d, sz, i). load m' (va b (d + 32)) (sz - 32) = load m (va b (d + 32)) (sz - 32)) ts"
    by (rule handoff_ok [OF assms, where q = q and ?o1.0 = o1 and u = u])
  then show ?thesis by blast
qed

theorem handoff_roundtrip_witness:
  "\<exists>m1 b1 m2 b2 t m3 k.
     bbp_builder_init (\<lambda>_. Some 0) (Some (fresh_builder 0 0 0)) 0x10000 0x10000 0x1000 = Some (m1, Some b1) \<and>
     bbp_alloc_tag m1 (Some b1) BBP_TAG_CMDLINE 1 56 = Some (m2, Some b2, t) \<and> t \<noteq> 0 \<and>
     bbp_builder_finalize m2 (Some b2) 0x20000 0x20000 = Some (m3, Some b2, 0x20000) \<and>
     bbp_init_bounded m3 (Some (init_ctx 0 0 0 0)) 0x20000 0 0x10000 0x1000 (init_ctx 0 0 0 0)
       = Some (BBP_OK, Some k) \<and>
     bbp_find_tag m3 (Some k) BBP_TAG_CMDLINE = Some t"
proof -
  obtain m1 m2 b2 ps where m: "bbp_builder_init (\<lambda>_. Some 0) (Some (fresh_builder 0 0 0)) 0x10000 0x10000 0x1000
      = Some (m1, Some demo_builder)"
    "bbp_alloc_tag m1 (Some demo_builder) BBP_TAG_CMDLINE 1 56 = Some (m2, Some b2, 0x10000)"
    "wf_builder m2 b2 [(0, 56, BBP_TAG_CMDLINE)]" "b_arena b2 = 0x10000" "b_arena_phys b2 = 0x10000"
    "b_capacity b2 = 0x1000" "unat (b_used b2) = 56" "load m2 0x20000 144 = Some ps"
    "outside_arena b2 0x20000 144"
    by (rule demo_alloc)
  obtain m3 k where fin: "bbp_builder_finalize m2 (Some b2) 0x20000 0x20000 = Some (m3, Some b2, 0x20000)"
    "bbp_init_bounded m3 (Some (init_ctx 0 0 0 0)) 0x20000 0 0x10000 0x1000 (init_ctx 0 0 0 0)
       = Some (BBP_OK, Some k)"
    "bbp_find_tag m3 (Some k) BBP_TAG_CMDLINE = Some (lookup_tag b2 [(0, 56, BBP_TAG_CMDLINE)] BBP_TAG_CMDLINE)"
    using handoff_roundtrip [OF m(3) _ _ m(8,9), where h = 0 and q = "0x20000"
        and ?o1.0 = "init_ctx 0 0 0 0" and u = "init_ctx 0 0 0 0"] m(4-7) cmdline_not_hhdm
    by auto
  show ?thesis
    using m(1,2,4) fin by (simp add: lookup_tag_def)
qed

text \<open>C23. Allocating a tag under the invariant never faults: it either sets the overflow flag and
  changes nothing else, or appends one aligned tag of the requested size and identifier to the
  chain, with a body that is all zeros, and keeps the invariant.\<close>

theorem alloc_tag_keeps_wf:
  assumes wf: "wf_builder m b ts"
  shows "\<exists>m' b' t. bbp_alloc_tag m (Some b) i v n = Some (m', Some b', t) \<and>
    (if t = 0 then m' = m \<and> b' = b\<lparr>b_overflow := True\<rparr>
     else \<exists>d. t = va b d \<and> wf_builder m' b' (ts @ [(d, unat n, i)]) \<and>
       load m' (va b (d + 32)) (unat n - 32) = Some (replicate (unat n - 32) 0))"
proof (cases rule: alloc_tag_cases [OF wf, of i v n, case_names fail ok])
  case (ok m' b' s)
  have "load m' (va b s + of_nat 32) (unat n - 32) = Some (replicate (unat n - 32) 0)"
    using load_sub [OF ok(12), of 32 "unat n - 32"] ok(10) by simp
  with ok show ?thesis
    by (auto simp: add.assoc)
qed auto

theorem alloc_tag_keeps_wf_witness:
  "\<exists>m. wf_builder m (fresh_builder 0x10000 0x10000 0x1000) [] \<and>
     (\<exists>m' b' t. bbp_alloc_tag m (Some (fresh_builder 0x10000 0x10000 0x1000)) 7 1 40 = Some (m', Some b', t))"
proof -
  obtain m where "wf_builder m (fresh_builder 0x10000 0x10000 0x1000) []"
    by (rule builder_init_wf [where a = "0x10000" and m = "\<lambda>_. Some 0" and c = "0x1000" and p = "0x10000"]) (auto simp: mapped_def)
  with alloc_tag_keeps_wf [OF this, of 7 1 40] show ?thesis
    by blast
qed

section \<open>Witnesses of the consumer's properties\<close>

theorem walk_never_faults_witness:
  "\<exists>m. ctx_mapped m demo_ctx \<and> bbp_find_tag m (Some demo_ctx) BBP_TAG_CMDLINE \<noteq> None \<and>
     bbp_evidence m (Some demo_ctx) (Some (\<lambda>s p. s @ [p])) [] \<noteq> None"
proof -
  obtain m where m: "ctx_mapped m demo_ctx"
    by (rule demo_handoff)
  then show ?thesis
    using walk_never_faults [OF m, of BBP_TAG_CMDLINE "\<lambda>s p. s @ [p]" "[]"] by (intro exI [of _ m]) simp
qed

theorem find_tag_sound_witness:
  "\<exists>m sz ps. ctx_mapped m demo_ctx \<and> bbp_find_tag m (Some demo_ctx) BBP_TAG_CMDLINE = Some 0x10000 \<and>
     ld64 m 0x10000 = Some BBP_TAG_CMDLINE \<and> load m 0x10000 (unat (sz :: u32)) = Some ps \<and>
     crc_field_ok ps 24"
proof -
  obtain m where m: "ctx_mapped m demo_ctx" "bbp_find_tag m (Some demo_ctx) BBP_TAG_CMDLINE = Some 0x10000"
    by (rule demo_handoff)
  then show ?thesis
    using find_tag_sound [OF m] by auto
qed

theorem walk_refines_list_witness:
  "\<exists>m. ctx_mapped m demo_ctx \<and> tag_chain m demo_ctx = Some [0x10000] \<and>
     bbp_for_each_tag m (Some demo_ctx) (Some (\<lambda>t u. Some (False, u + 1))) (0 :: nat) = Some (1, 1)"
proof -
  obtain m where m: "ctx_mapped m demo_ctx" "tag_chain m demo_ctx = Some [0x10000]"
    "tag_valid m demo_ctx 0x10000"
    by (rule demo_handoff)
  obtain ts where ts: "tag_chain m demo_ctx = Some ts"
    "\<forall>cb u. bbp_for_each_tag m (Some demo_ctx) (Some cb) u =
        visit_spec cb (filter (tag_valid m demo_ctx) ts) 0 (u :: nat)"
    using walk_refines_list [OF m(1), where 'u = nat] by blast
  have "bbp_for_each_tag m (Some demo_ctx) (Some (\<lambda>t u. Some (False, u + 1))) (0 :: nat) =
      visit_spec (\<lambda>t u. Some (False, u + 1)) (filter (tag_valid m demo_ctx) ts) 0 0"
    using ts(2) by blast
  also have "\<dots> = Some (1, 1)"
    using ts(1) m(2,3) by auto
  finally show ?thesis
    using m by blast
qed

theorem evidence_stream_witness:
  "\<exists>m ps qs. load m 0x20000 144 = Some ps \<and> tag_bytes m 0x10000 = Some qs \<and>
     bbp_evidence m (Some demo_ctx) (Some (\<lambda>s p. s @ [p])) [] = Some (1, [evidence_domain, ps, qs])"
proof -
  obtain m ps where m: "ctx_mapped m demo_ctx" "load m 0x20000 144 = Some ps"
    "tag_chain m demo_ctx = Some [0x10000]" "tag_valid m demo_ctx 0x10000"
    by (rule demo_handoff)
  obtain p sz where "tag_ok m demo_ctx p 0x10000 sz"
    using tag_chain_mem [OF m(3)] by auto
  then obtain qs where "tag_bytes m 0x10000 = Some qs"
    using m(1) tag_ok_bytes by (metis ctx_mapped_def)
  then show ?thesis
    using evidence_stream [OF m(1,3), of ps] m(2,4) by auto
qed

theorem init_bounded_spec_witness:
  "\<exists>m ps k. load m 0x20000 144 = Some ps \<and> info_status ps = BBP_OK \<and>
     bbp_init_bounded m (Some (init_ctx 0 0 0 0)) 0x20000 0 0x10000 0x1000 (init_ctx 0 0 0 0)
       = Some (BBP_OK, Some k) \<and> walk_hi k = 0x11000"
proof -
  obtain m ps where m: "load m 0x20000 144 = Some ps" "info_status ps = BBP_OK" "mapped m 0x10000 0x1000"
    by (rule demo_handoff)
  then show ?thesis
    using init_bounded_spec [of "0x20000" m ps "0x10000" 0 "0x1000" "init_ctx 0 0 0 0" "init_ctx 0 0 0 0"]
    by auto
qed

text \<open>A kernel header with the right fields and a computed checksum.\<close>

theorem verify_header_ok_iff_witness:
  "\<exists>m. bbp_verify_header m 0x1000 = Some BBP_OK"
proof -
  let ?ps = "char_array 16 ''BEAR_BOOT'' @ put_le 2 (1 :: u16) @ put_le 2 (1 :: u16) @
    put_le 4 (160 :: u32) @ replicate 136 0"
  have len: "length ?ps = 160"
    by (simp add: char_array_def ascii_def)
  obtain m1 where m1: "store (\<lambda>_. Some 0) 0x1000 ?ps = Some m1"
    using store_ok [of "\<lambda>_. Some 0" "0x1000" ?ps] by (auto simp: mapped_def)
  have "load m1 0x1000 (length ?ps) = Some ?ps"
    using len by (intro load_store_same [OF m1]) simp
  then have l1: "load m1 0x1000 160 = Some ?ps"
    unfolding len .
  have "152 + 8 \<le> (160 :: nat)" "(160 :: nat) < 2 ^ 64"
    by simp_all
  then obtain m ps where m: "load m 0x1000 160 = Some ps" "crc_field_ok ps 152" "take 152 ps = take 152 ?ps"
    by (rule seal_range [OF l1]) blast
  have sl: "slice ps e n = slice ?ps e n" if "e + n \<le> 152" for e n
    by (rule slice_take_prefix [OF that m(3)])
  have "take 16 ps = char_array 16 ''BEAR_BOOT''" "take 2 (drop 16 ps) = put_le 2 (1 :: u16)"
    "take 4 (drop 20 ps) = put_le 4 (160 :: u32)"
    using sl [of 0 16] sl [of 16 2] sl [of 20 4] by (simp_all add: slice_def char_array_def ascii_def)
  then show ?thesis
    using verify_header_ok_iff [of "0x1000" m ps] m(1,2) by (auto simp: le16.dec_enc le32.dec_enc)
qed

theorem tag_array_in_bounds_witness:
  "\<exists>m. bbp_tag_array m 0x10000 40 8 100 = Some (0x10028, 2)"
proof -
  obtain m where m: "st32 (\<lambda>_. Some 0) 0x10008 56 = Some m"
    using store_ok [of "\<lambda>_. Some 0" "0x10008" "put_le 4 (56 :: u32)"] by (auto simp: st32_def mapped_def)
  have "ld32 m (0x10000 + 8) = Some 56"
    using load_store_same [of "\<lambda>_. Some 0" "0x10008" "put_le 4 (56 :: u32)" m] m
    by (simp add: st32_def ld32_def le32.dec_enc)
  from tag_array_in_bounds [OF this, of 40 8 100] obtain cnt where
    "bbp_tag_array m 0x10000 40 8 100 = Some (0x10028, cnt)" "unat cnt = 2"
    by auto
  moreover from this(2) have "cnt = 2"
    by (simp add: word_unat_eq_iff)
  ultimately show ?thesis by blast
qed

end
