(* ===== verification/Build_Script.thy ===== *)
theory Build_Script
  imports Handoff
begin

text \<open>
  A producer's session as a sequence of steps: initialise, then allocate tags, append blobs and
  strings, fill in tag bodies, and write elsewhere in memory, in any order. Either an allocation
  has failed, the failure sticks and finalisation refuses, or the builder invariant holds and the
  handoff succeeds.
\<close>

section \<open>Steps\<close>

type_synonym session = "mem \<times> bbp_builder \<times> tag_desc list"

inductive bstep :: "session \<Rightarrow> session \<Rightarrow> bool" where
  tag: "bbp_alloc_tag m (Some b) i v n = Some (m', Some b', t) \<Longrightarrow>
    bstep (m, b, ts) (m', b', if t = 0 then ts else ts @ [(align8 (unat (b_used b)), unat n, i)])"
| blob: "\<lbrakk>data \<noteq> 0; len \<noteq> 0; load m data (unat len) = Some ps; outside_arena b data (unat len);
     bbp_arena_blob m (Some b) data len = Some (m', Some b', p)\<rbrakk> \<Longrightarrow>
    bstep (m, b, ts) (m', b', ts)"
| str: "\<lbrakk>s \<noteq> 0; len \<noteq> 0; load m s (unat len) = Some ps; outside_arena b s (unat len);
     bbp_arena_strdup_n m (Some b) s len = Some (m', Some b', p, n)\<rbrakk> \<Longrightarrow>
    bstep (m, b, ts) (m', b', ts)"
| body: "\<lbrakk>(d, sz, i) \<in> set ts; 32 \<le> e; e + length ps \<le> sz; store m (va b (d + e)) ps = Some m'\<rbrakk> \<Longrightarrow>
    bstep (m, b, ts) (m', b, ts)"
| other: "\<lbrakk>store m a ps = Some m'; outside_arena b a (length ps)\<rbrakk> \<Longrightarrow>
    bstep (m, b, ts) (m', b, ts)"

inductive breach :: "session \<Rightarrow> session \<Rightarrow> bool" where
  breach_refl: "breach x x"
| breach_step: "\<lbrakk>breach x y; bstep y z\<rbrakk> \<Longrightarrow> breach x z"

inductive_cases bstepE: "bstep (m, b, ts) y"

text \<open>The arena a session works on never changes.\<close>

definition same_arena :: "bbp_builder \<Rightarrow> bbp_builder \<Rightarrow> bool" where
  "same_arena b b' \<longleftrightarrow> b_arena b' = b_arena b \<and> b_arena_phys b' = b_arena_phys b \<and>
     b_capacity b' = b_capacity b"

section \<open>Failure sticks\<close>

lemma arena_bump_same_arena: "arena_bump b n = (b', t, p) \<Longrightarrow> same_arena b b'"
  by (auto simp: arena_bump_def Let_def same_arena_def split: if_splits)

lemma arena_bump_overflow: "b_overflow b \<Longrightarrow> arena_bump b n = (b\<lparr>b_overflow := True\<rparr>, 0, 0)"
  by (simp add: arena_bump_def)

lemma alloc_tag_overflow:
  assumes "b_overflow b"
  shows "bbp_alloc_tag m (Some b) i v n = Some (m, Some (b\<lparr>b_overflow := True\<rparr>), 0)"
  using assms by (simp add: bbp_alloc_tag_def arena_bump_overflow)

lemma arena_blob_overflow:
  assumes "b_overflow b" "len \<noteq> 0"
  shows "bbp_arena_blob m (Some b) data len = Some (m, Some (b\<lparr>b_overflow := True\<rparr>), 0)"
  using assms by (simp add: bbp_arena_blob_def arena_bump_overflow)

lemma strdup_n_overflow:
  assumes "b_overflow b" "bbp_arena_strdup_n m (Some b) s len = Some (m', Some b', p, n)"
  shows "m' = m \<and> b' = b\<lparr>b_overflow := True\<rparr> \<and> p = 0"
  using assms
  by (auto simp: bbp_arena_strdup_n_def arena_bump_overflow bind_eq_Some_conv Let_def split: if_splits)

lemma finalize_overflow:
  "b_overflow b \<Longrightarrow> p \<noteq> 0 \<Longrightarrow>
    bbp_builder_finalize m (Some b) p q = Some (m, Some (b\<lparr>b_overflow := True\<rparr>), 0)"
  by (simp add: bbp_builder_finalize_def)

section \<open>Every step keeps the invariant\<close>

definition session_ok :: "session \<Rightarrow> bool" where
  "session_ok = (\<lambda>(m, b, ts). b_overflow b \<or> wf_builder m b ts)"

text \<open>Writing into a body, or outside the arena, is invisible to the invariant.\<close>

lemma wf_builder_write:
  assumes wf: "wf_builder m b ts" and fr: "frame m m' S" and dom: "same_dom m m'"
    and hdrs: "\<And>d sz i. (d, sz, i) \<in> set ts \<Longrightarrow> span (va b d) 24 \<inter> S = {}"
    and tail: "\<And>j. unat (b_used b) \<le> j \<Longrightarrow> j < unat (b_capacity b) \<Longrightarrow> va b j \<notin> S"
  shows "wf_builder m' b ts"
proof -
  have ch: "chain_ok m b ts (unat (b_used b)) 0"
    using wf by (simp add: wf_builder_def)
  have "chain_ok m' b ts (unat (b_used b)) 0"
    using frame_same [OF fr] hdrs by (intro chain_ok_frame [OF ch]) blast
  moreover have "zero_tail m' b"
    using wf tail by (intro zero_tail_frame [OF _ fr]) (auto simp: wf_builder_def)
  moreover have "arena_ok m' b"
    using wf same_dom_mapped [OF dom] by (simp add: wf_builder_def arena_ok_def)
  ultimately show ?thesis
    using wf by (simp add: wf_builder_def)
qed

lemma wf_builder_tag:
  assumes wf: "wf_builder m b ts" and t: "(d, sz, i) \<in> set ts"
    and e: "24 \<le> e" "e + k \<le> sz" and fr: "frame m m' (span (va b (d + e)) k)" and dom: "same_dom m m'"
  shows "wf_builder m' b ts"
proof (rule wf_builder_write [OF wf fr dom])
  have ar: "arena_ok m b" and ch: "chain_ok m b ts (unat (b_used b)) 0"
    using wf by (simp_all add: wf_builder_def)
  have b: "d + sz \<le> unat (b_used b)" "unat (b_used b) \<le> 2 ^ 48"
    using chain_ok_le [OF ch t] ar by (auto simp: arena_ok_def)
  show "span (va b d') 24 \<inter> span (va b (d + e)) k = {}" if d': "(d', sz', i') \<in> set ts"
    for d' sz' i'
  proof -
    obtain us vs where ts: "ts = us @ (d, sz, i) # vs"
      using t split_list by metis
    have "d' + sz' \<le> d \<or> d' = d \<or> d + sz \<le> d'"
      using d' ts ch chain_ok_le [of m b us d "pa b d" d' sz' i']
        chain_ok_le [of m b vs "unat (b_used b)" 0 d' sz' i']
      by (auto simp: chain_ok_append)
    moreover have "d' + 32 \<le> 2 ^ 48" "32 \<le> sz'"
      using chain_ok_le [OF ch d'] b by auto
    ultimately show ?thesis
      using b e by (intro span_offsets) auto
  qed
  show "va b j \<notin> span (va b (d + e)) k" if "unat (b_used b) \<le> j" "j < unat (b_capacity b)" for j
    using that b e unat_u64_less [of "b_capacity b"] by (intro notin_span_offset) auto
qed

lemma wf_builder_body:
  assumes "wf_builder m b ts" "(d, sz, i) \<in> set ts" "32 \<le> e" "e + length ps \<le> sz"
    and "store m (va b (d + e)) ps = Some m'"
  shows "wf_builder m' b ts"
  using assms by (intro wf_builder_tag [OF assms(1,2) _ _ frame_store [OF assms(5)] same_dom_store [OF assms(5)]]) auto

lemma stores_body_wf:
  assumes "wf_builder m b ts" "(d, sz, i) \<in> set ts" "list_all (\<lambda>(e, qs). 32 \<le> e \<and> e + length qs \<le> sz) ws"
    and "stores m (va b d) ws = Some m'"
  shows "wf_builder m' b ts"
  using assms
proof (induction ws arbitrary: m)
  case (Cons w ws)
  obtain e qs where w: "w = (e, qs)" by (cases w)
  then obtain m1 where m1: "store m (va b d + of_nat e) qs = Some m1" "stores m1 (va b d) ws = Some m'"
    using Cons.prems(4) by (auto simp: bind_eq_Some_conv)
  have "wf_builder m1 b ts"
    using Cons.prems(3) w m1(1) by (intro wf_builder_body [OF Cons.prems(1,2)]) (auto simp: add.assoc)
  then show ?case
    using Cons.IH Cons.prems(2,3) m1(2) by simp
qed simp

lemma wf_builder_hdr:
  assumes "wf_builder m b ts" "(d, sz, i) \<in> set ts"
  shows "ld64 m (va b d) = Some i" "ld32 m (va b d + 8) = Some (of_nat sz)" "32 \<le> sz" "sz \<le> 2 ^ 24"
    "d + sz \<le> unat (b_used b)"
proof -
  have ch: "chain_ok m b ts (unat (b_used b)) 0"
    using assms(1) by (simp add: wf_builder_def)
  obtain us vs where "ts = us @ (d, sz, i) # vs"
    using assms(2) split_list by metis
  with ch show "ld64 m (va b d) = Some i" "ld32 m (va b d + 8) = Some (of_nat sz)" "32 \<le> sz" "sz \<le> 2 ^ 24"
    by (auto simp: chain_ok_append hdr_at_def)
  show "d + sz \<le> unat (b_used b)"
    using chain_ok_le [OF ch assms(2)] by simp
qed

text \<open>Sealing a tag of the chain.\<close>

lemma seal_wf:
  assumes wf: "wf_builder m b ts" and t: "(d, sz, i) \<in> set ts" and ld: "load m (va b d) sz = Some ps"
  obtains m' ps' where "bbp_seal_tag m (va b d) = Some m'" "wf_builder m' b ts" "load m' (va b d) sz = Some ps'"
    "crc_field_ok ps' 24" "take 24 ps' = take 24 ps" "drop 32 ps' = drop 32 ps" "frame m m' (span (va b d + 24) 8)"
    "same_dom m m'"
proof -
  note h = wf_builder_hdr [OF wf t]
  obtain m' ps' where m': "bbp_seal_tag m (va b d) = Some m'" "load m' (va b d) sz = Some ps'" "crc_field_ok ps' 24"
    "frame m m' (span (va b d + 24) 8)" "same_dom m m'" "take 24 ps' = take 24 ps" "drop 32 ps' = drop 32 ps"
    by (rule seal_tag_ok [OF ld h(2-4)])
  have "wf_builder m' b ts"
    using m'(4,5) h(3) by (intro wf_builder_tag [OF wf t, of 24 8]) (auto simp: add.assoc)
  then show thesis
    using m' that by blast
qed

lemma wf_builder_outside:
  assumes wf: "wf_builder m b ts" and fr: "frame m m' (span a k)" and dom: "same_dom m m'"
    and out: "outside_arena b a k"
  shows "wf_builder m' b ts"
proof (rule wf_builder_write [OF wf fr dom])
  have ch: "chain_ok m b ts (unat (b_used b)) 0" and cap: "unat (b_used b) \<le> unat (b_capacity b)"
    using wf by (simp_all add: wf_builder_def arena_ok_def)
  show "span (va b d) 24 \<inter> span a k = {}" if "(d, sz, i) \<in> set ts" for d sz i
    using chain_ok_le [OF ch that] cap by (intro outside_arena_span [OF out]) auto
  show "va b j \<notin> span a k" if "unat (b_used b) \<le> j" "j < unat (b_capacity b)" for j
    using outside_arena_span [OF out, of j 1] that by (auto simp: span_def)
qed

lemma wf_builder_other:
  "wf_builder m b ts \<Longrightarrow> store m a ps = Some m' \<Longrightarrow> outside_arena b a (length ps) \<Longrightarrow> wf_builder m' b ts"
  using wf_builder_outside frame_store same_dom_store by blast

lemma bstep_overflow:
  assumes "bstep (m, b, ts) (m', b', ts')" "b_overflow b"
  shows "b_overflow b'"
  using assms
  by (auto elim!: bstepE simp: alloc_tag_overflow arena_blob_overflow dest!: strdup_n_overflow [OF assms(2)])

lemma bstep_wf:
  assumes st: "bstep (m, b, ts) (m', b', ts')" and wf: "wf_builder m b ts"
  shows "session_ok (m', b', ts')"
  using st
proof (cases rule: bstepE [consumes 1, case_names tag blob str body other])
  case (tag i v n m1 b1 t)
  show ?thesis
  proof (cases rule: alloc_tag_cases [OF wf, of i v n, case_names fail ok])
    case fail
    with tag show ?thesis by (auto simp: session_ok_def)
  next
    case (ok m2 b2 s)
    with tag show ?thesis by (simp add: session_ok_def)
  qed
next
  case (blob data len ps m1 b1 p)
  show ?thesis
  proof (cases rule: arena_blob_cases [OF wf blob(2,4,5,3), case_names fail ok])
    case fail
    with blob show ?thesis by (auto simp: session_ok_def)
  next
    case (ok m2 s)
    with blob show ?thesis by (simp add: session_ok_def)
  qed
next
  case (str s len ps m1 b1 p n)
  show ?thesis
  proof (cases rule: bbp_arena_strdup_n_cases [OF wf str(2,4,5,3), case_names fail ok])
    case fail
    with str show ?thesis by (auto simp: session_ok_def)
  next
    case (ok m2 s' cs n')
    with str show ?thesis by (simp add: session_ok_def)
  qed
next
  case (body d sz i e ps m1)
  then show ?thesis
    using wf_builder_body [OF wf, of d sz i e ps m1] by (simp add: session_ok_def)
next
  case (other a ps m1)
  then show ?thesis
    using wf_builder_other [OF wf other(2,3)] by (simp add: session_ok_def)
qed

lemma bstep_ok: "bstep x y \<Longrightarrow> session_ok x \<Longrightarrow> session_ok y"
  using bstep_overflow bstep_wf by (cases x; cases y) (fastforce simp: session_ok_def)

lemma breach_ok: "breach x y \<Longrightarrow> session_ok x \<Longrightarrow> session_ok y"
  by (induction rule: breach.induct) (auto intro: bstep_ok)

lemma alloc_tag_same_arena:
  assumes "bbp_alloc_tag m (Some b) i v n = Some (m', Some b', t)"
  shows "same_arena b b'"
proof -
  obtain b1 t1 p1 where bump: "arena_bump b n = (b1, t1, p1)"
    by (metis prod_cases3)
  then have "same_arena b b1"
    by (rule arena_bump_same_arena)
  with assms bump show ?thesis
    by (auto simp: bbp_alloc_tag_def same_arena_def bind_eq_Some_conv split: if_splits)
qed

lemma arena_blob_same_arena:
  assumes "bbp_arena_blob m (Some b) data len = Some (m', Some b', p)"
  shows "same_arena b b'"
proof -
  obtain b1 t1 p1 where bump: "arena_bump b len = (b1, t1, p1)"
    by (metis prod_cases3)
  then have "same_arena b b1"
    by (rule arena_bump_same_arena)
  with assms bump show ?thesis
    by (auto simp: bbp_arena_blob_def same_arena_def bind_eq_Some_conv split: if_splits)
qed

lemma strdup_n_same_arena:
  assumes "bbp_arena_strdup_n m (Some b) s len = Some (m', Some b', p, n)"
  shows "same_arena b b'"
proof -
  have "same_arena b (fst (arena_bump b x))" for x
    using arena_bump_same_arena [of b x] by (cases "arena_bump b x") auto
  with assms show ?thesis
    by (auto simp: bbp_arena_strdup_n_def same_arena_def bind_eq_Some_conv Let_def case_prod_beta
        split: if_splits)
qed

lemma bstep_same_arena:
  assumes "bstep (m, b, ts) (m', b', ts')"
  shows "same_arena b b'"
  using assms
  by (auto elim!: bstepE dest: alloc_tag_same_arena arena_blob_same_arena strdup_n_same_arena
      simp: same_arena_def [of b b] split: if_splits)

lemma breach_same_arena:
  "breach x y \<Longrightarrow> same_arena (fst (snd x)) (fst (snd y))"
proof (induction rule: breach.induct)
  case (breach_step x y z)
  then show ?case
    using bstep_same_arena by (cases y; cases z) (fastforce simp: same_arena_def)
qed (simp add: same_arena_def)

section \<open>Properties\<close>

text \<open>C6. Any session: after initialisation over a mapped arena at an aligned physical address
  below 256 TiB, whatever sequence of allocations, copies and body writes follows, either an
  allocation overflowed and finalisation returns 0 and changes nothing, or the builder invariant
  holds (tags aligned, disjoint, inside the used part, correctly linked and counted).\<close>

theorem session_invariant:
  assumes a: "a \<noteq> 0" "mapped m a (unat c)" "unat a + unat c < 2 ^ 64"
    and p: "0 < unat phys" "8 dvd unat phys" "unat phys < 2 ^ 48"
  shows "\<exists>m0 b0. bbp_builder_init m (Some u) a phys c = Some (m0, Some b0) \<and>
    (\<forall>m' b ts. breach (m0, b0, []) (m', b, ts) \<longrightarrow>
       same_arena b0 b \<and>
       (if b_overflow b
        then \<forall>ip q. ip \<noteq> 0 \<longrightarrow>
          bbp_builder_finalize m' (Some b) ip q = Some (m', Some (b\<lparr>b_overflow := True\<rparr>), 0)
        else wf_builder m' b ts))"
proof -
  obtain m0 where m0: "bbp_builder_init m (Some u) a phys c = Some (m0, Some (fresh_builder a phys c))"
    "wf_builder m0 (fresh_builder a phys c) []"
    by (rule builder_init_wf [OF a p])
  show ?thesis
  proof (intro exI conjI allI impI)
    fix m' b ts assume r: "breach (m0, fresh_builder a phys c, []) (m', b, ts)"
    show "same_arena (fresh_builder a phys c) b"
      using breach_same_arena [OF r] by simp
    have "session_ok (m', b, ts)"
      using breach_ok [OF r] m0(2) by (simp add: session_ok_def)
    then show "if b_overflow b
        then \<forall>ip q. ip \<noteq> 0 \<longrightarrow>
          bbp_builder_finalize m' (Some b) ip q = Some (m', Some (b\<lparr>b_overflow := True\<rparr>), 0)
        else wf_builder m' b ts"
      by (auto simp: session_ok_def finalize_overflow)
  qed (rule m0(1))
qed

theorem session_invariant_witness:
  "\<exists>m0 b0 m b. bbp_builder_init (\<lambda>_. Some 0) (Some (fresh_builder 0 0 0)) 0x10000 0x10000 0x1000
       = Some (m0, Some b0) \<and>
     bbp_alloc_tag m0 (Some b0) BBP_TAG_CMDLINE 1 56 = Some (m, Some b, 0x10000) \<and>
     same_arena b0 b \<and> wf_builder m b [(0, 56, BBP_TAG_CMDLINE)]"
proof -
  obtain m1 m2 b2 where m: "bbp_builder_init (\<lambda>_. Some 0) (Some (fresh_builder 0 0 0)) 0x10000 0x10000 0x1000
      = Some (m1, Some demo_builder)"
    "bbp_alloc_tag m1 (Some demo_builder) BBP_TAG_CMDLINE 1 56 = Some (m2, Some b2, 0x10000)"
    "wf_builder m2 b2 [(0, 56, BBP_TAG_CMDLINE)]"
    by (rule demo_alloc)
  have "breach (m1, demo_builder, []) (m2, b2, [(0, 56, BBP_TAG_CMDLINE)])"
    using breach_step [OF breach_refl bstep.tag [OF m(2), of "[]"]] by (simp add: align8_def)
  moreover have "mapped (\<lambda>_. Some 0) 0x10000 (unat (0x1000 :: u64))"
    by (simp add: mapped_def)
  ultimately have "same_arena demo_builder b2"
    using session_invariant [of "0x10000" "\<lambda>_. Some 0" "0x1000" "0x10000" "fresh_builder 0 0 0"] m(1)
    by fastforce
  then show ?thesis
    using m by blast
qed

end
