(* ===== verification/Import.thy ===== *)
theory Import
  imports Utf8 Build_Script
begin

text \<open>
  The shared support of the boot-source importers, \<open>bootloader/bbp_import.c\<close> and \<open>bbp_import.h\<close>: range
  checks, the exact capacity plan of a builder, string and framebuffer validation. The plan functions
  take the builder by const pointer; a NULL pointer is \<^term>\<open>None\<close>.
\<close>

section \<open>Model\<close>

definition BBP_IMPORT_MAX_TAG_SIZE :: u64 where "BBP_IMPORT_MAX_TAG_SIZE = 16 * 1024 * 1024"
definition BBP_IMPORT_MAX_PHYS :: u64 where "BBP_IMPORT_MAX_PHYS = push_bit 48 1"
definition BBP_IMPORT_MAX_TAGS :: u32 where "BBP_IMPORT_MAX_TAGS = 1024"
definition BBP_IMPORT_MAX_ARENA :: u64 where
  "BBP_IMPORT_MAX_ARENA = 64 * 1024 * 1024 - sizeof struct_bbp_info"
definition BBP_IMPORT_SIZE_MAX :: u64 where "BBP_IMPORT_SIZE_MAX = - 1"
definition BBP_IMPORT_U16_MAX :: u16 where "BBP_IMPORT_U16_MAX = - 1"
definition BBP_IMPORT_U32_MAX :: u32 where "BBP_IMPORT_U32_MAX = - 1"
definition BBP_IMPORT_U64_MAX :: u64 where "BBP_IMPORT_U64_MAX = - 1"
definition BBP_IMPORT_UINTPTR_MAX :: u64 where "BBP_IMPORT_UINTPTR_MAX = - 1"

lemmas import_consts = BBP_IMPORT_MAX_TAG_SIZE_def BBP_IMPORT_MAX_PHYS_def BBP_IMPORT_MAX_TAGS_def
  BBP_IMPORT_MAX_ARENA_def BBP_IMPORT_SIZE_MAX_def BBP_IMPORT_U16_MAX_def BBP_IMPORT_U32_MAX_def
  BBP_IMPORT_U64_MAX_def BBP_IMPORT_UINTPTR_MAX_def

datatype bbp_import_status =
    BBP_IMPORT_OK
  | BBP_IMPORT_ERR_NULL
  | BBP_IMPORT_ERR_FLAGS
  | BBP_IMPORT_ERR_BUILDER
  | BBP_IMPORT_ERR_CAPACITY
  | BBP_IMPORT_ERR_COUNT
  | BBP_IMPORT_ERR_OVERFLOW
  | BBP_IMPORT_ERR_RANGE
  | BBP_IMPORT_ERR_FRAMING
  | BBP_IMPORT_ERR_DUPLICATE
  | BBP_IMPORT_ERR_STRING
  | BBP_IMPORT_ERR_UNSUPPORTED
  | BBP_IMPORT_ERR_NON_FINAL

record bbp_import_string =
  is_data :: u64
  is_bytes :: u64

record bbp_import_framebuffer =
  fb_address :: u64
  fb_total_size :: u64
  fb_width :: u32
  fb_height :: u32
  fb_pitch :: u32
  fb_pixel_format :: u32
  fb_color_depth :: u16
  fb_flags :: u16

record bbp_import_plan =
  ip_used :: u64
  ip_tag_count :: u32

definition add_size :: "u64 \<Rightarrow> u64 \<Rightarrow> u64 option" where
  "add_size left right = (if right > BBP_IMPORT_SIZE_MAX - left then None else Some (left + right))"

definition import_align8 :: "u64 \<Rightarrow> u64 option" where
  "import_align8 value = (if value > BBP_IMPORT_SIZE_MAX - 7 then None else Some ((value + 7) AND NOT 7))"

fun bbp_import_memcpy :: "mem \<Rightarrow> u64 \<Rightarrow> u64 \<Rightarrow> nat \<Rightarrow> mem option" where
  "bbp_import_memcpy m d s 0 = Some m"
| "bbp_import_memcpy m d s (Suc bytes) =
     do { v \<leftarrow> m s; m \<leftarrow> store m d [v]; bbp_import_memcpy m (d + 1) (s + 1) bytes }"

fun bbp_import_memzero :: "mem \<Rightarrow> u64 \<Rightarrow> nat \<Rightarrow> mem option" where
  "bbp_import_memzero m d 0 = Some m"
| "bbp_import_memzero m d (Suc bytes) = do { m \<leftarrow> store m d [0]; bbp_import_memzero m (d + 1) bytes }"

definition bbp_import_phys_address_valid :: "u64 \<Rightarrow> bool \<Rightarrow> bool" where
  "bbp_import_phys_address_valid address allow_zero \<longleftrightarrow>
     (allow_zero \<or> address \<noteq> 0) \<and> address < BBP_IMPORT_MAX_PHYS"

definition bbp_import_phys_range_valid :: "u64 \<Rightarrow> u64 \<Rightarrow> bool" where
  "bbp_import_phys_range_valid base len \<longleftrightarrow>
     len \<noteq> 0 \<and> base < BBP_IMPORT_MAX_PHYS \<and> len \<le> BBP_IMPORT_MAX_PHYS - base"

definition bbp_import_ranges_overlap :: "u64 \<Rightarrow> u64 \<Rightarrow> u64 \<Rightarrow> u64 \<Rightarrow> bool" where
  "bbp_import_ranges_overlap a left_bytes b right_bytes \<longleftrightarrow>
     (if left_bytes > BBP_IMPORT_UINTPTR_MAX - a \<or> right_bytes > BBP_IMPORT_UINTPTR_MAX - b then True
      else a < b + right_bytes \<and> b < a + left_bytes)"

text \<open>The checks on an existing chain; the last tag's \<open>next_tag\<close> is read from memory.\<close>

definition plan_chain_bad :: "mem \<Rightarrow> bbp_builder \<Rightarrow> bool option" where
  "plan_chain_bad m b =
     (if b_tag_count b = 0 then Some (b_last b \<noteq> 0 \<or> b_first_phys b \<noteq> 0)
      else if b_last b = 0 \<or> b_first_phys b = 0 \<or> b_first_phys b AND 7 \<noteq> 0
        \<or> b_first_phys b < b_arena_phys b
        \<or> b_first_phys b - b_arena_phys b \<ge> b_used b
        \<or> b_last b < b_arena b \<or> b_last b AND 7 \<noteq> 0
        \<or> b_last b - b_arena b > b_used b
        \<or> sizeof struct_bbp_tag_header > b_used b - (b_last b - b_arena b)
      then Some True
      else do { nx \<leftarrow> ld64 m (b_last b + off struct_bbp_tag_header ''next_tag''); Some (nx \<noteq> 0) })"

definition bbp_import_plan_begin ::
  "mem \<Rightarrow> bbp_builder option \<Rightarrow> bbp_import_plan option \<Rightarrow> (bbp_import_status \<times> bbp_import_plan option) option" where
  "bbp_import_plan_begin m builder plan =
     (case (builder, plan) of
        (Some b, Some p) \<Rightarrow>
          if b_arena b = 0 \<or> b_overflow b \<or> b_used b > b_capacity b
            \<or> b_used b > BBP_IMPORT_MAX_ARENA \<or> b_tag_count b > BBP_IMPORT_MAX_TAGS
            \<or> b_arena_phys b = 0 \<or> b_arena_phys b AND 7 \<noteq> 0 \<or> b_arena b AND 7 \<noteq> 0
            \<or> b_capacity b > BBP_IMPORT_UINTPTR_MAX - b_arena b
          then Some (BBP_IMPORT_ERR_BUILDER, plan)
          else if b_arena_phys b \<ge> BBP_IMPORT_MAX_PHYS \<or> b_capacity b > BBP_IMPORT_MAX_PHYS - b_arena_phys b
          then Some (BBP_IMPORT_ERR_BUILDER, plan)
          else do {
            bad \<leftarrow> plan_chain_bad m b;
            if bad then Some (BBP_IMPORT_ERR_BUILDER, plan)
            else Some (BBP_IMPORT_OK, Some (p\<lparr>ip_used := b_used b, ip_tag_count := b_tag_count b\<rparr>))
          }
      | _ \<Rightarrow> Some (BBP_IMPORT_ERR_NULL, plan))"

definition plan_allocation :: "bbp_builder \<Rightarrow> bbp_import_plan \<Rightarrow> u64 \<Rightarrow> bbp_import_status \<times> bbp_import_plan" where
  "plan_allocation b plan bytes =
     (case import_align8 (ip_used plan) of
        None \<Rightarrow> (BBP_IMPORT_ERR_OVERFLOW, plan)
      | Some start \<Rightarrow>
          (case add_size start bytes of
             None \<Rightarrow> (BBP_IMPORT_ERR_OVERFLOW, plan)
           | Some fin \<Rightarrow>
               if fin > b_capacity b \<or> fin > BBP_IMPORT_MAX_ARENA then (BBP_IMPORT_ERR_CAPACITY, plan)
               else if fin > BBP_IMPORT_U64_MAX - b_arena_phys b then (BBP_IMPORT_ERR_OVERFLOW, plan)
               else (BBP_IMPORT_OK, plan\<lparr>ip_used := fin\<rparr>)))"

definition bbp_import_plan_tag :: "bbp_builder \<Rightarrow> bbp_import_plan \<Rightarrow> u64 \<Rightarrow> bbp_import_status \<times> bbp_import_plan" where
  "bbp_import_plan_tag b plan bytes =
     (if bytes < sizeof struct_bbp_tag_header \<or> bytes > BBP_IMPORT_MAX_TAG_SIZE \<or> bytes > ucast BBP_IMPORT_U32_MAX
      then (BBP_IMPORT_ERR_COUNT, plan)
      else if ip_tag_count plan \<ge> BBP_IMPORT_MAX_TAGS then (BBP_IMPORT_ERR_COUNT, plan)
      else case plan_allocation b plan bytes of
        (status, plan) \<Rightarrow>
          (status, if status = BBP_IMPORT_OK then plan\<lparr>ip_tag_count := ip_tag_count plan + 1\<rparr> else plan))"

definition bbp_import_plan_blob :: "bbp_builder \<Rightarrow> bbp_import_plan \<Rightarrow> u64 \<Rightarrow> bbp_import_status \<times> bbp_import_plan" where
  "bbp_import_plan_blob b plan bytes =
     (if bytes = 0 then (BBP_IMPORT_ERR_RANGE, plan) else plan_allocation b plan bytes)"

text \<open>The status and the value of \<open>*out\<close> after the call; a NULL \<open>out\<close> is \<^term>\<open>None\<close>.\<close>

definition bbp_import_array_tag_size :: "u64 \<Rightarrow> u64 \<Rightarrow> u64 \<Rightarrow> u64 option \<Rightarrow> bbp_import_status \<times> u64 option" where
  "bbp_import_array_tag_size fixed count element out =
     (if out = None then (BBP_IMPORT_ERR_NULL, out)
      else if count > ucast BBP_IMPORT_U32_MAX \<or> element = 0 then (BBP_IMPORT_ERR_COUNT, out)
      else if count > BBP_IMPORT_SIZE_MAX then (BBP_IMPORT_ERR_COUNT, out)
      else if count > (BBP_IMPORT_SIZE_MAX - fixed) div element then (BBP_IMPORT_ERR_OVERFLOW, out)
      else let payload = count * element; total = fixed + payload in
        if total > BBP_IMPORT_MAX_TAG_SIZE \<or> total > ucast BBP_IMPORT_U32_MAX
        then (BBP_IMPORT_ERR_COUNT, Some total)
        else (BBP_IMPORT_OK, Some total))"

definition bbp_import_validate_string :: "mem \<Rightarrow> bbp_import_string \<Rightarrow> bbp_import_status option" where
  "bbp_import_validate_string m string =
     (if is_data string = 0 \<or> is_bytes string = 0 then Some BBP_IMPORT_ERR_STRING
      else if is_bytes string > ucast BBP_IMPORT_U32_MAX then Some BBP_IMPORT_ERR_COUNT
      else do {
        last_byte \<leftarrow> m (is_data string + (is_bytes string - 1));
        if last_byte \<noteq> 0 then Some BBP_IMPORT_ERR_STRING
        else do {
          valid \<leftarrow> scan_string m (is_data string) (is_bytes string - 1) 0;
          Some (if valid then BBP_IMPORT_OK else BBP_IMPORT_ERR_STRING)
        }
      })"

definition BBP_FB_FLAG_DOUBLE_BUFFERED :: u32 where "BBP_FB_FLAG_DOUBLE_BUFFERED = 1"
definition BBP_FB_FLAG_ROTATED_90 :: u32 where "BBP_FB_FLAG_ROTATED_90 = 2"
definition BBP_FB_FLAG_ROTATED_180 :: u32 where "BBP_FB_FLAG_ROTATED_180 = 4"
definition BBP_FB_FLAG_ROTATED_270 :: u32 where "BBP_FB_FLAG_ROTATED_270 = 8"

lemmas fb_consts = BBP_FB_FLAG_DOUBLE_BUFFERED_def BBP_FB_FLAG_ROTATED_90_def BBP_FB_FLAG_ROTATED_180_def
  BBP_FB_FLAG_ROTATED_270_def BBP_FB_RGB888_def BBP_FB_RGBA8888_def BBP_FB_BGRA8888_def BBP_FB_RGB565_def
  BBP_FB_RGBA1010102_def BBP_FB_RGBX_FP16_def

text \<open>The switch on the pixel format: bytes per pixel and the depth each channel must have.\<close>

definition fb_format :: "u32 \<Rightarrow> (u32 \<times> u16) option" where
  "fb_format pixel_format =
     (if pixel_format = BBP_FB_RGB888 then Some (3, 8)
      else if pixel_format = BBP_FB_RGBA8888 \<or> pixel_format = BBP_FB_BGRA8888 then Some (4, 8)
      else if pixel_format = BBP_FB_RGB565 then Some (2, 5)
      else if pixel_format = BBP_FB_RGBA1010102 then Some (4, 10)
      else if pixel_format = BBP_FB_RGBX_FP16 then Some (8, 16)
      else None)"

definition fb_flags_bad :: "u16 \<Rightarrow> bool" where
  "fb_flags_bad flags \<longleftrightarrow>
     (ucast flags :: u32) AND NOT (((BBP_FB_FLAG_DOUBLE_BUFFERED OR BBP_FB_FLAG_ROTATED_90) OR BBP_FB_FLAG_ROTATED_180)
        OR BBP_FB_FLAG_ROTATED_270) \<noteq> 0 \<or>
     (let rotation = ucast ((ucast flags :: u32) AND ((BBP_FB_FLAG_ROTATED_90 OR BBP_FB_FLAG_ROTATED_180)
        OR BBP_FB_FLAG_ROTATED_270)) :: u16 in
      rotation \<noteq> 0 \<and> rotation AND (rotation - 1) \<noteq> 0)"

definition bbp_import_validate_framebuffer :: "bbp_import_framebuffer option \<Rightarrow> bbp_import_status" where
  "bbp_import_validate_framebuffer framebuffer =
     (case framebuffer of
        None \<Rightarrow> BBP_IMPORT_ERR_NULL
      | Some fb \<Rightarrow>
          (case fb_format (fb_pixel_format fb) of
             None \<Rightarrow> BBP_IMPORT_ERR_UNSUPPORTED
           | Some (bytes_per_pixel, depth) \<Rightarrow>
               if fb_color_depth fb \<noteq> depth then BBP_IMPORT_ERR_UNSUPPORTED
               else if fb_width fb = 0 \<or> fb_width fb > ucast BBP_IMPORT_U16_MAX
                 \<or> fb_height fb = 0 \<or> fb_height fb > ucast BBP_IMPORT_U16_MAX then BBP_IMPORT_ERR_RANGE
               else let row_bytes = ucast (fb_width fb) * ucast bytes_per_pixel :: u64 in
                 if ucast (fb_pitch fb) < row_bytes then BBP_IMPORT_ERR_RANGE
                 else let required = ucast (fb_pitch fb) * ucast (fb_height fb) :: u64 in
                   if fb_total_size fb < required
                     \<or> \<not> bbp_import_phys_range_valid (fb_address fb) (fb_total_size fb) then BBP_IMPORT_ERR_RANGE
                   else if fb_flags_bad (fb_flags fb) then BBP_IMPORT_ERR_FLAGS
                   else BBP_IMPORT_OK))"

fun bbp_import_strstatus :: "bbp_import_status \<Rightarrow> string" where
  "bbp_import_strstatus BBP_IMPORT_OK = ''ok''"
| "bbp_import_strstatus BBP_IMPORT_ERR_NULL = ''null input''"
| "bbp_import_strstatus BBP_IMPORT_ERR_FLAGS = ''invalid presence or option flags''"
| "bbp_import_strstatus BBP_IMPORT_ERR_BUILDER = ''invalid builder state''"
| "bbp_import_strstatus BBP_IMPORT_ERR_CAPACITY = ''insufficient builder arena''"
| "bbp_import_strstatus BBP_IMPORT_ERR_COUNT = ''count or object exceeds protocol limit''"
| "bbp_import_strstatus BBP_IMPORT_ERR_OVERFLOW = ''integer overflow''"
| "bbp_import_strstatus BBP_IMPORT_ERR_RANGE = ''invalid address or range''"
| "bbp_import_strstatus BBP_IMPORT_ERR_FRAMING = ''malformed source framing''"
| "bbp_import_strstatus BBP_IMPORT_ERR_DUPLICATE = ''duplicate singleton or identifier''"
| "bbp_import_strstatus BBP_IMPORT_ERR_STRING = ''unterminated or invalid UTF-8 string''"
| "bbp_import_strstatus BBP_IMPORT_ERR_UNSUPPORTED = ''unsupported source value''"
| "bbp_import_strstatus BBP_IMPORT_ERR_NON_FINAL = ''UEFI memory map is not final''"

section \<open>Properties\<close>

text \<open>C39. String validation is strict UTF-8: a mapped string is accepted exactly when it has at most 2 to the
  32 minus 1 bytes, ends in NUL, and what precedes the NUL is the encoding of a sequence of Unicode scalar
  values other than NUL. The routine never reads outside the string and always returns.\<close>

theorem validate_string_iff:
  assumes "is_data s \<noteq> 0" "load m (is_data s) (unat (is_bytes s)) = Some ps"
  shows "\<exists>status. bbp_import_validate_string m s = Some status \<and>
    (status = BBP_IMPORT_OK \<longleftrightarrow>
       (\<exists>cs. length ps < 2 ^ 32 \<and> list_all scalar cs \<and> ps = concat (map utf8_encode cs) @ [0]))"
proof -
  let ?n = "is_bytes s"
  have len: "length ps = unat ?n" using assms load_length by blast
  have u32: "?n > ucast BBP_IMPORT_U32_MAX \<longleftrightarrow> \<not> unat ?n < 2 ^ 32"
    by (simp add: BBP_IMPORT_U32_MAX_def word_less_nat_alt unat_ucast_u32 unsigned_minus_1_eq_mask mask_eq_exp_minus_1) linarith
  show ?thesis
  proof (cases "?n = 0 \<or> ?n > ucast BBP_IMPORT_U32_MAX")
    case True
    then show ?thesis using len u32 by (auto simp: bbp_import_validate_string_def)
  next
    case False
    then have pos: "1 \<le> unat ?n" and lim: "unat ?n < 2 ^ 32" using u32 by (auto simp: Suc_le_eq unat_gt_0)
    then have n: "unat ?n = Suc (unat (?n - 1))" "unat ?n < 2 ^ 32"
      by (simp_all add: unat_diff_u64 word_le_nat_alt)
    let ?k = "unat (?n - 1)"
    have ps: "ps = take ?k ps @ [ps ! ?k]" using len n by (metis lessI take_Suc_conv_app_nth take_all_iff le_refl)
    have last: "m (is_data s + (?n - 1)) = Some (ps ! ?k)"
      using assms(2) n by (simp add: load_eq_Some_iff) (metis lessI of_nat_unat_u64)
    have "load m (is_data s) ?k = Some (take ?k ps)" using load_sub [OF assms(2), of 0 ?k] n by simp
    then have scan: "scan_string m (is_data s) (?n - 1) 0 = Some (utf8 (take ?k ps))"
      using scan_string_eq [of m "is_data s" "?n - 1"] by simp
    have "(\<exists>cs. list_all scalar cs \<and> ps = concat (map utf8_encode cs) @ [0]) \<longleftrightarrow> ps ! ?k = 0 \<and> utf8 (take ?k ps)"
      unfolding utf8_def by (subst ps) auto
    then show ?thesis using False assms(1) last scan n len
      by (auto simp: bbp_import_validate_string_def)
  qed
qed

section \<open>A complete plan cannot fail\<close>

text \<open>A sequence of fallible steps.\<close>

fun run :: "('s \<Rightarrow> 'r \<Rightarrow> 's option) \<Rightarrow> 's \<Rightarrow> 'r list \<Rightarrow> 's option" where
  "run f s [] = Some s"
| "run f s (r # rs) = do { s \<leftarrow> f s r; run f s rs }"

text \<open>The contract between a planner and the operations it plans: whatever the planner grants, the
  operation performs, and the plan keeps track of the state.\<close>

locale planned_allocation =
  fixes plan :: "'p \<Rightarrow> 'r \<Rightarrow> 'p option"
    and perform :: "'s \<Rightarrow> 'r \<Rightarrow> 's option"
    and tracks :: "'p \<Rightarrow> 's \<Rightarrow> bool"
    and admissible :: "'r \<Rightarrow> bool"
  assumes granted: "tracks p s \<Longrightarrow> admissible r \<Longrightarrow> plan p r = Some p' \<Longrightarrow> \<exists>s'. perform s r = Some s' \<and> tracks p' s'"
begin

lemma planned_run:
  "tracks p s \<Longrightarrow> list_all admissible rs \<Longrightarrow> run plan p rs = Some p' \<Longrightarrow> \<exists>s'. run perform s rs = Some s' \<and> tracks p' s'"
proof (induction rs arbitrary: p s)
  case (Cons r rs)
  then obtain q where "plan p r = Some q" "run plan q rs = Some p'" by (auto simp: bind_eq_Some_conv)
  moreover from this obtain t where "perform s r = Some t" "tracks q t" using granted [of p s r q] Cons.prems by auto
  ultimately show ?case using Cons.IH [of q t] Cons.prems by auto
qed simp

end

text \<open>What an importer asks of the builder: a tag of a size, or a copy of bytes.\<close>

datatype request = Tag u64 u16 u64 | Blob u64 u64

definition plan_request :: "bbp_builder \<Rightarrow> bbp_import_plan \<Rightarrow> request \<Rightarrow> bbp_import_plan option" where
  "plan_request b p r =
     (case (case r of Tag i v n \<Rightarrow> bbp_import_plan_tag b p n | Blob data len \<Rightarrow> bbp_import_plan_blob b p len) of
        (status, p') \<Rightarrow> if status = BBP_IMPORT_OK then Some p' else None)"

definition perform_request :: "mem \<times> bbp_builder \<Rightarrow> request \<Rightarrow> (mem \<times> bbp_builder) option" where
  "perform_request s r =
     (case s of (m, b) \<Rightarrow>
        do {
          (m, b, p) \<leftarrow> (case r of Tag i v n \<Rightarrow> bbp_alloc_tag m (Some b) i v n
                        | Blob data len \<Rightarrow> bbp_arena_blob m (Some b) data len);
          b \<leftarrow> b;
          if p = 0 then None else Some (m, b)
        })"

definition plan_tracks :: "mem \<Rightarrow> bbp_builder \<Rightarrow> bbp_import_plan \<Rightarrow> mem \<times> bbp_builder \<Rightarrow> bool" where
  "plan_tracks m0 b0 p s \<longleftrightarrow> (case s of (m, b) \<Rightarrow>
     (\<exists>ts. wf_builder m b ts) \<and> same_arena b0 b \<and> same_dom m0 m \<and>
     unat (b_arena_phys b0) + unat (b_capacity b0) \<le> 2 ^ 48 \<and>
     ip_used p = b_used b \<and> ip_tag_count p = b_tag_count b)"

definition request_ok :: "mem \<Rightarrow> bbp_builder \<Rightarrow> request \<Rightarrow> bool" where
  "request_ok m0 b0 r \<longleftrightarrow> (case r of Tag i v n \<Rightarrow> True
     | Blob data len \<Rightarrow> data \<noteq> 0 \<and> mapped m0 data (unat len) \<and> outside_arena b0 data (unat len))"

lemma max_arena: "unat BBP_IMPORT_MAX_ARENA = 64 * 1024 * 1024 - 144"
  by (simp add: BBP_IMPORT_MAX_ARENA_def)

lemma plan_allocation_ok:
  assumes "plan_allocation b p n = (BBP_IMPORT_OK, p')" "unat (ip_used p) \<le> 2 ^ 48"
  shows "p' = p\<lparr>ip_used := of_nat (align8 (unat (ip_used p)) + unat n)\<rparr>"
    "align8 (unat (ip_used p)) + unat n \<le> unat (b_capacity b)"
proof -
  define s where "s = (ip_used p + 7) AND NOT 7"
  have s: "unat s = align8 (unat (ip_used p))"
    unfolding s_def unat_and_not_7 align8_def using assms(2) by (subst unat_add_u64) auto
  have al: "import_align8 (ip_used p) = None \<or> import_align8 (ip_used p) = Some s"
    by (simp add: import_align8_def s_def)
  have ad: "add_size s n = None \<or> add_size s n = Some (s + n) \<and> unat (s + n) = unat s + unat n"
  proof (cases "n > - 1 - s")
    case False
    then have "unat s + unat n < 2 ^ 64" using unat_le_max_minus [of s n] by (simp add: not_less)
    then show ?thesis using False by (simp add: add_size_def BBP_IMPORT_SIZE_MAX_def unat_add_u64)
  qed (simp add: add_size_def BBP_IMPORT_SIZE_MAX_def)
  have "p' = p\<lparr>ip_used := s + n\<rparr> \<and> unat (s + n) = unat s + unat n \<and> unat (s + n) \<le> unat (b_capacity b)"
    using assms(1) al ad unfolding plan_allocation_def
    by (auto simp: not_less word_le_nat_alt split: option.splits if_splits)
  moreover from this have "s + n = of_nat (unat s + unat n)" by (metis of_nat_unat_u64)
  ultimately show "p' = p\<lparr>ip_used := of_nat (align8 (unat (ip_used p)) + unat n)\<rparr>"
    "align8 (unat (ip_used p)) + unat n \<le> unat (b_capacity b)" using s by simp_all
qed

text \<open>What a granted request says about the builder the plan tracks.\<close>

definition plan_at :: "bbp_builder \<Rightarrow> bbp_import_plan \<Rightarrow> mem \<Rightarrow> bbp_builder \<Rightarrow> tag_desc list \<Rightarrow> bool" where
  "plan_at b0 p m b ts \<longleftrightarrow> wf_builder m b ts \<and> same_arena b0 b \<and>
     unat (b_arena_phys b0) + unat (b_capacity b0) \<le> 2 ^ 48 \<and>
     ip_used p = b_used b \<and> ip_tag_count p = b_tag_count b"

lemma plan_at_used: "plan_at b0 p m b ts \<Longrightarrow> unat (ip_used p) \<le> 2 ^ 48"
  by (auto simp: plan_at_def wf_builder_def arena_ok_def)

lemma plan_tag_fits:
  assumes at: "plan_at b0 p m b ts" and pl: "bbp_import_plan_tag b0 p n = (BBP_IMPORT_OK, p')"
    and s: "s = align8 (unat (b_used b))"
  shows "32 \<le> unat n" "unat n \<le> 2 ^ 24" "length ts < 1024" "s + unat n \<le> unat (b_capacity b)"
    "unat (b_arena_phys b) + s + unat n \<le> 2 ^ 48"
    "p' = p\<lparr>ip_used := of_nat (s + unat n), ip_tag_count := ip_tag_count p + 1\<rparr>"
proof -
  have us: "ip_used p = b_used b" and cap: "b_capacity b0 = b_capacity b"
    and lim: "unat (b_arena_phys b) + unat (b_capacity b) \<le> 2 ^ 48"
    using at by (simp_all add: plan_at_def same_arena_def)
  obtain q where q: "plan_allocation b0 p n = (BBP_IMPORT_OK, q)" "p' = q\<lparr>ip_tag_count := ip_tag_count q + 1\<rparr>"
    and n: "32 \<le> unat n" "unat n \<le> 2 ^ 24" and lt: "ip_tag_count p < 1024"
    using pl by (auto simp: bbp_import_plan_tag_def import_consts word_less_nat_alt word_le_nat_alt not_less not_le
        split: if_splits prod.splits)
  note al = plan_allocation_ok [OF q(1) plan_at_used [OF at], unfolded cap us, folded s]
  have "b_tag_count b = of_nat (length ts)" "length ts \<le> 1024" "ip_tag_count p = b_tag_count b"
    using at by (simp_all add: plan_at_def wf_builder_def)
  then show "length ts < 1024" using lt by (simp add: word_less_nat_alt unat_of_nat_u32)
  show "32 \<le> unat n" "unat n \<le> 2 ^ 24" "s + unat n \<le> unat (b_capacity b)"
    "unat (b_arena_phys b) + s + unat n \<le> 2 ^ 48"
    "p' = p\<lparr>ip_used := of_nat (s + unat n), ip_tag_count := ip_tag_count p + 1\<rparr>"
    using n al lim q(2) by simp_all
qed

lemma plan_blob_fits:
  assumes at: "plan_at b0 p m b ts" and pl: "bbp_import_plan_blob b0 p n = (BBP_IMPORT_OK, p')"
    and s: "s = align8 (unat (b_used b))"
  shows "n \<noteq> 0" "s + unat n \<le> unat (b_capacity b)" "unat (b_arena_phys b) + s + unat n \<le> 2 ^ 48"
    "p' = p\<lparr>ip_used := of_nat (s + unat n)\<rparr>"
proof -
  have us: "ip_used p = b_used b" and cap: "b_capacity b0 = b_capacity b"
    and lim: "unat (b_arena_phys b) + unat (b_capacity b) \<le> 2 ^ 48"
    using at by (simp_all add: plan_at_def same_arena_def)
  have q: "plan_allocation b0 p n = (BBP_IMPORT_OK, p')" "n \<noteq> 0"
    using pl by (auto simp: bbp_import_plan_blob_def split: if_splits)
  note al = plan_allocation_ok [OF q(1) plan_at_used [OF at], unfolded cap us, folded s]
  show "n \<noteq> 0" "s + unat n \<le> unat (b_capacity b)" "unat (b_arena_phys b) + s + unat n \<le> 2 ^ 48"
    "p' = p\<lparr>ip_used := of_nat (s + unat n)\<rparr>"
    using q(2) al lim by simp_all
qed

lemma tag_granted:
  assumes tr: "plan_tracks m0 b0 p (m, b)" and pl: "bbp_import_plan_tag b0 p n = (BBP_IMPORT_OK, p')"
  shows "\<exists>m' b'. perform_request (m, b) (Tag i v n) = Some (m', b') \<and> plan_tracks m0 b0 p' (m', b')"
proof -
  obtain ts where at: "plan_at b0 p m b ts" and dom: "same_dom m0 m"
    using tr by (auto simp: plan_tracks_def plan_at_def)
  then have wf: "wf_builder m b ts" by (simp add: plan_at_def)
  let ?s = "align8 (unat (b_used b))"
  note fits = plan_tag_fits [OF at pl refl]
  obtain m' b' where ok: "bbp_alloc_tag m (Some b) i v n = Some (m', Some b', va b ?s)" "va b ?s \<noteq> 0"
      "wf_builder m' b' (ts @ [(?s, unat n, i)])"
      "b_arena b' = b_arena b" "b_arena_phys b' = b_arena_phys b" "b_capacity b' = b_capacity b"
      "b_used b' = of_nat (?s + unat n)" "same_dom m m'"
    by (rule alloc_tag_ok [OF wf fits(1-3) refl fits(4,5), of i v])
  have "b_tag_count b' = b_tag_count b + 1" using ok(3) wf by (simp add: wf_builder_def)
  moreover have "same_dom m0 m'" using dom ok(8) same_dom_trans by blast
  ultimately have "plan_tracks m0 b0 p' (m', b')"
    using tr ok(3-7) fits(6) by (auto simp: plan_tracks_def same_arena_def)
  then show ?thesis using ok(1,2) by (simp add: perform_request_def)
qed

lemma blob_granted:
  assumes tr: "plan_tracks m0 b0 p (m, b)" and pl: "bbp_import_plan_blob b0 p len = (BBP_IMPORT_OK, p')"
    and data: "data \<noteq> 0" "mapped m0 data (unat len)" "outside_arena b0 data (unat len)"
  shows "\<exists>m' b'. perform_request (m, b) (Blob data len) = Some (m', b') \<and> plan_tracks m0 b0 p' (m', b')"
proof -
  obtain ts where at: "plan_at b0 p m b ts" and dom: "same_dom m0 m"
    using tr by (auto simp: plan_tracks_def plan_at_def)
  then have wf: "wf_builder m b ts" and sa: "same_arena b0 b" by (simp_all add: plan_at_def)
  let ?s = "align8 (unat (b_used b))"
  note fits = plan_blob_fits [OF at pl refl]
  obtain ps where ld: "load m data (unat len) = Some ps"
    using data(2) same_dom_mapped [OF dom] load_ex_iff by metis
  have out: "outside_arena b data (unat len)" using data(3) sa by (simp add: outside_arena_def same_arena_def)
  obtain m' where ok: "bbp_arena_blob m (Some b) data len
        = Some (m', Some (b\<lparr>b_used := of_nat (?s + unat len)\<rparr>), pa b ?s)"
      "wf_builder m' (b\<lparr>b_used := of_nat (?s + unat len)\<rparr>) ts" "pa b ?s \<noteq> 0" "store m (va b ?s) ps = Some m'"
    by (rule arena_blob_ok [OF wf data(1) ld out fits(1) refl fits(2,3)])
  then have "plan_tracks m0 b0 p' (m', b\<lparr>b_used := of_nat (?s + unat len)\<rparr>)"
    using tr fits(4) same_dom_trans [OF dom same_dom_store [OF ok(4)]]
    by (auto simp: plan_tracks_def same_arena_def)
  then show ?thesis using ok(1,3) by (simp add: perform_request_def)
qed

interpretation import_plan: planned_allocation "plan_request b0" perform_request "plan_tracks m0 b0" "request_ok m0 b0" for m0 b0
proof
  fix p p' r and s :: "mem \<times> bbp_builder"
  assume "plan_tracks m0 b0 p s" "request_ok m0 b0 r" "plan_request b0 p r = Some p'"
  then show "\<exists>s'. perform_request s r = Some s' \<and> plan_tracks m0 b0 p' s'"
    using tag_granted [of m0 b0 p "fst s" "snd s"] blob_granted [of m0 b0 p "fst s" "snd s"]
    by (cases r) (auto simp: plan_request_def request_ok_def split: prod.splits if_splits)
qed

lemma umax: "(ucast (- 1 :: u32) :: u64) = 0xFFFFFFFF" "(ucast (- 1 :: u16) :: u32) = 0xFFFF"
  by (simp_all add: word_unat_eq_iff unsigned_ucast_eq unsigned_minus_1_eq_mask mask_eq_exp_minus_1)

lemma plan_begin_tracks:
  assumes "wf_builder m b ts" "bbp_import_plan_begin m (Some b) (Some p0) = Some (BBP_IMPORT_OK, Some p)"
  shows "plan_tracks m b p (m, b)"
proof -
  have "ip_used p = b_used b" "ip_tag_count p = b_tag_count b" "b_arena_phys b < BBP_IMPORT_MAX_PHYS"
    "\<not> b_capacity b > BBP_IMPORT_MAX_PHYS - b_arena_phys b"
    using assms(2) by (auto simp: bbp_import_plan_begin_def bind_eq_Some_conv split: if_splits)
  moreover from this(3,4) have "unat (b_arena_phys b) + unat (b_capacity b) \<le> 2 ^ 48"
    by (auto simp: BBP_IMPORT_MAX_PHYS_def word_less_nat_alt unat_diff_u64 word_le_nat_alt)
  ultimately show ?thesis using assms(1) by (auto simp: plan_tracks_def same_arena_def)
qed

text \<open>Imports are failure-atomic: when the planner has accepted a builder and granted a whole sequence of
  tags and blobs, performing the same sequence on the builder cannot fail. No allocation faults or
  returns NULL, the builder invariant holds at the end, and the plan is exact: the bytes used and the
  number of tags are the planned ones.\<close>

theorem import_plan_cannot_fail:
  assumes "wf_builder m b ts" "bbp_import_plan_begin m (Some b) (Some p0) = Some (BBP_IMPORT_OK, Some p)"
    and "run (plan_request b) p rs = Some p'" "list_all (request_ok m b) rs"
  shows "\<exists>m' b' ts'. run perform_request (m, b) rs = Some (m', b') \<and> wf_builder m' b' ts' \<and>
    b_used b' = ip_used p' \<and> b_tag_count b' = ip_tag_count p'"
proof -
  obtain s where "run perform_request (m, b) rs = Some s" "plan_tracks m b p' s"
    using import_plan.planned_run [OF plan_begin_tracks [OF assms(1,2)] assms(4,3)] by blast
  then show ?thesis by (cases s) (auto simp: plan_tracks_def)
qed

theorem import_plan_cannot_fail_witness:
  "\<exists>m m' b' ts'. wf_builder m demo_builder [] \<and>
     run perform_request (m, demo_builder) [Tag BBP_TAG_CMDLINE 1 56, Blob 0x20000 16] = Some (m', b') \<and>
     wf_builder m' b' ts' \<and> b_used b' = 72 \<and> b_tag_count b' = 1"
proof -
  obtain m where m: "wf_builder m demo_builder []" "same_dom (\<lambda>_. Some 0) m" by (rule demo_init)
  let ?p0 = "\<lparr>ip_used = 0, ip_tag_count = 0\<rparr>" and ?rs = "[Tag BBP_TAG_CMDLINE 1 56, Blob 0x20000 16]"
  have b: "bbp_import_plan_begin m (Some demo_builder) (Some ?p0) = Some (BBP_IMPORT_OK, Some ?p0)"
    by (simp add: bbp_import_plan_begin_def plan_chain_bad_def import_consts)
  have p: "run (plan_request demo_builder) ?p0 ?rs = Some \<lparr>ip_used = 72, ip_tag_count = 1\<rparr>"
    by (simp add: plan_request_def bbp_import_plan_tag_def bbp_import_plan_blob_def plan_allocation_def
        import_align8_def add_size_def import_consts umax)
  have "disj (0x10000 + of_nat 0x10000) 16 (0x10000 + of_nat 0) 0x1000" by (rule disj_offsets) auto
  then have "list_all (request_ok m demo_builder) ?rs"
    using same_dom_mapped [OF m(2)] by (simp add: request_ok_def mapped_def outside_arena_def)
  from import_plan_cannot_fail [OF m(1) b p this] m(1) show ?thesis by auto
qed

lemma and_not_15: "(x :: u32) AND NOT 15 = 0 \<longleftrightarrow> unat x < 16"
proof -
  have m: "(15 :: u32) = mask 4" by (simp add: mask_eq_exp_minus_1)
  have "x AND NOT (mask 4) = 0 \<longleftrightarrow> take_bit 4 x = x"
  proof
    assume z: "x AND NOT (mask 4) = 0"
    have "\<not> bit x n" if "4 \<le> n" for n
      using arg_cong [OF z, of "\<lambda>w. bit w n"] that bit_imp_le_length [of x n] by (auto simp: bit_simps)
    then show "take_bit 4 x = x" by (intro bit_word_eqI) (auto simp: bit_simps not_less [symmetric])
  next
    assume "take_bit 4 x = x"
    then have "x AND NOT (mask 4) = take_bit 4 x AND NOT (mask 4)" by simp
    also have "\<dots> = 0" by (rule bit_word_eqI) (auto simp: bit_simps)
    finally show "x AND NOT (mask 4) = 0" .
  qed
  also have "\<dots> \<longleftrightarrow> unat x mod 16 = unat x"
    unfolding word_unat_eq_iff unsigned_take_bit_eq by (simp add: take_bit_eq_mod)
  also have "\<dots> \<longleftrightarrow> unat x < 16" by (metis mod_less mod_less_divisor zero_less_numeral)
  finally show ?thesis unfolding m .
qed

lemma fb_flags_ok: "\<not> fb_flags_bad f \<longleftrightarrow> f \<in> {0, 1, 2, 3, 4, 5, 8, 9}"
proof (cases "unat f < 16")
  case True
  then have "unat f \<in> set [0..<16]" by simp
  then have "f \<in> of_nat ` set [0..<16]" by (metis image_eqI of_nat_unat ucast_id)
  then have "f \<in> {0, 1, 2, 3, 4, 5, 6, 7, 8, 9, 10, 11, 12, 13, 14, 15}" by (simp add: upt_rec)
  then show ?thesis by (auto simp: fb_flags_bad_def fb_consts Let_def)
next
  case False
  moreover have "unat (ucast f :: u32) = unat f"
    using unat_u16_less [of f] by (simp add: unsigned_ucast_eq take_bit_nat_eq_self)
  ultimately have "fb_flags_bad f"
    using and_not_15 [of "ucast f"] by (simp add: fb_flags_bad_def fb_consts)
  moreover have "f \<notin> {0, 1, 2, 3, 4, 5, 8, 9}" using False by auto
  ultimately show ?thesis by simp
qed

lemma check_step: "e \<noteq> BBP_IMPORT_OK \<Longrightarrow> (if c then e else x) = BBP_IMPORT_OK \<longleftrightarrow> \<not> c \<and> x = BBP_IMPORT_OK"
  by simp

text \<open>C40. An accepted framebuffer is one whose pixels can be addressed: the check is equivalent to its
  specification over natural numbers, so that no multiplication wraps around. The format is known with
  its depth, both dimensions are between 1 and 65535, a row fits in the pitch, all rows fit in the size,
  the range lies below the physical limit, and at most one rotation is set.\<close>

theorem validate_framebuffer_iff:
  "bbp_import_validate_framebuffer (Some fb) = BBP_IMPORT_OK \<longleftrightarrow>
     (case fb_format (fb_pixel_format fb) of None \<Rightarrow> False
      | Some (bpp, depth) \<Rightarrow>
          fb_color_depth fb = depth \<and> 0 < unat (fb_width fb) \<and> unat (fb_width fb) < 2 ^ 16 \<and>
          0 < unat (fb_height fb) \<and> unat (fb_height fb) < 2 ^ 16 \<and>
          unat (fb_width fb) * unat bpp \<le> unat (fb_pitch fb) \<and>
          unat (fb_pitch fb) * unat (fb_height fb) \<le> unat (fb_total_size fb) \<and> 0 < unat (fb_total_size fb) \<and>
          unat (fb_address fb) + unat (fb_total_size fb) \<le> 2 ^ 48 \<and> fb_flags fb \<in> {0, 1, 2, 3, 4, 5, 8, 9})"
proof -
  have mul: "unat (ucast x * ucast y :: u64) = unat x * unat y" for x y :: u32
  proof -
    have "unat x * unat y < 2 ^ 32 * 2 ^ 32" using unat_u32_less [of x] unat_u32_less [of y] by (intro mult_strict_mono) auto
    then show ?thesis by (simp add: unat_word_ariths unat_ucast_u32)
  qed
  have u16: "w > ucast BBP_IMPORT_U16_MAX \<longleftrightarrow> \<not> unat w < 2 ^ 16" for w :: u32
    by (simp add: BBP_IMPORT_U16_MAX_def umax word_less_nat_alt) linarith
  have rng: "bbp_import_phys_range_valid a n \<longleftrightarrow> 0 < unat n \<and> unat a + unat n \<le> 2 ^ 48" for a n
  proof (cases "n = 0")
    case False
    then have "0 < unat n" by (simp add: unat_gt_0)
    then show ?thesis using False unat_diff_u64 [of a "0x1000000000000"]
      by (auto simp: bbp_import_phys_range_valid_def BBP_IMPORT_MAX_PHYS_def word_less_nat_alt word_le_nat_alt)
  qed (simp add: bbp_import_phys_range_valid_def)
  have lt: "ucast (fb_pitch fb) < (x :: u64) \<longleftrightarrow> unat (fb_pitch fb) < unat x" for x
    by (simp add: word_less_nat_alt unat_ucast_u32)
  show ?thesis
  proof (cases "fb_format (fb_pixel_format fb)")
    case (Some bd)
    then show ?thesis
      by (cases bd) (simp add: bbp_import_validate_framebuffer_def Let_def check_step lt mul u16 rng fb_flags_ok
          word_less_nat_alt [where 'a = 64] unat_gt_0 unat_ucast_u32 not_less not_le del: insert_iff)
  qed (simp add: bbp_import_validate_framebuffer_def)
qed

theorem validate_string_iff_witness:
  "bbp_import_validate_string [0x1000 \<mapsto> 0x41, 0x1001 \<mapsto> 0] \<lparr>is_data = 0x1000, is_bytes = 2\<rparr> = Some BBP_IMPORT_OK"
proof -
  have l: "load [0x1000 \<mapsto> 0x41, 0x1001 \<mapsto> 0] 0x1000 (unat (2 :: u64)) = Some [0x41, 0]"
    by (simp add: load_def upt_rec)
  have "\<exists>cs. length [0x41, 0 :: u8] < 2 ^ 32 \<and> list_all scalar cs \<and> [0x41, 0] = concat (map utf8_encode cs) @ [0]"
    by (rule exI [of _ "[0x41]"]) (simp add: scalar_def utf8_encode_def)
  then show ?thesis
    using validate_string_iff [of "\<lparr>is_data = 0x1000, is_bytes = 2\<rparr>" "[0x1000 \<mapsto> 0x41, 0x1001 \<mapsto> 0]" "[0x41, 0]"] l
    by auto
qed

end
