(* ===== verification/Import_Emit.thy ===== *)
theory Import_Emit
  imports Import
begin

text \<open>
  What the three boot-source importers share: the presence bits and snapshot parts of \<open>bbp_import.h\<close>, the
  shape of their \<open>emit_\<close> functions (allocate a tag, zero its body, store its fields), and the abstract
  description of an import as a list of items. The main result is that a list of emitters which the
  planner has granted lays out exactly its items, one after the other, in the arena.
\<close>

section \<open>Model\<close>

definition BBP_IMPORT_HAS_HHDM :: u64 where "BBP_IMPORT_HAS_HHDM = push_bit 0 1"
definition BBP_IMPORT_HAS_MEMORY_MAP :: u64 where "BBP_IMPORT_HAS_MEMORY_MAP = push_bit 1 1"
definition BBP_IMPORT_HAS_KERNEL_ADDRESS :: u64 where "BBP_IMPORT_HAS_KERNEL_ADDRESS = push_bit 2 1"
definition BBP_IMPORT_HAS_SMP :: u64 where "BBP_IMPORT_HAS_SMP = push_bit 3 1"
definition BBP_IMPORT_HAS_CMDLINE :: u64 where "BBP_IMPORT_HAS_CMDLINE = push_bit 4 1"
definition BBP_IMPORT_HAS_FRAMEBUFFER :: u64 where "BBP_IMPORT_HAS_FRAMEBUFFER = push_bit 5 1"
definition BBP_IMPORT_HAS_ACPI :: u64 where "BBP_IMPORT_HAS_ACPI = push_bit 6 1"
definition BBP_IMPORT_HAS_EFI :: u64 where "BBP_IMPORT_HAS_EFI = push_bit 7 1"
definition BBP_IMPORT_HAS_SMBIOS :: u64 where "BBP_IMPORT_HAS_SMBIOS = push_bit 8 1"

lemmas presence_defs = BBP_IMPORT_HAS_HHDM_def BBP_IMPORT_HAS_MEMORY_MAP_def BBP_IMPORT_HAS_KERNEL_ADDRESS_def
  BBP_IMPORT_HAS_SMP_def BBP_IMPORT_HAS_CMDLINE_def BBP_IMPORT_HAS_FRAMEBUFFER_def BBP_IMPORT_HAS_ACPI_def
  BBP_IMPORT_HAS_EFI_def BBP_IMPORT_HAS_SMBIOS_def

record bbp_import_acpi =
  ac_rsdp_address :: u64
  ac_xsdt_address :: u64
  ac_oem_id :: u32
  ac_acpi_version :: u16
  ac_flags :: u16

text \<open>The memory and the builder are threaded through the emitters.\<close>

type_synonym build_state = "mem \<times> bbp_builder"

definition emit_tag :: "u64 \<Rightarrow> u64 \<Rightarrow> (mem \<Rightarrow> u64 \<Rightarrow> mem option) \<Rightarrow> build_state \<Rightarrow> build_state option" where
  "emit_tag tag_id bytes fill s =
     (case s of (m, b) \<Rightarrow> do {
        (m, b, tag) \<leftarrow> bbp_alloc_tag m (Some b) tag_id 1 bytes;
        b \<leftarrow> b;
        m \<leftarrow> bbp_import_memzero m (tag + sizeof struct_bbp_tag_header) (unat (bytes - sizeof struct_bbp_tag_header));
        m \<leftarrow> fill m tag;
        Some (m, b)
      })"

text \<open>A blob is copied first and its physical address stored in the tag that follows.\<close>

definition emit_blob_tag ::
  "u64 \<Rightarrow> u64 \<Rightarrow> u64 \<Rightarrow> u64 \<Rightarrow> (u64 \<Rightarrow> mem \<Rightarrow> u64 \<Rightarrow> mem option) \<Rightarrow> build_state \<Rightarrow> build_state option" where
  "emit_blob_tag data len tag_id bytes fill s =
     (case s of (m, b) \<Rightarrow> do {
        (m, b, physical) \<leftarrow> bbp_arena_blob m (Some b) data len;
        b \<leftarrow> b;
        emit_tag tag_id bytes (fill physical) (m, b)
      })"

text \<open>A check returns a value or a status other than \<open>BBP_IMPORT_OK\<close>; the first failing check of a sequence
  decides.\<close>

type_synonym 'a check = "(bbp_import_status + 'a) option"

definition and_then :: "'a check \<Rightarrow> ('a \<Rightarrow> 'b check) \<Rightarrow> 'b check" where
  "and_then c f = do { r \<leftarrow> c; case r of Inl e \<Rightarrow> Some (Inl e) | Inr x \<Rightarrow> f x }"

definition refuse_if :: "bool \<Rightarrow> bbp_import_status \<Rightarrow> unit check" where
  "refuse_if c e = Some (if c then Inl e else Inr ())"

definition status_check :: "bbp_import_status \<Rightarrow> unit check" where
  "status_check status = refuse_if (status \<noteq> BBP_IMPORT_OK) status"

text \<open>One step of a plan, taken when a part is present.\<close>

definition plan_if ::
  "bool \<Rightarrow> (bbp_import_plan \<Rightarrow> bbp_import_status \<times> bbp_import_plan) \<Rightarrow> bbp_import_plan \<Rightarrow> bbp_import_plan check" where
  "plan_if c f plan =
     (if c then case f plan of (status, plan) \<Rightarrow> Some (if status \<noteq> BBP_IMPORT_OK then Inl status else Inr plan)
      else Some (Inr plan))"

fun plan_steps :: "(bbp_import_plan \<Rightarrow> bbp_import_plan check) list \<Rightarrow> bbp_import_plan \<Rightarrow> bbp_import_plan check" where
  "plan_steps [] plan = Some (Inr plan)"
| "plan_steps (f # fs) plan = and_then (f plan) (plan_steps fs)"

definition emit_if :: "bool \<Rightarrow> (build_state \<Rightarrow> build_state option) \<Rightarrow> build_state \<Rightarrow> build_state option" where
  "emit_if c e s = (if c then e s else Some s)"

fun emit_steps :: "(build_state \<Rightarrow> build_state option) list \<Rightarrow> build_state \<Rightarrow> build_state option" where
  "emit_steps [] s = Some s"
| "emit_steps (e # es) s = do { s \<leftarrow> e s; emit_steps es s }"

section \<open>Items\<close>

text \<open>What is laid out: a tag with a body, or a blob and a tag whose body depends on where the blob is.\<close>

datatype item = Item_Tag u64 "u8 list" | Item_Blob_Tag "u8 list" u64 "u64 \<Rightarrow> u8 list"

type_synonym region = "nat \<times> u8 list"

text \<open>The layout of one item at the first free offset: its tag, the regions it fills and the next free
  offset.\<close>

fun layout_item :: "u64 \<Rightarrow> nat \<Rightarrow> item \<Rightarrow> tag_desc \<times> region list \<times> nat" where
  "layout_item phys u (Item_Tag i body) =
     (let s = align8 u; n = 32 + length body in ((s, n, i), [(s + 32, body)], s + n))"
| "layout_item phys u (Item_Blob_Tag ps i f) =
     (let s = align8 u; t = align8 (s + length ps); body = f (phys + of_nat s); n = 32 + length body in
      ((t, n, i), [(s, ps), (t + 32, body)], t + n))"

fun layout :: "u64 \<Rightarrow> nat \<Rightarrow> item list \<Rightarrow> tag_desc list \<times> region list" where
  "layout phys u [] = ([], [])"
| "layout phys u (x # xs) =
     (let (t, rs, u') = layout_item phys u x; (ts, rs') = layout phys u' xs in (t # ts, rs @ rs'))"

text \<open>A region is stable if no link field of a tag lies in it and it is below the first free byte.\<close>

definition region_ok :: "tag_desc list \<Rightarrow> nat \<Rightarrow> region \<Rightarrow> bool" where
  "region_ok ts lim r \<longleftrightarrow> (case r of (e, ps) \<Rightarrow>
     e + length ps \<le> lim \<and> (\<forall>(d, sz, i) \<in> set ts. e + length ps \<le> d + 16 \<or> d + 24 \<le> e))"

definition holds :: "mem \<Rightarrow> bbp_builder \<Rightarrow> tag_desc list \<Rightarrow> region list \<Rightarrow> bool" where
  "holds m b ts rs \<longleftrightarrow>
     (\<forall>(e, ps) \<in> set rs. region_ok ts (unat (b_used b)) (e, ps) \<and> load m (va b e) (length ps) = Some ps)"

section \<open>Writing in the arena\<close>

lemma import_memzero_eq: "n \<le> 2 ^ 64 \<Longrightarrow> bbp_import_memzero m p n = store m p (replicate n 0)"
proof (induction n arbitrary: m p)
  case (Suc n)
  then show ?case using store_Cons [of "replicate n 0" m p 0] by simp
qed (simp add: store_def)

lemma frame_extend: "frame m m' S \<Longrightarrow> frame m' m'' T \<Longrightarrow> T \<subseteq> S \<Longrightarrow> frame m m'' S"
  using frame_trans [of m m' S m'' T] by (simp add: Un_absorb2)

lemma wf_builder_used: "wf_builder m b ts \<Longrightarrow> unat (b_used b) \<le> 2 ^ 48"
  by (auto simp: wf_builder_def arena_ok_def)

text \<open>Regions survive what is written beyond them and the link of the last tag.\<close>

lemma holds_frame:
  assumes h: "holds m b ts rs" and wf: "wf_builder m b ts" and s: "unat (b_used b) \<le> s" "s + n \<le> 2 ^ 48"
    and fr: "frame m m' (span (va b s) n \<union> link_span b ts)" and sa: "same_arena b b'" "unat (b_used b') = s + n"
    and us: "us = [] \<or> (\<exists>k i. us = [(s, k, i)])"
  shows "holds m' b' (ts @ us) rs"
  unfolding holds_def
proof (clarify, intro conjI)
  fix e ps assume r: "(e, ps) \<in> set rs"
  then have ok: "region_ok ts (unat (b_used b)) (e, ps)" and ld: "load m (va b e) (length ps) = Some ps"
    using h by (auto simp: holds_def)
  then have e: "e + length ps \<le> unat (b_used b)" by (simp add: region_ok_def)
  show "region_ok (ts @ us) (unat (b_used b')) (e, ps)" using ok e s us sa(2) by (auto simp: region_ok_def)
  have "span (va b e) (length ps) \<inter> span (va b s) n = {}" using e s by (intro span_offsets) auto
  moreover have "span (va b e) (length ps) \<inter> link_span b ts = {}"
  proof (cases ts rule: rev_cases)
    case (snoc ts' t)
    obtain d z i where t: "t = (d, z, i)" by (cases t)
    then have "e + length ps \<le> d + 16 \<or> d + 24 \<le> e" using ok snoc by (auto simp: region_ok_def)
    moreover have "d + 32 \<le> unat (b_used b)" using wf_builder_hdr(3,5) [OF wf, of d z i] snoc t by simp
    ultimately have "span (va b e) (length ps) \<inter> span (va b (d + 16)) 8 = {}"
      using e s by (intro span_offsets) auto
    then show ?thesis using snoc t by (simp add: link_span_def)
  qed (simp add: link_span_def)
  ultimately have "same m m' (va b e) (length ps)" by (intro frame_same [OF fr]) auto
  then have "load m' (va b e) (length ps) = Some ps" using ld same_load_all [of m m'] by simp
  then show "load m' (va b' e) (length ps) = Some ps" using sa(1) by (simp add: same_arena_def)
qed

text \<open>The state an emitter starts from and ends in: the tags and the regions laid out so far.\<close>

abbreviation arena_span :: "bbp_builder \<Rightarrow> u64 set" where
  "arena_span b \<equiv> span (b_arena b) (unat (b_capacity b))"

type_synonym laid_out = "bbp_import_plan \<times> tag_desc list \<times> region list"

definition emit_tracks :: "mem \<Rightarrow> bbp_builder \<Rightarrow> laid_out \<Rightarrow> build_state \<Rightarrow> bool" where
  "emit_tracks m0 b0 q s \<longleftrightarrow> (case q of (p, ts, rs) \<Rightarrow> case s of (m, b) \<Rightarrow>
     plan_at b0 p m b ts \<and> same_dom m0 m \<and> frame m0 m (arena_span b0) \<and> holds m b ts rs)"

text \<open>Filling a tag of \<open>n\<close> bytes amounts to a list of stores behind its header. What it reads is not in the
  arena.\<close>

definition fills :: "mem \<Rightarrow> bbp_builder \<Rightarrow> nat \<Rightarrow> (mem \<Rightarrow> u64 \<Rightarrow> mem option) \<Rightarrow> (nat \<times> u8 list) list \<Rightarrow> bool" where
  "fills m0 b0 n fill ws \<longleftrightarrow>
     list_all (\<lambda>(e, qs). 32 \<le> e \<and> e + length qs \<le> n) ws \<and>
     (\<forall>m tag. frame m0 m (arena_span b0) \<longrightarrow> same_dom m0 m \<longrightarrow> span tag n \<subseteq> arena_span b0 \<longrightarrow> mapped m tag n \<longrightarrow>
        fill m tag = stores m tag ws)"

definition shift :: "nat \<Rightarrow> (nat \<times> u8 list) list \<Rightarrow> (nat \<times> u8 list) list" where
  "shift k ws = map (\<lambda>(e, qs). (e + k, qs)) ws"

lemma patches_shift:
  "list_all (\<lambda>(e, qs). e + length qs \<le> length ys) ws \<Longrightarrow> patches (xs @ ys) (shift (length xs) ws) = xs @ patches ys ws"
proof (induction ws arbitrary: ys)
  case (Cons w ws)
  obtain e qs where w: "w = (e, qs)" by (cases w)
  then have "patch (xs @ ys) (e + length xs) qs = xs @ patch ys e qs" by (simp add: patch_def)
  moreover have "list_all (\<lambda>(e, qs). e + length qs \<le> length (patch ys e qs)) ws" if "(e, qs) = w" for e qs
    using Cons.prems that by (auto simp: list_all_iff)
  ultimately show ?case using Cons w by (simp add: shift_def)
qed (simp add: shift_def)

lemma patches_left:
  "list_all (\<lambda>(e, qs). e + length qs \<le> length xs) ws \<Longrightarrow> patches (xs @ ys) ws = patches xs ws @ ys"
proof (induction ws arbitrary: xs)
  case (Cons w ws)
  obtain e qs where w: "w = (e, qs)" by (cases w)
  then have "patch (xs @ ys) e qs = patch xs e qs @ ys" "length (patch xs e qs) = length xs"
    using Cons.prems by (simp_all add: patch_def)
  then show ?case using Cons w by simp
qed simp

lemma shift_bounds: "list_all (\<lambda>(e, qs). 32 \<le> e \<and> e + length qs \<le> n) (shift 32 ws) \<Longrightarrow>
    list_all (\<lambda>(e, qs). e + length qs \<le> n - 32) ws"
  by (auto simp: shift_def list_all_iff)

lemma link_span_arena:
  assumes "wf_builder m b ts"
  shows "link_span b ts \<subseteq> arena_span b"
proof (cases ts rule: rev_cases)
  case (snoc ts' t)
  obtain d z i where t: "t = (d, z, i)" by (cases t)
  have "d + 32 \<le> unat (b_used b)" using wf_builder_hdr(3,5) [OF assms, of d z i] snoc t by simp
  also have "\<dots> \<le> unat (b_capacity b)" using assms by (simp add: wf_builder_def arena_ok_def)
  finally show ?thesis using snoc t span_sub [of "d + 16" 8 "unat (b_capacity b)" "b_arena b"]
    by (simp add: link_span_def)
qed (simp add: link_span_def)

text \<open>Zeroing and filling a fresh tag.\<close>

lemma tag_filled:
  assumes ld: "load m t n = Some (hs @ replicate (n - 32) 0)" "length hs = 32" and n: "32 \<le> n" "n < 2 ^ 64"
    and fr: "frame m0 m (arena_span b0)" "same_dom m0 m" and sp: "span t n \<subseteq> arena_span b0"
    and fl: "fills m0 b0 n fill (shift 32 ws)"
  obtains m2 m' where "bbp_import_memzero m (t + 32) (n - 32) = Some m2" "fill m2 t = Some m'"
    "stores m t ((32, replicate (n - 32) 0) # shift 32 ws) = Some m'" "frame m m' (span t n)" "same_dom m m'"
    "load m' (t + 32) (n - 32) = Some (patches (replicate (n - 32) 0) ws)"
proof -
  let ?z = "replicate (n - 32) 0 :: u8 list"
  have sh: "list_all (\<lambda>(e, qs). e + length qs \<le> n - 32) ws" using fl by (intro shift_bounds) (simp add: fills_def)
  have "list_all (\<lambda>(e, qs). e + length qs \<le> n) ((32, ?z) # shift 32 ws)"
    using fl n by (auto simp: fills_def list_all_iff)
  then obtain m' where m': "stores m t ((32, ?z) # shift 32 ws) = Some m'"
      "load m' t n = Some (patches (hs @ ?z) ((32, ?z) # shift 32 ws))" "frame m m' (span t n)" "same_dom m m'"
    by (rule stores_ok [OF ld(1)]) (use n in simp)
  obtain m2 where m2: "store m (t + 32) ?z = Some m2" "stores m2 t (shift 32 ws) = Some m'"
    using m'(1) by (auto simp: bind_eq_Some_conv)
  have "span (t + 32) (n - 32) \<subseteq> span t n" using span_sub [of 32 "n - 32" n t] n by simp
  then have "frame m m2 (arena_span b0)" using frame_mono [OF frame_store [OF m2(1)]] sp by simp
  then have "frame m0 m2 (arena_span b0)" using frame_extend [OF fr(1)] by blast
  moreover have "same_dom m0 m2" using fr(2) same_dom_store [OF m2(1)] same_dom_trans by blast
  moreover have "mapped m2 t n" using ld(1) load_ex_iff same_dom_mapped [OF same_dom_store [OF m2(1)]] by blast
  ultimately have fill: "fill m2 t = Some m'" using fl sp m2(2) by (simp add: fills_def)
  have "patches (hs @ ?z) ((32, ?z) # shift 32 ws) = hs @ patches ?z ws"
    using patches_shift [of ?z ws hs] sh ld(2) by (simp add: patch_def)
  then have "load m' (t + 32) (n - 32) = Some (patches ?z ws)"
    using load_sub [OF m'(2), of 32 "n - 32"] n sh ld(2) by simp
  moreover have "bbp_import_memzero m (t + 32) (n - 32) = Some m2" using m2(1) n by (simp add: import_memzero_eq)
  ultimately show thesis using that fill m' by blast
qed

text \<open>A granted tag is written: its header, its body, and nothing but the arena changes.\<close>

lemma tag_written:
  assumes at: "plan_at b0 p m b ts" and dom: "same_dom m0 m" and fr: "frame m0 m (arena_span b0)"
    and pl: "bbp_import_plan_tag b0 p n = (BBP_IMPORT_OK, p')" and s: "s = align8 (unat (b_used b))"
    and fl: "fills m0 b0 (unat n) fill (shift 32 ws)"
  obtains m' b' where "emit_tag i n fill (m, b) = Some (m', b')" "plan_at b0 p' m' b' (ts @ [(s, unat n, i)])"
    "same_arena b b'" "b_used b' = of_nat (s + unat n)" "same_dom m m'"
    "frame m m' (span (va b s) (unat n) \<union> link_span b ts)"
    "load m' (va b s + 32) (unat n - 32) = Some (patches (replicate (unat n - 32) 0) ws)"
proof -
  let ?z = "replicate (unat n - 32) 0 :: u8 list" and ?A = "arena_span b0" and ?n = "unat n"
  have wf: "wf_builder m b ts" and sa: "same_arena b0 b" using at by (simp_all add: plan_at_def)
  note fits = plan_tag_fits [OF at pl s]
  obtain m1 b' where a: "bbp_alloc_tag m (Some b) i 1 n = Some (m1, Some b', va b s)" "va b s \<noteq> 0"
      "wf_builder m1 b' (ts @ [(s, ?n, i)])"
      "b_arena b' = b_arena b" "b_arena_phys b' = b_arena_phys b" "b_capacity b' = b_capacity b"
      "b_used b' = of_nat (s + ?n)" "same_dom m m1" "frame m m1 (span (va b s) 32 \<union> link_span b ts)"
      "load m1 (va b s) ?n = Some (stamp_bytes i 1 n @ ?z)"
    by (rule alloc_tag_ok [OF wf fits(1-3) s fits(4,5), of i 1])
  have z: "unat (n - 32) = ?n - 32" using fits(1) by (simp add: unat_diff_u64 word_le_nat_alt)
  have sp: "span (va b s) ?n \<subseteq> ?A" using span_sub [OF fits(4), of "b_arena b"] sa by (simp add: same_arena_def)
  have la: "link_span b ts \<subseteq> ?A" using link_span_arena [OF wf] sa by (simp add: same_arena_def)
  have fr1: "frame m m1 (span (va b s) ?n \<union> link_span b ts)"
    using frame_mono [OF a(9)] span_mono [OF fits(1), of "va b s"] by blast
  then have "frame m m1 ?A" using frame_mono sp la by blast
  then have "frame m0 m1 ?A" "same_dom m0 m1" using frame_extend [OF fr] same_dom_trans [OF dom a(8)] by blast+
  then obtain m2 m' where f: "bbp_import_memzero m1 (va b s + 32) (?n - 32) = Some m2" "fill m2 (va b s) = Some m'"
      "stores m1 (va b s) ((32, ?z) # shift 32 ws) = Some m'" "frame m1 m' (span (va b s) ?n)" "same_dom m1 m'"
      "load m' (va b s + 32) (?n - 32) = Some (patches ?z ws)"
    using tag_filled [OF a(10) _ fits(1) _ _ _ sp fl] unat_u64_less by auto
  have fr2: "frame m m' (span (va b s) ?n \<union> link_span b ts)" by (rule frame_extend [OF fr1 f(4)]) blast
  have e: "emit_tag i n fill (m, b) = Some (m', b')" using a(1) f(1,2) z by (simp add: emit_tag_def)
  have bnd: "list_all (\<lambda>(e, qs). 32 \<le> e \<and> e + length qs \<le> ?n) ((32, ?z) # shift 32 ws)"
    using fl fits(1) by (simp add: fills_def)
  have "wf_builder m' b' (ts @ [(s, ?n, i)])"
    by (rule stores_body_wf [OF a(3) _ bnd, of s i]) (use f(3) a(4) in simp_all)
  moreover have "b_tag_count b' = b_tag_count b + 1" using a(3) wf by (simp add: wf_builder_def)
  ultimately have "plan_at b0 p' m' b' (ts @ [(s, ?n, i)])" using at a(4-7) fits(6) by (simp add: plan_at_def same_arena_def)
  then show thesis
    using that [OF e] a(4-7) fr2 f(6) same_dom_trans [OF a(8) f(5)] by (simp add: same_arena_def)
qed

lemma tag_emitted:
  assumes tr: "emit_tracks m0 b0 (p, ts, rs) (m, b)" and pl: "bbp_import_plan_tag b0 p n = (BBP_IMPORT_OK, p')"
    and s: "s = align8 (unat (ip_used p))" and fl: "fills m0 b0 (unat n) fill (shift 32 ws)"
  shows "\<exists>s'. emit_tag i n fill (m, b) = Some s' \<and> emit_tracks m0 b0
    (p', ts @ [(s, unat n, i)], rs @ [(s + 32, patches (replicate (unat n - 32) 0) ws)]) s'"
proof -
  let ?n = "unat n" and ?body = "patches (replicate (unat n - 32) 0) ws"
  have at: "plan_at b0 p m b ts" and dom: "same_dom m0 m" and fr: "frame m0 m (arena_span b0)" and h: "holds m b ts rs"
    using tr by (simp_all add: emit_tracks_def)
  then have wf: "wf_builder m b ts" and sa: "same_arena b0 b" and s': "s = align8 (unat (b_used b))"
    using s by (simp_all add: plan_at_def)
  note fits = plan_tag_fits [OF at pl s']
  obtain m' b' where w: "emit_tag i n fill (m, b) = Some (m', b')" "plan_at b0 p' m' b' (ts @ [(s, ?n, i)])"
    "same_arena b b'" "b_used b' = of_nat (s + ?n)" "same_dom m m'"
    "frame m m' (span (va b s) ?n \<union> link_span b ts)" "load m' (va b s + 32) (?n - 32) = Some ?body"
    by (rule tag_written [OF at dom fr pl s' fl, of i])
  have us: "unat (b_used b') = s + ?n" using w(4) fits(5) unat_of_nat_u64 [of "s + ?n"] by simp
  have le: "unat (b_used b) \<le> s" using s' align8_bounds by simp
  have "holds m' b' (ts @ [(s, ?n, i)]) rs"
    using holds_frame [OF h wf le _ w(6,3) us, of "[(s, ?n, i)]"] fits(5) by simp
  moreover have "holds m' b' (ts @ [(s, ?n, i)]) [(s + 32, ?body)]"
  proof -
    have "length ?body = ?n - 32" using load_length [OF w(7)] .
    moreover have "d \<le> 8 + s" if "(d, z, j) \<in> set ts" for d z j using wf_builder_hdr(3,5) [OF wf that] le by simp
    ultimately show ?thesis using w(7,3) us fits(1)
      by (auto simp: holds_def region_ok_def same_arena_def add.assoc)
  qed
  moreover have "frame m0 m' (arena_span b0)"
  proof -
    have "span (va b s) ?n \<union> link_span b ts \<subseteq> arena_span b0"
      using span_sub [OF fits(4), of "b_arena b"] link_span_arena [OF wf] sa by (simp add: same_arena_def)
    then show ?thesis by (rule frame_extend [OF fr w(6)])
  qed
  moreover have "same_dom m0 m'" using dom w(5) same_dom_trans by blast
  ultimately show ?thesis using w(1,2) by (auto simp: emit_tracks_def holds_def)
qed

text \<open>A granted blob is copied.\<close>

lemma blob_emitted:
  assumes tr: "emit_tracks m0 b0 (p, ts, rs) (m, b)" and pl: "bbp_import_plan_blob b0 p len = (BBP_IMPORT_OK, p')"
    and s: "s = align8 (unat (ip_used p))"
    and data: "data \<noteq> 0" "load m0 data (unat len) = Some ps" "outside_arena b0 data (unat len)"
  shows "\<exists>m' b'. bbp_arena_blob m (Some b) data len = Some (m', Some b', pa b0 s) \<and>
    emit_tracks m0 b0 (p', ts, rs @ [(s, ps)]) (m', b')"
proof -
  let ?n = "unat len" and ?b = "b\<lparr>b_used := of_nat (s + unat len)\<rparr>"
  have at: "plan_at b0 p m b ts" and dom: "same_dom m0 m" and fr: "frame m0 m (arena_span b0)" and h: "holds m b ts rs"
    using tr by (simp_all add: emit_tracks_def)
  then have wf: "wf_builder m b ts" and sa: "same_arena b0 b" and s': "s = align8 (unat (b_used b))"
    using s by (simp_all add: plan_at_def)
  note fits = plan_blob_fits [OF at pl s']
  have "span data ?n \<inter> arena_span b0 = {}" using data(3) span_disj by (simp add: outside_arena_def)
  then have ld: "load m data ?n = Some ps" using same_load_all [OF frame_same [OF fr]] data(2) by simp
  have out: "outside_arena b data ?n" using data(3) sa by (simp add: outside_arena_def same_arena_def)
  obtain m' where ok: "bbp_arena_blob m (Some b) data len = Some (m', Some ?b, pa b s)"
      "wf_builder m' ?b ts" "pa b s \<noteq> 0" "store m (va b s) ps = Some m'"
    by (rule arena_blob_ok [OF wf data(1) ld out fits(1) s' fits(2,3)])
  have n: "length ps = ?n" using load_length [OF ld] .
  have us: "unat (b_used ?b) = s + ?n" using fits(3) unat_of_nat_u64 [of "s + ?n"] by simp
  have le: "unat (b_used b) \<le> s" using s' align8_bounds by simp
  note f = frame_store [OF ok(4), unfolded n]
  have "holds m' ?b (ts @ []) rs"
    by (rule holds_frame [OF h wf le _ frame_mono [OF f] _ us]) (use fits(3) in \<open>auto simp: same_arena_def\<close>)
  moreover have "holds m' ?b ts [(s, ps)]"
  proof -
    have "d + 24 \<le> s" if "(d, z, j) \<in> set ts" for d z j using wf_builder_hdr(3,5) [OF wf that] le by simp
    then show ?thesis using load_store_same [OF ok(4)] us n fits(3) unat_of_nat_u64 [of "s + ?n"]
      by (auto simp: holds_def region_ok_def)
  qed
  moreover have "frame m0 m' (arena_span b0)"
    using span_sub [OF fits(2), of "b_arena b"] sa by (intro frame_extend [OF fr f]) (simp add: same_arena_def)
  moreover have "same_dom m0 m'" using dom same_dom_store [OF ok(4)] same_dom_trans by blast
  moreover have "plan_at b0 p' m' ?b ts" using at ok(2) fits(4) by (simp add: plan_at_def same_arena_def)
  ultimately show ?thesis using ok(1) sa by (auto simp: emit_tracks_def holds_def same_arena_def)
qed

section \<open>What an emitter does\<close>

text \<open>The planning steps of an item, and the emitter of an item: whatever is laid out so far, if the item is
  granted then it is laid out next.\<close>

fun item_plan :: "bbp_builder \<Rightarrow> item \<Rightarrow> (bbp_import_plan \<Rightarrow> bbp_import_status \<times> bbp_import_plan) list" where
  "item_plan b (Item_Tag i body) = [\<lambda>p. bbp_import_plan_tag b p (of_nat (32 + length body))]"
| "item_plan b (Item_Blob_Tag ps i f) =
     [\<lambda>p. bbp_import_plan_blob b p (of_nat (length ps)), \<lambda>p. bbp_import_plan_tag b p (of_nat (32 + length (f 0)))]"

type_synonym part = "bool \<times> (build_state \<Rightarrow> build_state option) \<times> item"

definition plan_part :: "bbp_builder \<Rightarrow> laid_out \<Rightarrow> part \<Rightarrow> laid_out option" where
  "plan_part b0 q r = (case q of (p, ts, rs) \<Rightarrow> case r of (c, e, x) \<Rightarrow>
     case plan_steps (map (plan_if c) (item_plan b0 x)) p of
       Some (Inr p') \<Rightarrow>
         if c then (case layout_item (b_arena_phys b0) (unat (ip_used p)) x of (t, rs', u) \<Rightarrow> Some (p', ts @ [t], rs @ rs'))
         else Some (p', ts, rs)
     | _ \<Rightarrow> None)"

definition emit_part :: "build_state \<Rightarrow> part \<Rightarrow> build_state option" where
  "emit_part s r = (case r of (c, e, x) \<Rightarrow> emit_if c e s)"

fun item_ok :: "item \<Rightarrow> bool" where
  "item_ok (Item_Tag i body) \<longleftrightarrow> 32 + length body < 2 ^ 64"
| "item_ok (Item_Blob_Tag ps i f) \<longleftrightarrow>
     length ps < 2 ^ 64 \<and> 32 + length (f 0) < 2 ^ 64 \<and> (\<forall>x. length (f x) = length (f 0))"

definition emits :: "mem \<Rightarrow> bbp_builder \<Rightarrow> (build_state \<Rightarrow> build_state option) \<Rightarrow> item \<Rightarrow> bool" where
  "emits m0 b0 e x \<longleftrightarrow> item_ok x \<and> (\<forall>q q' s. emit_tracks m0 b0 q s \<longrightarrow> plan_part b0 q (True, e, x) = Some q' \<longrightarrow>
     (\<exists>s'. e s = Some s' \<and> emit_tracks m0 b0 q' s'))"

definition part_ok :: "mem \<Rightarrow> bbp_builder \<Rightarrow> part \<Rightarrow> bool" where
  "part_ok m0 b0 r \<longleftrightarrow> (case r of (c, e, x) \<Rightarrow> c \<longrightarrow> emits m0 b0 e x)"

lemma plan_absent: "plan_steps (map (plan_if False) fs) p = Some (Inr p)"
  by (induction fs) (simp_all add: plan_if_def and_then_def)

interpretation import_emit: planned_allocation "plan_part b0" emit_part "emit_tracks m0 b0" "part_ok m0 b0" for m0 b0
proof
  fix q q' :: laid_out and s :: build_state and r :: part
  assume tr: "emit_tracks m0 b0 q s" and ok: "part_ok m0 b0 r" and pl: "plan_part b0 q r = Some q'"
  obtain c e x where r: "r = (c, e, x)" by (cases r)
  show "\<exists>s'. emit_part s r = Some s' \<and> emit_tracks m0 b0 q' s'"
  proof (cases c)
    case True
    then show ?thesis using tr ok pl r
      by (simp add: part_ok_def emits_def emit_part_def emit_if_def del: split_paired_All split_paired_Ex)
  next
    case False
    then show ?thesis using tr pl r
      by (auto simp: emit_part_def emit_if_def plan_part_def plan_absent emit_tracks_def split: prod.splits)
  qed
qed

lemma fills_size: "fills m0 b0 n fill (shift 32 ws) \<Longrightarrow> length (patches (replicate (n - 32) 0) ws) = n - 32"
  using shift_bounds [of n ws] by (simp add: fills_def)

lemma emits_tag:
  assumes fl: "fills m0 b0 (unat n) fill (shift 32 ws)" and n: "32 \<le> unat n"
    and body: "body = patches (replicate (unat n - 32) 0) ws"
  shows "emits m0 b0 (emit_tag i n fill) (Item_Tag i body)"
  unfolding emits_def
proof (intro conjI allI impI)
  have len: "32 + length body = unat n" using fills_size [OF fl] n body by simp
  then show "item_ok (Item_Tag i body)" using unat_u64_less [of n] by simp
  fix q q' s assume tr: "emit_tracks m0 b0 q s" and pl: "plan_part b0 q (True, emit_tag i n fill, Item_Tag i body) = Some q'"
  obtain p ts rs m b where q: "q = (p, ts, rs)" "s = (m, b)" by (metis surj_pair)
  have "(of_nat (32 + length body) :: u64) = n" unfolding len by simp
  then obtain p' where p': "bbp_import_plan_tag b0 p n = (BBP_IMPORT_OK, p')"
    and q': "q' = (p', ts @ [(align8 (unat (ip_used p)), unat n, i)], rs @ [(align8 (unat (ip_used p)) + 32, body)])"
    using pl q len by (auto simp: plan_part_def plan_if_def and_then_def Let_def split: prod.splits if_splits)
  show "\<exists>s'. emit_tag i n fill s = Some s' \<and> emit_tracks m0 b0 q' s'"
    using tag_emitted [OF tr [unfolded q] p' refl fl, of i] q q' body by simp
qed

lemma emits_blob_tag:
  assumes data: "data \<noteq> 0" "load m0 data (unat len) = Some ps" "outside_arena b0 data (unat len)"
    and fl: "\<And>ph. fills m0 b0 (unat n) (fill ph) (shift 32 (ws ph))" and n: "32 \<le> unat n"
    and f: "\<And>ph. f ph = patches (replicate (unat n - 32) 0) (ws ph)"
  shows "emits m0 b0 (emit_blob_tag data len i n fill) (Item_Blob_Tag ps i f)"
  unfolding emits_def
proof (intro conjI allI impI)
  let ?e = "emit_blob_tag data len i n fill"
  have len: "length ps = unat len" "32 + length (f ph) = unat n" for ph
    using load_length [OF data(2)] fills_size [OF fl] n f by simp_all
  have "length (f x) = length (f 0)" for x using len(2) [of x] len(2) [of 0] by simp
  then show "item_ok (Item_Blob_Tag ps i f)" using len unat_u64_less by simp
  fix q q' s assume tr: "emit_tracks m0 b0 q s" and pl: "plan_part b0 q (True, ?e, Item_Blob_Tag ps i f) = Some q'"
  obtain p ts rs m b where q: "q = (p, ts, rs)" "s = (m, b)" by (metis surj_pair)
  let ?s = "align8 (unat (ip_used p))"
  let ?t = "align8 (?s + unat len)" and ?g = "f (pa b0 ?s)"
  have w: "(of_nat (length ps) :: u64) = len" "(of_nat (32 + length (f 0)) :: u64) = n" unfolding len by simp_all
  then obtain p1 p' where p1: "bbp_import_plan_blob b0 p len = (BBP_IMPORT_OK, p1)"
    and p': "bbp_import_plan_tag b0 p1 n = (BBP_IMPORT_OK, p')"
    and q': "q' = (p', ts @ [(?t, unat n, i)], rs @ [(?s, ps), (?t + 32, ?g)])"
    using pl q len by (auto simp: plan_part_def plan_if_def and_then_def Let_def split: prod.splits if_splits)
  obtain m1 b1 where b1: "bbp_arena_blob m (Some b) data len = Some (m1, Some b1, pa b0 ?s)"
    "emit_tracks m0 b0 (p1, ts, rs @ [(?s, ps)]) (m1, b1)"
    using blob_emitted [OF tr [unfolded q] p1 refl data] by blast
  have at: "plan_at b0 p m b ts" using tr q by (simp add: emit_tracks_def)
  have "ip_used p = b_used b" using at by (simp add: plan_at_def)
  then have "p1 = p\<lparr>ip_used := of_nat (?s + unat len)\<rparr>" "?s + unat len < 2 ^ 64"
    using plan_blob_fits(3,4) [OF at p1 refl] by simp_all
  then have "unat (ip_used p1) = ?s + unat len" using unat_of_nat_u64 [of "?s + unat len"] by simp
  then show "\<exists>s'. ?e s = Some s' \<and> emit_tracks m0 b0 q' s'"
    using tag_emitted [OF b1(2) p' _ fl [of "pa b0 ?s"], of ?t i] b1(1) q q' f by (simp add: emit_blob_tag_def)
qed

text \<open>The plan of a list of parts computes the layout of its items.\<close>

definition part_steps :: "bbp_builder \<Rightarrow> part \<Rightarrow> (bbp_import_plan \<Rightarrow> bbp_import_plan check) list" where
  "part_steps b r = (case r of (c, e, x) \<Rightarrow> map (plan_if c) (item_plan b x))"

definition present_items :: "part list \<Rightarrow> item list" where
  "present_items parts = map (\<lambda>(c, e, x). x) (filter (\<lambda>(c, e, x). c) parts)"

lemma and_then_Inr: "and_then c f = Some (Inr y) \<longleftrightarrow> (\<exists>x. c = Some (Inr x) \<and> f x = Some (Inr y))"
  by (cases c) (auto simp: and_then_def split: sum.splits)

lemma plan_part_present:
  "plan_steps (map (plan_if True) (item_plan b x)) p = Some (Inr p') \<Longrightarrow>
   layout_item (b_arena_phys b) (unat (ip_used p)) x = (t, rs', u) \<Longrightarrow>
   plan_part b (p, ts, rs) (True, e, x) = Some (p', ts @ [t], rs @ rs')"
  by (simp add: plan_part_def)

lemma plan_part_absent: "plan_part b q (False, e, x) = Some q"
  by (simp add: plan_part_def plan_absent split: prod.splits)

lemma plan_steps_append: "plan_steps (fs @ gs) p = and_then (plan_steps fs p) (plan_steps gs)"
proof (induction fs arbitrary: p)
  case (Cons f fs)
  then show ?case
    by (cases "f p") (auto simp: and_then_def split: sum.splits)
qed (simp add: and_then_def)

lemma plan_tag_used:
  assumes "bbp_import_plan_tag b p n = (BBP_IMPORT_OK, p')" "unat (ip_used p) \<le> unat (b_capacity b)"
    "unat (b_capacity b) \<le> 2 ^ 48"
  shows "unat (ip_used p') = align8 (unat (ip_used p)) + unat n" "unat (ip_used p') \<le> unat (b_capacity b)"
proof -
  obtain q where q: "plan_allocation b p n = (BBP_IMPORT_OK, q)" "ip_used p' = ip_used q"
    using assms(1) by (auto simp: bbp_import_plan_tag_def split: if_splits prod.splits)
  then show "unat (ip_used p') = align8 (unat (ip_used p)) + unat n" "unat (ip_used p') \<le> unat (b_capacity b)"
    using plan_allocation_ok [OF q(1)] assms(2,3) unat_of_nat_u64 [of "align8 (unat (ip_used p)) + unat n"] by simp_all
qed

lemma plan_blob_used:
  assumes "bbp_import_plan_blob b p n = (BBP_IMPORT_OK, p')" "unat (ip_used p) \<le> unat (b_capacity b)"
    "unat (b_capacity b) \<le> 2 ^ 48"
  shows "unat (ip_used p') = align8 (unat (ip_used p)) + unat n" "unat (ip_used p') \<le> unat (b_capacity b)"
proof -
  have q: "plan_allocation b p n = (BBP_IMPORT_OK, p')"
    using assms(1) by (auto simp: bbp_import_plan_blob_def split: if_splits)
  then show "unat (ip_used p') = align8 (unat (ip_used p)) + unat n" "unat (ip_used p') \<le> unat (b_capacity b)"
    using plan_allocation_ok [OF q] assms(2,3) unat_of_nat_u64 [of "align8 (unat (ip_used p)) + unat n"] by simp_all
qed

lemma item_plan_used:
  assumes "plan_steps (map (plan_if True) (item_plan b x)) p = Some (Inr p')" "item_ok x"
    "unat (ip_used p) \<le> unat (b_capacity b)" "unat (b_capacity b) \<le> 2 ^ 48"
  shows "unat (ip_used p') = snd (snd (layout_item ph (unat (ip_used p)) x))" "unat (ip_used p') \<le> unat (b_capacity b)"
proof -
  have "unat (ip_used p') = snd (snd (layout_item ph (unat (ip_used p)) x)) \<and> unat (ip_used p') \<le> unat (b_capacity b)"
  proof (cases x)
    case (Item_Tag i body)
    then have "bbp_import_plan_tag b p (of_nat (32 + length body)) = (BBP_IMPORT_OK, p')"
      using assms(1) by (auto simp: plan_if_def and_then_def split: prod.splits if_splits)
    from plan_tag_used [OF this assms(3,4)] show ?thesis
      using assms(2) Item_Tag unat_of_nat_u64 [of "32 + length body"] by (simp add: Let_def)
  next
    case (Item_Blob_Tag ps i f)
    then obtain p1 where p: "bbp_import_plan_blob b p (of_nat (length ps)) = (BBP_IMPORT_OK, p1)"
      "bbp_import_plan_tag b p1 (of_nat (32 + length (f 0))) = (BBP_IMPORT_OK, p')"
      using assms(1) by (auto simp: plan_if_def and_then_def split: prod.splits if_splits)
    note u = plan_blob_used [OF p(1) assms(3,4)]
    from plan_tag_used [OF p(2) u(2) assms(4)] u(1) show ?thesis
      using assms(2) Item_Blob_Tag unat_of_nat_u64 [of "32 + length (f 0)"] unat_of_nat_u64 [of "length ps"]
      by (simp add: Let_def) metis
  qed
  then show "unat (ip_used p') = snd (snd (layout_item ph (unat (ip_used p)) x))" "unat (ip_used p') \<le> unat (b_capacity b)"
    by simp_all
qed

lemma plan_layout:
  assumes "plan_steps (concat (map (part_steps b) parts)) p = Some (Inr p')" "list_all (part_ok m b) parts"
    "unat (ip_used p) \<le> unat (b_capacity b)" "unat (b_capacity b) \<le> 2 ^ 48"
    "layout (b_arena_phys b) (unat (ip_used p)) (present_items parts) = (us, vs)"
  shows "run (plan_part b) (p, ts, rs) parts = Some (p', ts @ us, rs @ vs)"
  using assms
proof (induction parts arbitrary: p ts rs us vs)
  case Nil
  then show ?case by (simp add: present_items_def)
next
  case (Cons r parts)
  obtain c e x where r: "r = (c, e, x)" by (cases r)
  obtain p1 where p1: "plan_steps (map (plan_if c) (item_plan b x)) p = Some (Inr p1)"
    "plan_steps (concat (map (part_steps b) parts)) p1 = Some (Inr p')"
    using Cons.prems(1) r by (auto simp: plan_steps_append and_then_Inr part_steps_def [of b "(c, e, x)"])
  show ?case
  proof (cases c)
    case True
    then have x: "item_ok x" using Cons.prems(2) r by (simp add: part_ok_def emits_def)
    have p1': "plan_steps (map (plan_if True) (item_plan b x)) p = Some (Inr p1)" using p1(1) True by simp
    note u = item_plan_used [OF p1' x Cons.prems(3,4)]
    obtain t rs1 u1 where li: "layout_item (b_arena_phys b) (unat (ip_used p)) x = (t, rs1, u1)" by (metis surj_pair)
    obtain us1 vs1 where l: "layout (b_arena_phys b) (unat (ip_used p1)) (present_items parts) = (us1, vs1)" by fastforce
    have "us = t # us1" "vs = rs1 @ vs1" using Cons.prems(5) True r li l u(1) [of "b_arena_phys b"] by (auto simp: present_items_def)
    moreover have "run (plan_part b) (p1, ts @ [t], rs @ rs1) parts = Some (p', (ts @ [t]) @ us1, (rs @ rs1) @ vs1)"
      using Cons.IH [OF p1(2) _ u(2) Cons.prems(4) l] Cons.prems(2) by simp
    ultimately show ?thesis using r True plan_part_present [OF p1' li] by simp
  next
    case False
    then have "p1 = p" using p1(1) by (simp add: plan_absent)
    then show ?thesis using Cons r False p1(2) by (simp add: plan_part_absent present_items_def)
  qed
qed

text \<open>The steps of an importer after its checks: when every step of the plan is granted, the emitters
  lay out the present items behind what the arena held.\<close>

definition laid :: "mem \<Rightarrow> bbp_builder \<Rightarrow> tag_desc list \<Rightarrow> item list \<Rightarrow> mem \<Rightarrow> bbp_builder \<Rightarrow> bool" where
  "laid m b ts items m' b' \<longleftrightarrow>
     (let (us, rs) = layout (b_arena_phys b) (unat (b_used b)) items in
      wf_builder m' b' (ts @ us) \<and> holds m' b' (ts @ us) rs) \<and>
     same_arena b b' \<and> same_dom m m' \<and> frame m m' (arena_span b)"

lemma emit_steps_run: "emit_steps (map (\<lambda>(c, e, x). emit_if c e) parts) s = run emit_part s parts"
proof (induction parts arbitrary: s)
  case (Cons r parts)
  then show ?case by (cases r) (auto simp: emit_part_def [of _ "(_, _, _)"] split: bind_splits)
qed simp

lemma import_laid:
  assumes wf: "wf_builder m b ts" and pb: "bbp_import_plan_begin m (Some b) (Some p0) = Some (BBP_IMPORT_OK, Some p)"
    and pl: "plan_steps (concat (map (part_steps b) parts)) p = Some (Inr p')" and ok: "list_all (part_ok m b) parts"
  shows "\<exists>m' b'. emit_steps (map (\<lambda>(c, e, x). emit_if c e) parts) (m, b) = Some (m', b') \<and>
    laid m b ts (present_items parts) m' b'"
proof -
  have at: "plan_at b p m b ts" using plan_begin_tracks [OF wf pb] wf by (simp add: plan_tracks_def plan_at_def)
  then have us: "ip_used p = b_used b" "unat (b_used b) \<le> unat (b_capacity b)" "unat (b_capacity b) \<le> 2 ^ 48"
    by (auto simp: plan_at_def wf_builder_def arena_ok_def)
  obtain vs rs where l: "layout (b_arena_phys b) (unat (b_used b)) (present_items parts) = (vs, rs)" by fastforce
  have run: "run (plan_part b) (p, ts, []) parts = Some (p', ts @ vs, rs)"
    using plan_layout [OF pl ok _ us(3), of vs rs ts "[]"] us(1,2) l by simp
  have tr: "emit_tracks m b (p, ts, []) (m, b)" using at by (simp add: emit_tracks_def holds_def)
  obtain s where "run emit_part (m, b) parts = Some s" "emit_tracks m b (p', ts @ vs, rs) s"
    using import_emit.planned_run [OF tr ok run] by blast
  then show ?thesis using l
    by (cases s) (auto simp: emit_steps_run laid_def emit_tracks_def plan_at_def)
qed

section \<open>Outcomes\<close>

text \<open>An importer never faults; it either refuses and changes nothing, or lays out its items.\<close>

type_synonym import_result = "(bbp_import_status \<times> mem \<times> bbp_builder option) option"

definition import_outcome :: "mem \<Rightarrow> bbp_builder \<Rightarrow> tag_desc list \<Rightarrow> item list \<Rightarrow> import_result \<Rightarrow> bool" where
  "import_outcome m b ts items r \<longleftrightarrow> (\<exists>status m' b'. r = Some (status, m', Some b') \<and>
     (if status = BBP_IMPORT_OK then laid m b ts items m' b' else m' = m \<and> b' = b))"

lemma outcome_refused: "e \<noteq> BBP_IMPORT_OK \<Longrightarrow> import_outcome m b ts items (Some (e, m, Some b))"
  by (simp add: import_outcome_def)

text \<open>A check returns, and never with the status that means success.\<close>

definition check_ok :: "'a check \<Rightarrow> bool" where
  "check_ok c \<longleftrightarrow> c \<noteq> None \<and> c \<noteq> Some (Inl BBP_IMPORT_OK)"

lemma check_ok_and_then:
  "check_ok c \<Longrightarrow> (\<And>x. c = Some (Inr x) \<Longrightarrow> check_ok (f x)) \<Longrightarrow> check_ok (and_then c f)"
  by (cases c) (auto simp: check_ok_def and_then_def split: sum.splits)

lemma check_ok_simps [simp]:
  "check_ok (Some (Inr x))" "check_ok (Some (Inl e)) \<longleftrightarrow> e \<noteq> BBP_IMPORT_OK"
  "check_ok (refuse_if c e) \<longleftrightarrow> (c \<longrightarrow> e \<noteq> BBP_IMPORT_OK)" "check_ok (status_check st)"
  by (auto simp: check_ok_def refuse_if_def status_check_def)

lemma check_ok_plan_if: "check_ok (plan_if c f p)"
  by (auto simp: check_ok_def plan_if_def split: prod.splits)

lemma check_ok_plan: "list_all (\<lambda>f. \<forall>p. check_ok (f p)) fs \<Longrightarrow> check_ok (plan_steps fs p)"
  by (induction fs arbitrary: p) (auto intro: check_ok_and_then)

lemma check_ok_parts: "check_ok (plan_steps (concat (map (part_steps b) parts)) p)"
  by (rule check_ok_plan) (auto simp: list_all_iff part_steps_def check_ok_plan_if)

lemma plan_begin_total:
  assumes "wf_builder m b ts"
  obtains st p where "bbp_import_plan_begin m (Some b) (Some p0) = Some (st, Some p)"
proof -
  have "plan_chain_bad m b \<noteq> None"
  proof (cases ts rule: rev_cases)
    case Nil
    then show ?thesis using assms by (simp add: wf_builder_def plan_chain_bad_def)
  next
    case (snoc us t)
    obtain d z i where t: "t = (d, z, i)" by (cases t)
    have "hdr_at m (va b d) z i 0" using assms snoc t by (auto simp: wf_builder_def chain_ok_append)
    moreover have "b_last b = va b d" using assms snoc t by (simp add: wf_builder_def)
    ultimately have "ld64 m (b_last b + 16) = Some 0" by (simp add: hdr_at_def)
    then show ?thesis by (auto simp: plan_chain_bad_def)
  qed
  then have "\<exists>st p. bbp_import_plan_begin m (Some b) (Some p0) = Some (st, Some p)"
    by (auto simp: bbp_import_plan_begin_def split: if_split)
  then show thesis using that by blast
qed

text \<open>The last stage of every importer: a complete plan first, then the emitters.\<close>

definition plan_and_emit ::
  "(bbp_import_plan \<Rightarrow> bbp_import_plan check) list \<Rightarrow> (build_state \<Rightarrow> build_state option) list \<Rightarrow>
   mem \<Rightarrow> bbp_builder \<Rightarrow> bbp_import_plan \<Rightarrow> import_result" where
  "plan_and_emit steps emitters m b plan =
     do {
       r \<leftarrow> plan_steps steps plan;
       case r of
         Inl status \<Rightarrow> Some (status, m, Some b)
       | Inr plan \<Rightarrow> do { (m, b) \<leftarrow> emit_steps emitters (m, b); Some (BBP_IMPORT_OK, m, Some b) }
     }"

lemma plan_and_emit_outcome:
  assumes wf: "wf_builder m b ts" and pb: "bbp_import_plan_begin m (Some b) (Some p0) = Some (BBP_IMPORT_OK, Some p)"
    and ok: "list_all (part_ok m b) parts"
    and st: "steps = concat (map (part_steps b) parts)" and em: "emitters = map (\<lambda>(c, e, x). emit_if c e) parts"
  shows "import_outcome m b ts (present_items parts) (plan_and_emit steps emitters m b p)"
proof -
  obtain r where r: "plan_steps steps p = Some r" "r \<noteq> Inl BBP_IMPORT_OK"
    using check_ok_parts [of b parts p] st by (auto simp: check_ok_def)
  show ?thesis
  proof (cases r)
    case (Inl e)
    then show ?thesis using r by (simp add: plan_and_emit_def outcome_refused)
  next
    case (Inr p')
    then have "plan_steps (concat (map (part_steps b) parts)) p = Some (Inr p')" using r st by simp
    from import_laid [OF wf pb this ok] show ?thesis
      using r Inr em by (auto simp: plan_and_emit_def import_outcome_def)
  qed
qed

text \<open>Sources that the overlap check has accepted are outside the arena.\<close>

lemma ranges_apart:
  assumes "\<not> bbp_import_ranges_overlap a n b k"
  shows "disj a (unat n) b (unat k)"
proof -
  have a: "unat a + unat n < 2 ^ 64" and b: "unat b + unat k < 2 ^ 64"
    and d: "\<not> (a < b + k \<and> b < a + n)"
    using assms unat_le_max_minus [of a n] unat_le_max_minus [of b k]
    by (auto simp: bbp_import_ranges_overlap_def BBP_IMPORT_UINTPTR_MAX_def not_less split: if_splits)
  then have "unat a + unat n \<le> unat b \<or> unat b + unat k \<le> unat a"
    by (auto simp: word_less_nat_alt unat_add_u64 not_less)
  then show ?thesis using a b by (intro disj_apart) auto
qed

end
