(* ===== verification/Import_Tags.thy ===== *)
theory Import_Tags
  imports Import_Emit
begin

text \<open>
  The tag bodies the boot-source importers write. Every importer file has its own static copies of these
  emitters; what they store in a tag is the same and is written here once: the high-half offset, the
  kernel address, the command line, the framebuffer, the ACPI tables and the array loop of the memory map.
\<close>

section \<open>Model\<close>

definition fill_hhdm :: "u64 \<Rightarrow> mem \<Rightarrow> u64 \<Rightarrow> mem option" where
  "fill_hhdm offset m tag = st64 m (tag + off struct_bbp_tag_hhdm ''offset'') offset"

definition fill_kernel_address :: "u64 \<Rightarrow> u64 \<Rightarrow> mem \<Rightarrow> u64 \<Rightarrow> mem option" where
  "fill_kernel_address physical_base virtual_base m tag =
     do {
       m \<leftarrow> st64 m (tag + off struct_bbp_tag_kernel_address ''physical_base'') physical_base;
       st64 m (tag + off struct_bbp_tag_kernel_address ''virtual_base'') virtual_base
     }"

text \<open>The loop \<open>for (i = 0; i < count; i++)\<close> over a source array and a destination array.\<close>

fun array_loop ::
  "(mem \<Rightarrow> u64 \<Rightarrow> u64 \<Rightarrow> mem option) \<Rightarrow> u64 \<Rightarrow> u64 \<Rightarrow> mem \<Rightarrow> u64 \<Rightarrow> u64 \<Rightarrow> nat \<Rightarrow> mem option" where
  "array_loop body stride width m src dst 0 = Some m"
| "array_loop body stride width m src dst (Suc count) =
     do { m \<leftarrow> body m src dst; array_loop body stride width m (src + stride) (dst + width) count }"

definition fill_memory_map :: "(mem \<Rightarrow> u64 \<Rightarrow> u64 \<Rightarrow> mem option) \<Rightarrow> u64 \<Rightarrow> u64 \<Rightarrow> u32 \<Rightarrow> mem \<Rightarrow> u64 \<Rightarrow> mem option" where
  "fill_memory_map body stride src count m tag =
     do {
       m \<leftarrow> st32 m (tag + off struct_bbp_tag_memory_map ''entry_count'') count;
       m \<leftarrow> st32 m (tag + off struct_bbp_tag_memory_map ''entry_size'') (ucast (sizeof struct_bbp_memory_entry));
       array_loop body stride (sizeof struct_bbp_memory_entry) m src (tag + sizeof struct_bbp_tag_memory_map) (unat count)
     }"

definition fill_cmdline :: "bbp_import_string \<Rightarrow> u64 \<Rightarrow> mem \<Rightarrow> u64 \<Rightarrow> mem option" where
  "fill_cmdline string physical m tag =
     do {
       m \<leftarrow> st64 m (tag + off struct_bbp_tag_cmdline ''string'') physical;
       m \<leftarrow> st32 m (tag + off struct_bbp_tag_cmdline ''length'') (ucast (is_bytes string - 1));
       ps \<leftarrow> load m (is_data string) (unat (is_bytes string - 1));
       st64 m (tag + off struct_bbp_tag_cmdline ''string_crc'') (bbp_crc64 ps)
     }"

definition fill_display :: "bbp_import_framebuffer \<Rightarrow> mem \<Rightarrow> u64 \<Rightarrow> mem option" where
  "fill_display source m display =
     do {
       m \<leftarrow> st16 m (display + off struct_bbp_display_info ''width'') (ucast (fb_width source));
       m \<leftarrow> st16 m (display + off struct_bbp_display_info ''height'') (ucast (fb_height source));
       m \<leftarrow> st16 m (display + off struct_bbp_display_info ''color_depth'') (fb_color_depth source);
       st32 m (display + off struct_bbp_display_info ''pixel_format'') (fb_pixel_format source)
     }"

definition fill_framebuffer :: "bbp_import_framebuffer \<Rightarrow> mem \<Rightarrow> u64 \<Rightarrow> mem option" where
  "fill_framebuffer source m tag =
     do {
       m \<leftarrow> st64 m (tag + off struct_bbp_tag_framebuffer ''address'') (fb_address source);
       m \<leftarrow> st16 m (tag + off struct_bbp_tag_framebuffer ''display_count'') 1;
       m \<leftarrow> st16 m (tag + off struct_bbp_tag_framebuffer ''flags'') (fb_flags source);
       m \<leftarrow> st32 m (tag + off struct_bbp_tag_framebuffer ''pitch'') (fb_pitch source);
       m \<leftarrow> st64 m (tag + off struct_bbp_tag_framebuffer ''total_size'') (fb_total_size source);
       fill_display source m (tag + sizeof struct_bbp_tag_framebuffer)
     }"

definition fill_acpi :: "bbp_import_acpi \<Rightarrow> mem \<Rightarrow> u64 \<Rightarrow> mem option" where
  "fill_acpi source m tag =
     do {
       m \<leftarrow> st64 m (tag + off struct_bbp_tag_acpi ''rsdp_address'') (ac_rsdp_address source);
       m \<leftarrow> st64 m (tag + off struct_bbp_tag_acpi ''xsdt_address'') (ac_xsdt_address source);
       m \<leftarrow> st32 m (tag + off struct_bbp_tag_acpi ''oem_id'') (ac_oem_id source);
       m \<leftarrow> st16 m (tag + off struct_bbp_tag_acpi ''acpi_version'') (ac_acpi_version source);
       st16 m (tag + off struct_bbp_tag_acpi ''flags'') (ac_flags source)
     }"

section \<open>The bodies\<close>

definition hhdm_body :: "u64 \<Rightarrow> u8 list" where
  "hhdm_body offset = put_le 8 offset"

definition kernel_address_body :: "u64 \<Rightarrow> u64 \<Rightarrow> u8 list" where
  "kernel_address_body p v = put_le 8 p @ put_le 8 v"

text \<open>An entry is given by its base, length, type and attributes.\<close>

type_synonym map_entry = "u64 \<times> u64 \<times> u32 \<times> u32"

definition entry_bytes :: "map_entry \<Rightarrow> u8 list" where
  "entry_bytes x = (case x of (base, len, ty, attr) \<Rightarrow>
     put_le 8 base @ put_le 8 len @ put_le 4 ty @ put_le 4 attr @ replicate 8 0)"

definition memory_map_body :: "map_entry list \<Rightarrow> u8 list" where
  "memory_map_body es =
     put_le 4 (of_nat (length es) :: u32) @ put_le 4 (32 :: u32) @ concat (map entry_bytes es)"

definition cmdline_body :: "u8 list \<Rightarrow> u64 \<Rightarrow> u8 list" where
  "cmdline_body ps physical =
     put_le 8 physical @ put_le 4 (of_nat (length ps - 1) :: u32) @ replicate 4 0 @ put_le 8 (bbp_crc64 (butlast ps))"

definition display_bytes :: "bbp_import_framebuffer \<Rightarrow> u8 list" where
  "display_bytes fb = put_le 2 (ucast (fb_width fb) :: u16) @ put_le 2 (ucast (fb_height fb) :: u16) @ replicate 2 0 @
     put_le 2 (fb_color_depth fb) @ put_le 4 (fb_pixel_format fb) @ replicate 36 0"

definition framebuffer_body :: "bbp_import_framebuffer \<Rightarrow> u8 list" where
  "framebuffer_body fb = put_le 8 (fb_address fb) @ put_le 2 (1 :: u16) @ put_le 2 (fb_flags fb) @ put_le 4 (fb_pitch fb) @
     put_le 8 (fb_total_size fb) @ replicate 16 0 @ display_bytes fb"

definition acpi_body :: "bbp_import_acpi \<Rightarrow> u8 list" where
  "acpi_body ac = put_le 8 (ac_rsdp_address ac) @ put_le 8 (ac_xsdt_address ac) @ put_le 4 (ac_oem_id ac) @
     put_le 2 (ac_acpi_version ac) @ put_le 2 (ac_flags ac)"

section \<open>Stores\<close>

lemma stores_shift: "stores m (a + of_nat k) ws = stores m a (shift k ws)"
proof (induction ws arbitrary: m)
  case (Cons w ws)
  then show ?case by (cases w) (auto simp: shift_def add.assoc add.commute [of "of_nat k"] split: bind_splits)
qed (simp add: shift_def)

lemma shift_append: "shift k (ws @ vs) = shift k ws @ shift k vs"
  by (simp add: shift_def)

lemma shift_shift: "shift k (shift l ws) = shift (l + k) ws"
  by (simp add: shift_def case_prod_beta add.assoc)

lemma stores_kept:
  "stores m a ws = Some m' \<Longrightarrow> list_all (\<lambda>(e, qs). e + length qs \<le> n) ws \<Longrightarrow> frame m m' (span a n) \<and> same_dom m m'"
proof (induction ws arbitrary: m)
  case (Cons w ws)
  obtain e qs where w: "w = (e, qs)" by (cases w)
  then obtain m1 where m1: "store m (a + of_nat e) qs = Some m1" "stores m1 a ws = Some m'"
    using Cons.prems(1) by (auto simp: bind_eq_Some_conv)
  then have "frame m1 m' (span a n)" "same_dom m1 m'" using Cons w by simp_all
  moreover have "frame m m1 (span a n)" using frame_mono [OF frame_store [OF m1(1)]] span_sub Cons.prems(2) w by simp
  ultimately show ?case using frame_extend same_dom_trans [OF same_dom_store [OF m1(1)]] by blast
qed simp

text \<open>Elements of one width, each written by its own stores.\<close>

definition element_stores :: "nat \<Rightarrow> nat \<Rightarrow> (nat \<Rightarrow> (nat \<times> u8 list) list) \<Rightarrow> (nat \<times> u8 list) list" where
  "element_stores w n ws = concat (map (\<lambda>i. shift (i * w) (ws i)) [0..<n])"

lemma element_stores_Suc: "element_stores w (Suc n) ws = ws 0 @ shift w (element_stores w n (ws \<circ> Suc))"
proof -
  have "shift w (element_stores w n (ws \<circ> Suc)) = concat (map (\<lambda>i. shift (i * w + w) (ws (Suc i))) [0..<n])"
    by (simp add: element_stores_def shift_def map_concat comp_def case_prod_unfold add.assoc)
  moreover have "[0..<Suc n] = 0 # map Suc [0..<n]" by (simp add: upt_conv_Cons map_Suc_upt del: upt_Suc)
  ultimately show ?thesis by (simp add: element_stores_def comp_def add.commute shift_def del: upt_Suc)
qed

lemma element_stores_bounds:
  assumes "\<And>i. i < n \<Longrightarrow> list_all (\<lambda>(e, qs). e + length qs \<le> w) (ws i)"
  shows "list_all (\<lambda>(e, qs). e + length qs \<le> n * w) (element_stores w n ws)"
proof -
  have "e + i * w + length qs \<le> n * w" if "i < n" "(e, qs) \<in> set (ws i)" for e i qs
  proof -
    have "e + length qs \<le> w" using assms [OF that(1)] that(2) by (auto simp: list_all_iff)
    moreover have "Suc i * w \<le> n * w" using that(1) by (intro mult_le_mono1) simp
    ultimately show ?thesis by simp
  qed
  then show ?thesis by (auto simp: element_stores_def shift_def list_all_iff)
qed

lemma patches_elements:
  assumes "\<And>i. i < n \<Longrightarrow> list_all (\<lambda>(e, qs). e + length qs \<le> w) (ws i)"
  shows "patches (replicate (n * w) 0) (element_stores w n ws) = concat (map (\<lambda>i. patches (replicate w 0) (ws i)) [0..<n])"
  using assms
proof (induction n)
  case 0
  then show ?case by (simp add: element_stores_def)
next
  case (Suc n)
  let ?z = "replicate w 0 :: u8 list" and ?y = "replicate (n * w) 0 :: u8 list"
  have z: "replicate (Suc n * w) 0 = ?y @ ?z" by (simp add: replicate_add [symmetric] add.commute)
  have b: "list_all (\<lambda>(e, qs). e + length qs \<le> length ?y) (element_stores w n ws)"
    using element_stores_bounds [of n w ws] Suc.prems by simp
  have e: "element_stores w (Suc n) ws = element_stores w n ws @ shift (n * w) (ws n)" by (simp add: element_stores_def)
  have "patches (?y @ ?z) (element_stores w (Suc n) ws) = patches (patches ?y (element_stores w n ws) @ ?z) (shift (n * w) (ws n))"
    unfolding e patches_append patches_left [OF b] ..
  also have "\<dots> = patches ?y (element_stores w n ws) @ patches ?z (ws n)"
    using patches_shift [of ?z "ws n" "patches ?y (element_stores w n ws)"] Suc.prems b by simp
  finally show ?case using Suc z by simp
qed

lemma array_loop_stores:
  assumes "\<And>i m. i < n \<Longrightarrow> frame m0 m A \<Longrightarrow> same_dom m0 m \<Longrightarrow>
      body m (src + of_nat i * stride) (dst + of_nat (i * w)) = stores m (dst + of_nat (i * w)) (ws i)"
    and "\<And>i. i < n \<Longrightarrow> list_all (\<lambda>(e, qs). e + length qs \<le> w) (ws i)"
    and "span dst (n * w) \<subseteq> A" "frame m0 m A" "same_dom m0 m"
  shows "array_loop body stride (of_nat w) m src dst n = stores m dst (element_stores w n ws)"
  using assms
proof (induction n arbitrary: m src dst ws)
  case 0
  then show ?case by (simp add: element_stores_def)
next
  case (Suc n)
  have first: "body m src dst = stores m dst (ws 0)" using Suc.prems(1) [of 0 m] Suc.prems(4,5) by simp
  have bw: "list_all (\<lambda>(e, qs). e + length qs \<le> w) (ws 0)" using Suc.prems(2) by simp
  show ?case
  proof (cases "stores m dst (ws 0)")
    case None
    then show ?thesis by (simp add: first element_stores_Suc stores_append)
  next
    case (Some m1)
    note k = stores_kept [OF Some bw]
    have "span dst w \<subseteq> A" using Suc.prems(3) span_mono [of w "Suc n * w" dst] by auto
    then have f: "frame m0 m1 A" "same_dom m0 m1"
      using k frame_extend [OF Suc.prems(4)] same_dom_trans [OF Suc.prems(5)] by blast+
    have sp: "span (dst + of_nat w) (n * w) \<subseteq> A"
      using Suc.prems(3) span_sub [of w "n * w" "Suc n * w" dst] by simp
    have "array_loop body stride (of_nat w) m1 (src + stride) (dst + of_nat w) n
        = stores m1 (dst + of_nat w) (element_stores w n (ws \<circ> Suc))"
    proof (rule Suc.IH [OF _ _ sp f])
      fix i m assume "i < n" "frame m0 m A" "same_dom m0 m"
      then show "body m (src + stride + of_nat i * stride) (dst + of_nat w + of_nat (i * w))
          = stores m (dst + of_nat w + of_nat (i * w)) ((ws \<circ> Suc) i)"
        using Suc.prems(1) [of "Suc i" m] by (simp add: algebra_simps)
    qed (use Suc.prems(2) in simp)
    then show ?thesis using Some by (simp add: first element_stores_Suc stores_append stores_shift)
  qed
qed

section \<open>The emitters\<close>

lemmas st_defs = st16_def st32_def st64_def

lemma emits_hhdm: "emits m0 b0 (emit_tag i (sizeof struct_bbp_tag_hhdm) (fill_hhdm v)) (Item_Tag i (hhdm_body v))"
  by (rule emits_tag [where ws = "[(0, put_le 8 v)]"])
    (simp_all add: fills_def shift_def fill_hhdm_def st_defs hhdm_body_def patch_def)

lemma emits_kernel_address:
  "emits m0 b0 (emit_tag i (sizeof struct_bbp_tag_kernel_address) (fill_kernel_address p v))
     (Item_Tag i (kernel_address_body p v))"
  by (rule emits_tag [where ws = "[(0, put_le 8 p), (8, put_le 8 v)]"])
    (simp_all add: fills_def shift_def fill_kernel_address_def st_defs kernel_address_body_def patch_def)

lemma emits_acpi:
  "emits m0 b0 (emit_tag i (sizeof struct_bbp_tag_acpi) (fill_acpi ac)) (Item_Tag i (acpi_body ac))"
  by (rule emits_tag [where ws = "[(0, put_le 8 (ac_rsdp_address ac)), (8, put_le 8 (ac_xsdt_address ac)),
        (16, put_le 4 (ac_oem_id ac)), (20, put_le 2 (ac_acpi_version ac)), (22, put_le 2 (ac_flags ac))]"])
    (simp_all add: fills_def shift_def fill_acpi_def st_defs acpi_body_def patch_def)

lemma emits_framebuffer:
  "emits m0 b0 (emit_tag i (sizeof struct_bbp_tag_framebuffer + sizeof struct_bbp_display_info) (fill_framebuffer fb))
     (Item_Tag i (framebuffer_body fb))"
  by (rule emits_tag [where ws = "[(0, put_le 8 (fb_address fb)), (8, put_le 2 (1 :: u16)), (10, put_le 2 (fb_flags fb)),
        (12, put_le 4 (fb_pitch fb)), (16, put_le 8 (fb_total_size fb)), (40, put_le 2 (ucast (fb_width fb) :: u16)),
        (42, put_le 2 (ucast (fb_height fb) :: u16)), (46, put_le 2 (fb_color_depth fb)),
        (48, put_le 4 (fb_pixel_format fb))]"])
    (simp_all add: fills_def shift_def fill_framebuffer_def fill_display_def st_defs framebuffer_body_def
      display_bytes_def patch_def add.assoc)

text \<open>The command line: the checksum is computed over the source, which the stores do not touch.\<close>

lemma outside_same:
  assumes "outside_arena b0 a n" "frame m0 m (arena_span b0)"
  shows "same m0 m a n"
  using assms span_disj by (intro frame_same [OF assms(2)]) (simp add: outside_arena_def)

lemma emits_cmdline:
  assumes data: "is_data s \<noteq> 0" "load m0 (is_data s) (unat (is_bytes s)) = Some ps" "is_bytes s \<noteq> 0"
    and out: "outside_arena b0 (is_data s) (unat (is_bytes s))"
  shows "emits m0 b0 (emit_blob_tag (is_data s) (is_bytes s) i (sizeof struct_bbp_tag_cmdline) (fill_cmdline s))
    (Item_Blob_Tag ps i (cmdline_body ps))"
proof (rule emits_blob_tag [OF data(1,2) out])
  let ?n = "is_bytes s"
  let ?ws = "\<lambda>ph. [(0, put_le 8 ph), (8, put_le 4 (ucast (?n - 1) :: u32)), (16, put_le 8 (bbp_crc64 (butlast ps)))]"
  have n: "unat (?n - 1) = unat ?n - 1" "length ps = unat ?n"
    using data(3) load_length [OF data(2)] unat_diff_u64 [of 1 ?n] by (simp_all add: word_le_nat_alt unat_gt_0 Suc_le_eq)
  have ld: "load m (is_data s) (unat (?n - 1)) = Some (butlast ps)"
    if "frame m0 m (arena_span b0)" for m
  proof -
    have "load m (is_data s) (unat ?n) = Some ps" using outside_same [OF out that] data(2) same_load_all by metis
    from load_sub [OF this, of 0 "unat (?n - 1)"] show ?thesis using n by (simp add: butlast_conv_take)
  qed
  show "fills m0 b0 (unat (sizeof struct_bbp_tag_cmdline)) (fill_cmdline s ph) (shift 32 (?ws ph))" for ph
  proof -
    have "fill_cmdline s ph m tag = stores m tag (shift 32 (?ws ph))"
      if fr: "frame m0 m (arena_span b0)" and sp: "span tag 56 \<subseteq> arena_span b0" for m tag
    proof (cases "stores m tag [(32, put_le 8 ph), (40, put_le 4 (ucast (?n - 1) :: u32))]")
      case (Some m1)
      have "frame m m1 (span tag 56)" using stores_kept [OF Some, of 56] by simp
      then have "frame m0 m1 (arena_span b0)" using frame_extend [OF fr] sp by blast
      then show ?thesis using ld Some by (auto simp: fill_cmdline_def st_defs shift_def bind_eq_Some_conv split: bind_splits)
    qed (auto simp: fill_cmdline_def st_defs shift_def split: bind_splits)
    then show ?thesis by (simp add: fills_def shift_def)
  qed
  have "(ucast (?n - 1) :: u32) = of_nat (length ps - 1)" using n by (metis of_nat_unat)
  then show "cmdline_body ps ph = patches (replicate (unat (sizeof struct_bbp_tag_cmdline) - 32) 0) (?ws ph)" for ph
    by (simp add: cmdline_body_def patch_def)
qed simp

definition entry_stores :: "map_entry \<Rightarrow> (nat \<times> u8 list) list" where
  "entry_stores x = (case x of (base, len, ty, attr) \<Rightarrow>
     [(0, put_le 8 base), (8, put_le 8 len), (16, put_le 4 ty), (20, put_le 4 attr)])"

lemma entry_stores_bounds: "list_all (\<lambda>(e, qs). e + length qs \<le> 32) (entry_stores x)"
  by (simp add: entry_stores_def split: prod.splits)

lemma entry_stores_bytes: "patches (replicate 32 0) (entry_stores x) = entry_bytes x"
  by (simp add: entry_stores_def entry_bytes_def patch_def split: prod.splits)

text \<open>What is read between two stores in the arena does not depend on the first.\<close>

lemma store_then:
  assumes "frame m0 m A" "span dst w \<subseteq> A" "e + length qs \<le> w"
    and "\<And>m1. frame m0 m1 A \<Longrightarrow> f m1 = g m1"
  shows "store m (dst + of_nat e) qs \<bind> f = store m (dst + of_nat e) qs \<bind> g"
proof (cases "store m (dst + of_nat e) qs")
  case (Some m1)
  have "span (dst + of_nat e) (length qs) \<subseteq> A" using span_sub [OF assms(3)] assms(2) by (rule order_trans)
  then have "frame m0 m1 A" by (rule frame_extend [OF assms(1) frame_store [OF Some]])
  then show ?thesis using Some assms(4) by simp
qed simp

text \<open>An array of elements behind a fixed part of the tag: what is emitted is the fixed part and the bytes of
  every element.\<close>

lemma emits_elements:
  assumes fixed: "list_all (\<lambda>(e, qs). e + length qs \<le> f) hs"
    and bw: "\<And>i. i < n \<Longrightarrow> list_all (\<lambda>(e, qs). e + length qs \<le> w) (ws i)"
    and szs: "unat sz = 32 + f + n * w" "base = 32 + of_nat f"
    and fill: "\<And>m tag. fill m tag = do { m \<leftarrow> stores m tag (shift 32 hs); elements m (tag + base) }"
    and el: "\<And>m dst. frame m0 m (arena_span b0) \<Longrightarrow> same_dom m0 m \<Longrightarrow> span dst (n * w) \<subseteq> arena_span b0 \<Longrightarrow>
      elements m dst = stores m dst (element_stores w n ws)"
    and out: "bytes = patches (replicate f 0) hs @ concat (map (\<lambda>i. patches (replicate w 0) (ws i)) [0..<n])"
  shows "emits m0 b0 (emit_tag i sz fill) (Item_Tag i bytes)"
proof (rule emits_tag)
  let ?ws = "hs @ shift f (element_stores w n ws)"
  note eb = element_stores_bounds [of n w ws, OF bw]
  have "stores m tag (shift 32 ?ws) = fill m tag"
    if fr: "frame m0 m (arena_span b0)" "same_dom m0 m" and sp: "span tag (unat sz) \<subseteq> arena_span b0" for m tag
  proof (cases "stores m tag (shift 32 hs)")
    case (Some m1)
    have "list_all (\<lambda>(e, qs). e + length qs \<le> unat sz) (shift 32 hs)"
      using fixed szs(1) by (auto simp: shift_def list_all_iff)
    from stores_kept [OF Some this] have k: "frame m0 m1 (arena_span b0)" "same_dom m0 m1"
      using frame_extend [OF fr(1)] sp same_dom_trans [OF fr(2)] by blast+
    have "span (tag + of_nat (32 + f)) (n * w) \<subseteq> span tag (unat sz)" using szs(1) by (intro span_sub) simp
    then have "span (tag + of_nat (32 + f)) (n * w) \<subseteq> arena_span b0" using sp by (rule order_trans)
    from el [OF k this] have "elements m1 (tag + of_nat (32 + f)) = stores m1 tag (shift (f + 32) (element_stores w n ws))"
      by (simp only: stores_shift add.commute [of 32])
    then show ?thesis using Some szs(2) by (simp add: fill shift_append shift_shift stores_append)
  qed (simp add: fill shift_append stores_append)
  moreover have "list_all (\<lambda>(e, qs). 32 \<le> e \<and> e + length qs \<le> unat sz) (shift 32 ?ws)"
    using fixed eb szs(1) by (fastforce simp: shift_def list_all_iff)
  ultimately show "fills m0 b0 (unat sz) fill (shift 32 ?ws)" by (simp add: fills_def)
  have z: "replicate (unat sz - 32) 0 = replicate f 0 @ (replicate (n * w) 0 :: u8 list)"
    using szs(1) by (simp add: replicate_add)
  show "bytes = patches (replicate (unat sz - 32) 0) ?ws"
    using patches_left [of "replicate f 0" hs "replicate (n * w) 0"] fixed eb
      patches_shift [of "replicate (n * w) 0" "element_stores w n ws" "patches (replicate f 0) hs"]
      patches_elements [of n w ws, OF bw] by (simp add: out z patches_append)
qed (use szs(1) in simp)

lemma element_span:
  assumes "i < n" "span dst (n * w) \<subseteq> A"
  shows "span (dst + of_nat (i * w)) w \<subseteq> A"
proof -
  have "Suc i * w \<le> n * w" using assms(1) by (intro mult_le_mono1) simp
  then have "span (dst + of_nat (i * w)) w \<subseteq> span dst (n * w)" by (intro span_sub) simp
  then show ?thesis using assms(2) by (rule order_trans)
qed

lemma emits_array:
  assumes fixed: "list_all (\<lambda>(e, qs). e + length qs \<le> f) hs"
    and el: "\<And>i m dst. i < n \<Longrightarrow> frame m0 m (arena_span b0) \<Longrightarrow> span dst w \<subseteq> arena_span b0 \<Longrightarrow>
      body m (src + of_nat i * stride) dst = stores m dst (ws i)"
    and bw: "\<And>i. i < n \<Longrightarrow> list_all (\<lambda>(e, qs). e + length qs \<le> w) (ws i)"
    and szs: "unat sz = 32 + f + n * w" "width = of_nat w" "base = 32 + of_nat f"
    and fill: "\<And>m tag. fill m tag = do { m \<leftarrow> stores m tag (shift 32 hs); array_loop body stride width m src (tag + base) n }"
    and out: "bytes = patches (replicate f 0) hs @ concat (map (\<lambda>i. patches (replicate w 0) (ws i)) [0..<n])"
  shows "emits m0 b0 (emit_tag i sz fill) (Item_Tag i bytes)"
proof (rule emits_elements [OF fixed bw szs(1,3) fill _ out])
  fix m dst assume m: "frame m0 m (arena_span b0)" "same_dom m0 m" and sp: "span dst (n * w) \<subseteq> arena_span b0"
  show "array_loop body stride width m src dst n = stores m dst (element_stores w n ws)" unfolding szs(2)
    by (rule array_loop_stores [OF _ bw sp m]) (rule el, assumption, assumption, erule element_span [OF _ sp])
qed

lemma emits_memory_map:
  assumes el: "\<And>i m dst. i < length es \<Longrightarrow> frame m0 m (arena_span b0) \<Longrightarrow> span dst 32 \<subseteq> arena_span b0 \<Longrightarrow>
      body m (src + of_nat i * stride) dst = stores m dst (entry_stores (es ! i))"
    and sz: "unat tag_size = 40 + length es * 32" "count = of_nat (length es)" "length es < 2 ^ 32"
  shows "emits m0 b0 (emit_tag i tag_size (fill_memory_map body stride src count)) (Item_Tag i (memory_map_body es))"
proof (rule emits_array [where f = 8 and w = 32 and hs = "[(0, put_le 4 count), (4, put_le 4 (32 :: u32))]"
      and ws = "\<lambda>i. entry_stores (es ! i)"])
  have u: "unat count = length es" using sz by (simp add: unat_of_nat_u32)
  show "fill_memory_map body stride src count m tag =
      stores m tag (shift 32 [(0, put_le 4 count), (4, put_le 4 (32 :: u32))]) \<bind>
      (\<lambda>m. array_loop body stride (sizeof struct_bbp_memory_entry) m src (tag + sizeof struct_bbp_tag_memory_map) (length es))"
    for m tag by (simp add: fill_memory_map_def st_defs shift_def u)
  have "map (\<lambda>i. patches (replicate 32 0) (entry_stores (es ! i))) [0..<length es] = map entry_bytes es"
    unfolding entry_stores_bytes by (rule nth_equalityI) simp_all
  then show "memory_map_body es = patches (replicate 8 0) [(0, put_le 4 count), (4, put_le 4 (32 :: u32))] @
      concat (map (\<lambda>i. patches (replicate 32 0) (entry_stores (es ! i))) [0..<length es])"
    by (simp add: memory_map_body_def sz(2) patch_def)
  show "unat tag_size = 32 + 8 + length es * 32" using sz(1) by simp
  show "body m (src + of_nat i * stride) dst = stores m dst (entry_stores (es ! i))"
    if "i < length es" "frame m0 m (arena_span b0)" "span dst 32 \<subseteq> arena_span b0" for i m dst using that by (rule el)
qed (simp_all add: entry_stores_bounds)

text \<open>An accepted array size is exact.\<close>

lemma array_tag_size_ok:
  assumes "bbp_import_array_tag_size fixed count element (Some z) = (BBP_IMPORT_OK, out)"
  obtains t where "out = Some t" "unat t = unat fixed + unat count * unat element" "unat count < 2 ^ 32" "unat t \<le> 2 ^ 24"
proof -
  let ?t = "fixed + count * element"
  have c: "\<not> count > ucast BBP_IMPORT_U32_MAX" "\<not> count > (BBP_IMPORT_SIZE_MAX - fixed) div element" "element \<noteq> 0"
    "\<not> ?t > BBP_IMPORT_MAX_TAG_SIZE" "out = Some ?t"
    using assms by (auto simp: bbp_import_array_tag_size_def Let_def split: if_splits)
  have "unat (- 1 - fixed) = 2 ^ 64 - 1 - unat fixed"
    by (simp add: unat_diff_u64 unsigned_minus_1_eq_mask mask_eq_exp_minus_1)
  then have "unat count \<le> (2 ^ 64 - 1 - unat fixed) div unat element"
    using c(2) by (simp add: not_less word_le_nat_alt unat_div BBP_IMPORT_SIZE_MAX_def)
  then have "unat count * unat element \<le> 2 ^ 64 - 1 - unat fixed"
    using c(3) by (simp add: less_eq_div_iff_mult_less_eq unat_gt_0)
  then have "unat fixed + unat count * unat element < 2 ^ 64" using unat_u64_less [of fixed] by simp
  then have "unat ?t = unat fixed + unat count * unat element" by (simp add: unat_word_ariths)
  moreover have "unat count < 2 ^ 32"
    using c(1) by (simp add: BBP_IMPORT_U32_MAX_def umax not_less word_le_nat_alt)
  moreover have "unat ?t \<le> 2 ^ 24" using c(4) by (simp add: BBP_IMPORT_MAX_TAG_SIZE_def not_less word_le_nat_alt)
  ultimately show thesis using c(5) that by blast
qed

text \<open>The elements of a source array outside the arena never change.\<close>

lemma element_same:
  assumes "outside_arena b0 a (n * w)" "frame m0 m (arena_span b0)" "i < n"
  shows "same m0 m (a + of_nat i * of_nat w) w"
proof -
  have "Suc i * w \<le> n * w" using assms(3) by (intro mult_le_mono1) simp
  then show ?thesis using same_sub [OF outside_same [OF assms(1,2)], of "i * w" w] by simp
qed

text \<open>A string that lies outside the arena and is accepted can be copied.\<close>

definition check_string :: "mem \<Rightarrow> bbp_builder \<Rightarrow> bbp_import_string \<Rightarrow> unit check" where
  "check_string m b string =
     (if bbp_import_ranges_overlap (is_data string) (is_bytes string) (b_arena b) (b_capacity b)
      then Some (Inl BBP_IMPORT_ERR_RANGE)
      else do { status \<leftarrow> bbp_import_validate_string m string; status_check status })"

lemma validate_string_total:
  assumes "is_data s \<noteq> 0 \<Longrightarrow> load m (is_data s) (unat (is_bytes s)) = Some ps"
  obtains st where "bbp_import_validate_string m s = Some st"
    "st = BBP_IMPORT_OK \<longrightarrow> is_data s \<noteq> 0 \<and> is_bytes s \<noteq> 0"
proof (cases "is_data s = 0 \<or> is_bytes s = 0")
  case True
  then show thesis using that by (auto simp: bbp_import_validate_string_def)
next
  case False
  let ?n = "is_bytes s"
  have ld: "load m (is_data s) (unat ?n) = Some ps" using False assms by simp
  have n: "unat (?n - 1) = unat ?n - 1" "0 < unat ?n"
    using False unat_diff_u64 [of 1 ?n] by (simp_all add: word_le_nat_alt unat_gt_0 Suc_le_eq)
  have "m (is_data s + of_nat (unat (?n - 1))) = Some (ps ! unat (?n - 1))"
    using ld n by (simp only: load_eq_Some_iff)
  then have "m (is_data s + (?n - 1)) = Some (ps ! unat (?n - 1))" by simp
  moreover have "load m (is_data s) (unat (?n - 1)) = Some (take (unat (?n - 1)) ps)" using load_sub [OF ld, of 0] n by simp
  then have "scan_string m (is_data s) (?n - 1) 0 = Some (utf8 (take (unat (?n - 1)) ps))"
    using scan_string_eq [of m "is_data s" "?n - 1"] by simp
  ultimately have "\<exists>st. bbp_import_validate_string m s = Some st" by (simp add: bbp_import_validate_string_def)
  then show thesis using that False by blast
qed

lemma check_string_ok:
  assumes src: "is_data s \<noteq> 0 \<Longrightarrow> load m (is_data s) (unat (is_bytes s)) = Some ps"
  shows "check_ok (check_string m b s)"
    and "check_string m b s = Some (Inr u) \<Longrightarrow>
      emits m b (emit_blob_tag (is_data s) (is_bytes s) i (sizeof struct_bbp_tag_cmdline) (fill_cmdline s))
        (Item_Blob_Tag ps i (cmdline_body ps)) \<and> is_bytes s = of_nat (length ps)"
proof -
  obtain st where st: "bbp_import_validate_string m s = Some st" "st = BBP_IMPORT_OK \<longrightarrow> is_data s \<noteq> 0 \<and> is_bytes s \<noteq> 0"
    by (rule validate_string_total [OF src])
  show "check_ok (check_string m b s)" using st(1) by (simp add: check_string_def)
  assume "check_string m b s = Some (Inr u)"
  then have ok: "\<not> bbp_import_ranges_overlap (is_data s) (is_bytes s) (b_arena b) (b_capacity b)" "st = BBP_IMPORT_OK"
    using st(1) by (auto simp: check_string_def status_check_def refuse_if_def split: if_splits)
  then have d: "is_data s \<noteq> 0" "is_bytes s \<noteq> 0" "outside_arena b (is_data s) (unat (is_bytes s))"
    using st(2) ranges_apart by (simp_all add: outside_arena_def)
  moreover have "is_bytes s = of_nat (length ps)" using load_length [OF src [OF d(1)]] by simp
  ultimately show "emits m b (emit_blob_tag (is_data s) (is_bytes s) i (sizeof struct_bbp_tag_cmdline) (fill_cmdline s))
        (Item_Blob_Tag ps i (cmdline_body ps)) \<and> is_bytes s = of_nat (length ps)"
    using emits_cmdline src by blast
qed

lemma plan_if_cong: "c = c' \<Longrightarrow> (c' \<Longrightarrow> f = f') \<Longrightarrow> plan_if c f = plan_if c' f'"
  by (auto simp: plan_if_def)

lemma present_items_simps [simp]:
  "present_items [] = []" "present_items ((c, e, x) # parts) = (if c then [x] else []) @ present_items parts"
  by (simp_all add: present_items_def)

lemma part_steps_simps [simp]:
  "part_steps b (c, e, Item_Tag i bytes) = [plan_if c (\<lambda>p. bbp_import_plan_tag b p (of_nat (32 + length bytes)))]"
  "part_steps b (c, e, Item_Blob_Tag ps i f) = [plan_if c (\<lambda>p. bbp_import_plan_blob b p (of_nat (length ps))),
     plan_if c (\<lambda>p. bbp_import_plan_tag b p (of_nat (32 + length (f 0))))]"
  by (simp_all add: part_steps_def)

lemma length_bodies [simp]:
  "length (hhdm_body v) = 8" "length (kernel_address_body p v) = 16" "length (cmdline_body ps a) = 24"
  "length (framebuffer_body fb) = 88" "length (acpi_body ac) = 24"
  by (simp_all add: hhdm_body_def kernel_address_body_def cmdline_body_def framebuffer_body_def display_bytes_def acpi_body_def)

text \<open>Beginning a plan: the builder is refused, or planning goes on.\<close>

lemma begin_outcome:
  assumes wf: "wf_builder m b ts"
    and next_stage: "\<And>p. bbp_import_plan_begin m (Some b) (Some p0) = Some (BBP_IMPORT_OK, Some p) \<Longrightarrow>
      import_outcome m b ts items (f p)"
  shows "import_outcome m b ts items (do {
      (status, plan) \<leftarrow> bbp_import_plan_begin m (Some b) (Some p0);
      plan \<leftarrow> plan;
      if status \<noteq> BBP_IMPORT_OK then Some (status, m, Some b) else f plan })"
proof -
  obtain st p where "bbp_import_plan_begin m (Some b) (Some p0) = Some (st, Some p)" by (rule plan_begin_total [OF wf])
  then show ?thesis using next_stage [of p] by (cases "st = BBP_IMPORT_OK") (simp_all add: outcome_refused)
qed

lemma checks_outcome:
  assumes "check_ok c" "\<And>x. c = Some (Inr x) \<Longrightarrow> import_outcome m b ts items (f x)"
  shows "import_outcome m b ts items (do { r \<leftarrow> c; case r of Inl status \<Rightarrow> Some (status, m, Some b) | Inr x \<Rightarrow> f x })"
  using assms by (cases c) (auto simp: check_ok_def split: sum.splits intro: outcome_refused)

section \<open>Unaligned little-endian reads\<close>

definition read_u32 :: "mem \<Rightarrow> u64 \<Rightarrow> u32 option" where
  "read_u32 m p =
     do {
       p0 \<leftarrow> m p; p1 \<leftarrow> m (p + 1); p2 \<leftarrow> m (p + 2); p3 \<leftarrow> m (p + 3);
       Some (((ucast p0 OR push_bit 8 (ucast p1)) OR push_bit 16 (ucast p2)) OR push_bit 24 (ucast p3))
     }"

definition read_u64 :: "mem \<Rightarrow> u64 \<Rightarrow> u64 option" where
  "read_u64 m p = do { low \<leftarrow> read_u32 m p; high \<leftarrow> read_u32 m (p + 4); Some (ucast low OR push_bit 32 (ucast high)) }"

lemma load_4: "load m p 4 = do { a \<leftarrow> m p; b \<leftarrow> m (p + 1); c \<leftarrow> m (p + 2); d \<leftarrow> m (p + 3); Some [a, b, c, d] }"
  by (simp add: load_def upt_rec split: option.splits)

lemma get_le_4: "(get_le [a, b, c, d] :: u32) = ((ucast a OR push_bit 8 (ucast b)) OR push_bit 16 (ucast c)) OR push_bit 24 (ucast d)"
proof (rule bit_word_eqI)
  fix n assume "n < LENGTH(32)"
  then have n: "n < 32" by simp
  have r: "n div 8 = 0 \<and> n < 8 \<or> n div 8 = 1 \<and> 8 \<le> n \<and> n < 16 \<or> n div 8 = 2 \<and> 16 \<le> n \<and> n < 24 \<or> n div 8 = 3 \<and> 24 \<le> n"
    using n by linarith
  have far: "\<not> bit x k" if "8 \<le> k" for x :: u8 and k using bit_imp_le_length [of x k] that by auto
  show "bit (get_le [a, b, c, d] :: u32) n = bit (((ucast a OR push_bit 8 (ucast b)) OR push_bit 16 (ucast c)) OR push_bit 24 (ucast d) :: u32) n"
    using n r far by (auto simp: bit_get_le bit_or_iff bit_push_bit_iff bit_ucast_iff numeral_2_eq_2 numeral_3_eq_3 minus_div_mult_eq_mod [symmetric])
qed

lemma read_u32_eq: "read_u32 m p = ld32 m p"
  by (simp add: read_u32_def ld32_def load_4 get_le_4 bind_map_option map_option_bind split: bind_splits)

lemma get_le_8:
  assumes "length ps = 4" "length qs = 4"
  shows "(get_le (ps @ qs) :: u64) = ucast (get_le ps :: u32) OR push_bit 32 (ucast (get_le qs :: u32))"
proof (rule bit_word_eqI)
  fix n assume "n < LENGTH(64)"
  then have n: "n < 64" by simp
  show "bit (get_le (ps @ qs) :: u64) n = bit (ucast (get_le ps :: u32) OR push_bit 32 (ucast (get_le qs :: u32)) :: u64) n"
  proof (cases "n < 32")
    case True
    then show ?thesis using n assms by (auto simp: bit_get_le bit_or_iff bit_push_bit_iff bit_ucast_iff nth_append)
  next
    case False
    then have "n = (n - 32) + 32" by simp
    then obtain k where k: "n = k + 32" by blast
    have d: "(k + 32) div 8 = k div 8 + 4" "(k + 32) mod 8 = k mod 8" by presburger+
    show ?thesis using n k assms by (simp add: bit_get_le bit_or_iff bit_push_bit_iff bit_ucast_iff nth_append d)
  qed
qed

lemma read_u64_eq: "read_u64 m p = ld64 m p"
proof (cases "load m p 8")
  case None
  have "load m p 4 = None \<or> load m (p + 4) 4 = None"
    using None load_append [of m p 4 _ 4] by (cases "load m p 4"; cases "load m (p + 4) 4") auto
  then show ?thesis using None by (auto simp: read_u64_def read_u32_eq ld32_def ld64_def)
next
  case (Some ps)
  have l: "load m p 4 = Some (take 4 ps)" "load m (p + 4) 4 = Some (drop 4 ps)"
    using load_sub [OF Some, of 0 4] load_sub [OF Some, of 4 4] load_length [OF Some] by simp_all
  then show ?thesis
    using get_le_8 [of "take 4 ps" "drop 4 ps"] load_length [OF Some] Some
    by (simp add: read_u64_def read_u32_eq ld32_def ld64_def)
qed

section \<open>Arrays of a stride\<close>

text \<open>Descriptors of \<open>w\<close> bytes.\<close>

definition descriptors :: "nat \<Rightarrow> u8 list \<Rightarrow> u8 list list" where
  "descriptors w ms = map (\<lambda>i. take w (drop (i * w) ms)) [0..<length ms div w]"

text \<open>The bytes of descriptor \<open>i\<close> of a readable map.\<close>

lemma descriptor_load:
  assumes "load m a n = Some ms" "i < n div w"
  shows "load m (a + of_nat i * of_nat w) w = Some (descriptors w ms ! i)"
proof -
  have "Suc i * w \<le> n div w * w" using assms(2) by (intro mult_le_mono1) simp
  also have "\<dots> \<le> n" by simp
  finally show ?thesis using load_sub [OF assms(1), of "i * w" w] assms(2) load_length [OF assms(1)]
    by (simp add: descriptors_def)
qed

end
