(* ===== verification/Import_Limine.thy ===== *)
theory Import_Limine
  imports Import_Tags
begin

text \<open>
  The Limine importer, \<open>bootloader/bbp_import_limine.c\<close>. The snapshot is a record together with its address;
  the memory map and processor arrays and the command line are read from memory. The main theorem says that
  an import either changes nothing or lays out exactly the tags the snapshot describes.
\<close>

section \<open>Model\<close>

definition BBP_CPU_STATE_STOPPED :: u16 where "BBP_CPU_STATE_STOPPED = 0"
definition BBP_CPU_STATE_RUNNING :: u16 where "BBP_CPU_STATE_RUNNING = 1"
definition BBP_SMP_FLAG_X2APIC :: u64 where "BBP_SMP_FLAG_X2APIC = push_bit 0 1"

record bbp_limine_snapshot =
  lm_present :: u64
  lm_hhdm_offset :: u64
  lm_kernel_physical_base :: u64
  lm_kernel_virtual_base :: u64
  lm_memory_map :: u64
  lm_memory_map_count :: u64
  lm_cpus :: u64
  lm_cpu_count :: u64
  lm_bsp_apic_id :: u32
  lm_x2apic :: u8
  lm_command_line :: bbp_import_string
  lm_framebuffer :: bbp_import_framebuffer
  lm_acpi :: bbp_import_acpi

text \<open>Sizes of the C structures: the snapshot, a \<open>bbp_limine_mmap_entry\<close> and a \<open>bbp_limine_cpu\<close>.\<close>

definition LIMINE_SNAPSHOT_BYTES :: u64 where "LIMINE_SNAPSHOT_BYTES = 152"
definition LIMINE_ENTRY_BYTES :: u64 where "LIMINE_ENTRY_BYTES = 24"
definition LIMINE_CPU_BYTES :: u64 where "LIMINE_CPU_BYTES = 8"

definition LIMINE_ALLOWED :: u64 where
  "LIMINE_ALLOWED = BBP_IMPORT_HAS_HHDM OR BBP_IMPORT_HAS_MEMORY_MAP OR BBP_IMPORT_HAS_KERNEL_ADDRESS
     OR BBP_IMPORT_HAS_SMP OR BBP_IMPORT_HAS_CMDLINE OR BBP_IMPORT_HAS_FRAMEBUFFER OR BBP_IMPORT_HAS_ACPI"

definition limine_memory_type :: "u64 \<Rightarrow> u32" where
  "limine_memory_type type =
     (let types = [BBP_MEM_USABLE, BBP_MEM_RESERVED, BBP_MEM_ACPI_RECLAIMABLE, BBP_MEM_ACPI_NVS,
        BBP_MEM_BAD_MEMORY, BBP_MEM_BOOTLOADER_RECLAIM, BBP_MEM_KERNEL_AND_MODULES, BBP_MEM_FRAMEBUFFER] in
      if type < 8 then types ! unat type else BBP_MEM_RESERVED)"

definition limine_memory_attributes :: "u32 \<Rightarrow> u32" where
  "limine_memory_attributes type =
     (if type = BBP_MEM_USABLE \<or> type = BBP_MEM_BOOTLOADER_RECLAIM \<or> type = BBP_MEM_KERNEL_AND_MODULES
        \<or> type = BBP_MEM_FRAMEBUFFER then BBP_MEM_ATTR_READABLE OR BBP_MEM_ATTR_WRITABLE
      else if type = BBP_MEM_ACPI_RECLAIMABLE \<or> type = BBP_MEM_ACPI_NVS then BBP_MEM_ATTR_READABLE
      else 0)"

definition limine_validate_acpi :: "bbp_import_acpi \<Rightarrow> bbp_import_status" where
  "limine_validate_acpi acpi =
     (if \<not> bbp_import_phys_address_valid (ac_rsdp_address acpi) False
        \<or> \<not> bbp_import_phys_address_valid (ac_xsdt_address acpi) True then BBP_IMPORT_ERR_RANGE
      else if ac_flags acpi AND NOT (BBP_ACPI_FLAG_XSDT_AVAILABLE OR BBP_ACPI_FLAG_SPCR_AVAILABLE) \<noteq> 0
      then BBP_IMPORT_ERR_FLAGS
      else if (ac_flags acpi AND BBP_ACPI_FLAG_XSDT_AVAILABLE \<noteq> 0) \<noteq> (ac_xsdt_address acpi \<noteq> 0)
      then BBP_IMPORT_ERR_FLAGS
      else BBP_IMPORT_OK)"

definition limine_emit_hhdm :: "u64 \<Rightarrow> build_state \<Rightarrow> build_state option" where
  "limine_emit_hhdm offset = emit_tag BBP_TAG_HHDM (sizeof struct_bbp_tag_hhdm) (fill_hhdm offset)"

definition limine_emit_kernel_address :: "bbp_limine_snapshot \<Rightarrow> build_state \<Rightarrow> build_state option" where
  "limine_emit_kernel_address s = emit_tag BBP_TAG_KERNEL_ADDRESS (sizeof struct_bbp_tag_kernel_address)
     (fill_kernel_address (lm_kernel_physical_base s) (lm_kernel_virtual_base s))"

text \<open>One iteration of the loop over the memory map.\<close>

definition limine_copy_entry :: "mem \<Rightarrow> u64 \<Rightarrow> u64 \<Rightarrow> mem option" where
  "limine_copy_entry m source entry =
     do {
       base \<leftarrow> ld64 m source;
       m \<leftarrow> st64 m (entry + off struct_bbp_memory_entry ''base'') base;
       len \<leftarrow> ld64 m (source + 8);
       m \<leftarrow> st64 m (entry + off struct_bbp_memory_entry ''length'') len;
       ty \<leftarrow> ld64 m (source + 16);
       let type = limine_memory_type ty;
       m \<leftarrow> st32 m (entry + off struct_bbp_memory_entry ''type'') type;
       st32 m (entry + off struct_bbp_memory_entry ''attributes'') (limine_memory_attributes type)
     }"

definition limine_emit_memory_map :: "bbp_limine_snapshot \<Rightarrow> u64 \<Rightarrow> build_state \<Rightarrow> build_state option" where
  "limine_emit_memory_map s tag_size = emit_tag BBP_TAG_MEMORY_MAP tag_size
     (fill_memory_map limine_copy_entry LIMINE_ENTRY_BYTES (lm_memory_map s) (ucast (lm_memory_map_count s)))"

definition limine_copy_cpu :: "u32 \<Rightarrow> mem \<Rightarrow> u64 \<Rightarrow> u64 \<Rightarrow> mem option" where
  "limine_copy_cpu bsp_apic_id m source cpu =
     do {
       processor_id \<leftarrow> ld32 m source;
       m \<leftarrow> st32 m (cpu + off struct_bbp_cpu_info ''processor_id'') processor_id;
       apic_id \<leftarrow> ld32 m (source + 4);
       m \<leftarrow> st32 m (cpu + off struct_bbp_cpu_info ''apic_id'') apic_id;
       apic_id \<leftarrow> ld32 m (source + 4);
       st16 m (cpu + off struct_bbp_cpu_info ''state'')
         (if apic_id = bsp_apic_id then BBP_CPU_STATE_RUNNING else BBP_CPU_STATE_STOPPED)
     }"

definition limine_fill_smp :: "bbp_limine_snapshot \<Rightarrow> mem \<Rightarrow> u64 \<Rightarrow> mem option" where
  "limine_fill_smp s m tag =
     (let count = ucast (lm_cpu_count s) :: u32 in
      do {
        m \<leftarrow> st32 m (tag + off struct_bbp_tag_smp ''cpu_count'') count;
        m \<leftarrow> st32 m (tag + off struct_bbp_tag_smp ''bsp_id'') (lm_bsp_apic_id s);
        m \<leftarrow> st64 m (tag + off struct_bbp_tag_smp ''flags'') (if lm_x2apic s \<noteq> 0 then BBP_SMP_FLAG_X2APIC else 0);
        array_loop (limine_copy_cpu (lm_bsp_apic_id s)) LIMINE_CPU_BYTES (sizeof struct_bbp_cpu_info) m (lm_cpus s)
          (tag + sizeof struct_bbp_tag_smp) (unat count)
      })"

definition limine_emit_smp :: "bbp_limine_snapshot \<Rightarrow> u64 \<Rightarrow> build_state \<Rightarrow> build_state option" where
  "limine_emit_smp s tag_size = emit_tag BBP_TAG_SMP tag_size (limine_fill_smp s)"

definition limine_emit_cmdline :: "bbp_import_string \<Rightarrow> build_state \<Rightarrow> build_state option" where
  "limine_emit_cmdline string =
     emit_blob_tag (is_data string) (is_bytes string) BBP_TAG_CMDLINE (sizeof struct_bbp_tag_cmdline) (fill_cmdline string)"

definition limine_emit_framebuffer :: "bbp_import_framebuffer \<Rightarrow> build_state \<Rightarrow> build_state option" where
  "limine_emit_framebuffer source = emit_tag BBP_TAG_FRAMEBUFFER
     (sizeof struct_bbp_tag_framebuffer + sizeof struct_bbp_display_info) (fill_framebuffer source)"

definition limine_emit_acpi :: "bbp_import_acpi \<Rightarrow> build_state \<Rightarrow> build_state option" where
  "limine_emit_acpi source = emit_tag BBP_TAG_ACPI (sizeof struct_bbp_tag_acpi) (fill_acpi source)"

definition limine_has :: "bbp_limine_snapshot \<Rightarrow> u64 \<Rightarrow> bool" where
  "limine_has s flag \<longleftrightarrow> lm_present s AND flag \<noteq> 0"

fun limine_entries_valid :: "mem \<Rightarrow> u64 \<Rightarrow> nat \<Rightarrow> bool option" where
  "limine_entries_valid m entry 0 = Some True"
| "limine_entries_valid m entry (Suc n) =
     do {
       base \<leftarrow> ld64 m entry;
       len \<leftarrow> ld64 m (entry + 8);
       if \<not> bbp_import_phys_range_valid base len then Some False
       else limine_entries_valid m (entry + LIMINE_ENTRY_BYTES) n
     }"

text \<open>The checks of the memory map; the value is \<open>memory_map_size\<close>.\<close>

definition limine_check_memory_map :: "mem \<Rightarrow> bbp_builder \<Rightarrow> bbp_limine_snapshot \<Rightarrow> u64 check" where
  "limine_check_memory_map m b s =
     (if \<not> limine_has s BBP_IMPORT_HAS_MEMORY_MAP then Some (Inr 0)
      else if lm_memory_map s = 0 \<or> lm_memory_map_count s = 0 then Some (Inl BBP_IMPORT_ERR_NULL)
      else case bbp_import_array_tag_size (sizeof struct_bbp_tag_memory_map) (lm_memory_map_count s)
          (sizeof struct_bbp_memory_entry) (Some 0) of
        (status, tag_size) \<Rightarrow>
          if status \<noteq> BBP_IMPORT_OK then Some (Inl status)
          else if bbp_import_ranges_overlap (lm_memory_map s) (lm_memory_map_count s * LIMINE_ENTRY_BYTES)
            (b_arena b) (b_capacity b) then Some (Inl BBP_IMPORT_ERR_RANGE)
          else do {
            valid \<leftarrow> limine_entries_valid m (lm_memory_map s) (unat (lm_memory_map_count s));
            tag_size \<leftarrow> tag_size;
            Some (if valid then Inr tag_size else Inl BBP_IMPORT_ERR_RANGE)
          })"

text \<open>The inner loop looks for the identifier of processor \<open>i\<close> among the first \<open>i\<close> processors.\<close>

fun limine_apic_repeated :: "mem \<Rightarrow> u64 \<Rightarrow> u32 \<Rightarrow> nat \<Rightarrow> bool option" where
  "limine_apic_repeated m cpu apic_id 0 = Some False"
| "limine_apic_repeated m cpu apic_id (Suc n) =
     do {
       other \<leftarrow> ld32 m (cpu + 4);
       if apic_id = other then Some True else limine_apic_repeated m (cpu + LIMINE_CPU_BYTES) apic_id n
     }"

fun limine_scan_cpus :: "mem \<Rightarrow> u64 \<Rightarrow> u32 \<Rightarrow> bool \<Rightarrow> nat \<Rightarrow> nat \<Rightarrow> bool check" where
  "limine_scan_cpus m cpus bsp_apic_id bsp_found i 0 = Some (Inr bsp_found)"
| "limine_scan_cpus m cpus bsp_apic_id bsp_found i (Suc n) =
     do {
       apic_id \<leftarrow> ld32 m (cpus + of_nat i * LIMINE_CPU_BYTES + 4);
       repeated \<leftarrow> limine_apic_repeated m cpus apic_id i;
       if repeated then Some (Inl BBP_IMPORT_ERR_DUPLICATE)
       else limine_scan_cpus m cpus bsp_apic_id (bsp_found \<or> apic_id = bsp_apic_id) (Suc i) n
     }"

text \<open>The checks of the processors; the value is \<open>smp_size\<close>.\<close>

definition limine_check_smp :: "mem \<Rightarrow> bbp_builder \<Rightarrow> bbp_limine_snapshot \<Rightarrow> u64 check" where
  "limine_check_smp m b s =
     (if \<not> limine_has s BBP_IMPORT_HAS_SMP then Some (Inr 0)
      else if lm_cpus s = 0 \<or> lm_cpu_count s = 0 then Some (Inl BBP_IMPORT_ERR_NULL)
      else if lm_x2apic s > 1 then Some (Inl BBP_IMPORT_ERR_FLAGS)
      else case bbp_import_array_tag_size (sizeof struct_bbp_tag_smp) (lm_cpu_count s)
          (sizeof struct_bbp_cpu_info) (Some 0) of
        (status, tag_size) \<Rightarrow>
          if status \<noteq> BBP_IMPORT_OK then Some (Inl status)
          else if bbp_import_ranges_overlap (lm_cpus s) (lm_cpu_count s * LIMINE_CPU_BYTES)
            (b_arena b) (b_capacity b) then Some (Inl BBP_IMPORT_ERR_RANGE)
          else and_then (limine_scan_cpus m (lm_cpus s) (lm_bsp_apic_id s) False 0 (unat (lm_cpu_count s))) (\<lambda>bsp_found.
            if \<not> bsp_found then Some (Inl BBP_IMPORT_ERR_RANGE) else map_option Inr tag_size))"

definition limine_check_cmdline :: "mem \<Rightarrow> bbp_builder \<Rightarrow> bbp_limine_snapshot \<Rightarrow> unit check" where
  "limine_check_cmdline m b s =
     (if \<not> limine_has s BBP_IMPORT_HAS_CMDLINE then Some (Inr ())
      else check_string m b (lm_command_line s))"

text \<open>All checks in the order of the code; the value is \<open>memory_map_size\<close> and \<open>smp_size\<close>.\<close>

definition limine_checks :: "mem \<Rightarrow> bbp_builder \<Rightarrow> bbp_limine_snapshot \<Rightarrow> (u64 \<times> u64) check" where
  "limine_checks m b s =
     and_then (limine_check_memory_map m b s) (\<lambda>memory_map_size.
     and_then (refuse_if (limine_has s BBP_IMPORT_HAS_KERNEL_ADDRESS \<and>
       (\<not> bbp_import_phys_address_valid (lm_kernel_physical_base s) True \<or> lm_kernel_virtual_base s = 0))
       BBP_IMPORT_ERR_RANGE) (\<lambda>_.
     and_then (limine_check_smp m b s) (\<lambda>smp_size.
     and_then (limine_check_cmdline m b s) (\<lambda>_.
     and_then (if limine_has s BBP_IMPORT_HAS_FRAMEBUFFER
       then status_check (bbp_import_validate_framebuffer (Some (lm_framebuffer s))) else Some (Inr ())) (\<lambda>_.
     and_then (if limine_has s BBP_IMPORT_HAS_ACPI
       then status_check (limine_validate_acpi (lm_acpi s)) else Some (Inr ())) (\<lambda>_.
     Some (Inr (memory_map_size, smp_size))))))))"

definition limine_plan ::
  "bbp_builder \<Rightarrow> bbp_limine_snapshot \<Rightarrow> u64 \<Rightarrow> u64 \<Rightarrow> (bbp_import_plan \<Rightarrow> bbp_import_plan check) list" where
  "limine_plan b s memory_map_size smp_size =
     [plan_if (limine_has s BBP_IMPORT_HAS_HHDM) (\<lambda>p. bbp_import_plan_tag b p (sizeof struct_bbp_tag_hhdm)),
      plan_if (limine_has s BBP_IMPORT_HAS_MEMORY_MAP) (\<lambda>p. bbp_import_plan_tag b p memory_map_size),
      plan_if (limine_has s BBP_IMPORT_HAS_KERNEL_ADDRESS)
        (\<lambda>p. bbp_import_plan_tag b p (sizeof struct_bbp_tag_kernel_address)),
      plan_if (limine_has s BBP_IMPORT_HAS_SMP) (\<lambda>p. bbp_import_plan_tag b p smp_size),
      plan_if (limine_has s BBP_IMPORT_HAS_CMDLINE) (\<lambda>p. bbp_import_plan_blob b p (is_bytes (lm_command_line s))),
      plan_if (limine_has s BBP_IMPORT_HAS_CMDLINE) (\<lambda>p. bbp_import_plan_tag b p (sizeof struct_bbp_tag_cmdline)),
      plan_if (limine_has s BBP_IMPORT_HAS_FRAMEBUFFER)
        (\<lambda>p. bbp_import_plan_tag b p (sizeof struct_bbp_tag_framebuffer + sizeof struct_bbp_display_info)),
      plan_if (limine_has s BBP_IMPORT_HAS_ACPI) (\<lambda>p. bbp_import_plan_tag b p (sizeof struct_bbp_tag_acpi))]"

definition limine_emitters :: "bbp_limine_snapshot \<Rightarrow> u64 \<Rightarrow> u64 \<Rightarrow> (build_state \<Rightarrow> build_state option) list" where
  "limine_emitters s memory_map_size smp_size =
     [emit_if (limine_has s BBP_IMPORT_HAS_HHDM) (limine_emit_hhdm (lm_hhdm_offset s)),
      emit_if (limine_has s BBP_IMPORT_HAS_MEMORY_MAP) (limine_emit_memory_map s memory_map_size),
      emit_if (limine_has s BBP_IMPORT_HAS_KERNEL_ADDRESS) (limine_emit_kernel_address s),
      emit_if (limine_has s BBP_IMPORT_HAS_SMP) (limine_emit_smp s smp_size),
      emit_if (limine_has s BBP_IMPORT_HAS_CMDLINE) (limine_emit_cmdline (lm_command_line s)),
      emit_if (limine_has s BBP_IMPORT_HAS_FRAMEBUFFER) (limine_emit_framebuffer (lm_framebuffer s)),
      emit_if (limine_has s BBP_IMPORT_HAS_ACPI) (limine_emit_acpi (lm_acpi s))]"

definition bbp_import_limine :: "mem \<Rightarrow> bbp_builder option \<Rightarrow> (u64 \<times> bbp_limine_snapshot) option \<Rightarrow> import_result" where
  "bbp_import_limine m builder snapshot =
     (case (builder, snapshot) of
        (Some b, Some (address, s)) \<Rightarrow>
          if bbp_import_ranges_overlap address LIMINE_SNAPSHOT_BYTES (b_arena b) (b_capacity b)
          then Some (BBP_IMPORT_ERR_RANGE, m, builder)
          else if lm_present s AND NOT LIMINE_ALLOWED \<noteq> 0 then Some (BBP_IMPORT_ERR_FLAGS, m, builder)
          else do {
            (status, plan) \<leftarrow> bbp_import_plan_begin m builder (Some \<lparr>ip_used = 0, ip_tag_count = 0\<rparr>);
            plan \<leftarrow> plan;
            if status \<noteq> BBP_IMPORT_OK then Some (status, m, builder)
            else do {
              r \<leftarrow> limine_checks m b s;
              case r of
                Inl status \<Rightarrow> Some (status, m, builder)
              | Inr (memory_map_size, smp_size) \<Rightarrow>
                  plan_and_emit (limine_plan b s memory_map_size smp_size)
                    (limine_emitters s memory_map_size smp_size) m b plan
            }
          }
      | _ \<Rightarrow> Some (BBP_IMPORT_ERR_NULL, m, builder))"

section \<open>What a snapshot describes\<close>

definition limine_entry_at :: "mem \<Rightarrow> u64 \<Rightarrow> u64 \<times> u64 \<times> u64 \<Rightarrow> bool" where
  "limine_entry_at m a x \<longleftrightarrow> (case x of (base, len, ty) \<Rightarrow>
     ld64 m a = Some base \<and> ld64 m (a + 8) = Some len \<and> ld64 m (a + 16) = Some ty)"

definition limine_cpu_at :: "mem \<Rightarrow> u64 \<Rightarrow> u32 \<times> u32 \<Rightarrow> bool" where
  "limine_cpu_at m a x \<longleftrightarrow> (case x of (processor, apic) \<Rightarrow>
     ld32 m a = Some processor \<and> ld32 m (a + 4) = Some apic)"

text \<open>The arrays and the string a snapshot points to are readable and hold \<open>es\<close>, \<open>cs\<close> and \<open>ps\<close>.\<close>

definition limine_source ::
  "mem \<Rightarrow> bbp_limine_snapshot \<Rightarrow> (u64 \<times> u64 \<times> u64) list \<Rightarrow> (u32 \<times> u32) list \<Rightarrow> u8 list \<Rightarrow> bool" where
  "limine_source m s es cs ps \<longleftrightarrow>
     (limine_has s BBP_IMPORT_HAS_MEMORY_MAP \<and> lm_memory_map s \<noteq> 0 \<longrightarrow>
        length es = unat (lm_memory_map_count s) \<and>
        (\<forall>i<length es. limine_entry_at m (lm_memory_map s + of_nat i * LIMINE_ENTRY_BYTES) (es ! i))) \<and>
     (limine_has s BBP_IMPORT_HAS_SMP \<and> lm_cpus s \<noteq> 0 \<longrightarrow>
        length cs = unat (lm_cpu_count s) \<and>
        (\<forall>i<length cs. limine_cpu_at m (lm_cpus s + of_nat i * LIMINE_CPU_BYTES) (cs ! i))) \<and>
     (limine_has s BBP_IMPORT_HAS_CMDLINE \<and> is_data (lm_command_line s) \<noteq> 0 \<longrightarrow>
        load m (is_data (lm_command_line s)) (unat (is_bytes (lm_command_line s))) = Some ps)"

definition limine_entry :: "u64 \<times> u64 \<times> u64 \<Rightarrow> map_entry" where
  "limine_entry x = (case x of (base, len, ty) \<Rightarrow>
     (base, len, limine_memory_type ty, limine_memory_attributes (limine_memory_type ty)))"

definition limine_cpu_bytes :: "u32 \<Rightarrow> u32 \<times> u32 \<Rightarrow> u8 list" where
  "limine_cpu_bytes bsp x = (case x of (processor, apic) \<Rightarrow>
     put_le 4 processor @ put_le 4 apic @
     put_le 2 (if apic = bsp then BBP_CPU_STATE_RUNNING else BBP_CPU_STATE_STOPPED) @ replicate 38 0)"

definition limine_smp_body :: "bbp_limine_snapshot \<Rightarrow> (u32 \<times> u32) list \<Rightarrow> u8 list" where
  "limine_smp_body s cs = put_le 4 (of_nat (length cs) :: u32) @ put_le 4 (lm_bsp_apic_id s) @
     put_le 8 (if lm_x2apic s \<noteq> 0 then BBP_SMP_FLAG_X2APIC else 0) @ concat (map (limine_cpu_bytes (lm_bsp_apic_id s)) cs)"

text \<open>The tags of an import, in order.\<close>

definition limine_items ::
  "bbp_limine_snapshot \<Rightarrow> (u64 \<times> u64 \<times> u64) list \<Rightarrow> (u32 \<times> u32) list \<Rightarrow> u8 list \<Rightarrow> item list" where
  "limine_items s es cs ps =
     (if limine_has s BBP_IMPORT_HAS_HHDM then [Item_Tag BBP_TAG_HHDM (hhdm_body (lm_hhdm_offset s))] else []) @
     (if limine_has s BBP_IMPORT_HAS_MEMORY_MAP
      then [Item_Tag BBP_TAG_MEMORY_MAP (memory_map_body (map limine_entry es))] else []) @
     (if limine_has s BBP_IMPORT_HAS_KERNEL_ADDRESS
      then [Item_Tag BBP_TAG_KERNEL_ADDRESS (kernel_address_body (lm_kernel_physical_base s) (lm_kernel_virtual_base s))]
      else []) @
     (if limine_has s BBP_IMPORT_HAS_SMP then [Item_Tag BBP_TAG_SMP (limine_smp_body s cs)] else []) @
     (if limine_has s BBP_IMPORT_HAS_CMDLINE then [Item_Blob_Tag ps BBP_TAG_CMDLINE (cmdline_body ps)] else []) @
     (if limine_has s BBP_IMPORT_HAS_FRAMEBUFFER
      then [Item_Tag BBP_TAG_FRAMEBUFFER (framebuffer_body (lm_framebuffer s))] else []) @
     (if limine_has s BBP_IMPORT_HAS_ACPI then [Item_Tag BBP_TAG_ACPI (acpi_body (lm_acpi s))] else [])"

section \<open>The array loops\<close>

lemma limine_copy_entry_stores:
  assumes at: "\<And>m. frame m0 m A \<Longrightarrow> limine_entry_at m src x" and fr: "frame m0 m A" and sp: "span dst 32 \<subseteq> A"
  shows "limine_copy_entry m src dst = stores m dst (entry_stores (limine_entry x))"
proof -
  obtain base len ty where x: "x = (base, len, ty)" by (cases x)
  let ?ty = "limine_memory_type ty"
  have rd: "ld64 m src = Some base" "ld64 m (src + 8) = Some len" "ld64 m (src + 16) = Some ty"
    if "frame m0 m A" for m using at [OF that] x by (simp_all add: limine_entry_at_def)
  have "stores m dst (entry_stores (limine_entry x)) =
      store m (dst + of_nat 0) (put_le 8 base) \<bind> (\<lambda>m. store m (dst + of_nat 8) (put_le 8 len) \<bind>
        (\<lambda>m. stores m dst [(16, put_le 4 ?ty), (20, put_le 4 (limine_memory_attributes ?ty))]))"
    by (simp add: entry_stores_def limine_entry_def x)
  also have "\<dots> = store m (dst + of_nat 0) (put_le 8 base) \<bind> (\<lambda>m. ld64 m (src + 8) \<bind>
      (\<lambda>len. store m (dst + of_nat 8) (put_le 8 len) \<bind> (\<lambda>m. ld64 m (src + 16) \<bind>
        (\<lambda>ty. let type = limine_memory_type ty in
          stores m dst [(16, put_le 4 type), (20, put_le 4 (limine_memory_attributes type))]))))"
  proof (rule store_then [OF fr sp])
    fix m1 assume f1: "frame m0 m1 A"
    show "store m1 (dst + of_nat 8) (put_le 8 len) \<bind>
        (\<lambda>m. stores m dst [(16, put_le 4 ?ty), (20, put_le 4 (limine_memory_attributes ?ty))]) =
      ld64 m1 (src + 8) \<bind> (\<lambda>len. store m1 (dst + of_nat 8) (put_le 8 len) \<bind> (\<lambda>m. ld64 m (src + 16) \<bind>
        (\<lambda>ty. let type = limine_memory_type ty in
          stores m dst [(16, put_le 4 type), (20, put_le 4 (limine_memory_attributes type))])))"
      unfolding rd(2) [OF f1] bind.bind_lunit by (rule store_then [OF f1 sp]) (simp_all add: rd(3) Let_def)
  qed simp
  also have "\<dots> = limine_copy_entry m src dst" by (simp add: limine_copy_entry_def rd(1) [OF fr] st_defs Let_def)
  finally show ?thesis by simp
qed

definition limine_cpu_stores :: "u32 \<Rightarrow> u32 \<times> u32 \<Rightarrow> (nat \<times> u8 list) list" where
  "limine_cpu_stores bsp x = (case x of (processor, apic) \<Rightarrow> [(0, put_le 4 processor), (4, put_le 4 apic),
     (8, put_le 2 (if apic = bsp then BBP_CPU_STATE_RUNNING else BBP_CPU_STATE_STOPPED))])"

lemma limine_copy_cpu_stores:
  assumes at: "\<And>m. frame m0 m A \<Longrightarrow> limine_cpu_at m src x" and fr: "frame m0 m A" and sp: "span dst 48 \<subseteq> A"
  shows "limine_copy_cpu bsp m src dst = stores m dst (limine_cpu_stores bsp x)"
proof -
  obtain p a where x: "x = (p, a)" by (cases x)
  let ?st = "\<lambda>m a. store m (dst + 8) (put_le 2 (if a = bsp then BBP_CPU_STATE_RUNNING else BBP_CPU_STATE_STOPPED))"
  have rd: "ld32 m src = Some p" "ld32 m (src + 4) = Some a" if "frame m0 m A" for m
    using at [OF that] x by (simp_all add: limine_cpu_at_def)
  have "stores m dst (limine_cpu_stores bsp x) = store m (dst + of_nat 0) (put_le 4 p) \<bind>
      (\<lambda>m. store m (dst + of_nat 4) (put_le 4 a) \<bind> (\<lambda>m. ?st m a))"
    by (simp add: limine_cpu_stores_def x)
  also have "\<dots> = store m (dst + of_nat 0) (put_le 4 p) \<bind> (\<lambda>m. ld32 m (src + 4) \<bind>
      (\<lambda>a. store m (dst + of_nat 4) (put_le 4 a) \<bind> (\<lambda>m. ld32 m (src + 4) \<bind> (\<lambda>a. ?st m a))))"
  proof (rule store_then [OF fr sp])
    fix m1 assume f1: "frame m0 m1 A"
    show "store m1 (dst + of_nat 4) (put_le 4 a) \<bind> (\<lambda>m. ?st m a) = ld32 m1 (src + 4) \<bind>
      (\<lambda>a. store m1 (dst + of_nat 4) (put_le 4 a) \<bind> (\<lambda>m. ld32 m (src + 4) \<bind> (\<lambda>a. ?st m a)))"
      unfolding rd(2) [OF f1] bind.bind_lunit by (rule store_then [OF f1 sp]) (simp_all add: rd(2))
  qed simp
  also have "\<dots> = limine_copy_cpu bsp m src dst" by (simp add: limine_copy_cpu_def rd(1) [OF fr] st_defs)
  finally show ?thesis by simp
qed

lemma limine_entries_kept:
  assumes at: "limine_entry_at m0 (a + of_nat i * LIMINE_ENTRY_BYTES) x" and out: "outside_arena b0 a (n * 24)"
    and i: "i < n" and fr: "frame m0 m (arena_span b0)"
  shows "limine_entry_at m (a + of_nat i * LIMINE_ENTRY_BYTES) x"
proof -
  note s = element_same [OF out fr i]
  show ?thesis using at same_ld(3) [OF s, of 0] same_ld(3) [OF s, of 8] same_ld(3) [OF s, of 16]
    by (simp add: limine_entry_at_def LIMINE_ENTRY_BYTES_def split: prod.splits)
qed

lemma limine_cpus_kept:
  assumes at: "limine_cpu_at m0 (a + of_nat i * LIMINE_CPU_BYTES) x" and out: "outside_arena b0 a (n * 8)"
    and i: "i < n" and fr: "frame m0 m (arena_span b0)"
  shows "limine_cpu_at m (a + of_nat i * LIMINE_CPU_BYTES) x"
proof -
  note s = element_same [OF out fr i]
  show ?thesis using at same_ld(2) [OF s, of 0] same_ld(2) [OF s, of 4]
    by (simp add: limine_cpu_at_def LIMINE_CPU_BYTES_def split: prod.splits)
qed

lemma limine_emits_memory_map:
  assumes at: "\<forall>i<length es. limine_entry_at m0 (lm_memory_map s + of_nat i * LIMINE_ENTRY_BYTES) (es ! i)"
    and n: "length es = unat (lm_memory_map_count s)" "length es < 2 ^ 32" "unat tag_size = 40 + length es * 32"
    and out: "outside_arena b0 (lm_memory_map s) (length es * 24)"
  shows "emits m0 b0 (limine_emit_memory_map s tag_size) (Item_Tag BBP_TAG_MEMORY_MAP (memory_map_body (map limine_entry es)))"
  unfolding limine_emit_memory_map_def
proof (rule emits_memory_map)
  show "ucast (lm_memory_map_count s) = (of_nat (length (map limine_entry es)) :: u32)" using n(1) by simp
  fix i m dst assume i: "i < length (map limine_entry es)" and fr: "frame m0 m (arena_span b0)"
    and sp: "span dst 32 \<subseteq> arena_span b0"
  have "limine_entry_at m (lm_memory_map s + of_nat i * LIMINE_ENTRY_BYTES) (es ! i)" if "frame m0 m (arena_span b0)" for m
    using limine_entries_kept [OF _ out _ that] at i by simp
  from limine_copy_entry_stores [OF this fr sp] show "limine_copy_entry m (lm_memory_map s + of_nat i * LIMINE_ENTRY_BYTES) dst =
      stores m dst (entry_stores (map limine_entry es ! i))" using i by simp
qed (use n in simp_all)

lemma limine_emits_smp:
  assumes at: "\<forall>i<length cs. limine_cpu_at m0 (lm_cpus s + of_nat i * LIMINE_CPU_BYTES) (cs ! i)"
    and n: "length cs = unat (lm_cpu_count s)" "length cs < 2 ^ 32" "unat tag_size = 48 + length cs * 48"
    and out: "outside_arena b0 (lm_cpus s) (length cs * 8)"
  shows "emits m0 b0 (limine_emit_smp s tag_size) (Item_Tag BBP_TAG_SMP (limine_smp_body s cs))"
  unfolding limine_emit_smp_def
proof (rule emits_array)
  let ?count = "ucast (lm_cpu_count s) :: u32" and ?bsp = "lm_bsp_apic_id s"
  let ?hs = "[(0, put_le 4 ?count), (4, put_le 4 ?bsp), (8, put_le 8 (if lm_x2apic s \<noteq> 0 then BBP_SMP_FLAG_X2APIC else 0))]"
  let ?ws = "\<lambda>i. limine_cpu_stores ?bsp (cs ! i)"
  have c: "?count = of_nat (length cs)" using n(1) by simp
  then have u: "unat ?count = length cs" using n(2) unat_of_nat_u32 by metis
  show "list_all (\<lambda>(e, qs). e + length qs \<le> 16) ?hs" by simp
  show "list_all (\<lambda>(e, qs). e + length qs \<le> 48) (?ws i)" for i by (simp add: limine_cpu_stores_def split: prod.splits)
  show "limine_fill_smp s m tag = stores m tag (shift 32 ?hs) \<bind> (\<lambda>m. array_loop (limine_copy_cpu ?bsp) LIMINE_CPU_BYTES
      (sizeof struct_bbp_cpu_info) m (lm_cpus s) (tag + sizeof struct_bbp_tag_smp) (length cs))" for m tag
    by (simp add: limine_fill_smp_def Let_def st_defs shift_def u)
  have "patches (replicate 48 0) (limine_cpu_stores ?bsp x) = limine_cpu_bytes ?bsp x" for x
    by (simp add: limine_cpu_stores_def limine_cpu_bytes_def patch_def split: prod.splits)
  then have "map (\<lambda>i. patches (replicate 48 0) (?ws i)) [0..<length cs] = map (limine_cpu_bytes ?bsp) cs"
    by (intro nth_equalityI) simp_all
  then show "limine_smp_body s cs = patches (replicate 16 0) ?hs @ concat (map (\<lambda>i. patches (replicate 48 0) (?ws i)) [0..<length cs])"
    by (simp add: limine_smp_body_def c patch_def)
  fix i m dst assume i: "i < length cs" and fr: "frame m0 m (arena_span b0)" and sp: "span dst 48 \<subseteq> arena_span b0"
  have "limine_cpu_at m (lm_cpus s + of_nat i * LIMINE_CPU_BYTES) (cs ! i)" if "frame m0 m (arena_span b0)" for m
    using limine_cpus_kept [OF _ out _ that] at i by simp
  from limine_copy_cpu_stores [OF this fr sp]
  show "limine_copy_cpu ?bsp m (lm_cpus s + of_nat i * LIMINE_CPU_BYTES) dst = stores m dst (?ws i)" .
qed (use n in simp_all)

section \<open>The checks\<close>

lemma limine_entries_valid_total:
  "\<forall>i<n. \<exists>x. limine_entry_at m (a + of_nat i * LIMINE_ENTRY_BYTES) x \<Longrightarrow> \<exists>v. limine_entries_valid m a n = Some v"
proof (induction n arbitrary: a)
  case (Suc n)
  have "\<exists>x. limine_entry_at m a x" using Suc.prems by force
  moreover have "\<exists>v. limine_entries_valid m (a + LIMINE_ENTRY_BYTES) n = Some v"
  proof (rule Suc.IH, intro allI impI)
    fix i assume "i < n"
    then show "\<exists>x. limine_entry_at m (a + LIMINE_ENTRY_BYTES + of_nat i * LIMINE_ENTRY_BYTES) x"
      using Suc.prems [rule_format, of "Suc i"] by (simp add: algebra_simps)
  qed
  ultimately show ?case by (auto simp: limine_entry_at_def)
qed auto

text \<open>The memory map is accepted only with its exact tag size and outside the arena.\<close>

lemma limine_check_memory_map_ok:
  assumes src: "limine_source m s es cs ps"
  shows "check_ok (limine_check_memory_map m b s)"
    and "limine_check_memory_map m b s = Some (Inr z) \<Longrightarrow> limine_has s BBP_IMPORT_HAS_MEMORY_MAP \<Longrightarrow>
      emits m b (limine_emit_memory_map s z) (Item_Tag BBP_TAG_MEMORY_MAP (memory_map_body (map limine_entry es)))
      \<and> z = of_nat (32 + length (memory_map_body (map limine_entry es)))"
proof -
  let ?c = "limine_check_memory_map m b s" and ?n = "lm_memory_map_count s" and ?a = "lm_memory_map s"
  let ?body = "memory_map_body (map limine_entry es)"
  have "check_ok ?c \<and> (\<forall>z. ?c = Some (Inr z) \<and> limine_has s BBP_IMPORT_HAS_MEMORY_MAP \<longrightarrow>
    emits m b (limine_emit_memory_map s z) (Item_Tag BBP_TAG_MEMORY_MAP ?body) \<and> z = of_nat (32 + length ?body))"
  proof (cases "limine_has s BBP_IMPORT_HAS_MEMORY_MAP \<and> ?a \<noteq> 0 \<and> ?n \<noteq> 0")
    case True
    then have at: "length es = unat ?n" "\<forall>i<length es. limine_entry_at m (?a + of_nat i * LIMINE_ENTRY_BYTES) (es ! i)"
      using src by (simp_all add: limine_source_def)
    obtain st out where sz: "bbp_import_array_tag_size (sizeof struct_bbp_tag_memory_map) ?n
        (sizeof struct_bbp_memory_entry) (Some 0) = (st, out)" by fastforce
    obtain v where v: "limine_entries_valid m ?a (unat ?n) = Some v"
      using limine_entries_valid_total [of "unat ?n" m ?a] at by metis
    show ?thesis
    proof (cases "st = BBP_IMPORT_OK \<and> \<not> bbp_import_ranges_overlap ?a (?n * LIMINE_ENTRY_BYTES) (b_arena b) (b_capacity b)")
      case ok: True
      obtain t where t: "out = Some t" "unat t = 40 + unat ?n * 32" "unat ?n < 2 ^ 32"
        by (rule array_tag_size_ok [of "sizeof struct_bbp_tag_memory_map" ?n "sizeof struct_bbp_memory_entry" 0 out])
          (use sz ok in simp_all)
      have "unat (?n * LIMINE_ENTRY_BYTES) = length es * 24"
        using t(3) at(1) by (simp add: unat_word_ariths LIMINE_ENTRY_BYTES_def)
      then have out: "outside_arena b ?a (length es * 24)" using ok ranges_apart by (metis outside_arena_def)
      have "t = of_nat (32 + length ?body)"
      proof -
        have "unat t = 32 + length ?body" using t(2) at(1)
          by (simp add: memory_map_body_def length_concat entry_bytes_def case_prod_unfold comp_def sum_list_triv)
        then show ?thesis by (metis of_nat_unat_u64)
      qed
      then show ?thesis
        using True sz ok t v limine_emits_memory_map [OF at(2,1) _ _ out, of t] at(1)
        by (auto simp: limine_check_memory_map_def)
    qed (use True sz v in \<open>auto simp: limine_check_memory_map_def\<close>)
  qed (auto simp: limine_check_memory_map_def)
  then show "check_ok ?c" "?c = Some (Inr z) \<Longrightarrow> limine_has s BBP_IMPORT_HAS_MEMORY_MAP \<Longrightarrow>
    emits m b (limine_emit_memory_map s z) (Item_Tag BBP_TAG_MEMORY_MAP ?body) \<and> z = of_nat (32 + length ?body)" by auto
qed

lemma limine_apic_repeated_total:
  "\<forall>i<n. \<exists>x. limine_cpu_at m (a + of_nat i * LIMINE_CPU_BYTES) x \<Longrightarrow> \<exists>v. limine_apic_repeated m a k n = Some v"
proof (induction n arbitrary: a)
  case (Suc n)
  have "\<exists>x. limine_cpu_at m a x" using Suc.prems by force
  moreover have "\<exists>v. limine_apic_repeated m (a + LIMINE_CPU_BYTES) k n = Some v"
  proof (rule Suc.IH, intro allI impI)
    fix i assume "i < n"
    then show "\<exists>x. limine_cpu_at m (a + LIMINE_CPU_BYTES + of_nat i * LIMINE_CPU_BYTES) x"
      using Suc.prems [rule_format, of "Suc i"] by (simp add: algebra_simps)
  qed
  ultimately show ?case by (auto simp: limine_cpu_at_def)
qed auto

lemma limine_scan_cpus_ok:
  "\<forall>j<i + n. \<exists>x. limine_cpu_at m (a + of_nat j * LIMINE_CPU_BYTES) x \<Longrightarrow> check_ok (limine_scan_cpus m a k f i n)"
proof (induction n arbitrary: i f)
  case (Suc n)
  then obtain p x where x: "limine_cpu_at m (a + of_nat i * LIMINE_CPU_BYTES) (p, x)" by (metis less_add_same_cancel1 prod.exhaust zero_less_Suc)
  obtain v where "limine_apic_repeated m a x i = Some v" using limine_apic_repeated_total [of i m a x] Suc.prems by auto
  then show ?case using x Suc.IH [of "Suc i"] Suc.prems by (simp add: limine_cpu_at_def)
qed simp

lemma limine_check_smp_ok:
  assumes src: "limine_source m s es cs ps"
  shows "check_ok (limine_check_smp m b s)"
    and "limine_check_smp m b s = Some (Inr z) \<Longrightarrow> limine_has s BBP_IMPORT_HAS_SMP \<Longrightarrow>
      emits m b (limine_emit_smp s z) (Item_Tag BBP_TAG_SMP (limine_smp_body s cs))
      \<and> z = of_nat (32 + length (limine_smp_body s cs))"
proof -
  let ?c = "limine_check_smp m b s" and ?n = "lm_cpu_count s" and ?a = "lm_cpus s" and ?body = "limine_smp_body s cs"
  have "check_ok ?c \<and> (\<forall>z. ?c = Some (Inr z) \<and> limine_has s BBP_IMPORT_HAS_SMP \<longrightarrow>
    emits m b (limine_emit_smp s z) (Item_Tag BBP_TAG_SMP ?body) \<and> z = of_nat (32 + length ?body))"
  proof (cases "limine_has s BBP_IMPORT_HAS_SMP \<and> ?a \<noteq> 0 \<and> ?n \<noteq> 0 \<and> \<not> lm_x2apic s > 1")
    case True
    then have at: "length cs = unat ?n" "\<forall>i<length cs. limine_cpu_at m (?a + of_nat i * LIMINE_CPU_BYTES) (cs ! i)"
      using src by (simp_all add: limine_source_def)
    obtain st out where sz: "bbp_import_array_tag_size (sizeof struct_bbp_tag_smp) ?n
        (sizeof struct_bbp_cpu_info) (Some 0) = (st, out)" by fastforce
    have v: "check_ok (limine_scan_cpus m ?a (lm_bsp_apic_id s) False 0 (unat ?n))"
      using limine_scan_cpus_ok [of 0 "unat ?n" m ?a] at by (metis add_0)
    show ?thesis
    proof (cases "st = BBP_IMPORT_OK \<and> \<not> bbp_import_ranges_overlap ?a (?n * LIMINE_CPU_BYTES) (b_arena b) (b_capacity b)")
      case ok: True
      obtain t where t: "out = Some t" "unat t = 48 + unat ?n * 48" "unat ?n < 2 ^ 32"
        by (rule array_tag_size_ok [of "sizeof struct_bbp_tag_smp" ?n "sizeof struct_bbp_cpu_info" 0 out])
          (use sz ok in simp_all)
      have "unat (?n * LIMINE_CPU_BYTES) = length cs * 8"
        using t(3) at(1) by (simp add: unat_word_ariths LIMINE_CPU_BYTES_def)
      then have out: "outside_arena b ?a (length cs * 8)" using ok ranges_apart by (metis outside_arena_def)
      have t': "t = of_nat (32 + length ?body)"
      proof -
        have "unat t = 32 + length ?body" using t(2) at(1)
          by (simp add: limine_smp_body_def length_concat limine_cpu_bytes_def case_prod_unfold comp_def sum_list_triv)
        then show ?thesis by (metis of_nat_unat_u64)
      qed
      have c: "?c = and_then (limine_scan_cpus m ?a (lm_bsp_apic_id s) False 0 (unat ?n)) (\<lambda>bsp_found.
          if \<not> bsp_found then Some (Inl BBP_IMPORT_ERR_RANGE) else Some (Inr t))"
        using True sz ok t(1) by (simp add: limine_check_smp_def cong: if_cong)
      have "check_ok ?c" unfolding c by (rule check_ok_and_then [OF v]) simp
      moreover have "z = t" if "?c = Some (Inr z)" for z
        using that unfolding c by (auto simp: and_then_Inr split: if_splits)
      ultimately show ?thesis using t' limine_emits_smp [OF at(2,1) _ _ out, of t] t at(1) by auto
    qed (use True sz in \<open>auto simp: limine_check_smp_def\<close>)
  qed (auto simp: limine_check_smp_def)
  then show "check_ok ?c" "?c = Some (Inr z) \<Longrightarrow> limine_has s BBP_IMPORT_HAS_SMP \<Longrightarrow>
    emits m b (limine_emit_smp s z) (Item_Tag BBP_TAG_SMP ?body) \<and> z = of_nat (32 + length ?body)" by auto
qed

lemma limine_checks_ok:
  assumes src: "limine_source m s es cs ps"
  shows "check_ok (limine_checks m b s)"
proof -
  have "check_ok (limine_check_cmdline m b s)"
    using check_string_ok(1) [of "lm_command_line s" m ps b] src by (auto simp: limine_check_cmdline_def limine_source_def)
  then show ?thesis unfolding limine_checks_def
    using limine_check_memory_map_ok(1) [OF src] limine_check_smp_ok(1) [OF src]
    by (intro check_ok_and_then) simp_all
qed

definition limine_parts ::
  "bbp_limine_snapshot \<Rightarrow> u64 \<Rightarrow> u64 \<Rightarrow> (u64 \<times> u64 \<times> u64) list \<Rightarrow> (u32 \<times> u32) list \<Rightarrow> u8 list \<Rightarrow> part list" where
  "limine_parts s map_size smp_size es cs ps =
     [(limine_has s BBP_IMPORT_HAS_HHDM, limine_emit_hhdm (lm_hhdm_offset s),
       Item_Tag BBP_TAG_HHDM (hhdm_body (lm_hhdm_offset s))),
      (limine_has s BBP_IMPORT_HAS_MEMORY_MAP, limine_emit_memory_map s map_size,
       Item_Tag BBP_TAG_MEMORY_MAP (memory_map_body (map limine_entry es))),
      (limine_has s BBP_IMPORT_HAS_KERNEL_ADDRESS, limine_emit_kernel_address s,
       Item_Tag BBP_TAG_KERNEL_ADDRESS (kernel_address_body (lm_kernel_physical_base s) (lm_kernel_virtual_base s))),
      (limine_has s BBP_IMPORT_HAS_SMP, limine_emit_smp s smp_size, Item_Tag BBP_TAG_SMP (limine_smp_body s cs)),
      (limine_has s BBP_IMPORT_HAS_CMDLINE, limine_emit_cmdline (lm_command_line s),
       Item_Blob_Tag ps BBP_TAG_CMDLINE (cmdline_body ps)),
      (limine_has s BBP_IMPORT_HAS_FRAMEBUFFER, limine_emit_framebuffer (lm_framebuffer s),
       Item_Tag BBP_TAG_FRAMEBUFFER (framebuffer_body (lm_framebuffer s))),
      (limine_has s BBP_IMPORT_HAS_ACPI, limine_emit_acpi (lm_acpi s), Item_Tag BBP_TAG_ACPI (acpi_body (lm_acpi s)))]"

text \<open>Accepted checks make every part that is present emit its item, and the plan is the plan of the parts.\<close>

lemma limine_parts_ok:
  assumes src: "limine_source m s es cs ps" and ch: "limine_checks m b s = Some (Inr (z, y))"
  shows "list_all (part_ok m b) (limine_parts s z y es cs ps)"
    "limine_plan b s z y = concat (map (part_steps b) (limine_parts s z y es cs ps))"
proof -
  have c: "limine_check_memory_map m b s = Some (Inr z)" "limine_check_smp m b s = Some (Inr y)"
    "limine_check_cmdline m b s = Some (Inr ())"
    using ch by (auto simp: limine_checks_def and_then_Inr)
  note mm = limine_check_memory_map_ok(2) [OF src c(1)] and smp = limine_check_smp_ok(2) [OF src c(2)]
  have str: "check_string m b (lm_command_line s) = Some (Inr ())" if "limine_has s BBP_IMPORT_HAS_CMDLINE"
    using c(3) that by (simp add: limine_check_cmdline_def)
  have "load m (is_data (lm_command_line s)) (unat (is_bytes (lm_command_line s))) = Some ps"
    if "limine_has s BBP_IMPORT_HAS_CMDLINE" "is_data (lm_command_line s) \<noteq> 0" using src that by (simp add: limine_source_def)
  note cmd = check_string_ok(2) [OF this str]
  show "list_all (part_ok m b) (limine_parts s z y es cs ps)"
    using mm [THEN conjunct1] smp [THEN conjunct1] cmd [of BBP_TAG_CMDLINE, THEN conjunct1] emits_hhdm emits_kernel_address emits_framebuffer emits_acpi
    by (simp add: limine_parts_def part_ok_def limine_emit_hhdm_def limine_emit_kernel_address_def
        limine_emit_cmdline_def limine_emit_framebuffer_def limine_emit_acpi_def)
  show "limine_plan b s z y = concat (map (part_steps b) (limine_parts s z y es cs ps))"
    using mm [THEN conjunct2] smp [THEN conjunct2] cmd [THEN conjunct2] by (simp add: limine_plan_def limine_parts_def cong: plan_if_cong)
qed

lemma limine_outcome:
  assumes "wf_builder m b ts" "limine_source m s es cs ps"
  shows "import_outcome m b ts (limine_items s es cs ps) (bbp_import_limine m (Some b) (Some (a, s)))"
proof -
  have "import_outcome m b ts (limine_items s es cs ps)
      (plan_and_emit (limine_plan b s z y) (limine_emitters s z y) m b p)"
    if pb: "bbp_import_plan_begin m (Some b) (Some \<lparr>ip_used = 0, ip_tag_count = 0\<rparr>) = Some (BBP_IMPORT_OK, Some p)"
      and ch: "limine_checks m b s = Some (Inr (z, y))" for p z y
  proof -
    have "limine_items s es cs ps = present_items (limine_parts s z y es cs ps)"
      by (simp add: limine_items_def limine_parts_def)
    moreover have "limine_emitters s z y = map (\<lambda>(c, e, x). emit_if c e) (limine_parts s z y es cs ps)"
      by (simp add: limine_emitters_def limine_parts_def)
    ultimately show ?thesis
      using plan_and_emit_outcome [OF assms(1) pb limine_parts_ok(1) [OF assms(2) ch] limine_parts_ok(2) [OF assms(2) ch]]
      by simp
  qed
  then have "import_outcome m b ts (limine_items s es cs ps) (do {
      r \<leftarrow> limine_checks m b s;
      case r of Inl status \<Rightarrow> Some (status, m, Some b)
      | Inr (z, y) \<Rightarrow> plan_and_emit (limine_plan b s z y) (limine_emitters s z y) m b p })"
    if "bbp_import_plan_begin m (Some b) (Some \<lparr>ip_used = 0, ip_tag_count = 0\<rparr>) = Some (BBP_IMPORT_OK, Some p)" for p
    using that by (intro checks_outcome limine_checks_ok [OF assms(2)]) (auto split: prod.splits)
  from begin_outcome [OF assms(1) this] show ?thesis
    by (simp add: bbp_import_limine_def outcome_refused cong: if_cong)
qed

section \<open>Properties\<close>

text \<open>C18. The Limine importer is total and failure-atomic: it never reads or writes unmapped memory, and it
  either refuses with a status and leaves memory and builder unchanged, or succeeds and appends to the
  tags of the arena exactly the tags its snapshot describes, in order, each with the body computed from
  the snapshot (memory types translated, the boot processor marked as running, the command line copied
  with its checksum). Nothing outside the arena changes.\<close>

theorem import_limine_outcome:
  assumes "wf_builder m b ts" "limine_source m s es cs ps"
  shows "import_outcome m b ts (limine_items s es cs ps) (bbp_import_limine m (Some b) (Some (a, s)))"
  using assms by (rule limine_outcome)

definition limine_demo :: bbp_limine_snapshot where
  "limine_demo = \<lparr>lm_present = 5, lm_hhdm_offset = 0xFFFF800000000000, lm_kernel_physical_base = 0x200000,
     lm_kernel_virtual_base = 0xFFFFFFFF80000000, lm_memory_map = 0, lm_memory_map_count = 0, lm_cpus = 0,
     lm_cpu_count = 0, lm_bsp_apic_id = 0, lm_x2apic = 0, lm_command_line = \<lparr>is_data = 0, is_bytes = 0\<rparr>,
     lm_framebuffer = \<lparr>fb_address = 0, fb_total_size = 0, fb_width = 0, fb_height = 0, fb_pitch = 0,
       fb_pixel_format = 0, fb_color_depth = 0, fb_flags = 0\<rparr>,
     lm_acpi = \<lparr>ac_rsdp_address = 0, ac_xsdt_address = 0, ac_oem_id = 0, ac_acpi_version = 0, ac_flags = 0\<rparr>\<rparr>"

lemma limine_demo_has [simp]:
  "limine_has limine_demo BBP_IMPORT_HAS_HHDM" "\<not> limine_has limine_demo BBP_IMPORT_HAS_MEMORY_MAP"
  "limine_has limine_demo BBP_IMPORT_HAS_KERNEL_ADDRESS" "\<not> limine_has limine_demo BBP_IMPORT_HAS_SMP"
  "\<not> limine_has limine_demo BBP_IMPORT_HAS_CMDLINE" "\<not> limine_has limine_demo BBP_IMPORT_HAS_FRAMEBUFFER"
  "\<not> limine_has limine_demo BBP_IMPORT_HAS_ACPI"
  by (simp_all add: limine_has_def limine_demo_def presence_defs)

theorem import_limine_outcome_witness:
  "\<exists>m m' b'. wf_builder m demo_builder [] \<and>
     bbp_import_limine m (Some demo_builder) (Some (0x40000, limine_demo)) = Some (BBP_IMPORT_OK, m', Some b') \<and>
     wf_builder m' b' [(0, 40, BBP_TAG_HHDM), (40, 48, BBP_TAG_KERNEL_ADDRESS)] \<and>
     load m' (va b' 32) 8 = Some (put_le 8 (0xFFFF800000000000 :: u64))"
proof -
  obtain m where m: "wf_builder m demo_builder []" "same_dom (\<lambda>_. Some 0) m" by (rule demo_init)
  let ?r = "bbp_import_limine m (Some demo_builder) (Some (0x40000, limine_demo))"
  have src: "limine_source m limine_demo [] [] []" by (simp add: limine_source_def)
  have b: "bbp_import_plan_begin m (Some demo_builder) (Some \<lparr>ip_used = 0, ip_tag_count = 0\<rparr>)
      = Some (BBP_IMPORT_OK, Some \<lparr>ip_used = 0, ip_tag_count = 0\<rparr>)"
    by (simp add: bbp_import_plan_begin_def plan_chain_bad_def import_consts)
  have c: "limine_checks m demo_builder limine_demo = Some (Inr (0, 0))"
    by (simp add: limine_checks_def and_then_def limine_check_memory_map_def refuse_if_def limine_check_smp_def
        limine_check_cmdline_def bbp_import_phys_address_valid_def BBP_IMPORT_MAX_PHYS_def)
      (simp add: limine_demo_def)
  have p: "plan_steps (limine_plan demo_builder limine_demo 0 0) \<lparr>ip_used = 0, ip_tag_count = 0\<rparr>
      = Some (Inr \<lparr>ip_used = 88, ip_tag_count = 2\<rparr>)"
    by (simp add: limine_plan_def plan_if_def and_then_def bbp_import_plan_tag_def plan_allocation_def
        import_align8_def add_size_def import_consts umax) (simp add: word_le_nat_alt)
  have "?r = do { (m, b) \<leftarrow> emit_steps (limine_emitters limine_demo 0 0) (m, demo_builder); Some (BBP_IMPORT_OK, m, Some b) }"
    using b c p by (simp add: bbp_import_limine_def plan_and_emit_def bbp_import_ranges_overlap_def import_consts
        LIMINE_SNAPSHOT_BYTES_def LIMINE_ALLOWED_def presence_defs) (simp add: limine_demo_def)
  moreover have "import_outcome m demo_builder [] (limine_items limine_demo [] [] []) ?r"
    by (rule import_limine_outcome [OF m(1) src])
  ultimately obtain m' b' where r: "?r = Some (BBP_IMPORT_OK, m', Some b')"
    "laid m demo_builder [] (limine_items limine_demo [] [] []) m' b'"
    by (auto simp: import_outcome_def bind_eq_Some_conv)
  then have "wf_builder m' b' [(0, 40, BBP_TAG_HHDM), (40, 48, BBP_TAG_KERNEL_ADDRESS)]"
    "load m' (va b' 32) 8 = Some (put_le 8 (0xFFFF800000000000 :: u64))"
    by (simp_all add: laid_def limine_items_def layout_item.simps Let_def align8_def holds_def hhdm_body_def)
      (simp_all add: limine_demo_def)
  then show ?thesis using m(1) r(1) by blast
qed

lemma limine_apic_repeated_iff:
  "\<forall>i<n. limine_cpu_at m (a + of_nat i * LIMINE_CPU_BYTES) (f i) \<Longrightarrow>
   limine_apic_repeated m a k n = Some (\<exists>i<n. k = snd (f i))"
proof (induction n arbitrary: a f)
  case (Suc n)
  have "limine_cpu_at m a (f 0)" using Suc.prems by force
  moreover have "limine_apic_repeated m (a + LIMINE_CPU_BYTES) k n = Some (\<exists>i<n. k = snd (f (Suc i)))"
  proof (rule Suc.IH, intro allI impI)
    fix i assume "i < n"
    then show "limine_cpu_at m (a + LIMINE_CPU_BYTES + of_nat i * LIMINE_CPU_BYTES) (f (Suc i))"
      using Suc.prems [rule_format, of "Suc i"] by (simp add: algebra_simps)
  qed
  ultimately show ?case by (auto simp: limine_cpu_at_def less_Suc_eq_0_disj split: prod.splits)
qed simp

lemma limine_scan_cpus_distinct:
  assumes "\<forall>j<i + n. limine_cpu_at m (a + of_nat j * LIMINE_CPU_BYTES) (f j, g j)"
    and "limine_scan_cpus m a bsp found i n = Some (Inr r)" "distinct (map g [0..<i])"
  shows "distinct (map g [0..<i + n]) \<and> (r \<longrightarrow> found \<or> bsp \<in> g ` {i..<i + n})"
  using assms
proof (induction n arbitrary: i found)
  case (Suc n)
  have "limine_cpu_at m (a + of_nat i * LIMINE_CPU_BYTES) (f i, g i)" using Suc.prems(1) by simp
  then have rd: "ld32 m (a + of_nat i * LIMINE_CPU_BYTES + 4) = Some (g i)" by (simp add: limine_cpu_at_def)
  have rep: "limine_apic_repeated m a (g i) i = Some (\<exists>j<i. g i = g j)"
    using Suc.prems(1) limine_apic_repeated_iff [of i m a "\<lambda>j. (f j, g j)" "g i"] by simp
  have new: "\<not> (\<exists>j<i. g i = g j)" and scan: "limine_scan_cpus m a bsp (found \<or> g i = bsp) (Suc i) n = Some (Inr r)"
    using Suc.prems(2) rd rep by (auto split: if_splits)
  have "g i \<notin> g ` {0..<i}" using new by auto
  then have "distinct (map g [0..<Suc i])" using Suc.prems(3) by simp
  from Suc.IH [OF _ scan this] Suc.prems(1)
  have "distinct (map g [0..<i + Suc n]) \<and> (r \<longrightarrow> (found \<or> g i = bsp) \<or> bsp \<in> g ` {Suc i..<i + Suc n})" by simp
  then show ?case by auto
qed simp

text \<open>C20. A processor list the Limine importer publishes is usable for bringing processors up: an import that
  succeeds had pairwise distinct APIC identifiers, and the boot processor is one of them.\<close>

theorem import_limine_cpus:
  assumes "limine_source m s es cs ps" "limine_has s BBP_IMPORT_HAS_SMP"
    and "bbp_import_limine m (Some b) (Some (a, s)) = Some (BBP_IMPORT_OK, m', b')"
  shows "distinct (map snd cs) \<and> lm_bsp_apic_id s \<in> set (map snd cs)"
proof -
  have "limine_checks m b s \<noteq> None \<and> limine_checks m b s \<noteq> Some (Inl BBP_IMPORT_OK)"
    using limine_checks_ok [OF assms(1)] by (simp add: check_ok_def)
  then obtain z y where ch: "limine_checks m b s = Some (Inr (z, y))"
    using assms(3) by (auto simp: bbp_import_limine_def bind_eq_Some_conv split: if_splits sum.splits)
  then have c: "limine_check_smp m b s = Some (Inr y)" by (auto simp: limine_checks_def and_then_Inr)
  then have nz: "lm_cpus s \<noteq> 0" using assms(2) by (auto simp: limine_check_smp_def split: if_splits)
  then have at: "length cs = unat (lm_cpu_count s)"
    "\<forall>j<length cs. limine_cpu_at m (lm_cpus s + of_nat j * LIMINE_CPU_BYTES) (cs ! j)"
    using assms(1,2) by (simp_all add: limine_source_def)
  have "limine_scan_cpus m (lm_cpus s) (lm_bsp_apic_id s) False 0 (length cs) = Some (Inr True)"
    using c assms(2) at(1) by (auto simp: limine_check_smp_def and_then_Inr split: if_splits prod.splits)
  from limine_scan_cpus_distinct [OF _ this, of "\<lambda>j. fst (cs ! j)" "\<lambda>j. snd (cs ! j)"] at(2)
  have d: "distinct (map (\<lambda>j. snd (cs ! j)) [0..<length cs])" "lm_bsp_apic_id s \<in> (\<lambda>j. snd (cs ! j)) ` {0..<length cs}" by simp_all
  have "map (\<lambda>j. snd (cs ! j)) [0..<length cs] = map snd cs" by (rule nth_equalityI) simp_all
  then show ?thesis using d by (metis image_set set_upt)
qed

abbreviation limine_smp_demo :: bbp_limine_snapshot where
  "limine_smp_demo \<equiv> limine_demo\<lparr>lm_present := 8, lm_cpus := 0x30000, lm_cpu_count := 2, lm_bsp_apic_id := 5\<rparr>"

lemma limine_smp_demo_has [simp]:
  "limine_has limine_smp_demo BBP_IMPORT_HAS_SMP" "\<not> limine_has limine_smp_demo BBP_IMPORT_HAS_MEMORY_MAP"
  "\<not> limine_has limine_smp_demo BBP_IMPORT_HAS_KERNEL_ADDRESS" "\<not> limine_has limine_smp_demo BBP_IMPORT_HAS_HHDM"
  "\<not> limine_has limine_smp_demo BBP_IMPORT_HAS_CMDLINE" "\<not> limine_has limine_smp_demo BBP_IMPORT_HAS_FRAMEBUFFER"
  "\<not> limine_has limine_smp_demo BBP_IMPORT_HAS_ACPI"
  by (simp_all add: limine_has_def limine_demo_def presence_defs)

lemma all_less_two: "(\<forall>i<Suc (Suc 0). P i) \<longleftrightarrow> P 0 \<and> P (Suc 0)"
  by (auto simp: less_Suc_eq)

lemma limine_smp_demo_memory:
  obtains m where "wf_builder m demo_builder []" "ld32 m 0x30000 = Some 0" "ld32 m 0x30004 = Some 5"
    "ld32 m 0x30008 = Some 1" "ld32 m 0x3000C = Some 7"
proof -
  obtain m0 where m0: "wf_builder m0 demo_builder []" "same_dom (\<lambda>_. Some 0) m0" by (rule demo_init)
  let ?ps = "put_le 4 (0 :: u32) @ put_le 4 (5 :: u32) @ put_le 4 (1 :: u32) @ put_le 4 (7 :: u32)"
  have "mapped m0 0x30000 (length ?ps)" using same_dom_mapped [OF m0(2)] by (simp add: mapped_def)
  then obtain m where m: "store m0 0x30000 ?ps = Some m" using store_ok by blast
  have "outside_arena demo_builder 0x30000 (length ?ps)"
    unfolding outside_arena_def by (rule disj_apart) simp_all
  then have "wf_builder m demo_builder []" using wf_builder_other [OF m0(1) m] by blast
  moreover have l: "load m 0x30000 16 = Some ?ps" using load_store_same [OF m] by simp
  ultimately show thesis
    using that ld_of_load(2) [OF l, of 0] ld_of_load(2) [OF l, of 4] ld_of_load(2) [OF l, of 8] ld_of_load(2) [OF l, of 12]
    by (simp add: le32.dec_enc)
qed

theorem import_limine_cpus_witness:
  "\<exists>m m' b'. bbp_import_limine m (Some demo_builder) (Some (0x40000, limine_smp_demo)) = Some (BBP_IMPORT_OK, m', b') \<and>
     limine_source m limine_smp_demo [] [(0, 5), (1, 7)] [] \<and> lm_bsp_apic_id limine_smp_demo \<in> set (map snd [(0 :: u32, 5), (1, 7)])"
proof -
  obtain m where m: "wf_builder m demo_builder []" "ld32 m 0x30000 = Some 0" "ld32 m 0x30004 = Some 5"
    "ld32 m 0x30008 = Some 1" "ld32 m 0x3000C = Some 7" by (rule limine_smp_demo_memory)
  let ?r = "bbp_import_limine m (Some demo_builder) (Some (0x40000, limine_smp_demo))" and ?cs = "[(0, 5), (1, 7)]"
  have src: "limine_source m limine_smp_demo [] ?cs []"
    using m(2-5) by (simp add: limine_source_def limine_cpu_at_def LIMINE_CPU_BYTES_def all_less_two)
  have b: "bbp_import_plan_begin m (Some demo_builder) (Some \<lparr>ip_used = 0, ip_tag_count = 0\<rparr>)
      = Some (BBP_IMPORT_OK, Some \<lparr>ip_used = 0, ip_tag_count = 0\<rparr>)"
    by (simp add: bbp_import_plan_begin_def plan_chain_bad_def import_consts)
  have z: "bbp_import_array_tag_size 48 2 48 (Some 0) = (BBP_IMPORT_OK, Some 144)"
    by (simp add: bbp_import_array_tag_size_def import_consts umax)
  have two: "unat (2 :: u64) = Suc (Suc 0)" by simp
  have sc: "limine_scan_cpus m 0x30000 5 False 0 (unat (2 :: u64)) = Some (Inr True)"
    unfolding two using m(2-5) by (simp add: LIMINE_CPU_BYTES_def)
  have "limine_check_smp m demo_builder limine_smp_demo = Some (Inr 144)"
    using z sc by (simp add: limine_check_smp_def limine_demo_def and_then_def bbp_import_ranges_overlap_def import_consts LIMINE_CPU_BYTES_def
        limine_has_def presence_defs)
  then have c: "limine_checks m demo_builder limine_smp_demo = Some (Inr (0, 144))"
    by (simp add: limine_checks_def and_then_def limine_check_memory_map_def refuse_if_def limine_check_cmdline_def)
  have p: "plan_steps (limine_plan demo_builder limine_smp_demo 0 144) \<lparr>ip_used = 0, ip_tag_count = 0\<rparr>
      = Some (Inr \<lparr>ip_used = 144, ip_tag_count = 1\<rparr>)"
    by (simp add: limine_plan_def plan_if_def and_then_def bbp_import_plan_tag_def plan_allocation_def
        import_align8_def add_size_def import_consts umax)
  have "?r = do { (m, b) \<leftarrow> emit_steps (limine_emitters limine_smp_demo 0 144) (m, demo_builder); Some (BBP_IMPORT_OK, m, Some b) }"
    using b c p by (simp add: bbp_import_limine_def plan_and_emit_def bbp_import_ranges_overlap_def import_consts
        LIMINE_SNAPSHOT_BYTES_def LIMINE_ALLOWED_def presence_defs)
  moreover have "import_outcome m demo_builder [] (limine_items limine_smp_demo [] ?cs []) ?r"
    using m(1) src unfolding import_outcome_def by (rule limine_outcome [unfolded import_outcome_def])
  ultimately obtain m' b' where r: "?r = Some (BBP_IMPORT_OK, m', b')"
    by (auto simp: import_outcome_def bind_eq_Some_conv)
  then show ?thesis using src import_limine_cpus [OF src _ r] by auto
qed

end
