(* ===== verification/Import_Uefi.thy ===== *)
theory Import_Uefi
  imports Import_Tags
begin

text \<open>
  The importer of a normalized UEFI snapshot, \<open>bootloader/bbp_import_uefi.c\<close>. The firmware memory map is an
  array of descriptors of a stride the firmware chooses; it is both translated to a memory map tag and
  copied verbatim for the EFI tag.
\<close>

section \<open>Model\<close>

record bbp_uefi_snapshot =
  us_present :: u64
  us_hhdm_offset :: u64
  us_kernel_physical_base :: u64
  us_kernel_virtual_base :: u64
  us_memory_map :: u64
  us_memory_map_bytes :: u64
  us_descriptor_stride :: u64
  us_descriptor_version :: u32
  us_memory_map_final :: u8
  us_system_table :: u64
  us_command_line :: bbp_import_string
  us_framebuffer :: bbp_import_framebuffer
  us_acpi :: bbp_import_acpi
  us_smbios_32 :: u64
  us_smbios_64 :: u64

definition UEFI_SNAPSHOT_BYTES :: u64 where "UEFI_SNAPSHOT_BYTES = 168"

definition UEFI_ALLOWED :: u64 where
  "UEFI_ALLOWED = BBP_IMPORT_HAS_HHDM OR BBP_IMPORT_HAS_MEMORY_MAP OR BBP_IMPORT_HAS_KERNEL_ADDRESS
     OR BBP_IMPORT_HAS_CMDLINE OR BBP_IMPORT_HAS_FRAMEBUFFER OR BBP_IMPORT_HAS_ACPI OR BBP_IMPORT_HAS_EFI
     OR BBP_IMPORT_HAS_SMBIOS"

definition uefi_memory_type :: "u32 \<Rightarrow> u32" where
  "uefi_memory_type type =
     (if type = 1 \<or> type = 2 \<or> type = 3 \<or> type = 4 then BBP_MEM_BOOTLOADER_RECLAIM
      else if type = 7 then BBP_MEM_USABLE
      else if type = 8 then BBP_MEM_BAD_MEMORY
      else if type = 9 then BBP_MEM_ACPI_RECLAIMABLE
      else if type = 10 then BBP_MEM_ACPI_NVS
      else if type = 11 \<or> type = 12 then BBP_MEM_DEVICE_IO
      else if type = 14 then BBP_MEM_PERSISTENT
      else BBP_MEM_RESERVED)"

definition uefi_attributes :: "u64 \<Rightarrow> u32" where
  "uefi_attributes attributes =
     (let EFI_MEMORY_UC = push_bit 0 1; EFI_MEMORY_WC = push_bit 1 1; EFI_MEMORY_WT = push_bit 2 1;
          EFI_MEMORY_WB = push_bit 3 1; EFI_MEMORY_UCE = push_bit 4 1; EFI_MEMORY_RP = push_bit 13 1;
          EFI_MEMORY_XP = push_bit 14 1; EFI_MEMORY_RO = push_bit 17 1;
          result = 0;
          result = (if attributes AND EFI_MEMORY_RP = 0 then result OR BBP_MEM_ATTR_READABLE else result);
          result = (if attributes AND EFI_MEMORY_RO = 0 then result OR BBP_MEM_ATTR_WRITABLE else result);
          result = (if attributes AND EFI_MEMORY_XP = 0 then result OR BBP_MEM_ATTR_EXECUTABLE else result);
          result = (if attributes AND (EFI_MEMORY_WB OR EFI_MEMORY_WT) \<noteq> 0 then result OR BBP_MEM_ATTR_CACHED else result);
          result = (if attributes AND EFI_MEMORY_WC \<noteq> 0 then result OR BBP_MEM_ATTR_WRITE_COMBINE else result);
          result = (if attributes AND (EFI_MEMORY_UC OR EFI_MEMORY_UCE) \<noteq> 0 then result OR BBP_MEM_ATTR_UNCACHED else result)
      in result)"

definition uefi_validate_acpi :: "bbp_import_acpi \<Rightarrow> bbp_import_status" where
  "uefi_validate_acpi acpi =
     (if \<not> bbp_import_phys_address_valid (ac_rsdp_address acpi) False
        \<or> \<not> bbp_import_phys_address_valid (ac_xsdt_address acpi) True then BBP_IMPORT_ERR_RANGE
      else if ac_flags acpi AND NOT (BBP_ACPI_FLAG_XSDT_AVAILABLE OR BBP_ACPI_FLAG_SPCR_AVAILABLE) \<noteq> 0
      then BBP_IMPORT_ERR_FLAGS
      else if (ac_flags acpi AND BBP_ACPI_FLAG_XSDT_AVAILABLE \<noteq> 0) \<noteq> (ac_xsdt_address acpi \<noteq> 0)
      then BBP_IMPORT_ERR_FLAGS
      else BBP_IMPORT_OK)"

text \<open>The loop over the descriptors of \<open>validate_memory_map\<close>.\<close>

fun uefi_scan_map :: "mem \<Rightarrow> u64 \<Rightarrow> u64 \<Rightarrow> nat \<Rightarrow> unit check" where
  "uefi_scan_map m entry stride 0 = Some (Inr ())"
| "uefi_scan_map m entry stride (Suc n) =
     do {
       base \<leftarrow> read_u64 m (entry + 8);
       pages \<leftarrow> read_u64 m (entry + 24);
       if pages = 0 \<or> pages > BBP_IMPORT_U64_MAX div 4096 then Some (Inl BBP_IMPORT_ERR_OVERFLOW)
       else if \<not> bbp_import_phys_range_valid base (pages * 4096) then Some (Inl BBP_IMPORT_ERR_RANGE)
       else uefi_scan_map m (entry + stride) stride n
     }"

text \<open>The value is \<open>*out_count\<close>.\<close>

definition validate_memory_map :: "mem \<Rightarrow> bbp_uefi_snapshot \<Rightarrow> u64 check" where
  "validate_memory_map m s =
     (if us_memory_map s = 0 \<or> us_memory_map_bytes s = 0 then Some (Inl BBP_IMPORT_ERR_NULL)
      else if us_memory_map_final s = 0 then Some (Inl BBP_IMPORT_ERR_NON_FINAL)
      else if us_descriptor_stride s < 40 \<or> us_descriptor_stride s > ucast BBP_IMPORT_U32_MAX
        \<or> us_descriptor_stride s > BBP_IMPORT_SIZE_MAX \<or> us_descriptor_version s \<noteq> 1
      then Some (Inl BBP_IMPORT_ERR_UNSUPPORTED)
      else if us_memory_map_bytes s > ucast BBP_IMPORT_U32_MAX
        \<or> us_memory_map_bytes s mod us_descriptor_stride s \<noteq> 0
      then Some (Inl BBP_IMPORT_ERR_FRAMING)
      else let count = us_memory_map_bytes s div us_descriptor_stride s in
        if count = 0 \<or> count > ucast BBP_IMPORT_U32_MAX then Some (Inl BBP_IMPORT_ERR_COUNT)
        else and_then (uefi_scan_map m (us_memory_map s) (us_descriptor_stride s) (unat count)) (\<lambda>_. Some (Inr count)))"

definition uefi_emit_hhdm :: "u64 \<Rightarrow> build_state \<Rightarrow> build_state option" where
  "uefi_emit_hhdm offset = emit_tag BBP_TAG_HHDM (sizeof struct_bbp_tag_hhdm) (fill_hhdm offset)"

text \<open>One iteration of the loop of \<open>emit_memory_map\<close>.\<close>

definition uefi_copy_entry :: "mem \<Rightarrow> u64 \<Rightarrow> u64 \<Rightarrow> mem option" where
  "uefi_copy_entry m source entry =
     do {
       base \<leftarrow> read_u64 m (source + 8);
       m \<leftarrow> st64 m (entry + off struct_bbp_memory_entry ''base'') base;
       pages \<leftarrow> read_u64 m (source + 24);
       m \<leftarrow> st64 m (entry + off struct_bbp_memory_entry ''length'') (pages * 4096);
       type \<leftarrow> read_u32 m source;
       m \<leftarrow> st32 m (entry + off struct_bbp_memory_entry ''type'') (uefi_memory_type type);
       attributes \<leftarrow> read_u64 m (source + 32);
       st32 m (entry + off struct_bbp_memory_entry ''attributes'') (uefi_attributes attributes)
     }"

definition uefi_emit_memory_map :: "bbp_uefi_snapshot \<Rightarrow> u32 \<Rightarrow> u64 \<Rightarrow> build_state \<Rightarrow> build_state option" where
  "uefi_emit_memory_map s count tag_size = emit_tag BBP_TAG_MEMORY_MAP tag_size
     (fill_memory_map uefi_copy_entry (us_descriptor_stride s) (us_memory_map s) count)"

definition uefi_emit_kernel_address :: "bbp_uefi_snapshot \<Rightarrow> build_state \<Rightarrow> build_state option" where
  "uefi_emit_kernel_address s = emit_tag BBP_TAG_KERNEL_ADDRESS (sizeof struct_bbp_tag_kernel_address)
     (fill_kernel_address (us_kernel_physical_base s) (us_kernel_virtual_base s))"

definition uefi_emit_cmdline :: "bbp_import_string \<Rightarrow> build_state \<Rightarrow> build_state option" where
  "uefi_emit_cmdline string =
     emit_blob_tag (is_data string) (is_bytes string) BBP_TAG_CMDLINE (sizeof struct_bbp_tag_cmdline) (fill_cmdline string)"

definition uefi_emit_framebuffer :: "bbp_import_framebuffer \<Rightarrow> build_state \<Rightarrow> build_state option" where
  "uefi_emit_framebuffer source = emit_tag BBP_TAG_FRAMEBUFFER
     (sizeof struct_bbp_tag_framebuffer + sizeof struct_bbp_display_info) (fill_framebuffer source)"

definition uefi_emit_acpi :: "bbp_import_acpi \<Rightarrow> build_state \<Rightarrow> build_state option" where
  "uefi_emit_acpi source = emit_tag BBP_TAG_ACPI (sizeof struct_bbp_tag_acpi) (fill_acpi source)"

definition fill_efi :: "bbp_uefi_snapshot \<Rightarrow> u64 \<Rightarrow> mem \<Rightarrow> u64 \<Rightarrow> mem option" where
  "fill_efi s map_phys m tag =
     do {
       m \<leftarrow> st64 m (tag + off struct_bbp_tag_efi ''system_table'') (us_system_table s);
       m \<leftarrow> st64 m (tag + off struct_bbp_tag_efi ''memory_map'') map_phys;
       m \<leftarrow> st32 m (tag + off struct_bbp_tag_efi ''memory_map_size'') (ucast (us_memory_map_bytes s));
       m \<leftarrow> st32 m (tag + off struct_bbp_tag_efi ''descriptor_size'') (ucast (us_descriptor_stride s));
       st32 m (tag + off struct_bbp_tag_efi ''descriptor_version'') (us_descriptor_version s)
     }"

definition uefi_emit_efi :: "bbp_uefi_snapshot \<Rightarrow> build_state \<Rightarrow> build_state option" where
  "uefi_emit_efi s =
     emit_blob_tag (us_memory_map s) (us_memory_map_bytes s) BBP_TAG_EFI (sizeof struct_bbp_tag_efi) (fill_efi s)"

definition fill_smbios :: "bbp_uefi_snapshot \<Rightarrow> mem \<Rightarrow> u64 \<Rightarrow> mem option" where
  "fill_smbios s m tag =
     do {
       m \<leftarrow> st64 m (tag + off struct_bbp_tag_smbios ''entry_32bit'') (us_smbios_32 s);
       st64 m (tag + off struct_bbp_tag_smbios ''entry_64bit'') (us_smbios_64 s)
     }"

definition uefi_emit_smbios :: "bbp_uefi_snapshot \<Rightarrow> build_state \<Rightarrow> build_state option" where
  "uefi_emit_smbios s = emit_tag BBP_TAG_SMBIOS (sizeof struct_bbp_tag_smbios) (fill_smbios s)"

definition uefi_has :: "bbp_uefi_snapshot \<Rightarrow> u64 \<Rightarrow> bool" where
  "uefi_has s flag \<longleftrightarrow> us_present s AND flag \<noteq> 0"

text \<open>The value is \<open>map_count\<close>, which stays 0 when no map is needed.\<close>

definition uefi_check_map :: "mem \<Rightarrow> bbp_builder \<Rightarrow> bbp_uefi_snapshot \<Rightarrow> u64 check" where
  "uefi_check_map m b s =
     (let needs_map = uefi_has s (BBP_IMPORT_HAS_MEMORY_MAP OR BBP_IMPORT_HAS_EFI) in
      if \<not> needs_map then Some (Inr 0)
      else if bbp_import_ranges_overlap (us_memory_map s) (us_memory_map_bytes s) (b_arena b) (b_capacity b)
      then Some (Inl BBP_IMPORT_ERR_RANGE)
      else validate_memory_map m s)"

definition uefi_map_tag_size :: "bbp_uefi_snapshot \<Rightarrow> u64 \<Rightarrow> u64 check" where
  "uefi_map_tag_size s map_count =
     (if \<not> uefi_has s BBP_IMPORT_HAS_MEMORY_MAP then Some (Inr 0)
      else case bbp_import_array_tag_size (sizeof struct_bbp_tag_memory_map) map_count
          (sizeof struct_bbp_memory_entry) (Some 0) of
        (status, tag_size) \<Rightarrow> if status \<noteq> BBP_IMPORT_OK then Some (Inl status) else map_option Inr tag_size)"

text \<open>All checks in the order of the code; the value is \<open>map_count\<close> and \<open>map_tag_size\<close>.\<close>

definition uefi_checks :: "mem \<Rightarrow> bbp_builder \<Rightarrow> bbp_uefi_snapshot \<Rightarrow> (u64 \<times> u64) check" where
  "uefi_checks m b s =
     and_then (uefi_check_map m b s) (\<lambda>map_count.
     and_then (uefi_map_tag_size s map_count) (\<lambda>map_tag_size.
     and_then (refuse_if (uefi_has s BBP_IMPORT_HAS_KERNEL_ADDRESS \<and>
       (\<not> bbp_import_phys_address_valid (us_kernel_physical_base s) True \<or> us_kernel_virtual_base s = 0))
       BBP_IMPORT_ERR_RANGE) (\<lambda>_.
     and_then (if uefi_has s BBP_IMPORT_HAS_CMDLINE then check_string m b (us_command_line s) else Some (Inr ())) (\<lambda>_.
     and_then (if uefi_has s BBP_IMPORT_HAS_FRAMEBUFFER
       then status_check (bbp_import_validate_framebuffer (Some (us_framebuffer s))) else Some (Inr ())) (\<lambda>_.
     and_then (if uefi_has s BBP_IMPORT_HAS_ACPI
       then status_check (uefi_validate_acpi (us_acpi s)) else Some (Inr ())) (\<lambda>_.
     and_then (refuse_if (uefi_has s BBP_IMPORT_HAS_EFI \<and> \<not> bbp_import_phys_address_valid (us_system_table s) False)
       BBP_IMPORT_ERR_RANGE) (\<lambda>_.
     and_then (refuse_if (uefi_has s BBP_IMPORT_HAS_SMBIOS \<and>
       (us_smbios_32 s = 0 \<and> us_smbios_64 s = 0 \<or> \<not> bbp_import_phys_address_valid (us_smbios_32 s) True
        \<or> \<not> bbp_import_phys_address_valid (us_smbios_64 s) True)) BBP_IMPORT_ERR_RANGE) (\<lambda>_.
     Some (Inr (map_count, map_tag_size))))))))))"

definition uefi_plan :: "bbp_builder \<Rightarrow> bbp_uefi_snapshot \<Rightarrow> u64 \<Rightarrow> (bbp_import_plan \<Rightarrow> bbp_import_plan check) list" where
  "uefi_plan b s map_tag_size =
     [plan_if (uefi_has s BBP_IMPORT_HAS_HHDM) (\<lambda>p. bbp_import_plan_tag b p (sizeof struct_bbp_tag_hhdm)),
      plan_if (uefi_has s BBP_IMPORT_HAS_MEMORY_MAP) (\<lambda>p. bbp_import_plan_tag b p map_tag_size),
      plan_if (uefi_has s BBP_IMPORT_HAS_KERNEL_ADDRESS)
        (\<lambda>p. bbp_import_plan_tag b p (sizeof struct_bbp_tag_kernel_address)),
      plan_if (uefi_has s BBP_IMPORT_HAS_CMDLINE) (\<lambda>p. bbp_import_plan_blob b p (is_bytes (us_command_line s))),
      plan_if (uefi_has s BBP_IMPORT_HAS_CMDLINE) (\<lambda>p. bbp_import_plan_tag b p (sizeof struct_bbp_tag_cmdline)),
      plan_if (uefi_has s BBP_IMPORT_HAS_FRAMEBUFFER)
        (\<lambda>p. bbp_import_plan_tag b p (sizeof struct_bbp_tag_framebuffer + sizeof struct_bbp_display_info)),
      plan_if (uefi_has s BBP_IMPORT_HAS_ACPI) (\<lambda>p. bbp_import_plan_tag b p (sizeof struct_bbp_tag_acpi)),
      plan_if (uefi_has s BBP_IMPORT_HAS_EFI) (\<lambda>p. bbp_import_plan_blob b p (us_memory_map_bytes s)),
      plan_if (uefi_has s BBP_IMPORT_HAS_EFI) (\<lambda>p. bbp_import_plan_tag b p (sizeof struct_bbp_tag_efi)),
      plan_if (uefi_has s BBP_IMPORT_HAS_SMBIOS) (\<lambda>p. bbp_import_plan_tag b p (sizeof struct_bbp_tag_smbios))]"

definition uefi_emitters :: "bbp_uefi_snapshot \<Rightarrow> u64 \<Rightarrow> u64 \<Rightarrow> (build_state \<Rightarrow> build_state option) list" where
  "uefi_emitters s map_count map_tag_size =
     [emit_if (uefi_has s BBP_IMPORT_HAS_HHDM) (uefi_emit_hhdm (us_hhdm_offset s)),
      emit_if (uefi_has s BBP_IMPORT_HAS_MEMORY_MAP) (uefi_emit_memory_map s (ucast map_count) map_tag_size),
      emit_if (uefi_has s BBP_IMPORT_HAS_KERNEL_ADDRESS) (uefi_emit_kernel_address s),
      emit_if (uefi_has s BBP_IMPORT_HAS_CMDLINE) (uefi_emit_cmdline (us_command_line s)),
      emit_if (uefi_has s BBP_IMPORT_HAS_FRAMEBUFFER) (uefi_emit_framebuffer (us_framebuffer s)),
      emit_if (uefi_has s BBP_IMPORT_HAS_ACPI) (uefi_emit_acpi (us_acpi s)),
      emit_if (uefi_has s BBP_IMPORT_HAS_EFI) (uefi_emit_efi s),
      emit_if (uefi_has s BBP_IMPORT_HAS_SMBIOS) (uefi_emit_smbios s)]"

definition bbp_import_uefi_hobs :: "mem \<Rightarrow> bbp_builder option \<Rightarrow> (u64 \<times> bbp_uefi_snapshot) option \<Rightarrow> import_result" where
  "bbp_import_uefi_hobs m builder snapshot =
     (case (builder, snapshot) of
        (Some b, Some (address, s)) \<Rightarrow>
          if bbp_import_ranges_overlap address UEFI_SNAPSHOT_BYTES (b_arena b) (b_capacity b)
          then Some (BBP_IMPORT_ERR_RANGE, m, builder)
          else if us_present s AND NOT UEFI_ALLOWED \<noteq> 0 then Some (BBP_IMPORT_ERR_FLAGS, m, builder)
          else do {
            (status, plan) \<leftarrow> bbp_import_plan_begin m builder (Some \<lparr>ip_used = 0, ip_tag_count = 0\<rparr>);
            plan \<leftarrow> plan;
            if status \<noteq> BBP_IMPORT_OK then Some (status, m, builder)
            else do {
              r \<leftarrow> uefi_checks m b s;
              case r of
                Inl status \<Rightarrow> Some (status, m, builder)
              | Inr (map_count, map_tag_size) \<Rightarrow>
                  plan_and_emit (uefi_plan b s map_tag_size) (uefi_emitters s map_count map_tag_size) m b plan
            }
          }
      | _ \<Rightarrow> Some (BBP_IMPORT_ERR_NULL, m, builder))"

section \<open>What a snapshot describes\<close>

text \<open>The firmware map and the command line are readable and hold the bytes \<open>ms\<close> and \<open>ps\<close>.\<close>

definition uefi_source :: "mem \<Rightarrow> bbp_uefi_snapshot \<Rightarrow> u8 list \<Rightarrow> u8 list \<Rightarrow> bool" where
  "uefi_source m s ms ps \<longleftrightarrow>
     (uefi_has s (BBP_IMPORT_HAS_MEMORY_MAP OR BBP_IMPORT_HAS_EFI) \<and> us_memory_map s \<noteq> 0 \<longrightarrow>
        load m (us_memory_map s) (unat (us_memory_map_bytes s)) = Some ms) \<and>
     (uefi_has s BBP_IMPORT_HAS_CMDLINE \<and> is_data (us_command_line s) \<noteq> 0 \<longrightarrow>
        load m (is_data (us_command_line s)) (unat (is_bytes (us_command_line s))) = Some ps)"

definition uefi_entry :: "u8 list \<Rightarrow> map_entry" where
  "uefi_entry d = (get_le (slice d 8 8), get_le (slice d 24 8) * 4096, uefi_memory_type (get_le (slice d 0 4)),
     uefi_attributes (get_le (slice d 32 8)))"

definition uefi_entries :: "bbp_uefi_snapshot \<Rightarrow> u8 list \<Rightarrow> map_entry list" where
  "uefi_entries s ms = map uefi_entry (descriptors (unat (us_descriptor_stride s)) ms)"

definition efi_body :: "bbp_uefi_snapshot \<Rightarrow> u64 \<Rightarrow> u8 list" where
  "efi_body s map_phys = put_le 8 (us_system_table s) @ put_le 8 map_phys @ put_le 4 (ucast (us_memory_map_bytes s) :: u32) @
     put_le 4 (ucast (us_descriptor_stride s) :: u32) @ put_le 4 (us_descriptor_version s) @ replicate 4 0"

definition smbios_body :: "bbp_uefi_snapshot \<Rightarrow> u8 list" where
  "smbios_body s = put_le 8 (us_smbios_32 s) @ put_le 8 (us_smbios_64 s)"

definition uefi_items :: "bbp_uefi_snapshot \<Rightarrow> u8 list \<Rightarrow> u8 list \<Rightarrow> item list" where
  "uefi_items s ms ps =
     (if uefi_has s BBP_IMPORT_HAS_HHDM then [Item_Tag BBP_TAG_HHDM (hhdm_body (us_hhdm_offset s))] else []) @
     (if uefi_has s BBP_IMPORT_HAS_MEMORY_MAP
      then [Item_Tag BBP_TAG_MEMORY_MAP (memory_map_body (uefi_entries s ms))] else []) @
     (if uefi_has s BBP_IMPORT_HAS_KERNEL_ADDRESS
      then [Item_Tag BBP_TAG_KERNEL_ADDRESS (kernel_address_body (us_kernel_physical_base s) (us_kernel_virtual_base s))]
      else []) @
     (if uefi_has s BBP_IMPORT_HAS_CMDLINE then [Item_Blob_Tag ps BBP_TAG_CMDLINE (cmdline_body ps)] else []) @
     (if uefi_has s BBP_IMPORT_HAS_FRAMEBUFFER
      then [Item_Tag BBP_TAG_FRAMEBUFFER (framebuffer_body (us_framebuffer s))] else []) @
     (if uefi_has s BBP_IMPORT_HAS_ACPI then [Item_Tag BBP_TAG_ACPI (acpi_body (us_acpi s))] else []) @
     (if uefi_has s BBP_IMPORT_HAS_EFI then [Item_Blob_Tag ms BBP_TAG_EFI (efi_body s)] else []) @
     (if uefi_has s BBP_IMPORT_HAS_SMBIOS then [Item_Tag BBP_TAG_SMBIOS (smbios_body s)] else [])"

section \<open>The descriptors\<close>

lemma uefi_descriptor_reads:
  assumes "load m a w = Some d" "40 \<le> w"
  shows "read_u64 m (a + 8) = Some (get_le (slice d 8 8))" "read_u64 m (a + 24) = Some (get_le (slice d 24 8))"
    "read_u32 m a = Some (get_le (slice d 0 4))" "read_u64 m (a + 32) = Some (get_le (slice d 32 8))"
  using ld_of_load(3) [OF assms(1), of 8] ld_of_load(3) [OF assms(1), of 24] ld_of_load(2) [OF assms(1), of 0]
    ld_of_load(3) [OF assms(1), of 32] assms(2)
  by (simp_all add: read_u64_eq read_u32_eq slice_def)

lemma uefi_copy_entry_stores:
  assumes at: "\<And>m. frame m0 m A \<Longrightarrow> load m src w = Some d" and w: "40 \<le> w"
    and fr: "frame m0 m A" and sp: "span dst 32 \<subseteq> A"
  shows "uefi_copy_entry m src dst = stores m dst (entry_stores (uefi_entry d))"
proof -
  define base pages ty attr where v: "base = (get_le (slice d 8 8) :: u64)" "pages = (get_le (slice d 24 8) :: u64)"
    "ty = (get_le (slice d 0 4) :: u32)" "attr = (get_le (slice d 32 8) :: u64)"
  have rd: "read_u64 m (src + 8) = Some base" "read_u64 m (src + 24) = Some pages" "read_u32 m src = Some ty"
    "read_u64 m (src + 32) = Some attr" if "frame m0 m A" for m
    using uefi_descriptor_reads [OF at [OF that] w] v by simp_all
  let ?k4 = "\<lambda>m. read_u64 m (src + 32) \<bind> (\<lambda>a. store m (dst + of_nat 20) (put_le 4 (uefi_attributes a)))"
  let ?k3 = "\<lambda>m. read_u32 m src \<bind> (\<lambda>t. store m (dst + of_nat 16) (put_le 4 (uefi_memory_type t)) \<bind> ?k4)"
  let ?k2 = "\<lambda>m. read_u64 m (src + 24) \<bind> (\<lambda>n. store m (dst + of_nat 8) (put_le 8 (n * 4096)) \<bind> ?k3)"
  have k3: "?k3 m = stores m dst [(16, put_le 4 (uefi_memory_type ty)), (20, put_le 4 (uefi_attributes attr))]"
    if f: "frame m0 m A" for m
    using store_then [OF f sp, where e = 16 and qs = "put_le 4 (uefi_memory_type ty)" and f = ?k4
        and g = "\<lambda>m. store m (dst + of_nat 20) (put_le 4 (uefi_attributes attr))"] rd by (simp add: rd(3) [OF f])
  have k2: "?k2 m = store m (dst + of_nat 8) (put_le 8 (pages * 4096)) \<bind>
      (\<lambda>m. stores m dst [(16, put_le 4 (uefi_memory_type ty)), (20, put_le 4 (uefi_attributes attr))])"
    if f: "frame m0 m A" for m
    unfolding rd(2) [OF f] bind.bind_lunit by (rule store_then [OF f sp], simp, rule k3)
  have "uefi_copy_entry m src dst = store m (dst + of_nat 0) (put_le 8 base) \<bind> ?k2"
    by (simp add: uefi_copy_entry_def rd(1) [OF fr] st_defs)
  also have "\<dots> = store m (dst + of_nat 0) (put_le 8 base) \<bind> (\<lambda>m. store m (dst + of_nat 8) (put_le 8 (pages * 4096)) \<bind>
      (\<lambda>m. stores m dst [(16, put_le 4 (uefi_memory_type ty)), (20, put_le 4 (uefi_attributes attr))]))"
    by (rule store_then [OF fr sp], simp, rule k2)
  also have "\<dots> = stores m dst (entry_stores (uefi_entry d))" by (simp add: entry_stores_def uefi_entry_def v)
  finally show ?thesis .
qed

lemma uefi_scan_map_ok:
  assumes "\<forall>i<n. \<exists>d. load m (a + of_nat i * k) w = Some d" "40 \<le> w"
  shows "check_ok (uefi_scan_map m a k n)"
  using assms(1)
proof (induction n arbitrary: a)
  case (Suc n)
  obtain d where "load m a w = Some d" using Suc.prems by force
  note rd = uefi_descriptor_reads [OF this assms(2)]
  have "check_ok (uefi_scan_map m (a + k) k n)"
  proof (rule Suc.IH, intro allI impI)
    fix i assume "i < n"
    then show "\<exists>d. load m (a + k + of_nat i * k) w = Some d"
      using Suc.prems [rule_format, of "Suc i"] by (simp add: algebra_simps)
  qed
  then show ?case by (simp add: rd)
qed simp

lemma uefi_emits_memory_map:
  assumes ld: "load m0 (us_memory_map s) n = Some ms" and w: "w = unat (us_descriptor_stride s)" "40 \<le> w"
    and out: "outside_arena b0 (us_memory_map s) n" and c: "unat count = n div w" "n div w < 2 ^ 32"
    and sz: "unat tag_size = 40 + (n div w) * 32"
  shows "emits m0 b0 (uefi_emit_memory_map s (ucast count) tag_size)
    (Item_Tag BBP_TAG_MEMORY_MAP (memory_map_body (uefi_entries s ms)))"
  unfolding uefi_emit_memory_map_def
proof (rule emits_memory_map)
  have len: "length (uefi_entries s ms) = n div w"
    using load_length [OF ld] by (simp add: uefi_entries_def descriptors_def w(1))
  then show "unat tag_size = 40 + length (uefi_entries s ms) * 32" "length (uefi_entries s ms) < 2 ^ 32"
    using sz c by simp_all
  show "ucast count = (of_nat (length (uefi_entries s ms)) :: u32)" unfolding len c(1) [symmetric] by simp
  fix i m dst assume i: "i < length (uefi_entries s ms)" and fr: "frame m0 m (arena_span b0)"
    and sp: "span dst 32 \<subseteq> arena_span b0"
  have k: "us_descriptor_stride s = of_nat w" using w(1) by simp
  have "load m (us_memory_map s + of_nat i * us_descriptor_stride s) w = Some (descriptors w ms ! i)"
    if "frame m0 m (arena_span b0)" for m
  proof -
    have "load m (us_memory_map s) n = Some ms" using ld same_load_all [OF outside_same [OF out that]] by simp
    from descriptor_load [OF this] show ?thesis using i len k by simp
  qed
  from uefi_copy_entry_stores [OF this w(2) fr sp]
  show "uefi_copy_entry m (us_memory_map s + of_nat i * us_descriptor_stride s) dst
      = stores m dst (entry_stores (uefi_entries s ms ! i))"
    using i len w(1) load_length [OF ld] by (simp add: uefi_entries_def descriptors_def)
qed

section \<open>The checks\<close>

definition uefi_needs_map :: "bbp_uefi_snapshot \<Rightarrow> bool" where
  "uefi_needs_map s \<longleftrightarrow> uefi_has s (BBP_IMPORT_HAS_MEMORY_MAP OR BBP_IMPORT_HAS_EFI)"

lemma uefi_needs_map_iff: "uefi_needs_map s \<longleftrightarrow> uefi_has s BBP_IMPORT_HAS_MEMORY_MAP \<or> uefi_has s BBP_IMPORT_HAS_EFI"
proof -
  have "x AND (y OR z) = 0 \<longleftrightarrow> x AND y = 0 \<and> x AND z = 0" for x y z :: u64
    by (auto simp: bit_eq_iff bit_and_iff bit_or_iff)
  then show ?thesis by (simp add: uefi_needs_map_def uefi_has_def)
qed

text \<open>An accepted map is readable, outside the arena and a whole number of descriptors.\<close>

definition uefi_map_ok :: "mem \<Rightarrow> bbp_builder \<Rightarrow> bbp_uefi_snapshot \<Rightarrow> u8 list \<Rightarrow> u64 \<Rightarrow> bool" where
  "uefi_map_ok m b s ms count \<longleftrightarrow>
     us_memory_map s \<noteq> 0 \<and> load m (us_memory_map s) (unat (us_memory_map_bytes s)) = Some ms \<and>
     outside_arena b (us_memory_map s) (unat (us_memory_map_bytes s)) \<and> 40 \<le> unat (us_descriptor_stride s) \<and>
     unat count = unat (us_memory_map_bytes s) div unat (us_descriptor_stride s) \<and> unat count < 2 ^ 32 \<and> 0 < unat count"

lemma uefi_check_map_ok:
  assumes src: "uefi_source m s ms ps"
  shows "check_ok (uefi_check_map m b s)"
    and "uefi_check_map m b s = Some (Inr count) \<Longrightarrow> uefi_needs_map s \<Longrightarrow> uefi_map_ok m b s ms count"
proof -
  let ?a = "us_memory_map s" and ?n = "us_memory_map_bytes s" and ?k = "us_descriptor_stride s"
  have "check_ok (uefi_check_map m b s) \<and> (\<forall>count. uefi_check_map m b s = Some (Inr count) \<and> uefi_needs_map s \<longrightarrow>
    uefi_map_ok m b s ms count)"
  proof (cases "uefi_needs_map s \<and> ?a \<noteq> 0 \<and> 40 \<le> unat ?k")
    case True
    then have ld: "load m ?a (unat ?n) = Some ms" using src by (simp add: uefi_source_def uefi_needs_map_def)
    have "\<forall>i<unat ?n div unat ?k. \<exists>d. load m (?a + of_nat i * ?k) (unat ?k) = Some d"
      using descriptor_load [OF ld, of _ "unat ?k"] by auto
    then have sc: "check_ok (uefi_scan_map m ?a ?k (unat (?n div ?k)))"
      using uefi_scan_map_ok [of "unat ?n div unat ?k" m ?a ?k] True by (simp add: unat_div)
    have u: "c > ucast BBP_IMPORT_U32_MAX \<longleftrightarrow> \<not> unat c < 2 ^ 32" for c :: u64
      by (simp add: BBP_IMPORT_U32_MAX_def umax word_less_nat_alt) linarith
    have "check_ok (validate_memory_map m s)"
      using sc by (auto simp: validate_memory_map_def Let_def intro!: check_ok_and_then)
    moreover have "unat count = unat ?n div unat ?k \<and> unat count < 2 ^ 32 \<and> 0 < unat count"
      if "validate_memory_map m s = Some (Inr count)" for count
      using that by (auto simp: validate_memory_map_def Let_def and_then_Inr u unat_div unat_gt_0 [symmetric] split: if_splits)
    ultimately show ?thesis
      using True ld ranges_apart [of ?a ?n "b_arena b" "b_capacity b"]
      by (auto simp: uefi_check_map_def Let_def uefi_needs_map_def [symmetric] uefi_map_ok_def outside_arena_def)
  next
    case False
    then show ?thesis
      by (auto simp: uefi_check_map_def Let_def uefi_needs_map_def [symmetric] validate_memory_map_def word_less_nat_alt)
  qed
  then show "check_ok (uefi_check_map m b s)"
    "uefi_check_map m b s = Some (Inr count) \<Longrightarrow> uefi_needs_map s \<Longrightarrow> uefi_map_ok m b s ms count" by auto
qed

lemma uefi_map_tag_size_ok: "check_ok (uefi_map_tag_size s count)"
proof -
  have "out \<noteq> None" if "bbp_import_array_tag_size f c e (Some 0) = (BBP_IMPORT_OK, out)" for f c e out
    by (rule array_tag_size_ok [OF that]) simp
  then show ?thesis by (auto simp: uefi_map_tag_size_def check_ok_def split: prod.splits)
qed

lemma uefi_checks_ok:
  assumes src: "uefi_source m s ms ps"
  shows "check_ok (uefi_checks m b s)"
proof -
  have "check_ok (if uefi_has s BBP_IMPORT_HAS_CMDLINE then check_string m b (us_command_line s) else Some (Inr ()))"
    using check_string_ok(1) [of "us_command_line s" m ps b] src by (auto simp: uefi_source_def)
  then show ?thesis unfolding uefi_checks_def
    using uefi_check_map_ok(1) [OF src] uefi_map_tag_size_ok by (intro check_ok_and_then) simp_all
qed

lemma emits_efi:
  assumes "us_memory_map s \<noteq> 0" "load m0 (us_memory_map s) (unat (us_memory_map_bytes s)) = Some ms"
    "outside_arena b0 (us_memory_map s) (unat (us_memory_map_bytes s))"
  shows "emits m0 b0 (uefi_emit_efi s) (Item_Blob_Tag ms BBP_TAG_EFI (efi_body s))"
  unfolding uefi_emit_efi_def
  by (rule emits_blob_tag [OF assms, where ws = "\<lambda>ph. [(0, put_le 8 (us_system_table s)), (8, put_le 8 ph),
        (16, put_le 4 (ucast (us_memory_map_bytes s) :: u32)), (20, put_le 4 (ucast (us_descriptor_stride s) :: u32)),
        (24, put_le 4 (us_descriptor_version s))]"])
    (simp_all add: fills_def shift_def fill_efi_def st_defs efi_body_def patch_def)

lemma emits_smbios: "emits m0 b0 (uefi_emit_smbios s) (Item_Tag BBP_TAG_SMBIOS (smbios_body s))"
  unfolding uefi_emit_smbios_def
  by (rule emits_tag [where ws = "[(0, put_le 8 (us_smbios_32 s)), (8, put_le 8 (us_smbios_64 s))]"])
    (simp_all add: fills_def shift_def fill_smbios_def st_defs smbios_body_def patch_def)

definition uefi_parts :: "bbp_uefi_snapshot \<Rightarrow> u64 \<Rightarrow> u64 \<Rightarrow> u8 list \<Rightarrow> u8 list \<Rightarrow> part list" where
  "uefi_parts s count map_size ms ps =
     [(uefi_has s BBP_IMPORT_HAS_HHDM, uefi_emit_hhdm (us_hhdm_offset s),
       Item_Tag BBP_TAG_HHDM (hhdm_body (us_hhdm_offset s))),
      (uefi_has s BBP_IMPORT_HAS_MEMORY_MAP, uefi_emit_memory_map s (ucast count) map_size,
       Item_Tag BBP_TAG_MEMORY_MAP (memory_map_body (uefi_entries s ms))),
      (uefi_has s BBP_IMPORT_HAS_KERNEL_ADDRESS, uefi_emit_kernel_address s,
       Item_Tag BBP_TAG_KERNEL_ADDRESS (kernel_address_body (us_kernel_physical_base s) (us_kernel_virtual_base s))),
      (uefi_has s BBP_IMPORT_HAS_CMDLINE, uefi_emit_cmdline (us_command_line s),
       Item_Blob_Tag ps BBP_TAG_CMDLINE (cmdline_body ps)),
      (uefi_has s BBP_IMPORT_HAS_FRAMEBUFFER, uefi_emit_framebuffer (us_framebuffer s),
       Item_Tag BBP_TAG_FRAMEBUFFER (framebuffer_body (us_framebuffer s))),
      (uefi_has s BBP_IMPORT_HAS_ACPI, uefi_emit_acpi (us_acpi s), Item_Tag BBP_TAG_ACPI (acpi_body (us_acpi s))),
      (uefi_has s BBP_IMPORT_HAS_EFI, uefi_emit_efi s, Item_Blob_Tag ms BBP_TAG_EFI (efi_body s)),
      (uefi_has s BBP_IMPORT_HAS_SMBIOS, uefi_emit_smbios s, Item_Tag BBP_TAG_SMBIOS (smbios_body s))]"

lemma uefi_memory_map_part:
  assumes src: "uefi_source m s ms ps" and c: "uefi_check_map m b s = Some (Inr count)"
    "uefi_map_tag_size s count = Some (Inr z)" and has: "uefi_has s BBP_IMPORT_HAS_MEMORY_MAP"
  shows "emits m b (uefi_emit_memory_map s (ucast count) z) (Item_Tag BBP_TAG_MEMORY_MAP (memory_map_body (uefi_entries s ms)))
    \<and> z = of_nat (32 + length (memory_map_body (uefi_entries s ms)))"
proof -
  have ok: "uefi_map_ok m b s ms count" using uefi_check_map_ok(2) [OF src c(1)] has by (simp add: uefi_needs_map_iff)
  obtain out where sz: "bbp_import_array_tag_size (sizeof struct_bbp_tag_memory_map) count
      (sizeof struct_bbp_memory_entry) (Some 0) = (BBP_IMPORT_OK, out)" "out = Some z"
    using c(2) has by (auto simp: uefi_map_tag_size_def split: prod.splits if_splits)
  have z: "unat z = 40 + unat count * 32" by (rule array_tag_size_ok [OF sz(1)]) (use sz(2) in simp)
  have "length (uefi_entries s ms) = unat count"
    using ok load_length by (auto simp: uefi_map_ok_def uefi_entries_def descriptors_def)
  then have "unat z = 32 + length (memory_map_body (uefi_entries s ms))"
    using z by (simp add: memory_map_body_def length_concat entry_bytes_def case_prod_unfold comp_def sum_list_triv)
  then have "z = of_nat (32 + length (memory_map_body (uefi_entries s ms)))" by (metis of_nat_unat_u64)
  then show ?thesis using ok z uefi_emits_memory_map [of m s "unat (us_memory_map_bytes s)" ms _ b count z]
    by (simp add: uefi_map_ok_def)
qed

lemma uefi_parts_ok:
  assumes src: "uefi_source m s ms ps" and ch: "uefi_checks m b s = Some (Inr (count, z))"
  shows "list_all (part_ok m b) (uefi_parts s count z ms ps)"
    "uefi_plan b s z = concat (map (part_steps b) (uefi_parts s count z ms ps))"
proof -
  have c: "uefi_check_map m b s = Some (Inr count)" "uefi_map_tag_size s count = Some (Inr z)"
    "(if uefi_has s BBP_IMPORT_HAS_CMDLINE then check_string m b (us_command_line s) else Some (Inr ())) = Some (Inr ())"
    using ch by (auto simp: uefi_checks_def and_then_Inr)
  note mm = uefi_memory_map_part [OF src c(1,2)]
  have str: "check_string m b (us_command_line s) = Some (Inr ())" if "uefi_has s BBP_IMPORT_HAS_CMDLINE"
    using c(3) that by simp
  have "load m (is_data (us_command_line s)) (unat (is_bytes (us_command_line s))) = Some ps"
    if "uefi_has s BBP_IMPORT_HAS_CMDLINE" "is_data (us_command_line s) \<noteq> 0" using src that by (simp add: uefi_source_def)
  note cmd = check_string_ok(2) [OF this str]
  have ok: "uefi_map_ok m b s ms count" if "uefi_has s BBP_IMPORT_HAS_EFI"
    using uefi_check_map_ok(2) [OF src c(1)] that by (simp add: uefi_needs_map_iff)
  have efi: "emits m b (uefi_emit_efi s) (Item_Blob_Tag ms BBP_TAG_EFI (efi_body s))" if "uefi_has s BBP_IMPORT_HAS_EFI"
    using ok [OF that] by (intro emits_efi) (simp_all add: uefi_map_ok_def)
  have len: "us_memory_map_bytes s = of_nat (length ms)" if "uefi_has s BBP_IMPORT_HAS_EFI"
    using ok [OF that] load_length [of m "us_memory_map s" "unat (us_memory_map_bytes s)" ms] by (simp add: uefi_map_ok_def)
  show "list_all (part_ok m b) (uefi_parts s count z ms ps)"
    using mm [THEN conjunct1] cmd [of BBP_TAG_CMDLINE, THEN conjunct1] efi emits_hhdm emits_kernel_address
      emits_framebuffer emits_acpi emits_smbios
    by (simp add: uefi_parts_def part_ok_def uefi_emit_hhdm_def uefi_emit_kernel_address_def
        uefi_emit_cmdline_def uefi_emit_framebuffer_def uefi_emit_acpi_def)
  show "uefi_plan b s z = concat (map (part_steps b) (uefi_parts s count z ms ps))"
    using mm [THEN conjunct2] cmd [THEN conjunct2] len
    by (simp add: uefi_plan_def uefi_parts_def efi_body_def smbios_body_def cong: plan_if_cong)
qed

lemma uefi_outcome:
  assumes "wf_builder m b ts" "uefi_source m s ms ps"
  shows "import_outcome m b ts (uefi_items s ms ps) (bbp_import_uefi_hobs m (Some b) (Some (a, s)))"
proof -
  have "import_outcome m b ts (uefi_items s ms ps) (plan_and_emit (uefi_plan b s z) (uefi_emitters s c z) m b p)"
    if pb: "bbp_import_plan_begin m (Some b) (Some \<lparr>ip_used = 0, ip_tag_count = 0\<rparr>) = Some (BBP_IMPORT_OK, Some p)"
      and ch: "uefi_checks m b s = Some (Inr (c, z))" for p z c
  proof -
    have "uefi_items s ms ps = present_items (uefi_parts s c z ms ps)"
      by (simp add: uefi_items_def uefi_parts_def)
    moreover have "uefi_emitters s c z = map (\<lambda>(c, e, x). emit_if c e) (uefi_parts s c z ms ps)"
      by (simp add: uefi_emitters_def uefi_parts_def)
    ultimately show ?thesis
      using plan_and_emit_outcome [OF assms(1) pb uefi_parts_ok(1) [OF assms(2) ch] uefi_parts_ok(2) [OF assms(2) ch]]
      by simp
  qed
  then have "import_outcome m b ts (uefi_items s ms ps) (do {
      r \<leftarrow> uefi_checks m b s;
      case r of Inl status \<Rightarrow> Some (status, m, Some b)
      | Inr (c, z) \<Rightarrow> plan_and_emit (uefi_plan b s z) (uefi_emitters s c z) m b p })"
    if "bbp_import_plan_begin m (Some b) (Some \<lparr>ip_used = 0, ip_tag_count = 0\<rparr>) = Some (BBP_IMPORT_OK, Some p)" for p
    using that by (intro checks_outcome uefi_checks_ok [OF assms(2)]) (auto split: prod.splits)
  from begin_outcome [OF assms(1) this] show ?thesis
    by (simp add: bbp_import_uefi_hobs_def outcome_refused cong: if_cong)
qed

section \<open>Properties\<close>

text \<open>C19. The UEFI importer is total and failure-atomic: for every snapshot it returns without touching
  unmapped memory, and it either refuses with a status and leaves memory and builder unchanged, or
  appends exactly the tags the snapshot describes. The memory map tag has one entry per firmware
  descriptor, whatever the descriptor stride, with the length in bytes and the translated type and
  attributes, and the EFI tag points to a verbatim copy of the firmware map.\<close>

theorem import_uefi_outcome:
  assumes "wf_builder m b ts" "uefi_source m s ms ps"
  shows "import_outcome m b ts (uefi_items s ms ps) (bbp_import_uefi_hobs m (Some b) (Some (a, s)))"
  using assms by (rule uefi_outcome)

definition uefi_demo :: bbp_uefi_snapshot where
  "uefi_demo = \<lparr>us_present = 2, us_hhdm_offset = 0, us_kernel_physical_base = 0, us_kernel_virtual_base = 0,
     us_memory_map = 0x30000, us_memory_map_bytes = 40, us_descriptor_stride = 40, us_descriptor_version = 1,
     us_memory_map_final = 1, us_system_table = 0, us_command_line = \<lparr>is_data = 0, is_bytes = 0\<rparr>,
     us_framebuffer = \<lparr>fb_address = 0, fb_total_size = 0, fb_width = 0, fb_height = 0, fb_pitch = 0,
       fb_pixel_format = 0, fb_color_depth = 0, fb_flags = 0\<rparr>,
     us_acpi = \<lparr>ac_rsdp_address = 0, ac_xsdt_address = 0, ac_oem_id = 0, ac_acpi_version = 0, ac_flags = 0\<rparr>,
     us_smbios_32 = 0, us_smbios_64 = 0\<rparr>"

lemma uefi_demo_has [simp]:
  "\<not> uefi_has uefi_demo BBP_IMPORT_HAS_HHDM" "uefi_has uefi_demo BBP_IMPORT_HAS_MEMORY_MAP"
  "\<not> uefi_has uefi_demo BBP_IMPORT_HAS_KERNEL_ADDRESS" "\<not> uefi_has uefi_demo BBP_IMPORT_HAS_CMDLINE"
  "\<not> uefi_has uefi_demo BBP_IMPORT_HAS_FRAMEBUFFER" "\<not> uefi_has uefi_demo BBP_IMPORT_HAS_ACPI"
  "\<not> uefi_has uefi_demo BBP_IMPORT_HAS_EFI" "\<not> uefi_has uefi_demo BBP_IMPORT_HAS_SMBIOS"
  "uefi_has uefi_demo (BBP_IMPORT_HAS_MEMORY_MAP OR BBP_IMPORT_HAS_EFI)"
  by (simp_all add: uefi_has_def uefi_demo_def presence_defs)

text \<open>One page of conventional memory at 1 MiB.\<close>

abbreviation uefi_demo_map :: "u8 list" where
  "uefi_demo_map \<equiv> put_le 4 (7 :: u32) @ replicate 4 0 @ put_le 8 (0x100000 :: u64) @ replicate 8 0 @
     put_le 8 (1 :: u64) @ put_le 8 (8 :: u64)"

lemma uefi_demo_entries: "uefi_entries uefi_demo uefi_demo_map = [(0x100000, 4096, BBP_MEM_USABLE, 15)]"
proof -
  have k: "unat (us_descriptor_stride uefi_demo) = 40" by (simp add: uefi_demo_def)
  have "descriptors 40 uefi_demo_map = [uefi_demo_map]" by (simp add: descriptors_def)
  then show ?thesis
    by (simp only: uefi_entries_def k) (simp add: uefi_entry_def slice_def le64.dec_enc le32.dec_enc uefi_memory_type_def
        uefi_attributes_def Let_def BBP_MEM_ATTR_READABLE_def BBP_MEM_ATTR_WRITABLE_def BBP_MEM_ATTR_EXECUTABLE_def
        BBP_MEM_ATTR_CACHED_def)
qed

lemma uefi_demo_memory:
  obtains m where "wf_builder m demo_builder []" "load m 0x30000 40 = Some uefi_demo_map"
proof -
  obtain m0 where m0: "wf_builder m0 demo_builder []" "same_dom (\<lambda>_. Some 0) m0" by (rule demo_init)
  have "mapped m0 0x30000 (length uefi_demo_map)" using same_dom_mapped [OF m0(2)] by (simp add: mapped_def)
  then obtain m where m: "store m0 0x30000 uefi_demo_map = Some m" using store_ok by blast
  have "outside_arena demo_builder 0x30000 (length uefi_demo_map)"
    unfolding outside_arena_def by (rule disj_apart) simp_all
  then have "wf_builder m demo_builder []" using wf_builder_other [OF m0(1) m] by blast
  then show thesis using that load_store_same [OF m] by simp
qed

theorem import_uefi_outcome_witness:
  "\<exists>m m' b'. wf_builder m demo_builder [] \<and>
     bbp_import_uefi_hobs m (Some demo_builder) (Some (0x40000, uefi_demo)) = Some (BBP_IMPORT_OK, m', Some b') \<and>
     wf_builder m' b' [(0, 72, BBP_TAG_MEMORY_MAP)] \<and>
     load m' (va b' 32) 40 = Some (memory_map_body [(0x100000, 4096, BBP_MEM_USABLE, 15)])"
proof -
  obtain m where m: "wf_builder m demo_builder []" "load m 0x30000 40 = Some uefi_demo_map" by (rule uefi_demo_memory)
  let ?r = "bbp_import_uefi_hobs m (Some demo_builder) (Some (0x40000, uefi_demo))"
  have src: "uefi_source m uefi_demo uefi_demo_map []" using m(2) by (simp add: uefi_source_def) (simp add: uefi_demo_def)
  have b: "bbp_import_plan_begin m (Some demo_builder) (Some \<lparr>ip_used = 0, ip_tag_count = 0\<rparr>)
      = Some (BBP_IMPORT_OK, Some \<lparr>ip_used = 0, ip_tag_count = 0\<rparr>)"
    by (simp add: bbp_import_plan_begin_def plan_chain_bad_def import_consts)
  have "uefi_scan_map m 0x30000 40 (Suc 0) = Some (Inr ())"
    using uefi_descriptor_reads [OF m(2)]
    by (simp add: slice_def le64.dec_enc import_consts bbp_import_phys_range_valid_def)
  then have "validate_memory_map m uefi_demo = Some (Inr 1)"
    by (simp add: validate_memory_map_def uefi_demo_def import_consts umax and_then_def)
  then have "uefi_check_map m demo_builder uefi_demo = Some (Inr 1)"
    by (simp add: uefi_check_map_def) (simp add: uefi_demo_def bbp_import_ranges_overlap_def import_consts)
  moreover have "uefi_map_tag_size uefi_demo 1 = Some (Inr 72)"
    by (simp add: uefi_map_tag_size_def bbp_import_array_tag_size_def import_consts umax)
  ultimately have c: "uefi_checks m demo_builder uefi_demo = Some (Inr (1, 72))"
    by (simp add: uefi_checks_def and_then_def refuse_if_def)
  have p: "plan_steps (uefi_plan demo_builder uefi_demo 72) \<lparr>ip_used = 0, ip_tag_count = 0\<rparr>
      = Some (Inr \<lparr>ip_used = 72, ip_tag_count = 1\<rparr>)"
    by (simp add: uefi_plan_def plan_if_def and_then_def bbp_import_plan_tag_def plan_allocation_def
        import_align8_def add_size_def import_consts umax)
  have "?r = do { (m, b) \<leftarrow> emit_steps (uefi_emitters uefi_demo 1 72) (m, demo_builder); Some (BBP_IMPORT_OK, m, Some b) }"
    using b c p by (simp add: bbp_import_uefi_hobs_def plan_and_emit_def bbp_import_ranges_overlap_def import_consts
        UEFI_SNAPSHOT_BYTES_def UEFI_ALLOWED_def presence_defs) (simp add: uefi_demo_def)
  moreover have "import_outcome m demo_builder [] (uefi_items uefi_demo uefi_demo_map []) ?r"
    by (rule import_uefi_outcome [OF m(1) src])
  ultimately obtain m' b' where r: "?r = Some (BBP_IMPORT_OK, m', Some b')"
    "laid m demo_builder [] (uefi_items uefi_demo uefi_demo_map []) m' b'"
    by (auto simp: import_outcome_def bind_eq_Some_conv)
  have "length (memory_map_body [(0x100000, 4096, BBP_MEM_USABLE, 15)]) = 40"
    by (simp add: memory_map_body_def entry_bytes_def)
  then have "wf_builder m' b' [(0, 72, BBP_TAG_MEMORY_MAP)]"
    "load m' (va b' 32) 40 = Some (memory_map_body [(0x100000, 4096, BBP_MEM_USABLE, 15)])"
    using r(2) by (simp_all add: laid_def uefi_items_def uefi_demo_entries Let_def align8_def holds_def)
  then show ?thesis using m(1) r(1) by blast
qed

end
