(* ===== verification/Import_Multiboot2.thy ===== *)
theory Import_Multiboot2
  imports Import_Tags
begin

text \<open>
  The Multiboot2 importer, \<open>bootloader/bbp_import_multiboot2.c\<close>: a bounded parser of the boot information
  and the emitters of its tags. The two \<open>while\<close> loops have no bound of their own in the code; they are
  partial functions here, so that not terminating is the value \<^term>\<open>None\<close>, and that they return is proved.
\<close>

section \<open>Model of the parser\<close>

definition MB2_END :: u32 where "MB2_END = 0"
definition MB2_CMDLINE :: u32 where "MB2_CMDLINE = 1"
definition MB2_MODULE :: u32 where "MB2_MODULE = 3"
definition MB2_MMAP :: u32 where "MB2_MMAP = 6"
definition MB2_FRAMEBUFFER :: u32 where "MB2_FRAMEBUFFER = 8"
definition MB2_ACPI_OLD :: u32 where "MB2_ACPI_OLD = 14"
definition MB2_ACPI_NEW :: u32 where "MB2_ACPI_NEW = 15"

lemmas mb2_consts = MB2_END_def MB2_CMDLINE_def MB2_MODULE_def MB2_MMAP_def MB2_FRAMEBUFFER_def MB2_ACPI_OLD_def
  MB2_ACPI_NEW_def

record bbp_multiboot2_snapshot =
  mb_mbi :: u64
  mb_mapped_bytes :: u64
  mb_present :: u64
  mb_hhdm_offset :: u64
  mb_kernel_physical_base :: u64
  mb_kernel_virtual_base :: u64

definition MB2_SNAPSHOT_BYTES :: u64 where "MB2_SNAPSHOT_BYTES = 48"

record mb2_scan =
  sc_data :: u64
  sc_total :: u64
  sc_cmdline_offset :: u64
  sc_cmdline_bytes :: u64
  sc_mmap_offset :: u64
  sc_mmap_count :: u64
  sc_mmap_stride :: u32
  sc_module_count :: u64
  sc_framebuffer_offset :: u64
  sc_framebuffer :: bbp_import_framebuffer
  sc_acpi_offset :: u64
  sc_acpi_bytes :: u64
  sc_acpi_xsdt :: u64
  sc_acpi_oem_id :: u32
  sc_acpi_version :: u16

fun byte_sum :: "mem \<Rightarrow> u64 \<Rightarrow> nat \<Rightarrow> u8 \<Rightarrow> u8 option" where
  "byte_sum m data 0 acc = Some acc"
| "byte_sum m data (Suc bytes) acc = do { v \<leftarrow> m data; byte_sum m (data + 1) bytes (acc + v) }"

definition checksum_zero :: "mem \<Rightarrow> u64 \<Rightarrow> u64 \<Rightarrow> bool option" where
  "checksum_zero m data bytes = do { acc \<leftarrow> byte_sum m data (unat bytes) 0; Some (acc = 0) }"

fun bytes_match :: "mem \<Rightarrow> u64 \<Rightarrow> u8 list \<Rightarrow> bool option" where
  "bytes_match m data [] = Some True"
| "bytes_match m data (c # cs) = do { v \<leftarrow> m data; if v \<noteq> c then Some False else bytes_match m (data + 1) cs }"

definition signature_is_rsdp :: "mem \<Rightarrow> u64 \<Rightarrow> bool option" where
  "signature_is_rsdp m data = bytes_match m data (ascii ''RSD PTR '')"

definition exact_string :: "mem \<Rightarrow> u64 \<Rightarrow> u64 \<Rightarrow> bbp_import_status option" where
  "exact_string m data bytes = bbp_import_validate_string m \<lparr>is_data = data, is_bytes = bytes\<rparr>"

text \<open>The four pixel layouts of \<open>parse_framebuffer\<close>: depth, and position and tag_size of each channel.\<close>

definition mb2_pixel_format :: "u8 \<Rightarrow> u8 \<times> u8 \<Rightarrow> u8 \<times> u8 \<Rightarrow> u8 \<times> u8 \<Rightarrow> (u32 \<times> u16) option" where
  "mb2_pixel_format bpp red green blue =
     (if bpp = 24 \<and> red = (0, 8) \<and> green = (8, 8) \<and> blue = (16, 8) then Some (BBP_FB_RGB888, 8)
      else if bpp = 32 \<and> red = (0, 8) \<and> green = (8, 8) \<and> blue = (16, 8) then Some (BBP_FB_RGBA8888, 8)
      else if bpp = 32 \<and> red = (16, 8) \<and> green = (8, 8) \<and> blue = (0, 8) then Some (BBP_FB_BGRA8888, 8)
      else if bpp = 16 \<and> red = (11, 5) \<and> green = (5, 6) \<and> blue = (0, 5) then Some (BBP_FB_RGB565, 5)
      else None)"

definition parse_framebuffer :: "mem \<Rightarrow> u64 \<Rightarrow> u32 \<Rightarrow> bbp_import_framebuffer check" where
  "parse_framebuffer m tag tag_size =
     (if tag_size \<noteq> 38 then Some (Inl BBP_IMPORT_ERR_FRAMING)
      else do {
        kind \<leftarrow> m (tag + 29);
        if kind \<noteq> 1 then Some (Inl BBP_IMPORT_ERR_UNSUPPORTED)
        else do {
          r0 \<leftarrow> m (tag + 30);
          r1 \<leftarrow> m (tag + 31);
          if r0 \<noteq> 0 \<or> r1 \<noteq> 0 then Some (Inl BBP_IMPORT_ERR_FRAMING)
          else do {
            bpp \<leftarrow> m (tag + 28);
            red_position \<leftarrow> m (tag + 32); red_size \<leftarrow> m (tag + 33);
            green_position \<leftarrow> m (tag + 34); green_size \<leftarrow> m (tag + 35);
            blue_position \<leftarrow> m (tag + 36); blue_size \<leftarrow> m (tag + 37);
            case mb2_pixel_format bpp (red_position, red_size) (green_position, green_size) (blue_position, blue_size) of
              None \<Rightarrow> Some (Inl BBP_IMPORT_ERR_UNSUPPORTED)
            | Some (pixel_format, color_depth) \<Rightarrow> do {
                address \<leftarrow> read_u64 m (tag + 8);
                pitch \<leftarrow> read_u32 m (tag + 16);
                width \<leftarrow> read_u32 m (tag + 20);
                height \<leftarrow> read_u32 m (tag + 24);
                let out = \<lparr>fb_address = address, fb_total_size = ucast pitch * ucast height, fb_width = width,
                  fb_height = height, fb_pitch = pitch, fb_pixel_format = pixel_format,
                  fb_color_depth = color_depth, fb_flags = 0\<rparr>;
                let status = bbp_import_validate_framebuffer (Some out);
                Some (if status \<noteq> BBP_IMPORT_OK then Inl status else Inr out)
              }
          }
        }
      })"

text \<open>The \<open>acpi_\<close> fields of a scan, as \<open>parse_acpi\<close> sets them.\<close>

record mb2_acpi =
  ma_bytes :: u64
  ma_xsdt :: u64
  ma_oem_id :: u32
  ma_version :: u16

text \<open>The part of \<open>parse_acpi\<close> that tells the two revisions apart; the value is the length and the XSDT address.\<close>

definition parse_acpi_length :: "mem \<Rightarrow> u64 \<Rightarrow> u64 \<Rightarrow> bool \<Rightarrow> (u32 \<times> u64) check" where
  "parse_acpi_length m rsdp bytes is_new =
     do {
       revision \<leftarrow> m (rsdp + 15);
       if \<not> is_new then
         Some (if bytes \<noteq> 20 \<or> revision \<noteq> 0 then Inl BBP_IMPORT_ERR_FRAMING else Inr (20, 0))
       else if bytes < 36 \<or> revision < 2 then Some (Inl BBP_IMPORT_ERR_FRAMING)
       else do {
         length \<leftarrow> read_u32 m (rsdp + 20);
         if length < 36 \<or> ucast length \<noteq> bytes then Some (Inl BBP_IMPORT_ERR_FRAMING)
         else do {
           zero \<leftarrow> checksum_zero m rsdp (ucast length);
           if \<not> zero then Some (Inl BBP_IMPORT_ERR_FRAMING)
           else do {
             xsdt \<leftarrow> read_u64 m (rsdp + 24);
             Some (if \<not> bbp_import_phys_address_valid xsdt True then Inl BBP_IMPORT_ERR_RANGE else Inr (length, xsdt))
           }
         }
       }
     }"

definition parse_acpi :: "mem \<Rightarrow> u64 \<Rightarrow> u64 \<Rightarrow> bool \<Rightarrow> mb2_acpi check" where
  "parse_acpi m rsdp bytes is_new =
     (if bytes < 20 then Some (Inl BBP_IMPORT_ERR_FRAMING)
      else do {
        signature \<leftarrow> signature_is_rsdp m rsdp;
        if \<not> signature then Some (Inl BBP_IMPORT_ERR_FRAMING)
        else do {
          zero \<leftarrow> checksum_zero m rsdp 20;
          if \<not> zero then Some (Inl BBP_IMPORT_ERR_FRAMING)
          else and_then (parse_acpi_length m rsdp bytes is_new) (\<lambda>(length, xsdt). do {
            oem_id \<leftarrow> read_u32 m (rsdp + 9);
            revision \<leftarrow> m (rsdp + 15);
            Some (Inr \<lparr>ma_bytes = ucast length, ma_xsdt = xsdt, ma_oem_id = oem_id,
              ma_version = push_bit 8 (ucast revision)\<rparr>)
          })
        }
      })"

definition scan_set_acpi :: "mb2_acpi \<Rightarrow> mb2_scan \<Rightarrow> mb2_scan" where
  "scan_set_acpi a scan = scan\<lparr>sc_acpi_bytes := ma_bytes a, sc_acpi_xsdt := ma_xsdt a, sc_acpi_oem_id := ma_oem_id a,
     sc_acpi_version := ma_version a\<rparr>"

text \<open>The locals of \<open>scan_mbi\<close> that the loop carries: the \<open>saw_\<close> flags, and the offset and fields of the RSDP copies
  seen (\<open>old_acpi_\<close> and \<open>new_acpi_\<close>), present when the corresponding flag is set.\<close>

record scan_state =
  ss_scan :: mb2_scan
  ss_saw_cmdline :: bool
  ss_saw_mmap :: bool
  ss_saw_framebuffer :: bool
  ss_acpi_old :: "(u64 \<times> mb2_acpi) option"
  ss_acpi_new :: "(u64 \<times> mb2_acpi) option"

definition scan_cmdline :: "mem \<Rightarrow> u64 \<Rightarrow> u64 \<Rightarrow> u32 \<Rightarrow> scan_state \<Rightarrow> scan_state check" where
  "scan_cmdline m data offset tag_size st =
     (if ss_saw_cmdline st then Some (Inl BBP_IMPORT_ERR_DUPLICATE)
      else do {
        status \<leftarrow> exact_string m (data + offset + 8) (ucast (tag_size - 8));
        Some (if status \<noteq> BBP_IMPORT_OK then Inl status
          else Inr (st\<lparr>ss_saw_cmdline := True, ss_scan := (ss_scan st)\<lparr>sc_cmdline_offset := offset + 8,
            sc_cmdline_bytes := ucast (tag_size - 8)\<rparr>\<rparr>))
      })"

definition scan_module :: "mem \<Rightarrow> u64 \<Rightarrow> u64 \<Rightarrow> u32 \<Rightarrow> scan_state \<Rightarrow> scan_state check" where
  "scan_module m data offset tag_size st =
     (if tag_size < 17 then Some (Inl BBP_IMPORT_ERR_FRAMING)
      else do {
        start \<leftarrow> read_u32 m (data + offset + 8);
        fin \<leftarrow> read_u32 m (data + offset + 12);
        if fin \<le> start \<or> \<not> bbp_import_phys_range_valid (ucast start) (ucast fin - ucast start)
        then Some (Inl BBP_IMPORT_ERR_RANGE)
        else do {
          status \<leftarrow> exact_string m (data + offset + 16) (ucast (tag_size - 16));
          Some (if status \<noteq> BBP_IMPORT_OK then Inl status
            else if sc_module_count (ss_scan st) = ucast BBP_IMPORT_U32_MAX then Inl BBP_IMPORT_ERR_COUNT
            else Inr (st\<lparr>ss_scan := (ss_scan st)\<lparr>sc_module_count := sc_module_count (ss_scan st) + 1\<rparr>\<rparr>))
        }
      })"

fun mb2_entries_valid :: "mem \<Rightarrow> u64 \<Rightarrow> u64 \<Rightarrow> nat \<Rightarrow> bool option" where
  "mb2_entries_valid m entry stride 0 = Some True"
| "mb2_entries_valid m entry stride (Suc n) =
     do {
       base \<leftarrow> read_u64 m entry;
       len \<leftarrow> read_u64 m (entry + 8);
       if \<not> bbp_import_phys_range_valid base len then Some False
       else mb2_entries_valid m (entry + stride) stride n
     }"

definition scan_mmap :: "mem \<Rightarrow> u64 \<Rightarrow> u64 \<Rightarrow> u32 \<Rightarrow> scan_state \<Rightarrow> scan_state check" where
  "scan_mmap m data offset tag_size st =
     (if ss_saw_mmap st then Some (Inl BBP_IMPORT_ERR_DUPLICATE)
      else if tag_size < 16 then Some (Inl BBP_IMPORT_ERR_FRAMING)
      else do {
        stride \<leftarrow> read_u32 m (data + offset + 8);
        version \<leftarrow> read_u32 m (data + offset + 12);
        if stride < 24 \<or> stride AND 7 \<noteq> 0 \<or> version \<noteq> 0 \<or> (tag_size - 16) mod stride \<noteq> 0
        then Some (Inl BBP_IMPORT_ERR_FRAMING)
        else let count = ucast ((tag_size - 16) div stride) :: u64 in
          if count = 0 \<or> count > ucast BBP_IMPORT_U32_MAX then Some (Inl BBP_IMPORT_ERR_COUNT)
          else do {
            valid \<leftarrow> mb2_entries_valid m (data + offset + 16) (ucast stride) (unat count);
            Some (if \<not> valid then Inl BBP_IMPORT_ERR_RANGE
              else Inr (st\<lparr>ss_saw_mmap := True, ss_scan := (ss_scan st)\<lparr>sc_mmap_offset := offset,
                sc_mmap_count := count, sc_mmap_stride := stride\<rparr>\<rparr>))
          }
      })"

definition scan_framebuffer :: "mem \<Rightarrow> u64 \<Rightarrow> u64 \<Rightarrow> u32 \<Rightarrow> scan_state \<Rightarrow> scan_state check" where
  "scan_framebuffer m data offset tag_size st =
     (if ss_saw_framebuffer st then Some (Inl BBP_IMPORT_ERR_DUPLICATE)
      else and_then (parse_framebuffer m (data + offset) tag_size) (\<lambda>fb.
        Some (Inr (st\<lparr>ss_saw_framebuffer := True, ss_scan := (ss_scan st)\<lparr>sc_framebuffer := fb,
          sc_framebuffer_offset := offset\<rparr>\<rparr>))))"

definition scan_acpi :: "mem \<Rightarrow> u64 \<Rightarrow> u64 \<Rightarrow> u32 \<Rightarrow> bool \<Rightarrow> scan_state \<Rightarrow> scan_state check" where
  "scan_acpi m data offset tag_size is_new st =
     (if is_new \<and> ss_acpi_new st \<noteq> None \<or> \<not> is_new \<and> ss_acpi_old st \<noteq> None
      then Some (Inl BBP_IMPORT_ERR_DUPLICATE)
      else and_then (parse_acpi m (data + offset + 8) (ucast (tag_size - 8)) is_new) (\<lambda>acpi.
        let st = st\<lparr>ss_scan := scan_set_acpi acpi (ss_scan st)\<rparr> in
        Some (Inr (if is_new then st\<lparr>ss_acpi_new := Some (offset + 8, acpi)\<rparr>
          else st\<lparr>ss_acpi_old := Some (offset + 8, acpi)\<rparr>))))"

text \<open>One tag of the boot information; other types are skipped.\<close>

definition scan_tag :: "mem \<Rightarrow> u64 \<Rightarrow> u64 \<Rightarrow> u32 \<Rightarrow> u32 \<Rightarrow> scan_state \<Rightarrow> scan_state check" where
  "scan_tag m data offset type tag_size st =
     (if type = MB2_CMDLINE then scan_cmdline m data offset tag_size st
      else if type = MB2_MODULE then scan_module m data offset tag_size st
      else if type = MB2_MMAP then scan_mmap m data offset tag_size st
      else if type = MB2_FRAMEBUFFER then scan_framebuffer m data offset tag_size st
      else if type = MB2_ACPI_OLD \<or> type = MB2_ACPI_NEW then scan_acpi m data offset tag_size (type = MB2_ACPI_NEW) st
      else Some (Inr st))"

text \<open>At the end tag the newer RSDP is preferred.\<close>

definition scan_end :: "scan_state \<Rightarrow> mb2_scan" where
  "scan_end st =
     (case ss_acpi_new st of
        Some (offset, a) \<Rightarrow> scan_set_acpi a ((ss_scan st)\<lparr>sc_acpi_offset := offset\<rparr>)
      | None \<Rightarrow>
          (case ss_acpi_old st of
             Some (offset, a) \<Rightarrow> scan_set_acpi a ((ss_scan st)\<lparr>sc_acpi_offset := offset\<rparr>)
           | None \<Rightarrow> ss_scan st))"

partial_function (option) scan_loop :: "mem \<Rightarrow> u64 \<Rightarrow> u64 \<Rightarrow> scan_state \<Rightarrow> u64 \<Rightarrow> mb2_scan check" where
  "scan_loop m data total_bytes st offset =
     (if \<not> offset < total_bytes then Some (Inl BBP_IMPORT_ERR_FRAMING)
      else if total_bytes - offset < 8 then Some (Inl BBP_IMPORT_ERR_FRAMING)
      else do {
        type \<leftarrow> read_u32 m (data + offset);
        tag_size \<leftarrow> read_u32 m (data + offset + 4);
        if tag_size < 8 \<or> ucast tag_size > total_bytes - offset then Some (Inl BBP_IMPORT_ERR_FRAMING)
        else if type = MB2_END then
          Some (if tag_size \<noteq> 8 \<or> offset + 8 \<noteq> total_bytes then Inl BBP_IMPORT_ERR_FRAMING else Inr (scan_end st))
        else let padded = (ucast tag_size + 7) AND NOT 7 in
          if padded > total_bytes - offset then Some (Inl BBP_IMPORT_ERR_FRAMING)
          else do {
            r \<leftarrow> scan_tag m data offset type tag_size st;
            case r of Inl status \<Rightarrow> Some (Inl status) | Inr st \<Rightarrow> scan_loop m data total_bytes st (offset + padded)
          }
      })"

definition zero_framebuffer :: bbp_import_framebuffer where
  "zero_framebuffer = \<lparr>fb_address = 0, fb_total_size = 0, fb_width = 0, fb_height = 0, fb_pitch = 0,
     fb_pixel_format = 0, fb_color_depth = 0, fb_flags = 0\<rparr>"

definition scan_initial :: "u64 \<Rightarrow> u64 \<Rightarrow> mb2_scan" where
  "scan_initial data total_bytes =
     \<lparr>sc_data = data, sc_total = total_bytes, sc_cmdline_offset = BBP_IMPORT_SIZE_MAX, sc_cmdline_bytes = 0,
      sc_mmap_offset = BBP_IMPORT_SIZE_MAX, sc_mmap_count = 0, sc_mmap_stride = 0, sc_module_count = 0,
      sc_framebuffer_offset = BBP_IMPORT_SIZE_MAX, sc_framebuffer = zero_framebuffer,
      sc_acpi_offset = BBP_IMPORT_SIZE_MAX, sc_acpi_bytes = 0, sc_acpi_xsdt = 0, sc_acpi_oem_id = 0, sc_acpi_version = 0\<rparr>"

definition scan_mbi :: "mem \<Rightarrow> bbp_multiboot2_snapshot \<Rightarrow> mb2_scan check" where
  "scan_mbi m snapshot =
     (let data = mb_mbi snapshot in
      if data = 0 \<or> mb_mapped_bytes snapshot < 16 then Some (Inl BBP_IMPORT_ERR_NULL)
      else do {
        total32 \<leftarrow> read_u32 m data;
        if total32 < 16 \<or> total32 AND 7 \<noteq> 0 \<or> ucast total32 > mb_mapped_bytes snapshot
        then Some (Inl BBP_IMPORT_ERR_FRAMING)
        else do {
          reserved \<leftarrow> read_u32 m (data + 4);
          if reserved \<noteq> 0 then Some (Inl BBP_IMPORT_ERR_FRAMING)
          else scan_loop m data (ucast total32)
            \<lparr>ss_scan = scan_initial data (ucast total32), ss_saw_cmdline = False, ss_saw_mmap = False,
             ss_saw_framebuffer = False, ss_acpi_old = None, ss_acpi_new = None\<rparr> 8
        }
      })"

section \<open>Model of the emitters\<close>

definition mb2_memory_type :: "u32 \<Rightarrow> u32" where
  "mb2_memory_type type =
     (if type = 1 then BBP_MEM_USABLE
      else if type = 3 then BBP_MEM_ACPI_RECLAIMABLE
      else if type = 4 then BBP_MEM_ACPI_NVS
      else if type = 5 then BBP_MEM_BAD_MEMORY
      else BBP_MEM_RESERVED)"

definition mb2_memory_attributes :: "u32 \<Rightarrow> u32" where
  "mb2_memory_attributes type =
     (if type = BBP_MEM_USABLE then BBP_MEM_ATTR_READABLE OR BBP_MEM_ATTR_WRITABLE
      else if type = BBP_MEM_ACPI_RECLAIMABLE \<or> type = BBP_MEM_ACPI_NVS then BBP_MEM_ATTR_READABLE
      else 0)"

definition mb2_emit_hhdm :: "u64 \<Rightarrow> build_state \<Rightarrow> build_state option" where
  "mb2_emit_hhdm offset = emit_tag BBP_TAG_HHDM (sizeof struct_bbp_tag_hhdm) (fill_hhdm offset)"

text \<open>One iteration of the loop of \<open>emit_memory_map\<close>.\<close>

definition mb2_copy_entry :: "mem \<Rightarrow> u64 \<Rightarrow> u64 \<Rightarrow> mem option" where
  "mb2_copy_entry m source entry =
     do {
       base \<leftarrow> read_u64 m source;
       m \<leftarrow> st64 m (entry + off struct_bbp_memory_entry ''base'') base;
       len \<leftarrow> read_u64 m (source + 8);
       m \<leftarrow> st64 m (entry + off struct_bbp_memory_entry ''length'') len;
       ty \<leftarrow> read_u32 m (source + 16);
       let type = mb2_memory_type ty;
       m \<leftarrow> st32 m (entry + off struct_bbp_memory_entry ''type'') type;
       st32 m (entry + off struct_bbp_memory_entry ''attributes'') (mb2_memory_attributes type)
     }"

definition mb2_emit_memory_map :: "mb2_scan \<Rightarrow> u64 \<Rightarrow> build_state \<Rightarrow> build_state option" where
  "mb2_emit_memory_map scan tag_size = emit_tag BBP_TAG_MEMORY_MAP tag_size
     (fill_memory_map mb2_copy_entry (ucast (sc_mmap_stride scan)) (sc_data scan + sc_mmap_offset scan + 16)
       (ucast (sc_mmap_count scan)))"

definition mb2_emit_kernel_address :: "bbp_multiboot2_snapshot \<Rightarrow> build_state \<Rightarrow> build_state option" where
  "mb2_emit_kernel_address s = emit_tag BBP_TAG_KERNEL_ADDRESS (sizeof struct_bbp_tag_kernel_address)
     (fill_kernel_address (mb_kernel_physical_base s) (mb_kernel_virtual_base s))"

definition scan_cmdline_string :: "mb2_scan \<Rightarrow> bbp_import_string" where
  "scan_cmdline_string scan = \<lparr>is_data = sc_data scan + sc_cmdline_offset scan, is_bytes = sc_cmdline_bytes scan\<rparr>"

definition mb2_emit_cmdline :: "mb2_scan \<Rightarrow> build_state \<Rightarrow> build_state option" where
  "mb2_emit_cmdline scan =
     emit_blob_tag (is_data (scan_cmdline_string scan)) (is_bytes (scan_cmdline_string scan)) BBP_TAG_CMDLINE
       (sizeof struct_bbp_tag_cmdline) (fill_cmdline (scan_cmdline_string scan))"

text \<open>What is written for one module tag of the boot information.\<close>

definition mb2_copy_module :: "mem \<Rightarrow> u64 \<Rightarrow> u32 \<Rightarrow> u64 \<Rightarrow> mem option" where
  "mb2_copy_module m tag tag_size entry =
     do {
       let name_bytes = ucast (tag_size - 17);
       copied \<leftarrow> bbp_import_utf8_prefix m (tag + 16) name_bytes 63;
       start \<leftarrow> read_u32 m (tag + 8);
       m \<leftarrow> st64 m (entry + off struct_bbp_module_entry ''base_address'') (ucast start);
       fin \<leftarrow> read_u32 m (tag + 12);
       start \<leftarrow> read_u32 m (tag + 8);
       m \<leftarrow> st64 m (entry + off struct_bbp_module_entry ''size'') (ucast fin - ucast start);
       m \<leftarrow> bbp_import_memcpy m (entry + off struct_bbp_module_entry ''name'') (tag + 16) (unat copied);
       store m (entry + off struct_bbp_module_entry ''name'' + copied) [0]
     }"

text \<open>The loop of \<open>emit_modules\<close>; \<open>module_count\<close> is the value of the field stored before the loop.\<close>

partial_function (option) modules_loop :: "mem \<Rightarrow> u64 \<Rightarrow> u64 \<Rightarrow> u64 \<Rightarrow> u32 \<Rightarrow> u32 \<Rightarrow> u64 \<Rightarrow> mem option" where
  "modules_loop m data total_bytes modules module_count index offset =
     (if offset < total_bytes \<and> index < module_count then
        do {
          type \<leftarrow> read_u32 m (data + offset);
          tag_size \<leftarrow> read_u32 m (data + offset + 4);
          (m, index) \<leftarrow> (if type = MB2_MODULE then
             do {
               m \<leftarrow> mb2_copy_module m (data + offset) tag_size (modules + ucast index * sizeof struct_bbp_module_entry);
               Some (m, index + 1)
             }
             else Some (m, index));
          modules_loop m data total_bytes modules module_count index (offset + ((ucast tag_size + 7) AND NOT 7))
        }
      else Some m)"

definition fill_modules :: "mb2_scan \<Rightarrow> mem \<Rightarrow> u64 \<Rightarrow> mem option" where
  "fill_modules scan m tag =
     do {
       let module_count = ucast (sc_module_count scan);
       m \<leftarrow> st32 m (tag + off struct_bbp_tag_modules ''module_count'') module_count;
       modules_loop m (sc_data scan) (sc_total scan) (tag + sizeof struct_bbp_tag_modules) module_count 0 8
     }"

definition mb2_emit_modules :: "mb2_scan \<Rightarrow> u64 \<Rightarrow> build_state \<Rightarrow> build_state option" where
  "mb2_emit_modules scan tag_size = emit_tag BBP_TAG_MODULES tag_size (fill_modules scan)"

definition mb2_fill_framebuffer :: "bbp_import_framebuffer \<Rightarrow> mem \<Rightarrow> u64 \<Rightarrow> mem option" where
  "mb2_fill_framebuffer source m tag =
     do {
       m \<leftarrow> st64 m (tag + off struct_bbp_tag_framebuffer ''address'') (fb_address source);
       m \<leftarrow> st16 m (tag + off struct_bbp_tag_framebuffer ''display_count'') 1;
       m \<leftarrow> st32 m (tag + off struct_bbp_tag_framebuffer ''pitch'') (fb_pitch source);
       m \<leftarrow> st64 m (tag + off struct_bbp_tag_framebuffer ''total_size'') (fb_total_size source);
       fill_display source m (tag + sizeof struct_bbp_tag_framebuffer)
     }"

definition mb2_emit_framebuffer :: "bbp_import_framebuffer \<Rightarrow> build_state \<Rightarrow> build_state option" where
  "mb2_emit_framebuffer source = emit_tag BBP_TAG_FRAMEBUFFER
     (sizeof struct_bbp_tag_framebuffer + sizeof struct_bbp_display_info) (mb2_fill_framebuffer source)"

definition mb2_fill_acpi :: "mb2_scan \<Rightarrow> u64 \<Rightarrow> mem \<Rightarrow> u64 \<Rightarrow> mem option" where
  "mb2_fill_acpi scan rsdp m tag =
     do {
       m \<leftarrow> st64 m (tag + off struct_bbp_tag_acpi ''rsdp_address'') rsdp;
       m \<leftarrow> st64 m (tag + off struct_bbp_tag_acpi ''xsdt_address'') (sc_acpi_xsdt scan);
       m \<leftarrow> st32 m (tag + off struct_bbp_tag_acpi ''oem_id'') (sc_acpi_oem_id scan);
       m \<leftarrow> st16 m (tag + off struct_bbp_tag_acpi ''acpi_version'') (sc_acpi_version scan);
       if sc_acpi_xsdt scan \<noteq> 0
       then st16 m (tag + off struct_bbp_tag_acpi ''flags'') BBP_ACPI_FLAG_XSDT_AVAILABLE
       else Some m
     }"

definition mb2_emit_acpi :: "mb2_scan \<Rightarrow> build_state \<Rightarrow> build_state option" where
  "mb2_emit_acpi scan =
     emit_blob_tag (sc_data scan + sc_acpi_offset scan) (sc_acpi_bytes scan) BBP_TAG_ACPI (sizeof struct_bbp_tag_acpi)
       (mb2_fill_acpi scan)"

section \<open>Model of the importer\<close>

definition mb2_has :: "bbp_multiboot2_snapshot \<Rightarrow> u64 \<Rightarrow> bool" where
  "mb2_has s flag \<longleftrightarrow> mb_present s AND flag \<noteq> 0"

definition has_mmap :: "mb2_scan \<Rightarrow> bool" where
  "has_mmap scan \<longleftrightarrow> sc_mmap_offset scan \<noteq> BBP_IMPORT_SIZE_MAX"

definition has_cmdline :: "mb2_scan \<Rightarrow> bool" where
  "has_cmdline scan \<longleftrightarrow> sc_cmdline_offset scan \<noteq> BBP_IMPORT_SIZE_MAX"

definition has_modules :: "mb2_scan \<Rightarrow> bool" where
  "has_modules scan \<longleftrightarrow> sc_module_count scan \<noteq> 0"

definition has_framebuffer :: "mb2_scan \<Rightarrow> bool" where
  "has_framebuffer scan \<longleftrightarrow> sc_framebuffer_offset scan \<noteq> BBP_IMPORT_SIZE_MAX"

definition has_acpi :: "mb2_scan \<Rightarrow> bool" where
  "has_acpi scan \<longleftrightarrow> sc_acpi_offset scan \<noteq> BBP_IMPORT_SIZE_MAX"

definition mb2_tag_size :: "bool \<Rightarrow> u64 \<Rightarrow> u64 \<Rightarrow> u64 \<Rightarrow> u64 check" where
  "mb2_tag_size present fixed count element =
     (if \<not> present then Some (Inr 0)
      else case bbp_import_array_tag_size fixed count element (Some 0) of
        (status, tag_size) \<Rightarrow> if status \<noteq> BBP_IMPORT_OK then Some (Inl status) else map_option Inr tag_size)"

text \<open>The checks in the order of the code; the value is the scan, \<open>mmap_size\<close> and \<open>modules_size\<close>.\<close>

definition mb2_checks :: "mem \<Rightarrow> bbp_builder \<Rightarrow> bbp_multiboot2_snapshot \<Rightarrow> (mb2_scan \<times> u64 \<times> u64) check" where
  "mb2_checks m b s =
     and_then (refuse_if (bbp_import_ranges_overlap (mb_mbi s) (mb_mapped_bytes s) (b_arena b) (b_capacity b))
       BBP_IMPORT_ERR_RANGE) (\<lambda>_.
     and_then (scan_mbi m s) (\<lambda>scan.
     and_then (refuse_if (mb2_has s BBP_IMPORT_HAS_KERNEL_ADDRESS \<and>
       (\<not> bbp_import_phys_address_valid (mb_kernel_physical_base s) True \<or> mb_kernel_virtual_base s = 0))
       BBP_IMPORT_ERR_RANGE) (\<lambda>_.
     and_then (mb2_tag_size (has_mmap scan) (sizeof struct_bbp_tag_memory_map) (sc_mmap_count scan)
       (sizeof struct_bbp_memory_entry)) (\<lambda>mmap_size.
     and_then (mb2_tag_size (has_modules scan) (sizeof struct_bbp_tag_modules) (sc_module_count scan)
       (sizeof struct_bbp_module_entry)) (\<lambda>modules_size.
     Some (Inr (scan, mmap_size, modules_size)))))))"

definition mb2_plan ::
  "bbp_builder \<Rightarrow> bbp_multiboot2_snapshot \<Rightarrow> mb2_scan \<Rightarrow> u64 \<Rightarrow> u64 \<Rightarrow> (bbp_import_plan \<Rightarrow> bbp_import_plan check) list" where
  "mb2_plan b s scan mmap_size modules_size =
     [plan_if (mb2_has s BBP_IMPORT_HAS_HHDM) (\<lambda>p. bbp_import_plan_tag b p (sizeof struct_bbp_tag_hhdm)),
      plan_if (has_mmap scan) (\<lambda>p. bbp_import_plan_tag b p mmap_size),
      plan_if (mb2_has s BBP_IMPORT_HAS_KERNEL_ADDRESS)
        (\<lambda>p. bbp_import_plan_tag b p (sizeof struct_bbp_tag_kernel_address)),
      plan_if (has_cmdline scan) (\<lambda>p. bbp_import_plan_blob b p (sc_cmdline_bytes scan)),
      plan_if (has_cmdline scan) (\<lambda>p. bbp_import_plan_tag b p (sizeof struct_bbp_tag_cmdline)),
      plan_if (has_modules scan) (\<lambda>p. bbp_import_plan_tag b p modules_size),
      plan_if (has_framebuffer scan)
        (\<lambda>p. bbp_import_plan_tag b p (sizeof struct_bbp_tag_framebuffer + sizeof struct_bbp_display_info)),
      plan_if (has_acpi scan) (\<lambda>p. bbp_import_plan_blob b p (sc_acpi_bytes scan)),
      plan_if (has_acpi scan) (\<lambda>p. bbp_import_plan_tag b p (sizeof struct_bbp_tag_acpi))]"

definition mb2_emitters ::
  "bbp_multiboot2_snapshot \<Rightarrow> mb2_scan \<Rightarrow> u64 \<Rightarrow> u64 \<Rightarrow> (build_state \<Rightarrow> build_state option) list" where
  "mb2_emitters s scan mmap_size modules_size =
     [emit_if (mb2_has s BBP_IMPORT_HAS_HHDM) (mb2_emit_hhdm (mb_hhdm_offset s)),
      emit_if (has_mmap scan) (mb2_emit_memory_map scan mmap_size),
      emit_if (mb2_has s BBP_IMPORT_HAS_KERNEL_ADDRESS) (mb2_emit_kernel_address s),
      emit_if (has_cmdline scan) (mb2_emit_cmdline scan),
      emit_if (has_modules scan) (mb2_emit_modules scan modules_size),
      emit_if (has_framebuffer scan) (mb2_emit_framebuffer (sc_framebuffer scan)),
      emit_if (has_acpi scan) (mb2_emit_acpi scan)]"

definition bbp_import_multiboot2 ::
  "mem \<Rightarrow> bbp_builder option \<Rightarrow> (u64 \<times> bbp_multiboot2_snapshot) option \<Rightarrow> import_result" where
  "bbp_import_multiboot2 m builder snapshot =
     (case (builder, snapshot) of
        (Some b, Some (address, s)) \<Rightarrow>
          if bbp_import_ranges_overlap address MB2_SNAPSHOT_BYTES (b_arena b) (b_capacity b)
          then Some (BBP_IMPORT_ERR_RANGE, m, builder)
          else if mb_present s AND NOT (BBP_IMPORT_HAS_HHDM OR BBP_IMPORT_HAS_KERNEL_ADDRESS) \<noteq> 0
          then Some (BBP_IMPORT_ERR_FLAGS, m, builder)
          else do {
            (status, plan) \<leftarrow> bbp_import_plan_begin m builder (Some \<lparr>ip_used = 0, ip_tag_count = 0\<rparr>);
            plan \<leftarrow> plan;
            if status \<noteq> BBP_IMPORT_OK then Some (status, m, builder)
            else do {
              r \<leftarrow> mb2_checks m b s;
              case r of
                Inl status \<Rightarrow> Some (status, m, builder)
              | Inr (scan, mmap_size, modules_size) \<Rightarrow>
                  plan_and_emit (mb2_plan b s scan mmap_size modules_size)
                    (mb2_emitters s scan mmap_size modules_size) m b plan
            }
          }
      | _ \<Rightarrow> Some (BBP_IMPORT_ERR_NULL, m, builder))"

end
