(* ===== verification/Multiboot2_Spec.thy ===== *)
theory Multiboot2_Spec
  imports Import_Multiboot2
begin

text \<open>
  The boot information as a list of frames, and that the parser computes from it: it returns for every
  readable boot information, accepts only well-framed ones, and what it records is a function of the
  frames.
\<close>

section \<open>Reading the boot information\<close>

lemma mbi_load:
  "load m a n = Some ms \<Longrightarrow> k + j \<le> n \<Longrightarrow> load m (a + of_nat k) j = Some (slice ms k j)"
  using load_sub [of m a n ms k j] by (simp add: slice_def)

lemma mbi_read32:
  "load m a n = Some ms \<Longrightarrow> k + 4 \<le> n \<Longrightarrow> read_u32 m (a + of_nat k) = Some (get_le (slice ms k 4))"
  using mbi_load [of m a n ms k 4] by (simp add: read_u32_eq ld32_def)

lemma mbi_read64:
  "load m a n = Some ms \<Longrightarrow> k + 8 \<le> n \<Longrightarrow> read_u64 m (a + of_nat k) = Some (get_le (slice ms k 8))"
  using mbi_load [of m a n ms k 8] by (simp add: read_u64_eq ld64_def)

lemma mbi_byte: "load m a n = Some ms \<Longrightarrow> k < n \<Longrightarrow> m (a + of_nat k) = Some (ms ! k)"
  by (simp add: load_eq_Some_iff)

text \<open>The same at an offset within a frame.\<close>

lemma mbi_at:
  assumes "load m a n = Some ms"
  shows "k + numeral d + 4 \<le> n \<Longrightarrow> read_u32 m (a + of_nat k + numeral d) = Some (get_le (slice ms (k + numeral d) 4))"
    "k + numeral d + 8 \<le> n \<Longrightarrow> read_u64 m (a + of_nat k + numeral d) = Some (get_le (slice ms (k + numeral d) 8))"
    "k + numeral d < n \<Longrightarrow> m (a + of_nat k + numeral d) = Some (ms ! (k + numeral d))"
    "k + numeral d + j \<le> n \<Longrightarrow> load m (a + of_nat k + numeral d) j = Some (slice ms (k + numeral d) j)"
  using mbi_read32 [OF assms, of "k + numeral d"] mbi_read64 [OF assms, of "k + numeral d"]
    mbi_byte [OF assms, of "k + numeral d"] mbi_load [OF assms, of "k + numeral d" j] by (simp_all add: add.assoc)

section \<open>Frames\<close>

type_synonym mb2_frame = "nat \<times> u32 \<times> nat"

function mb2_frames :: "u8 list \<Rightarrow> nat \<Rightarrow> mb2_frame list option" where
  "mb2_frames ms k =
     (if length ms < k + 8 then None
      else let ty = get_le (slice ms k 4); sz = unat (get_le (slice ms (k + 4) 4) :: u32) in
        if sz < 8 \<or> length ms < k + sz then None
        else if ty = MB2_END then (if sz = 8 \<and> k + 8 = length ms then Some [] else None)
        else if length ms < k + align8 sz then None
        else map_option ((#) (k, ty, sz)) (mb2_frames ms (k + align8 sz)))"
  by auto
termination
proof (relation "measure (\<lambda>(ms, k). length ms - k)")
  fix ms k sz
  assume "\<not> length ms < k + 8" "\<not> (sz < 8 \<or> length ms < k + sz)"
  then show "((ms, k + align8 sz), ms, k) \<in> measure (\<lambda>(ms, k). length ms - k)"
    using align8_bounds(1) [of sz] by auto
qed simp

declare mb2_frames.simps [simp del]

definition frame_ok :: "nat \<Rightarrow> mb2_frame \<Rightarrow> bool" where
  "frame_ok n f \<longleftrightarrow> (case f of (k, ty, sz) \<Rightarrow> 8 \<le> sz \<and> k + sz \<le> n \<and> ty \<noteq> MB2_END)"

lemma mb2_frames_ok: "mb2_frames ms k = Some fs \<Longrightarrow> list_all (frame_ok (length ms)) fs"
proof (induction ms k arbitrary: fs rule: mb2_frames.induct)
  case (1 ms k)
  show ?case using 1(2)
    by (subst (asm) mb2_frames.simps) (auto simp: Let_def frame_ok_def split: if_splits dest: 1(1) [OF _ refl refl, rotated -1])
qed

section \<open>The handlers\<close>

text \<open>A 32-bit size of a frame, and differences of it.\<close>

lemma frame_size_word:
  assumes "unat (z :: u32) = sz" "d \<le> sz" "d < 2 ^ 32"
  shows "unat (ucast (z - of_nat d) :: u64) = sz - d" "unat (z - of_nat d) = sz - d"
proof -
  have "unat (of_nat d :: u32) = d" using assms(3) by (simp add: unat_of_nat_u32)
  then have "of_nat d \<le> z" using assms(1,2) by (simp add: word_le_nat_alt)
  then show "unat (z - of_nat d) = sz - d" using assms(1) \<open>unat (of_nat d :: u32) = d\<close> by (simp add: unat_sub)
  then show "unat (ucast (z - of_nat d) :: u64) = sz - d" by (simp add: unat_ucast_u32)
qed

lemma exact_string_at:
  assumes ld: "load m a n = Some ms" and le: "k + numeral d + unat j \<le> n"
  obtains st where "exact_string m (a + of_nat k + numeral d) j = Some st"
    "st = BBP_IMPORT_OK \<longrightarrow> a + of_nat k + numeral d \<noteq> 0 \<and> j \<noteq> 0"
proof (rule validate_string_total [of "\<lparr>is_data = a + of_nat k + numeral d, is_bytes = j\<rparr>" m "slice ms (k + numeral d) (unat j)"])
  show "load m (is_data \<lparr>is_data = a + of_nat k + numeral d, is_bytes = j\<rparr>)
      (unat (is_bytes \<lparr>is_data = a + of_nat k + numeral d, is_bytes = j\<rparr>)) = Some (slice ms (k + numeral d) (unat j))"
    using mbi_at(4) [OF ld le] by simp
qed (use that in \<open>simp add: exact_string_def\<close>)

lemma scan_cmdline_spec:
  assumes ld: "load m a n = Some ms" and z: "unat z = sz" "8 \<le> sz" "k + sz \<le> n"
  shows "check_ok (scan_cmdline m a (of_nat k) z st)"
    "scan_cmdline m a (of_nat k) z st = Some (Inr st') \<Longrightarrow> \<not> ss_saw_cmdline st \<and> 8 < sz \<and> a + of_nat k + 8 \<noteq> 0 \<and>
      st' = st\<lparr>ss_saw_cmdline := True, ss_scan := (ss_scan st)\<lparr>sc_cmdline_offset := of_nat (k + 8),
        sc_cmdline_bytes := of_nat (sz - 8)\<rparr>\<rparr>"
proof -
  have u: "unat (ucast (z - 8) :: u64) = sz - 8" using frame_size_word(1) [OF z(1,2)] by simp
  then have w: "(ucast (z - 8) :: u64) = of_nat (sz - 8)" by (metis of_nat_unat_u64)
  obtain s where s: "exact_string m (a + of_nat k + 8) (ucast (z - 8)) = Some s"
    "s = BBP_IMPORT_OK \<longrightarrow> a + of_nat k + 8 \<noteq> 0 \<and> (ucast (z - 8) :: u64) \<noteq> 0"
    by (rule exact_string_at [OF ld, of k "num.Bit0 (num.Bit0 (num.Bit0 num.One))" "ucast (z - 8)"]) (use u z in auto)
  have nz: "8 < sz" if "(ucast (z - 8) :: u64) \<noteq> 0" using that u z(2) by (metis diff_self_eq_0 le_neq_implies_less unat_0_iff)
  show "check_ok (scan_cmdline m a (of_nat k) z st)" using s by (simp add: scan_cmdline_def)
  show "\<not> ss_saw_cmdline st \<and> 8 < sz \<and> a + of_nat k + 8 \<noteq> 0 \<and>
      st' = st\<lparr>ss_saw_cmdline := True, ss_scan := (ss_scan st)\<lparr>sc_cmdline_offset := of_nat (k + 8),
        sc_cmdline_bytes := of_nat (sz - 8)\<rparr>\<rparr>" if "scan_cmdline m a (of_nat k) z st = Some (Inr st')"
    using that s nz w by (auto simp: scan_cmdline_def add.commute split: if_splits)
qed

lemma scan_module_spec:
  assumes ld: "load m a n = Some ms" and z: "unat z = sz" "8 \<le> sz" "k + sz \<le> n"
  shows "check_ok (scan_module m a (of_nat k) z st)"
    "scan_module m a (of_nat k) z st = Some (Inr st') \<Longrightarrow> 17 \<le> sz \<and>
      sc_module_count (ss_scan st) \<noteq> ucast BBP_IMPORT_U32_MAX \<and>
      st' = st\<lparr>ss_scan := (ss_scan st)\<lparr>sc_module_count := sc_module_count (ss_scan st) + 1\<rparr>\<rparr>"
proof -
  have lt: "z < 17 \<longleftrightarrow> sz < 17" using z(1) by (simp add: word_less_nat_alt)
  have "check_ok (scan_module m a (of_nat k) z st) \<and> (\<forall>st'. scan_module m a (of_nat k) z st = Some (Inr st') \<longrightarrow>
      17 \<le> sz \<and> sc_module_count (ss_scan st) \<noteq> ucast BBP_IMPORT_U32_MAX \<and>
      st' = st\<lparr>ss_scan := (ss_scan st)\<lparr>sc_module_count := sc_module_count (ss_scan st) + 1\<rparr>\<rparr>)"
  proof (cases "sz < 17")
    case False
    then have u: "unat (ucast (z - 16) :: u64) = sz - 16" using frame_size_word(1) [OF z(1), of 16] by simp
    obtain s where s: "exact_string m (a + of_nat k + 16) (ucast (z - 16)) = Some s"
      by (rule exact_string_at [OF ld, of k "num.Bit0 (num.Bit0 (num.Bit0 (num.Bit0 num.One)))" "ucast (z - 16)"])
        (use u z False in auto)
    have "read_u32 m (a + of_nat k + 8) \<noteq> None" "read_u32 m (a + of_nat k + 12) \<noteq> None"
      using mbi_at(1) [OF ld] z(3) False by simp_all
    then show ?thesis using s lt False by (auto simp: scan_module_def split: if_splits)
  qed (simp add: scan_module_def lt)
  then show "check_ok (scan_module m a (of_nat k) z st)"
    "scan_module m a (of_nat k) z st = Some (Inr st') \<Longrightarrow> 17 \<le> sz \<and>
      sc_module_count (ss_scan st) \<noteq> ucast BBP_IMPORT_U32_MAX \<and>
      st' = st\<lparr>ss_scan := (ss_scan st)\<lparr>sc_module_count := sc_module_count (ss_scan st) + 1\<rparr>\<rparr>" by blast+
qed

lemma mb2_entries_valid_total:
  assumes "load m a n = Some ms" "16 \<le> w" "k + c * w \<le> n"
  shows "\<exists>v. mb2_entries_valid m (a + of_nat k) (of_nat w) c = Some v"
  using assms(3)
proof (induction c arbitrary: k)
  case (Suc c)
  have r: "read_u64 m (a + of_nat k) \<noteq> None" "read_u64 m (a + of_nat k + 8) \<noteq> None"
    using mbi_read64 [OF assms(1), of k] mbi_at(2) [OF assms(1)] Suc.prems assms(2) by simp_all
  have "\<exists>v. mb2_entries_valid m (a + of_nat k + of_nat w) (of_nat w) c = Some v"
    using Suc.IH [of "k + w"] Suc.prems by (simp add: add.assoc)
  then show ?case using r by auto
qed auto

text \<open>What is known of an accepted memory map frame.\<close>

definition mmap_frame :: "u8 list \<Rightarrow> nat \<Rightarrow> nat \<Rightarrow> u32 \<Rightarrow> u64 \<Rightarrow> bool" where
  "mmap_frame ms k sz stride count \<longleftrightarrow>
     16 \<le> sz \<and> stride = get_le (slice ms (k + 8) 4) \<and> 24 \<le> unat stride \<and>
     unat count * unat stride = sz - 16 \<and> 0 < unat count \<and> unat count < 2 ^ 32"

lemma scan_mmap_spec:
  assumes ld: "load m a n = Some ms" and z: "unat z = sz" "8 \<le> sz" "k + sz \<le> n"
  shows "check_ok (scan_mmap m a (of_nat k) z st)"
    "scan_mmap m a (of_nat k) z st = Some (Inr st') \<Longrightarrow> \<not> ss_saw_mmap st \<and> (\<exists>stride count. mmap_frame ms k sz stride count \<and>
      st' = st\<lparr>ss_saw_mmap := True, ss_scan := (ss_scan st)\<lparr>sc_mmap_offset := of_nat k, sc_mmap_count := count,
        sc_mmap_stride := stride\<rparr>\<rparr>)"
proof -
  have "check_ok (scan_mmap m a (of_nat k) z st) \<and> (\<forall>st'. scan_mmap m a (of_nat k) z st = Some (Inr st') \<longrightarrow>
      \<not> ss_saw_mmap st \<and> (\<exists>stride count. mmap_frame ms k sz stride count \<and>
      st' = st\<lparr>ss_saw_mmap := True, ss_scan := (ss_scan st)\<lparr>sc_mmap_offset := of_nat k, sc_mmap_count := count,
        sc_mmap_stride := stride\<rparr>\<rparr>))"
  proof (cases "ss_saw_mmap st \<or> sz < 16")
    case False
    then have lt: "\<not> z < 16" using z(1) by (simp add: word_less_nat_alt)
    define stride where "stride = (get_le (slice ms (k + 8) 4) :: u32)"
    define version where "version = (get_le (slice ms (k + 12) 4) :: u32)"
    have r: "read_u32 m (a + of_nat k + 8) = Some stride" "read_u32 m (a + of_nat k + 12) = Some version"
      using mbi_at(1) [OF ld] z(3) False by (simp_all add: stride_def version_def)
    have u: "unat (z - 16) = sz - 16" using frame_size_word(2) [OF z(1), of 16] False by simp
    let ?c = "ucast ((z - 16) div stride) :: u64"
    have uc: "unat ?c = (sz - 16) div unat stride" by (simp add: unat_ucast_u32 unat_div u)
    show ?thesis
    proof (cases "stride < 24 \<or> stride AND 7 \<noteq> 0 \<or> version \<noteq> 0 \<or> (z - 16) mod stride \<noteq> 0")
      case bad: True
      then show ?thesis using False lt r by (auto simp: scan_mmap_def)
    next
      case ok: False
      have w: "24 \<le> unat stride" using ok by (simp add: word_less_nat_alt)
      have "(sz - 16) mod unat stride = 0" using ok u by (metis unat_mod unat_0)
      then have cs: "unat ?c * unat stride = sz - 16" unfolding uc by (simp add: mod_eq_0_iff_dvd)
      have "k + 16 + unat ?c * unat stride \<le> n" using cs z(3) False by simp
      then obtain v where "mb2_entries_valid m (a + of_nat (k + 16)) (of_nat (unat stride)) (unat ?c) = Some v"
        using mb2_entries_valid_total [OF ld, of "unat stride" "k + 16" "unat ?c"] w by auto
      then have v: "mb2_entries_valid m (a + of_nat k + 16) (ucast stride) (unat ?c) = Some v" by (simp add: add.assoc)
      have "unat ?c < 2 ^ 32" using unat_u32_less [of "(z - 16) div stride"] by (simp add: unat_ucast_u32)
      moreover have "mmap_frame ms k sz stride ?c" if "?c \<noteq> 0"
        using False w cs that calculation by (simp add: mmap_frame_def stride_def unat_gt_0)
      ultimately show ?thesis using False lt r ok v by (auto simp: scan_mmap_def Let_def)
    qed
  qed (use z(1) in \<open>auto simp: scan_mmap_def word_less_nat_alt\<close>)
  then show "check_ok (scan_mmap m a (of_nat k) z st)"
    "scan_mmap m a (of_nat k) z st = Some (Inr st') \<Longrightarrow> \<not> ss_saw_mmap st \<and> (\<exists>stride count. mmap_frame ms k sz stride count \<and>
      st' = st\<lparr>ss_saw_mmap := True, ss_scan := (ss_scan st)\<lparr>sc_mmap_offset := of_nat k, sc_mmap_count := count,
        sc_mmap_stride := stride\<rparr>\<rparr>)" by blast+
qed

text \<open>The framebuffer a frame describes.\<close>

definition frame_framebuffer :: "u8 list \<Rightarrow> nat \<Rightarrow> bbp_import_framebuffer" where
  "frame_framebuffer ms k =
     (let (format, depth) = the (mb2_pixel_format (ms ! (k + 28)) (ms ! (k + 32), ms ! (k + 33))
            (ms ! (k + 34), ms ! (k + 35)) (ms ! (k + 36), ms ! (k + 37)));
          pitch = get_le (slice ms (k + 16) 4); height = get_le (slice ms (k + 24) 4) in
      \<lparr>fb_address = get_le (slice ms (k + 8) 8), fb_total_size = ucast (pitch :: u32) * ucast (height :: u32),
       fb_width = get_le (slice ms (k + 20) 4), fb_height = height, fb_pitch = pitch, fb_pixel_format = format,
       fb_color_depth = depth, fb_flags = 0\<rparr>)"

lemma scan_framebuffer_spec:
  assumes ld: "load m a n = Some ms" and z: "unat z = sz" "8 \<le> sz" "k + sz \<le> n"
  shows "check_ok (scan_framebuffer m a (of_nat k) z st)"
    "scan_framebuffer m a (of_nat k) z st = Some (Inr st') \<Longrightarrow> \<not> ss_saw_framebuffer st \<and>
      st' = st\<lparr>ss_saw_framebuffer := True, ss_scan := (ss_scan st)\<lparr>sc_framebuffer := frame_framebuffer ms k,
        sc_framebuffer_offset := of_nat k\<rparr>\<rparr>"
proof -
  have "check_ok (parse_framebuffer m (a + of_nat k) z) \<and>
      (\<forall>fb. parse_framebuffer m (a + of_nat k) z = Some (Inr fb) \<longrightarrow> fb = frame_framebuffer ms k)"
  proof (cases "z = 38")
    case True
    then have n: "k + 38 \<le> n" using z by simp
    note b = mbi_at(3) [OF ld, of k] and r = mbi_at(1,2) [OF ld, of k]
    show ?thesis using True n
      by (auto simp: parse_framebuffer_def b r Let_def frame_framebuffer_def split: option.splits if_splits)
  qed (simp add: parse_framebuffer_def)
  then show "check_ok (scan_framebuffer m a (of_nat k) z st)"
    "scan_framebuffer m a (of_nat k) z st = Some (Inr st') \<Longrightarrow> \<not> ss_saw_framebuffer st \<and>
      st' = st\<lparr>ss_saw_framebuffer := True, ss_scan := (ss_scan st)\<lparr>sc_framebuffer := frame_framebuffer ms k,
        sc_framebuffer_offset := of_nat k\<rparr>\<rparr>"
    by (auto simp: scan_framebuffer_def and_then_Inr split: if_splits intro: check_ok_and_then)
qed

text \<open>The RSDP copy a frame holds.\<close>

definition frame_acpi :: "u8 list \<Rightarrow> nat \<Rightarrow> nat \<Rightarrow> bool \<Rightarrow> mb2_acpi" where
  "frame_acpi ms k sz is_new =
     \<lparr>ma_bytes = of_nat (sz - 8), ma_xsdt = (if is_new then get_le (slice ms (k + 32) 8) else 0),
      ma_oem_id = get_le (slice ms (k + 17) 4), ma_version = push_bit 8 (ucast (ms ! (k + 23)))\<rparr>"

lemma byte_sum_total: "load m a n = Some ms \<Longrightarrow> k + c \<le> n \<Longrightarrow> \<exists>v. byte_sum m (a + of_nat k) c acc = Some v"
proof (induction c arbitrary: k acc)
  case (Suc c)
  then have "m (a + of_nat k) = Some (ms ! k)" using mbi_byte by simp
  moreover have "\<exists>v. byte_sum m (a + of_nat k + 1) c x = Some v" for x
    using Suc.IH [of "Suc k" x] Suc.prems by (simp add: algebra_simps)
  ultimately show ?case by simp
qed simp

lemma bytes_match_total: "load m a n = Some ms \<Longrightarrow> k + length cs \<le> n \<Longrightarrow> \<exists>v. bytes_match m (a + of_nat k) cs = Some v"
proof (induction cs arbitrary: k)
  case (Cons c cs)
  then have "m (a + of_nat k) = Some (ms ! k)" using mbi_byte by simp
  moreover have "\<exists>v. bytes_match m (a + of_nat k + 1) cs = Some v"
    using Cons.IH [of "Suc k"] Cons.prems by (simp add: algebra_simps)
  ultimately show ?case by auto
qed auto

lemma parse_acpi_length_spec:
  assumes ld: "load m a n = Some ms" and j: "20 \<le> unat bytes" "k + unat bytes \<le> n"
  shows "check_ok (parse_acpi_length m (a + of_nat k) bytes is_new)"
    "parse_acpi_length m (a + of_nat k) bytes is_new = Some (Inr (len, xsdt)) \<Longrightarrow> ucast len = bytes \<and>
      xsdt = (if is_new then get_le (slice ms (k + 24) 8) else 0)"
proof -
  have rev: "m (a + of_nat k + 15) = Some (ms ! (k + 15))" using mbi_at(3) [OF ld, of k] j by simp
  have "check_ok (parse_acpi_length m (a + of_nat k) bytes is_new) \<and>
    (\<forall>len xsdt. parse_acpi_length m (a + of_nat k) bytes is_new = Some (Inr (len, xsdt)) \<longrightarrow>
      ucast len = bytes \<and> xsdt = (if is_new then get_le (slice ms (k + 24) 8) else 0))"
  proof (cases "is_new \<and> 36 \<le> unat bytes")
    case True
    define len where "len = (get_le (slice ms (k + 20) 4) :: u32)"
    have len: "read_u32 m (a + of_nat k + 20) = Some len"
      and x: "read_u64 m (a + of_nat k + 24) = Some (get_le (slice ms (k + 24) 8))"
      using mbi_at(1,2) [OF ld, of k] j True by (simp_all add: len_def)
    have "checksum_zero m (a + of_nat k) (ucast len) \<noteq> None" if "ucast len = bytes"
      using byte_sum_total [OF ld j(2), of 0] that by (auto simp: checksum_zero_def)
    then show ?thesis using True rev len x by (auto simp: parse_acpi_length_def split: if_splits)
  next
    case False
    then show ?thesis using rev by (auto simp: parse_acpi_length_def word_less_nat_alt split: if_splits)
  qed
  then show "check_ok (parse_acpi_length m (a + of_nat k) bytes is_new)"
    "parse_acpi_length m (a + of_nat k) bytes is_new = Some (Inr (len, xsdt)) \<Longrightarrow> ucast len = bytes \<and>
      xsdt = (if is_new then get_le (slice ms (k + 24) 8) else 0)" by blast+
qed

lemma parse_acpi_spec:
  assumes ld: "load m a n = Some ms" and j: "unat bytes = sz - 8" "8 \<le> sz" "k + sz \<le> n"
  shows "check_ok (parse_acpi m (a + of_nat k + 8) bytes is_new)"
    "parse_acpi m (a + of_nat k + 8) bytes is_new = Some (Inr acpi) \<Longrightarrow> 28 \<le> sz \<and> acpi = frame_acpi ms k sz is_new"
proof -
  let ?p = "parse_acpi m (a + of_nat k + 8) bytes is_new"
  define r where "r = a + of_nat k + 8"
  have r': "r = a + of_nat (k + 8)" "r + 9 = a + of_nat (k + 17)" "r + 15 = a + of_nat (k + 23)"
    by (simp_all add: r_def algebra_simps)
  have "check_ok ?p \<and> (\<forall>acpi. ?p = Some (Inr acpi) \<longrightarrow> 28 \<le> sz \<and> acpi = frame_acpi ms k sz is_new)"
  proof (cases "bytes < 20")
    case False
    then have j2: "20 \<le> unat bytes" "(k + 8) + unat bytes \<le> n" using j by (simp_all add: word_less_nat_alt)
    obtain sig where sig: "signature_is_rsdp m r = Some sig"
      using bytes_match_total [OF ld, of "k + 8" "ascii ''RSD PTR ''"] j2 unfolding r'(1) by (auto simp: signature_is_rsdp_def ascii_def)
    obtain zero where zero: "checksum_zero m r 20 = Some zero"
      using byte_sum_total [OF ld, of "k + 8" 20 0] j2 unfolding r'(1) by (auto simp: checksum_zero_def)
    have o: "read_u32 m (r + 9) = Some (get_le (slice ms (k + 17) 4))" "m (r + 15) = Some (ms ! (k + 23))"
      unfolding r'(2,3) using mbi_read32 [OF ld, of "k + 17"] mbi_byte [OF ld, of "k + 23"] j2 by simp_all
    let ?f = "\<lambda>(len :: u32, xsdt). do { oem \<leftarrow> read_u32 m (r + 9); revision \<leftarrow> m (r + 15);
        Some (Inr \<lparr>ma_bytes = ucast len, ma_xsdt = xsdt, ma_oem_id = oem, ma_version = push_bit 8 (ucast revision)\<rparr>) }"
    have p: "?p = (if \<not> sig \<or> \<not> zero then Some (Inl BBP_IMPORT_ERR_FRAMING) else and_then (parse_acpi_length m r bytes is_new) ?f)"
      using False sig zero unfolding r_def [symmetric] by (auto simp: parse_acpi_def)
    note pl = parse_acpi_length_spec [OF ld j2, of is_new, folded r'(1)]
    have "check_ok (and_then (parse_acpi_length m r bytes is_new) ?f)"
      by (rule check_ok_and_then [OF pl(1)]) (auto simp: o split: prod.splits)
    moreover have "acpi = frame_acpi ms k sz is_new" if h: "and_then (parse_acpi_length m r bytes is_new) ?f = Some (Inr acpi)" for acpi
    proof -
      obtain x where x: "parse_acpi_length m r bytes is_new = Some (Inr x)" "?f x = (Some (Inr acpi) :: mb2_acpi check)"
        using h [unfolded and_then_Inr] by blast
      obtain len xsdt where "x = (len, xsdt)" by (cases x)
      note l = x [unfolded this]
      have "bytes = of_nat (sz - 8)" using j(1) by (metis of_nat_unat_u64)
      then show ?thesis using l(2) pl(2) [OF l(1)] by (auto simp: o frame_acpi_def add.commute)
    qed
    moreover have "28 \<le> sz" using j2 j by simp
    ultimately show ?thesis unfolding p by auto
  qed (simp add: parse_acpi_def)
  then show "check_ok ?p" "?p = Some (Inr acpi) \<Longrightarrow> 28 \<le> sz \<and> acpi = frame_acpi ms k sz is_new" by blast+
qed

lemma scan_acpi_spec:
  assumes ld: "load m a n = Some ms" and z: "unat z = sz" "8 \<le> sz" "k + sz \<le> n"
  shows "check_ok (scan_acpi m a (of_nat k) z is_new st)"
    "scan_acpi m a (of_nat k) z is_new st = Some (Inr st') \<Longrightarrow> 28 \<le> sz \<and>
      (let acpi = frame_acpi ms k sz is_new; st1 = st\<lparr>ss_scan := scan_set_acpi acpi (ss_scan st)\<rparr> in
       if is_new then ss_acpi_new st = None \<and> st' = st1\<lparr>ss_acpi_new := Some (of_nat (k + 8), acpi)\<rparr>
       else ss_acpi_old st = None \<and> st' = st1\<lparr>ss_acpi_old := Some (of_nat (k + 8), acpi)\<rparr>)"
proof -
  have u: "unat (ucast (z - 8) :: u64) = sz - 8" using frame_size_word(1) [OF z(1,2)] by simp
  note p = parse_acpi_spec [OF ld u z(2,3), of is_new]
  show "check_ok (scan_acpi m a (of_nat k) z is_new st)"
    using p(1) by (auto simp: scan_acpi_def Let_def intro!: check_ok_and_then)
  assume "scan_acpi m a (of_nat k) z is_new st = Some (Inr st')"
  then obtain acpi where "parse_acpi m (a + of_nat k + 8) (ucast (z - 8)) is_new = Some (Inr acpi)"
    "if is_new then ss_acpi_new st = None else ss_acpi_old st = None"
    "st' = (let st = st\<lparr>ss_scan := scan_set_acpi acpi (ss_scan st)\<rparr> in
       if is_new then st\<lparr>ss_acpi_new := Some (of_nat k + 8, acpi)\<rparr> else st\<lparr>ss_acpi_old := Some (of_nat k + 8, acpi)\<rparr>)"
    by (auto simp: scan_acpi_def and_then_Inr Let_def split: if_splits simp del: not_None_eq)
  with p(2) show "28 \<le> sz \<and> (let acpi = frame_acpi ms k sz is_new; st1 = st\<lparr>ss_scan := scan_set_acpi acpi (ss_scan st)\<rparr> in
       if is_new then ss_acpi_new st = None \<and> st' = st1\<lparr>ss_acpi_new := Some (of_nat (k + 8), acpi)\<rparr>
       else ss_acpi_old st = None \<and> st' = st1\<lparr>ss_acpi_old := Some (of_nat (k + 8), acpi)\<rparr>)"
    by (auto simp: Let_def add.commute split: if_splits)
qed

section \<open>The state after a list of frames\<close>

definition frame_of :: "u32 \<Rightarrow> mb2_frame list \<Rightarrow> (nat \<times> nat) option" where
  "frame_of t fs = map_option (\<lambda>(k, ty, sz). (k, sz)) (find (\<lambda>(k, ty, sz). ty = t) fs)"

definition module_frames :: "mb2_frame list \<Rightarrow> (nat \<times> nat) list" where
  "module_frames fs = map (\<lambda>(k, ty, sz). (k, sz)) (filter (\<lambda>(k, ty, sz). ty = MB2_MODULE) fs)"

lemma frame_of_snoc:
  "frame_of t (fs @ [(k, ty, sz)]) = (case frame_of t fs of Some x \<Rightarrow> Some x | None \<Rightarrow> if ty = t then Some (k, sz) else None)"
  by (induction fs) (auto simp: frame_of_def split: option.splits)

lemma frame_of_Nil [simp]: "frame_of t [] = None"
  by (simp add: frame_of_def)

lemma frame_of_in: "frame_of t fs = Some (k, sz) \<Longrightarrow> (k, t, sz) \<in> set fs"
  by (auto simp: frame_of_def find_Some_iff) (metis nth_mem)

lemma frame_of_other: "ty \<noteq> t \<Longrightarrow> frame_of t (fs @ [(k, ty, sz)]) = frame_of t fs"
  by (simp add: frame_of_snoc split: option.splits)

lemma module_frames_snoc:
  "module_frames (fs @ [(k, ty, sz)]) = module_frames fs @ (if ty = MB2_MODULE then [(k, sz)] else [])"
  by (simp add: module_frames_def)

definition cmdline_at :: "u64 \<Rightarrow> scan_state \<Rightarrow> (nat \<times> nat) option \<Rightarrow> bool" where
  "cmdline_at a st f \<longleftrightarrow> (case f of
     None \<Rightarrow> \<not> ss_saw_cmdline st \<and> sc_cmdline_offset (ss_scan st) = BBP_IMPORT_SIZE_MAX
   | Some (k, sz) \<Rightarrow> ss_saw_cmdline st \<and> sc_cmdline_offset (ss_scan st) = of_nat (k + 8) \<and>
       sc_cmdline_bytes (ss_scan st) = of_nat (sz - 8) \<and> 8 < sz \<and> a + of_nat k + 8 \<noteq> 0)"

definition mmap_at :: "u8 list \<Rightarrow> scan_state \<Rightarrow> (nat \<times> nat) option \<Rightarrow> bool" where
  "mmap_at ms st f \<longleftrightarrow> (case f of
     None \<Rightarrow> \<not> ss_saw_mmap st \<and> sc_mmap_offset (ss_scan st) = BBP_IMPORT_SIZE_MAX
   | Some (k, sz) \<Rightarrow> ss_saw_mmap st \<and> sc_mmap_offset (ss_scan st) = of_nat k \<and>
       mmap_frame ms k sz (sc_mmap_stride (ss_scan st)) (sc_mmap_count (ss_scan st)))"

definition modules_at :: "scan_state \<Rightarrow> (nat \<times> nat) list \<Rightarrow> bool" where
  "modules_at st fs \<longleftrightarrow> sc_module_count (ss_scan st) = of_nat (length fs) \<and> length fs < 2 ^ 32 \<and> list_all (\<lambda>(k, sz). 17 \<le> sz) fs"

definition framebuffer_at :: "u8 list \<Rightarrow> scan_state \<Rightarrow> (nat \<times> nat) option \<Rightarrow> bool" where
  "framebuffer_at ms st f \<longleftrightarrow> (case f of
     None \<Rightarrow> \<not> ss_saw_framebuffer st \<and> sc_framebuffer_offset (ss_scan st) = BBP_IMPORT_SIZE_MAX
   | Some (k, sz) \<Rightarrow> ss_saw_framebuffer st \<and> sc_framebuffer_offset (ss_scan st) = of_nat k \<and>
       sc_framebuffer (ss_scan st) = frame_framebuffer ms k)"

definition acpi_at :: "u8 list \<Rightarrow> bool \<Rightarrow> (u64 \<times> mb2_acpi) option \<Rightarrow> (nat \<times> nat) option \<Rightarrow> bool" where
  "acpi_at ms is_new x f \<longleftrightarrow> (case f of
     None \<Rightarrow> x = None
   | Some (k, sz) \<Rightarrow> x = Some (of_nat (k + 8), frame_acpi ms k sz is_new) \<and> 28 \<le> sz)"

definition scan_at :: "u64 \<Rightarrow> u8 list \<Rightarrow> scan_state \<Rightarrow> mb2_frame list \<Rightarrow> bool" where
  "scan_at a ms st fs \<longleftrightarrow>
     sc_data (ss_scan st) = a \<and> sc_total (ss_scan st) = of_nat (length ms) \<and>
     (ss_acpi_new st = None \<and> ss_acpi_old st = None \<longrightarrow> sc_acpi_offset (ss_scan st) = BBP_IMPORT_SIZE_MAX) \<and>
     cmdline_at a st (frame_of MB2_CMDLINE fs) \<and> mmap_at ms st (frame_of MB2_MMAP fs) \<and>
     modules_at st (module_frames fs) \<and> framebuffer_at ms st (frame_of MB2_FRAMEBUFFER fs) \<and>
     acpi_at ms False (ss_acpi_old st) (frame_of MB2_ACPI_OLD fs) \<and>
     acpi_at ms True (ss_acpi_new st) (frame_of MB2_ACPI_NEW fs)"

lemmas scan_at_defs = scan_at_def cmdline_at_def mmap_at_def modules_at_def framebuffer_at_def acpi_at_def
  frame_of_snoc module_frames_snoc mb2_consts

text \<open>Every tag is handled, and its effect is the one of its frame.\<close>

lemma scan_tag_ok:
  assumes "load m a n = Some ms" "unat z = sz" "8 \<le> sz" "k + sz \<le> n"
  shows "check_ok (scan_tag m a (of_nat k) ty z st)"
  using scan_cmdline_spec(1) [OF assms] scan_module_spec(1) [OF assms] scan_mmap_spec(1) [OF assms]
    scan_framebuffer_spec(1) [OF assms] scan_acpi_spec(1) [OF assms] by (simp add: scan_tag_def)

lemma modules_at_step:
  assumes "modules_at st fs" "17 \<le> sz" "sc_module_count (ss_scan st) \<noteq> ucast BBP_IMPORT_U32_MAX"
  shows "modules_at (st\<lparr>ss_scan := (ss_scan st)\<lparr>sc_module_count := sc_module_count (ss_scan st) + 1\<rparr>\<rparr>) (fs @ [(k, sz)])"
proof -
  have "length fs \<noteq> 2 ^ 32 - 1"
  proof
    assume "length fs = 2 ^ 32 - 1"
    then have "sc_module_count (ss_scan st) = ucast BBP_IMPORT_U32_MAX"
      using assms(1) by (simp add: modules_at_def BBP_IMPORT_U32_MAX_def umax)
    then show False using assms(3) by simp
  qed
  then have "Suc (length fs) < 2 ^ 32" using assms(1) by (simp add: modules_at_def)
  then show ?thesis using assms by (simp add: modules_at_def add.commute)
qed

lemma scan_tag_step:
  assumes ld: "load m a n = Some ms" and z: "unat z = sz" "8 \<le> sz" "k + sz \<le> n"
    and at: "scan_at a ms st fs" and sc: "scan_tag m a (of_nat k) ty z st = Some (Inr st')"
  shows "scan_at a ms st' (fs @ [(k, ty, sz)])"
proof -
  note sp = scan_cmdline_spec(2) [OF ld z] scan_module_spec(2) [OF ld z] scan_mmap_spec(2) [OF ld z]
    scan_framebuffer_spec(2) [OF ld z] scan_acpi_spec(2) [OF ld z]
  consider (cmd) "ty = MB2_CMDLINE" | (module) "ty = MB2_MODULE" | (mmap) "ty = MB2_MMAP" | (fb) "ty = MB2_FRAMEBUFFER"
    | (old) "ty = MB2_ACPI_OLD" | (new) "ty = MB2_ACPI_NEW"
    | (other) "ty \<notin> {MB2_CMDLINE, MB2_MODULE, MB2_MMAP, MB2_FRAMEBUFFER, MB2_ACPI_OLD, MB2_ACPI_NEW}" by blast
  then show ?thesis
  proof cases
    case cmd
    then show ?thesis using sp(1) [of st st'] sc at by (auto simp: scan_tag_def scan_at_defs split: option.splits)
  next
    case module
    then have st': "17 \<le> sz" "sc_module_count (ss_scan st) \<noteq> ucast BBP_IMPORT_U32_MAX"
      "st' = st\<lparr>ss_scan := (ss_scan st)\<lparr>sc_module_count := sc_module_count (ss_scan st) + 1\<rparr>\<rparr>"
      using sp(2) [of st st'] sc by (simp_all add: scan_tag_def mb2_consts)
    moreover have "modules_at st' (module_frames (fs @ [(k, ty, sz)]))"
      using modules_at_step [OF _ st'(1,2)] at module st'(3) by (simp add: scan_at_def module_frames_snoc)
    moreover have "cmdline_at a st' f = cmdline_at a st f" "mmap_at ms st' f = mmap_at ms st f"
      "framebuffer_at ms st' f = framebuffer_at ms st f" for f
      using st'(3) by (auto simp: cmdline_at_def mmap_at_def framebuffer_at_def split: option.splits)
    ultimately show ?thesis using at module by (simp add: scan_at_def frame_of_other mb2_consts)
  next
    case mmap
    then show ?thesis using sp(3) [of st st'] sc at by (auto simp: scan_tag_def scan_at_defs split: option.splits)
  next
    case fb
    then show ?thesis using sp(4) [of st st'] sc at by (auto simp: scan_tag_def scan_at_defs split: option.splits)
  next
    case old
    then show ?thesis using sp(5) [of False st st'] sc at
      by (auto simp: scan_tag_def scan_at_defs Let_def scan_set_acpi_def split: option.splits)
  next
    case new
    then show ?thesis using sp(5) [of True st st'] sc at
      by (auto simp: scan_tag_def scan_at_defs Let_def scan_set_acpi_def split: option.splits)
  next
    case other
    then show ?thesis using sc at by (auto simp: scan_tag_def scan_at_defs split: option.splits)
  qed
qed

section \<open>The scan returns\<close>

lemma padded_size:
  assumes "unat (z :: u32) = sz"
  shows "(ucast z + 7) AND NOT 7 = (of_nat (align8 sz) :: u64)" "unat ((ucast z + 7) AND NOT 7 :: u64) = align8 sz"
    "align8 sz < 2 ^ 33"
proof -
  have lt: "sz < 2 ^ 32" using unat_u32_less [of z] assms by simp
  then have "unat (ucast z + 7 :: u64) = sz + 7" using assms by (subst unat_add_u64) (simp_all add: unat_ucast_u32)
  then show u: "unat ((ucast z + 7) AND NOT 7 :: u64) = align8 sz" unfolding unat_and_not_7 align8_def by simp
  then show "(ucast z + 7) AND NOT 7 = (of_nat (align8 sz) :: u64)" by (metis of_nat_unat_u64)
  show "align8 sz < 2 ^ 33" using lt align8_bounds [of sz] by simp
qed

lemma scan_loop_step:
  assumes ld: "load m a n = Some ms" and n: "n < 2 ^ 32" "k \<le> n"
  shows "scan_loop m a (of_nat n) st (of_nat k) =
    (let ty = get_le (slice ms k 4); z = get_le (slice ms (k + 4) 4); sz = unat z in
     if n < k + 8 \<or> sz < 8 \<or> n < k + sz then Some (Inl BBP_IMPORT_ERR_FRAMING)
     else if ty = MB2_END then Some (if sz = 8 \<and> k + 8 = n then Inr (scan_end st) else Inl BBP_IMPORT_ERR_FRAMING)
     else if n < k + align8 sz then Some (Inl BBP_IMPORT_ERR_FRAMING)
     else and_then (scan_tag m a (of_nat k) ty z st) (\<lambda>st. scan_loop m a (of_nat n) st (of_nat (k + align8 sz))))"
proof -
  have u: "unat (of_nat n :: u64) = n" "unat (of_nat k :: u64) = k" using n by (simp_all add: unat_of_nat_u64)
  then have d: "unat (of_nat n - of_nat k :: u64) = n - k" using n(2) by (subst unat_sub) (simp_all add: word_le_nat_alt)
  show ?thesis
  proof (cases "n < k + 8")
    case True
    then show ?thesis using u d by (subst scan_loop.simps) (auto simp: word_less_nat_alt Let_def)
  next
    case False
    define ty where "ty = (get_le (slice ms k 4) :: u32)"
    define z where "z = (get_le (slice ms (k + 4) 4) :: u32)"
    have r: "read_u32 m (a + of_nat k) = Some ty" "read_u32 m (a + of_nat k + 4) = Some z"
      using mbi_read32 [OF ld, of k] mbi_at(1) [OF ld, of k] False by (simp_all add: ty_def z_def)
    have g: "of_nat k < (of_nat n :: u64)" "\<not> of_nat n - of_nat k < (8 :: u64)"
      using False u d by (simp_all add: word_less_nat_alt)
    define pad where "pad = ((ucast z + 7) AND NOT 7 :: u64)"
    have pad: "pad = of_nat (align8 (unat z))" "unat pad = align8 (unat z)" using padded_size [OF refl, of z] by (simp_all only: pad_def)
    have c1: "(z < 8 \<or> of_nat n - of_nat k < (ucast z :: u64)) = (unat z < 8 \<or> n < k + unat z)"
      using d n(2) by (auto simp: word_less_nat_alt unat_ucast_u32)
    have z8: "z = 8 \<longleftrightarrow> unat z = 8" using unat_of_nat_u32 [of 8] by (auto simp: word_unat_eq_iff)
    have "unat (of_nat k + 8 :: u64) = k + 8" using unat_of_nat_u64 [of "k + 8"] False n(1) by (simp add: add.commute)
    then have kn: "of_nat k + 8 = (of_nat n :: u64) \<longleftrightarrow> k + 8 = n" using u(1) by (metis word_unat_eq_iff)
    have c2: "(z \<noteq> 8 \<or> of_nat k + 8 \<noteq> (of_nat n :: u64)) = (\<not> (unat z = 8 \<and> k + 8 = n))" using z8 kn by blast
    have c3: "(of_nat n - of_nat k < pad) = (n < k + align8 (unat z))"
      using d n(2) pad(2) by (auto simp: word_less_nat_alt)
    have "scan_loop m a (of_nat n) st (of_nat k) =
      (if z < 8 \<or> of_nat n - of_nat k < (ucast z :: u64) then Some (Inl BBP_IMPORT_ERR_FRAMING)
       else if ty = MB2_END then
         Some (if z \<noteq> 8 \<or> of_nat k + 8 \<noteq> (of_nat n :: u64) then Inl BBP_IMPORT_ERR_FRAMING else Inr (scan_end st))
       else if of_nat n - of_nat k < pad then Some (Inl BBP_IMPORT_ERR_FRAMING)
       else and_then (scan_tag m a (of_nat k) ty z st) (\<lambda>st. scan_loop m a (of_nat n) st (of_nat k + pad)))"
      using g by (subst scan_loop.simps) (simp only: r pad_def Let_def and_then_def bind.bind_lunit if_False if_True not_False_eq_True not_True_eq_False)
    then show ?thesis unfolding c1 c2 c3 ty_def [symmetric] z_def [symmetric] Let_def using False pad(1) by simp
  qed
qed

lemma scan_loop_spec:
  assumes ld: "load m a n = Some ms" and n: "n < 2 ^ 32" "k \<le> n"
  shows "check_ok (scan_loop m a (of_nat n) st (of_nat k)) \<and>
    (\<forall>scan pre. scan_loop m a (of_nat n) st (of_nat k) = Some (Inr scan) \<and> scan_at a ms st pre \<longrightarrow>
      (\<exists>fs st'. mb2_frames ms k = Some fs \<and> scan_at a ms st' (pre @ fs) \<and> scan = scan_end st'))"
  using n(2)
proof (induction "n - k" arbitrary: k st rule: less_induct)
  case less
  have len: "length ms = n" using ld by (simp add: load_eq_Some_iff)
  define ty where "ty = (get_le (slice ms k 4) :: u32)"
  define z where "z = (get_le (slice ms (k + 4) 4) :: u32)"
  note step = scan_loop_step [OF ld n(1) less.prems, of st, folded ty_def z_def, unfolded Let_def]
  note frames = mb2_frames.simps [of ms k, folded ty_def z_def, unfolded Let_def len]
  show ?case
  proof (cases "n < k + 8 \<or> unat z < 8 \<or> n < k + unat z \<or> ty = MB2_END \<or> n < k + align8 (unat z)")
    case True
    then show ?thesis unfolding step frames by auto
  next
    case False
    then have z: "8 \<le> unat z" "k + unat z \<le> n" and k': "k + align8 (unat z) \<le> n" by auto
    then have lt: "n - (k + align8 (unat z)) < n - k" using align8_bounds(1) [of "unat z"] by simp
    note IH = less.hyps [OF lt k']
    have loop: "scan_loop m a (of_nat n) st (of_nat k) = and_then (scan_tag m a (of_nat k) ty z st)
        (\<lambda>st. scan_loop m a (of_nat n) st (of_nat (k + align8 (unat z))))" unfolding step using False by simp
    have fr: "mb2_frames ms k = map_option ((#) (k, ty, unat z)) (mb2_frames ms (k + align8 (unat z)))"
      unfolding frames using False by simp
    have "check_ok (scan_loop m a (of_nat n) st (of_nat k))" unfolding loop
      by (rule check_ok_and_then [OF scan_tag_ok [OF ld refl z]]) (use IH in blast)
    moreover have "\<exists>fs st'. mb2_frames ms k = Some fs \<and> scan_at a ms st' (pre @ fs) \<and> scan = scan_end st'"
      if h: "scan_loop m a (of_nat n) st (of_nat k) = Some (Inr scan)" "scan_at a ms st pre" for scan pre
    proof -
      obtain st1 where s: "scan_tag m a (of_nat k) ty z st = Some (Inr st1)"
        "scan_loop m a (of_nat n) st1 (of_nat (k + align8 (unat z))) = Some (Inr scan)"
        using h(1) unfolding loop and_then_Inr by blast
      note at1 = scan_tag_step [OF ld refl z h(2) s(1)]
      obtain fs st' where "mb2_frames ms (k + align8 (unat z)) = Some fs"
        "scan_at a ms st' ((pre @ [(k, ty, unat z)]) @ fs)" "scan = scan_end st'" using IH s(2) at1 by blast
      then show ?thesis unfolding fr by auto
    qed
    ultimately show ?thesis by blast
  qed
qed

definition mb2_total :: "u8 list \<Rightarrow> nat" where
  "mb2_total ms = unat (get_le (slice ms 0 4) :: u32)"

lemma scan_mbi_spec:
  assumes ld: "load m (mb_mbi s) (unat (mb_mapped_bytes s)) = Some ms"
  shows "check_ok (scan_mbi m s)"
    "scan_mbi m s = Some (Inr scan) \<Longrightarrow> mb_mbi s \<noteq> 0 \<and> mb2_total ms \<le> length ms \<and> (\<exists>fs st. mb2_frames (take (mb2_total ms) ms) 8 = Some fs \<and>
      scan_at (mb_mbi s) (take (mb2_total ms) ms) st fs \<and> scan = scan_end st)"
proof -
  have len: "length ms = unat (mb_mapped_bytes s)" using ld by (simp add: load_eq_Some_iff)
  have "check_ok (scan_mbi m s) \<and> (\<forall>scan. scan_mbi m s = Some (Inr scan) \<longrightarrow> mb_mbi s \<noteq> 0 \<and> mb2_total ms \<le> length ms \<and>
      (\<exists>fs st. mb2_frames (take (mb2_total ms) ms) 8 = Some fs \<and> scan_at (mb_mbi s) (take (mb2_total ms) ms) st fs \<and> scan = scan_end st))"
  proof (cases "mb_mbi s = 0 \<or> mb_mapped_bytes s < 16")
    case False
    then have ge: "16 \<le> length ms" using len by (simp add: word_less_nat_alt)
    define t where "t = (get_le (slice ms 0 4) :: u32)"
    define r where "r = (get_le (slice ms 4 4) :: u32)"
    have rd: "read_u32 m (mb_mbi s) = Some t" "read_u32 m (mb_mbi s + 4) = Some r"
      using mbi_read32 [OF ld, of 0] mbi_read32 [OF ld, of 4] ge len by (simp_all add: t_def r_def)
    show ?thesis
    proof (cases "t < 16 \<or> t AND 7 \<noteq> 0 \<or> ucast t > mb_mapped_bytes s \<or> r \<noteq> 0")
      case True
      then show ?thesis using False rd by (auto simp: scan_mbi_def Let_def)
    next
      case ok: False
      let ?n = "mb2_total ms"
      have n: "16 \<le> ?n" "?n \<le> length ms" "?n < 2 ^ 32" using ok len unat_u32_less [of t]
        by (auto simp: mb2_total_def t_def [symmetric] word_less_nat_alt unat_ucast_u32)
      have ld': "load m (mb_mbi s) ?n = Some (take ?n ms)"
        using mbi_load [OF ld, of 0 ?n] n len by (simp add: slice_def)
      have w: "(ucast t :: u64) = of_nat ?n" by (simp add: mb2_total_def t_def)
      let ?st = "\<lparr>ss_scan = scan_initial (mb_mbi s) (of_nat ?n), ss_saw_cmdline = False, ss_saw_mmap = False,
             ss_saw_framebuffer = False, ss_acpi_old = None, ss_acpi_new = None\<rparr>"
      have eq: "scan_mbi m s = scan_loop m (mb_mbi s) (of_nat ?n) ?st (of_nat 8)"
        using False ok rd by (simp add: scan_mbi_def Let_def w)
      have at: "scan_at (mb_mbi s) (take ?n ms) ?st []"
        using n by (simp add: scan_at_defs scan_initial_def module_frames_def min_absorb2)
      have "8 \<le> ?n" using n(1) by simp
      note sp = scan_loop_spec [OF ld' n(3) this, of ?st, folded eq]
      have "\<exists>fs st. mb2_frames (take ?n ms) 8 = Some fs \<and> scan_at (mb_mbi s) (take ?n ms) st fs \<and> scan = scan_end st"
        if "scan_mbi m s = Some (Inr scan)" for scan
        using sp [THEN conjunct2, rule_format, OF conjI, OF that at] by simp
      then show ?thesis using sp [THEN conjunct1] n(2) False by blast
    qed
  qed (auto simp: scan_mbi_def)
  then show "check_ok (scan_mbi m s)"
    "scan_mbi m s = Some (Inr scan) \<Longrightarrow> mb_mbi s \<noteq> 0 \<and> mb2_total ms \<le> length ms \<and> (\<exists>fs st. mb2_frames (take (mb2_total ms) ms) 8 = Some fs \<and>
      scan_at (mb_mbi s) (take (mb2_total ms) ms) st fs \<and> scan = scan_end st)" by blast+
qed

section \<open>Properties\<close>

text \<open>C10. The Multiboot2 parser terminates: its loop advances by a size read from the boot information and has
  no counter, but on every boot information whose mapped bytes are readable it returns, and it reads no byte
  past them. It reports success only for a boot information that is a sequence of whole frames ending in
  exactly one end frame at the announced size, and the number of modules it reports is the number of module
  frames.\<close>

theorem scan_mbi_returns:
  assumes "load m (mb_mbi s) (unat (mb_mapped_bytes s)) = Some ms"
  shows "\<exists>r. scan_mbi m s = Some r \<and>
    (\<forall>scan. r = Inr scan \<longrightarrow> mb2_total ms \<le> length ms \<and> (\<exists>fs. mb2_frames (take (mb2_total ms) ms) 8 = Some fs \<and>
      unat (sc_module_count scan) = length (module_frames fs)))"
proof -
  have m: "sc_module_count (scan_end st) = sc_module_count (ss_scan st)" for st
    by (simp add: scan_end_def scan_set_acpi_def split: option.splits prod.splits)
  obtain r where r: "scan_mbi m s = Some r" using scan_mbi_spec(1) [OF assms] by (auto simp: check_ok_def)
  have "mb2_total ms \<le> length ms \<and> (\<exists>fs. mb2_frames (take (mb2_total ms) ms) 8 = Some fs \<and>
      unat (sc_module_count scan) = length (module_frames fs))" if h: "r = Inr scan" for scan
  proof -
    obtain fs st where "mb2_total ms \<le> length ms" "mb2_frames (take (mb2_total ms) ms) 8 = Some fs"
      "scan_at (mb_mbi s) (take (mb2_total ms) ms) st fs" "scan = scan_end st"
      using scan_mbi_spec(2) [OF assms] r h by blast
    then show ?thesis by (auto simp: m scan_at_def modules_at_def unat_of_nat_u64)
  qed
  then show ?thesis using r by blast
qed

text \<open>A module frame of 17 bytes, its padding and the end frame.\<close>

definition mb2_demo :: "u8 list" where
  "mb2_demo = put_le 4 (40 :: u32) @ put_le 4 (0 :: u32) @ put_le 4 MB2_MODULE @ put_le 4 (17 :: u32) @
     put_le 4 (0x1000 :: u32) @ put_le 4 (0x3000 :: u32) @ replicate 8 0 @ put_le 4 MB2_END @ put_le 4 (8 :: u32)"

definition mb2_demo_snapshot :: bbp_multiboot2_snapshot where
  "mb2_demo_snapshot = \<lparr>mb_mbi = 0x30000, mb_mapped_bytes = 40, mb_present = 0, mb_hhdm_offset = 0,
     mb_kernel_physical_base = 0, mb_kernel_virtual_base = 0\<rparr>"

lemma mb2_demo_length [simp]: "length mb2_demo = 40"
  by (simp add: mb2_demo_def)

lemma mb2_demo_slices:
  "get_le (slice mb2_demo 0 4) = (40 :: u32)" "get_le (slice mb2_demo 4 4) = (0 :: u32)"
  "get_le (slice mb2_demo 8 4) = MB2_MODULE" "get_le (slice mb2_demo 12 4) = (17 :: u32)"
  "get_le (slice mb2_demo 16 4) = (0x1000 :: u32)" "get_le (slice mb2_demo 20 4) = (0x3000 :: u32)"
  "mb2_demo ! 24 = 0" "get_le (slice mb2_demo 32 4) = MB2_END" "get_le (slice mb2_demo 36 4) = (8 :: u32)"
  by (simp_all add: mb2_demo_def slice_def le32.dec_enc nth_append)

lemma mb2_demo_frames: "mb2_frames (take (mb2_total mb2_demo) mb2_demo) 8 = Some [(8, MB2_MODULE, 17)]"
proof -
  have t: "take (mb2_total mb2_demo) mb2_demo = mb2_demo" by (simp add: mb2_total_def mb2_demo_slices)
  have "mb2_frames mb2_demo 32 = Some []"
    by (subst mb2_frames.simps) (simp add: mb2_demo_slices)
  then have "mb2_frames mb2_demo 8 = Some [(8, MB2_MODULE, 17)]"
    by (subst mb2_frames.simps) (simp add: mb2_demo_slices align8_def, simp add: mb2_consts)
  then show ?thesis unfolding t .
qed

lemma mb2_demo_memory:
  assumes "mapped m0 0x30000 40"
  obtains m where "store m0 0x30000 mb2_demo = Some m" "load m 0x30000 40 = Some mb2_demo"
proof -
  obtain m where m: "store m0 0x30000 mb2_demo = Some m" using assms store_ok [of m0 "0x30000" mb2_demo] by auto
  then show thesis using that load_store_same [OF m] by simp
qed

theorem scan_mbi_returns_witness:
  "\<exists>m r. load m 0x30000 40 = Some mb2_demo \<and> scan_mbi m mb2_demo_snapshot = Some r \<and>
     (\<forall>scan. r = Inr scan \<longrightarrow> sc_module_count scan = 1)"
proof -
  have "mapped (\<lambda>_. Some 0) 0x30000 40" by (simp add: mapped_def)
  then obtain m where ld: "load m 0x30000 40 = Some mb2_demo" by (rule mb2_demo_memory)
  then have "load m (mb_mbi mb2_demo_snapshot) (unat (mb_mapped_bytes mb2_demo_snapshot)) = Some mb2_demo"
    by (simp add: mb2_demo_snapshot_def)
  from scan_mbi_returns [OF this] obtain r where r: "scan_mbi m mb2_demo_snapshot = Some r"
    "\<forall>scan. r = Inr scan \<longrightarrow> unat (sc_module_count scan) = 1"
    unfolding mb2_demo_frames by (auto simp: module_frames_def)
  have "sc_module_count scan = 1" if "r = Inr scan" for scan
    using r(2) that by (metis of_nat_unat_u64 of_nat_1)
  then show ?thesis using ld r(1) by blast
qed

end
