(* ===== verification/Multiboot2_Import.thy ===== *)
theory Multiboot2_Import
  imports Multiboot2_Spec
begin

text \<open>
  What the Multiboot2 importer appends to the chain, as a function of the frames of the boot information:
  the items, that every emitter writes its item, and the outcome of a whole import.
\<close>

unbundle bit_operations_syntax

section \<open>What a boot information describes\<close>

definition mb2_entry :: "u8 list \<Rightarrow> map_entry" where
  "mb2_entry d = (let ty = mb2_memory_type (get_le (slice d 16 4)) in
     (get_le (slice d 0 8), get_le (slice d 8 8), ty, mb2_memory_attributes ty))"

definition mb2_entries :: "u8 list \<Rightarrow> nat \<Rightarrow> nat \<Rightarrow> map_entry list" where
  "mb2_entries ms k sz = map mb2_entry (descriptors (unat (get_le (slice ms (k + 8) 4) :: u32)) (slice ms (k + 16) (sz - 16)))"

text \<open>A module name keeps its longest prefix of at most 63 bytes that does not split a character.\<close>

definition utf8_cut :: "nat \<Rightarrow> u8 list \<Rightarrow> u8 list" where
  "utf8_cut limit ps = take (Max {j. j \<le> length ps \<and> j \<le> limit \<and> utf8 (take j ps)}) ps"

definition frame_name :: "u8 list \<Rightarrow> nat \<times> nat \<Rightarrow> u8 list" where
  "frame_name ms f = (case f of (k, sz) \<Rightarrow> utf8_cut 63 (slice ms (k + 16) (sz - 17)))"

definition module_start :: "u8 list \<Rightarrow> nat \<times> nat \<Rightarrow> u64" where
  "module_start ms f = ucast (get_le (slice ms (fst f + 8) 4) :: u32)"

definition module_end :: "u8 list \<Rightarrow> nat \<times> nat \<Rightarrow> u64" where
  "module_end ms f = ucast (get_le (slice ms (fst f + 12) 4) :: u32)"

definition module_bytes :: "u8 list \<Rightarrow> nat \<times> nat \<Rightarrow> u8 list" where
  "module_bytes ms f = put_le 8 (module_start ms f) @ put_le 8 (module_end ms f - module_start ms f) @
     frame_name ms f @ replicate (160 - length (frame_name ms f)) 0"

definition modules_body :: "u8 list \<Rightarrow> (nat \<times> nat) list \<Rightarrow> u8 list" where
  "modules_body ms fs = put_le 4 (of_nat (length fs) :: u32) @ replicate 4 0 @ concat (map (module_bytes ms) fs)"

text \<open>The RSDP of the newer kind is preferred.\<close>

definition rsdp_frame :: "mb2_frame list \<Rightarrow> (nat \<times> nat \<times> bool) option" where
  "rsdp_frame fs = (case frame_of MB2_ACPI_NEW fs of
     Some (k, sz) \<Rightarrow> Some (k, sz, True)
   | None \<Rightarrow> map_option (\<lambda>(k, sz). (k, sz, False)) (frame_of MB2_ACPI_OLD fs))"

definition mb2_acpi_body :: "mb2_acpi \<Rightarrow> u64 \<Rightarrow> u8 list" where
  "mb2_acpi_body ac physical = acpi_body \<lparr>ac_rsdp_address = physical, ac_xsdt_address = ma_xsdt ac, ac_oem_id = ma_oem_id ac,
     ac_acpi_version = ma_version ac, ac_flags = (if ma_xsdt ac \<noteq> 0 then BBP_ACPI_FLAG_XSDT_AVAILABLE else 0)\<rparr>"

definition mmap_item :: "u8 list \<Rightarrow> nat \<times> nat \<Rightarrow> item" where
  "mmap_item ms f = (case f of (k, sz) \<Rightarrow> Item_Tag BBP_TAG_MEMORY_MAP (memory_map_body (mb2_entries ms k sz)))"

definition cmdline_item :: "u8 list \<Rightarrow> nat \<times> nat \<Rightarrow> item" where
  "cmdline_item ms f = (case f of (k, sz) \<Rightarrow>
     Item_Blob_Tag (slice ms (k + 8) (sz - 8)) BBP_TAG_CMDLINE (cmdline_body (slice ms (k + 8) (sz - 8))))"

definition framebuffer_item :: "u8 list \<Rightarrow> nat \<times> nat \<Rightarrow> item" where
  "framebuffer_item ms f = Item_Tag BBP_TAG_FRAMEBUFFER (framebuffer_body (frame_framebuffer ms (fst f)))"

definition acpi_item :: "u8 list \<Rightarrow> nat \<times> nat \<times> bool \<Rightarrow> item" where
  "acpi_item ms f = (case f of (k, sz, is_new) \<Rightarrow>
     Item_Blob_Tag (slice ms (k + 8) (sz - 8)) BBP_TAG_ACPI (mb2_acpi_body (frame_acpi ms k sz is_new)))"

definition optional_item :: "('a \<Rightarrow> item) \<Rightarrow> 'a option \<Rightarrow> item list" where
  "optional_item f x = (case x of None \<Rightarrow> [] | Some y \<Rightarrow> [f y])"

definition frame_items :: "bbp_multiboot2_snapshot \<Rightarrow> u8 list \<Rightarrow> mb2_frame list \<Rightarrow> item list" where
  "frame_items s ms fs =
     (if mb2_has s BBP_IMPORT_HAS_HHDM then [Item_Tag BBP_TAG_HHDM (hhdm_body (mb_hhdm_offset s))] else []) @
     optional_item (mmap_item ms) (frame_of MB2_MMAP fs) @
     (if mb2_has s BBP_IMPORT_HAS_KERNEL_ADDRESS
      then [Item_Tag BBP_TAG_KERNEL_ADDRESS (kernel_address_body (mb_kernel_physical_base s) (mb_kernel_virtual_base s))]
      else []) @
     optional_item (cmdline_item ms) (frame_of MB2_CMDLINE fs) @
     (if module_frames fs \<noteq> [] then [Item_Tag BBP_TAG_MODULES (modules_body ms (module_frames fs))] else []) @
     optional_item (framebuffer_item ms) (frame_of MB2_FRAMEBUFFER fs) @
     optional_item (acpi_item ms) (rsdp_frame fs)"

text \<open>\<open>ms\<close> are the mapped bytes; the boot information is as long as its first word says.\<close>

definition mb2_source :: "mem \<Rightarrow> bbp_multiboot2_snapshot \<Rightarrow> u8 list \<Rightarrow> bool" where
  "mb2_source m s ms \<longleftrightarrow> (mb_mbi s \<noteq> 0 \<longrightarrow> load m (mb_mbi s) (unat (mb_mapped_bytes s)) = Some ms)"

definition mb2_items :: "bbp_multiboot2_snapshot \<Rightarrow> u8 list \<Rightarrow> item list" where
  "mb2_items s ms = (let info = take (mb2_total ms) ms in
     case mb2_frames info 8 of None \<Rightarrow> [] | Some fs \<Rightarrow> frame_items s info fs)"

section \<open>The boot information is not changed\<close>

definition mbi_ok :: "mem \<Rightarrow> bbp_builder \<Rightarrow> u64 \<Rightarrow> u8 list \<Rightarrow> bool" where
  "mbi_ok m b a ms \<longleftrightarrow> load m a (length ms) = Some ms \<and> outside_arena b a (length ms) \<and> a \<noteq> 0 \<and>
     unat a + length ms < 2 ^ 64 \<and> length ms < 2 ^ 32"

lemma outside_sub: "outside_arena b a n \<Longrightarrow> k + j \<le> n \<Longrightarrow> outside_arena b (a + of_nat k) j"
  unfolding outside_arena_def by (rule disj_sub)

lemma mbi_kept: "mbi_ok m0 b a ms \<Longrightarrow> frame m0 m (arena_span b) \<Longrightarrow> load m a (length ms) = Some ms"
  using outside_same same_load_all by (metis mbi_ok_def)

lemma mbi_part:
  assumes ok: "mbi_ok m b a ms" and le: "k + j \<le> length ms"
  shows "load m (a + of_nat k) j = Some (slice ms k j)" "outside_arena b (a + of_nat k) j" "a + of_nat k \<noteq> 0"
    "length (slice ms k j) = j"
proof -
  show "load m (a + of_nat k) j = Some (slice ms k j)" "outside_arena b (a + of_nat k) j" "length (slice ms k j) = j"
    using ok le mbi_load [of m a "length ms" ms k j] outside_sub [of b a "length ms" k j] by (simp_all add: mbi_ok_def slice_def)
  have "unat (of_nat k :: u64) = k" using ok le by (simp add: mbi_ok_def unat_of_nat_u64)
  then have "unat (a + of_nat k) = unat a + k" using ok le by (simp add: mbi_ok_def unat_add_u64)
  moreover have "0 < unat a" using ok by (simp add: mbi_ok_def unat_gt_0)
  ultimately show "a + of_nat k \<noteq> 0" by auto
qed

section \<open>The memory map\<close>

lemma mb2_copy_entry_stores:
  assumes at: "\<And>m. frame m0 m A \<Longrightarrow> load m src w = Some d" and w: "24 \<le> w"
    and fr: "frame m0 m A" and sp: "span dst 32 \<subseteq> A"
  shows "mb2_copy_entry m src dst = stores m dst (entry_stores (mb2_entry d))"
proof -
  define base len ty where v: "base = (get_le (slice d 0 8) :: u64)" "len = (get_le (slice d 8 8) :: u64)"
    "ty = mb2_memory_type (get_le (slice d 16 4))"
  have rd: "read_u64 m src = Some base" "read_u64 m (src + 8) = Some len" "read_u32 m (src + 16) = Some (get_le (slice d 16 4))"
    if "frame m0 m A" for m
    using mbi_read64 [OF at [OF that], of 0] mbi_read64 [OF at [OF that], of 8] mbi_read32 [OF at [OF that], of 16] w
    by (simp_all add: v)
  let ?attr = "\<lambda>m. store m (dst + of_nat 20) (put_le 4 (mb2_memory_attributes ty))"
  let ?k3 = "\<lambda>m. read_u32 m (src + 16) \<bind> (\<lambda>t. store m (dst + of_nat 16) (put_le 4 (mb2_memory_type t)) \<bind>
    (\<lambda>m. store m (dst + of_nat 20) (put_le 4 (mb2_memory_attributes (mb2_memory_type t)))))"
  let ?k2 = "\<lambda>m. read_u64 m (src + 8) \<bind> (\<lambda>n. store m (dst + of_nat 8) (put_le 8 n) \<bind> ?k3)"
  let ?t3 = "\<lambda>m. stores m dst [(16, put_le 4 ty), (20, put_le 4 (mb2_memory_attributes ty))]"
  have k3: "?k3 m = ?t3 m" if f: "frame m0 m A" for m by (simp add: rd(3) [OF f] v)
  have k2: "?k2 m = store m (dst + of_nat 8) (put_le 8 len) \<bind> ?t3" if f: "frame m0 m A" for m
    unfolding rd(2) [OF f] bind.bind_lunit by (rule store_then [OF f sp], simp, rule k3)
  have "mb2_copy_entry m src dst = store m (dst + of_nat 0) (put_le 8 base) \<bind> ?k2"
    by (simp add: mb2_copy_entry_def rd(1) [OF fr] st_defs Let_def)
  also have "\<dots> = store m (dst + of_nat 0) (put_le 8 base) \<bind> (\<lambda>m. store m (dst + of_nat 8) (put_le 8 len) \<bind> ?t3)"
    by (rule store_then [OF fr sp], simp, rule k2)
  also have "\<dots> = stores m dst (entry_stores (mb2_entry d))" by (simp add: entry_stores_def mb2_entry_def v Let_def)
  finally show ?thesis .
qed

lemma length_mb2_entries:
  assumes fr: "mmap_frame ms k sz stride count" "k + sz \<le> length ms"
  shows "length (mb2_entries ms k sz) = unat count"
    "length (memory_map_body (mb2_entries ms k sz)) = 8 + unat count * 32"
proof -
  have c: "unat count * unat stride = sz - 16" "0 < unat stride" and w: "stride = get_le (slice ms (k + 8) 4)"
    using fr(1) by (auto simp: mmap_frame_def)
  have "(sz - 16) div unat stride = unat count" unfolding c(1) [symmetric] using c(2) by simp
  then show len: "length (mb2_entries ms k sz) = unat count"
    using fr w by (simp add: mb2_entries_def descriptors_def slice_def mmap_frame_def)
  then show "length (memory_map_body (mb2_entries ms k sz)) = 8 + unat count * 32"
    by (simp add: memory_map_body_def length_concat entry_bytes_def case_prod_unfold comp_def sum_list_triv)
qed

lemma mb2_emits_memory_map:
  assumes ok: "mbi_ok m0 b0 a ms" and fr: "mmap_frame ms k sz stride count" "k + sz \<le> length ms"
    and sc: "sc_data scan = a" "sc_mmap_offset scan = of_nat k" "sc_mmap_stride scan = stride" "sc_mmap_count scan = count"
    and z: "unat z = 40 + unat count * 32"
  shows "emits m0 b0 (mb2_emit_memory_map scan z) (mmap_item ms (k, sz))"
  unfolding mb2_emit_memory_map_def mmap_item_def prod.case
proof (rule emits_memory_map)
  note len = length_mb2_entries(1) [OF fr]
  let ?w = "unat stride" and ?n = "sz - 16"
  have w: "stride = get_le (slice ms (k + 8) 4)" "24 \<le> ?w" and c: "?n div ?w = unat count" "unat count < 2 ^ 32" "16 \<le> sz"
    using fr(1) by (auto simp: mmap_frame_def elim: subst)
  show "unat z = 40 + length (mb2_entries ms k sz) * 32" "length (mb2_entries ms k sz) < 2 ^ 32" using z c(2) len by simp_all
  show "ucast (sc_mmap_count scan) = (of_nat (length (mb2_entries ms k sz)) :: u32)" unfolding len sc(4) by simp
  have src: "sc_data scan + sc_mmap_offset scan + 16 = a + of_nat (k + 16)" unfolding sc by (simp add: algebra_simps)
  fix i m dst assume i: "i < length (mb2_entries ms k sz)" and m: "frame m0 m (arena_span b0)"
    and sp: "span dst 32 \<subseteq> arena_span b0"
  let ?d = "descriptors ?w (slice ms (k + 16) ?n) ! i"
  have "load m (a + of_nat (k + 16) + of_nat i * ucast stride) ?w = Some ?d" if "frame m0 m (arena_span b0)" for m
  proof -
    have "load m (a + of_nat (k + 16)) ?n = Some (slice ms (k + 16) ?n)"
      by (rule mbi_load [OF mbi_kept [OF ok that]]) (use fr(2) c(3) in simp)
    from descriptor_load [OF this, of i ?w] show ?thesis using i len c(1) by simp
  qed
  from mb2_copy_entry_stores [OF this w(2) m sp]
  show "mb2_copy_entry m (sc_data scan + sc_mmap_offset scan + 16 + of_nat i * ucast (sc_mmap_stride scan)) dst
      = stores m dst (entry_stores (mb2_entries ms k sz ! i))"
    unfolding src sc(3) using i by (simp add: mb2_entries_def w(1))
qed

section \<open>Command line, framebuffer and ACPI\<close>

lemma mb2_emits_cmdline:
  assumes ok: "mbi_ok m0 b0 a ms" and k: "k + sz \<le> length ms" "8 < sz"
    and sc: "sc_data scan = a" "sc_cmdline_offset scan = of_nat (k + 8)" "sc_cmdline_bytes scan = of_nat (sz - 8)"
  shows "emits m0 b0 (mb2_emit_cmdline scan) (cmdline_item ms (k, sz))"
proof -
  have p: "k + 8 + (sz - 8) \<le> length ms" using k by simp
  have u: "unat (of_nat (sz - 8) :: u64) = sz - 8" using k ok by (intro unat_of_nat_u64) (auto simp: mbi_ok_def)
  then have nz: "of_nat (sz - 8) \<noteq> (0 :: u64)" using k(2) by (metis unat_0 zero_less_diff less_irrefl)
  show ?thesis unfolding mb2_emit_cmdline_def cmdline_item_def prod.case
    by (rule emits_cmdline) (use mbi_part [OF ok p] u nz sc in \<open>simp_all add: scan_cmdline_string_def\<close>)
qed

lemma put_le_zero: "put_le n (0 :: 'a::len word) = replicate n 0"
  by (rule nth_equalityI) (simp_all add: nth_put_le)

lemma mb2_emits_framebuffer:
  assumes "fb_flags fb = 0"
  shows "emits m0 b0 (mb2_emit_framebuffer fb) (Item_Tag BBP_TAG_FRAMEBUFFER (framebuffer_body fb))"
  unfolding mb2_emit_framebuffer_def
  by (rule emits_tag [where ws = "[(0, put_le 8 (fb_address fb)), (8, put_le 2 (1 :: u16)),
        (12, put_le 4 (fb_pitch fb)), (16, put_le 8 (fb_total_size fb)), (40, put_le 2 (ucast (fb_width fb) :: u16)),
        (42, put_le 2 (ucast (fb_height fb) :: u16)), (46, put_le 2 (fb_color_depth fb)),
        (48, put_le 4 (fb_pixel_format fb))]"])
    (simp_all add: fills_def shift_def mb2_fill_framebuffer_def fill_display_def st_defs framebuffer_body_def
      display_bytes_def patch_def add.assoc assms put_le_zero)

lemma mb2_emits_acpi:
  assumes ok: "mbi_ok m0 b0 a ms" and k: "k + sz \<le> length ms" "8 \<le> sz"
    and sc: "sc_data scan = a" "sc_acpi_offset scan = of_nat (k + 8)" "sc_acpi_bytes scan = ma_bytes ac"
      "sc_acpi_xsdt scan = ma_xsdt ac" "sc_acpi_oem_id scan = ma_oem_id ac" "sc_acpi_version scan = ma_version ac"
    and ac: "ac = frame_acpi ms k sz is_new"
  shows "emits m0 b0 (mb2_emit_acpi scan) (acpi_item ms (k, sz, is_new))"
proof -
  have p: "k + 8 + (sz - 8) \<le> length ms" using k by simp
  have u: "unat (ma_bytes ac) = sz - 8" unfolding ac frame_acpi_def mb2_acpi.simps
    using k ok by (intro unat_of_nat_u64) (auto simp: mbi_ok_def)
  let ?fl = "if ma_xsdt ac \<noteq> 0 then [(22, put_le 2 BBP_ACPI_FLAG_XSDT_AVAILABLE)] else []"
  show ?thesis unfolding mb2_emit_acpi_def acpi_item_def prod.case sc(1-3) ac [symmetric]
  proof (rule emits_blob_tag [where ws = "\<lambda>ph. [(0, put_le 8 ph), (8, put_le 8 (ma_xsdt ac)), (16, put_le 4 (ma_oem_id ac)),
        (20, put_le 2 (ma_version ac))] @ ?fl"])
    show "load m0 (a + of_nat (k + 8)) (unat (ma_bytes ac)) = Some (slice ms (k + 8) (sz - 8))"
      "outside_arena b0 (a + of_nat (k + 8)) (unat (ma_bytes ac))" "a + of_nat (k + 8) \<noteq> 0"
      unfolding u using mbi_part [OF ok p] by simp_all
  qed (simp_all add: fills_def shift_def mb2_fill_acpi_def st_defs mb2_acpi_body_def acpi_body_def patch_def sc put_le_zero)
qed

section \<open>Modules\<close>

lemma utf8_cut_prefix:
  assumes "load m p (unat bytes) = Some ps"
  obtains k where "bbp_import_utf8_prefix m p bytes limit = Some k" "utf8_cut (unat limit) ps = take (unat k) ps"
    "unat k \<le> length ps" "unat k \<le> unat limit"
proof -
  obtain k where k: "bbp_import_utf8_prefix m p bytes limit = Some k" "unat k \<le> unat bytes" "unat k \<le> unat limit"
    "utf8 (take (unat k) ps)" "\<forall>j. j \<le> unat bytes \<and> j \<le> unat limit \<and> utf8 (take j ps) \<longrightarrow> j \<le> unat k"
    using prefix_longest [OF assms] by blast
  have len: "length ps = unat bytes" using assms load_length by blast
  have "Max {j. j \<le> length ps \<and> j \<le> unat limit \<and> utf8 (take j ps)} = unat k"
    using k len by (intro Max_eqI) auto
  then show thesis using that k len by (simp add: utf8_cut_def)
qed

lemma import_memcpy_eq: "bbp_import_memcpy m d s n = bbp_memcpy m d s n"
  by (induction n arbitrary: m d s) simp_all

definition module_stores :: "u8 list \<Rightarrow> nat \<times> nat \<Rightarrow> (nat \<times> u8 list) list" where
  "module_stores ms f = [(0, put_le 8 (module_start ms f)), (8, put_le 8 (module_end ms f - module_start ms f)),
     (16, frame_name ms f), (16 + length (frame_name ms f), [0])]"

lemma utf8_cut_length: "length (utf8_cut n ps) \<le> n"
proof -
  have "finite {j. j \<le> length ps \<and> j \<le> n \<and> utf8 (take j ps)}" by simp
  moreover have "0 \<in> {j. j \<le> length ps \<and> j \<le> n \<and> utf8 (take j ps)}" by simp
  ultimately have "Max {j. j \<le> length ps \<and> j \<le> n \<and> utf8 (take j ps)} \<in> {j. j \<le> length ps \<and> j \<le> n \<and> utf8 (take j ps)}"
    by (intro Max_in) auto
  then show ?thesis by (simp add: utf8_cut_def)
qed

lemma frame_name_length: "length (frame_name ms f) \<le> 63"
  unfolding frame_name_def by (cases f) (simp add: utf8_cut_length)

lemma module_stores_bounds: "list_all (\<lambda>(e, qs). e + length qs \<le> 176) (module_stores ms f)"
  using frame_name_length [of ms f] by (simp add: module_stores_def)

lemma module_stores_bytes: "patches (replicate 176 0) (module_stores ms f) = module_bytes ms f"
proof -
  have "160 - length (frame_name ms f) = Suc (159 - length (frame_name ms f))" using frame_name_length [of ms f] by simp
  then show ?thesis using frame_name_length [of ms f] by (simp add: module_stores_def module_bytes_def patch_def)
qed

lemma length_module_bytes [simp]: "length (module_bytes ms f) = 176"
  using frame_name_length [of ms f] by (simp add: module_bytes_def)

lemma mb2_copy_module_stores:
  assumes ok: "mbi_ok m0 b0 a ms" and k: "k + sz \<le> length ms" "17 \<le> sz" "unat z = sz"
    and fr: "frame m0 m (arena_span b0)" and sp: "span dst 176 \<subseteq> arena_span b0"
  shows "mb2_copy_module m (a + of_nat k) z dst = stores m dst (module_stores ms (k, sz))"
proof -
  let ?st = "module_start ms (k, sz)" and ?en = "module_end ms (k, sz)" and ?nm = "frame_name ms (k, sz)"
  define r where "r = a + of_nat k"
  have rd: "read_u32 m (r + 8) = Some (get_le (slice ms (k + 8) 4))" "read_u32 m (r + 12) = Some (get_le (slice ms (k + 12) 4))"
    if "frame m0 m (arena_span b0)" for m
    unfolding r_def using mbi_at(1) [OF mbi_kept [OF ok that], of k] k by simp_all
  have r16: "r + 16 = a + of_nat (k + 16)" by (simp add: r_def algebra_simps)
  have u: "unat (ucast (z - 17) :: u64) = sz - 17" using frame_size_word(1) [OF k(3,2)] by simp
  have name: "load m (r + 16) (sz - 17) = Some (slice ms (k + 16) (sz - 17))" if "frame m0 m (arena_span b0)" for m
    unfolding r16 by (rule mbi_load [OF mbi_kept [OF ok that]]) (use k in simp)
  have "load m (r + 16) (unat (ucast (z - 17) :: u64)) = Some (slice ms (k + 16) (sz - 17))" unfolding u by (rule name [OF fr])
  then obtain c where c: "bbp_import_utf8_prefix m (r + 16) (ucast (z - 17)) 63 = Some c"
    "?nm = take (unat c) (slice ms (k + 16) (sz - 17))" "unat c \<le> length (slice ms (k + 16) (sz - 17))" "unat c \<le> 63"
    by (rule utf8_cut_prefix [where limit = 63]) (simp add: frame_name_def)
  have lc: "length ?nm = unat c" "unat c \<le> sz - 17" using c(2,3) k by (simp_all add: slice_def)
  let ?k3 = "\<lambda>m. bbp_import_memcpy m (dst + of_nat 16) (r + 16) (unat c) \<bind> (\<lambda>m. store m (dst + of_nat 16 + c) [0])"
  let ?t3 = "\<lambda>m. stores m dst [(16, ?nm), (16 + length ?nm, [0])]"
  have k3: "?k3 m = ?t3 m" if f: "frame m0 m (arena_span b0)" for m
  proof -
    have "load m (r + 16) (unat c) = Some ?nm"
      using load_sub [OF name [OF f], of 0 "unat c"] lc c(2) by simp
    moreover have "disj (r + 16) (unat c) (dst + of_nat 16) (unat c)"
    proof -
      have "outside_arena b0 (r + 16) (unat c)" unfolding r16
        by (rule outside_sub [of b0 a "length ms"]) (use ok lc k in \<open>auto simp: mbi_ok_def\<close>)
      moreover have "span (dst + of_nat 16) (unat c) \<subseteq> span dst 176" by (rule span_sub) (use c(4) in simp)
      ultimately show ?thesis using sp unfolding outside_arena_def disj_def span_def by blast
    qed
    ultimately have "bbp_import_memcpy m (dst + of_nat 16) (r + 16) (unat c) = store m (dst + of_nat 16) ?nm"
      unfolding import_memcpy_eq by (rule bbp_memcpy_eq) (use c(4) in simp)
    moreover have "dst + of_nat 16 + c = dst + of_nat (16 + length ?nm)" by (simp add: lc(1) add.assoc)
    ultimately show ?thesis by (simp only: stores.simps bind_runit prod.case)
  qed
  let ?k2 = "\<lambda>m. read_u32 m (r + 12) \<bind> (\<lambda>e. read_u32 m (r + 8) \<bind> (\<lambda>s. store m (dst + of_nat 8) (put_le 8 (ucast e - ucast s :: u64)) \<bind> ?k3))"
  have k2: "?k2 m = store m (dst + of_nat 8) (put_le 8 (?en - ?st)) \<bind> ?t3" if f: "frame m0 m (arena_span b0)" for m
    unfolding rd [OF f] bind.bind_lunit module_end_def module_start_def fst_conv by (rule store_then [OF f sp], simp, rule k3)
  have "mb2_copy_module m r z dst = store m (dst + of_nat 0) (put_le 8 ?st) \<bind> ?k2"
    by (simp add: mb2_copy_module_def c(1) rd(1) [OF fr] st_defs module_start_def)
  also have "\<dots> = store m (dst + of_nat 0) (put_le 8 ?st) \<bind> (\<lambda>m. store m (dst + of_nat 8) (put_le 8 (?en - ?st)) \<bind> ?t3)"
    by (rule store_then [OF fr sp], simp, rule k2)
  also have "\<dots> = stores m dst (module_stores ms (k, sz))" by (simp add: module_stores_def)
  finally show ?thesis unfolding r_def .
qed

lemma mb2_frames_Cons:
  assumes "mb2_frames ms k = Some ((k', ty, sz) # fs)"
  shows "k' = k" "ty = get_le (slice ms k 4)" "sz = unat (get_le (slice ms (k + 4) 4) :: u32)" "8 \<le> sz"
    "k + sz \<le> length ms" "mb2_frames ms (k + align8 sz) = Some fs"
  using assms by (subst (asm) mb2_frames.simps, auto simp: Let_def split: if_splits)+

lemma modules_loop_stores:
  assumes ok: "mbi_ok m0 b0 a ms" and fr: "mb2_frames ms k = Some fs"
    and ms: "list_all (\<lambda>(k, sz). 17 \<le> sz) (module_frames fs)" and ct: "unat count = unat index + length (module_frames fs)"
    and m: "frame m0 m (arena_span b0)"
    and sp: "span (dst + of_nat (unat index * 176)) (length (module_frames fs) * 176) \<subseteq> arena_span b0"
  shows "modules_loop m a (of_nat (length ms)) dst count index (of_nat k) = stores m (dst + of_nat (unat index * 176))
    (element_stores 176 (length (module_frames fs)) (\<lambda>i. module_stores ms (module_frames fs ! i)))"
  using fr ms ct m sp
proof (induction fs arbitrary: k index m)
  case Nil
  then have "\<not> index < count" by (simp add: module_frames_def word_less_nat_alt)
  then show ?case by (subst modules_loop.simps) (simp add: module_frames_def element_stores_def)
next
  case (Cons f fs)
  obtain k' ty sz where f: "f = (k', ty, sz)" by (cases f)
  note frame = mb2_frames_Cons [OF Cons.prems(1) [unfolded f]]
  let ?z = "get_le (slice ms (k + 4) 4) :: u32"
  have rd: "read_u32 m (a + of_nat k) = Some ty" "read_u32 m (a + of_nat k + 4) = Some ?z"
    using mbi_read32 [OF mbi_kept [OF ok Cons.prems(4)], of k] mbi_at(1) [OF mbi_kept [OF ok Cons.prems(4)], of k] frame(2,4,5)
    by simp_all
  have pad: "of_nat k + ((ucast ?z + 7) AND NOT 7) = (of_nat (k + align8 sz) :: u64)"
    using padded_size(1) [of ?z, OF frame(3) [symmetric]] by (simp only: of_nat_add)
  have lt: "of_nat k < (of_nat (length ms) :: u64)"
    using frame(4,5) ok by (simp add: word_less_nat_alt mbi_ok_def unat_of_nat_u64)
  note step = modules_loop.simps [of m a "of_nat (length ms)" dst count index "of_nat k"]
  note IH = Cons.IH [OF frame(6)]
  consider (none) "module_frames (f # fs) = []" | (other) "ty \<noteq> MB2_MODULE" "module_frames (f # fs) \<noteq> []" | (module) "ty = MB2_MODULE"
    by blast
  then show ?case
  proof cases
    case none
    then have "\<not> index < count" using Cons.prems(3) by (simp add: word_less_nat_alt)
    then show ?thesis unfolding step using none by (simp add: element_stores_def)
  next
    case other
    then have eq: "module_frames (f # fs) = module_frames fs" by (simp add: module_frames_def f)
    then have "index < count" using other(2) Cons.prems(3) by (simp add: word_less_nat_alt)
    then have "modules_loop m a (of_nat (length ms)) dst count index (of_nat k) =
        modules_loop m a (of_nat (length ms)) dst count index (of_nat (k + align8 sz))"
      unfolding pad [symmetric] using lt rd other(1) by (subst step) simp
    also have "\<dots> = stores m (dst + of_nat (unat index * 176))
        (element_stores 176 (length (module_frames fs)) (\<lambda>i. module_stores ms (module_frames fs ! i)))"
      by (rule IH) (use Cons.prems(2-5) eq in simp_all)
    finally show ?thesis unfolding eq .
  next
    case module
    then have eq: "module_frames (f # fs) = (k, sz) # module_frames fs" by (simp add: module_frames_def f frame(1))
    let ?n = "length (module_frames fs)" and ?d = "dst + of_nat (unat index * 176)"
    let ?ws = "\<lambda>i. module_stores ms (module_frames (f # fs) ! i)"
    have lt2: "index < count" using eq Cons.prems(3) by (simp add: word_less_nat_alt)
    have i1: "unat (index + 1) = unat index + 1" using Cons.prems(3) eq unat_u32_less [of count] by (simp add: unat_word_ariths)
    have sp1: "span ?d 176 \<subseteq> arena_span b0" using Cons.prems(5) eq span_mono [of 176 "Suc ?n * 176" ?d] by auto
    have d1: "?d + of_nat 176 = dst + of_nat (unat (index + 1) * 176)" by (simp only: i1) (simp add: algebra_simps)
    have "dst + ucast index * 176 = ?d" by (simp add: mult.commute)
    moreover have "mb2_copy_module m (a + of_nat k) ?z ?d = stores m ?d (module_stores ms (k, sz))"
      by (rule mb2_copy_module_stores [OF ok frame(5) _ frame(3) [symmetric] Cons.prems(4) sp1]) (use Cons.prems(2) eq in simp)
    ultimately have "modules_loop m a (of_nat (length ms)) dst count index (of_nat k) =
        stores m ?d (module_stores ms (k, sz)) \<bind>
        (\<lambda>m. modules_loop m a (of_nat (length ms)) dst count (index + 1) (of_nat (k + align8 sz)))"
      unfolding pad [symmetric] using lt lt2 rd module by (subst step) simp
    also have "\<dots> = stores m ?d (module_stores ms (k, sz)) \<bind> (\<lambda>m. stores m (?d + of_nat 176) (element_stores 176 ?n (?ws \<circ> Suc)))"
    proof (cases "stores m ?d (module_stores ms (k, sz))")
      case (Some m1)
      have "frame m0 m1 (arena_span b0)"
        using stores_kept [OF Some module_stores_bounds] frame_extend [OF Cons.prems(4)] sp1 by blast
      moreover have "span (dst + of_nat (unat (index + 1) * 176)) (?n * 176) \<subseteq> arena_span b0"
        unfolding d1 [symmetric] using Cons.prems(5) eq span_sub [of 176 "?n * 176" "Suc ?n * 176" ?d] by simp
      ultimately have "modules_loop m1 a (of_nat (length ms)) dst count (index + 1) (of_nat (k + align8 sz)) =
          stores m1 (dst + of_nat (unat (index + 1) * 176)) (element_stores 176 ?n (\<lambda>i. module_stores ms (module_frames fs ! i)))"
        using Cons.prems(2,3) eq i1 by (intro IH) simp_all
      then show ?thesis unfolding d1 Some by (simp add: eq comp_def)
    qed simp
    also have "\<dots> = stores m ?d (element_stores 176 (Suc ?n) ?ws)"
      by (simp only: element_stores_Suc stores_append stores_shift eq nth_Cons_0)
    finally show ?thesis by (simp add: eq)
  qed
qed

lemma mb2_emits_modules:
  assumes ok: "mbi_ok m0 b0 a ms" and fr: "mb2_frames ms 8 = Some fs"
    and ms: "list_all (\<lambda>(k, sz). 17 \<le> sz) (module_frames fs)" "length (module_frames fs) < 2 ^ 32"
    and sc: "sc_data scan = a" "sc_total scan = of_nat (length ms)" "sc_module_count scan = of_nat (length (module_frames fs))"
    and z: "unat z = 40 + length (module_frames fs) * 176"
  shows "emits m0 b0 (mb2_emit_modules scan z) (Item_Tag BBP_TAG_MODULES (modules_body ms (module_frames fs)))"
  unfolding mb2_emit_modules_def
proof (rule emits_elements [where f = 8 and hs = "[(0, put_le 4 (of_nat (length (module_frames fs)) :: u32))]" and w = 176
      and ws = "\<lambda>i. module_stores ms (module_frames fs ! i)" and n = "length (module_frames fs)" and base = 40
      and elements = "\<lambda>m dst. modules_loop m a (of_nat (length ms)) dst (of_nat (length (module_frames fs))) 0 8"])
  let ?n = "length (module_frames fs)"
  have "unat (of_nat ?n :: u64) = ?n" using ms(2) by (simp add: unat_of_nat_u64)
  then have c: "ucast (of_nat ?n :: u64) = (of_nat ?n :: u32)" by (metis of_nat_unat)
  show "fill_modules scan m tag = stores m tag (shift 32 [(0, put_le 4 (of_nat ?n :: u32))]) \<bind>
      (\<lambda>m. modules_loop m a (of_nat (length ms)) (tag + 40) (of_nat ?n) 0 8)" for m tag
    by (simp add: fill_modules_def sc c st_defs shift_def Let_def)
  show "modules_loop m a (of_nat (length ms)) dst (of_nat ?n) 0 8 =
      stores m dst (element_stores 176 ?n (\<lambda>i. module_stores ms (module_frames fs ! i)))"
    if "frame m0 m (arena_span b0)" "span dst (?n * 176) \<subseteq> arena_span b0" for m dst
    using modules_loop_stores [OF ok fr ms(1), of "of_nat ?n" 0 m dst] that ms(2) by (simp add: unat_of_nat_u32)
  have "map (\<lambda>i. module_bytes ms (module_frames fs ! i)) [0..<?n] = map (module_bytes ms) (module_frames fs)"
    by (rule nth_equalityI) simp_all
  then show "modules_body ms (module_frames fs) = patches (replicate 8 0) [(0, put_le 4 (of_nat ?n :: u32))] @
      concat (map (\<lambda>i. patches (replicate 176 0) (module_stores ms (module_frames fs ! i))) [0..<?n])"
    unfolding module_stores_bytes by (simp add: modules_body_def patch_def)
qed (use z in \<open>simp_all add: module_stores_bounds\<close>)

section \<open>What the scan found\<close>

definition scan_of :: "u64 \<Rightarrow> u8 list \<Rightarrow> mb2_scan \<Rightarrow> mb2_frame list \<Rightarrow> bool" where
  "scan_of a ms scan fs \<longleftrightarrow> sc_data scan = a \<and> sc_total scan = of_nat (length ms) \<and>
     (case frame_of MB2_MMAP fs of None \<Rightarrow> \<not> has_mmap scan
      | Some (k, sz) \<Rightarrow> has_mmap scan \<and> k + sz \<le> length ms \<and> sc_mmap_offset scan = of_nat k \<and>
          mmap_frame ms k sz (sc_mmap_stride scan) (sc_mmap_count scan)) \<and>
     (case frame_of MB2_CMDLINE fs of None \<Rightarrow> \<not> has_cmdline scan
      | Some (k, sz) \<Rightarrow> has_cmdline scan \<and> k + sz \<le> length ms \<and> 8 < sz \<and> sc_cmdline_offset scan = of_nat (k + 8) \<and>
          sc_cmdline_bytes scan = of_nat (sz - 8)) \<and>
     (has_modules scan \<longleftrightarrow> module_frames fs \<noteq> []) \<and> length (module_frames fs) < 2 ^ 32 \<and>
     list_all (\<lambda>(k, sz). 17 \<le> sz) (module_frames fs) \<and> sc_module_count scan = of_nat (length (module_frames fs)) \<and>
     (case frame_of MB2_FRAMEBUFFER fs of None \<Rightarrow> \<not> has_framebuffer scan
      | Some (k, sz) \<Rightarrow> has_framebuffer scan \<and> sc_framebuffer scan = frame_framebuffer ms k) \<and>
     (case rsdp_frame fs of None \<Rightarrow> \<not> has_acpi scan
      | Some (k, sz, is_new) \<Rightarrow> has_acpi scan \<and> k + sz \<le> length ms \<and> 8 \<le> sz \<and> sc_acpi_offset scan = of_nat (k + 8) \<and>
          scan = scan_set_acpi (frame_acpi ms k sz is_new) scan)"

lemma small_offset:
  assumes "n < 2 ^ 33"
  shows "of_nat n \<noteq> BBP_IMPORT_SIZE_MAX"
proof
  assume "of_nat n = BBP_IMPORT_SIZE_MAX"
  then have "unat (of_nat n :: u64) = 2 ^ 64 - 1" by (simp add: BBP_IMPORT_SIZE_MAX_def unsigned_minus_1_eq_mask mask_eq_exp_minus_1)
  then show False using assms by (simp add: unat_of_nat_u64)
qed

lemma scan_end_fields:
  "sc_data (scan_end st) = sc_data (ss_scan st)" "sc_total (scan_end st) = sc_total (ss_scan st)"
  "sc_mmap_offset (scan_end st) = sc_mmap_offset (ss_scan st)" "sc_mmap_count (scan_end st) = sc_mmap_count (ss_scan st)"
  "sc_mmap_stride (scan_end st) = sc_mmap_stride (ss_scan st)" "sc_cmdline_offset (scan_end st) = sc_cmdline_offset (ss_scan st)"
  "sc_cmdline_bytes (scan_end st) = sc_cmdline_bytes (ss_scan st)" "sc_module_count (scan_end st) = sc_module_count (ss_scan st)"
  "sc_framebuffer_offset (scan_end st) = sc_framebuffer_offset (ss_scan st)" "sc_framebuffer (scan_end st) = sc_framebuffer (ss_scan st)"
  by (auto simp: scan_end_def scan_set_acpi_def split: option.splits prod.splits)

lemmas has_defs = has_mmap_def has_cmdline_def has_modules_def has_framebuffer_def has_acpi_def

lemma frame_fits:
  assumes fs: "mb2_frames ms 8 = Some fs" and n: "length ms < 2 ^ 32" and f: "frame_of t fs = Some (k, sz)"
  shows "8 \<le> sz" "k + sz \<le> length ms" "of_nat k \<noteq> BBP_IMPORT_SIZE_MAX" "of_nat (k + 8) \<noteq> BBP_IMPORT_SIZE_MAX"
proof -
  show fit: "8 \<le> sz" "k + sz \<le> length ms"
    using mb2_frames_ok [OF fs] frame_of_in [OF f] by (auto simp: list_all_iff frame_ok_def)
  show "of_nat k \<noteq> BBP_IMPORT_SIZE_MAX" "of_nat (k + 8) \<noteq> BBP_IMPORT_SIZE_MAX"
    using fit n small_offset [of k] small_offset [of "k + 8"] by simp_all
qed

lemma scan_end_acpi:
  assumes fs: "mb2_frames ms 8 = Some fs" and at: "scan_at a ms st fs" and n: "length ms < 2 ^ 32"
  shows "case rsdp_frame fs of None \<Rightarrow> \<not> has_acpi (scan_end st)
      | Some (k, sz, is_new) \<Rightarrow> has_acpi (scan_end st) \<and> k + sz \<le> length ms \<and> 8 \<le> sz \<and> sc_acpi_offset (scan_end st) = of_nat (k + 8) \<and>
          scan_end st = scan_set_acpi (frame_acpi ms k sz is_new) (scan_end st)"
proof (cases "frame_of MB2_ACPI_NEW fs")
  case (Some f)
  obtain k sz where f: "f = (k, sz)" by (cases f)
  have "ss_acpi_new st = Some (of_nat (k + 8), frame_acpi ms k sz True)" using at Some f by (simp add: scan_at_def acpi_at_def)
  then show ?thesis using Some f frame_fits [OF fs n, of MB2_ACPI_NEW k sz]
    by (simp add: rsdp_frame_def scan_end_def scan_set_acpi_def has_acpi_def)
next
  case new: None
  then have nn: "ss_acpi_new st = None" using at by (simp add: scan_at_def acpi_at_def)
  show ?thesis
  proof (cases "frame_of MB2_ACPI_OLD fs")
    case None
    then have "ss_acpi_old st = None" using at by (simp add: scan_at_def acpi_at_def)
    then show ?thesis using new nn None at by (simp add: rsdp_frame_def scan_end_def has_acpi_def scan_at_def)
  next
    case (Some f)
    obtain k sz where f: "f = (k, sz)" by (cases f)
    have "ss_acpi_old st = Some (of_nat (k + 8), frame_acpi ms k sz False)" using at Some f by (simp add: scan_at_def acpi_at_def)
    then show ?thesis using new nn Some f frame_fits [OF fs n, of MB2_ACPI_OLD k sz]
      by (simp add: rsdp_frame_def scan_end_def scan_set_acpi_def has_acpi_def)
  qed
qed

lemma scan_of_end:
  assumes fs: "mb2_frames ms 8 = Some fs" and at: "scan_at a ms st fs" and n: "length ms < 2 ^ 32"
  shows "scan_of a ms (scan_end st) fs"
proof -
  note fits = frame_fits [OF fs n]
  have mods: "has_modules (scan_end st) \<longleftrightarrow> module_frames fs \<noteq> []"
    using at unat_of_nat_u64 [of "length (module_frames fs)"]
    by (auto simp: has_defs scan_end_fields scan_at_def modules_at_def)
  have mm: "case frame_of MB2_MMAP fs of None \<Rightarrow> \<not> has_mmap (scan_end st)
      | Some (k, sz) \<Rightarrow> has_mmap (scan_end st) \<and> k + sz \<le> length ms \<and> sc_mmap_offset (scan_end st) = of_nat k \<and>
          mmap_frame ms k sz (sc_mmap_stride (scan_end st)) (sc_mmap_count (scan_end st))"
    using at fits [of MB2_MMAP]
    by (cases "frame_of MB2_MMAP fs") (auto simp: scan_at_def mmap_at_def scan_end_fields has_mmap_def)
  have cm: "case frame_of MB2_CMDLINE fs of None \<Rightarrow> \<not> has_cmdline (scan_end st)
      | Some (k, sz) \<Rightarrow> has_cmdline (scan_end st) \<and> k + sz \<le> length ms \<and> 8 < sz \<and> sc_cmdline_offset (scan_end st) = of_nat (k + 8) \<and>
          sc_cmdline_bytes (scan_end st) = of_nat (sz - 8)"
    using at fits [of MB2_CMDLINE]
    by (cases "frame_of MB2_CMDLINE fs") (auto simp: scan_at_def cmdline_at_def scan_end_fields has_cmdline_def)
  have fb: "case frame_of MB2_FRAMEBUFFER fs of None \<Rightarrow> \<not> has_framebuffer (scan_end st)
      | Some (k, sz) \<Rightarrow> has_framebuffer (scan_end st) \<and> sc_framebuffer (scan_end st) = frame_framebuffer ms k"
    using at fits(3) [of MB2_FRAMEBUFFER]
    by (cases "frame_of MB2_FRAMEBUFFER fs") (auto simp: scan_at_def framebuffer_at_def scan_end_fields has_framebuffer_def)
  show ?thesis unfolding scan_of_def using mods scan_end_acpi [OF assms] mm cm fb at by (simp add: scan_at_def modules_at_def scan_end_fields)
qed

section \<open>The import\<close>

definition mb2_parts :: "bbp_multiboot2_snapshot \<Rightarrow> mb2_scan \<Rightarrow> u64 \<Rightarrow> u64 \<Rightarrow> u8 list \<Rightarrow> mb2_frame list \<Rightarrow> part list" where
  "mb2_parts s scan z1 z2 ms fs =
     [(mb2_has s BBP_IMPORT_HAS_HHDM, mb2_emit_hhdm (mb_hhdm_offset s), Item_Tag BBP_TAG_HHDM (hhdm_body (mb_hhdm_offset s))),
      (has_mmap scan, mb2_emit_memory_map scan z1, mmap_item ms (the (frame_of MB2_MMAP fs))),
      (mb2_has s BBP_IMPORT_HAS_KERNEL_ADDRESS, mb2_emit_kernel_address s,
       Item_Tag BBP_TAG_KERNEL_ADDRESS (kernel_address_body (mb_kernel_physical_base s) (mb_kernel_virtual_base s))),
      (has_cmdline scan, mb2_emit_cmdline scan, cmdline_item ms (the (frame_of MB2_CMDLINE fs))),
      (has_modules scan, mb2_emit_modules scan z2, Item_Tag BBP_TAG_MODULES (modules_body ms (module_frames fs))),
      (has_framebuffer scan, mb2_emit_framebuffer (sc_framebuffer scan), framebuffer_item ms (the (frame_of MB2_FRAMEBUFFER fs))),
      (has_acpi scan, mb2_emit_acpi scan, acpi_item ms (the (rsdp_frame fs)))]"

lemma mb2_parts_items: "scan_of a ms scan fs \<Longrightarrow> frame_items s ms fs = present_items (mb2_parts s scan z1 z2 ms fs)"
  by (auto simp: frame_items_def mb2_parts_def scan_of_def optional_item_def split: option.splits)

lemma mb2_tag_size_ok:
  shows "check_ok (mb2_tag_size p f c e)"
    and "mb2_tag_size p f c e = Some (Inr z) \<Longrightarrow> p \<Longrightarrow> unat z = unat f + unat c * unat e"
proof -
  have out: "\<exists>z. out = Some z \<and> unat z = unat f + unat c * unat e"
    if "bbp_import_array_tag_size f c e (Some 0) = (BBP_IMPORT_OK, out)" for out
    by (rule array_tag_size_ok [OF that]) simp
  then show "check_ok (mb2_tag_size p f c e)" by (fastforce simp: mb2_tag_size_def check_ok_def split: prod.splits)
  show "mb2_tag_size p f c e = Some (Inr z) \<Longrightarrow> p \<Longrightarrow> unat z = unat f + unat c * unat e"
    using out by (fastforce simp: mb2_tag_size_def split: prod.splits if_splits)
qed

lemma scan_mbi_ok: "mb2_source m s ms \<Longrightarrow> check_ok (scan_mbi m s)"
  using scan_mbi_spec(1) [of m s ms] by (cases "mb_mbi s = 0") (simp_all add: mb2_source_def, simp add: scan_mbi_def)

lemma mb2_checks_ok: "mb2_source m s ms \<Longrightarrow> check_ok (mb2_checks m b s)"
  unfolding mb2_checks_def using scan_mbi_ok mb2_tag_size_ok(1) by (intro check_ok_and_then) simp_all

lemma mb2_checks_result:
  assumes src: "mb2_source m s ms" and ch: "mb2_checks m b s = Some (Inr (scan, z1, z2))"
  obtains fs where "mb2_frames (take (mb2_total ms) ms) 8 = Some fs" "mbi_ok m b (mb_mbi s) (take (mb2_total ms) ms)"
    "scan_of (mb_mbi s) (take (mb2_total ms) ms) scan fs"
    "has_mmap scan \<Longrightarrow> unat z1 = 40 + unat (sc_mmap_count scan) * 32"
    "has_modules scan \<Longrightarrow> unat z2 = 40 + unat (sc_module_count scan) * 176"
proof -
  have c: "\<not> bbp_import_ranges_overlap (mb_mbi s) (mb_mapped_bytes s) (b_arena b) (b_capacity b)"
    "scan_mbi m s = Some (Inr scan)"
    "mb2_tag_size (has_mmap scan) (sizeof struct_bbp_tag_memory_map) (sc_mmap_count scan) (sizeof struct_bbp_memory_entry) = Some (Inr z1)"
    "mb2_tag_size (has_modules scan) (sizeof struct_bbp_tag_modules) (sc_module_count scan) (sizeof struct_bbp_module_entry) = Some (Inr z2)"
    using ch by (auto simp: mb2_checks_def and_then_Inr refuse_if_def split: if_splits)
  have nz: "mb_mbi s \<noteq> 0" using c(2) by (auto simp: scan_mbi_def)
  then have ld: "load m (mb_mbi s) (unat (mb_mapped_bytes s)) = Some ms" using src by (simp add: mb2_source_def)
  let ?i = "take (mb2_total ms) ms"
  obtain fs st where f: "mb2_total ms \<le> length ms" "mb2_frames ?i 8 = Some fs" "scan_at (mb_mbi s) ?i st fs" "scan = scan_end st"
    using scan_mbi_spec(2) [OF ld c(2)] by blast
  have n: "length ?i < 2 ^ 32" using unat_u32_less [of "get_le (slice ms 0 4)"] by (simp add: mb2_total_def min_less_iff_disj)
  have len: "length ms = unat (mb_mapped_bytes s)" using load_length [OF ld] .
  have "unat (mb_mbi s) + length ms < 2 ^ 64"
    using c(1) unat_le_max_minus [of "mb_mbi s" "mb_mapped_bytes s"] unfolding len
    by (auto simp: bbp_import_ranges_overlap_def BBP_IMPORT_UINTPTR_MAX_def not_less split: if_splits)
  moreover have "outside_arena b (mb_mbi s) (length ?i)" unfolding outside_arena_def
    by (rule disj_mono [OF ranges_apart [OF c(1)]]) (simp_all add: len)
  moreover have "load m (mb_mbi s) (length ?i) = Some ?i"
    using mbi_load [OF ld, of 0 "length ?i"] f(1) len by (simp add: slice_def min_absorb2)
  ultimately have ok: "mbi_ok m b (mb_mbi s) ?i" using nz n by (simp add: mbi_ok_def)
  show thesis using that [OF f(2) ok] scan_of_end [OF f(2,3) n] f(4) mb2_tag_size_ok(2) [OF c(3)] mb2_tag_size_ok(2) [OF c(4)]
    by simp
qed

lemma part_steps_items [simp]:
  "part_steps b (c, e, mmap_item ms f) =
     [plan_if c (\<lambda>p. bbp_import_plan_tag b p (of_nat (32 + length (memory_map_body (mb2_entries ms (fst f) (snd f))))))]"
  "part_steps b (c, e, cmdline_item ms f) = [plan_if c (\<lambda>p. bbp_import_plan_blob b p (of_nat (length (slice ms (fst f + 8) (snd f - 8))))),
     plan_if c (\<lambda>p. bbp_import_plan_tag b p 56)]"
  "part_steps b (c, e, framebuffer_item ms f) = [plan_if c (\<lambda>p. bbp_import_plan_tag b p 120)]"
  "part_steps b (c, e, acpi_item ms g) = [plan_if c (\<lambda>p. bbp_import_plan_blob b p (of_nat (length (slice ms (fst g + 8) (fst (snd g) - 8))))),
     plan_if c (\<lambda>p. bbp_import_plan_tag b p 56)]"
  by (simp_all add: mmap_item_def cmdline_item_def framebuffer_item_def acpi_item_def mb2_acpi_body_def split: prod.splits)

lemma mb2_parts_ok:
  assumes ok: "mbi_ok m b a ms" and fs: "mb2_frames ms 8 = Some fs" and sc: "scan_of a ms scan fs"
    and z1: "has_mmap scan \<Longrightarrow> unat z1 = 40 + unat (sc_mmap_count scan) * 32"
    and z2: "has_modules scan \<Longrightarrow> unat z2 = 40 + unat (sc_module_count scan) * 176"
  shows "list_all (part_ok m b) (mb2_parts s scan z1 z2 ms fs)"
proof -
  have mm: "emits m b (mb2_emit_memory_map scan z1) (mmap_item ms (the (frame_of MB2_MMAP fs)))" if "has_mmap scan"
    using sc z1 [OF that] that mb2_emits_memory_map [OF ok] by (auto simp: scan_of_def split: option.splits)
  have cm: "emits m b (mb2_emit_cmdline scan) (cmdline_item ms (the (frame_of MB2_CMDLINE fs)))" if "has_cmdline scan"
    using sc that mb2_emits_cmdline [OF ok] by (auto simp: scan_of_def split: option.splits)
  have fb: "emits m b (mb2_emit_framebuffer (sc_framebuffer scan)) (framebuffer_item ms (the (frame_of MB2_FRAMEBUFFER fs)))"
    if "has_framebuffer scan"
  proof -
    have "fb_flags (frame_framebuffer ms k) = 0" for k by (simp add: frame_framebuffer_def Let_def split: prod.splits)
    then show ?thesis using sc that mb2_emits_framebuffer by (auto simp: scan_of_def framebuffer_item_def split: option.splits)
  qed
  have ac: "emits m b (mb2_emit_acpi scan) (acpi_item ms (the (rsdp_frame fs)))" if h: "has_acpi scan"
  proof -
    obtain k sz is_new where f: "rsdp_frame fs = Some (k, sz, is_new)" "k + sz \<le> length ms" "8 \<le> sz" "sc_data scan = a"
      "sc_acpi_offset scan = of_nat (k + 8)" "scan = scan_set_acpi (frame_acpi ms k sz is_new) scan"
      using sc h by (auto simp: scan_of_def split: option.splits prod.splits)
    have "sc_acpi_bytes scan = ma_bytes (frame_acpi ms k sz is_new)" "sc_acpi_xsdt scan = ma_xsdt (frame_acpi ms k sz is_new)"
      "sc_acpi_oem_id scan = ma_oem_id (frame_acpi ms k sz is_new)" "sc_acpi_version scan = ma_version (frame_acpi ms k sz is_new)"
      by (subst f(6), simp add: scan_set_acpi_def)+
    then show ?thesis using mb2_emits_acpi [OF ok f(2,3,4,5) _ _ _ _ refl] f(1) by simp
  qed
  have md: "emits m b (mb2_emit_modules scan z2) (Item_Tag BBP_TAG_MODULES (modules_body ms (module_frames fs)))" if "has_modules scan"
    using sc z2 [OF that] unat_of_nat_u64 [of "length (module_frames fs)"] by (intro mb2_emits_modules [OF ok fs]) (simp_all add: scan_of_def)
  show ?thesis using mm cm fb ac md emits_hhdm emits_kernel_address
    by (simp add: mb2_parts_def part_ok_def mb2_emit_hhdm_def mb2_emit_kernel_address_def)
qed

lemma mb2_parts_plan:
  assumes sc: "scan_of a ms scan fs" and n: "length ms < 2 ^ 32"
    and z1: "has_mmap scan \<Longrightarrow> unat z1 = 40 + unat (sc_mmap_count scan) * 32"
    and z2: "has_modules scan \<Longrightarrow> unat z2 = 40 + unat (sc_module_count scan) * 176"
  shows "mb2_plan b s scan z1 z2 = concat (map (part_steps b) (mb2_parts s scan z1 z2 ms fs))"
proof -
  have mm: "z1 = of_nat (32 + length (memory_map_body (mb2_entries ms (fst (the (frame_of MB2_MMAP fs))) (snd (the (frame_of MB2_MMAP fs))))))"
    if h: "has_mmap scan"
  proof -
    obtain k sz where f: "frame_of MB2_MMAP fs = Some (k, sz)" "k + sz \<le> length ms"
      "mmap_frame ms k sz (sc_mmap_stride scan) (sc_mmap_count scan)" using sc h by (auto simp: scan_of_def split: option.splits)
    have "unat z1 = 32 + length (memory_map_body (mb2_entries ms k sz))" using z1 [OF h] length_mb2_entries(2) [OF f(3,2)] by simp
    then show ?thesis unfolding f(1) option.sel fst_conv snd_conv by (metis of_nat_unat_u64)
  qed
  have md: "z2 = of_nat (32 + length (modules_body ms (module_frames fs)))" if h: "has_modules scan"
  proof -
    have "unat z2 = 32 + length (modules_body ms (module_frames fs))"
      using sc z2 [OF h] unat_of_nat_u64 [of "length (module_frames fs)"]
      by (simp add: scan_of_def modules_body_def length_concat comp_def sum_list_triv)
    then show ?thesis by (metis of_nat_unat_u64)
  qed
  have cm: "sc_cmdline_bytes scan = of_nat (length (slice ms (fst (the (frame_of MB2_CMDLINE fs)) + 8) (snd (the (frame_of MB2_CMDLINE fs)) - 8)))"
    if "has_cmdline scan" using sc that by (auto simp: scan_of_def slice_def min_absorb2 split: option.splits)
  have ac: "sc_acpi_bytes scan = of_nat (length (slice ms (fst (the (rsdp_frame fs)) + 8) (fst (snd (the (rsdp_frame fs))) - 8)))"
    if h: "has_acpi scan"
  proof -
    obtain k sz is_new where f: "rsdp_frame fs = Some (k, sz, is_new)" "k + sz \<le> length ms" "8 \<le> sz"
      "scan = scan_set_acpi (frame_acpi ms k sz is_new) scan"
      using sc h by (auto simp: scan_of_def split: option.splits prod.splits)
    have "sc_acpi_bytes scan = of_nat (sz - 8)" by (subst f(4)) (simp add: scan_set_acpi_def frame_acpi_def)
    then show ?thesis using f(1-3) by (simp add: slice_def min_absorb2)
  qed
  show ?thesis using mm md cm ac
    by (simp add: mb2_plan_def mb2_parts_def cong: plan_if_cong)
qed

lemma multiboot2_outcome:
  assumes "wf_builder m b ts" "mb2_source m s ms"
  shows "import_outcome m b ts (mb2_items s ms) (bbp_import_multiboot2 m (Some b) (Some (a, s)))"
proof -
  have "import_outcome m b ts (mb2_items s ms) (plan_and_emit (mb2_plan b s scan z1 z2) (mb2_emitters s scan z1 z2) m b p)"
    if pb: "bbp_import_plan_begin m (Some b) (Some \<lparr>ip_used = 0, ip_tag_count = 0\<rparr>) = Some (BBP_IMPORT_OK, Some p)"
      and ch: "mb2_checks m b s = Some (Inr (scan, z1, z2))" for p scan z1 z2
  proof -
    let ?i = "take (mb2_total ms) ms"
    obtain fs where fs: "mb2_frames ?i 8 = Some fs" and ok: "mbi_ok m b (mb_mbi s) ?i" and sc: "scan_of (mb_mbi s) ?i scan fs"
      and z: "has_mmap scan \<Longrightarrow> unat z1 = 40 + unat (sc_mmap_count scan) * 32"
        "has_modules scan \<Longrightarrow> unat z2 = 40 + unat (sc_module_count scan) * 176"
      using mb2_checks_result [OF assms(2) ch] by blast
    have "length ?i < 2 ^ 32" using ok by (simp add: mbi_ok_def)
    note pl = mb2_parts_plan [OF sc this z] and po = mb2_parts_ok [OF ok fs sc z]
    have "mb2_items s ms = present_items (mb2_parts s scan z1 z2 ?i fs)"
      using mb2_parts_items [OF sc] fs by (simp add: mb2_items_def)
    moreover have "mb2_emitters s scan z1 z2 = map (\<lambda>(c, e, x). emit_if c e) (mb2_parts s scan z1 z2 ?i fs)"
      by (simp add: mb2_emitters_def mb2_parts_def)
    ultimately show ?thesis using plan_and_emit_outcome [OF assms(1) pb po pl] by simp
  qed
  then have "import_outcome m b ts (mb2_items s ms) (do {
      r \<leftarrow> mb2_checks m b s;
      case r of Inl status \<Rightarrow> Some (status, m, Some b)
      | Inr (scan, z1, z2) \<Rightarrow> plan_and_emit (mb2_plan b s scan z1 z2) (mb2_emitters s scan z1 z2) m b p })"
    if "bbp_import_plan_begin m (Some b) (Some \<lparr>ip_used = 0, ip_tag_count = 0\<rparr>) = Some (BBP_IMPORT_OK, Some p)" for p
    using that by (intro checks_outcome mb2_checks_ok [OF assms(2)]) (auto split: prod.splits)
  from begin_outcome [OF assms(1) this] show ?thesis
    by (simp add: bbp_import_multiboot2_def outcome_refused cong: if_cong)
qed

section \<open>Properties\<close>

text \<open>C9. The Multiboot2 importer is total and failure-atomic: for every readable boot information it returns
  without touching unmapped memory, and it either refuses with a status and leaves memory and builder
  unchanged, or appends exactly the tags its frames describe: the memory map at the stride of its frame, the
  command line verbatim with its checksum, every module frame in order with its name cut at a character
  boundary, the framebuffer, and a copy of the RSDP, the newer one when both kinds are present.\<close>

theorem import_multiboot2_outcome:
  assumes "wf_builder m b ts" "mb2_source m s ms"
  shows "import_outcome m b ts (mb2_items s ms) (bbp_import_multiboot2 m (Some b) (Some (a, s)))"
  using assms by (rule multiboot2_outcome)

definition mb2_demo_scan :: mb2_scan where
  "mb2_demo_scan = (scan_initial 0x30000 40)\<lparr>sc_module_count := 1\<rparr>"

lemma mb2_demo_scanned:
  assumes ld: "load m 0x30000 40 = Some mb2_demo"
  shows "scan_mbi m mb2_demo_snapshot = Some (Inr mb2_demo_scan)"
proof -
  let ?st = "\<lparr>ss_scan = scan_initial 0x30000 40, ss_saw_cmdline = False, ss_saw_mmap = False,
      ss_saw_framebuffer = False, ss_acpi_old = None, ss_acpi_new = None\<rparr>"
  have rd: "read_u32 m 0x30000 = Some 40" "read_u32 m 0x30004 = Some 0" "read_u32 m 0x30010 = Some 0x1000"
    "read_u32 m 0x30014 = Some 0x3000" "m 0x30018 = Some 0"
    using mbi_read32 [OF ld, of 0] mbi_read32 [OF ld, of 4] mbi_read32 [OF ld, of 16] mbi_read32 [OF ld, of 20]
      mbi_byte [OF ld, of 24] by (simp_all add: mb2_demo_slices)
  have sc: "scan_tag m 0x30000 8 MB2_MODULE 17 ?st = Some (Inr (?st\<lparr>ss_scan := mb2_demo_scan\<rparr>))"
    using rd by (simp add: scan_tag_def scan_module_def mb2_consts exact_string_def bbp_import_validate_string_def
        bbp_import_phys_range_valid_def import_consts umax scan_string.simps mb2_demo_scan_def) (simp add: scan_initial_def)
  have "scan_loop m 0x30000 40 st 32 = Some (Inr (scan_end st))" for st
    using scan_loop_step [OF ld, of 32 st] by (simp add: mb2_demo_slices)
  then have "scan_loop m 0x30000 40 ?st 8 = Some (Inr mb2_demo_scan)"
    using scan_loop_step [OF ld, of 8 ?st] sc by (simp add: mb2_demo_slices align8_def and_then_def scan_end_def mb2_consts)
  then show ?thesis using rd by (simp add: scan_mbi_def mb2_demo_snapshot_def Let_def)
qed

theorem import_multiboot2_outcome_witness:
  "\<exists>m m' b'. wf_builder m demo_builder [] \<and>
     bbp_import_multiboot2 m (Some demo_builder) (Some (0x40000, mb2_demo_snapshot)) = Some (BBP_IMPORT_OK, m', Some b') \<and>
     wf_builder m' b' [(0, 216, BBP_TAG_MODULES)] \<and>
     load m' (va b' 32) 184 = Some (modules_body mb2_demo [(8, 17)])"
proof -
  obtain m0 where m0: "wf_builder m0 demo_builder []" "same_dom (\<lambda>_. Some 0) m0" by (rule demo_init)
  have "mapped m0 0x30000 40" using same_dom_mapped [OF m0(2)] by (simp add: mapped_def)
  then obtain m where m: "store m0 0x30000 mb2_demo = Some m" "load m 0x30000 40 = Some mb2_demo" by (rule mb2_demo_memory)
  have "outside_arena demo_builder 0x30000 (length mb2_demo)" unfolding outside_arena_def by (rule disj_apart) simp_all
  then have wf: "wf_builder m demo_builder []" using wf_builder_other [OF m0(1) m(1)] by blast
  have src: "mb2_source m mb2_demo_snapshot mb2_demo" using m(2) by (simp add: mb2_source_def mb2_demo_snapshot_def)
  let ?r = "bbp_import_multiboot2 m (Some demo_builder) (Some (0x40000, mb2_demo_snapshot))"
  have b: "bbp_import_plan_begin m (Some demo_builder) (Some \<lparr>ip_used = 0, ip_tag_count = 0\<rparr>)
      = Some (BBP_IMPORT_OK, Some \<lparr>ip_used = 0, ip_tag_count = 0\<rparr>)"
    by (simp add: bbp_import_plan_begin_def plan_chain_bad_def import_consts)
  have has: "\<not> has_mmap mb2_demo_scan" "\<not> has_cmdline mb2_demo_scan" "has_modules mb2_demo_scan"
    "\<not> has_framebuffer mb2_demo_scan" "\<not> has_acpi mb2_demo_scan" "\<not> mb2_has mb2_demo_snapshot f" for f
    by (simp_all add: has_defs mb2_demo_scan_def scan_initial_def mb2_has_def mb2_demo_snapshot_def)
  have c: "mb2_checks m demo_builder mb2_demo_snapshot = Some (Inr (mb2_demo_scan, 0, 216))"
    using mb2_demo_scanned [OF m(2)] has
    by (simp add: mb2_checks_def and_then_def refuse_if_def mb2_tag_size_def)
      (simp add: mb2_demo_snapshot_def mb2_demo_scan_def bbp_import_array_tag_size_def bbp_import_ranges_overlap_def import_consts umax)
  have p: "plan_steps (mb2_plan demo_builder mb2_demo_snapshot mb2_demo_scan 0 216) \<lparr>ip_used = 0, ip_tag_count = 0\<rparr>
      = Some (Inr \<lparr>ip_used = 216, ip_tag_count = 1\<rparr>)"
    using has by (simp add: mb2_plan_def plan_if_def and_then_def bbp_import_plan_tag_def plan_allocation_def
        import_align8_def add_size_def import_consts umax)
  have "?r = do { (m, b) \<leftarrow> emit_steps (mb2_emitters mb2_demo_snapshot mb2_demo_scan 0 216) (m, demo_builder); Some (BBP_IMPORT_OK, m, Some b) }"
    using b c p by (simp add: bbp_import_multiboot2_def plan_and_emit_def bbp_import_ranges_overlap_def import_consts
        MB2_SNAPSHOT_BYTES_def) (simp add: mb2_demo_snapshot_def)
  moreover have "import_outcome m demo_builder [] (mb2_items mb2_demo_snapshot mb2_demo) ?r"
    by (rule import_multiboot2_outcome [OF wf src])
  ultimately obtain m' b' where r: "?r = Some (BBP_IMPORT_OK, m', Some b')"
    "laid m demo_builder [] (mb2_items mb2_demo_snapshot mb2_demo) m' b'"
    by (auto simp: import_outcome_def bind_eq_Some_conv)
  have t: "take (mb2_total mb2_demo) mb2_demo = mb2_demo" by (simp add: mb2_total_def mb2_demo_slices)
  have items: "mb2_items mb2_demo_snapshot mb2_demo = [Item_Tag BBP_TAG_MODULES (modules_body mb2_demo [(8, 17)])]"
    using has mb2_demo_frames
    by (simp add: mb2_items_def t frame_items_def frame_of_def rsdp_frame_def module_frames_def optional_item_def mb2_consts)
  have "length (modules_body mb2_demo [(8, 17)]) = 184" by (simp add: modules_body_def)
  then have "wf_builder m' b' [(0, 216, BBP_TAG_MODULES)]" "load m' (va b' 32) 184 = Some (modules_body mb2_demo [(8, 17)])"
    using r(2) by (simp_all add: laid_def items Let_def align8_def holds_def)
  then show ?thesis using wf r(1) by blast
qed

end
