(* ===== verification/V2_Auth.thy ===== *)
theory V2_Auth
  imports V2_Spec
begin

text \<open>
  The authenticated envelope of \<open>v2/bbp_v2_auth.c\<close> and \<open>include/bbp/bbp_v2_auth.h\<close>. The MAC
  verifier and the policy are callbacks of the caller; they act on a world of type \<open>'w\<close> that holds
  both callback contexts, so the order of the calls shows in the resulting world. A capsule pointer
  inside the envelope is the rest of the envelope from that position on. The capsule parser has no
  effect on the world; that it has not been started shows on an envelope whose capsule is not readable,
  since reading it would be a fault, \<^term>\<open>None\<close>.
\<close>

section \<open>Definitions\<close>

definition BBP_V2_AUTH_VERSION :: u16 where "BBP_V2_AUTH_VERSION = 1"
definition BBP_V2_AUTH_ALG_HMAC_SHA256 :: u16 where "BBP_V2_AUTH_ALG_HMAC_SHA256 = 1"
definition BBP_V2_AUTH_HEADER_SIZE :: u64 where "BBP_V2_AUTH_HEADER_SIZE = 80"
definition BBP_V2_AUTH_KEY_ID_SIZE :: nat where "BBP_V2_AUTH_KEY_ID_SIZE = 16"
definition BBP_V2_AUTH_TAG_SIZE :: nat where "BBP_V2_AUTH_TAG_SIZE = 32"
definition BBP_V2_AUTH_TAG_OFFSET :: nat where "BBP_V2_AUTH_TAG_OFFSET = 48"
definition BBP_V2_AUTH_MAX_CAPSULE_SIZE :: u64 where "BBP_V2_AUTH_MAX_CAPSULE_SIZE = BBP_V2_MAX_EXTENT"

lemmas auth_consts = BBP_V2_AUTH_VERSION_def BBP_V2_AUTH_ALG_HMAC_SHA256_def BBP_V2_AUTH_HEADER_SIZE_def
  BBP_V2_AUTH_KEY_ID_SIZE_def BBP_V2_AUTH_TAG_SIZE_def BBP_V2_AUTH_TAG_OFFSET_def
  BBP_V2_AUTH_MAX_CAPSULE_SIZE_def BBP_V2_MAX_EXTENT_def

definition auth_magic :: "u8 list" where
  "auth_magic = [0x42, 0x42, 0x50, 0x32, 0x41, 0x55, 0x54, 0x48]"

datatype bbp_v2_auth_status =
    BBP_V2_AUTH_OK | BBP_V2_AUTH_ERR_NULL | BBP_V2_AUTH_ERR_MAGIC | BBP_V2_AUTH_ERR_VERSION
  | BBP_V2_AUTH_ERR_ALGORITHM | BBP_V2_AUTH_ERR_FLAGS | BBP_V2_AUTH_ERR_EXTENT
  | BBP_V2_AUTH_ERR_MAC | BBP_V2_AUTH_ERR_CAPSULE | BBP_V2_AUTH_ERR_POLICY

record bbp_v2_auth_view =
  av_envelope :: "u8 list"
  av_envelope_size :: u64
  av_rollback_index :: u64
  av_key_identity :: "u8 list"
  av_capsule :: bbp_v2_view

text \<open>Arguments: key identity, authenticated header, capsule, capsule size, tag.\<close>

type_synonym 'w bbp_v2_auth_mac_verify_fn =
  "'w \<Rightarrow> u8 list \<Rightarrow> u8 list \<Rightarrow> u8 list \<Rightarrow> u64 \<Rightarrow> u8 list \<Rightarrow> bool \<times> 'w"

text \<open>Arguments: rollback index, key identity, parsed capsule.\<close>

type_synonym 'w bbp_v2_auth_policy_fn = "'w \<Rightarrow> u64 \<Rightarrow> u8 list \<Rightarrow> bbp_v2_view \<Rightarrow> bool \<times> 'w"

text \<open>The steps after the header checks: MAC, then parser, then policy, then publication.\<close>

definition authenticate ::
  "u8 list \<Rightarrow> u64 \<Rightarrow> u64 \<Rightarrow> 'w bbp_v2_auth_mac_verify_fn \<Rightarrow> 'w bbp_v2_auth_policy_fn \<Rightarrow> 'w
     \<Rightarrow> ((bbp_v2_auth_status + bbp_v2_auth_view) \<times> 'w) option" where
  "authenticate envelope extent capsule_size verify_mac policy w =
     do {
       let capsule = drop (unat BBP_V2_AUTH_HEADER_SIZE) envelope;
       rollback_index \<leftarrow> get64 envelope 16;
       header \<leftarrow> rd envelope 0 (unat BBP_V2_AUTH_HEADER_SIZE);
       header \<leftarrow> wr header BBP_V2_AUTH_TAG_OFFSET (replicate BBP_V2_AUTH_TAG_SIZE 0);
       key \<leftarrow> rd envelope 32 BBP_V2_AUTH_KEY_ID_SIZE;
       tag \<leftarrow> rd envelope BBP_V2_AUTH_TAG_OFFSET BBP_V2_AUTH_TAG_SIZE;
       let (ok, w) = verify_mac w key header capsule capsule_size tag;
       if \<not> ok then Some (Inl BBP_V2_AUTH_ERR_MAC, w)
       else do {
         r \<leftarrow> bbp_v2_parse (Some capsule) capsule_size True;
         case r of
           Inl _ \<Rightarrow> Some (Inl BBP_V2_AUTH_ERR_CAPSULE, w)
         | Inr view \<Rightarrow>
             let (ok, w) = policy w rollback_index key view in
             if \<not> ok then Some (Inl BBP_V2_AUTH_ERR_POLICY, w)
             else Some (Inr \<lparr>av_envelope = envelope, av_envelope_size = extent,
                    av_rollback_index = rollback_index, av_key_identity = key, av_capsule = view\<rparr>, w)
       }
     }"

definition bbp_v2_auth_parse ::
  "u8 list option \<Rightarrow> u64 \<Rightarrow> 'w bbp_v2_auth_mac_verify_fn option \<Rightarrow> 'w bbp_v2_auth_policy_fn option
     \<Rightarrow> bool \<Rightarrow> 'w \<Rightarrow> ((bbp_v2_auth_status + bbp_v2_auth_view) \<times> 'w) option" where
  "bbp_v2_auth_parse envelope_pointer extent verify policy out w =
     (case (envelope_pointer, verify, policy) of
        (Some envelope, Some verify_mac, Some pol) \<Rightarrow>
          if \<not> out then Some (Inl BBP_V2_AUTH_ERR_NULL, w)
          else if extent < BBP_V2_AUTH_HEADER_SIZE
            \<or> extent - BBP_V2_AUTH_HEADER_SIZE > BBP_V2_AUTH_MAX_CAPSULE_SIZE
          then Some (Inl BBP_V2_AUTH_ERR_EXTENT, w)
          else do {
            eq \<leftarrow> bytes_equal envelope 0 auth_magic;
            if \<not> eq then Some (Inl BBP_V2_AUTH_ERR_MAGIC, w)
            else do {
              bad \<leftarrow> ne16 envelope 8 BBP_V2_AUTH_VERSION;
              if bad then Some (Inl BBP_V2_AUTH_ERR_VERSION, w)
              else do {
                bad \<leftarrow> ne16 envelope 10 BBP_V2_AUTH_ALG_HMAC_SHA256;
                if bad then Some (Inl BBP_V2_AUTH_ERR_ALGORITHM, w)
                else do {
                  bad \<leftarrow> ne32 envelope 12 0;
                  if bad then Some (Inl BBP_V2_AUTH_ERR_FLAGS, w)
                  else do {
                    capsule_size \<leftarrow> get64 envelope 24;
                    if capsule_size > BBP_V2_AUTH_MAX_CAPSULE_SIZE
                      \<or> capsule_size \<noteq> extent - BBP_V2_AUTH_HEADER_SIZE
                    then Some (Inl BBP_V2_AUTH_ERR_EXTENT, w)
                    else authenticate envelope extent capsule_size verify_mac pol w
                  }
                }
              }
            }
          }
      | _ \<Rightarrow> Some (Inl BBP_V2_AUTH_ERR_NULL, w))"

fun bbp_v2_auth_strstatus :: "bbp_v2_auth_status \<Rightarrow> string" where
  "bbp_v2_auth_strstatus BBP_V2_AUTH_OK = ''ok''"
| "bbp_v2_auth_strstatus BBP_V2_AUTH_ERR_NULL = ''null argument or callback''"
| "bbp_v2_auth_strstatus BBP_V2_AUTH_ERR_MAGIC = ''bad magic''"
| "bbp_v2_auth_strstatus BBP_V2_AUTH_ERR_VERSION = ''unsupported envelope version''"
| "bbp_v2_auth_strstatus BBP_V2_AUTH_ERR_ALGORITHM = ''unsupported MAC algorithm''"
| "bbp_v2_auth_strstatus BBP_V2_AUTH_ERR_FLAGS = ''unsupported flags''"
| "bbp_v2_auth_strstatus BBP_V2_AUTH_ERR_EXTENT = ''invalid exact extent''"
| "bbp_v2_auth_strstatus BBP_V2_AUTH_ERR_MAC = ''authentication failed''"
| "bbp_v2_auth_strstatus BBP_V2_AUTH_ERR_CAPSULE = ''invalid BBP v2 capsule''"
| "bbp_v2_auth_strstatus BBP_V2_AUTH_ERR_POLICY = ''policy rejected capsule''"

section \<open>What an envelope must be\<close>

definition envelope_ok :: "u8 list \<Rightarrow> u64 \<Rightarrow> bool" where
  "envelope_ok e ext \<longleftrightarrow> 80 \<le> unat ext \<and> unat ext \<le> 67108864 + 80 \<and> take 8 e = auth_magic \<and>
     le16_at e 8 = 1 \<and> le16_at e 10 = 1 \<and> le32_at e 12 = 0 \<and> le64_at e 24 = ext - 80"

definition auth_header :: "u8 list \<Rightarrow> u8 list" where
  "auth_header e = take 48 e @ replicate 32 0"

definition auth_key :: "u8 list \<Rightarrow> u8 list" where "auth_key e = slice e 32 16"
definition auth_tag :: "u8 list \<Rightarrow> u8 list" where "auth_tag e = slice e 48 32"

definition auth_message :: "u8 list \<Rightarrow> u64 \<Rightarrow> u8 list" where
  "auth_message e ext = auth_header e @ take (unat (ext - 80)) (drop 80 e)"

definition auth_view_of :: "u8 list \<Rightarrow> u64 \<Rightarrow> bbp_v2_auth_view" where
  "auth_view_of e ext = \<lparr>av_envelope = e, av_envelope_size = ext, av_rollback_index = le64_at e 16,
     av_key_identity = auth_key e, av_capsule = view_of (drop 80 e) (ext - 80)\<rparr>"

lemma auth_reads:
  assumes "80 \<le> length e"
  shows "get64 e 16 = Some (le64_at e 16)" "rd e 0 80 = Some (take 80 e)"
    "wr (take 80 e) 48 (replicate 32 0) = Some (auth_header e)"
    "rd e 32 16 = Some (auth_key e)" "rd e 48 32 = Some (auth_tag e)"
  using assms by (simp_all add: get_at rd_def wr_def auth_header_def auth_key_def auth_tag_def slice_def)

lemma auth_capsule_len:
  fixes ext :: u64
  assumes "80 \<le> unat ext"
  shows "unat (ext - 80) = unat ext - 80"
  using assms by (simp add: unat_sub word_le_nat_alt)

lemma auth_size_values:
  "unat BBP_V2_AUTH_HEADER_SIZE = 80" "BBP_V2_AUTH_TAG_OFFSET = 48" "BBP_V2_AUTH_TAG_SIZE = 32"
  "BBP_V2_AUTH_KEY_ID_SIZE = 16"
  by (simp_all add: auth_consts)

lemma authenticate_eq:
  assumes len: "unat ext \<le> length e" "80 \<le> unat ext"
  shows "authenticate e ext (ext - 80) V P w =
    (case V w (auth_key e) (auth_header e) (drop 80 e) (ext - 80) (auth_tag e) of (ok, w1) \<Rightarrow>
     if \<not> ok then Some (Inl BBP_V2_AUTH_ERR_MAC, w1)
     else if \<not> capsule_ok (drop 80 e) (ext - 80) then Some (Inl BBP_V2_AUTH_ERR_CAPSULE, w1)
     else case P w1 (le64_at e 16) (auth_key e) (view_of (drop 80 e) (ext - 80)) of (ok, w2) \<Rightarrow>
       if \<not> ok then Some (Inl BBP_V2_AUTH_ERR_POLICY, w2) else Some (Inr (auth_view_of e ext), w2))"
proof -
  have "unat (ext - 80) \<le> length (drop 80 e)" using auth_capsule_len [OF len(2)] len(1) by simp
  from parse_spec [OF this]
  obtain r where r: "bbp_v2_parse (Some (drop 80 e)) (ext - 80) True = Some r"
    "r = Inr (view_of (drop 80 e) (ext - 80)) \<and> capsule_ok (drop 80 e) (ext - 80) \<or>
     (\<exists>x. r = Inl x) \<and> \<not> capsule_ok (drop 80 e) (ext - 80)"
    by blast
  have "80 \<le> length e" using len by simp
  then show ?thesis
    unfolding authenticate_def auth_size_values Let_def auth_reads [OF \<open>80 \<le> length e\<close>] bind.bind_lunit r(1)
    using r(2) by (auto simp: auth_view_of_def split: prod.splits)
qed

text \<open>A rejected MAC ends the function with only the header read.\<close>

lemma authenticate_rejected:
  assumes "80 \<le> length e"
    and "V w (auth_key e) (auth_header e) (drop 80 e) n (auth_tag e) = (False, w1)"
  shows "authenticate e ext n V P w = Some (Inl BBP_V2_AUTH_ERR_MAC, w1)"
  unfolding authenticate_def auth_size_values Let_def auth_reads [OF assms(1)] bind.bind_lunit assms(2)
  by simp

definition header_errors :: "bbp_v2_auth_status set" where
  "header_errors = {BBP_V2_AUTH_ERR_MAGIC, BBP_V2_AUTH_ERR_VERSION, BBP_V2_AUTH_ERR_ALGORITHM,
     BBP_V2_AUTH_ERR_FLAGS, BBP_V2_AUTH_ERR_EXTENT}"

lemma auth_parse_eq:
  assumes len: "min 80 (unat ext) \<le> length e"
  shows "if envelope_ok e ext
     then bbp_v2_auth_parse (Some e) ext (Some V) (Some P) True w = authenticate e ext (ext - 80) V P w
     else \<exists>err\<in>header_errors. bbp_v2_auth_parse (Some e) ext (Some V) (Some P) True w = Some (Inl err, w)"
proof (cases "80 \<le> unat ext \<and> unat ext \<le> 67108864 + 80")
  case False
  then have "\<not> envelope_ok e ext" by (auto simp: envelope_ok_def)
  moreover have "ext < BBP_V2_AUTH_HEADER_SIZE \<or> ext - BBP_V2_AUTH_HEADER_SIZE > BBP_V2_AUTH_MAX_CAPSULE_SIZE"
    using False by (cases "80 \<le> unat ext") (auto simp: auth_consts word_nat_simps unat_sub)
  ultimately show ?thesis by (auto simp: bbp_v2_auth_parse_def header_errors_def)
next
  case True
  then have x: "80 \<le> unat ext" "unat ext \<le> 67108864 + 80" by auto
  have u: "unat (ext - 80) = unat ext - 80" using auth_capsule_len [OF x(1)] .
  have e: "(ext < 80) = False" "(ext - BBP_V2_AUTH_HEADER_SIZE > BBP_V2_AUTH_MAX_CAPSULE_SIZE) = False"
    "BBP_V2_AUTH_HEADER_SIZE = 80" "BBP_V2_AUTH_VERSION = 1" "BBP_V2_AUTH_ALG_HMAC_SHA256 = 1"
    using x u by (auto simp: auth_consts word_nat_simps)
  have "length auth_magic = 8" by (simp add: auth_magic_def)
  then have magic: "bytes_equal e 0 auth_magic = Some (take 8 e = auth_magic)"
    using bytes_equal_eq [of 0 auth_magic e] len x by simp
  have g: "ne16 e 8 v = Some (le16_at e 8 \<noteq> v)" "ne16 e 10 v = Some (le16_at e 10 \<noteq> v)"
    "ne32 e 12 z = Some (le32_at e 12 \<noteq> z)" "get64 e 24 = Some (le64_at e 24)" for v z
    using len x by (simp_all add: ne_at get_at)
  have big: "ext - 80 > BBP_V2_AUTH_MAX_CAPSULE_SIZE \<longleftrightarrow> False" using e by simp
  show ?thesis
    unfolding bbp_v2_auth_parse_def envelope_ok_def
    using x by (auto simp: e magic g big header_errors_def)
qed

lemma auth_parse_ok_iff:
  assumes len: "unat ext \<le> length e"
  shows "bbp_v2_auth_parse (Some e) ext (Some V) (Some P) True w = Some (Inr v, w') \<longleftrightarrow>
    envelope_ok e ext \<and> v = auth_view_of e ext \<and> capsule_ok (drop 80 e) (ext - 80) \<and>
    (\<exists>w1. V w (auth_key e) (auth_header e) (drop 80 e) (ext - 80) (auth_tag e) = (True, w1) \<and>
       P w1 (le64_at e 16) (auth_key e) (view_of (drop 80 e) (ext - 80)) = (True, w'))"
proof -
  have readable: "min 80 (unat ext) \<le> length e" using len by simp
  show ?thesis
  proof (cases "envelope_ok e ext")
    case True
    then have "80 \<le> unat ext" by (simp add: envelope_ok_def)
    then show ?thesis
      using auth_parse_eq [OF readable, of V P w] True authenticate_eq [OF len, of V P w]
      by (auto split: prod.splits if_splits)
  next
    case False
    then show ?thesis using auth_parse_eq [OF readable, of V P w] by auto
  qed
qed

section \<open>Properties\<close>

text \<open>C28. Authenticated parsing is exact and ordered: an envelope is accepted if and only if its
  header is right, the MAC verifier (called first, on the header with a zeroed tag, the capsule and
  the tag) accepts, the capsule inside is well formed, and the policy (called last, on the parsed
  capsule and in the world the verifier left) accepts.\<close>

theorem auth_accepts_iff:
  assumes "unat ext \<le> length e"
  shows "bbp_v2_auth_parse (Some e) ext (Some V) (Some P) True w = Some (Inr v, w') \<longleftrightarrow>
    envelope_ok e ext \<and> v = auth_view_of e ext \<and> capsule_ok (drop 80 e) (ext - 80) \<and>
    (\<exists>w1. V w (auth_key e) (auth_header e) (drop 80 e) (ext - 80) (auth_tag e) = (True, w1) \<and>
       P w1 (le64_at e 16) (auth_key e) (view_of (drop 80 e) (ext - 80)) = (True, w'))"
  using auth_parse_ok_iff [OF assms] .

text \<open>C29. Nothing is interpreted before it is authenticated. A wrong header gives a header error in an
  untouched world: neither callback is called. If the header is right and the MAC verifier rejects, the
  result is the MAC error in the world the verifier left, even if not one byte of the capsule is
  readable: the capsule parser would fault on it, so it has not been started, and the policy has not been
  called. If the verifier accepts a capsule that is not well formed, the result is the capsule error in
  the same world: the policy has not been called on it.\<close>

theorem auth_mac_gates:
  assumes "80 \<le> length e"
    and "V w (auth_key e) (auth_header e) (drop 80 e) (ext - 80) (auth_tag e) = (ok, w1)"
  shows "(\<not> envelope_ok e ext \<longrightarrow>
      (\<exists>err\<in>header_errors. bbp_v2_auth_parse (Some e) ext (Some V) (Some P) True w = Some (Inl err, w))) \<and>
    (envelope_ok e ext \<and> \<not> ok \<longrightarrow>
      bbp_v2_auth_parse (Some e) ext (Some V) (Some P) True w = Some (Inl BBP_V2_AUTH_ERR_MAC, w1)) \<and>
    (envelope_ok e ext \<and> ok \<and> unat ext \<le> length e \<and> \<not> capsule_ok (drop 80 e) (ext - 80) \<longrightarrow>
      bbp_v2_auth_parse (Some e) ext (Some V) (Some P) True w = Some (Inl BBP_V2_AUTH_ERR_CAPSULE, w1))"
proof -
  have parse: "if envelope_ok e ext
     then bbp_v2_auth_parse (Some e) ext (Some V) (Some P) True w = authenticate e ext (ext - 80) V P w
     else \<exists>err\<in>header_errors. bbp_v2_auth_parse (Some e) ext (Some V) (Some P) True w = Some (Inl err, w)"
    using assms(1) by (intro auth_parse_eq) simp
  have "authenticate e ext (ext - 80) V P w = Some (Inl BBP_V2_AUTH_ERR_MAC, w1)" if "\<not> ok"
    using authenticate_rejected [OF assms(1)] assms(2) that by simp
  moreover have "authenticate e ext (ext - 80) V P w = Some (Inl BBP_V2_AUTH_ERR_CAPSULE, w1)"
    if "envelope_ok e ext" "ok" "unat ext \<le> length e" "\<not> capsule_ok (drop 80 e) (ext - 80)"
    using authenticate_eq [OF that(3), of V P w] that assms(2) by (simp add: envelope_ok_def)
  ultimately show ?thesis using parse by (cases "envelope_ok e ext") auto
qed

lemma auth_header_inject:
  fixes ext :: u64
  assumes "unat ext \<le> length e" "unat ext \<le> length f" "80 \<le> unat ext" "auth_header e = auth_header f"
    "auth_tag e = auth_tag f" "take (unat (ext - 80)) (drop 80 e) = take (unat (ext - 80)) (drop 80 f)"
  shows "take (unat ext) e = take (unat ext) f"
proof -
  have "take 48 e = take 48 f" using assms(4) by (simp add: auth_header_def)
  moreover have "slice e 48 32 = slice f 48 32" using assms(5) by (simp add: auth_tag_def)
  moreover have "slice e 80 (unat ext - 80) = slice f 80 (unat ext - 80)"
    using assms(6) auth_capsule_len [OF assms(3)] by (simp add: slice_def)
  moreover have "take (unat ext) g = take 48 g @ slice g 48 32 @ slice g 80 (unat ext - 80)" for g
    using slice_fields [of g 0 0 "[48, 32, unat ext - 80]"] assms(3) by (simp add: slice_def)
  ultimately show ?thesis by simp
qed

text \<open>Every byte is authenticated: let the verifier compare the tag with a MAC of header and
  capsule, as its interface demands. If two envelopes of the same size are accepted with the same tag
  then all their bytes are identical, or the two different messages authenticated under their keys
  are themselves a collision of the MAC.\<close>

theorem auth_binds_every_byte:
  assumes mac: "\<And>w k h c n t. V w k h c n t = (t = mac k (h @ take (unat n) c), w)"
    and "bbp_v2_auth_parse (Some e) ext (Some V) (Some P) True w = Some (Inr v, w')"
    and "bbp_v2_auth_parse (Some f) ext (Some V) (Some P) True u = Some (Inr y, u')"
    and len: "unat ext \<le> length e" "unat ext \<le> length f" and tag: "auth_tag e = auth_tag f"
  shows "take (unat ext) e = take (unat ext) f \<or>
    ((auth_key e, auth_message e ext) \<noteq> (auth_key f, auth_message f ext) \<and>
     mac (auth_key e) (auth_message e ext) = mac (auth_key f) (auth_message f ext))"
proof -
  let ?m = "\<lambda>g. auth_message g ext"
  have e: "envelope_ok e ext" "auth_tag e = mac (auth_key e) (?m e)"
    using assms(2) auth_parse_ok_iff [OF len(1), of V P w v w'] by (auto simp: mac auth_message_def)
  have f: "auth_tag f = mac (auth_key f) (?m f)"
    using assms(3) auth_parse_ok_iff [OF len(2), of V P u y u'] by (auto simp: mac auth_message_def)
  show ?thesis
  proof (cases "(auth_key e, ?m e) = (auth_key f, ?m f)")
    case True
    have x: "80 \<le> unat ext" using e(1) by (simp add: envelope_ok_def)
    have "length (auth_header e) = length (auth_header f)"
      using len x by (simp add: auth_header_def)
    with True have "auth_header e = auth_header f" "take (unat (ext - 80)) (drop 80 e) = take (unat (ext - 80)) (drop 80 f)"
      by (auto simp: auth_message_def)
    then show ?thesis using auth_header_inject [OF len x] tag by blast
  next
    case False
    then show ?thesis using e(2) f tag by simp
  qed
qed

section \<open>Witnesses\<close>

text \<open>An envelope around the demonstration capsule, with a verifier that compares the tag with a toy
  MAC and a policy that accepts.\<close>

definition demo_mac :: "u8 list \<Rightarrow> u8 list \<Rightarrow> u8 list" where
  "demo_mac k m = replicate 32 (if m = [] then 1 else 0)"

definition demo_verify :: "nat bbp_v2_auth_mac_verify_fn" where
  "demo_verify w k h c n t = (t = demo_mac k (h @ take (unat n) c), w)"

definition demo_policy :: "nat bbp_v2_auth_policy_fn" where
  "demo_policy w rb k v = (True, w + 1)"

definition demo_envelope :: "u8 list \<Rightarrow> u8 list" where
  "demo_envelope c = auth_magic @ put_le 2 (1 :: u16) @ put_le 2 (1 :: u16) @ put_le 4 (0 :: u32) @
     put_le 8 (5 :: u64) @ put_le 8 (115 :: u64) @ replicate 16 7 @ replicate 32 0 @ c"

lemma demo_envelope_ok:
  shows "envelope_ok (demo_envelope c) 195" "drop 80 (demo_envelope c) = c" "length (demo_envelope c) = 80 + length c"
    "auth_tag (demo_envelope c) = replicate 32 0"
proof -
  have m: "length auth_magic = 8" by (simp add: auth_magic_def)
  show "drop 80 (demo_envelope c) = c" "length (demo_envelope c) = 80 + length c"
    using m by (simp_all add: demo_envelope_def)
  show "auth_tag (demo_envelope c) = replicate 32 0"
    using m by (simp add: auth_tag_def demo_envelope_def slice_cat)
  have "take 8 (demo_envelope c) = auth_magic" using m by (simp add: demo_envelope_def)
  then show "envelope_ok (demo_envelope c) 195"
    using m by (simp add: envelope_ok_def le_at_slice demo_envelope_def slice_cat)
qed

lemma demo_accepted:
  obtains e v where "length e = 195"
    "bbp_v2_auth_parse (Some e) 195 (Some demo_verify) (Some demo_policy) True 0 = Some (Inr v, 1)"
proof -
  obtain c n where c: "length c = 115" "unat n = 115" "bbp_v2_parse (Some c) n True = Some (Inr (view_of c n))"
    by (rule demo_built [of 8]) auto
  have n: "n = 115" using c(2) by (simp add: word_unat_eq_iff)
  then have "capsule_ok c 115" using parse_spec [of n c] c by auto
  moreover have "(195 :: u64) - 80 = 115" by simp
  ultimately have "bbp_v2_auth_parse (Some (demo_envelope c)) 195 (Some demo_verify) (Some demo_policy) True 0 =
      Some (Inr (auth_view_of (demo_envelope c) 195), 1)"
    using demo_envelope_ok [of c] c(1)
    by (subst auth_parse_ok_iff) (simp_all add: demo_verify_def demo_policy_def demo_mac_def auth_header_def)
  then show thesis using that [of "demo_envelope c"] demo_envelope_ok(3) [of c] c(1) by simp
qed

theorem auth_accepts_iff_witness:
  "\<exists>e v. bbp_v2_auth_parse (Some e) 195 (Some demo_verify) (Some demo_policy) True 0 = Some (Inr v, 1) \<and>
     envelope_ok e 195 \<and> capsule_ok (drop 80 e) (195 - 80)"
proof -
  obtain e v where e: "length e = 195"
    "bbp_v2_auth_parse (Some e) 195 (Some demo_verify) (Some demo_policy) True 0 = Some (Inr v, 1)"
    by (rule demo_accepted)
  then show ?thesis using auth_accepts_iff [of 195 e demo_verify demo_policy 0 v 1] by auto
qed

text \<open>The verifier counts its calls in steps of ten and rejects the zero tag; of the envelope only the header
  is readable.\<close>

theorem auth_mac_gates_witness:
  "length (demo_envelope []) = 80 \<and> envelope_ok (demo_envelope []) 195 \<and>
   bbp_v2_auth_parse (Some (demo_envelope [])) 195 (Some (\<lambda>w k h c n t. (t = replicate 32 1, w + 10)))
     (Some demo_policy) True 0 = Some (Inl BBP_V2_AUTH_ERR_MAC, 10)"
  using auth_mac_gates [of "demo_envelope []" "\<lambda>w k h c n t. (t = replicate 32 1, w + 10)" 0 195 False 10 demo_policy]
    demo_envelope_ok [of "[]"]
  by simp

theorem auth_binds_every_byte_witness:
  "\<exists>e v. bbp_v2_auth_parse (Some e) 195 (Some demo_verify) (Some demo_policy) True 0 = Some (Inr v, 1) \<and>
     (take 195 e = take 195 e \<or>
      (auth_key e, auth_message e 195) \<noteq> (auth_key e, auth_message e 195) \<and>
      demo_mac (auth_key e) (auth_message e 195) = demo_mac (auth_key e) (auth_message e 195))"
proof -
  obtain e v where e: "length e = 195"
    "bbp_v2_auth_parse (Some e) 195 (Some demo_verify) (Some demo_policy) True 0 = Some (Inr v, 1)"
    by (rule demo_accepted)
  show ?thesis
    using auth_binds_every_byte [OF demo_verify_def e(2) e(2)] e by auto
qed

end
