(* ===== verification/V2_Profile.thy ===== *)
theory V2_Profile
  imports V2_Spec
begin

text \<open>
  Profile 0 of \<open>v2/bbp_v2_profile.c\<close>: the semantic check of the four mandatory entries of a parsed
  capsule. A view is given with a non-NULL data pointer.
\<close>

section \<open>Definitions\<close>

definition BBP_V2_P0_BOOT_IDENTITY :: u64 where "BBP_V2_P0_BOOT_IDENTITY = 0x4242503200000001"
definition BBP_V2_P0_MEMORY_MAP :: u64 where "BBP_V2_P0_MEMORY_MAP = 0x4242503200000002"
definition BBP_V2_P0_KERNEL_ADDRESS :: u64 where "BBP_V2_P0_KERNEL_ADDRESS = 0x4242503200000003"
definition BBP_V2_P0_DEVICETREE :: u64 where "BBP_V2_P0_DEVICETREE = 0x4242503200000004"
definition BBP_V2_P0_VERSION :: u16 where "BBP_V2_P0_VERSION = 1"

lemmas p0_consts = BBP_V2_P0_BOOT_IDENTITY_def BBP_V2_P0_MEMORY_MAP_def BBP_V2_P0_KERNEL_ADDRESS_def
  BBP_V2_P0_DEVICETREE_def BBP_V2_P0_VERSION_def

record bbp_v2_p0_view =
  p0_architecture :: u16
  p0_cpu_count :: u32
  p0_memory_entry_count :: u32
  p0_kernel_physical_base :: u64
  p0_kernel_virtual_base :: u64
  p0_dtb :: "u8 list option"
  p0_dtb_size :: u32

definition p0_zero :: bbp_v2_p0_view where
  "p0_zero = \<lparr>p0_architecture = 0, p0_cpu_count = 0, p0_memory_entry_count = 0,
     p0_kernel_physical_base = 0, p0_kernel_virtual_base = 0, p0_dtb = None, p0_dtb_size = 0\<rparr>"

text \<open>The 64-bit reader of this file joins two 32-bit reads.\<close>

definition p0_get64 :: "u8 list \<Rightarrow> nat \<Rightarrow> u64 option" where
  "p0_get64 p d = do {
     lo \<leftarrow> get32 p d;
     hi \<leftarrow> get32 p (d + 4);
     Some (ucast lo OR push_bit 32 (ucast hi))
   }"

definition p0_bit :: "u64 \<Rightarrow> u32" where
  "p0_bit type =
     (if type = BBP_V2_P0_BOOT_IDENTITY then 1
      else if type = BBP_V2_P0_MEMORY_MAP then 2
      else if type = BBP_V2_P0_KERNEL_ADDRESS then 4
      else if type = BBP_V2_P0_DEVICETREE then 8
      else 0)"

definition p0_identity ::
  "bbp_v2_entry_view \<Rightarrow> bbp_v2_p0_view \<Rightarrow> (bbp_v2_status + bbp_v2_p0_view) option" where
  "p0_identity entry result = do {
     bad \<leftarrow> sc_or (Some (e_size entry \<noteq> 16))
            (sc_or (ne16 (e_data entry) 2 0)
            (sc_or (ne32 (e_data entry) 8 0) (ne32 (e_data entry) 12 0)));
     if bad then Some (Inl BBP_V2_ERR_FORMAT)
     else do {
       arch \<leftarrow> get16 (e_data entry) 0;
       cpus \<leftarrow> get32 (e_data entry) 4;
       let result = result\<lparr>p0_architecture := arch, p0_cpu_count := cpus\<rparr>;
       if arch = 0 \<or> arch > 4 \<or> cpus = 0 then Some (Inl BBP_V2_ERR_FORMAT) else Some (Inr result)
     }
   }"

fun p0_memory_bad :: "u8 list \<Rightarrow> nat list \<Rightarrow> bool option" where
  "p0_memory_bad data [] = Some False"
| "p0_memory_bad data (j # js) = do {
     let memory = 8 + j * 32;
     base \<leftarrow> p0_get64 data memory;
     length \<leftarrow> p0_get64 data (memory + 8);
     bad \<leftarrow> sc_or (Some (length = 0 \<or> base > - 1 - length))
            (sc_or (map_option (\<lambda>t. t = 0) (get32 data (memory + 16))) (ne32 data (memory + 28) 0));
     if bad then Some True else p0_memory_bad data js
   }"

definition p0_memory ::
  "bbp_v2_entry_view \<Rightarrow> bbp_v2_p0_view \<Rightarrow> (bbp_v2_status + bbp_v2_p0_view) option" where
  "p0_memory entry result =
     (if e_size entry < 8 then Some (Inl BBP_V2_ERR_FORMAT)
      else do {
        count \<leftarrow> get32 (e_data entry) 0;
        bad \<leftarrow> sc_or (Some (count = 0 \<or> count > 4096))
               (sc_or (ne32 (e_data entry) 4 32) (Some (ucast count * 32 \<noteq> e_size entry - 8)));
        if bad then Some (Inl BBP_V2_ERR_FORMAT)
        else do {
          bad \<leftarrow> p0_memory_bad (e_data entry) [0..<unat count];
          if bad then Some (Inl BBP_V2_ERR_FORMAT)
          else Some (Inr (result\<lparr>p0_memory_entry_count := count\<rparr>))
        }
      })"

definition p0_kernel ::
  "bbp_v2_entry_view \<Rightarrow> bbp_v2_p0_view \<Rightarrow> (bbp_v2_status + bbp_v2_p0_view) option" where
  "p0_kernel entry result =
     (if e_size entry \<noteq> 16 then Some (Inl BBP_V2_ERR_FORMAT)
      else do {
        phys \<leftarrow> p0_get64 (e_data entry) 0;
        virt \<leftarrow> p0_get64 (e_data entry) 8;
        let result = result\<lparr>p0_kernel_physical_base := phys, p0_kernel_virtual_base := virt\<rparr>;
        if phys = 0 then Some (Inl BBP_V2_ERR_FORMAT) else Some (Inr result)
      })"

definition p0_devicetree ::
  "bbp_v2_entry_view \<Rightarrow> bbp_v2_p0_view \<Rightarrow> (bbp_v2_status + bbp_v2_p0_view) option" where
  "p0_devicetree entry result = do {
     bad \<leftarrow> sc_or (Some (e_size entry \<le> 8)) (ne32 (e_data entry) 0 0);
     if bad then Some (Inl BBP_V2_ERR_FORMAT)
     else do {
       size \<leftarrow> get32 (e_data entry) 4;
       if ucast size \<noteq> e_size entry - 8 then Some (Inl BBP_V2_ERR_FORMAT)
       else Some (Inr (result\<lparr>p0_dtb := Some (drop 8 (e_data entry)), p0_dtb_size := size\<rparr>))
     }
   }"

text \<open>One iteration of the loop over the entries; the state is \<open>(result, seen)\<close>.\<close>

definition p0_entry ::
  "bbp_v2_view \<Rightarrow> nat \<Rightarrow> bbp_v2_p0_view \<times> u32 \<Rightarrow> (bbp_v2_status + bbp_v2_p0_view \<times> u32) option" where
  "p0_entry capsule i st = (let (result, seen) = st in do {
     r \<leftarrow> bbp_v2_get_entry (Some capsule) (of_nat i) True;
     case r of
       Inl status \<Rightarrow> Some (Inl status)
     | Inr entry \<Rightarrow>
         let bit = p0_bit (e_type entry) in
         if bit = 0 then Some (Inr st)
         else if seen AND bit \<noteq> 0 \<or> e_version entry \<noteq> BBP_V2_P0_VERSION \<or> e_flags entry \<noteq> 0
         then Some (Inl BBP_V2_ERR_FORMAT)
         else do {
           r \<leftarrow> (if bit = 1 then p0_identity entry result
                else if bit = 2 then p0_memory entry result
                else if bit = 4 then p0_kernel entry result
                else p0_devicetree entry result);
           Some (map_sum id (\<lambda>result. (result, seen OR bit)) r)
         }
   })"

fun p0_loop ::
  "bbp_v2_view \<Rightarrow> nat list \<Rightarrow> bbp_v2_p0_view \<times> u32 \<Rightarrow> (bbp_v2_status + bbp_v2_p0_view \<times> u32) option" where
  "p0_loop capsule [] st = Some (Inr st)"
| "p0_loop capsule (i # is) st = do {
     r \<leftarrow> p0_entry capsule i st;
     case r of Inl status \<Rightarrow> Some (Inl status) | Inr st \<Rightarrow> p0_loop capsule is st
   }"

definition bbp_v2_p0_validate ::
  "bbp_v2_view option \<Rightarrow> bool \<Rightarrow> (bbp_v2_status + bbp_v2_p0_view) option" where
  "bbp_v2_p0_validate cp out =
     (case cp of
        None \<Rightarrow> Some (Inl BBP_V2_ERR_NULL)
      | Some capsule \<Rightarrow>
          if \<not> out then Some (Inl BBP_V2_ERR_NULL)
          else do {
            r \<leftarrow> p0_loop capsule [0..<unat (v_entry_count capsule)] (p0_zero, 0);
            case r of
              Inl status \<Rightarrow> Some (Inl status)
            | Inr (result, seen) \<Rightarrow>
                if seen \<noteq> 15 then Some (Inl BBP_V2_ERR_FORMAT) else Some (Inr result)
          })"

section \<open>The 64-bit reader\<close>

lemma p0_get64_eq:
  assumes "d + 8 \<le> length p"
  shows "p0_get64 p d = Some (le64_at p d)"
proof -
  have "ucast (le32_at p d) OR push_bit 32 (ucast (le32_at p (d + 4))) = le64_at p d"
  proof (rule bit_word_eqI)
    fix n assume "n < LENGTH(64)"
    then have n: "n < 64" by simp
    have le64: "bit (le64_at p d) n = bit (p ! (d + n div 8)) (n mod 8)"
      using assms n by (auto simp: le64_at_def codec_simps)
    show "bit (ucast (le32_at p d) OR push_bit 32 (ucast (le32_at p (d + 4))) :: u64) n = bit (le64_at p d) n"
    proof (cases "n < 32")
      case True
      then show ?thesis using assms n unfolding le64 by (auto simp: bit_simps le32_at_def codec_simps)
    next
      case False
      then obtain m where m: "n = 32 + m" by (metis le_add_diff_inverse not_less)
      have "n div 8 = 4 + m div 8" "n mod 8 = m mod 8" using m by presburger+
      then show ?thesis
        using assms n m unfolding le64 by (auto simp: bit_simps le32_at_def codec_simps add.assoc)
    qed
  qed
  then show ?thesis using assms by (simp add: p0_get64_def get_at)
qed

section \<open>What a profile 0 capsule is\<close>

definition entry_payload :: "bbp_v2_entry_view \<Rightarrow> u8 list" where
  "entry_payload e = take (unat (e_size e)) (e_data e)"

definition identity_ok :: "u8 list \<Rightarrow> bool" where
  "identity_ok d \<longleftrightarrow> length d = 16 \<and> le16_at d 2 = 0 \<and> le32_at d 8 = 0 \<and> le32_at d 12 = 0 \<and>
     1 \<le> le16_at d 0 \<and> le16_at d 0 \<le> 4 \<and> le32_at d 4 \<noteq> 0"

definition memory_range_ok :: "u8 list \<Rightarrow> nat \<Rightarrow> bool" where
  "memory_range_ok d j \<longleftrightarrow> le64_at d (8 + j * 32 + 8) \<noteq> 0 \<and>
     unat (le64_at d (8 + j * 32)) + unat (le64_at d (8 + j * 32 + 8)) < 2 ^ 64 \<and>
     le32_at d (8 + j * 32 + 16) \<noteq> 0 \<and> le32_at d (8 + j * 32 + 28) = 0"

definition memory_map_ok :: "u8 list \<Rightarrow> bool" where
  "memory_map_ok d \<longleftrightarrow> (let c = unat (le32_at d 0) in 8 \<le> length d \<and> 1 \<le> c \<and> c \<le> 4096 \<and>
     le32_at d 4 = 32 \<and> length d = 8 + 32 * c \<and> (\<forall>j<c. memory_range_ok d j))"

definition kernel_address_ok :: "u8 list \<Rightarrow> bool" where
  "kernel_address_ok d \<longleftrightarrow> length d = 16 \<and> le64_at d 0 \<noteq> 0"

definition devicetree_ok :: "u8 list \<Rightarrow> bool" where
  "devicetree_ok d \<longleftrightarrow> 8 < length d \<and> le32_at d 0 = 0 \<and> unat (le32_at d 4) = length d - 8"

definition p0_payload_ok :: "u32 \<Rightarrow> u8 list \<Rightarrow> bool" where
  "p0_payload_ok b d = (if b = 1 then identity_ok d else if b = 2 then memory_map_ok d
     else if b = 4 then kernel_address_ok d else devicetree_ok d)"

definition p0_entry_ok :: "bbp_v2_entry_view \<Rightarrow> bool" where
  "p0_entry_ok e \<longleftrightarrow> e_version e = 1 \<and> e_flags e = 0 \<and> p0_payload_ok (p0_bit (e_type e)) (entry_payload e)"

definition p0_update :: "bbp_v2_entry_view \<Rightarrow> bbp_v2_p0_view \<Rightarrow> bbp_v2_p0_view" where
  "p0_update e r = (let d = entry_payload e; bit = p0_bit (e_type e) in
     if bit = 1 then r\<lparr>p0_architecture := le16_at d 0, p0_cpu_count := le32_at d 4\<rparr>
     else if bit = 2 then r\<lparr>p0_memory_entry_count := le32_at d 0\<rparr>
     else if bit = 4 then r\<lparr>p0_kernel_physical_base := le64_at d 0, p0_kernel_virtual_base := le64_at d 8\<rparr>
     else if bit = 8 then r\<lparr>p0_dtb := Some (drop 8 (e_data e)), p0_dtb_size := le32_at d 4\<rparr> else r)"

section \<open>The checks on one entry\<close>

lemma le_at_take:
  "d + 2 \<le> n \<Longrightarrow> le16_at (take n p) d = le16_at p d" "d + 4 \<le> n \<Longrightarrow> le32_at (take n p) d = le32_at p d"
  "d + 8 \<le> n \<Longrightarrow> le64_at (take n p) d = le64_at p d"
  by (simp_all add: le16_at_def le32_at_def le64_at_def drop_take min_absorb1)

lemma p0_identity_eq:
  assumes "unat (e_size e) \<le> length (e_data e)" "p0_bit (e_type e) = 1"
  shows "p0_identity e r = Some (if identity_ok (entry_payload e) then Inr (p0_update e r) else Inl BBP_V2_ERR_FORMAT)"
proof (cases "e_size e = 16")
  case True
  have "1 \<le> v \<longleftrightarrow> v \<noteq> 0" for v :: u16 by (simp add: word_le_nat_alt Suc_le_eq unat_gt_0)
  moreover have "length (entry_payload e) = 16" using True assms(1) by (simp add: entry_payload_def)
  ultimately show ?thesis
    using True assms
    by (auto simp: p0_identity_def ne_at get_at identity_ok_def entry_payload_def le_at_take p0_update_def
        Let_def not_less)
next
  case False
  then have "length (entry_payload e) \<noteq> 16"
    using assms(1) by (auto simp: entry_payload_def word_unat_eq_iff)
  with False show ?thesis by (simp add: p0_identity_def identity_ok_def sc_or_def)
qed

lemma p0_memory_bad_eq:
  assumes "\<forall>j\<in>set js. 8 + j * 32 + 32 \<le> length d"
  shows "p0_memory_bad d js = Some (\<not> (\<forall>j\<in>set js. memory_range_ok d j))"
  using assms
proof (induction js)
  case (Cons j js)
  define m where "m = 8 + j * 32"
  define b where "b = le64_at d m"
  define l where "l = le64_at d (m + 8)"
  have m: "m + 32 \<le> length d" using Cons.prems by (simp add: m_def)
  have "b > - 1 - l \<longleftrightarrow> \<not> unat b + unat l < 2 ^ 64" using unat_le_max_minus [of l b] by blast
  then have "memory_range_ok d j \<longleftrightarrow>
      \<not> (l = 0 \<or> b > - 1 - l \<or> le32_at d (m + 16) = 0 \<or> le32_at d (m + 28) \<noteq> 0)"
    unfolding memory_range_ok_def m_def [symmetric] b_def [symmetric] l_def [symmetric] by blast
  then show ?case
    using Cons m by (auto simp: m_def [symmetric] p0_get64_eq get_at ne_at Let_def b_def l_def)
qed simp

lemma p0_memory_eq:
  assumes "unat (e_size e) \<le> length (e_data e)" "p0_bit (e_type e) = 2"
  shows "p0_memory e r = Some (if memory_map_ok (entry_payload e) then Inr (p0_update e r) else Inl BBP_V2_ERR_FORMAT)"
proof (cases "e_size e < 8")
  case True
  then have "\<not> 8 \<le> length (entry_payload e)"
    using assms(1) by (simp add: entry_payload_def word_less_nat_alt)
  with True show ?thesis by (simp add: p0_memory_def memory_map_ok_def Let_def)
next
  case False
  define d where "d = entry_payload e"
  define c where "c = le32_at (e_data e) 0"
  have len: "length d = unat (e_size e)" "8 \<le> length d"
    using assms(1) False by (auto simp: d_def entry_payload_def word_nat_simps)
  have dc: "le32_at d 0 = c" "le32_at d 4 = le32_at (e_data e) 4"
    using len by (simp_all add: d_def entry_payload_def c_def le_at_take)
  have sz: "unat (e_size e - 8) = length d - 8"
    using len by (simp add: unat_sub word_le_nat_alt)
  show ?thesis
  proof (cases "c = 0 \<or> c > 4096 \<or> le32_at (e_data e) 4 \<noteq> 32 \<or> ucast c * 32 \<noteq> e_size e - 8")
    case True
    have "\<not> memory_map_ok d"
    proof
      assume ok: "memory_map_ok d"
      then have "1 \<le> unat c" "unat c \<le> 4096" "le32_at (e_data e) 4 = 32" "length d = 8 + 32 * unat c"
        by (simp_all add: memory_map_ok_def Let_def dc)
      moreover from this have "unat (ucast c * 32 :: u64) = 32 * unat c"
        by (simp add: unat_word_ariths unat_ucast_u32)
      ultimately show False using True sz by (auto simp: word_nat_simps word_unat_eq_iff)
    qed
    with True False len show ?thesis
      using assms(1) by (auto simp: p0_memory_def get_at ne_at c_def [symmetric] d_def [symmetric])
  next
    case ok: False
    then have c: "1 \<le> unat c" "unat c \<le> 4096" "le32_at (e_data e) 4 = 32"
      by (auto simp: word_nat_simps Suc_le_eq unat_gt_0)
    have "unat (ucast c * 32 :: u64) = 32 * unat c"
      using c by (simp add: unat_word_ariths unat_ucast_u32)
    then have ld: "length d = 8 + 32 * unat c" using ok sz len by simp
    have rng: "memory_range_ok (e_data e) j \<longleftrightarrow> memory_range_ok d j" if "j < unat c" for j
    proof -
      have "8 + j * 32 + 32 \<le> unat (e_size e)" using that ld len by simp
      then show ?thesis by (simp add: memory_range_ok_def d_def entry_payload_def le_at_take)
    qed
    have "\<forall>j\<in>set [0..<unat c]. 8 + j * 32 + 32 \<le> length (e_data e)"
      using ld len assms(1) by auto
    then have "p0_memory_bad (e_data e) [0..<unat c] = Some (\<not> (\<forall>j<unat c. memory_range_ok d j))"
      using rng by (subst p0_memory_bad_eq) auto
    moreover have "memory_map_ok d \<longleftrightarrow> (\<forall>j<unat c. memory_range_ok d j)"
      using c ld by (simp add: memory_map_ok_def Let_def dc)
    moreover have "p0_update e r = r\<lparr>p0_memory_entry_count := c\<rparr>"
      using dc by (simp add: p0_update_def assms(2) d_def)
    ultimately show ?thesis
      using False ok assms(1) len c by (auto simp: p0_memory_def get_at ne_at c_def [symmetric] d_def [symmetric])
  qed
qed

lemma p0_kernel_eq:
  assumes "unat (e_size e) \<le> length (e_data e)" "p0_bit (e_type e) = 4"
  shows "p0_kernel e r = Some (if kernel_address_ok (entry_payload e) then Inr (p0_update e r) else Inl BBP_V2_ERR_FORMAT)"
proof (cases "e_size e = 16")
  case True
  then show ?thesis
    using assms by (simp add: p0_kernel_def p0_get64_eq kernel_address_ok_def entry_payload_def le_at_take p0_update_def Let_def)
next
  case False
  then have "length (entry_payload e) \<noteq> 16"
    using assms(1) by (auto simp: entry_payload_def word_unat_eq_iff)
  with False show ?thesis by (simp add: p0_kernel_def kernel_address_ok_def)
qed

lemma p0_devicetree_eq:
  assumes "unat (e_size e) \<le> length (e_data e)" "p0_bit (e_type e) = 8"
  shows "p0_devicetree e r = Some (if devicetree_ok (entry_payload e) then Inr (p0_update e r) else Inl BBP_V2_ERR_FORMAT)"
proof (cases "e_size e \<le> 8")
  case True
  then have "\<not> 8 < length (entry_payload e)"
    using assms(1) by (simp add: entry_payload_def word_le_nat_alt)
  with True show ?thesis by (simp add: p0_devicetree_def devicetree_ok_def sc_or_def)
next
  case False
  then have len: "8 < unat (e_size e)" by (simp add: word_nat_simps)
  then have sz: "unat (e_size e - 8) = unat (e_size e) - 8"
    by (simp add: unat_sub word_le_nat_alt)
  have "(ucast s :: u64) = e_size e - 8 \<longleftrightarrow> unat s = unat (e_size e) - 8" for s :: u32
    by (simp add: word_unat_eq_iff sz unat_ucast_u32)
  then show ?thesis
    using assms len False
    by (auto simp: p0_devicetree_def ne_at get_at devicetree_ok_def entry_payload_def le_at_take p0_update_def Let_def)
qed

section \<open>The loop\<close>

lemma p0_bit_cases: "p0_bit t = 0 \<or> p0_bit t = 1 \<or> p0_bit t = 2 \<or> p0_bit t = 4 \<or> p0_bit t = 8"
  by (simp add: p0_bit_def)

text \<open>The set of kinds seen so far as the bit mask the code keeps.\<close>

definition seen_mask :: "u32 set \<Rightarrow> u32" where
  "seen_mask S = (if 1 \<in> S then 1 else 0) OR (if 2 \<in> S then 2 else 0) OR (if 4 \<in> S then 4 else 0) OR
     (if 8 \<in> S then 8 else 0)"

lemma seen_mask_test:
  assumes "b = 1 \<or> b = 2 \<or> b = 4 \<or> b = 8"
  shows "seen_mask S AND b \<noteq> 0 \<longleftrightarrow> b \<in> S" "seen_mask S OR b = seen_mask (insert b S)"
  using assms unfolding seen_mask_def
  by (elim disjE; cases "1 \<in> S"; cases "2 \<in> S"; cases "4 \<in> S"; cases "8 \<in> S"; simp)+

lemma seen_mask_full: "seen_mask S = 15 \<longleftrightarrow> {1, 2, 4, 8} \<subseteq> S"
  unfolding seen_mask_def
  by (cases "1 \<in> S"; cases "2 \<in> S"; cases "4 \<in> S"; cases "8 \<in> S"; simp)

abbreviation known :: "bbp_v2_entry_view \<Rightarrow> bool" where "known e \<equiv> p0_bit (e_type e) \<noteq> 0"

lemma p0_entry_eq:
  assumes ok: "capsule_ok p n" and len: "unat n \<le> length p" and i: "i < unat (cnt_at p)"
  defines "e \<equiv> entry_at p i"
  shows "p0_entry (view_of p n) i (r, seen_mask S) = Some (if \<not> known e then Inr (r, seen_mask S)
    else if p0_bit (e_type e) \<in> S \<or> \<not> p0_entry_ok e then Inl BBP_V2_ERR_FORMAT
    else Inr (p0_update e r, seen_mask (insert (p0_bit (e_type e)) S)))"
proof -
  have u: "unat (of_nat i :: u32) = i"
    using i unat_u32_less [of "cnt_at p"] by (intro unat_of_nat_u32) simp
  have get: "bbp_v2_get_entry (Some (view_of p n)) (of_nat i) True = Some (Inr e)"
    using get_entry_ok [OF ok len, of "of_nat i"] u i by (simp add: e_def)
  have sz: "unat (e_size e) \<le> length (e_data e)"
    using capsule_payload_length [OF ok len i] by (simp add: e_def entry_at_def Let_def payload_at_def esize_def)
  consider (no) "p0_bit (e_type e) = 0" | (yes) "p0_bit (e_type e) = 1 \<or> p0_bit (e_type e) = 2 \<or>
      p0_bit (e_type e) = 4 \<or> p0_bit (e_type e) = 8" using p0_bit_cases by blast
  then show ?thesis
  proof cases
    case no
    then show ?thesis by (simp add: p0_entry_def get)
  next
    case yes
    note m = seen_mask_test [OF yes, of S]
    show ?thesis
    proof (cases "p0_bit (e_type e) \<in> S \<or> e_version e \<noteq> 1 \<or> e_flags e \<noteq> 0")
      case True
      with yes m(1) show ?thesis by (auto simp: p0_entry_def get p0_consts p0_entry_ok_def)
    next
      case False
      with yes m sz show ?thesis
        by (elim disjE) (simp_all add: p0_entry_def get p0_consts p0_entry_ok_def p0_payload_ok_def Let_def
          p0_identity_eq p0_memory_eq p0_kernel_eq p0_devicetree_eq)
    qed
  qed
qed

text \<open>The entries seen are distinct in kind and each is valid.\<close>

fun p0_walk :: "bbp_v2_entry_view list \<Rightarrow> u32 set \<Rightarrow> bbp_v2_p0_view \<Rightarrow> (bbp_v2_p0_view \<times> u32 set) option" where
  "p0_walk [] S r = Some (r, S)"
| "p0_walk (e # es) S r = (if \<not> known e then p0_walk es S r
     else if p0_bit (e_type e) \<in> S \<or> \<not> p0_entry_ok e then None
     else p0_walk es (insert (p0_bit (e_type e)) S) (p0_update e r))"

lemma p0_loop_eq:
  assumes "capsule_ok p n" "unat n \<le> length p"
  shows "\<forall>i\<in>set is. i < unat (cnt_at p) \<Longrightarrow> p0_loop (view_of p n) is (r, seen_mask S) =
    Some (case p0_walk (map (entry_at p) is) S r of None \<Rightarrow> Inl BBP_V2_ERR_FORMAT
      | Some (r', S') \<Rightarrow> Inr (r', seen_mask S'))"
proof (induction "is" arbitrary: r S)
  case (Cons i "is")
  then show ?case by (simp add: p0_entry_eq [OF assms])
qed simp

lemma p0_walk_iff:
  "p0_walk es S r = Some (r', S') \<longleftrightarrow>
    (\<forall>e\<in>set es. known e \<longrightarrow> p0_entry_ok e \<and> p0_bit (e_type e) \<notin> S) \<and>
    distinct (map (\<lambda>e. p0_bit (e_type e)) (filter known es)) \<and>
    S' = S \<union> (\<lambda>e. p0_bit (e_type e)) ` set (filter known es) \<and> r' = fold p0_update (filter known es) r"
proof (induction es arbitrary: S r)
  case (Cons e es)
  let ?k = "p0_bit (e_type e)"
  show ?case
  proof (cases "known e")
    case False
    then show ?thesis using Cons by simp
  next
    case True
    show ?thesis
    proof (cases "?k \<in> S \<or> \<not> p0_entry_ok e")
      case bad: True
      then show ?thesis using True by auto
    next
      case ok: False
      have eq: "p0_walk (e # es) S r = p0_walk es (insert ?k S) (p0_update e r)" using True ok by simp
      show ?thesis
        unfolding eq Cons.IH using True ok by (auto simp: image_iff)
    qed
  qed
qed auto

section \<open>Properties\<close>

text \<open>The entries of an accepted capsule in directory order.\<close>

definition entries_of :: "u8 list \<Rightarrow> bbp_v2_entry_view list" where
  "entries_of p = map (entry_at p) [0..<unat (cnt_at p)]"

definition profile_ok :: "bbp_v2_entry_view list \<Rightarrow> bool" where
  "profile_ok es \<longleftrightarrow> (\<forall>e\<in>set es. known e \<longrightarrow> p0_entry_ok e) \<and>
     (\<forall>b\<in>{1, 2, 4, 8}. length (filter (\<lambda>e. p0_bit (e_type e) = b) es) = 1)"

lemma count_list_kinds:
  "b \<noteq> 0 \<Longrightarrow> count_list (map (\<lambda>e. p0_bit (e_type e)) (filter known es)) b =
     length (filter (\<lambda>e. p0_bit (e_type e) = b) es)"
  by (induction es) auto

lemma distinct_count_list: "distinct xs \<longleftrightarrow> (\<forall>x. count_list xs x \<le> 1)"
proof (induction xs)
  case (Cons y ys)
  have "(\<forall>x. count_list (y # ys) x \<le> 1) \<longleftrightarrow> count_list ys y = 0 \<and> (\<forall>x. count_list ys x \<le> 1)"
  proof (intro iffI conjI allI)
    assume a: "\<forall>x. count_list (y # ys) x \<le> 1"
    show "count_list ys y = 0" using a [rule_format, of y] by simp
    show "count_list ys x \<le> 1" for x using a [rule_format, of x] by (auto split: if_splits)
  next
    fix x assume "count_list ys y = 0 \<and> (\<forall>x. count_list ys x \<le> 1)"
    then show "count_list (y # ys) x \<le> 1" by auto
  qed
  then show ?case using Cons by (simp add: count_list_0_iff)
qed simp

lemma kinds_once:
  "distinct (map (\<lambda>e. p0_bit (e_type e)) (filter known es)) \<and>
   {1, 2, 4, 8} \<subseteq> (\<lambda>e. p0_bit (e_type e)) ` set (filter known es) \<longleftrightarrow>
   (\<forall>b\<in>{1, 2, 4, 8}. length (filter (\<lambda>e. p0_bit (e_type e) = b) es) = 1)"
proof -
  define ks where "ks = map (\<lambda>e. p0_bit (e_type e)) (filter known es)"
  have sub: "set ks \<subseteq> {1, 2, 4, 8}" using p0_bit_cases by (auto simp: ks_def)
  have "distinct ks \<and> {1, 2, 4, 8} \<subseteq> set ks \<longleftrightarrow> (\<forall>b\<in>{1, 2, 4, 8}. count_list ks b = 1)"
  proof
    assume a: "distinct ks \<and> {1, 2, 4, 8} \<subseteq> set ks"
    show "\<forall>b\<in>{1, 2, 4, 8}. count_list ks b = 1"
    proof
      fix b :: u32 assume "b \<in> {1, 2, 4, 8}"
      then have "b \<in> set ks" using a by blast
      then have "count_list ks b \<noteq> 0" by (simp add: count_list_0_iff)
      moreover have "count_list ks b \<le> 1" using a by (simp add: distinct_count_list)
      ultimately show "count_list ks b = 1" by simp
    qed
  next
    assume once: "\<forall>b\<in>{1, 2, 4, 8}. count_list ks b = 1"
    have "{1, 2, 4, 8} \<subseteq> set ks"
    proof
      fix b :: u32 assume "b \<in> {1, 2, 4, 8}"
      then have "count_list ks b = 1" using once by blast
      then show "b \<in> set ks" by (metis count_notin zero_neq_one)
    qed
    moreover have "count_list ks x \<le> 1" for x
      using once sub by (cases "x \<in> set ks") auto
    ultimately show "distinct ks \<and> {1, 2, 4, 8} \<subseteq> set ks"
      by (simp add: distinct_count_list)
  qed
  moreover have "count_list ks b = length (filter (\<lambda>e. p0_bit (e_type e) = b) es)" if "b \<in> {1, 2, 4, 8}" for b
    using count_list_kinds [of b es] that by (auto simp: ks_def)
  ultimately show ?thesis by (simp add: ks_def)
qed

lemma p0_validate_eq:
  assumes ok: "capsule_ok p n" and len: "unat n \<le> length p"
  shows "bbp_v2_p0_validate (Some (view_of p n)) True = Some (if profile_ok (entries_of p)
    then Inr (fold p0_update (filter known (entries_of p)) p0_zero) else Inl BBP_V2_ERR_FORMAT)"
proof -
  have m0: "(0 :: u32) = seen_mask {}" by (simp add: seen_mask_def)
  have vc: "v_entry_count (view_of p n) = cnt_at p" by (simp add: view_of_def)
  have loop: "p0_loop (view_of p n) [0..<unat (cnt_at p)] (p0_zero, 0) =
    Some (case p0_walk (entries_of p) {} p0_zero of None \<Rightarrow> Inl BBP_V2_ERR_FORMAT
      | Some (r', S') \<Rightarrow> Inr (r', seen_mask S'))"
    unfolding m0 entries_of_def by (rule p0_loop_eq [OF ok len]) simp
  show ?thesis
  proof (cases "p0_walk (entries_of p) {} p0_zero")
    case None
    then have "\<not> profile_ok (entries_of p)"
      using p0_walk_iff [of "entries_of p" "{}" p0_zero] kinds_once [of "entries_of p"]
      by (auto simp: profile_ok_def)
    then show ?thesis by (simp add: bbp_v2_p0_validate_def vc loop None)
  next
    case (Some rS)
    obtain r S where rS: "rS = (r, S)" by (cases rS)
    have w: "\<forall>e\<in>set (entries_of p). known e \<longrightarrow> p0_entry_ok e"
      "distinct (map (\<lambda>e. p0_bit (e_type e)) (filter known (entries_of p)))"
      "S = (\<lambda>e. p0_bit (e_type e)) ` set (filter known (entries_of p))"
      "r = fold p0_update (filter known (entries_of p)) p0_zero"
      using p0_walk_iff [of "entries_of p" "{}" p0_zero r S] Some rS by auto
    have "profile_ok (entries_of p) \<longleftrightarrow> seen_mask S = 15"
      unfolding profile_ok_def seen_mask_full kinds_once [symmetric] w(3) using w(1,2) by blast
    then show ?thesis by (simp add: bbp_v2_p0_validate_def vc loop Some rS w(4))
  qed
qed

lemma fold_update_once:
  assumes "profile_ok es" "e \<in> set es" "known e"
    and "\<And>x r. p0_bit (e_type x) \<noteq> p0_bit (e_type e) \<Longrightarrow> f (p0_update x r) = f r"
    and "\<And>r. f (p0_update e r) = v"
  shows "f (fold p0_update (filter known es) r) = v"
proof -
  obtain as bs where es: "es = as @ e # bs" using assms(2) by (auto simp: in_set_conv_decomp)
  have "p0_bit (e_type e) \<in> {1, 2, 4, 8}" using p0_bit_cases [of "e_type e"] assms(3) by auto
  then have "length (filter (\<lambda>x. p0_bit (e_type x) = p0_bit (e_type e)) es) = 1"
    using assms(1) by (simp only: profile_ok_def)
  then have "filter (\<lambda>x. p0_bit (e_type x) = p0_bit (e_type e)) bs = []"
    by (simp add: es)
  then have "\<forall>x\<in>set bs. p0_bit (e_type x) \<noteq> p0_bit (e_type e)" by (simp add: filter_empty_conv)
  then have "f (fold p0_update (filter known bs) r') = f r'" for r'
    using assms(4) by (induction bs arbitrary: r') auto
  then show ?thesis using assms(3,5) by (simp add: es)
qed

text \<open>C30. Profile 0 validation is exact: on a capsule the parser accepted it never faults, and it
  succeeds if and only if there is exactly one entry of each of the four mandatory kinds and each
  has version 1, no flags and a payload that is valid for its kind.\<close>

theorem p0_validate_accepts_iff:
  assumes "bbp_v2_parse (Some p) n True = Some (Inr v)" "unat n \<le> length p"
  shows "((\<exists>r. bbp_v2_p0_validate (Some v) True = Some (Inr r)) \<longleftrightarrow> profile_ok (entries_of p)) \<and>
    bbp_v2_p0_validate (Some v) out \<noteq> None"
proof -
  have ok: "capsule_ok p n" "v = view_of p n" using parse_spec [OF assms(2)] assms(1) by auto
  then show ?thesis
    using p0_validate_eq [OF ok(1) assms(2)] by (cases out) (auto simp: bbp_v2_p0_validate_def)
qed

text \<open>The profile view reports the capsule's own data: architecture and processor count of the
  identity entry, the entry count of the memory map, both kernel bases, and the device tree with its
  size.\<close>

theorem p0_view_reports:
  assumes "bbp_v2_parse (Some p) n True = Some (Inr v)" "unat n \<le> length p"
    and "bbp_v2_p0_validate (Some v) True = Some (Inr r)" and "e \<in> set (entries_of p)"
  shows "(e_type e = BBP_V2_P0_BOOT_IDENTITY \<longrightarrow> p0_architecture r = le16_at (entry_payload e) 0 \<and>
       p0_cpu_count r = le32_at (entry_payload e) 4) \<and>
    (e_type e = BBP_V2_P0_MEMORY_MAP \<longrightarrow> p0_memory_entry_count r = le32_at (entry_payload e) 0) \<and>
    (e_type e = BBP_V2_P0_KERNEL_ADDRESS \<longrightarrow> p0_kernel_physical_base r = le64_at (entry_payload e) 0 \<and>
       p0_kernel_virtual_base r = le64_at (entry_payload e) 8) \<and>
    (e_type e = BBP_V2_P0_DEVICETREE \<longrightarrow> p0_dtb r = Some (drop 8 (e_data e)) \<and>
       p0_dtb_size r = le32_at (entry_payload e) 4)"
proof -
  have ok: "capsule_ok p n" "v = view_of p n" using parse_spec [OF assms(2)] assms(1) by auto
  have r: "profile_ok (entries_of p)" "r = fold p0_update (filter known (entries_of p)) p0_zero"
    using p0_validate_eq [OF ok(1) assms(2)] ok(2) assms(3) by (auto split: if_splits)
  note once = fold_update_once [OF r(1) assms(4), of _ _ p0_zero, folded r(2)]
  have upd: "p0_bit (e_type x) \<noteq> 1 \<Longrightarrow> p0_architecture (p0_update x q) = p0_architecture q"
    "p0_bit (e_type x) \<noteq> 1 \<Longrightarrow> p0_cpu_count (p0_update x q) = p0_cpu_count q"
    "p0_bit (e_type x) \<noteq> 2 \<Longrightarrow> p0_memory_entry_count (p0_update x q) = p0_memory_entry_count q"
    "p0_bit (e_type x) \<noteq> 4 \<Longrightarrow> p0_kernel_physical_base (p0_update x q) = p0_kernel_physical_base q"
    "p0_bit (e_type x) \<noteq> 4 \<Longrightarrow> p0_kernel_virtual_base (p0_update x q) = p0_kernel_virtual_base q"
    "p0_bit (e_type x) \<noteq> 8 \<Longrightarrow> p0_dtb (p0_update x q) = p0_dtb q"
    "p0_bit (e_type x) \<noteq> 8 \<Longrightarrow> p0_dtb_size (p0_update x q) = p0_dtb_size q" for x q
    by (simp_all add: p0_update_def Let_def)
  have b: "p0_bit BBP_V2_P0_BOOT_IDENTITY = 1" "p0_bit BBP_V2_P0_MEMORY_MAP = 2"
    "p0_bit BBP_V2_P0_KERNEL_ADDRESS = 4" "p0_bit BBP_V2_P0_DEVICETREE = 8"
    by (simp_all add: p0_bit_def p0_consts)
  show ?thesis
    by (intro conjI impI; rule once) (simp_all add: b upd, simp_all add: b p0_update_def Let_def)
qed

section \<open>Witnesses\<close>

lemma built_entry:
  assumes "built es cnt p n" "i < unat cnt"
  shows "e_type (entry_at p i) = be_type (es ! i)" "e_flags (entry_at p i) = be_flags (es ! i)"
    "e_version (entry_at p i) = be_version (es ! i)" "entry_payload (entry_at p i) = payload_of (es ! i)"
proof -
  obtain s where s: "slice p (ent 64 i) 48 = dirent_of (es ! i) s"
    "slice p (unat s) (unat (be_size (es ! i))) = payload_of (es ! i)" and d: "dir_at p = 64"
    using assms by (auto simp: built_def)
  note f = dirent_fields [OF s(1)]
  show "e_type (entry_at p i) = be_type (es ! i)" "e_flags (entry_at p i) = be_flags (es ! i)"
    "e_version (entry_at p i) = be_version (es ! i)"
    using f(1-3) by (simp_all add: entry_at_def Let_def d)
  show "entry_payload (entry_at p i) = payload_of (es ! i)"
    using f(5,6) s(2) by (simp add: entry_payload_def entry_at_def Let_def d eoff_def slice_def)
qed

text \<open>A capsule with the four mandatory entries.\<close>

definition demo_p0 :: "bbp_v2_build_entry list" where
  "demo_p0 =
    [\<lparr>be_type = BBP_V2_P0_BOOT_IDENTITY, be_flags = 0, be_version = 1, be_alignment = 8, be_addr = 0x2000,
      be_bytes = [1, 0, 0, 0, 2, 0, 0, 0, 0, 0, 0, 0, 0, 0, 0, 0], be_size = 16\<rparr>,
     \<lparr>be_type = BBP_V2_P0_MEMORY_MAP, be_flags = 0, be_version = 1, be_alignment = 8, be_addr = 0x3000,
      be_bytes = [1, 0, 0, 0, 32, 0, 0, 0] @ [0, 0, 16, 0, 0, 0, 0, 0] @ [0, 0, 1, 0, 0, 0, 0, 0] @
        [1, 0, 0, 0, 0, 0, 0, 0] @ replicate 8 0, be_size = 40\<rparr>,
     \<lparr>be_type = BBP_V2_P0_KERNEL_ADDRESS, be_flags = 0, be_version = 1, be_alignment = 8, be_addr = 0x4000,
      be_bytes = [0, 0, 16, 0, 0, 0, 0, 0] @ replicate 8 0xFF, be_size = 16\<rparr>,
     \<lparr>be_type = BBP_V2_P0_DEVICETREE, be_flags = 0, be_version = 1, be_alignment = 8, be_addr = 0x5000,
      be_bytes = [0, 0, 0, 0, 2, 0, 0, 0, 9, 9], be_size = 10\<rparr>]"

lemma all_less_4: "(\<forall>k<4. P k) \<longleftrightarrow> P 0 \<and> P 1 \<and> P 2 \<and> P (3 :: nat)"
proof
  assume "P 0 \<and> P 1 \<and> P 2 \<and> P 3"
  moreover have "k < 4 \<Longrightarrow> k = 0 \<or> k = 1 \<or> k = 2 \<or> k = 3" for k :: nat by arith
  ultimately show "\<forall>k<4. P k" by metis
qed simp

lemma demo_p0_nth:
  "demo_p0 ! 0 = hd demo_p0" "demo_p0 ! 1 = hd (tl demo_p0)" "demo_p0 ! 2 = hd (tl (tl demo_p0))"
  "demo_p0 ! 3 = hd (tl (tl (tl demo_p0)))" "length demo_p0 = 4"
  by (simp_all add: demo_p0_def)

lemma demo_p0_args:
  "(0x1000 :: u64) \<noteq> 0" "unat (4 :: u32) \<le> 1024"
  "unat (340 :: u64) \<le> length (replicate 340 (0 :: u8))" "unat (4 :: u32) \<le> length demo_p0"
  "\<forall>k<unat (4 :: u32). unat (be_size (demo_p0 ! k)) \<le> length (be_bytes (demo_p0 ! k))"
  by (simp_all add: all_less_4 demo_p0_nth) (simp add: demo_p0_def)

lemma demo_p0_fits: "build_fits 0x1000 340 demo_p0 (unat (4 :: u32))"
proof -
  have four: "(4 :: nat) = Suc (Suc (Suc (Suc 0)))" by simp
  have sz: "be_size (demo_p0 ! 0) = 16" "be_size (demo_p0 ! Suc 0) = 40" "be_size (demo_p0 ! Suc (Suc 0)) = 16"
    "be_size (demo_p0 ! Suc (Suc (Suc 0))) = 10" "be_alignment (demo_p0 ! 0) = 8" "be_alignment (demo_p0 ! Suc 0) = 8"
    "be_alignment (demo_p0 ! Suc (Suc 0)) = 8" "be_alignment (demo_p0 ! Suc (Suc (Suc 0))) = 8"
    by (simp_all add: demo_p0_def)
  have c: "cursor_at demo_p0 256 4 = 338"
    unfolding four cursor_at.simps sz by (simp add: round_up_def)
  have w: "source_work demo_p0 4 = 82"
    unfolding four by (simp add: source_work_def sz)
  show ?thesis
    using demo_p0_args(5)
    by (simp add: build_fits_def sources_ok_def c w all_less_4 source_ok_def demo_p0_nth)
      (simp add: demo_p0_def power_of_two_def memory_ranges_overlap_def)
qed

lemma demo_p0_built:
  obtains p n where "built demo_p0 4 p n" "unat n \<le> length p" "bbp_v2_parse (Some p) n True = Some (Inr (view_of p n))"
proof -
  obtain r :: "bbp_v2_status + u8 list \<times> u64" where "case r of Inl e \<Rightarrow> \<not> build_fits 0x1000 340 demo_p0 (unat (4 :: u32))
     | Inr (p, n) \<Rightarrow> build_fits 0x1000 340 demo_p0 (unat (4 :: u32)) \<and> n \<le> 340 \<and>
         length p = length (replicate 340 (0 :: u8)) \<and>
         drop (unat n) p = drop (unat n) (replicate 340 (0 :: u8)) \<and> built demo_p0 4 p n"
    using build_spec [OF demo_p0_args] by blast
  then obtain p n where b: "built demo_p0 4 p n" using demo_p0_fits by (cases r) auto
  then have "unat n \<le> length p" "capsule_ok p n" by (simp_all add: built_def)
  moreover from this have "bbp_v2_parse (Some p) n True = Some (Inr (view_of p n))"
    using parse_spec [of n p] by auto
  ultimately show thesis using that b by blast
qed

lemma demo_p0_payloads:
  "identity_ok (payload_of (demo_p0 ! 0))" "memory_map_ok (payload_of (demo_p0 ! 1))"
  "kernel_address_ok (payload_of (demo_p0 ! 2))" "devicetree_ok (payload_of (demo_p0 ! 3))"
  by (simp_all add: demo_p0_def payload_of_def identity_ok_def memory_map_ok_def memory_range_ok_def
      kernel_address_ok_def devicetree_ok_def le16_at_def le32_at_def le64_at_def get_le_def Let_def upt_rec)

lemma demo_p0_profile:
  assumes "built demo_p0 4 p n"
  shows "profile_ok (entries_of p)"
proof -
  have c: "cnt_at p = 4" using assms by (simp add: built_def)
  have es: "entries_of p = [entry_at p 0, entry_at p 1, entry_at p 2, entry_at p 3]"
  proof -
    have "[0..<4] = [0, 1, 2, 3 :: nat]" by (simp add: upt_rec)
    then show ?thesis by (simp add: entries_of_def c)
  qed
  have t: "p0_bit (e_type (entry_at p 0)) = 1" "p0_bit (e_type (entry_at p 1)) = 2"
    "p0_bit (e_type (entry_at p 2)) = 4" "p0_bit (e_type (entry_at p 3)) = 8"
    using built_entry(1) [OF assms] by (simp_all add: demo_p0_def p0_bit_def p0_consts)
  have "p0_entry_ok (entry_at p i)" if "i < 4" for i
  proof -
    have f: "\<forall>i<4. be_version (demo_p0 ! i) = 1 \<and> be_flags (demo_p0 ! i) = 0"
      by (simp add: all_less_4 demo_p0_def)
    have "\<forall>i<4. p0_payload_ok (p0_bit (e_type (entry_at p i))) (payload_of (demo_p0 ! i))"
      using demo_p0_payloads by (simp add: all_less_4 t t [simplified] p0_payload_ok_def)
    then have "p0_payload_ok (p0_bit (e_type (entry_at p i))) (payload_of (demo_p0 ! i))" using that by blast
    then show ?thesis using f that built_entry(2-4) [OF assms, of i] by (simp add: p0_entry_ok_def)
  qed
  then show ?thesis by (simp add: profile_ok_def es t t [simplified])
qed

theorem p0_validate_accepts_iff_witness:
  "\<exists>p n v r. bbp_v2_parse (Some p) n True = Some (Inr v) \<and> bbp_v2_p0_validate (Some v) True = Some (Inr r)"
proof -
  obtain p n where p: "built demo_p0 4 p n" "unat n \<le> length p" "bbp_v2_parse (Some p) n True = Some (Inr (view_of p n))"
    by (rule demo_p0_built)
  then show ?thesis
    using p0_validate_accepts_iff [OF p(3,2), of True] demo_p0_profile [OF p(1)] by blast
qed

theorem p0_view_reports_witness:
  "\<exists>p n v r. bbp_v2_parse (Some p) n True = Some (Inr v) \<and> bbp_v2_p0_validate (Some v) True = Some (Inr r) \<and>
     p0_architecture r = 1"
proof -
  obtain p n where p: "built demo_p0 4 p n" "unat n \<le> length p" "bbp_v2_parse (Some p) n True = Some (Inr (view_of p n))"
    by (rule demo_p0_built)
  have ok: "capsule_ok p n" using p(1) by (simp add: built_def)
  obtain r where r: "bbp_v2_p0_validate (Some (view_of p n)) True = Some (Inr r)"
    using p0_validate_eq [OF ok p(2)] demo_p0_profile [OF p(1)] by simp
  have "entry_at p 0 \<in> set (entries_of p)" using p(1) by (simp add: entries_of_def built_def)
  from p0_view_reports [OF p(3,2) r this] have "p0_architecture r = le16_at (payload_of (demo_p0 ! 0)) 0"
    using built_entry [OF p(1), of 0] by (simp add: demo_p0_def)
  then have "p0_architecture r = 1"
    by (simp add: demo_p0_def payload_of_def le16_at_def get_le_def upt_rec)
  then show ?thesis using p(3) r by blast
qed

end
