(* ===== verification/Elf64.thy ===== *)
theory Elf64
  imports V2_Parse
begin

text \<open>
  The ELF64 load planner of \<open>bootloader/uefi/elf64_loader.c\<close>. The image is a bounded buffer; a result
  \<^term>\<open>None\<close> is a read outside it. The call returns a status and the caller's plan, which an error
  leaves as it was. The readers \<open>read16\<close>, \<open>read32\<close>, \<open>read64\<close> are the little-endian readers of the
  prelude.
\<close>

section \<open>Definitions\<close>

definition BBP_ELF64_MAX_PROGRAM_HEADERS :: u16 where "BBP_ELF64_MAX_PROGRAM_HEADERS = 32"
definition BBP_ELF64_MAX_LOAD_SEGMENTS :: u64 where "BBP_ELF64_MAX_LOAD_SEGMENTS = 16"
definition BBP_ELF64_PAGE_SIZE :: u64 where "BBP_ELF64_PAGE_SIZE = 4096"
definition BBP_ELF64_PF_X :: u32 where "BBP_ELF64_PF_X = 1"
definition BBP_ELF64_PF_W :: u32 where "BBP_ELF64_PF_W = 2"
definition ELF64_HEADER_SIZE :: u64 where "ELF64_HEADER_SIZE = 64"
definition ELF64_PROGRAM_HEADER_SIZE :: u64 where "ELF64_PROGRAM_HEADER_SIZE = 56"
definition ELF64_PT_LOAD :: u32 where "ELF64_PT_LOAD = 1"
abbreviation ELF64_ET_EXEC :: u16 where "ELF64_ET_EXEC \<equiv> 2"
abbreviation ELF64_EM_X86_64 :: u16 where "ELF64_EM_X86_64 \<equiv> 62"
abbreviation ELF64_EV_CURRENT :: u32 where "ELF64_EV_CURRENT \<equiv> 1"
definition ELF64_PHYSICAL_LIMIT :: u64 where "ELF64_PHYSICAL_LIMIT = 0x0001000000000000"
definition ELF64_LOWER_CANONICAL_END :: u64 where "ELF64_LOWER_CANONICAL_END = 0x0000800000000000"
definition ELF64_UPPER_CANONICAL_START :: u64 where "ELF64_UPPER_CANONICAL_START = 0xffff800000000000"

lemmas elf_consts = BBP_ELF64_MAX_PROGRAM_HEADERS_def BBP_ELF64_MAX_LOAD_SEGMENTS_def
  BBP_ELF64_PAGE_SIZE_def BBP_ELF64_PF_X_def BBP_ELF64_PF_W_def ELF64_HEADER_SIZE_def
  ELF64_PROGRAM_HEADER_SIZE_def ELF64_PT_LOAD_def
  ELF64_PHYSICAL_LIMIT_def ELF64_LOWER_CANONICAL_END_def
  ELF64_UPPER_CANONICAL_START_def

datatype bbp_elf64_status =
    BBP_ELF64_OK | BBP_ELF64_ERR_ARGUMENT | BBP_ELF64_ERR_TRUNCATED | BBP_ELF64_ERR_FORMAT
  | BBP_ELF64_ERR_PROGRAM_HEADERS | BBP_ELF64_ERR_SEGMENT_LIMIT | BBP_ELF64_ERR_FILE_RANGE
  | BBP_ELF64_ERR_MEMORY_SIZE | BBP_ELF64_ERR_OVERFLOW | BBP_ELF64_ERR_ALIGNMENT
  | BBP_ELF64_ERR_ADDRESS | BBP_ELF64_ERR_PHYSICAL_LIMIT | BBP_ELF64_ERR_PAGE_OVERLAP
  | BBP_ELF64_ERR_WX | BBP_ELF64_ERR_ENTRY

record bbp_elf64_segment_plan =
  sp_file_offset :: u64
  sp_file_size :: u64
  sp_memory_size :: u64
  sp_virtual_address :: u64
  sp_physical_address :: u64
  sp_page_base :: u64
  sp_page_count :: u64
  sp_alignment :: u64
  sp_flags :: u32

text \<open>The candidate holds exactly the segments planned so far; a caller's plan holds its whole
  array.\<close>

record bbp_elf64_plan =
  ep_entry :: u64
  ep_physical_base :: u64
  ep_physical_end :: u64
  ep_segment_count :: u64
  ep_segments :: "bbp_elf64_segment_plan list"

text \<open>\<^term>\<open>None\<close> is the return value 0.\<close>

definition add_u64 :: "u64 \<Rightarrow> u64 \<Rightarrow> u64 option" where
  "add_u64 left right = (if left > - 1 - right then None else Some (left + right))"

definition canonical_region :: "u64 \<Rightarrow> nat" where
  "canonical_region address =
     (if address < ELF64_LOWER_CANONICAL_END then 1
      else if address \<ge> ELF64_UPPER_CANONICAL_START then 2 else 0)"

definition canonical_range :: "u64 \<Rightarrow> u64 \<Rightarrow> bool" where
  "canonical_range start stop =
     (let start_region = canonical_region start in
      if start_region = 0 then False
      else if start = stop then True
      else canonical_region (stop - 1) = start_region)"

definition elf64_power_of_two :: "u64 \<Rightarrow> bool" where
  "elf64_power_of_two value \<longleftrightarrow> value \<noteq> 0 \<and> value AND (value - 1) = 0"

definition ranges_overlap :: "u64 \<Rightarrow> u64 \<Rightarrow> u64 \<Rightarrow> u64 \<Rightarrow> bool" where
  "ranges_overlap first_start first_end second_start second_end \<longleftrightarrow>
     first_start < second_end \<and> second_start < first_end"

definition publish_plan :: "bbp_elf64_plan \<Rightarrow> bbp_elf64_plan \<Rightarrow> bbp_elf64_plan" where
  "publish_plan destination source = destination\<lparr>
     ep_entry := ep_entry source, ep_physical_base := ep_physical_base source,
     ep_physical_end := ep_physical_end source, ep_segment_count := ep_segment_count source,
     ep_segments := take (unat (ep_segment_count source)) (ep_segments source) @
       drop (unat (ep_segment_count source)) (ep_segments destination)\<rparr>"

text \<open>The loop over the earlier segments.\<close>

fun page_overlap :: "u64 \<Rightarrow> u64 \<Rightarrow> bbp_elf64_segment_plan list \<Rightarrow> bool" where
  "page_overlap page_base page_end [] = False"
| "page_overlap page_base page_end (other # others) =
     (let other_end = sp_page_base other + sp_page_count other * BBP_ELF64_PAGE_SIZE in
      if sp_page_count other \<noteq> 0 \<and> ranges_overlap page_base page_end (sp_page_base other) other_end
      then True else page_overlap page_base page_end others)"

text \<open>The loop variables: candidate, \<open>entry_covered\<close>, \<open>have_envelope\<close>.\<close>

type_synonym elf_state = "bbp_elf64_plan \<times> bool \<times> bool"

text \<open>The alignment test, true when it fails.\<close>

definition misaligned :: "u64 \<Rightarrow> u64 \<Rightarrow> u64 \<Rightarrow> u64 \<Rightarrow> bool" where
  "misaligned alignment file_offset virtual_address physical_address =
     (if alignment > 1 then
        if \<not> elf64_power_of_two alignment then True
        else let mask = alignment - 1 in
          file_offset AND mask \<noteq> virtual_address AND mask \<or> file_offset AND mask \<noteq> physical_address AND mask
      else False)"

text \<open>From the filled segment on: page span, overlap, envelope and entry point.\<close>

definition place_segment ::
  "bbp_elf64_segment_plan \<Rightarrow> u64 \<Rightarrow> u64 \<Rightarrow> u64 \<Rightarrow> elf_state \<Rightarrow> bbp_elf64_status + elf_state" where
  "place_segment segment physical_end virtual_end entry st = (let
     (candidate, entry_covered, have_envelope) = st;
     page_base = sp_physical_address segment AND NOT (BBP_ELF64_PAGE_SIZE - 1);
     page_end = (if sp_memory_size segment = 0 then page_base
                 else (physical_end + BBP_ELF64_PAGE_SIZE - 1) AND NOT (BBP_ELF64_PAGE_SIZE - 1));
     page_count = (page_end - page_base) div BBP_ELF64_PAGE_SIZE;
     segment = segment\<lparr>sp_page_base := page_base, sp_page_count := page_count\<rparr> in
     if page_count \<noteq> 0 \<and> page_overlap page_base page_end (ep_segments candidate)
     then Inl BBP_ELF64_ERR_PAGE_OVERLAP
     else let
       base = (if page_count \<noteq> 0 \<and> (\<not> have_envelope \<or> page_base < ep_physical_base candidate)
               then page_base else ep_physical_base candidate);
       stop = (if page_count \<noteq> 0 \<and> (\<not> have_envelope \<or> page_end > ep_physical_end candidate)
               then page_end else ep_physical_end candidate);
       have_envelope = (page_count \<noteq> 0 \<or> have_envelope);
       entry_covered = (if sp_flags segment AND BBP_ELF64_PF_X \<noteq> 0 \<and>
           entry \<ge> sp_virtual_address segment \<and> entry < virtual_end then True else entry_covered) in
       Inr (candidate\<lparr>ep_physical_base := base, ep_physical_end := stop,
              ep_segment_count := ep_segment_count candidate + 1,
              ep_segments := ep_segments candidate @ [segment]\<rparr>, entry_covered, have_envelope))"

text \<open>The body of the loop over the program headers, for the header at offset \<open>header\<close>.\<close>

definition plan_segment ::
  "u8 list \<Rightarrow> u64 \<Rightarrow> u64 \<Rightarrow> nat \<Rightarrow> elf_state \<Rightarrow> (bbp_elf64_status + elf_state) option" where
  "plan_segment bytes image_size entry header st = do {
     type \<leftarrow> get32 bytes header;
     if type \<noteq> ELF64_PT_LOAD then Some (Inr st)
     else if ep_segment_count (fst st) = BBP_ELF64_MAX_LOAD_SEGMENTS
     then Some (Inl BBP_ELF64_ERR_SEGMENT_LIMIT)
     else do {
       flags \<leftarrow> get32 bytes (header + 4);
       file_offset \<leftarrow> get64 bytes (header + 8);
       virtual_address \<leftarrow> get64 bytes (header + 16);
       physical_address \<leftarrow> get64 bytes (header + 24);
       file_size \<leftarrow> get64 bytes (header + 32);
       memory_size \<leftarrow> get64 bytes (header + 40);
       alignment \<leftarrow> get64 bytes (header + 48);
       if file_size > memory_size then Some (Inl BBP_ELF64_ERR_MEMORY_SIZE)
       else if flags AND (BBP_ELF64_PF_W OR BBP_ELF64_PF_X) = BBP_ELF64_PF_W OR BBP_ELF64_PF_X
       then Some (Inl BBP_ELF64_ERR_WX)
       else if misaligned alignment file_offset virtual_address physical_address
       then Some (Inl BBP_ELF64_ERR_ALIGNMENT)
       else case (add_u64 file_offset file_size, add_u64 virtual_address memory_size,
                  add_u64 physical_address memory_size) of
         (Some file_end, Some virtual_end, Some physical_end) \<Rightarrow>
           if (virtual_address XOR physical_address) AND (BBP_ELF64_PAGE_SIZE - 1) \<noteq> 0
           then Some (Inl BBP_ELF64_ERR_ALIGNMENT)
           else if file_end > image_size then Some (Inl BBP_ELF64_ERR_FILE_RANGE)
           else if \<not> canonical_range virtual_address virtual_end then Some (Inl BBP_ELF64_ERR_ADDRESS)
           else if physical_address \<ge> ELF64_PHYSICAL_LIMIT \<or> physical_end > ELF64_PHYSICAL_LIMIT
           then Some (Inl BBP_ELF64_ERR_PHYSICAL_LIMIT)
           else Some (place_segment
             \<lparr>sp_file_offset = file_offset, sp_file_size = file_size, sp_memory_size = memory_size,
              sp_virtual_address = virtual_address, sp_physical_address = physical_address,
              sp_page_base = 0, sp_page_count = 0, sp_alignment = alignment, sp_flags = flags\<rparr>
             physical_end virtual_end entry st)
       | _ \<Rightarrow> Some (Inl BBP_ELF64_ERR_OVERFLOW)
     }
   }"

fun plan_segments ::
  "u8 list \<Rightarrow> u64 \<Rightarrow> u64 \<Rightarrow> u64 \<Rightarrow> nat list \<Rightarrow> elf_state \<Rightarrow> (bbp_elf64_status + elf_state) option" where
  "plan_segments bytes image_size entry program_offset [] st = Some (Inr st)"
| "plan_segments bytes image_size entry program_offset (i # is) st = do {
     r \<leftarrow> plan_segment bytes image_size entry
           (unat (program_offset + of_nat i * ELF64_PROGRAM_HEADER_SIZE)) st;
     case r of Inl e \<Rightarrow> Some (Inl e)
     | Inr st \<Rightarrow> plan_segments bytes image_size entry program_offset is st
   }"

definition elf64_bad_header :: "u8 list \<Rightarrow> bool option" where
  "elf64_bad_header bytes = do {
     magic \<leftarrow> rd bytes 0 7;
     sc_or (Some (magic \<noteq> [0x7f, 0x45, 0x4c, 0x46, 2, 1, 1]))
     (sc_or (ne16 bytes 16 ELF64_ET_EXEC)
     (sc_or (ne16 bytes 18 ELF64_EM_X86_64)
     (sc_or (ne32 bytes 20 ELF64_EV_CURRENT)
            (ne16 bytes 52 (ucast ELF64_HEADER_SIZE)))))
   }"

text \<open>The planner up to publication.\<close>

definition elf64_candidate :: "u8 list \<Rightarrow> u64 \<Rightarrow> (bbp_elf64_status + bbp_elf64_plan) option" where
  "elf64_candidate bytes image_size =
     (if image_size < ELF64_HEADER_SIZE then Some (Inl BBP_ELF64_ERR_TRUNCATED)
      else do {
        bad \<leftarrow> elf64_bad_header bytes;
        if bad then Some (Inl BBP_ELF64_ERR_FORMAT)
        else do {
          entry \<leftarrow> get64 bytes 24;
          if canonical_region entry = 0 then Some (Inl BBP_ELF64_ERR_ADDRESS)
          else do {
            program_offset \<leftarrow> get64 bytes 32;
            program_count \<leftarrow> get16 bytes 56;
            bad \<leftarrow> sc_or (ne16 bytes 54 (ucast ELF64_PROGRAM_HEADER_SIZE))
                     (Some (program_count = 0 \<or> program_count > BBP_ELF64_MAX_PROGRAM_HEADERS));
            if bad then Some (Inl BBP_ELF64_ERR_PROGRAM_HEADERS)
            else case add_u64 program_offset (ucast program_count * ELF64_PROGRAM_HEADER_SIZE) of
              None \<Rightarrow> Some (Inl BBP_ELF64_ERR_OVERFLOW)
            | Some program_end \<Rightarrow>
                if program_end > image_size then Some (Inl BBP_ELF64_ERR_TRUNCATED)
                else do {
                  r \<leftarrow> plan_segments bytes image_size entry program_offset [0..<unat program_count]
                        (\<lparr>ep_entry = entry, ep_physical_base = 0, ep_physical_end = 0,
                          ep_segment_count = 0, ep_segments = []\<rparr>, False, False);
                  case r of
                    Inl e \<Rightarrow> Some (Inl e)
                  | Inr (candidate, entry_covered, _) \<Rightarrow>
                      if \<not> entry_covered then Some (Inl BBP_ELF64_ERR_ENTRY) else Some (Inr candidate)
                }
          }
        }
      })"

text \<open>A NULL image or plan is \<^term>\<open>None\<close>; the result carries the caller's plan after the call.\<close>

definition bbp_elf64_plan_image ::
  "u8 list option \<Rightarrow> u64 \<Rightarrow> bbp_elf64_plan option \<Rightarrow> (bbp_elf64_status \<times> bbp_elf64_plan option) option" where
  "bbp_elf64_plan_image img image_size plan =
     (case (img, plan) of
        (Some bytes, Some dst) \<Rightarrow>
          do {
            r \<leftarrow> elf64_candidate bytes image_size;
            case r of
              Inl e \<Rightarrow> Some (e, plan)
            | Inr candidate \<Rightarrow> Some (BBP_ELF64_OK, Some (publish_plan dst candidate))
          }
      | _ \<Rightarrow> Some (BBP_ELF64_ERR_ARGUMENT, plan))"

section \<open>Pages\<close>

lemma unat_and_page: "unat ((x :: u64) AND - 4096) = unat x div 4096 * 4096"
  using unat_and_not_mask [of 4095 12 x] by simp

abbreviation page_floor :: "nat \<Rightarrow> nat" where "page_floor a \<equiv> a div 4096 * 4096"
abbreviation page_ceil :: "nat \<Rightarrow> nat" where "page_ceil a \<equiv> (a + 4095) div 4096 * 4096"

lemma add_u64_eq: "add_u64 a b = (if unat a + unat b < 2 ^ 64 then Some (a + b) else None)"
  using unat_le_max_minus [of b a] by (auto simp: add_u64_def)

text \<open>The span of pages of a segment: the byte range \<open>[first, last)\<close> it occupies when loaded.\<close>

definition seg_first :: "bbp_elf64_segment_plan \<Rightarrow> nat" where "seg_first s = unat (sp_page_base s)"
definition seg_last :: "bbp_elf64_segment_plan \<Rightarrow> nat" where
  "seg_last s = unat (sp_page_base s) + 4096 * unat (sp_page_count s)"

text \<open>What a planned segment guarantees to the loader.\<close>

definition segment_ok :: "u64 \<Rightarrow> bbp_elf64_segment_plan \<Rightarrow> bool" where
  "segment_ok image_size s \<longleftrightarrow>
     unat (sp_file_offset s) + unat (sp_file_size s) \<le> unat image_size \<and>
     unat (sp_file_size s) \<le> unat (sp_memory_size s) \<and>
     \<not> (bit (sp_flags s) 0 \<and> bit (sp_flags s) 1) \<and>
     unat (sp_physical_address s) + unat (sp_memory_size s) \<le> 2 ^ 48 \<and>
     unat (sp_virtual_address s) + unat (sp_memory_size s) < 2 ^ 64 \<and>
     canonical_range (sp_virtual_address s) (sp_virtual_address s + sp_memory_size s) \<and>
     unat (sp_virtual_address s) mod 4096 = unat (sp_physical_address s) mod 4096 \<and>
     4096 dvd unat (sp_page_base s) \<and> seg_last s \<le> 2 ^ 48 \<and>
     seg_first s \<le> unat (sp_physical_address s) \<and>
     (sp_memory_size s \<noteq> 0 \<longrightarrow> unat (sp_physical_address s) + unat (sp_memory_size s) \<le> seg_last s) \<and>
     (sp_memory_size s = 0 \<longrightarrow> sp_page_count s = 0)"

definition seg_disjoint :: "bbp_elf64_segment_plan \<Rightarrow> bbp_elf64_segment_plan \<Rightarrow> bool" where
  "seg_disjoint s t \<longleftrightarrow> sp_page_count s = 0 \<or> sp_page_count t = 0 \<or> seg_last s \<le> seg_first t \<or> seg_last t \<le> seg_first s"

lemma wx_bits: "(flags :: u32) AND 3 = 3 \<longleftrightarrow> bit flags 0 \<and> bit flags 1"
proof -
  have "flags AND mask 2 = mask 2 \<longleftrightarrow> bit flags 0 \<and> bit flags 1"
  proof
    assume eq: "flags AND mask 2 = mask 2"
    have "bit (flags AND mask 2) n" if "n < 2" for n
      unfolding eq using that by (simp add: bit_simps)
    then show "bit flags 0 \<and> bit flags 1" by (auto simp: bit_and_iff)
  next
    assume "bit flags 0 \<and> bit flags 1"
    then show "flags AND mask 2 = mask 2"
      by (intro bit_word_eqI) (auto simp: bit_simps less_2_cases_iff)
  qed
  then show ?thesis by (simp add: mask_eq_exp_minus_1)
qed

lemma page_offset_eq:
  assumes "(v XOR p) AND 4095 = (0 :: u64)"
  shows "unat v mod 4096 = unat p mod 4096"
proof -
  have m: "(mask 12 :: u64) = 4095" by (simp add: mask_eq_exp_minus_1)
  have "take_bit 12 v = take_bit 12 p"
  proof (rule bit_word_eqI)
    fix n assume "n < LENGTH(64)"
    moreover have "\<not> bit ((v XOR p) AND mask 12) n" by (simp add: assms m)
    ultimately show "bit (take_bit 12 v) n = bit (take_bit 12 p) n"
      by (auto simp: bit_simps)
  qed
  then have "take_bit 12 (unat v) = take_bit 12 (unat p)"
    by (simp only: unsigned_take_bit_eq [symmetric])
  then show ?thesis by (simp add: take_bit_eq_mod)
qed

lemma page_span:
  fixes pa msz :: u64
  assumes "unat pa + unat msz \<le> 2 ^ 48" and b: "b = pa AND NOT (BBP_ELF64_PAGE_SIZE - 1)"
    and e: "e = (if msz = 0 then b else (pa + msz + BBP_ELF64_PAGE_SIZE - 1) AND NOT (BBP_ELF64_PAGE_SIZE - 1))"
    and n: "n = (e - b) div BBP_ELF64_PAGE_SIZE"
  shows "unat b = page_floor (unat pa)" "unat e = (if msz = 0 then page_floor (unat pa) else page_ceil (unat pa + unat msz))"
    "unat n * 4096 = unat e - unat b" "unat b \<le> unat e" "unat e \<le> 2 ^ 48"
proof -
  show b': "unat b = page_floor (unat pa)" by (simp add: b elf_consts unat_and_page)
  have "unat (pa + msz + 4095) = unat pa + unat msz + 4095"
    using assms(1) by (simp add: unat_word_ariths)
  moreover have "pa + msz + 4096 - 1 = pa + msz + 4095" by simp
  ultimately show e': "unat e = (if msz = 0 then page_floor (unat pa) else page_ceil (unat pa + unat msz))"
    using b' by (simp add: e elf_consts unat_and_page add.commute [of 4095])
  show le: "unat b \<le> unat e" unfolding b' e' by (auto intro: mult_le_mono div_le_mono)
  show "unat e \<le> 2 ^ 48" unfolding e' using assms(1) by (auto split: if_splits)
  have "unat (e - b) = unat e - unat b" using le by (simp add: unat_sub word_le_nat_alt)
  moreover have "4096 dvd unat e - unat b" unfolding b' e' by (auto intro: dvd_diff_nat)
  ultimately show "unat n * 4096 = unat e - unat b"
    by (simp add: n elf_consts unat_div)
qed

section \<open>The loop invariant\<close>

text \<open>The physical envelope is the least range that covers the nonempty segments.\<close>

definition elf_envelope :: "nat \<Rightarrow> nat \<Rightarrow> bool \<Rightarrow> bbp_elf64_segment_plan list \<Rightarrow> bool" where
  "elf_envelope lo hi env ss \<longleftrightarrow> (env \<longleftrightarrow> (\<exists>s\<in>set ss. sp_page_count s \<noteq> 0)) \<and>
     (\<forall>s\<in>set ss. sp_page_count s \<noteq> 0 \<longrightarrow> lo \<le> seg_first s \<and> seg_last s \<le> hi) \<and>
     (env \<longrightarrow> (\<exists>s\<in>set ss. sp_page_count s \<noteq> 0 \<and> lo = seg_first s) \<and>
        (\<exists>s\<in>set ss. sp_page_count s \<noteq> 0 \<and> hi = seg_last s))"

definition elf_covers :: "u64 \<Rightarrow> bbp_elf64_segment_plan \<Rightarrow> bool" where
  "elf_covers entry s \<longleftrightarrow> bit (sp_flags s) 0 \<and> unat (sp_virtual_address s) \<le> unat entry \<and>
     unat entry < unat (sp_virtual_address s) + unat (sp_memory_size s)"

definition elf_inv :: "u64 \<Rightarrow> u64 \<Rightarrow> elf_state \<Rightarrow> bool" where
  "elf_inv image_size entry st \<longleftrightarrow> (case st of (c, cov, env) \<Rightarrow>
     ep_entry c = entry \<and> unat (ep_segment_count c) = length (ep_segments c) \<and> length (ep_segments c) \<le> 16 \<and>
     (\<forall>s\<in>set (ep_segments c). segment_ok image_size s) \<and>
     sorted_wrt seg_disjoint (ep_segments c) \<and>
     elf_envelope (unat (ep_physical_base c)) (unat (ep_physical_end c)) env (ep_segments c) \<and>
     (cov \<longleftrightarrow> (\<exists>s\<in>set (ep_segments c). elf_covers entry s)))"

lemma elf_envelope_snoc:
  assumes "elf_envelope lo hi env ss"
  shows "elf_envelope (if sp_page_count s \<noteq> 0 \<and> (\<not> env \<or> seg_first s < lo) then seg_first s else lo)
    (if sp_page_count s \<noteq> 0 \<and> (\<not> env \<or> hi < seg_last s) then seg_last s else hi)
    (sp_page_count s \<noteq> 0 \<or> env) (ss @ [s])"
proof (cases "sp_page_count s = 0")
  case True
  then show ?thesis using assms by (auto simp: elf_envelope_def)
next
  case False
  show ?thesis
  proof (cases env)
    case True
    have old: "\<And>t. t \<in> set ss \<Longrightarrow> sp_page_count t \<noteq> 0 \<Longrightarrow> lo \<le> seg_first t \<and> seg_last t \<le> hi"
      using assms by (auto simp: elf_envelope_def)
    obtain t u where "t \<in> set ss" "sp_page_count t \<noteq> 0" "lo = seg_first t" "u \<in> set ss" "sp_page_count u \<noteq> 0" "hi = seg_last u"
      using assms True by (auto simp: elf_envelope_def)
    then show ?thesis
      using False True old unfolding elf_envelope_def by (cases "seg_first s < lo"; cases "hi < seg_last s") force+
  next
    case no: False
    then have "\<forall>t\<in>set ss. sp_page_count t = 0" using assms by (auto simp: elf_envelope_def)
    then show ?thesis using False no by (simp add: elf_envelope_def)
  qed
qed

lemma page_overlap_iff:
  assumes "\<forall>s\<in>set ss. segment_ok n s"
  shows "page_overlap b e ss \<longleftrightarrow> (\<exists>s\<in>set ss. sp_page_count s \<noteq> 0 \<and> unat b < seg_last s \<and> seg_first s < unat e)"
  using assms
proof (induction ss)
  case (Cons s ss)
  have "seg_last s \<le> 2 ^ 48" using Cons.prems by (simp add: segment_ok_def)
  then have "unat (sp_page_base s + sp_page_count s * BBP_ELF64_PAGE_SIZE) = seg_last s"
    by (simp add: seg_last_def elf_consts unat_word_ariths)
  then show ?case
    using Cons by (auto simp: Let_def ranges_overlap_def word_less_nat_alt seg_first_def)
qed simp

lemma sorted_wrt_snoc: "sorted_wrt P (xs @ [x]) \<longleftrightarrow> sorted_wrt P xs \<and> (\<forall>y\<in>set xs. P y x)"
  by (simp add: sorted_wrt_append)

lemma place_segment_inv:
  assumes inv: "elf_inv image_size entry (c, cov, env)" and lim: "ep_segment_count c \<noteq> BBP_ELF64_MAX_LOAD_SEGMENTS"
    and seg: "unat (sp_file_offset s) + unat (sp_file_size s) \<le> unat image_size"
      "unat (sp_file_size s) \<le> unat (sp_memory_size s)" "\<not> (bit (sp_flags s) 0 \<and> bit (sp_flags s) 1)"
      "unat (sp_physical_address s) + unat (sp_memory_size s) \<le> 2 ^ 48"
      "unat (sp_virtual_address s) + unat (sp_memory_size s) < 2 ^ 64"
      "canonical_range (sp_virtual_address s) (sp_virtual_address s + sp_memory_size s)"
      "unat (sp_virtual_address s) mod 4096 = unat (sp_physical_address s) mod 4096"
    and r: "place_segment s (sp_physical_address s + sp_memory_size s)
      (sp_virtual_address s + sp_memory_size s) entry (c, cov, env) = Inr st"
  shows "elf_inv image_size entry st"
proof -
  define b where "b = sp_physical_address s AND NOT (BBP_ELF64_PAGE_SIZE - 1)"
  define e where "e = (if sp_memory_size s = 0 then b
    else (sp_physical_address s + sp_memory_size s + BBP_ELF64_PAGE_SIZE - 1) AND NOT (BBP_ELF64_PAGE_SIZE - 1))"
  define n where "n = (e - b) div BBP_ELF64_PAGE_SIZE"
  define s' where "s' = s\<lparr>sp_page_base := b, sp_page_count := n\<rparr>"
  have span: "unat b = page_floor (unat (sp_physical_address s))"
    "unat e = (if sp_memory_size s = 0 then page_floor (unat (sp_physical_address s))
       else page_ceil (unat (sp_physical_address s) + unat (sp_memory_size s)))"
    "unat n * 4096 = unat e - unat b" "unat b \<le> unat e" "unat e \<le> 2 ^ 48"
    by (rule page_span [OF seg(4) b_def e_def n_def])+
  have fl: "seg_first s' = unat b" "seg_last s' = unat e"
    using span(3,4) by (simp_all add: s'_def seg_first_def seg_last_def mult.commute)
  have ok: "segment_ok image_size s'"
  proof -
    have "unat (sp_physical_address s) + unat (sp_memory_size s) \<le> page_ceil (unat (sp_physical_address s) + unat (sp_memory_size s))"
      by linarith
    then show ?thesis
      unfolding segment_ok_def fl using seg span by (auto simp: s'_def unat_eq_zero)
  qed
  let ?ss = "ep_segments c"
  have sok: "\<forall>t\<in>set ?ss. segment_ok image_size t" using inv by (simp add: elf_inv_def)
  have noov: "\<not> (n \<noteq> 0 \<and> page_overlap b e ?ss)"
    and st: "st = (c\<lparr>ep_physical_base := (if n \<noteq> 0 \<and> (\<not> env \<or> b < ep_physical_base c) then b else ep_physical_base c),
       ep_physical_end := (if n \<noteq> 0 \<and> (\<not> env \<or> e > ep_physical_end c) then e else ep_physical_end c),
       ep_segment_count := ep_segment_count c + 1, ep_segments := ?ss @ [s']\<rparr>,
       (if sp_flags s AND BBP_ELF64_PF_X \<noteq> 0 \<and> entry \<ge> sp_virtual_address s \<and>
          entry < sp_virtual_address s + sp_memory_size s then True else cov), n \<noteq> 0 \<or> env)"
    using r unfolding place_segment_def Let_def prod.case b_def [symmetric] e_def [symmetric] n_def [symmetric]
      s'_def [symmetric]
    by (auto simp: s'_def split: if_splits)
  have cnt: "unat (ep_segment_count c + 1) = Suc (length ?ss)" "length ?ss < 16"
  proof -
    have "unat (ep_segment_count c) \<noteq> 16" using lim by (simp add: elf_consts word_unat_eq_iff)
    then show "length ?ss < 16" using inv by (simp add: elf_inv_def)
    then show "unat (ep_segment_count c + 1) = Suc (length ?ss)"
      using inv by (simp add: elf_inv_def unat_word_ariths)
  qed
  have n0: "sp_page_count s' \<noteq> 0 \<longleftrightarrow> n \<noteq> 0" by (simp add: s'_def)
  have disj: "sorted_wrt seg_disjoint (?ss @ [s'])"
    using inv noov page_overlap_iff [OF sok, of b e] fl n0
    by (auto simp: sorted_wrt_snoc elf_inv_def seg_disjoint_def not_less)
  have cover: "(sp_flags s AND BBP_ELF64_PF_X \<noteq> 0 \<and> entry \<ge> sp_virtual_address s \<and>
      entry < sp_virtual_address s + sp_memory_size s) \<longleftrightarrow> elf_covers entry s'"
    using seg(5) unat_add_u64 [of "sp_virtual_address s" "sp_memory_size s"]
    by (simp add: s'_def elf_covers_def elf_consts word_nat_simps bit_0 and_one_eq mod_2_eq_odd)
  have "elf_envelope (unat (if n \<noteq> 0 \<and> (\<not> env \<or> b < ep_physical_base c) then b else ep_physical_base c))
      (unat (if n \<noteq> 0 \<and> (\<not> env \<or> e > ep_physical_end c) then e else ep_physical_end c))
      (n \<noteq> 0 \<or> env) (?ss @ [s'])"
    using elf_envelope_snoc [of "unat (ep_physical_base c)" "unat (ep_physical_end c)" env ?ss s'] inv
    unfolding fl n0 word_less_nat_alt by (simp add: elf_inv_def if_distrib [of unat])
  then show ?thesis
    using inv ok cnt disj unfolding st elf_inv_def prod.case cover by auto
qed

section \<open>The loop over the program headers\<close>

text \<open>The fields of a program header and of a planned segment: offset, file size, memory size, virtual
  and physical address, alignment, flags.\<close>

definition phdr_fields :: "u8 list \<Rightarrow> nat \<Rightarrow> u64 \<times> u64 \<times> u64 \<times> u64 \<times> u64 \<times> u64 \<times> u32" where
  "phdr_fields p h = (le64_at p (h + 8), le64_at p (h + 32), le64_at p (h + 40), le64_at p (h + 16),
     le64_at p (h + 24), le64_at p (h + 48), le32_at p (h + 4))"

definition segment_fields :: "bbp_elf64_segment_plan \<Rightarrow> u64 \<times> u64 \<times> u64 \<times> u64 \<times> u64 \<times> u64 \<times> u32" where
  "segment_fields s = (sp_file_offset s, sp_file_size s, sp_memory_size s, sp_virtual_address s,
     sp_physical_address s, sp_alignment s, sp_flags s)"

lemma place_segment_fields:
  "place_segment s pe ve entry (c, cov, env) = Inr (c', cov', env') \<Longrightarrow>
   map segment_fields (ep_segments c') = map segment_fields (ep_segments c) @ [segment_fields s]"
  by (auto simp: place_segment_def Let_def segment_fields_def split: if_splits)

lemma plan_segment_spec:
  assumes h: "h + 56 \<le> length p" and inv: "elf_inv n entry st"
  shows "\<exists>r. plan_segment p n entry h st = Some r \<and>
    (case r of Inl e \<Rightarrow> e \<noteq> BBP_ELF64_OK
     | Inr st' \<Rightarrow> elf_inv n entry st' \<and>
         map segment_fields (ep_segments (fst st')) = map segment_fields (ep_segments (fst st)) @
           (if le32_at p h = 1 then [phdr_fields p h] else []))"
proof -
  obtain c cov env where st: "st = (c, cov, env)" by (cases st) auto
  define fo fs ms va pa al fl where d: "fo = le64_at p (h + 8)" "fs = le64_at p (h + 32)" "ms = le64_at p (h + 40)"
    "va = le64_at p (h + 16)" "pa = le64_at p (h + 24)" "al = le64_at p (h + 48)" "fl = le32_at p (h + 4)"
  define s where "s = \<lparr>sp_file_offset = fo, sp_file_size = fs, sp_memory_size = ms, sp_virtual_address = va,
    sp_physical_address = pa, sp_page_base = 0, sp_page_count = 0, sp_alignment = al, sp_flags = fl\<rparr>"
  have g: "get32 p h = Some (le32_at p h)" "get32 p (h + 4) = Some fl" "get64 p (h + 8) = Some fo"
    "get64 p (h + 16) = Some va" "get64 p (h + 24) = Some pa" "get64 p (h + 32) = Some fs"
    "get64 p (h + 40) = Some ms" "get64 p (h + 48) = Some al"
    using h by (simp_all add: get_at d)
  have hf: "phdr_fields p h = segment_fields s" by (simp add: phdr_fields_def segment_fields_def s_def d)
  define ok where "ok \<longleftrightarrow> \<not> fs > ms \<and> fl AND (BBP_ELF64_PF_W OR BBP_ELF64_PF_X) \<noteq> BBP_ELF64_PF_W OR BBP_ELF64_PF_X \<and>
    \<not> misaligned al fo va pa \<and> unat fo + unat fs < 2 ^ 64 \<and> unat va + unat ms < 2 ^ 64 \<and> unat pa + unat ms < 2 ^ 64 \<and>
    (va XOR pa) AND (BBP_ELF64_PAGE_SIZE - 1) = 0 \<and> \<not> fo + fs > n \<and> canonical_range va (va + ms) \<and>
    \<not> (pa \<ge> ELF64_PHYSICAL_LIMIT \<or> pa + ms > ELF64_PHYSICAL_LIMIT)"
  show ?thesis
  proof (cases "le32_at p h = 1 \<and> ep_segment_count c \<noteq> BBP_ELF64_MAX_LOAD_SEGMENTS")
    case False
    then show ?thesis using inv by (auto simp: plan_segment_def g ELF64_PT_LOAD_def st)
  next
    case load: True
    show ?thesis
    proof (cases ok)
      case False
      then have "\<exists>e. plan_segment p n entry h st = Some (Inl e) \<and> e \<noteq> BBP_ELF64_OK"
        using load unfolding ok_def
        by (auto simp: plan_segment_def g ELF64_PT_LOAD_def st add_u64_eq)
      then show ?thesis by auto
    next
      case True
      then have "plan_segment p n entry h st = Some (place_segment s (pa + ms) (va + ms) entry st)"
        using load unfolding ok_def
        by (simp add: plan_segment_def g ELF64_PT_LOAD_def st add_u64_eq s_def)
      moreover have "elf_inv n entry st'" if "place_segment s (pa + ms) (va + ms) entry (c, cov, env) = Inr st'" for st'
      proof (rule place_segment_inv [of n entry c cov env s])
        have x: "unat (fo + fs) = unat fo + unat fs" "unat (pa + ms) = unat pa + unat ms"
          using True unfolding ok_def by (intro unat_add_u64; simp)+
        show "place_segment s (sp_physical_address s + sp_memory_size s)
          (sp_virtual_address s + sp_memory_size s) entry (c, cov, env) = Inr st'" using that by (simp add: s_def)
        show "unat (sp_virtual_address s) mod 4096 = unat (sp_physical_address s) mod 4096"
          using True page_offset_eq [of va pa] by (simp add: ok_def s_def elf_consts)
        show "\<not> (bit (sp_flags s) 0 \<and> bit (sp_flags s) 1)"
          using True wx_bits [of fl] by (simp add: ok_def s_def elf_consts)
        show "unat (sp_file_offset s) + unat (sp_file_size s) \<le> unat n"
          "unat (sp_physical_address s) + unat (sp_memory_size s) \<le> 2 ^ 48"
          using True x by (simp_all add: ok_def s_def elf_consts word_nat_simps)
      qed (use True load inv st in \<open>simp_all add: ok_def s_def word_nat_simps\<close>)
      moreover have "e \<noteq> BBP_ELF64_OK" if "place_segment s (pa + ms) (va + ms) entry (c, cov, env) = Inl e" for e
        using that by (auto simp: place_segment_def Let_def split: if_splits)
      ultimately show ?thesis
        using load st hf place_segment_fields [of s "pa + ms" "va + ms" entry c cov env]
        by (auto split: sum.splits)
    qed
  qed
qed

text \<open>The program headers of an image, and those that are loaded.\<close>

definition load_headers :: "u8 list \<Rightarrow> nat \<Rightarrow> nat list \<Rightarrow> nat list" where
  "load_headers p po is = filter (\<lambda>h. le32_at p h = 1) (map (\<lambda>i. po + 56 * i) is)"

lemma plan_segments_spec:
  assumes po: "unat po + 56 * k \<le> unat n" "unat n \<le> length p" "k \<le> 32"
  shows "\<lbrakk>\<forall>i\<in>set is. i < k; elf_inv n entry st\<rbrakk> \<Longrightarrow>
    \<exists>r. plan_segments p n entry po is st = Some r \<and>
    (case r of Inl e \<Rightarrow> e \<noteq> BBP_ELF64_OK
     | Inr st' \<Rightarrow> elf_inv n entry st' \<and>
         map segment_fields (ep_segments (fst st')) = map segment_fields (ep_segments (fst st)) @
           map (phdr_fields p) (load_headers p (unat po) is))"
proof (induction "is" arbitrary: st)
  case Nil
  then show ?case by (simp add: load_headers_def)
next
  case (Cons i "is")
  have i: "i < k" using Cons.prems by simp
  have "unat (of_nat i * ELF64_PROGRAM_HEADER_SIZE :: u64) = 56 * i"
    using i po(3) by (simp add: elf_consts unat_word_ariths unat_of_nat_u64)
  then have h: "unat (po + of_nat i * ELF64_PROGRAM_HEADER_SIZE) = unat po + 56 * i"
    using i po(1) unat_u64_less [of n] by (subst unat_add_u64) auto
  have "unat po + 56 * i + 56 \<le> length p" using i po by auto
  from plan_segment_spec [OF this Cons.prems(2)] obtain r where
    r: "plan_segment p n entry (unat po + 56 * i) st = Some r"
      "case r of Inl e \<Rightarrow> e \<noteq> BBP_ELF64_OK
       | Inr st' \<Rightarrow> elf_inv n entry st' \<and>
         map segment_fields (ep_segments (fst st')) = map segment_fields (ep_segments (fst st)) @
           (if le32_at p (unat po + 56 * i) = 1 then [phdr_fields p (unat po + 56 * i)] else [])"
    by blast
  show ?case
  proof (cases r)
    case (Inl e)
    then show ?thesis using r h by simp
  next
    case (Inr st1)
    then have "elf_inv n entry st1" using r(2) by simp
    from Cons.IH [OF _ this] obtain r' where r': "plan_segments p n entry po is st1 = Some r'"
      "case r' of Inl e \<Rightarrow> e \<noteq> BBP_ELF64_OK
       | Inr st' \<Rightarrow> elf_inv n entry st' \<and>
         map segment_fields (ep_segments (fst st')) = map segment_fields (ep_segments (fst st1)) @
           map (phdr_fields p) (load_headers p (unat po) is)" using Cons.prems by auto
    then show ?thesis
      using r Inr h by (cases r') (auto simp: load_headers_def)
  qed
qed

section \<open>Properties\<close>

lemma candidate_spec:
  assumes len: "unat n \<le> length p"
  shows "\<exists>r. elf64_candidate p n = Some r \<and>
    (case r of Inl e \<Rightarrow> e \<noteq> BBP_ELF64_OK
     | Inr c \<Rightarrow> (\<exists>env. elf_inv n (le64_at p 24) (c, True, env)) \<and>
         map segment_fields (ep_segments c) =
           map (phdr_fields p) (load_headers p (unat (le64_at p 32)) [0..<unat (le16_at p 56)]))"
proof (cases "n < ELF64_HEADER_SIZE")
  case True
  then show ?thesis by (simp add: elf64_candidate_def)
next
  case False
  then have n: "64 \<le> unat n" by (simp add: elf_consts word_nat_simps)
  define po where "po = le64_at p 32"
  define pc where "pc = le16_at p 56"
  define en where "en = le64_at p 24"
  have g: "get64 p 24 = Some en" "get64 p 32 = Some po" "get16 p 56 = Some pc"
    "ne16 p 54 (ucast ELF64_PROGRAM_HEADER_SIZE) = Some (le16_at p 54 \<noteq> 56)"
    using n len by (simp_all add: get_at ne_at po_def pc_def en_def elf_consts)
  obtain bad where bad: "elf64_bad_header p = Some bad"
    using n len by (simp add: elf64_bad_header_def rd_def ne_at)
  show ?thesis
  proof (cases "bad \<or> canonical_region en = 0 \<or> le16_at p 54 \<noteq> 56 \<or> pc = 0 \<or> pc > BBP_ELF64_MAX_PROGRAM_HEADERS")
    case True
    then show ?thesis using False by (auto simp: elf64_candidate_def bad g)
  next
    case ok: False
    then have pc: "unat pc \<le> 32" by (auto simp: elf_consts word_nat_simps)
    then have sz: "unat (ucast pc * ELF64_PROGRAM_HEADER_SIZE :: u64) = 56 * unat pc"
      by (simp add: elf_consts unat_word_ariths unat_ucast_u16)
    show ?thesis
    proof (cases "unat po + 56 * unat pc \<le> unat n")
      case out: False
      then have "\<exists>e. elf64_candidate p n = Some (Inl e) \<and> e \<noteq> BBP_ELF64_OK"
        using False ok sz unat_add_u64 [of po "ucast pc * ELF64_PROGRAM_HEADER_SIZE"]
        by (auto simp: elf64_candidate_def bad g add_u64_eq word_nat_simps)
      then show ?thesis by auto
    next
      case fits: True
      let ?st = "(\<lparr>ep_entry = en, ep_physical_base = 0, ep_physical_end = 0, ep_segment_count = 0, ep_segments = []\<rparr>, False, False)"
      have inv: "elf_inv n en ?st" by (simp add: elf_inv_def elf_envelope_def)
      obtain r where r: "plan_segments p n en po [0..<unat pc] ?st = Some r"
        "case r of Inl e \<Rightarrow> e \<noteq> BBP_ELF64_OK
         | Inr st' \<Rightarrow> elf_inv n en st' \<and> map segment_fields (ep_segments (fst st')) =
             map (phdr_fields p) (load_headers p (unat po) [0..<unat pc])"
        using plan_segments_spec [OF fits len pc _ inv, of "[0..<unat pc]"]
        by (auto simp del: split_paired_All cong del: sum.case_cong_weak)
      have "\<not> po + ucast pc * ELF64_PROGRAM_HEADER_SIZE > n" "unat po + 56 * unat pc < 2 ^ 64"
        using fits sz unat_u64_less [of n] unat_add_u64 [of po "ucast pc * ELF64_PROGRAM_HEADER_SIZE"]
        by (simp_all add: word_nat_simps)
      then have "elf64_candidate p n = (case r of Inl e \<Rightarrow> Some (Inl e)
          | Inr (candidate, entry_covered, _) \<Rightarrow>
              if \<not> entry_covered then Some (Inl BBP_ELF64_ERR_ENTRY) else Some (Inr candidate))"
        using False ok sz r(1) by (simp add: elf64_candidate_def bad g add_u64_eq)
      moreover have "elf_inv n en (c, cov, env) \<Longrightarrow> cov \<Longrightarrow> \<exists>env. elf_inv n en (c, True, env)" for c cov env
        by (rule exI [of _ env]) simp
      ultimately show ?thesis
        using r(2) by (cases r) (auto simp: po_def pc_def en_def)
    qed
  qed
qed

lemma elf_plan_outcome:
  assumes "unat n \<le> length p"
    and "bbp_elf64_plan_image (Some p) n (Some dst) = Some (BBP_ELF64_OK, Some plan)"
  shows "\<exists>ss. unat (ep_segment_count plan) = length ss \<and> length ss \<le> 16 \<and>
    take (length ss) (ep_segments plan) = ss \<and>
    map segment_fields ss =
      map (phdr_fields p) (load_headers p (unat (le64_at p 32)) [0..<unat (le16_at p 56)]) \<and>
    (\<forall>s\<in>set ss. segment_ok n s) \<and> sorted_wrt seg_disjoint ss \<and>
    (\<forall>s\<in>set ss. sp_page_count s \<noteq> 0 \<longrightarrow>
       unat (ep_physical_base plan) \<le> seg_first s \<and> seg_last s \<le> unat (ep_physical_end plan)) \<and>
    (\<exists>s\<in>set ss. elf_covers (ep_entry plan) s)"
proof -
  obtain r where r: "elf64_candidate p n = Some r"
    "case r of Inl e \<Rightarrow> e \<noteq> BBP_ELF64_OK
     | Inr c \<Rightarrow> (\<exists>env. elf_inv n (le64_at p 24) (c, True, env)) \<and>
         map segment_fields (ep_segments c) =
           map (phdr_fields p) (load_headers p (unat (le64_at p 32)) [0..<unat (le16_at p 56)])"
    using candidate_spec [OF assms(1)] by blast
  then obtain c env where c: "r = Inr c" "elf_inv n (le64_at p 24) (c, True, env)" "plan = publish_plan dst c"
    "map segment_fields (ep_segments c) =
       map (phdr_fields p) (load_headers p (unat (le64_at p 32)) [0..<unat (le16_at p 56)])"
    using assms(2) by (cases r) (auto simp: bbp_elf64_plan_image_def)
  then show ?thesis
    by (intro exI [of _ "ep_segments c"]) (auto simp: publish_plan_def elf_inv_def elf_envelope_def)
qed

text \<open>C31. The load plan is safe and complete: when the planner succeeds, the planned segments are
  exactly the PT_LOAD headers of the image in order; every segment's file bytes lie in the image, its
  memory range lies below the physical limit, inside its page span and is congruent to its virtual
  address, and it is not both writable and executable; page spans are pairwise disjoint and inside
  the reported physical envelope; and the entry point lies in an executable segment.\<close>

theorem elf_plan_sound:
  assumes "unat n \<le> length p"
    and "bbp_elf64_plan_image (Some p) n (Some dst) = Some (BBP_ELF64_OK, Some plan)"
  shows "\<exists>ss. unat (ep_segment_count plan) = length ss \<and> length ss \<le> 16 \<and>
    take (length ss) (ep_segments plan) = ss \<and>
    map segment_fields ss =
      map (phdr_fields p) (load_headers p (unat (le64_at p 32)) [0..<unat (le16_at p 56)]) \<and>
    (\<forall>s\<in>set ss. segment_ok n s) \<and> sorted_wrt seg_disjoint ss \<and>
    (\<forall>s\<in>set ss. sp_page_count s \<noteq> 0 \<longrightarrow>
       unat (ep_physical_base plan) \<le> seg_first s \<and> seg_last s \<le> unat (ep_physical_end plan)) \<and>
    (\<exists>s\<in>set ss. elf_covers (ep_entry plan) s)"
  using assms by (rule elf_plan_outcome)

text \<open>C32. The planner is total and transactional: it never reads outside the image, and when it does
  not succeed the caller's plan is exactly what it was before the call.\<close>

theorem elf_plan_transactional:
  assumes "\<forall>p. img = Some p \<longrightarrow> unat n \<le> length p"
  shows "\<exists>status plan'. bbp_elf64_plan_image img n plan = Some (status, plan') \<and>
    (status = BBP_ELF64_OK \<or> plan' = plan)"
proof (cases img)
  case None
  then show ?thesis by (simp add: bbp_elf64_plan_image_def)
next
  case (Some p)
  then obtain r where "elf64_candidate p n = Some r" using candidate_spec [of n p] assms by blast
  with Some show ?thesis by (cases r; cases plan) (auto simp: bbp_elf64_plan_image_def)
qed

section \<open>Witnesses\<close>

text \<open>An executable with one read-execute segment of one page at 1 MiB.\<close>

definition demo_elf :: "u8 list" where
  "demo_elf = [0x7f, 0x45, 0x4c, 0x46, 2, 1, 1, 0] @ replicate 8 0 @ [2, 0, 62, 0, 1, 0, 0, 0] @
     put_le 8 (0x100010 :: u64) @ put_le 8 (64 :: u64) @ replicate 12 0 @ [64, 0, 56, 0, 1, 0] @ replicate 6 0 @
     [1, 0, 0, 0, 5, 0, 0, 0] @ put_le 8 (0 :: u64) @ put_le 8 (0x100000 :: u64) @ put_le 8 (0x100000 :: u64) @
     put_le 8 (0x60 :: u64) @ put_le 8 (0x100 :: u64) @ put_le 8 (0x1000 :: u64)"

lemma demo_elf_length: "length demo_elf = 120"
  by (simp add: demo_elf_def)

lemma demo_elf_ok: "case elf64_candidate demo_elf 120 of Some (Inr c) \<Rightarrow> True | _ \<Rightarrow> False"
  by code_simp

lemma demo_elf_planned:
  "\<exists>plan. bbp_elf64_plan_image (Some demo_elf) 120 (Some dst) = Some (BBP_ELF64_OK, Some plan)"
  using demo_elf_ok by (simp add: bbp_elf64_plan_image_def split: option.splits sum.splits)

theorem elf_plan_sound_witness:
  "\<exists>plan dst. bbp_elf64_plan_image (Some demo_elf) 120 (Some dst) = Some (BBP_ELF64_OK, Some plan) \<and>
     (\<exists>s\<in>set (take (unat (ep_segment_count plan)) (ep_segments plan)). elf_covers (ep_entry plan) s)"
proof -
  obtain dst plan where p: "bbp_elf64_plan_image (Some demo_elf) 120 (Some dst) = Some (BBP_ELF64_OK, Some plan)"
    using demo_elf_planned by blast
  have "unat (120 :: u64) \<le> length demo_elf" by (simp add: demo_elf_length)
  from elf_plan_sound [OF this p] p show ?thesis by metis
qed

theorem elf_plan_transactional_witness:
  "\<forall>dst. \<exists>status plan'. bbp_elf64_plan_image (Some demo_elf) 100 (Some dst) = Some (status, plan') \<and>
     (status = BBP_ELF64_OK \<or> plan' = Some dst)"
  by (rule allI, rule elf_plan_transactional) (simp add: demo_elf_length)

end
