(* ===== verification/Page_Tables.thy ===== *)
theory Page_Tables
  imports Elf64
begin

text \<open>
  The page tables the UEFI loader builds for the kernel, \<open>table_new\<close>, \<open>map_page\<close> and
  \<open>build_page_tables\<close> of \<open>bootloader/efi_main.c\<close>, over byte memory. The tables are pages of a zeroed pool;
  a result \<^term>\<open>None\<close> is an access outside mapped memory. The reference is the address translation of the
  processor: \<open>mmu\<close> walks four levels of tables and gives the physical address with the write and
  no-execute permissions.
\<close>

unbundle bit_operations_syntax

section \<open>Model\<close>

abbreviation EFI_PAGE_SIZE :: u64 where "EFI_PAGE_SIZE \<equiv> 4096"
abbreviation X86_PTE_PRESENT :: u64 where "X86_PTE_PRESENT \<equiv> 1"
abbreviation X86_PTE_WRITABLE :: u64 where "X86_PTE_WRITABLE \<equiv> 2"
abbreviation X86_PTE_LARGE :: u64 where "X86_PTE_LARGE \<equiv> 0x80"
abbreviation X86_PTE_NX :: u64 where "X86_PTE_NX \<equiv> 0x8000000000000000"
abbreviation PTE_ADDRESS :: u64 where "PTE_ADDRESS \<equiv> 0x000ffffffffff000"

record page_pool =
  pp_base :: u64
  pp_used :: u64
  pp_count :: u64

definition table_new :: "page_pool \<Rightarrow> u64 \<times> page_pool" where
  "table_new pool =
     (if pp_used pool = pp_count pool then (0, pool)
      else (pp_base pool + pp_used pool * EFI_PAGE_SIZE, pool\<lparr>pp_used := pp_used pool + 1\<rparr>))"

definition table_index :: "nat \<Rightarrow> u64 \<Rightarrow> u64" where
  "table_index shift virtual_address = drop_bit shift virtual_address AND 0x1ff"

text \<open>One level of the descent; an inner \<^term>\<open>None\<close> is the return value 0 of \<open>map_page\<close>.\<close>

definition map_level :: "nat \<Rightarrow> page_pool \<Rightarrow> u64 \<Rightarrow> u64 \<Rightarrow> mem \<Rightarrow> (u64 option \<times> page_pool \<times> mem) option" where
  "map_level shift pool table virtual_address m = do {
     let slot = table + 8 * table_index shift virtual_address;
     e \<leftarrow> ld64 m slot;
     (ok, pool, m) \<leftarrow>
       (if e AND X86_PTE_PRESENT = 0 then
          (case table_new pool of (nxt, pool) \<Rightarrow>
             if nxt = 0 then Some (False, pool, m)
             else do {
               m \<leftarrow> st64 m slot (nxt OR X86_PTE_PRESENT OR X86_PTE_WRITABLE);
               Some (True, pool, m)
             })
        else Some (True, pool, m));
     if \<not> ok then Some (None, pool, m)
     else do {
       e \<leftarrow> ld64 m slot;
       if e AND X86_PTE_LARGE \<noteq> 0 then Some (None, pool, m)
       else Some (Some (e AND PTE_ADDRESS), pool, m)
     }
   }"

fun map_walk :: "nat list \<Rightarrow> page_pool \<Rightarrow> u64 \<Rightarrow> u64 \<Rightarrow> mem \<Rightarrow> (u64 option \<times> page_pool \<times> mem) option" where
  "map_walk [] pool table virtual_address m = Some (Some table, pool, m)"
| "map_walk (shift # shifts) pool table virtual_address m = do {
     (r, pool, m) \<leftarrow> map_level shift pool table virtual_address m;
     case r of None \<Rightarrow> Some (None, pool, m)
     | Some table \<Rightarrow> map_walk shifts pool table virtual_address m
   }"

definition map_page :: "page_pool \<Rightarrow> u64 \<Rightarrow> u64 \<Rightarrow> u64 \<Rightarrow> u64 \<Rightarrow> mem \<Rightarrow> (bool \<times> page_pool \<times> mem) option" where
  "map_page pool pml4_address virtual_address physical_address flags m = do {
     (r, pool, m) \<leftarrow> map_walk [39, 30, 21] pool pml4_address virtual_address m;
     case r of
       None \<Rightarrow> Some (False, pool, m)
     | Some table \<Rightarrow> do {
         let slot = table + 8 * table_index 12 virtual_address;
         e \<leftarrow> ld64 m slot;
         if e AND X86_PTE_PRESENT \<noteq> 0 then Some (False, pool, m)
         else do {
           m \<leftarrow> st64 m slot ((physical_address AND PTE_ADDRESS) OR flags OR X86_PTE_PRESENT);
           Some (True, pool, m)
         }
       }
   }"

text \<open>The page table of the first two megabytes.\<close>

fun fill_first_pt :: "u64 \<Rightarrow> nat list \<Rightarrow> mem \<Rightarrow> mem option" where
  "fill_first_pt first_pt [] m = Some m"
| "fill_first_pt first_pt (page # pages) m = do {
     m \<leftarrow> st64 m (first_pt + 8 * of_nat page)
           (of_nat page * EFI_PAGE_SIZE OR X86_PTE_PRESENT OR X86_PTE_WRITABLE);
     fill_first_pt first_pt pages m
   }"

definition map_2mb :: "bool \<Rightarrow> u64 \<Rightarrow> u64 \<Rightarrow> nat \<Rightarrow> nat \<Rightarrow> page_pool \<Rightarrow> mem \<Rightarrow> (bool \<times> page_pool \<times> mem) option" where
  "map_2mb unmap_null identity_pd hhdm_pd gb mb pool m = do {
     let physical = of_nat gb * 0x40000000 + of_nat mb * 0x200000;
     m \<leftarrow> st64 m (hhdm_pd + 8 * of_nat mb) (physical OR X86_PTE_PRESENT OR X86_PTE_WRITABLE OR X86_PTE_LARGE);
     if physical \<noteq> 0 then do {
       m \<leftarrow> st64 m (identity_pd + 8 * of_nat mb)
             (physical OR X86_PTE_PRESENT OR X86_PTE_WRITABLE OR X86_PTE_LARGE);
       Some (True, pool, m)
     }
     else (case table_new pool of (first_pt, pool) \<Rightarrow>
       if first_pt = 0 then Some (False, pool, m)
       else do {
         m \<leftarrow> st64 m (identity_pd + 8 * of_nat mb) (first_pt OR X86_PTE_PRESENT OR X86_PTE_WRITABLE);
         m \<leftarrow> fill_first_pt first_pt [(if unmap_null then 1 else 0)..<512] m;
         Some (True, pool, m)
       })
   }"

fun mb_loop :: "bool \<Rightarrow> u64 \<Rightarrow> u64 \<Rightarrow> nat \<Rightarrow> nat list \<Rightarrow> page_pool \<Rightarrow> mem \<Rightarrow> (bool \<times> page_pool \<times> mem) option" where
  "mb_loop unmap_null identity_pd hhdm_pd gb [] pool m = Some (True, pool, m)"
| "mb_loop unmap_null identity_pd hhdm_pd gb (mb # mbs) pool m = do {
     (ok, pool, m) \<leftarrow> map_2mb unmap_null identity_pd hhdm_pd gb mb pool m;
     if \<not> ok then Some (False, pool, m)
     else mb_loop unmap_null identity_pd hhdm_pd gb mbs pool m
   }"

definition map_1gb :: "bool \<Rightarrow> u64 \<Rightarrow> u64 \<Rightarrow> nat \<Rightarrow> page_pool \<Rightarrow> mem \<Rightarrow> (bool \<times> page_pool \<times> mem) option" where
  "map_1gb unmap_null identity_pdpt hhdm_pdpt gb pool m =
     (case table_new pool of (identity_pd, pool) \<Rightarrow>
      case table_new pool of (hhdm_pd, pool) \<Rightarrow>
        if identity_pd = 0 \<or> hhdm_pd = 0 then Some (False, pool, m)
        else do {
          m \<leftarrow> st64 m (identity_pdpt + 8 * of_nat gb) (identity_pd OR X86_PTE_PRESENT OR X86_PTE_WRITABLE);
          m \<leftarrow> st64 m (hhdm_pdpt + 8 * of_nat gb) (hhdm_pd OR X86_PTE_PRESENT OR X86_PTE_WRITABLE);
          mb_loop unmap_null identity_pd hhdm_pd gb [0..<512] pool m
        })"

fun gb_loop :: "bool \<Rightarrow> u64 \<Rightarrow> u64 \<Rightarrow> nat list \<Rightarrow> page_pool \<Rightarrow> mem \<Rightarrow> (bool \<times> page_pool \<times> mem) option" where
  "gb_loop unmap_null identity_pdpt hhdm_pdpt [] pool m = Some (True, pool, m)"
| "gb_loop unmap_null identity_pdpt hhdm_pdpt (gb # gbs) pool m = do {
     (ok, pool, m) \<leftarrow> map_1gb unmap_null identity_pdpt hhdm_pdpt gb pool m;
     if \<not> ok then Some (False, pool, m)
     else gb_loop unmap_null identity_pdpt hhdm_pdpt gbs pool m
   }"

definition segment_pte_flags :: "bool \<Rightarrow> bbp_elf64_segment_plan \<Rightarrow> u64" where
  "segment_pte_flags enable_nx segment =
     (let flags = (if sp_flags segment AND BBP_ELF64_PF_W \<noteq> 0 then X86_PTE_WRITABLE else 0) in
      if enable_nx \<and> sp_flags segment AND BBP_ELF64_PF_X = 0 then flags OR X86_PTE_NX else flags)"

text \<open>The loop over the pages of a segment.\<close>

fun page_loop ::
  "u64 \<Rightarrow> u64 \<Rightarrow> u64 \<Rightarrow> u64 \<Rightarrow> nat list \<Rightarrow> page_pool \<Rightarrow> mem \<Rightarrow> (bool \<times> page_pool \<times> mem) option" where
  "page_loop pml4_address virtual_page page_base flags [] pool m = Some (True, pool, m)"
| "page_loop pml4_address virtual_page page_base flags (page # pages) pool m = do {
     (ok, pool, m) \<leftarrow> map_page pool pml4_address (virtual_page + of_nat page * EFI_PAGE_SIZE)
                       (page_base + of_nat page * EFI_PAGE_SIZE) flags m;
     if \<not> ok then Some (False, pool, m)
     else page_loop pml4_address virtual_page page_base flags pages pool m
   }"

definition map_segment ::
  "bool \<Rightarrow> u64 \<Rightarrow> bbp_elf64_segment_plan \<Rightarrow> page_pool \<Rightarrow> mem \<Rightarrow> (bool \<times> page_pool \<times> mem) option" where
  "map_segment enable_nx pml4_address segment pool m =
     (let delta = sp_physical_address segment - sp_page_base segment;
          virtual_page = sp_virtual_address segment - delta in
      page_loop pml4_address virtual_page (sp_page_base segment) (segment_pte_flags enable_nx segment)
        [0..<unat (sp_page_count segment)] pool m)"

text \<open>The loop over the segments; an index outside the array is a fault.\<close>

fun segment_loop ::
  "bool \<Rightarrow> u64 \<Rightarrow> bbp_elf64_segment_plan list \<Rightarrow> nat list \<Rightarrow> page_pool \<Rightarrow> mem \<Rightarrow> (bool \<times> page_pool \<times> mem) option" where
  "segment_loop enable_nx pml4_address segments [] pool m = Some (True, pool, m)"
| "segment_loop enable_nx pml4_address segments (i # is) pool m =
     (if i \<ge> length segments then None
      else do {
        (ok, pool, m) \<leftarrow> map_segment enable_nx pml4_address (segments ! i) pool m;
        if \<not> ok then Some (False, pool, m)
        else segment_loop enable_nx pml4_address segments is pool m
      })"

text \<open>The result is the address of the top table, \<^term>\<open>None\<close> for the return value 0.\<close>

definition build_page_tables ::
  "page_pool \<Rightarrow> bbp_elf64_plan \<Rightarrow> bool \<Rightarrow> bool \<Rightarrow> mem \<Rightarrow> (u64 option \<times> page_pool \<times> mem) option" where
  "build_page_tables pool plan enable_nx unmap_null m =
     (case table_new pool of (pml4_address, pool) \<Rightarrow>
      case table_new pool of (identity_pdpt, pool) \<Rightarrow>
      case table_new pool of (hhdm_pdpt, pool) \<Rightarrow>
        if pml4_address = 0 \<or> identity_pdpt = 0 \<or> hhdm_pdpt = 0 then Some (None, pool, m)
        else do {
          m \<leftarrow> st64 m (pml4_address + 8 * 0) (identity_pdpt OR X86_PTE_PRESENT OR X86_PTE_WRITABLE);
          m \<leftarrow> st64 m (pml4_address + 8 * 256) (hhdm_pdpt OR X86_PTE_PRESENT OR X86_PTE_WRITABLE);
          (ok, pool, m) \<leftarrow> gb_loop unmap_null identity_pdpt hhdm_pdpt [0..<4] pool m;
          if \<not> ok then Some (None, pool, m)
          else do {
            (ok, pool, m) \<leftarrow> segment_loop enable_nx pml4_address (ep_segments plan)
                              [0..<unat (ep_segment_count plan)] pool m;
            if \<not> ok then Some (None, pool, m) else Some (Some pml4_address, pool, m)
          }
        })"

section \<open>Address translation\<close>

text \<open>The processor's walk: the shifts of the remaining levels, the table, the address and the permissions
  gathered so far. A large entry ends the walk on the second and third level and is reserved on the
  first.\<close>

fun mmu_walk :: "mem \<Rightarrow> nat list \<Rightarrow> u64 \<Rightarrow> u64 \<Rightarrow> bool \<Rightarrow> bool \<Rightarrow> (u64 \<times> bool \<times> bool) option" where
  "mmu_walk m [] table va w nx = None"
| "mmu_walk m (s # ss) table va w nx = do {
     e \<leftarrow> ld64 m (table + 8 * table_index s va);
     let w = (w \<and> e AND X86_PTE_WRITABLE \<noteq> 0);
     let nx = (nx \<or> e AND X86_PTE_NX \<noteq> 0);
     if e AND X86_PTE_PRESENT = 0 then None
     else if ss = [] \<or> s \<le> 30 \<and> e AND X86_PTE_LARGE \<noteq> 0
     then Some ((e AND PTE_ADDRESS AND NOT (mask s)) OR (va AND mask s), w, nx)
     else if e AND X86_PTE_LARGE \<noteq> 0 then None
     else mmu_walk m ss (e AND PTE_ADDRESS) va w nx
   }"

definition mmu :: "mem \<Rightarrow> u64 \<Rightarrow> u64 \<Rightarrow> (u64 \<times> bool \<times> bool) option" where
  "mmu m pml4 va =
     (if canonical_region va = 0 then None else mmu_walk m [39, 30, 21, 12] pml4 va True False)"

text \<open>The page of an address: its indices into the tables of the four levels.\<close>

definition page_path :: "u64 \<Rightarrow> nat list" where
  "page_path va = map (\<lambda>s. unat (table_index s va)) [39, 30, 21, 12]"

lemma length_page_path [simp]: "length (page_path va) = 4"
  by (simp add: page_path_def)

lemma table_index_less: "unat (table_index s va) < 512"
  using unat_and_pred [of "0x1ff" 9 "drop_bit s va"] by (simp add: table_index_def)

lemma page_path_less: "i \<in> set (page_path va) \<Longrightarrow> i < 512"
  by (auto simp: page_path_def table_index_less)

section \<open>Entries\<close>

lemma page_aligned_and:
  assumes "4096 dvd unat (a :: u64)" "unat a < 2 ^ 52"
  shows "a AND PTE_ADDRESS = a" "a AND 0xfff = 0"
proof -
  have "take_bit 12 (unat a) = 0" using assms(1) by (simp add: take_bit_eq_mod)
  then have low: "take_bit 12 a = 0" by (metis unsigned_take_bit_eq unsigned_eq_0_iff)
  have high: "take_bit 52 a = a"
    using assms(2) by (simp add: word_unat_eq_iff unsigned_take_bit_eq take_bit_nat_eq_self)
  have bits: "12 \<le> k \<and> k < 52" if "bit a k" for k
    using that arg_cong [OF low, of "\<lambda>x. bit x k"] arg_cong [OF high, of "\<lambda>x. bit x k"]
    by (auto simp: bit_take_bit_iff not_less)
  have e: "PTE_ADDRESS = mask 52 AND NOT (mask 12)" by (simp add: mask_eq_exp_minus_1)
  show "a AND PTE_ADDRESS = a"
    unfolding e by (rule bit_word_eqI) (auto simp: bit_and_iff bit_mask_iff bit_not_iff dest: bits)
  have "0xfff = (mask 12 :: u64)" by (simp add: mask_eq_exp_minus_1)
  with low show "a AND 0xfff = 0" by (simp add: take_bit_eq_mask)
qed

lemma page_aligned_low:
  assumes "4096 dvd unat (a :: u64)" "unat a < 2 ^ 52" "f AND PTE_ADDRESS = 0"
  shows "(a OR f) AND PTE_ADDRESS = a" "a AND 1 = 0" "a AND 2 = 0" "a AND 0x80 = 0" "a AND X86_PTE_NX = 0"
proof -
  have a: "a = a AND PTE_ADDRESS" by (rule page_aligned_and(1) [OF assms(1,2), symmetric])
  show "(a OR f) AND PTE_ADDRESS = a" using assms(3) by (simp add: bit.conj_disj_distrib2 a [symmetric])
  show "a AND 1 = 0" by (subst a) (simp add: and.assoc)
  show "a AND 2 = 0" by (subst a) (simp add: and.assoc)
  show "a AND 0x80 = 0" by (subst a) (simp add: and.assoc)
  show "a AND X86_PTE_NX = 0" by (subst a) (simp add: and.assoc)
qed

text \<open>The entry that links a table.\<close>

abbreviation link_to :: "u64 \<Rightarrow> u64" where "link_to a \<equiv> a OR X86_PTE_PRESENT OR X86_PTE_WRITABLE"

lemma link_bits:
  assumes "4096 dvd unat (a :: u64)" "unat a < 2 ^ 52"
  shows "link_to a AND PTE_ADDRESS = a" "link_to a AND 1 \<noteq> 0" "link_to a AND 2 \<noteq> 0"
    "link_to a AND 0x80 = 0" "link_to a AND X86_PTE_NX = 0"
  using page_aligned_low [OF assms, of "1 OR 2"] by (simp_all add: bit.conj_disj_distrib2)

section \<open>Tables as a tree of paths\<close>

text \<open>The tables of the pool are numbered; \<open>P\<close> gives each linked table the indices that lead to it from
  the top table, and \<open>ents\<close> the entry at the end of a path of indices. Tables past the linked ones are
  zero.\<close>

definition tab :: "u64 \<Rightarrow> nat \<Rightarrow> u64" where
  "tab base t = base + of_nat (4096 * t)"

definition pool_range :: "u64 \<Rightarrow> nat \<Rightarrow> bool" where
  "pool_range base n \<longleftrightarrow> base \<noteq> 0 \<and> 4096 dvd unat base \<and> unat base + 4096 * n \<le> 2 ^ 52"

abbreviation paths :: "nat \<Rightarrow> (nat \<Rightarrow> nat list) \<Rightarrow> nat list set" where
  "paths u P \<equiv> P ` {..<u}"

text \<open>An entry above the last level is absent, links the table of its path, or maps a large page.\<close>

definition inner_entry :: "u64 \<Rightarrow> nat \<Rightarrow> (nat \<Rightarrow> nat list) \<Rightarrow> (nat list \<Rightarrow> u64) \<Rightarrow> nat list \<Rightarrow> bool" where
  "inner_entry base u P ents p \<longleftrightarrow>
     ents p = 0 \<and> p \<notin> paths u P \<or>
     (\<exists>c<u. P c = p \<and> ents p = link_to (tab base c)) \<or>
     length p = 3 \<and> p \<notin> paths u P \<and> ents p AND X86_PTE_PRESENT \<noteq> 0 \<and> ents p AND X86_PTE_LARGE \<noteq> 0"

definition tree :: "u64 \<Rightarrow> nat \<Rightarrow> nat \<Rightarrow> (nat \<Rightarrow> nat list) \<Rightarrow> (nat list \<Rightarrow> u64) \<Rightarrow> mem \<Rightarrow> bool" where
  "tree base n u P ents m \<longleftrightarrow>
     pool_range base n \<and> 0 < u \<and> u \<le> n \<and> inj_on P {..<u} \<and> P 0 = [] \<and>
     (\<forall>t<u. length (P t) \<le> 3 \<and> (t \<noteq> 0 \<longrightarrow> (\<exists>s<u. \<exists>i<512. P t = P s @ [i]))) \<and>
     (\<forall>p. ents p \<noteq> 0 \<longrightarrow> (\<exists>t<u. \<exists>i<512. p = P t @ [i])) \<and>
     (\<forall>t<u. \<forall>i<512. length (P t) < 3 \<longrightarrow> inner_entry base u P ents (P t @ [i])) \<and>
     (\<forall>t<n. \<forall>i<512. ld64 m (tab base t + 8 * of_nat i) = Some (if t < u then ents (P t @ [i]) else 0))"

lemma tab_unat:
  assumes "pool_range base n" "t < n"
  shows "unat (tab base t) = unat base + 4096 * t" "4096 dvd unat (tab base t)" "unat (tab base t) < 2 ^ 52"
    "tab base t \<noteq> 0"
proof -
  have b: "unat base + 4096 * n \<le> 2 ^ 52" "4096 dvd unat base" "base \<noteq> 0"
    using assms(1) by (auto simp: pool_range_def)
  have lt: "4096 * t < 4096 * n" using assms(2) by simp
  then have u: "unat (of_nat (4096 * t) :: u64) = 4096 * t" using b(1) by (intro unat_of_nat_u64) simp
  have "unat base + unat (of_nat (4096 * t) :: u64) < 2 ^ 64" unfolding u using b(1) lt by simp
  from unat_add_u64 [OF this] show e: "unat (tab base t) = unat base + 4096 * t"
    unfolding tab_def u .
  show "4096 dvd unat (tab base t)" unfolding e using b(2) by simp
  show "unat (tab base t) < 2 ^ 52" unfolding e using b(1) lt by linarith
  have "0 < unat base" using b(3) by (simp add: unat_gt_0)
  then show "tab base t \<noteq> 0" using e by (metis add_is_0 less_irrefl unsigned_0)
qed

lemma tab_link:
  assumes "pool_range base n" "t < n"
  shows "link_to (tab base t) AND PTE_ADDRESS = tab base t" "link_to (tab base t) AND 1 \<noteq> 0"
    "link_to (tab base t) AND 2 \<noteq> 0" "link_to (tab base t) AND 0x80 = 0"
    "link_to (tab base t) AND X86_PTE_NX = 0"
  using link_bits [OF tab_unat(2,3) [OF assms]] by auto

lemma slot_offset: "tab base t + 8 * of_nat i = base + of_nat (4096 * t + 8 * i)"
  by (simp add: tab_def)

lemma slot_store:
  assumes g: "pool_range base n" and t: "t < n" "i < 512"
    and r: "\<And>s j. s < n \<Longrightarrow> j < 512 \<Longrightarrow> ld64 m (tab base s + 8 * of_nat j) = Some (T s j)"
  obtains m' where "st64 m (tab base t + 8 * of_nat i) v = Some m'"
    "\<And>s j. s < n \<Longrightarrow> j < 512 \<Longrightarrow>
       ld64 m' (tab base s + 8 * of_nat j) = Some (if s = t \<and> j = i then v else T s j)"
    "frame m m' (span base (4096 * n))" "same_dom m m'"
proof -
  have lim: "4096 * n \<le> 2 ^ 52" using g by (auto simp: pool_range_def)
  have off: "4096 * s + 8 * j + 8 \<le> 4096 * n" if "s < n" "j < 512" for s j
  proof -
    have "4096 * Suc s \<le> 4096 * n" using that(1) by simp
    then show ?thesis using that(2) by simp
  qed
  have "ld64 m (tab base t + 8 * of_nat i) \<noteq> None" using r [OF t] by simp
  then have "mapped m (tab base t + 8 * of_nat i) 8" by (auto simp: ld64_def simp flip: load_ne_None_iff)
  then obtain m' where m': "store m (tab base t + 8 * of_nat i) (put_le 8 v) = Some m'"
    using store_ok [of m _ "put_le 8 v"] by auto
  have same: "ld64 m' (tab base s + 8 * of_nat j) = Some (if s = t \<and> j = i then v else T s j)"
    if s: "s < n" "j < 512" for s j
  proof (cases "s = t \<and> j = i")
    case True
    then show ?thesis using load_store_same [OF m'] by (simp add: ld64_def le64.dec_enc)
  next
    case False
    have "4096 * t + 8 * i + 8 \<le> 4096 * s + 8 * j \<or> 4096 * s + 8 * j + 8 \<le> 4096 * t + 8 * i"
      using False s(2) t(2) by (cases "s = t"; cases "s < t") auto
    then have "load m' (base + of_nat (4096 * s + 8 * j)) 8 = load m (base + of_nat (4096 * s + 8 * j)) 8"
      by (intro load_store_offsets [OF m' [unfolded slot_offset]]) (use off [OF s] off [OF t] lim in simp_all)
    then have "ld64 m' (tab base s + 8 * of_nat j) = ld64 m (tab base s + 8 * of_nat j)"
      by (simp add: ld64_def slot_offset)
    with r [OF s] False show ?thesis by auto
  qed
  have "frame m m' (span (base + of_nat (4096 * t + 8 * i)) 8)"
    using frame_store [OF m'] by (simp add: slot_offset)
  then have fr: "frame m m' (span base (4096 * n))" by (rule frame_mono) (rule span_sub [OF off [OF t]])
  show ?thesis
    by (rule that [OF _ same fr same_dom_store [OF m']]) (use m' in \<open>simp_all add: st64_def\<close>)
qed

lemma treeD:
  assumes "tree base n u P ents m"
  shows "pool_range base n" "0 < u" "u \<le> n" "inj_on P {..<u}" "P 0 = []"
    and "\<And>t. t < u \<Longrightarrow> length (P t) \<le> 3"
    and "\<And>t. t < u \<Longrightarrow> t \<noteq> 0 \<Longrightarrow> \<exists>s<u. \<exists>i<512. P t = P s @ [i]"
    and "\<And>p. ents p \<noteq> 0 \<Longrightarrow> \<exists>t<u. \<exists>i<512. p = P t @ [i]"
    and "\<And>t i. t < u \<Longrightarrow> i < 512 \<Longrightarrow> length (P t) < 3 \<Longrightarrow> inner_entry base u P ents (P t @ [i])"
    and "\<And>t i. t < n \<Longrightarrow> i < 512 \<Longrightarrow>
      ld64 m (tab base t + 8 * of_nat i) = Some (if t < u then ents (P t @ [i]) else 0)"
  using assms unfolding tree_def by auto

lemma tree_read:
  assumes "tree base n u P ents m" "t < u" "i < 512"
  shows "ld64 m (tab base t + 8 * of_nat i) = Some (ents (P t @ [i]))"
  using treeD(3,10) [OF assms(1)] assms(2,3) by simp

lemma tree_path_eq:
  assumes "tree base n u P ents m" "s < u" "t < u"
  shows "P s = P t \<longleftrightarrow> s = t"
  using treeD(4) [OF assms(1)] assms(2,3) by (auto dest: inj_onD)

lemma tree_card:
  assumes "tree base n u P ents m"
  shows "card (paths u P) = u" "finite (paths u P)"
  using treeD(4) [OF assms] by (simp_all add: card_image)

lemma tree_store:
  assumes tr: "tree base n u P ents m" and t: "t < u" "i < 512"
  obtains m' where "st64 m (tab base t + 8 * of_nat i) v = Some m'"
    "\<And>s j. s < n \<Longrightarrow> j < 512 \<Longrightarrow>
       ld64 m' (tab base s + 8 * of_nat j) = Some (if s < u then (ents(P t @ [i] := v)) (P s @ [j]) else 0)"
    "frame m m' (span base (4096 * n))" "same_dom m m'"
proof -
  note D = treeD [OF tr]
  have tn: "t < n" using t(1) D(3) by simp
  obtain m' where m': "st64 m (tab base t + 8 * of_nat i) v = Some m'"
    and r: "\<And>s j. s < n \<Longrightarrow> j < 512 \<Longrightarrow> ld64 m' (tab base s + 8 * of_nat j) =
      Some (if s = t \<and> j = i then v else if s < u then ents (P s @ [j]) else 0)"
    and f: "frame m m' (span base (4096 * n))" "same_dom m m'"
    using slot_store [OF D(1) tn t(2), of m "\<lambda>s j. if s < u then ents (P s @ [j]) else 0"] D(10) by metis
  have "ld64 m' (tab base s + 8 * of_nat j) = Some (if s < u then (ents(P t @ [i] := v)) (P s @ [j]) else 0)"
    if "s < n" "j < 512" for s j
    using r [OF that] t(1) tree_path_eq [OF tr, of s t] by (auto split: if_splits)
  with m' f show ?thesis using that by blast
qed

lemma tree_leaf:
  assumes tr: "tree base n u P ents m" and t: "t < u" "i < 512" and d: "length (P t) = 3"
  obtains m' where "st64 m (tab base t + 8 * of_nat i) v = Some m'"
    "tree base n u P (ents(P t @ [i] := v)) m'" "frame m m' (span base (4096 * n))" "same_dom m m'"
proof -
  note D = treeD [OF tr]
  obtain m' where m': "st64 m (tab base t + 8 * of_nat i) v = Some m'"
    and r: "\<And>s j. s < n \<Longrightarrow> j < 512 \<Longrightarrow> ld64 m' (tab base s + 8 * of_nat j) =
      Some (if s < u then (ents(P t @ [i] := v)) (P s @ [j]) else 0)"
    and f: "frame m m' (span base (4096 * n))" "same_dom m m'"
    using tree_store [OF tr t] by metis
  have "tree base n u P (ents(P t @ [i] := v)) m'"
    unfolding tree_def
  proof (intro conjI allI impI)
    show "pool_range base n" "0 < u" "u \<le> n" "inj_on P {..<u}" "P 0 = []" by (rule D)+
    show "length (P s) \<le> 3" if "s < u" for s using D(6) that .
    show "\<exists>r<u. \<exists>i<512. P s = P r @ [i]" if "s < u" "s \<noteq> 0" for s using D(7) that .
    show "\<exists>s<u. \<exists>j<512. p = P s @ [j]" if "(ents(P t @ [i] := v)) p \<noteq> 0" for p
      using that D(8) [of p] t by (cases "p = P t @ [i]") auto
    show "inner_entry base u P (ents(P t @ [i] := v)) (P s @ [j])" if "s < u" "j < 512" "length (P s) < 3" for s j
      using D(9) [OF that] that(3) d by (auto simp: inner_entry_def)
  qed (rule r)
  with m' f show ?thesis using that by blast
qed

lemma tree_new_path:
  assumes tr: "tree base n u P ents m" and t: "t < u" "i < 512" and d: "length (P t) < 3"
    and z: "ents (P t @ [i]) = 0"
  shows "P t @ [i] \<notin> paths u P"
proof
  assume "P t @ [i] \<in> paths u P"
  then obtain c where "c < u" "ents (P t @ [i]) = link_to (tab base c)"
    using treeD(9) [OF tr t d] by (auto simp: inner_entry_def)
  moreover have "c < n" using \<open>c < u\<close> treeD(3) [OF tr] by simp
  ultimately show False using z tab_link(2) [OF treeD(1) [OF tr], of c] by auto
qed

lemma tree_large:
  assumes tr: "tree base n u P ents m" and t: "t < u" "i < 512" and d: "length (P t) = 2"
    and z: "ents (P t @ [i]) = 0" and v: "v AND X86_PTE_PRESENT \<noteq> 0" "v AND X86_PTE_LARGE \<noteq> 0"
  obtains m' where "st64 m (tab base t + 8 * of_nat i) v = Some m'"
    "tree base n u P (ents(P t @ [i] := v)) m'" "frame m m' (span base (4096 * n))" "same_dom m m'"
proof -
  note D = treeD [OF tr]
  obtain m' where m': "st64 m (tab base t + 8 * of_nat i) v = Some m'"
    and r: "\<And>s j. s < n \<Longrightarrow> j < 512 \<Longrightarrow> ld64 m' (tab base s + 8 * of_nat j) =
      Some (if s < u then (ents(P t @ [i] := v)) (P s @ [j]) else 0)"
    and f: "frame m m' (span base (4096 * n))" "same_dom m m'"
    using tree_store [OF tr t] by metis
  have new: "P t @ [i] \<notin> paths u P" using tree_new_path [OF tr t _ z] d by simp
  have "tree base n u P (ents(P t @ [i] := v)) m'"
    unfolding tree_def
  proof (intro conjI allI impI)
    show "pool_range base n" "0 < u" "u \<le> n" "inj_on P {..<u}" "P 0 = []" by (rule D)+
    show "length (P s) \<le> 3" if "s < u" for s using D(6) that .
    show "\<exists>r<u. \<exists>i<512. P s = P r @ [i]" if "s < u" "s \<noteq> 0" for s using D(7) that .
    show "\<exists>s<u. \<exists>j<512. p = P s @ [j]" if "(ents(P t @ [i] := v)) p \<noteq> 0" for p
      using that D(8) [of p] t by (cases "p = P t @ [i]") auto
    show "inner_entry base u P (ents(P t @ [i] := v)) (P s @ [j])" if "s < u" "j < 512" "length (P s) < 3" for s j
      using D(9) [OF that] d new v by (auto simp: inner_entry_def)
  qed (rule r)
  with m' f show ?thesis using that by blast
qed

text \<open>Linking the next table of the pool.\<close>

lemma paths_link: "paths (Suc u) (P(u := p)) = insert p (paths u P)"
proof -
  have "(P(u := p)) ` {..<u} = paths u P" by auto
  then show ?thesis by (metis fun_upd_same image_insert lessThan_Suc)
qed

lemma inner_entry_link:
  assumes "inner_entry base u P ents q" "q \<noteq> p"
  shows "inner_entry base (Suc u) (P(u := p)) (ents(p := v)) q"
proof -
  have "\<exists>c<Suc u. (P(u := p)) c = q \<and> e = link_to (tab base c)"
    if "\<exists>c<u. P c = q \<and> e = link_to (tab base c)" for e
    using that by (metis fun_upd_other less_Suc_eq less_irrefl)
  then show ?thesis
    using assms unfolding inner_entry_def paths_link fun_upd_other [OF assms(2)] by blast
qed

lemma tree_link:
  assumes tr: "tree base n u P ents m" and t: "t < u" "i < 512" and d: "length (P t) < 3"
    and z: "ents (P t @ [i]) = 0" and room: "u < n"
  obtains m' where "st64 m (tab base t + 8 * of_nat i) (link_to (tab base u)) = Some m'"
    "tree base n (Suc u) (P(u := P t @ [i])) (ents(P t @ [i] := link_to (tab base u))) m'"
    "frame m m' (span base (4096 * n))" "same_dom m m'"
proof -
  note D = treeD [OF tr]
  let ?v = "link_to (tab base u)" and ?p = "P t @ [i]"
  obtain m' where m': "st64 m (tab base t + 8 * of_nat i) ?v = Some m'"
    and r: "\<And>s j. s < n \<Longrightarrow> j < 512 \<Longrightarrow> ld64 m' (tab base s + 8 * of_nat j) =
      Some (if s < u then (ents(?p := ?v)) (P s @ [j]) else 0)"
    and f: "frame m m' (span base (4096 * n))" "same_dom m m'"
    using tree_store [OF tr t] by metis
  have new: "?p \<notin> paths u P" by (rule tree_new_path [OF tr t d z])
  note paths = paths_link [where u = u and P = P and p = ?p]
  have fresh: "(ents(?p := ?v)) (?p @ [j]) = 0" for j
  proof -
    have "ents (?p @ [j]) = 0"
      using D(8) [of "?p @ [j]"] new by (metis append1_eq_conv imageI lessThan_iff)
    then show ?thesis by simp
  qed
  have "tree base n (Suc u) (P(u := ?p)) (ents(?p := ?v)) m'"
    unfolding tree_def
  proof (intro conjI allI impI)
    show "pool_range base n" "0 < Suc u" "Suc u \<le> n" using D(1) room by auto
    show "inj_on (P(u := ?p)) {..<Suc u}"
    proof -
      have "inj_on (P(u := ?p)) {..<u}" using D(4) by (auto simp: inj_on_def)
      moreover have "(P(u := ?p)) ` {..<u} = paths u P" by auto
      ultimately show ?thesis unfolding lessThan_Suc inj_on_insert using new by simp
    qed
    show "(P(u := ?p)) 0 = []" using D(2,5) by simp
    show "length ((P(u := ?p)) s) \<le> 3" if "s < Suc u" for s using D(6) [of s] that d by auto
    show "\<exists>r<Suc u. \<exists>j<512. (P(u := ?p)) s = (P(u := ?p)) r @ [j]" if "s < Suc u" "s \<noteq> 0" for s
    proof (cases "s = u")
      case True
      then show ?thesis using t by (intro exI [of _ t]) auto
    next
      case False
      then obtain r j where "r < u" "j < 512" "P s = P r @ [j]" using D(7) [of s] \<open>s < Suc u\<close> \<open>s \<noteq> 0\<close> by auto
      then show ?thesis using False by (intro exI [of _ r]) auto
    qed
    show "\<exists>s<Suc u. \<exists>j<512. p = (P(u := ?p)) s @ [j]" if "(ents(?p := ?v)) p \<noteq> 0" for p
    proof -
      have "\<exists>s<u. \<exists>j<512. p = P s @ [j]" using that D(8) [of p] t by (cases "p = ?p") auto
      then show ?thesis by (metis fun_upd_other less_Suc_eq less_irrefl)
    qed
    show "inner_entry base (Suc u) (P(u := ?p)) (ents(?p := ?v)) ((P(u := ?p)) s @ [j])"
      if s: "s < Suc u" "j < 512" "length ((P(u := ?p)) s) < 3" for s j
    proof (cases "s = u")
      case True
      have "?p @ [j] \<notin> insert ?p (paths u P)"
      proof
        assume "?p @ [j] \<in> insert ?p (paths u P)"
        then obtain c where c: "c < u" "P c = ?p @ [j]" by auto
        then have "c \<noteq> 0" using D(5) by (metis append_is_Nil_conv not_Cons_self2)
        then obtain b k where "b < u" "P c = P b @ [k]" using D(7) [of c] c(1) by auto
        then show False using c(2) new by auto
      qed
      then show ?thesis using True fresh [of j] unfolding inner_entry_def paths by auto
    next
      case False
      then have s': "s < u" "length (P s) < 3" using s by auto
      show ?thesis
      proof (cases "P s @ [j] = ?p")
        case True
        then show ?thesis using False unfolding inner_entry_def by (auto intro!: exI [of _ u])
      next
        case ne: False
        then show ?thesis using inner_entry_link [OF D(9) [OF s'(1) s(2) s'(2)] ne] False by simp
      qed
    qed
    show "ld64 m' (tab base s + 8 * of_nat j) =
        Some (if s < Suc u then (ents(?p := ?v)) ((P(u := ?p)) s @ [j]) else 0)" if "s < n" "j < 512" for s j
      using r [OF that] fresh [of j] by (auto simp: less_Suc_eq)
  qed
  with m' f show ?thesis using that by blast
qed

section \<open>Translation by paths\<close>

text \<open>What a tree maps: the entries of the last level and the large entries, by path.\<close>

definition leaves :: "(nat list \<Rightarrow> u64) \<Rightarrow> nat list \<Rightarrow> u64" where
  "leaves ents p =
     (if length p = 4 \<or> length p = 3 \<and> ents p AND X86_PTE_LARGE \<noteq> 0 then ents p else 0)"

definition mapping :: "nat \<Rightarrow> u64 \<Rightarrow> u64 \<Rightarrow> u64 \<times> bool \<times> bool" where
  "mapping s e va = ((e AND PTE_ADDRESS AND NOT (mask s)) OR (va AND mask s),
     e AND X86_PTE_WRITABLE \<noteq> 0, e AND X86_PTE_NX \<noteq> 0)"

definition translate :: "(nat list \<Rightarrow> u64) \<Rightarrow> u64 \<Rightarrow> (u64 \<times> bool \<times> bool) option" where
  "translate L va =
     (if L (page_path va) AND X86_PTE_PRESENT \<noteq> 0 then Some (mapping 12 (L (page_path va)) va)
      else if L (take 3 (page_path va)) AND X86_PTE_PRESENT \<noteq> 0
      then Some (mapping 21 (L (take 3 (page_path va))) va) else None)"

abbreviation shifts_from :: "nat \<Rightarrow> nat list" where "shifts_from d \<equiv> drop d [39, 30, 21, 12]"

lemma shifts_from_Cons: "d < 4 \<Longrightarrow> shifts_from d = [39, 30, 21, 12] ! d # shifts_from (Suc d)"
  by (rule Cons_nth_drop_Suc [symmetric]) simp

lemma page_path_nth: "d < 4 \<Longrightarrow> page_path va ! d = unat (table_index ([39, 30, 21, 12] ! d) va)"
  unfolding page_path_def by (rule nth_map) simp

lemma take_page_path: "d < 4 \<Longrightarrow> take (Suc d) (page_path va) = take d (page_path va) @ [page_path va ! d]"
  by (rule take_Suc_conv_app_nth) simp

lemma tree_prefix:
  assumes tr: "tree base n u P ents m" and "p @ q \<in> paths u P"
  shows "p \<in> paths u P"
  using assms(2)
proof (induction q rule: rev_induct)
  case (snoc i q)
  then obtain t where t: "t < u" "P t = p @ q @ [i]" by auto
  then have "t \<noteq> 0" using treeD(5) [OF tr] by (metis append_is_Nil_conv not_Cons_self2)
  then obtain s j where "s < u" "P t = P s @ [j]" using treeD(7) [OF tr t(1)] by auto
  then have "p @ q \<in> paths u P" using t(2) by (metis append1_eq_conv append_assoc imageI lessThan_iff)
  then show ?case by (rule snoc.IH)
qed simp

text \<open>The walk through the table of a prefix of the page's path.\<close>

lemma walk_step:
  assumes tr: "tree base n u P ents m" and t: "t < u" "P t = take d (page_path va)" and d: "d < 4"
  shows "mmu_walk m (shifts_from d) (tab base t) va w nx = (let
      e = ents (take (Suc d) (page_path va)); s = [39, 30, 21, 12] ! d;
      w = (w \<and> e AND X86_PTE_WRITABLE \<noteq> 0); nx = (nx \<or> e AND X86_PTE_NX \<noteq> 0) in
      if e AND X86_PTE_PRESENT = 0 then None
      else if shifts_from (Suc d) = [] \<or> s \<le> 30 \<and> e AND X86_PTE_LARGE \<noteq> 0
      then Some ((e AND PTE_ADDRESS AND NOT (mask s)) OR (va AND mask s), w, nx)
      else if e AND X86_PTE_LARGE \<noteq> 0 then None
      else mmu_walk m (shifts_from (Suc d)) (e AND PTE_ADDRESS) va w nx)"
proof -
  let ?i = "page_path va ! d"
  have i: "?i < 512" using page_path_less [of ?i va] d by simp
  have p: "P t @ [?i] = take (Suc d) (page_path va)" using t(2) d by (simp add: take_Suc_conv_app_nth)
  have "table_index ([39, 30, 21, 12] ! d) va = of_nat ?i" using page_path_nth [OF d, of va] by simp
  then have "ld64 m (tab base t + 8 * table_index ([39, 30, 21, 12] ! d) va) = Some (ents (take (Suc d) (page_path va)))"
    using tree_read [OF tr t(1) i] p by simp
  then show ?thesis unfolding shifts_from_Cons [OF d] mmu_walk.simps by (simp add: Let_def)
qed

lemma walk_linked:
  assumes tr: "tree base n u P ents m" and t: "t < u" "P t = take d (page_path va)" and d: "d < 3"
    and c: "c < u" "P c = take (Suc d) (page_path va)"
  shows "mmu_walk m (shifts_from d) (tab base t) va w nx = mmu_walk m (shifts_from (Suc d)) (tab base c) va w nx"
proof -
  let ?p = "take (Suc d) (page_path va)"
  have i: "page_path va ! d < 512" using page_path_less [of "page_path va ! d" va] d by simp
  have p: "P t @ [page_path va ! d] = ?p" using t(2) d by (simp add: take_Suc_conv_app_nth)
  have "?p \<in> paths u P" using c by (metis imageI lessThan_iff)
  moreover have "length (P t) < 3" using t(2) d by simp
  ultimately obtain c' where c': "c' < u" "P c' = ?p" "ents ?p = link_to (tab base c')"
    using treeD(9) [OF tr t(1) i] unfolding p inner_entry_def by auto
  then have "c' = c" using tree_path_eq [OF tr c'(1) c(1)] c(2) by simp
  have "c < n" using c(1) treeD(3) [OF tr] by simp
  note L = tab_link [OF treeD(1) [OF tr] this]
  have "shifts_from (Suc d) \<noteq> []" using d by simp
  then show ?thesis
    using d L by (subst walk_step [OF tr t]) (simp_all add: Let_def c'(3) \<open>c' = c\<close>)
qed

lemma walk_reach:
  assumes tr: "tree base n u P ents m" and "d \<le> 3" and c: "c < u" "P c = take d (page_path va)"
  shows "mmu_walk m (shifts_from 0) (tab base 0) va True False = mmu_walk m (shifts_from d) (tab base c) va True False"
  using assms(2-)
proof (induction d arbitrary: c)
  case 0
  then have "c = 0" using tree_path_eq [OF tr, of c 0] treeD(2,5) [OF tr] by simp
  then show ?case by simp
next
  case (Suc d)
  have "take d (page_path va) @ [page_path va ! d] \<in> paths u P"
    using Suc.prems take_page_path [of d va] by (auto intro: image_eqI [of _ _ c])
  then obtain t where t: "t < u" "P t = take d (page_path va)" using tree_prefix [OF tr] by (metis imageE lessThan_iff)
  have "d < 3" using Suc.prems(1) by simp
  from Suc.IH [OF _ t] walk_linked [OF tr t this Suc.prems(2,3)] show ?case using Suc.prems(1) by simp
qed

lemma walk_ends:
  assumes tr: "tree base n u P ents m" and t: "t < u" "P t = take d (page_path va)" and d: "d < 3"
    and out: "take (Suc d) (page_path va) \<notin> paths u P"
  shows "mmu_walk m (shifts_from d) (tab base t) va True False =
    (if d = 2 \<and> ents (take 3 (page_path va)) \<noteq> 0 then Some (mapping 21 (ents (take 3 (page_path va))) va) else None)"
    and "d = 2 \<Longrightarrow> ents (take 3 (page_path va)) \<noteq> 0 \<Longrightarrow> ents (take 3 (page_path va)) AND X86_PTE_PRESENT \<noteq> 0 \<and>
      ents (take 3 (page_path va)) AND X86_PTE_LARGE \<noteq> 0"
proof -
  let ?p = "take (Suc d) (page_path va)"
  have i: "page_path va ! d < 512" using page_path_less [of "page_path va ! d" va] d by simp
  have p: "P t @ [page_path va ! d] = ?p" using t(2) d take_page_path [of d va] by simp
  have "length (P t) < 3" using t(2) d by simp
  from treeD(9) [OF tr t(1) i this] out consider "ents ?p = 0"
    | "d = 2" "ents ?p AND X86_PTE_PRESENT \<noteq> 0" "ents ?p AND X86_PTE_LARGE \<noteq> 0"
    unfolding p inner_entry_def using d by (auto dest: sym)
  then have c: "ents ?p = 0 \<or> d = 2 \<and> ents ?p AND X86_PTE_PRESENT \<noteq> 0 \<and> ents ?p AND X86_PTE_LARGE \<noteq> 0"
    by cases auto
  have "d < 4" using d by simp
  with c show "mmu_walk m (shifts_from d) (tab base t) va True False =
    (if d = 2 \<and> ents (take 3 (page_path va)) \<noteq> 0 then Some (mapping 21 (ents (take 3 (page_path va))) va) else None)"
    by (subst walk_step [OF tr t]) (auto simp: Let_def mapping_def)
  show "d = 2 \<Longrightarrow> ents (take 3 (page_path va)) \<noteq> 0 \<Longrightarrow> ents (take 3 (page_path va)) AND X86_PTE_PRESENT \<noteq> 0 \<and>
      ents (take 3 (page_path va)) AND X86_PTE_LARGE \<noteq> 0"
    using c by auto
qed

lemma tree_absent:
  assumes tr: "tree base n u P ents m" and "p \<notin> paths u P"
  shows "ents (p @ i # q) = 0"
proof (rule ccontr)
  assume "ents (p @ i # q) \<noteq> 0"
  then obtain t j where t: "t < u" "p @ i # q = P t @ [j]" using treeD(8) [OF tr] by blast
  have "p @ butlast (i # q) = P t" using arg_cong [OF t(2), of butlast] by (simp add: butlast_append)
  then have "p @ butlast (i # q) \<in> paths u P" using t(1) by simp
  from tree_prefix [OF tr this] assms(2) show False by simp
qed

lemma linked_not_large:
  assumes tr: "tree base n u P ents m" and c: "c < u" "P c = take 3 (page_path va)"
  shows "ents (take 3 (page_path va)) AND X86_PTE_LARGE = 0"
proof -
  let ?v = "page_path va"
  have three: "take 3 ?v \<in> paths u P" using c by (metis imageI lessThan_iff)
  have split: "take 3 ?v = take 2 ?v @ [?v ! 2]" using take_page_path [of 2 va] by (simp add: numeral_3_eq_3)
  then obtain s where s: "s < u" "P s = take 2 ?v"
    using tree_prefix [OF tr, of "take 2 ?v" "[?v ! 2]"] three by auto
  have i: "?v ! 2 < 512" using page_path_less [of "?v ! 2" va] by simp
  have "inner_entry base u P ents (take 3 ?v)" using treeD(9) [OF tr s(1) i] s(2) split by simp
  then obtain c' where "c' < u" "ents (take 3 ?v) = link_to (tab base c')"
    using three unfolding inner_entry_def by auto
  then show ?thesis using tab_link(4) [OF treeD(1) [OF tr], of c'] treeD(3) [OF tr] by simp
qed

lemma leaves_present:
  assumes tr: "tree base n u P ents m" and "length p = 3" "leaves ents p \<noteq> 0"
  shows "leaves ents p AND X86_PTE_PRESENT \<noteq> 0"
proof -
  have e: "leaves ents p = ents p" "ents p AND X86_PTE_LARGE \<noteq> 0" using assms(2,3) by (auto simp: leaves_def split: if_splits)
  then obtain t i where t: "t < u" "i < 512" "p = P t @ [i]" using treeD(8) [OF tr, of p] assms(3) by metis
  then have "inner_entry base u P ents p" using treeD(9) [OF tr t(1,2)] assms(2) by simp
  then show ?thesis
    using e tab_link(2) [OF treeD(1) [OF tr] less_le_trans, OF _ treeD(3) [OF tr]] unfolding inner_entry_def by auto
qed

text \<open>The processor's walk is the lookup of the page's path.\<close>

lemma mmu_tree:
  assumes tr: "tree base n u P ents m"
  shows "mmu_walk m [39, 30, 21, 12] (tab base 0) va True False = translate (leaves ents) va"
proof -
  let ?v = "page_path va"
  have root: "take 0 ?v \<in> paths u P" using treeD(2,5) [OF tr] by (auto intro: image_eqI [of _ _ 0])
  have ends: "mmu_walk m (shifts_from 0) (tab base 0) va True False = translate (leaves ents) va"
    if d: "d < 3" "take d ?v \<in> paths u P" "take (Suc d) ?v \<notin> paths u P" for d
  proof -
    obtain t where t: "t < u" "P t = take d ?v" using d(2) by auto
    have split: "?v = take (Suc d) ?v @ drop (Suc d) ?v" by simp
    have "drop (Suc d) ?v = ?v ! Suc d # drop (Suc (Suc d)) ?v"
      by (rule Cons_nth_drop_Suc [symmetric]) (use d in simp)
    then have z4: "ents ?v = 0" using tree_absent [OF tr d(3)] split by metis
    have z3: "ents (take 3 ?v) = 0" if "d \<noteq> 2"
    proof -
      have "take 3 ?v = take (Suc d) ?v @ ?v ! Suc d # take (1 - d) (drop (Suc (Suc d)) ?v)"
        using d(1) that by (cases d) (simp_all add: page_path_def less_Suc_eq numeral_2_eq_2 numeral_3_eq_3)
      then show ?thesis using tree_absent [OF tr d(3)] by metis
    qed
    have "mmu_walk m (shifts_from 0) (tab base 0) va True False = mmu_walk m (shifts_from d) (tab base t) va True False"
      using walk_reach [OF tr _ t] d(1) by simp
    with walk_ends [OF tr t d(1,3)] z3 z4 show ?thesis
      by (cases "d = 2") (auto simp: translate_def leaves_def)
  qed
  show ?thesis
  proof (cases "take 3 ?v \<in> paths u P")
    case True
    then obtain c where c: "c < u" "P c = take 3 ?v" by auto
    have reach: "mmu_walk m (shifts_from 0) (tab base 0) va True False = mmu_walk m (shifts_from 3) (tab base c) va True False"
      by (rule walk_reach [OF tr _ c]) simp
    have "ents (take 3 ?v) AND X86_PTE_LARGE = 0" by (rule linked_not_large [OF tr c])
    then show ?thesis
      using reach walk_step [OF tr c, of True False] by (simp add: Let_def translate_def leaves_def mapping_def)
  next
    case False
    show ?thesis
    proof (cases "take 1 ?v \<in> paths u P")
      case out: False
      with ends [of 0] root show ?thesis by simp
    next
      case one: True
      show ?thesis using ends [of 1] ends [of 2] one False by (cases "take 2 ?v \<in> paths u P") (simp_all add: numeral_2_eq_2 numeral_3_eq_3)
    qed
  qed
qed

section \<open>Mapping a page\<close>

abbreviation pool_of :: "u64 \<Rightarrow> nat \<Rightarrow> nat \<Rightarrow> page_pool" where
  "pool_of base n u \<equiv> \<lparr>pp_base = base, pp_used = of_nat u, pp_count = of_nat n\<rparr>"

text \<open>The tables a page needs.\<close>

definition links :: "u64 \<Rightarrow> nat list set" where
  "links va = {take 1 (page_path va), take 2 (page_path va), take 3 (page_path va)}"

lemma table_new_pool:
  assumes "pool_range base n" "u \<le> n"
  shows "table_new (pool_of base n u) = (if u = n then (0, pool_of base n u) else (tab base u, pool_of base n (Suc u)))"
proof -
  have "4096 * n \<le> 2 ^ 52" using assms(1) by (simp add: pool_range_def)
  then have "n < 2 ^ 64" "u < 2 ^ 64" using assms(2) by auto
  then have "(of_nat u :: u64) = of_nat n \<longleftrightarrow> u = n" by (intro of_nat_u64_eq_iff)
  then show ?thesis by (simp add: table_new_def tab_def mult.commute add.commute)
qed

lemma leaves_link:
  assumes "ents p = 0" "length p \<le> 3" "v AND X86_PTE_LARGE = 0"
  shows "leaves (ents(p := v)) = leaves ents"
  using assms by (auto simp: leaves_def)

lemma map_level_tree:
  assumes tr: "tree base n u P ents m" and t: "t < u" "P t = take d (page_path va)" and d: "d < 3"
  obtains (blocked) "map_level ([39, 30, 21] ! d) (pool_of base n u) (tab base t) va m = Some (None, pool_of base n u, m)"
      "leaves ents (take 3 (page_path va)) \<noteq> 0 \<or> n < card (paths u P \<union> links va)"
  | (linked) c where
      "map_level ([39, 30, 21] ! d) (pool_of base n u) (tab base t) va m = Some (Some (tab base c), pool_of base n u, m)"
      "c < u" "P c = take (Suc d) (page_path va)"
  | (new) m' where
      "map_level ([39, 30, 21] ! d) (pool_of base n u) (tab base t) va m = Some (Some (tab base u), pool_of base n (Suc u), m')"
      "tree base n (Suc u) (P(u := take (Suc d) (page_path va)))
        (ents(take (Suc d) (page_path va) := link_to (tab base u))) m'"
      "leaves (ents(take (Suc d) (page_path va) := link_to (tab base u))) = leaves ents"
      "frame m m' (span base (4096 * n))" "same_dom m m'"
proof -
  let ?p = "take (Suc d) (page_path va)" and ?i = "page_path va ! d"
  let ?slot = "tab base t + 8 * table_index ([39, 30, 21] ! d) va"
  note D = treeD [OF tr]
  have i: "?i < 512" using page_path_less [of ?i va] d by simp
  have p: "P t @ [?i] = ?p" using t(2) d take_page_path [of d va] by simp
  have len: "length (P t) < 3" "length ?p = Suc d" using t(2) d by simp_all
  have "[39, 30, 21, 12 :: nat] ! d = [39, 30, 21] ! d" using d by (auto simp: less_Suc_eq numeral_3_eq_3)
  then have ix: "table_index ([39, 30, 21] ! d) va = of_nat ?i" using page_path_nth [of d va] d by simp
  have rd: "ld64 m ?slot = Some (ents ?p)" using tree_read [OF tr t(1) i] p ix by simp
  have in_links: "?p \<in> links va" using d by (auto simp: links_def less_Suc_eq numeral_3_eq_3 numeral_2_eq_2)
  from D(9) [OF t(1) i len(1)] consider
    (zero) "ents ?p = 0" "?p \<notin> paths u P"
    | (link) c where "c < u" "P c = ?p" "ents ?p = link_to (tab base c)"
    | (large) "d = 2" "ents ?p AND X86_PTE_PRESENT \<noteq> 0" "ents ?p AND X86_PTE_LARGE \<noteq> 0"
    unfolding p inner_entry_def using len by auto
  then show ?thesis
  proof cases
    case zero
    show ?thesis
    proof (cases "u = n")
      case True
      have "card (insert ?p (paths u P)) \<le> card (paths u P \<union> links va)"
        using in_links by (intro card_mono) (auto simp: links_def)
      then have "n < card (paths u P \<union> links va)" using zero(2) tree_card [OF tr] True by simp
      moreover have "map_level ([39, 30, 21] ! d) (pool_of base n u) (tab base t) va m = Some (None, pool_of base n u, m)"
        using rd zero(1) table_new_pool [OF D(1,3)] True by (simp add: map_level_def Let_def)
      ultimately show ?thesis using blocked by blast
    next
      case False
      then have room: "u < n" using D(3) by simp
      note L = tab_link [OF D(1) room]
      obtain m' where m': "st64 m ?slot (link_to (tab base u)) = Some m'"
        "tree base n (Suc u) (P(u := ?p)) (ents(?p := link_to (tab base u))) m'"
        "frame m m' (span base (4096 * n))" "same_dom m m'"
        using tree_link [OF tr t(1) i len(1) _ room] zero(1) unfolding p ix by blast
      have "ld64 m' ?slot = Some (link_to (tab base u))"
        using tree_read [OF m'(2), of t ?i] t(1) i p ix by simp
      then have "map_level ([39, 30, 21] ! d) (pool_of base n u) (tab base t) va m =
          Some (Some (tab base u), pool_of base n (Suc u), m')"
        using rd zero(1) table_new_pool [OF D(1,3)] False m'(1) L tab_unat(4) [OF D(1) room]
        by (simp add: map_level_def Let_def)
      moreover have "leaves (ents(?p := link_to (tab base u))) = leaves ents"
        by (rule leaves_link) (use zero(1) len d L in simp_all)
      ultimately show ?thesis using new m' by blast
    qed
  next
    case link
    then have "c < n" using D(3) by simp
    note L = tab_link [OF D(1) this]
    show ?thesis
      by (rule linked [OF _ link(1,2)]) (use rd link(3) L in \<open>simp add: map_level_def Let_def\<close>)
  next
    case large
    have "map_level ([39, 30, 21] ! d) (pool_of base n u) (tab base t) va m = Some (None, pool_of base n u, m)"
      using rd large by (simp add: map_level_def Let_def)
    moreover have "leaves ents (take 3 (page_path va)) \<noteq> 0" using large by (auto simp: leaves_def)
    ultimately show ?thesis using blocked by blast
  qed
qed

lemma links_mono:
  assumes "tree base n u P ents m" "d < 3"
  shows "insert (take (Suc d) (page_path va)) (paths u P) \<union> links va = paths u P \<union> links va"
proof -
  have "take (Suc d) (page_path va) \<in> links va"
    using assms(2) by (auto simp: links_def less_Suc_eq numeral_3_eq_3 numeral_2_eq_2)
  then show ?thesis by blast
qed

lemma links_present:
  assumes tr: "tree base n u P ents m" and c: "c < u" "P c = take 3 (page_path va)"
  shows "links va \<subseteq> paths u P"
proof -
  have three: "take 3 (page_path va) \<in> paths u P" using c by (metis imageI lessThan_iff)
  have "take 3 (page_path va) = take k (page_path va) @ drop k (take 3 (page_path va))" if "k \<le> 3" for k
    using that by (metis append_take_drop_id min.absorb1 take_take)
  then have "take k (page_path va) \<in> paths u P" if "k \<le> 3" for k
    using that three tree_prefix [OF tr, of "take k (page_path va)"] by metis
  then show ?thesis by (simp add: links_def)
qed

text \<open>The descent ends at the table of the page, or fails for one of two reasons.\<close>

lemma map_walk_tree:
  assumes "tree base n u P ents m" "t < u" "P t = take d (page_path va)" "d \<le> 3"
  shows "\<exists>r m' u' P' ents'. map_walk (drop d [39, 30, 21]) (pool_of base n u) (tab base t) va m =
      Some (r, pool_of base n u', m') \<and> tree base n u' P' ents' m' \<and> leaves ents' = leaves ents \<and>
    frame m m' (span base (4096 * n)) \<and> same_dom m m' \<and>
    (case r of None \<Rightarrow> leaves ents (take 3 (page_path va)) \<noteq> 0 \<or> n < card (paths u P \<union> links va)
     | Some a \<Rightarrow> \<exists>c<u'. a = tab base c \<and> P' c = take 3 (page_path va) \<and> paths u' P' = paths u P \<union> links va)"
  using assms
proof (induction "3 - d" arbitrary: d u P ents m t)
  case 0
  then have d: "d = 3" by simp
  show ?case
    by (rule exI [of _ "Some (tab base t)"], rule exI [of _ m], rule exI [of _ u], rule exI [of _ P], rule exI [of _ ents])
      (use 0 d links_present [OF 0(2), of t va] in auto)
next
  case (Suc k)
  then have d: "d < 3" "k = 3 - Suc d" "Suc d \<le> 3" by auto
  have dr: "drop d [39, 30, 21 :: nat] = [39, 30, 21] ! d # drop (Suc d) [39, 30, 21]"
    by (rule Cons_nth_drop_Suc [symmetric]) (use d in simp)
  from Suc.prems(1-3) d(1) show ?case
  proof (cases rule: map_level_tree)
    case blocked
    then show ?thesis unfolding dr using Suc.prems(1)
      by (intro exI [of _ None] exI [of _ m] exI [of _ u] exI [of _ P] exI [of _ ents]) simp
  next
    case (linked c)
    from Suc.hyps(1) [OF d(2) Suc.prems(1) linked(2,3) d(3)] linked(1) show ?thesis unfolding dr by simp
  next
    case (new m1)
    have len: "length (take (Suc d) (page_path va)) \<le> 3" using d by simp
    from Suc.hyps(1) [OF d(2) new(2) _ _ d(3), of u] obtain r m' u' P' ents' where
      w: "map_walk (drop (Suc d) [39, 30, 21]) (pool_of base n (Suc u)) (tab base u) va m1 = Some (r, pool_of base n u', m')"
        "tree base n u' P' ents' m'" "frame m1 m' (span base (4096 * n))" "same_dom m1 m'"
      and l: "leaves ents' = leaves ents"
      and r: "case r of None \<Rightarrow> leaves ents (take 3 (page_path va)) \<noteq> 0 \<or> n < card (paths u P \<union> links va)
        | Some a \<Rightarrow> \<exists>c<u'. a = tab base c \<and> P' c = take 3 (page_path va) \<and> paths u' P' = paths u P \<union> links va"
      unfolding paths_link links_mono [OF Suc.prems(1) d(1)] new(3) by auto
    have "frame m m' (span base (4096 * n))" "same_dom m m'"
      using frame_trans [OF new(4) w(3)] same_dom_trans [OF new(5) w(4)] by simp_all
    then show ?thesis unfolding dr using new(1) w(1,2) l r by auto
  qed
qed

text \<open>A page is mapped exactly when nothing is mapped there and the pool holds the tables it needs;
  nothing else changes.\<close>

lemma map_page_tree:
  assumes tr: "tree base n u P ents m" and f: "f AND X86_PTE_PRESENT = 0"
  shows "\<exists>ok m' u' P' ents'. map_page (pool_of base n u) (tab base 0) va pa f m = Some (ok, pool_of base n u', m') \<and>
    tree base n u' P' ents' m' \<and> frame m m' (span base (4096 * n)) \<and> same_dom m m' \<and>
    (ok \<longleftrightarrow> translate (leaves ents) va = None \<and> card (paths u P \<union> links va) \<le> n) \<and>
    (ok \<longrightarrow> paths u' P' = paths u P \<union> links va \<and>
       leaves ents' = (leaves ents)(page_path va := (pa AND PTE_ADDRESS) OR f OR X86_PTE_PRESENT))"
proof -
  let ?v = "page_path va"
  have root: "0 < u" "P 0 = take 0 ?v" using treeD(2,5) [OF tr] by simp_all
  obtain r m1 u' P' ents1 where w: "map_walk [39, 30, 21] (pool_of base n u) (tab base 0) va m = Some (r, pool_of base n u', m1)"
    "tree base n u' P' ents1 m1" "leaves ents1 = leaves ents" "frame m m1 (span base (4096 * n))" "same_dom m m1"
    and r: "case r of None \<Rightarrow> leaves ents (take 3 ?v) \<noteq> 0 \<or> n < card (paths u P \<union> links va)
      | Some a \<Rightarrow> \<exists>c<u'. a = tab base c \<and> P' c = take 3 ?v \<and> paths u' P' = paths u P \<union> links va"
    using map_walk_tree [OF tr root] by auto
  show ?thesis
  proof (cases r)
    case None
    have "translate (leaves ents) va \<noteq> None" if "leaves ents (take 3 ?v) \<noteq> 0"
    proof -
      have "leaves ents (take 3 ?v) AND X86_PTE_PRESENT \<noteq> 0"
        using leaves_present [OF tr _ that] by simp
      then show ?thesis by (auto simp: translate_def mapping_def)
    qed
    then show ?thesis using None w r
      by (intro exI [of _ False] exI [of _ m1] exI [of _ u'] exI [of _ P'] exI [of _ ents1]) (auto simp: map_page_def)
  next
    case (Some a)
    then obtain c where c: "c < u'" "a = tab base c" "P' c = take 3 ?v" "paths u' P' = paths u P \<union> links va" using r by auto
    have i: "?v ! 3 < 512" using page_path_less [of "?v ! 3" va] by simp
    have p: "P' c @ [?v ! 3] = ?v" using c(3) take_page_path [of 3 va] by simp
    have slot: "table_index 12 va = of_nat (?v ! 3)" using page_path_nth [of 3 va] by simp
    have rd: "ld64 m1 (a + 8 * table_index 12 va) = Some (ents1 ?v)"
      using tree_read [OF w(2) c(1) i] p c(2) slot by simp
    have e4: "ents1 ?v = leaves ents ?v" unfolding w(3) [symmetric] by (simp add: leaves_def)
    have "ents1 (take 3 ?v) AND X86_PTE_LARGE = 0"
      by (rule linked_not_large [OF w(2) c(1,3)])
    then have "leaves ents (take 3 ?v) = 0" unfolding w(3) [symmetric] by (simp add: leaves_def)
    then have t: "translate (leaves ents) va = None \<longleftrightarrow> ents1 ?v AND X86_PTE_PRESENT = 0"
      by (simp add: translate_def e4)
    have room: "card (paths u P \<union> links va) \<le> n" using tree_card [OF w(2)] treeD(3) [OF w(2)] c(4) by simp
    show ?thesis
    proof (cases "ents1 ?v AND X86_PTE_PRESENT = 0")
      case True
      let ?e = "(pa AND PTE_ADDRESS) OR f OR X86_PTE_PRESENT"
      obtain m' where m': "st64 m1 (a + 8 * table_index 12 va) ?e = Some m'"
        "tree base n u' P' (ents1(?v := ?e)) m'" "frame m1 m' (span base (4096 * n))" "same_dom m1 m'"
        using tree_leaf [OF w(2) c(1) i, of ?e] p c(2,3) slot by auto
      have "leaves (ents1(?v := ?e)) = (leaves ents)(?v := ?e)"
        unfolding w(3) [symmetric] by (rule ext) (auto simp: leaves_def)
      then show ?thesis
        using w(1) Some rd True m' t room c(4) frame_trans [OF w(4) m'(3)] same_dom_trans [OF w(5) m'(4)]
        by (intro exI [of _ True] exI [of _ m'] exI [of _ u'] exI [of _ P'] exI [of _ "ents1(?v := ?e)"])
          (simp add: map_page_def Let_def)
    next
      case False
      then show ?thesis using w Some rd t
        by (intro exI [of _ False] exI [of _ m1] exI [of _ u'] exI [of _ P'] exI [of _ ents1])
          (simp add: map_page_def Let_def)
    qed
  qed
qed

section \<open>The identity map and the high-half map\<close>

text \<open>The entry of the two-megabyte page \<open>k\<close>.\<close>

definition large_entry :: "nat \<Rightarrow> u64" where
  "large_entry k = of_nat k * 0x200000 OR X86_PTE_PRESENT OR X86_PTE_WRITABLE OR X86_PTE_LARGE"

text \<open>The first \<open>k\<close> two-megabyte pages of both maps.\<close>

fun boot_leaves :: "bool \<Rightarrow> nat \<Rightarrow> nat list \<Rightarrow> u64" where
  "boot_leaves unmap_null k [a, g, c] =
     (if (a = 0 \<and> 512 * g + c \<noteq> 0 \<or> a = 256) \<and> c < 512 \<and> 512 * g + c < k then large_entry (512 * g + c) else 0)"
| "boot_leaves unmap_null k [a, g, c, d] =
     (if a = 0 \<and> g = 0 \<and> c = 0 \<and> 0 < k \<and> (if unmap_null then 1 else 0) \<le> d \<and> d < 512
      then of_nat d * EFI_PAGE_SIZE OR X86_PTE_PRESENT OR X86_PTE_WRITABLE else 0)"
| "boot_leaves unmap_null k p = 0"

definition boot_paths :: "nat \<Rightarrow> bool \<Rightarrow> nat list set" where
  "boot_paths g first = {[], [0], [256]} \<union> (\<lambda>g. [0, g]) ` {..<g} \<union> (\<lambda>g. [256, g]) ` {..<g} \<union>
     (if first then {[0, 0, 0]} else {})"

lemma boot_paths_3: "[a, b, c] \<in> boot_paths g first \<longleftrightarrow> first \<and> a = 0 \<and> b = 0 \<and> c = 0"
  by (auto simp: boot_paths_def)

lemma boot_paths_2: "[a, b] \<in> boot_paths g first \<longleftrightarrow> (a = 0 \<or> a = 256) \<and> b < g"
  by (auto simp: boot_paths_def)

lemma boot_paths_Suc: "boot_paths (Suc g) first = insert [256, g] (insert [0, g] (boot_paths g first))"
  by (auto simp: boot_paths_def lessThan_Suc)

lemma boot_paths_first: "boot_paths g True = insert [0, 0, 0] (boot_paths g False)"
  by (auto simp: boot_paths_def)

lemma ents_zero:
  assumes tr: "tree base n u P ents m" and "length p \<le> 3" "p \<notin> paths u P" "leaves ents p = 0"
  shows "ents p = 0"
proof (rule ccontr)
  assume "ents p \<noteq> 0"
  then obtain t i where t: "t < u" "i < 512" "p = P t @ [i]" using treeD(8) [OF tr] by blast
  then have "inner_entry base u P ents p" using treeD(9) [OF tr t(1,2)] assms(2) by simp
  with assms \<open>ents p \<noteq> 0\<close> show False unfolding inner_entry_def leaves_def by auto
qed

text \<open>The zeroed pool with its first table as the top.\<close>

definition pool_zero :: "u64 \<Rightarrow> nat \<Rightarrow> mem \<Rightarrow> bool" where
  "pool_zero base n m \<longleftrightarrow> pool_range base n \<and> (\<forall>t<n. \<forall>i<512. ld64 m (tab base t + 8 * of_nat i) = Some 0)"

lemma tree_top:
  assumes "pool_zero base n m" "0 < n"
  shows "tree base n 1 (\<lambda>_. []) (\<lambda>_. 0) m"
  using assms by (auto simp: tree_def pool_zero_def inner_entry_def inj_on_def)

lemma fill_first_pt_tree:
  assumes "tree base n u P ents m" "t < u" "length (P t) = 3" "set pages \<subseteq> {..<512}"
  shows "\<exists>m' ents'. fill_first_pt (tab base t) pages m = Some m' \<and> tree base n u P ents' m' \<and>
    frame m m' (span base (4096 * n)) \<and> same_dom m m' \<and>
    (\<forall>p. ents' p = (if p \<noteq> [] \<and> butlast p = P t \<and> List.last p \<in> set pages
       then of_nat (List.last p) * EFI_PAGE_SIZE OR X86_PTE_PRESENT OR X86_PTE_WRITABLE else ents p))"
  using assms
proof (induction pages arbitrary: m ents)
  case Nil
  then show ?case by auto
next
  case (Cons i pages)
  let ?v = "of_nat i * EFI_PAGE_SIZE OR X86_PTE_PRESENT OR X86_PTE_WRITABLE"
  have i: "i < 512" "set pages \<subseteq> {..<512}" using Cons.prems(4) by auto
  obtain m1 where m1: "st64 m (tab base t + 8 * of_nat i) ?v = Some m1" "tree base n u P (ents(P t @ [i] := ?v)) m1"
    "frame m m1 (span base (4096 * n))" "same_dom m m1"
    using tree_leaf [OF Cons.prems(1,2) i(1) Cons.prems(3)] by metis
  from Cons.IH [OF m1(2) Cons.prems(2,3) i(2)] obtain m' ents' where
    m': "fill_first_pt (tab base t) pages m1 = Some m'" "tree base n u P ents' m'"
      "frame m1 m' (span base (4096 * n))" "same_dom m1 m'"
    and e: "\<And>p. ents' p = (if p \<noteq> [] \<and> butlast p = P t \<and> List.last p \<in> set pages
       then of_nat (List.last p) * EFI_PAGE_SIZE OR X86_PTE_PRESENT OR X86_PTE_WRITABLE else (ents(P t @ [i] := ?v)) p)"
    by blast
  have "ents' p = (if p \<noteq> [] \<and> butlast p = P t \<and> List.last p \<in> set (i # pages)
       then of_nat (List.last p) * EFI_PAGE_SIZE OR X86_PTE_PRESENT OR X86_PTE_WRITABLE else ents p)" for p
  proof -
    have "p = P t @ [i] \<longleftrightarrow> p \<noteq> [] \<and> butlast p = P t \<and> List.last p = i" by (metis append_butlast_last_id last_snoc butlast_snoc snoc_eq_iff_butlast)
    then show ?thesis using e [of p] by auto
  qed
  then show ?case
    using m1(1) m'(1,2) frame_trans [OF m1(3) m'(3)] same_dom_trans [OF m1(4) m'(4)] by auto
qed

lemma two_mb_address:
  assumes "gb < 4" "mb < 512"
  shows "(of_nat gb * 0x40000000 + of_nat mb * 0x200000 :: u64) = of_nat (512 * gb + mb) * 0x200000"
    and "(of_nat (512 * gb + mb) * 0x200000 :: u64) = 0 \<longleftrightarrow> 512 * gb + mb = 0"
proof -
  show "(of_nat gb * 0x40000000 + of_nat mb * 0x200000 :: u64) = of_nat (512 * gb + mb) * 0x200000"
    by (simp add: algebra_simps)
  have "(of_nat ((512 * gb + mb) * 0x200000) :: u64) = of_nat 0 \<longleftrightarrow> (512 * gb + mb) * 0x200000 = 0"
    by (rule of_nat_u64_eq_iff) (use assms in simp_all)
  then show "(of_nat (512 * gb + mb) * 0x200000 :: u64) = 0 \<longleftrightarrow> 512 * gb + mb = 0" by simp
qed

lemma large_entry_bits: "large_entry k AND X86_PTE_PRESENT \<noteq> 0" "large_entry k AND X86_PTE_LARGE \<noteq> 0"
  by (simp_all add: large_entry_def bit.conj_disj_distrib2)

text \<open>The state of the loop before the two-megabyte page \<open>k\<close>: the tables of the gigabytes below \<open>g\<close>
  are linked.\<close>

definition boot_tree :: "u64 \<Rightarrow> nat \<Rightarrow> bool \<Rightarrow> nat \<Rightarrow> nat \<Rightarrow> nat \<Rightarrow> (nat \<Rightarrow> nat list) \<Rightarrow> (nat list \<Rightarrow> u64) \<Rightarrow> mem \<Rightarrow> bool" where
  "boot_tree base n unmap_null g k u P ents m \<longleftrightarrow> tree base n u P ents m \<and>
     paths u P = boot_paths g (0 < k) \<and> leaves ents = boot_leaves unmap_null k"

lemma leaves_large:
  assumes "length p = 3" "v AND X86_PTE_LARGE \<noteq> 0"
  shows "leaves (ents(p := v)) = (leaves ents)(p := v)"
  using assms by (auto simp: leaves_def)

lemma path_cases:
  fixes p :: "nat list"
  obtains (three) a b c where "p = [a, b, c]" | (four) a b c d where "p = [a, b, c, d]"
  | (other) "length p \<noteq> 3" "length p \<noteq> 4"
proof -
  have "\<exists>a b c. p = [a, b, c]" if "length p = 3" using that by (auto simp: numeral_3_eq_3 length_Suc_conv)
  moreover have "\<exists>a b c d. p = [a, b, c, d]" if "length p = 4"
    using that by (auto simp: eval_nat_numeral length_Suc_conv)
  ultimately show ?thesis using three four other by blast
qed

lemma boot_leaves_other: "length p \<noteq> 3 \<Longrightarrow> length p \<noteq> 4 \<Longrightarrow> boot_leaves unmap_null k p = 0"
  by (cases "(unmap_null, k, p)" rule: boot_leaves.cases) auto

lemma boot_leaves_0 [simp]: "boot_leaves unmap_null 0 p = 0"
  by (cases "(unmap_null, 0 :: nat, p)" rule: boot_leaves.cases) auto

lemma boot_leaves_Suc:
  assumes "gb < 4" "mb < 512" "0 < gb + mb"
  shows "(boot_leaves unmap_null (512 * gb + mb))([256, gb, mb] := large_entry (512 * gb + mb),
      [0, gb, mb] := large_entry (512 * gb + mb)) = boot_leaves unmap_null (512 * gb + Suc mb)"
proof
  fix p
  define k where "k = 512 * gb + mb"
  have k: "512 * g + c = k \<longleftrightarrow> g = gb \<and> c = mb" if "c < 512" for g c
  proof -
    have "(512 * g + c) div 512 = g" "(512 * g + c) mod 512 = c" "k div 512 = gb" "k mod 512 = mb"
      using that assms(2) by (simp_all add: k_def)
    then show ?thesis by (metis k_def)
  qed
  have s: "0 < k" "512 * gb + Suc mb = Suc k" using assms(3) unfolding k_def by simp_all
  have "((boot_leaves unmap_null k)([256, gb, mb] := large_entry k, [0, gb, mb] := large_entry k)) p =
      boot_leaves unmap_null (Suc k) p"
  proof (cases p rule: path_cases)
    case (three a g c)
    define j where "j = 512 * g + c"
    have e: "boot_leaves unmap_null i [a, g, c] =
        (if (a = 0 \<and> j \<noteq> 0 \<or> a = 256) \<and> c < 512 \<and> j < i then large_entry j else 0)" for i
      unfolding boot_leaves.simps j_def ..
    have "j = k \<and> c < 512 \<longleftrightarrow> g = gb \<and> c = mb" unfolding j_def using k [of c g] assms(2) by metis
    then have "((boot_leaves unmap_null k)([256, gb, mb] := large_entry k, [0, gb, mb] := large_entry k)) [a, g, c] =
        (if (a = 0 \<or> a = 256) \<and> j = k \<and> c < 512 then large_entry k else boot_leaves unmap_null k [a, g, c])"
      by (auto simp del: boot_leaves.simps)
    also have "\<dots> = boot_leaves unmap_null (Suc k) [a, g, c]" unfolding e less_Suc_eq using s(1) by auto
    finally show ?thesis unfolding three .
  next
    case (four a b c d)
    then show ?thesis using s by simp
  next
    case other
    then have "p \<noteq> [256, gb, mb]" "p \<noteq> [0, gb, mb]" by auto
    with other show ?thesis by (simp add: boot_leaves_other)
  qed
  then show "((boot_leaves unmap_null (512 * gb + mb))([256, gb, mb] := large_entry (512 * gb + mb),
      [0, gb, mb] := large_entry (512 * gb + mb))) p = boot_leaves unmap_null (512 * gb + Suc mb) p"
    unfolding s(2) unfolding k_def .
qed

lemma map_2mb_tree:
  assumes bt: "boot_tree base n unmap_null g (512 * gb + mb) u P ents m"
    and ab: "a < u" "P a = [0, gb]" "b < u" "P b = [256, gb]" and k: "gb < 4" "mb < 512" "0 < gb + mb"
  shows "\<exists>m' ents'. map_2mb unmap_null (tab base a) (tab base b) gb mb (pool_of base n u) m =
      Some (True, pool_of base n u, m') \<and> boot_tree base n unmap_null g (512 * gb + Suc mb) u P ents' m' \<and>
    frame m m' (span base (4096 * n)) \<and> same_dom m m'"
proof -
  let ?k = "512 * gb + mb" and ?v = "large_entry (512 * gb + mb)"
  have tr: "tree base n u P ents m" and ps: "paths u P = boot_paths g (0 < ?k)"
    and lv: "leaves ents = boot_leaves unmap_null ?k" using bt by (auto simp: boot_tree_def)
  have "?k \<noteq> 0" using k(3) by auto
  then have ph: "(of_nat gb * 0x40000000 + of_nat mb * 0x200000 :: u64) = of_nat ?k * 0x200000"
    "(of_nat ?k * 0x200000 :: u64) \<noteq> 0"
    using two_mb_address [OF k(1,2)] by (auto simp only:)
  have z: "ents [x, gb, mb] = 0" if "x \<in> {0, 256}" for x
    by (rule ents_zero [OF tr]) (use that k(3) lv in \<open>auto simp: ps boot_paths_3\<close>)
  obtain m1 where m1: "st64 m (tab base b + 8 * of_nat mb) ?v = Some m1" "tree base n u P (ents([256, gb, mb] := ?v)) m1"
    "frame m m1 (span base (4096 * n))" "same_dom m m1"
    using tree_large [OF tr ab(3) k(2), of ?v] z [of 256] ab(4) large_entry_bits by auto
  obtain m2 where m2: "st64 m1 (tab base a + 8 * of_nat mb) ?v = Some m2"
    "tree base n u P (ents([256, gb, mb] := ?v, [0, gb, mb] := ?v)) m2"
    "frame m1 m2 (span base (4096 * n))" "same_dom m1 m2"
    using tree_large [OF m1(2) ab(1) k(2), of ?v] z [of 0] ab(2) large_entry_bits by auto
  have "leaves (ents([256, gb, mb] := ?v, [0, gb, mb] := ?v)) = boot_leaves unmap_null (512 * gb + Suc mb)"
    unfolding boot_leaves_Suc [OF k, symmetric] lv [symmetric]
    by (subst leaves_large; (rule large_entry_bits | simp)?)+
  then have "boot_tree base n unmap_null g (512 * gb + Suc mb) u P (ents([256, gb, mb] := ?v, [0, gb, mb] := ?v)) m2"
    using m2(2) ps k(3) unfolding boot_tree_def by auto
  moreover have "map_2mb unmap_null (tab base a) (tab base b) gb mb (pool_of base n u) m = Some (True, pool_of base n u, m2)"
    unfolding map_2mb_def Let_def ph(1) large_entry_def [symmetric] using m1(1) m2(1) ph(2) by simp
  ultimately show ?thesis using frame_trans [OF m1(3) m2(3)] same_dom_trans [OF m1(4) m2(4)] by auto
qed

lemma map_first_2mb_tree:
  assumes bt: "boot_tree base n unmap_null g 0 u P ents m"
    and ab: "a < u" "P a = [0, 0]" "b < u" "P b = [256, 0]"
  shows "\<exists>m' u' P' ents'. map_2mb unmap_null (tab base a) (tab base b) 0 0 (pool_of base n u) m =
      Some (u < n, pool_of base n u', m') \<and> frame m m' (span base (4096 * n)) \<and> same_dom m m' \<and>
      (u < n \<longrightarrow> u' = Suc u \<and> boot_tree base n unmap_null g 1 u' P' ents' m' \<and> (\<forall>t<u. P' t = P t))"
proof -
  have tr: "tree base n u P ents m" and ps: "paths u P = boot_paths g False"
    and lv: "leaves ents = boot_leaves unmap_null 0" using bt by (auto simp: boot_tree_def)
  note D = treeD [OF tr]
  have z: "ents [x, 0, 0] = 0" if "x \<in> {0, 256}" for x
    by (rule ents_zero [OF tr]) (use that lv in \<open>auto simp: ps boot_paths_3\<close>)
  obtain m1 where m1: "st64 m (tab base b + 8 * of_nat 0) (large_entry 0) = Some m1"
    "tree base n u P (ents([256, 0, 0] := large_entry 0)) m1" "frame m m1 (span base (4096 * n))" "same_dom m m1"
    using tree_large [OF tr ab(3), of 0 "large_entry 0"] z [of 256] ab(4) large_entry_bits by auto
  show ?thesis
  proof (cases "u < n")
    case False
    then have "u = n" using D(3) by simp
    then show ?thesis using m1 table_new_pool [OF D(1,3)] by (auto simp: map_2mb_def Let_def large_entry_def)
  next
    case True
    let ?e = "ents([256, 0, 0] := large_entry 0, [0, 0, 0] := link_to (tab base u))"
    let ?pages = "[(if unmap_null then 1 else 0)..<512]"
    obtain m2 where m2: "st64 m1 (tab base a + 8 * of_nat 0) (link_to (tab base u)) = Some m2"
      "tree base n (Suc u) (P(u := [0, 0, 0])) ?e m2" "frame m1 m2 (span base (4096 * n))" "same_dom m1 m2"
      using tree_link [OF m1(2) ab(1), of 0] True z [of 0] ab(2) by auto
    obtain m' ents' where m': "fill_first_pt (tab base u) ?pages m2 = Some m'" "tree base n (Suc u) (P(u := [0, 0, 0])) ents' m'"
        "frame m2 m' (span base (4096 * n))" "same_dom m2 m'"
      and e: "\<And>p. ents' p = (if p \<noteq> [] \<and> butlast p = [0, 0, 0] \<and> List.last p \<in> set ?pages
         then of_nat (List.last p) * EFI_PAGE_SIZE OR X86_PTE_PRESENT OR X86_PTE_WRITABLE else ?e p)"
      using fill_first_pt_tree [OF m2(2), of u ?pages] by (auto simp: subset_eq)
    have "leaves ents' = boot_leaves unmap_null 1"
    proof
      fix p
      have old: "leaves ents p = 0" unfolding lv by simp
      show "leaves ents' p = boot_leaves unmap_null 1 p"
      proof (cases p rule: path_cases)
        case (three a b c)
        then show ?thesis
          using old tab_link(4) [OF D(1) True] large_entry_bits(2) [of 0] by (auto simp: leaves_def e)
      next
        case (four a b c d)
        then show ?thesis using old by (auto simp: leaves_def e)
      next
        case other
        then show ?thesis by (simp add: leaves_def boot_leaves_other)
      qed
    qed
    then have "boot_tree base n unmap_null g 1 (Suc u) (P(u := [0, 0, 0])) ents' m'"
      using m'(2) ps paths_link unfolding boot_tree_def by (auto simp: boot_paths_first)
    moreover have "map_2mb unmap_null (tab base a) (tab base b) 0 0 (pool_of base n u) m = Some (True, pool_of base n (Suc u), m')"
      using m1(1) m2(1) m'(1) table_new_pool [OF D(1,3)] True tab_unat(4) [OF D(1) True]
      by (simp add: map_2mb_def Let_def large_entry_def)
    ultimately show ?thesis
      using True frame_trans [OF frame_trans [OF m1(3) m2(3)] m'(3)] same_dom_trans [OF same_dom_trans [OF m1(4) m2(4)] m'(4)]
      by (intro exI [of _ m'] exI [of _ "Suc u"] exI [of _ "P(u := [0, 0, 0])"] exI [of _ ents']) simp
  qed
qed

lemma mb_loop_tree:
  assumes "boot_tree base n unmap_null g (512 * gb + mb) u P ents m"
    and ab: "a < u" "P a = [0, gb]" "b < u" "P b = [256, gb]" and k: "gb < 4" "mb \<le> 512" "0 < gb + mb"
  shows "\<exists>m' ents'. mb_loop unmap_null (tab base a) (tab base b) gb [mb..<512] (pool_of base n u) m =
      Some (True, pool_of base n u, m') \<and> boot_tree base n unmap_null g (512 * gb + 512) u P ents' m' \<and>
    frame m m' (span base (4096 * n)) \<and> same_dom m m'"
  using assms(1) k(2,3)
proof (induction "512 - mb" arbitrary: mb m ents)
  case 0
  then have "mb = 512" by simp
  with 0 show ?case by auto
next
  case (Suc d)
  then have lt: "mb < 512" "d = 512 - Suc mb" by auto
  then have up: "[mb..<512] = mb # [Suc mb..<512]" by (simp add: upt_conv_Cons)
  obtain m1 ents1 where m1: "map_2mb unmap_null (tab base a) (tab base b) gb mb (pool_of base n u) m =
      Some (True, pool_of base n u, m1)" "boot_tree base n unmap_null g (512 * gb + Suc mb) u P ents1 m1"
    "frame m m1 (span base (4096 * n))" "same_dom m m1"
    using map_2mb_tree [OF Suc.prems(1) ab k(1) lt(1) Suc.prems(3)] by blast
  obtain m' ents' where m': "mb_loop unmap_null (tab base a) (tab base b) gb [Suc mb..<512] (pool_of base n u) m1 =
      Some (True, pool_of base n u, m')" "boot_tree base n unmap_null g (512 * gb + 512) u P ents' m'"
    "frame m1 m' (span base (4096 * n))" "same_dom m1 m'"
    using Suc.hyps(1) [OF lt(2) m1(2)] lt(1) by auto
  show ?case unfolding up using m1(1) m'(1,2) frame_trans [OF m1(3) m'(3)] same_dom_trans [OF m1(4) m'(4)] by auto
qed

lemma mb_loop_first_tree:
  assumes bt: "boot_tree base n unmap_null g 0 u P ents m"
    and ab: "a < u" "P a = [0, 0]" "b < u" "P b = [256, 0]"
  shows "\<exists>m' u' P' ents'. mb_loop unmap_null (tab base a) (tab base b) 0 [0..<512] (pool_of base n u) m =
      Some (u < n, pool_of base n u', m') \<and> frame m m' (span base (4096 * n)) \<and> same_dom m m' \<and>
      (u < n \<longrightarrow> u' = Suc u \<and> boot_tree base n unmap_null g 512 u' P' ents' m' \<and> (\<forall>t<u. P' t = P t))"
proof -
  have up: "[0..<512] = 0 # [Suc 0..<512]" by (rule upt_conv_Cons) simp
  obtain m1 u1 P1 ents1 where m1: "map_2mb unmap_null (tab base a) (tab base b) 0 0 (pool_of base n u) m =
      Some (u < n, pool_of base n u1, m1)" "frame m m1 (span base (4096 * n))" "same_dom m m1"
    and t: "u < n \<Longrightarrow> u1 = Suc u \<and> boot_tree base n unmap_null g 1 u1 P1 ents1 m1 \<and> (\<forall>t<u. P1 t = P t)"
    using map_first_2mb_tree [OF bt ab] by auto
  show ?thesis
  proof (cases "u < n")
    case False
    then show ?thesis unfolding up using m1 by auto
  next
    case True
    note t = t [OF True]
    obtain m' ents' where m': "mb_loop unmap_null (tab base a) (tab base b) 0 [Suc 0..<512] (pool_of base n u1) m1 =
        Some (True, pool_of base n u1, m')" "boot_tree base n unmap_null g 512 u1 P1 ents' m'"
      "frame m1 m' (span base (4096 * n))" "same_dom m1 m'"
      using mb_loop_tree [of base n unmap_null g 0 1 u1 P1 ents1 m1 a b] t ab by auto
    then show ?thesis unfolding up using t True m1 frame_trans [OF m1(2) m'(3)] same_dom_trans [OF m1(3) m'(4)] by auto
  qed
qed

text \<open>The two tables of a gigabyte.\<close>

lemma map_1gb_link:
  assumes bt: "boot_tree base n unmap_null gb (512 * gb) u P ents m"
    and P: "1 < u" "P 1 = [0]" "2 < u" "P 2 = [256]" and g: "gb < 4" and room: "Suc u < n"
  obtains m2 ents2 where "map_1gb unmap_null (tab base 1) (tab base 2) gb (pool_of base n u) m =
      mb_loop unmap_null (tab base u) (tab base (Suc u)) gb [0..<512] (pool_of base n (Suc (Suc u))) m2"
    "boot_tree base n unmap_null (Suc gb) (512 * gb) (Suc (Suc u)) (P(u := [0, gb], Suc u := [256, gb])) ents2 m2"
    "frame m m2 (span base (4096 * n))" "same_dom m m2"
proof -
  let ?P = "P(u := [0, gb], Suc u := [256, gb])"
  let ?e = "ents([0, gb] := link_to (tab base u), [256, gb] := link_to (tab base (Suc u)))"
  have tr: "tree base n u P ents m" and ps: "paths u P = boot_paths gb (0 < gb)"
    and lv: "leaves ents = boot_leaves unmap_null (512 * gb)" using bt by (auto simp: boot_tree_def)
  note D = treeD [OF tr]
  have z: "ents [x, gb] = 0" if "x \<in> {0, 256}" for x
    by (rule ents_zero [OF tr]) (use that lv in \<open>auto simp: ps boot_paths_2\<close>)
  obtain m1 where m1: "st64 m (tab base 1 + 8 * of_nat gb) (link_to (tab base u)) = Some m1"
    "tree base n (Suc u) (P(u := [0, gb])) (ents([0, gb] := link_to (tab base u))) m1"
    "frame m m1 (span base (4096 * n))" "same_dom m m1"
    using tree_link [OF tr P(1), of gb] g room P(2) z [of 0] by auto
  obtain m2 where m2: "st64 m1 (tab base 2 + 8 * of_nat gb) (link_to (tab base (Suc u))) = Some m2"
    "tree base n (Suc (Suc u)) ?P ?e m2" "frame m1 m2 (span base (4096 * n))" "same_dom m1 m2"
    using tree_link [OF m1(2), of 2 gb] g room P(3,4) z [of 256] by auto
  have l: "leaves ?e = boot_leaves unmap_null (512 * gb)"
    unfolding lv [symmetric] using z tab_link(4) [OF D(1), of u] tab_link(4) [OF D(1), of "Suc u"] room
    by (subst leaves_link; simp?)+
  have "paths (Suc (Suc u)) ?P = boot_paths (Suc gb) (0 < gb)" unfolding paths_link ps boot_paths_Suc ..
  then have bt2: "boot_tree base n unmap_null (Suc gb) (512 * gb) (Suc (Suc u)) ?P ?e m2"
    unfolding boot_tree_def using m2(2) l by simp
  have "map_1gb unmap_null (tab base 1) (tab base 2) gb (pool_of base n u) m =
      mb_loop unmap_null (tab base u) (tab base (Suc u)) gb [0..<512] (pool_of base n (Suc (Suc u))) m2"
    using table_new_pool [OF D(1,3)] table_new_pool [OF D(1), of "Suc u"] room m1(1) m2(1)
      tab_unat(4) [OF D(1), of u] tab_unat(4) [OF D(1), of "Suc u"]
    by (simp add: map_1gb_def)
  with bt2 frame_trans [OF m1(3) m2(3)] same_dom_trans [OF m1(4) m2(4)] that show ?thesis by simp
qed

text \<open>A gigabyte of both maps takes two tables, the first one more.\<close>

lemma map_1gb_tree:
  assumes bt: "boot_tree base n unmap_null gb (512 * gb) u P ents m"
    and P: "1 < u" "P 1 = [0]" "2 < u" "P 2 = [256]" and g: "gb < 4"
  shows "\<exists>ok m' u' P' ents'. map_1gb unmap_null (tab base 1) (tab base 2) gb (pool_of base n u) m =
      Some (ok, pool_of base n u', m') \<and> frame m m' (span base (4096 * n)) \<and> same_dom m m' \<and>
      (ok \<longleftrightarrow> u + (if gb = 0 then 3 else 2) \<le> n) \<and>
      (ok \<longrightarrow> u' = u + (if gb = 0 then 3 else 2) \<and> boot_tree base n unmap_null (Suc gb) (512 * Suc gb) u' P' ents' m' \<and>
        P' 1 = [0] \<and> P' 2 = [256])"
proof (cases "Suc u < n")
  case False
  have tr: "tree base n u P ents m" using bt by (auto simp: boot_tree_def)
  note D = treeD [OF tr]
  have "map_1gb unmap_null (tab base 1) (tab base 2) gb (pool_of base n u) m = Some (False, pool_of base n n, m)"
  proof (cases "u = n")
    case True
    then show ?thesis using table_new_pool [OF D(1,3)] by (simp add: map_1gb_def)
  next
    case ne: False
    with False D(3) have "Suc u = n" by simp
    then show ?thesis using table_new_pool [OF D(1,3)] table_new_pool [OF D(1), of "Suc u"] by (auto simp: map_1gb_def)
  qed
  moreover have "\<not> u + (if gb = 0 then 3 else 2) \<le> n" using False by simp
  ultimately show ?thesis
    by (intro exI [of _ False] exI [of _ m] exI [of _ n] exI [of _ P] exI [of _ ents]) simp
next
  case True
  let ?P = "P(u := [0, gb], Suc u := [256, gb])" and ?u = "Suc (Suc u)"
  obtain m2 ents2 where pre: "map_1gb unmap_null (tab base 1) (tab base 2) gb (pool_of base n u) m =
      mb_loop unmap_null (tab base u) (tab base (Suc u)) gb [0..<512] (pool_of base n ?u) m2"
    and bt2: "boot_tree base n unmap_null (Suc gb) (512 * gb) ?u ?P ents2 m2"
    and f: "frame m m2 (span base (4096 * n))" "same_dom m m2"
    using map_1gb_link [OF bt P g True] by metis
  show ?thesis
  proof (cases "gb = 0")
    case gb: False
    obtain m' ents' where m': "mb_loop unmap_null (tab base u) (tab base (Suc u)) gb [0..<512] (pool_of base n ?u) m2 =
        Some (True, pool_of base n ?u, m')" "boot_tree base n unmap_null (Suc gb) (512 * gb + 512) ?u ?P ents' m'"
      "frame m2 m' (span base (4096 * n))" "same_dom m2 m'"
      using mb_loop_tree [of base n unmap_null "Suc gb" gb 0 ?u ?P ents2 m2 u "Suc u"] bt2 g gb by auto
    then show ?thesis
      using pre gb True P frame_trans [OF f(1) m'(3)] same_dom_trans [OF f(2) m'(4)]
      by (intro exI [of _ True] exI [of _ m'] exI [of _ ?u] exI [of _ ?P] exI [of _ ents']) (simp add: add.commute)
  next
    case gb: True
    obtain m' u' P' ents' where m': "mb_loop unmap_null (tab base u) (tab base (Suc u)) 0 [0..<512] (pool_of base n ?u) m2 =
        Some (?u < n, pool_of base n u', m')" "frame m2 m' (span base (4096 * n))" "same_dom m2 m'"
      and t: "?u < n \<longrightarrow> u' = Suc ?u \<and> boot_tree base n unmap_null 1 512 u' P' ents' m' \<and> (\<forall>t<?u. P' t = ?P t)"
      using mb_loop_first_tree [of base n unmap_null 1 ?u ?P ents2 m2 u "Suc u"] bt2 gb by auto
    from t have "?u < n \<longrightarrow> P' 1 = [0] \<and> P' 2 = [256]" using P by simp
    then show ?thesis
      using pre gb m'(1) t frame_trans [OF f(1) m'(2)] same_dom_trans [OF f(2) m'(3)]
      by (intro exI [of _ "?u < n"] exI [of _ m'] exI [of _ u'] exI [of _ P'] exI [of _ ents'])
        (auto simp: less_eq_Suc_le)
  qed
qed

lemma gb_loop_tree:
  assumes "boot_tree base n unmap_null gb (512 * gb) u P ents m" "2 < u" "P 1 = [0]" "P 2 = [256]" "gb \<le> 4"
  shows "\<exists>ok m' u' P' ents'. gb_loop unmap_null (tab base 1) (tab base 2) [gb..<4] (pool_of base n u) m =
      Some (ok, pool_of base n u', m') \<and> frame m m' (span base (4096 * n)) \<and> same_dom m m' \<and>
      (ok \<longleftrightarrow> u + 2 * (4 - gb) + (if gb = 0 then 1 else 0) \<le> n) \<and>
      (ok \<longrightarrow> boot_tree base n unmap_null 4 2048 u' P' ents' m')"
  using assms
proof (induction "4 - gb" arbitrary: gb u P ents m)
  case 0
  then have "gb = 4" by simp
  moreover have "u \<le> n" using 0(2) treeD(3) by (auto simp: boot_tree_def)
  ultimately show ?case using 0 by auto
next
  case (Suc d)
  then have lt: "gb < 4" "d = 4 - Suc gb" "Suc gb \<le> 4" by auto
  have one: "1 < u" using Suc.prems(2) by simp
  have up: "[gb..<4] = gb # [Suc gb..<4]" by (rule upt_conv_Cons [OF lt(1)])
  obtain ok m1 u1 P1 ents1 where m1: "map_1gb unmap_null (tab base 1) (tab base 2) gb (pool_of base n u) m =
      Some (ok, pool_of base n u1, m1)" "frame m m1 (span base (4096 * n))" "same_dom m m1"
    and ok: "ok \<longleftrightarrow> u + (if gb = 0 then 3 else 2) \<le> n"
    and t: "ok \<Longrightarrow> u1 = u + (if gb = 0 then 3 else 2) \<and>
      boot_tree base n unmap_null (Suc gb) (512 * Suc gb) u1 P1 ents1 m1 \<and> P1 1 = [0] \<and> P1 2 = [256]"
    using map_1gb_tree [OF Suc.prems(1) one Suc.prems(3,2,4) lt(1)] by metis
  show ?case
  proof (cases ok)
    case False
    have "2 \<le> 2 * (4 - gb)" using lt(1) by simp
    then have "\<not> u + 2 * (4 - gb) + (if gb = 0 then 1 else 0) \<le> n" using False ok by (auto split: if_splits)
    then show ?thesis unfolding up using m1 False
      by (intro exI [of _ False] exI [of _ m1] exI [of _ u1] exI [of _ P1] exI [of _ ents1]) simp
  next
    case True
    note t = t [OF True, THEN conjunct1] t [OF True, THEN conjunct2, THEN conjunct1]
      t [OF True, THEN conjunct2, THEN conjunct2, THEN conjunct1] t [OF True, THEN conjunct2, THEN conjunct2, THEN conjunct2]
    have u1: "2 < u1" using t(1) Suc.prems(2) by simp
    obtain ok' m' u' P' ents' where m': "gb_loop unmap_null (tab base 1) (tab base 2) [Suc gb..<4] (pool_of base n u1) m1 =
        Some (ok', pool_of base n u', m')" "frame m1 m' (span base (4096 * n))" "same_dom m1 m'"
        "ok' \<longleftrightarrow> u1 + 2 * (4 - Suc gb) + (if Suc gb = 0 then 1 else 0) \<le> n"
        "ok' \<longrightarrow> boot_tree base n unmap_null 4 2048 u' P' ents' m'"
      using Suc.hyps(1) [OF lt(2) t(2) u1 t(3,4) lt(3)] by blast
    have "2 * (4 - gb) = 2 + 2 * (4 - Suc gb)" using lt(1) by arith
    then have "u1 + 2 * (4 - Suc gb) = u + 2 * (4 - gb) + (if gb = 0 then 1 else 0)" using t(1) by simp
    then show ?thesis unfolding up using m1(1) m' True frame_trans [OF m1(2) m'(2)] same_dom_trans [OF m1(3) m'(3)]
      by (intro exI [of _ ok'] exI [of _ m'] exI [of _ u'] exI [of _ P'] exI [of _ ents']) simp
  qed
qed

section \<open>Mapping the segments\<close>

text \<open>Pages with their entries, mapped one after the other.\<close>

fun map_entries :: "(nat list \<Rightarrow> u64) \<Rightarrow> (u64 \<times> u64) list \<Rightarrow> nat list \<Rightarrow> u64" where
  "map_entries L [] = L"
| "map_entries L ((v, e) # es) = map_entries (L(page_path v := e)) es"

lemma map_entries_append: "map_entries L (es @ es') = map_entries (map_entries L es) es'"
  by (induction es arbitrary: L) auto

definition mappable :: "nat \<Rightarrow> nat list set \<Rightarrow> (nat list \<Rightarrow> u64) \<Rightarrow> u64 list \<Rightarrow> bool" where
  "mappable n S L vs \<longleftrightarrow> distinct (map page_path vs) \<and> (\<forall>v\<in>set vs. translate L v = None) \<and>
     card (S \<union> \<Union> (links ` set vs)) \<le> n"

lemma finite_links: "finite (links v)"
  by (simp add: links_def)

lemma translate_upd:
  "translate (L(page_path v := e)) w =
    (if page_path w = page_path v \<and> e AND X86_PTE_PRESENT \<noteq> 0 then Some (mapping 12 e w)
     else if page_path w = page_path v then translate (L(page_path v := 0)) w else translate L w)"
proof -
  have "length (take 3 (page_path w)) \<noteq> length (page_path v)" by simp
  then have "take 3 (page_path w) \<noteq> page_path v" by metis
  then show ?thesis by (auto simp: translate_def)
qed

lemma mappable_Cons:
  assumes "finite S" "e AND X86_PTE_PRESENT \<noteq> 0"
  shows "mappable n S L (v # vs) \<longleftrightarrow> translate L v = None \<and> card (S \<union> links v) \<le> n \<and>
    mappable n (S \<union> links v) (L(page_path v := e)) vs"
proof -
  have f: "translate (L(page_path v := e)) w = None \<longleftrightarrow> page_path w \<noteq> page_path v \<and> translate L w = None" for w
    using assms(2) by (simp add: translate_upd)
  have eq: "S \<union> \<Union> (links ` set (v # vs)) = S \<union> links v \<union> \<Union> (links ` set vs)" by auto
  have "card (S \<union> links v) \<le> card (S \<union> links v \<union> \<Union> (links ` set vs))"
    by (rule card_mono) (use assms(1) finite_links in auto)
  then show ?thesis unfolding mappable_def f eq by (auto simp: image_iff)
qed

lemma mappable_append:
  assumes "finite S" "\<forall>(v, e)\<in>set es. e AND X86_PTE_PRESENT \<noteq> 0"
  shows "mappable n S L (map fst es @ vs) \<longleftrightarrow> mappable n S L (map fst es) \<and>
    mappable n (S \<union> \<Union> (links ` fst ` set es)) (map_entries L es) vs \<and> card S \<le> n"
  using assms
proof (induction es arbitrary: S L)
  case Nil
  have "card S \<le> card (S \<union> \<Union> (links ` set vs))" by (rule card_mono) (use Nil finite_links in auto)
  then show ?case by (auto simp: mappable_def)
next
  case (Cons p es)
  obtain v e where p: "p = (v, e)" by (cases p)
  have e: "e AND X86_PTE_PRESENT \<noteq> 0" using Cons.prems(2) p by auto
  have fin: "finite (S \<union> links v)" using Cons.prems(1) finite_links by simp
  have "card S \<le> card (S \<union> links v)" by (rule card_mono) (use fin in auto)
  moreover have "S \<union> links v \<union> \<Union> (links ` fst ` set es) = S \<union> \<Union> (links ` fst ` set (p # es))" using p by auto
  moreover have "\<forall>(v, e)\<in>set es. e AND X86_PTE_PRESENT \<noteq> 0" using Cons.prems(2) by simp
  moreover define L' where "L' = L(page_path v := e)"
  ultimately show ?case
    using Cons.IH [OF fin, of L']
    unfolding p list.map fst_conv append_Cons mappable_Cons [OF Cons.prems(1) e] map_entries.simps
      L'_def [symmetric] by auto
qed

text \<open>The pages of a segment and their entries.\<close>

definition page_entry :: "u64 \<Rightarrow> u64 \<Rightarrow> u64 \<Rightarrow> nat \<Rightarrow> u64 \<times> u64" where
  "page_entry virtual_page page_base flags i = (virtual_page + of_nat i * EFI_PAGE_SIZE,
     (page_base + of_nat i * EFI_PAGE_SIZE AND PTE_ADDRESS) OR flags OR X86_PTE_PRESENT)"

definition segment_entries :: "bool \<Rightarrow> bbp_elf64_segment_plan \<Rightarrow> (u64 \<times> u64) list" where
  "segment_entries enable_nx s =
     map (page_entry (sp_virtual_address s - (sp_physical_address s - sp_page_base s)) (sp_page_base s)
       (segment_pte_flags enable_nx s)) [0..<unat (sp_page_count s)]"

lemma segment_flags_bits:
  "segment_pte_flags enable_nx s AND X86_PTE_PRESENT = 0" "segment_pte_flags enable_nx s AND PTE_ADDRESS = 0"
  "segment_pte_flags enable_nx s AND X86_PTE_WRITABLE \<noteq> 0 \<longleftrightarrow> sp_flags s AND BBP_ELF64_PF_W \<noteq> 0"
  "segment_pte_flags enable_nx s AND X86_PTE_NX \<noteq> 0 \<longleftrightarrow> enable_nx \<and> sp_flags s AND BBP_ELF64_PF_X = 0"
  by (auto simp: segment_pte_flags_def Let_def)

lemma page_entry_present: "snd (page_entry vp pb f i) AND X86_PTE_PRESENT \<noteq> 0"
  by (simp add: page_entry_def bit.conj_disj_distrib2)

text \<open>What mapping a list of pages does to the tables.\<close>

definition maps_entries ::
  "u64 \<Rightarrow> nat \<Rightarrow> nat \<Rightarrow> (nat \<Rightarrow> nat list) \<Rightarrow> (nat list \<Rightarrow> u64) \<Rightarrow> mem \<Rightarrow> (u64 \<times> u64) list \<Rightarrow>
    (bool \<times> page_pool \<times> mem) option \<Rightarrow> bool" where
  "maps_entries base n u P ents m es r \<longleftrightarrow>
     (\<exists>ok m' u' P' ents'. r = Some (ok, pool_of base n u', m') \<and> tree base n u' P' ents' m' \<and>
       frame m m' (span base (4096 * n)) \<and> same_dom m m' \<and>
       (ok \<longleftrightarrow> mappable n (paths u P) (leaves ents) (map fst es)) \<and>
       (ok \<longrightarrow> paths u' P' = paths u P \<union> \<Union> (links ` fst ` set es) \<and> leaves ents' = map_entries (leaves ents) es))"

lemma maps_entries_Nil:
  assumes tr: "tree base n u P ents m"
  shows "maps_entries base n u P ents m [] (Some (True, pool_of base n u, m))"
  unfolding maps_entries_def using assms tree_card [OF tr] treeD(3) [OF tr]
  by (intro exI [of _ True] exI [of _ m] exI [of _ u] exI [of _ P] exI [of _ ents]) (simp add: mappable_def)

lemma maps_entries_append:
  assumes one: "maps_entries base n u P ents m es r" and present: "\<forall>(v, e)\<in>set es. e AND X86_PTE_PRESENT \<noteq> 0"
    and tr: "tree base n u P ents m"
    and two: "\<And>m' u' P' ents'. tree base n u' P' ents' m' \<Longrightarrow>
      maps_entries base n u' P' ents' m' es' (f (pool_of base n u') m')"
  shows "maps_entries base n u P ents m (es @ es')
    (do { (ok, pool, m) \<leftarrow> r; if \<not> ok then Some (False, pool, m) else f pool m })"
proof -
  obtain ok m1 u1 P1 ents1 where r: "r = Some (ok, pool_of base n u1, m1)" "tree base n u1 P1 ents1 m1"
    "frame m m1 (span base (4096 * n))" "same_dom m m1"
    and ok: "ok \<longleftrightarrow> mappable n (paths u P) (leaves ents) (map fst es)"
    and t: "ok \<Longrightarrow> paths u1 P1 = paths u P \<union> \<Union> (links ` fst ` set es)" "ok \<Longrightarrow> leaves ents1 = map_entries (leaves ents) es"
    using one unfolding maps_entries_def by metis
  have split: "mappable n (paths u P) (leaves ents) (map fst (es @ es')) \<longleftrightarrow> ok \<and>
      mappable n (paths u P \<union> \<Union> (links ` fst ` set es)) (map_entries (leaves ents) es) (map fst es')"
    using mappable_append [OF tree_card(2) [OF tr] present, of n "leaves ents" "map fst es'"] ok
      tree_card(1) [OF tr] treeD(3) [OF tr] by simp
  show ?thesis
  proof (cases ok)
    case False
    then show ?thesis using r split unfolding maps_entries_def
      by (intro exI [of _ False] exI [of _ m1] exI [of _ u1] exI [of _ P1] exI [of _ ents1]) simp
  next
    case True
    obtain ok' m' u' P' ents' where f: "f (pool_of base n u1) m1 = Some (ok', pool_of base n u', m')" "tree base n u' P' ents' m'"
      "frame m1 m' (span base (4096 * n))" "same_dom m1 m'"
      and ok': "ok' \<longleftrightarrow> mappable n (paths u1 P1) (leaves ents1) (map fst es')"
      and t': "ok' \<Longrightarrow> paths u' P' = paths u1 P1 \<union> \<Union> (links ` fst ` set es')" "ok' \<Longrightarrow> leaves ents' = map_entries (leaves ents1) es'"
      using two [OF r(2)] unfolding maps_entries_def by metis
    show ?thesis unfolding maps_entries_def split
      using r(1) f ok' t' True t frame_trans [OF r(3) f(3)] same_dom_trans [OF r(4) f(4)]
      by (intro exI [of _ ok'] exI [of _ m'] exI [of _ u'] exI [of _ P'] exI [of _ ents']) (simp add: map_entries_append Un_assoc)
  qed
qed

lemma map_page_entries:
  assumes tr: "tree base n u P ents m" and f: "f AND X86_PTE_PRESENT = 0"
  shows "maps_entries base n u P ents m [page_entry vp pb f i]
    (map_page (pool_of base n u) (tab base 0) (vp + of_nat i * EFI_PAGE_SIZE) (pb + of_nat i * EFI_PAGE_SIZE) f m)"
  using map_page_tree [OF tr f, of "vp + of_nat i * EFI_PAGE_SIZE" "pb + of_nat i * EFI_PAGE_SIZE"]
  unfolding maps_entries_def page_entry_def by (simp add: mappable_def)

lemma page_loop_entries:
  assumes "f AND X86_PTE_PRESENT = 0" "tree base n u P ents m"
  shows "maps_entries base n u P ents m (map (page_entry vp pb f) is)
    (page_loop (tab base 0) vp pb f is (pool_of base n u) m)"
  using assms(2)
proof (induction "is" arbitrary: u P ents m)
  case Nil
  then show ?case by (simp add: maps_entries_Nil)
next
  case (Cons i "is")
  have present: "\<forall>(v, e)\<in>set [page_entry vp pb f i]. e AND X86_PTE_PRESENT \<noteq> 0"
    using page_entry_present [of vp pb f i] by (cases "page_entry vp pb f i") simp
  from maps_entries_append [OF map_page_entries [OF Cons.prems assms(1)] present Cons.prems Cons.IH]
  show ?case by simp
qed

lemma segment_loop_entries:
  assumes "tree base n u P ents m" "set is \<subseteq> {..<length segs}"
  shows "maps_entries base n u P ents m (concat (map (\<lambda>i. segment_entries enable_nx (segs ! i)) is))
    (segment_loop enable_nx (tab base 0) segs is (pool_of base n u) m)"
  using assms
proof (induction "is" arbitrary: u P ents m)
  case Nil
  then show ?case by (simp add: maps_entries_Nil)
next
  case (Cons i "is")
  have i: "i < length segs" "set is \<subseteq> {..<length segs}" using Cons.prems(2) by auto
  have present: "\<forall>(v, e)\<in>set (segment_entries enable_nx (segs ! i)). e AND X86_PTE_PRESENT \<noteq> 0"
    using page_entry_present by (auto simp: segment_entries_def split: prod.split) (metis snd_conv)
  have seg: "maps_entries base n u P ents m (segment_entries enable_nx (segs ! i))
      (map_segment enable_nx (tab base 0) (segs ! i) (pool_of base n u) m)"
    unfolding map_segment_def segment_entries_def Let_def by (rule page_loop_entries [OF segment_flags_bits(1) Cons.prems(1)])
  from maps_entries_append [OF seg present Cons.prems(1) Cons.IH [OF _ i(2)]]
  show ?case using i(1) by simp
qed

section \<open>Building the tables\<close>

lemma boot_paths_card: "card (boot_paths 4 True) = 12" "finite (boot_paths 4 True)"
proof -
  have e: "boot_paths 4 True = set [[], [0], [256], [0, 0], [0, 1], [0, 2], [0, 3],
      [256, 0], [256, 1], [256, 2], [256, 3], [0, 0, 0]]"
    by (auto simp: boot_paths_def numeral_eq_Suc lessThan_Suc)
  show "card (boot_paths 4 True) = 12" unfolding e by (subst distinct_card) simp_all
  show "finite (boot_paths 4 True)" unfolding e by simp
qed

lemma top_tables:
  assumes z: "pool_zero base n m" and n: "3 \<le> n"
  obtains m1 m2 P ents where "st64 m (tab base 0 + 8 * 0) (link_to (tab base 1)) = Some m1"
    "st64 m1 (tab base 0 + 8 * 256) (link_to (tab base 2)) = Some m2" "boot_tree base n unmap_null 0 0 3 P ents m2"
    "P 1 = [0]" "P 2 = [256]" "frame m m2 (span base (4096 * n))" "same_dom m m2"
proof -
  let ?P = "\<lambda>_ :: nat. [] :: nat list" and ?e = "\<lambda>_ :: nat list. 0 :: u64"
  have g: "pool_range base n" using z by (simp add: pool_zero_def)
  have top: "tree base n 1 ?P ?e m" using tree_top [OF z] n by simp
  obtain m1 where m1: "st64 m (tab base 0 + 8 * of_nat 0) (link_to (tab base 1)) = Some m1"
    "tree base n (Suc 1) (?P(1 := [0])) (?e([0] := link_to (tab base 1))) m1"
    "frame m m1 (span base (4096 * n))" "same_dom m m1"
    using tree_link [OF top, of 0 0] n by auto
  obtain m2 where m2: "st64 m1 (tab base 0 + 8 * of_nat 256) (link_to (tab base (Suc 1))) = Some m2"
    "tree base n (Suc (Suc 1)) (?P(1 := [0], Suc 1 := [256]))
      (?e([0] := link_to (tab base 1), [256] := link_to (tab base (Suc 1)))) m2"
    "frame m1 m2 (span base (4096 * n))" "same_dom m1 m2"
    using tree_link [OF m1(2), of 0 256] n by auto
  have l: "leaves (?e([0] := link_to (tab base 1), [256] := link_to (tab base (Suc 1)))) = boot_leaves unmap_null 0"
    by (rule ext) (auto simp: leaves_def)
  have "paths (Suc (Suc 1)) (?P(1 := [0], Suc 1 := [256])) = boot_paths 0 False"
    by (auto simp: boot_paths_def lessThan_Suc)
  then have "boot_tree base n unmap_null 0 0 3 (?P(1 := [0], Suc 1 := [256]))
      (?e([0] := link_to (tab base 1), [256] := link_to (tab base (Suc 1)))) m2"
    unfolding boot_tree_def using m2(2) l by (simp add: numeral_3_eq_3)
  with that [OF _ _ this] m1(1) m2(1) frame_trans [OF m1(3) m2(3)] same_dom_trans [OF m1(4) m2(4)] show ?thesis
    by (simp add: numeral_2_eq_2)
qed

definition plan_entries :: "bool \<Rightarrow> bbp_elf64_plan \<Rightarrow> (u64 \<times> u64) list" where
  "plan_entries enable_nx plan =
     concat (map (segment_entries enable_nx) (take (unat (ep_segment_count plan)) (ep_segments plan)))"

lemma plan_entries_nth:
  assumes "unat (ep_segment_count plan) \<le> length (ep_segments plan)"
  shows "concat (map (\<lambda>i. segment_entries enable_nx (ep_segments plan ! i)) [0..<unat (ep_segment_count plan)]) =
    plan_entries enable_nx plan"
proof -
  have "map (\<lambda>i. ep_segments plan ! i) [0..<unat (ep_segment_count plan)] =
      take (unat (ep_segment_count plan)) (ep_segments plan)"
    using assms by (intro nth_equalityI) auto
  then show ?thesis unfolding plan_entries_def by (metis (no_types, lifting) map_map comp_def map_eq_conv)
qed

lemma mappable_boot_paths:
  assumes "mappable n (boot_paths 4 True) L vs"
  shows "12 \<le> n"
proof -
  have "card (boot_paths 4 True) \<le> card (boot_paths 4 True \<union> \<Union> (links ` set vs))"
    by (rule card_mono) (use boot_paths_card finite_links in auto)
  then show ?thesis using assms boot_paths_card by (simp add: mappable_def)
qed

lemma build_page_tables_tree:
  assumes z: "pool_zero base n m" and c: "unat (ep_segment_count plan) \<le> length (ep_segments plan)"
  shows "\<exists>r m' u'. build_page_tables (pool_of base n 0) plan enable_nx unmap_null m = Some (r, pool_of base n u', m') \<and>
    frame m m' (span base (4096 * n)) \<and> same_dom m m' \<and>
    (r \<noteq> None \<longleftrightarrow> mappable n (boot_paths 4 True) (boot_leaves unmap_null 2048) (map fst (plan_entries enable_nx plan))) \<and>
    (r \<noteq> None \<longrightarrow> r = Some base \<and> (\<forall>va. mmu_walk m' [39, 30, 21, 12] base va True False =
       translate (map_entries (boot_leaves unmap_null 2048) (plan_entries enable_nx plan)) va))"
proof -
  let ?es = "plan_entries enable_nx plan" and ?is = "[0..<unat (ep_segment_count plan)]"
  let ?bt = "build_page_tables (pool_of base n 0) plan enable_nx unmap_null m"
  have g: "pool_range base n" using z by (simp add: pool_zero_def)
  note small = mappable_boot_paths and es = plan_entries_nth [OF c, of enable_nx]
  have sub: "set ?is \<subseteq> {..<length (ep_segments plan)}" using c by auto
  have t0: "tab base 0 = base" by (simp add: tab_def)
  have new: "table_new (pool_of base n u) = (if u = n then (0, pool_of base n u) else (tab base u, pool_of base n (Suc u)))"
    if "u \<le> n" for u by (rule table_new_pool [OF g that])
  show ?thesis
  proof (cases "3 \<le> n")
    case False
    then have "n = 0 \<or> n = 1 \<or> n = 2" by auto
    then have "?bt = Some (None, pool_of base n n, m)"
      using new [of 0] new [of 1] new [of 2] by (auto simp: build_page_tables_def numeral_2_eq_2)
    then show ?thesis using small False by fastforce
  next
    case True
    obtain m1 m2 P ents where top: "st64 m (tab base 0 + 8 * 0) (link_to (tab base 1)) = Some m1"
      "st64 m1 (tab base 0 + 8 * 256) (link_to (tab base 2)) = Some m2" "boot_tree base n unmap_null 0 (512 * 0) 3 P ents m2"
      "P 1 = [0]" "P 2 = [256]" "frame m m2 (span base (4096 * n))" "same_dom m m2"
      using top_tables [OF z True] by (metis mult_0_right)
    obtain ok m3 u3 P3 ents3 where gb: "gb_loop unmap_null (tab base 1) (tab base 2) [0..<4] (pool_of base n 3) m2 =
        Some (ok, pool_of base n u3, m3)" "frame m2 m3 (span base (4096 * n))" "same_dom m2 m3"
        "ok \<longleftrightarrow> 12 \<le> n" "ok \<Longrightarrow> boot_tree base n unmap_null 4 2048 u3 P3 ents3 m3"
      using gb_loop_tree [OF top(3) _ top(4,5)] by auto
    have f: "frame m m3 (span base (4096 * n))" "same_dom m m3"
      using frame_trans [OF top(6) gb(2)] same_dom_trans [OF top(7) gb(3)] by simp_all
    have pre: "?bt = (if \<not> ok then Some (None, pool_of base n u3, m3) else
        do { (ok, pool, m) \<leftarrow> segment_loop enable_nx base (ep_segments plan) ?is (pool_of base n u3) m3;
             if \<not> ok then Some (None, pool, m) else Some (Some base, pool, m) })"
      using top(1,2) gb(1) True new [of 0] new [of 1] new [of 2] tab_unat(4) [OF g, of 0] tab_unat(4) [OF g, of 1]
        tab_unat(4) [OF g, of 2]
      by (simp add: build_page_tables_def t0 numeral_2_eq_2 numeral_3_eq_3)
    show ?thesis
    proof (cases ok)
      case False
      then show ?thesis using pre f small gb(4) by fastforce
    next
      case ok: True
      then have bt: "tree base n u3 P3 ents3 m3" "paths u3 P3 = boot_paths 4 True" "leaves ents3 = boot_leaves unmap_null 2048"
        using gb(5) by (auto simp: boot_tree_def)
      obtain ok' m' u' P' ents' where s: "segment_loop enable_nx base (ep_segments plan) ?is (pool_of base n u3) m3 =
          Some (ok', pool_of base n u', m')" "tree base n u' P' ents' m'" "frame m3 m' (span base (4096 * n))" "same_dom m3 m'"
          "ok' \<longleftrightarrow> mappable n (boot_paths 4 True) (boot_leaves unmap_null 2048) (map fst ?es)"
          "ok' \<longrightarrow> leaves ents' = map_entries (boot_leaves unmap_null 2048) ?es"
        using segment_loop_entries [OF bt(1) sub, of enable_nx]
        unfolding maps_entries_def es bt(2,3) t0 by metis
      have "?bt = Some (if ok' then Some base else None, pool_of base n u', m')" unfolding pre using ok s(1) by simp
      then show ?thesis
        using s(5,6) mmu_tree [OF s(2)] frame_trans [OF f(1) s(3)] same_dom_trans [OF f(2) s(4)] t0 by auto
    qed
  qed
qed

end
