(* ===== verification/Address_Space.thy ===== *)
theory Address_Space
  imports Page_Tables
begin

text \<open>
  The address space the loader hands to the kernel. The page tables of \<open>build_page_tables\<close> translate
  exactly as \<open>boot_map\<close> says: the pages of the kernel's segments with their permissions, the first four
  gigabytes at their own addresses and at the high-half offset, and nothing else. Together with the load
  planner this means that every byte of every segment is visible at its virtual address.
\<close>

unbundle bit_operations_syntax

section \<open>The address space of the kernel\<close>

lemma unat_shifts:
  "unat (drop_bit s (x :: u64)) = unat x div 2 ^ s" "unat (take_bit s (x :: u64)) = unat x mod 2 ^ s"
  "unat x * 2 ^ s < 2 ^ 64 \<Longrightarrow> unat (push_bit s (x :: u64)) = unat x * 2 ^ s"
proof -
  have "unat (drop_bit s x) = drop_bit s (unat x)" by (rule unat_drop_bit_eq)
  then show "unat (drop_bit s x) = unat x div 2 ^ s" by (simp only: drop_bit_eq_div)
  have "unat (take_bit s x) = take_bit s (unat x)" by (rule unsigned_take_bit_eq)
  then show "unat (take_bit s x) = unat x mod 2 ^ s" by (simp only: take_bit_eq_mod)
  have "unat (push_bit s x) = take_bit 64 (push_bit s (unat x))" using unsigned_push_bit_eq [of s x] by simp
  then show "unat (push_bit s x) = unat x * 2 ^ s" if "unat x * 2 ^ s < 2 ^ 64"
    using that by (simp only: push_bit_eq_mult take_bit_nat_eq_self)
qed

lemma table_index_unat: "unat (table_index s va) = unat va div 2 ^ s mod 512"
  using unat_and_pred [of "0x1ff" 9 "drop_bit s va"] unat_shifts(1) [of s va]
  by (simp only: table_index_def) simp

lemma page_path_unat:
  "page_path va = [unat va div 2 ^ 39 mod 512, unat va div 2 ^ 30 mod 512, unat va div 2 ^ 21 mod 512,
     unat va div 2 ^ 12 mod 512]"
  by (simp add: page_path_def table_index_unat)

lemma mapping_aligned:
  assumes s: "12 \<le> s" "s < 64" and a: "unat a = unat w div 2 ^ s * 2 ^ s" "unat a < 2 ^ 52"
    and w: "unat w mod 2 ^ s = unat va mod 2 ^ s" and f: "f AND PTE_ADDRESS = 0"
  shows "fst (mapping s (a OR f) va) = w"
proof -
  have "(2 :: nat) ^ 12 dvd 2 ^ s" by (rule le_imp_power_dvd [OF s(1)])
  then have "4096 dvd unat a" unfolding a(1) by (simp add: dvd_mult)
  from page_aligned_low(1) [OF this a(2) f] have p: "(a OR f) AND PTE_ADDRESS = a" .
  have aw: "a = push_bit s (drop_bit s w)"
  proof -
    have "unat (push_bit s (drop_bit s w)) = unat w div 2 ^ s * 2 ^ s"
      using div_times_less_eq_dividend [of "unat w" "2 ^ s"] unat_u64_less [of w] unat_shifts(1) [of s w]
        unat_shifts(3) [of "drop_bit s w" s] by (metis order_le_less_trans)
    then show ?thesis using a(1) by (simp add: word_unat_eq_iff)
  qed
  have "take_bit s va = take_bit s w"
    unfolding word_unat_eq_iff unat_shifts(2) w ..
  then have low: "va AND mask s = take_bit s w" by (simp add: take_bit_eq_mask)
  have "(a AND NOT (mask s)) OR (va AND mask s) = w"
    unfolding low aw by (rule bit_word_eqI) (auto simp: bit_simps)
  moreover have "(a OR f) AND PTE_ADDRESS AND NOT (mask s) = a AND NOT (mask s)"
    unfolding and.assoc [symmetric] p ..
  ultimately show ?thesis by (simp add: mapping_def)
qed

text \<open>The maps that do not depend on the kernel: the first four gigabytes, without the null page if the
  kernel asks for it, and the same memory at the high-half offset.\<close>

abbreviation BBP_HHDM_OFFSET :: u64 where "BBP_HHDM_OFFSET \<equiv> 0xffff800000000000"
abbreviation BBP_IDENTITY_LIMIT :: u64 where "BBP_IDENTITY_LIMIT \<equiv> 0x100000000"

definition fixed_map :: "bool \<Rightarrow> u64 \<Rightarrow> (u64 \<times> bool \<times> bool) option" where
  "fixed_map unmap_null va =
     (if va < BBP_IDENTITY_LIMIT then if unmap_null \<and> va < EFI_PAGE_SIZE then None else Some (va, True, False)
      else if BBP_HHDM_OFFSET \<le> va \<and> va - BBP_HHDM_OFFSET < BBP_IDENTITY_LIMIT
      then Some (va - BBP_HHDM_OFFSET, True, False) else None)"

lemma mapping_bits:
  assumes "12 \<le> s" "s < 64" "unat w < 2 ^ 32" "unat w mod 2 ^ s = unat va mod 2 ^ s" "f = 3 \<or> f = 0x83"
  shows "mapping s (of_nat (unat w div 2 ^ s * 2 ^ s) OR f) va = (w, True, False)"
proof -
  let ?a = "of_nat (unat w div 2 ^ s * 2 ^ s) :: u64"
  have le: "unat w div 2 ^ s * 2 ^ s \<le> unat w" by (rule div_times_less_eq_dividend)
  then have a: "unat ?a = unat w div 2 ^ s * 2 ^ s" using assms(3) by (intro unat_of_nat_u64 le_less_trans [OF le]) simp
  have lt: "unat ?a < 2 ^ 52" unfolding a by (rule le_less_trans [OF le]) (use assms(3) in simp)
  have "fst (mapping s (?a OR f) va) = w"
    by (rule mapping_aligned [OF assms(1,2) a lt assms(4)]) (use assms(5) in auto)
  moreover have "(2 :: nat) ^ 12 dvd 2 ^ s" by (rule le_imp_power_dvd [OF assms(1)])
  then have "4096 dvd unat ?a" unfolding a by (simp add: dvd_mult)
  from page_aligned_low [OF this lt, of f] assms(5) have "(?a OR f) AND X86_PTE_WRITABLE \<noteq> 0" "(?a OR f) AND X86_PTE_NX = 0"
    by (auto simp: bit.conj_disj_distrib2)
  ultimately show ?thesis by (simp add: mapping_def)
qed

lemma index_low:
  fixes c :: nat
  assumes "0 < c"
  shows "(512 * k * c + y) div c mod 512 = y div c mod 512" "(512 * k * c + y) mod c = y mod c"
  using assms by simp_all

lemma index_high:
  fixes y :: nat
  assumes "\<not> y < 2 ^ 32" "y < 2 ^ 47" "a = 0 \<or> a = 256"
  shows "\<not> ((a + y div 2 ^ 39 = 0 \<or> a + y div 2 ^ 39 = 256) \<and> y div 2 ^ 30 mod 512 < 4)"
proof (cases "y div 2 ^ 39 = 0")
  case True
  then have "y < 2 ^ 39" by (simp add: div_eq_0_iff)
  then have "y div 2 ^ 30 mod 512 = y div 2 ^ 30" by (simp add: less_mult_imp_div_less)
  moreover have "2 ^ 32 div 2 ^ 30 \<le> y div 2 ^ 30" using assms(1) by (intro div_le_mono) simp
  ultimately show ?thesis by simp
next
  case False
  have "y div 2 ^ 39 < 256" using assms(2) by (simp add: less_mult_imp_div_less)
  with False assms(3) show ?thesis by auto
qed

lemma index_small:
  fixes y :: nat
  assumes "y < 2 ^ 32"
  shows "y div 2 ^ 39 = 0" "y div 2 ^ 30 mod 512 < 4 \<longleftrightarrow> True"
    "512 * (y div 2 ^ 30 mod 512) + y div 2 ^ 21 mod 512 = y div 2 ^ 21"
    "y div 2 ^ 30 mod 512 = 0 \<and> y div 2 ^ 21 mod 512 = 0 \<longleftrightarrow> y < 2 ^ 21"
proof -
  show "y div 2 ^ 39 = 0" using assms by simp
  have g: "y div 2 ^ 30 < 4" using assms by (simp add: less_mult_imp_div_less)
  then have m: "y div 2 ^ 30 mod 512 = y div 2 ^ 30" by simp
  show "y div 2 ^ 30 mod 512 < 4 \<longleftrightarrow> True" using g m by simp
  have "y div 2 ^ 30 = y div 2 ^ 21 div 512" by (simp add: div_mult2_eq [symmetric])
  then show k: "512 * (y div 2 ^ 30 mod 512) + y div 2 ^ 21 mod 512 = y div 2 ^ 21" unfolding m by simp
  have "y < 2 ^ 21 \<longleftrightarrow> y div 2 ^ 21 = 0" by (simp add: div_eq_0_iff)
  then show "y div 2 ^ 30 mod 512 = 0 \<and> y div 2 ^ 21 mod 512 = 0 \<longleftrightarrow> y < 2 ^ 21" using k by linarith
qed

lemma index_first:
  fixes y :: nat
  assumes "y < 2 ^ 21"
  shows "y div 2 ^ 12 mod 512 = y div 2 ^ 12" "y div 2 ^ 12 = 0 \<longleftrightarrow> y < 4096"
  using assms by (simp_all add: less_mult_imp_div_less div_eq_0_iff)

lemma boot_translate:
  assumes "page_path va = [i, g, c, d]" "c < 512" "d < 512"
  shows "translate (boot_leaves unmap_null 2048) va =
    (if i = 0 \<and> g = 0 \<and> c = 0
     then if unmap_null \<and> d = 0 then None else Some (mapping 12 (of_nat (d * 2 ^ 12) OR 3) va)
     else if (i = 0 \<or> i = 256) \<and> g < 4 then Some (mapping 21 (of_nat ((512 * g + c) * 2 ^ 21) OR 0x83) va) else None)"
proof -
  have four: "boot_leaves unmap_null 2048 [i, g, c, d] =
      (if i = 0 \<and> g = 0 \<and> c = 0 \<and> \<not> (unmap_null \<and> d = 0) then of_nat (d * 2 ^ 12) OR 3 else 0)"
    using assms(3) by auto
  have "512 * g + c < 2048 \<longleftrightarrow> g < 4" using assms(2) by linarith
  then have three: "boot_leaves unmap_null 2048 [i, g, c] = (if (i = 0 \<and> \<not> (g = 0 \<and> c = 0) \<or> i = 256) \<and> g < 4
      then of_nat ((512 * g + c) * 2 ^ 21) OR 0x83 else 0)"
    using assms(2) by (simp add: large_entry_def)
  have p: "(x OR 3) AND X86_PTE_PRESENT \<noteq> 0" "(x OR 0x83) AND X86_PTE_PRESENT \<noteq> 0" for x :: u64
    by (simp_all add: bit.conj_disj_distrib2)
  have t: "take 3 [i, g, c, d] = [i, g, c]" by simp
  show ?thesis unfolding translate_def assms(1) t four three using p by (auto simp del: of_nat_mult)
qed

lemma boot_leaves_at:
  assumes u: "unat va = h + unat w" "h mod 2 ^ 39 = 0" "h div 2 ^ 39 mod 512 = a" "a = 0 \<or> a = 256" "unat w < 2 ^ 47"
  shows "translate (boot_leaves unmap_null 2048) va =
    (if unat w < 2 ^ 32 then if a = 0 \<and> unmap_null \<and> unat w < 4096 then None else Some (w, True, False) else None)"
proof -
  obtain H where h: "h = 2 ^ 39 * H" using u(2) by (auto elim: dvdE)
  define y where "y = unat w"
  have H: "H mod 512 = a" using u(3) h by simp
  have y: "y < 2 ^ 47" "unat va = 2 ^ 39 * H + y" using u(1,5) h by (simp_all add: y_def)
  have "unat va div 2 ^ 39 mod 512 = (a + y div 2 ^ 39) mod 512"
    unfolding y(2) H [symmetric] by (simp add: mod_add_left_eq)
  also have "\<dots> = a + y div 2 ^ 39" using y(1) u(4) by auto
  finally have i39: "unat va div 2 ^ 39 mod 512 = a + y div 2 ^ 39" .
  have e: "unat va = 512 * H * 2 ^ 30 + y" "unat va = 512 * (512 * H) * 2 ^ 21 + y"
    "unat va = 512 * (512 * 512 * H) * 2 ^ 12 + y" unfolding y(2) by simp_all
  have path: "page_path va = [a + y div 2 ^ 39, y div 2 ^ 30 mod 512, y div 2 ^ 21 mod 512, y div 2 ^ 12 mod 512]"
    unfolding page_path_unat i39 using index_low(1) [of "2 ^ 30" H y] index_low(1) [of "2 ^ 21" "512 * H" y]
      index_low(1) [of "2 ^ 12" "512 * 512 * H" y] by (simp only: e [symmetric]) simp
  have "unat va mod 2 ^ 21 = y mod 2 ^ 21" unfolding e(2) by (rule index_low(2)) simp
  moreover have "unat va mod 2 ^ 12 = y mod 2 ^ 12" unfolding e(3) by (rule index_low(2)) simp
  ultimately have low: "unat w mod 2 ^ 21 = unat va mod 2 ^ 21" "unat w mod 2 ^ 12 = unat va mod 2 ^ 12"
    by (simp_all only: y_def)
  have T: "translate (boot_leaves unmap_null 2048) va =
    (if a + y div 2 ^ 39 = 0 \<and> y div 2 ^ 30 mod 512 = 0 \<and> y div 2 ^ 21 mod 512 = 0
     then if unmap_null \<and> y div 2 ^ 12 mod 512 = 0 then None
       else Some (mapping 12 (of_nat (y div 2 ^ 12 mod 512 * 2 ^ 12) OR 3) va)
     else if (a + y div 2 ^ 39 = 0 \<or> a + y div 2 ^ 39 = 256) \<and> y div 2 ^ 30 mod 512 < 4
     then Some (mapping 21 (of_nat ((512 * (y div 2 ^ 30 mod 512) + y div 2 ^ 21 mod 512) * 2 ^ 21) OR 0x83) va) else None)"
    by (rule boot_translate [OF path]) simp_all
  show ?thesis
  proof (cases "y < 2 ^ 32")
    case False
    have "\<not> ((a + y div 2 ^ 39 = 0 \<or> a + y div 2 ^ 39 = 256) \<and> y div 2 ^ 30 mod 512 < 4)"
      by (rule index_high [OF False y(1) u(4)])
    then show ?thesis unfolding T using False by (auto simp: y_def)
  next
    case True
    note ix = index_small [OF True]
    have w32: "unat w < 2 ^ 32" using True by (simp add: y_def)
    have m12: "mapping 12 (of_nat (y div 2 ^ 12 * 2 ^ 12) OR 3) va = (w, True, False)"
      unfolding y_def by (rule mapping_bits [OF _ _ w32 low(2)]) simp_all
    have m21: "mapping 21 (of_nat (y div 2 ^ 21 * 2 ^ 21) OR 0x83) va = (w, True, False)"
      unfolding y_def by (rule mapping_bits [OF _ _ w32 low(1)]) simp_all
    show ?thesis
    proof (cases "a = 0 \<and> y < 2 ^ 21")
      case small: True
      have "translate (boot_leaves unmap_null 2048) va = (if unmap_null \<and> y < 4096 then None else Some (w, True, False))"
        unfolding T ix index_first(1) [OF conjunct2 [OF small]] m12 index_first(2) [OF conjunct2 [OF small]]
        using small by simp
      then show ?thesis using small True by (auto simp: y_def)
    next
      case large: False
      have "translate (boot_leaves unmap_null 2048) va = Some (w, True, False)"
        unfolding T ix m21 using large u(4) by auto
      then show ?thesis using large True by (auto simp: y_def)
    qed
  qed
qed

lemma fixed_map_translate:
  assumes "canonical_region va \<noteq> 0"
  shows "translate (boot_leaves unmap_null 2048) va = fixed_map unmap_null va"
proof (cases "va < ELF64_LOWER_CANONICAL_END")
  case True
  then have lt: "unat va < 2 ^ 47" by (simp add: word_less_nat_alt elf_consts)
  have "\<not> BBP_HHDM_OFFSET \<le> va" using lt by (simp add: word_le_nat_alt)
  then show ?thesis
    using boot_leaves_at [of va 0 va 0 unmap_null] lt by (simp add: fixed_map_def word_less_nat_alt)
next
  case False
  then have ge: "BBP_HHDM_OFFSET \<le> va" using assms by (auto simp: canonical_region_def elf_consts split: if_splits)
  let ?w = "va - BBP_HHDM_OFFSET"
  have w: "unat va = 0xffff800000000000 + unat ?w"
    using unat_diff_u64 [OF ge] ge by (simp add: word_le_nat_alt)
  then have lt: "unat ?w < 2 ^ 47" using unat_u64_less [of va] by simp
  have "\<not> va < BBP_IDENTITY_LIMIT" using w by (simp add: word_less_nat_alt)
  then show ?thesis
    using boot_leaves_at [OF w, of 256 unmap_null] lt ge by (simp add: fixed_map_def word_less_nat_alt)
qed

section \<open>The pages of the kernel\<close>

text \<open>The pages of a segment: virtual address, physical address, writable, not executable.\<close>

definition segment_pages :: "bool \<Rightarrow> bbp_elf64_segment_plan \<Rightarrow> (u64 \<times> u64 \<times> bool \<times> bool) list" where
  "segment_pages enable_nx s =
     map (\<lambda>i. (sp_virtual_address s - (sp_physical_address s - sp_page_base s) + of_nat i * EFI_PAGE_SIZE,
         sp_page_base s + of_nat i * EFI_PAGE_SIZE, sp_flags s AND BBP_ELF64_PF_W \<noteq> 0,
         enable_nx \<and> sp_flags s AND BBP_ELF64_PF_X = 0)) [0..<unat (sp_page_count s)]"

definition kernel_pages :: "bool \<Rightarrow> bbp_elf64_plan \<Rightarrow> (u64 \<times> u64 \<times> bool \<times> bool) list" where
  "kernel_pages enable_nx plan =
     concat (map (segment_pages enable_nx) (take (unat (ep_segment_count plan)) (ep_segments plan)))"

definition boot_map :: "bool \<Rightarrow> bool \<Rightarrow> bbp_elf64_plan \<Rightarrow> u64 \<Rightarrow> (u64 \<times> bool \<times> bool) option" where
  "boot_map enable_nx unmap_null plan va =
     (case find (\<lambda>(v, _). page_path v = page_path va) (kernel_pages enable_nx plan) of
        Some (v, p, w, nx) \<Rightarrow> Some ((p AND PTE_ADDRESS) OR (va AND 0xfff), w, nx)
      | None \<Rightarrow> fixed_map unmap_null va)"

text \<open>The pages fit: they are distinct, none is in a fixed map, and the tables suffice.\<close>

definition pages_fit :: "nat \<Rightarrow> bool \<Rightarrow> u64 list \<Rightarrow> bool" where
  "pages_fit n unmap_null vs \<longleftrightarrow> distinct (map page_path vs) \<and> (\<forall>v\<in>set vs. fixed_map unmap_null v = None) \<and>
     card (boot_paths 4 True \<union> \<Union> (links ` set vs)) \<le> n"

lemma page_entry_mapping:
  assumes "f AND PTE_ADDRESS = 0"
  shows "mapping 12 (snd (page_entry vp pb f i)) va =
    ((pb + of_nat i * EFI_PAGE_SIZE AND PTE_ADDRESS) OR (va AND 0xfff), f AND X86_PTE_WRITABLE \<noteq> 0, f AND X86_PTE_NX \<noteq> 0)"
proof -
  let ?a = "pb + of_nat i * EFI_PAGE_SIZE"
  have "PTE_ADDRESS AND NOT (mask 12) = PTE_ADDRESS" "mask 12 = (0xfff :: u64)" by (simp_all add: mask_eq_exp_minus_1)
  moreover have "((?a AND PTE_ADDRESS) OR f OR 1) AND PTE_ADDRESS = ?a AND PTE_ADDRESS"
    using assms by (simp add: bit.conj_disj_distrib2 and.assoc)
  moreover have "((?a AND PTE_ADDRESS) OR f OR 1) AND X86_PTE_WRITABLE = f AND X86_PTE_WRITABLE"
    "((?a AND PTE_ADDRESS) OR f OR 1) AND X86_PTE_NX = f AND X86_PTE_NX"
    by (simp_all add: bit.conj_disj_distrib2 and.assoc)
  ultimately show ?thesis unfolding mapping_def page_entry_def snd_conv by simp
qed

lemma translate_entries_none:
  assumes "\<forall>(v, e)\<in>set es. page_path v \<noteq> page_path va"
  shows "translate (map_entries L es) va = translate L va"
  using assms by (induction es arbitrary: L) (auto simp: translate_upd)

lemma translate_entries:
  assumes "distinct (map (page_path \<circ> fst) es)" "\<forall>(v, e)\<in>set es. e AND X86_PTE_PRESENT \<noteq> 0"
  shows "translate (map_entries L es) va =
    (case find (\<lambda>(v, _). page_path v = page_path va) es of
       Some (v, e) \<Rightarrow> Some (mapping 12 e va) | None \<Rightarrow> translate L va)"
  using assms
proof (induction es arbitrary: L)
  case (Cons x es)
  obtain v e where x: "x = (v, e)" by (cases x)
  show ?case
  proof (cases "page_path v = page_path va")
    case True
    then have "\<forall>(w, e)\<in>set es. page_path w \<noteq> page_path va" using Cons.prems(1) x by (force simp: image_iff)
    from translate_entries_none [OF this] show ?thesis using True Cons.prems(2) x by (simp add: translate_upd)
  next
    case False
    then have t: "translate (L(page_path v := e)) va = translate L va" by (simp add: translate_upd)
    have "distinct (map (page_path \<circ> fst) es)" "\<forall>(v, e)\<in>set es. e AND X86_PTE_PRESENT \<noteq> 0"
      using Cons.prems unfolding list.map distinct.simps by simp_all
    note ih = Cons.IH [OF this, of "L(page_path v := e)", unfolded t]
    show ?thesis unfolding x map_entries.simps ih using False by simp
  qed
qed simp

text \<open>Entries and pages correspond.\<close>

lemma segment_entries_pages:
  "map fst (segment_entries enable_nx s) = map fst (segment_pages enable_nx s)"
  "map (\<lambda>(v, e). (v, mapping 12 e va)) (segment_entries enable_nx s) =
     map (\<lambda>(v, p, w, nx). (v, (p AND PTE_ADDRESS) OR (va AND 0xfff), w, nx)) (segment_pages enable_nx s)"
proof -
  show "map fst (segment_entries enable_nx s) = map fst (segment_pages enable_nx s)"
    by (simp add: segment_entries_def segment_pages_def page_entry_def)
  show "map (\<lambda>(v, e). (v, mapping 12 e va)) (segment_entries enable_nx s) =
     map (\<lambda>(v, p, w, nx). (v, (p AND PTE_ADDRESS) OR (va AND 0xfff), w, nx)) (segment_pages enable_nx s)"
    using page_entry_mapping [OF segment_flags_bits(2), of _ _ enable_nx s _ va]
    by (simp add: segment_entries_def segment_pages_def segment_flags_bits(3,4) page_entry_def)
qed

lemma plan_entries_pages:
  "map fst (plan_entries enable_nx plan) = map fst (kernel_pages enable_nx plan)"
  "map (\<lambda>(v, e). (v, mapping 12 e va)) (plan_entries enable_nx plan) =
     map (\<lambda>(v, p, w, nx). (v, (p AND PTE_ADDRESS) OR (va AND 0xfff), w, nx)) (kernel_pages enable_nx plan)"
  by (simp_all add: plan_entries_def kernel_pages_def map_concat segment_entries_pages comp_def)

lemma find_map_fst:
  assumes "map f xs = map g ys" "\<And>x. fst (f x) = h x" "\<And>y. fst (g y) = k y"
  shows "map_option (snd \<circ> f) (find (\<lambda>x. Q (h x)) xs) = map_option (snd \<circ> g) (find (\<lambda>y. Q (k y)) ys)"
  using assms(1)
proof (induction xs arbitrary: ys)
  case (Cons x xs)
  then obtain y ys' where ys: "ys = y # ys'" "f x = g y" "map f xs = map g ys'" by (cases ys) auto
  then have "h x = k y" using assms(2) [of x] assms(3) [of y] by simp
  then show ?case using Cons.IH [OF ys(3)] ys by simp
qed simp

lemma plan_entries_present: "\<forall>(v, e)\<in>set (plan_entries enable_nx plan). e AND X86_PTE_PRESENT \<noteq> 0"
  using page_entry_present by (auto simp: plan_entries_def segment_entries_def) (metis snd_conv)

lemma translate_boot_map:
  assumes "distinct (map page_path (map fst (kernel_pages enable_nx plan)))" "canonical_region va \<noteq> 0"
  shows "translate (map_entries (boot_leaves unmap_null 2048) (plan_entries enable_nx plan)) va =
    boot_map enable_nx unmap_null plan va"
proof -
  have d: "distinct (map (page_path \<circ> fst) (plan_entries enable_nx plan))"
    using assms(1) plan_entries_pages(1) by (metis map_map)
  let ?f = "\<lambda>(v, e). (v, mapping 12 e va)" and ?g = "\<lambda>(v, p, w, nx). (v, (p AND PTE_ADDRESS) OR (va AND 0xfff), w, nx)"
  have "map_option (snd \<circ> ?f) (find (\<lambda>x. page_path (fst x) = page_path va) (plan_entries enable_nx plan)) =
    map_option (snd \<circ> ?g) (find (\<lambda>x. page_path (fst x) = page_path va) (kernel_pages enable_nx plan))"
    by (rule find_map_fst [OF plan_entries_pages(2)]) (auto split: prod.split)
  then have eq: "map_option (snd \<circ> ?f) (find (\<lambda>(v, _). page_path v = page_path va) (plan_entries enable_nx plan)) =
    map_option (snd \<circ> ?g) (find (\<lambda>(v, _). page_path v = page_path va) (kernel_pages enable_nx plan))"
    by (simp only: case_prod_beta' split_beta')
  show ?thesis
    unfolding translate_entries [OF d plan_entries_present] boot_map_def fixed_map_translate [OF assms(2)]
    using eq by (auto split: option.splits)
qed

section \<open>What the tables map\<close>

lemma mappable_pages_fit:
  assumes "\<forall>v\<in>set vs. canonical_region v \<noteq> 0"
  shows "mappable n (boot_paths 4 True) (boot_leaves unmap_null 2048) vs \<longleftrightarrow> pages_fit n unmap_null vs"
  using assms by (auto simp: mappable_def pages_fit_def fixed_map_translate)

lemma page_tables_outcome:
  assumes "pool_zero base n m" "unat (ep_segment_count plan) \<le> length (ep_segments plan)"
    and can: "\<forall>(v, p)\<in>set (kernel_pages enable_nx plan). canonical_region v \<noteq> 0"
  shows "\<exists>r m' u. build_page_tables (pool_of base n 0) plan enable_nx unmap_null m = Some (r, pool_of base n u, m') \<and>
    frame m m' (span base (4096 * n)) \<and>
    r = (if pages_fit n unmap_null (map fst (kernel_pages enable_nx plan)) then Some base else None) \<and>
    (r \<noteq> None \<longrightarrow> (\<forall>va. mmu m' base va =
       (if canonical_region va = 0 then None else boot_map enable_nx unmap_null plan va)))"
proof -
  have "\<forall>v\<in>set (map fst (kernel_pages enable_nx plan)). canonical_region v \<noteq> 0" using can by auto
  note fit = mappable_pages_fit [OF this, of n unmap_null]
  obtain r m' u where b: "build_page_tables (pool_of base n 0) plan enable_nx unmap_null m = Some (r, pool_of base n u, m')"
    "frame m m' (span base (4096 * n))"
    "r \<noteq> None \<longleftrightarrow> pages_fit n unmap_null (map fst (kernel_pages enable_nx plan))"
    "r \<noteq> None \<longrightarrow> r = Some base \<and> (\<forall>va. mmu_walk m' [39, 30, 21, 12] base va True False =
       translate (map_entries (boot_leaves unmap_null 2048) (plan_entries enable_nx plan)) va)"
    using build_page_tables_tree [OF assms(1,2), of enable_nx unmap_null] unfolding plan_entries_pages(1) fit by metis
  have "mmu m' base va = (if canonical_region va = 0 then None else boot_map enable_nx unmap_null plan va)" if "r \<noteq> None" for va
  proof -
    have "distinct (map page_path (map fst (kernel_pages enable_nx plan)))" using b(3) that by (simp add: pages_fit_def)
    from translate_boot_map [OF this, of va unmap_null] show ?thesis using b(4) that by (simp add: mmu_def)
  qed
  moreover have "r = (if pages_fit n unmap_null (map fst (kernel_pages enable_nx plan)) then Some base else None)"
    using b(3,4) by auto
  ultimately show ?thesis using b(1,2) by blast
qed

lemma find_unique:
  assumes "distinct (map (page_path \<circ> fst) ps)" "x \<in> set ps" "page_path (fst x) = q"
  shows "find (\<lambda>(v, _). page_path v = q) ps = Some x"
  using assms
proof (induction ps)
  case (Cons y ps)
  show ?case
  proof (cases "x = y")
    case True
    then show ?thesis using Cons.prems(3) by (cases y) auto
  next
    case False
    then have "x \<in> set ps" using Cons.prems(2) by simp
    moreover from this have "page_path (fst y) \<noteq> q" using Cons.prems(1,3) by (auto simp: image_iff)
    ultimately show ?thesis using Cons by (cases y) auto
  qed
qed simp

lemma page_path_page:
  assumes "unat va = unat v + r" "4096 dvd unat v" "r < 4096"
  shows "page_path va = page_path v" "va AND 0xfff = of_nat r"
proof -
  have q: "unat va div 2 ^ 12 = unat v div 2 ^ 12" using assms by (auto elim!: dvdE)
  have "unat va div 2 ^ 12 div 2 ^ k = unat v div 2 ^ 12 div 2 ^ k" for k unfolding q ..
  then have "unat va div 2 ^ (12 + k) = unat v div 2 ^ (12 + k)" for k by (simp only: power_add div_mult2_eq)
  from this [of 0] this [of 9] this [of 18] this [of 27] show "page_path va = page_path v"
    by (simp add: page_path_unat)
  have "unat (va AND 0xfff) = unat va mod 2 ^ 12" by (rule unat_and_pred) simp
  also have "\<dots> = r" using assms by (auto elim!: dvdE)
  finally show "va AND 0xfff = of_nat r" by (metis of_nat_unat_u64)
qed

text \<open>The page that holds byte \<open>j\<close> of a planned segment.\<close>

lemma segment_byte:
  assumes ok: "segment_ok sz s" and j: "j < unat (sp_memory_size s)"
  obtains v p where "(v, p, sp_flags s AND BBP_ELF64_PF_W \<noteq> 0, enable_nx \<and> sp_flags s AND BBP_ELF64_PF_X = 0) \<in>
      set (segment_pages enable_nx s)"
    "page_path v = page_path (sp_virtual_address s + of_nat j)"
    "(p AND PTE_ADDRESS) OR (sp_virtual_address s + of_nat j AND 0xfff) = sp_physical_address s + of_nat j"
proof -
  let ?vaddr = "sp_virtual_address s" and ?paddr = "sp_physical_address s" and ?base = "sp_page_base s"
  define d where "d = unat ?paddr - unat ?base"
  define i where "i = (d + j) div 4096"
  define r where "r = (d + j) mod 4096"
  have b: "unat ?base \<le> unat ?paddr" "4096 dvd unat ?base" "unat ?base + 4096 * unat (sp_page_count s) \<le> 2 ^ 48"
    "unat ?paddr + unat (sp_memory_size s) \<le> unat ?base + 4096 * unat (sp_page_count s)"
    "unat ?vaddr + unat (sp_memory_size s) < 2 ^ 64" "unat ?vaddr mod 4096 = unat ?paddr mod 4096"
    using ok j by (auto simp: segment_ok_def seg_first_def seg_last_def)
  have dj: "d + j = 4096 * i + r" "r < 4096" unfolding i_def r_def by simp_all
  have "d + j < 4096 * unat (sp_page_count s)" using b(1,4) j by (simp add: d_def)
  then have i: "i < unat (sp_page_count s)" unfolding i_def by (simp add: less_mult_imp_div_less mult.commute)
  have dw: "?paddr - ?base = of_nat d" unfolding d_def using b(1) by (metis of_nat_unat_u64 unat_diff_u64 word_le_nat_alt)
  have djw: "(of_nat d :: u64) + of_nat j = of_nat i * 4096 + of_nat r"
    using arg_cong [OF dj(1), of "of_nat :: nat \<Rightarrow> u64"] by (simp add: mult.commute)
  let ?v = "?vaddr - (?paddr - ?base) + of_nat i * EFI_PAGE_SIZE" and ?p = "?base + of_nat i * EFI_PAGE_SIZE"
  let ?va = "?vaddr + of_nat j"
  have va: "unat ?va = unat ?vaddr + j"
    using b(5) j by (subst unat_add_u64) (simp_all add: unat_of_nat_u64)
  have rv: "r = unat ?va mod 4096"
  proof -
    have "(unat ?base + d) mod 4096 = unat ?vaddr mod 4096" using b(1,6) by (simp add: d_def)
    then have "d mod 4096 = unat ?vaddr mod 4096" using b(2) by (auto elim!: dvdE)
    then show ?thesis unfolding r_def va by (metis mod_add_left_eq)
  qed
  have v: "?v = ?va - of_nat r" unfolding dw using djw by (simp add: algebra_simps)
  have "(of_nat r :: u64) \<le> ?va" using rv dj(2) by (simp add: word_le_nat_alt unat_of_nat_u64)
  then have uv: "unat ?v = unat ?va - r" unfolding v using dj(2) by (subst unat_diff_u64) (simp_all add: unat_of_nat_u64)
  have "4096 dvd unat ?v" unfolding uv rv by (simp add: dvd_minus_mod)
  moreover have "unat ?va = unat ?v + r" unfolding uv rv by simp
  ultimately have path: "page_path ?va = page_path ?v" "?va AND 0xfff = of_nat r"
    using page_path_page [of ?va ?v r] dj(2) by simp_all
  have i4: "4096 * i < 4096 * unat (sp_page_count s)" using i by simp
  then have "unat (of_nat i * EFI_PAGE_SIZE :: u64) = 4096 * i"
    using b(3) unat_of_nat_u64 [of "4096 * i"] by (simp add: mult.commute)
  then have up: "unat ?p = unat ?base + 4096 * i" using b(3) i4 by (subst unat_add_u64) simp_all
  have pa: "?p AND PTE_ADDRESS = ?p" "?p AND 0xfff = 0"
    by (rule page_aligned_and; use b(2,3) i4 in \<open>simp add: up\<close>)+
  have "?p AND (?va AND 0xfff) = 0" unfolding and.left_commute [of ?p ?va] pa(2) by simp
  then have "?p OR (?va AND 0xfff) = ?p + (?va AND 0xfff)" using word_plus_and_or [of ?p "?va AND 0xfff"] by simp
  also have "\<dots> = ?paddr + of_nat j" unfolding path(2) using djw dw by (simp add: algebra_simps)
  finally have "(?p AND PTE_ADDRESS) OR (?va AND 0xfff) = ?paddr + of_nat j" unfolding pa(1) .
  moreover have "(?v, ?p, sp_flags s AND BBP_ELF64_PF_W \<noteq> 0, enable_nx \<and> sp_flags s AND BBP_ELF64_PF_X = 0) \<in>
      set (segment_pages enable_nx s)"
    using i by (auto simp: segment_pages_def)
  ultimately show ?thesis using that path(1) by metis
qed

lemma segment_canonical:
  assumes ok: "segment_ok sz s" and j: "j < unat (sp_memory_size s)"
  shows "canonical_region (sp_virtual_address s + of_nat j) \<noteq> 0"
proof -
  let ?v = "sp_virtual_address s" and ?n = "sp_memory_size s"
  have b: "unat ?v + unat ?n < 2 ^ 64" "canonical_range ?v (?v + ?n)" using ok by (auto simp: segment_ok_def)
  have va: "unat (?v + of_nat j) = unat ?v + j" using b(1) j by (subst unat_add_u64) (simp_all add: unat_of_nat_u64)
  have e: "unat (?v + ?n) = unat ?v + unat ?n" using b(1) by (rule unat_add_u64)
  have "(1 :: u64) \<le> ?v + ?n" using j e by (simp add: word_le_nat_alt)
  then have e1: "unat (?v + ?n - 1) = unat ?v + unat ?n - 1" using e by (simp add: unat_diff_u64)
  have "?v \<noteq> ?v + ?n" using j e by (auto simp: word_unat_eq_iff)
  then have r: "canonical_region ?v \<noteq> 0" "canonical_region (?v + ?n - 1) = canonical_region ?v"
    using b(2) by (auto simp: canonical_range_def Let_def split: if_splits)
  have le: "?v \<le> ?v + of_nat j" "?v + of_nat j \<le> ?v + ?n - 1" using va e1 j by (simp_all add: word_le_nat_alt)
  show ?thesis
  proof (cases "?v < ELF64_LOWER_CANONICAL_END")
    case True
    then have "?v + ?n - 1 < ELF64_LOWER_CANONICAL_END" using r(2) by (simp add: canonical_region_def split: if_splits)
    from order_le_less_trans [OF le(2) this] show ?thesis by (simp add: canonical_region_def)
  next
    case False
    then have "ELF64_UPPER_CANONICAL_START \<le> ?v" using r(1) by (simp add: canonical_region_def split: if_splits)
    from order_trans [OF this le(1)] show ?thesis by (simp add: canonical_region_def)
  qed
qed

lemma fixed_map_canonical: "fixed_map unmap_null va = Some x \<Longrightarrow> canonical_region va \<noteq> 0"
  by (auto simp: fixed_map_def canonical_region_def elf_consts word_less_nat_alt word_le_nat_alt split: if_splits)

lemma translate_path_cong: "page_path v = page_path va \<Longrightarrow> translate L v = None \<longleftrightarrow> translate L va = None"
  by (simp add: translate_def)

lemma loader_maps_outcome:
  assumes img: "unat sz \<le> length img" "bbp_elf64_plan_image (Some img) sz (Some dst) = Some (BBP_ELF64_OK, Some plan)"
    and z: "pool_zero base n m"
    and b: "build_page_tables (pool_of base n 0) plan enable_nx unmap_null m = Some (Some pml4, pool, m')"
  shows "(\<forall>s\<in>set (take (unat (ep_segment_count plan)) (ep_segments plan)). \<forall>j<unat (sp_memory_size s).
      mmu m' pml4 (sp_virtual_address s + of_nat j) = Some (sp_physical_address s + of_nat j,
        sp_flags s AND BBP_ELF64_PF_W \<noteq> 0, enable_nx \<and> sp_flags s AND BBP_ELF64_PF_X = 0)) \<and>
    (\<forall>va x. fixed_map unmap_null va = Some x \<longrightarrow> mmu m' pml4 va = Some x)"
proof -
  let ?ss = "take (unat (ep_segment_count plan)) (ep_segments plan)" and ?ps = "kernel_pages enable_nx plan"
  let ?L = "boot_leaves unmap_null 2048"
  have "unat (ep_segment_count plan) \<le> length (ep_segments plan)" and ok: "\<forall>s\<in>set ?ss. segment_ok sz s"
    using elf_plan_outcome [OF img] by (auto simp: min_def split: if_splits) (metis length_take min.cobounded1 nat_le_linear)
  from build_page_tables_tree [OF z this(1), of enable_nx unmap_null] b
  have fit: "mappable n (boot_paths 4 True) ?L (map fst ?ps)" and "pml4 = base"
    and w: "\<And>va. mmu_walk m' [39, 30, 21, 12] pml4 va True False = translate (map_entries ?L (plan_entries enable_nx plan)) va"
    by (auto simp: plan_entries_pages(1))
  have d: "distinct (map page_path (map fst ?ps))" using fit by (simp add: mappable_def)
  then have d': "distinct (map (page_path \<circ> fst) ?ps)" by simp
  have t: "mmu m' pml4 va = boot_map enable_nx unmap_null plan va" if "canonical_region va \<noteq> 0" for va
    using that w [of va] translate_boot_map [OF d that] by (simp add: mmu_def)
  have "mmu m' pml4 (sp_virtual_address s + of_nat j) = Some (sp_physical_address s + of_nat j,
      sp_flags s AND BBP_ELF64_PF_W \<noteq> 0, enable_nx \<and> sp_flags s AND BBP_ELF64_PF_X = 0)"
    if s: "s \<in> set ?ss" "j < unat (sp_memory_size s)" for s j
  proof -
    have so: "segment_ok sz s" using ok s(1) by blast
    obtain v p where x: "(v, p, sp_flags s AND BBP_ELF64_PF_W \<noteq> 0, enable_nx \<and> sp_flags s AND BBP_ELF64_PF_X = 0) \<in>
        set (segment_pages enable_nx s)" "page_path v = page_path (sp_virtual_address s + of_nat j)"
      "(p AND PTE_ADDRESS) OR (sp_virtual_address s + of_nat j AND 0xfff) = sp_physical_address s + of_nat j"
      using segment_byte [OF so s(2)] by metis
    then have "(v, p, sp_flags s AND BBP_ELF64_PF_W \<noteq> 0, enable_nx \<and> sp_flags s AND BBP_ELF64_PF_X = 0) \<in> set ?ps"
      using s(1) unfolding kernel_pages_def by auto
    from find_unique [OF d' this, unfolded fst_conv, OF x(2)] show ?thesis
      unfolding t [OF segment_canonical [OF so s(2)]] boot_map_def using x(3) by simp
  qed
  moreover have "mmu m' pml4 va = Some x" if f: "fixed_map unmap_null va = Some x" for va x
  proof -
    note c = fixed_map_canonical [OF f]
    have "\<forall>(v, p)\<in>set ?ps. page_path v \<noteq> page_path va"
    proof (clarify)
      fix v p
      assume "(v, p) \<in> set ?ps" "page_path v = page_path va"
      moreover from this have "translate ?L v = None" using fit unfolding mappable_def by force
      ultimately have "translate ?L va = None" using translate_path_cong by blast
      then show False using f fixed_map_translate [OF c] by simp
    qed
    then have "find (\<lambda>(v, _). page_path v = page_path va) ?ps = None" by (auto simp: find_None_iff)
    then show ?thesis unfolding t [OF c] boot_map_def using f by simp
  qed
  ultimately show ?thesis by blast
qed

section \<open>Properties\<close>

text \<open>C16. The loader's page tables are exact: over a zeroed pool of tables, building them never faults
  and writes only to the pool; it succeeds exactly when the pages of the segments are distinct, none
  of them lies in the identity map or the high-half map, and the pool has a table for every prefix of a
  page's path; and then the processor translates every address as \<open>boot_map\<close> says and faults on
  all others, non-canonical addresses included.\<close>

theorem page_tables_exact:
  assumes "pool_zero base n m" "unat (ep_segment_count plan) \<le> length (ep_segments plan)"
    and "\<forall>(v, p)\<in>set (kernel_pages enable_nx plan). canonical_region v \<noteq> 0"
  shows "\<exists>r m' u. build_page_tables (pool_of base n 0) plan enable_nx unmap_null m = Some (r, pool_of base n u, m') \<and>
    frame m m' (span base (4096 * n)) \<and>
    r = (if pages_fit n unmap_null (map fst (kernel_pages enable_nx plan)) then Some base else None) \<and>
    (r \<noteq> None \<longrightarrow> (\<forall>va. mmu m' base va =
       (if canonical_region va = 0 then None else boot_map enable_nx unmap_null plan va)))"
  using assms by (rule page_tables_outcome)

text \<open>C17. The planner and the page tables together load the kernel where it expects to run: if the
  planner accepts an image and the tables for its plan are built, then every byte of every segment is
  visible at its virtual address and backed by its load address, writable exactly if the segment is,
  and no mapping of the identity map or the high-half map is lost.\<close>

theorem loader_maps_kernel:
  assumes "unat sz \<le> length img" "bbp_elf64_plan_image (Some img) sz (Some dst) = Some (BBP_ELF64_OK, Some plan)"
    and "pool_zero base n m"
    and "build_page_tables (pool_of base n 0) plan enable_nx unmap_null m = Some (Some pml4, pool, m')"
  shows "(\<forall>s\<in>set (take (unat (ep_segment_count plan)) (ep_segments plan)). \<forall>j<unat (sp_memory_size s).
      mmu m' pml4 (sp_virtual_address s + of_nat j) = Some (sp_physical_address s + of_nat j,
        sp_flags s AND BBP_ELF64_PF_W \<noteq> 0, enable_nx \<and> sp_flags s AND BBP_ELF64_PF_X = 0)) \<and>
    (\<forall>va x. fixed_map unmap_null va = Some x \<longrightarrow> mmu m' pml4 va = Some x)"
  using assms by (rule loader_maps_outcome)

section \<open>Witnesses\<close>

text \<open>An executable with one read-execute segment of one page, linked at the top of the address space
  and loaded at two megabytes.\<close>

definition demo_high_elf :: "u8 list" where
  "demo_high_elf = [0x7f, 0x45, 0x4c, 0x46, 2, 1, 1, 0] @ replicate 8 0 @ [2, 0, 62, 0, 1, 0, 0, 0] @
     put_le 8 (0xffffffff80000010 :: u64) @ put_le 8 (64 :: u64) @ replicate 12 0 @ [64, 0, 56, 0, 1, 0] @ replicate 6 0 @
     [1, 0, 0, 0, 5, 0, 0, 0] @ put_le 8 (0 :: u64) @ put_le 8 (0xffffffff80000000 :: u64) @ put_le 8 (0x200000 :: u64) @
     put_le 8 (0x60 :: u64) @ put_le 8 (0x100 :: u64) @ put_le 8 (0x1000 :: u64)"

definition demo_high_plan :: bbp_elf64_plan where
  "demo_high_plan = \<lparr>ep_entry = 0xffffffff80000010, ep_physical_base = 0x200000, ep_physical_end = 0x201000,
     ep_segment_count = 1, ep_segments = [\<lparr>sp_file_offset = 0, sp_file_size = 0x60, sp_memory_size = 0x100,
       sp_virtual_address = 0xffffffff80000000, sp_physical_address = 0x200000, sp_page_base = 0x200000,
       sp_page_count = 1, sp_alignment = 0x1000, sp_flags = 5\<rparr>]\<rparr>"

definition no_plan :: bbp_elf64_plan where
  "no_plan = \<lparr>ep_entry = 0, ep_physical_base = 0, ep_physical_end = 0, ep_segment_count = 0, ep_segments = []\<rparr>"

lemma demo_high_planned:
  "bbp_elf64_plan_image (Some demo_high_elf) 120 (Some no_plan) = Some (BBP_ELF64_OK, Some demo_high_plan)"
  by code_simp

abbreviation zero_mem :: mem where "zero_mem \<equiv> \<lambda>_. Some 0"

lemma zero_pool: "pool_zero 0x100000 32 zero_mem"
proof -
  have "load zero_mem a 8 = Some (replicate 8 0)" for a by (simp add: load_eq_Some_iff)
  moreover have "get_le (replicate 8 0) = (0 :: u64)" by code_simp
  ultimately show ?thesis by (simp add: pool_zero_def pool_range_def ld64_def)
qed

lemma demo_high_pages: "kernel_pages False demo_high_plan = [(0xffffffff80000000, 0x200000, False, False)]"
  by (simp add: kernel_pages_def segment_pages_def demo_high_plan_def elf_consts)

lemma demo_high_fits: "pages_fit 32 True (map fst (kernel_pages False demo_high_plan))"
proof -
  have "card (boot_paths 4 True \<union> links 0xffffffff80000000) \<le> card (boot_paths 4 True) + card (links 0xffffffff80000000)"
    by (rule card_Un_le)
  also have "card (links 0xffffffff80000000) \<le> 3" unfolding links_def by (rule card_insert_le_m1; simp add: card_insert_if)
  finally show ?thesis unfolding demo_high_pages pages_fit_def using boot_paths_card by (simp add: fixed_map_def)
qed

theorem page_tables_exact_witness:
  "\<exists>m' u. build_page_tables (pool_of 0x100000 32 0) demo_high_plan False True zero_mem =
      Some (Some 0x100000, pool_of 0x100000 32 u, m') \<and>
    mmu m' 0x100000 0xffffffff80000010 = Some (0x200010, False, False) \<and> mmu m' 0x100000 0 = None \<and>
    mmu m' 0x100000 0xffff800000001234 = Some (0x1234, True, False)"
proof -
  have "unat (ep_segment_count demo_high_plan) \<le> length (ep_segments demo_high_plan)"
    "\<forall>(v, p)\<in>set (kernel_pages False demo_high_plan). canonical_region v \<noteq> 0"
    by (simp add: demo_high_plan_def) (simp add: demo_high_pages canonical_region_def elf_consts)
  from page_tables_exact [OF zero_pool this, of True] obtain m' u where
    b: "build_page_tables (pool_of 0x100000 32 0) demo_high_plan False True zero_mem = Some (Some 0x100000, pool_of 0x100000 32 u, m')"
    and t: "\<And>va. mmu m' 0x100000 va = (if canonical_region va = 0 then None else boot_map False True demo_high_plan va)"
    using demo_high_fits by auto
  have "boot_map False True demo_high_plan 0xffffffff80000010 = Some (0x200010, False, False)"
    "boot_map False True demo_high_plan 0 = None"
    "boot_map False True demo_high_plan 0xffff800000001234 = Some (0x1234, True, False)"
    unfolding boot_map_def demo_high_pages by (simp_all add: page_path_unat fixed_map_def)
  then show ?thesis using b t by (auto simp: canonical_region_def elf_consts)
qed

theorem loader_maps_kernel_witness:
  "\<exists>m' pool. build_page_tables (pool_of 0x100000 32 0) demo_high_plan False True zero_mem = Some (Some 0x100000, pool, m') \<and>
    mmu m' 0x100000 (0xffffffff80000000 + of_nat 0x20) = Some (0x200000 + of_nat 0x20, False, False) \<and>
    mmu m' 0x100000 0x5000 = Some (0x5000, True, False)"
proof -
  have c: "unat (ep_segment_count demo_high_plan) \<le> length (ep_segments demo_high_plan)"
    "\<forall>(v, p)\<in>set (kernel_pages False demo_high_plan). canonical_region v \<noteq> 0"
    by (simp add: demo_high_plan_def) (simp add: demo_high_pages canonical_region_def elf_consts)
  obtain pool m' where
    b: "build_page_tables (pool_of 0x100000 32 0) demo_high_plan False True zero_mem = Some (Some 0x100000, pool, m')"
    using page_tables_outcome [OF zero_pool c, of True] demo_high_fits by auto
  have len: "unat (120 :: u64) \<le> length demo_high_elf" by (simp add: demo_high_elf_def)
  note T = loader_maps_kernel [OF len demo_high_planned zero_pool b]
  have "fixed_map True 0x5000 = Some (0x5000, True, False)" by (simp add: fixed_map_def)
  then have "mmu m' 0x100000 0x5000 = Some (0x5000, True, False)" using T by blast
  moreover have "\<forall>j<256. mmu m' 0x100000 (0xffffffff80000000 + of_nat j) = Some (0x200000 + of_nat j, False, False)"
    using conjunct1 [OF T] by (simp add: demo_high_plan_def elf_consts)
  then have "mmu m' 0x100000 (0xffffffff80000000 + of_nat 0x20) = Some (0x200000 + of_nat 0x20, False, False)"
    by (rule allE [of _ "0x20"]) simp
  ultimately show ?thesis using b by blast
qed

end
