(* ===== verification/Uefi_Exit.thy ===== *)
theory Uefi_Exit
  imports Bbp_Prelude
begin

text \<open>
  The ExitBootServices state machine of \<open>bootloader/uefi/uefi_exit.c\<close>.

  The four firmware services are arguments of the definitions: each takes the firmware's state of type
  \<open>'w\<close> (the \<open>context\<close> of the C callbacks) and returns its result with the next state. The in-out
  arguments of the memory map service are passed by value and returned updated. Allocations are opaque
  addresses, 0 for NULL. The bounded retry loop is a recursion on the attempts that remain. The
  properties read a log of the firmware calls, which a logging wrapper around the services records, or
  assume of the services what the UEFI specification says of them.
\<close>

section \<open>Model\<close>

definition BBP_UEFI_EXIT_DESCRIPTOR_SLACK :: u64 where "BBP_UEFI_EXIT_DESCRIPTOR_SLACK = 8"
definition BBP_UEFI_EXIT_MAX_ATTEMPTS :: nat where "BBP_UEFI_EXIT_MAX_ATTEMPTS = 8"

datatype bbp_uefi_firmware_status =
    BBP_UEFI_FIRMWARE_SUCCESS
  | BBP_UEFI_FIRMWARE_BUFFER_TOO_SMALL
  | BBP_UEFI_FIRMWARE_INVALID_PARAMETER
  | BBP_UEFI_FIRMWARE_ERROR

text \<open>Size, key, descriptor size and descriptor version, the in-out values of the map service.\<close>

type_synonym map_args = "u64 \<times> u64 \<times> u64 \<times> u32"

type_synonym 'w bbp_uefi_get_memory_map_fn =
  "'w \<Rightarrow> u64 \<Rightarrow> map_args \<Rightarrow> (bbp_uefi_firmware_status \<times> map_args) \<times> 'w"
type_synonym 'w bbp_uefi_exit_boot_services_fn = "'w \<Rightarrow> u64 \<Rightarrow> u64 \<Rightarrow> bbp_uefi_firmware_status \<times> 'w"
type_synonym 'w bbp_uefi_allocate_fn = "'w \<Rightarrow> u64 \<Rightarrow> u64 \<times> 'w"
type_synonym 'w bbp_uefi_free_fn = "'w \<Rightarrow> u64 \<Rightarrow> 'w"

record 'w bbp_uefi_exit_ops =
  xo_get_memory_map :: "'w bbp_uefi_get_memory_map_fn option"
  xo_exit_boot_services :: "'w bbp_uefi_exit_boot_services_fn option"
  xo_allocate :: "'w bbp_uefi_allocate_fn option"
  xo_free :: "'w bbp_uefi_free_fn option"

datatype bbp_uefi_exit_status =
    BBP_UEFI_EXIT_OK
  | BBP_UEFI_EXIT_ERR_ARGUMENT
  | BBP_UEFI_EXIT_ERR_PROBE
  | BBP_UEFI_EXIT_ERR_OVERFLOW
  | BBP_UEFI_EXIT_ERR_ALLOCATION
  | BBP_UEFI_EXIT_ERR_MEMORY_MAP
  | BBP_UEFI_EXIT_ERR_EXIT_BOOT_SERVICES
  | BBP_UEFI_EXIT_ERR_RETRY_LIMIT

record bbp_uefi_exit_result =
  xr_memory_map :: u64
  xr_memory_map_size :: u64
  xr_memory_map_capacity :: u64
  xr_map_key :: u64
  xr_descriptor_size :: u64
  xr_descriptor_version :: u32
  xr_memory_map_final :: u8

definition map_capacity :: "u64 \<Rightarrow> u64 \<Rightarrow> u64 option" where
  "map_capacity required descriptor_size =
     (let size_max = - 1 :: u64 in
      if descriptor_size = 0 \<or> descriptor_size > size_max div BBP_UEFI_EXIT_DESCRIPTOR_SLACK then None
      else let slack = descriptor_size * BBP_UEFI_EXIT_DESCRIPTOR_SLACK in
        if required > size_max - slack then None else Some (required + slack))"

text \<open>The retry loop: the attempts left, the allocation and its capacity, and the values left by the
  previous call of the map service. \<^term>\<open>Inl\<close> is an error return, \<^term>\<open>Inr\<close> the completed result.\<close>

primrec exit_attempts ::
  "'w bbp_uefi_get_memory_map_fn \<Rightarrow> 'w bbp_uefi_exit_boot_services_fn \<Rightarrow> 'w bbp_uefi_allocate_fn \<Rightarrow>
   'w bbp_uefi_free_fn \<Rightarrow> u64 \<Rightarrow> nat \<Rightarrow> u64 \<Rightarrow> u64 \<Rightarrow> u64 \<times> u64 \<times> u32 \<Rightarrow> 'w \<Rightarrow>
   (bbp_uefi_exit_status + bbp_uefi_exit_result) \<times> 'w" where
  "exit_attempts gm ebs al fr image_handle 0 memory_map capacity vals w =
     (Inl BBP_UEFI_EXIT_ERR_RETRY_LIMIT, fr w memory_map)"
| "exit_attempts gm ebs al fr image_handle (Suc attempts) memory_map capacity vals w =
     (let ((firmware_status, (map_size, map_key, descriptor_size, descriptor_version)), w) =
            gm w memory_map (capacity, vals) in
      if firmware_status = BBP_UEFI_FIRMWARE_BUFFER_TOO_SMALL then
        (case map_capacity map_size descriptor_size of
           None \<Rightarrow> (Inl BBP_UEFI_EXIT_ERR_OVERFLOW, fr w memory_map)
         | Some larger_capacity \<Rightarrow>
             let w = fr w memory_map;
                 (memory_map, w) = al w larger_capacity in
             if memory_map = 0 then (Inl BBP_UEFI_EXIT_ERR_ALLOCATION, w)
             else exit_attempts gm ebs al fr image_handle attempts memory_map larger_capacity
                    (map_key, descriptor_size, descriptor_version) w)
      else if firmware_status \<noteq> BBP_UEFI_FIRMWARE_SUCCESS \<or> descriptor_size = 0 \<or> map_size > capacity then
        (Inl BBP_UEFI_EXIT_ERR_MEMORY_MAP, fr w memory_map)
      else
        let (firmware_status, w) = ebs w image_handle map_key in
        if firmware_status = BBP_UEFI_FIRMWARE_SUCCESS then
          (Inr \<lparr>xr_memory_map = memory_map, xr_memory_map_size = map_size, xr_memory_map_capacity = capacity,
                xr_map_key = map_key, xr_descriptor_size = descriptor_size,
                xr_descriptor_version = descriptor_version, xr_memory_map_final = 1\<rparr>, w)
        else if firmware_status \<noteq> BBP_UEFI_FIRMWARE_INVALID_PARAMETER then
          (Inl BBP_UEFI_EXIT_ERR_EXIT_BOOT_SERVICES, fr w memory_map)
        else exit_attempts gm ebs al fr image_handle attempts memory_map capacity
               (map_key, descriptor_size, descriptor_version) w)"

text \<open>The part of the function after the argument checks.\<close>

definition exit_body ::
  "'w bbp_uefi_get_memory_map_fn \<Rightarrow> 'w bbp_uefi_exit_boot_services_fn \<Rightarrow> 'w bbp_uefi_allocate_fn \<Rightarrow>
   'w bbp_uefi_free_fn \<Rightarrow> u64 \<Rightarrow> 'w \<Rightarrow> (bbp_uefi_exit_status + bbp_uefi_exit_result) \<times> 'w" where
  "exit_body gm ebs al fr image_handle w =
     (let ((firmware_status, (map_size, map_key, descriptor_size, descriptor_version)), w) =
            gm w 0 (0, 0, 0, 0) in
      if firmware_status \<noteq> BBP_UEFI_FIRMWARE_BUFFER_TOO_SMALL then (Inl BBP_UEFI_EXIT_ERR_PROBE, w)
      else case map_capacity map_size descriptor_size of
        None \<Rightarrow> (Inl BBP_UEFI_EXIT_ERR_OVERFLOW, w)
      | Some capacity \<Rightarrow>
          let (memory_map, w) = al w capacity in
          if memory_map = 0 then (Inl BBP_UEFI_EXIT_ERR_ALLOCATION, w)
          else exit_attempts gm ebs al fr image_handle BBP_UEFI_EXIT_MAX_ATTEMPTS memory_map capacity
                 (map_key, descriptor_size, descriptor_version) w)"

text \<open>NULL operations or a NULL result are \<^term>\<open>None\<close>; the caller's result is returned with the status.\<close>

definition bbp_uefi_exit_boot_services ::
  "'w bbp_uefi_exit_ops option \<Rightarrow> u64 \<Rightarrow> bbp_uefi_exit_result option \<Rightarrow> 'w \<Rightarrow>
   bbp_uefi_exit_status \<times> bbp_uefi_exit_result option \<times> 'w" where
  "bbp_uefi_exit_boot_services ops image_handle result w =
     (case (ops, result) of
        (Some f, Some _) \<Rightarrow>
          (case (xo_get_memory_map f, xo_exit_boot_services f, xo_allocate f, xo_free f) of
             (Some gm, Some ebs, Some al, Some fr) \<Rightarrow>
               (case exit_body gm ebs al fr image_handle w of
                  (Inl e, w) \<Rightarrow> (e, result, w)
                | (Inr completed, w) \<Rightarrow> (BBP_UEFI_EXIT_OK, Some completed, w))
           | _ \<Rightarrow> (BBP_UEFI_EXIT_ERR_ARGUMENT, result, w))
      | _ \<Rightarrow> (BBP_UEFI_EXIT_ERR_ARGUMENT, result, w))"

section \<open>The log of firmware calls\<close>

datatype exit_event =
    Get u64 u64 bbp_uefi_firmware_status map_args
  | Exit u64 u64 bbp_uefi_firmware_status
  | Alloc u64 u64
  | Free u64

definition log_get :: "'w bbp_uefi_get_memory_map_fn \<Rightarrow> ('w \<times> exit_event list) bbp_uefi_get_memory_map_fn" where
  "log_get gm w p args =
     (let ((s, args'), w') = gm (fst w) p args in ((s, args'), w', snd w @ [Get p (fst args) s args']))"

definition log_exit ::
  "'w bbp_uefi_exit_boot_services_fn \<Rightarrow> ('w \<times> exit_event list) bbp_uefi_exit_boot_services_fn" where
  "log_exit ebs w h k = (let (s, w') = ebs (fst w) h k in (s, w', snd w @ [Exit h k s]))"

definition log_alloc :: "'w bbp_uefi_allocate_fn \<Rightarrow> ('w \<times> exit_event list) bbp_uefi_allocate_fn" where
  "log_alloc al w n = (let (p, w') = al (fst w) n in (p, w', snd w @ [Alloc n p]))"

definition log_free :: "'w bbp_uefi_free_fn \<Rightarrow> ('w \<times> exit_event list) bbp_uefi_free_fn" where
  "log_free fr w p = (fr (fst w) p, snd w @ [Free p])"

text \<open>The allocations handed out, the allocations returned, and the calls of each service.\<close>

fun allocs :: "exit_event list \<Rightarrow> u64 list" where
  "allocs [] = []"
| "allocs (Alloc n p # tr) = (if p = 0 then allocs tr else p # allocs tr)"
| "allocs (_ # tr) = allocs tr"

fun frees :: "exit_event list \<Rightarrow> u64 list" where
  "frees [] = []"
| "frees (Free p # tr) = p # frees tr"
| "frees (_ # tr) = frees tr"

definition is_get :: "exit_event \<Rightarrow> bool" where
  "is_get e \<longleftrightarrow> (case e of Get _ _ _ _ \<Rightarrow> True | _ \<Rightarrow> False)"

definition is_exit :: "exit_event \<Rightarrow> bool" where
  "is_exit e \<longleftrightarrow> (case e of Exit _ _ _ \<Rightarrow> True | _ \<Rightarrow> False)"

definition exited :: "exit_event \<Rightarrow> bool" where
  "exited e \<longleftrightarrow> (case e of Exit _ _ s \<Rightarrow> s = BBP_UEFI_FIRMWARE_SUCCESS | _ \<Rightarrow> False)"

lemmas event_simps = is_get_def is_exit_def exited_def

lemma allocs_append [simp]: "allocs (xs @ ys) = allocs xs @ allocs ys"
  by (induction xs rule: allocs.induct) auto

lemma frees_append [simp]: "frees (xs @ ys) = frees xs @ frees ys"
  by (induction xs rule: frees.induct) auto

text \<open>The obligations of a finished run: nothing leaked, at most so many calls, and the map that is
  reported is the one whose key the firmware accepted, with no call after it.\<close>

definition exit_run_ok :: "u64 \<Rightarrow> bbp_uefi_exit_status + bbp_uefi_exit_result \<Rightarrow> exit_event list \<Rightarrow> bool" where
  "exit_run_ok h r tr \<longleftrightarrow>
     (case r of
        Inl e \<Rightarrow> e \<noteq> BBP_UEFI_EXIT_OK \<and> allocs tr = frees tr \<and> list_all (\<lambda>e. \<not> exited e) tr
      | Inr res \<Rightarrow> allocs tr = frees tr @ [xr_memory_map res] \<and> xr_memory_map res \<noteq> 0 \<and>
          xr_memory_map_final res = 1 \<and> xr_descriptor_size res \<noteq> 0 \<and>
          xr_memory_map_size res \<le> xr_memory_map_capacity res \<and>
          Alloc (xr_memory_map_capacity res) (xr_memory_map res) \<in> set tr \<and>
          (\<exists>pre. tr = pre @ [Get (xr_memory_map res) (xr_memory_map_capacity res) BBP_UEFI_FIRMWARE_SUCCESS
                              (xr_memory_map_size res, xr_map_key res, xr_descriptor_size res, xr_descriptor_version res),
                            Exit h (xr_map_key res) BBP_UEFI_FIRMWARE_SUCCESS] \<and>
             list_all (\<lambda>e. \<not> exited e) pre))"

section \<open>Ownership of the map buffer\<close>

text \<open>What is true of the log while a buffer is held: it is the only allocation outstanding and no exit
  succeeded yet.\<close>

definition holds :: "u64 \<Rightarrow> u64 \<Rightarrow> exit_event list \<Rightarrow> bool" where
  "holds mm cap tr \<longleftrightarrow> mm \<noteq> 0 \<and> allocs tr = frees tr @ [mm] \<and> Alloc cap mm \<in> set tr \<and>
     list_all (\<lambda>e. \<not> exited e) tr"

definition log_bounded :: "nat \<Rightarrow> exit_event list \<Rightarrow> bool" where
  "log_bounded n tr \<longleftrightarrow> length (filter is_get tr) \<le> n \<and> length (filter is_exit tr) \<le> n"

lemma log_eqs:
  "log_get gm (w, tr) p args =
     (case gm w p args of ((s, args'), w') \<Rightarrow> ((s, args'), w', tr @ [Get p (fst args) s args']))"
  "log_exit ebs (w, tr) h k = (case ebs w h k of (s, w') \<Rightarrow> (s, w', tr @ [Exit h k s]))"
  "log_alloc al (w, tr) n = (case al w n of (p, w') \<Rightarrow> (p, w', tr @ [Alloc n p]))"
  "log_free fr (w, tr) p = (fr w p, tr @ [Free p])"
  by (simp_all add: log_get_def log_exit_def log_alloc_def log_free_def split: prod.split)

lemmas log_simps = log_eqs event_simps log_bounded_def

lemma release_ok:
  assumes "holds mm cap tr" "e \<noteq> BBP_UEFI_EXIT_OK"
  shows "exit_run_ok h (Inl e) (tr @ [Free mm])"
  using assms by (simp add: holds_def exit_run_ok_def event_simps)

lemma logged_runI:
  "a = (r, w') \<Longrightarrow> b = (r, w', tr @ tr') \<Longrightarrow> exit_run_ok h r (tr @ tr') \<Longrightarrow> log_bounded n tr' \<Longrightarrow>
   \<exists>r w' tr'. a = (r, w') \<and> b = (r, w', tr @ tr') \<and> exit_run_ok h r (tr @ tr') \<and> log_bounded n tr'"
  by blast

lemma exit_attempts_logged:
  assumes "holds mm cap tr"
  shows "\<exists>r w' tr'. exit_attempts gm ebs al fr h n mm cap vals w = (r, w') \<and>
    exit_attempts (log_get gm) (log_exit ebs) (log_alloc al) (log_free fr) h n mm cap vals (w, tr) = (r, w', tr @ tr') \<and>
    exit_run_ok h r (tr @ tr') \<and> log_bounded n tr'"
  using assms
proof (induction n arbitrary: mm cap vals w tr)
  case 0
  then show ?case using release_ok [OF 0] by (simp add: log_simps)
next
  case (Suc n)
  obtain s sz key ds ver w1 where g: "gm w mm (cap, vals) = ((s, (sz, key, ds, ver)), w1)"
    by (metis prod.exhaust)
  let ?g = "Get mm cap s (sz, key, ds, ver)" and ?vals = "(key, ds, ver)"
  have tr: "holds mm cap (tr @ [?g])" using Suc.prems by (simp add: holds_def event_simps)
  note rel = release_ok [OF tr]
  consider (small) "s = BBP_UEFI_FIRMWARE_BUFFER_TOO_SMALL"
    | (bad) "s \<noteq> BBP_UEFI_FIRMWARE_BUFFER_TOO_SMALL" "s \<noteq> BBP_UEFI_FIRMWARE_SUCCESS \<or> ds = 0 \<or> sz > cap"
    | (good) "s = BBP_UEFI_FIRMWARE_SUCCESS" "ds \<noteq> 0" "sz \<le> cap" by force
  then show ?case
  proof cases
    case bad
    then show ?thesis
      using rel [of BBP_UEFI_EXIT_ERR_MEMORY_MAP h] by - (rule logged_runI [where r = "Inl BBP_UEFI_EXIT_ERR_MEMORY_MAP" and w' = "fr w1 mm" and tr' = "[?g, Free mm]"],
          auto simp: g log_simps)
  next
    case small
    show ?thesis
    proof (cases "map_capacity sz ds")
      case None
      then show ?thesis using small rel [of BBP_UEFI_EXIT_ERR_OVERFLOW h]
        by - (rule logged_runI [where r = "Inl BBP_UEFI_EXIT_ERR_OVERFLOW" and w' = "fr w1 mm" and tr' = "[?g, Free mm]"],
          auto simp: g log_simps)
    next
      case (Some cap')
      obtain mm' w2 where al: "al (fr w1 mm) cap' = (mm', w2)" by fastforce
      let ?ev = "[?g, Free mm, Alloc cap' mm']"
      show ?thesis
      proof (cases "mm' = 0")
        case True
        then show ?thesis using small Some al tr
          by - (rule logged_runI [where r = "Inl BBP_UEFI_EXIT_ERR_ALLOCATION" and w' = "w2" and tr' = "?ev"],
          auto simp: g log_simps exit_run_ok_def holds_def)
      next
        case False
        then have "holds mm' cap' (tr @ ?ev)" using tr by (simp add: holds_def event_simps)
        from Suc.IH [OF this, of ?vals w2] obtain r w' tr' where ih:
          "exit_attempts gm ebs al fr h n mm' cap' ?vals w2 = (r, w')"
          "exit_attempts (log_get gm) (log_exit ebs) (log_alloc al) (log_free fr) h n mm' cap' ?vals (w2, tr @ ?ev) =
             (r, w', (tr @ ?ev) @ tr')"
          "exit_run_ok h r ((tr @ ?ev) @ tr')" "log_bounded n tr'" by blast
        with small Some al False show ?thesis
          by - (rule logged_runI [where r = "r" and w' = "w'" and tr' = "?ev @ tr'"],
          auto simp: g log_simps)
      qed
    qed
  next
    case good
    obtain s2 w2 where x: "ebs w1 h key = (s2, w2)" by fastforce
    let ?ev = "[?g, Exit h key s2]"
    let ?res = "\<lparr>xr_memory_map = mm, xr_memory_map_size = sz, xr_memory_map_capacity = cap, xr_map_key = key,
      xr_descriptor_size = ds, xr_descriptor_version = ver, xr_memory_map_final = 1\<rparr>"
    have held: "holds mm cap (tr @ ?ev)" if "s2 \<noteq> BBP_UEFI_FIRMWARE_SUCCESS"
      using tr that by (simp add: holds_def event_simps)
    consider (ok) "s2 = BBP_UEFI_FIRMWARE_SUCCESS" | (stale) "s2 = BBP_UEFI_FIRMWARE_INVALID_PARAMETER"
      | (failed) "s2 \<noteq> BBP_UEFI_FIRMWARE_SUCCESS" "s2 \<noteq> BBP_UEFI_FIRMWARE_INVALID_PARAMETER" by blast
    then show ?thesis
    proof cases
      case ok
      with good x tr show ?thesis
        by - (rule logged_runI [where r = "Inr ?res" and w' = "w2" and tr' = "?ev"],
          auto simp: g log_simps exit_run_ok_def holds_def)
    next
      case failed
      then show ?thesis using good x release_ok [OF held, of BBP_UEFI_EXIT_ERR_EXIT_BOOT_SERVICES h]
        by - (rule logged_runI [where r = "Inl BBP_UEFI_EXIT_ERR_EXIT_BOOT_SERVICES" and w' = "fr w2 mm" and tr' = "?ev @ [Free mm]"],
          auto simp: g log_simps)
    next
      case stale
      then have "holds mm cap (tr @ ?ev)" using held by simp
      from Suc.IH [OF this, of ?vals w2] obtain r w' tr' where ih:
        "exit_attempts gm ebs al fr h n mm cap ?vals w2 = (r, w')"
        "exit_attempts (log_get gm) (log_exit ebs) (log_alloc al) (log_free fr) h n mm cap ?vals (w2, tr @ ?ev) =
           (r, w', (tr @ ?ev) @ tr')"
        "exit_run_ok h r ((tr @ ?ev) @ tr')" "log_bounded n tr'" by blast
      with good x stale show ?thesis
        by - (rule logged_runI [where r = "r" and w' = "w'" and tr' = "?ev @ tr'"],
          auto simp: g log_simps)
    qed
  qed
qed

lemma exit_body_logged:
  "\<exists>r w' tr. exit_body gm ebs al fr h w = (r, w') \<and>
    exit_body (log_get gm) (log_exit ebs) (log_alloc al) (log_free fr) h (w, []) = (r, w', tr) \<and>
    exit_run_ok h r tr \<and> log_bounded 9 tr \<and> length (filter is_exit tr) \<le> 8"
proof -
  obtain s sz key ds ver w1 where g: "gm w 0 (0, 0, 0, 0) = ((s, (sz, key, ds, ver)), w1)"
    by (metis prod.exhaust)
  let ?g = "Get 0 0 s (sz, key, ds, ver)"
  show ?thesis
  proof (cases "s \<noteq> BBP_UEFI_FIRMWARE_BUFFER_TOO_SMALL \<or> map_capacity sz ds = None")
    case True
    then show ?thesis by (auto simp: exit_body_def g log_simps exit_run_ok_def)
  next
    case False
    then obtain cap where cap: "map_capacity sz ds = Some cap" by blast
    obtain mm w2 where al: "al w1 cap = (mm, w2)" by fastforce
    let ?tr = "[?g, Alloc cap mm]"
    show ?thesis
    proof (cases "mm = 0")
      case True
      with False cap al show ?thesis by (simp add: exit_body_def g log_simps exit_run_ok_def)
    next
      case mm: False
      then have "holds mm cap ?tr" by (simp add: holds_def event_simps)
      from exit_attempts_logged [OF this, of gm ebs al fr h 8 "(key, ds, ver)" w2]
      obtain r w' tr' where run:
        "exit_attempts gm ebs al fr h 8 mm cap (key, ds, ver) w2 = (r, w')"
        "exit_attempts (log_get gm) (log_exit ebs) (log_alloc al) (log_free fr) h 8 mm cap (key, ds, ver) (w2, ?tr) =
           (r, w', ?tr @ tr')"
        "exit_run_ok h r (?tr @ tr')" "log_bounded 8 tr'" by blast
      with False cap al mm show ?thesis
        by (intro exI [of _ r] exI [of _ w'] exI [of _ "?tr @ tr'"])
          (simp add: exit_body_def g log_simps BBP_UEFI_EXIT_MAX_ATTEMPTS_def)
    qed
  qed
qed

section \<open>Properties\<close>

definition log_ops :: "'w bbp_uefi_exit_ops \<Rightarrow> ('w \<times> exit_event list) bbp_uefi_exit_ops" where
  "log_ops f = \<lparr>xo_get_memory_map = map_option log_get (xo_get_memory_map f),
     xo_exit_boot_services = map_option log_exit (xo_exit_boot_services f),
     xo_allocate = map_option log_alloc (xo_allocate f), xo_free = map_option log_free (xo_free f)\<rparr>"

text \<open>C33. The exit protocol, for every firmware: recording the calls changes nothing; a failed run returns
  every buffer it allocated, in order, never exits boot services and leaves the caller's result alone;
  a successful run keeps exactly the buffer it reports, the map in it was fetched by the last but one
  call with the key that the last call, the exit, was given, and no call follows the exit; and the map
  service is called at most nine times and the exit at most eight times.\<close>

theorem uefi_exit_protocol:
  "\<exists>status res w' tr.
     bbp_uefi_exit_boot_services ops h result w = (status, res, w') \<and>
     bbp_uefi_exit_boot_services (map_option log_ops ops) h result (w, []) = (status, res, w', tr) \<and>
     (if status = BBP_UEFI_EXIT_OK then \<exists>completed. res = Some completed \<and> exit_run_ok h (Inr completed) tr
      else res = result \<and> exit_run_ok h (Inl status) tr) \<and>
     length (filter is_get tr) \<le> 9 \<and> length (filter is_exit tr) \<le> 8"
proof (cases "\<exists>f gm ebs al fr r0. ops = Some f \<and> result = Some r0 \<and> xo_get_memory_map f = Some gm \<and>
    xo_exit_boot_services f = Some ebs \<and> xo_allocate f = Some al \<and> xo_free f = Some fr")
  case True
  then obtain f gm ebs al fr r0 where f: "ops = Some f" "result = Some r0" "xo_get_memory_map f = Some gm"
    "xo_exit_boot_services f = Some ebs" "xo_allocate f = Some al" "xo_free f = Some fr" by blast
  obtain r w' tr where "exit_body gm ebs al fr h w = (r, w')"
    "exit_body (log_get gm) (log_exit ebs) (log_alloc al) (log_free fr) h (w, []) = (r, w', tr)"
    "exit_run_ok h r tr" "log_bounded 9 tr" "length (filter is_exit tr) \<le> 8"
    using exit_body_logged [of gm ebs al fr h w] by blast
  with f show ?thesis
    by (cases r) (auto simp: bbp_uefi_exit_boot_services_def log_ops_def log_bounded_def exit_run_ok_def)
next
  case False
  then have "bbp_uefi_exit_boot_services ops h result w = (BBP_UEFI_EXIT_ERR_ARGUMENT, result, w)"
    "bbp_uefi_exit_boot_services (map_option log_ops ops) h result (w, []) = (BBP_UEFI_EXIT_ERR_ARGUMENT, result, w, [])"
    by (auto simp: bbp_uefi_exit_boot_services_def log_ops_def split: option.splits)
  then show ?thesis by (simp add: exit_run_ok_def)
qed


















section \<open>Witnesses\<close>








end
