(* ===== verification/Boot_State.thy ===== *)
theory Boot_State
  imports Bbp_Prelude
begin

text \<open>
  The rollback policy of \<open>experimental/rollback/bbp_boot_state.c\<close>. A role is the integer the caller
  passes, since the code rejects values outside the enumeration. A device's history is a step relation:
  each boot attempt evaluates the policy on the persisted floor and persists the floor of the result.
\<close>

section \<open>Model\<close>

definition BBP_BOOT_ROLE_RELEASE :: u32 where "BBP_BOOT_ROLE_RELEASE = 1"
definition BBP_BOOT_ROLE_RECOVERY :: u32 where "BBP_BOOT_ROLE_RECOVERY = 2"

datatype bbp_boot_decision =
    BBP_BOOT_REJECT_ROLLBACK
  | BBP_BOOT_ACCEPT_RETRY
  | BBP_BOOT_ACCEPT_UPDATE
  | BBP_BOOT_REJECT_GAP
  | BBP_BOOT_REJECT_EXHAUSTED
  | BBP_BOOT_REJECT_ROLE

record bbp_boot_policy_result =
  pr_decision :: bbp_boot_decision
  pr_floor :: u64

definition bbp_boot_policy_evaluate :: "u64 \<Rightarrow> u64 \<Rightarrow> u32 \<Rightarrow> bbp_boot_policy_result" where
  "bbp_boot_policy_evaluate floor generation role =
     (if role \<noteq> BBP_BOOT_ROLE_RELEASE \<and> role \<noteq> BBP_BOOT_ROLE_RECOVERY then
        \<lparr>pr_decision = BBP_BOOT_REJECT_ROLE, pr_floor = floor\<rparr>
      else if floor = - 1 \<and> generation \<noteq> floor then
        \<lparr>pr_decision = BBP_BOOT_REJECT_EXHAUSTED, pr_floor = floor\<rparr>
      else if generation < floor then
        \<lparr>pr_decision = BBP_BOOT_REJECT_ROLLBACK, pr_floor = floor\<rparr>
      else if generation = floor then
        \<lparr>pr_decision = BBP_BOOT_ACCEPT_RETRY, pr_floor = floor\<rparr>
      else if generation - floor \<noteq> 1 then
        \<lparr>pr_decision = BBP_BOOT_REJECT_GAP, pr_floor = floor\<rparr>
      else if role = BBP_BOOT_ROLE_RECOVERY then
        \<lparr>pr_decision = BBP_BOOT_REJECT_ROLE, pr_floor = floor\<rparr>
      else \<lparr>pr_decision = BBP_BOOT_ACCEPT_UPDATE, pr_floor = generation\<rparr>)"

section \<open>Histories\<close>

definition accepts :: "bbp_boot_decision \<Rightarrow> bool" where
  "accepts d \<longleftrightarrow> d = BBP_BOOT_ACCEPT_RETRY \<or> d = BBP_BOOT_ACCEPT_UPDATE"

text \<open>From one persisted floor to another, with the booted generations and their roles in order.\<close>

inductive boots :: "u64 \<Rightarrow> (u64 \<times> u32) list \<Rightarrow> u64 \<Rightarrow> bool" where
  boots_none: "boots fl [] fl"
| boots_refused: "boots fl hist fl' \<Longrightarrow> \<not> accepts (pr_decision (bbp_boot_policy_evaluate fl' g role)) \<Longrightarrow>
    boots fl hist (pr_floor (bbp_boot_policy_evaluate fl' g role))"
| boots_accepted: "boots fl hist fl' \<Longrightarrow> accepts (pr_decision (bbp_boot_policy_evaluate fl' g role)) \<Longrightarrow>
    boots fl (hist @ [(g, role)]) (pr_floor (bbp_boot_policy_evaluate fl' g role))"

lemma policy_refused:
  "\<not> accepts (pr_decision (bbp_boot_policy_evaluate fl g role)) \<Longrightarrow> pr_floor (bbp_boot_policy_evaluate fl g role) = fl"
  by (auto simp: bbp_boot_policy_evaluate_def accepts_def split: if_splits)

lemma policy_accepted:
  assumes "accepts (pr_decision (bbp_boot_policy_evaluate fl g role))"
  shows "pr_floor (bbp_boot_policy_evaluate fl g role) = g"
    and "role = BBP_BOOT_ROLE_RELEASE \<or> role = BBP_BOOT_ROLE_RECOVERY"
    and "unat g = unat fl \<or> unat g = Suc (unat fl) \<and> role = BBP_BOOT_ROLE_RELEASE"
proof -
  show "pr_floor (bbp_boot_policy_evaluate fl g role) = g"
    and "role = BBP_BOOT_ROLE_RELEASE \<or> role = BBP_BOOT_ROLE_RECOVERY"
    using assms by (auto simp: bbp_boot_policy_evaluate_def accepts_def split: if_splits)
  have "g = fl \<or> \<not> g < fl \<and> g - fl = 1 \<and> role = BBP_BOOT_ROLE_RELEASE"
    using assms by (auto simp: bbp_boot_policy_evaluate_def accepts_def split: if_splits)
  moreover have "unat g = Suc (unat fl)" if "\<not> g < fl" "g - fl = 1"
  proof -
    have "unat (g - fl) = unat g - unat fl" using that(1) by (simp add: unat_sub word_nat_simps)
    with that show ?thesis by (simp add: word_nat_simps)
  qed
  ultimately show "unat g = unat fl \<or> unat g = Suc (unat fl) \<and> role = BBP_BOOT_ROLE_RELEASE" by auto
qed

section \<open>Properties\<close>

text \<open>C35. The policy accepts exactly two things: any known role at the current floor, and a release at the
  next generation. Generations are compared as natural numbers, so at the largest floor nothing wraps
  around. The floor moves exactly when an update is accepted, and then to the accepted generation.\<close>

theorem policy_exact:
  "accepts (pr_decision (bbp_boot_policy_evaluate fl g role)) =
     (g = fl \<and> (role = BBP_BOOT_ROLE_RELEASE \<or> role = BBP_BOOT_ROLE_RECOVERY) \<or>
      unat g = Suc (unat fl) \<and> role = BBP_BOOT_ROLE_RELEASE) \<and>
   pr_floor (bbp_boot_policy_evaluate fl g role) =
     (if unat g = Suc (unat fl) \<and> role = BBP_BOOT_ROLE_RELEASE then g else fl)"
proof (cases "accepts (pr_decision (bbp_boot_policy_evaluate fl g role))")
  case True
  from policy_accepted [OF this] True show ?thesis by (auto simp: word_unat_eq_iff)
next
  case False
  have "accepts (pr_decision (bbp_boot_policy_evaluate fl g role))"
    if "unat g = Suc (unat fl)" "role = BBP_BOOT_ROLE_RELEASE"
  proof -
    have "\<not> g < fl" "g \<noteq> fl" using that by (auto simp: word_nat_simps)
    moreover have "g - fl = 1" using that by (simp add: word_unat_eq_iff unat_sub word_le_nat_alt)
    moreover have "fl \<noteq> - 1" using that unat_u64_less [of g]
      by (auto simp: unsigned_minus_1_eq_mask mask_eq_exp_minus_1)
    ultimately show ?thesis
      using that by (simp add: bbp_boot_policy_evaluate_def accepts_def BBP_BOOT_ROLE_RELEASE_def BBP_BOOT_ROLE_RECOVERY_def)
  qed
  moreover have "accepts (pr_decision (bbp_boot_policy_evaluate fl g role))"
    if "g = fl" "role = BBP_BOOT_ROLE_RELEASE \<or> role = BBP_BOOT_ROLE_RECOVERY"
    using that by (auto simp: bbp_boot_policy_evaluate_def accepts_def)
  ultimately show ?thesis using False policy_refused [OF False] by auto
qed

text \<open>C36. Rollback protection over a device's whole history: the booted generations never decrease, the
  floor is the last booted generation, and no generation is skipped: each one between the first floor
  and the last was booted as a release.\<close>

theorem boot_history_monotone:
  assumes "boots fl hist fl'"
  shows "sorted (map (\<lambda>b. unat (fst b)) hist) \<and> list_all (\<lambda>b. fl \<le> fst b \<and> fst b \<le> fl') hist \<and>
    fl' = (if hist = [] then fl else fst (List.last hist)) \<and>
    (\<forall>k. unat fl < k \<and> k \<le> unat fl' \<longrightarrow> (\<exists>g. (g, BBP_BOOT_ROLE_RELEASE) \<in> set hist \<and> unat g = k))"
  using assms
proof induction
  case (boots_none fl)
  then show ?case by simp
next
  case (boots_refused fl hist fl' g role)
  show ?case using boots_refused.IH unfolding policy_refused [OF boots_refused(2)] .
next
  case (boots_accepted fl hist fl' g role)
  note acc = policy_accepted [OF boots_accepted(2)]
  have le: "unat fl' \<le> unat g" using acc(3) by auto
  have fl: "unat fl \<le> unat fl'"
    using boots_accepted.IH by (cases hist rule: rev_cases) (auto simp: word_le_nat_alt)
  have "k = unat g \<and> role = BBP_BOOT_ROLE_RELEASE" if "k \<le> unat g" "\<not> k \<le> unat fl'" for k
    using acc(3) that by auto
  moreover have "list_all (\<lambda>b. fl \<le> fst b \<and> fst b \<le> g) hist"
    using boots_accepted.IH le by (auto simp: list_all_iff word_le_nat_alt)
  moreover have "sorted (map (\<lambda>b. unat (fst b)) (hist @ [(g, role)]))"
    using boots_accepted.IH le by (auto simp: sorted_append list_all_iff word_le_nat_alt)
  ultimately show ?case
    using boots_accepted.IH fl le unfolding acc(1) by (auto simp: word_le_nat_alt)
qed

theorem boot_history_monotone_witness:
  "\<exists>hist. boots 4 hist 5 \<and> (\<exists>g. (g, BBP_BOOT_ROLE_RELEASE) \<in> set hist \<and> unat g = 5)"
proof -
  have "boots 4 ([] @ [(5, 1)]) (pr_floor (bbp_boot_policy_evaluate 4 5 1))"
    by (rule boots_accepted [OF boots_none]) code_simp
  moreover have "pr_floor (bbp_boot_policy_evaluate 4 5 1) = 5" by code_simp
  ultimately have b: "boots 4 [(5, 1)] 5" by simp
  from boot_history_monotone [OF b, THEN conjunct2, THEN conjunct2, THEN conjunct2, rule_format, of 5] b
  show ?thesis by (intro exI [of _ "[(5, 1)]"]) simp
qed

end
