(* ===== verification/Sha256.thy ===== *)
theory Sha256
  imports Bbp_Prelude
begin

text \<open>
  SHA-256 as \<open>experimental/firmware/uefi/tcg2/bbp_uefi_tcg2.c\<close> computes it, incrementally over a block
  buffer, and the proof that it is the hash of FIPS 180-4: the padded message cut into 64-byte blocks,
  each compressed into the chaining value.

  The context's block buffer is uninitialised stack memory at the start; its contents are an argument
  of the model, so that the theorems show that they do not matter. The update loop is a partial
  function: a context whose block were already full would never leave it.
\<close>

section \<open>Big-endian helpers\<close>

definition read_be16 :: "u8 list \<Rightarrow> nat \<Rightarrow> u16 option" where
  "read_be16 p d = do { b0 \<leftarrow> get8 p d; b1 \<leftarrow> get8 p (d + 1); Some (push_bit 8 (ucast b0) OR ucast b1) }"

definition read_be32 :: "u8 list \<Rightarrow> nat \<Rightarrow> u32 option" where
  "read_be32 p d =
     do { b0 \<leftarrow> get8 p d; b1 \<leftarrow> get8 p (d + 1); b2 \<leftarrow> get8 p (d + 2); b3 \<leftarrow> get8 p (d + 3);
          Some (((push_bit 24 (ucast b0) OR push_bit 16 (ucast b1)) OR push_bit 8 (ucast b2)) OR ucast b3) }"

definition be16_bytes :: "u16 \<Rightarrow> u8 list" where
  "be16_bytes value = [ucast (drop_bit 8 value), ucast value]"

definition be32_bytes :: "u32 \<Rightarrow> u8 list" where
  "be32_bytes value = [ucast (drop_bit 24 value), ucast (drop_bit 16 value), ucast (drop_bit 8 value), ucast value]"

definition write_be16 :: "u8 list \<Rightarrow> nat \<Rightarrow> u16 \<Rightarrow> u8 list option" where
  "write_be16 p d value = wr p d (be16_bytes value)"

definition write_be32 :: "u8 list \<Rightarrow> nat \<Rightarrow> u32 \<Rightarrow> u8 list option" where
  "write_be32 p d value = wr p d (be32_bytes value)"

text \<open>\<open>bytes_copy (dst + d, src, n)\<close>, in order and within both objects.\<close>

definition bytes_copy :: "u8 list \<Rightarrow> nat \<Rightarrow> u8 list \<Rightarrow> nat \<Rightarrow> u8 list option" where
  "bytes_copy dst d src n = do { ps \<leftarrow> rd src 0 n; wr dst d ps }"

section \<open>Model\<close>

record sha256_context =
  sc_state :: "u32 list"
  sc_bit_count :: u64
  sc_block :: "u8 list"
  sc_used :: u64

definition rotate_right :: "u32 \<Rightarrow> nat \<Rightarrow> u32" where
  "rotate_right value bits = drop_bit bits value OR push_bit (32 - bits) value"

definition sha256_constants :: "u32 list" where
  "sha256_constants = concat
     [[0x428a2f98, 0x71374491, 0xb5c0fbcf, 0xe9b5dba5],
      [0x3956c25b, 0x59f111f1, 0x923f82a4, 0xab1c5ed5],
      [0xd807aa98, 0x12835b01, 0x243185be, 0x550c7dc3],
      [0x72be5d74, 0x80deb1fe, 0x9bdc06a7, 0xc19bf174],
      [0xe49b69c1, 0xefbe4786, 0x0fc19dc6, 0x240ca1cc],
      [0x2de92c6f, 0x4a7484aa, 0x5cb0a9dc, 0x76f988da],
      [0x983e5152, 0xa831c66d, 0xb00327c8, 0xbf597fc7],
      [0xc6e00bf3, 0xd5a79147, 0x06ca6351, 0x14292967],
      [0x27b70a85, 0x2e1b2138, 0x4d2c6dfc, 0x53380d13],
      [0x650a7354, 0x766a0abb, 0x81c2c92e, 0x92722c85],
      [0xa2bfe8a1, 0xa81a664b, 0xc24b8b70, 0xc76c51a3],
      [0xd192e819, 0xd6990624, 0xf40e3585, 0x106aa070],
      [0x19a4c116, 0x1e376c08, 0x2748774c, 0x34b0bcb5],
      [0x391c0cb3, 0x4ed8aa4a, 0x5b9cca4f, 0x682e6ff3],
      [0x748f82ee, 0x78a5636f, 0x84c87814, 0x8cc70208],
      [0x90befffa, 0xa4506ceb, 0xbef9a3f7, 0xc67178f2]]"

fun load_words :: "u8 list \<Rightarrow> nat list \<Rightarrow> u32 list option" where
  "load_words block [] = Some []"
| "load_words block (i # is) =
     do { w \<leftarrow> read_be32 block (i * 4); ws \<leftarrow> load_words block is; Some (w # ws) }"

definition schedule_word :: "nat \<Rightarrow> u32 list \<Rightarrow> u32 list" where
  "schedule_word i words =
     (let x = words ! (i - 15);
          y = words ! (i - 2);
          s0 = (rotate_right x 7 XOR rotate_right x 18) XOR drop_bit 3 x;
          s1 = (rotate_right y 17 XOR rotate_right y 19) XOR drop_bit 10 y in
      words @ [words ! (i - 16) + s0 + words ! (i - 7) + s1])"

type_synonym sha_vars = "u32 \<times> u32 \<times> u32 \<times> u32 \<times> u32 \<times> u32 \<times> u32 \<times> u32"

definition sha_round :: "u32 list \<Rightarrow> nat \<Rightarrow> sha_vars \<Rightarrow> sha_vars" where
  "sha_round words i vars =
     (case vars of (a, b, c, d, e, f, g, h) \<Rightarrow>
        let sum1 = (rotate_right e 6 XOR rotate_right e 11) XOR rotate_right e 25;
            choice = (e AND f) XOR (NOT e AND g);
            temp1 = h + sum1 + choice + sha256_constants ! i + words ! i;
            sum0 = (rotate_right a 2 XOR rotate_right a 13) XOR rotate_right a 22;
            majority = ((a AND b) XOR (a AND c)) XOR (b AND c);
            temp2 = sum0 + majority in
        (temp1 + temp2, a, b, c, d + temp1, e, f, g))"

definition sha256_transform :: "u32 list \<Rightarrow> u8 list \<Rightarrow> u32 list option" where
  "sha256_transform state block =
     do {
       first \<leftarrow> load_words block [0..<16];
       let words = fold schedule_word [16..<64] first;
       case state of
         [s0, s1, s2, s3, s4, s5, s6, s7] \<Rightarrow>
           (case fold (sha_round words) [0..<64] (s0, s1, s2, s3, s4, s5, s6, s7) of
              (a, b, c, d, e, f, g, h) \<Rightarrow>
                Some [s0 + a, s1 + b, s2 + c, s3 + d, s4 + e, s5 + f, s6 + g, s7 + h])
       | _ \<Rightarrow> None
     }"

definition sha256_initial :: "u32 list" where
  "sha256_initial = [0x6a09e667, 0xbb67ae85, 0x3c6ef372, 0xa54ff53a, 0x510e527f, 0x9b05688c, 0x1f83d9ab, 0x5be0cd19]"

definition sha256_init :: "sha256_context \<Rightarrow> sha256_context" where
  "sha256_init context = context\<lparr>sc_state := sha256_initial, sc_bit_count := 0, sc_used := 0\<rparr>"

partial_function (option) update_loop :: "sha256_context \<Rightarrow> u8 list \<Rightarrow> u64 \<Rightarrow> sha256_context option" where
  [code]: "update_loop context data bytes =
     (if bytes = 0 then Some context
      else
        let room = 64 - sc_used context;
            tk = if bytes < room then bytes else room in
        do {
          block \<leftarrow> bytes_copy (sc_block context) (unat (sc_used context)) data (unat tk);
          let context = context\<lparr>sc_block := block, sc_used := sc_used context + tk\<rparr>;
          context \<leftarrow>
            (if sc_used context = 64 then
               do {
                 state \<leftarrow> sha256_transform (sc_state context) (sc_block context);
                 Some (context\<lparr>sc_state := state, sc_used := 0\<rparr>)
               }
             else Some context);
          update_loop context (drop (unat tk) data) (bytes - tk)
        })"

definition sha256_update :: "sha256_context \<Rightarrow> u8 list \<Rightarrow> u64 \<Rightarrow> sha256_context option" where
  "sha256_update context data bytes =
     update_loop (context\<lparr>sc_bit_count := sc_bit_count context + bytes * 8\<rparr>) data bytes"

text \<open>\<open>while (used < limit) block[used++] = 0\<close>.\<close>

function zero_until :: "u8 list \<Rightarrow> u64 \<Rightarrow> u64 \<Rightarrow> (u8 list \<times> u64) option" where
  "zero_until block used limit =
     (if used < limit then do { block \<leftarrow> wr block (unat used) [0]; zero_until block (used + 1) limit }
      else Some (block, used))"
  by auto
termination
proof (relation "measure (\<lambda>(_, used, limit). unat limit - unat used)")
  fix block block' :: "u8 list" and used limit :: u64
  assume "used < limit"
  then have "unat used < unat limit" "unat used + 1 < 2 ^ 64"
    using unat_u64_less [of limit] by (simp_all add: word_less_nat_alt)
  then show "((block', used + 1, limit), block, used, limit) \<in> measure (\<lambda>(_, used, limit). unat limit - unat used)"
    using unat_add_u64 [of used 1] by simp
qed simp

definition be64_bytes :: "u64 \<Rightarrow> u8 list" where
  "be64_bytes bits = map (\<lambda>i. ucast (drop_bit (56 - i * 8) bits)) [0..<8]"

definition sha256_final :: "sha256_context \<Rightarrow> u8 list \<Rightarrow> u8 list option" where
  "sha256_final context digest =
     do {
       let bits = sc_bit_count context;
       block \<leftarrow> wr (sc_block context) (unat (sc_used context)) [0x80];
       let used = sc_used context + 1;
       (state, block, used) \<leftarrow>
         (if used > 56 then
            do {
              (block, used) \<leftarrow> zero_until block used 64;
              state \<leftarrow> sha256_transform (sc_state context) block;
              Some (state, block, 0)
            }
          else Some (sc_state context, block, used));
       (block, used) \<leftarrow> zero_until block used 56;
       block \<leftarrow> wr block 56 (be64_bytes bits);
       state \<leftarrow> sha256_transform state block;
       wr digest 0 (concat (map be32_bytes state))
     }"

text \<open>The result: the C return value and the caller's digest buffer; a NULL pointer is \<^term>\<open>None\<close>.\<close>

definition bbp_tcg2_sha256 ::
  "sha256_context \<Rightarrow> u8 list option \<Rightarrow> u64 \<Rightarrow> u8 list option \<Rightarrow> (int \<times> u8 list option) option" where
  "bbp_tcg2_sha256 stack data bytes digest =
     (case digest of
        None \<Rightarrow> Some (- 1, digest)
      | Some out \<Rightarrow>
          if bytes \<noteq> 0 \<and> data = None \<or> bytes > drop_bit 3 (- 1) then Some (- 1, digest)
          else do {
            context \<leftarrow> sha256_update (sha256_init stack) (case data of None \<Rightarrow> [] | Some p \<Rightarrow> p) bytes;
            out \<leftarrow> sha256_final context out;
            Some (0, Some out)
          })"

definition bbp_tcg2_sha256_extend ::
  "sha256_context \<Rightarrow> u8 list \<Rightarrow> u8 list \<Rightarrow> u8 list \<Rightarrow> u8 list \<Rightarrow> u8 list option" where
  "bbp_tcg2_sha256_extend stack concatenated before digest after =
     do {
       concatenated \<leftarrow> bytes_copy concatenated 0 before 32;
       concatenated \<leftarrow> bytes_copy concatenated 32 digest 32;
       (_, after) \<leftarrow> bbp_tcg2_sha256 stack (Some concatenated) 64 (Some after);
       after
     }"

section \<open>The hash of FIPS 180-4\<close>

abbreviation ROTR :: "nat \<Rightarrow> u32 \<Rightarrow> u32" where "ROTR n x \<equiv> word_rotr n x"

definition Sigma0 :: "u32 \<Rightarrow> u32" where "Sigma0 x = ROTR 2 x XOR ROTR 13 x XOR ROTR 22 x"
definition Sigma1 :: "u32 \<Rightarrow> u32" where "Sigma1 x = ROTR 6 x XOR ROTR 11 x XOR ROTR 25 x"
definition sigma0 :: "u32 \<Rightarrow> u32" where "sigma0 x = ROTR 7 x XOR ROTR 18 x XOR drop_bit 3 x"
definition sigma1 :: "u32 \<Rightarrow> u32" where "sigma1 x = ROTR 17 x XOR ROTR 19 x XOR drop_bit 10 x"
definition Ch :: "u32 \<Rightarrow> u32 \<Rightarrow> u32 \<Rightarrow> u32" where "Ch x y z = (x AND y) XOR (NOT x AND z)"
definition Maj :: "u32 \<Rightarrow> u32 \<Rightarrow> u32 \<Rightarrow> u32" where "Maj x y z = (x AND y) XOR (x AND z) XOR (y AND z)"

text \<open>The message schedule of a block: its sixteen big-endian words and the recurrence.\<close>

definition block_word :: "u8 list \<Rightarrow> nat \<Rightarrow> u32" where
  "block_word block i = get_le (rev (slice block (4 * i) 4))"

fun W :: "u8 list \<Rightarrow> nat \<Rightarrow> u32" where
  "W block t = (if t < 16 then block_word block t
     else sigma1 (W block (t - 2)) + W block (t - 7) + sigma0 (W block (t - 15)) + W block (t - 16))"

declare W.simps [simp del]

definition fips_round :: "u8 list \<Rightarrow> nat \<Rightarrow> sha_vars \<Rightarrow> sha_vars" where
  "fips_round block t = (\<lambda>(a, b, c, d, e, f, g, h).
     let T1 = h + Sigma1 e + Ch e f g + sha256_constants ! t + W block t; T2 = Sigma0 a + Maj a b c in
     (T1 + T2, a, b, c, d + T1, e, f, g))"

definition compress :: "u8 list \<Rightarrow> u32 list \<Rightarrow> u32 list" where
  "compress block H =
     (case fold (fips_round block) [0..<64] (H ! 0, H ! 1, H ! 2, H ! 3, H ! 4, H ! 5, H ! 6, H ! 7) of
        (a, b, c, d, e, f, g, h) \<Rightarrow> map2 (+) H [a, b, c, d, e, f, g, h])"

text \<open>Padding: a one bit, zeros up to 56 modulo 64, and the length in bits as eight big-endian bytes.\<close>

definition sha_pad :: "u8 list \<Rightarrow> u8 list" where
  "sha_pad msg = msg @ [0x80] @ replicate ((119 - length msg mod 64) mod 64) 0 @ be64_bytes (of_nat (8 * length msg))"

fun blocks :: "u8 list \<Rightarrow> u8 list list" where
  "blocks ps = (if length ps < 64 then [] else take 64 ps # blocks (drop 64 ps))"

declare blocks.simps [simp del]

definition SHA256 :: "u8 list \<Rightarrow> u8 list" where
  "SHA256 msg = concat (map be32_bytes (fold compress (blocks (sha_pad msg)) sha256_initial))"

section \<open>The transform is the compression function\<close>

lemma rotate_right_ROTR: "0 < n \<Longrightarrow> n < 32 \<Longrightarrow> rotate_right x n = ROTR n x"
proof (rule bit_word_eqI)
  fix i assume n: "0 < n" "n < 32" and "i < LENGTH(32)"
  then have i: "i < 32" by simp
  have "(i + n) mod 32 = (if i + n < 32 then i + n else i + n - 32)"
    using i n by (simp add: le_mod_geq)
  then show "bit (rotate_right x n) i = bit (ROTR n x) i"
    using i n bit_imp_le_length [of x "n + i"]
    by (simp add: rotate_right_def bit_word_rotr_iff bit_or_iff bit_drop_bit_eq bit_push_bit_iff add.commute)
      (auto simp: not_less)
qed

lemma be_bytes:
  "d + 4 \<le> length p \<Longrightarrow> read_be32 p d = Some (get_le (rev (slice p d 4)))"
  "d + 2 \<le> length p \<Longrightarrow> read_be16 p d = Some (get_le (rev (slice p d 2)))"
proof -
  have four: "[0..<4] = [0, 1, 2, 3 :: nat]" and two: "[0..<2] = [0, 1 :: nat]" by (simp_all add: upt_rec)
  show "read_be32 p d = Some (get_le (rev (slice p d 4)))" if "d + 4 \<le> length p"
    using that by (simp add: read_be32_def get8_def get_le_def rev_nth length_slice slice_nth four ac_simps)
  show "read_be16 p d = Some (get_le (rev (slice p d 2)))" if "d + 2 \<le> length p"
    using that by (simp add: read_be16_def get8_def get_le_def rev_nth length_slice slice_nth two ac_simps)
qed

lemma load_words_eq:
  "length block = 64 \<Longrightarrow> \<forall>i\<in>set is. i < 16 \<Longrightarrow> load_words block is = Some (map (block_word block) is)"
  by (induction "is") (auto simp: be_bytes block_word_def mult.commute)

lemma schedule_eq:
  assumes "16 \<le> n"
  shows "fold schedule_word [16..<n] (map (W block) [0..<16]) = map (W block) [0..<n]"
  using assms
proof (induction n rule: dec_induct)
  case base
  then show ?case by simp
next
  case (step n)
  then have "W block n = W block (n - 16) + sigma0 (W block (n - 15)) + W block (n - 7) + sigma1 (W block (n - 2))"
    by (subst W.simps) (simp add: ac_simps)
  with step show ?case
    by (simp add: Let_def schedule_word_def sigma0_def sigma1_def rotate_right_ROTR xor.assoc)
qed

lemma round_eq: "i < 64 \<Longrightarrow> sha_round (map (W block) [0..<64]) i = fips_round block i"
  by (rule ext) (simp add: sha_round_def fips_round_def Sigma0_def Sigma1_def Ch_def Maj_def
      rotate_right_ROTR xor.assoc Let_def split: prod.split)

lemma transform_eq:
  assumes "length block = 64" "length H = 8"
  shows "sha256_transform H block = Some (compress block H)" "length (compress block H) = 8"
proof -
  obtain s0 s1 s2 s3 s4 s5 s6 s7 where H: "H = [s0, s1, s2, s3, s4, s5, s6, s7]"
    using assms(2) by (auto simp: length_Suc_conv eval_nat_numeral)
  have "map (block_word block) [0..<16] = map (W block) [0..<16]"
    by (auto simp: W.simps)
  then have "load_words block [0..<16] = Some (map (W block) [0..<16])"
    using load_words_eq [OF assms(1), of "[0..<16]"] by simp
  moreover have "fold (sha_round (map (W block) [0..<64])) [0..<64] v = fold (fips_round block) [0..<64] v" for v
    by (rule fold_cong) (auto simp: round_eq)
  ultimately show "sha256_transform H block = Some (compress block H)"
    unfolding H sha256_transform_def compress_def
    by (simp add: schedule_eq split: prod.split del: upt_rec_numeral)
  show "length (compress block H) = 8"
    using assms(2) by (simp add: compress_def split: prod.split)
qed

section \<open>The incremental context\<close>

lemma blocks_concat:
  "\<forall>b\<in>set bs. length b = 64 \<Longrightarrow> blocks (concat bs @ ps) = bs @ blocks ps"
  by (induction bs) (simp_all add: blocks.simps)

lemma blocks_one: "length b = 64 \<Longrightarrow> blocks b = [b]"
  using blocks_concat [of "[b]" "[]"] by (simp add: blocks.simps)

lemma length_fold_compress:
  "\<forall>b\<in>set bs. length b = 64 \<Longrightarrow> length H = 8 \<Longrightarrow> length (fold compress bs H) = 8"
  by (induction bs arbitrary: H) (simp_all add: transform_eq)

lemma length_be64 [simp]: "length (be64_bytes v) = 8"
  by (simp add: be64_bytes_def)

text \<open>The context has taken in a message: whole blocks are in the chaining value, the rest in the buffer.\<close>

definition absorbed :: "sha256_context \<Rightarrow> u8 list list \<Rightarrow> u8 list \<Rightarrow> bool" where
  "absorbed c bs rest \<longleftrightarrow> (\<forall>b\<in>set bs. length b = 64) \<and> sc_state c = fold compress bs sha256_initial \<and>
     length (sc_block c) = 64 \<and> length rest = unat (sc_used c) \<and> length rest < 64 \<and>
     take (length rest) (sc_block c) = rest"

lemma absorbed_state: "absorbed c bs rest \<Longrightarrow> length (sc_state c) = 8"
  using length_fold_compress [of bs sha256_initial] by (simp add: absorbed_def sha256_initial_def)

text \<open>One turn of the update loop.\<close>

lemma update_turn:
  assumes abs: "absorbed c bs rest" and len: "unat bytes \<le> length data" and n: "bytes \<noteq> 0"
  defines "k \<equiv> min (unat bytes) (64 - length rest)"
  shows "\<exists>c' bs' rest' tk. update_loop c data bytes = update_loop c' (drop k data) (bytes - tk) \<and> unat tk = k \<and>
    absorbed c' bs' rest' \<and> concat bs' @ rest' = concat bs @ rest @ take k data \<and>
    sc_bit_count c' = sc_bit_count c"
proof -
  let ?room = "64 - sc_used c" and ?used = "unat (sc_used c)"
  have u: "?used = length rest" "?used < 64" using abs by (simp_all add: absorbed_def)
  then have room: "unat ?room = 64 - ?used" by (simp add: unat_diff_u64 word_le_nat_alt)
  define tk where "tk = (if bytes < ?room then bytes else ?room)"
  have tk: "unat tk = k" using u room by (auto simp: tk_def k_def word_less_nat_alt min_def)
  have k: "k \<le> length data" "?used + k \<le> 64" using len u by (auto simp: k_def)
  let ?blk = "patch (sc_block c) ?used (take k data)"
  have cp: "bytes_copy (sc_block c) ?used data (unat tk) = Some ?blk"
    using k abs by (simp add: bytes_copy_def rd_def tk absorbed_def wr_patch)
  have blk: "length ?blk = 64" "take (?used + k) ?blk = rest @ take k data"
    using k abs u by (simp_all add: absorbed_def patch_def)
  have used: "unat (sc_used c + tk) = ?used + k" using k tk by (simp add: unat_add_u64)
  show ?thesis
  proof (cases "?used + k = 64")
    case True
    let ?c = "c\<lparr>sc_block := ?blk, sc_state := compress ?blk (sc_state c), sc_used := 0\<rparr>"
    have full: "?blk = rest @ take k data" using blk True by simp
    have "sc_used c + tk = 64" using used True by (simp add: word_unat_eq_iff)
    then have "update_loop c data bytes = update_loop ?c (drop k data) (bytes - tk)"
      using n cp transform_eq [OF blk(1) absorbed_state [OF abs]]
      by (subst update_loop.simps) (simp add: Let_def tk_def [symmetric] tk)
    moreover have "absorbed ?c (bs @ [?blk]) []" using abs blk by (simp add: absorbed_def)
    ultimately show ?thesis using full tk
      by (intro exI [of _ ?c] exI [of _ "bs @ [?blk]"] exI [of _ "[]"] exI [of _ tk]) simp
  next
    case False
    let ?c = "c\<lparr>sc_block := ?blk, sc_used := sc_used c + tk\<rparr>"
    have "sc_used c + tk \<noteq> 64" using used False by auto
    then have "update_loop c data bytes = update_loop ?c (drop k data) (bytes - tk)"
      using n cp by (subst update_loop.simps) (simp add: Let_def tk_def [symmetric] tk)
    moreover have "absorbed ?c bs (rest @ take k data)"
      using abs blk k used u False by (simp add: absorbed_def)
    ultimately show ?thesis using tk
      by (intro exI [of _ ?c] exI [of _ bs] exI [of _ "rest @ take k data"] exI [of _ tk]) simp
  qed
qed

lemma update_loop_eq:
  assumes "absorbed c bs rest" "unat bytes \<le> length data"
  shows "\<exists>c' bs' rest'. update_loop c data bytes = Some c' \<and> absorbed c' bs' rest' \<and>
    concat bs' @ rest' = concat bs @ rest @ take (unat bytes) data \<and> sc_bit_count c' = sc_bit_count c"
  using assms
proof (induction "unat bytes" arbitrary: c bs rest data bytes rule: less_induct)
  case less
  show ?case
  proof (cases "bytes = 0")
    case True
    then show ?thesis using less.prems by (subst update_loop.simps) auto
  next
    case False
    let ?k = "min (unat bytes) (64 - length rest)"
    obtain c1 bs1 rest1 tk where t: "update_loop c data bytes = update_loop c1 (drop ?k data) (bytes - tk)"
      "unat tk = ?k" "absorbed c1 bs1 rest1" "concat bs1 @ rest1 = concat bs @ rest @ take ?k data"
      "sc_bit_count c1 = sc_bit_count c"
      using update_turn [OF less.prems False] by blast
    have pos: "0 < ?k" using False less.prems(1) by (simp add: absorbed_def unat_gt_0)
    have b: "unat (bytes - tk) = unat bytes - ?k" using t(2) by (simp add: unat_diff_u64 word_le_nat_alt)
    then have "unat (bytes - tk) < unat bytes" using pos by simp
    moreover have "unat (bytes - tk) \<le> length (drop ?k data)" using b less.prems(2) by simp
    ultimately obtain c' bs' rest' where
      "update_loop c1 (drop ?k data) (bytes - tk) = Some c'" "absorbed c' bs' rest'"
      "concat bs' @ rest' = concat bs1 @ rest1 @ take (unat bytes - ?k) (drop ?k data)"
      "sc_bit_count c' = sc_bit_count c1"
      using less.hyps [of "bytes - tk" c1 bs1 rest1 "drop ?k data"] t(3) b by metis
    moreover have "take ?k data @ take (unat bytes - ?k) (drop ?k data) = take (unat bytes) data"
      using take_add [of ?k "unat bytes - ?k" data] by simp
    ultimately show ?thesis using t by (metis append.assoc)
  qed
qed

lemma zero_until_eq:
  assumes "used \<le> limit" "limit \<le> 64" "length block = 64"
  shows "zero_until block used limit =
    Some (take (unat used) block @ replicate (unat limit - unat used) 0 @ drop (unat limit) block, limit)"
  using assms
proof (induction block used limit rule: zero_until.induct)
  case (1 block used limit)
  show ?case
  proof (cases "used < limit")
    case False
    then have "used = limit" using 1 by simp
    then show ?thesis by (simp add: zero_until.simps)
  next
    case True
    then have u: "unat used < unat limit" "unat limit \<le> 64" using 1 by (simp_all add: word_nat_simps)
    then have s: "unat (used + 1) = Suc (unat used)" using unat_add_u64 [of used 1] by simp
    let ?b = "patch block (unat used) [0]"
    have w: "wr block (unat used) [0] = Some ?b" using 1 u by (simp add: wr_patch)
    have "used + 1 \<le> limit" "length ?b = 64" using u s 1 by (simp_all add: word_le_nat_alt)
    then have "zero_until ?b (used + 1) limit = Some (take (unat (used + 1)) ?b @
        replicate (unat limit - unat (used + 1)) 0 @ drop (unat limit) ?b, limit)"
      using 1 True w by blast
    moreover have "take (Suc (unat used)) ?b = take (unat used) block @ [0]" "drop (unat limit) ?b = drop (unat limit) block"
      using u 1 by (simp_all add: patch_def drop_Cons')
    moreover have "unat limit - unat used = Suc (unat limit - Suc (unat used))" using u by simp
    ultimately show ?thesis using True w s by (subst zero_until.simps) simp
  qed
qed

declare zero_until.simps [simp del]

text \<open>What the padding leaves to hash after the whole blocks: one block or two.\<close>

lemma pad_blocks:
  assumes bs: "\<forall>b\<in>set bs. length b = 64" and r: "length rest < 64"
  defines "n \<equiv> be64_bytes (of_nat (8 * length (concat bs @ rest)))"
  shows "blocks (sha_pad (concat bs @ rest)) = bs @
    (if length rest < 56 then [rest @ [0x80] @ replicate (55 - length rest) 0 @ n]
     else [rest @ [0x80] @ replicate (63 - length rest) 0, replicate 56 0 @ n])"
proof -
  have "length (concat bs) = 64 * length bs" using bs by (induction bs) auto
  then have m: "length (concat bs @ rest) mod 64 = length rest" using r by simp
  show ?thesis
  proof (cases "length rest < 56")
    case True
    then have "(119 - length rest) mod 64 = 55 - length rest" by (simp add: le_mod_geq)
    with True m show ?thesis
      using blocks_concat [OF bs] by (simp add: sha_pad_def blocks_one n_def)
  next
    case False
    then have "119 - length rest = (63 - length rest) + 56" using r by simp
    then have "replicate (119 - length rest) (0 :: u8) = replicate (63 - length rest) 0 @ replicate 56 0"
      by (simp only: replicate_add)
    with False m r show ?thesis
      using blocks_concat [OF bs] blocks_concat [of "[rest @ [0x80] @ replicate (63 - length rest) 0]"]
      by (simp add: sha_pad_def blocks_one n_def)
  qed
qed

lemma length_be32_concat: "length (concat (map be32_bytes H)) = 4 * length H"
  by (induction H) (simp_all add: be32_bytes_def)

lemma length_SHA256: "length (SHA256 msg) = 32"
proof -
  have "\<forall>b\<in>set (blocks ps). length b = 64" for ps
  proof (induction ps rule: blocks.induct)
    case (1 ps)
    have "set (blocks ps) = (if length ps < 64 then {} else insert (take 64 ps) (set (blocks (drop 64 ps))))"
      by (subst blocks.simps) simp
    moreover have "length (take 64 ps) = 64" if "\<not> length ps < 64" using that by simp
    ultimately show ?case using 1 by (metis empty_iff insert_iff)
  qed
  then show ?thesis
    unfolding SHA256_def length_be32_concat by (simp add: length_fold_compress sha256_initial_def)
qed

lemma final_eq:
  assumes abs: "absorbed c bs rest" and bits: "sc_bit_count c = of_nat (8 * length (concat bs @ rest))"
    and dig: "length digest = 32"
  shows "sha256_final c digest = Some (SHA256 (concat bs @ rest))"
proof -
  let ?u = "unat (sc_used c)" and ?n = "be64_bytes (of_nat (8 * length (concat bs @ rest)))"
  let ?b = "patch (sc_block c) ?u [0x80]"
  have u: "?u = length rest" "?u < 64" and blk: "length (sc_block c) = 64" "take ?u (sc_block c) = rest"
    and st: "sc_state c = fold compress bs sha256_initial" and bs: "\<forall>b\<in>set bs. length b = 64"
    using abs by (auto simp: absorbed_def)
  have w: "wr (sc_block c) ?u [0x80] = Some ?b" "length ?b = 64" "take (Suc ?u) ?b = rest @ [0x80]"
    using blk u by (simp_all add: wr_patch patch_def)
  have s: "unat (sc_used c + 1) = Suc ?u" using u unat_add_u64 [of "sc_used c" 1] by simp
  note tr = transform_eq [OF _ absorbed_state [OF abs]]
  have out: "wr digest 0 (concat (map be32_bytes H)) = Some (concat (map be32_bytes H))" if "length H = 8" for H
    using dig that by (simp add: wr_def length_be32_concat)
  have tail: "wr (qs @ ps) 56 ?n = Some (qs @ ?n)" if "length ps = 8" "length qs = 56" for ps qs
    using that by (simp add: wr_def)
  show ?thesis
  proof (cases "length rest < 56")
    case True
    let ?q = "rest @ [0x80] @ replicate (55 - length rest) 0"
    have "\<not> sc_used c + 1 > 56" using s u True by (simp add: word_less_nat_alt)
    moreover have "zero_until ?b (sc_used c + 1) 56 = Some (?q @ drop 56 ?b, 56)"
      using zero_until_eq [of "sc_used c + 1" 56 ?b] s u w True by (simp add: word_le_nat_alt)
    moreover have "wr (?q @ drop 56 ?b) 56 ?n = Some (?q @ ?n)"
      using True w by (intro tail) simp_all
    moreover have "length (?q @ ?n) = 64" using True by simp
    ultimately show ?thesis using tr [of "?q @ ?n"] True w st out pad_blocks [OF bs, of rest] bits
      by (simp add: sha256_final_def SHA256_def)
  next
    case False
    let ?q = "rest @ [0x80] @ replicate (63 - length rest) 0"
    have "sc_used c + 1 > 56" using s u False by (simp add: word_less_nat_alt)
    moreover have "zero_until ?b (sc_used c + 1) 64 = Some (?q, 64)"
      using zero_until_eq [of "sc_used c + 1" 64 ?b] s u w False by (simp add: word_le_nat_alt)
    moreover have q: "length ?q = 64" using False u by simp
    moreover have "zero_until ?q 0 56 = Some (replicate 56 0 @ drop 56 ?q, 56)"
      using zero_until_eq [of 0 56 ?q] q by simp
    moreover have "wr (replicate 56 0 @ drop 56 ?q) 56 ?n = Some (replicate 56 0 @ ?n)"
      using q by (intro tail) simp_all
    moreover have "sha256_transform (compress ?q (sc_state c)) (replicate 56 0 @ ?n) =
        Some (compress (replicate 56 0 @ ?n) (compress ?q (sc_state c)))"
      "length (compress (replicate 56 0 @ ?n) (compress ?q (sc_state c))) = 8"
      using transform_eq [of "replicate 56 0 @ ?n"] tr [OF q] by simp_all
    ultimately show ?thesis using tr [OF q] False u w st out pad_blocks [OF bs, of rest] bits
      by (simp add: sha256_final_def SHA256_def del: append_assoc append.simps)
  qed
qed

section \<open>Properties\<close>

lemma sha256_limit: "bytes > (mask 61 :: u64) \<longleftrightarrow> unat bytes \<ge> 2 ^ 61"
proof -
  have m: "(mask 61 :: u64) = 0x1FFFFFFFFFFFFFFF" by (simp add: mask_eq_exp_minus_1)
  have "unat (0x1FFFFFFFFFFFFFFF :: u64) = 0x1FFFFFFFFFFFFFFF" by simp
  then show ?thesis unfolding m word_less_nat_alt by simp linarith
qed

lemma sha256_data_eq:
  assumes "length (sc_block stack) = 64" "unat bytes \<le> length p" "length out = 32"
  shows "bbp_tcg2_sha256 stack (Some p) bytes (Some out) =
    Some (if unat bytes < 2 ^ 61 then (0, Some (SHA256 (take (unat bytes) p))) else (- 1, Some out))"
proof (cases "unat bytes < 2 ^ 61")
  case False
  then show ?thesis by (simp add: bbp_tcg2_sha256_def sha256_limit)
next
  case True
  let ?c = "(sha256_init stack)\<lparr>sc_bit_count := bytes * 8\<rparr>"
  have "absorbed ?c [] []" using assms(1) by (simp add: absorbed_def sha256_init_def)
  from update_loop_eq [OF this assms(2)] obtain c bs rest where
    c: "update_loop ?c p bytes = Some c" "absorbed c bs rest" "concat bs @ rest = take (unat bytes) p"
      "sc_bit_count c = bytes * 8" by auto
  have "length (take (unat bytes) p) = unat bytes" using assms(2) by simp
  then have "sc_bit_count c = of_nat (8 * length (concat bs @ rest))"
    unfolding c(3,4) by simp
  from final_eq [OF c(2) this assms(3)] c(1,3) True show ?thesis
    by (simp add: bbp_tcg2_sha256_def sha256_update_def sha256_limit)
       (simp add: sha256_init_def)
qed

text \<open>C37. The incremental routine is SHA-256: for every message of fewer than 2 to the 61 bytes it terminates,
  stays inside its block buffer and writes the FIPS 180-4 hash of the message, whatever the stack held
  before; longer messages are refused and the digest buffer is left alone.\<close>

theorem sha256_is_fips:
  assumes "length (sc_block stack) = 64" "unat bytes \<le> length p" "length out = 32"
  shows "bbp_tcg2_sha256 stack (Some p) bytes (Some out) =
    Some (if unat bytes < 2 ^ 61 then (0, Some (SHA256 (take (unat bytes) p))) else (- 1, Some out))"
  using assms by (rule sha256_data_eq)

theorem sha256_is_fips_witness:
  "bbp_tcg2_sha256 \<lparr>sc_state = [], sc_bit_count = 0, sc_block = replicate 64 0xcc, sc_used = 0\<rparr>
     (Some [0x61, 0x62, 0x63]) 3 (Some (replicate 32 0)) = Some (0, Some (SHA256 [0x61, 0x62, 0x63]))"
  using sha256_is_fips [of "\<lparr>sc_state = [], sc_bit_count = 0, sc_block = replicate 64 0xcc, sc_used = 0\<rparr>" 3
      "[0x61, 0x62, 0x63]" "replicate 32 0"] by simp

text \<open>The measurement extension is the PCR extend operation: the new value is the hash of the old value
  followed by the digest, and the temporary buffer's previous contents do not matter.\<close>

theorem sha256_extend_is_pcr_extend:
  assumes "length (sc_block stack) = 64" "length tmp = 64" "length before = 32" "length digest = 32" "length after = 32"
  shows "bbp_tcg2_sha256_extend stack tmp before digest after = Some (SHA256 (before @ digest))"
proof -
  have "bytes_copy tmp 0 before 32 = Some (before @ drop 32 tmp)"
    using assms by (simp add: bytes_copy_def rd_def wr_def)
  moreover have "bytes_copy (before @ drop 32 tmp) 32 digest 32 = Some (before @ digest)"
    using assms by (simp add: bytes_copy_def rd_def wr_def)
  ultimately show ?thesis
    using sha256_data_eq [of stack 64 "before @ digest" after] assms
    by (simp add: bbp_tcg2_sha256_extend_def)
qed

theorem sha256_extend_is_pcr_extend_witness:
  "bbp_tcg2_sha256_extend \<lparr>sc_state = [], sc_bit_count = 0, sc_block = replicate 64 0xcc, sc_used = 0\<rparr>
     (replicate 64 7) (replicate 32 0) (replicate 32 1) (replicate 32 2) =
   Some (SHA256 (replicate 32 0 @ replicate 32 1))"
  by (rule sha256_extend_is_pcr_extend) simp_all

end
