(* ===== verification/Tcg2.thy ===== *)
theory Tcg2
  imports Sha256
begin

text \<open>
  The TPM 2.0 wire helpers of \<open>experimental/firmware/uefi/tcg2/bbp_uefi_tcg2.c\<close>: the PCR read command
  and the parser of its response, over bounded byte buffers. NULL pointers are \<^term>\<open>None\<close>, and each
  function returns the caller's output objects with the status.
\<close>

section \<open>Model\<close>

definition BBP_TPM2_ALG_SHA256 :: u16 where "BBP_TPM2_ALG_SHA256 = 0x000b"
definition BBP_TPM2_PCR_READ_COMMAND :: u32 where "BBP_TPM2_PCR_READ_COMMAND = 0x0000017e"
definition BBP_TPM2_ST_NO_SESSIONS :: u16 where "BBP_TPM2_ST_NO_SESSIONS = 0x8001"
definition BBP_TPM2_SHA256_BYTES :: nat where "BBP_TPM2_SHA256_BYTES = 32"
definition BBP_TPM2_MAX_PCR :: u32 where "BBP_TPM2_MAX_PCR = 23"

lemmas tcg2_consts = BBP_TPM2_ALG_SHA256_def BBP_TPM2_PCR_READ_COMMAND_def BBP_TPM2_ST_NO_SESSIONS_def
  BBP_TPM2_SHA256_BYTES_def BBP_TPM2_MAX_PCR_def

datatype bbp_tcg2_wire_status =
    BBP_TCG2_WIRE_OK
  | BBP_TCG2_WIRE_ARGUMENT
  | BBP_TCG2_WIRE_CAPACITY
  | BBP_TCG2_WIRE_PCR
  | BBP_TCG2_WIRE_TRUNCATED
  | BBP_TCG2_WIRE_SIZE
  | BBP_TCG2_WIRE_TAG
  | BBP_TCG2_WIRE_RESPONSE_CODE
  | BBP_TCG2_WIRE_COUNT
  | BBP_TCG2_WIRE_ALGORITHM
  | BBP_TCG2_WIRE_SELECTION
  | BBP_TCG2_WIRE_DIGEST_SIZE
  | BBP_TCG2_WIRE_TRAILING

text \<open>\<open>(uint8_t)(1u << (pcr % 8u))\<close>.\<close>

definition pcr_bit :: "u32 \<Rightarrow> u8" where
  "pcr_bit pcr = push_bit (unat pcr mod 8) 1"

definition bbp_tcg2_build_pcr_read ::
  "u32 \<Rightarrow> u8 list option \<Rightarrow> u64 \<Rightarrow> u64 option \<Rightarrow> (bbp_tcg2_wire_status \<times> u8 list option \<times> u64 option) option" where
  "bbp_tcg2_build_pcr_read pcr_index output capacity output_bytes =
     (let command_bytes = 20 :: u64 in
      case (output, output_bytes) of
        (Some buf, Some _) \<Rightarrow>
          if pcr_index > BBP_TPM2_MAX_PCR then Some (BBP_TCG2_WIRE_PCR, output, output_bytes)
          else if capacity < command_bytes then Some (BBP_TCG2_WIRE_CAPACITY, output, output_bytes)
          else do {
            buf \<leftarrow> wr buf 0 (replicate 20 0);
            buf \<leftarrow> write_be16 buf 0 BBP_TPM2_ST_NO_SESSIONS;
            buf \<leftarrow> write_be32 buf 2 (ucast command_bytes);
            buf \<leftarrow> write_be32 buf 6 BBP_TPM2_PCR_READ_COMMAND;
            buf \<leftarrow> write_be32 buf 10 1;
            buf \<leftarrow> write_be16 buf 14 BBP_TPM2_ALG_SHA256;
            buf \<leftarrow> wr buf 16 [3];
            buf \<leftarrow> wr buf (17 + unat pcr_index div 8) [pcr_bit pcr_index];
            Some (BBP_TCG2_WIRE_OK, Some buf, Some command_bytes)
          }
      | _ \<Rightarrow> Some (BBP_TCG2_WIRE_ARGUMENT, output, output_bytes))"

text \<open>The comparison loop over the three selection bytes.\<close>

fun select_differs :: "u8 list \<Rightarrow> nat \<Rightarrow> u8 list \<Rightarrow> bool option" where
  "select_differs response d [] = Some False"
| "select_differs response d (x # xs) =
     do { y \<leftarrow> get8 response d; if y \<noteq> x then Some True else select_differs response (Suc d) xs }"

text \<open>The response parser up to publication: the candidate digest and counter.\<close>

definition parse_candidate ::
  "u8 list \<Rightarrow> u64 \<Rightarrow> u32 \<Rightarrow> (bbp_tcg2_wire_status + u8 list \<times> u32) option" where
  "parse_candidate response response_bytes expected_pcr =
     (if response_bytes < 10 then Some (Inl BBP_TCG2_WIRE_TRUNCATED)
      else do {
        declared \<leftarrow> read_be32 response 2;
        if ucast declared \<noteq> response_bytes then Some (Inl BBP_TCG2_WIRE_SIZE)
        else do {
        tag \<leftarrow> read_be16 response 0;
        if tag \<noteq> BBP_TPM2_ST_NO_SESSIONS then Some (Inl BBP_TCG2_WIRE_TAG)
        else do {
        code \<leftarrow> read_be32 response 6;
        if code \<noteq> 0 then Some (Inl BBP_TCG2_WIRE_RESPONSE_CODE)
        else if response_bytes - 10 < 8 then Some (Inl BBP_TCG2_WIRE_TRUNCATED)
        else do {
        candidate_counter \<leftarrow> read_be32 response 10;
        count \<leftarrow> read_be32 response 14;
        if count \<noteq> 1 then Some (Inl BBP_TCG2_WIRE_COUNT)
        else if response_bytes - 18 < 3 then Some (Inl BBP_TCG2_WIRE_TRUNCATED)
        else do {
        alg \<leftarrow> read_be16 response 18;
        if alg \<noteq> BBP_TPM2_ALG_SHA256 then Some (Inl BBP_TCG2_WIRE_ALGORITHM)
        else do {
        sel \<leftarrow> get8 response 20;
        if sel \<noteq> 3 then Some (Inl BBP_TCG2_WIRE_SELECTION)
        else if response_bytes - 21 < 3 then Some (Inl BBP_TCG2_WIRE_TRUNCATED)
        else do {
        differs \<leftarrow> select_differs response 21 ([0, 0, 0] [unat expected_pcr div 8 := pcr_bit expected_pcr]);
        if differs then Some (Inl BBP_TCG2_WIRE_SELECTION)
        else if response_bytes - 24 < 6 then Some (Inl BBP_TCG2_WIRE_TRUNCATED)
        else do {
        count \<leftarrow> read_be32 response 24;
        if count \<noteq> 1 then Some (Inl BBP_TCG2_WIRE_COUNT)
        else do {
        size \<leftarrow> read_be16 response 28;
        if size \<noteq> of_nat BBP_TPM2_SHA256_BYTES then Some (Inl BBP_TCG2_WIRE_DIGEST_SIZE)
        else if response_bytes - 30 < of_nat BBP_TPM2_SHA256_BYTES then Some (Inl BBP_TCG2_WIRE_TRUNCATED)
        else do {
        candidate_digest \<leftarrow> rd response 30 BBP_TPM2_SHA256_BYTES;
        if 30 + of_nat BBP_TPM2_SHA256_BYTES \<noteq> response_bytes then Some (Inl BBP_TCG2_WIRE_TRAILING)
        else Some (Inr (candidate_digest, candidate_counter))
        }}}}}}}}}})"

definition bbp_tcg2_parse_pcr_read_response ::
  "u8 list option \<Rightarrow> u64 \<Rightarrow> u32 \<Rightarrow> u8 list option \<Rightarrow> u32 option \<Rightarrow>
   (bbp_tcg2_wire_status \<times> u8 list option \<times> u32 option) option" where
  "bbp_tcg2_parse_pcr_read_response response response_bytes expected_pcr digest update_counter =
     (case (response, digest, update_counter) of
        (Some r, Some dst, Some _) \<Rightarrow>
          if expected_pcr > BBP_TPM2_MAX_PCR then Some (BBP_TCG2_WIRE_PCR, digest, update_counter)
          else do {
            c \<leftarrow> parse_candidate r response_bytes expected_pcr;
            case c of
              Inl e \<Rightarrow> Some (e, digest, update_counter)
            | Inr (candidate_digest, candidate_counter) \<Rightarrow> do {
                dst \<leftarrow> bytes_copy dst 0 candidate_digest BBP_TPM2_SHA256_BYTES;
                Some (BBP_TCG2_WIRE_OK, Some dst, Some candidate_counter)
              }
          }
      | _ \<Rightarrow> Some (BBP_TCG2_WIRE_ARGUMENT, digest, update_counter))"

fun bbp_tcg2_wire_strstatus :: "bbp_tcg2_wire_status \<Rightarrow> string" where
  "bbp_tcg2_wire_strstatus BBP_TCG2_WIRE_OK = ''ok''"
| "bbp_tcg2_wire_strstatus BBP_TCG2_WIRE_ARGUMENT = ''invalid argument''"
| "bbp_tcg2_wire_strstatus BBP_TCG2_WIRE_CAPACITY = ''insufficient capacity''"
| "bbp_tcg2_wire_strstatus BBP_TCG2_WIRE_PCR = ''invalid PCR''"
| "bbp_tcg2_wire_strstatus BBP_TCG2_WIRE_TRUNCATED = ''truncated response''"
| "bbp_tcg2_wire_strstatus BBP_TCG2_WIRE_SIZE = ''response size mismatch''"
| "bbp_tcg2_wire_strstatus BBP_TCG2_WIRE_TAG = ''unexpected response tag''"
| "bbp_tcg2_wire_strstatus BBP_TCG2_WIRE_RESPONSE_CODE = ''TPM response error''"
| "bbp_tcg2_wire_strstatus BBP_TCG2_WIRE_COUNT = ''unexpected list count''"
| "bbp_tcg2_wire_strstatus BBP_TCG2_WIRE_ALGORITHM = ''unexpected algorithm''"
| "bbp_tcg2_wire_strstatus BBP_TCG2_WIRE_SELECTION = ''unexpected PCR selection''"
| "bbp_tcg2_wire_strstatus BBP_TCG2_WIRE_DIGEST_SIZE = ''unexpected digest size''"
| "bbp_tcg2_wire_strstatus BBP_TCG2_WIRE_TRAILING = ''trailing response bytes''"

section \<open>The wire format\<close>

definition pcr_select :: "u32 \<Rightarrow> u8 list" where
  "pcr_select pcr = [0, 0, 0] [unat pcr div 8 := pcr_bit pcr]"

definition pcr_read_command :: "u32 \<Rightarrow> u8 list" where
  "pcr_read_command pcr = be16_bytes BBP_TPM2_ST_NO_SESSIONS @ be32_bytes 20 @ be32_bytes BBP_TPM2_PCR_READ_COMMAND @
     be32_bytes 1 @ be16_bytes BBP_TPM2_ALG_SHA256 @ [3] @ pcr_select pcr"

definition pcr_read_response :: "u32 \<Rightarrow> u32 \<Rightarrow> u8 list \<Rightarrow> u8 list" where
  "pcr_read_response pcr counter digest =
     be16_bytes BBP_TPM2_ST_NO_SESSIONS @ be32_bytes 62 @ be32_bytes 0 @ be32_bytes counter @ be32_bytes 1 @
     be16_bytes BBP_TPM2_ALG_SHA256 @ [3] @ pcr_select pcr @ be32_bytes 1 @ be16_bytes 32 @ digest"

abbreviation be16_at :: "u8 list \<Rightarrow> nat \<Rightarrow> u16" where "be16_at p d \<equiv> get_le (rev (slice p d 2))"
abbreviation be32_at :: "u8 list \<Rightarrow> nat \<Rightarrow> u32" where "be32_at p d \<equiv> get_le (rev (slice p d 4))"

lemma be_bytes_rev: "be32_bytes v = rev (put_le 4 v)" "be16_bytes w = rev (put_le 2 w)"
proof -
  have four: "[0..<4] = [0, 1, 2, 3 :: nat]" and two: "[0..<2] = [0, 1 :: nat]" by (simp_all add: upt_rec)
  show "be32_bytes v = rev (put_le 4 v)" "be16_bytes w = rev (put_le 2 w)"
    by (simp_all add: be32_bytes_def be16_bytes_def put_le_def four two)
qed

lemma be_bytes_eq:
  "length ps = 4 \<Longrightarrow> ps = be32_bytes v \<longleftrightarrow> get_le (rev ps) = v"
  "length qs = 2 \<Longrightarrow> qs = be16_bytes w \<longleftrightarrow> get_le (rev qs) = w"
  unfolding be_bytes_rev
  using put_get_le_32 [of "rev ps"] put_get_le_16 [of "rev qs"]
  by (auto simp: rev_swap get_put_le)

lemma length_be [simp]: "length (be32_bytes v) = 4" "length (be16_bytes w) = 2"
  by (simp_all add: be32_bytes_def be16_bytes_def)

lemma length_select [simp]: "length (pcr_select pcr) = 3"
  by (simp add: pcr_select_def split: nat.split)

lemma select_differs_eq:
  "d + length xs \<le> length p \<Longrightarrow> select_differs p d xs = Some (slice p d (length xs) \<noteq> xs)"
proof (induction xs arbitrary: d)
  case (Cons x xs)
  then have "slice p d (length (x # xs)) = p ! d # slice p (Suc d) (length xs)"
    by (simp add: slice_def Cons_nth_drop_Suc [symmetric])
  with Cons show ?case by (simp add: get8_def)
qed (simp add: slice_def)

lemma sub_less:
  fixes n k j :: u64
  assumes "unat k \<le> unat n"
  shows "n - k < j \<longleftrightarrow> unat n < unat k + unat j"
  using assms by (auto simp: word_less_nat_alt unat_diff_u64 word_le_nat_alt)

text \<open>The parser reads only inside the response and decides on its fields.\<close>

lemma parse_candidate_eq:
  assumes len: "unat n \<le> length p"
  shows "parse_candidate p n pcr = Some (
    if unat n < 10 then Inl BBP_TCG2_WIRE_TRUNCATED
    else if ucast (be32_at p 2) \<noteq> n then Inl BBP_TCG2_WIRE_SIZE
    else if be16_at p 0 \<noteq> BBP_TPM2_ST_NO_SESSIONS then Inl BBP_TCG2_WIRE_TAG
    else if be32_at p 6 \<noteq> 0 then Inl BBP_TCG2_WIRE_RESPONSE_CODE
    else if unat n < 18 then Inl BBP_TCG2_WIRE_TRUNCATED
    else if be32_at p 14 \<noteq> 1 then Inl BBP_TCG2_WIRE_COUNT
    else if unat n < 21 then Inl BBP_TCG2_WIRE_TRUNCATED
    else if be16_at p 18 \<noteq> BBP_TPM2_ALG_SHA256 then Inl BBP_TCG2_WIRE_ALGORITHM
    else if p ! 20 \<noteq> 3 then Inl BBP_TCG2_WIRE_SELECTION
    else if unat n < 24 then Inl BBP_TCG2_WIRE_TRUNCATED
    else if slice p 21 3 \<noteq> pcr_select pcr then Inl BBP_TCG2_WIRE_SELECTION
    else if unat n < 30 then Inl BBP_TCG2_WIRE_TRUNCATED
    else if be32_at p 24 \<noteq> 1 then Inl BBP_TCG2_WIRE_COUNT
    else if be16_at p 28 \<noteq> 32 then Inl BBP_TCG2_WIRE_DIGEST_SIZE
    else if unat n < 62 then Inl BBP_TCG2_WIRE_TRUNCATED
    else if unat n \<noteq> 62 then Inl BBP_TCG2_WIRE_TRAILING
    else Inr (slice p 30 32, be32_at p 10))"
proof -
  have t: "10 \<le> unat n \<Longrightarrow> (n - 10 < 8) = (unat n < 18)" "18 \<le> unat n \<Longrightarrow> (n - 18 < 3) = (unat n < 21)"
    "21 \<le> unat n \<Longrightarrow> (n - 21 < 3) = (unat n < 24)" "24 \<le> unat n \<Longrightarrow> (n - 24 < 6) = (unat n < 30)"
    "30 \<le> unat n \<Longrightarrow> (n - 30 < 32) = (unat n < 62)"
    using sub_less [of 10 n 8] sub_less [of 18 n 3] sub_less [of 21 n 3] sub_less [of 24 n 6] sub_less [of 30 n 32]
    by simp_all
  have first: "n < 10 \<longleftrightarrow> unat n < 10" and all: "62 = n \<longleftrightarrow> unat n = 62" "n = 62 \<longleftrightarrow> unat n = 62"
    by (auto simp: word_less_nat_alt word_unat_eq_iff)
  have sel: "select_differs p 21 ([0, 0, 0] [unat pcr div 8 := pcr_bit pcr]) = Some (slice p 21 3 \<noteq> pcr_select pcr)"
    if "24 \<le> unat n"
    using select_differs_eq [of 21 "pcr_select pcr" p] that len unfolding pcr_select_def [symmetric] by simp
  have g: "20 < unat n \<Longrightarrow> get8 p 20 = Some (p ! 20)" "62 \<le> unat n \<Longrightarrow> rd p 30 32 = Some (slice p 30 32)"
    using len by (simp_all add: get8_def rd_def slice_def)
  note r32 = be_bytes(1) [OF le_trans [OF _ len]] and r16 = be_bytes(2) [OF le_trans [OF _ len]]
  show ?thesis
    unfolding parse_candidate_def BBP_TPM2_SHA256_BYTES_def first
    by (simp add: r32 r16 t g sel all not_less cong: if_cong del: list_update.simps)
qed

section \<open>Properties\<close>

lemma response_length: "length dg = 32 \<Longrightarrow> length (pcr_read_response pcr ctr dg) = 62"
  by (simp add: pcr_read_response_def)

lemma response_fields:
  assumes n: "unat n = 62" "62 \<le> length p" and dg: "length dg = 32"
  shows "take 62 p = pcr_read_response pcr ctr dg \<longleftrightarrow>
    be16_at p 0 = BBP_TPM2_ST_NO_SESSIONS \<and> be32_at p 2 = 62 \<and> be32_at p 6 = 0 \<and> be32_at p 10 = ctr \<and>
    be32_at p 14 = 1 \<and> be16_at p 18 = BBP_TPM2_ALG_SHA256 \<and> p ! 20 = 3 \<and> slice p 21 3 = pcr_select pcr \<and>
    be32_at p 24 = 1 \<and> be16_at p 28 = 32 \<and> slice p 30 32 = dg"
proof -
  have l: "d + k \<le> 62 \<Longrightarrow> length (slice p d k) = k" for d k using n by (simp add: length_slice)
  have "take 62 p = Bbp_Prelude.fields p 0 0 [2, 4, 4, 4, 4, 2, 1, 3, 4, 2, 32]"
    using slice_fields [of p 0 0 "[2, 4, 4, 4, 4, 2, 1, 3, 4, 2, 32]"] by (simp add: slice_def)
  moreover have "slice p 20 1 = [p ! 20]" using n by (simp add: slice_def take_Suc_conv_app_nth [of 0, simplified])
  ultimately show ?thesis using dg
    by (simp add: pcr_read_response_def l be_bytes_eq numeral_2_eq_2)
qed

text \<open>C38. The response parser is exact: it never reads outside the response, and it reports a digest and a
  counter precisely when the response bytes are the encoding of a successful PCR read response for the
  expected PCR with that counter and digest, nothing more and nothing less.\<close>

theorem pcr_response_exact:
  assumes "unat n \<le> length p" "pcr \<le> 23" "length dst = 32" "length dg = 32"
  shows "bbp_tcg2_parse_pcr_read_response (Some p) n pcr (Some dst) (Some c0) = Some (BBP_TCG2_WIRE_OK, Some dg, Some ctr)
    \<longleftrightarrow> take (unat n) p = pcr_read_response pcr ctr dg"
proof -
  have sz: "ucast (be32_at p 2) = n \<longleftrightarrow> be32_at p 2 = 62" if "unat n = 62"
  proof -
    have "n = ucast (62 :: u32)" using that by (simp add: word_unat_eq_iff)
    then show ?thesis by (simp only: ucast_u32_eq_iff)
  qed
  have resp: "take (unat n) p = pcr_read_response pcr ctr dg \<longleftrightarrow> unat n = 62 \<and> take 62 p = pcr_read_response pcr ctr dg"
    using response_length [of dg pcr ctr] assms length_take [of "unat n" p] by (metis min_absorb2)
  have pub: "bytes_copy dst 0 q 32 = Some q" if "length q = 32" for q
    using that assms by (simp add: bytes_copy_def rd_def wr_def)
  show ?thesis
  proof (cases "unat n = 62")
    case False
    then show ?thesis using resp assms
      by (auto simp: bbp_tcg2_parse_pcr_read_response_def parse_candidate_eq tcg2_consts split: if_splits)
  next
    case True
    then have "length (slice p 30 32) = 32" using assms by (simp add: length_slice)
    with True response_fields [OF True _ assms(4), of p pcr ctr] sz [OF True] pub assms show ?thesis
      by (auto simp: bbp_tcg2_parse_pcr_read_response_def parse_candidate_eq BBP_TPM2_MAX_PCR_def
          BBP_TPM2_SHA256_BYTES_def split: if_splits)
  qed
qed

theorem pcr_response_exact_witness:
  "bbp_tcg2_parse_pcr_read_response (Some (pcr_read_response 8 5 (replicate 32 1))) 62 8 (Some (replicate 32 0)) (Some 0) =
     Some (BBP_TCG2_WIRE_OK, Some (replicate 32 1), Some 5)"
  using pcr_response_exact [of 62 "pcr_read_response 8 5 (replicate 32 1)" 8 "replicate 32 0" "replicate 32 1" 0 5]
    response_length [of "replicate 32 1" 8 5] by simp

text \<open>The command builder is exact on every branch: an unknown PCR and a short buffer are refused with the
  caller's objects unchanged, otherwise the buffer starts with the 20 bytes of the PCR read command for
  that PCR and keeps its other bytes.\<close>

theorem pcr_read_command_exact:
  assumes "unat capacity \<le> length buf"
  shows "bbp_tcg2_build_pcr_read pcr (Some buf) capacity (Some w) = Some (
    if unat pcr > 23 then (BBP_TCG2_WIRE_PCR, Some buf, Some w)
    else if unat capacity < 20 then (BBP_TCG2_WIRE_CAPACITY, Some buf, Some w)
    else (BBP_TCG2_WIRE_OK, Some (pcr_read_command pcr @ drop 20 buf), Some 20))"
proof (cases "unat pcr > 23 \<or> unat capacity < 20")
  case True
  then show ?thesis by (auto simp: bbp_tcg2_build_pcr_read_def word_less_nat_alt BBP_TPM2_MAX_PCR_def)
next
  case False
  then have pcr: "unat pcr div 8 = 0 \<or> unat pcr div 8 = 1 \<or> unat pcr div 8 = 2" by linarith
  have r: "replicate 20 0 = [0, 0, 0, 0, 0, 0, 0, 0, 0, 0, 0, 0, 0, 0, 0, 0, 0, 0, 0, 0 :: u8]"
    by (simp add: numeral_eq_Suc)
  have "wr buf 0 (replicate 20 0) = Some (replicate 20 0 @ drop 20 buf)"
    using False assms by (simp add: wr_def)
  then have z: "wr buf 0 (replicate 20 0) =
      Some ([0, 0, 0, 0, 0, 0, 0, 0, 0, 0, 0, 0, 0, 0, 0, 0, 0, 0, 0, 0] @ drop 20 buf)"
    unfolding r .
  note wrc = wr_def [of "x # xs" for x xs]
  show ?thesis
    using False pcr
    by (auto simp: bbp_tcg2_build_pcr_read_def word_less_nat_alt BBP_TPM2_MAX_PCR_def z write_be16_def write_be32_def
        wrc be16_bytes_def be32_bytes_def pcr_read_command_def pcr_select_def simp del: replicate.simps)
qed

theorem pcr_read_command_exact_witness:
  "bbp_tcg2_build_pcr_read 9 (Some (replicate 24 7)) 24 (Some 0) =
     Some (BBP_TCG2_WIRE_OK, Some (pcr_read_command 9 @ replicate 4 7), Some 20)"
  using pcr_read_command_exact [of 24 "replicate 24 7" 9 0] by simp

end
