(* ===== verification/Security.thy ===== *)
theory Security
  imports Build_Script
begin

text \<open>
  The measurement collector of \<open>experimental/firmware/uefi/bbp_security_collector.c\<close>: it validates its
  inputs and plans the arena, extends the TPM once per source, and only then publishes the measurement
  log and the SECURITY tag. Extending a PCR cannot be undone, so after the first extension every failure
  must end in the abort hook.

  The builder's arena, the sources' data and names and the collector's own \<open>records\<close> array are bytes of
  memory; the array's address is an argument, since the array is handed to the arena allocator. The
  other locals are values. The callbacks act on a world of type \<open>'w\<close>.
\<close>

section \<open>Types\<close>

definition BBP_SECURITY_MAX_MEASUREMENTS :: u32 where "BBP_SECURITY_MAX_MEASUREMENTS = 32"
definition BBP_SECURITY_SHA256_BYTES :: u32 where "BBP_SECURITY_SHA256_BYTES = 32"
definition BBP_SECURITY_MAX_INPUT_BYTES :: u64 where "BBP_SECURITY_MAX_INPUT_BYTES = 64 * 1024 * 1024"
definition BBP_SECURITY_MAX_PCR :: u32 where "BBP_SECURITY_MAX_PCR = 23"
definition BBP_SECURITY_TAG_VERSION :: u16 where "BBP_SECURITY_TAG_VERSION = 1"
definition BBP_SECURITY_MAX_PHYS :: u64 where "BBP_SECURITY_MAX_PHYS = push_bit 48 1"
definition BBP_SECURITY_MAX_TAGS :: u32 where "BBP_SECURITY_MAX_TAGS = 1024"
definition BBP_SECURITY_MAX_ARENA :: u64 where
  "BBP_SECURITY_MAX_ARENA = 64 * 1024 * 1024 - sizeof struct_bbp_info"
definition BBP_SECURITY_ROLLBACK_BYTES :: u64 where
  "BBP_SECURITY_ROLLBACK_BYTES =
     ucast BBP_SECURITY_MAX_MEASUREMENTS * sizeof struct_bbp_measurement + sizeof struct_bbp_tag_security + 14"
definition BBP_HASH_SHA256 :: u32 where "BBP_HASH_SHA256 = 1"

lemmas security_consts = BBP_SECURITY_MAX_MEASUREMENTS_def BBP_SECURITY_SHA256_BYTES_def
  BBP_SECURITY_MAX_INPUT_BYTES_def BBP_SECURITY_MAX_PCR_def BBP_SECURITY_TAG_VERSION_def BBP_SECURITY_MAX_PHYS_def
  BBP_SECURITY_MAX_TAGS_def BBP_SECURITY_MAX_ARENA_def BBP_SECURITY_ROLLBACK_BYTES_def BBP_HASH_SHA256_def

datatype bbp_security_status =
    BBP_SECURITY_OK
  | BBP_SECURITY_ERR_ARGUMENT
  | BBP_SECURITY_ERR_COUNT
  | BBP_SECURITY_ERR_PCR
  | BBP_SECURITY_ERR_ALGORITHM
  | BBP_SECURITY_ERR_HASH_LENGTH
  | BBP_SECURITY_ERR_NAME
  | BBP_SECURITY_ERR_RANGE
  | BBP_SECURITY_ERR_BUILDER
  | BBP_SECURITY_ERR_CAPACITY
  | BBP_SECURITY_ERR_TPM
  | BBP_SECURITY_ERR_PUBLISH_AFTER_TPM
  | BBP_SECURITY_ERR_ABORT_RETURNED

record bbp_security_source =
  ss_pcr_index :: u32
  ss_algorithm :: u32
  ss_hash_length :: u32
  ss_reserved :: u32
  ss_data :: u64
  ss_data_length :: u64
  ss_component_name :: u64
  ss_component_name_length :: u64

text \<open>The layout of the source array on the 64-bit targets: four words and four pointers or sizes.\<close>

definition sizeof_source :: u64 where "sizeof_source = 48"

record bbp_secure_boot_info =
  sb_mode :: u8
  sb_signature_verified :: u8
  sb_pk_present :: u8
  sb_kek_present :: u8
  sb_db_present :: u8
  sb_dbx_present :: u8
  sb_reserved :: u16

record bbp_security_platform =
  sp_tpm_base_address :: u64
  sp_tpm_version :: u16
  sp_tpm_interface :: u16
  sp_tpm_flags :: u32
  sp_secure_boot :: bbp_secure_boot_info

datatype bbp_security_arena_object = BBP_SECURITY_ARENA_MEASUREMENTS | BBP_SECURITY_ARENA_TAG

text \<open>The hash callback reads the data from memory and fills the 32 digest bytes. The allocator returns
  the pointer and the physical address with the memory and the builder it leaves; it may fault.\<close>

type_synonym 'w bbp_security_hash_extend_fn =
  "'w \<Rightarrow> mem \<Rightarrow> u32 \<Rightarrow> u32 \<Rightarrow> u64 \<Rightarrow> u64 \<Rightarrow> (int \<times> u8 list) \<times> 'w"
type_synonym 'w bbp_security_arena_allocate_fn =
  "'w \<Rightarrow> mem \<Rightarrow> bbp_builder \<Rightarrow> bbp_security_arena_object \<Rightarrow> u64 \<Rightarrow> u64 \<Rightarrow> (u64 \<times> u64 \<times> mem \<times> bbp_builder \<times> 'w) option"
type_synonym 'w bbp_security_abort_fn = "'w \<Rightarrow> bbp_security_status \<Rightarrow> 'w"

record 'w bbp_security_callbacks =
  cb_hash_extend :: "'w bbp_security_hash_extend_fn option"
  cb_arena_allocate :: "'w bbp_security_arena_allocate_fn option"
  cb_abort :: "'w bbp_security_abort_fn option"

record bbp_security_plan =
  pl_blob_start :: u64
  pl_blob_end :: u64
  pl_tag_start :: u64
  pl_tag_end :: u64
  pl_log_bytes :: u64

section \<open>Helpers and validation\<close>

fun security_memzero :: "mem \<Rightarrow> u64 \<Rightarrow> nat \<Rightarrow> mem option" where
  "security_memzero m d 0 = Some m"
| "security_memzero m d (Suc n) = do { m \<leftarrow> store m d [0]; security_memzero m (d + 1) n }"

fun security_memcpy :: "mem \<Rightarrow> u64 \<Rightarrow> u64 \<Rightarrow> nat \<Rightarrow> mem option" where
  "security_memcpy m d s 0 = Some m"
| "security_memcpy m d s (Suc n) =
     do { v \<leftarrow> m s; m \<leftarrow> store m d [v]; security_memcpy m (d + 1) (s + 1) n }"

fun security_memequal :: "mem \<Rightarrow> u64 \<Rightarrow> u64 \<Rightarrow> nat \<Rightarrow> bool option" where
  "security_memequal m a b 0 = Some True"
| "security_memequal m a b (Suc n) =
     do { x \<leftarrow> m a; y \<leftarrow> m b; if x \<noteq> y then Some False else security_memequal m (a + 1) (b + 1) n }"

definition security_align8 :: "u64 \<Rightarrow> u64 option" where
  "security_align8 value = (if value > - 1 - 7 then None else Some ((value + 7) AND NOT 7))"

definition pointer_span_valid :: "u64 \<Rightarrow> u64 \<Rightarrow> bool" where
  "pointer_span_valid pointer bytes \<longleftrightarrow> pointer \<noteq> 0 \<and> bytes \<noteq> 0 \<and> bytes \<le> - 1 - pointer"

definition spans_overlap :: "u64 \<Rightarrow> u64 \<Rightarrow> u64 \<Rightarrow> u64 \<Rightarrow> bool" where
  "spans_overlap a left_bytes b right_bytes \<longleftrightarrow>
     (if \<not> pointer_span_valid a left_bytes \<or> \<not> pointer_span_valid b right_bytes then True
      else a < b + right_bytes \<and> b < a + left_bytes)"

text \<open>The checks on an existing chain, as the importers make them.\<close>

definition security_chain_bad :: "mem \<Rightarrow> bbp_builder \<Rightarrow> bool option" where
  "security_chain_bad m b =
     (if b_tag_count b = 0 then Some (b_last b \<noteq> 0 \<or> b_first_phys b \<noteq> 0)
      else if b_last b = 0 \<or> b_first_phys b = 0 \<or> b_first_phys b AND 7 \<noteq> 0
        \<or> b_first_phys b < b_arena_phys b
        \<or> b_first_phys b - b_arena_phys b \<ge> b_used b
        \<or> b_last b < b_arena b \<or> b_last b AND 7 \<noteq> 0
        \<or> b_last b - b_arena b > b_used b
        \<or> sizeof struct_bbp_tag_header > b_used b - (b_last b - b_arena b)
      then Some True
      else do { nx \<leftarrow> ld64 m (b_last b + off struct_bbp_tag_header ''next_tag''); Some (nx \<noteq> 0) })"

text \<open>The layout part: where the log and the tag will be, or the error.\<close>

definition security_layout :: "bbp_builder \<Rightarrow> u32 \<Rightarrow> bbp_security_status + bbp_security_plan" where
  "security_layout b measurement_count =
     (let log_bytes = ucast measurement_count * sizeof struct_bbp_measurement in
      case security_align8 (b_used b) of
        None \<Rightarrow> Inl BBP_SECURITY_ERR_RANGE
      | Some blob_start \<Rightarrow>
          if log_bytes > - 1 - blob_start then Inl BBP_SECURITY_ERR_RANGE
          else let blob_end = blob_start + log_bytes in
            case security_align8 blob_end of
              None \<Rightarrow> Inl BBP_SECURITY_ERR_RANGE
            | Some tag_start \<Rightarrow>
                if sizeof struct_bbp_tag_security > - 1 - tag_start then Inl BBP_SECURITY_ERR_RANGE
                else let fin = tag_start + sizeof struct_bbp_tag_security in
                  if fin > b_capacity b \<or> fin > BBP_SECURITY_MAX_ARENA then Inl BBP_SECURITY_ERR_CAPACITY
                  else if fin > BBP_SECURITY_MAX_PHYS - b_arena_phys b then Inl BBP_SECURITY_ERR_RANGE
                  else if fin - blob_start > BBP_SECURITY_ROLLBACK_BYTES then Inl BBP_SECURITY_ERR_RANGE
                  else Inr \<lparr>pl_blob_start = blob_start, pl_blob_end = blob_end, pl_tag_start = tag_start,
                            pl_tag_end = fin, pl_log_bytes = log_bytes\<rparr>)"

definition validate_builder :: "mem \<Rightarrow> bbp_builder option \<Rightarrow> u32 \<Rightarrow> (bbp_security_status + bbp_security_plan) option" where
  "validate_builder m builder measurement_count =
     (case builder of
        None \<Rightarrow> Some (Inl BBP_SECURITY_ERR_ARGUMENT)
      | Some b \<Rightarrow>
          if b_arena b = 0 \<or> b_overflow b \<or> b_used b > b_capacity b
            \<or> b_used b > BBP_SECURITY_MAX_ARENA \<or> b_tag_count b > BBP_SECURITY_MAX_TAGS
            \<or> b_arena_phys b = 0 \<or> b_arena_phys b AND 7 \<noteq> 0 \<or> b_arena b AND 7 \<noteq> 0
            \<or> b_capacity b > - 1 - b_arena b
            \<or> b_arena_phys b \<ge> BBP_SECURITY_MAX_PHYS
            \<or> b_capacity b > BBP_SECURITY_MAX_PHYS - b_arena_phys b
          then Some (Inl BBP_SECURITY_ERR_BUILDER)
          else do {
            bad \<leftarrow> security_chain_bad m b;
            if bad then Some (Inl BBP_SECURITY_ERR_BUILDER)
            else if b_tag_count b \<ge> BBP_SECURITY_MAX_TAGS then Some (Inl BBP_SECURITY_ERR_CAPACITY)
            else Some (security_layout b measurement_count)
          })"

definition validate_platform :: "bbp_security_platform option \<Rightarrow> bbp_security_status" where
  "validate_platform platform =
     (case platform of
        None \<Rightarrow> BBP_SECURITY_ERR_ARGUMENT
      | Some p \<Rightarrow>
          let known_flags = (BBP_TPM_FLAG_ACTIVE OR BBP_TPM_FLAG_SUPPORTS_SHA384) OR BBP_TPM_FLAG_SUPPORTS_SHA512;
              secure = sp_secure_boot p in
          if sp_tpm_version p \<noteq> 0x0200 \<or> sp_tpm_interface p > 3
            \<or> sp_tpm_flags p AND BBP_TPM_FLAG_ACTIVE = 0
            \<or> sp_tpm_flags p AND NOT known_flags \<noteq> 0
            \<or> sp_tpm_base_address p \<ge> BBP_SECURITY_MAX_PHYS then BBP_SECURITY_ERR_RANGE
          else if sb_mode secure > 2 \<or> sb_signature_verified secure > 1
            \<or> sb_pk_present secure > 1 \<or> sb_kek_present secure > 1
            \<or> sb_db_present secure > 1 \<or> sb_dbx_present secure > 1
            \<or> sb_reserved secure \<noteq> 0 then BBP_SECURITY_ERR_RANGE
          else BBP_SECURITY_OK)"

fun name_has_nul :: "mem \<Rightarrow> u64 \<Rightarrow> nat \<Rightarrow> bool option" where
  "name_has_nul m p 0 = Some False"
| "name_has_nul m p (Suc n) = do { c \<leftarrow> m p; if c = 0 then Some True else name_has_nul m (p + 1) n }"

definition validate_source :: "mem \<Rightarrow> bbp_security_source \<Rightarrow> bbp_security_status option" where
  "validate_source m s =
     (if ss_reserved s \<noteq> 0 then Some BBP_SECURITY_ERR_RANGE
      else if ss_pcr_index s > BBP_SECURITY_MAX_PCR then Some BBP_SECURITY_ERR_PCR
      else if ss_algorithm s \<noteq> BBP_HASH_SHA256 then Some BBP_SECURITY_ERR_ALGORITHM
      else if ss_hash_length s \<noteq> BBP_SECURITY_SHA256_BYTES then Some BBP_SECURITY_ERR_HASH_LENGTH
      else if ss_data_length s = 0 \<or> ss_data_length s > BBP_SECURITY_MAX_INPUT_BYTES
        \<or> \<not> pointer_span_valid (ss_data s) (ss_data_length s) then Some BBP_SECURITY_ERR_RANGE
      else if ss_component_name_length s = 0 \<or> ss_component_name_length s \<ge> 64
        \<or> \<not> pointer_span_valid (ss_component_name s) (ss_component_name_length s) then Some BBP_SECURITY_ERR_NAME
      else do {
        nul \<leftarrow> name_has_nul m (ss_component_name s) (unat (ss_component_name_length s));
        Some (if nul then BBP_SECURITY_ERR_NAME else BBP_SECURITY_OK)
      })"

text \<open>The sources are an array; running past its end is a fault.\<close>

fun validate_source_list :: "mem \<Rightarrow> nat \<Rightarrow> bbp_security_source list \<Rightarrow> bbp_security_status option" where
  "validate_source_list m 0 ss = Some BBP_SECURITY_OK"
| "validate_source_list m (Suc n) [] = None"
| "validate_source_list m (Suc n) (s # ss) =
     do { st \<leftarrow> validate_source m s; if st \<noteq> BBP_SECURITY_OK then Some st else validate_source_list m n ss }"

definition validate_sources :: "mem \<Rightarrow> u64 \<Rightarrow> bbp_security_source list \<Rightarrow> u32 \<Rightarrow> bbp_security_status option" where
  "validate_sources m sources srcs measurement_count =
     (if measurement_count = 0 \<or> measurement_count > BBP_SECURITY_MAX_MEASUREMENTS then Some BBP_SECURITY_ERR_COUNT
      else if \<not> pointer_span_valid sources (ucast measurement_count * sizeof_source) then Some BBP_SECURITY_ERR_ARGUMENT
      else validate_source_list m (unat measurement_count) srcs)"

section \<open>Collection\<close>

definition rollback_publish ::
  "mem \<Rightarrow> bbp_builder \<Rightarrow> bbp_builder \<Rightarrow> u64 \<Rightarrow> u8 list \<Rightarrow> u64 \<Rightarrow> (mem \<times> bbp_builder) option" where
  "rollback_publish m b before backup_start backup old_last_next =
     do {
       m \<leftarrow> store m (b_arena b + backup_start) backup;
       m \<leftarrow> (if b_last before \<noteq> 0
             then st64 m (b_last before + off struct_bbp_tag_header ''next_tag'') old_last_next else Some m);
       Some (m, before)
     }"

definition abort_after_tpm :: "'w bbp_security_abort_fn \<Rightarrow> 'w \<Rightarrow> bbp_security_status \<Rightarrow> bbp_security_status \<times> 'w" where
  "abort_after_tpm ab w reason = (BBP_SECURITY_ERR_ABORT_RETURNED, ab w reason)"

text \<open>The adapter over the real arena: the pointer, the physical address, the memory and the builder.\<close>

definition bbp_security_builder_allocate :: "'w bbp_security_arena_allocate_fn" where
  "bbp_security_builder_allocate w m b object source bytes =
     (case object of
        BBP_SECURITY_ARENA_MEASUREMENTS \<Rightarrow> do {
          (m, b', phys) \<leftarrow> bbp_arena_blob m (Some b) source bytes;
          b' \<leftarrow> b';
          if phys = 0 then Some (0, 0, m, b', w)
          else Some (b_arena b' + (phys - b_arena_phys b'), phys, m, b', w)
        }
      | BBP_SECURITY_ARENA_TAG \<Rightarrow>
          if source \<noteq> 0 \<or> bytes \<noteq> sizeof struct_bbp_tag_security then Some (0, 0, m, b, w)
          else do {
            (m, b', tag) \<leftarrow> bbp_alloc_tag m (Some b) BBP_TAG_SECURITY BBP_SECURITY_TAG_VERSION bytes;
            b' \<leftarrow> b';
            if tag = 0 then Some (0, 0, m, b', w)
            else Some (tag, b_arena_phys b' + (tag - b_arena b'), m, b', w)
          })"

text \<open>Filling one record up to the call of the hash callback.\<close>

definition fill_record :: "mem \<Rightarrow> u64 \<Rightarrow> bbp_security_source \<Rightarrow> mem option" where
  "fill_record m r s =
     do {
       m \<leftarrow> st32 m (r + off struct_bbp_measurement ''pcr_index'') (ss_pcr_index s);
       m \<leftarrow> st32 m (r + off struct_bbp_measurement ''algorithm'') BBP_HASH_SHA256;
       m \<leftarrow> st32 m (r + off struct_bbp_measurement ''hash_length'') BBP_SECURITY_SHA256_BYTES;
       security_memcpy m (r + off struct_bbp_measurement ''component_name'') (ss_component_name s)
         (unat (ss_component_name_length s))
     }"

text \<open>The extension loop over the remaining sources, at index \<open>i\<close>: \<^term>\<open>Inl\<close> is an error return.\<close>

fun measure_loop ::
  "'w bbp_security_hash_extend_fn \<Rightarrow> 'w bbp_security_abort_fn \<Rightarrow> u64 \<Rightarrow> mem \<Rightarrow> 'w \<Rightarrow> nat \<Rightarrow> bbp_security_source list \<Rightarrow>
   ((bbp_security_status + unit) \<times> mem \<times> 'w) option" where
  "measure_loop he ab records m w i [] = Some (Inr (), m, w)"
| "measure_loop he ab records m w i (s # ss) =
     (let r = records + of_nat i * sizeof struct_bbp_measurement in
      do {
        m \<leftarrow> fill_record m r s;
        let ((rc, digest), w) = he w m (ss_pcr_index s) BBP_HASH_SHA256 (ss_data s) (ss_data_length s);
        m \<leftarrow> store m (r + off struct_bbp_measurement ''hash'') digest;
        if rc \<noteq> 0 then
          (if i \<noteq> 0 then
             (case abort_after_tpm ab w BBP_SECURITY_ERR_PUBLISH_AFTER_TPM of (st, w) \<Rightarrow> Some (Inl st, m, w))
           else Some (Inl BBP_SECURITY_ERR_TPM, m, w))
        else measure_loop he ab records m w (Suc i) ss
      })"

definition blob_refused ::
  "mem \<Rightarrow> bbp_builder \<Rightarrow> bbp_builder \<Rightarrow> bbp_security_plan \<Rightarrow> u64 \<Rightarrow> u64 \<Rightarrow> u64 \<Rightarrow> bool option" where
  "blob_refused m b before plan records blob blob_phys =
     (if blob = 0 \<or> blob \<noteq> b_arena b + pl_blob_start plan
        \<or> blob_phys \<noteq> b_arena_phys b + pl_blob_start plan
        \<or> b_used b \<noteq> pl_blob_end plan \<or> b_tag_count b \<noteq> b_tag_count before
        \<or> b_last b \<noteq> b_last before \<or> b_first_phys b \<noteq> b_first_phys before \<or> b_overflow b
      then Some True
      else map_option Not (security_memequal m blob records (unat (pl_log_bytes plan))))"

definition tag_refused ::
  "mem \<Rightarrow> bbp_builder \<Rightarrow> bbp_builder \<Rightarrow> bbp_security_plan \<Rightarrow> u64 \<Rightarrow> u64 \<Rightarrow> bool option" where
  "tag_refused m b before plan tag tag_phys =
     (if tag = 0 \<or> tag \<noteq> b_arena b + pl_tag_start plan
        \<or> tag_phys \<noteq> b_arena_phys b + pl_tag_start plan
        \<or> b_used b \<noteq> pl_tag_end plan \<or> b_tag_count b \<noteq> b_tag_count before + 1
        \<or> b_last b \<noteq> tag \<or> b_overflow b
      then Some True
      else do {
        i \<leftarrow> ld64 m (tag + off struct_bbp_tag_header ''tag_id'');
        if i \<noteq> BBP_TAG_SECURITY then Some True
        else do {
        sz \<leftarrow> ld32 m (tag + off struct_bbp_tag_header ''tag_size'');
        if ucast sz \<noteq> sizeof struct_bbp_tag_security then Some True
        else do {
        v \<leftarrow> ld16 m (tag + off struct_bbp_tag_header ''tag_version'');
        if v \<noteq> BBP_SECURITY_TAG_VERSION then Some True
        else do {
        nx \<leftarrow> ld64 m (tag + off struct_bbp_tag_header ''next_tag'');
        if nx \<noteq> 0 \<or> b_tag_count before = 0 \<and> b_first_phys b \<noteq> tag_phys then Some True
        else if b_tag_count before = 0 then Some False
        else if b_first_phys b \<noteq> b_first_phys before then Some True
        else do {
          ln \<leftarrow> ld64 m (b_last before + off struct_bbp_tag_header ''next_tag'');
          Some (ln \<noteq> tag_phys)
        }}}}})"

definition secure_boot_bytes :: "bbp_secure_boot_info \<Rightarrow> u8 list" where
  "secure_boot_bytes s = [sb_mode s, sb_signature_verified s, sb_pk_present s, sb_kek_present s, sb_db_present s,
     sb_dbx_present s] @ put_le 2 (sb_reserved s)"

definition fill_security_tag :: "mem \<Rightarrow> u64 \<Rightarrow> bbp_security_platform \<Rightarrow> u32 \<Rightarrow> u64 \<Rightarrow> u64 \<Rightarrow> mem option" where
  "fill_security_tag m tag p measurement_count blob_phys log_crc =
     do {
       m \<leftarrow> st64 m (tag + off struct_bbp_tag_security ''tpm_base_address'') (sp_tpm_base_address p);
       m \<leftarrow> st16 m (tag + off struct_bbp_tag_security ''tpm_version'') (sp_tpm_version p);
       m \<leftarrow> st16 m (tag + off struct_bbp_tag_security ''tpm_interface'') (sp_tpm_interface p);
       m \<leftarrow> st32 m (tag + off struct_bbp_tag_security ''tpm_flags'') (sp_tpm_flags p);
       m \<leftarrow> store m (tag + off struct_bbp_tag_security ''secure_boot'') (secure_boot_bytes (sp_secure_boot p));
       m \<leftarrow> st32 m (tag + off struct_bbp_tag_security ''measurement_count'') measurement_count;
       m \<leftarrow> st64 m (tag + off struct_bbp_tag_security ''measurements'') blob_phys;
       m \<leftarrow> st64 m (tag + off struct_bbp_tag_security ''measurements_crc'') log_crc;
       bbp_seal_tag m tag
     }"

text \<open>Publication after every extension has succeeded. The result is the status, the tag (0 unless it is
  stored through \<open>out_tag\<close>), the memory, the builder and the world.\<close>

definition security_publish ::
  "'w bbp_security_arena_allocate_fn \<Rightarrow> 'w bbp_security_abort_fn \<Rightarrow> u64 \<Rightarrow> mem \<Rightarrow> 'w \<Rightarrow> bbp_builder \<Rightarrow> bbp_security_plan \<Rightarrow>
   bbp_security_platform \<Rightarrow> u32 \<Rightarrow> u8 list \<Rightarrow> u64 \<Rightarrow> (bbp_security_status \<times> u64 \<times> mem \<times> bbp_builder \<times> 'w) option" where
  "security_publish al ab records m w before plan platform measurement_count rollback old_last_next =
     do {
       log \<leftarrow> load m records (unat (pl_log_bytes plan));
       let log_crc = bbp_crc64 log;
       if log_crc = 0 then
         (case abort_after_tpm ab w BBP_SECURITY_ERR_PUBLISH_AFTER_TPM of (st, w) \<Rightarrow> Some (st, 0, m, before, w))
       else do {
         (blob, blob_phys, m, b, w) \<leftarrow> al w m before BBP_SECURITY_ARENA_MEASUREMENTS records (pl_log_bytes plan);
         refused \<leftarrow> blob_refused m b before plan records blob blob_phys;
         if refused then do {
           (m, b) \<leftarrow> rollback_publish m b before (pl_blob_start plan) rollback old_last_next;
           (case abort_after_tpm ab w BBP_SECURITY_ERR_PUBLISH_AFTER_TPM of (st, w) \<Rightarrow> Some (st, 0, m, b, w))
         }
         else do {
           (tag, tag_phys, m, b, w) \<leftarrow> al w m b BBP_SECURITY_ARENA_TAG 0 (sizeof struct_bbp_tag_security);
           refused \<leftarrow> tag_refused m b before plan tag tag_phys;
           if refused then do {
             (m, b) \<leftarrow> rollback_publish m b before (pl_blob_start plan) rollback old_last_next;
             (case abort_after_tpm ab w BBP_SECURITY_ERR_PUBLISH_AFTER_TPM of (st, w) \<Rightarrow> Some (st, 0, m, b, w))
           }
           else do {
             m \<leftarrow> fill_security_tag m tag platform measurement_count blob_phys log_crc;
             Some (BBP_SECURITY_OK, tag, m, b, w)
           }
         }
       }
     }"

definition security_execute ::
  "'w bbp_security_hash_extend_fn \<Rightarrow> 'w bbp_security_arena_allocate_fn \<Rightarrow> 'w bbp_security_abort_fn \<Rightarrow> u64 \<Rightarrow> mem \<Rightarrow> 'w \<Rightarrow>
   bbp_builder \<Rightarrow> bbp_security_plan \<Rightarrow> bbp_security_platform \<Rightarrow> bbp_security_source list \<Rightarrow> u32 \<Rightarrow>
   (bbp_security_status \<times> u64 \<times> mem \<times> bbp_builder \<times> 'w) option" where
  "security_execute he al ab records m w b plan platform srcs measurement_count =
     do {
       old_last_next \<leftarrow> (if b_last b \<noteq> 0 then ld64 m (b_last b + off struct_bbp_tag_header ''next_tag'') else Some 0);
       rollback \<leftarrow> load m (b_arena b + pl_blob_start plan) (unat (pl_tag_end plan - pl_blob_start plan));
       m \<leftarrow> security_memzero m records (unat (ucast BBP_SECURITY_MAX_MEASUREMENTS * sizeof struct_bbp_measurement :: u64));
       (r, m, w) \<leftarrow> measure_loop he ab records m w 0 (take (unat measurement_count) srcs);
       case r of
         Inl st \<Rightarrow> Some (st, 0, m, b, w)
       | Inr () \<Rightarrow> security_publish al ab records m w b plan platform measurement_count rollback old_last_next
     }"

definition bbp_security_collect ::
  "u64 \<Rightarrow> mem \<Rightarrow> 'w \<Rightarrow> bbp_builder option \<Rightarrow> bbp_security_platform option \<Rightarrow> u64 \<Rightarrow> bbp_security_source list \<Rightarrow> u32 \<Rightarrow>
   'w bbp_security_callbacks option \<Rightarrow> u64 \<Rightarrow> (bbp_security_status \<times> u64 \<times> mem \<times> bbp_builder option \<times> 'w) option" where
  "bbp_security_collect records m w builder platform sources srcs measurement_count callbacks out_tag =
     (case callbacks of
        Some cb \<Rightarrow>
          (case (cb_hash_extend cb, cb_arena_allocate cb, cb_abort cb) of
             (Some he, Some al, Some ab) \<Rightarrow>
               if out_tag = 0 then Some (BBP_SECURITY_ERR_ARGUMENT, 0, m, builder, w)
               else do {
                 st \<leftarrow> validate_sources m sources srcs measurement_count;
                 if st \<noteq> BBP_SECURITY_OK then Some (st, 0, m, builder, w)
                 else if validate_platform platform \<noteq> BBP_SECURITY_OK
                 then Some (validate_platform platform, 0, m, builder, w)
                 else do {
                   v \<leftarrow> validate_builder m builder measurement_count;
                   case v of
                     Inl st \<Rightarrow> Some (st, 0, m, builder, w)
                   | Inr plan \<Rightarrow> do {
                       b \<leftarrow> builder;
                       p \<leftarrow> platform;
                       if spans_overlap out_tag 8 (b_arena b) (b_capacity b)
                       then Some (BBP_SECURITY_ERR_RANGE, 0, m, builder, w)
                       else do {
                         (st, tag, m, b, w) \<leftarrow> security_execute he al ab records m w b plan p srcs measurement_count;
                         Some (st, tag, m, Some b, w)
                       }
                     }
                 }
               }
           | _ \<Rightarrow> Some (BBP_SECURITY_ERR_ARGUMENT, 0, m, builder, w))
      | None \<Rightarrow> Some (BBP_SECURITY_ERR_ARGUMENT, 0, m, builder, w))"

fun bbp_security_strstatus :: "bbp_security_status \<Rightarrow> string" where
  "bbp_security_strstatus BBP_SECURITY_OK = ''ok''"
| "bbp_security_strstatus BBP_SECURITY_ERR_ARGUMENT = ''invalid argument''"
| "bbp_security_strstatus BBP_SECURITY_ERR_COUNT = ''invalid measurement count''"
| "bbp_security_strstatus BBP_SECURITY_ERR_PCR = ''invalid PCR index''"
| "bbp_security_strstatus BBP_SECURITY_ERR_ALGORITHM = ''unsupported hash algorithm''"
| "bbp_security_strstatus BBP_SECURITY_ERR_HASH_LENGTH = ''invalid hash length''"
| "bbp_security_strstatus BBP_SECURITY_ERR_NAME = ''invalid component name''"
| "bbp_security_strstatus BBP_SECURITY_ERR_RANGE = ''invalid input range''"
| "bbp_security_strstatus BBP_SECURITY_ERR_BUILDER = ''invalid builder state''"
| "bbp_security_strstatus BBP_SECURITY_ERR_CAPACITY = ''insufficient builder arena''"
| "bbp_security_strstatus BBP_SECURITY_ERR_TPM = ''TPM hash/extend failed''"
| "bbp_security_strstatus BBP_SECURITY_ERR_PUBLISH_AFTER_TPM = ''publish failed after TPM success''"
| "bbp_security_strstatus BBP_SECURITY_ERR_ABORT_RETURNED = ''terminal abort hook returned''"

end
