(* ===== verification/Security_Spec.thy ===== *)
theory Security_Spec
  imports Security
begin

text \<open>
  The guarantees of the measurement collector: whatever the callbacks do, the sequence of TPM calls
  is determined by the status that is returned; and over the real builder, publication never fails once
  the plan was accepted, so a measurement is lost only if the hash callback itself reports failure.
\<close>

section \<open>The trace of TPM calls\<close>

datatype tpm_event = Extended u32 int "u8 list" | Aborted bbp_security_status

definition log_extend :: "'v bbp_security_hash_extend_fn \<Rightarrow> ('v \<times> tpm_event list) bbp_security_hash_extend_fn" where
  "log_extend he w m pcr alg data len =
     (case he (fst w) m pcr alg data len of ((rc, digest), v) \<Rightarrow> ((rc, digest), (v, snd w @ [Extended pcr rc digest])))"

definition log_allocate :: "'v bbp_security_arena_allocate_fn \<Rightarrow> ('v \<times> tpm_event list) bbp_security_arena_allocate_fn" where
  "log_allocate al w m b object source bytes =
     map_option (\<lambda>(p, phys, m, b, v). (p, phys, m, b, (v, snd w))) (al (fst w) m b object source bytes)"

definition log_abort :: "'v bbp_security_abort_fn \<Rightarrow> ('v \<times> tpm_event list) bbp_security_abort_fn" where
  "log_abort ab w reason = (ab (fst w) reason, snd w @ [Aborted reason])"

definition log_callbacks :: "'v bbp_security_callbacks \<Rightarrow> ('v \<times> tpm_event list) bbp_security_callbacks" where
  "log_callbacks cb = \<lparr>cb_hash_extend = map_option log_extend (cb_hash_extend cb),
     cb_arena_allocate = map_option log_allocate (cb_arena_allocate cb),
     cb_abort = map_option log_abort (cb_abort cb)\<rparr>"

abbreviation extended :: "bbp_security_source list \<Rightarrow> u8 list list \<Rightarrow> tpm_event list" where
  "extended srcs ds \<equiv> map2 (\<lambda>s. Extended (ss_pcr_index s) 0) srcs ds"

text \<open>The only traces a status allows: success means every source was extended in order, a TPM error
  that nothing was, and every failure in between that the abort hook had the last word.\<close>

definition aborted_trace :: "bbp_security_source list \<Rightarrow> tpm_event list \<Rightarrow> bool" where
  "aborted_trace srcs evs \<longleftrightarrow>
     (\<exists>ds failed. ds \<noteq> [] \<and> length ds \<le> length srcs \<and>
        (if length ds = length srcs then failed = []
         else \<exists>rc d. rc \<noteq> 0 \<and> failed = [Extended (ss_pcr_index (srcs ! length ds)) rc d]) \<and>
        evs = extended srcs ds @ failed @ [Aborted BBP_SECURITY_ERR_PUBLISH_AFTER_TPM])"

definition tpm_trace_ok :: "bbp_security_status \<Rightarrow> bbp_security_source list \<Rightarrow> tpm_event list \<Rightarrow> bool" where
  "tpm_trace_ok st srcs evs =
     (case st of
        BBP_SECURITY_OK \<Rightarrow> \<exists>ds. length ds = length srcs \<and> evs = extended srcs ds
      | BBP_SECURITY_ERR_TPM \<Rightarrow>
          srcs \<noteq> [] \<and> (\<exists>rc d. rc \<noteq> 0 \<and> evs = [Extended (ss_pcr_index (hd srcs)) rc d])
      | BBP_SECURITY_ERR_ABORT_RETURNED \<Rightarrow> aborted_trace srcs evs
      | BBP_SECURITY_ERR_PUBLISH_AFTER_TPM \<Rightarrow> False
      | _ \<Rightarrow> evs = [])"

abbreviation refusal :: "bbp_security_status \<Rightarrow> bool" where
  "refusal st \<equiv> st \<notin> {BBP_SECURITY_OK, BBP_SECURITY_ERR_TPM, BBP_SECURITY_ERR_ABORT_RETURNED,
     BBP_SECURITY_ERR_PUBLISH_AFTER_TPM}"

lemma tpm_trace_refusal: "refusal st \<Longrightarrow> tpm_trace_ok st srcs []"
  by (cases st) (simp_all add: tpm_trace_ok_def)

lemma validate_source_refusal:
  "validate_source m s = Some st \<Longrightarrow> st \<noteq> BBP_SECURITY_OK \<Longrightarrow> refusal st"
  by (auto simp: validate_source_def bind_eq_Some_conv split: if_splits)

lemma validate_source_list_refusal:
  "validate_source_list m n ss = Some st \<Longrightarrow> st \<noteq> BBP_SECURITY_OK \<Longrightarrow> refusal st"
proof (induction m n ss rule: validate_source_list.induct)
  case (3 m n s ss)
  then show ?case
    using validate_source_refusal [of m s]
    by (auto simp: bind_eq_Some_conv split: if_splits)
qed simp_all

lemma validate_source_list_length: "validate_source_list m n ss = Some BBP_SECURITY_OK \<Longrightarrow> n \<le> length ss"
  by (induction m n ss rule: validate_source_list.induct) (auto simp: bind_eq_Some_conv split: if_splits)

lemma validate_sources_refusal:
  "validate_sources m p srcs n = Some st \<Longrightarrow> st \<noteq> BBP_SECURITY_OK \<Longrightarrow> refusal st"
  using validate_source_list_refusal by (fastforce simp: validate_sources_def split: if_splits)

lemma validate_sources_accepts:
  assumes "validate_sources m p srcs n = Some BBP_SECURITY_OK"
  shows "0 < unat n" "unat n \<le> 32" "unat n \<le> length srcs"
    "validate_source_list m (unat n) srcs = Some BBP_SECURITY_OK"
  using assms validate_source_list_length
  by (auto simp: validate_sources_def security_consts word_nat_simps unat_gt_0 split: if_splits)

lemma validate_platform_refusal: "validate_platform p \<noteq> BBP_SECURITY_OK \<Longrightarrow> refusal (validate_platform p)"
  by (auto simp: validate_platform_def Let_def split: option.splits if_splits)

lemma security_layout_refusal: "security_layout b n = Inl st \<Longrightarrow> refusal st"
  by (auto simp: security_layout_def Let_def split: option.splits if_splits)

lemma validate_builder_refusal: "validate_builder m b n = Some (Inl st) \<Longrightarrow> refusal st"
  using security_layout_refusal
  by (fastforce simp: validate_builder_def bind_eq_Some_conv split: option.splits if_splits)

lemma measure_loop_trace:
  assumes "measure_loop (log_extend he) (log_abort ab) r m w i ss = Some (res, m', w')"
  shows "case res of
      Inr _ \<Rightarrow> \<exists>ds. length ds = length ss \<and> snd w' = snd w @ extended ss ds
    | Inl st \<Rightarrow> \<exists>ds rc d. length ds < length ss \<and> rc \<noteq> 0 \<and>
        (let failed = Extended (ss_pcr_index (ss ! length ds)) rc d in
         if i + length ds = 0 then st = BBP_SECURITY_ERR_TPM \<and> snd w' = snd w @ [failed]
         else st = BBP_SECURITY_ERR_ABORT_RETURNED \<and>
           snd w' = snd w @ extended ss ds @ [failed, Aborted BBP_SECURITY_ERR_PUBLISH_AFTER_TPM])"
  using assms
proof (induction ss arbitrary: m w i)
  case (Cons s ss)
  obtain m1 where m1: "fill_record m (r + of_nat i * sizeof struct_bbp_measurement) s = Some m1"
    using Cons.prems by (auto simp: bind_eq_Some_conv Let_def)
  obtain rc digest v where he: "he (fst w) m1 (ss_pcr_index s) BBP_HASH_SHA256 (ss_data s) (ss_data_length s)
      = ((rc, digest), v)"
    by (metis prod.collapse)
  let ?w = "(v, snd w @ [Extended (ss_pcr_index s) rc digest])"
  have le: "log_extend he w m1 (ss_pcr_index s) BBP_HASH_SHA256 (ss_data s) (ss_data_length s) = ((rc, digest), ?w)"
    using he by (simp add: log_extend_def)
  obtain m2 where m2: "store m1 (r + of_nat i * sizeof struct_bbp_measurement
      + off struct_bbp_measurement ''hash'') digest = Some m2"
    using Cons.prems m1 by (auto simp: bind_eq_Some_conv le)
  show ?case
  proof (cases "rc = 0")
    case True
    then have rest: "measure_loop (log_extend he) (log_abort ab) r m2 ?w (Suc i) ss = Some (res, m', w')"
      using Cons.prems m1 m2 by (simp add: le)
    show ?thesis
    proof (cases res)
      case (Inl st)
      with Cons.IH [OF rest] obtain ds rc' d where "length ds < length ss" "rc' \<noteq> 0"
        "st = BBP_SECURITY_ERR_ABORT_RETURNED" "snd w' = snd ?w @ extended ss ds @
           [Extended (ss_pcr_index (ss ! length ds)) rc' d, Aborted BBP_SECURITY_ERR_PUBLISH_AFTER_TPM]"
        by (auto simp: Let_def)
      then show ?thesis
        unfolding Inl sum.case using True
        by (intro exI [of _ "digest # ds"] exI [of _ rc'] exI [of _ d] conjI) (simp_all add: Let_def)
    next
      case (Inr u)
      then obtain ds where "length ds = length ss" "snd w' = snd ?w @ extended ss ds"
        using Cons.IH [OF rest] by auto
      then show ?thesis
        using True Inr by (auto intro!: exI [of _ "digest # ds"])
    qed
  next
    case False
    show ?thesis
    proof (cases "i = 0")
      case True
      then have "res = Inl BBP_SECURITY_ERR_TPM" "w' = ?w"
        using Cons.prems m1 m2 False by (simp_all add: le)
      then show ?thesis
        using True False by (auto intro!: exI [of _ "[]"] exI [of _ rc])
    next
      case i: False
      then have "res = Inl BBP_SECURITY_ERR_ABORT_RETURNED"
        "w' = log_abort ab ?w BBP_SECURITY_ERR_PUBLISH_AFTER_TPM"
        using Cons.prems m1 m2 False by (simp_all add: le abort_after_tpm_def)
      then show ?thesis
        using i False by (auto simp: log_abort_def intro!: exI [of _ "[]"] exI [of _ rc])
    qed
  qed
next
  case Nil
  then have "res = Inr ()" "w' = w"
    by simp_all
  then show ?case by simp
qed

lemma log_allocate_Some:
  "log_allocate al w m b object source bytes = Some (p, phys, m', b', w') \<Longrightarrow> snd w' = snd w"
  by (auto simp: log_allocate_def)

lemma rollback_publish_Some: "rollback_publish m b before s ps x = Some (m', b') \<Longrightarrow> b' = before"
  by (auto simp: rollback_publish_def bind_eq_Some_conv)

lemma security_publish_trace:
  assumes "security_publish (log_allocate al) (log_abort ab) r m w b plan p n rb x = Some (st, tag, m', b', w')"
  shows "st = BBP_SECURITY_OK \<and> snd w' = snd w \<or>
     st = BBP_SECURITY_ERR_ABORT_RETURNED \<and> tag = 0 \<and> b' = b \<and>
       snd w' = snd w @ [Aborted BBP_SECURITY_ERR_PUBLISH_AFTER_TPM]"
  using assms
  by (auto simp: security_publish_def bind_eq_Some_conv Let_def abort_after_tpm_def log_abort_def
      dest!: log_allocate_Some rollback_publish_Some split: if_splits prod.splits)

lemma security_execute_trace:
  assumes "security_execute (log_extend he) (log_allocate al) (log_abort ab) r m (v, []) b plan p srcs n
      = Some (st, tag, m', b', w')" "0 < unat n" "unat n \<le> length srcs"
  shows "tpm_trace_ok st (take (unat n) srcs) (snd w') \<and> (st \<noteq> BBP_SECURITY_OK \<longrightarrow> tag = 0 \<and> b' = b)"
proof -
  let ?ss = "take (unat n) srcs"
  have len: "0 < length ?ss"
    using assms(2,3) by simp
  from assms(1) obtain x rb m0 res m1 w1 where
    loop: "measure_loop (log_extend he) (log_abort ab) r m0 (v, []) 0 ?ss = Some (res, m1, w1)"
    and rest: "(case res of Inl st \<Rightarrow> Some (st, 0, m1, b, w1)
       | Inr () \<Rightarrow> security_publish (log_allocate al) (log_abort ab) r m1 w1 b plan p n rb x)
       = Some (st, tag, m', b', w')"
    by (auto simp: security_execute_def bind_eq_Some_conv)
  show ?thesis
  proof (cases res)
    case (Inl e)
    with measure_loop_trace [OF loop] rest obtain ds rc d where k: "length ds < length ?ss" "rc \<noteq> 0"
      "if ds = [] then st = BBP_SECURITY_ERR_TPM \<and> snd w' = [Extended (ss_pcr_index (?ss ! length ds)) rc d]
         else st = BBP_SECURITY_ERR_ABORT_RETURNED \<and>
           snd w' = extended ?ss ds @ [Extended (ss_pcr_index (?ss ! length ds)) rc d,
             Aborted BBP_SECURITY_ERR_PUBLISH_AFTER_TPM]"
      and t: "tag = 0" "b' = b"
      by (auto simp: Let_def)
    show ?thesis
    proof (cases "ds = []")
      case True
      then show ?thesis
        using k t len by (auto simp: tpm_trace_ok_def hd_conv_nth)
    next
      case False
      then show ?thesis
        using k t by (auto simp: tpm_trace_ok_def aborted_trace_def intro!: exI [of _ ds]
            exI [of _ "[Extended (ss_pcr_index (?ss ! length ds)) rc d]"])
    qed
  next
    case (Inr u)
    then obtain ds where w1: "length ds = length ?ss" "snd w1 = extended ?ss ds"
      using measure_loop_trace [OF loop] by auto
    have "security_publish (log_allocate al) (log_abort ab) r m1 w1 b plan p n rb x = Some (st, tag, m', b', w')"
      using rest Inr by (auto split: unit.splits)
    moreover have "ds \<noteq> []"
      using w1(1) len by (metis length_greater_0_conv)
    ultimately show ?thesis
      using w1 security_publish_trace [of al ab r m1 w1 b plan p n rb x st tag m' b' w'] by (auto simp: tpm_trace_ok_def aborted_trace_def intro!: exI [of _ ds])
  qed
qed

lemma security_collect_cases:
  assumes "bbp_security_collect records m w builder platform sources srcs n (Some cb) out_tag
      = Some (st, tag, m', builder', w')"
  obtains (refused) "refusal st" "tag = 0" "m' = m" "builder' = builder" "w' = w"
  | (run) he al ab b p plan b' where "cb_hash_extend cb = Some he" "cb_arena_allocate cb = Some al"
      "cb_abort cb = Some ab" "builder = Some b" "platform = Some p" "builder' = Some b'"
      "validate_sources m sources srcs n = Some BBP_SECURITY_OK" "validate_platform platform = BBP_SECURITY_OK"
      "validate_builder m builder n = Some (Inr plan)"
      "security_execute he al ab records m w b plan p srcs n = Some (st, tag, m', b', w')"
proof (cases "cb_hash_extend cb = None \<or> cb_arena_allocate cb = None \<or> cb_abort cb = None \<or> out_tag = 0")
  case True
  then show thesis
    using assms by (intro refused) (auto simp: bbp_security_collect_def split: option.splits)
next
  case False
  then obtain he al ab where cb: "cb_hash_extend cb = Some he" "cb_arena_allocate cb = Some al"
    "cb_abort cb = Some ab" "out_tag \<noteq> 0"
    by auto
  obtain vs where vs: "validate_sources m sources srcs n = Some vs"
    using assms cb by (auto simp: bbp_security_collect_def bind_eq_Some_conv)
  show thesis
  proof (cases "vs = BBP_SECURITY_OK \<and> validate_platform platform = BBP_SECURITY_OK")
    case False
    then show thesis
      using assms cb vs validate_sources_refusal [OF vs] validate_platform_refusal [of platform]
      by (intro refused) (auto simp: bbp_security_collect_def split: if_splits)
  next
    case True
    then obtain v where v: "validate_builder m builder n = Some v"
      using assms cb vs by (auto simp: bbp_security_collect_def bind_eq_Some_conv)
    show thesis
    proof (cases v)
      case (Inl e)
      then show thesis
        using assms cb vs True v validate_builder_refusal [of m builder n e]
        by (intro refused) (auto simp: bbp_security_collect_def)
    next
      case (Inr plan)
      with assms cb vs True v obtain b p where bp: "builder = Some b" "platform = Some p"
        by (auto simp: bbp_security_collect_def bind_eq_Some_conv)
      show thesis
      proof (cases "spans_overlap out_tag 8 (b_arena b) (b_capacity b)")
        case ov: True
        then show thesis
          using assms cb vs True v Inr bp by (intro refused) (auto simp: bbp_security_collect_def)
      next
        case False
        then obtain b' where "security_execute he al ab records m w b plan p srcs n = Some (st, tag, m', b', w')"
          "builder' = Some b'"
          using assms cb vs True v Inr bp by (auto simp: bbp_security_collect_def bind_eq_Some_conv)
        then show thesis
          using cb vs True v Inr bp by (intro run) auto
      qed
    qed
  qed
qed

text \<open>C8. The TPM trace of \<open>bbp_security_collect\<close>. Whatever the hash, arena and abort callbacks do, the
  status that is returned determines which TPM calls were made: on success every source was extended,
  in order, each successfully; on the TPM error only the first extension was tried and it failed; if any
  extension succeeded and the collection did not, the last call is the abort hook with the
  publish-after-TPM reason; every other status means that the TPM was not touched. Unless the status
  is success no tag is published and the builder is the one passed in.\<close>

theorem security_collect_trace:
  assumes "bbp_security_collect records m (v, []) builder platform sources srcs n
      (Some (log_callbacks cb)) out_tag = Some (st, tag, m', builder', w')"
  shows "tpm_trace_ok st (take (unat n) srcs) (snd w') \<and>
    (st \<noteq> BBP_SECURITY_OK \<longrightarrow> tag = 0 \<and> builder' = builder)"
  using assms
proof (cases rule: security_collect_cases)
  case refused
  then show ?thesis
    using tpm_trace_refusal by auto
next
  case (run he al ab b p plan b')
  then obtain he' al' ab' where "he = log_extend he'" "al = log_allocate al'" "ab = log_abort ab'"
    by (auto simp: log_callbacks_def)
  with run(10) have "security_execute (log_extend he') (log_allocate al') (log_abort ab') records m (v, []) b plan p
      srcs n = Some (st, tag, m', b', w')"
    by simp
  from security_execute_trace [OF this] show ?thesis
    using run validate_sources_accepts [OF run(7)] by auto
qed

section \<open>The record array\<close>

lemma security_memcpy_eq:
  assumes "load m s n = Some ps" "disj s n d n" "n \<le> 2 ^ 64"
  shows "security_memcpy m d s n = store m d ps"
proof -
  have "security_memcpy m d s n = bbp_memcpy m d s n" for m d s n
    by (induction m d s n rule: security_memcpy.induct) (auto intro!: bind_option_cong)
  then show ?thesis
    using bbp_memcpy_eq [OF assms] by simp
qed

lemma security_memzero_eq: "n \<le> 2 ^ 64 \<Longrightarrow> security_memzero m d n = store m d (replicate n 0)"
proof -
  have "security_memzero m d n = bbp_memzero m d n" for m d n
    by (induction m d n rule: security_memzero.induct) (auto intro!: bind_option_cong)
  then show "n \<le> 2 ^ 64 \<Longrightarrow> ?thesis"
    using bbp_memzero_eq by simp
qed

lemma security_memequal_eq:
  assumes "load m a n = Some ps" "load m b n = Some qs"
  shows "security_memequal m a b n = Some (ps = qs)"
  using assms
proof (induction n arbitrary: a b ps qs)
  case (Suc n)
  obtain p ps' q qs' where c: "ps = p # ps'" "qs = q # qs'"
    using Suc.prems by (metis length_Suc_conv load_length)
  have "m a = Some p" "m b = Some q"
    using Suc.prems [unfolded load_eq_Some_iff] c by fastforce+
  moreover have "load m (a + of_nat 1) n = Some (take n (drop 1 ps))" "load m (b + of_nat 1) n = Some (take n (drop 1 qs))"
    using Suc.prems by (auto intro!: load_sub simp del: of_nat_1 drop_Suc_Cons One_nat_def)
  then have "load m (a + 1) n = Some ps'" "load m (b + 1) n = Some qs'"
    using c Suc.prems load_length by fastforce+
  ultimately show ?case
    using Suc.IH c by simp
qed (simp add: load_def)

text \<open>One record of the log: the PCR, the algorithm, the digest and the component name, zero padded.\<close>

definition record_bytes :: "mem \<Rightarrow> bbp_security_source \<Rightarrow> u8 list \<Rightarrow> u8 list" where
  "record_bytes m s digest =
     (let name = the (load m (ss_component_name s) (unat (ss_component_name_length s))) in
      put_le 4 (ss_pcr_index s) @ put_le 4 BBP_HASH_SHA256 @ digest @ replicate (64 - length digest) 0 @
      put_le 4 BBP_SECURITY_SHA256_BYTES @ replicate 4 0 @ name @ replicate (64 - length name) 0)"

definition names_ok :: "mem \<Rightarrow> u64 \<Rightarrow> bbp_security_source list \<Rightarrow> bool" where
  "names_ok m records ss \<longleftrightarrow>
     (\<forall>s \<in> set ss. mapped m (ss_component_name s) (unat (ss_component_name_length s)) \<and>
        unat (ss_component_name_length s) < 64 \<and>
        disj (ss_component_name s) (unat (ss_component_name_length s)) records 4608)"

abbreviation digest_size :: "'w bbp_security_hash_extend_fn \<Rightarrow> bool" where
  "digest_size he \<equiv> (\<forall>w m pcr alg d n. length (snd (fst (he w m pcr alg d n))) = 32)"

lemma fill_record_ok:
  assumes z: "load m r 144 = Some (replicate 144 0)"
    and nm: "load m (ss_component_name s) (unat (ss_component_name_length s)) = Some name" "length name < 64"
    and dj: "disj (ss_component_name s) (unat (ss_component_name_length s)) r 144" and d: "length digest = 32"
  obtains m1 m2 where "fill_record m r s = Some m1" "store m1 (r + 8) digest = Some m2"
    "load m2 r 144 = Some (record_bytes m s digest)" "frame m m2 (span r 144)" "same_dom m m2"
proof -
  let ?ws = "[(0, put_le 4 (ss_pcr_index s)), (4, put_le 4 BBP_HASH_SHA256), (72, put_le 4 BBP_SECURITY_SHA256_BYTES)]"
  let ?n = "unat (ss_component_name_length s)"
  obtain m0 where m0: "stores m r ?ws = Some m0" "load m0 r 144 = Some (patches (replicate 144 0) ?ws)"
    "frame m m0 (span r 144)" "same_dom m m0"
    by (rule stores_ok [OF z, of ?ws]) auto
  have n: "length name = ?n"
    using load_length [OF nm(1)] .
  have "same m m0 (ss_component_name s) ?n"
    using frame_same [OF m0(3) span_disj [OF dj]] .
  then have nm0: "load m0 (ss_component_name s) ?n = Some name"
    using nm by (simp add: same_load_all)
  have "disj (ss_component_name s) ?n (r + of_nat 80) ?n"
    using disj_sub [OF dj [unfolded disj_sym [of _ ?n]], of 80 ?n] nm n by (simp add: disj_sym)
  then have cp: "security_memcpy m0 (r + 80) (ss_component_name s) ?n = store m0 (r + 80) name"
    using security_memcpy_eq [OF nm0] nm n by simp
  let ?vs = "[(80, name), (8, digest)]"
  obtain m2 where m2: "stores m0 r ?vs = Some m2"
    "load m2 r 144 = Some (patches (patches (replicate 144 0) ?ws) ?vs)" "frame m0 m2 (span r 144)" "same_dom m0 m2"
    using nm d by (auto intro: stores_ok [OF m0(2), of ?vs])
  then obtain m1 where m1: "store m0 (r + 80) name = Some m1" "store m1 (r + 8) digest = Some m2"
    by (auto simp: bind_eq_Some_conv)
  have "fill_record m r s = Some m1"
    using m0(1) m1 cp by (auto simp: fill_record_def st32_def bind_eq_Some_conv)
  moreover have "patches (patches (replicate 144 0) ?ws) ?vs = record_bytes m s digest"
    using nm d by (simp add: record_bytes_def patch_def take_replicate drop_replicate min_def Let_def)
  ultimately show thesis
    using that [OF _ m1(2)] m2 frame_trans [OF m0(3) m2(3)] same_dom_trans [OF m0(4) m2(4)] by simp
qed

lemma names_ok_frame:
  assumes "names_ok m records ss" "same_dom m m'"
  shows "names_ok m' records ss"
  using assms by (simp add: names_ok_def same_dom_mapped)

lemma record_bytes_frame:
  assumes "names_ok m records ss" "s \<in> set ss" "frame m m' (span records 4608)"
  shows "record_bytes m' s d = record_bytes m s d"
proof -
  have "same m m' (ss_component_name s) (unat (ss_component_name_length s))"
    using assms by (intro frame_same [OF assms(3)] span_disj) (simp add: names_ok_def)
  then show ?thesis
    by (simp add: record_bytes_def same_load_all)
qed

lemma length_record_bytes:
  assumes "names_ok m records ss" "s \<in> set ss" "length d = 32"
  shows "length (record_bytes m s d) = 144"
proof -
  obtain name where "load m (ss_component_name s) (unat (ss_component_name_length s)) = Some name"
    using assms load_ex_iff by (fastforce simp: names_ok_def)
  moreover have "unat (ss_component_name_length s) < 64"
    using assms by (simp add: names_ok_def)
  ultimately show ?thesis
    using assms(3) load_length by (fastforce simp: record_bytes_def Let_def)
qed

text \<open>The loop never faults, changes only the records it is about to write, and on success has recorded
  exactly what the TPM was extended with.\<close>

lemma measure_loop_ok:
  assumes "digest_size he" "names_ok m records ss" "144 * (i + length ss) \<le> 4608"
    and "load m (records + of_nat (144 * i)) (144 * length ss) = Some (replicate (144 * length ss) 0)"
  obtains res m' w' where
    "measure_loop (log_extend he) (log_abort ab) records m w i ss = Some (res, m', w')"
    "frame m m' (span (records + of_nat (144 * i)) (144 * length ss))" "same_dom m m'"
    "res = Inr () \<Longrightarrow> \<exists>ds. length ds = length ss \<and> snd w' = snd w @ extended ss ds \<and>
       load m' (records + of_nat (144 * i)) (144 * length ss) = Some (concat (map2 (record_bytes m) ss ds))"
  using assms
proof (induction ss arbitrary: m w i thesis)
  case Nil
  then show ?case
    by (auto simp: load_def)
next
  case (Cons s ss)
  let ?r = "records + of_nat (144 * i)" and ?r' = "records + of_nat (144 * Suc i)"
  let ?n = "unat (ss_component_name_length s)"
  have z: "load m ?r 144 = Some (replicate 144 0)" "load m ?r' (144 * length ss) = Some (replicate (144 * length ss) 0)"
    using load_sub [OF Cons.prems(5), of 0 144] load_sub [OF Cons.prems(5), of 144 "144 * length ss"]
    by (simp_all add: algebra_simps take_replicate)
  have le: "144 * i + 144 \<le> 4608"
    using Cons.prems(4) by simp
  obtain name where nm: "load m (ss_component_name s) ?n = Some name" "length name < 64"
    "disj (ss_component_name s) ?n records 4608"
    using Cons.prems(3) load_ex_iff load_length by (fastforce simp: names_ok_def)
  have dj: "disj (ss_component_name s) ?n ?r 144"
    using disj_sub [OF nm(3) [unfolded disj_sym [of _ ?n]] le] by (simp add: disj_sym)
  obtain m1 where m1: "fill_record m ?r s = Some m1"
    by (rule fill_record_ok [OF z(1) nm(1,2) dj, of "replicate 32 0"]) simp
  obtain rc digest v where he: "he (fst w) m1 (ss_pcr_index s) BBP_HASH_SHA256 (ss_data s) (ss_data_length s)
      = ((rc, digest), v)"
    by (metis prod.collapse)
  then have len: "length digest = 32"
    using Cons.prems(2) by (metis fst_conv snd_conv)
  obtain m2 where m2: "store m1 (?r + 8) digest = Some m2" "load m2 ?r 144 = Some (record_bytes m s digest)"
    "frame m m2 (span ?r 144)" "same_dom m m2"
    using m1 by - (rule fill_record_ok [OF z(1) nm(1,2) dj len], simp)
  let ?w = "(v, snd w @ [Extended (ss_pcr_index s) rc digest])"
  have le': "log_extend he w m1 (ss_pcr_index s) BBP_HASH_SHA256 (ss_data s) (ss_data_length s) = ((rc, digest), ?w)"
    using he by (simp add: log_extend_def)
  have step: "measure_loop (log_extend he) (log_abort ab) records m w i (s # ss) =
      (if rc \<noteq> 0 then
         (if i \<noteq> 0 then Some (Inl BBP_SECURITY_ERR_ABORT_RETURNED, m2,
            log_abort ab ?w BBP_SECURITY_ERR_PUBLISH_AFTER_TPM)
          else Some (Inl BBP_SECURITY_ERR_TPM, m2, ?w))
       else measure_loop (log_extend he) (log_abort ab) records m2 ?w (Suc i) ss)"
    using m1 m2(1) le' by (simp add: abort_after_tpm_def algebra_simps)
  have sub: "span ?r 144 \<subseteq> span ?r (144 * length (s # ss))" "span ?r' (144 * length ss) \<subseteq> span ?r (144 * length (s # ss))"
    "span ?r 144 \<subseteq> span records 4608"
    using span_sub [of 144 "144 * length ss" "144 * length (s # ss)" ?r] span_sub [OF le, of records]
    by (auto simp: algebra_simps intro!: span_mono)
  have sub4: "span ?r 144 \<inter> span ?r' (144 * length ss) = {}"
    using Cons.prems(4) by (intro span_offsets) auto
  show ?case
  proof (cases "rc = 0")
    case False
    then show ?thesis
      using step m2 frame_mono [OF m2(3) sub(1)]
      by (cases "i = 0") (auto intro: Cons.prems(1) [of "Inl BBP_SECURITY_ERR_TPM"]
          Cons.prems(1) [of "Inl BBP_SECURITY_ERR_ABORT_RETURNED"])
  next
    case True
    have "same m m2 ?r' (144 * length ss)"
      using frame_same [OF m2(3)] sub4 by (simp only: Int_commute)
    then have z2: "load m2 ?r' (144 * length ss) = Some (replicate (144 * length ss) 0)"
      using z(2) by (simp add: same_load_all)
    have lim: "144 * (Suc i + length ss) \<le> 4608"
      using Cons.prems(4) by simp
    have nok: "names_ok m2 records ss"
      using names_ok_frame [OF _ m2(4), of records ss] Cons.prems(3) by (simp add: names_ok_def)
    obtain res m' w' where m': "measure_loop (log_extend he) (log_abort ab) records m2 ?w (Suc i) ss = Some (res, m', w')"
      "frame m2 m' (span ?r' (144 * length ss))" "same_dom m2 m'"
      "res = Inr () \<Longrightarrow> \<exists>ds. length ds = length ss \<and> snd w' = snd ?w @ extended ss ds \<and>
        load m' ?r' (144 * length ss) = Some (concat (map2 (record_bytes m2) ss ds))"
      using Cons.IH [OF _ Cons.prems(2) nok lim z2, of ?w] by blast
    show ?thesis
    proof (rule Cons.prems(1))
      show "measure_loop (log_extend he) (log_abort ab) records m w i (s # ss) = Some (res, m', w')"
        using step True m'(1) by simp
      show "frame m m' (span ?r (144 * length (s # ss)))" "same_dom m m'"
        using frame_mono [OF frame_trans [OF m2(3) m'(2)]] sub(1,2) same_dom_trans [OF m2(4) m'(3)] by blast+
      assume "res = Inr ()"
      then obtain ds where ds: "length ds = length ss" "snd w' = snd ?w @ extended ss ds"
        "load m' ?r' (144 * length ss) = Some (concat (map2 (record_bytes m2) ss ds))"
        using m'(4) by blast
      have eq: "map2 (record_bytes m2) ss ds = map2 (record_bytes m) ss ds"
        using record_bytes_frame [OF Cons.prems(3) _ frame_mono [OF m2(3) sub(3)]]
        by (auto dest: set_zip_leftD intro!: map_cong)
      have "load m' ?r 144 = Some (record_bytes m s digest)"
        using m2(2) frame_same [OF m'(2) sub4] by (simp add: same_load_all)
      then have "load m' ?r (144 + 144 * length ss) = Some (concat (map2 (record_bytes m) (s # ss) (digest # ds)))"
        using load_append [of m' ?r 144 _ "144 * length ss"] ds(3) [unfolded eq] by (simp add: algebra_simps)
      then show "\<exists>ds. length ds = length (s # ss) \<and> snd w' = snd w @ extended (s # ss) ds \<and>
          load m' ?r (144 * length (s # ss)) = Some (concat (map2 (record_bytes m) (s # ss) ds))"
        using ds True by (intro exI [of _ "digest # ds"]) simp
    qed
  qed
qed

section \<open>The plan\<close>

lemma security_align8_Some: "security_align8 v = Some a \<Longrightarrow> unat a = align8 (unat v)"
proof -
  assume a: "security_align8 v = Some a"
  then have "unat v + 7 < 2 ^ 64"
    by (auto simp: security_align8_def word_nat_simps split: if_splits)
  then have "unat (v + 7) = unat v + 7"
    by (subst unat_add_u64) auto
  then show ?thesis
    using a unat_and_not_7 [of "v + 7"] by (auto simp: security_align8_def align8_def split: if_splits)
qed

lemma align8_fix: "8 dvd n \<Longrightarrow> align8 n = n"
  by (auto simp: align8_def elim!: dvdE)

text \<open>An accepted plan places the log at the next aligned offset and the tag right after it, inside the
  arena and below the physical limit.\<close>

lemma security_layout_ok:
  assumes plan: "security_layout b n = Inr plan" and n: "unat n \<le> 32" and p: "unat (b_arena_phys b) \<le> 2 ^ 48"
    and s: "s = align8 (unat (b_used b))"
  shows "pl_blob_start plan = of_nat s" "pl_log_bytes plan = of_nat (144 * unat n)"
    "pl_blob_end plan = of_nat (s + 144 * unat n)" "pl_tag_start plan = of_nat (s + 144 * unat n)"
    "pl_tag_end plan = of_nat (s + 144 * unat n + 128)" "s + 144 * unat n + 128 \<le> unat (b_capacity b)"
    "unat (b_arena_phys b) + (s + 144 * unat n + 128) \<le> 2 ^ 48"
proof -
  define l :: u64 where "l = ucast n * 144"
  have l: "unat l = 144 * unat n"
    unfolding l_def using n by (simp add: unat_word_ariths unat_ucast_u32)
  obtain a where a: "security_align8 (b_used b) = Some a" "l \<le> - 1 - a"
    using plan by (auto simp: security_layout_def Let_def l_def split: option.splits if_splits)
  obtain t where t: "security_align8 (a + l) = Some t" "128 \<le> - 1 - t"
    using plan a by (auto simp: security_layout_def Let_def l_def split: option.splits if_splits)
  have g: "t + 128 \<le> b_capacity b" "t + 128 \<le> BBP_SECURITY_MAX_PHYS - b_arena_phys b"
    and pl: "plan = \<lparr>pl_blob_start = a, pl_blob_end = a + l, pl_tag_start = t, pl_tag_end = t + 128, pl_log_bytes = l\<rparr>"
    using plan a t by (auto simp: security_layout_def Let_def l_def split: if_splits)
  have ua: "unat a = s"
    using security_align8_Some [OF a(1)] s by simp
  have ual: "unat (a + l) = s + 144 * unat n"
    using a(2) ua l unat_le_max_minus [of a l] by (subst unat_add_u64) (auto simp: not_less)
  have "8 dvd s + 144 * unat n"
    using s align8_bounds(3) by simp
  then have ut: "unat t = s + 144 * unat n"
    using security_align8_Some [OF t(1)] ual align8_fix by simp
  then have tal: "t = a + l"
    using ual by (metis of_nat_unat_u64)
  have ut': "unat (t + 128) = s + 144 * unat n + 128"
    using t(2) ut unat_le_max_minus [of t 128] by (subst unat_add_u64) (auto simp: not_less)
  have "unat (BBP_SECURITY_MAX_PHYS - b_arena_phys b) = 2 ^ 48 - unat (b_arena_phys b)"
    using p by (subst unat_diff_u64) (auto simp: security_consts word_nat_simps)
  then show "unat (b_arena_phys b) + (s + 144 * unat n + 128) \<le> 2 ^ 48"
    using g(2) ut' p by (simp add: word_nat_simps)
  show "s + 144 * unat n + 128 \<le> unat (b_capacity b)"
    using g(1) ut' by (simp add: word_nat_simps)
  show "pl_blob_start plan = of_nat s" "pl_log_bytes plan = of_nat (144 * unat n)"
    "pl_blob_end plan = of_nat (s + 144 * unat n)" "pl_tag_start plan = of_nat (s + 144 * unat n)"
    "pl_tag_end plan = of_nat (s + 144 * unat n + 128)"
    unfolding pl bbp_security_plan.simps tal ua [symmetric] l [symmetric] ual [symmetric] ut' [symmetric]
    by (simp_all add: tal)
qed

section \<open>Publication over the real builder\<close>

text \<open>The body of the published tag.\<close>

definition security_body :: "bbp_security_platform \<Rightarrow> u32 \<Rightarrow> u64 \<Rightarrow> u64 \<Rightarrow> u8 list" where
  "security_body p n log_phys log_crc =
     put_le 8 (sp_tpm_base_address p) @ put_le 2 (sp_tpm_version p) @ put_le 2 (sp_tpm_interface p) @
     put_le 4 (sp_tpm_flags p) @ secure_boot_bytes (sp_secure_boot p) @ put_le 4 n @ replicate 4 0 @
     put_le 8 log_phys @ replicate 32 0 @ put_le 8 log_crc @ replicate 16 0"

definition security_stores :: "bbp_security_platform \<Rightarrow> u32 \<Rightarrow> u64 \<Rightarrow> u64 \<Rightarrow> (nat \<times> u8 list) list" where
  "security_stores p n log_phys log_crc =
     [(32, put_le 8 (sp_tpm_base_address p)), (40, put_le 2 (sp_tpm_version p)), (42, put_le 2 (sp_tpm_interface p)),
      (44, put_le 4 (sp_tpm_flags p)), (48, secure_boot_bytes (sp_secure_boot p)), (56, put_le 4 n),
      (64, put_le 8 log_phys), (104, put_le 8 log_crc)]"

lemma length_secure_boot_bytes [simp]: "length (secure_boot_bytes s) = 8"
  by (simp add: secure_boot_bytes_def)

lemma patches_security:
  assumes "length h = 32"
  shows "patches (h @ replicate 96 0) (security_stores p n log_phys log_crc) = h @ security_body p n log_phys log_crc"
  using assms
  by (simp add: security_stores_def security_body_def patch_def take_replicate drop_replicate)

lemma fill_security_tag_eq:
  "fill_security_tag m tag p n log_phys log_crc =
     do { m \<leftarrow> stores m tag (security_stores p n log_phys log_crc); bbp_seal_tag m tag }"
  by (simp add: fill_security_tag_def security_stores_def st16_def st32_def st64_def)

lemma last_link:
  assumes "wf_builder m b (ts @ [x])" "ts \<noteq> []"
  shows "ld64 m (va b (fst (last ts)) + 16) = Some (pa b (fst x))"
proof -
  obtain us d z i where "ts = us @ [(d, z, i)]"
    using assms(2) by (metis prod_cases3 rev_exhaust)
  then show ?thesis
    using assms(1) by (cases x) (simp add: wf_builder_def chain_ok_append hdr_at_def)
qed

lemma tag_accepted:
  assumes wf: "wf_builder m b ts" and wf': "wf_builder m' b' (ts @ [(t, 128, BBP_TAG_SECURITY)])"
    and same: "b_arena b' = b_arena b" "b_arena_phys b' = b_arena_phys b" and u: "b_used b' = of_nat (t + 128)"
    and nz: "va b t \<noteq> 0" and plan: "pl_tag_start plan = of_nat t" "pl_tag_end plan = of_nat (t + 128)"
    and ld: "load m' (va b t) 128 = Some (stamp_bytes BBP_TAG_SECURITY 1 128 @ ps)"
  shows "tag_refused m' b' b plan (va b t) (pa b t) = Some False"
proof -
  have c: "b_tag_count b = of_nat (length ts)" "b_tag_count b' = of_nat (Suc (length ts))" "length ts \<le> 1024"
    "b_last b' = va b t" "\<not> b_overflow b'" "b_first_phys b = next_of b ts 0"
    "b_first_phys b' = next_of b' (ts @ [(t, 128, BBP_TAG_SECURITY)]) 0"
    "b_last b = (if ts = [] then 0 else va b (fst (last ts)))"
    using wf wf' same by (simp_all add: wf_builder_def)
  have z: "b_tag_count b = 0 \<longleftrightarrow> ts = []"
  proof -
    have "unat (b_tag_count b) = length ts"
      using c(1,3) by (simp add: unat_of_nat_u32)
    then show ?thesis
      by (metis length_0_conv unat_0 unat_eq_0)
  qed
  have h: "ld64 m' (va b t) = Some BBP_TAG_SECURITY" "ld32 m' (va b t + 8) = Some 128" "ld16 m' (va b t + 12) = Some 1"
    "ld64 m' (va b t + 16) = Some 0"
    using ld_of_load(3) [OF ld, of 0] ld_of_load(2) [OF ld, of 8] ld_of_load(1) [OF ld, of 12] ld_of_load(3) [OF ld, of 16]
    by (simp_all add: stamp_bytes_def le64.dec_enc le32.dec_enc le16.dec_enc)
  have l: "ts \<noteq> [] \<Longrightarrow> ld64 m' (b_last b + 16) = Some (pa b t)"
    using last_link [OF wf'] c(8) same by simp
  have f: "b_first_phys b' = (if ts = [] then pa b t else b_first_phys b)"
    using c(6,7) same by (cases ts) simp_all
  show ?thesis
    using c(1,2,4,5) z h l f nz plan same u by (auto simp: tag_refused_def security_consts)
qed

lemma log_allocate_builder: "log_allocate bbp_security_builder_allocate = bbp_security_builder_allocate"
proof (intro ext)
  fix w :: "'a \<times> tpm_event list" and m b object source bytes
  show "log_allocate bbp_security_builder_allocate w m b object source bytes
      = bbp_security_builder_allocate w m b object source bytes"
    by (cases object) (auto simp: log_allocate_def bbp_security_builder_allocate_def Option.bind_map_option
        map_option_case split: option.splits prod.splits bind_splits)
qed

text \<open>The log fits where the plan put it, and the copy is accepted.\<close>

lemma allocate_log_ok:
  assumes wf: "wf_builder m b ts" and s: "s = align8 (unat (b_used b))" and k: "0 < k" "k \<le> 4608"
    and rec: "records \<noteq> 0" "load m records k = Some log" "outside_arena b records k"
    and fits: "s + k \<le> unat (b_capacity b)" "unat (b_arena_phys b) + s + k \<le> 2 ^ 48"
    and plan: "pl_blob_start plan = of_nat s" "pl_log_bytes plan = of_nat k" "pl_blob_end plan = of_nat (s + k)"
  obtains m' where "bbp_security_builder_allocate w m b BBP_SECURITY_ARENA_MEASUREMENTS records (of_nat k)
      = Some (va b s, pa b s, m', b\<lparr>b_used := of_nat (s + k)\<rparr>, w)"
    "wf_builder m' (b\<lparr>b_used := of_nat (s + k)\<rparr>) ts" "load m' (va b s) k = Some log"
    "blob_refused m' (b\<lparr>b_used := of_nat (s + k)\<rparr>) b plan records (va b s) (pa b s) = Some False"
proof -
  let ?len = "of_nat k :: u64"
  have len: "unat ?len = k"
    using k by (subst unat_of_nat_u64) auto
  then have len0: "?len \<noteq> 0"
    using k(1) by (metis not_gr_zero unat_0)
  obtain m1 where m1: "bbp_arena_blob m (Some b) records ?len
      = Some (m1, Some (b\<lparr>b_used := of_nat (s + unat ?len)\<rparr>), pa b s)"
      "wf_builder m1 (b\<lparr>b_used := of_nat (s + unat ?len)\<rparr>) ts" "pa b s \<noteq> 0" "store m (va b s) log = Some m1"
    by (rule arena_blob_ok [OF wf rec(1) _ _ len0 s]) (use rec fits len in simp_all)
  have log: "length log = k"
    using load_length [OF rec(2)] .
  have blob: "load m1 (va b s) k = Some log"
    using load_store_same [OF m1(4)] log k by simp
  have "load m1 records k = Some log"
    using load_store_disj [OF m1(4), of records k] rec log outside_arena_disj [OF rec(3), of s k] fits
    by (simp add: disj_sym)
  then have eq: "security_memequal m1 (va b s) records k = Some True"
    using security_memequal_eq [OF blob] by simp
  have nz: "va b s \<noteq> 0" "\<not> b_overflow b"
    using wf fits va_ne_0 [of m b s] by (auto simp: wf_builder_def)
  show thesis
  proof (rule that [of m1])
    show "blob_refused m1 (b\<lparr>b_used := of_nat (s + k)\<rparr>) b plan records (va b s) (pa b s) = Some False"
      using nz eq len plan by (simp add: blob_refused_def)
  qed (use m1 len blob in \<open>simp_all add: bbp_security_builder_allocate_def\<close>)
qed

lemma allocate_tag_ok:
  assumes wf: "wf_builder m b ts" and before: "wf_builder m0 b0 ts" "b = b0\<lparr>b_used := of_nat t\<rparr>"
    and t: "8 dvd t" "t + 128 \<le> unat (b_capacity b)" "unat (b_arena_phys b) + t + 128 \<le> 2 ^ 48"
    and ts: "length ts < 1024" and plan: "pl_tag_start plan = of_nat t" "pl_tag_end plan = of_nat (t + 128)"
  obtains m' b' where "bbp_security_builder_allocate w m b BBP_SECURITY_ARENA_TAG 0 128
      = Some (va b t, pa b t, m', b', w)"
    "wf_builder m' b' (ts @ [(t, 128, BBP_TAG_SECURITY)])" "b_arena b' = b_arena b"
    "frame m m' (span (va b t) 32 \<union> link_span b ts)"
    "load m' (va b t) 128 = Some (stamp_bytes BBP_TAG_SECURITY 1 128 @ replicate 96 0)"
    "tag_refused m' b' b0 plan (va b t) (pa b t) = Some False"
proof -
  have al: "t = align8 (unat (b_used b))"
    using t(2) unat_u64_less [of "b_capacity b"] before(2) by (simp add: unat_of_nat_u64 align8_fix [OF t(1)])
  obtain m2 b2 where "bbp_alloc_tag m (Some b) BBP_TAG_SECURITY 1 128 = Some (m2, Some b2, va b t)"
      "va b t \<noteq> 0" "wf_builder m2 b2 (ts @ [(t, unat (128 :: u64), BBP_TAG_SECURITY)])"
      "b_arena b2 = b_arena b" "b_arena_phys b2 = b_arena_phys b" "b_used b2 = of_nat (t + unat (128 :: u64))"
      "frame m m2 (span (va b t) 32 \<union> link_span b ts)"
      "load m2 (va b t) (unat (128 :: u64))
        = Some (stamp_bytes BBP_TAG_SECURITY 1 128 @ replicate (unat (128 :: u64) - 32) 0)"
    by (rule alloc_tag_ok [OF wf _ _ ts al, of 128 BBP_TAG_SECURITY 1]) (use t in simp_all)
  then have m2: "bbp_alloc_tag m (Some b) BBP_TAG_SECURITY 1 128 = Some (m2, Some b2, va b t)"
      "va b t \<noteq> 0" "wf_builder m2 b2 (ts @ [(t, 128, BBP_TAG_SECURITY)])"
      "b_arena b2 = b_arena b" "b_arena_phys b2 = b_arena_phys b" "b_used b2 = of_nat (t + 128)"
      "frame m m2 (span (va b t) 32 \<union> link_span b ts)"
      "load m2 (va b t) 128 = Some (stamp_bytes BBP_TAG_SECURITY 1 128 @ replicate 96 0)"
    by simp_all
  show thesis
  proof (rule that [of m2 b2])
    show "tag_refused m2 b2 b0 plan (va b t) (pa b t) = Some False"
      using tag_accepted [OF before(1) m2(3) _ _ m2(6) _ plan, of "replicate 96 0"] m2 before(2) by simp
    show "bbp_security_builder_allocate w m b BBP_SECURITY_ARENA_TAG 0 128 = Some (va b t, pa b t, m2, b2, w)"
      using m2 by (simp add: bbp_security_builder_allocate_def security_consts)
  qed (use m2 in simp_all)
qed

lemma fill_security_tag_ok:
  assumes wf: "wf_builder m b ts" and t: "(t, 128, i) \<in> set ts"
    and ld: "load m (va b t) 128 = Some (h @ replicate 96 0)" "length h = 32"
  obtains m' ps where "fill_security_tag m (va b t) p n log_phys log_crc = Some m'" "wf_builder m' b ts"
    "load m' (va b t) 128 = Some ps" "crc_field_ok ps 24" "drop 32 ps = security_body p n log_phys log_crc"
    "frame m m' (span (va b t) 128)"
proof -
  let ?ws = "security_stores p n log_phys log_crc"
  have ws: "list_all (\<lambda>(e, qs). 32 \<le> e \<and> e + length qs \<le> 128) ?ws" "list_all (\<lambda>(e, qs). e + length qs \<le> 128) ?ws"
    by (simp_all add: security_stores_def)
  obtain m1 where m1: "stores m (va b t) ?ws = Some m1" "load m1 (va b t) 128 = Some (patches (h @ replicate 96 0) ?ws)"
    "frame m m1 (span (va b t) 128)" "same_dom m m1"
    by (rule stores_ok [OF ld(1) ws(2)]) simp
  note wf1 = stores_body_wf [OF wf t ws(1) m1(1)]
  obtain m2 ps where m2: "bbp_seal_tag m1 (va b t) = Some m2" "wf_builder m2 b ts" "load m2 (va b t) 128 = Some ps"
    "crc_field_ok ps 24" "drop 32 ps = drop 32 (patches (h @ replicate 96 0) ?ws)" "frame m1 m2 (span (va b t + 24) 8)"
    by (rule seal_wf [OF wf1 t m1(2)])
  have "span (va b t + of_nat 24) 8 \<subseteq> span (va b t) 128"
    by (intro span_sub) simp
  then have "frame m m2 (span (va b t) 128)"
    using frame_mono [OF frame_trans [OF m1(3) m2(6)]] by simp
  then show thesis
    using that [of m2 ps] m1(1) m2 patches_security [OF ld(2)] ld(2) by (simp add: fill_security_tag_eq)
qed

lemma security_publish_ok:
  assumes wf: "wf_builder m b ts" and ts: "length ts < 1024" and plan: "security_layout b n = Inr plan"
    and n: "0 < unat n" "unat n \<le> 32" and s: "s = align8 (unat (b_used b))"
    and rec: "records \<noteq> 0" "load m records (144 * unat n) = Some log" "outside_arena b records (144 * unat n)"
    and crc: "bbp_crc64 log \<noteq> 0"
  obtains m' b' t ps where
    "security_publish bbp_security_builder_allocate ab records m w b plan p n rb x
       = Some (BBP_SECURITY_OK, va b t, m', b', w)" "t = s + 144 * unat n"
    "wf_builder m' b' (ts @ [(t, 128, BBP_TAG_SECURITY)])"
    "load m' (va b s) (144 * unat n) = Some log"
    "load m' (va b t) 128 = Some ps" "crc_field_ok ps 24" "drop 32 ps = security_body p n (pa b s) (bbp_crc64 log)"
proof -
  have phys: "unat (b_arena_phys b) \<le> 2 ^ 48" and ch: "chain_ok m b ts (unat (b_used b)) 0"
    using wf by (simp_all add: wf_builder_def arena_ok_def)
  note pl = security_layout_ok [OF plan n(2) phys s]
  define k where "k = 144 * unat n"
  note pl' = pl [folded k_def] and rec' = rec [folded k_def]
  have k: "0 < k" "k \<le> 4608" "8 dvd s + k" "unat (of_nat k :: u64) = k"
    using n s align8_bounds(3) unat_of_nat_u64 [of k] by (simp_all add: k_def)
  let ?b1 = "b\<lparr>b_used := of_nat (s + k)\<rparr>"
  obtain m1 where m1: "bbp_security_builder_allocate w m b BBP_SECURITY_ARENA_MEASUREMENTS records (of_nat k)
      = Some (va b s, pa b s, m1, ?b1, w)" "wf_builder m1 ?b1 ts" "load m1 (va b s) k = Some log"
      "blob_refused m1 ?b1 b plan records (va b s) (pa b s) = Some False"
    by (rule allocate_log_ok [OF wf s k(1,2) rec' _ _ pl'(1,2,3)]) (use pl'(6,7) in simp_all)
  obtain m2 b2 where m2: "bbp_security_builder_allocate w m1 ?b1 BBP_SECURITY_ARENA_TAG 0 128
      = Some (va ?b1 (s + k), pa ?b1 (s + k), m2, b2, w)"
    "wf_builder m2 b2 (ts @ [(s + k, 128, BBP_TAG_SECURITY)])" "b_arena b2 = b_arena ?b1"
    "frame m1 m2 (span (va ?b1 (s + k)) 32 \<union> link_span ?b1 ts)"
    "load m2 (va ?b1 (s + k)) 128 = Some (stamp_bytes BBP_TAG_SECURITY 1 128 @ replicate 96 0)"
    "tag_refused m2 b2 b plan (va ?b1 (s + k)) (pa ?b1 (s + k)) = Some False"
    by (rule allocate_tag_ok [OF m1(2) wf refl k(3) _ _ ts pl'(4,5)]) (use pl'(6,7) in simp_all)
  have ld2: "load m2 (va b2 (s + k)) 128 = Some (stamp_bytes BBP_TAG_SECURITY 1 128 @ replicate 96 0)"
    using m2(3,5) by simp
  obtain m3 ps where m3: "fill_security_tag m2 (va b2 (s + k)) p n (pa b s) (bbp_crc64 log) = Some m3"
    "wf_builder m3 b2 (ts @ [(s + k, 128, BBP_TAG_SECURITY)])" "load m3 (va b2 (s + k)) 128 = Some ps"
    "crc_field_ok ps 24" "drop 32 ps = security_body p n (pa b s) (bbp_crc64 log)"
    "frame m2 m3 (span (va b2 (s + k)) 128)"
    by (rule fill_security_tag_ok [OF m2(2) _ ld2, of BBP_TAG_SECURITY]) simp_all
  have cap: "unat (b_used b) \<le> s" "s + k + 128 \<le> 2 ^ 64"
    using s align8_bounds(1) pl'(6) unat_u64_less [of "b_capacity b"] by auto
  have "span (va b s) k \<inter> link_span ?b1 ts = {}"
  proof (cases ts rule: rev_cases)
    case (snoc us x)
    then have "fst (last ts) + 32 \<le> unat (b_used b)"
      using chain_ok_le [OF ch] by (cases x) force
    then have "span (va b s) k \<inter> span (va b (fst (last ts) + 16)) 8 = {}"
      using cap by (intro span_offsets) auto
    then show ?thesis
      using snoc by (simp add: link_span_def)
  qed (simp add: link_span_def)
  moreover have "span (va b s) k \<inter> span (va b (s + k)) 32 = {}"
    by (rule span_offsets) (use cap in auto)
  moreover have "span (va b s) k \<inter> span (va b (s + k)) 128 = {}"
    by (rule span_offsets) (use cap in auto)
  ultimately have "same m1 m2 (va b s) k" "same m2 m3 (va b s) k"
    using frame_same [OF m2(4), of "va b s" k] frame_same [OF m3(6), of "va b s" k] m2(3) by (auto simp: Int_Un_distrib)
  then have log: "load m3 (va b s) k = Some log"
    using m1(3) by (simp add: same_load_all)
  have "security_publish bbp_security_builder_allocate ab records m w b plan p n rb x
       = Some (BBP_SECURITY_OK, va b (s + k), m3, b2, w)"
    using rec'(2) crc m1(1,4) m2(1,3,6) m3(1) pl'(2) k(4) by (simp add: security_publish_def)
  then show thesis
    using that [of "s + k" m3 b2 ps] m3 log m2(3) by (simp add: k_def)
qed

section \<open>The collector over the real builder\<close>

definition sources_readable :: "mem \<Rightarrow> u64 \<Rightarrow> bbp_security_source list \<Rightarrow> bool" where
  "sources_readable m records ss \<longleftrightarrow>
     (\<forall>s \<in> set ss. mapped m (ss_component_name s) (unat (ss_component_name_length s)) \<and>
        disj (ss_component_name s) (unat (ss_component_name_length s)) records 4608)"

lemma name_has_nul_total:
  assumes "mapped m p n"
  obtains r where "name_has_nul m p n = Some r"
  using assms
proof (induction n arbitrary: p thesis)
  case (Suc n)
  obtain c where c: "m p = Some c"
    using Suc.prems(2) [unfolded mapped_def, rule_format, of 0] by auto
  have "mapped m (p + of_nat 1) n"
    by (rule mapped_sub [OF Suc.prems(2)]) simp
  then obtain r where "name_has_nul m (p + 1) n = Some r"
    using Suc.IH by (metis of_nat_1)
  then show ?case
    using c Suc.prems(1) [of "c = 0 \<or> r"] by (cases "c = 0") auto
qed auto

lemma validate_source_list_total:
  assumes "sources_readable m records (take n ss)" "n \<le> length ss"
  obtains st where "validate_source_list m n ss = Some st"
  using assms
proof (induction n arbitrary: ss thesis)
  case (Suc n)
  obtain s ss' where ss: "ss = s # ss'"
    using Suc.prems(3) by (cases ss) auto
  have "mapped m (ss_component_name s) (unat (ss_component_name_length s))"
    using Suc.prems(2) ss by (simp add: sources_readable_def)
  then obtain r where "name_has_nul m (ss_component_name s) (unat (ss_component_name_length s)) = Some r"
    by (rule name_has_nul_total)
  then have "validate_source m s \<noteq> None"
    by (auto simp: validate_source_def cong: if_cong split: if_splits)
  then obtain st where st: "validate_source m s = Some st"
    by blast
  obtain st' where "validate_source_list m n ss' = Some st'"
    using Suc.IH [of ss'] Suc.prems(2,3) ss by (auto simp: sources_readable_def)
  then show ?case
    using ss st Suc.prems(1) [of "if st \<noteq> BBP_SECURITY_OK then st else st'"] by simp
qed simp

lemma validate_source_list_lengths:
  "validate_source_list m n ss = Some BBP_SECURITY_OK \<Longrightarrow>
   \<forall>s \<in> set (take n ss). unat (ss_component_name_length s) < 64"
proof (induction m n ss rule: validate_source_list.induct)
  case (3 m n s ss)
  then have "validate_source m s = Some BBP_SECURITY_OK" "validate_source_list m n ss = Some BBP_SECURITY_OK"
    by (auto simp: bind_eq_Some_conv split: if_splits)
  then show ?case
    using 3 by (auto simp: validate_source_def word_less_nat_alt word_le_nat_alt split: if_splits)
qed simp_all

lemma last_readable:
  assumes "wf_builder m b ts" "b_last b \<noteq> 0"
  shows "\<exists>x. ld64 m (b_last b + 16) = Some x"
proof -
  have "ts \<noteq> []" "b_last b = va b (fst (last ts))"
    using assms by (auto simp: wf_builder_def split: if_splits)
  moreover then obtain us d z i where "ts = us @ [(d, z, i)]"
    by (metis prod_cases3 rev_exhaust)
  ultimately show ?thesis
    using assms(1) by (auto simp: wf_builder_def chain_ok_append hdr_at_def)
qed

lemma validate_builder_total:
  assumes "wf_builder m b ts"
  obtains (bad) st where "validate_builder m (Some b) n = Some (Inl st)"
  | (plan) plan where "validate_builder m (Some b) n = Some (Inr plan)" "security_layout b n = Inr plan" "length ts < 1024"
proof -
  have tc: "unat (b_tag_count b) = length ts"
    using assms by (simp add: wf_builder_def unat_of_nat_u32)
  obtain c where c: "security_chain_bad m b = Some c"
  proof (cases "b_last b = 0")
    case True
    then show thesis
      using that by (cases "b_tag_count b = 0") (simp_all add: security_chain_bad_def)
  next
    case False
    then obtain x where "ld64 m (b_last b + 16) = Some x"
      using last_readable [OF assms] by blast
    then have "security_chain_bad m b \<noteq> None"
      by (auto simp: security_chain_bad_def cong: if_cong split: if_splits)
    then show thesis
      using that by blast
  qed
  have guards: "(\<exists>st. (if A then Some (Inl e) else if c then Some (Inl e) else if C then Some (Inl e') else Some x)
      = Some (Inl st)) \<or>
    (if A then Some (Inl e) else if c then Some (Inl e) else if C then Some (Inl e') else Some x) = Some x \<and> \<not> C"
    for A C e e' and x :: "bbp_security_status + bbp_security_plan"
    by auto
  have "(\<exists>st. validate_builder m (Some b) n = Some (Inl st)) \<or>
      validate_builder m (Some b) n = Some (security_layout b n) \<and> \<not> BBP_SECURITY_MAX_TAGS \<le> b_tag_count b"
    unfolding validate_builder_def option.case c Option.bind.bind_lunit by (rule guards)
  then show thesis
    using bad plan tc by (cases "security_layout b n") (auto simp: word_le_nat_alt security_consts)
qed

text \<open>What a successful collection leaves: the log at the next aligned offset of the arena holds exactly
  one record per extension, in order, and the sealed tag behind it points to the log with its checksum.\<close>

definition published_log ::
  "mem \<Rightarrow> mem \<Rightarrow> bbp_builder \<Rightarrow> bbp_builder \<Rightarrow> tag_desc list \<Rightarrow> bbp_security_platform \<Rightarrow> u32 \<Rightarrow> bbp_security_source list \<Rightarrow>
   u64 \<Rightarrow> tpm_event list \<Rightarrow> bool" where
  "published_log m m' b b' ts p n ss tag evs \<longleftrightarrow>
     (\<exists>ds log s t ps. length ds = length ss \<and> evs = extended ss ds \<and> log = concat (map2 (record_bytes m) ss ds) \<and>
        s = align8 (unat (b_used b)) \<and> t = s + 144 * unat n \<and> tag = va b t \<and>
        wf_builder m' b' (ts @ [(t, 128, BBP_TAG_SECURITY)]) \<and> load m' (va b s) (144 * unat n) = Some log \<and>
        load m' tag 128 = Some ps \<and> crc_field_ok ps 24 \<and>
        drop 32 ps = security_body p n (pa b s) (bbp_crc64 log))"

text \<open>The only ways to end in the abort hook.\<close>

definition abort_excused :: "mem \<Rightarrow> bbp_security_source list \<Rightarrow> tpm_event list \<Rightarrow> bool" where
  "abort_excused m ss evs \<longleftrightarrow>
     (\<exists>pcr rc d. rc \<noteq> 0 \<and> Extended pcr rc d \<in> set evs) \<or>
     (\<exists>ds. length ds = length ss \<and> bbp_crc64 (concat (map2 (record_bytes m) ss ds)) = 0 \<and>
        evs = extended ss ds @ [Aborted BBP_SECURITY_ERR_PUBLISH_AFTER_TPM])"

definition collect_outcome ::
  "mem \<Rightarrow> bbp_builder \<Rightarrow> tag_desc list \<Rightarrow> u64 \<Rightarrow> bbp_security_platform option \<Rightarrow> u32 \<Rightarrow> bbp_security_source list \<Rightarrow>
   bbp_security_status \<times> u64 \<times> mem \<times> bbp_builder \<times> tpm_event list \<Rightarrow> bool" where
  "collect_outcome m b ts records platform n ss = (\<lambda>(st, tag, m', b', evs).
     if st = BBP_SECURITY_OK then \<exists>p. platform = Some p \<and> published_log m m' b b' ts p n ss tag evs
     else tag = 0 \<and> b' = b \<and> wf_builder m' b ts \<and> frame m m' (span records 4608) \<and>
       (st = BBP_SECURITY_ERR_ABORT_RETURNED \<longrightarrow> abort_excused m ss evs))"

lemma execute_prepares:
  assumes wf: "wf_builder m b ts" and plan: "security_layout b n = Inr plan" and n: "unat n \<le> 32"
    and rec: "mapped m records 4608"
  obtains x rb m0 where
    "(if b_last b \<noteq> 0 then ld64 m (b_last b + off struct_bbp_tag_header ''next_tag'') else Some 0) = Some x"
    "load m (b_arena b + pl_blob_start plan) (unat (pl_tag_end plan - pl_blob_start plan)) = Some rb"
    "security_memzero m records (unat (ucast BBP_SECURITY_MAX_MEASUREMENTS * sizeof struct_bbp_measurement :: u64)) = Some m0"
    "load m0 records 4608 = Some (replicate 4608 0)" "frame m m0 (span records 4608)" "same_dom m m0"
proof -
  define s where "s = align8 (unat (b_used b))"
  have ar: "arena_ok m b"
    using wf by (simp add: wf_builder_def)
  then have "unat (b_arena_phys b) \<le> 2 ^ 48"
    by (simp add: arena_ok_def)
  note pl = security_layout_ok [OF plan n this s_def]
  obtain x where x: "(if b_last b \<noteq> 0 then ld64 m (b_last b + off struct_bbp_tag_header ''next_tag'') else Some 0) = Some x"
    using last_readable [OF wf] by (cases "b_last b = 0") auto
  have "pl_tag_end plan - pl_blob_start plan = of_nat (144 * unat n + 128)"
    unfolding pl by simp
  then have "unat (pl_tag_end plan - pl_blob_start plan) = 144 * unat n + 128"
    using n unat_of_nat_u64 [of "144 * unat n + 128"] by simp
  then have "mapped m (va b s) (unat (pl_tag_end plan - pl_blob_start plan))"
    using ar pl(6) by (intro mapped_sub [of m "b_arena b" "unat (b_capacity b)"]) (auto simp: arena_ok_def)
  then obtain rb where rb: "load m (va b s) (unat (pl_tag_end plan - pl_blob_start plan)) = Some rb"
    using load_ex_iff by blast
  obtain m0 where m0: "store m records (replicate 4608 0) = Some m0"
    using store_ok [of m records "replicate 4608 0"] rec by auto
  have z: "security_memzero m records (unat (ucast BBP_SECURITY_MAX_MEASUREMENTS * sizeof struct_bbp_measurement :: u64)) = Some m0"
    using security_memzero_eq [of 4608 m records] m0 by (simp add: security_consts)
  show thesis
    using that [OF x _ z] rb pl(1) load_store_same [OF m0] frame_store [OF m0] same_dom_store [OF m0] by simp
qed

lemma security_execute_ok:
  assumes wf: "wf_builder m b ts" and ts: "length ts < 1024" and plan: "security_layout b n = Inr plan"
    and n: "0 < unat n" "unat n \<le> 32" "unat n \<le> length srcs"
    and nm: "names_ok m records (take (unat n) srcs)" and he: "digest_size he"
    and rec: "records \<noteq> 0" "mapped m records 4608" "outside_arena b records 4608"
  obtains st tag m' b' w' where
    "security_execute (log_extend he) bbp_security_builder_allocate (log_abort ab) records m (v, []) b plan p srcs n
       = Some (st, tag, m', b', w')"
    "collect_outcome m b ts records (Some p) n (take (unat n) srcs) (st, tag, m', b', snd w')"
proof -
  let ?ss = "take (unat n) srcs"
  obtain x rb m0 where prep:
    "(if b_last b \<noteq> 0 then ld64 m (b_last b + off struct_bbp_tag_header ''next_tag'') else Some 0) = Some x"
    "load m (b_arena b + pl_blob_start plan) (unat (pl_tag_end plan - pl_blob_start plan)) = Some rb"
    "security_memzero m records (unat (ucast BBP_SECURITY_MAX_MEASUREMENTS * sizeof struct_bbp_measurement :: u64)) = Some m0"
    "load m0 records 4608 = Some (replicate 4608 0)" "frame m m0 (span records 4608)" "same_dom m m0"
    by (rule execute_prepares [OF wf plan n(2) rec(2)])
  have len: "length ?ss = unat n" "144 * (0 + length ?ss) \<le> 4608"
    using n by simp_all
  have z: "load m0 (records + of_nat (144 * 0)) (144 * length ?ss) = Some (replicate (144 * length ?ss) 0)"
    using load_sub [OF prep(4), of 0 "144 * unat n"] n len by simp
  obtain res m1 w1 where loop: "measure_loop (log_extend he) (log_abort ab) records m0 (v, []) 0 ?ss = Some (res, m1, w1)"
    "frame m0 m1 (span (records + of_nat (144 * 0)) (144 * length ?ss))" "same_dom m0 m1"
    "res = Inr () \<Longrightarrow> \<exists>ds. length ds = length ?ss \<and> snd w1 = snd (v, []) @ extended ?ss ds \<and>
       load m1 (records + of_nat (144 * 0)) (144 * length ?ss) = Some (concat (map2 (record_bytes m0) ?ss ds))"
    using measure_loop_ok [OF he names_ok_frame [OF nm prep(6)] len(2) z, of ab "(v, [])"] by blast
  have fr: "frame m m1 (span records 4608)" and dom: "same_dom m m1"
    using frame_mono [OF frame_trans [OF prep(5) loop(2)], of "span records 4608"] span_mono [of "144 * length ?ss" 4608 records]
      len(2) same_dom_trans [OF prep(6) loop(3)] by auto
  have wf1: "wf_builder m1 b ts"
    by (rule wf_builder_outside [OF wf fr dom rec(3)])
  show thesis
  proof (cases res)
    case (Inl e)
    with measure_loop_trace [OF loop(1)] obtain ds rc d where "rc \<noteq> 0"
      "let failed = Extended (ss_pcr_index (?ss ! length ds)) rc d in
       if 0 + length ds = 0 then e = BBP_SECURITY_ERR_TPM \<and> snd w1 = snd (v, []) @ [failed]
       else e = BBP_SECURITY_ERR_ABORT_RETURNED \<and>
         snd w1 = snd (v, []) @ extended ?ss ds @ [failed, Aborted BBP_SECURITY_ERR_PUBLISH_AFTER_TPM]"
      unfolding Inl sum.case by blast
    then have "rc \<noteq> 0" "e \<noteq> BBP_SECURITY_OK" "Extended (ss_pcr_index (?ss ! length ds)) rc d \<in> set (snd w1)"
      by (simp_all add: Let_def split: if_splits)
    then have "collect_outcome m b ts records (Some p) n ?ss (e, 0, m1, b, snd w1)"
      using wf1 fr by (auto simp: collect_outcome_def abort_excused_def)
    then show thesis
      using that Inl prep loop(1) by (simp add: security_execute_def)
  next
    case (Inr u)
    then obtain ds where ds: "length ds = length ?ss" "snd w1 = extended ?ss ds"
      "load m1 records (144 * unat n) = Some (concat (map2 (record_bytes m0) ?ss ds))"
      using loop(4) len(1) by auto
    define log where "log = concat (map2 (record_bytes m) ?ss ds)"
    have "map2 (record_bytes m0) ?ss ds = map2 (record_bytes m) ?ss ds"
      using record_bytes_frame [OF nm _ prep(5)] by (auto dest: set_zip_leftD intro!: map_cong)
    then have log: "load m1 records (144 * unat n) = Some log"
      using ds(3) by (simp only: log_def)
    have ex: "security_execute (log_extend he) bbp_security_builder_allocate (log_abort ab) records m (v, []) b plan p srcs n
        = security_publish bbp_security_builder_allocate (log_abort ab) records m1 w1 b plan p n rb x"
      using prep(1-3) loop(1) Inr by (auto simp: security_execute_def split: unit.splits)
    have out: "outside_arena b records (144 * unat n)"
      using rec(3) n(2) disj_mono by (fastforce simp: outside_arena_def)
    show thesis
    proof (cases "bbp_crc64 log = 0")
      case True
      have "unat (pl_log_bytes plan) = 144 * unat n"
        using security_layout_ok(2) [OF plan n(2) _ refl] wf n(2) unat_of_nat_u64 [of "144 * unat n"]
        by (simp add: wf_builder_def arena_ok_def)
      then have "security_publish bbp_security_builder_allocate (log_abort ab) records m1 w1 b plan p n rb x
          = Some (BBP_SECURITY_ERR_ABORT_RETURNED, 0, m1, b, log_abort ab w1 BBP_SECURITY_ERR_PUBLISH_AFTER_TPM)"
        using True log by (simp add: security_publish_def abort_after_tpm_def)
      then show thesis
        using ex True ds(1,2) wf1 fr log_def by (intro that) (auto simp: collect_outcome_def abort_excused_def log_abort_def)
    next
      case False
      obtain m2 b2 t ps where m2: "security_publish bbp_security_builder_allocate (log_abort ab) records m1 w1 b plan p n rb x
          = Some (BBP_SECURITY_OK, va b t, m2, b2, w1)" "t = align8 (unat (b_used b)) + 144 * unat n"
        "wf_builder m2 b2 (ts @ [(t, 128, BBP_TAG_SECURITY)])"
        "load m2 (va b (align8 (unat (b_used b)))) (144 * unat n) = Some log" "load m2 (va b t) 128 = Some ps"
        "crc_field_ok ps 24" "drop 32 ps = security_body p n (pa b (align8 (unat (b_used b)))) (bbp_crc64 log)"
        by (rule security_publish_ok [OF wf1 ts plan n(1,2) refl rec(1) log out False])
      have "published_log m m2 b b2 ts p n ?ss (va b t) (snd w1)"
        unfolding published_log_def using m2(2-) ds(1,2) log_def by blast
      then show thesis
        using ex m2(1) by (intro that) (auto simp: collect_outcome_def)
    qed
  qed
qed

text \<open>C7. The collector over the real builder. Let the builder be well formed, the sources' names readable
  and apart from the record array, the array outside the arena, and let the hash callback fill 32 digest
  bytes. Then \<open>bbp_security_collect\<close> with the arena adapter of the module never faults. On success the
  arena holds, at the next aligned offset, exactly one record per TPM extension, in order, with the PCR,
  the digest the TPM was extended with and the component's name; behind it a sealed SECURITY tag, linked
  at the end of the chain, gives the log's physical address, count and checksum. On failure nothing was
  published and the builder and its arena are unchanged. The abort hook is reached only if an extension
  itself failed or the log's checksum is zero: publication cannot fail once the plan was accepted.\<close>

theorem security_collect_publishes:
  assumes "wf_builder m b ts" "sources_readable m records (take (unat n) srcs)" "unat n \<le> length srcs"
    and "records \<noteq> 0" "mapped m records 4608" "outside_arena b records 4608" "digest_size he"
  shows "\<exists>st tag m' b' w'.
    bbp_security_collect records m (v, []) (Some b) platform sources srcs n
      (Some (log_callbacks \<lparr>cb_hash_extend = Some he, cb_arena_allocate = Some bbp_security_builder_allocate,
         cb_abort = Some ab\<rparr>)) out_tag = Some (st, tag, m', Some b', w') \<and>
    collect_outcome m b ts records platform n (take (unat n) srcs) (st, tag, m', b', snd w')"
proof -
  let ?ss = "take (unat n) srcs"
  let ?cb = "log_callbacks \<lparr>cb_hash_extend = Some he, cb_arena_allocate = Some bbp_security_builder_allocate,
         cb_abort = Some ab\<rparr>"
  let ?c = "bbp_security_collect records m (v, []) (Some b) platform sources srcs n (Some ?cb) out_tag"
  have cb: "cb_hash_extend ?cb = Some (log_extend he)" "cb_arena_allocate ?cb = Some bbp_security_builder_allocate"
    "cb_abort ?cb = Some (log_abort ab)"
    by (simp_all add: log_callbacks_def log_allocate_builder)
  have refused: ?thesis if "?c = Some (st, 0, m, Some b, (v, []))" "refusal st" for st
    using that assms(1) by (auto simp: collect_outcome_def)
  obtain vl where "validate_source_list m (unat n) srcs = Some vl"
    by (rule validate_source_list_total [OF assms(2,3)])
  then have "validate_sources m sources srcs n \<noteq> None"
    by (simp add: validate_sources_def cong: if_cong)
  then obtain vs where vs: "validate_sources m sources srcs n = Some vs"
    by blast
  consider (early) "out_tag = 0 \<or> vs \<noteq> BBP_SECURITY_OK \<or> validate_platform platform \<noteq> BBP_SECURITY_OK"
    | (late) p where "out_tag \<noteq> 0" "vs = BBP_SECURITY_OK" "validate_platform platform = BBP_SECURITY_OK" "platform = Some p"
    by (cases platform) (auto simp: validate_platform_def)
  then show ?thesis
  proof cases
    case early
    then show ?thesis
      using refused vs cb validate_sources_refusal [OF vs] validate_platform_refusal [of platform]
      by (auto simp: bbp_security_collect_def)
  next
    case late
    show ?thesis
    proof (cases rule: validate_builder_total [OF assms(1), of n, case_names bad plan])
      case (bad st)
      then show ?thesis
        using refused [of st] late vs cb validate_builder_refusal [OF bad] by (simp add: bbp_security_collect_def)
    next
      case (plan plan)
      show ?thesis
      proof (cases "spans_overlap out_tag 8 (b_arena b) (b_capacity b)")
        case True
        then show ?thesis
          using refused [of BBP_SECURITY_ERR_RANGE] late vs cb plan by (simp add: bbp_security_collect_def)
      next
        case False
        note n = validate_sources_accepts [OF vs [unfolded late]]
        have "names_ok m records ?ss"
          using assms(2) validate_source_list_lengths [OF n(4)] by (simp add: names_ok_def sources_readable_def)
        then obtain st tag m' b' w' where ex: "security_execute (log_extend he) bbp_security_builder_allocate (log_abort ab)
            records m (v, []) b plan p srcs n = Some (st, tag, m', b', w')"
          "collect_outcome m b ts records (Some p) n ?ss (st, tag, m', b', snd w')"
          by (rule security_execute_ok [OF assms(1) plan(3,2) n(1-3) _ assms(7) assms(4-6)])
        have "?c = Some (st, tag, m', Some b', w')"
          using False late vs cb plan ex(1) by (simp add: bbp_security_collect_def)
        then show ?thesis
          using ex(2) late(4) by blast
      qed
    qed
  qed
qed

section \<open>A concrete collection\<close>

text \<open>One component named \<open>AB\<close> measured into PCR 4, with the builder of the earlier sessions.\<close>

definition demo_source :: bbp_security_source where
  "demo_source = \<lparr>ss_pcr_index = 4, ss_algorithm = 1, ss_hash_length = 32, ss_reserved = 0, ss_data = 0x70000,
     ss_data_length = 16, ss_component_name = 0x40000, ss_component_name_length = 2\<rparr>"

definition demo_platform :: bbp_security_platform where
  "demo_platform = \<lparr>sp_tpm_base_address = 0xFED40000, sp_tpm_version = 0x200, sp_tpm_interface = 1,
     sp_tpm_flags = BBP_TPM_FLAG_ACTIVE,
     sp_secure_boot = \<lparr>sb_mode = 2, sb_signature_verified = 1, sb_pk_present = 1, sb_kek_present = 1,
       sb_db_present = 1, sb_dbx_present = 0, sb_reserved = 0\<rparr>\<rparr>"

lemma demo_memory:
  obtains m where "wf_builder m demo_builder []" "m 0x40000 = Some 65" "m 0x40001 = Some 66" "\<forall>a n. mapped m a n"
proof -
  obtain m0 where m0: "wf_builder m0 demo_builder []" "same_dom (\<lambda>_. Some 0) m0"
    by (rule demo_init)
  have all: "mapped m0 a n" for a n
    using same_dom_mapped [OF m0(2), of a n] by (simp add: mapped_def)
  obtain m where m: "store m0 0x40000 [65, 66] = Some m"
    using store_ok [OF all] by blast
  have "wf_builder m demo_builder []"
    by (rule wf_builder_other [OF m0(1) m]) (auto simp: outside_arena_def intro!: disj_apart)
  moreover have "load m 0x40000 (Suc (Suc 0)) = Some [65, 66]"
    using load_store_same [OF m] by simp
  then have "m (0x40000 + of_nat 0) = Some ([65, 66] ! 0)" "m (0x40000 + of_nat 1) = Some ([65, 66] ! 1)"
    unfolding load_eq_Some_iff by (blast, auto)
  then have "m 0x40000 = Some 65" "m 0x40001 = Some 66"
    by simp_all
  moreover have "mapped m a n" for a n
    using same_dom_mapped [OF same_dom_store [OF m]] all by simp
  ultimately show thesis
    using that by blast
qed

lemma demo_outside: "outside_arena demo_builder 0x30000 4608" "disj 0x40000 2 0x30000 4608"
  by (auto simp: outside_arena_def intro!: disj_apart)

lemma demo_names: "mapped m 0x40000 2 \<Longrightarrow> names_ok m 0x30000 [demo_source]"
  using demo_outside(2) by (simp add: names_ok_def demo_source_def)

lemma demo_run:
  assumes "m 0x40000 = Some 65" "m 0x40001 = Some 66" "out_tag = 0x60000"
  obtains plan where "security_layout demo_builder 1 = Inr plan"
    "bbp_security_collect records m w (Some demo_builder) (Some demo_platform) 0x50000 [demo_source] 1
       (Some \<lparr>cb_hash_extend = Some he, cb_arena_allocate = Some al, cb_abort = Some ab\<rparr>) out_tag =
     do {
       (st, tag, m, b, w) \<leftarrow> security_execute he al ab records m w demo_builder plan demo_platform [demo_source] 1;
       Some (st, tag, m, Some b, w)
     }"
proof -
  have "name_has_nul m 0x40000 (Suc (Suc 0)) = Some False"
    using assms(1,2) by simp
  then have nul: "name_has_nul m 0x40000 2 = Some False"
    unfolding numeral_2_eq_2 .
  then have src: "validate_sources m 0x50000 [demo_source] 1 = Some BBP_SECURITY_OK"
    by (simp add: validate_sources_def validate_source_def demo_source_def security_consts
        pointer_span_valid_def sizeof_source_def)
  have plat: "validate_platform (Some demo_platform) = BBP_SECURITY_OK"
    by (simp add: validate_platform_def demo_platform_def security_consts BBP_TPM_FLAG_ACTIVE_def
        BBP_TPM_FLAG_SUPPORTS_SHA384_def BBP_TPM_FLAG_SUPPORTS_SHA512_def)
  obtain plan where plan: "security_layout demo_builder 1 = Inr plan"
    by (simp add: security_layout_def security_align8_def security_consts)
  then have "validate_builder m (Some demo_builder) 1 = Some (Inr plan)"
    by (simp add: validate_builder_def security_chain_bad_def security_consts)
  moreover have "\<not> spans_overlap 0x60000 8 (b_arena demo_builder) (b_capacity demo_builder)"
    by (simp add: spans_overlap_def pointer_span_valid_def)
  ultimately show thesis
    using that [OF plan] src plat assms(3) by (simp add: bbp_security_collect_def)
qed

abbreviation demo_callbacks :: "int \<Rightarrow> unit bbp_security_callbacks" where
  "demo_callbacks rc \<equiv> \<lparr>cb_hash_extend = Some (\<lambda>w m pcr alg d n. ((rc, replicate 32 0), w)),
     cb_arena_allocate = Some bbp_security_builder_allocate, cb_abort = Some (\<lambda>w reason. w)\<rparr>"

text \<open>A TPM that refuses the first extension.\<close>

lemma demo_refused:
  obtains m m' where "bbp_security_collect 0x30000 m ((), []) (Some demo_builder) (Some demo_platform) 0x50000 [demo_source] 1
      (Some (log_callbacks (demo_callbacks 1))) 0x60000
    = Some (BBP_SECURITY_ERR_TPM, 0, m', Some demo_builder, ((), [Extended 4 1 (replicate 32 0)]))"
proof -
  obtain m where m: "wf_builder m demo_builder []" "m 0x40000 = Some 65" "m 0x40001 = Some 66" "\<forall>a n. mapped m a n"
    by (rule demo_memory)
  let ?he = "log_extend (\<lambda>w m pcr alg d n. ((1, replicate 32 0), w))" and ?ab = "log_abort (\<lambda>w reason. w)"
  obtain plan where plan: "security_layout demo_builder 1 = Inr plan"
    "bbp_security_collect 0x30000 m ((), []) (Some demo_builder) (Some demo_platform) 0x50000 [demo_source] 1
       (Some \<lparr>cb_hash_extend = Some ?he, cb_arena_allocate = Some bbp_security_builder_allocate, cb_abort = Some ?ab\<rparr>) 0x60000 =
     do {
       (st, tag, m, b, w) \<leftarrow> security_execute ?he bbp_security_builder_allocate ?ab 0x30000 m ((), []) demo_builder plan
          demo_platform [demo_source] 1;
       Some (st, tag, m, Some b, w)
     }"
    by (rule demo_run [OF m(2,3) refl])
  obtain x rb m0 where prep:
    "(if b_last demo_builder \<noteq> 0 then ld64 m (b_last demo_builder + off struct_bbp_tag_header ''next_tag'') else Some 0) = Some x"
    "load m (b_arena demo_builder + pl_blob_start plan) (unat (pl_tag_end plan - pl_blob_start plan)) = Some rb"
    "security_memzero m 0x30000 (unat (ucast BBP_SECURITY_MAX_MEASUREMENTS * sizeof struct_bbp_measurement :: u64)) = Some m0"
    "load m0 0x30000 4608 = Some (replicate 4608 0)" "frame m m0 (span 0x30000 4608)" "same_dom m m0"
    by (rule execute_prepares [OF m(1) plan(1) _ m(4) [rule_format]]) simp
  have z: "load m0 0x30000 144 = Some (replicate 144 0)"
    using load_sub [OF prep(4), of 0 144] by simp
  obtain name where nm: "load m0 (ss_component_name demo_source) (unat (ss_component_name_length demo_source)) = Some name"
    using m(4) same_dom_mapped [OF prep(6)] load_ex_iff by metis
  then have nl: "length name < 64" "disj (ss_component_name demo_source) (unat (ss_component_name_length demo_source)) 0x30000 144"
    using load_length [OF nm] disj_mono [OF demo_outside(2), of 2 144] by (simp_all add: demo_source_def)
  obtain m1 m2 where "fill_record m0 0x30000 demo_source = Some m1" "store m1 (0x30000 + 8) (replicate 32 0) = Some m2"
    by (rule fill_record_ok [OF z nm nl, of "replicate 32 0"]) simp_all
  then have "measure_loop ?he ?ab 0x30000 m0 ((), []) 0 [demo_source]
      = Some (Inl BBP_SECURITY_ERR_TPM, m2, ((), [Extended 4 1 (replicate 32 0)]))"
    by (simp add: log_extend_def demo_source_def)
  then show thesis
    using that plan(2) prep(1-3) by (simp add: security_execute_def log_callbacks_def log_allocate_builder del: measure_loop.simps)
qed

theorem security_collect_trace_witness:
  "\<exists>m m'. bbp_security_collect 0x30000 m ((), []) (Some demo_builder) (Some demo_platform) 0x50000 [demo_source] 1
      (Some (log_callbacks (demo_callbacks 1))) 0x60000
    = Some (BBP_SECURITY_ERR_TPM, 0, m', Some demo_builder, ((), [Extended 4 1 (replicate 32 0)])) \<and>
    tpm_trace_ok BBP_SECURITY_ERR_TPM [demo_source] [Extended 4 1 (replicate 32 0)]"
proof -
  obtain m m' where m: "bbp_security_collect 0x30000 m ((), []) (Some demo_builder) (Some demo_platform) 0x50000 [demo_source] 1
      (Some (log_callbacks (demo_callbacks 1))) 0x60000
    = Some (BBP_SECURITY_ERR_TPM, 0, m', Some demo_builder, ((), [Extended 4 1 (replicate 32 0)]))"
    by (rule demo_refused)
  from security_collect_trace [OF this] show ?thesis
    using m by auto
qed

theorem security_collect_publishes_witness:
  "\<exists>m st tag m' b' w'. wf_builder m demo_builder [] \<and> sources_readable m 0x30000 [demo_source] \<and>
     bbp_security_collect 0x30000 m ((), []) (Some demo_builder) (Some demo_platform) 0x50000 [demo_source] 1
       (Some (log_callbacks (demo_callbacks 0))) 0x60000 = Some (st, tag, m', Some b', w') \<and>
     collect_outcome m demo_builder [] 0x30000 (Some demo_platform) 1 [demo_source] (st, tag, m', b', snd w')"
proof -
  obtain m where m: "wf_builder m demo_builder []" "m 0x40000 = Some 65" "m 0x40001 = Some 66" "\<forall>a n. mapped m a n"
    by (rule demo_memory)
  have "sources_readable m 0x30000 [demo_source]"
    using m(4) demo_outside(2) by (simp add: sources_readable_def demo_source_def)
  then show ?thesis
    using security_collect_publishes [OF m(1), where records = "0x30000" and n = 1 and srcs = "[demo_source]"
        and platform = "Some demo_platform" and sources = "0x50000" and out_tag = "0x60000" and v = "()"
        and he = "\<lambda>w m pcr alg d n. ((0, replicate 32 0), w)" and ab = "\<lambda>w reason. w"] m(1,4) demo_outside(1)
    by auto
qed

end
