(* ===== verification/Spec2Isabelle.thy ===== *)
theory Spec2Isabelle
  imports Bridge_Kernel Import_Limine Import_Uefi Multiboot2_Import V2_Auth V2_Profile Address_Space Uefi_Exit Boot_State Tcg2 Security_Spec
begin

text \<open>
  \<^bold>\<open>Bear Boot Protocol: a verification development for the C sources under \<open>src/\<close>.\<close>

  \<^bold>\<open>The program.\<close> A boot loader hands a kernel a chain of tags in memory: an information block and a
  singly linked list of typed, checksummed records (protocol version 1). The loader side fills an arena with
  the tag builder, usually through an importer that converts what another boot protocol provides; the kernel
  side checks the information block and walks the chain. Version 2 replaces the chain by one self-contained
  capsule with a directory; it has a builder, a parser, a profile of required entries and an authenticated
  envelope, and a bridge converts between the versions. Around the formats are the parts of the UEFI loader:
  the ELF64 load planner, the page tables and the retry loop that leaves boot services. Experimental parts
  measure components into a TPM and decide on rollback.

  \<^bold>\<open>Common conventions.\<close> C integers are words of their width, so that arithmetic wraps as in C. Memory is a
  partial map from 64-bit addresses to bytes; code that takes a pointer and an extent reads a byte list. An
  access outside memory or outside a buffer gives \<^term>\<open>None\<close>, and is thus distinct from an error the
  code returns, which is \<^term>\<open>Inl\<close> or a status value. Structures are records; where the code depends on
  their bytes they are packed layouts at the offsets of the header files. Code that belongs to the caller or to
  the firmware (callbacks, mappings, services) is an argument, and acts on a world of arbitrary type
  where it has effects. What is assumed of it are premises of the theorems that need them.

  \<^bold>\<open>Theories.\<close>

  \<^item> \<open>Bbp_Prelude\<close>: words, byte buffers, memory with loads, stores and frames, the little-endian codec (the
    locale \<open>byte_codec\<close>, interpreted for three widths), and the lemma collections the others use.

  \<^item> \<open>Crc64\<close>: \<open>include/bbp/bbp_crc64.h\<close>. The bitwise loop is linear, incremental (locale \<open>checksum\<close>) and
    detects every error burst of up to eight bytes.

  \<^item> \<open>Abi\<close>: \<open>include/bbp/bbp.h\<close>, the layouts of all structures and the identifiers.

  \<^item> \<open>Bbp_Kernel\<close>: \<open>kernel/bbp_kernel.c\<close>. The context is a record; initialisation, the walk, lookup, iteration
    and evidence are one function each. Under a mapped window nothing faults whatever the chain contains, the
    loops are list operations on one finite chain, and a tag that is found lies in the window with the right
    checksum.

  \<^item> \<open>Builder\<close>, \<open>Builder_Wf\<close>, \<open>Builder_Seal\<close>: \<open>bootloader/bbp_build.c\<close>, the arena invariant, that every
    operation keeps it, and that sealing terminates. \<open>Handoff\<close> connects both sides: what the builder finalises
    the kernel accepts, tag by tag. \<open>Build_Script\<close> lifts this to sequences of operations as a step relation.

  \<^item> \<open>Utf8\<close>, \<open>Import\<close>, \<open>Import_Emit\<close>, \<open>Import_Tags\<close>: \<open>bootloader/bbp_import.c\<close>, its validation functions and
    the two-pass discipline of the importers, a plan that computes the space and then the emission. The locale
    \<open>planned_allocation\<close> states why a planned emission cannot fail; it is interpreted for single requests and
    for parts of a tag.

  \<^item> \<open>Import_Limine\<close>, \<open>Import_Uefi\<close>, \<open>Import_Multiboot2\<close> with \<open>Multiboot2_Spec\<close> and \<open>Multiboot2_Import\<close>: the
    three importers, \<open>bootloader/bbp_import_limine.c\<close>, \<open>bbp_import_uefi.c\<close> and \<open>bbp_import_multiboot2.c\<close>. None
    faults, each refuses without any change or appends exactly the tags its input describes.

  \<^item> \<open>V2\<close>, \<open>V2_Parse\<close>, \<open>V2_Build\<close>, \<open>V2_Spec\<close>: \<open>v2/bbp_v2.c\<close>. The parser accepts exactly the well-formed
    capsules, build and parse are inverse, corruption is refused, the digest is canonical. \<open>V2_Profile\<close> and
    \<open>V2_Auth\<close>: \<open>v2/bbp_v2_profile.c\<close> and \<open>v2/bbp_v2_auth.c\<close>. Acceptance is exact in both, and in an envelope
    whose MAC is rejected the capsule has not been read by the parser: the call returns the MAC error
    even where reading the capsule would fault.

  \<^item> \<open>Bridge\<close>, \<open>Bridge_Spec\<close>, \<open>Bridge_Back\<close>, \<open>Bridge_Kernel\<close>: \<open>bridge/bbp_bridge.c\<close> in both directions, the
    round trip, and agreement with the kernel parser on what a chain contains.

  \<^item> \<open>Elf64\<close>, \<open>Page_Tables\<close>, \<open>Address_Space\<close>: \<open>bootloader/uefi/elf64_loader.c\<close> and the functions
    \<open>table_new\<close>, \<open>map_page\<close> and \<open>build_page_tables\<close> of \<open>bootloader/efi_main.c\<close>. Accepted plans are sound, and
    the tables translate, by the walk of the processor, exactly the intended address space. \<open>Uefi_Exit\<close>:
    \<open>bootloader/uefi/uefi_exit.c\<close>, its protocol for every behaviour of the firmware, and that it succeeds on
    firmware that accepts only the current key of its map and changes the map a bounded number of times.

  \<^item> \<open>Security\<close>, \<open>Security_Spec\<close>: \<open>experimental/firmware/uefi/bbp_security_collector.c\<close>. \<open>Sha256\<close>, \<open>Tcg2\<close>:
    \<open>experimental/firmware/uefi/tcg2/bbp_uefi_tcg2.c\<close>, with SHA-256 against a definition of FIPS 180-4.
    \<open>Boot_State\<close>: \<open>experimental/rollback/bbp_boot_state.c\<close>, and the histories it permits as an inductive relation.

  \<^bold>\<open>Bounds and termination.\<close> No definition has fuel. Loops with a counter are recursion on the counter, with
  the bound of the source (1024 tags in a walk, eight attempts to exit boot services, 32 program headers, 32
  measurements). The four loops without one are partial functions whose value \<^term>\<open>None\<close> covers not
  returning: \<open>seal_loop\<close> of the builder, \<open>scan_loop\<close> and \<open>modules_loop\<close> of the Multiboot2 importer and
  \<open>update_loop\<close> of SHA-256. The theorems about the functions that call them say that a value is returned.
  The page tables are built in a pool of any size: the statement says how many tables are needed.

  \<^bold>\<open>Not modelled.\<close> The rest of \<open>bootloader/efi_main.c\<close>, which calls firmware protocols, writes to the serial
  port and jumps to the kernel in assembly; \<open>bootloader/uefi/uefi_min.h\<close>, which only declares the firmware
  interface; \<open>include/bbp/bbp_osif.h\<close> and the kernel ports under \<open>ports/\<close>, which bind symbols of kernels that
  are not in the repository; the Rust implementation under \<open>sdk/rust\<close>; the Python programs under \<open>tools/\<close>,
  \<open>scripts/\<close> and \<open>experimental/auth2\<close>; the examples and tests. The memory model has no concurrent writers, and
  the compiler, the processor apart from its address translation, and the strength of the
  cryptography are outside the development.
\<close>

end
